(* ===== verification/Prelude.thy ===== *)
theory Prelude
  imports Main "HOL-Library.Word" "HOL-Library.Signed_Division"
begin

text \<open>
  What every component of the development shares: the C integer types at their width, the
  conversions the C code performs between them, byte sequences in little-endian order, and
  the list lemmas about buffers that are written and read by offset. The collections
  \<open>buf_simps\<close> (buffers) and \<open>le_simps\<close> (byte order) are declared here and filled
  by the components.
\<close>

unbundle bit_operations_syntax

named_theorems buf_simps \<open>rewriting of buffers written and read by offset\<close>
named_theorems le_simps \<open>rewriting of little-endian encodings\<close>

section \<open>C integer types\<close>

type_synonym u8 = "8 word"
type_synonym u16 = "16 word"
type_synonym u32 = "32 word"
type_synonym u64 = "64 word"
type_synonym bytes = "8 word list"

text \<open>
  A C \<open>int\<close>/\<open>int32_t\<close> is an \<open>int\<close> here; \<open>to_i32\<close> is the conversion of an
  out-of-range value to it (two's complement, as every target of the repository does).
  Division and remainder of C truncate towards zero: \<open>sdiv\<close> and \<open>smod\<close>.
\<close>

definition to_i32 :: "int \<Rightarrow> int" where
  "to_i32 x = signed_take_bit 31 x"

lemma to_i32_id: "- (2 ^ 31) \<le> x \<Longrightarrow> x < 2 ^ 31 \<Longrightarrow> to_i32 x = x"
  by (simp add: to_i32_def signed_take_bit_int_eq_self)

lemma to_i32_range: "- (2 ^ 31) \<le> to_i32 x \<and> to_i32 x < 2 ^ 31"
  using signed_take_bit_int_greater_eq_minus_exp [of 31 x] signed_take_bit_int_less_exp [of 31 x]
  by (simp add: to_i32_def)

section \<open>Error codes of the IDF\<close>

datatype esp_err =
    ESP_OK | ESP_FAIL | ESP_ERR_NO_MEM | ESP_ERR_INVALID_ARG | ESP_ERR_INVALID_STATE
  | ESP_ERR_INVALID_SIZE | ESP_ERR_NOT_FOUND | ESP_ERR_NOT_SUPPORTED | ESP_ERR_NOT_FINISHED

section \<open>Byte order\<close>

definition le16 :: "u16 \<Rightarrow> bytes" where
  "le16 x = [ucast x, ucast (drop_bit 8 x)]"

definition le32 :: "u32 \<Rightarrow> bytes" where
  "le32 x = [ucast x, ucast (drop_bit 8 x), ucast (drop_bit 16 x), ucast (drop_bit 24 x)]"

definition le64 :: "u64 \<Rightarrow> bytes" where
  "le64 x = le32 (ucast x) @ le32 (ucast (drop_bit 32 x))"

text \<open>Reading a little-endian value from the first bytes of a buffer.\<close>

definition rd32 :: "bytes \<Rightarrow> u32" where
  "rd32 b = (ucast (b ! 0) OR push_bit 8 (ucast (b ! 1)) OR push_bit 16 (ucast (b ! 2))
             OR push_bit 24 (ucast (b ! 3)))"

lemma length_le16 [simp]: "length (le16 x) = 2"
  by (simp add: le16_def)

lemma length_le32 [simp]: "length (le32 x) = 4"
  by (simp add: le32_def)

lemma length_le64 [simp]: "length (le64 x) = 8"
  by (simp add: le64_def)

lemma rd32_le32 [simp]: "rd32 (le32 x @ rest) = x"
proof (rule bit_word_eqI)
  fix n assume "n < LENGTH(32)"
  then show "bit (rd32 (le32 x @ rest)) n = bit x n"
    by (cases "n < 24"; cases "n < 16"; cases "n < 8")
      (auto simp: rd32_def le32_def bit_or_iff bit_push_bit_iff bit_ucast_iff bit_drop_bit_eq
        nth_append)
qed

section \<open>Buffers\<close>

text \<open>\<open>memcpy (buf + off, data, len)\<close>: the bytes of \<open>data\<close> overwrite \<open>buf\<close> from \<open>off\<close>.\<close>

definition blit :: "'a list \<Rightarrow> nat \<Rightarrow> 'a list \<Rightarrow> 'a list" where
  "blit buf off data = take off buf @ data @ drop (off + length data) buf"

text \<open>The same copies with their bounds: \<open>None\<close> is an access outside the buffer.\<close>

definition memcpy_to :: "'a list \<Rightarrow> nat \<Rightarrow> 'a list \<Rightarrow> 'a list option" where
  "memcpy_to buf off data = (if off + length data \<le> length buf then Some (blit buf off data) else None)"

definition memcpy_from :: "'a list \<Rightarrow> nat \<Rightarrow> nat \<Rightarrow> 'a list option" where
  "memcpy_from buf off n = (if off + n \<le> length buf then Some (take n (drop off buf)) else None)"

lemma length_blit [buf_simps, simp]:
  "off + length data \<le> length buf \<Longrightarrow> length (blit buf off data) = length buf"
  by (simp add: blit_def)

lemma blit_Nil [buf_simps, simp]: "off \<le> length buf \<Longrightarrow> blit buf off [] = buf"
  by (simp add: blit_def)

lemma nth_blit [buf_simps]:
  "off + length data \<le> length buf \<Longrightarrow> i < length buf \<Longrightarrow>
   blit buf off data ! i =
     (if off \<le> i \<and> i < off + length data then data ! (i - off) else buf ! i)"
  by (auto simp: blit_def nth_append min_def)

lemma blit_append [buf_simps]:
  "off + length (xs @ ys) \<le> length buf \<Longrightarrow>
   blit (blit buf off xs) (off + length xs) ys = blit buf off (xs @ ys)"
  by (rule nth_equalityI) (auto simp: nth_blit nth_append)

lemma take_blit_prefix [buf_simps]:
  "n \<le> off \<Longrightarrow> off + length data \<le> length buf \<Longrightarrow> take n (blit buf off data) = take n buf"
  by (simp add: blit_def min_def)

lemma take_memcpy:
  "memcpy_to b p xs = Some b' \<Longrightarrow> length b' = length b \<and> take (p + length xs) b' = take p b @ xs"
  by (auto simp: memcpy_to_def blit_def split: if_splits)

lemma memcpy_some: "p + length xs \<le> length b \<Longrightarrow> \<exists>b'. memcpy_to b p xs = Some b'"
  by (simp add: memcpy_to_def)

end
