(* ===== verification/Fl.thy ===== *)
theory Fl
  imports Prelude
begin

text \<open>
  The non-negative IEEE-754 binary arithmetic the C and C++ sources use: products and quotients
  of \<open>float\<close> (24 significant bits) and \<open>double\<close> (53) values, rounded to nearest with ties
  to even, and the truncating conversion to an unsigned integer. A value is a dyadic number
  \<open>m * 2 ^ e\<close>. The sources stay far from overflow and from the subnormal range (the largest
  value is below \<open>2 ^ 64\<close>, the smallest positive one above \<open>2 ^ -64\<close>), so exponents are
  unbounded here.
\<close>

section \<open>Dyadic values and rounding\<close>

type_synonym dyadic = "int \<times> int"

text \<open>The number of significant bits of a non-negative mantissa.\<close>

function nbits :: "int \<Rightarrow> nat" where
  "nbits n = (if n \<le> 0 then 0 else Suc (nbits (n div 2)))"
  by pat_completeness auto
termination
  by (relation "measure nat") auto

declare nbits.simps [simp del]

lemma nbits_0 [simp]: "nbits 0 = 0"
  by (simp add: nbits.simps)

lemma nbits_le: "n < 2 ^ p \<Longrightarrow> nbits n \<le> p"
proof (induction p arbitrary: n)
  case 0
  then show ?case by (simp add: nbits.simps)
next
  case (Suc p)
  then have "nbits (n div 2) \<le> p" by (intro Suc.IH) simp
  then show ?case by (simp add: nbits.simps [of n])
qed

text \<open>
  \<open>round_ne p (m, e) sticky\<close> rounds \<open>(m + s) * 2 ^ e\<close> to \<open>p\<close> significant bits, to nearest,
  ties to even, where \<open>0 \<le> s < 1\<close> and \<open>sticky\<close> tells whether \<open>s > 0\<close>.
\<close>

definition round_ne :: "nat \<Rightarrow> int \<Rightarrow> int \<Rightarrow> bool \<Rightarrow> dyadic" where
  "round_ne p m e sticky =
     (let k = nbits m - p in
      if k = 0 then (m, e)
      else
        let q = m div 2 ^ k; r = m mod 2 ^ k; half = 2 ^ (k - 1) in
        (if r > half \<or> (r = half \<and> (sticky \<or> odd q)) then q + 1 else q, e + int k))"

definition fl_mul :: "nat \<Rightarrow> dyadic \<Rightarrow> dyadic \<Rightarrow> dyadic" where
  "fl_mul p a b = round_ne p (fst a * fst b) (snd a + snd b) False"

definition fl_div :: "nat \<Rightarrow> dyadic \<Rightarrow> dyadic \<Rightarrow> dyadic" where
  "fl_div p a b =
     (let sh = p + 1 + nbits (fst b); n = fst a * 2 ^ sh in
      round_ne p (n div fst b) (snd a - snd b - int sh) (n mod fst b \<noteq> 0))"

definition fl_of_int :: "nat \<Rightarrow> int \<Rightarrow> dyadic" where
  "fl_of_int p n = round_ne p n 0 False"

definition fl_trunc :: "dyadic \<Rightarrow> int" where
  "fl_trunc v = (if 0 \<le> snd v then fst v * 2 ^ nat (snd v) else fst v div 2 ^ nat (- snd v))"

abbreviation fmul32 :: "dyadic \<Rightarrow> dyadic \<Rightarrow> dyadic" where "fmul32 \<equiv> fl_mul 24"
abbreviation dmul :: "dyadic \<Rightarrow> dyadic \<Rightarrow> dyadic" where "dmul \<equiv> fl_mul 53"
abbreviation ddiv :: "dyadic \<Rightarrow> dyadic \<Rightarrow> dyadic" where "ddiv \<equiv> fl_div 53"
abbreviation f_of_int :: "int \<Rightarrow> dyadic" where "f_of_int \<equiv> fl_of_int 24"
abbreviation d_of_int :: "int \<Rightarrow> dyadic" where "d_of_int \<equiv> fl_of_int 53"

lemmas fl_defs = round_ne_def fl_mul_def fl_div_def fl_of_int_def fl_trunc_def

section \<open>What rounding guarantees\<close>

lemma fl_of_int_exact: "n < 2 ^ p \<Longrightarrow> fl_of_int p n = (n, 0)"
  using nbits_le [of n p] by (simp add: fl_of_int_def round_ne_def)

text \<open>The rounded value is at most half a unit in the last place away.\<close>

lemma round_ne_error:
  assumes "round_ne p m e False = (q, e')" and "p < nbits m"
  shows "e' = e + int (nbits m - p)"
    and "\<bar>q * 2 ^ (nbits m - p) - m\<bar> \<le> 2 ^ (nbits m - p - 1)"
proof -
  define k where "k = nbits m - p"
  have k: "k = Suc (k - 1)" using assms(2) by (simp add: k_def)
  have two: "(2::int) ^ k = 2 * 2 ^ (k - 1)" by (subst k) simp
  have r: "0 \<le> m mod 2 ^ k" "m mod 2 ^ k < 2 ^ k" by simp_all
  show "e' = e + int (nbits m - p)"
    using assms k by (auto simp: round_ne_def Let_def k_def [symmetric] split: if_splits)
  have q: "q = m div 2 ^ k \<and> m mod 2 ^ k \<le> 2 ^ (k - 1)
      \<or> q = m div 2 ^ k + 1 \<and> 2 ^ (k - 1) \<le> m mod 2 ^ k"
    using assms k by (auto simp: round_ne_def Let_def k_def [symmetric] split: if_splits)
  then show "\<bar>q * 2 ^ (nbits m - p) - m\<bar> \<le> 2 ^ (nbits m - p - 1)"
    unfolding k_def [symmetric]
  proof
    assume a: "q = m div 2 ^ k \<and> m mod 2 ^ k \<le> 2 ^ (k - 1)"
    then have "q * 2 ^ k - m = - (m mod 2 ^ k)"
      by (simp add: minus_mod_eq_div_mult [symmetric])
    then show "\<bar>q * 2 ^ k - m\<bar> \<le> 2 ^ (k - 1)" using a r by simp
  next
    assume a: "q = m div 2 ^ k + 1 \<and> 2 ^ (k - 1) \<le> m mod 2 ^ k"
    then have "q * 2 ^ k - m = 2 ^ k - m mod 2 ^ k"
      by (simp add: distrib_right minus_mod_eq_div_mult [symmetric])
    then show "\<bar>q * 2 ^ k - m\<bar> \<le> 2 ^ (k - 1)" using a r two by linarith
  qed
qed

end
