(* ===== verification/SliderDriver.thy ===== *)
theory SliderDriver
  imports Prelude Fl
begin

text \<open>
  The dimmer driver of components/SliderDriver: the capacitive slider (CAP1298), the LED bar
  (IS31FL3235A) and the triac timer behind class \<open>SliderDriver\<close>. The two chip drivers, the
  GPIO driver and the general purpose timer are not in the repository. What the firmware
  tells them is recorded, call by call, in the trace \<open>sl_trace\<close>; what the touch chip answers
  is the parameter \<open>cap1298\<close>. A division by zero of the C++ code (a fade resolution of 1)
  is the result \<open>None\<close>.
\<close>

section \<open>State\<close>

datatype gpio_mode = GPIO_MODE_INPUT | GPIO_MODE_OUTPUT

datatype hw =
    Led_begin
  | Led_sendConfig
  | Led_setPWM int int
  | Led_setLEDControl int bool
  | Led_updatePWM
  | Touch_begin
  | Touch_update
  | Gpio_set_direction int gpio_mode
  | Gpio_set_level int int
  | Gpio_set_intr_posedge int
  | Gpio_pulldown_en int
  | Gpio_pullup_dis int
  | Gpio_install_isr_service
  | Gpio_isr_handler_add int
  | Timer_set_alarm u64
  | Timer_enable
  | Timer_start
  | Timer_stop
  | Timer_set_raw_count u64
  | Task_create string
  | Log_error string

text \<open>The touch chip: its answers, as functions of its own state.\<close>

record 'd cap1298 =
  ct_touchStatusChanged :: "'d \<Rightarrow> bool \<times> 'd"
  ct_getNewTouches :: "'d \<Rightarrow> u8 \<times> 'd"
  ct_updateTouchStatus :: "'d \<Rightarrow> 'd"

text \<open>Kconfig: the pins, and whether and in how many steps the dimmer fades.\<close>

record slider_cfg =
  cfg_TRIAC_PWM :: int
  cfg_TRIAC_SYNC :: int
  cfg_FADE_ENABLE :: bool
  cfg_FADE_RESOLUTION :: int

record 'd slider =
  m_isOn :: bool
  start_fade :: bool
  is_running :: bool
  m_level :: u8
  m_previous_level :: u8
  step_cpt :: u8
  interval :: int
  reminder :: int
  m_flag :: int
  alarm_count :: u64
  reload_count :: u64
  auto_reload_on_alarm :: bool
  touch_dev :: 'd
  sl_trace :: "hw list"

definition emit :: "hw list \<Rightarrow> ('d, 'z) slider_scheme \<Rightarrow> ('d, 'z) slider_scheme" where
  "emit es s = s\<lparr>sl_trace := sl_trace s @ es\<rparr>"

definition MAX_INTERVAL :: int where
  "MAX_INTERVAL = 8333"

definition TIME2INTENSITY :: "int \<Rightarrow> int" where
  "TIME2INTENSITY x = 100 - ((x * 100) sdiv MAX_INTERVAL)"

definition INTENSITY2TIME :: "int \<Rightarrow> int" where
  "INTENSITY2TIME x = (MAX_INTERVAL * (100 - x)) sdiv 100"

section \<open>Construction and start\<close>

text \<open>
  The constructor runs over a zero-initialised global object. \<open>led_begin\<close> is what
  \<open>led_level_driver.begin()\<close> returns, \<open>rets\<close> what the four \<open>gptimer\<close> calls under
  \<open>ESP_ERROR_CHECK\<close> return: the first one that is not \<open>ESP_OK\<close> aborts (\<open>None\<close>).
\<close>

definition SliderDriver_ctor ::
  "slider_cfg \<Rightarrow> int \<Rightarrow> int \<times> int \<times> int \<times> int \<Rightarrow> 'd \<Rightarrow> 'd slider option" where
  "SliderDriver_ctor c led_begin rets d =
     (case rets of (r_new, r_cbs, r_alarm, r_enable) \<Rightarrow>
       if r_new \<noteq> 0 then None
       else
         let s = \<lparr>m_isOn = False, start_fade = False, is_running = False, m_level = 0,
                  m_previous_level = 0, step_cpt = 0, interval = 0, reminder = 0,
                  m_flag = led_begin, alarm_count = word_of_int (MAX_INTERVAL sdiv 2),
                  reload_count = 0, auto_reload_on_alarm = True, touch_dev = d,
                  sl_trace = [Led_begin]\<rparr>
         in if r_cbs \<noteq> 0 \<or> r_alarm \<noteq> 0 \<or> r_enable \<noteq> 0 then None
            else Some (emit
              [Timer_set_alarm (alarm_count s), Timer_enable,
               Gpio_set_direction 1 GPIO_MODE_OUTPUT, Gpio_set_level (cfg_TRIAC_PWM c) 1,
               Gpio_set_direction (cfg_TRIAC_SYNC c) GPIO_MODE_INPUT,
               Gpio_set_intr_posedge (cfg_TRIAC_SYNC c), Gpio_install_isr_service] s))"

definition start :: "slider_cfg \<Rightarrow> 'd slider \<Rightarrow> bool \<times> 'd slider" where
  "start c s =
     (let s1 = emit [Touch_begin, Led_sendConfig] s;
          s2 = fold (\<lambda>i. emit [Led_setPWM i 0, Led_setLEDControl i False, Led_updatePWM])
                 (map int [0..<8]) s1
      in (True, emit [Gpio_isr_handler_add (cfg_TRIAC_SYNC c)] s2))"

section \<open>Touch position\<close>

definition getLevelRaw :: "('d, 'z) slider_scheme \<Rightarrow> u8" where
  "getLevelRaw s = (if m_level s = 0 then m_previous_level s else m_level s)"

definition newTouches :: "'d cap1298 \<Rightarrow> 'd slider \<Rightarrow> bool \<times> 'd slider" where
  "newTouches t s =
     (case ct_touchStatusChanged t (touch_dev s) of (r, d) \<Rightarrow> (r, s\<lparr>touch_dev := d\<rparr>))"

definition getNewTouches :: "'d cap1298 \<Rightarrow> 'd slider \<Rightarrow> u8 \<times> 'd slider" where
  "getNewTouches t s =
     (case ct_getNewTouches t (touch_dev s) of (r, d) \<Rightarrow> (r, s\<lparr>touch_dev := d\<rparr>))"

definition updateTouchStatus :: "'d cap1298 \<Rightarrow> 'd slider \<Rightarrow> 'd slider" where
  "updateTouchStatus t s =
     emit [Touch_update] (s\<lparr>touch_dev := ct_updateTouchStatus t (touch_dev s)\<rparr>)"

text \<open>The first loop of \<open>getLevel\<close>: the byte with its bits in reverse order.\<close>

definition flip_byte :: "u8 \<Rightarrow> u8" where
  "flip_byte level =
     fold (\<lambda>i f. f OR push_bit (7 - i) (drop_bit i level AND 1)) [0..<8] 0"

text \<open>The second loop: the index of the first bit found set, from 7 down.\<close>

fun first_set :: "u8 \<Rightarrow> nat list \<Rightarrow> nat" where
  "first_set f [] = 0"
| "first_set f (i # is) = (if drop_bit i f AND 1 \<noteq> 0 then i else first_set f is)"

text \<open>\<open>((float)max_level / 7.0) * value\<close> in double arithmetic, converted to \<open>uint8_t\<close>.\<close>

definition scale_level :: "u8 \<Rightarrow> nat \<Rightarrow> u8" where
  "scale_level max_level value =
     word_of_int (fl_trunc (dmul (ddiv (f_of_int (uint max_level)) (d_of_int 7)) (d_of_int (int value))))"

definition getLevel :: "'d cap1298 \<Rightarrow> u8 \<Rightarrow> 'd slider \<Rightarrow> u8 \<times> 'd slider" where
  "getLevel t max_level s =
     (case getNewTouches t s of (level, s1) \<Rightarrow>
       if level = 0 then (m_previous_level s1, s1)
       else
         let flipped_byte = flip_byte level;
             value = first_set flipped_byte [7, 6, 5, 4, 3, 2, 1, 0];
             r = scale_level max_level value
         in (r, s1\<lparr>m_previous_level := r\<rparr>))"

section \<open>Brightness and power\<close>

definition set_brightness :: "slider_cfg \<Rightarrow> u8 \<Rightarrow> 'd slider \<Rightarrow> 'd slider option" where
  "set_brightness c brightness s =
     (let actual_level = INTENSITY2TIME (uint (m_level s));
          s1 = s\<lparr>m_previous_level := m_level s,
                 m_level := (if brightness = 1 then 0 else brightness)\<rparr>;
          steps = cfg_FADE_RESOLUTION c - 1
      in if m_level s1 > 1 then
           (let iv = INTENSITY2TIME (uint (m_level s1)) in
            if cfg_FADE_ENABLE c then
              (if steps = 0 then None
               else Some (s1\<lparr>reminder := iv smod steps, interval := iv sdiv steps\<rparr>))
            else Some (s1\<lparr>interval := iv\<rparr>))
         else
           (if cfg_FADE_ENABLE c then
              (let iv = - INTENSITY2TIME actual_level in
               if steps = 0 then None
               else Some (s1\<lparr>reminder := - (iv smod steps), interval := iv sdiv steps\<rparr>))
            else Some (s1\<lparr>interval := MAX_INTERVAL\<rparr>)))"

text \<open>
  The assignment \<open>alarm_count = interval\<close> converts an \<open>int32_t\<close> to \<open>uint64_t\<close>, then
  \<open>gptimer_set_alarm_action\<close> arms the timer with it.
\<close>

definition arm_timer :: "'d slider \<Rightarrow> 'd slider" where
  "arm_timer s =
     (let s1 = s\<lparr>alarm_count := word_of_int (interval s)\<rparr> in emit [Timer_set_alarm (alarm_count s1)] s1)"

definition set_power :: "slider_cfg \<Rightarrow> bool \<Rightarrow> 'd slider \<Rightarrow> 'd slider option" where
  "set_power c pwr s =
     (let s1 = s\<lparr>m_isOn := pwr\<rparr> in
      if m_isOn s1 then Some (arm_timer s1)
      else map_option arm_timer (set_brightness c 0 s1))"

section \<open>LEDs\<close>

definition set_level_led :: "u8 \<Rightarrow> 'd slider \<Rightarrow> 'd slider" where
  "set_level_led level s =
     (let n = (8 * uint level) sdiv 100;
          led_status = n > 0;
          n_led = nat (if level = 0 then 8 else n);
          s1 = fold (\<lambda>i. emit [Led_setPWM (7 - int i) 100, Led_setLEDControl (7 - int i) led_status,
                               Led_updatePWM]) [0..<n_led] s
      in fold (\<lambda>i. emit [Led_setPWM (7 - int i) 0, Led_setLEDControl (7 - int i) (\<not> led_status),
                         Led_updatePWM]) [n_led..<8] s1)"

definition set_front_led :: "bool \<Rightarrow> 'd slider \<Rightarrow> 'd slider" where
  "set_front_led pwr s =
     emit [Led_setLEDControl 9 pwr, Led_setPWM 9 (if pwr then 40 else 0),
           Led_setLEDControl 8 (\<not> pwr), Led_setPWM 8 (if \<not> pwr then 40 else 0),
           Led_updatePWM] s"

section \<open>Interrupt handlers\<close>

definition restart_timer :: "'d slider \<Rightarrow> 'd slider" where
  "restart_timer s = (emit [Timer_start] s)\<lparr>is_running := True\<rparr>"

definition stop_timer :: "'d slider \<Rightarrow> 'd slider" where
  "stop_timer s = (emit [Timer_stop, Timer_set_raw_count 0] s)\<lparr>is_running := False\<rparr>"

definition gpio_isr_handler :: "slider_cfg \<Rightarrow> 'd slider \<Rightarrow> 'd slider" where
  "gpio_isr_handler c s = restart_timer (emit [Gpio_set_level (cfg_TRIAC_PWM c) 1] s)"

definition on_timer_alarm_cb :: "slider_cfg \<Rightarrow> 'd slider \<Rightarrow> 'd slider" where
  "on_timer_alarm_cb c s =
     (let s1 = stop_timer s;
          s2 = emit (replicate 63 (Gpio_set_level (cfg_TRIAC_PWM c) 0)) s1;
          s3 = emit [Gpio_set_level (cfg_TRIAC_PWM c) 1] s2
      in if cfg_FADE_ENABLE c \<and> start_fade s3 then
           let s4 = s3\<lparr>step_cpt := step_cpt s3 + 1,
                       alarm_count := alarm_count s3 - word_of_int (interval s3)\<rparr>
           in if uint (step_cpt s4) = cfg_FADE_RESOLUTION c - 1
              then s4\<lparr>alarm_count := alarm_count s4 - word_of_int (reminder s4),
                      step_cpt := 0, start_fade := False\<rparr>
              else s4
         else s3)"

section \<open>What the trace tells the LED chip\<close>

text \<open>The PWM and control registers of the LED chip after the calls of a trace.\<close>

type_synonym led_regs = "(int \<Rightarrow> int) \<times> (int \<Rightarrow> bool)"

fun led_step :: "led_regs \<Rightarrow> hw \<Rightarrow> led_regs" where
  "led_step r (Led_setPWM ch v) = ((fst r)(ch := v), snd r)"
| "led_step r (Led_setLEDControl ch b) = (fst r, (snd r)(ch := b))"
| "led_step r _ = r"

definition led_after :: "led_regs \<Rightarrow> hw list \<Rightarrow> led_regs" where
  "led_after = foldl led_step"

definition lit :: "led_regs \<Rightarrow> int \<Rightarrow> bool" where
  "lit r ch \<longleftrightarrow> 0 < fst r ch \<and> snd r ch"

lemma fold_emit: "fold (\<lambda>i. emit (f i)) xs s = emit (concat (map f xs)) s"
  by (induction xs arbitrary: s) (simp_all add: emit_def)

lemma emit_simps [simp]:
  "sl_trace (emit es s) = sl_trace s @ es" "m_isOn (emit es s) = m_isOn s"
  "start_fade (emit es s) = start_fade s" "is_running (emit es s) = is_running s"
  "m_level (emit es s) = m_level s" "m_previous_level (emit es s) = m_previous_level s"
  "step_cpt (emit es s) = step_cpt s" "interval (emit es s) = interval s"
  "reminder (emit es s) = reminder s" "alarm_count (emit es s) = alarm_count s"
  "touch_dev (emit es s) = touch_dev s"
  by (simp_all add: emit_def)

lemma emit_emit [simp]: "emit es (emit fs s) = emit (fs @ es) s"
  by (simp add: emit_def)

definition bar_calls :: "nat \<Rightarrow> nat \<Rightarrow> int \<Rightarrow> bool \<Rightarrow> hw list" where
  "bar_calls a b v ctl =
     concat (map (\<lambda>i. [Led_setPWM (7 - int i) v, Led_setLEDControl (7 - int i) ctl, Led_updatePWM])
       [a..<b])"

lemma led_after_append: "led_after r (xs @ ys) = led_after (led_after r xs) ys"
  by (simp add: led_after_def)

lemma led_after_bar:
  "a \<le> b \<Longrightarrow> led_after r (bar_calls a b v ctl) =
     ((\<lambda>ch. if 7 - int b < ch \<and> ch \<le> 7 - int a then v else fst r ch),
      (\<lambda>ch. if 7 - int b < ch \<and> ch \<le> 7 - int a then ctl else snd r ch))"
proof (induction b)
  case 0
  then show ?case by (cases r) (auto simp: bar_calls_def led_after_def fun_eq_iff)
next
  case (Suc b)
  show ?case
  proof (cases "a = Suc b")
    case True
    then show ?thesis by (cases r) (auto simp: bar_calls_def led_after_def fun_eq_iff)
  next
    case False
    with Suc have "a \<le> b" by simp
    then have step: "bar_calls a (Suc b) v ctl =
        bar_calls a b v ctl @ [Led_setPWM (7 - int b) v, Led_setLEDControl (7 - int b) ctl, Led_updatePWM]"
      by (simp add: bar_calls_def)
    show ?thesis
      unfolding step led_after_append Suc.IH [OF \<open>a \<le> b\<close>] using \<open>a \<le> b\<close>
      by (auto simp: led_after_def fun_eq_iff)
  qed
qed

lemma set_level_led_trace:
  "set_level_led level s =
     (let n = (8 * uint level) sdiv 100; n_led = nat (if level = 0 then 8 else n) in
      emit (bar_calls 0 n_led 100 (n > 0) @ bar_calls n_led 8 0 (\<not> n > 0)) s)"
  by (simp add: set_level_led_def fold_emit bar_calls_def Let_def)

lemma sdiv_nonneg: "0 \<le> a \<Longrightarrow> 0 < b \<Longrightarrow> a sdiv b = a div (b :: int)"
  by (cases "a = 0") (simp_all add: signed_divide_int_def)

lemma smod_nonneg: "0 \<le> a \<Longrightarrow> 0 < b \<Longrightarrow> a smod b = a mod (b :: int)"
  by (cases "a = 0") (simp_all add: signed_modulo_int_def)

section \<open>The LED bar\<close>

text \<open>Every call names one of the eight channels of the bar, as long as the level is a percentage.\<close>

definition led_channel :: "hw \<Rightarrow> int option" where
  "led_channel e = (case e of Led_setPWM ch _ \<Rightarrow> Some ch | Led_setLEDControl ch _ \<Rightarrow> Some ch | _ \<Rightarrow> None)"

lemma bar_calls_channels:
  "e \<in> set (bar_calls a b v ctl) \<Longrightarrow> led_channel e = Some ch \<Longrightarrow> 7 - int b < ch \<and> ch \<le> 7 - int a"
  by (auto simp: bar_calls_def led_channel_def split: hw.splits)

section \<open>Touch position\<close>

lemma flip_byte_prefix:
  "n \<le> 8 \<Longrightarrow> i < 8 \<Longrightarrow>
   bit (fold (\<lambda>i f. f OR push_bit (7 - i) (drop_bit i level AND 1)) [0..<n] (0 :: u8)) i
     \<longleftrightarrow> 7 - i < n \<and> bit level (7 - i)"
proof (induction n)
  case 0
  then show ?case by simp
next
  case (Suc n)
  have "bit (push_bit (7 - n) (drop_bit n level AND 1) :: u8) i \<longleftrightarrow> i = 7 - n \<and> bit level n"
    using Suc.prems by (auto simp: bit_push_bit_iff bit_and_iff bit_drop_bit_eq bit_1_iff bit_exp_iff)
  with Suc show ?case by (auto simp: bit_or_iff less_Suc_eq)
qed

lemma flip_byte_bit: "i < 8 \<Longrightarrow> bit (flip_byte level) i = bit level (7 - i)"
proof -
  have "7 - i < 8" by arith
  then show "i < 8 \<Longrightarrow> ?thesis" by (simp only: flip_byte_def flip_byte_prefix) simp
qed

text \<open>The position the code reads: 7 minus the lowest touched pad.\<close>

lemma first_set_split:
  "\<forall>x \<in> set xs. drop_bit x f AND 1 = 0 \<Longrightarrow> drop_bit m f AND 1 \<noteq> 0 \<Longrightarrow>
   first_set f (xs @ m # ys) = m"
  by (induction xs) auto

lemma first_set_flip:
  assumes "k < 8" and "bit level k" and "\<forall>j < k. \<not> bit level j"
  shows "first_set (flip_byte level) [7, 6, 5, 4, 3, 2, 1, 0] = 7 - k"
proof -
  have b: "drop_bit i (flip_byte level) AND 1 \<noteq> 0 \<longleftrightarrow> bit level (7 - i)" if "i < 8" for i
    using flip_byte_bit [OF that, of level]
    by (simp add: bit_iff_odd_drop_bit odd_iff_mod_2_eq_one and_one_eq)
  define m where "m = 7 - k"
  have m: "m < 8" "7 - m = k" using assms(1) by (simp_all add: m_def)
  have "[0..<8] = [0..<m] @ m # [Suc m..<8]"
    using upt_add_eq_append [of 0 m "8 - m"] m(1) by (simp add: upt_conv_Cons)
  then have "rev [0..<8] = rev [Suc m..<8] @ m # rev [0..<m]" by simp
  moreover have "rev [0..<8] = [7, 6, 5, 4, 3, 2, 1, 0::nat]" by (simp add: upt_rec)
  moreover have "first_set (flip_byte level) (rev [Suc m..<8] @ m # rev [0..<m]) = m"
  proof (rule first_set_split)
    show "\<forall>x \<in> set (rev [Suc m..<8]). drop_bit x (flip_byte level) AND 1 = 0"
    proof
      fix x assume "x \<in> set (rev [Suc m..<8])"
      then have x: "x < 8" "7 - x < k" using m by auto
      then show "drop_bit x (flip_byte level) AND 1 = 0" using b [OF x(1)] assms(3) by blast
    qed
    show "drop_bit m (flip_byte level) AND 1 \<noteq> 0"
      using b [OF m(1)] assms(2) m by simp
  qed
  ultimately show ?thesis by (simp add: m_def)
qed

text \<open>The eight touch positions in double arithmetic: rounding never loses a level here.\<close>

lemma scale_254_values:
  "fl_trunc (dmul (ddiv (f_of_int 254) (d_of_int 7)) (d_of_int 0)) = 0"
  "fl_trunc (dmul (ddiv (f_of_int 254) (d_of_int 7)) (d_of_int 1)) = 36"
  "fl_trunc (dmul (ddiv (f_of_int 254) (d_of_int 7)) (d_of_int 2)) = 72"
  "fl_trunc (dmul (ddiv (f_of_int 254) (d_of_int 7)) (d_of_int 3)) = 108"
  "fl_trunc (dmul (ddiv (f_of_int 254) (d_of_int 7)) (d_of_int 4)) = 145"
  "fl_trunc (dmul (ddiv (f_of_int 254) (d_of_int 7)) (d_of_int 5)) = 181"
  "fl_trunc (dmul (ddiv (f_of_int 254) (d_of_int 7)) (d_of_int 6)) = 217"
  "fl_trunc (dmul (ddiv (f_of_int 254) (d_of_int 7)) (d_of_int 7)) = 254"
  by code_simp+

lemma scale_level_254: "k < 8 \<Longrightarrow> scale_level 254 (7 - k) = word_of_int (254 * int (7 - k) div 7)"
proof -
  assume "k < 8"
  then have "k \<in> {0, 1, 2, 3, 4, 5, 6, 7}" by auto
  moreover have "uint (254 :: u8) = 254" by simp
  ultimately show ?thesis
    by (elim insertE emptyE) (simp_all only: scale_level_def diff_zero diff_self_eq_0 diff_numeral_simps,
      simp_all add: scale_254_values)
qed

section \<open>Brightness, power and the phase delay\<close>

lemma i2t_u8: "uint (b :: u8) \<le> 100 \<Longrightarrow> INTENSITY2TIME (uint b) = 8333 * (100 - uint b) div 100"
  by (simp add: INTENSITY2TIME_def MAX_INTERVAL_def sdiv_nonneg)

lemma i2t_range: "uint (b :: u8) \<le> 100 \<Longrightarrow> 0 \<le> INTENSITY2TIME (uint b) \<and> INTENSITY2TIME (uint b) \<le> 8333"
proof -
  assume b: "uint b \<le> 100"
  have "8333 * (100 - uint b) div 100 \<le> 833300 div (100 :: int)" by (rule zdiv_mono1) simp_all
  moreover have "0 \<le> 8333 * (100 - uint b) div 100" using b by (intro pos_imp_zdiv_nonneg_iff [THEN iffD2]) simp_all
  ultimately show ?thesis by (simp only: i2t_u8 [OF b]) simp
qed

lemma set_brightness_off:
  "\<not> cfg_FADE_ENABLE c \<Longrightarrow> b \<le> 1 \<Longrightarrow>
   set_brightness c b s = Some (s\<lparr>m_previous_level := m_level s, m_level := 0, interval := 8333\<rparr>)"
proof -
  assume "b \<le> 1"
  then have "b = 0 \<or> b = 1" by unat_arith
  then show "\<not> cfg_FADE_ENABLE c \<Longrightarrow> ?thesis"
    by (auto simp: set_brightness_def Let_def MAX_INTERVAL_def)
qed

lemma set_brightness_on:
  "\<not> cfg_FADE_ENABLE c \<Longrightarrow> 1 < b \<Longrightarrow>
   set_brightness c b s =
     Some (s\<lparr>m_previous_level := m_level s, m_level := b, interval := INTENSITY2TIME (uint b)\<rparr>)"
  by (auto simp: set_brightness_def Let_def)

lemma set_brightness_None_iff:
  "set_brightness c b s = None \<longleftrightarrow> cfg_FADE_ENABLE c \<and> cfg_FADE_RESOLUTION c = 1"
  by (auto simp: set_brightness_def Let_def)

lemma set_brightness_frame:
  "set_brightness c b s = Some s' \<Longrightarrow>
   alarm_count s' = alarm_count s \<and> sl_trace s' = sl_trace s \<and> m_isOn s' = m_isOn s
   \<and> start_fade s' = start_fade s \<and> is_running s' = is_running s \<and> step_cpt s' = step_cpt s
   \<and> touch_dev s' = touch_dev s"
  by (auto simp: set_brightness_def Let_def split: if_splits)

lemma arm_timer_simps [simp]:
  "alarm_count (arm_timer s) = word_of_int (interval s)"
  "interval (arm_timer s) = interval s" "m_level (arm_timer s) = m_level s"
  "m_isOn (arm_timer s) = m_isOn s" "start_fade (arm_timer s) = start_fade s"
  "sl_trace (arm_timer s) = sl_trace s @ [Timer_set_alarm (word_of_int (interval s))]"
  by (simp_all add: arm_timer_def Let_def)

text \<open>The operations other components and the interrupts call, as steps of the driver.\<close>

inductive slider_step :: "slider_cfg \<Rightarrow> 'd cap1298 \<Rightarrow> 'd slider \<Rightarrow> 'd slider \<Rightarrow> bool"
  for c :: slider_cfg and t :: "'d cap1298" where
  st_start: "slider_step c t s (snd (start c s))"
| st_newTouches: "slider_step c t s (snd (newTouches t s))"
| st_updateTouch: "slider_step c t s (updateTouchStatus t s)"
| st_getLevel: "slider_step c t s (snd (getLevel t m s))"
| st_brightness: "b \<le> 100 \<Longrightarrow> set_brightness c b s = Some s' \<Longrightarrow> slider_step c t s s'"
| st_power: "set_power c p s = Some s' \<Longrightarrow> slider_step c t s s'"
| st_level_led: "slider_step c t s (set_level_led l s)"
| st_front_led: "slider_step c t s (set_front_led p s)"
| st_zero_cross: "slider_step c t s (gpio_isr_handler c s)"
| st_alarm: "slider_step c t s (on_timer_alarm_cb c s)"

definition half_cycle_inv :: "('d, 'z) slider_scheme \<Rightarrow> bool" where
  "half_cycle_inv s \<longleftrightarrow> 0 \<le> interval s \<and> interval s \<le> 8333 \<and> alarm_count s \<le> 8333 \<and> \<not> start_fade s"

lemma half_cycle_inv_cong:
  "interval s' = interval s \<Longrightarrow> alarm_count s' = alarm_count s \<Longrightarrow> start_fade s' = start_fade s \<Longrightarrow>
   half_cycle_inv s \<Longrightarrow> half_cycle_inv s'"
  by (simp add: half_cycle_inv_def)

lemma arm_timer_inv: "0 \<le> interval s \<Longrightarrow> interval s \<le> 8333 \<Longrightarrow> \<not> start_fade s \<Longrightarrow> half_cycle_inv (arm_timer s)"
  by (simp add: half_cycle_inv_def word_le_def uint_word_of_int take_bit_int_eq_self)

lemma set_brightness_inv:
  assumes "\<not> cfg_FADE_ENABLE c" "b \<le> 100" "half_cycle_inv s" "set_brightness c b s = Some s'"
  shows "half_cycle_inv s'"
proof (cases "b \<le> 1")
  case True
  then show ?thesis using assms set_brightness_off [OF assms(1) True, of s]
    by (auto simp: half_cycle_inv_def)
next
  case False
  then have "1 < b" by simp
  moreover have "uint b \<le> 100" using assms(2) by (simp add: word_le_def)
  ultimately show ?thesis using assms set_brightness_on [OF assms(1), of b s] i2t_range [of b]
    by (auto simp: half_cycle_inv_def)
qed

lemma set_power_inv:
  assumes "\<not> cfg_FADE_ENABLE c" "half_cycle_inv s" "set_power c p s = Some s'"
  shows "half_cycle_inv s'"
proof (cases p)
  case True
  then show ?thesis using assms
    by (auto simp: set_power_def Let_def half_cycle_inv_def [of s] intro!: arm_timer_inv)
next
  case False
  then show ?thesis using assms
    by (auto simp: set_power_def Let_def half_cycle_inv_def [of s] set_brightness_off intro!: arm_timer_inv)
qed

lemma slider_step_inv:
  "slider_step c t s s' \<Longrightarrow> \<not> cfg_FADE_ENABLE c \<Longrightarrow> half_cycle_inv s \<Longrightarrow> half_cycle_inv s'"
proof (induction rule: slider_step.induct)
  case (st_brightness b s s')
  then show ?case by (blast intro: set_brightness_inv)
next
  case (st_power p s s')
  then show ?case by (blast intro: set_power_inv)
qed (erule half_cycle_inv_cong [rotated -1];
      auto simp: start_def newTouches_def updateTouchStatus_def getLevel_def getNewTouches_def
        set_level_led_def set_front_led_def gpio_isr_handler_def restart_timer_def
        on_timer_alarm_cb_def stop_timer_def fold_emit Let_def split: prod.splits)+

inductive slider_reachable :: "slider_cfg \<Rightarrow> 'd cap1298 \<Rightarrow> 'd slider \<Rightarrow> bool"
  for c :: slider_cfg and t :: "'d cap1298" where
  reach_ctor: "SliderDriver_ctor c b r d = Some s \<Longrightarrow> slider_reachable c t s"
| reach_step: "slider_reachable c t s \<Longrightarrow> slider_step c t s s' \<Longrightarrow> slider_reachable c t s'"

lemma ctor_inv: "SliderDriver_ctor c b r d = Some s \<Longrightarrow> half_cycle_inv s"
  by (auto simp: SliderDriver_ctor_def half_cycle_inv_def MAX_INTERVAL_def sdiv_nonneg Let_def
      split: prod.splits if_splits)

lemma slider_reachable_inv: "slider_reachable c t s \<Longrightarrow> \<not> cfg_FADE_ENABLE c \<Longrightarrow> half_cycle_inv s"
  by (induction rule: slider_reachable.induct) (auto intro: ctor_inv slider_step_inv)

section \<open>Properties\<close>

definition cap_const :: "u8 cap1298" where
  "cap_const = \<lparr>ct_touchStatusChanged = (\<lambda>d. (True, d)), ct_getNewTouches = (\<lambda>d. (d, d)),
                ct_updateTouchStatus = (\<lambda>d. d)\<rparr>"

definition cfg_plain :: slider_cfg where
  "cfg_plain = \<lparr>cfg_TRIAC_PWM = 1, cfg_TRIAC_SYNC = 3, cfg_FADE_ENABLE = False, cfg_FADE_RESOLUTION = 0\<rparr>"

definition slider0 :: "u8 slider" where
  "slider0 = the (SliderDriver_ctor cfg_plain 0 (0, 0, 0, 0) 24)"

lemma slider0_ctor: "SliderDriver_ctor cfg_plain 0 (0, 0, 0, 0) 24 = Some slider0"
  by (simp add: slider0_def SliderDriver_ctor_def Let_def)

lemma slider0_touch [simp]: "touch_dev slider0 = 24"
  by (simp add: slider0_def SliderDriver_ctor_def Let_def emit_def)

text \<open>C1: The slider position. When pad \<open>k\<close> is the lowest pad touched, \<open>getLevel(254)\<close> returns
  \<open>254 * (7 - k) / 7\<close> rounded down, whatever else is touched (the byte is reversed, the highest
  bit found, the \<open>double\<close> product truncated), remembers it as the previous level and changes
  nothing else.\<close>

theorem touch_position_decoded:
  assumes "ct_getNewTouches t (touch_dev s) = (level, d')"
    and "k < 8" and "bit level k" and "\<forall>j < k. \<not> bit level j"
  shows "getLevel t 254 s =
    (word_of_int (254 * int (7 - k) div 7),
     s\<lparr>touch_dev := d', m_previous_level := word_of_int (254 * int (7 - k) div 7)\<rparr>)"
proof -
  have "level \<noteq> 0" using assms(3) by auto
  then show ?thesis
    using first_set_flip [OF assms(2-4)] scale_level_254 [OF assms(2)] assms(1)
    by (simp add: getLevel_def getNewTouches_def Let_def)
qed

theorem touch_position_decoded_witness:
  "getLevel cap_const 254 slider0 = (145, slider0\<lparr>touch_dev := 24, m_previous_level := 145\<rparr>)"
proof -
  have "\<forall>j < 3. \<not> bit (24 :: u8) j" by (auto simp: less_Suc_eq numeral_3_eq_3)
  then show ?thesis
    using touch_position_decoded [of cap_const slider0 24 24 3] by (simp add: cap_const_def)
qed

text \<open>Phase delay. With fading off, setting a brightness of 2 to 100 percent and powering on arms
  the triac timer with exactly \<open>8333 * (100 - b) / 100\<close> microseconds, the complement of the
  brightness in the mains half cycle.\<close>

theorem phase_delay_of_brightness:
  assumes "\<not> cfg_FADE_ENABLE c" and "1 < b" and "b \<le> 100"
    and "set_brightness c b s = Some s1" and "set_power c True s1 = Some s2"
  shows "alarm_count s2 = word_of_int (8333 * (100 - uint b) div 100)
     \<and> sl_trace s2 = sl_trace s @ [Timer_set_alarm (alarm_count s2)]
     \<and> m_level s2 = b \<and> m_previous_level s2 = m_level s \<and> m_isOn s2"
proof -
  have "uint b \<le> 100" using assms(3) by (simp add: word_le_def)
  then have "s1 = s\<lparr>m_previous_level := m_level s, m_level := b, interval := 8333 * (100 - uint b) div 100\<rparr>"
    using assms(4) set_brightness_on [OF assms(1,2), of s] i2t_u8 by simp
  with assms(5) have "s2 = arm_timer (s\<lparr>m_previous_level := m_level s, m_level := b,
      interval := 8333 * (100 - uint b) div 100, m_isOn := True\<rparr>)"
    by (simp add: set_power_def)
  then show ?thesis by (simp add: arm_timer_def Let_def)
qed

theorem phase_delay_of_brightness_witness:
  "\<exists>s1 s2. set_brightness cfg_plain 40 slider0 = Some s1 \<and> set_power cfg_plain True s1 = Some s2
     \<and> alarm_count s2 = 4999"
proof -
  have f: "\<not> cfg_FADE_ENABLE cfg_plain" by (simp add: cfg_plain_def)
  obtain s1 where 1: "set_brightness cfg_plain 40 slider0 = Some s1"
    using set_brightness_on [OF f, of 40 slider0] by simp
  obtain s2 where 2: "set_power cfg_plain True s1 = Some s2" by (simp add: set_power_def)
  have "alarm_count s2 = 4999" using phase_delay_of_brightness [OF f _ _ 1 2] by simp
  with 1 2 show ?thesis by blast
qed

text \<open>C2: The timer never outlives a half cycle. In every state the driver reaches by its operations and
  interrupts, as long as callers ask for percentages and fading is off, the armed delay is at most
  the half cycle of 8333 microseconds and no fade is ever in progress.\<close>

theorem delay_within_half_cycle:
  assumes "slider_reachable c t s" and "\<not> cfg_FADE_ENABLE c"
  shows "alarm_count s \<le> 8333 \<and> 0 \<le> interval s \<and> interval s \<le> 8333 \<and> \<not> start_fade s"
  using slider_reachable_inv [OF assms] by (simp add: half_cycle_inv_def)

theorem delay_within_half_cycle_witness:
  "alarm_count (on_timer_alarm_cb cfg_plain slider0) \<le> 8333"
proof -
  have "slider_reachable cfg_plain cap_const (on_timer_alarm_cb cfg_plain slider0)"
    by (blast intro: slider_reachable.intros slider_step.st_alarm slider0_ctor)
  from delay_within_half_cycle [OF this] show ?thesis by (simp add: cfg_plain_def)
qed

text \<open>Switching the light off and on again leaves it dark. Power-off sets the brightness to 0 and the
  delay to the full half cycle; power-on arms the timer with that delay and does not restore the
  level that was set before.\<close>

theorem off_then_on_stays_dark:
  assumes "\<not> cfg_FADE_ENABLE c"
  shows "\<exists>s1 s2. set_power c False s = Some s1 \<and> set_power c True s1 = Some s2
     \<and> m_isOn s2 \<and> m_level s2 = 0 \<and> alarm_count s2 = 8333"
  using assms by (simp add: set_power_def set_brightness_off arm_timer_def Let_def)

theorem off_then_on_stays_dark_witness:
  "\<exists>s1 s2. set_power cfg_plain False slider0 = Some s1 \<and> set_power cfg_plain True s1 = Some s2
     \<and> m_isOn s2 \<and> m_level s2 = 0 \<and> alarm_count s2 = 8333"
  using off_then_on_stays_dark [of cfg_plain slider0] by (simp add: cfg_plain_def)

text \<open>The LED bar. After \<open>set_level_led\<close> with a percentage, LED \<open>i\<close> from the bottom (channel
  \<open>7 - i\<close>) is lit exactly when \<open>i < 8 * level / 100\<close>, and the registers of every other channel
  are as before.\<close>

theorem level_bar_shows_level:
  assumes "level \<le> 100"
  shows "lit (led_after r (sl_trace (set_level_led level s))) ch =
    (if 0 \<le> ch \<and> ch \<le> 7 then 7 - ch < 8 * uint level div 100
     else lit (led_after r (sl_trace s)) ch)"
proof -
  have u: "0 \<le> uint level" "uint level \<le> 100"
    using assms by (simp_all add: word_le_def)
  define n where "n = 8 * uint level div 100"
  have n: "0 \<le> n" "n \<le> 8" unfolding n_def using u by arith+
  have z: "level = 0 \<Longrightarrow> n = 0" by (simp add: n_def)
  have sd: "(8 * uint level) sdiv 100 = n" using u by (simp add: n_def sdiv_nonneg)
  show ?thesis
    unfolding set_level_led_trace sd
    using n z by (auto simp: Let_def led_after_append led_after_bar lit_def n_def [symmetric])
qed

theorem level_bar_shows_level_witness:
  "lit (led_after ((\<lambda>_. 0), (\<lambda>_. False)) (sl_trace (set_level_led 50 slider0))) 4
   \<and> \<not> lit (led_after ((\<lambda>_. 0), (\<lambda>_. False)) (sl_trace (set_level_led 50 slider0))) 3"
  using level_bar_shows_level [of 50 "((\<lambda>_. 0), (\<lambda>_. False))" slider0 4]
    level_bar_shows_level [of 50 "((\<lambda>_. 0), (\<lambda>_. False))" slider0 3]
  by simp

text \<open>A level above 112 leaves the bar. The calls of \<open>set_level_led\<close> stay on channels 0 to 7
  exactly when the level is at most 112; above, the loop counts past channel 0. The Matter scale the
  firmware also stores as the previous level goes up to 254.\<close>

theorem level_bar_channels:
  "(\<forall>e \<in> set (drop (length (sl_trace s)) (sl_trace (set_level_led level s))).
      case led_channel e of None \<Rightarrow> True | Some ch \<Rightarrow> 0 \<le> ch \<and> ch \<le> 7) \<longleftrightarrow> level \<le> 112"
proof -
  define n where "n = 8 * uint level div 100"
  have n0: "0 \<le> n" unfolding n_def by (intro pos_imp_zdiv_nonneg_iff [THEN iffD2]) simp_all
  have sd: "(8 * uint level) sdiv 100 = n" by (simp add: n_def sdiv_nonneg)
  have "uint (112 :: u8) = 112" by simp
  then have n8: "n \<le> 8 \<longleftrightarrow> level \<le> 112" unfolding n_def word_le_def by arith
  have z: "level = 0 \<Longrightarrow> n = 0" by (simp add: n_def)
  define m where "m = nat (if level = 0 then 8 else n)"
  have tr: "drop (length (sl_trace s)) (sl_trace (set_level_led level s)) =
      bar_calls 0 m 100 (n > 0) @ bar_calls m 8 0 (\<not> n > 0)"
    by (simp add: set_level_led_trace sd Let_def m_def)
  have mle: "m \<le> 8 \<longleftrightarrow> level \<le> 112" using n8 n0 by (auto simp: m_def)
  show ?thesis
  proof
    assume "level \<le> 112"
    with mle have "m \<le> 8" by blast
    then show "\<forall>e \<in> set (drop (length (sl_trace s)) (sl_trace (set_level_led level s))).
      case led_channel e of None \<Rightarrow> True | Some ch \<Rightarrow> 0 \<le> ch \<and> ch \<le> 7"
      unfolding tr by (fastforce dest: bar_calls_channels split: option.splits)
  next
    assume a: "\<forall>e \<in> set (drop (length (sl_trace s)) (sl_trace (set_level_led level s))).
      case led_channel e of None \<Rightarrow> True | Some ch \<Rightarrow> 0 \<le> ch \<and> ch \<le> 7"
    show "level \<le> 112"
    proof (rule ccontr)
      assume "\<not> level \<le> 112"
      with mle have "8 < m" by auto
      then have "Led_setPWM (7 - int 8) 100 \<in> set (bar_calls 0 m 100 (n > 0))"
        by (force simp: bar_calls_def)
      with a show False unfolding tr by (force simp: led_channel_def)
    qed
  qed
qed

theorem level_bar_channels_witness:
  "\<not> (\<forall>e \<in> set (drop (length (sl_trace slider0)) (sl_trace (set_level_led 254 slider0))).
      case led_channel e of None \<Rightarrow> True | Some ch \<Rightarrow> 0 \<le> ch \<and> ch \<le> 7)"
  by (simp only: level_bar_channels) simp

end
