(* ===== verification/IODriver.thy ===== *)
theory IODriver
  imports SliderDriver
begin

text \<open>
  components/IODriver: the globals shared by the push-button interrupt, the slider task and the
  Matter attribute callback, and the entry points main/app_main.cpp calls. The Matter stack is not
  in the repository: its identifiers, its range macro and its attribute store are the record
  \<open>matter\<close>; in particular \<open>attr_update\<close> (\<open>esp_matter::attribute::update\<close>) acts on the
  whole firmware state, because the stack calls the firmware back from it. \<open>None\<close> is the
  undefined behaviour of the slider driver (division by zero when fading in one step).
\<close>

section \<open>State\<close>

text \<open>
  \<open>esp_matter_attr_val_t\<close>: a type tag and a union. \<open>val.b\<close> and \<open>val.u8\<close> share the union's
  first byte, which is all the firmware reads or writes.
\<close>

record attr_val =
  av_type :: int
  av_byte :: u8

definition val_b :: "attr_val \<Rightarrow> bool" where
  "val_b v \<longleftrightarrow> av_byte v \<noteq> 0"

definition set_b :: "bool \<Rightarrow> attr_val \<Rightarrow> attr_val" where
  "set_b b v = v\<lparr>av_byte := (if b then 1 else 0)\<rparr>"

definition set_u8 :: "u8 \<Rightarrow> attr_val \<Rightarrow> attr_val" where
  "set_u8 x v = v\<lparr>av_byte := x\<rparr>"

record 'd io =
  slider :: "'d slider"
  is_pressed :: bool
  is_fading :: bool
  old_state :: bool
  io_level :: u8
  old_level :: u16
  old_tick_btn :: u32
  old_tick_touch :: u32

record io_cfg =
  slider_conf :: slider_cfg
  cfg_PIN_BTN :: int
  cfg_PIN_RELAY_ENABLE :: int

record 'd matter =
  OnOff_Id :: u32
  OnOff_OnOff_Id :: u32
  LevelControl_Id :: u32
  LevelControl_CurrentLevel_Id :: u32
  remap_to_range :: "int \<Rightarrow> int \<Rightarrow> int \<Rightarrow> int"
  attr_get_val :: "u16 \<Rightarrow> u32 \<Rightarrow> u32 \<Rightarrow> 'd io \<Rightarrow> attr_val"
  attr_update :: "u16 \<Rightarrow> u32 \<Rightarrow> u32 \<Rightarrow> attr_val \<Rightarrow> 'd io \<Rightarrow> 'd io option"

definition DEBOUNCE_TIME :: u32 where "DEBOUNCE_TIME = 300"
definition DEBOUNCE_TIME_TOUCH :: u32 where "DEBOUNCE_TIME_TOUCH = 20"
definition MATTER_BRIGHTNESS :: int where "MATTER_BRIGHTNESS = 254"
definition STANDARD_BRIGHTNESS :: int where "STANDARD_BRIGHTNESS = 100"
definition DEFAULT_POWER :: bool where "DEFAULT_POWER = True"
definition DEFAULT_BRIGHTNESS :: u8 where "DEFAULT_BRIGHTNESS = 180"

text \<open>The globals as their initialisers leave them, around a constructed slider.\<close>

definition io_init :: "'d slider \<Rightarrow> 'd io" where
  "io_init d = \<lparr>slider = d, is_pressed = False, is_fading = False, old_state = True, io_level = 0,
     old_level = 0, old_tick_btn = 0, old_tick_touch = 0\<rparr>"

definition on_slider :: "('d slider \<Rightarrow> 'd slider) \<Rightarrow> 'd io \<Rightarrow> 'd io" where
  "on_slider f s = s\<lparr>slider := f (slider s)\<rparr>"

definition on_slider_opt :: "('d slider \<Rightarrow> 'd slider option) \<Rightarrow> 'd io \<Rightarrow> 'd io option" where
  "on_slider_opt f s = map_option (\<lambda>d. s\<lparr>slider := d\<rparr>) (f (slider s))"

section \<open>Button interrupt\<close>

definition buttonCb :: "u32 \<Rightarrow> 'd io \<Rightarrow> 'd io" where
  "buttonCb tick_now s =
     (let s1 = (if tick_now - old_tick_btn s > DEBOUNCE_TIME then s\<lparr>is_pressed := True\<rparr> else s)
      in s1\<lparr>old_tick_btn := tick_now\<rparr>)"

section \<open>Slider task\<close>

text \<open>The \<open>if (is_pressed)\<close> block of the task loop.\<close>

definition handle_press :: "'d matter \<Rightarrow> 'd io \<Rightarrow> 'd io option" where
  "handle_press m s =
     (if is_pressed s then
        (let attr_val = (set_b (\<not> old_state s) \<lparr>av_type = 0, av_byte = 0\<rparr>)\<lparr>av_type := 1\<rparr> in
         map_option (\<lambda>s1. s1\<lparr>old_state := \<not> old_state s1, is_pressed := False\<rparr>)
           (attr_update m 1 (OnOff_Id m) (OnOff_OnOff_Id m) attr_val s))
      else Some s)"

text \<open>The \<open>if (level != old_level)\<close> block: report the level, and switch on when off.\<close>

definition report_level :: "'d matter \<Rightarrow> 'd io \<Rightarrow> 'd io option" where
  "report_level m s =
     (if ucast (io_level s) \<noteq> old_level s then
        (let attr_val = (set_u8 (io_level s) \<lparr>av_type = 0, av_byte = 0\<rparr>)\<lparr>av_type := 2\<rparr> in
         Option.bind (attr_update m 1 (LevelControl_Id m) (LevelControl_CurrentLevel_Id m) attr_val s)
           (\<lambda>s1. let s2 = s1\<lparr>old_level := ucast (io_level s1)\<rparr> in
              if \<not> old_state s2 then
                map_option (\<lambda>s3. s3\<lparr>old_state := \<not> old_state s3\<rparr>)
                  (attr_update m 1 (OnOff_Id m) (OnOff_OnOff_Id m) (set_b True attr_val) s2)
              else Some s2))
      else Some s)"

text \<open>The \<open>if (slider.newTouches())\<close> block; \<open>tick_now\<close> is what \<open>xTaskGetTickCount\<close> returns.\<close>

definition handle_touch :: "'d matter \<Rightarrow> 'd cap1298 \<Rightarrow> u32 \<Rightarrow> 'd io \<Rightarrow> 'd io option" where
  "handle_touch m t tick_now s =
     (case newTouches t (slider s) of (touched, d) \<Rightarrow>
       let s1 = s\<lparr>slider := d\<rparr> in
       if touched \<and> tick_now - old_tick_touch s1 > DEBOUNCE_TIME_TOUCH then
         (let s2 = on_slider (updateTouchStatus t) (s1\<lparr>old_tick_touch := tick_now\<rparr>) in
          case getLevel t 254 (slider s2) of (lv, d2) \<Rightarrow>
            report_level m (s2\<lparr>slider := d2, io_level := lv\<rparr>))
       else Some s1)"

definition show_leds :: "'d io \<Rightarrow> 'd io" where
  "show_leds s =
     (let s1 = on_slider (set_front_led (old_state s)) s
      in on_slider (set_level_led (if old_state s1 then getLevelRaw (slider s1) else 0)) s1)"

text \<open>One iteration of the endless loop of \<open>sliderTask\<close>.\<close>

definition sliderTask_iter :: "'d matter \<Rightarrow> 'd cap1298 \<Rightarrow> u32 \<Rightarrow> 'd io \<Rightarrow> 'd io option" where
  "sliderTask_iter m t tick_now s =
     Option.bind (handle_press m s) (\<lambda>s1.
       map_option show_leds (handle_touch m t tick_now s1))"

section \<open>Entry points\<close>

definition app_driver_switch_init :: "io_cfg \<Rightarrow> 'd io \<Rightarrow> 'd io" where
  "app_driver_switch_init c s =
     on_slider (emit
       [Gpio_set_direction (cfg_PIN_BTN c) GPIO_MODE_INPUT,
        Gpio_set_direction (cfg_PIN_RELAY_ENABLE c) GPIO_MODE_OUTPUT,
        Gpio_pulldown_en (cfg_PIN_BTN c), Gpio_pullup_dis (cfg_PIN_BTN c),
        Gpio_set_intr_posedge (cfg_PIN_BTN c), Gpio_isr_handler_add (cfg_PIN_BTN c)]) s"

definition app_driver_light_set_power :: "io_cfg \<Rightarrow> attr_val \<Rightarrow> 'd io \<Rightarrow> 'd io option" where
  "app_driver_light_set_power c v s = on_slider_opt (set_power (slider_conf c) (val_b v)) s"

definition to_percent :: "'d matter \<Rightarrow> u8 \<Rightarrow> u8" where
  "to_percent m x = word_of_int (remap_to_range m (uint x) MATTER_BRIGHTNESS STANDARD_BRIGHTNESS)"

definition app_driver_light_set_brightness :: "io_cfg \<Rightarrow> 'd matter \<Rightarrow> attr_val \<Rightarrow> 'd io \<Rightarrow> 'd io option" where
  "app_driver_light_set_brightness c m v s =
     on_slider_opt (set_brightness (slider_conf c) (to_percent m (av_byte v))) s"

definition app_driver_attribute_update ::
  "io_cfg \<Rightarrow> 'd matter \<Rightarrow> u16 \<Rightarrow> u32 \<Rightarrow> u32 \<Rightarrow> attr_val \<Rightarrow> 'd io \<Rightarrow> 'd io option" where
  "app_driver_attribute_update c m endpoint_id cluster_id attribute_id v s =
     (if endpoint_id = 1 then
        if cluster_id = OnOff_Id m then
          if attribute_id = OnOff_OnOff_Id m then
            on_slider_opt (set_power (slider_conf c) (val_b v))
              (on_slider (emit [Gpio_set_level (cfg_PIN_RELAY_ENABLE c) (if val_b v then 1 else 0)]) s)
          else Some s
        else if cluster_id = LevelControl_Id m then
          if attribute_id = LevelControl_CurrentLevel_Id m then
            map_option (\<lambda>s1. s1\<lparr>old_level := ucast (av_byte v)\<rparr>)
              (on_slider_opt (set_brightness (slider_conf c) (to_percent m (av_byte v))) s)
          else Some s
        else Some s
      else Some s)"

definition app_driver_set_default :: "io_cfg \<Rightarrow> 'd matter \<Rightarrow> u16 \<Rightarrow> 'd io \<Rightarrow> 'd io option" where
  "app_driver_set_default c m endpoint_id s =
     (let v1 = set_u8 DEFAULT_BRIGHTNESS
                 (attr_get_val m endpoint_id (LevelControl_Id m) (LevelControl_CurrentLevel_Id m) s) in
      Option.bind (attr_update m endpoint_id (LevelControl_Id m) (LevelControl_CurrentLevel_Id m) v1 s)
        (\<lambda>s1. Option.bind (app_driver_light_set_brightness c m v1 s1)
        (\<lambda>s2. let v2 = set_b DEFAULT_POWER
                     (attr_get_val m endpoint_id (OnOff_Id m) (OnOff_OnOff_Id m) s2) in
          Option.bind (attr_update m endpoint_id (OnOff_Id m) (OnOff_OnOff_Id m) v2 s2)
            (app_driver_light_set_power c v2))))"

definition app_driver_start_sensor :: "io_cfg \<Rightarrow> 'd io \<Rightarrow> 'd io" where
  "app_driver_start_sensor c s =
     (case start (slider_conf c) (slider s) of (is_configured, d) \<Rightarrow>
       s\<lparr>slider := emit [if is_configured then Task_create ''sliderTask''
                          else Log_error ''Slider not configured''] d\<rparr>)"

end
