(* ===== verification/AppMain.thy ===== *)
theory AppMain
  imports IODriver
begin

text \<open>
  main/app_main.cpp: the Matter callbacks, the boot sequence, and the closed system in which the
  Matter stack calls the firmware back from every attribute write. The closed system is what the
  documentation of the stack says of \<open>attribute::update\<close>: the value is handed to the registered
  attribute callback first (\<open>PRE_UPDATE\<close>), then stored, then announced (\<open>POST_UPDATE\<close>).
\<close>

section \<open>Callbacks\<close>

datatype callback_type = PRE_UPDATE | POST_UPDATE | READ_CB | WRITE_CB

datatype device_event =
    kInterfaceIpAddressChanged
  | kCommissioningComplete
  | kFailSafeTimerExpired
  | kCommissioningSessionStarted
  | kCommissioningSessionStopped
  | kCommissioningWindowOpened
  | kCommissioningWindowClosed
  | kOtherEvent

text \<open>What \<open>app_event_cb\<close> logs; it changes no state.\<close>

fun app_event_cb :: "device_event \<Rightarrow> string option" where
  "app_event_cb kInterfaceIpAddressChanged = Some ''Interface IP Address Changed''"
| "app_event_cb kCommissioningComplete = Some ''Commissioning complete''"
| "app_event_cb kFailSafeTimerExpired = Some ''Commissioning failed, fail safe timer expired''"
| "app_event_cb kCommissioningSessionStarted = Some ''Commissioning session started''"
| "app_event_cb kCommissioningSessionStopped = Some ''Commissioning session stopped''"
| "app_event_cb kCommissioningWindowOpened = Some ''Commissioning window opened''"
| "app_event_cb kCommissioningWindowClosed = Some ''Commissioning window closed''"
| "app_event_cb kOtherEvent = None"

definition app_attribute_update_cb ::
  "io_cfg \<Rightarrow> 'd matter \<Rightarrow> callback_type \<Rightarrow> u16 \<Rightarrow> u32 \<Rightarrow> u32 \<Rightarrow> attr_val \<Rightarrow> 'd io \<Rightarrow> 'd io option" where
  "app_attribute_update_cb c m ty endpoint_id cluster_id attribute_id v s =
     (if ty = PRE_UPDATE then app_driver_attribute_update c m endpoint_id cluster_id attribute_id v s
      else Some s)"

section \<open>Boot\<close>

text \<open>
  \<open>app_main\<close>: \<open>node_ok\<close> tells whether \<open>node::create\<close> returned a node and \<open>configureSwitch\<close>
  \<open>ESP_OK\<close>, \<open>start_ok\<close> whether \<open>esp_matter::start\<close> succeeded; failures are only logged.
\<close>

definition app_main :: "io_cfg \<Rightarrow> 'd matter \<Rightarrow> bool \<Rightarrow> bool \<Rightarrow> 'd io \<Rightarrow> 'd io option" where
  "app_main c m node_ok start_ok s =
     (let s1 = app_driver_switch_init c s;
          s2 = (if node_ok then s1 else on_slider (emit [Log_error ''Matter node creation failed'']) s1);
          s3 = (if start_ok then s2 else on_slider (emit [Log_error ''Matter start failed'']) s2);
          s4 = app_driver_start_sensor c s3
      in app_driver_set_default c m 1 s4)"

section \<open>The closed system\<close>

definition closed :: "io_cfg \<Rightarrow> 'd matter \<Rightarrow> bool" where
  "closed c m \<longleftrightarrow> attr_update m =
     (\<lambda>ep cl at v s. Option.bind (app_attribute_update_cb c m PRE_UPDATE ep cl at v s)
        (app_attribute_update_cb c m POST_UPDATE ep cl at v))"

text \<open>Tying the knot: the same stack, its attribute store calling the firmware back.\<close>

definition close_loop :: "io_cfg \<Rightarrow> 'd matter \<Rightarrow> 'd matter" where
  "close_loop c m = m\<lparr>attr_update :=
     (\<lambda>ep cl at v s. Option.bind (app_attribute_update_cb c m PRE_UPDATE ep cl at v s)
        (app_attribute_update_cb c m POST_UPDATE ep cl at v))\<rparr>"

text \<open>The range macro of the Matter examples, as documented: \<open>(value * to) / from\<close>.\<close>

definition documented_remap :: "'d matter \<Rightarrow> bool" where
  "documented_remap m \<longleftrightarrow> remap_to_range m = (\<lambda>value from to. (value * to) sdiv from)"

definition distinct_ids :: "'d matter \<Rightarrow> bool" where
  "distinct_ids m \<longleftrightarrow> OnOff_Id m \<noteq> LevelControl_Id m"

lemma attribute_update_ignores_store:
  "app_driver_attribute_update c (m\<lparr>attr_update := f\<rparr>) = app_driver_attribute_update c m"
proof -
  have "to_percent (m\<lparr>attr_update := f\<rparr>) = to_percent m" by (simp add: to_percent_def fun_eq_iff)
  then show ?thesis by (intro ext) (simp add: app_driver_attribute_update_def)
qed

lemma close_loop_closed: "closed c (close_loop c m)"
  unfolding closed_def close_loop_def app_attribute_update_cb_def attribute_update_ignores_store
  by simp

lemma close_loop_simps [simp]:
  "remap_to_range (close_loop c m) = remap_to_range m" "OnOff_Id (close_loop c m) = OnOff_Id m"
  "LevelControl_Id (close_loop c m) = LevelControl_Id m"
  "OnOff_OnOff_Id (close_loop c m) = OnOff_OnOff_Id m"
  "LevelControl_CurrentLevel_Id (close_loop c m) = LevelControl_CurrentLevel_Id m"
  by (simp_all add: close_loop_def)

lemma closed_update:
  "closed c m \<Longrightarrow> attr_update m ep cl at v s = app_driver_attribute_update c m ep cl at v s"
  by (simp add: closed_def app_attribute_update_cb_def split: option.splits bind_splits)

text \<open>The steps of the closed system: interrupts, the slider task, and writes by Matter clients.\<close>

inductive sys_step :: "io_cfg \<Rightarrow> 'd matter \<Rightarrow> 'd cap1298 \<Rightarrow> 'd io \<Rightarrow> 'd io \<Rightarrow> bool"
  for c :: io_cfg and m :: "'d matter" and t :: "'d cap1298" where
  sys_button: "sys_step c m t s (buttonCb tick s)"
| sys_zero_cross: "sys_step c m t s (on_slider (gpio_isr_handler (slider_conf c)) s)"
| sys_alarm: "sys_step c m t s (on_slider (on_timer_alarm_cb (slider_conf c)) s)"
| sys_task: "sliderTask_iter m t tick s = Some s' \<Longrightarrow> sys_step c m t s s'"
| sys_client: "app_attribute_update_cb c m ty ep cl at v s = Some s' \<Longrightarrow> sys_step c m t s s'"

inductive sys_reachable :: "io_cfg \<Rightarrow> 'd matter \<Rightarrow> 'd cap1298 \<Rightarrow> 'd io \<Rightarrow> bool"
  for c :: io_cfg and m :: "'d matter" and t :: "'d cap1298" where
  sys_boot: "SliderDriver_ctor (slider_conf c) b r d = Some sl \<Longrightarrow>
     app_main c m n st (io_init sl) = Some s \<Longrightarrow> sys_reachable c m t s"
| sys_run: "sys_reachable c m t s \<Longrightarrow> sys_step c m t s s' \<Longrightarrow> sys_reachable c m t s'"

section \<open>The percentage handed to the dimmer\<close>

lemma to_percent_bound: "documented_remap m \<Longrightarrow> to_percent m x \<le> 100"
proof -
  assume r: "documented_remap m"
  have "uint x \<le> 255" using uint_bounded [of x] by simp
  then have "uint x * 100 div 254 \<le> 25500 div 254" by (intro zdiv_mono1) simp_all
  moreover have "0 \<le> uint x * 100 div 254" by (intro pos_imp_zdiv_nonneg_iff [THEN iffD2]) simp_all
  ultimately have "uint x * 100 div 254 \<in> {0..100}" by simp
  then show ?thesis using r
    by (simp add: to_percent_def documented_remap_def MATTER_BRIGHTNESS_def STANDARD_BRIGHTNESS_def
        sdiv_nonneg word_le_def uint_word_of_int take_bit_int_eq_self)
qed

section \<open>The slider invariant along the system\<close>

abbreviation sys_inv :: "'d io \<Rightarrow> bool" where
  "sys_inv s \<equiv> half_cycle_inv (slider s)"

named_theorems sys_inv_intros \<open>operations of the firmware keep the timer within the half cycle\<close>

lemma sys_inv_fields [sys_inv_intros, simp]:
  "sys_inv (s\<lparr>is_pressed := b\<rparr>) = sys_inv s" "sys_inv (s\<lparr>old_state := b\<rparr>) = sys_inv s"
  "sys_inv (s\<lparr>old_level := l\<rparr>) = sys_inv s" "sys_inv (s\<lparr>io_level := v\<rparr>) = sys_inv s"
  "sys_inv (s\<lparr>old_tick_btn := u\<rparr>) = sys_inv s" "sys_inv (s\<lparr>old_tick_touch := u\<rparr>) = sys_inv s"
  by (simp_all add: half_cycle_inv_def)

lemma half_cycle_emit [simp]: "half_cycle_inv (emit es d) = half_cycle_inv d"
  by (simp add: half_cycle_inv_def)

lemma step_inv:
  "\<not> cfg_FADE_ENABLE c \<Longrightarrow> half_cycle_inv d \<Longrightarrow> slider_step c t d d' \<Longrightarrow> half_cycle_inv d'"
  by (blast intro: slider_step_inv)

lemma update_inv:
  assumes plain: "\<not> cfg_FADE_ENABLE (slider_conf c)" and remap: "documented_remap m"
    and upd: "app_driver_attribute_update c m ep cl at v s = Some s'" and inv: "sys_inv s"
  shows "sys_inv s'"
proof -
  have p: "half_cycle_inv d'" if "set_power (slider_conf c) b (emit es (slider s)) = Some d'" for b es d'
    using set_power_inv [OF plain _ that] inv by simp
  have q: "half_cycle_inv d'" if "set_brightness (slider_conf c) (to_percent m x) (slider s) = Some d'" for x d'
    using set_brightness_inv [OF plain to_percent_bound [OF remap] inv that] .
  show ?thesis using upd inv
    by (auto simp: app_driver_attribute_update_def on_slider_opt_def on_slider_def dest: p q split: if_splits)
qed

lemma handle_press_inv:
  assumes "\<not> cfg_FADE_ENABLE (slider_conf c)" "documented_remap m" "closed c m"
    and "handle_press m s = Some s'" "sys_inv s"
  shows "sys_inv s'"
  using assms update_inv [OF assms(1,2)]
  by (auto simp: handle_press_def closed_update Let_def split: if_splits)

lemma report_level_inv:
  assumes "\<not> cfg_FADE_ENABLE (slider_conf c)" "documented_remap m" "closed c m"
    and "report_level m s = Some s'" "sys_inv s"
  shows "sys_inv s'"
proof -
  have upd: "sys_inv y" if "attr_update m ep cl at v x = Some y" "sys_inv x" for ep cl at v x y
    using that update_inv [OF assms(1,2)] by (simp add: closed_update [OF assms(3)])
  show ?thesis
  proof (cases "ucast (io_level s) = old_level s")
    case True
    then show ?thesis using assms(4,5) by (simp add: report_level_def)
  next
    case False
    define v where "v = (set_u8 (io_level s) \<lparr>av_type = 0, av_byte = 0\<rparr>)\<lparr>av_type := 2\<rparr>"
    from False assms(4) obtain s1 where
      1: "attr_update m 1 (LevelControl_Id m) (LevelControl_CurrentLevel_Id m) v s = Some s1" and
      2: "(if \<not> old_state s1 then map_option (\<lambda>s3. s3\<lparr>old_state := \<not> old_state s3\<rparr>)
             (attr_update m 1 (OnOff_Id m) (OnOff_OnOff_Id m) (set_b True v)
               (s1\<lparr>old_level := ucast (io_level s1)\<rparr>))
           else Some (s1\<lparr>old_level := ucast (io_level s1)\<rparr>)) = Some s'"
      by (auto simp: report_level_def Let_def v_def [symmetric] bind_eq_Some_conv)
    have i1: "sys_inv (s1\<lparr>old_level := ucast (io_level s1)\<rparr>)" using upd [OF 1 assms(5)] by simp
    show ?thesis
    proof (cases "old_state s1")
      case True
      then show ?thesis using 2 i1 by auto
    next
      case False
      then show ?thesis using 2 upd [OF _ i1] by auto
    qed
  qed
qed

lemma handle_touch_inv:
  assumes "\<not> cfg_FADE_ENABLE (slider_conf c)" "documented_remap m" "closed c m"
    and "handle_touch m t tick s = Some s'" "sys_inv s"
  shows "sys_inv s'"
proof -
  obtain touched d where nt: "newTouches t (slider s) = (touched, d)" by fastforce
  then have d: "half_cycle_inv d"
    using step_inv [OF assms(1) assms(5) st_newTouches] by (metis snd_conv)
  show ?thesis
  proof (cases "touched \<and> tick - old_tick_touch (s\<lparr>slider := d\<rparr>) > DEBOUNCE_TIME_TOUCH")
    case False
    then have "s' = s\<lparr>slider := d\<rparr>" using assms(4) nt by (auto simp: handle_touch_def Let_def)
    then show ?thesis using d by simp
  next
    case True
    define e where "e = updateTouchStatus t d"
    obtain lv d2 where gl: "getLevel t 254 e = (lv, d2)" by fastforce
    have "half_cycle_inv e" unfolding e_def by (rule step_inv [OF assms(1) d st_updateTouch])
    then have "half_cycle_inv d2"
      using step_inv [OF assms(1) _ st_getLevel] gl by (metis snd_conv)
    moreover have "report_level m (s\<lparr>old_tick_touch := tick, slider := d2, io_level := lv\<rparr>) = Some s'"
      using assms(4) nt True gl by (simp add: handle_touch_def Let_def on_slider_def e_def)
    ultimately show ?thesis using report_level_inv [OF assms(1-3)] by fastforce
  qed
qed

lemma show_leds_inv: "sys_inv s \<Longrightarrow> sys_inv (show_leds s)"
  by (simp add: show_leds_def on_slider_def Let_def set_front_led_def set_level_led_trace)

lemma sliderTask_inv:
  assumes "\<not> cfg_FADE_ENABLE (slider_conf c)" "documented_remap m" "closed c m"
    and "sliderTask_iter m t tick s = Some s'" "sys_inv s"
  shows "sys_inv s'"
  using assms(4,5) handle_press_inv [OF assms(1-3)] handle_touch_inv [OF assms(1-3)] show_leds_inv
  by (fastforce simp: sliderTask_iter_def bind_eq_Some_conv)

lemma sys_step_inv:
  assumes "sys_step c m t s s'" and plain: "\<not> cfg_FADE_ENABLE (slider_conf c)"
    and "documented_remap m" "closed c m" "sys_inv s"
  shows "sys_inv s'"
  using assms(1)
proof cases
  case (sys_button tick)
  then show ?thesis using assms(5) by (simp add: buttonCb_def Let_def)
next
  case sys_zero_cross
  then show ?thesis using step_inv [OF plain assms(5) st_zero_cross] by (simp add: on_slider_def)
next
  case sys_alarm
  then show ?thesis using step_inv [OF plain assms(5) st_alarm] by (simp add: on_slider_def)
next
  case (sys_task tick)
  then show ?thesis using sliderTask_inv [OF assms(2-4)] assms(5) by blast
next
  case (sys_client ty ep cl at v)
  then show ?thesis using update_inv [OF assms(2,3)] assms(5)
    by (auto simp: app_attribute_update_cb_def split: if_splits)
qed

lemma app_main_inv:
  assumes plain: "\<not> cfg_FADE_ENABLE (slider_conf c)" and "documented_remap m" "closed c m"
    and boot: "app_main c m n st s = Some s'" and inv: "sys_inv s"
  shows "sys_inv s'"
proof -
  have upd: "sys_inv y" if "attr_update m ep cl at v x = Some y" "sys_inv x" for ep cl at v x y
    using that update_inv [OF assms(1,2)] by (simp add: closed_update [OF assms(3)])
  have br: "sys_inv y" if "app_driver_light_set_brightness c m v x = Some y" "sys_inv x" for v x y
    using that set_brightness_inv [OF plain to_percent_bound [OF assms(2)]]
    by (auto simp: app_driver_light_set_brightness_def on_slider_opt_def)
  have pw: "sys_inv y" if "app_driver_light_set_power c v x = Some y" "sys_inv x" for v x y
    using that set_power_inv [OF plain] by (auto simp: app_driver_light_set_power_def on_slider_opt_def)
  have st: "sys_inv (app_driver_start_sensor c x)" if "sys_inv x" for x
    using that by (simp add: app_driver_start_sensor_def start_def fold_emit Let_def)
  have dflt: "sys_inv y" if "app_driver_set_default c m ep x = Some y" "sys_inv x" for ep x y
    using that by (auto simp: app_driver_set_default_def Let_def bind_eq_Some_conv dest!: upd br pw)
  show ?thesis using boot inv
    by (auto simp: app_main_def Let_def app_driver_switch_init_def on_slider_def intro!: st elim!: dflt split: if_splits)
qed

lemma sys_reachable_inv:
  "sys_reachable c m t s \<Longrightarrow> \<not> cfg_FADE_ENABLE (slider_conf c) \<Longrightarrow> documented_remap m \<Longrightarrow> closed c m \<Longrightarrow>
   sys_inv s"
proof (induction rule: sys_reachable.induct)
  case (sys_boot b r d sl n st s)
  have "sys_inv (io_init sl)" using ctor_inv [OF sys_boot(1)] by (simp add: io_init_def)
  then show ?case using app_main_inv [OF sys_boot(3-5) sys_boot(2)] by blast
next
  case (sys_run s s')
  then show ?case using sys_step_inv by blast
qed

section \<open>A concrete firmware\<close>

text \<open>The Matter identifiers of the On/Off and Level Control clusters, the Kconfig defaults.\<close>

definition matter_esp :: "'d matter" where
  "matter_esp = \<lparr>OnOff_Id = 6, OnOff_OnOff_Id = 0, LevelControl_Id = 8, LevelControl_CurrentLevel_Id = 0,
     remap_to_range = (\<lambda>value from to. (value * to) sdiv from),
     attr_get_val = (\<lambda>_ _ _ _. \<lparr>av_type = 0, av_byte = 0\<rparr>), attr_update = (\<lambda>_ _ _ _. Some)\<rparr>"

definition cfg_default :: io_cfg where
  "cfg_default = \<lparr>slider_conf = cfg_plain, cfg_PIN_BTN = 5, cfg_PIN_RELAY_ENABLE = 25\<rparr>"

definition matter0 :: "u8 matter" where
  "matter0 = close_loop cfg_default matter_esp"

lemma matter0_closed: "closed cfg_default matter0"
  by (simp add: matter0_def close_loop_closed)

lemma matter0_remap: "documented_remap matter0"
  by (simp add: matter0_def documented_remap_def matter_esp_def)

lemma matter0_ids [simp]:
  "OnOff_Id matter0 = 6" "OnOff_OnOff_Id matter0 = 0" "LevelControl_Id matter0 = 8"
  "LevelControl_CurrentLevel_Id matter0 = 0"
  by (simp_all add: matter0_def matter_esp_def)

lemma cfg_default_plain [simp]: "\<not> cfg_FADE_ENABLE (slider_conf cfg_default)"
  by (simp add: cfg_default_def cfg_plain_def)

section \<open>Properties\<close>

text \<open>C3: The firmware as a whole keeps the triac delay within the mains half cycle. From boot, under any
  interleaving of button edges, zero crossings, timer alarms, slider-task iterations and attribute
  writes by Matter clients, with any byte as level, the armed delay never exceeds 8333
  microseconds (fading off, the stack as documented).\<close>

theorem firmware_delay_within_half_cycle:
  assumes "sys_reachable c m t s"
    and "\<not> cfg_FADE_ENABLE (slider_conf c)" and "documented_remap m" and "closed c m"
  shows "alarm_count (slider s) \<le> 8333"
  using sys_reachable_inv [OF assms] by (simp add: half_cycle_inv_def)

text \<open>Boot of the concrete firmware, as a state to start witnesses from.\<close>

lemma to_percent_matter0: "to_percent matter0 180 = 70"
  using matter0_remap
  by (simp add: to_percent_def documented_remap_def MATTER_BRIGHTNESS_def STANDARD_BRIGHTNESS_def
      sdiv_nonneg)

definition booted :: "u8 io" where
  "booted = the (app_main cfg_default matter0 True True (io_init slider0))"

lemma set_default_closed:
  assumes "closed c m" "\<not> cfg_FADE_ENABLE (slider_conf c)" "distinct_ids m"
    and "to_percent m 180 = 70"
  shows "\<exists>s'. app_driver_set_default c m 1 s = Some s' \<and> m_level (slider s') = 70
     \<and> m_isOn (slider s') \<and> alarm_count (slider s') = 2499 \<and> old_level s' = 180
     \<and> old_state s' = old_state s"
proof -
  have b: "set_brightness (slider_conf c) 70 d =
      Some (d\<lparr>m_previous_level := m_level d, m_level := 70, interval := 2499\<rparr>)" for d :: "'a slider"
    using set_brightness_on [OF assms(2), of 70 d] i2t_u8 [of 70] by simp
  have "LevelControl_Id m \<noteq> OnOff_Id m" using assms(3) by (simp add: distinct_ids_def)
  then show ?thesis using assms(4)
    by (simp add: app_driver_set_default_def closed_update [OF assms(1)] Let_def
        app_driver_attribute_update_def DEFAULT_BRIGHTNESS_def DEFAULT_POWER_def set_u8_def set_b_def
        val_b_def on_slider_opt_def on_slider_def b app_driver_light_set_brightness_def
        app_driver_light_set_power_def set_power_def)
qed

lemma matter0_distinct: "distinct_ids matter0"
  by (simp add: distinct_ids_def)

lemma booted_main: "app_main cfg_default matter0 True True (io_init slider0) = Some booted"
proof -
  obtain s' where "app_main cfg_default matter0 True True (io_init slider0) = Some s'"
    using set_default_closed [OF matter0_closed cfg_default_plain matter0_distinct to_percent_matter0]
    unfolding app_main_def Let_def by blast
  then show ?thesis by (simp add: booted_def)
qed

lemma booted_reachable: "sys_reachable cfg_default matter0 cap_const booted"
  by (rule sys_boot [OF _ booted_main]) (use slider0_ctor in \<open>simp add: cfg_default_def\<close>)

theorem firmware_delay_within_half_cycle_witness: "alarm_count (slider (buttonCb 301 booted)) \<le> 8333"
proof -
  have "sys_reachable cfg_default matter0 cap_const (buttonCb 301 booted)"
    by (rule sys_run [OF booted_reachable sys_button])
  from firmware_delay_within_half_cycle [OF this cfg_default_plain matter0_remap matter0_closed]
  show ?thesis .
qed

text \<open>The boot default. After \<open>app_main\<close>, whatever it logged on the way, the light is on at 70
  percent (Matter level 180 of 254), the level is remembered, and the triac timer is armed with
  2499 microseconds.\<close>

theorem boot_default:
  assumes "closed c m" and "\<not> cfg_FADE_ENABLE (slider_conf c)" and "distinct_ids m"
    and "documented_remap m"
  shows "\<exists>s'. app_main c m node_ok start_ok s = Some s' \<and> m_level (slider s') = 70
     \<and> m_isOn (slider s') \<and> alarm_count (slider s') = 2499 \<and> old_level s' = 180
     \<and> old_state s' = old_state s"
proof -
  have "to_percent m 180 = 70" using assms(4)
    by (simp add: to_percent_def documented_remap_def MATTER_BRIGHTNESS_def STANDARD_BRIGHTNESS_def
        sdiv_nonneg)
  note dflt = set_default_closed [OF assms(1-3) this]
  define s4 where "s4 = app_driver_start_sensor c
     ((if start_ok then id else on_slider (emit [Log_error ''Matter start failed'']))
       ((if node_ok then id else on_slider (emit [Log_error ''Matter node creation failed'']))
         (app_driver_switch_init c s)))"
  have main: "app_main c m node_ok start_ok s = app_driver_set_default c m 1 s4"
    by (simp add: app_main_def Let_def s4_def)
  have "old_state s4 = old_state s"
    by (simp add: s4_def app_driver_start_sensor_def app_driver_switch_init_def on_slider_def split: prod.splits)
  then show ?thesis using dflt [of s4] main by auto
qed

theorem boot_default_witness:
  "\<exists>s'. app_main cfg_default matter0 False True (io_init slider0) = Some s' \<and> m_level (slider s') = 70
     \<and> m_isOn (slider s') \<and> alarm_count (slider s') = 2499 \<and> old_level s' = 180
     \<and> old_state s' = old_state (io_init slider0)"
  by (rule boot_default [OF matter0_closed cfg_default_plain matter0_distinct matter0_remap])

fun burst :: "u32 \<Rightarrow> u32 list \<Rightarrow> bool" where
  "burst t [] = True"
| "burst t (u # us) = (u - t \<le> DEBOUNCE_TIME \<and> burst u us)"

lemma buttonCb_burst:
  "burst (old_tick_btn s) us \<Longrightarrow> is_pressed (fold buttonCb us s) = is_pressed s"
  by (induction us arbitrary: s) (auto simp: buttonCb_def Let_def)

text \<open>Button debounce. In a burst of edges each at most 300 ticks after the one before (on the
  wrapping 32-bit tick counter), only the first edge can register a press.\<close>

theorem button_debounced:
  assumes "burst first rest"
  shows "is_pressed (fold buttonCb (first # rest) s) \<longleftrightarrow>
    is_pressed s \<or> first - old_tick_btn s > DEBOUNCE_TIME"
  using assms buttonCb_burst [of "buttonCb first s" rest] by (auto simp: buttonCb_def Let_def)

theorem button_debounced_witness:
  "is_pressed (fold buttonCb [1000, 1010, 1020] booted) \<longleftrightarrow>
    is_pressed booted \<or> 1000 - old_tick_btn booted > DEBOUNCE_TIME"
  using button_debounced [of 1000 "[1010, 1020]" booted] by (simp add: DEBOUNCE_TIME_def)

text \<open>A Matter On/Off write reaches the relay pin and the dimmer together: both take the written
  value, and the remembered local state is left as it was.\<close>

theorem onoff_write_switches_relay_and_dimmer:
  assumes "app_attribute_update_cb c m PRE_UPDATE 1 (OnOff_Id m) (OnOff_OnOff_Id m) v s = Some s'"
  shows "m_isOn (slider s') = val_b v
    \<and> Gpio_set_level (cfg_PIN_RELAY_ENABLE c) (if val_b v then 1 else 0) \<in> set (sl_trace (slider s'))
    \<and> last (sl_trace (slider s')) = Timer_set_alarm (alarm_count (slider s'))
    \<and> old_state s' = old_state s"
  using assms
  by (auto simp: app_attribute_update_cb_def app_driver_attribute_update_def on_slider_opt_def
      on_slider_def set_power_def Let_def dest: set_brightness_frame split: if_splits)

theorem onoff_write_switches_relay_and_dimmer_witness:
  "\<exists>s'. app_attribute_update_cb cfg_default matter0 PRE_UPDATE 1 6 0 \<lparr>av_type = 1, av_byte = 1\<rparr> booted = Some s'
     \<and> m_isOn (slider s')"
proof -
  obtain s' where 1: "app_attribute_update_cb cfg_default matter0 PRE_UPDATE 1 6 0
      \<lparr>av_type = 1, av_byte = 1\<rparr> booted = Some s'"
    by (simp add: app_attribute_update_cb_def app_driver_attribute_update_def on_slider_opt_def
        val_b_def set_power_def)
  with onoff_write_switches_relay_and_dimmer [of cfg_default matter0 "\<lparr>av_type = 1, av_byte = 1\<rparr>" booted s']
  show ?thesis by (simp add: val_b_def)
qed

text \<open>Attribute writes the firmware does not handle change nothing: another endpoint, another
  cluster, another attribute, or a callback that is not the pre-update one.\<close>

theorem other_writes_ignored:
  assumes "ty \<noteq> PRE_UPDATE \<or> ep \<noteq> 1
    \<or> (cl = OnOff_Id m \<and> at \<noteq> OnOff_OnOff_Id m)
    \<or> (cl \<noteq> OnOff_Id m \<and> (cl \<noteq> LevelControl_Id m \<or> at \<noteq> LevelControl_CurrentLevel_Id m))"
  shows "app_attribute_update_cb c m ty ep cl at v s = Some s"
proof (cases "ty = PRE_UPDATE")
  case True
  have "app_driver_attribute_update c m ep cl at v s = Some s"
    using assms True unfolding app_driver_attribute_update_def
    by (cases "ep = 1"; cases "cl = OnOff_Id m"; cases "at = OnOff_OnOff_Id m"; simp)
  then show ?thesis by (simp add: app_attribute_update_cb_def)
qed (simp add: app_attribute_update_cb_def)

theorem other_writes_ignored_witness:
  "app_attribute_update_cb cfg_default matter0 PRE_UPDATE 2 6 0 \<lparr>av_type = 1, av_byte = 0\<rparr> booted = Some booted"
  by (rule other_writes_ignored) simp

lemma press_closed:
  assumes "closed c m" "is_pressed s" "handle_press m s = Some s'"
  shows "m_isOn (slider s') = (\<not> old_state s) \<and> old_state s' = (\<not> old_state s) \<and> \<not> is_pressed s'"
  using assms
  by (auto simp: handle_press_def closed_update Let_def app_driver_attribute_update_def on_slider_opt_def
      on_slider_def val_b_def set_b_def set_power_def dest: set_brightness_frame split: if_splits)

text \<open>C4: A button press after a remote switch-off does nothing. The remote write does not update the
  state the button toggles, so the press that should switch the light on again writes off once
  more.\<close>

theorem remote_off_desynchronises_button:
  assumes "closed c m" and "old_state s"
    and "app_attribute_update_cb c m PRE_UPDATE 1 (OnOff_Id m) (OnOff_OnOff_Id m) v s = Some s1"
    and "\<not> val_b v"
    and "tick - old_tick_btn s1 > DEBOUNCE_TIME"
    and "handle_press m (buttonCb tick s1) = Some s2"
  shows "\<not> m_isOn (slider s1) \<and> \<not> m_isOn (slider s2) \<and> \<not> old_state s2"
proof -
  have s1: "\<not> m_isOn (slider s1) \<and> old_state s1" using assms(2-4)
    by (auto simp: app_attribute_update_cb_def app_driver_attribute_update_def on_slider_opt_def
        on_slider_def set_power_def Let_def dest: set_brightness_frame)
  have "is_pressed (buttonCb tick s1)" "old_state (buttonCb tick s1) = old_state s1"
    using assms(5) by (simp_all add: buttonCb_def Let_def)
  then show ?thesis using s1 press_closed [OF assms(1) _ assms(6)] by simp
qed

theorem remote_off_desynchronises_button_witness:
  "\<exists>s1 s2. app_attribute_update_cb cfg_default matter0 PRE_UPDATE 1 6 0 \<lparr>av_type = 1, av_byte = 0\<rparr>
       (io_init slider0) = Some s1
     \<and> handle_press matter0 (buttonCb 500 s1) = Some s2 \<and> \<not> m_isOn (slider s2)"
proof -
  have p: "set_power (slider_conf cfg_default) False d =
      Some (arm_timer (d\<lparr>m_isOn := False, m_previous_level := m_level d, m_level := 0, interval := 8333\<rparr>))"
    for d :: "u8 slider"
    using set_brightness_off [OF cfg_default_plain, of 0 "d\<lparr>m_isOn := False\<rparr>"]
    by (simp add: set_power_def)
  obtain s1 where 1: "app_attribute_update_cb cfg_default matter0 PRE_UPDATE 1 6 0 \<lparr>av_type = 1, av_byte = 0\<rparr>
       (io_init slider0) = Some s1" and s1: "old_tick_btn s1 = 0" "old_state s1"
    by (simp add: app_attribute_update_cb_def app_driver_attribute_update_def on_slider_opt_def
        val_b_def p on_slider_def io_init_def)
  have "is_pressed (buttonCb 500 s1)" "old_state (buttonCb 500 s1)"
    using s1 by (simp_all add: buttonCb_def Let_def DEBOUNCE_TIME_def)
  then obtain s2 where 2: "handle_press matter0 (buttonCb 500 s1) = Some s2"
    by (simp add: handle_press_def closed_update [OF matter0_closed] app_driver_attribute_update_def
        on_slider_opt_def val_b_def set_b_def p)
  have "\<not> m_isOn (slider s2)"
    using remote_off_desynchronises_button [OF matter0_closed, of "io_init slider0"
        "\<lparr>av_type = 1, av_byte = 0\<rparr>" s1 500 s2] 1 2 s1
    by (simp add: io_init_def val_b_def DEBOUNCE_TIME_def)
  with 1 2 show ?thesis by blast
qed

text \<open>A level write does not dim. The Level Control path stores the brightness and the new
  interval but leaves the armed timer, and everything the hardware was told, as they were; only
  the next On/Off write arms the timer with it.\<close>

theorem level_write_does_not_arm:
  assumes "distinct_ids m"
    and "app_attribute_update_cb c m PRE_UPDATE 1 (LevelControl_Id m) (LevelControl_CurrentLevel_Id m) v s = Some s'"
  shows "alarm_count (slider s') = alarm_count (slider s) \<and> sl_trace (slider s') = sl_trace (slider s)
    \<and> old_level s' = ucast (av_byte v)"
  using assms
  by (auto simp: app_attribute_update_cb_def app_driver_attribute_update_def on_slider_opt_def
      distinct_ids_def dest: set_brightness_frame)

theorem level_write_does_not_arm_witness:
  "\<exists>s'. app_attribute_update_cb cfg_default matter0 PRE_UPDATE 1 8 0 \<lparr>av_type = 2, av_byte = 254\<rparr> booted = Some s'
     \<and> alarm_count (slider s') = alarm_count (slider booted)"
proof -
  have "set_brightness (slider_conf cfg_default) x d \<noteq> None" for x and d :: "u8 slider"
    by (simp add: set_brightness_None_iff)
  then obtain s' where 1: "app_attribute_update_cb cfg_default matter0 PRE_UPDATE 1 8 0
      \<lparr>av_type = 2, av_byte = 254\<rparr> booted = Some s'"
    by (fastforce simp: app_attribute_update_cb_def app_driver_attribute_update_def on_slider_opt_def)
  with level_write_does_not_arm [of matter0 cfg_default "\<lparr>av_type = 2, av_byte = 254\<rparr>" booted s']
  show ?thesis by (simp add: distinct_ids_def)
qed

end
