(* ===== verification/Port.thy ===== *)
theory Port
  imports Prelude
begin

text \<open>
  managed_components/espressif__esp-serial-flasher: the error codes of include/esp_loader.h and
  the interface include/esp_loader_io.h through which the flasher reaches its serial port. The
  ports of the boards are outside the model; a port is the record of its operations over a state
  of its own. Two contracts are stated as locales, with the laws documented in the header:
  \<open>finite_port\<close> (a port cannot deliver bytes for ever) and \<open>lossless_port\<close> (bytes are
  written and read in order, none lost). test/serial_io_mock.cpp, the port the library is
  tested against, is modelled here and shown to satisfy both.
\<close>

section \<open>Errors and results\<close>

datatype esp_loader_error =
    ESP_LOADER_ERROR_FAIL
  | ESP_LOADER_ERROR_TIMEOUT
  | ESP_LOADER_ERROR_IMAGE_SIZE
  | ESP_LOADER_ERROR_INVALID_MD5
  | ESP_LOADER_ERROR_INVALID_PARAM
  | ESP_LOADER_ERROR_INVALID_TARGET
  | ESP_LOADER_ERROR_UNSUPPORTED_CHIP
  | ESP_LOADER_ERROR_UNSUPPORTED_FUNC
  | ESP_LOADER_ERROR_INVALID_RESPONSE

text \<open>
  An operation maps a state to a result and a new state. The outer \<open>None\<close> is an operation that
  does not return, or whose behaviour is undefined.
\<close>

type_synonym ('a, 's) op = "'s \<Rightarrow> ((esp_loader_error + 'a) \<times> 's) option"

definition ret :: "'a \<Rightarrow> ('a, 's) op" where
  "ret a s = Some (Inr a, s)"

definition fail :: "esp_loader_error \<Rightarrow> ('a, 's) op" where
  "fail e s = Some (Inl e, s)"

text \<open>\<open>RETURN_ON_ERROR\<close> and then the rest of the function.\<close>

definition and_then :: "('a, 's) op \<Rightarrow> ('a \<Rightarrow> ('b, 's) op) \<Rightarrow> ('b, 's) op" where
  "and_then m f s =
     (case m s of None \<Rightarrow> None
      | Some (Inl e, s') \<Rightarrow> Some (Inl e, s')
      | Some (Inr a, s') \<Rightarrow> f a s')"

text \<open>A call that cannot fail.\<close>

definition act :: "('s \<Rightarrow> 's) \<Rightarrow> (unit, 's) op" where
  "act f s = Some (Inr (), f s)"

named_theorems op_simps \<open>running operations\<close>

lemma run_simps [op_simps]:
  "ret a s = Some (Inr a, s)" "fail e s = Some (Inl e, s)" "act f s = Some (Inr (), f s)"
  by (simp_all add: ret_def fail_def act_def)

lemma and_then_simps [op_simps]:
  "m s = None \<Longrightarrow> and_then m f s = None"
  "m s = Some (Inl e, s') \<Longrightarrow> and_then m f s = Some (Inl e, s')"
  "m s = Some (Inr a, s') \<Longrightarrow> and_then m f s = f a s'"
  by (simp_all add: and_then_def)

lemma and_then_ret [simp]: "and_then (ret a) f = f a"
  by (simp add: and_then_def fun_eq_iff run_simps)

lemma and_then_act [simp]: "and_then (act g) f s = f () (g s)"
  by (simp add: and_then_def run_simps)

lemma and_then_Inr:
  "and_then m f s = Some (Inr b, s') \<longleftrightarrow> (\<exists>a s1. m s = Some (Inr a, s1) \<and> f a s1 = Some (Inr b, s'))"
  by (auto simp: and_then_def split: option.splits sum.splits prod.splits)

lemma and_then_None:
  "and_then m f s = None \<longleftrightarrow> m s = None \<or> (\<exists>a s1. m s = Some (Inr a, s1) \<and> f a s1 = None)"
  by (auto simp: and_then_def split: option.splits sum.splits prod.splits)

text \<open>Operations that always return.\<close>

definition returns :: "('a, 's) op \<Rightarrow> bool" where
  "returns m \<longleftrightarrow> (\<forall>s. m s \<noteq> None)"

named_theorems returns_intros \<open>operations that always return\<close>

lemma returns_and_then [returns_intros]:
  "returns m \<Longrightarrow> (\<And>a. returns (f a)) \<Longrightarrow> returns (and_then m f)"
  unfolding returns_def by (metis and_then_None)

lemma returns_basic [returns_intros]: "returns (ret a)" "returns (fail e)" "returns (act f)"
  by (simp_all add: returns_def run_simps)

lemma returns_if [returns_intros]:
  "(b \<Longrightarrow> returns m) \<Longrightarrow> (\<not> b \<Longrightarrow> returns n) \<Longrightarrow> returns (if b then m else n)"
  by simp

section \<open>The port\<close>

text \<open>
  The length argument of \<open>loader_port_write\<close> and \<open>loader_port_read\<close> is a \<open>uint16_t\<close>; the
  caller below truncates. \<open>port_write\<close> is given the bytes it may read, \<open>port_read\<close> returns
  the bytes it stored.
\<close>

record 's port =
  port_write :: "bytes \<Rightarrow> u32 \<Rightarrow> 's \<Rightarrow> (esp_loader_error + unit) \<times> 's"
  port_read :: "nat \<Rightarrow> u32 \<Rightarrow> 's \<Rightarrow> (esp_loader_error + bytes) \<times> 's"
  port_start_timer :: "u32 \<Rightarrow> 's \<Rightarrow> 's"
  port_remaining_time :: "'s \<Rightarrow> u32"
  port_delay_ms :: "u32 \<Rightarrow> 's \<Rightarrow> 's"
  port_enter_bootloader :: "'s \<Rightarrow> 's"
  port_reset_target :: "'s \<Rightarrow> 's"
  port_debug_print :: "bytes \<Rightarrow> 's \<Rightarrow> 's"

text \<open>
  \<open>fuel s\<close> bounds how many bytes can still arrive: the bytes queued for a queue, the time left
  times the line rate for a wire with a running timer.
\<close>

locale finite_port =
  fixes p :: "'s port" and fuel :: "'s \<Rightarrow> nat"
  assumes read_fuel: "port_read p 1 t s = (Inr bs, s') \<Longrightarrow> fuel s' < fuel s"

text \<open>
  \<open>pend s\<close> are the bytes waiting to be read, \<open>sent s\<close> the bytes written so far; \<open>ready s\<close>
  holds when the far end answers within the time that is left.
\<close>

locale lossless_port =
  fixes p :: "'s port" and pend :: "'s \<Rightarrow> bytes" and sent :: "'s \<Rightarrow> bytes" and ready :: "'s \<Rightarrow> bool"
  assumes write_ok: "\<exists>s'. port_write p bs t s = (Inr (), s') \<and> sent s' = sent s @ bs \<and> pend s' = pend s
            \<and> (ready s \<longrightarrow> ready s')"
    and read_ok: "ready s \<Longrightarrow> pend s = b # bs \<Longrightarrow>
            \<exists>s'. port_read p 1 t s = (Inr [b], s') \<and> pend s' = bs \<and> sent s' = sent s \<and> ready s'"
    and read_sent: "port_read p n t s = (r, s') \<Longrightarrow> sent s' = sent s"
    and timer_ok: "pend (port_start_timer p ms s) = pend s \<and> sent (port_start_timer p ms s) = sent s
            \<and> (ready s \<longrightarrow> ready (port_start_timer p ms s))"
    and print_ok: "pend (port_debug_print p str s) = pend s \<and> sent (port_debug_print p str s) = sent s
            \<and> (ready s \<longrightarrow> ready (port_debug_print p str s))"

section \<open>The mock port\<close>

text \<open>The four statics of test/serial_io_mock.cpp; its byte vectors hold the same bytes signed.\<close>

record mock =
  write_buffer :: bytes
  read_buffer :: bytes
  receive_delay :: u32
  mock_timer :: int

definition mock_port_write :: "bytes \<Rightarrow> u32 \<Rightarrow> mock \<Rightarrow> (esp_loader_error + unit) \<times> mock" where
  "mock_port_write data timeout s = (Inr (), s\<lparr>write_buffer := write_buffer s @ data\<rparr>)"

definition mock_port_read :: "nat \<Rightarrow> u32 \<Rightarrow> mock \<Rightarrow> (esp_loader_error + bytes) \<times> mock" where
  "mock_port_read len timeout s =
     (if length (read_buffer s) < len then (Inl ESP_LOADER_ERROR_TIMEOUT, s)
      else if receive_delay s \<noteq> 0 \<and> timeout \<noteq> 0 \<and> receive_delay s > timeout then
        (Inl ESP_LOADER_ERROR_TIMEOUT, s\<lparr>receive_delay := receive_delay s - timeout\<rparr>)
      else
        (Inr (take len (read_buffer s)),
         s\<lparr>receive_delay := (if receive_delay s \<noteq> 0 \<and> timeout \<noteq> 0 then 0 else receive_delay s),
           read_buffer := drop len (read_buffer s)\<rparr>))"

definition mock_start_timer :: "u32 \<Rightarrow> mock \<Rightarrow> mock" where
  "mock_start_timer ms s = s\<lparr>mock_timer := to_i32 (uint ms)\<rparr>"

definition mock_remaining_time :: "mock \<Rightarrow> u32" where
  "mock_remaining_time s = word_of_int (if mock_timer s > 0 then mock_timer s else 0)"

definition mock_port :: "mock port" where
  "mock_port = \<lparr>port_write = mock_port_write, port_read = mock_port_read,
     port_start_timer = mock_start_timer, port_remaining_time = mock_remaining_time,
     port_delay_ms = (\<lambda>_. id), port_enter_bootloader = id, port_reset_target = id,
     port_debug_print = (\<lambda>_. id)\<rparr>"

definition mock_init :: mock where
  "mock_init = \<lparr>write_buffer = [], read_buffer = [], receive_delay = 0, mock_timer = 0\<rparr>"

definition clear_buffers :: "mock \<Rightarrow> mock" where
  "clear_buffers s = s\<lparr>write_buffer := [], read_buffer := []\<rparr>"

definition serial_set_time_delay :: "u32 \<Rightarrow> mock \<Rightarrow> mock" where
  "serial_set_time_delay ms s = s\<lparr>receive_delay := ms\<rparr>"

lemma mock_port_simps [simp]:
  "port_write mock_port = mock_port_write" "port_read mock_port = mock_port_read"
  "port_start_timer mock_port = mock_start_timer"
  "port_remaining_time mock_port = mock_remaining_time"
  "port_delay_ms mock_port = (\<lambda>_. id)" "port_enter_bootloader mock_port = id"
  "port_reset_target mock_port = id" "port_debug_print mock_port = (\<lambda>_. id)"
  by (simp_all add: mock_port_def)

interpretation mock_fin: finite_port mock_port "\<lambda>s. length (read_buffer s)"
  by unfold_locales (auto simp: mock_port_read_def split: if_splits)

interpretation mock_loss: lossless_port mock_port read_buffer write_buffer "\<lambda>s. receive_delay s = 0"
  by unfold_locales
    (auto simp: mock_port_read_def mock_port_write_def mock_start_timer_def split: if_splits)

end
