(* ===== verification/Slip.thy ===== *)
theory Slip
  imports Port
begin

text \<open>
  managed_components/espressif__esp-serial-flasher/src/slip.c: the serial line framing of the
  flasher protocol. The waiting loops read until the port reports an error, so they are partial
  functions; on a \<open>finite_port\<close> they are shown to return. The encoder of
  test/serial_io_mock.cpp is the reference the sender and the receiver are compared with.
\<close>

section \<open>Reading and writing\<close>

definition DELIMITER :: u8 where "DELIMITER = 0xC0"
definition C0_REPLACEMENT :: bytes where "C0_REPLACEMENT = [0xDB, 0xDC]"
definition DB_REPLACEMENT :: bytes where "DB_REPLACEMENT = [0xDB, 0xDD]"

definition peripheral_read :: "'s port \<Rightarrow> (u8, 's) op" where
  "peripheral_read p s =
     (case port_read p 1 (port_remaining_time p s) s of
        (Inl e, s') \<Rightarrow> Some (Inl e, s')
      | (Inr bs, s') \<Rightarrow> Some (Inr (hd bs), s'))"

definition peripheral_write :: "'s port \<Rightarrow> bytes \<Rightarrow> nat \<Rightarrow> (unit, 's) op" where
  "peripheral_write p buff n s =
     Some (port_write p (take (n mod 65536) buff) (port_remaining_time p s) s)"

lemma and_then_mono [partial_function_mono]:
  assumes "mono_option (\<lambda>F. m F s)" "\<And>a s'. mono_option (\<lambda>F. f F a s')"
  shows "mono_option (\<lambda>F. and_then (m F) (f F) s)"
proof -
  have "and_then (m F) (f F) s =
      Option.bind (m F s) (\<lambda>(r, s'). case r of Inl e \<Rightarrow> Some (Inl e, s') | Inr a \<Rightarrow> f F a s')" for F
    by (simp add: and_then_def split: option.splits sum.splits prod.splits)
  moreover have "mono_option (\<lambda>F. Option.bind (m F s)
      (\<lambda>(r, s'). case r of Inl e \<Rightarrow> Some (Inl e, s') | Inr a \<Rightarrow> f F a s'))"
  proof (intro bind_mono assms(1))
    fix y
    show "mono_option (\<lambda>F. case y of (r, s') \<Rightarrow> (case r of Inl e \<Rightarrow> Some (Inl e, s') | Inr a \<Rightarrow> f F a s'))"
      by (cases y; cases "fst y") (simp_all add: assms(2) option.const_mono)
  qed
  ultimately show ?thesis by simp
qed

text \<open>One decoded byte: the body of the loop of \<open>SLIP_receive_data\<close>.\<close>

definition slip_read_byte :: "'s port \<Rightarrow> (u8, 's) op" where
  "slip_read_byte p =
     and_then (peripheral_read p) (\<lambda>ch.
       if ch = 0xDB then
         and_then (peripheral_read p) (\<lambda>ch.
           if ch = 0xDC then ret 0xC0
           else if ch = 0xDD then ret 0xDB
           else fail ESP_LOADER_ERROR_INVALID_RESPONSE)
       else ret ch)"

fun SLIP_receive_data :: "'s port \<Rightarrow> nat \<Rightarrow> (bytes, 's) op" where
  "SLIP_receive_data p 0 = ret []"
| "SLIP_receive_data p (Suc n) =
     and_then (slip_read_byte p) (\<lambda>b. and_then (SLIP_receive_data p n) (\<lambda>bs. ret (b # bs)))"

text \<open>The two waiting loops of \<open>SLIP_receive_packet\<close>.\<close>

partial_function (option) skip_to_delimiter :: "'s port \<Rightarrow> (unit, 's) op" where
  "skip_to_delimiter p s =
     and_then (peripheral_read p) (\<lambda>ch s'.
       if ch \<noteq> DELIMITER then skip_to_delimiter p s' else ret () s') s"

partial_function (option) skip_delimiters :: "'s port \<Rightarrow> (u8, 's) op" where
  "skip_delimiters p s =
     and_then (peripheral_read p) (\<lambda>ch s'.
       if ch = DELIMITER then skip_delimiters p s' else ret ch s') s"

text \<open>The caller's buffer has \<open>n \<ge> 1\<close> bytes.\<close>

definition SLIP_receive_packet :: "'s port \<Rightarrow> nat \<Rightarrow> (bytes, 's) op" where
  "SLIP_receive_packet p n =
     and_then (skip_to_delimiter p) (\<lambda>_.
     and_then (skip_delimiters p) (\<lambda>ch.
     and_then (SLIP_receive_data p (n - 1)) (\<lambda>bs.
     and_then (skip_to_delimiter p) (\<lambda>_. ret (ch # bs)))))"

text \<open>
  The loop of \<open>SLIP_send\<close>: \<open>to_write\<close> bytes from index \<open>written\<close> are queued to be
  written as they are.
\<close>

function SLIP_send_loop :: "'s port \<Rightarrow> bytes \<Rightarrow> nat \<Rightarrow> nat \<Rightarrow> nat \<Rightarrow> (unit, 's) op" where
  "SLIP_send_loop p data i to_write written =
     (if i < length data then
        if data ! i \<noteq> 0xC0 \<and> data ! i \<noteq> 0xDB then
          SLIP_send_loop p data (i + 1) (to_write + 1) written
        else
          and_then (if to_write > 0 then peripheral_write p (drop written data) to_write else ret ())
            (\<lambda>_. and_then (peripheral_write p (if data ! i = 0xC0 then C0_REPLACEMENT else DB_REPLACEMENT) 2)
            (\<lambda>_. SLIP_send_loop p data (i + 1) 0 (i + 1)))
      else if to_write > 0 then peripheral_write p (drop written data) to_write
      else ret ())"
  by pat_completeness auto
termination
  by (relation "measure (\<lambda>(p, data, i, to_write, written). length data - i)") auto

declare SLIP_send_loop.simps [simp del]

definition SLIP_send :: "'s port \<Rightarrow> bytes \<Rightarrow> (unit, 's) op" where
  "SLIP_send p data = SLIP_send_loop p data 0 0 0"

definition SLIP_send_delimiter :: "'s port \<Rightarrow> (unit, 's) op" where
  "SLIP_send_delimiter p = peripheral_write p [DELIMITER] 1"

section \<open>The reference encoder\<close>

fun slip_escape :: "bytes \<Rightarrow> bytes" where
  "slip_escape [] = []"
| "slip_escape (b # bs) =
     (if b = 0xC0 then [0xDB, 0xDC] else if b = 0xDB then [0xDB, 0xDD] else [b]) @ slip_escape bs"

definition SLIP_encode :: "bytes \<Rightarrow> bytes" where
  "SLIP_encode data = 0xC0 # slip_escape data @ [0xC0]"

definition set_read_buffer :: "bytes \<Rightarrow> mock \<Rightarrow> mock" where
  "set_read_buffer data s = s\<lparr>read_buffer := read_buffer s @ SLIP_encode data\<rparr>"

lemma slip_escape_append [simp]: "slip_escape (xs @ ys) = slip_escape xs @ slip_escape ys"
  by (induction xs) auto

lemma slip_escape_plain: "0xC0 \<notin> set xs \<Longrightarrow> 0xDB \<notin> set xs \<Longrightarrow> slip_escape xs = xs"
  by (induction xs) auto

lemma slip_escape_no_delimiter: "0xC0 \<notin> set (slip_escape xs)"
  by (induction xs) auto

section \<open>On a finite port every read loop returns\<close>

context finite_port
begin

lemma peripheral_read_fuel:
  "peripheral_read p s = Some (Inr b, s') \<Longrightarrow> fuel s' < fuel s"
  by (auto simp: peripheral_read_def split: prod.splits sum.splits dest: read_fuel [unfolded One_nat_def])

lemma peripheral_read_returns: "\<exists>r s'. peripheral_read p s = Some (r, s')"
  by (auto simp: peripheral_read_def split: prod.splits sum.splits)

lemma skip_to_delimiter_returns:
  "\<exists>r s'. skip_to_delimiter p s = Some (r, s') \<and> (\<forall>a. r = Inr a \<longrightarrow> fuel s' < fuel s)"
proof (induction "fuel s" arbitrary: s rule: less_induct)
  case less
  obtain r s1 where r: "peripheral_read p s = Some (r, s1)" using peripheral_read_returns by blast
  show ?case
  proof (cases r)
    case (Inl e)
    then show ?thesis using r by (subst skip_to_delimiter.simps) (simp add: and_then_def run_simps)
  next
    case (Inr b)
    then have f: "fuel s1 < fuel s" using r peripheral_read_fuel by blast
    have eq: "skip_to_delimiter p s = (if b \<noteq> DELIMITER then skip_to_delimiter p s1 else Some (Inr (), s1))"
      using r Inr by (subst skip_to_delimiter.simps) (simp add: and_then_def run_simps)
    then show ?thesis using less [OF f] f by (cases "b = DELIMITER") fastforce+
  qed
qed

lemma skip_delimiters_returns:
  "\<exists>r s'. skip_delimiters p s = Some (r, s') \<and> (\<forall>a. r = Inr a \<longrightarrow> fuel s' < fuel s)"
proof (induction "fuel s" arbitrary: s rule: less_induct)
  case less
  obtain r s1 where r: "peripheral_read p s = Some (r, s1)" using peripheral_read_returns by blast
  show ?case
  proof (cases r)
    case (Inl e)
    then show ?thesis using r by (subst skip_delimiters.simps) (simp add: and_then_def run_simps)
  next
    case (Inr b)
    then have f: "fuel s1 < fuel s" using r peripheral_read_fuel by blast
    have eq: "skip_delimiters p s = (if b = DELIMITER then skip_delimiters p s1 else Some (Inr b, s1))"
      using r Inr by (subst skip_delimiters.simps) (simp add: and_then_def run_simps)
    then show ?thesis using less [OF f] f by (cases "b = DELIMITER") fastforce+
  qed
qed

lemma slip_read_byte_returns: "\<exists>r s'. slip_read_byte p s = Some (r, s') \<and> (\<forall>a. r = Inr a \<longrightarrow> fuel s' < fuel s)"
proof -
  obtain r s1 where r: "peripheral_read p s = Some (r, s1)" using peripheral_read_returns by blast
  show ?thesis
  proof (cases r)
    case (Inl e)
    then show ?thesis using r by (simp add: slip_read_byte_def and_then_def)
  next
    case (Inr b)
    obtain r2 s2 where r2: "peripheral_read p s1 = Some (r2, s2)" using peripheral_read_returns by blast
    have "fuel s1 < fuel s" "\<And>a. r2 = Inr a \<Longrightarrow> fuel s2 < fuel s1"
      using r Inr r2 peripheral_read_fuel by blast+
    then show ?thesis using r Inr r2
      by (cases r2) (fastforce simp: slip_read_byte_def and_then_def run_simps)+
  qed
qed

lemma SLIP_receive_data_returns:
  "\<exists>r s'. SLIP_receive_data p n s = Some (r, s') \<and> (\<forall>a. r = Inr a \<longrightarrow> fuel s' \<le> fuel s \<and> length a = n)"
proof (induction n arbitrary: s)
  case 0
  show ?case by (simp add: run_simps)
next
  case (Suc n)
  obtain r s1 where r: "slip_read_byte p s = Some (r, s1)" and f: "\<And>a. r = Inr a \<Longrightarrow> fuel s1 < fuel s"
    using slip_read_byte_returns by blast
  obtain r2 s2 where r2: "SLIP_receive_data p n s1 = Some (r2, s2)"
    and f2: "\<And>a. r2 = Inr a \<Longrightarrow> fuel s2 \<le> fuel s1 \<and> length a = n" using Suc by blast
  show ?case using r f r2 f2 by (cases r; cases r2) (fastforce simp: and_then_def run_simps)+
qed

lemma SLIP_receive_packet_returns:
  assumes "0 < n"
  shows "\<exists>r s'. SLIP_receive_packet p n s = Some (r, s') \<and> (\<forall>a. r = Inr a \<longrightarrow> fuel s' < fuel s \<and> length a = n)"
proof -
  obtain r1 s1 where 1: "skip_to_delimiter p s = Some (r1, s1)" "\<And>a. r1 = Inr a \<Longrightarrow> fuel s1 < fuel s"
    using skip_to_delimiter_returns by blast
  obtain r2 s2 where 2: "skip_delimiters p s1 = Some (r2, s2)" "\<And>a. r2 = Inr a \<Longrightarrow> fuel s2 < fuel s1"
    using skip_delimiters_returns by blast
  obtain r3 s3 where 3: "SLIP_receive_data p (n - 1) s2 = Some (r3, s3)"
    "\<And>a. r3 = Inr a \<Longrightarrow> fuel s3 \<le> fuel s2 \<and> length a = n - 1" using SLIP_receive_data_returns by blast
  obtain r4 s4 where 4: "skip_to_delimiter p s3 = Some (r4, s4)" "\<And>a. r4 = Inr a \<Longrightarrow> fuel s4 < fuel s3"
    using skip_to_delimiter_returns by blast
  show ?thesis using 1 2 3 4 assms
    by (cases r1; cases r2; cases r3; cases r4) (fastforce simp: SLIP_receive_packet_def and_then_def run_simps)+
qed

end

section \<open>On a lossless port packets come and go unchanged\<close>

context lossless_port
begin

text \<open>Running an operation that reads: what it returns and what it leaves to be read.\<close>

definition reads :: "('a, 's) op \<Rightarrow> 's \<Rightarrow> 'a \<Rightarrow> bytes \<Rightarrow> bool" where
  "reads m s a rest \<longleftrightarrow>
     (\<exists>s'. m s = Some (Inr a, s') \<and> pend s' = rest \<and> sent s' = sent s \<and> ready s')"

lemma reads_ret: "ready s \<Longrightarrow> reads (ret a) s a (pend s)"
  by (simp add: reads_def run_simps)

lemma reads_step:
  assumes "reads m s a mid" and "\<And>s'. ready s' \<Longrightarrow> pend s' = mid \<Longrightarrow> sent s' = sent s \<Longrightarrow> reads (f a) s' b rest"
  shows "reads (and_then m f) s b rest"
proof -
  obtain s' where s': "m s = Some (Inr a, s')" "pend s' = mid" "sent s' = sent s" "ready s'"
    using assms(1) by (auto simp: reads_def)
  then show ?thesis using assms(2) [of s'] by (auto simp: reads_def and_then_def)
qed

lemma read_one: "ready s \<Longrightarrow> pend s = b # bs \<Longrightarrow> reads (peripheral_read p) s b bs"
  using read_ok [of s b bs "port_remaining_time p s"] by (auto simp: reads_def peripheral_read_def)

lemma slip_byte_reads:
  assumes "ready s" "pend s = slip_escape [b] @ rest"
  shows "reads (slip_read_byte p) s b rest"
proof -
  consider (C0) "b = 0xC0" | (DB) "b = 0xDB" | (plain) "b \<noteq> 0xC0" "b \<noteq> 0xDB" by blast
  then show ?thesis
  proof cases
    case C0
    have "reads (peripheral_read p) s 0xDB (0xDC # rest)" using assms C0 by (intro read_one) simp_all
    then show ?thesis unfolding slip_read_byte_def C0
      by (rule reads_step) (simp, rule reads_step [OF read_one], assumption+, simp add: reads_def run_simps)
  next
    case DB
    have "reads (peripheral_read p) s 0xDB (0xDD # rest)" using assms DB by (intro read_one) simp_all
    then show ?thesis unfolding slip_read_byte_def DB
      by (rule reads_step) (simp, rule reads_step [OF read_one], assumption+, simp add: reads_def run_simps)
  next
    case plain
    then have 1: "reads (peripheral_read p) s b rest" using assms by (intro read_one) simp_all
    show ?thesis unfolding slip_read_byte_def
      by (rule reads_step [OF 1]) (simp add: plain reads_def run_simps)
  qed
qed

lemma receive_data_reads:
  "ready s \<Longrightarrow> pend s = slip_escape data @ rest \<Longrightarrow>
   reads (SLIP_receive_data p (length data)) s data rest"
proof (induction data arbitrary: s)
  case Nil
  then show ?case using reads_ret [of s "[]"] by simp
next
  case (Cons b bs)
  have "pend s = slip_escape [b] @ slip_escape bs @ rest" using Cons.prems by simp
  from slip_byte_reads [OF Cons.prems(1) this] show ?case unfolding list.size SLIP_receive_data.simps
      add_0_right add_Suc_right
    by (rule reads_step) (rule reads_step [OF Cons.IH], assumption+, simp add: reads_def run_simps)
qed

lemma skip_to_delimiter_reads:
  "ready s \<Longrightarrow> pend s = noise @ DELIMITER # rest \<Longrightarrow> DELIMITER \<notin> set noise \<Longrightarrow>
   reads (skip_to_delimiter p) s () rest"
proof (induction noise arbitrary: s)
  case Nil
  then show ?case using read_one [of s DELIMITER rest]
    by (auto simp: reads_def skip_to_delimiter.simps [of p s] and_then_def run_simps)
next
  case (Cons b bs)
  obtain s' where s': "peripheral_read p s = Some (Inr b, s')" "pend s' = bs @ DELIMITER # rest"
    "sent s' = sent s" "ready s'"
    using read_one [of s b "bs @ DELIMITER # rest"] Cons.prems by (auto simp: reads_def)
  have "skip_to_delimiter p s = skip_to_delimiter p s'"
    using s' Cons.prems by (subst skip_to_delimiter.simps) (auto simp: and_then_def run_simps)
  then show ?case using Cons.IH [OF s'(4,2)] Cons.prems(3) s'(3) by (simp add: reads_def)
qed

lemma skip_delimiters_reads:
  "ready s \<Longrightarrow> pend s = replicate k DELIMITER @ ch # rest \<Longrightarrow> ch \<noteq> DELIMITER \<Longrightarrow>
   reads (skip_delimiters p) s ch rest"
proof (induction k arbitrary: s)
  case 0
  then show ?case using read_one [of s ch rest]
    by (auto simp: reads_def skip_delimiters.simps [of p s] and_then_def run_simps)
next
  case (Suc k)
  obtain s' where s': "peripheral_read p s = Some (Inr DELIMITER, s')"
    "pend s' = replicate k DELIMITER @ ch # rest" "sent s' = sent s" "ready s'"
    using read_one [of s DELIMITER "replicate k DELIMITER @ ch # rest"] Suc.prems by (auto simp: reads_def)
  have "skip_delimiters p s = skip_delimiters p s'"
    using s' Suc.prems by (subst skip_delimiters.simps) (simp add: and_then_def run_simps)
  then show ?case using Suc.IH [OF s'(4,2)] Suc.prems(3) s'(3) by (simp add: reads_def)
qed

text \<open>
  A frame whose first byte travels unescaped: noise, the opening delimiter, any further
  delimiters, the packet, whatever else comes before the closing delimiter.
\<close>

lemma receive_packet_reads:
  assumes "ready s" and "DELIMITER \<notin> set noise" and "ch \<noteq> DELIMITER" and "DELIMITER \<notin> set extra"
    and "pend s = noise @ DELIMITER # replicate k DELIMITER @ ch # slip_escape data @ extra @ DELIMITER # rest"
  shows "reads (SLIP_receive_packet p (Suc (length data))) s (ch # data) rest"
proof -
  have 1: "reads (skip_to_delimiter p) s ()
      (replicate k DELIMITER @ ch # slip_escape data @ extra @ DELIMITER # rest)"
    using assms by (intro skip_to_delimiter_reads) simp_all
  have 2: "reads (skip_delimiters p) s' ch (slip_escape data @ extra @ DELIMITER # rest)"
    if "ready s'" "pend s' = replicate k DELIMITER @ ch # slip_escape data @ extra @ DELIMITER # rest" for s'
    using that assms(3) by (rule skip_delimiters_reads)
  have 3: "reads (SLIP_receive_data p (length data)) s' data (extra @ DELIMITER # rest)"
    if "ready s'" "pend s' = slip_escape data @ extra @ DELIMITER # rest" for s'
    using that by (rule receive_data_reads)
  have 4: "reads (skip_to_delimiter p) s' () rest"
    if "ready s'" "pend s' = extra @ DELIMITER # rest" for s'
    using that assms(4) by (rule skip_to_delimiter_reads)
  show ?thesis unfolding SLIP_receive_packet_def diff_Suc_1
    by (rule reads_step [OF 1], rule reads_step [OF 2], assumption+,
        rule reads_step [OF 3], assumption+, rule reads_step [OF 4], assumption+)
      (simp add: reads_def run_simps)
qed

lemma receive_frame_reads:
  assumes "ready s" and "ch \<noteq> 0xC0" and "ch \<noteq> 0xDB" and "pend s = SLIP_encode (ch # data) @ rest"
  shows "reads (SLIP_receive_packet p (length (ch # data))) s (ch # data) rest"
  using receive_packet_reads [OF assms(1), of "[]" ch "[]" 0 data rest] assms(2-4)
  by (simp add: SLIP_encode_def DELIMITER_def)

text \<open>Reading, whatever arrives, writes nothing.\<close>

definition silent :: "('a, 's) op \<Rightarrow> bool" where
  "silent m \<longleftrightarrow> (\<forall>s r s'. m s = Some (r, s') \<longrightarrow> sent s' = sent s)"

lemma silent_and_then: "silent m \<Longrightarrow> (\<And>a. silent (f a)) \<Longrightarrow> silent (and_then m f)"
  by (fastforce simp: silent_def and_then_def split: option.splits sum.splits prod.splits)

lemma silent_ret: "silent (ret a)" and silent_fail: "silent (fail e)"
  by (simp_all add: silent_def run_simps)

lemma peripheral_read_silent: "silent (peripheral_read p)"
  by (auto simp: silent_def peripheral_read_def split: prod.splits sum.splits dest: read_sent)

lemmas silent_intros = silent_and_then silent_ret silent_fail peripheral_read_silent

lemma slip_read_byte_silent: "silent (slip_read_byte p)"
  unfolding slip_read_byte_def by (auto intro!: silent_intros)

lemma receive_data_silent: "silent (SLIP_receive_data p n)"
  by (induction n) (auto intro!: silent_intros slip_read_byte_silent)

lemma skip_to_delimiter_silent: "silent (skip_to_delimiter p)"
proof -
  have "q = p \<longrightarrow> sent (snd y) = sent t" if "skip_to_delimiter q t = Some y" for q :: "'s port" and t y
  proof (rule skip_to_delimiter.raw_induct [where P = "\<lambda>q t y. q = p \<longrightarrow> sent (snd y) = sent t", OF _ that])
    fix rec :: "'s port \<Rightarrow> 's \<Rightarrow> ((esp_loader_error + unit) \<times> 's) option" and q  t y
    assume IH: "\<And>q t y. rec q t = Some y \<Longrightarrow> q = p \<longrightarrow> sent (snd y) = sent t"
      and run: "and_then (peripheral_read q) (\<lambda>x s'. if x \<noteq> DELIMITER then rec q s' else ret () s') t = Some y"
    have "silent (\<lambda>s'. if x \<noteq> DELIMITER then rec p s' else ret () s')" for x
      using IH by (force simp: silent_def run_simps)
    from silent_and_then [OF peripheral_read_silent this] show "q = p \<longrightarrow> sent (snd y) = sent t"
      using run by (cases y) (auto simp: silent_def)
  qed
  then show ?thesis by (fastforce simp: silent_def)
qed

lemma skip_delimiters_silent: "silent (skip_delimiters p)"
proof -
  have "q = p \<longrightarrow> sent (snd y) = sent t" if "skip_delimiters q t = Some y" for q :: "'s port" and t y
  proof (rule skip_delimiters.raw_induct [where P = "\<lambda>q t y. q = p \<longrightarrow> sent (snd y) = sent t", OF _ that])
    fix rec :: "'s port \<Rightarrow> 's \<Rightarrow> ((esp_loader_error + u8) \<times> 's) option" and q  t y
    assume IH: "\<And>q t y. rec q t = Some y \<Longrightarrow> q = p \<longrightarrow> sent (snd y) = sent t"
      and run: "and_then (peripheral_read q) (\<lambda>x s'. if x = DELIMITER then rec q s' else ret x s') t = Some y"
    have "silent (\<lambda>s'. if x = DELIMITER then rec p s' else ret x s')" for x
      using IH by (force simp: silent_def run_simps)
    from silent_and_then [OF peripheral_read_silent this] show "q = p \<longrightarrow> sent (snd y) = sent t"
      using run by (cases y) (auto simp: silent_def)
  qed
  then show ?thesis by (fastforce simp: silent_def)
qed

lemma receive_packet_silent: "silent (SLIP_receive_packet p n)"
  unfolding SLIP_receive_packet_def
  by (intro silent_intros skip_to_delimiter_silent skip_delimiters_silent receive_data_silent)

text \<open>Running an operation that writes.\<close>

definition writes :: "(unit, 's) op \<Rightarrow> 's \<Rightarrow> bytes \<Rightarrow> bool" where
  "writes m s out \<longleftrightarrow> (\<exists>s'. m s = Some (Inr (), s') \<and> sent s' = sent s @ out \<and> pend s' = pend s
     \<and> (ready s \<longrightarrow> ready s'))"

lemma writes_ret: "writes (ret ()) s []"
  by (simp add: writes_def run_simps)

lemma writes_step:
  assumes "writes m s out1" and "\<And>s'. writes (f ()) s' out2"
  shows "writes (and_then m f) s (out1 @ out2)"
proof -
  obtain s' where "m s = Some (Inr (), s')" "sent s' = sent s @ out1" "pend s' = pend s" "ready s \<longrightarrow> ready s'"
    using assms(1) by (auto simp: writes_def)
  then show ?thesis using assms(2) [of s'] by (auto simp: writes_def and_then_def)
qed

lemma peripheral_write_writes:
  "n < 65536 \<Longrightarrow> n \<le> length buff \<Longrightarrow> writes (peripheral_write p buff n) s (take n buff)"
  using write_ok [of "take n buff" "port_remaining_time p s" s]
  by (auto simp: writes_def peripheral_write_def)

lemma send_delimiter_writes: "writes (SLIP_send_delimiter p) s [DELIMITER]"
  using peripheral_write_writes [of 1 "[DELIMITER]" s] by (simp add: SLIP_send_delimiter_def)

text \<open>The queue of the send loop: the bytes from \<open>written\<close> up to the current index.\<close>

lemma queue_writes:
  "written + to_write = i \<Longrightarrow> i \<le> length data \<Longrightarrow> length data < 65536 \<Longrightarrow>
   writes (if to_write > 0 then peripheral_write p (drop written data) to_write else ret ()) s
     (take to_write (drop written data))"
  using peripheral_write_writes [of to_write "drop written data"] writes_ret by simp

lemma queue_split: "written + to_write = i \<Longrightarrow> drop written data = take to_write (drop written data) @ drop i data"
  using append_take_drop_id [of to_write "drop written data"] by (simp add: add.commute)

lemma queue_plain:
  "written + to_write = i \<Longrightarrow> i \<le> length data \<Longrightarrow>
   (\<And>k. written \<le> k \<Longrightarrow> k < i \<Longrightarrow> data ! k \<noteq> 0xC0 \<and> data ! k \<noteq> 0xDB) \<Longrightarrow>
   slip_escape (take to_write (drop written data)) = take to_write (drop written data)"
  by (rule slip_escape_plain) (auto simp: in_set_conv_nth)

lemma send_loop_writes:
  "written + to_write = i \<Longrightarrow> i \<le> length data \<Longrightarrow> length data < 65536 \<Longrightarrow>
   (\<And>k. written \<le> k \<Longrightarrow> k < i \<Longrightarrow> data ! k \<noteq> 0xC0 \<and> data ! k \<noteq> 0xDB) \<Longrightarrow>
   writes (SLIP_send_loop p data i to_write written) s (slip_escape (drop written data))"
proof (induction "length data - i" arbitrary: i to_write written s)
  case 0
  have "i = length data" using "0.hyps" "0.prems"(2) by simp
  then show ?case
    using queue_writes [OF "0.prems"(1-3)] queue_plain [OF "0.prems"(1,2,4)] "0.prems"(1)
    by (subst SLIP_send_loop.simps) (simp add: add.commute)
next
  case (Suc n)
  have i: "i < length data" using Suc.hyps(2) by simp
  show ?case
  proof (cases "data ! i \<noteq> 0xC0 \<and> data ! i \<noteq> 0xDB")
    case True
    have plain: "data ! k \<noteq> 0xC0 \<and> data ! k \<noteq> 0xDB" if "written \<le> k" "k < i + 1" for k
      using Suc.prems(4) [OF that(1)] that(2) True by (cases "k = i") auto
    have "writes (SLIP_send_loop p data (i + 1) (to_write + 1) written) s (slip_escape (drop written data))"
      by (rule Suc.hyps(1)) (use Suc.hyps(2) Suc.prems i plain in auto)
    then show ?thesis using True i by (subst SLIP_send_loop.simps) simp
  next
    case False
    define code where "code = (if data ! i = 0xC0 then C0_REPLACEMENT else DB_REPLACEMENT)"
    have code: "slip_escape [data ! i] = code" "take 2 code = code" "length code = 2"
      using False by (auto simp: code_def C0_REPLACEMENT_def DB_REPLACEMENT_def)
    have rest: "writes (SLIP_send_loop p data (i + 1) 0 (i + 1)) s (slip_escape (drop (i + 1) data))" for s
      by (rule Suc.hyps(1)) (use Suc.hyps(2) Suc.prems i in auto)
    have "writes (and_then (peripheral_write p code 2) (\<lambda>_. SLIP_send_loop p data (i + 1) 0 (i + 1))) s
        (code @ slip_escape (drop (i + 1) data))" for s
      using writes_step [OF peripheral_write_writes [of 2 code s] rest] code by simp
    note 1 = writes_step [OF queue_writes [OF Suc.prems(1-3)] this]
    have "SLIP_send_loop p data i to_write written =
        and_then (if to_write > 0 then peripheral_write p (drop written data) to_write else ret ())
          (\<lambda>_. and_then (peripheral_write p code 2) (\<lambda>_. SLIP_send_loop p data (i + 1) 0 (i + 1)))"
      by (subst SLIP_send_loop.simps) (use False i in \<open>auto simp: code_def\<close>)
    then have "writes (SLIP_send_loop p data i to_write written) s
        (take to_write (drop written data) @ code @ slip_escape (drop (i + 1) data))"
      using 1 by simp
    moreover have "drop written data = take to_write (drop written data) @ data ! i # drop (i + 1) data"
      using queue_split [OF Suc.prems(1)] Cons_nth_drop_Suc [OF i] by simp
    then have "slip_escape (drop written data) =
        slip_escape (take to_write (drop written data)) @ slip_escape [data ! i] @ slip_escape (drop (i + 1) data)"
      by (metis append_Cons append_Nil slip_escape_append)
    ultimately show ?thesis
      using queue_plain [OF Suc.prems(1,2,4)] code(1) by metis
  qed
qed

lemma send_writes: "length data < 65536 \<Longrightarrow> writes (SLIP_send p data) s (slip_escape data)"
  using send_loop_writes [of 0 0 0 data s] by (simp add: SLIP_send_def)

end

section \<open>Properties\<close>

text \<open>C5: What the receiver makes of what the sender writes. On any lossless port, \<open>SLIP_send\<close>
  between two delimiters writes exactly the SLIP encoding of the packet, and reading that encoding
  back, after any noise and any extra delimiters, returns the packet and consumes just its frame,
  for packets that do not start with one of the two special bytes.\<close>

theorem slip_roundtrip:
  assumes "lossless_port p pend sent ready" and "ready s" and "length (ch # data) < 65536"
    and "ch \<noteq> 0xC0" and "ch \<noteq> 0xDB" and "0xC0 \<notin> set noise"
    and "pend r = noise @ replicate k 0xC0 @ SLIP_encode (ch # data) @ rest" and "ready r"
  shows "(\<exists>s'. and_then (SLIP_send_delimiter p) (\<lambda>_. and_then (SLIP_send p (ch # data))
             (\<lambda>_. SLIP_send_delimiter p)) s = Some (Inr (), s') \<and> sent s' = sent s @ SLIP_encode (ch # data))
    \<and> (\<exists>r'. SLIP_receive_packet p (length (ch # data)) r = Some (Inr (ch # data), r') \<and> pend r' = rest)"
proof -
  have "lossless_port.writes pend sent ready (and_then (SLIP_send_delimiter p) (\<lambda>_. and_then (SLIP_send p (ch # data))
      (\<lambda>_. SLIP_send_delimiter p))) s ([DELIMITER] @ slip_escape (ch # data) @ [DELIMITER])"
    using lossless_port.writes_step [OF assms(1) lossless_port.send_delimiter_writes [OF assms(1)]
        lossless_port.writes_step [OF assms(1) lossless_port.send_writes [OF assms(1,3)]
          lossless_port.send_delimiter_writes [OF assms(1)]]] .
  moreover have "pend r = (noise @ []) @ DELIMITER # replicate k DELIMITER @ ch # slip_escape data @ [] @ DELIMITER # rest"
    using assms(4,5,7) by (simp add: SLIP_encode_def DELIMITER_def replicate_app_Cons_same)
  then have "lossless_port.reads pend sent ready (SLIP_receive_packet p (Suc (length data))) r (ch # data) rest"
    using assms(4,6,8)
    by (intro lossless_port.receive_packet_reads [OF assms(1), where noise = noise and k = k and extra = "[]"])
      (simp_all add: DELIMITER_def)
  ultimately show ?thesis
    by (auto simp: lossless_port.writes_def [OF assms(1)] lossless_port.reads_def [OF assms(1)]
        SLIP_encode_def DELIMITER_def)
qed

theorem slip_roundtrip_witness:
  "(\<exists>s'. and_then (SLIP_send_delimiter mock_port) (\<lambda>_. and_then (SLIP_send mock_port [1, 0xC0, 0xDB])
       (\<lambda>_. SLIP_send_delimiter mock_port)) mock_init = Some (Inr (), s')
       \<and> write_buffer s' = write_buffer mock_init @ SLIP_encode [1, 0xC0, 0xDB])
   \<and> (\<exists>r'. SLIP_receive_packet mock_port (length [1, 0xC0, 0xDB :: u8])
       (mock_init\<lparr>read_buffer := [7] @ replicate 2 0xC0 @ SLIP_encode [1, 0xC0, 0xDB] @ [9]\<rparr>)
       = Some (Inr [1, 0xC0, 0xDB], r') \<and> read_buffer r' = [9])"
  by (rule slip_roundtrip [OF mock_loss.lossless_port_axioms, where noise = "[7]" and k = 2])
    (simp_all add: mock_init_def)

text \<open>The receiver does not decode the first byte of a packet. A packet that starts with the
  byte 0xDB comes back with the escape code itself in its first two places and its last byte lost;
  the responses of the flasher protocol are safe only because they start with the byte 1.\<close>

theorem slip_first_byte_not_decoded:
  assumes "lossless_port p pend sent ready" and "ready r" and "data \<noteq> []"
    and "pend r = SLIP_encode (0xDB # data) @ rest"
  shows "\<exists>r'. SLIP_receive_packet p (length (0xDB # data)) r = Some (Inr (0xDB # 0xDD # butlast data), r')
    \<and> pend r' = rest"
proof -
  have "data = butlast data @ [last data]" using assms(3) by simp
  then have "slip_escape data = slip_escape (butlast data) @ slip_escape [last data]"
    by (metis slip_escape_append)
  then have "pend r = [] @ DELIMITER # replicate 0 DELIMITER @ 0xDB # slip_escape (0xDD # butlast data)
      @ slip_escape [last data] @ DELIMITER # rest"
    using assms(4) by (simp add: SLIP_encode_def DELIMITER_def)
  moreover have "DELIMITER \<notin> set (slip_escape [last data])"
    unfolding DELIMITER_def by (rule slip_escape_no_delimiter)
  ultimately have "lossless_port.reads pend sent ready (SLIP_receive_packet p (Suc (length (0xDD # butlast data)))) r
      (0xDB # 0xDD # butlast data) rest"
    by (intro lossless_port.receive_packet_reads [OF assms(1,2), where noise = "[]" and k = 0
        and extra = "slip_escape [last data]"]) (simp_all add: DELIMITER_def del: slip_escape.simps)
  moreover have "Suc (length (0xDD # butlast data)) = length (0xDB # data)" using assms(3) by simp
  ultimately show ?thesis by (auto simp: lossless_port.reads_def [OF assms(1)])
qed

theorem slip_first_byte_not_decoded_witness:
  "\<exists>r'. SLIP_receive_packet mock_port (length [0xDB, 5, 6 :: u8])
     (mock_init\<lparr>read_buffer := SLIP_encode [0xDB, 5, 6] @ []\<rparr>) = Some (Inr (0xDB # 0xDD # butlast [5, 6]), r')
   \<and> read_buffer r' = []"
  by (rule slip_first_byte_not_decoded [OF mock_loss.lossless_port_axioms]) (simp_all add: mock_init_def)

text \<open>C6: Receiving a packet always comes to an end. On a port that cannot deliver bytes for ever
  the three waiting loops end, whatever arrives; a packet that is returned has the length asked
  for.\<close>

theorem slip_receive_terminates:
  assumes "finite_port p fuel" and "0 < n"
  shows "\<exists>r s'. SLIP_receive_packet p n s = Some (r, s') \<and> (\<forall>bs. r = Inr bs \<longrightarrow> length bs = n)"
  using finite_port.SLIP_receive_packet_returns [OF assms] by blast

theorem slip_receive_terminates_witness:
  "\<exists>r s'. SLIP_receive_packet mock_port 10 (mock_init\<lparr>read_buffer := [0xC0, 1, 0xDB, 4]\<rparr>) = Some (r, s')
     \<and> (\<forall>bs. r = Inr bs \<longrightarrow> length bs = 10)"
  by (rule slip_receive_terminates [OF mock_fin.finite_port_axioms]) simp

end
