(* ===== verification/Protocol.thy ===== *)
theory Protocol
  imports Slip
begin

text \<open>
  managed_components/espressif__esp-serial-flasher/src/protocol.c and
  private_include/protocol.h: the commands of the ROM loader, their packed layout, and the
  exchange of a command for its response. The structs of the header are the constructors of
  \<open>command_body\<close>, their fields in order; a packed struct is sent as its fields in little-endian
  order. The file's static sequence number is a field of the state, next to the state of the port.
\<close>

section \<open>Layout\<close>

definition READ_DIRECTION :: u8 where "READ_DIRECTION = 1"
definition WRITE_DIRECTION :: u8 where "WRITE_DIRECTION = 0"
definition MD5_SIZE :: nat where "MD5_SIZE = 32"

datatype command_t =
    FLASH_BEGIN | FLASH_DATA | FLASH_END | MEM_BEGIN | MEM_END | MEM_DATA | SYNC | WRITE_REG | READ_REG
  | SPI_SET_PARAMS | SPI_ATTACH | CHANGE_BAUDRATE | FLASH_DEFL_BEGIN | FLASH_DEFL_DATA | FLASH_DEFL_END
  | SPI_FLASH_MD5

fun command_code :: "command_t \<Rightarrow> u8" where
  "command_code FLASH_BEGIN = 0x02"
| "command_code FLASH_DATA = 0x03"
| "command_code FLASH_END = 0x04"
| "command_code MEM_BEGIN = 0x05"
| "command_code MEM_END = 0x06"
| "command_code MEM_DATA = 0x07"
| "command_code SYNC = 0x08"
| "command_code WRITE_REG = 0x09"
| "command_code READ_REG = 0x0a"
| "command_code SPI_SET_PARAMS = 0x0b"
| "command_code SPI_ATTACH = 0x0d"
| "command_code CHANGE_BAUDRATE = 0x0f"
| "command_code FLASH_DEFL_BEGIN = 0x10"
| "command_code FLASH_DEFL_DATA = 0x11"
| "command_code FLASH_DEFL_END = 0x12"
| "command_code SPI_FLASH_MD5 = 0x13"

record command_common =
  cc_direction :: u8
  cc_command :: u8
  cc_size :: u16
  cc_checksum :: u32

datatype command_body =
    Flash_begin_command (erase_size: u32) (packet_count: u32) (packet_size: u32) (fb_offset: u32) (encrypted: u32)
  | Data_command (data_size: u32) (sequence_number: u32) (zero_0: u32) (zero_1: u32)
  | Flash_end_command (fe_stay_in_loader: u32)
  | Mem_begin_command (mb_total_size: u32) (blocks: u32) (mb_block_size: u32) (mb_offset: u32)
  | Mem_end_command (me_stay_in_loader: u32) (entry_point_address: u32)
  | Sync_command (sync_sequence: bytes)
  | Write_reg_command (wr_address: u32) (wr_value: u32) (wr_mask: u32) (delay_us: u32)
  | Read_reg_command (rr_address: u32)
  | Spi_attach_command (configuration: u32) (sa_zero: u32)
  | Change_baudrate_command (new_baudrate: u32) (old_baudrate: u32)
  | Spi_flash_md5_command (md_address: u32) (md_size: u32) (reserved_0: u32) (reserved_1: u32)
  | Write_spi_command (ws_id: u32) (ws_total_size: u32) (ws_block_size: u32) (sector_size: u32)
      (page_size: u32) (status_mask: u32)

fun body_bytes :: "command_body \<Rightarrow> bytes" where
  "body_bytes (Flash_begin_command a b c d e) = concat (map le32 [a, b, c, d, e])"
| "body_bytes (Data_command a b c d) = concat (map le32 [a, b, c, d])"
| "body_bytes (Flash_end_command a) = le32 a"
| "body_bytes (Mem_begin_command a b c d) = concat (map le32 [a, b, c, d])"
| "body_bytes (Mem_end_command a b) = concat (map le32 [a, b])"
| "body_bytes (Sync_command bs) = bs"
| "body_bytes (Write_reg_command a b c d) = concat (map le32 [a, b, c, d])"
| "body_bytes (Read_reg_command a) = le32 a"
| "body_bytes (Spi_attach_command a b) = concat (map le32 [a, b])"
| "body_bytes (Change_baudrate_command a b) = concat (map le32 [a, b])"
| "body_bytes (Spi_flash_md5_command a b c d) = concat (map le32 [a, b, c, d])"
| "body_bytes (Write_spi_command a b c d e f) = concat (map le32 [a, b, c, d, e, f])"

definition common_bytes :: "command_common \<Rightarrow> bytes" where
  "common_bytes c = [cc_direction c, cc_command c] @ le16 (cc_size c) @ le32 (cc_checksum c)"

text \<open>\<open>sizeof (cmd) - sizeof (command_common_t)\<close>.\<close>

definition CMD_SIZE :: "command_body \<Rightarrow> nat" where
  "CMD_SIZE b = length (body_bytes b)"

definition mk_common :: "command_t \<Rightarrow> nat \<Rightarrow> u32 \<Rightarrow> command_common" where
  "mk_common cmd sz ck =
     \<lparr>cc_direction = WRITE_DIRECTION, cc_command = command_code cmd, cc_size = word_of_nat sz, cc_checksum = ck\<rparr>"

text \<open>The bytes of a command struct.\<close>

definition mk_command :: "command_t \<Rightarrow> nat \<Rightarrow> u32 \<Rightarrow> command_body \<Rightarrow> bytes" where
  "mk_command cmd sz ck body = common_bytes (mk_common cmd sz ck) @ body_bytes body"

text \<open>The sizes of \<open>response_t\<close> and \<open>rom_md5_response_t\<close>.\<close>

definition response_size :: nat where "response_size = 10"
definition rom_md5_response_size :: nat where "rom_md5_response_size = 42"

section \<open>Exchange\<close>

record 's proto =
  port_state :: 's
  s_sequence_number :: u32

definition on_port :: "('a, 's) op \<Rightarrow> ('a, ('s, 'z) proto_scheme) op" where
  "on_port f st =
     (case f (port_state st) of None \<Rightarrow> None
      | Some (r, s') \<Rightarrow> Some (r, st\<lparr>port_state := s'\<rparr>))"

definition compute_checksum :: "bytes \<Rightarrow> u8" where
  "compute_checksum data = fold (\<lambda>b checksum. checksum XOR b) data 0xEF"

definition cstr :: "string \<Rightarrow> bytes" where
  "cstr s = map of_char s"

definition error_name :: "u8 \<Rightarrow> string" where
  "error_name e =
     (if e = 0x07 then ''INVALID_CRC'' else if e = 0x05 then ''INVALID_COMMAND''
      else if e = 0x06 then ''COMMAND_FAILED'' else if e = 0x08 then ''FLASH_WRITE_ERR''
      else if e = 0x09 then ''FLASH_READ_ERR'' else if e = 0x0a then ''READ_LENGTH_ERR''
      else if e = 0x0b then ''DEFLATE_ERROR'' else ''UNKNOWN ERROR'')"

definition log_loader_internal_error :: "'s port \<Rightarrow> u8 \<Rightarrow> (unit, 's) op" where
  "log_loader_internal_error p e =
     act (port_debug_print p (cstr [CHR 0x0A]) \<circ> port_debug_print p (cstr (error_name e))
          \<circ> port_debug_print p (cstr ''Error: ''))"

text \<open>The loop of \<open>check_response\<close>: packets of another direction or command are skipped.\<close>

partial_function (option) await_response :: "'s port \<Rightarrow> u8 \<Rightarrow> nat \<Rightarrow> (bytes, 's) op" where
  "await_response p cmd resp_size s =
     and_then (SLIP_receive_packet p resp_size) (\<lambda>resp s'.
       if resp ! 0 \<noteq> READ_DIRECTION \<or> resp ! 1 \<noteq> cmd then await_response p cmd resp_size s'
       else ret resp s') s"

text \<open>Returns the response buffer; the status is its last two bytes.\<close>

definition check_response :: "'s port \<Rightarrow> u8 \<Rightarrow> nat \<Rightarrow> (bytes, 's) op" where
  "check_response p cmd resp_size =
     and_then (await_response p cmd resp_size) (\<lambda>resp.
       if resp ! (resp_size - 2) \<noteq> 0 then
         and_then (log_loader_internal_error p (resp ! (resp_size - 1)))
           (\<lambda>_. fail ESP_LOADER_ERROR_INVALID_RESPONSE)
       else ret resp)"

text \<open>The value field of a response.\<close>

definition response_value :: "bytes \<Rightarrow> u32" where
  "response_value resp = rd32 (drop 4 resp)"

definition send_cmd :: "'s port \<Rightarrow> bytes \<Rightarrow> (u32, 's) op" where
  "send_cmd p cmd_data =
     and_then (SLIP_send_delimiter p) (\<lambda>_.
     and_then (SLIP_send p cmd_data) (\<lambda>_.
     and_then (SLIP_send_delimiter p) (\<lambda>_.
     and_then (check_response p (cmd_data ! 1) response_size) (\<lambda>resp. ret (response_value resp)))))"

definition send_cmd_with_data :: "'s port \<Rightarrow> bytes \<Rightarrow> bytes \<Rightarrow> (unit, 's) op" where
  "send_cmd_with_data p cmd_data data =
     and_then (SLIP_send_delimiter p) (\<lambda>_.
     and_then (SLIP_send p cmd_data) (\<lambda>_.
     and_then (SLIP_send p data) (\<lambda>_.
     and_then (SLIP_send_delimiter p) (\<lambda>_.
     and_then (check_response p (cmd_data ! 1) response_size) (\<lambda>_. ret ())))))"

definition send_cmd_md5 :: "'s port \<Rightarrow> bytes \<Rightarrow> (bytes, 's) op" where
  "send_cmd_md5 p cmd_data =
     and_then (SLIP_send_delimiter p) (\<lambda>_.
     and_then (SLIP_send p cmd_data) (\<lambda>_.
     and_then (SLIP_send_delimiter p) (\<lambda>_.
     and_then (check_response p (cmd_data ! 1) rom_md5_response_size) (\<lambda>resp.
       ret (take MD5_SIZE (drop 8 resp))))))"

text \<open>\<open>send_cmd\<close> with \<open>NULL\<close> for the value.\<close>

definition send_cmd_unit :: "'s port \<Rightarrow> bytes \<Rightarrow> (unit, ('s, 'z) proto_scheme) op" where
  "send_cmd_unit p cmd_data = on_port (and_then (send_cmd p cmd_data) (\<lambda>_. ret ()))"

section \<open>Commands\<close>

definition loader_flash_begin_cmd ::
  "'s port \<Rightarrow> u32 \<Rightarrow> u32 \<Rightarrow> u32 \<Rightarrow> u32 \<Rightarrow> bool \<Rightarrow> (unit, ('s, 'z) proto_scheme) op" where
  "loader_flash_begin_cmd p offset er block_size blocks_to_write encryption st =
     (let encryption_size = (if encryption then 4 else 0);
          body = Flash_begin_command er blocks_to_write block_size offset 0;
          cmd = mk_command FLASH_BEGIN (CMD_SIZE body - encryption_size) 0 body
      in send_cmd_unit p (take (length cmd - encryption_size) cmd) (st\<lparr>s_sequence_number := 0\<rparr>))"

definition loader_flash_data_cmd :: "'s port \<Rightarrow> bytes \<Rightarrow> (unit, ('s, 'z) proto_scheme) op" where
  "loader_flash_data_cmd p data st =
     (let body = Data_command (word_of_nat (length data)) (s_sequence_number st) 0 0
      in on_port (send_cmd_with_data p
           (mk_command FLASH_DATA (CMD_SIZE body + length data) (ucast (compute_checksum data)) body) data)
           (st\<lparr>s_sequence_number := s_sequence_number st + 1\<rparr>))"

definition loader_flash_end_cmd :: "'s port \<Rightarrow> bool \<Rightarrow> (unit, ('s, 'z) proto_scheme) op" where
  "loader_flash_end_cmd p stay_in_loader =
     (let body = Flash_end_command (if stay_in_loader then 1 else 0)
      in send_cmd_unit p (mk_command FLASH_END (CMD_SIZE body) 0 body))"

definition loader_mem_begin_cmd ::
  "'s port \<Rightarrow> u32 \<Rightarrow> u32 \<Rightarrow> u32 \<Rightarrow> u32 \<Rightarrow> (unit, ('s, 'z) proto_scheme) op" where
  "loader_mem_begin_cmd p offset sz blocks_to_write block_size st =
     (let body = Mem_begin_command sz blocks_to_write block_size offset
      in send_cmd_unit p (mk_command MEM_BEGIN (CMD_SIZE body) 0 body) (st\<lparr>s_sequence_number := 0\<rparr>))"

definition loader_mem_data_cmd :: "'s port \<Rightarrow> bytes \<Rightarrow> (unit, ('s, 'z) proto_scheme) op" where
  "loader_mem_data_cmd p data st =
     (let body = Data_command (word_of_nat (length data)) (s_sequence_number st) 0 0
      in on_port (send_cmd_with_data p
           (mk_command MEM_DATA (CMD_SIZE body + length data) (ucast (compute_checksum data)) body) data)
           (st\<lparr>s_sequence_number := s_sequence_number st + 1\<rparr>))"

definition loader_mem_end_cmd :: "'s port \<Rightarrow> u32 \<Rightarrow> (unit, ('s, 'z) proto_scheme) op" where
  "loader_mem_end_cmd p entrypoint =
     (let body = Mem_end_command (if entrypoint = 0 then 1 else 0) entrypoint
      in send_cmd_unit p (mk_command MEM_END (CMD_SIZE body) 0 body))"

definition loader_sync_cmd :: "'s port \<Rightarrow> (unit, ('s, 'z) proto_scheme) op" where
  "loader_sync_cmd p =
     (let body = Sync_command ([0x07, 0x07, 0x12, 0x20] @ replicate 32 0x55)
      in send_cmd_unit p (mk_command SYNC (CMD_SIZE body) 0 body))"

definition loader_write_reg_cmd :: "'s port \<Rightarrow> u32 \<Rightarrow> u32 \<Rightarrow> u32 \<Rightarrow> u32 \<Rightarrow> (unit, ('s, 'z) proto_scheme) op" where
  "loader_write_reg_cmd p address v msk delay =
     (let body = Write_reg_command address v msk delay
      in send_cmd_unit p (mk_command WRITE_REG (CMD_SIZE body) 0 body))"

definition loader_read_reg_cmd :: "'s port \<Rightarrow> u32 \<Rightarrow> (u32, ('s, 'z) proto_scheme) op" where
  "loader_read_reg_cmd p address =
     (let body = Read_reg_command address
      in on_port (send_cmd p (mk_command READ_REG (CMD_SIZE body) 0 body)))"

definition loader_spi_attach_cmd :: "'s port \<Rightarrow> u32 \<Rightarrow> (unit, ('s, 'z) proto_scheme) op" where
  "loader_spi_attach_cmd p config =
     (let body = Spi_attach_command config 0
      in send_cmd_unit p (mk_command SPI_ATTACH (CMD_SIZE body) 0 body))"

definition loader_change_baudrate_cmd :: "'s port \<Rightarrow> u32 \<Rightarrow> (unit, ('s, 'z) proto_scheme) op" where
  "loader_change_baudrate_cmd p baudrate =
     (let body = Change_baudrate_command baudrate 0
      in send_cmd_unit p (mk_command CHANGE_BAUDRATE (CMD_SIZE body) 0 body))"

definition loader_md5_cmd :: "'s port \<Rightarrow> u32 \<Rightarrow> u32 \<Rightarrow> (bytes, ('s, 'z) proto_scheme) op" where
  "loader_md5_cmd p address sz =
     (let body = Spi_flash_md5_command address sz 0 0
      in on_port (send_cmd_md5 p (mk_command SPI_FLASH_MD5 (CMD_SIZE body) 0 body)))"

definition loader_spi_parameters :: "'s port \<Rightarrow> u32 \<Rightarrow> (unit, ('s, 'z) proto_scheme) op" where
  "loader_spi_parameters p total_size =
     (let body = Write_spi_command 0 total_size (64 * 1024) (4 * 1024) 0x100 0xFFFF
      in send_cmd_unit p (mk_command SPI_SET_PARAMS 24 0 body))"

section \<open>Every exchange ends\<close>

lemma peripheral_write_returns [returns_intros]: "returns (peripheral_write p buff n)"
  by (simp add: returns_def peripheral_write_def)

lemma SLIP_send_loop_returns: "returns (SLIP_send_loop p data i to_write written)"
proof (induction p data i to_write written rule: SLIP_send_loop.induct)
  case (1 p data i to_write written)
  then show ?case by (subst SLIP_send_loop.simps) (auto intro!: returns_intros)
qed

lemma send_returns [returns_intros]: "returns (SLIP_send p data)" "returns (SLIP_send_delimiter p)"
  by (simp_all add: SLIP_send_def SLIP_send_loop_returns SLIP_send_delimiter_def peripheral_write_returns)

lemma log_returns [returns_intros]: "returns (log_loader_internal_error p e)"
  by (simp add: log_loader_internal_error_def returns_basic)

lemma on_port_returns [returns_intros]: "returns f \<Longrightarrow> returns (on_port f)"
  by (auto simp: returns_def on_port_def split: option.splits)

context finite_port
begin

lemma await_response_returns: "0 < n \<Longrightarrow> returns (await_response p cmd n)"
proof -
  assume n: "0 < n"
  have "await_response p cmd n s \<noteq> None" for s
  proof (induction "fuel s" arbitrary: s rule: less_induct)
    case less
    obtain r s1 where r: "SLIP_receive_packet p n s = Some (r, s1)" and f: "\<And>a. r = Inr a \<Longrightarrow> fuel s1 < fuel s"
      using SLIP_receive_packet_returns [OF n] by blast
    show ?case using r less.hyps [OF f]
      by (cases r) (subst await_response.simps, auto simp: and_then_def run_simps)+
  qed
  then show ?thesis by (simp add: returns_def)
qed

lemma check_response_returns: "0 < n \<Longrightarrow> returns (check_response p cmd n)"
  unfolding check_response_def by (intro returns_intros await_response_returns)

lemma exchange_returns:
  "returns (send_cmd p frame)" "returns (send_cmd_with_data p frame data)" "returns (send_cmd_md5 p frame)"
  unfolding send_cmd_def send_cmd_with_data_def send_cmd_md5_def response_size_def rom_md5_response_size_def
  by (intro returns_intros check_response_returns; simp)+

lemma send_cmd_unit_returns: "returns (send_cmd_unit p frame)"
  unfolding send_cmd_unit_def by (intro returns_intros exchange_returns)

end

lemma on_port_None: "on_port f st = None \<longleftrightarrow> f (port_state st) = None"
  by (auto simp: on_port_def split: option.splits)

section \<open>An exchange on a lossless port\<close>

text \<open>A packet that is not the answer to \<open>cmd\<close>.\<close>

definition foreign :: "u8 \<Rightarrow> nat \<Rightarrow> bytes \<Rightarrow> bool" where
  "foreign cmd n pkt \<longleftrightarrow> length pkt = n \<and> pkt \<noteq> [] \<and> hd pkt \<noteq> 0xC0 \<and> hd pkt \<noteq> 0xDB
     \<and> (pkt ! 0 \<noteq> READ_DIRECTION \<or> pkt ! 1 \<noteq> cmd)"

context lossless_port
begin

lemma await_response_silent: "silent (await_response p cmd n)"
proof -
  have "q = p \<longrightarrow> sent (snd y) = sent t" if "await_response q cmd n t = Some y" for q :: "'s port" and t y
  proof (rule await_response.raw_induct [where P = "\<lambda>q cmd n t y. q = p \<longrightarrow> sent (snd y) = sent t", OF _ that])
    fix rec :: "'s port \<Rightarrow> u8 \<Rightarrow> nat \<Rightarrow> 's \<Rightarrow> ((esp_loader_error + bytes) \<times> 's) option" and q cmd n  t y
    assume IH: "\<And>q cmd n t y. rec q cmd n t = Some y \<Longrightarrow> q = p \<longrightarrow> sent (snd y) = sent t"
      and run: "and_then (SLIP_receive_packet q n) (\<lambda>x s'. if x ! 0 \<noteq> READ_DIRECTION \<or> x ! 1 \<noteq> cmd then rec q cmd n s' else ret x s') t = Some y"
    have "silent (\<lambda>s'. if x ! 0 \<noteq> READ_DIRECTION \<or> x ! 1 \<noteq> cmd then rec p cmd n s' else ret x s')" for x
      using IH by (force simp: silent_def run_simps)
    from silent_and_then [OF receive_packet_silent this] show "q = p \<longrightarrow> sent (snd y) = sent t"
      using run by (cases y) (auto simp: silent_def)
  qed
  then show ?thesis by (fastforce simp: silent_def)
qed

lemma check_response_silent: "silent (check_response p cmd n)"
proof -
  have "silent (log_loader_internal_error p e)" for e
    by (simp add: silent_def log_loader_internal_error_def run_simps print_ok)
  then show ?thesis unfolding check_response_def
    by (auto intro!: silent_intros await_response_silent)
qed

lemma await_response_reads:
  assumes "ready s" and "pend s = concat (map SLIP_encode others) @ SLIP_encode resp @ rest"
    and "\<forall>pkt \<in> set others. foreign cmd n pkt" and "length resp = n" and "resp \<noteq> []"
    and "resp ! 0 = READ_DIRECTION" and "resp ! 1 = cmd"
  shows "reads (await_response p cmd n) s resp rest"
  using assms(1-3)
proof (induction others arbitrary: s)
  case Nil
  obtain data where resp: "resp = READ_DIRECTION # data" using assms(5,6) by (cases resp) simp_all
  have "reads (SLIP_receive_packet p n) s resp rest"
    using receive_frame_reads [OF Nil.prems(1), of READ_DIRECTION data rest] Nil.prems(2) assms(4)
    by (simp add: resp READ_DIRECTION_def)
  then show ?case using assms(6,7)
    by (auto simp: reads_def await_response.simps [of p cmd n s] and_then_def run_simps)
next
  case (Cons pkt others)
  have fo: "foreign cmd n pkt" using Cons.prems(3) by simp
  then obtain ch data where pkt: "pkt = ch # data" by (cases pkt) (simp_all add: foreign_def)
  have "reads (SLIP_receive_packet p n) s pkt (concat (map SLIP_encode others) @ SLIP_encode resp @ rest)"
    using receive_frame_reads [OF Cons.prems(1), of ch data] Cons.prems(2) fo by (simp add: pkt foreign_def)
  then obtain s' where s': "SLIP_receive_packet p n s = Some (Inr pkt, s')" "ready s'" "sent s' = sent s"
    "pend s' = concat (map SLIP_encode others) @ SLIP_encode resp @ rest" by (auto simp: reads_def)
  have "await_response p cmd n s = await_response p cmd n s'"
    using s'(1) fo by (subst await_response.simps) (auto simp: and_then_def foreign_def)
  then show ?case using Cons.IH [OF s'(2,4)] Cons.prems(3) s'(3) by (simp add: reads_def)
qed

lemma check_response_reads:
  assumes "ready s" and "pend s = concat (map SLIP_encode others) @ SLIP_encode resp @ rest"
    and "\<forall>pkt \<in> set others. foreign cmd n pkt" and "length resp = n" and "resp \<noteq> []"
    and "resp ! 0 = READ_DIRECTION" and "resp ! 1 = cmd"
  shows "\<exists>s'. check_response p cmd n s =
      Some (if resp ! (n - 2) \<noteq> 0 then Inl ESP_LOADER_ERROR_INVALID_RESPONSE else Inr resp, s')
    \<and> pend s' = rest \<and> sent s' = sent s \<and> ready s'"
  using await_response_reads [OF assms]
  by (auto simp: reads_def check_response_def and_then_def log_loader_internal_error_def run_simps print_ok)

text \<open>The frame goes out; what the rest of the exchange does, it does after that.\<close>

lemma send_frame:
  assumes "length frame < 65536"
  shows "\<exists>s1. sent s1 = sent s @ SLIP_encode frame \<and> pend s1 = pend s \<and> (ready s \<longrightarrow> ready s1)
    \<and> (\<forall>k. and_then (SLIP_send_delimiter p) (\<lambda>_. and_then (SLIP_send p frame) (\<lambda>_.
          and_then (SLIP_send_delimiter p) k)) s = k () s1)"
proof -
  obtain a where a: "SLIP_send_delimiter p s = Some (Inr (), a)" "sent a = sent s @ [DELIMITER]" "pend a = pend s"
    "ready s \<longrightarrow> ready a" using send_delimiter_writes [of s] by (auto simp: writes_def)
  obtain b where b: "SLIP_send p frame a = Some (Inr (), b)" "sent b = sent a @ slip_escape frame" "pend b = pend a"
    "ready a \<longrightarrow> ready b" using send_writes [OF assms, of a] by (auto simp: writes_def)
  obtain c where c: "SLIP_send_delimiter p b = Some (Inr (), c)" "sent c = sent b @ [DELIMITER]" "pend c = pend b"
    "ready b \<longrightarrow> ready c" using send_delimiter_writes [of b] by (auto simp: writes_def)
  show ?thesis using a b c by (intro exI [of _ c]) (auto simp: and_then_def SLIP_encode_def DELIMITER_def)
qed

lemma send_frame_data:
  assumes "length frame < 65536" "length data < 65536"
  shows "\<exists>s1. sent s1 = sent s @ SLIP_encode (frame @ data) \<and> pend s1 = pend s \<and> (ready s \<longrightarrow> ready s1)
    \<and> (\<forall>k. and_then (SLIP_send_delimiter p) (\<lambda>_. and_then (SLIP_send p frame) (\<lambda>_. and_then (SLIP_send p data)
          (\<lambda>_. and_then (SLIP_send_delimiter p) k))) s = k () s1)"
proof -
  obtain a where a: "SLIP_send_delimiter p s = Some (Inr (), a)" "sent a = sent s @ [DELIMITER]" "pend a = pend s"
    "ready s \<longrightarrow> ready a" using send_delimiter_writes [of s] by (auto simp: writes_def)
  obtain b where b: "SLIP_send p frame a = Some (Inr (), b)" "sent b = sent a @ slip_escape frame" "pend b = pend a"
    "ready a \<longrightarrow> ready b" using send_writes [OF assms(1), of a] by (auto simp: writes_def)
  obtain d where d: "SLIP_send p data b = Some (Inr (), d)" "sent d = sent b @ slip_escape data" "pend d = pend b"
    "ready b \<longrightarrow> ready d" using send_writes [OF assms(2), of b] by (auto simp: writes_def)
  obtain c where c: "SLIP_send_delimiter p d = Some (Inr (), c)" "sent c = sent d @ [DELIMITER]" "pend c = pend d"
    "ready d \<longrightarrow> ready c" using send_delimiter_writes [of d] by (auto simp: writes_def)
  show ?thesis using a b c d by (intro exI [of _ c]) (auto simp: and_then_def SLIP_encode_def DELIMITER_def)
qed

lemma send_cmd_exchange:
  assumes "length frame < 65536" and "ready s"
    and "pend s = concat (map SLIP_encode others) @ SLIP_encode resp @ rest"
    and "\<forall>pkt \<in> set others. foreign (frame ! 1) 10 pkt" and "length resp = 10"
    and "resp ! 0 = READ_DIRECTION" and "resp ! 1 = frame ! 1"
  shows "\<exists>s'. send_cmd p frame s =
      Some (if resp ! 8 \<noteq> 0 then Inl ESP_LOADER_ERROR_INVALID_RESPONSE else Inr (response_value resp), s')
    \<and> sent s' = sent s @ SLIP_encode frame \<and> pend s' = rest \<and> ready s'"
proof -
  obtain s1 where s1: "sent s1 = sent s @ SLIP_encode frame" "pend s1 = pend s" "ready s1"
    and k: "\<And>k :: unit \<Rightarrow> (u32, 's) op. and_then (SLIP_send_delimiter p) (\<lambda>_.
          and_then (SLIP_send p frame) (\<lambda>_. and_then (SLIP_send_delimiter p) k)) s = k () s1"
    using send_frame [OF assms(1), of s] assms(2) by auto
  have "pend s1 = concat (map SLIP_encode others) @ SLIP_encode resp @ rest" using s1(2) assms(3) by simp
  from check_response_reads [OF s1(3) this assms(4,5) _ assms(6,7)]
  obtain s' where "check_response p (frame ! 1) 10 s1 =
      Some (if resp ! 8 \<noteq> 0 then Inl ESP_LOADER_ERROR_INVALID_RESPONSE else Inr resp, s')"
    and "pend s' = rest \<and> sent s' = sent s1 \<and> ready s'" using assms(5) by fastforce
  then show ?thesis
    unfolding send_cmd_def k by (auto simp: and_then_def run_simps response_size_def s1(1))
qed

lemma send_cmd_with_data_sent:
  assumes "length frame < 65536" "length data < 65536" and "send_cmd_with_data p frame data s = Some (r, s')"
  shows "sent s' = sent s @ SLIP_encode (frame @ data)"
proof -
  obtain s1 where s1: "sent s1 = sent s @ SLIP_encode (frame @ data)"
    and k: "\<And>k :: unit \<Rightarrow> (unit, 's) op. and_then (SLIP_send_delimiter p) (\<lambda>_. and_then (SLIP_send p frame)
          (\<lambda>_. and_then (SLIP_send p data) (\<lambda>_. and_then (SLIP_send_delimiter p) k))) s = k () s1"
    using send_frame_data [OF assms(1,2), of s] by auto
  have "silent (and_then (check_response p (frame ! 1) response_size) (\<lambda>_. ret ()))"
    by (intro silent_intros check_response_silent)
  then show ?thesis using assms(3) s1 unfolding send_cmd_with_data_def k by (simp add: silent_def)
qed

end

section \<open>Properties\<close>

lemma le16_four: "le16 4 = [4, 0]"
  by code_simp

lemma read_reg_frame:
  "mk_command READ_REG (CMD_SIZE (Read_reg_command address)) 0 (Read_reg_command address) =
   [0, 0x0a, 4, 0, 0, 0, 0, 0] @ le32 address"
  by (simp add: mk_command_def common_bytes_def mk_common_def WRITE_DIRECTION_def CMD_SIZE_def le16_four)
    (simp add: le32_def)

text \<open>C7: Reading a register. On a lossless port the command frame goes out SLIP encoded with its
  size field right, packets in the other direction or answering other commands are skipped, and
  the value field of the matching response is what the caller gets.\<close>

theorem read_register_exchange:
  assumes "lossless_port p pend sent ready" and "ready (port_state st)"
    and "pend (port_state st) =
      concat (map SLIP_encode others) @ SLIP_encode ([1, 0x0a, a, b] @ le32 v @ [0, e]) @ rest"
    and "\<forall>pkt \<in> set others. foreign 0x0a 10 pkt"
  shows "\<exists>st'. loader_read_reg_cmd p address st = Some (Inr v, st')
    \<and> sent (port_state st') = sent (port_state st) @ SLIP_encode ([0, 0x0a, 4, 0, 0, 0, 0, 0] @ le32 address)
    \<and> pend (port_state st') = rest"
proof -
  define frame :: bytes where "frame = [0, 0x0a, 4, 0, 0, 0, 0, 0] @ le32 address"
  have f: "length frame < 65536" "frame ! 1 = 0x0a" by (simp_all add: frame_def)
  have r: "response_value ([1, 0x0a, a, b] @ le32 v @ [0, e]) = v" by (simp add: response_value_def)
  have "(le32 v @ [0, e]) ! 4 = 0" by (simp add: nth_append)
  then have z: "([1, 0x0a, a, b] @ le32 v @ [0, e]) ! 8 = 0" by simp
  show ?thesis
    using lossless_port.send_cmd_exchange [OF assms(1) f(1) assms(2,3)] assms(4) f(2) z r
    by (auto simp: loader_read_reg_cmd_def on_port_def read_reg_frame frame_def READ_DIRECTION_def)
qed

theorem read_register_exchange_witness:
  "\<exists>st'. loader_read_reg_cmd mock_port 0x40001000
       \<lparr>port_state = mock_init\<lparr>read_buffer := concat (map SLIP_encode [[1, 8, 0, 0, 0, 0, 0, 0, 0, 0]])
          @ SLIP_encode ([1, 0x0a, 0, 0] @ le32 0xC0DB @ [0, 0]) @ []\<rparr>, s_sequence_number = 3\<rparr> = Some (Inr 0xC0DB, st')
     \<and> write_buffer (port_state st') = write_buffer mock_init
          @ SLIP_encode ([0, 0x0a, 4, 0, 0, 0, 0, 0] @ le32 0x40001000)
     \<and> read_buffer (port_state st') = []"
  using read_register_exchange [OF mock_loss.lossless_port_axioms, of
      "\<lparr>port_state = mock_init\<lparr>read_buffer := concat (map SLIP_encode [[1, 8, 0, 0, 0, 0, 0, 0, 0, 0]])
          @ SLIP_encode ([1, 0x0a, 0, 0] @ le32 0xC0DB @ [0, 0]) @ []\<rparr>, s_sequence_number = 3\<rparr>"
      "[[1, 8, 0, 0, 0, 0, 0, 0, 0, 0]]" 0 0 "0xC0DB" 0 "[]" "0x40001000"]
  by (simp add: mock_init_def foreign_def)





lemma fold_xor_start: "fold (\<lambda>b checksum. checksum XOR b) bs (x XOR c) = fold (\<lambda>b checksum. checksum XOR b) bs x XOR (c :: u8)"
proof (induction bs arbitrary: x)
  case (Cons b bs)
  have "(x XOR c) XOR b = (x XOR b) XOR c" by (simp only: xor.assoc xor.commute [of c])
  then show ?case using Cons.IH [of "x XOR b"] by simp
qed simp

text \<open>The checksum notices any change of a single byte of a data block, in whatever place and
  block.\<close>

theorem checksum_detects_byte_change:
  "compute_checksum (xs @ a # ys) = compute_checksum (xs @ b # ys) \<longleftrightarrow> a = b"
proof -
  have "compute_checksum (xs @ c # ys) = fold (\<lambda>b checksum. checksum XOR b) ys (compute_checksum xs) XOR c" for c
    by (simp add: compute_checksum_def fold_xor_start)
  then show ?thesis by (metis xor.left_neutral xor.assoc xor_self_eq)
qed

text \<open>Data blocks are numbered. A flash-begin command resets the sequence number to 0; a data
  block goes out with its length, the current number, the checksum of its bytes and the bytes
  themselves, and advances the number by one, whether or not the target acknowledges it.\<close>

theorem data_blocks_numbered:
  assumes "lossless_port p pend sent ready" and "length data < 65536"
    and "loader_flash_begin_cmd p offset er bs n enc st0 = Some (r0, st)"
    and "loader_flash_data_cmd p data st = Some (r, st')"
  shows "s_sequence_number st = 0 \<and> s_sequence_number st' = 1
    \<and> sent (port_state st') = sent (port_state st)
        @ SLIP_encode ([0, 0x03] @ le16 (word_of_nat (16 + length data)) @ le32 (ucast (compute_checksum data))
            @ le32 (word_of_nat (length data)) @ le32 0 @ le32 0 @ le32 0 @ data)"
proof -
  have 0: "s_sequence_number st = 0" using assms(3)
    by (auto simp: loader_flash_begin_cmd_def send_cmd_unit_def on_port_def Let_def split: option.splits)
  define frame where "frame = mk_command FLASH_DATA (16 + length data) (ucast (compute_checksum data))
    (Data_command (word_of_nat (length data)) 0 0 0)"
  have f: "length frame < 65536" by (simp add: frame_def mk_command_def common_bytes_def)
  obtain s' where s': "send_cmd_with_data p frame data (port_state st) = Some (r, s')"
    and st': "st' = st\<lparr>s_sequence_number := 1, port_state := s'\<rparr>"
    using assms(4) 0
    by (auto simp: loader_flash_data_cmd_def on_port_def Let_def frame_def CMD_SIZE_def split: option.splits)
  have "sent s' = sent (port_state st) @ SLIP_encode (frame @ data)"
    by (rule lossless_port.send_cmd_with_data_sent [OF assms(1) f assms(2) s'])
  then show ?thesis using 0 st'
    by (simp add: frame_def mk_command_def common_bytes_def mk_common_def WRITE_DIRECTION_def)
qed

theorem data_blocks_numbered_witness:
  "\<exists>r0 st r st'. loader_flash_begin_cmd mock_port 0 0 4 1 True \<lparr>port_state = mock_init, s_sequence_number = 9\<rparr> = Some (r0, st)
     \<and> loader_flash_data_cmd mock_port [1, 2, 0xC0, 4] st = Some (r, st') \<and> s_sequence_number st' = 1"
proof -
  let ?st0 = "\<lparr>port_state = mock_init, s_sequence_number = 9\<rparr>"
  obtain r0 st where 1: "loader_flash_begin_cmd mock_port 0 0 4 1 True ?st0 = Some (r0, st)"
    using mock_fin.send_cmd_unit_returns
    by (fastforce simp: loader_flash_begin_cmd_def returns_def Let_def)
  obtain r st' where 2: "loader_flash_data_cmd mock_port [1, 2, 0xC0, 4] st = Some (r, st')"
    using on_port_returns [OF mock_fin.exchange_returns(2)]
    by (fastforce simp: loader_flash_data_cmd_def returns_def Let_def)
  show ?thesis using data_blocks_numbered [OF mock_loss.lossless_port_axioms _ 1 2] 1 2 by auto
qed

end
