(* ===== verification/Targets.thy ===== *)
theory Targets
  imports Protocol
begin

text \<open>
  managed_components/espressif__esp-serial-flasher/src/esp_targets.c: the table of supported chips,
  the detection of the chip behind the port, and the reading of its flash pins from the efuses;
  with the two register accesses of src/esp_loader.c it is built on.
\<close>

section \<open>The table\<close>

datatype target_chip =
    ESP8266_CHIP | ESP32_CHIP | ESP32S2_CHIP | ESP32C3_CHIP | ESP32S3_CHIP | ESP32C2_CHIP | ESP32H4_CHIP
  | ESP32H2_CHIP | ESP_UNKNOWN_CHIP

record target_registers =
  reg_cmd :: u32
  reg_usr :: u32
  reg_usr1 :: u32
  reg_usr2 :: u32
  reg_w0 :: u32
  reg_mosi_dlen :: u32
  reg_miso_dlen :: u32

text \<open>The two functions the table points to.\<close>

datatype spi_config_fun = SPI_CONFIG_ESP32 | SPI_CONFIG_ESP32XX

text \<open>No entry sets \<open>encryption_in_begin_flash_cmd\<close>, and no code reads it.\<close>

record esp_target =
  regs :: target_registers
  efuse_base :: u32
  chip_magic_value :: "u32 list"
  read_spi_config :: "spi_config_fun option"

definition CHIP_DETECT_MAGIC_REG_ADDR :: u32 where "CHIP_DETECT_MAGIC_REG_ADDR = 0x40001000"
definition ESP8266_SPI_REG_BASE :: u32 where "ESP8266_SPI_REG_BASE = 0x60000200"
definition ESP32S2_SPI_REG_BASE :: u32 where "ESP32S2_SPI_REG_BASE = 0x3f402000"
definition ESP32xx_SPI_REG_BASE :: u32 where "ESP32xx_SPI_REG_BASE = 0x60002000"
definition ESP32_SPI_REG_BASE :: u32 where "ESP32_SPI_REG_BASE = 0x3ff42000"

definition esp_target_table :: "esp_target list" where
  "esp_target_table =
  [\<comment> \<open>ESP8266\<close>
   \<lparr>regs = \<lparr>reg_cmd = ESP8266_SPI_REG_BASE + 0x00, reg_usr = ESP8266_SPI_REG_BASE + 0x1c, reg_usr1 = ESP8266_SPI_REG_BASE + 0x20,
       reg_usr2 = ESP8266_SPI_REG_BASE + 0x24, reg_w0 = ESP8266_SPI_REG_BASE + 0x40, reg_mosi_dlen = 0,
       reg_miso_dlen = 0\<rparr>,
     efuse_base = 0, chip_magic_value = [0xfff0c101, 0],
     read_spi_config = None\<rparr>,
   \<comment> \<open>ESP32\<close>
   \<lparr>regs = \<lparr>reg_cmd = ESP32_SPI_REG_BASE + 0x00, reg_usr = ESP32_SPI_REG_BASE + 0x1c, reg_usr1 = ESP32_SPI_REG_BASE + 0x20,
       reg_usr2 = ESP32_SPI_REG_BASE + 0x24, reg_w0 = ESP32_SPI_REG_BASE + 0x80, reg_mosi_dlen = ESP32_SPI_REG_BASE + 0x28,
       reg_miso_dlen = ESP32_SPI_REG_BASE + 0x2c\<rparr>,
     efuse_base = 0x3ff5a000, chip_magic_value = [0x00f01d83, 0],
     read_spi_config = Some SPI_CONFIG_ESP32\<rparr>,
   \<comment> \<open>ESP32S2\<close>
   \<lparr>regs = \<lparr>reg_cmd = ESP32S2_SPI_REG_BASE + 0x00, reg_usr = ESP32S2_SPI_REG_BASE + 0x18, reg_usr1 = ESP32S2_SPI_REG_BASE + 0x1c,
       reg_usr2 = ESP32S2_SPI_REG_BASE + 0x20, reg_w0 = ESP32S2_SPI_REG_BASE + 0x58, reg_mosi_dlen = ESP32S2_SPI_REG_BASE + 0x24,
       reg_miso_dlen = ESP32S2_SPI_REG_BASE + 0x28\<rparr>,
     efuse_base = 0x3f41a000, chip_magic_value = [0x000007c6, 0],
     read_spi_config = Some SPI_CONFIG_ESP32XX\<rparr>,
   \<comment> \<open>ESP32C3\<close>
   \<lparr>regs = \<lparr>reg_cmd = ESP32xx_SPI_REG_BASE + 0x00, reg_usr = ESP32xx_SPI_REG_BASE + 0x18, reg_usr1 = ESP32xx_SPI_REG_BASE + 0x1c,
       reg_usr2 = ESP32xx_SPI_REG_BASE + 0x20, reg_w0 = ESP32xx_SPI_REG_BASE + 0x58, reg_mosi_dlen = ESP32xx_SPI_REG_BASE + 0x24,
       reg_miso_dlen = ESP32xx_SPI_REG_BASE + 0x28\<rparr>,
     efuse_base = 0x60008800, chip_magic_value = [0x6921506f, 0x1b31506f],
     read_spi_config = Some SPI_CONFIG_ESP32XX\<rparr>,
   \<comment> \<open>ESP32S3\<close>
   \<lparr>regs = \<lparr>reg_cmd = ESP32xx_SPI_REG_BASE + 0x00, reg_usr = ESP32xx_SPI_REG_BASE + 0x18, reg_usr1 = ESP32xx_SPI_REG_BASE + 0x1c,
       reg_usr2 = ESP32xx_SPI_REG_BASE + 0x20, reg_w0 = ESP32xx_SPI_REG_BASE + 0x58, reg_mosi_dlen = ESP32xx_SPI_REG_BASE + 0x24,
       reg_miso_dlen = ESP32xx_SPI_REG_BASE + 0x28\<rparr>,
     efuse_base = 0x60007000, chip_magic_value = [0x00000009, 0],
     read_spi_config = Some SPI_CONFIG_ESP32XX\<rparr>,
   \<comment> \<open>ESP32C2\<close>
   \<lparr>regs = \<lparr>reg_cmd = ESP32xx_SPI_REG_BASE + 0x00, reg_usr = ESP32xx_SPI_REG_BASE + 0x18, reg_usr1 = ESP32xx_SPI_REG_BASE + 0x1c,
       reg_usr2 = ESP32xx_SPI_REG_BASE + 0x20, reg_w0 = ESP32xx_SPI_REG_BASE + 0x58, reg_mosi_dlen = ESP32xx_SPI_REG_BASE + 0x24,
       reg_miso_dlen = ESP32xx_SPI_REG_BASE + 0x28\<rparr>,
     efuse_base = 0x60008800, chip_magic_value = [0x6f51306f, 0x7c41a06f],
     read_spi_config = Some SPI_CONFIG_ESP32XX\<rparr>,
   \<comment> \<open>ESP32H4\<close>
   \<lparr>regs = \<lparr>reg_cmd = ESP32xx_SPI_REG_BASE + 0x00, reg_usr = ESP32xx_SPI_REG_BASE + 0x18, reg_usr1 = ESP32xx_SPI_REG_BASE + 0x1c,
       reg_usr2 = ESP32xx_SPI_REG_BASE + 0x20, reg_w0 = ESP32xx_SPI_REG_BASE + 0x58, reg_mosi_dlen = ESP32xx_SPI_REG_BASE + 0x24,
       reg_miso_dlen = ESP32xx_SPI_REG_BASE + 0x28\<rparr>,
     efuse_base = 0x6001a000, chip_magic_value = [0xca26cc22, 0x6881b06f],
     read_spi_config = Some SPI_CONFIG_ESP32XX\<rparr>,
   \<comment> \<open>ESP32H2\<close>
   \<lparr>regs = \<lparr>reg_cmd = ESP32xx_SPI_REG_BASE + 0x00, reg_usr = ESP32xx_SPI_REG_BASE + 0x18, reg_usr1 = ESP32xx_SPI_REG_BASE + 0x1c,
       reg_usr2 = ESP32xx_SPI_REG_BASE + 0x20, reg_w0 = ESP32xx_SPI_REG_BASE + 0x58, reg_mosi_dlen = ESP32xx_SPI_REG_BASE + 0x24,
       reg_miso_dlen = ESP32xx_SPI_REG_BASE + 0x28\<rparr>,
     efuse_base = 0x6001a000, chip_magic_value = [0xd7b73e80, 0],
     read_spi_config = Some SPI_CONFIG_ESP32XX\<rparr>]"

definition chip_order :: "target_chip list" where
  "chip_order = [ESP8266_CHIP, ESP32_CHIP, ESP32S2_CHIP, ESP32C3_CHIP, ESP32S3_CHIP, ESP32C2_CHIP,
     ESP32H4_CHIP, ESP32H2_CHIP]"

text \<open>
  \<open>esp_target [chip]\<close>; an index past the table (\<open>ESP_UNKNOWN_CHIP\<close>) is undefined behaviour.
\<close>

fun chip_index :: "target_chip \<Rightarrow> nat" where
  "chip_index ESP8266_CHIP = 0"
| "chip_index ESP32_CHIP = 1"
| "chip_index ESP32S2_CHIP = 2"
| "chip_index ESP32C3_CHIP = 3"
| "chip_index ESP32S3_CHIP = 4"
| "chip_index ESP32C2_CHIP = 5"
| "chip_index ESP32H4_CHIP = 6"
| "chip_index ESP32H2_CHIP = 7"
| "chip_index ESP_UNKNOWN_CHIP = 8"

definition get_esp_target :: "target_chip \<Rightarrow> esp_target option" where
  "get_esp_target chip =
     (if chip_index chip < length esp_target_table then Some (esp_target_table ! chip_index chip) else None)"

definition get_esp_target_data :: "target_chip \<Rightarrow> target_registers option" where
  "get_esp_target_data chip = map_option regs (get_esp_target chip)"

section \<open>Register access\<close>

definition DEFAULT_TIMEOUT :: u32 where "DEFAULT_TIMEOUT = 1000"

definition start_timer :: "'s port \<Rightarrow> u32 \<Rightarrow> (unit, ('s, 'z) proto_scheme) op" where
  "start_timer p ms = on_port (act (port_start_timer p ms))"

definition esp_loader_read_register :: "'s port \<Rightarrow> u32 \<Rightarrow> (u32, ('s, 'z) proto_scheme) op" where
  "esp_loader_read_register p address =
     and_then (start_timer p DEFAULT_TIMEOUT) (\<lambda>_. loader_read_reg_cmd p address)"

definition esp_loader_write_register :: "'s port \<Rightarrow> u32 \<Rightarrow> u32 \<Rightarrow> (unit, ('s, 'z) proto_scheme) op" where
  "esp_loader_write_register p address reg_value =
     and_then (start_timer p DEFAULT_TIMEOUT) (\<lambda>_. loader_write_reg_cmd p address reg_value 0xFFFFFFFF 0)"

section \<open>Detection\<close>

text \<open>The two nested loops of \<open>loader_detect_chip\<close>: the first chip with a matching value.\<close>

definition find_chip :: "u32 \<Rightarrow> target_chip option" where
  "find_chip magic_value =
     map_option fst (find (\<lambda>(chip, tgt). \<exists>v \<in> set (chip_magic_value tgt). magic_value = v)
       (zip chip_order esp_target_table))"

definition loader_detect_chip :: "'s port \<Rightarrow> (target_chip, ('s, 'z) proto_scheme) op" where
  "loader_detect_chip p =
     and_then (esp_loader_read_register p CHIP_DETECT_MAGIC_REG_ADDR) (\<lambda>magic_value.
       case find_chip magic_value of Some chip \<Rightarrow> ret chip
       | None \<Rightarrow> fail ESP_LOADER_ERROR_INVALID_TARGET)"

section \<open>Flash pins\<close>

definition efuse_word_addr :: "u32 \<Rightarrow> u32 \<Rightarrow> u32" where
  "efuse_word_addr base n = base + n * 4"

definition adjust_pin_number :: "u8 \<Rightarrow> u8" where
  "adjust_pin_number num = (if 30 \<le> num then num + 2 else num)"

text \<open>The configuration word from the two efuse words, after they were read.\<close>

definition pins_esp32 :: "u32 \<Rightarrow> u32 \<Rightarrow> u32" where
  "pins_esp32 reg5 reg3 =
     (let pins = reg5 AND 0xfffff in
      if pins = 0 \<or> pins = 0xfffff then 0
      else
        let clk = adjust_pin_number (ucast (drop_bit 0 pins AND 0x1f));
            q = adjust_pin_number (ucast (drop_bit 5 pins AND 0x1f));
            d = adjust_pin_number (ucast (drop_bit 10 pins AND 0x1f));
            cs = adjust_pin_number (ucast (drop_bit 15 pins AND 0x1f));
            hd = adjust_pin_number (ucast (drop_bit 4 reg3 AND 0x1f))
        in if clk = cs \<or> clk = d \<or> clk = q \<or> q = cs \<or> q = d \<or> q = d then 0
           else push_bit 24 (ucast hd) OR push_bit 18 (ucast cs) OR push_bit 12 (ucast d)
                OR push_bit 6 (ucast q) OR ucast clk)"

definition pins_esp32xx :: "u32 \<Rightarrow> u32 \<Rightarrow> u32" where
  "pins_esp32xx reg1 reg2 =
     (let pins = (drop_bit 16 reg1 OR push_bit 16 (reg2 AND 0xfffff)) AND 0x3fffffff in
      if pins = 0 \<or> pins = 0xffffffff then 0 else pins)"

definition spi_config_esp32 :: "'s port \<Rightarrow> u32 \<Rightarrow> (u32, ('s, 'z) proto_scheme) op" where
  "spi_config_esp32 p base =
     and_then (esp_loader_read_register p (efuse_word_addr base 5)) (\<lambda>reg5.
     and_then (esp_loader_read_register p (efuse_word_addr base 3)) (\<lambda>reg3. ret (pins_esp32 reg5 reg3)))"

definition spi_config_esp32xx :: "'s port \<Rightarrow> u32 \<Rightarrow> (u32, ('s, 'z) proto_scheme) op" where
  "spi_config_esp32xx p base =
     and_then (esp_loader_read_register p (efuse_word_addr base 18)) (\<lambda>reg1.
     and_then (esp_loader_read_register p (efuse_word_addr base 19)) (\<lambda>reg2. ret (pins_esp32xx reg1 reg2)))"

text \<open>A null function pointer, or an index past the table, is undefined behaviour.\<close>

definition loader_read_spi_config :: "'s port \<Rightarrow> target_chip \<Rightarrow> (u32, ('s, 'z) proto_scheme) op" where
  "loader_read_spi_config p chip st =
     (case get_esp_target chip of None \<Rightarrow> None
      | Some tgt \<Rightarrow>
          (case read_spi_config tgt of None \<Rightarrow> None
           | Some SPI_CONFIG_ESP32 \<Rightarrow> spi_config_esp32 p (efuse_base tgt) st
           | Some SPI_CONFIG_ESP32XX \<Rightarrow> spi_config_esp32xx p (efuse_base tgt) st))"

definition encryption_in_begin_flash_cmd :: "target_chip \<Rightarrow> bool" where
  "encryption_in_begin_flash_cmd chip \<longleftrightarrow> chip = ESP32_CHIP \<or> chip = ESP8266_CHIP"

section \<open>Properties\<close>

text \<open>Chip detection. Every magic value of the table identifies the chip of its row and no
  other, and a value found nowhere in the table identifies none; only 0, which pads the rows
  with one value, is taken for an ESP8266.\<close>

theorem chip_detection:
  "find_chip 0 = Some ESP8266_CHIP
   \<and> (\<forall>chip tgt v. get_esp_target chip = Some tgt \<and> v \<in> set (chip_magic_value tgt) \<and> v \<noteq> 0 \<longrightarrow>
        find_chip v = Some chip)
   \<and> (\<forall>v. (\<forall>tgt \<in> set esp_target_table. v \<notin> set (chip_magic_value tgt)) \<longrightarrow> find_chip v = None)"
proof (intro conjI allI impI)
  show "find_chip 0 = Some ESP8266_CHIP"
    by (simp add: find_chip_def chip_order_def esp_target_table_def)
next
  fix chip tgt v
  assume "get_esp_target chip = Some tgt \<and> v \<in> set (chip_magic_value tgt) \<and> v \<noteq> 0"
  then show "find_chip v = Some chip"
    by (cases chip)
      (auto simp: get_esp_target_def esp_target_table_def find_chip_def chip_order_def)
next
  fix v assume "\<forall>tgt \<in> set esp_target_table. v \<notin> set (chip_magic_value tgt)"
  then show "find_chip v = None"
    by (auto simp: find_chip_def find_None_iff dest: set_zip_rightD)
qed

theorem chip_detection_witness: "find_chip 0x6881b06f = Some ESP32H4_CHIP"
proof (rule chip_detection [THEN conjunct2, THEN conjunct1, rule_format])
  show "get_esp_target ESP32H4_CHIP = Some (esp_target_table ! 6)
      \<and> 0x6881b06f \<in> set (chip_magic_value (esp_target_table ! 6)) \<and> (0x6881b06f :: u32) \<noteq> 0"
    by (simp add: get_esp_target_def esp_target_table_def)
qed

text \<open>A pin number fits the six bits of its field.\<close>

lemma adjust_pin_small: "n \<le> 31 \<Longrightarrow> ucast (adjust_pin_number n) \<le> (33 :: u32)"
proof -
  assume n: "n \<le> 31"
  have "unat (adjust_pin_number n) \<le> 33"
    using n by (auto simp: adjust_pin_number_def word_le_nat_alt unat_word_ariths mod_if)
  then show ?thesis by (simp add: word_le_nat_alt unsigned_ucast_eq take_bit_nat_eq_self)
qed

lemma pin_bits:
  assumes "w \<le> (33 :: u32)" "bit w n"
  shows "n < 6"
proof -
  have "take_bit 6 w = w" using assms(1) by (simp add: take_bit_eq_mod word_le_nat_alt word_unat_eq_iff unat_mod_distrib)
  then show ?thesis using assms(2) by (metis bit_take_bit_iff)
qed

lemma five_fields:
  fixes a b c d e :: u32
  assumes "a \<le> 33" "b \<le> 33" "c \<le> 33" "d \<le> 33" "e \<le> 33"
  defines "w \<equiv> push_bit 24 e OR push_bit 18 d OR push_bit 12 c OR push_bit 6 b OR a"
  shows "w AND mask 6 = a \<and> drop_bit 6 w AND mask 6 = b \<and> drop_bit 12 w AND mask 6 = c
    \<and> drop_bit 18 w AND mask 6 = d \<and> drop_bit 24 w AND mask 6 = e"
proof -
  note small = assms(1-5) [THEN pin_bits]
  have s: "bit a n \<Longrightarrow> n < 6" "bit b n \<Longrightarrow> n < 6" "bit c n \<Longrightarrow> n < 6" "bit d n \<Longrightarrow> n < 6" "bit e n \<Longrightarrow> n < 6" for n
    using small by blast+
  show ?thesis
    by (intro conjI; rule bit_word_eqI) (auto simp: w_def bit_simps dest: s)
qed

text \<open>The flash pins of an ESP32. When a configuration is returned at all, its six-bit fields are
  the five pin numbers of the efuses, 30 and 31 standing for GPIO 32 and 33; the clock is on a pin
  of its own and so is the data-out pin.\<close>

theorem esp32_pins_packed:
  assumes "pins_esp32 reg5 reg3 \<noteq> 0"
  shows "let c = pins_esp32 reg5 reg3; pins = reg5 AND 0xfffff;
      pin = (\<lambda>k r. adjust_pin_number (ucast (drop_bit k r AND 0x1f)))
    in c AND mask 6 = ucast (pin 0 pins) \<and> drop_bit 6 c AND mask 6 = ucast (pin 5 pins)
      \<and> drop_bit 12 c AND mask 6 = ucast (pin 10 pins) \<and> drop_bit 18 c AND mask 6 = ucast (pin 15 pins)
      \<and> drop_bit 24 c AND mask 6 = ucast (pin 4 reg3)
      \<and> pin 0 pins \<noteq> pin 5 pins \<and> pin 0 pins \<noteq> pin 10 pins \<and> pin 0 pins \<noteq> pin 15 pins
      \<and> pin 5 pins \<noteq> pin 10 pins \<and> pin 5 pins \<noteq> pin 15 pins"
proof -
  define pins where "pins = reg5 AND 0xfffff"
  define pin where "pin = (\<lambda>k (r :: u32). adjust_pin_number (ucast (drop_bit k r AND 0x1f)))"
  have "ucast (r AND 0x1f) \<le> (31 :: u8)" for r :: u32
  proof -
    have m: "(0x1f :: u32) = mask 5" by (simp add: mask_eq_exp_minus_1)
    have "unat (r AND 0x1f) \<le> 31"
      unfolding m take_bit_eq_mask [symmetric] by (simp add: unsigned_take_bit_eq take_bit_nat_def)
    then show ?thesis by (simp add: word_le_nat_alt unsigned_ucast_eq take_bit_nat_def)
  qed
  then have small: "ucast (pin k r) \<le> (33 :: u32)" for k r unfolding pin_def by (rule adjust_pin_small)
  have c: "pins_esp32 reg5 reg3 = push_bit 24 (ucast (pin 4 reg3)) OR push_bit 18 (ucast (pin 15 pins))
      OR push_bit 12 (ucast (pin 10 pins)) OR push_bit 6 (ucast (pin 5 pins)) OR ucast (pin 0 pins)"
    and ne: "pin 0 pins \<noteq> pin 5 pins \<and> pin 0 pins \<noteq> pin 10 pins \<and> pin 0 pins \<noteq> pin 15 pins
      \<and> pin 5 pins \<noteq> pin 10 pins \<and> pin 5 pins \<noteq> pin 15 pins"
    using assms unfolding pins_esp32_def pins_def [symmetric] Let_def pin_def
    by (auto split: if_splits)
  show ?thesis
    unfolding Let_def pins_def [symmetric] using five_fields [OF small small small small small] ne
    unfolding c pin_def by blast
qed

theorem esp32_pins_packed_witness: "drop_bit 24 (pins_esp32 0x000820c7 0x1f0) AND mask 6 = (33 :: u32)"
proof -
  have "pins_esp32 0x000820c7 0x1f0 \<noteq> 0" by code_simp
  moreover have "ucast (adjust_pin_number (ucast (drop_bit 4 (0x1f0 :: u32) AND 0x1f))) = (33 :: u32)" by code_simp
  ultimately show ?thesis using esp32_pins_packed [of "0x000820c7" "0x1f0"] by (simp add: Let_def)
qed

text \<open>The flash pins of the later chips. The value is the thirty efuse bits as they are: the test
  for an all-ones word can never succeed behind the mask, so blank efuses that read as ones are
  handed on as pin numbers.\<close>

theorem esp32xx_pins_are_the_efuse_bits:
  "pins_esp32xx reg1 reg2 = (drop_bit 16 reg1 OR push_bit 16 (reg2 AND 0xfffff)) AND 0x3fffffff
   \<and> pins_esp32xx 0xffffffff 0xffffffff = 0x3fffffff"
proof
  have "w AND 0x3fffffff \<noteq> 0xffffffff" for w :: u32
  proof -
    have "\<not> bit (w AND 0x3fffffff) 31" by (simp add: bit_and_iff bit_numeral_simps)
    moreover have "bit (0xffffffff :: u32) 31" by simp
    ultimately show ?thesis by metis
  qed
  then show "pins_esp32xx reg1 reg2 = (drop_bit 16 reg1 OR push_bit 16 (reg2 AND 0xfffff)) AND 0x3fffffff"
    by (simp add: pins_esp32xx_def Let_def)
  show "pins_esp32xx 0xffffffff 0xffffffff = 0x3fffffff" by code_simp
qed

end
