(* ===== verification/Md5.thy ===== *)
theory Md5
  imports Prelude
begin

text \<open>
  managed_components/espressif__esp-serial-flasher/src/md5_hash.c: the streaming MD5 with which the
  flasher digests what it writes. The reference is the algorithm of RFC 1321 on a whole message:
  padding, 64 rounds per block given by tables, plain Boolean functions. The unrolled transform
  of the code is shown equal to the table-driven one, and feeding a message in chunks of any sizes
  to digest the concatenation. The targets are little-endian (\<open>byteReverse\<close> is empty).
\<close>

section \<open>The code\<close>

type_synonym md5_regs = "u32 \<times> u32 \<times> u32 \<times> u32"

text \<open>The fields \<open>bits [0]\<close> and \<open>bits [1]\<close> are \<open>md_bits_lo\<close> and \<open>md_bits_hi\<close>.\<close>

record md5_context =
  md_buf :: md5_regs
  md_bits_lo :: u32
  md_bits_hi :: u32
  md_in :: bytes

definition MD5Init :: "md5_context \<Rightarrow> md5_context" where
  "MD5Init ctx = ctx\<lparr>md_buf := (0x67452301, 0xefcdab89, 0x98badcfe, 0x10325476),
     md_bits_lo := 0, md_bits_hi := 0\<rparr>"

definition F1 :: "u32 \<Rightarrow> u32 \<Rightarrow> u32 \<Rightarrow> u32" where "F1 x y z = z XOR (x AND (y XOR z))"
definition F2 :: "u32 \<Rightarrow> u32 \<Rightarrow> u32 \<Rightarrow> u32" where "F2 x y z = F1 z x y"
definition F3 :: "u32 \<Rightarrow> u32 \<Rightarrow> u32 \<Rightarrow> u32" where "F3 x y z = x XOR y XOR z"
definition F4 :: "u32 \<Rightarrow> u32 \<Rightarrow> u32 \<Rightarrow> u32" where "F4 x y z = y XOR (x OR NOT z)"

definition MD5STEP ::
  "(u32 \<Rightarrow> u32 \<Rightarrow> u32 \<Rightarrow> u32) \<Rightarrow> u32 \<Rightarrow> u32 \<Rightarrow> u32 \<Rightarrow> u32 \<Rightarrow> u32 \<Rightarrow> nat \<Rightarrow> u32" where
  "MD5STEP f w x y z data s =
     (let w = w + (f x y z + data);
          w = push_bit s w OR drop_bit (32 - s) w
      in w + x)"

definition MD5Transform :: "md5_regs \<Rightarrow> u32 list \<Rightarrow> md5_regs" where
  "MD5Transform buf inp =
     (case buf of (a0, b0, c0, d0) \<Rightarrow> case buf of (a, b, c, d) \<Rightarrow>
      let
          a = MD5STEP F1 a b c d (inp ! 0 + 0xd76aa478) 7;
          d = MD5STEP F1 d a b c (inp ! 1 + 0xe8c7b756) 12;
          c = MD5STEP F1 c d a b (inp ! 2 + 0x242070db) 17;
          b = MD5STEP F1 b c d a (inp ! 3 + 0xc1bdceee) 22;
          a = MD5STEP F1 a b c d (inp ! 4 + 0xf57c0faf) 7;
          d = MD5STEP F1 d a b c (inp ! 5 + 0x4787c62a) 12;
          c = MD5STEP F1 c d a b (inp ! 6 + 0xa8304613) 17;
          b = MD5STEP F1 b c d a (inp ! 7 + 0xfd469501) 22;
          a = MD5STEP F1 a b c d (inp ! 8 + 0x698098d8) 7;
          d = MD5STEP F1 d a b c (inp ! 9 + 0x8b44f7af) 12;
          c = MD5STEP F1 c d a b (inp ! 10 + 0xffff5bb1) 17;
          b = MD5STEP F1 b c d a (inp ! 11 + 0x895cd7be) 22;
          a = MD5STEP F1 a b c d (inp ! 12 + 0x6b901122) 7;
          d = MD5STEP F1 d a b c (inp ! 13 + 0xfd987193) 12;
          c = MD5STEP F1 c d a b (inp ! 14 + 0xa679438e) 17;
          b = MD5STEP F1 b c d a (inp ! 15 + 0x49b40821) 22;
          a = MD5STEP F2 a b c d (inp ! 1 + 0xf61e2562) 5;
          d = MD5STEP F2 d a b c (inp ! 6 + 0xc040b340) 9;
          c = MD5STEP F2 c d a b (inp ! 11 + 0x265e5a51) 14;
          b = MD5STEP F2 b c d a (inp ! 0 + 0xe9b6c7aa) 20;
          a = MD5STEP F2 a b c d (inp ! 5 + 0xd62f105d) 5;
          d = MD5STEP F2 d a b c (inp ! 10 + 0x02441453) 9;
          c = MD5STEP F2 c d a b (inp ! 15 + 0xd8a1e681) 14;
          b = MD5STEP F2 b c d a (inp ! 4 + 0xe7d3fbc8) 20;
          a = MD5STEP F2 a b c d (inp ! 9 + 0x21e1cde6) 5;
          d = MD5STEP F2 d a b c (inp ! 14 + 0xc33707d6) 9;
          c = MD5STEP F2 c d a b (inp ! 3 + 0xf4d50d87) 14;
          b = MD5STEP F2 b c d a (inp ! 8 + 0x455a14ed) 20;
          a = MD5STEP F2 a b c d (inp ! 13 + 0xa9e3e905) 5;
          d = MD5STEP F2 d a b c (inp ! 2 + 0xfcefa3f8) 9;
          c = MD5STEP F2 c d a b (inp ! 7 + 0x676f02d9) 14;
          b = MD5STEP F2 b c d a (inp ! 12 + 0x8d2a4c8a) 20;
          a = MD5STEP F3 a b c d (inp ! 5 + 0xfffa3942) 4;
          d = MD5STEP F3 d a b c (inp ! 8 + 0x8771f681) 11;
          c = MD5STEP F3 c d a b (inp ! 11 + 0x6d9d6122) 16;
          b = MD5STEP F3 b c d a (inp ! 14 + 0xfde5380c) 23;
          a = MD5STEP F3 a b c d (inp ! 1 + 0xa4beea44) 4;
          d = MD5STEP F3 d a b c (inp ! 4 + 0x4bdecfa9) 11;
          c = MD5STEP F3 c d a b (inp ! 7 + 0xf6bb4b60) 16;
          b = MD5STEP F3 b c d a (inp ! 10 + 0xbebfbc70) 23;
          a = MD5STEP F3 a b c d (inp ! 13 + 0x289b7ec6) 4;
          d = MD5STEP F3 d a b c (inp ! 0 + 0xeaa127fa) 11;
          c = MD5STEP F3 c d a b (inp ! 3 + 0xd4ef3085) 16;
          b = MD5STEP F3 b c d a (inp ! 6 + 0x04881d05) 23;
          a = MD5STEP F3 a b c d (inp ! 9 + 0xd9d4d039) 4;
          d = MD5STEP F3 d a b c (inp ! 12 + 0xe6db99e5) 11;
          c = MD5STEP F3 c d a b (inp ! 15 + 0x1fa27cf8) 16;
          b = MD5STEP F3 b c d a (inp ! 2 + 0xc4ac5665) 23;
          a = MD5STEP F4 a b c d (inp ! 0 + 0xf4292244) 6;
          d = MD5STEP F4 d a b c (inp ! 7 + 0x432aff97) 10;
          c = MD5STEP F4 c d a b (inp ! 14 + 0xab9423a7) 15;
          b = MD5STEP F4 b c d a (inp ! 5 + 0xfc93a039) 21;
          a = MD5STEP F4 a b c d (inp ! 12 + 0x655b59c3) 6;
          d = MD5STEP F4 d a b c (inp ! 3 + 0x8f0ccc92) 10;
          c = MD5STEP F4 c d a b (inp ! 10 + 0xffeff47d) 15;
          b = MD5STEP F4 b c d a (inp ! 1 + 0x85845dd1) 21;
          a = MD5STEP F4 a b c d (inp ! 8 + 0x6fa87e4f) 6;
          d = MD5STEP F4 d a b c (inp ! 15 + 0xfe2ce6e0) 10;
          c = MD5STEP F4 c d a b (inp ! 6 + 0xa3014314) 15;
          b = MD5STEP F4 b c d a (inp ! 13 + 0x4e0811a1) 21;
          a = MD5STEP F4 a b c d (inp ! 4 + 0xf7537e82) 6;
          d = MD5STEP F4 d a b c (inp ! 11 + 0xbd3af235) 10;
          c = MD5STEP F4 c d a b (inp ! 2 + 0x2ad7d2bb) 15;
          b = MD5STEP F4 b c d a (inp ! 9 + 0xeb86d391) 21
      in (a0 + a, b0 + b, c0 + c, d0 + d))"

text \<open>The 64 bytes of the buffer read as 16 words.\<close>

definition words_of :: "bytes \<Rightarrow> u32 list" where
  "words_of b = map (\<lambda>i. rd32 (drop (4 * i) b)) [0..<16]"

text \<open>The loop over the 64-byte chunks of \<open>MD5Update\<close>.\<close>

function md5_chunks :: "md5_context \<Rightarrow> bytes \<Rightarrow> md5_context \<times> bytes" where
  "md5_chunks ctx buf =
     (if 64 \<le> length buf then
        (let ctx = ctx\<lparr>md_in := blit (md_in ctx) 0 (take 64 buf)\<rparr>;
             ctx = ctx\<lparr>md_buf := MD5Transform (md_buf ctx) (words_of (md_in ctx))\<rparr>
         in md5_chunks ctx (drop 64 buf))
      else (ctx, buf))"
  by pat_completeness auto
termination
  by (relation "measure (\<lambda>(ctx, buf). length buf)") auto

declare md5_chunks.simps [simp del]

definition MD5Update :: "md5_context \<Rightarrow> bytes \<Rightarrow> md5_context" where
  "MD5Update ctx buf =
     (let len = word_of_nat (length buf) :: u32;
          t = md_bits_lo ctx;
          ctx = ctx\<lparr>md_bits_lo := t + push_bit 3 len\<rparr>;
          ctx = (if md_bits_lo ctx < t then ctx\<lparr>md_bits_hi := md_bits_hi ctx + 1\<rparr> else ctx);
          ctx = ctx\<lparr>md_bits_hi := md_bits_hi ctx + drop_bit 29 len\<rparr>;
          t = unat (drop_bit 3 t AND 0x3f)
      in if t \<noteq> 0 \<and> length buf < 64 - t then ctx\<lparr>md_in := blit (md_in ctx) t buf\<rparr>
         else
           let n = (if t \<noteq> 0 then 64 - t else 0);
               ctx = (if t \<noteq> 0 then
                        let ctx = ctx\<lparr>md_in := blit (md_in ctx) t (take n buf)\<rparr>
                        in ctx\<lparr>md_buf := MD5Transform (md_buf ctx) (words_of (md_in ctx))\<rparr>
                      else ctx)
           in case md5_chunks ctx (drop n buf) of
                (ctx, rest) \<Rightarrow> ctx\<lparr>md_in := blit (md_in ctx) 0 rest\<rparr>)"

text \<open>The digest, and the context wiped.\<close>

definition MD5Final :: "md5_context \<Rightarrow> bytes \<times> md5_context" where
  "MD5Final ctx =
     (let count = unat (drop_bit 3 (md_bits_lo ctx) AND 0x3f);
          ctx = ctx\<lparr>md_in := blit (md_in ctx) count [0x80]\<rparr>;
          p = count + 1;
          count = 64 - 1 - count;
          ctx = (if count < 8 then
                   let ctx = ctx\<lparr>md_in := blit (md_in ctx) p (replicate count 0)\<rparr>;
                       ctx = ctx\<lparr>md_buf := MD5Transform (md_buf ctx) (words_of (md_in ctx))\<rparr>
                   in ctx\<lparr>md_in := blit (md_in ctx) 0 (replicate 56 0)\<rparr>
                 else ctx\<lparr>md_in := blit (md_in ctx) p (replicate (count - 8) 0)\<rparr>);
          ctx = ctx\<lparr>md_in := blit (md_in ctx) 56 (le32 (md_bits_lo ctx) @ le32 (md_bits_hi ctx))\<rparr>;
          ctx = ctx\<lparr>md_buf := MD5Transform (md_buf ctx) (words_of (md_in ctx))\<rparr>
      in case md_buf ctx of (a, b, c, d) \<Rightarrow>
         (le32 a @ le32 b @ le32 c @ le32 d,
          \<lparr>md_buf = (0, 0, 0, 0), md_bits_lo = 0, md_bits_hi = 0, md_in = replicate 64 0\<rparr>))"

section \<open>The reference: RFC 1321\<close>

text \<open>The sine table \<open>floor (2 ^ 32 * \<bar>sin (i + 1)\<bar>)\<close>, the shifts, the order of the words.\<close>

definition rfc_T :: "u32 list" where
  "rfc_T =
   [0xd76aa478, 0xe8c7b756, 0x242070db, 0xc1bdceee, 0xf57c0faf, 0x4787c62a, 0xa8304613, 0xfd469501,
    0x698098d8, 0x8b44f7af, 0xffff5bb1, 0x895cd7be, 0x6b901122, 0xfd987193, 0xa679438e, 0x49b40821,
    0xf61e2562, 0xc040b340, 0x265e5a51, 0xe9b6c7aa, 0xd62f105d, 0x02441453, 0xd8a1e681, 0xe7d3fbc8,
    0x21e1cde6, 0xc33707d6, 0xf4d50d87, 0x455a14ed, 0xa9e3e905, 0xfcefa3f8, 0x676f02d9, 0x8d2a4c8a,
    0xfffa3942, 0x8771f681, 0x6d9d6122, 0xfde5380c, 0xa4beea44, 0x4bdecfa9, 0xf6bb4b60, 0xbebfbc70,
    0x289b7ec6, 0xeaa127fa, 0xd4ef3085, 0x04881d05, 0xd9d4d039, 0xe6db99e5, 0x1fa27cf8, 0xc4ac5665,
    0xf4292244, 0x432aff97, 0xab9423a7, 0xfc93a039, 0x655b59c3, 0x8f0ccc92, 0xffeff47d, 0x85845dd1,
    0x6fa87e4f, 0xfe2ce6e0, 0xa3014314, 0x4e0811a1, 0xf7537e82, 0xbd3af235, 0x2ad7d2bb, 0xeb86d391]"

definition rfc_shift :: "nat \<Rightarrow> nat" where
  "rfc_shift i =
     [[7, 12, 17, 22], [5, 9, 14, 20], [4, 11, 16, 23], [6, 10, 15, 21]] ! (i div 16) ! (i mod 4)"

definition rfc_word :: "nat \<Rightarrow> nat" where
  "rfc_word i =
     (if i < 16 then i else if i < 32 then (5 * i + 1) mod 16
      else if i < 48 then (3 * i + 5) mod 16 else (7 * i) mod 16)"

definition rfc_fun :: "nat \<Rightarrow> u32 \<Rightarrow> u32 \<Rightarrow> u32 \<Rightarrow> u32" where
  "rfc_fun i x y z =
     (if i < 16 then (x AND y) OR (NOT x AND z)
      else if i < 32 then (x AND z) OR (y AND NOT z)
      else if i < 48 then x XOR y XOR z
      else y XOR (x OR NOT z))"

definition rfc_new :: "u32 list \<Rightarrow> nat \<Rightarrow> u32 \<Rightarrow> u32 \<Rightarrow> u32 \<Rightarrow> u32 \<Rightarrow> u32" where
  "rfc_new X i a b c d =
     b + word_rotl (rfc_shift i) (a + rfc_fun i b c d + X ! rfc_word i + rfc_T ! i)"

definition rfc_step :: "u32 list \<Rightarrow> nat \<Rightarrow> md5_regs \<Rightarrow> md5_regs" where
  "rfc_step X i r = (case r of (a, b, c, d) \<Rightarrow> (d, rfc_new X i a b c d, b, c))"

definition rfc_add :: "md5_regs \<Rightarrow> md5_regs \<Rightarrow> md5_regs" where
  "rfc_add r q = (case r of (a, b, c, d) \<Rightarrow> case q of (a', b', c', d') \<Rightarrow> (a + a', b + b', c + c', d + d'))"

definition rfc_block :: "md5_regs \<Rightarrow> bytes \<Rightarrow> md5_regs" where
  "rfc_block r blk = rfc_add r (fold (rfc_step (words_of blk)) [0..<64] r)"

text \<open>All 64-byte blocks of a message in order, and what is left over.\<close>

function rfc_blocks :: "md5_regs \<Rightarrow> bytes \<Rightarrow> md5_regs" where
  "rfc_blocks r msg = (if 64 \<le> length msg then rfc_blocks (rfc_block r (take 64 msg)) (drop 64 msg) else r)"
  by pat_completeness auto
termination
  by (relation "measure (\<lambda>(r, msg). length msg)") auto

declare rfc_blocks.simps [simp del]

definition rfc_init :: md5_regs where
  "rfc_init = (0x67452301, 0xefcdab89, 0x98badcfe, 0x10325476)"

text \<open>A one bit, zeros up to 56 modulo 64 bytes, the bit length modulo \<open>2 ^ 64\<close>, low word first.\<close>

definition rfc_pad :: "bytes \<Rightarrow> bytes" where
  "rfc_pad msg = msg @ [0x80] @ replicate ((119 - length msg mod 64) mod 64) 0
     @ le32 (word_of_nat (8 * length msg)) @ le32 (word_of_nat (8 * length msg div 2 ^ 32))"

definition rfc_md5 :: "bytes \<Rightarrow> bytes" where
  "rfc_md5 msg =
     (case rfc_blocks rfc_init (rfc_pad msg) of (a, b, c, d) \<Rightarrow> le32 a @ le32 b @ le32 c @ le32 d)"

section \<open>The unrolled transform is the table-driven one\<close>

lemma rotl_shifts: "0 < s \<Longrightarrow> s < 32 \<Longrightarrow> push_bit s w OR drop_bit (32 - s) w = word_rotl s (w :: u32)"
proof (rule bit_word_eqI)
  fix n assume s: "0 < s" "s < 32" and n: "n < LENGTH(32)"
  have "(n + (32 - s)) mod 32 = (if s \<le> n then n - s else n + 32 - s)"
    using s n by (auto simp: mod_if)
  moreover have "n < 32" using n by simp
  moreover have "\<not> bit w (32 - s + n)" if "s \<le> n"
    using that s by (intro impossible_bit) simp
  ultimately show "bit (push_bit s w OR drop_bit (32 - s) w) n = bit (word_rotl s w) n"
    using s by (auto simp: bit_or_iff bit_push_bit_iff bit_drop_bit_eq bit_word_rotl_iff add.commute [of 32 n])
qed

lemma bool_funs:
  "(x AND y) OR (NOT x AND z) = F1 x y z" "(x AND z) OR (y AND NOT z) = F2 x y z"
  "x XOR y XOR z = F3 x y z" "y XOR (x OR NOT z) = F4 x y z"
  by (auto simp: F1_def F2_def F3_def F4_def intro!: bit_word_eqI simp: bit_simps)

definition code_fun :: "nat \<Rightarrow> u32 \<Rightarrow> u32 \<Rightarrow> u32 \<Rightarrow> u32" where
  "code_fun i = (if i < 16 then F1 else if i < 32 then F2 else if i < 48 then F3 else F4)"

lemma rfc_new_step:
  assumes "0 < rfc_shift i" "rfc_shift i < 32"
  shows "rfc_new X i a b c d = MD5STEP (code_fun i) a b c d (X ! rfc_word i + rfc_T ! i) (rfc_shift i)"
  using assms
  by (simp add: rfc_new_def MD5STEP_def rotl_shifts rfc_fun_def bool_funs code_fun_def add_ac)

lemma rfc_shift_range: "i < 64 \<Longrightarrow> 0 < rfc_shift i \<and> rfc_shift i < 32"
proof -
  assume "i < 64"
  moreover have "list_all (\<lambda>i. 0 < rfc_shift i \<and> rfc_shift i < 32) [0..<64]" by code_simp
  ultimately show ?thesis by (simp add: list_all_iff)
qed

text \<open>The simplifier treats \<open>let\<close> specially; sequencing under another name is left alone.\<close>

definition seq :: "'a \<Rightarrow> ('a \<Rightarrow> 'b) \<Rightarrow> 'b" where
  "seq x f = f x"

lemma Let_seq: "Let x f = seq x f"
  by (simp add: seq_def)

lemma rfc_add_seq: "rfc_add r (seq x f) = seq x (\<lambda>w. rfc_add r (f w))"
  by (simp add: seq_def)

lemma rfc_add_pair: "rfc_add (a, b, c, d) (a', b', c', d') = (a + a', b + b', c + c', d + d')"
  by (simp add: rfc_add_def)

lemma fold_step_seq:
  "fold (rfc_step X) (i # is) (a, b, c, d) =
   seq (rfc_new X i a b c d) (\<lambda>w. fold (rfc_step X) is (d, w, b, c))"
  by (simp add: rfc_step_def seq_def)

lemma upto_64: "[0..<64] = [0, 1, 2, 3, 4, 5, 6, 7, 8, 9, 10, 11, 12, 13, 14, 15, 16, 17, 18, 19, 20, 21,
  22, 23, 24, 25, 26, 27, 28, 29, 30, 31, 32, 33, 34, 35, 36, 37, 38, 39, 40, 41, 42, 43, 44, 45, 46, 47,
  48, 49, 50, 51, 52, 53, 54, 55, 56, 57, 58, 59, 60, 61, 62, 63]"
  by code_simp

lemma transform_is_rfc: "MD5Transform r (words_of blk) = rfc_block r blk"
proof (cases r)
  case (fields a b c d)
  note new = rfc_new_step [OF conjunct1 [OF rfc_shift_range] conjunct2 [OF rfc_shift_range]]
  show ?thesis
    unfolding fields rfc_block_def upto_64 fold_step_seq MD5Transform_def Let_seq
    by (simp add: new code_fun_def rfc_word_def rfc_shift_def rfc_T_def rfc_add_seq rfc_add_pair)
qed

section \<open>Blocks of a message\<close>

definition md_tail :: "bytes \<Rightarrow> bytes" where
  "md_tail msg = drop (64 * (length msg div 64)) msg"

lemma length_md_tail [simp]: "length (md_tail msg) = length msg mod 64"
  by (simp add: md_tail_def minus_mult_div_eq_mod)

lemma rfc_blocks_short: "length msg < 64 \<Longrightarrow> rfc_blocks r msg = r"
  by (simp add: rfc_blocks.simps)

lemma rfc_blocks_one: "length blk = 64 \<Longrightarrow> rfc_blocks r (blk @ msg) = rfc_blocks (rfc_block r blk) msg"
  by (subst rfc_blocks.simps) simp

lemma md_tail_step: "length blk = 64 \<Longrightarrow> md_tail (blk @ msg) = md_tail msg"
proof -
  assume "length blk = 64"
  moreover have "(64 + length msg) div 64 = Suc (length msg div 64)" by simp
  ultimately show ?thesis by (simp add: md_tail_def)
qed

lemma md_tail_short: "length msg < 64 \<Longrightarrow> md_tail msg = msg"
  by (simp add: md_tail_def)

lemma rfc_blocks_append:
  "rfc_blocks r (msg @ ext) = rfc_blocks (rfc_blocks r msg) (md_tail msg @ ext)
   \<and> md_tail (msg @ ext) = md_tail (md_tail msg @ ext)"
proof (induction "length msg" arbitrary: r msg rule: less_induct)
  case less
  show ?case
  proof (cases "64 \<le> length msg")
    case True
    have split: "msg @ ext = take 64 msg @ drop 64 msg @ ext"
      using append_take_drop_id [of 64 msg] append_assoc by metis
    have len: "length (take 64 msg) = 64" using True by simp
    have "rfc_blocks r (msg @ ext) = rfc_blocks (rfc_block r (take 64 msg)) (drop 64 msg @ ext)"
      unfolding split by (rule rfc_blocks_one [OF len])
    moreover have "rfc_blocks r msg = rfc_blocks (rfc_block r (take 64 msg)) (drop 64 msg)"
      using rfc_blocks_one [OF len, of r "drop 64 msg"] by simp
    moreover have "md_tail (msg @ ext) = md_tail (drop 64 msg @ ext)"
      unfolding split by (rule md_tail_step [OF len])
    moreover have "md_tail msg = md_tail (drop 64 msg)" using md_tail_step [OF len, of "drop 64 msg"] by simp
    ultimately show ?thesis using less [of "drop 64 msg"] True by simp
  qed (simp add: md_tail_short rfc_blocks_short)
qed

section \<open>The context of a message\<close>

definition md5_rel :: "md5_context \<Rightarrow> bytes \<Rightarrow> bool" where
  "md5_rel ctx msg \<longleftrightarrow> length (md_in ctx) = 64
     \<and> md_bits_lo ctx = word_of_nat (8 * length msg) \<and> md_bits_hi ctx = word_of_nat (8 * length msg div 2 ^ 32)
     \<and> md_buf ctx = rfc_blocks rfc_init msg \<and> take (length msg mod 64) (md_in ctx) = md_tail msg"

lemma init_rel: "length (md_in ctx) = 64 \<Longrightarrow> md5_rel (MD5Init ctx) []"
  by (simp add: md5_rel_def MD5Init_def rfc_blocks_short rfc_init_def md_tail_def)

lemma chunks_rel:
  "length (md_in ctx) = 64 \<Longrightarrow> md5_chunks ctx buf = (ctx', rest) \<Longrightarrow>
   md_buf ctx' = rfc_blocks (md_buf ctx) buf \<and> rest = md_tail buf \<and> length (md_in ctx') = 64
   \<and> md_bits_lo ctx' = md_bits_lo ctx \<and> md_bits_hi ctx' = md_bits_hi ctx"
proof (induction "length buf" arbitrary: ctx buf rule: less_induct)
  case less
  show ?case
  proof (cases "64 \<le> length buf")
    case True
    define c1 where "c1 = ctx\<lparr>md_in := blit (md_in ctx) 0 (take 64 buf),
      md_buf := MD5Transform (md_buf ctx) (words_of (blit (md_in ctx) 0 (take 64 buf)))\<rparr>"
    have b: "blit (md_in ctx) 0 (take 64 buf) = take 64 buf" using True less.prems(1) by (simp add: blit_def)
    have step: "md5_chunks ctx buf = md5_chunks c1 (drop 64 buf)"
      using True by (subst md5_chunks.simps) (simp add: c1_def Let_def)
    have c1: "length (md_in c1) = 64" "md_buf c1 = rfc_block (md_buf ctx) (take 64 buf)"
      "md_bits_lo c1 = md_bits_lo ctx" "md_bits_hi c1 = md_bits_hi ctx"
      using True b by (simp_all add: c1_def transform_is_rfc)
    have split: "length (take 64 buf) = 64" using True by simp
    have "rfc_blocks (md_buf ctx) buf = rfc_blocks (md_buf c1) (drop 64 buf)" "md_tail buf = md_tail (drop 64 buf)"
      using rfc_blocks_one [OF split, of "md_buf ctx" "drop 64 buf"] md_tail_step [OF split, of "drop 64 buf"] c1(2) by simp_all
    then show ?thesis using less.hyps [of "drop 64 buf" c1] True c1 less.prems(2) step by simp
  next
    case False
    then show ?thesis using less.prems by (subst (asm) md5_chunks.simps) (auto simp: rfc_blocks_short md_tail_short)
  qed
qed

text \<open>The 64-bit bit count in two words.\<close>

lemma bits_lo: "(word_of_nat (8 * n) :: u32) + push_bit 3 (word_of_nat d) = word_of_nat (8 * (n + d))"
  by (simp add: push_bit_eq_mult algebra_simps)

lemma unat_word_of_nat32: "unat (word_of_nat k :: u32) = k mod 2 ^ 32"
  by (simp add: unsigned_of_nat take_bit_eq_mod)

lemma div_add_carry:
  fixes a b c :: nat
  assumes "0 < c"
  shows "(a + b) div c = a div c + b div c + (if (a + b) mod c < a mod c then 1 else 0)"
proof -
  have m: "(a + b) mod c = (a mod c + b mod c) mod c" by (simp add: mod_add_eq)
  have l: "a mod c < c" "b mod c < c" using assms by simp_all
  show ?thesis
  proof (cases "a mod c + b mod c < c")
    case True
    then show ?thesis using m by (simp add: div_add1_eq [of a b c])
  next
    case False
    then have "(a mod c + b mod c) mod c = a mod c + b mod c - c" "(a mod c + b mod c) div c = 1"
      using l add_strict_mono [OF l] by (simp_all add: le_mod_geq le_div_geq less_diff_conv2)
    then show ?thesis using m l False by (simp add: div_add1_eq [of a b c])
  qed
qed

lemma bits_carry:
  fixes n d :: nat
  assumes "d < 2 ^ 32"
  defines "t \<equiv> word_of_nat (8 * n) :: u32"
  shows "word_of_nat (8 * n div 2 ^ 32) + (if t + push_bit 3 (word_of_nat d) < t then 1 else 0)
      + drop_bit 29 (word_of_nat d) = (word_of_nat (8 * (n + d) div 2 ^ 32) :: u32)"
proof -
  define a where "a = 8 * n"
  define b where "b = 8 * d"
  have ut: "unat t = a mod 2 ^ 32" unfolding t_def a_def by (rule unat_word_of_nat32)
  have us: "unat (t + push_bit 3 (word_of_nat d)) = (a + b) mod 2 ^ 32"
    unfolding t_def bits_lo unat_word_of_nat32 a_def b_def distrib_left ..
  have carry: "t + push_bit 3 (word_of_nat d) < t \<longleftrightarrow> (a + b) mod 2 ^ 32 < a mod 2 ^ 32"
    by (simp add: word_less_nat_alt ut us)
  have dd: "drop_bit 29 (word_of_nat d :: u32) = word_of_nat (b div 2 ^ 32)"
  proof -
    have "unat (drop_bit 29 (word_of_nat d :: u32)) = d div 2 ^ 29"
      using assms(1) by (simp add: unsigned_drop_bit_eq unsigned_of_nat drop_bit_eq_div unat_div_distrib take_bit_nat_eq_self)
    moreover have "b div 2 ^ 32 = d div 2 ^ 29" by (simp add: b_def div_mult2_eq [of _ 8 "2 ^ 29", simplified])
    moreover have "d div 2 ^ 29 < 2 ^ 32" using assms(1) div_le_dividend le_less_trans by blast
    ultimately show ?thesis by (simp only: word_unat_eq_iff unat_word_of_nat32 mod_less)
  qed
  have "(a + b) div 2 ^ 32 = a div 2 ^ 32 + b div 2 ^ 32 + (if (a + b) mod 2 ^ 32 < a mod 2 ^ 32 then 1 else 0)"
    by (rule div_add_carry) simp
  then have "(word_of_nat ((a + b) div 2 ^ 32) :: u32) =
      word_of_nat (a div 2 ^ 32) + word_of_nat (b div 2 ^ 32) + (if (a + b) mod 2 ^ 32 < a mod 2 ^ 32 then 1 else 0)"
    by simp
  then show ?thesis using carry dd by (simp add: a_def b_def distrib_left add_ac)
qed

lemma bits_count: "unat (drop_bit 3 (word_of_nat (8 * n) :: u32) AND 0x3f) = n mod 64"
proof -
  have m: "(0x3f :: u32) = mask 6" by (simp add: mask_eq_exp_minus_1)
  have "unat (drop_bit 3 w AND 0x3f) = unat w div 8 mod 64" for w :: u32
    unfolding m take_bit_eq_mask [symmetric]
    by (simp add: unsigned_take_bit_eq unsigned_drop_bit_eq take_bit_eq_mod drop_bit_eq_div unat_div_distrib unat_mod_distrib)
  then have "unat (drop_bit 3 (word_of_nat (8 * n) :: u32) AND 0x3f) = (8 * n mod 2 ^ 32) div 8 mod 64"
    by (simp only: unat_word_of_nat32)
  also have "8 * n mod 2 ^ 32 = 8 * (n mod 2 ^ 29)" using mult_mod_right [of 8 n "2 ^ 29"] by simp
  also have "8 * (n mod 2 ^ 29) div 8 mod 64 = n mod 64" by (simp add: mod_mod_cancel)
  finally show ?thesis .
qed

section \<open>Updates and the digest\<close>

lemma update_rel:
  assumes rel: "md5_rel ctx msg" and d: "length data < 2 ^ 32"
  shows "md5_rel (MD5Update ctx data) (msg @ data)"
proof -
  define t where "t = length msg mod 64"
  define lo where "lo = (word_of_nat (8 * length (msg @ data)) :: u32)"
  define hi where "hi = (word_of_nat (8 * length (msg @ data) div 2 ^ 32) :: u32)"
  define c where "c = ctx\<lparr>md_bits_lo := lo, md_bits_hi := hi\<rparr>"
  have tail: "take t (md_in ctx) = md_tail msg" "length (md_in ctx) = 64" "md_buf ctx = rfc_blocks rfc_init msg"
    using rel by (simp_all add: md5_rel_def t_def)
  have t64: "t < 64" by (simp add: t_def)
  note app = rfc_blocks_append [of rfc_init msg data]
  have lo: "md_bits_lo ctx + push_bit 3 (word_of_nat (length data)) = lo"
    using rel bits_lo [of "length msg" "length data"] by (simp add: md5_rel_def lo_def)
  have hi: "(md_bits_hi ctx + (if lo < md_bits_lo ctx then 1 else 0)) + drop_bit 29 (word_of_nat (length data)) = hi"
    using rel bits_carry [OF d, of "length msg"] lo by (simp add: md5_rel_def hi_def bits_lo)
  have cnt: "unat (drop_bit 3 (md_bits_lo ctx) AND 0x3f) = t"
    using rel bits_count [of "length msg"] by (simp add: md5_rel_def t_def)
  have fields: "md_bits_lo c = lo" "md_bits_hi c = hi" "md_in c = md_in ctx" "md_buf c = md_buf ctx"
    by (simp_all add: c_def)
  have upd: "MD5Update ctx data =
      (if t \<noteq> 0 \<and> length data < 64 - t then c\<lparr>md_in := blit (md_in c) t data\<rparr>
       else let n = (if t \<noteq> 0 then 64 - t else 0);
                b = blit (md_in c) t (take n data);
                c1 = (if t \<noteq> 0 then c\<lparr>md_in := b, md_buf := MD5Transform (md_buf c) (words_of b)\<rparr> else c)
            in case md5_chunks c1 (drop n data) of (c2, rest) \<Rightarrow> c2\<lparr>md_in := blit (md_in c2) 0 rest\<rparr>)"
    unfolding MD5Update_def Let_def cnt [unfolded Let_def] using lo hi by (auto simp: c_def)
  consider (short) "t \<noteq> 0" "length data < 64 - t" | (fill) "t \<noteq> 0" "64 - t \<le> length data" | (aligned) "t = 0"
    by linarith
  then show ?thesis
  proof cases
    case short
    have l: "length (md_tail msg @ data) < 64" using short(2) by (simp add: t_def)
    then have m: "length (msg @ data) mod 64 = t + length data" 
      unfolding t_def length_append by (metis length_append length_md_tail mod_add_left_eq mod_less)
    have "take (t + length data) (blit (md_in ctx) t data) = md_tail msg @ data"
      using tail(1,2) short unfolding t_def by (simp add: blit_def)
    then show ?thesis using short upd l m app tail
      by (simp add: md5_rel_def fields lo_def hi_def rfc_blocks_short md_tail_short)
  next
    case fill
    define b where "b = blit (md_in ctx) t (take (64 - t) data)"
    define c1 where "c1 = c\<lparr>md_in := b, md_buf := MD5Transform (md_buf c) (words_of b)\<rparr>"
    obtain c2 rest where c2: "md5_chunks c1 (drop (64 - t) data) = (c2, rest)" by fastforce
    have b: "b = md_tail msg @ take (64 - t) data" "length b = 64"
      using tail(1,2) fill t64 unfolding t_def b_def by (simp_all add: blit_def)
    have r: "md_buf c2 = rfc_blocks (md_buf c1) (drop (64 - t) data) \<and> rest = md_tail (drop (64 - t) data)
        \<and> length (md_in c2) = 64 \<and> md_bits_lo c2 = lo \<and> md_bits_hi c2 = hi"
      using chunks_rel [OF _ c2] b(2) by (simp add: c1_def fields)
    have split: "md_tail msg @ data = b @ drop (64 - t) data" by (simp add: b(1))
    have "md_buf c1 = rfc_block (rfc_blocks rfc_init msg) b" by (simp add: c1_def transform_is_rfc fields tail)
    then have "md_buf c2 = rfc_blocks rfc_init (msg @ data)" "rest = md_tail (msg @ data)"
      using r app rfc_blocks_one [OF b(2)] md_tail_step [OF b(2)] by (simp_all add: split)
    moreover have "length rest = length (msg @ data) mod 64" using calculation(2) length_md_tail by metis
    moreover have "MD5Update ctx data = c2\<lparr>md_in := blit (md_in c2) 0 rest\<rparr>"
      using upd fill c2 by (simp add: c1_def b_def fields Let_def)
    ultimately show ?thesis using r by (simp add: md5_rel_def lo_def hi_def blit_def)
  next
    case aligned
    obtain c2 rest where c2: "md5_chunks c data = (c2, rest)" by fastforce
    have e: "md_tail msg = []" using aligned length_md_tail [of msg] unfolding t_def by (metis length_0_conv)
    have r: "md_buf c2 = rfc_blocks (md_buf c) data \<and> rest = md_tail data
        \<and> length (md_in c2) = 64 \<and> md_bits_lo c2 = lo \<and> md_bits_hi c2 = hi"
      using chunks_rel [OF _ c2] tail(2) by (simp add: fields)
    then have "md_buf c2 = rfc_blocks rfc_init (msg @ data)" "rest = md_tail (msg @ data)"
      using app e tail(3) by (simp_all add: fields)
    moreover have "length rest = length (msg @ data) mod 64" using calculation(2) length_md_tail by metis
    moreover have "MD5Update ctx data = c2\<lparr>md_in := blit (md_in c2) 0 rest\<rparr>"
      using upd aligned c2 by (simp add: Let_def)
    ultimately show ?thesis using r by (simp add: md5_rel_def lo_def hi_def blit_def)
  qed
qed

lemma blit_end: "off \<le> length buf \<Longrightarrow> length buf \<le> off + length data \<Longrightarrow> blit buf off data = take off buf @ data"
  by (simp add: blit_def)

lemma final_rel:
  assumes "md5_rel ctx msg"
  shows "fst (MD5Final ctx) = rfc_md5 msg"
proof -
  define t where "t = length msg mod 64"
  define lens where "lens = le32 (md_bits_lo ctx) @ le32 (md_bits_hi ctx)"
  have tail: "take t (md_in ctx) = md_tail msg" "length (md_in ctx) = 64" "md_buf ctx = rfc_blocks rfc_init msg"
    and lens: "lens = le32 (word_of_nat (8 * length msg)) @ le32 (word_of_nat (8 * length msg div 2 ^ 32))"
    using assms by (simp_all add: md5_rel_def t_def lens_def)
  have t64: "t < 64" and tl: "length (md_tail msg) = t" by (simp_all add: t_def)
  have cnt: "unat (drop_bit 3 (md_bits_lo ctx) AND 0x3f) = t"
    using assms bits_count [of "length msg"] by (simp add: md5_rel_def t_def)
  have final: "fst (MD5Final ctx) = (case r of (a, b, c, d) \<Rightarrow> le32 a @ le32 b @ le32 c @ le32 d)"
    if "r = rfc_blocks (md_buf ctx) (md_tail msg @ [0x80] @ replicate ((119 - t) mod 64) 0 @ lens)" for r
  proof -
    define b0 where "b0 = blit (md_in ctx) t [0x80]"
    have b0: "take (t + 1) b0 = md_tail msg @ [0x80]" "length b0 = 64"
      using tail t64 unfolding t_def b0_def by (simp_all add: blit_def)
    show ?thesis
    proof (cases "63 - t < 8")
      case True
      define b1 where "b1 = blit b0 (t + 1) (replicate (63 - t) 0)"
      define b2 where "b2 = blit (blit b1 0 (replicate 56 0)) 56 lens"
      have b1: "b1 = md_tail msg @ [0x80] @ replicate (63 - t) 0"
        using b0 t64 by (simp add: b1_def blit_end)
      have l1: "length b1 = 64" using t64 tl by (simp add: b1)
      have b2: "b2 = replicate 56 0 @ lens"
        using l1 by (simp add: b2_def lens_def blit_def)
      have z: "(119 - t) mod 64 = (63 - t) + 56" using True t64 by simp
      have "md_tail msg @ [0x80] @ replicate ((119 - t) mod 64) 0 @ lens = b1 @ b2 @ []"
        unfolding z b1 b2 replicate_add by simp
      moreover have l2: "length b2 = 64" by (simp add: b2 lens_def)
      ultimately have "r = rfc_block (rfc_block (md_buf ctx) b1) b2"
        unfolding that rfc_blocks_one [OF l1] rfc_blocks_one [OF l2]
        by (simp only: rfc_blocks_one [OF l1] rfc_blocks_one [OF l2]) (simp add: rfc_blocks_short)
      then show ?thesis using True
        by (simp add: MD5Final_def cnt Let_def b0_def [symmetric] b1_def lens_def [symmetric]
            b2_def transform_is_rfc split: prod.splits)
    next
      case False
      define b1 where "b1 = blit (blit b0 (t + 1) (replicate (55 - t) 0)) 56 lens"
      have b1: "b1 = md_tail msg @ [0x80] @ replicate (55 - t) 0 @ lens"
        using b0 False tl Suc_diff_le [of t 55] by (simp add: b1_def blit_def lens_def)
      have l1: "length b1 = 64" using False tl by (simp add: b1 lens_def)
      have "(119 - t) mod 64 = 55 - t" using False t64 by (simp add: mod_if)
      then have "md_tail msg @ [0x80] @ replicate ((119 - t) mod 64) 0 @ lens = b1 @ []"
        by (simp add: b1)
      then have "r = rfc_block (md_buf ctx) b1"
        using that rfc_blocks_one [OF l1, of _ "[]"] by (simp add: rfc_blocks_short)
      then show ?thesis using False
        by (simp add: MD5Final_def cnt Let_def b0_def [symmetric] lens_def [symmetric]
            b1_def transform_is_rfc split: prod.splits)
    qed
  qed
  show ?thesis
    using final [OF refl] rfc_blocks_append [of rfc_init msg] tail(3) lens
    by (simp add: rfc_md5_def rfc_pad_def t_def)
qed

lemma fold_update_rel:
  "md5_rel ctx msg \<Longrightarrow> \<forall>c \<in> set chunks. length c < 2 ^ 32 \<Longrightarrow>
   md5_rel (fold (\<lambda>c ctx. MD5Update ctx c) chunks ctx) (msg @ concat chunks)"
proof (induction chunks arbitrary: ctx msg)
  case (Cons c chunks)
  then show ?case using Cons.IH [OF update_rel [OF Cons.prems(1), of c]] by simp
qed simp

section \<open>Properties\<close>

text \<open>The unrolled transform of the code, with its optimised Boolean functions, literal
  constants and register renaming, computes the block function of RFC 1321 on every block and
  every register state.\<close>

theorem transform_equals_rfc: "MD5Transform r (words_of blk) = rfc_block r blk"
  by (rule transform_is_rfc)

text \<open>C10: Digesting in chunks. Whatever the sizes of the chunks handed to \<open>MD5Update\<close>, the digest
  is the RFC 1321 digest of the concatenated message, also across the 32-bit carry of the bit
  count and for every padding case.\<close>

theorem md5_streaming_correct:
  assumes "length (md_in ctx) = 64" and "\<forall>c \<in> set chunks. length c < 2 ^ 32"
  shows "fst (MD5Final (fold (\<lambda>c ctx. MD5Update ctx c) chunks (MD5Init ctx))) = rfc_md5 (concat chunks)"
  using final_rel [OF fold_update_rel [OF init_rel [OF assms(1)] assms(2)]] by simp

theorem md5_streaming_correct_witness:
  "fst (MD5Final (fold (\<lambda>c ctx. MD5Update ctx c) [[0x61], replicate 70 0x62, [], [0x63]]
     (MD5Init \<lparr>md_buf = (0, 0, 0, 0), md_bits_lo = 0, md_bits_hi = 0, md_in = replicate 64 0\<rparr>)))
   = rfc_md5 (concat [[0x61], replicate 70 0x62, [], [0x63]])"
  by (rule md5_streaming_correct) simp_all

end
