(* ===== verification/Loader.thy ===== *)
theory Loader
  imports Targets Md5 Fl
begin

text \<open>
  managed_components/espressif__esp-serial-flasher/src/esp_loader.c: connecting to a chip, sizing its
  flash, writing an image and verifying it, with the MD5 support compiled in. The file's statics
  extend the state of the protocol. Undefined behaviour (a register access before a chip was
  detected, a block size of zero, a failed assertion, reading past a buffer) is the result
  \<open>None\<close>.
\<close>

section \<open>State\<close>

record 's loader = "'s proto" +
  s_flash_write_size :: u32
  s_reg :: "target_registers option"
  s_target :: target_chip
  s_md5_context :: md5_context
  s_start_address :: u32
  s_image_size :: u32

definition DEFAULT_FLASH_TIMEOUT :: u32 where "DEFAULT_FLASH_TIMEOUT = 3000"
definition ERASE_REGION_TIMEOUT_PER_MB :: u32 where "ERASE_REGION_TIMEOUT_PER_MB = 10000"
definition LOAD_RAM_TIMEOUT_PER_MB :: u32 where "LOAD_RAM_TIMEOUT_PER_MB = 2000000"
definition PADDING_PATTERN :: u8 where "PADDING_PATTERN = 0xFF"
definition SPI_FLASH_READ_ID :: u32 where "SPI_FLASH_READ_ID = 0x9F"
definition MD5_TIMEOUT_PER_MB :: u32 where "MD5_TIMEOUT_PER_MB = 800"

text \<open>The statics as the program starts.\<close>

definition loader_init :: "'s \<Rightarrow> 's loader" where
  "loader_init s = \<lparr>port_state = s, s_sequence_number = 0, s_flash_write_size = 0, s_reg = None,
     s_target = ESP_UNKNOWN_CHIP,
     s_md5_context = \<lparr>md_buf = (0, 0, 0, 0), md_bits_lo = 0, md_bits_hi = 0, md_in = replicate 64 0\<rparr>,
     s_start_address = 0, s_image_size = 0\<rparr>"

definition undefined_behaviour :: "('a, 's) op" where
  "undefined_behaviour s = None"

text \<open>Going on whether or not a call succeeded.\<close>

definition attempt :: "('a, 's) op \<Rightarrow> (esp_loader_error + 'a \<Rightarrow> ('b, 's) op) \<Rightarrow> ('b, 's) op" where
  "attempt m f s = (case m s of None \<Rightarrow> None | Some (r, s') \<Rightarrow> f r s')"

definition get_st :: "('s \<Rightarrow> 'a) \<Rightarrow> ('a, 's) op" where
  "get_st f s = Some (Inr (f s), s)"

text \<open>A field of \<open>*s_reg\<close>.\<close>

definition reg :: "(target_registers \<Rightarrow> u32) \<Rightarrow> (u32, 's loader) op" where
  "reg f st = (case s_reg st of None \<Rightarrow> None | Some r \<Rightarrow> Some (Inr (f r), st))"

definition init_md5 :: "u32 \<Rightarrow> u32 \<Rightarrow> 's loader \<Rightarrow> 's loader" where
  "init_md5 address sz st =
     st\<lparr>s_start_address := address, s_image_size := sz, s_md5_context := MD5Init (s_md5_context st)\<rparr>"

definition md5_update :: "bytes \<Rightarrow> 's loader \<Rightarrow> 's loader" where
  "md5_update data st = st\<lparr>s_md5_context := MD5Update (s_md5_context st) data\<rparr>"

definition timeout_per_mb :: "u32 \<Rightarrow> u32 \<Rightarrow> u32" where
  "timeout_per_mb size_bytes time_per_mb =
     (let timeout = word_of_int (fl_trunc (dmul (d_of_int (uint time_per_mb))
                      (ddiv (d_of_int (uint size_bytes)) (d_of_int 1000000))))
      in if timeout > DEFAULT_FLASH_TIMEOUT then timeout else DEFAULT_FLASH_TIMEOUT)"

section \<open>Connecting\<close>

text \<open>
  The \<open>do ... while\<close> loop of \<open>esp_loader_connect\<close>; \<open>trials\<close> is tested after it was
  decremented, so it should start positive.
\<close>

partial_function (option) sync_loop :: "'s port \<Rightarrow> u32 \<Rightarrow> int \<Rightarrow> (unit, 's loader) op" where
  "sync_loop p sync_timeout trials st =
     (case and_then (start_timer p sync_timeout) (\<lambda>_. loader_sync_cmd p) st of
        None \<Rightarrow> None
      | Some (Inr _, st') \<Rightarrow> Some (Inr (), st')
      | Some (Inl e, st') \<Rightarrow>
          (if e = ESP_LOADER_ERROR_TIMEOUT then
             if trials - 1 = 0 then Some (Inl ESP_LOADER_ERROR_TIMEOUT, st')
             else sync_loop p sync_timeout (trials - 1)
                    (st'\<lparr>port_state := port_delay_ms p 100 (port_state st')\<rparr>)
           else Some (Inl e, st')))"

definition esp_loader_connect :: "'s port \<Rightarrow> u32 \<Rightarrow> int \<Rightarrow> (unit, 's loader) op" where
  "esp_loader_connect p sync_timeout trials =
     and_then (on_port (act (port_enter_bootloader p))) (\<lambda>_.
     and_then (sync_loop p sync_timeout trials) (\<lambda>_.
     and_then (loader_detect_chip p) (\<lambda>chip.
     and_then (act (\<lambda>st. st\<lparr>s_target := chip, s_reg := get_esp_target_data chip\<rparr>)) (\<lambda>_.
       if chip = ESP8266_CHIP then
         loader_flash_begin_cmd p 0 0 0 0 (chip_index chip \<noteq> 0)
       else
         and_then (loader_read_spi_config p chip) (\<lambda>spi_config.
         and_then (start_timer p DEFAULT_TIMEOUT) (\<lambda>_. loader_spi_attach_cmd p spi_config))))))"

definition esp_loader_get_target :: "'s loader \<Rightarrow> target_chip" where
  "esp_loader_get_target st = s_target st"

section \<open>SPI flash commands\<close>

definition spi_set_data_lengths :: "'s port \<Rightarrow> nat \<Rightarrow> nat \<Rightarrow> (unit, 's loader) op" where
  "spi_set_data_lengths p mosi_bits miso_bits =
     and_then (if mosi_bits > 0 then and_then (reg reg_mosi_dlen) (\<lambda>a.
                 esp_loader_write_register p a (word_of_nat (mosi_bits - 1))) else ret ()) (\<lambda>_.
     if miso_bits > 0 then and_then (reg reg_miso_dlen) (\<lambda>a.
       esp_loader_write_register p a (word_of_nat (miso_bits - 1))) else ret ())"

definition spi_set_data_lengths_8266 :: "'s port \<Rightarrow> nat \<Rightarrow> nat \<Rightarrow> (unit, 's loader) op" where
  "spi_set_data_lengths_8266 p mosi_bits miso_bits =
     (let mosi_mask = (if mosi_bits = 0 then 0 else word_of_nat (mosi_bits - 1));
          miso_mask = (if miso_bits = 0 then 0 else word_of_nat (miso_bits - 1))
      in and_then (reg reg_usr1) (\<lambda>a.
           esp_loader_write_register p a (push_bit 8 miso_mask OR push_bit 17 mosi_mask)))"

definition SPI_USR_CMD :: u32 where "SPI_USR_CMD = push_bit 31 1"
definition SPI_USR_MISO :: u32 where "SPI_USR_MISO = push_bit 28 1"
definition SPI_USR_MOSI :: u32 where "SPI_USR_MOSI = push_bit 27 1"
definition SPI_CMD_USR :: u32 where "SPI_CMD_USR = push_bit 18 1"

fun spi_write_words :: "'s port \<Rightarrow> u32 \<Rightarrow> u32 list \<Rightarrow> (unit, 's loader) op" where
  "spi_write_words p addr [] = ret ()"
| "spi_write_words p addr (w # ws) =
     and_then (esp_loader_write_register p addr w) (\<lambda>_. spi_write_words p (addr + 4) ws)"

text \<open>
  The loop \<open>while (trials--)\<close>: \<open>n\<close> polls left, the result is \<open>trials\<close> after the loop. When
  no poll found the bit clear, the last decrement wraps.
\<close>

fun spi_wait :: "(u32, 's) op \<Rightarrow> nat \<Rightarrow> (u32, 's) op" where
  "spi_wait rd 0 = ret (0 - 1)"
| "spi_wait rd (Suc n) =
     and_then rd (\<lambda>cmd_reg.
       if cmd_reg AND SPI_CMD_USR = 0 then ret (word_of_nat n) else spi_wait rd n)"

definition spi_flash_command ::
  "'s port \<Rightarrow> u32 \<Rightarrow> u32 list \<Rightarrow> nat \<Rightarrow> nat \<Rightarrow> (u32, 's loader) op" where
  "spi_flash_command p cmd data_tx tx_size rx_size =
     (if rx_size > 32 \<or> tx_size > 64 \<or> length data_tx < (tx_size + 31) div 32 then undefined_behaviour
      else
      and_then (reg reg_usr) (\<lambda>usr.
      and_then (esp_loader_read_register p usr) (\<lambda>old_spi_usr.
      and_then (reg reg_usr2) (\<lambda>usr2.
      and_then (esp_loader_read_register p usr2) (\<lambda>old_spi_usr2.
      and_then (get_st s_target) (\<lambda>target.
      and_then (if target = ESP8266_CHIP then spi_set_data_lengths_8266 p tx_size rx_size
                else spi_set_data_lengths p tx_size rx_size) (\<lambda>_.
      let usr_reg_2 = push_bit 28 7 OR cmd;
          usr_reg = SPI_USR_CMD OR (if rx_size > 0 then SPI_USR_MISO else 0)
                      OR (if tx_size > 0 then SPI_USR_MOSI else 0)
      in
      and_then (esp_loader_write_register p usr usr_reg) (\<lambda>_.
      and_then (esp_loader_write_register p usr2 usr_reg_2) (\<lambda>_.
      and_then (reg reg_w0) (\<lambda>w0.
      and_then (if tx_size = 0 then esp_loader_write_register p w0 0
                else spi_write_words p w0 (take ((tx_size + 31) div 32) data_tx)) (\<lambda>_.
      and_then (reg reg_cmd) (\<lambda>cmd_addr.
      and_then (esp_loader_write_register p cmd_addr SPI_CMD_USR) (\<lambda>_.
      and_then (spi_wait (esp_loader_read_register p cmd_addr) 10) (\<lambda>trials.
      if trials = 0 then fail ESP_LOADER_ERROR_TIMEOUT
      else
        and_then (esp_loader_read_register p w0) (\<lambda>data_rx.
        and_then (esp_loader_write_register p usr old_spi_usr) (\<lambda>_.
        and_then (esp_loader_write_register p usr2 old_spi_usr2) (\<lambda>_.
        ret data_rx)))))))))))))))))"

definition flash_size_of_id :: "u32 \<Rightarrow> esp_loader_error + u32" where
  "flash_size_of_id flash_id =
     (let size_id = drop_bit 16 flash_id in
      if size_id < 0x12 \<or> size_id > 0x18 then Inl ESP_LOADER_ERROR_UNSUPPORTED_CHIP
      else Inr (push_bit (unat size_id) 1))"

definition detect_flash_size :: "'s port \<Rightarrow> (u32, 's loader) op" where
  "detect_flash_size p =
     and_then (spi_flash_command p SPI_FLASH_READ_ID [] 0 24) (\<lambda>flash_id.
       case flash_size_of_id flash_id of Inl e \<Rightarrow> fail e | Inr sz \<Rightarrow> ret sz)"

section \<open>Flashing\<close>

definition calc_erase_size :: "target_chip \<Rightarrow> u32 \<Rightarrow> u32 \<Rightarrow> u32" where
  "calc_erase_size target offset image_size =
     (if target \<noteq> ESP8266_CHIP then image_size
      else
        let sectors_per_block = 16;
            sector_size = 4096;
            num_sectors = (image_size + sector_size - 1) div sector_size;
            start_sector = offset div sector_size;
            head_sectors = sectors_per_block - start_sector mod sectors_per_block
        in if num_sectors \<le> head_sectors then ((num_sectors + 1) div 2) * sector_size
           else (num_sectors - head_sectors) * sector_size)"

definition esp_loader_flash_start :: "'s port \<Rightarrow> u32 \<Rightarrow> u32 \<Rightarrow> u32 \<Rightarrow> (unit, 's loader) op" where
  "esp_loader_flash_start p offset image_size block_size =
     and_then (act (\<lambda>st. st\<lparr>s_flash_write_size := block_size\<rparr>)) (\<lambda>_.
     and_then
       (attempt (detect_flash_size p) (\<lambda>r. case r of
           Inr flash_size \<Rightarrow>
             if image_size > flash_size then fail ESP_LOADER_ERROR_IMAGE_SIZE
             else and_then (start_timer p DEFAULT_TIMEOUT) (\<lambda>_. loader_spi_parameters p flash_size)
         | Inl _ \<Rightarrow> on_port (act (port_debug_print p
             (cstr ''Flash size detection failed, falling back to default''))))) (\<lambda>_.
     and_then (act (init_md5 offset image_size)) (\<lambda>_.
     and_then (get_st s_target) (\<lambda>target.
       let encryption_in_cmd = encryption_in_begin_flash_cmd target;
           er = calc_erase_size target offset image_size
       in if block_size = 0 then undefined_behaviour
          else
            let blocks_to_write = (image_size + block_size - 1) div block_size
            in and_then (start_timer p (timeout_per_mb er ERASE_REGION_TIMEOUT_PER_MB)) (\<lambda>_.
                 loader_flash_begin_cmd p offset er block_size blocks_to_write encryption_in_cmd)))))"

text \<open>
  The caller's buffer holds the payload and has room for a whole block. Rounding the payload up to
  words must not leave the buffer.
\<close>

definition esp_loader_flash_write :: "'s port \<Rightarrow> bytes \<Rightarrow> (unit, 's loader) op" where
  "esp_loader_flash_write p payload st =
     (let n = length payload; block = unat (s_flash_write_size st) in
      if n > block then fail ESP_LOADER_ERROR_INVALID_PARAM st
      else
        let data = payload @ replicate (block - n) PADDING_PATTERN;
            digested = (n + 3) div 4 * 4
        in if digested > length data then undefined_behaviour st
           else
             and_then (act (md5_update (take digested data))) (\<lambda>_.
             and_then (start_timer p DEFAULT_TIMEOUT) (\<lambda>_.
             loader_flash_data_cmd p data)) st)"

definition esp_loader_flash_finish :: "'s port \<Rightarrow> bool \<Rightarrow> (unit, 's loader) op" where
  "esp_loader_flash_finish p reboot =
     and_then (start_timer p DEFAULT_TIMEOUT) (\<lambda>_. loader_flash_end_cmd p (\<not> reboot))"

section \<open>Loading into RAM\<close>

text \<open>\<open>ROUNDUP\<close>, computed on \<open>int\<close>.\<close>

definition ROUNDUP :: "u32 \<Rightarrow> u32 \<Rightarrow> int" where
  "ROUNDUP a b = (to_i32 (uint a) + to_i32 (uint b) - 1) sdiv to_i32 (uint b)"

definition esp_loader_mem_start :: "'s port \<Rightarrow> u32 \<Rightarrow> u32 \<Rightarrow> u32 \<Rightarrow> (unit, 's loader) op" where
  "esp_loader_mem_start p offset sz block_size =
     (if block_size = 0 then undefined_behaviour
      else
        and_then (start_timer p (timeout_per_mb sz LOAD_RAM_TIMEOUT_PER_MB)) (\<lambda>_.
        loader_mem_begin_cmd p offset sz (word_of_int (ROUNDUP sz block_size)) block_size))"

definition esp_loader_mem_write :: "'s port \<Rightarrow> bytes \<Rightarrow> (unit, 's loader) op" where
  "esp_loader_mem_write p payload =
     and_then (start_timer p (timeout_per_mb (word_of_nat (length payload)) LOAD_RAM_TIMEOUT_PER_MB))
       (\<lambda>_. loader_mem_data_cmd p payload)"

definition esp_loader_mem_finish :: "'s port \<Rightarrow> u32 \<Rightarrow> (unit, 's loader) op" where
  "esp_loader_mem_finish p entrypoint =
     and_then (start_timer p DEFAULT_TIMEOUT) (\<lambda>_. loader_mem_end_cmd p entrypoint)"

section \<open>Line rate and verification\<close>

definition esp_loader_change_transmission_rate :: "'s port \<Rightarrow> u32 \<Rightarrow> (unit, 's loader) op" where
  "esp_loader_change_transmission_rate p rate =
     and_then (get_st s_target) (\<lambda>target.
       if target = ESP8266_CHIP then fail ESP_LOADER_ERROR_UNSUPPORTED_FUNC
       else and_then (start_timer p DEFAULT_TIMEOUT) (\<lambda>_. loader_change_baudrate_cmd p rate))"

definition dec_to_hex :: bytes where
  "dec_to_hex = cstr ''0123456789abcdef''"

definition hexify :: "bytes \<Rightarrow> bytes" where
  "hexify raw_md5 =
     concat (map (\<lambda>b. [dec_to_hex ! unat (drop_bit 4 b), dec_to_hex ! unat (b AND 0xF)]) raw_md5)"

text \<open>\<open>printf\<close>-style printing of a buffer: up to its first zero byte.\<close>

definition print_buffer :: "'s port \<Rightarrow> bytes \<Rightarrow> (unit, 's loader) op" where
  "print_buffer p bs = on_port (act (port_debug_print p (takeWhile (\<lambda>b. b \<noteq> 0) bs)))"

definition esp_loader_flash_verify :: "'s port \<Rightarrow> (unit, 's loader) op" where
  "esp_loader_flash_verify p =
     and_then (get_st id) (\<lambda>st0.
       if s_target st0 = ESP8266_CHIP then fail ESP_LOADER_ERROR_UNSUPPORTED_FUNC
       else
         let hex_md5 = hexify (fst (MD5Final (s_md5_context st0))) in
         and_then (act (\<lambda>st. st\<lparr>s_md5_context := snd (MD5Final (s_md5_context st))\<rparr>)) (\<lambda>_.
         and_then (start_timer p (timeout_per_mb (s_image_size st0) MD5_TIMEOUT_PER_MB)) (\<lambda>_.
         and_then (loader_md5_cmd p (s_start_address st0) (s_image_size st0)) (\<lambda>received_md5.
           if hex_md5 \<noteq> received_md5 then
             and_then (print_buffer p (cstr ''Error: MD5 checksum does not match:'' @ [10])) (\<lambda>_.
             and_then (print_buffer p (cstr ''Expected:'' @ [10])) (\<lambda>_.
             and_then (print_buffer p (received_md5 @ [10])) (\<lambda>_.
             and_then (print_buffer p (cstr ''Actual:'' @ [10])) (\<lambda>_.
             and_then (print_buffer p (hex_md5 @ [10])) (\<lambda>_.
             fail ESP_LOADER_ERROR_INVALID_MD5)))))
           else ret ()))))"

definition esp_loader_reset_target :: "'s port \<Rightarrow> (unit, 's loader) op" where
  "esp_loader_reset_target p = on_port (act (port_reset_target p))"

section \<open>Exchanges on a lossless port\<close>

context lossless_port
begin

lemma send_cmd_md5_exchange:
  assumes "length frame < 65536" and "ready s" and "pend s = SLIP_encode resp @ rest" and "length resp = 42"
    and "resp ! 0 = READ_DIRECTION" and "resp ! 1 = frame ! 1" and "resp ! 40 = 0"
  shows "\<exists>s'. send_cmd_md5 p frame s = Some (Inr (take 32 (drop 8 resp)), s')
    \<and> sent s' = sent s @ SLIP_encode frame \<and> pend s' = rest \<and> ready s'"
proof -
  obtain s1 where s1: "sent s1 = sent s @ SLIP_encode frame" "pend s1 = pend s" "ready s1"
    and k: "\<And>k :: unit \<Rightarrow> (bytes, 's) op. and_then (SLIP_send_delimiter p) (\<lambda>_.
          and_then (SLIP_send p frame) (\<lambda>_. and_then (SLIP_send_delimiter p) k)) s = k () s1"
    using send_frame [OF assms(1), of s] assms(2) by auto
  have "pend s1 = concat (map SLIP_encode []) @ SLIP_encode resp @ rest" using s1(2) assms(3) by simp
  moreover have "resp \<noteq> []" using assms(4) by auto
  ultimately obtain s' where "check_response p (frame ! 1) 42 s1 = Some (Inr resp, s')"
    and "pend s' = rest \<and> sent s' = sent s1 \<and> ready s'"
    using check_response_reads [OF s1(3), of "[]" resp rest "frame ! 1" 42] assms(4-7) by auto
  then show ?thesis
    unfolding send_cmd_md5_def k by (auto simp: and_then_def run_simps rom_md5_response_size_def s1(1) MD5_SIZE_def)
qed

lemma data_cmd_sent:
  assumes "length data < 65536" and "loader_flash_data_cmd p data st = Some (r, st')"
  shows "\<exists>s'. st' = st\<lparr>s_sequence_number := s_sequence_number st + 1, port_state := s'\<rparr>
    \<and> sent s' = sent (port_state st)
        @ SLIP_encode ([0, 0x03] @ le16 (word_of_nat (16 + length data)) @ le32 (ucast (compute_checksum data))
            @ le32 (word_of_nat (length data)) @ le32 (s_sequence_number st) @ le32 0 @ le32 0 @ data)"
proof -
  define frame where "frame = mk_command FLASH_DATA (16 + length data) (ucast (compute_checksum data))
    (Data_command (word_of_nat (length data)) (s_sequence_number st) 0 0)"
  have f: "length frame < 65536" by (simp add: frame_def mk_command_def common_bytes_def)
  obtain s' where s': "send_cmd_with_data p frame data (port_state st) = Some (r, s')"
    and st': "st' = st\<lparr>s_sequence_number := s_sequence_number st + 1, port_state := s'\<rparr>"
    using assms(2)
    by (auto simp: loader_flash_data_cmd_def on_port_def Let_def frame_def CMD_SIZE_def split: option.splits)
  have "sent s' = sent (port_state st) @ SLIP_encode (frame @ data)"
    by (rule send_cmd_with_data_sent [OF f assms(1) s'])
  then show ?thesis using st'
    by (intro exI [of _ s']) (simp add: frame_def mk_command_def common_bytes_def mk_common_def WRITE_DIRECTION_def)
qed

lemma start_timer_runs:
  "\<exists>st'. start_timer p ms st = Some (Inr (), st') \<and> pend (port_state st') = pend (port_state st)
    \<and> sent (port_state st') = sent (port_state st) \<and> (ready (port_state st) \<longrightarrow> ready (port_state st'))
    \<and> st' = st\<lparr>port_state := port_start_timer p ms (port_state st)\<rparr>"
  by (simp add: start_timer_def on_port_def run_simps timer_ok)

end

section \<open>Properties\<close>

text \<open>The erase size for an ESP8266. The ROM, as the code describes it, erases as many sectors again
  as it is asked for, up to the end of the flash block. The size asked for makes up for that when
  the image fits the rest of its block or is at least twice as long; in between fewer sectors are
  erased than the image needs.\<close>

theorem esp8266_erase_size:
  assumes rom: "\<forall>r. rom r = r + min r head"
    and "head = 16 - (unat offset div 4096) mod 16"
    and "unat image_size + 4095 < 2 ^ 32"
    and "num = (unat image_size + 4095) div 4096"
    and "asked = unat (calc_erase_size ESP8266_CHIP offset image_size) div 4096"
  shows "if num \<le> head \<or> 2 * head \<le> num then rom asked = num \<or> rom asked = num + 1 else rom asked < num"
proof -
  define N where "N = (image_size + 4096 - 1) div 4096"
  define H where "H = 16 - (offset div 4096) mod 16"
  have e: "image_size + 4096 - 1 = image_size + 4095" by simp
  have "unat (image_size + 4095) = unat image_size + 4095"
    using assms(3) by (simp add: unat_word_ariths)
  then have N: "unat N = num" unfolding N_def e assms(4) by (simp add: unat_div_distrib)
  have small: "num < 2 ^ 20" using assms(3) unfolding assms(4) by (simp add: div_less_iff_less_mult)
  have "(offset div 4096) mod 16 \<le> 16" "unat ((offset div 4096) mod 16) = (unat offset div 4096) mod 16"
    by (simp_all add: word_le_nat_alt unat_div_distrib unat_mod_distrib less_imp_le)
  then have H: "unat H = head" unfolding H_def assms(2) by (simp add: unat_sub)
  have hd: "0 < head" "head \<le> 16" unfolding assms(2) by (simp_all add: less_diff_conv)
  have size: "calc_erase_size ESP8266_CHIP offset image_size =
      (if N \<le> H then ((N + 1) div 2) * 4096 else (N - H) * 4096)"
    by (simp add: calc_erase_size_def Let_def N_def H_def)
  have c: "N \<le> H \<longleftrightarrow> num \<le> head" by (simp add: word_le_nat_alt N H)
  have up: "unat (((N + 1) div 2) * 4096) div 4096 = (num + 1) div 2"
    using small by (simp add: unat_word_ariths unat_div_distrib N)
  have down: "unat ((N - H) * 4096) div 4096 = num - head" if "head < num"
  proof -
    have "unat (M * 4096) div 4096 = unat M" if "unat M < 2 ^ 20" for M :: u32
      using that by (simp add: unat_word_ariths)
    moreover have "unat (N - H) = num - head" using that c by (simp add: unat_sub N H)
    ultimately show ?thesis using small by (metis diff_le_self le_less_trans)
  qed
  show ?thesis
  proof (cases "num \<le> head")
    case True
    then have "asked = (num + 1) div 2" using size up assms(5) c by simp
    then show ?thesis using rom True by auto
  next
    case False
    then have "asked = num - head" using size down assms(5) c by simp
    then show ?thesis using rom False by auto
  qed
qed

theorem esp8266_erase_size_witness:
  "if (17 :: nat) \<le> 16 \<or> 2 * 16 \<le> (17 :: nat)
   then (\<lambda>r. r + min r 16) 1 = (17 :: nat) \<or> (\<lambda>r. r + min r 16) 1 = (17 :: nat) + 1
   else (\<lambda>r. r + min r 16) 1 < (17 :: nat)"
proof (rule esp8266_erase_size [where rom = "\<lambda>r. r + min r 16" and head = 16 and num = 17 and asked = 1
      and offset = 0 and image_size = 69632])
  show "(1 :: nat) = unat (calc_erase_size ESP8266_CHIP 0 69632) div 4096" by code_simp
qed simp_all

definition next_value :: "(u32, u32 list) op" where
  "next_value vs = (case vs of [] \<Rightarrow> Some (Inl ESP_LOADER_ERROR_TIMEOUT, []) | v # vs' \<Rightarrow> Some (Inr v, vs'))"

lemma spi_wait_busy:
  "busy AND SPI_CMD_USR \<noteq> 0 \<Longrightarrow> spi_wait next_value (k + n) (replicate k busy @ rest) = spi_wait next_value n rest"
  by (induction k) (simp_all add: and_then_def next_value_def)

text \<open>Waiting for a flash command. The value the poll loop leaves in its counter is what the code
  tests for 0 to report a timeout. If the command is found done by the tenth poll, that test
  succeeds and the command fails; if it is still running after ten polls, the counter has
  wrapped and the command is taken for done.\<close>

theorem flash_command_poll_off_by_one:
  assumes "busy AND SPI_CMD_USR \<noteq> 0" and "done_value AND SPI_CMD_USR = 0"
  shows "spi_wait next_value 10 (replicate 9 busy @ [done_value]) = Some (Inr 0, [])
    \<and> spi_wait next_value 10 (replicate 10 busy) = Some (Inr 0xFFFFFFFF, [])
    \<and> (\<forall>k < 9. \<exists>t. spi_wait next_value 10 (replicate k busy @ [done_value]) = Some (Inr t, []) \<and> t \<noteq> 0)"
proof (intro conjI allI impI)
  have one: "spi_wait next_value (Suc n) [done_value] = Some (Inr (word_of_nat n), [])" for n
    using assms(2) by (simp add: and_then_def next_value_def run_simps)
  show "spi_wait next_value 10 (replicate 9 busy @ [done_value]) = Some (Inr 0, [])"
    using spi_wait_busy [OF assms(1), of 9 1] one [of 0] by simp
  show "spi_wait next_value 10 (replicate 10 busy) = Some (Inr 0xFFFFFFFF, [])"
    using spi_wait_busy [OF assms(1), of 10 0 "[]"] by (simp add: run_simps)
  fix k :: nat assume "k < 9"
  then have "spi_wait next_value 10 (replicate k busy @ [done_value]) = Some (Inr (word_of_nat (9 - k)), [])"
    using spi_wait_busy [OF assms(1), of k "Suc (9 - k)"] one [of "9 - k"] by (simp del: spi_wait.simps)
  moreover have "unat (word_of_nat (9 - k) :: u32) = 9 - k" by (simp only: unat_word_of_nat32) simp
  then have "(word_of_nat (9 - k) :: u32) \<noteq> 0" using \<open>k < 9\<close>
    by (metis unsigned_0 zero_less_diff less_irrefl)
  ultimately show "\<exists>t. spi_wait next_value 10 (replicate k busy @ [done_value]) = Some (Inr t, []) \<and> t \<noteq> 0" by blast
qed

theorem flash_command_poll_off_by_one_witness:
  "spi_wait next_value 10 (replicate 9 0x40000 @ [0]) = Some (Inr 0, [])"
  using flash_command_poll_off_by_one [of "0x40000" 0] by (simp add: SPI_CMD_USR_def)

definition sync_frame :: bytes where
  "sync_frame = [0, 8, 36, 0, 0, 0, 0, 0, 0x07, 0x07, 0x12, 0x20] @ replicate 32 0x55"

lemma le16_36: "le16 36 = [36, 0]"
  by code_simp

lemma sync_command: "mk_command SYNC (CMD_SIZE (Sync_command ([0x07, 0x07, 0x12, 0x20] @ replicate 32 0x55))) 0
    (Sync_command ([0x07, 0x07, 0x12, 0x20] @ replicate 32 0x55)) = sync_frame"
  by (simp add: mk_command_def common_bytes_def mk_common_def WRITE_DIRECTION_def CMD_SIZE_def le16_36 sync_frame_def)
    (simp add: le32_def)

lemma mock_silent_sync:
  assumes "read_buffer (port_state st) = []"
  shows "\<exists>st'. and_then (start_timer mock_port ms) (\<lambda>_. loader_sync_cmd mock_port) st =
      Some (Inl ESP_LOADER_ERROR_TIMEOUT, st') \<and> read_buffer (port_state st') = []
    \<and> write_buffer (port_state st') = write_buffer (port_state st) @ SLIP_encode sync_frame
    \<and> s_target st' = s_target (st :: mock loader)"
proof -
  define s where "s = mock_start_timer ms (port_state st)"
  have s: "read_buffer s = []" "write_buffer s = write_buffer (port_state st)"
    using assms by (simp_all add: s_def mock_start_timer_def)
  obtain s1 where s1: "write_buffer s1 = write_buffer s @ SLIP_encode sync_frame" "read_buffer s1 = []"
    and k: "\<And>k :: unit \<Rightarrow> (u32, mock) op. and_then (SLIP_send_delimiter mock_port) (\<lambda>_.
          and_then (SLIP_send mock_port sync_frame) (\<lambda>_. and_then (SLIP_send_delimiter mock_port) k)) s = k () s1"
    using mock_loss.send_frame [of sync_frame s] s by (auto simp: sync_frame_def)
  have "peripheral_read mock_port s1 = Some (Inl ESP_LOADER_ERROR_TIMEOUT, s1)"
    using s1(2) by (simp add: peripheral_read_def mock_port_read_def)
  then have "skip_to_delimiter mock_port s1 = Some (Inl ESP_LOADER_ERROR_TIMEOUT, s1)"
    by (subst skip_to_delimiter.simps) (simp add: and_then_def)
  then have "await_response mock_port c n s1 = Some (Inl ESP_LOADER_ERROR_TIMEOUT, s1)" for c n
    by (subst await_response.simps) (simp add: and_then_def SLIP_receive_packet_def)
  then have "send_cmd mock_port sync_frame s = Some (Inl ESP_LOADER_ERROR_TIMEOUT, s1)"
    unfolding send_cmd_def k by (simp add: and_then_def check_response_def)
  moreover have "loader_sync_cmd mock_port = (send_cmd_unit mock_port sync_frame :: (unit, mock loader) op)"
    by (simp only: loader_sync_cmd_def Let_def sync_command)
  ultimately show ?thesis using s1 s(2)
    by (simp add: start_timer_def send_cmd_unit_def on_port_def and_then_def run_simps s_def)
qed

lemma mock_silent_sync_loop:
  "read_buffer (port_state st) = [] \<Longrightarrow>
   \<exists>st'. sync_loop mock_port ms (int (Suc n)) st = Some (Inl ESP_LOADER_ERROR_TIMEOUT, st')
    \<and> write_buffer (port_state st') =
        write_buffer (port_state st) @ concat (replicate (Suc n) (SLIP_encode sync_frame))
    \<and> s_target st' = s_target (st :: mock loader)"
proof (induction n arbitrary: st)
  case 0
  then show ?case using mock_silent_sync [OF 0, of ms]
    by (subst sync_loop.simps) auto
next
  case (Suc n)
  obtain st1 where 1: "and_then (start_timer mock_port ms) (\<lambda>_. loader_sync_cmd mock_port) st =
      Some (Inl ESP_LOADER_ERROR_TIMEOUT, st1)" "read_buffer (port_state st1) = []"
    "write_buffer (port_state st1) = write_buffer (port_state st) @ SLIP_encode sync_frame" "s_target st1 = s_target st"
    using mock_silent_sync [OF Suc.prems, of ms] by blast
  have "sync_loop mock_port ms (int (Suc (Suc n))) st = sync_loop mock_port ms (int (Suc n)) st1"
    using 1(1) by (subst sync_loop.simps) simp
  then show ?case using Suc.IH [OF 1(2)] 1(3,4) by (simp del: of_nat_Suc)
qed

text \<open>Connecting to a silent target. With \<open>n\<close> trials allowed and nothing to read, connecting puts
  exactly \<open>n\<close> sync frames on the line and then reports a timeout, with no chip selected.\<close>

theorem connect_retries_then_times_out:
  assumes "read_buffer (port_state st) = []" and "0 < n"
  shows "\<exists>st'. esp_loader_connect mock_port sync_timeout (int n) st = Some (Inl ESP_LOADER_ERROR_TIMEOUT, st')
    \<and> write_buffer (port_state st') =
        write_buffer (port_state st) @ concat (replicate n (SLIP_encode sync_frame))
    \<and> s_target st' = s_target st"
proof -
  obtain k where k: "n = Suc k" using assms(2) by (cases n) simp_all
  have e: "on_port (act id) st = Some (Inr (), st)"
    by (simp add: on_port_def run_simps)
  show ?thesis using mock_silent_sync_loop [OF assms(1), of sync_timeout k]
    unfolding k esp_loader_connect_def by (auto simp: and_then_def e)
qed

theorem connect_retries_then_times_out_witness:
  "\<exists>st'. esp_loader_connect mock_port 100 (int 10) (loader_init mock_init) = Some (Inl ESP_LOADER_ERROR_TIMEOUT, st')
    \<and> write_buffer (port_state st') = write_buffer (port_state (loader_init mock_init)) @ concat (replicate 10 (SLIP_encode sync_frame))
    \<and> s_target st' = s_target (loader_init mock_init)"
  by (rule connect_retries_then_times_out) (simp_all add: loader_init_def mock_init_def)

text \<open>A payload filled up to whole words.\<close>

definition pad_to_words :: "bytes \<Rightarrow> bytes" where
  "pad_to_words payload = payload @ replicate ((length payload + 3) div 4 * 4 - length payload) PADDING_PATTERN"

text \<open>C11: Writing a block. Payloads longer than the block are refused before anything happens. Otherwise
  the block goes out filled up with 0xFF to its full size and numbered, and the digest continues
  with the payload filled up to whole words, so that it is the digest of the image as flashed.\<close>

theorem flash_write_pads_and_digests:
  assumes port: "lossless_port p pend sent ready"
    and md5: "md5_rel (s_md5_context st) msg"
    and block: "block = unat (s_flash_write_size st)" "4 dvd block" "block < 65536"
    and run: "esp_loader_flash_write p payload st = Some (r, st')"
  shows "if block < length payload then r = Inl ESP_LOADER_ERROR_INVALID_PARAM \<and> st' = st
    else md5_rel (s_md5_context st') (msg @ pad_to_words payload)
      \<and> s_sequence_number st' = s_sequence_number st + 1
      \<and> (let data = payload @ replicate (block - length payload) 0xFF in
          sent (port_state st') = sent (port_state st) @
            SLIP_encode ([0, 0x03] @ le16 (word_of_nat (16 + block)) @ le32 (ucast (compute_checksum data))
              @ le32 (word_of_nat block) @ le32 (s_sequence_number st) @ le32 0 @ le32 0 @ data))"
proof (cases "block < length payload")
  case True
  then show ?thesis using run block(1) by (simp add: esp_loader_flash_write_def run_simps)
next
  case False
  define n where "n = length payload"
  define data where "data = payload @ replicate (block - n) PADDING_PATTERN"
  define digested where "digested = (n + 3) div 4 * 4"
  have n: "n \<le> block" using False by (simp add: n_def)
  have d: "n \<le> digested" "digested \<le> block"
  proof -
    show "n \<le> digested" unfolding digested_def by linarith
    obtain q where "block = 4 * q" using block(2) by blast
    moreover have "(n + 3) div 4 \<le> (4 * q + 3) div 4" using n \<open>block = 4 * q\<close> by (intro div_le_mono) simp
    ultimately show "digested \<le> block" unfolding digested_def by simp
  qed
  have len: "length data = block" using n by (simp add: data_def n_def)
  have tk: "take digested data = pad_to_words payload"
    using d by (simp add: data_def pad_to_words_def digested_def n_def min_def)
  define st1 where "st1 = md5_update (pad_to_words payload) st"
  define st2 where "st2 = st1\<lparr>port_state := port_start_timer p DEFAULT_TIMEOUT (port_state st1)\<rparr>"
  have run2: "loader_flash_data_cmd p data st2 = Some (r, st')"
    using run False d(2) len
    by (simp add: esp_loader_flash_write_def Let_def n_def [symmetric] block(1) [symmetric] data_def [symmetric]
        digested_def [symmetric] tk start_timer_def and_then_def on_port_def run_simps st1_def st2_def)
  obtain s' where s': "st' = st2\<lparr>s_sequence_number := s_sequence_number st2 + 1, port_state := s'\<rparr>"
    "sent s' = sent (port_state st2)
        @ SLIP_encode ([0, 0x03] @ le16 (word_of_nat (16 + length data)) @ le32 (ucast (compute_checksum data))
            @ le32 (word_of_nat (length data)) @ le32 (s_sequence_number st2) @ le32 0 @ le32 0 @ data)"
    using lossless_port.data_cmd_sent [OF port _ run2] len block(3) by auto
  have "sent (port_state st2) = sent (port_state st)"
    using lossless_port.timer_ok [OF port] by (simp add: st2_def st1_def md5_update_def)
  moreover have "length (pad_to_words payload) < 2 ^ 32"
    using d block(3) by (simp add: tk [symmetric] len)
  ultimately show ?thesis
    using False s' update_rel [OF md5, of "pad_to_words payload"] len
    by (simp add: st2_def st1_def md5_update_def data_def n_def PADDING_PATTERN_def Let_def)
qed

lemma loader_init_md5: "md5_rel (s_md5_context (init_md5 a sz (loader_init s))) []"
  by (simp add: init_md5_def init_rel loader_init_def)

theorem flash_write_pads_and_digests_witness:
  "\<exists>r st'. esp_loader_flash_write mock_port [1, 2, 3, 4, 5] ((init_md5 0 5 (loader_init mock_init))\<lparr>s_flash_write_size := 16\<rparr>)
      = Some (r, st') \<and> md5_rel (s_md5_context st') ([] @ pad_to_words [1, 2, 3, 4, 5])"
proof -
  let ?st = "(init_md5 0 5 (loader_init mock_init))\<lparr>s_flash_write_size := 16\<rparr>"
  have "loader_flash_data_cmd mock_port d st \<noteq> None" for d and st :: "mock loader"
    using mock_fin.exchange_returns(2) by (simp add: loader_flash_data_cmd_def on_port_None Let_def returns_def del: not_None_eq)
  then obtain r st' where run: "esp_loader_flash_write mock_port [1, 2, 3, 4, 5] ?st = Some (r, st')"
    by (fastforce simp: esp_loader_flash_write_def Let_def start_timer_def and_then_def on_port_def run_simps)
  have "4 dvd unat (16 :: u32)" by simp
  then show ?thesis
    using flash_write_pads_and_digests [OF mock_loss.lossless_port_axioms _ _ _ _ run, of "[]" 16]
      loader_init_md5 [of 0 5 mock_init] run by simp
qed

text \<open>C12: Verifying the flash. When the target answers the digest query, verification succeeds exactly
  when the 32 hexadecimal digits it sends are those of the RFC 1321 digest of everything digested
  while writing, and fails with the MD5 error otherwise.\<close>

theorem flash_verify_compares_digests:
  assumes port: "lossless_port p pend sent ready" and "ready (port_state st)"
    and md5: "md5_rel (s_md5_context st) msg" and tgt: "s_target st \<noteq> ESP8266_CHIP"
    and h: "length h = 32"
    and pend: "pend (port_state st) = SLIP_encode ([1, 0x13, a, b] @ le32 v @ h @ [0, e]) @ rest"
  shows "\<exists>st'. esp_loader_flash_verify p st =
    Some (if h = hexify (rfc_md5 msg) then Inr () else Inl ESP_LOADER_ERROR_INVALID_MD5, st')"
proof -
  define tmo where "tmo = timeout_per_mb (s_image_size st) MD5_TIMEOUT_PER_MB"
  define st1 where "st1 = st\<lparr>s_md5_context := snd (MD5Final (s_md5_context st)),
    port_state := port_start_timer p tmo (port_state st)\<rparr>"
  define body where "body = Spi_flash_md5_command (s_start_address st) (s_image_size st) 0 0"
  define frame where "frame = mk_command SPI_FLASH_MD5 (CMD_SIZE body) 0 body"
  define resp where "resp = [1, 0x13, a, b] @ le32 v @ h @ [0, e]"
  have f: "length frame < 65536" "frame ! 1 = 0x13"
    by (simp_all add: frame_def mk_command_def common_bytes_def mk_common_def body_def)
  have r1: "ready (port_state st1)" "pend (port_state st1) = SLIP_encode resp @ rest"
    using lossless_port.timer_ok [OF port] assms(2) pend by (simp_all add: st1_def resp_def)
  have r2: "length resp = 42" "resp ! 0 = READ_DIRECTION" "resp ! 1 = frame ! 1" "resp ! 40 = 0"
    using h f(2) by (simp_all add: resp_def READ_DIRECTION_def nth_append)
  have "take 32 (drop 8 resp) = h" using h by (simp add: resp_def)
  then obtain s2 where "send_cmd_md5 p frame (port_state st1) = Some (Inr h, s2)"
    using lossless_port.send_cmd_md5_exchange [OF port f(1) r1 r2] by auto
  then have "loader_md5_cmd p (s_start_address st) (s_image_size st) st1 = Some (Inr h, st1\<lparr>port_state := s2\<rparr>)"
    by (simp add: loader_md5_cmd_def Let_def on_port_def frame_def body_def)
  then show ?thesis
    using tgt final_rel [OF md5]
    by (auto simp: esp_loader_flash_verify_def get_st_def and_then_def run_simps start_timer_def on_port_def
        Let_def tmo_def st1_def print_buffer_def)
qed

theorem flash_verify_compares_digests_witness:
  "\<exists>st'. esp_loader_flash_verify mock_port ((init_md5 0 5 (loader_init (mock_init\<lparr>read_buffer :=
       SLIP_encode ([1, 0x13, 0, 0] @ le32 0 @ replicate 32 0x30 @ [0, 0]) @ []\<rparr>)))\<lparr>s_target := ESP32_CHIP\<rparr>)
     = Some (if replicate 32 0x30 = hexify (rfc_md5 []) then Inr () else Inl ESP_LOADER_ERROR_INVALID_MD5, st')"
proof (rule flash_verify_compares_digests [OF mock_loss.lossless_port_axioms, where a = 0 and b = 0 and v = 0 and e = 0])
  show "md5_rel (s_md5_context ((init_md5 0 5 (loader_init (mock_init\<lparr>read_buffer :=
       SLIP_encode ([1, 0x13, 0, 0] @ le32 0 @ replicate 32 0x30 @ [0, 0]) @ []\<rparr>)))\<lparr>s_target := ESP32_CHIP\<rparr>)) []"
    using loader_init_md5 by simp
qed (simp_all add: init_md5_def loader_init_def mock_init_def)

end
