(* ===== verification/ButtonAdc.thy ===== *)
theory ButtonAdc
  imports Prelude
begin

text \<open>
  managed_components/espressif__button/button_adc.c: several buttons behind one ADC pin, told apart
  by voltage windows (the branch for ESP-IDF 5). The ADC driver, its calibration schemes and the
  clock are outside the repository: the record \<open>adc_driver\<close> over a state \<open>'d\<close>. Handles are
  numbers, 0 is \<open>NULL\<close>.
\<close>

section \<open>State\<close>

text \<open>Kconfig and the channel count of the chip.\<close>

record adc_cfg =
  ADC_BUTTON_MAX_CHANNEL :: nat
  ADC_BUTTON_MAX_BUTTON :: nat
  NO_OF_SAMPLES :: nat
  ADC1_BUTTON_CHANNEL_MAX :: nat

record 'd adc_driver =
  adc_oneshot_new_unit :: "'d \<Rightarrow> nat option \<times> 'd"
  adc_oneshot_config_channel :: "nat \<Rightarrow> u8 \<Rightarrow> 'd \<Rightarrow> bool \<times> 'd"
  adc_cali_schemes :: "('d \<Rightarrow> nat option \<times> 'd) list"
  adc_oneshot_read :: "nat \<Rightarrow> u8 \<Rightarrow> 'd \<Rightarrow> int \<times> 'd"
  adc_cali_raw_to_voltage :: "nat \<Rightarrow> u32 \<Rightarrow> int"
  adc_oneshot_del_unit :: "nat \<Rightarrow> 'd \<Rightarrow> bool \<times> 'd"
  esp_timer_get_time :: "'d \<Rightarrow> u64 \<times> 'd"

record button_data =
  bd_min :: u16
  bd_max :: u16

record btn_adc_channel =
  ac_channel :: u8
  is_init :: u8
  btns :: "button_data list"
  last_time :: u64

text \<open>\<open>g_button\<close>, the static \<open>vol\<close> of \<open>button_adc_get_key_level\<close>, and the driver.\<close>

record 'd adc_button =
  is_configured :: bool
  adc1_cali_handle :: nat
  adc1_handle :: nat
  ch :: "btn_adc_channel list"
  ch_num :: u8
  vol :: u16
  adc_dev :: 'd

record button_adc_config =
  cf_adc_channel :: u8
  cf_button_index :: u8
  cf_min :: u16
  cf_max :: u16
  cf_adc_handle :: "nat option"

definition zero_channel :: "adc_cfg \<Rightarrow> btn_adc_channel" where
  "zero_channel c = \<lparr>ac_channel = 0, is_init = 0,
     btns = replicate (ADC_BUTTON_MAX_BUTTON c) \<lparr>bd_min = 0, bd_max = 0\<rparr>, last_time = 0\<rparr>"

definition adc_init :: "adc_cfg \<Rightarrow> 'd \<Rightarrow> 'd adc_button" where
  "adc_init c d = \<lparr>is_configured = False, adc1_cali_handle = 0, adc1_handle = 0,
     ch = replicate (ADC_BUTTON_MAX_CHANNEL c) (zero_channel c), ch_num = 0, vol = 0, adc_dev = d\<rparr>"

section \<open>Channels\<close>

fun find_index :: "('a \<Rightarrow> bool) \<Rightarrow> 'a list \<Rightarrow> nat option" where
  "find_index P [] = None"
| "find_index P (x # xs) = (if P x then Some 0 else map_option Suc (find_index P xs))"

definition find_unused_channel :: "'d adc_button \<Rightarrow> nat option" where
  "find_unused_channel g = find_index (\<lambda>x. is_init x = 0) (ch g)"

definition find_channel :: "u8 \<Rightarrow> 'd adc_button \<Rightarrow> nat option" where
  "find_channel channel g = find_index (\<lambda>x. ac_channel x = channel) (ch g)"

definition on_channel :: "nat \<Rightarrow> (btn_adc_channel \<Rightarrow> btn_adc_channel) \<Rightarrow> 'd adc_button \<Rightarrow> 'd adc_button" where
  "on_channel i f g = g\<lparr>ch := (ch g)[i := f (ch g ! i)]\<rparr>"

text \<open>The schemes the build supports are tried in order until one succeeds.\<close>

fun try_schemes :: "('d \<Rightarrow> nat option \<times> 'd) list \<Rightarrow> 'd \<Rightarrow> nat option \<times> 'd" where
  "try_schemes [] d = (None, d)"
| "try_schemes (s # ss) d =
     (case s d of (Some h, d') \<Rightarrow> (Some h, d') | (None, d') \<Rightarrow> try_schemes ss d')"

text \<open>Stores the handle, \<open>NULL\<close> when no scheme succeeded, and tells whether one did.\<close>

definition adc_calibration_init :: "'d adc_driver \<Rightarrow> 'd adc_button \<Rightarrow> esp_err \<times> 'd adc_button" where
  "adc_calibration_init dr g =
     (case try_schemes (adc_cali_schemes dr) (adc_dev g) of
        (Some h, d) \<Rightarrow> (ESP_OK, g\<lparr>adc1_cali_handle := h, adc_dev := d\<rparr>)
      | (None, d) \<Rightarrow> (ESP_FAIL, g\<lparr>adc1_cali_handle := 0, adc_dev := d\<rparr>))"

section \<open>Initialisation\<close>

text \<open>The block under \<open>if (0 == g_button.is_configured)\<close>.\<close>

definition adc_unit_init :: "'d adc_driver \<Rightarrow> button_adc_config \<Rightarrow> 'd adc_button \<Rightarrow> esp_err \<times> 'd adc_button" where
  "adc_unit_init dr config g =
     (if is_configured g then (ESP_OK, g)
      else
        case cf_adc_handle config of
          Some h \<Rightarrow> (ESP_OK, g\<lparr>adc1_handle := h, is_configured := True\<rparr>)
        | None \<Rightarrow>
            (case adc_oneshot_new_unit dr (adc_dev g) of
               (None, d) \<Rightarrow> (ESP_FAIL, g\<lparr>adc_dev := d\<rparr>)
             | (Some h, d) \<Rightarrow> (ESP_OK, g\<lparr>adc1_handle := h, adc_dev := d, is_configured := True\<rparr>)))"

text \<open>The block under \<open>if (0 == g_button.ch[ch_index].is_init)\<close>. \<open>None\<close> is to go on.\<close>

definition adc_channel_init ::
  "'d adc_driver \<Rightarrow> nat \<Rightarrow> button_adc_config \<Rightarrow> 'd adc_button \<Rightarrow> esp_err option \<times> 'd adc_button" where
  "adc_channel_init dr ch_index config g =
     (if is_init (ch g ! ch_index) \<noteq> 0 then (None, g)
      else
        case adc_oneshot_config_channel dr (adc1_handle g) (cf_adc_channel config) (adc_dev g) of
          (False, d) \<Rightarrow> (Some ESP_FAIL, g\<lparr>adc_dev := d\<rparr>)
        | (True, d) \<Rightarrow>
            (case adc_calibration_init dr (g\<lparr>adc_dev := d\<rparr>) of
               (r, g1) \<Rightarrow>
                 if r \<noteq> ESP_OK then (Some ESP_OK, g1)
                 else (None, on_channel ch_index
                   (\<lambda>x. x\<lparr>ac_channel := cf_adc_channel config, is_init := 1, last_time := 0\<rparr>) g1)))"

definition button_adc_init ::
  "adc_cfg \<Rightarrow> 'd adc_driver \<Rightarrow> button_adc_config option \<Rightarrow> 'd adc_button \<Rightarrow> esp_err \<times> 'd adc_button" where
  "button_adc_init c dr config_ptr g =
     (case config_ptr of None \<Rightarrow> (ESP_ERR_INVALID_ARG, g)
      | Some config \<Rightarrow>
          let idx = unat (cf_button_index config) in
          if \<not> unat (cf_adc_channel config) < ADC1_BUTTON_CHANNEL_MAX c then (ESP_ERR_NOT_SUPPORTED, g)
          else if \<not> idx < ADC_BUTTON_MAX_BUTTON c then (ESP_ERR_NOT_SUPPORTED, g)
          else if \<not> cf_max config > 0 then (ESP_ERR_INVALID_ARG, g)
          else
            let found = find_channel (cf_adc_channel config) g in
            if (case found of Some i \<Rightarrow> bd_max (btns (ch g ! i) ! idx) \<noteq> 0 | None \<Rightarrow> find_unused_channel g = None)
            then (ESP_ERR_INVALID_STATE, g)
            else
              let ch_index = (case found of Some i \<Rightarrow> i | None \<Rightarrow> the (find_unused_channel g)) in
              case adc_unit_init dr config g of
                (r, g1) \<Rightarrow>
                  if r \<noteq> ESP_OK then (r, g1)
                  else
                    case adc_channel_init dr ch_index config g1 of
                      (Some r, g2) \<Rightarrow> (r, g2)
                    | (None, g2) \<Rightarrow>
                        (ESP_OK,
                         (on_channel ch_index
                           (\<lambda>x. x\<lparr>btns := (btns x)[idx := \<lparr>bd_min = cf_min config, bd_max = cf_max config\<rparr>]\<rparr>)
                           g2)\<lparr>ch_num := ch_num g2 + 1\<rparr>))"

section \<open>Release\<close>

definition button_adc_deinit ::
  "adc_cfg \<Rightarrow> 'd adc_driver \<Rightarrow> u8 \<Rightarrow> int \<Rightarrow> 'd adc_button \<Rightarrow> esp_err \<times> 'd adc_button" where
  "button_adc_deinit c dr channel button_index g =
     (if \<not> unat channel < ADC1_BUTTON_CHANNEL_MAX c then (ESP_ERR_INVALID_ARG, g)
      else if \<not> button_index < int (ADC_BUTTON_MAX_BUTTON c) then (ESP_ERR_INVALID_ARG, g)
      else
        case find_channel channel g of
          None \<Rightarrow> (ESP_ERR_INVALID_ARG, g)
        | Some i \<Rightarrow>
            let g1 = on_channel i (\<lambda>x. x\<lparr>btns := (btns x)[nat button_index := \<lparr>bd_min = 0, bd_max = 0\<rparr>]\<rparr>) g;
                unused_button = length (filter (\<lambda>b. bd_max b = 0) (btns (ch g1 ! i)));
                g2 = (if unused_button = ADC_BUTTON_MAX_BUTTON c \<and> is_init (ch g1 ! i) \<noteq> 0
                      then on_channel i (\<lambda>x. x\<lparr>is_init := 0, ac_channel := word_of_nat (ADC1_BUTTON_CHANNEL_MAX c)\<rparr>) g1
                      else g1);
                unused_ch = length (filter (\<lambda>x. is_init x = 0) (ch g2));
                g3 = (if unused_ch = ADC_BUTTON_MAX_CHANNEL c \<and> is_configured g2
                      then (adc_init c (adc_dev g2))\<lparr>vol := vol g2\<rparr> else g2)
            in case adc_oneshot_del_unit dr (adc1_handle g3) (adc_dev g3) of
                 (ok, d) \<Rightarrow> (if ok then ESP_OK else ESP_FAIL, g3\<lparr>adc_dev := d\<rparr>))"

section \<open>Sampling\<close>

fun adc_sum :: "'d adc_driver \<Rightarrow> nat \<Rightarrow> u8 \<Rightarrow> nat \<Rightarrow> u32 \<Rightarrow> 'd \<Rightarrow> u32 \<times> 'd" where
  "adc_sum dr h channel 0 acc d = (acc, d)"
| "adc_sum dr h channel (Suc n) acc d =
     (case adc_oneshot_read dr h channel d of (raw, d') \<Rightarrow>
       adc_sum dr h channel n (acc + word_of_int raw) d')"

definition get_adc_volatge :: "adc_cfg \<Rightarrow> 'd adc_driver \<Rightarrow> u8 \<Rightarrow> 'd adc_button \<Rightarrow> u32 \<times> 'd adc_button" where
  "get_adc_volatge c dr channel g =
     (case adc_sum dr (adc1_handle g) channel (NO_OF_SAMPLES c) 0 (adc_dev g) of (reading, d) \<Rightarrow>
       (word_of_int (adc_cali_raw_to_voltage dr (adc1_cali_handle g) (reading div word_of_nat (NO_OF_SAMPLES c))),
        g\<lparr>adc_dev := d\<rparr>))"

definition ADC_BUTTON_COMBINE :: "u32 \<Rightarrow> u32 \<Rightarrow> u32" where
  "ADC_BUTTON_COMBINE channel index = push_bit 8 channel OR index"

definition ADC_BUTTON_SPLIT_INDEX :: "u32 \<Rightarrow> u32" where
  "ADC_BUTTON_SPLIT_INDEX data = data AND 0xff"

definition ADC_BUTTON_SPLIT_CHANNEL :: "u32 \<Rightarrow> u32" where
  "ADC_BUTTON_SPLIT_CHANNEL data = drop_bit 8 data AND 0xff"

definition button_adc_get_key_level :: "adc_cfg \<Rightarrow> 'd adc_driver \<Rightarrow> u32 \<Rightarrow> 'd adc_button \<Rightarrow> u8 \<times> 'd adc_button" where
  "button_adc_get_key_level c dr button_index g =
     (let chn = ADC_BUTTON_SPLIT_CHANNEL button_index;
          idx = unat (ADC_BUTTON_SPLIT_INDEX button_index)
      in if \<not> unat chn < ADC1_BUTTON_CHANNEL_MAX c then (0, g)
         else if \<not> idx < ADC_BUTTON_MAX_BUTTON c then (0, g)
         else
           case find_channel (ucast chn) g of
             None \<Rightarrow> (0, g)
           | Some i \<Rightarrow>
               (case esp_timer_get_time dr (adc_dev g) of (now, d) \<Rightarrow>
                  let g1 = g\<lparr>adc_dev := d\<rparr>;
                      g2 = (if now - last_time (ch g1 ! i) > 1000 then
                              (case get_adc_volatge c dr (ucast chn) g1 of (v, g2) \<Rightarrow>
                                case esp_timer_get_time dr (adc_dev g2) of (now2, d2) \<Rightarrow>
                                  on_channel i (\<lambda>x. x\<lparr>last_time := now2\<rparr>) (g2\<lparr>vol := ucast v, adc_dev := d2\<rparr>))
                            else g1);
                      b = btns (ch g2 ! i) ! idx
                  in if vol g2 \<le> bd_max b \<and> vol g2 > bd_min b then (1, g2) else (0, g2)))"

section \<open>Lemmas\<close>

lemma find_index_Some: "find_index P xs = Some i \<Longrightarrow> i < length xs \<and> P (xs ! i)"
  by (induction xs arbitrary: i) (auto split: if_splits)

lemma find_index_names: "find_index (\<lambda>x. ac_channel x = k) xs = find_index (\<lambda>y. y = k) (map ac_channel xs)"
  by (induction xs) auto

lemma find_channel_lt: "find_channel channel g = Some i \<Longrightarrow> i < length (ch g)"
  using find_index_Some by (fastforce simp: find_channel_def)

lemma find_channel_names:
  "map ac_channel (ch g) = map ac_channel (ch g') \<Longrightarrow> find_channel channel g = find_channel channel g'"
  by (simp add: find_channel_def find_index_names)

lemma get_adc_volatge_frame:
  "get_adc_volatge c dr channel g = (v, g') \<Longrightarrow> ch g' = ch g \<and> vol g' = vol g"
  by (auto simp: get_adc_volatge_def split: prod.splits)

section \<open>Properties\<close>

text \<open>The button of a handle: its channel entry and its window.\<close>

definition window_test :: "u16 \<Rightarrow> button_data \<Rightarrow> u8" where
  "window_test v b = (if v \<le> bd_max b \<and> v > bd_min b then 1 else 0)"

lemma get_key_level_stale:
  assumes "unat (ADC_BUTTON_SPLIT_CHANNEL k) < ADC1_BUTTON_CHANNEL_MAX c"
    and "unat (ADC_BUTTON_SPLIT_INDEX k) < ADC_BUTTON_MAX_BUTTON c"
    and "find_channel (ucast (ADC_BUTTON_SPLIT_CHANNEL k)) g = Some i"
    and "esp_timer_get_time dr (adc_dev g) = (now, d)" and "now - last_time (ch g ! i) \<le> 1000"
  shows "button_adc_get_key_level c dr k g =
    (window_test (vol g) (btns (ch g ! i) ! unat (ADC_BUTTON_SPLIT_INDEX k)), g\<lparr>adc_dev := d\<rparr>)"
  using assms by (auto simp: button_adc_get_key_level_def Let_def window_test_def not_less)

lemma get_key_level_fresh:
  assumes "unat (ADC_BUTTON_SPLIT_CHANNEL k) < ADC1_BUTTON_CHANNEL_MAX c"
    and "unat (ADC_BUTTON_SPLIT_INDEX k) < ADC_BUTTON_MAX_BUTTON c"
    and "find_channel (ucast (ADC_BUTTON_SPLIT_CHANNEL k)) g = Some i"
    and "esp_timer_get_time dr (adc_dev g) = (now, d)" and "now - last_time (ch g ! i) > 1000"
    and "get_adc_volatge c dr (ucast (ADC_BUTTON_SPLIT_CHANNEL k)) (g\<lparr>adc_dev := d\<rparr>) = (v, g2)"
  shows "\<exists>g'. button_adc_get_key_level c dr k g =
      (window_test (ucast v) (btns (ch g ! i) ! unat (ADC_BUTTON_SPLIT_INDEX k)), g')
    \<and> vol g' = ucast v \<and> map ac_channel (ch g') = map ac_channel (ch g)
    \<and> (\<forall>j. j \<noteq> i \<longrightarrow> ch g' ! j = ch g ! j)"
proof -
  have i: "i < length (ch g)" using find_channel_lt [OF assms(3)] .
  have g2: "ch g2 = ch g" using get_adc_volatge_frame [OF assms(6)] by simp
  obtain now2 d2 where t: "esp_timer_get_time dr (adc_dev g2) = (now2, d2)" by fastforce
  define g' where "g' = on_channel i (\<lambda>x. x\<lparr>last_time := now2\<rparr>) (g2\<lparr>vol := ucast v, adc_dev := d2\<rparr>)"
  have b: "btns (ch g' ! i) = btns (ch g ! i)" "vol g' = ucast v"
    using i by (simp_all add: g'_def on_channel_def g2)
  have m: "map ac_channel (ch g') = map ac_channel (ch g)"
    using i by (simp add: g'_def on_channel_def g2 map_update list_update_same_conv)
  have n: "\<forall>j. j \<noteq> i \<longrightarrow> ch g' ! j = ch g ! j" by (simp add: g'_def on_channel_def g2)
  have "button_adc_get_key_level c dr k g =
      (window_test (ucast v) (btns (ch g ! i) ! unat (ADC_BUTTON_SPLIT_INDEX k)), g')"
    using assms t b
    by (simp add: button_adc_get_key_level_def Let_def window_test_def g'_def [symmetric])
  then show ?thesis using b(2) m n by blast
qed

text \<open>The last sample is shared between channels. A button polled within a millisecond of the last
  sample of its own channel is judged by the voltage that was sampled last on whichever channel:
  after a fresh reading on another channel, by the voltage of that other pin.\<close>

theorem adc_voltage_shared_between_channels:
  assumes "unat (ADC_BUTTON_SPLIT_CHANNEL kb) < ADC1_BUTTON_CHANNEL_MAX c"
    and "unat (ADC_BUTTON_SPLIT_INDEX kb) < ADC_BUTTON_MAX_BUTTON c"
    and "find_channel (ucast (ADC_BUTTON_SPLIT_CHANNEL kb)) g = Some i"
    and "esp_timer_get_time dr (adc_dev g) = (now, d)" and "now - last_time (ch g ! i) > 1000"
    and "get_adc_volatge c dr (ucast (ADC_BUTTON_SPLIT_CHANNEL kb)) (g\<lparr>adc_dev := d\<rparr>) = (v, g2)"
    and "unat (ADC_BUTTON_SPLIT_CHANNEL ka) < ADC1_BUTTON_CHANNEL_MAX c"
    and "unat (ADC_BUTTON_SPLIT_INDEX ka) < ADC_BUTTON_MAX_BUTTON c"
    and "find_channel (ucast (ADC_BUTTON_SPLIT_CHANNEL ka)) g = Some j" and "i \<noteq> j"
    and "esp_timer_get_time dr (adc_dev (snd (button_adc_get_key_level c dr kb g))) = (later, d')"
    and "later - last_time (ch g ! j) \<le> 1000"
  shows "fst (button_adc_get_key_level c dr ka (snd (button_adc_get_key_level c dr kb g))) =
    window_test (ucast v) (btns (ch g ! j) ! unat (ADC_BUTTON_SPLIT_INDEX ka))"
proof -
  obtain g' where g': "button_adc_get_key_level c dr kb g =
      (window_test (ucast v) (btns (ch g ! i) ! unat (ADC_BUTTON_SPLIT_INDEX kb)), g')"
    "vol g' = ucast v" "map ac_channel (ch g') = map ac_channel (ch g)" "ch g' ! j = ch g ! j"
    using get_key_level_fresh [OF assms(1-6)] assms(10) by auto
  have "find_channel (ucast (ADC_BUTTON_SPLIT_CHANNEL ka)) g' = Some j"
    using assms(9) find_channel_names [OF g'(3)] by simp
  from get_key_level_stale [OF assms(7,8) this, of dr later d'] show ?thesis
    using assms(11,12) g' by simp
qed

definition cfg_two :: adc_cfg where
  "cfg_two = \<lparr>ADC_BUTTON_MAX_CHANNEL = 2, ADC_BUTTON_MAX_BUTTON = 1, NO_OF_SAMPLES = 1,
     ADC1_BUTTON_CHANNEL_MAX = 5\<rparr>"

text \<open>A driver whose pin 0 is at 500 mV and whose other pins are at 2000 mV; each look at the clock
  takes a hundred microseconds.\<close>

definition driver_two :: "u64 adc_driver" where
  "driver_two = \<lparr>adc_oneshot_new_unit = (\<lambda>d. (Some 1, d)), adc_oneshot_config_channel = (\<lambda>_ _ d. (True, d)),
     adc_cali_schemes = [], adc_oneshot_read = (\<lambda>_ chn d. (if chn = 0 then 500 else 2000, d)),
     adc_cali_raw_to_voltage = (\<lambda>_ raw. uint raw), adc_oneshot_del_unit = (\<lambda>_ d. (True, d)),
     esp_timer_get_time = (\<lambda>d. (d, d + 100))\<rparr>"

definition two_channels :: "u64 adc_button" where
  "two_channels = \<lparr>is_configured = True, adc1_cali_handle = 1, adc1_handle = 1,
     ch = [\<lparr>ac_channel = 0, is_init = 1, btns = [\<lparr>bd_min = 400, bd_max = 600\<rparr>], last_time = 5000\<rparr>,
           \<lparr>ac_channel = 1, is_init = 1, btns = [\<lparr>bd_min = 1900, bd_max = 2100\<rparr>], last_time = 3000\<rparr>],
     ch_num = 2, vol = 500, adc_dev = 5100\<rparr>"

lemma two_channels_fresh:
  "button_adc_get_key_level cfg_two driver_two 0x100 two_channels =
   (1, two_channels\<lparr>vol := 2000, adc_dev := 5300, ch := (ch two_channels)[1 := (ch two_channels ! 1)\<lparr>last_time := 5200\<rparr>]\<rparr>)"
  by code_simp

theorem adc_voltage_shared_between_channels_witness:
  "fst (button_adc_get_key_level cfg_two driver_two 0
     (snd (button_adc_get_key_level cfg_two driver_two 0x100 two_channels))) = window_test (ucast (2000 :: u32)) \<lparr>bd_min = 400, bd_max = 600\<rparr>"
proof -
  have s: "unat (ADC_BUTTON_SPLIT_CHANNEL 0x100) = 1" "unat (ADC_BUTTON_SPLIT_INDEX 0x100) = 0"
    "unat (ADC_BUTTON_SPLIT_CHANNEL 0) = 0" "unat (ADC_BUTTON_SPLIT_INDEX 0) = 0"
    "ucast (ADC_BUTTON_SPLIT_CHANNEL 0x100) = (1 :: u8)" "ucast (ADC_BUTTON_SPLIT_CHANNEL 0) = (0 :: u8)"
    by code_simp+
  have v: "get_adc_volatge cfg_two driver_two 1 (two_channels\<lparr>adc_dev := 5200\<rparr>) = (2000, two_channels\<lparr>adc_dev := 5200\<rparr>)"
    by code_simp
  show ?thesis
    using adc_voltage_shared_between_channels [of "0x100" cfg_two two_channels 1 driver_two 5100 5200 2000
        "two_channels\<lparr>adc_dev := 5200\<rparr>" 0 0 5300 5400] v
    by (simp add: s two_channels_fresh) (simp add: cfg_two_def two_channels_def driver_two_def find_channel_def)
qed

text \<open>A failed calibration is reported as success. When no calibration scheme works, initialising
  the first button of a channel returns \<open>ESP_OK\<close>, but neither the channel nor the button is
  set up.\<close>

theorem adc_calibration_failure_reported_as_ok:
  assumes "unat (cf_adc_channel config) < ADC1_BUTTON_CHANNEL_MAX c"
    and "unat (cf_button_index config) < ADC_BUTTON_MAX_BUTTON c" and "cf_max config > 0"
    and "is_configured g" and "find_channel (cf_adc_channel config) g = None"
    and "find_unused_channel g = Some i"
    and "adc_oneshot_config_channel dr (adc1_handle g) (cf_adc_channel config) (adc_dev g) = (True, d)"
    and "try_schemes (adc_cali_schemes dr) d = (None, d')"
  shows "\<exists>g'. button_adc_init c dr (Some config) g = (ESP_OK, g') \<and> ch g' = ch g
    \<and> find_channel (cf_adc_channel config) g' = None"
proof -
  have "is_init (ch g ! i) = 0" using find_index_Some assms(6) by (fastforce simp: find_unused_channel_def)
  then show ?thesis using assms
    by (simp add: button_adc_init_def Let_def adc_unit_init_def adc_channel_init_def adc_calibration_init_def
        find_channel_def)
qed

lemma adc_init_two: "ch (adc_init cfg_two d) = [zero_channel cfg_two, zero_channel cfg_two]"
    "adc_dev (adc_init cfg_two d) = d"
  by (simp_all add: adc_init_def cfg_two_def numeral_2_eq_2)

theorem adc_calibration_failure_reported_as_ok_witness:
  "\<exists>g'. button_adc_init cfg_two driver_two
       (Some \<lparr>cf_adc_channel = 3, cf_button_index = 0, cf_min = 100, cf_max = 200, cf_adc_handle = None\<rparr>)
       ((adc_init cfg_two 0)\<lparr>is_configured := True\<rparr>) = (ESP_OK, g')
     \<and> ch g' = ch ((adc_init cfg_two (0 :: u64))\<lparr>is_configured := True\<rparr>)
     \<and> find_channel (cf_adc_channel \<lparr>cf_adc_channel = 3, cf_button_index = 0, cf_min = 100, cf_max = 200,
         cf_adc_handle = None\<rparr>) g' = None"
  by (rule adc_calibration_failure_reported_as_ok [where i = 0 and d = 0 and d' = 0])
    (simp_all add: find_channel_def find_unused_channel_def adc_init_two zero_channel_def,
     simp_all add: cfg_two_def driver_two_def)

end
