(* ===== verification/Button.thy ===== *)
theory Button
  imports ButtonAdc
begin

text \<open>
  managed_components/espressif__button/iot_button.c and button_gpio.c: the button state machine run
  from a periodic timer, with debouncing, clicks, repeats and long presses; the list of created
  buttons; and the GPIO backend. A handle is the address of a button, the list of buttons keeps
  the order of the linked list. Calls to registered callbacks, and the life of the timer, are
  recorded in traces. GPIO, timer and custom backends are parameters.
\<close>

section \<open>Data\<close>

datatype button_event =
    BUTTON_PRESS_DOWN | BUTTON_PRESS_UP | BUTTON_PRESS_REPEAT | BUTTON_PRESS_REPEAT_DONE
  | BUTTON_SINGLE_CLICK | BUTTON_DOUBLE_CLICK | BUTTON_LONG_PRESS_START | BUTTON_LONG_PRESS_HOLD
  | BUTTON_EVENT_MAX | BUTTON_NONE_PRESS

text \<open>\<open>event < BUTTON_EVENT_MAX\<close>, and all those events in order.\<close>

definition valid_event :: "button_event \<Rightarrow> bool" where
  "valid_event ev \<longleftrightarrow> ev \<noteq> BUTTON_EVENT_MAX \<and> ev \<noteq> BUTTON_NONE_PRESS"

definition button_events :: "button_event list" where
  "button_events = [BUTTON_PRESS_DOWN, BUTTON_PRESS_UP, BUTTON_PRESS_REPEAT, BUTTON_PRESS_REPEAT_DONE,
     BUTTON_SINGLE_CLICK, BUTTON_DOUBLE_CLICK, BUTTON_LONG_PRESS_START, BUTTON_LONG_PRESS_HOLD]"

datatype button_type = BUTTON_TYPE_GPIO | BUTTON_TYPE_ADC | BUTTON_TYPE_CUSTOM | BUTTON_TYPE_OTHER

text \<open>The function a button reads its level with; a custom one by its address.\<close>

datatype hal_level = HAL_GPIO | HAL_ADC | HAL_CUSTOM nat

record button =
  ticks :: u16
  long_press_ticks :: u16
  short_press_ticks :: u16
  long_press_hold_cnt :: u16
  repeat :: u8
  state :: "3 word"
  debounce_cnt :: "3 word"
  active_level :: "1 word"
  button_level :: "1 word"
  event :: button_event
  hal_button_Level :: hal_level
  hal_button_deinit :: "nat option"
  hardware_data :: u32
  usr_data :: "button_event \<Rightarrow> nat"
  btn_type :: button_type
  cb :: "button_event \<Rightarrow> nat option"

record btn_cfg =
  BUTTON_PERIOD_TIME_MS :: nat
  BUTTON_DEBOUNCE_TICKS :: nat
  BUTTON_SHORT_PRESS_TIME_MS :: nat
  BUTTON_LONG_PRESS_TIME_MS :: nat
  BUTTON_SERIAL_TIME_MS :: nat

definition SHORT_TICKS :: "btn_cfg \<Rightarrow> nat" where
  "SHORT_TICKS c = BUTTON_SHORT_PRESS_TIME_MS c div BUTTON_PERIOD_TIME_MS c"

definition LONG_TICKS :: "btn_cfg \<Rightarrow> nat" where
  "LONG_TICKS c = BUTTON_LONG_PRESS_TIME_MS c div BUTTON_PERIOD_TIME_MS c"

definition SERIAL_TICKS :: "btn_cfg \<Rightarrow> nat" where
  "SERIAL_TICKS c = BUTTON_SERIAL_TIME_MS c div BUTTON_PERIOD_TIME_MS c"

definition TIME_TO_TICKS :: "btn_cfg \<Rightarrow> u16 \<Rightarrow> nat \<Rightarrow> u16" where
  "TIME_TO_TICKS c time config_time =
     word_of_nat (if time = 0 then config_time
       else if unat time div BUTTON_PERIOD_TIME_MS c \<noteq> 0 then unat time div BUTTON_PERIOD_TIME_MS c else 1)"

section \<open>The state machine\<close>

text \<open>A call of a callback: the event, the function and its user data.\<close>

type_synonym btn_call = "button_event \<times> nat \<times> nat"

definition CALL_EVENT_CB :: "button_event \<Rightarrow> button \<Rightarrow> btn_call list" where
  "CALL_EVENT_CB ev btn = (case cb btn ev of None \<Rightarrow> [] | Some f \<Rightarrow> [(ev, f, usr_data btn ev)])"

definition debounce :: "btn_cfg \<Rightarrow> u8 \<Rightarrow> button \<Rightarrow> button" where
  "debounce c read_gpio_level btn =
     (if read_gpio_level \<noteq> ucast (button_level btn) then
        let b1 = btn\<lparr>debounce_cnt := debounce_cnt btn + 1\<rparr> in
        if unat (debounce_cnt b1) \<ge> BUTTON_DEBOUNCE_TICKS c
        then b1\<lparr>button_level := ucast read_gpio_level, debounce_cnt := 0\<rparr> else b1
      else btn\<lparr>debounce_cnt := 0\<rparr>)"

definition state_machine :: "btn_cfg \<Rightarrow> button \<Rightarrow> button \<times> btn_call list" where
  "state_machine c btn =
     (let pressed = (button_level btn = active_level btn); call = (\<lambda>ev. CALL_EVENT_CB ev btn) in
      if state btn = 0 then
        if pressed then
          (btn\<lparr>event := BUTTON_PRESS_DOWN, ticks := 0, repeat := 1, state := 1\<rparr>, call BUTTON_PRESS_DOWN)
        else (btn\<lparr>event := BUTTON_NONE_PRESS\<rparr>, [])
      else if state btn = 1 then
        if \<not> pressed then
          (btn\<lparr>event := BUTTON_PRESS_UP, ticks := 0, state := 2\<rparr>, call BUTTON_PRESS_UP)
        else if ticks btn > long_press_ticks btn then
          (btn\<lparr>event := BUTTON_LONG_PRESS_START, state := 5\<rparr>, call BUTTON_LONG_PRESS_START)
        else (btn, [])
      else if state btn = 2 then
        if pressed then
          (btn\<lparr>event := BUTTON_PRESS_DOWN, repeat := repeat btn + 1, ticks := 0, state := 3\<rparr>,
           call BUTTON_PRESS_DOWN @ call BUTTON_PRESS_REPEAT)
        else if ticks btn > short_press_ticks btn then
          (btn\<lparr>event := BUTTON_PRESS_REPEAT_DONE, state := 0\<rparr>,
           (if repeat btn = 1 then call BUTTON_SINGLE_CLICK
            else if repeat btn = 2 then call BUTTON_DOUBLE_CLICK else []) @ call BUTTON_PRESS_REPEAT_DONE)
        else (btn, [])
      else if state btn = 3 then
        if \<not> pressed then
          (if unat (ticks btn) < SHORT_TICKS c
           then btn\<lparr>event := BUTTON_PRESS_UP, ticks := 0, state := 2\<rparr>
           else btn\<lparr>event := BUTTON_PRESS_UP, state := 0\<rparr>, call BUTTON_PRESS_UP)
        else (btn, [])
      else if state btn = 5 then
        if pressed then
          if unat (ticks btn) \<ge> (unat (long_press_hold_cnt btn) + 1) * SERIAL_TICKS c then
            (btn\<lparr>event := BUTTON_LONG_PRESS_HOLD, long_press_hold_cnt := long_press_hold_cnt btn + 1\<rparr>,
             call BUTTON_LONG_PRESS_HOLD)
          else (btn, [])
        else
          (btn\<lparr>event := BUTTON_PRESS_UP, state := 0, long_press_hold_cnt := 0\<rparr>, call BUTTON_PRESS_UP)
      else (btn, []))"

definition button_handler :: "btn_cfg \<Rightarrow> u8 \<Rightarrow> button \<Rightarrow> button \<times> btn_call list" where
  "button_handler c read_gpio_level btn =
     (let b1 = (if state btn > 0 then btn\<lparr>ticks := ticks btn + 1\<rparr> else btn)
      in state_machine c (debounce c read_gpio_level b1))"

text \<open>A run of the handler over successive levels, with the calls it makes.\<close>

fun button_run :: "btn_cfg \<Rightarrow> u8 list \<Rightarrow> button \<Rightarrow> button \<times> btn_call list" where
  "button_run c [] btn = (btn, [])"
| "button_run c (l # ls) btn =
     (case button_handler c l btn of (b1, cs1) \<Rightarrow>
       case button_run c ls b1 of (b2, cs2) \<Rightarrow> (b2, cs1 @ cs2))"

section \<open>GPIO backend\<close>

record gpio_conf =
  pin_bit_mask :: u64
  pull_down_en :: bool
  pull_up_en :: bool

record button_gpio_config =
  gc_gpio_num :: int
  gc_active_level :: u8

text \<open>The drivers under the buttons: ADC, GPIO, and custom functions by address.\<close>

record 'd board =
  brd_adc :: "'d adc_driver"
  gpio_is_valid :: "int \<Rightarrow> bool"
  gpio_config :: "gpio_conf \<Rightarrow> 'd \<Rightarrow> 'd"
  gpio_get_level :: "u32 \<Rightarrow> 'd \<Rightarrow> u32 \<times> 'd"
  custom_init :: "nat \<Rightarrow> u32 \<Rightarrow> 'd \<Rightarrow> bool \<times> 'd"
  custom_level :: "nat \<Rightarrow> u32 \<Rightarrow> 'd \<Rightarrow> u8 \<times> 'd"
  custom_deinit :: "nat \<Rightarrow> u32 \<Rightarrow> 'd \<Rightarrow> bool \<times> 'd"

definition on_dev :: "('d \<Rightarrow> 'd) \<Rightarrow> 'd adc_button \<Rightarrow> 'd adc_button" where
  "on_dev f g = g\<lparr>adc_dev := f (adc_dev g)\<rparr>"

definition button_gpio_init :: "'d board \<Rightarrow> button_gpio_config option \<Rightarrow> 'd adc_button \<Rightarrow> esp_err \<times> 'd adc_button" where
  "button_gpio_init b config_ptr g =
     (case config_ptr of None \<Rightarrow> (ESP_ERR_INVALID_ARG, g)
      | Some config \<Rightarrow>
          if \<not> gpio_is_valid b (gc_gpio_num config) then (ESP_ERR_INVALID_ARG, g)
          else
            let active = (gc_active_level config \<noteq> 0);
                conf = \<lparr>pin_bit_mask = push_bit (nat (gc_gpio_num config)) 1, pull_down_en = active,
                        pull_up_en = \<not> active\<rparr>
            in (ESP_OK, on_dev (gpio_config b conf) g))"

definition button_gpio_deinit :: "'d board \<Rightarrow> int \<Rightarrow> 'd adc_button \<Rightarrow> esp_err \<times> 'd adc_button" where
  "button_gpio_deinit b gpio_num g =
     (ESP_OK, on_dev (gpio_config b \<lparr>pin_bit_mask = push_bit (nat gpio_num) 1, pull_down_en = False,
                                     pull_up_en = False\<rparr>) g)"

definition button_gpio_get_key_level :: "'d board \<Rightarrow> u32 \<Rightarrow> 'd adc_button \<Rightarrow> u8 \<times> 'd adc_button" where
  "button_gpio_get_key_level b gpio_num g =
     (case gpio_get_level b gpio_num (adc_dev g) of (l, d) \<Rightarrow> (ucast l, g\<lparr>adc_dev := d\<rparr>))"

section \<open>The list of buttons\<close>

datatype timer_op = Timer_create | Timer_start_periodic nat | Timer_stop_op | Timer_delete

record 'd buttons =
  g_head_handle :: "(nat \<times> button) list"
  g_is_timer_running :: bool
  btn_timer_ops :: "timer_op list"
  btn_calls :: "(nat \<times> btn_call) list"
  btn_adc :: "'d adc_button"

definition read_level :: "adc_cfg \<Rightarrow> 'd board \<Rightarrow> hal_level \<Rightarrow> u32 \<Rightarrow> 'd adc_button \<Rightarrow> u8 \<times> 'd adc_button" where
  "read_level ac b hal data g =
     (case hal of
        HAL_GPIO \<Rightarrow> button_gpio_get_key_level b data g
      | HAL_ADC \<Rightarrow> button_adc_get_key_level ac (brd_adc b) data g
      | HAL_CUSTOM f \<Rightarrow> (case custom_level b f data (adc_dev g) of (l, d) \<Rightarrow> (l, g\<lparr>adc_dev := d\<rparr>)))"

text \<open>The timer callback: every button of the list in order.\<close>

fun button_cb_loop ::
  "btn_cfg \<Rightarrow> adc_cfg \<Rightarrow> 'd board \<Rightarrow> (nat \<times> button) list \<Rightarrow> 'd adc_button \<Rightarrow>
   (nat \<times> button) list \<times> (nat \<times> btn_call) list \<times> 'd adc_button" where
  "button_cb_loop c ac b [] g = ([], [], g)"
| "button_cb_loop c ac b ((h, btn) # rest) g =
     (case read_level ac b (hal_button_Level btn) (hardware_data btn) g of (l, g1) \<Rightarrow>
        case button_handler c l btn of (btn1, cs) \<Rightarrow>
          case button_cb_loop c ac b rest g1 of (rest1, cs1, g2) \<Rightarrow>
            ((h, btn1) # rest1, map (Pair h) cs @ cs1, g2))"

definition button_cb :: "btn_cfg \<Rightarrow> adc_cfg \<Rightarrow> 'd board \<Rightarrow> 'd buttons \<Rightarrow> 'd buttons" where
  "button_cb c ac b s =
     (case button_cb_loop c ac b (g_head_handle s) (btn_adc s) of (l, cs, g) \<Rightarrow>
        s\<lparr>g_head_handle := l, btn_calls := btn_calls s @ cs, btn_adc := g\<rparr>)"

text \<open>\<open>alloc\<close> is what \<open>calloc\<close> returns: \<open>None\<close>, or the address of a new zeroed button.\<close>

definition button_create_com ::
  "btn_cfg \<Rightarrow> nat option \<Rightarrow> u8 \<Rightarrow> hal_level option \<Rightarrow> u32 \<Rightarrow> u16 \<Rightarrow> u16 \<Rightarrow> 'd buttons \<Rightarrow> nat option \<times> 'd buttons" where
  "button_create_com c alloc active hal data long_t short_t s =
     (case hal of None \<Rightarrow> (None, s)
      | Some hal_get_key_state \<Rightarrow>
     (case alloc of None \<Rightarrow> (None, s)
      | Some h \<Rightarrow>
          let btn = \<lparr>ticks = 0, long_press_ticks = long_t, short_press_ticks = short_t, long_press_hold_cnt = 0,
                repeat = 0, state = 0, debounce_cnt = 0, active_level = ucast active,
                button_level = (if active = 0 then 1 else 0), event = BUTTON_NONE_PRESS,
                hal_button_Level = hal_get_key_state, hal_button_deinit = None, hardware_data = data,
                usr_data = (\<lambda>_. 0), btn_type = BUTTON_TYPE_GPIO, cb = (\<lambda>_. None)\<rparr>;
              s1 = s\<lparr>g_head_handle := (h, btn) # g_head_handle s\<rparr>
          in (Some h,
              if \<not> g_is_timer_running s1 then
                s1\<lparr>btn_timer_ops := btn_timer_ops s1 @ [Timer_create, Timer_start_periodic (BUTTON_PERIOD_TIME_MS c * 1000)],
                   g_is_timer_running := True\<rparr>
              else s1)))"

definition button_delete_com :: "nat \<Rightarrow> 'd buttons \<Rightarrow> esp_err \<times> 'd buttons" where
  "button_delete_com h s =
     (if h = 0 then (ESP_ERR_INVALID_ARG, s)
      else
        let s1 = s\<lparr>g_head_handle := filter (\<lambda>(k, _). k \<noteq> h) (g_head_handle s)\<rparr>;
            number = (word_of_nat (length (g_head_handle s1)) :: u16)
        in (ESP_OK,
            if number = 0 \<and> g_is_timer_running s1 then
              s1\<lparr>btn_timer_ops := btn_timer_ops s1 @ [Timer_stop_op, Timer_delete], g_is_timer_running := False\<rparr>
            else s1))"

section \<open>Creating and deleting\<close>

record custom_config =
  cc_active_level :: u8
  cc_init :: "nat option"
  cc_get_key_value :: "nat option"
  cc_deinit :: "nat option"
  cc_priv :: u32

record button_config =
  bc_type :: button_type
  bc_long_press_time :: u16
  bc_short_press_time :: u16
  bc_gpio :: button_gpio_config
  bc_adc :: button_adc_config
  bc_custom :: custom_config

definition find_button :: "nat \<Rightarrow> 'd buttons \<Rightarrow> button option" where
  "find_button h s = map_of (g_head_handle s) h"

definition update_button :: "nat \<Rightarrow> (button \<Rightarrow> button) \<Rightarrow> 'd buttons \<Rightarrow> 'd buttons" where
  "update_button h f s = s\<lparr>g_head_handle := map (\<lambda>(k, b). (k, if k = h then f b else b)) (g_head_handle s)\<rparr>"

definition iot_button_create ::
  "btn_cfg \<Rightarrow> adc_cfg \<Rightarrow> 'd board \<Rightarrow> nat option \<Rightarrow> button_config option \<Rightarrow> 'd buttons \<Rightarrow> nat option \<times> 'd buttons" where
  "iot_button_create c ac b alloc config_ptr s =
     (case config_ptr of None \<Rightarrow> (None, s)
      | Some config \<Rightarrow>
          let long_t = TIME_TO_TICKS c (bc_long_press_time config) (LONG_TICKS c);
              short_t = TIME_TO_TICKS c (bc_short_press_time config) (SHORT_TICKS c);
              created =
                (case bc_type config of
                   BUTTON_TYPE_GPIO \<Rightarrow>
                     (case button_gpio_init b (Some (bc_gpio config)) (btn_adc s) of (r, g) \<Rightarrow>
                        if r \<noteq> ESP_OK then (None, s\<lparr>btn_adc := g\<rparr>)
                        else button_create_com c alloc (gc_active_level (bc_gpio config)) (Some HAL_GPIO)
                               (word_of_int (gc_gpio_num (bc_gpio config))) long_t short_t (s\<lparr>btn_adc := g\<rparr>))
                 | BUTTON_TYPE_ADC \<Rightarrow>
                     (case button_adc_init ac (brd_adc b) (Some (bc_adc config)) (btn_adc s) of (r, g) \<Rightarrow>
                        if r \<noteq> ESP_OK then (None, s\<lparr>btn_adc := g\<rparr>)
                        else button_create_com c alloc 1 (Some HAL_ADC)
                               (ADC_BUTTON_COMBINE (ucast (cf_adc_channel (bc_adc config)))
                                  (ucast (cf_button_index (bc_adc config)))) long_t short_t (s\<lparr>btn_adc := g\<rparr>))
                 | BUTTON_TYPE_CUSTOM \<Rightarrow>
                     (let cc = bc_custom config in
                      case (case cc_init cc of None \<Rightarrow> (True, adc_dev (btn_adc s))
                            | Some f \<Rightarrow> custom_init b f (cc_priv cc) (adc_dev (btn_adc s))) of
                        (ok, d) \<Rightarrow>
                          let s1 = s\<lparr>btn_adc := (btn_adc s)\<lparr>adc_dev := d\<rparr>\<rparr> in
                          if \<not> ok then (None, s1)
                          else
                            case button_create_com c alloc (cc_active_level cc)
                                   (map_option HAL_CUSTOM (cc_get_key_value cc)) (cc_priv cc) long_t short_t s1 of
                              (None, s2) \<Rightarrow> (None, s2)
                            | (Some h, s2) \<Rightarrow>
                                (Some h, update_button h (\<lambda>x. x\<lparr>hal_button_deinit := cc_deinit cc\<rparr>) s2))
                 | BUTTON_TYPE_OTHER \<Rightarrow> (None, s))
          in case created of (None, s1) \<Rightarrow> (None, s1)
             | (Some h, s1) \<Rightarrow> (Some h, update_button h (\<lambda>x. x\<lparr>btn_type := bc_type config\<rparr>) s1))"

text \<open>Using a handle that is not a live button is undefined behaviour: \<open>None\<close>.\<close>

definition iot_button_delete ::
  "adc_cfg \<Rightarrow> 'd board \<Rightarrow> nat \<Rightarrow> 'd buttons \<Rightarrow> (esp_err \<times> 'd buttons) option" where
  "iot_button_delete ac b h s =
     (if h = 0 then Some (ESP_ERR_INVALID_ARG, s)
      else
        case find_button h s of None \<Rightarrow> None
        | Some btn \<Rightarrow>
            (case (case btn_type btn of
                     BUTTON_TYPE_GPIO \<Rightarrow>
                       (case button_gpio_deinit b (sint (hardware_data btn)) (btn_adc s) of (r, g) \<Rightarrow> (r, s\<lparr>btn_adc := g\<rparr>))
                   | BUTTON_TYPE_ADC \<Rightarrow>
                       (case button_adc_deinit ac (brd_adc b) (ucast (ADC_BUTTON_SPLIT_CHANNEL (hardware_data btn)))
                               (uint (ADC_BUTTON_SPLIT_INDEX (hardware_data btn))) (btn_adc s) of
                          (r, g) \<Rightarrow> (r, s\<lparr>btn_adc := g\<rparr>))
                   | BUTTON_TYPE_CUSTOM \<Rightarrow>
                       (case (case hal_button_deinit btn of None \<Rightarrow> (True, adc_dev (btn_adc s))
                              | Some f \<Rightarrow> custom_deinit b f (hardware_data btn) (adc_dev (btn_adc s))) of
                          (ok, d) \<Rightarrow>
                            (if ok then ESP_OK else ESP_FAIL,
                             update_button h (\<lambda>x. x\<lparr>hardware_data := 0\<rparr>)
                               (s\<lparr>btn_adc := (btn_adc s)\<lparr>adc_dev := d\<rparr>\<rparr>)))
                   | BUTTON_TYPE_OTHER \<Rightarrow> (ESP_OK, s)) of
               (r, s1) \<Rightarrow>
                 if r \<noteq> ESP_OK then Some (ESP_FAIL, s1)
                 else Some (ESP_OK, snd (button_delete_com h s1))))"

section \<open>Callbacks and queries\<close>

definition iot_button_register_cb ::
  "nat \<Rightarrow> button_event \<Rightarrow> nat option \<Rightarrow> nat \<Rightarrow> 'd buttons \<Rightarrow> (esp_err \<times> 'd buttons) option" where
  "iot_button_register_cb h ev f data s =
     (if h = 0 then Some (ESP_ERR_INVALID_ARG, s)
      else if \<not> valid_event ev then Some (ESP_ERR_INVALID_ARG, s)
      else
        case find_button h s of None \<Rightarrow> None
        | Some _ \<Rightarrow> Some (ESP_OK,
            update_button h (\<lambda>b. b\<lparr>cb := (cb b)(ev := f), usr_data := (usr_data b)(ev := data)\<rparr>) s))"

definition iot_button_unregister_cb ::
  "nat \<Rightarrow> button_event \<Rightarrow> 'd buttons \<Rightarrow> (esp_err \<times> 'd buttons) option" where
  "iot_button_unregister_cb h ev s =
     (if h = 0 then Some (ESP_ERR_INVALID_ARG, s)
      else if \<not> valid_event ev then Some (ESP_ERR_INVALID_ARG, s)
      else
        case find_button h s of None \<Rightarrow> None
        | Some _ \<Rightarrow> Some (ESP_OK,
            update_button h (\<lambda>b. b\<lparr>cb := (cb b)(ev := None), usr_data := (usr_data b)(ev := 0)\<rparr>) s))"

text \<open>The error code of a null handle comes back as a count.\<close>

definition ESP_ERR_INVALID_ARG_CODE :: nat where "ESP_ERR_INVALID_ARG_CODE = 0x102"

definition iot_button_count_cb :: "nat \<Rightarrow> 'd buttons \<Rightarrow> nat option" where
  "iot_button_count_cb h s =
     (if h = 0 then Some ESP_ERR_INVALID_ARG_CODE
      else map_option (\<lambda>b. length (filter (\<lambda>ev. cb b ev \<noteq> None) button_events)) (find_button h s))"

definition iot_button_get_event :: "nat \<Rightarrow> 'd buttons \<Rightarrow> button_event option" where
  "iot_button_get_event h s = (if h = 0 then Some BUTTON_NONE_PRESS else map_option event (find_button h s))"

definition iot_button_get_repeat :: "nat \<Rightarrow> 'd buttons \<Rightarrow> u8 option" where
  "iot_button_get_repeat h s = (if h = 0 then Some 0 else map_option repeat (find_button h s))"

definition iot_button_get_ticks_time :: "btn_cfg \<Rightarrow> nat \<Rightarrow> 'd buttons \<Rightarrow> u16 option" where
  "iot_button_get_ticks_time c h s =
     (if h = 0 then Some 0
      else map_option (\<lambda>b. ticks b * word_of_nat (BUTTON_PERIOD_TIME_MS c)) (find_button h s))"

definition iot_button_get_long_press_hold_cnt :: "nat \<Rightarrow> 'd buttons \<Rightarrow> u16 option" where
  "iot_button_get_long_press_hold_cnt h s = (if h = 0 then Some 0 else map_option long_press_hold_cnt (find_button h s))"

section \<open>The handler\<close>

definition btn_ok :: "button \<Rightarrow> bool" where
  "btn_ok b \<longleftrightarrow> state b \<in> {0, 1, 2, 3, 5}"

text \<open>A press was announced and its release not yet.\<close>

definition held :: "button \<Rightarrow> bool" where
  "held b \<longleftrightarrow> state b \<in> {1, 3, 5}"

text \<open>Presses and releases in turn, from a button held (or not) to one held (or not).\<close>

fun alternates :: "bool \<Rightarrow> bool \<Rightarrow> btn_call list \<Rightarrow> bool" where
  "alternates p q [] = (p = q)"
| "alternates p q ((ev, f, d) # cs) =
     (if ev = BUTTON_PRESS_DOWN then \<not> p \<and> alternates True q cs
      else if ev = BUTTON_PRESS_UP then p \<and> alternates False q cs
      else alternates p q cs)"

lemma alternates_append: "alternates p q xs \<Longrightarrow> alternates q r ys \<Longrightarrow> alternates p r (xs @ ys)"
  by (induction p q xs rule: alternates.induct) (auto split: if_splits)

lemma debounce_frame [simp]:
  "state (debounce c l b) = state b" "cb (debounce c l b) = cb b" "ticks (debounce c l b) = ticks b"
  "repeat (debounce c l b) = repeat b" "short_press_ticks (debounce c l b) = short_press_ticks b"
  "long_press_ticks (debounce c l b) = long_press_ticks b" "active_level (debounce c l b) = active_level b"
  "usr_data (debounce c l b) = usr_data b"
  by (simp_all add: debounce_def Let_def)

lemma state_machine_frame:
  "cb (fst (state_machine c b)) = cb b" "usr_data (fst (state_machine c b)) = usr_data b"
  "button_level (fst (state_machine c b)) = button_level b"
  "debounce_cnt (fst (state_machine c b)) = debounce_cnt b"
  "active_level (fst (state_machine c b)) = active_level b"
  "short_press_ticks (fst (state_machine c b)) = short_press_ticks b"
  by (simp_all add: state_machine_def Let_def)

lemma btn_ok_cases:
  assumes "btn_ok b"
  obtains "state b = 0" | "state b = 1" | "state b = 2" | "state b = 3" | "state b = 5"
  using assms by (auto simp: btn_ok_def)

lemma state_machine_alternates:
  assumes "btn_ok b" "cb b BUTTON_PRESS_DOWN \<noteq> None" "cb b BUTTON_PRESS_UP \<noteq> None"
    and "state_machine c b = (b', cs)"
  shows "btn_ok b' \<and> alternates (held b) (held b') cs"
  using assms(1)
proof (cases rule: btn_ok_cases)
  case 1
  then show ?thesis using assms(2-4)
    by (auto simp: state_machine_def Let_def btn_ok_def held_def CALL_EVENT_CB_def split: if_splits option.splits)
next
  case 2
  then show ?thesis using assms(2-4)
    by (auto simp: state_machine_def Let_def btn_ok_def held_def CALL_EVENT_CB_def split: if_splits option.splits)
next
  case 3
  then show ?thesis using assms(2-4)
    by (auto simp: state_machine_def Let_def btn_ok_def held_def CALL_EVENT_CB_def split: if_splits option.splits)
next
  case 4
  then show ?thesis using assms(2-4)
    by (auto simp: state_machine_def Let_def btn_ok_def held_def CALL_EVENT_CB_def split: if_splits option.splits)
next
  case 5
  then show ?thesis using assms(2-4)
    by (auto simp: state_machine_def Let_def btn_ok_def held_def CALL_EVENT_CB_def split: if_splits option.splits)
qed

lemma button_handler_alternates:
  assumes "btn_ok b" "cb b BUTTON_PRESS_DOWN \<noteq> None" "cb b BUTTON_PRESS_UP \<noteq> None"
    and "button_handler c l b = (b', cs)"
  shows "btn_ok b' \<and> cb b' = cb b \<and> alternates (held b) (held b') cs"
proof -
  define b1 where "b1 = debounce c l (if state b > 0 then b\<lparr>ticks := ticks b + 1\<rparr> else b)"
  have b1: "state b1 = state b" "cb b1 = cb b" by (simp_all add: b1_def)
  have run: "state_machine c b1 = (b', cs)" using assms(4) by (simp add: button_handler_def Let_def b1_def)
  have "btn_ok b1" using assms(1) b1 by (simp add: btn_ok_def)
  then show ?thesis
    using state_machine_alternates [OF _ _ _ run] state_machine_frame(1) [of c b1] assms(2,3) b1 run
    by (simp add: held_def)
qed

text \<open>C13: Press and release callbacks come in turn. Over any sequence of pin levels, the calls for
  pressing down and going up alternate, starting with a press when the button was not held, and
  the state machine knows whether it is held.\<close>

theorem presses_and_releases_alternate:
  assumes "btn_ok btn" and "cb btn BUTTON_PRESS_DOWN \<noteq> None" and "cb btn BUTTON_PRESS_UP \<noteq> None"
    and "button_run c levels btn = (btn', calls)"
  shows "btn_ok btn' \<and> alternates (held btn) (held btn') calls"
  using assms
proof (induction levels arbitrary: btn calls)
  case (Cons l ls)
  obtain b1 cs1 where 1: "button_handler c l btn = (b1, cs1)" by fastforce
  obtain b2 cs2 where 2: "button_run c ls b1 = (b2, cs2)" by fastforce
  have h: "btn_ok b1 \<and> cb b1 = cb btn \<and> alternates (held btn) (held b1) cs1"
    by (rule button_handler_alternates [OF Cons.prems(1-3) 1])
  have "btn' = b2" "calls = cs1 @ cs2" using Cons.prems(4) 1 2 by simp_all
  then show ?case using Cons.IH [of b1 cs2] Cons.prems(2,3) 2 h alternates_append by fastforce
qed simp

text \<open>A button as \<open>button_create_com\<close> makes it, active low, with two callbacks.\<close>

definition sample_button :: button where
  "sample_button = \<lparr>ticks = 0, long_press_ticks = 250, short_press_ticks = 9, long_press_hold_cnt = 0,
     repeat = 0, state = 0, debounce_cnt = 0, active_level = 0, button_level = 1, event = BUTTON_NONE_PRESS,
     hal_button_Level = HAL_GPIO, hal_button_deinit = None, hardware_data = 9, usr_data = (\<lambda>_. 0),
     btn_type = BUTTON_TYPE_GPIO, cb = (\<lambda>_. Some 7)\<rparr>"

text \<open>The settings of sdkconfig.defaults, the rest at their Kconfig defaults.\<close>

definition cfg_repo :: btn_cfg where
  "cfg_repo = \<lparr>BUTTON_PERIOD_TIME_MS = 20, BUTTON_DEBOUNCE_TICKS = 2, BUTTON_SHORT_PRESS_TIME_MS = 180,
     BUTTON_LONG_PRESS_TIME_MS = 5000, BUTTON_SERIAL_TIME_MS = 20\<rparr>"

theorem presses_and_releases_alternate_witness:
  "alternates (held sample_button) (held (fst (button_run cfg_repo [0, 0, 0, 1, 1, 1] sample_button)))
     (snd (button_run cfg_repo [0, 0, 0, 1, 1, 1] sample_button))"
  using presses_and_releases_alternate [of sample_button cfg_repo "[0, 0, 0, 1, 1, 1]"
      "fst (button_run cfg_repo [0, 0, 0, 1, 1, 1] sample_button)"
      "snd (button_run cfg_repo [0, 0, 0, 1, 1, 1] sample_button)"]
  by (simp add: sample_button_def btn_ok_def)

section \<open>Debouncing\<close>

lemma handler_level:
  "button_level (fst (button_handler c l b)) = button_level (debounce c l b)
   \<and> debounce_cnt (fst (button_handler c l b)) = debounce_cnt (debounce c l b)
   \<and> active_level (fst (button_handler c l b)) = active_level b"
  by (simp add: button_handler_def Let_def state_machine_frame debounce_def)

lemma debounce_count:
  assumes "unat (debounce_cnt b) + 1 < BUTTON_DEBOUNCE_TICKS c" and "BUTTON_DEBOUNCE_TICKS c \<le> 8"
  shows "button_level (debounce c l b) = button_level b
    \<and> unat (debounce_cnt (debounce c l b)) \<le> unat (debounce_cnt b) + 1
    \<and> debounce_cnt (debounce c (ucast (button_level b)) b) = 0"
proof -
  have "unat (debounce_cnt b + 1) = unat (debounce_cnt b) + 1"
    using assms by (simp add: unat_word_ariths)
  then show ?thesis using assms(1) by (simp add: debounce_def Let_def)
qed

lemma run_append:
  "button_run c (xs @ ys) b = (case button_run c xs b of (b1, cs1) \<Rightarrow>
     case button_run c ys b1 of (b2, cs2) \<Rightarrow> (b2, cs1 @ cs2))"
  by (induction xs arbitrary: b) (auto split: prod.splits)

lemma fst_run_Cons: "fst (button_run c (l # ls) b) = fst (button_run c ls (fst (button_handler c l b)))"
  by (simp split: prod.splits)

lemma fst_run_append: "fst (button_run c (xs @ ys) b) = fst (button_run c ys (fst (button_run c xs b)))"
  by (simp add: run_append split: prod.splits)

lemma glitch_run:
  "length ls + unat (debounce_cnt b) < BUTTON_DEBOUNCE_TICKS c \<Longrightarrow> BUTTON_DEBOUNCE_TICKS c \<le> 8 \<Longrightarrow>
   button_level (fst (button_run c ls b)) = button_level b
   \<and> unat (debounce_cnt (fst (button_run c ls b))) \<le> unat (debounce_cnt b) + length ls"
proof (induction ls arbitrary: b)
  case (Cons l ls)
  define b1 where "b1 = fst (button_handler c l b)"
  have d: "unat (debounce_cnt b) + 1 < BUTTON_DEBOUNCE_TICKS c \<or> ls = []" using Cons.prems(1) by (cases ls) auto
  have lt: "unat (debounce_cnt b) + 1 < BUTTON_DEBOUNCE_TICKS c" using Cons.prems(1) by simp
  have b1: "button_level b1 = button_level b" "unat (debounce_cnt b1) \<le> unat (debounce_cnt b) + 1"
    using debounce_count [OF lt Cons.prems(2)] handler_level [of c l b] by (simp_all add: b1_def)
  then show ?case using Cons.IH [of b1] Cons.prems unfolding fst_run_Cons b1_def [symmetric] by simp
qed simp

text \<open>Debouncing hides glitches. Whatever the pin does for fewer polls than the debounce setting,
  the accepted level stays, and one poll at the accepted level later the count of deviating polls
  starts again.\<close>

theorem short_glitch_ignored:
  assumes "debounce_cnt btn = 0" and "length glitch < BUTTON_DEBOUNCE_TICKS c" and "BUTTON_DEBOUNCE_TICKS c \<le> 8"
  shows "let b = fst (button_run c (glitch @ [ucast (button_level btn)]) btn)
    in button_level b = button_level btn \<and> debounce_cnt b = 0"
proof -
  define b1 where "b1 = fst (button_run c glitch btn)"
  have b1: "button_level b1 = button_level btn" using glitch_run [of glitch btn c] assms by (simp add: b1_def)
  have "fst (button_run c (glitch @ [ucast (button_level btn)]) btn) = fst (button_handler c (ucast (button_level b1)) b1)"
    by (simp add: fst_run_append fst_run_Cons b1 b1_def [symmetric])
  then show ?thesis using handler_level [of c "ucast (button_level b1)" b1] b1 by (simp add: Let_def debounce_def)
qed

theorem short_glitch_ignored_witness:
  "let b = fst (button_run cfg_repo ([0] @ [ucast (button_level sample_button)]) sample_button)
   in button_level b = button_level sample_button \<and> debounce_cnt b = 0"
  by (rule short_glitch_ignored) (simp_all add: sample_button_def cfg_repo_def)

text \<open>A debounce setting of 8 disables a button. The counter has three bits and never reaches 8, so
  with the largest setting the configuration allows a released button stays released, without a
  single callback, whatever the pin does.\<close>

theorem debounce_eight_never_presses:
  assumes "BUTTON_DEBOUNCE_TICKS c = 8" and "state btn = 0" and "button_level btn \<noteq> active_level btn"
  shows "snd (button_run c levels btn) = []"
  using assms(2,3)
proof (induction levels arbitrary: btn)
  case (Cons l ls)
  have "unat (debounce_cnt btn + 1) < 8" using unsigned_less [of "debounce_cnt btn + 1"] by simp
  then have lev: "button_level (debounce c l btn) = button_level btn"
    using assms(1) by (simp add: debounce_def Let_def not_le)
  have h: "button_handler c l btn = ((debounce c l btn)\<lparr>event := BUTTON_NONE_PRESS\<rparr>, [])"
    using Cons.prems lev by (simp add: button_handler_def Let_def state_machine_def)
  then show ?case using Cons.IH [of "(debounce c l btn)\<lparr>event := BUTTON_NONE_PRESS\<rparr>"] Cons.prems lev
    by (simp split: prod.splits)
qed simp

theorem debounce_eight_never_presses_witness:
  "snd (button_run (cfg_repo\<lparr>BUTTON_DEBOUNCE_TICKS := 8\<rparr>) (replicate 50 0) sample_button) = []"
  by (rule debounce_eight_never_presses) (simp_all add: sample_button_def)

section \<open>Clicks\<close>

lemma resting_step:
  assumes "state b = 2" "button_level b \<noteq> active_level b" "ticks b + 1 \<le> short_press_ticks b" "debounce_cnt b = 0"
  shows "button_handler c (ucast (button_level b)) b = (b\<lparr>ticks := ticks b + 1\<rparr>, [])"
proof -
  have "\<not> ticks b + 1 > short_press_ticks b" using assms(3) by simp
  then show ?thesis using assms(1,2,4) by (simp add: button_handler_def Let_def debounce_def state_machine_def)
qed

lemma resting_run:
  "state b = 2 \<Longrightarrow> button_level b \<noteq> active_level b \<Longrightarrow> debounce_cnt b = 0 \<Longrightarrow>
   unat (ticks b) + n \<le> unat (short_press_ticks b) \<Longrightarrow>
   button_run c (replicate n (ucast (button_level b))) b = (b\<lparr>ticks := ticks b + word_of_nat n\<rparr>, [])"
proof (induction n arbitrary: b)
  case (Suc n)
  have s16: "unat (short_press_ticks b) < 65536" using unsigned_less [of "short_press_ticks b"] by simp
  have u: "unat (ticks b + 1) = unat (ticks b) + 1"
    using Suc.prems(4) s16 by (simp add: unat_word_ariths)
  then have "ticks b + 1 \<le> short_press_ticks b" using Suc.prems(4) by (simp add: word_le_nat_alt)
  note step = resting_step [OF Suc.prems(1,2) this Suc.prems(3), of c]
  have "button_run c (replicate n (ucast (button_level b))) (b\<lparr>ticks := ticks b + 1\<rparr>) =
      (b\<lparr>ticks := ticks b + 1 + word_of_nat n\<rparr>, [])"
    using Suc.IH [of "b\<lparr>ticks := ticks b + 1\<rparr>"] Suc.prems u by simp
  then show ?case using step by (simp add: add_ac)
qed simp

text \<open>C14: A click is told from a double click by waiting. After a release, once the button has rested
  for longer than the short-press time, exactly one report goes out: single click after one press,
  double click after two, none of the two after more, then the end of the sequence, with the count
  of presses; and the button is idle again.\<close>

theorem clicks_reported:
  assumes "state btn = 2" and "button_level btn \<noteq> active_level btn" and "debounce_cnt btn = 0"
    and "ticks btn = 0" and "short_press_ticks btn < 0xFFFF"
  shows "let r = button_run c (replicate (unat (short_press_ticks btn) + 1) (ucast (button_level btn))) btn
    in snd r = (if repeat btn = 1 then CALL_EVENT_CB BUTTON_SINGLE_CLICK btn
                else if repeat btn = 2 then CALL_EVENT_CB BUTTON_DOUBLE_CLICK btn else [])
               @ CALL_EVENT_CB BUTTON_PRESS_REPEAT_DONE btn
      \<and> state (fst r) = 0 \<and> event (fst r) = BUTTON_PRESS_REPEAT_DONE \<and> repeat (fst r) = repeat btn"
proof -
  define n where "n = unat (short_press_ticks btn)"
  define b1 where "b1 = btn\<lparr>ticks := word_of_nat n\<rparr>"
  have run: "button_run c (replicate n (ucast (button_level btn))) btn = (b1, [])"
    using resting_run [OF assms(1-3), of n c] assms(4) by (simp add: n_def b1_def)
  have t: "word_of_nat n = short_press_ticks btn" by (simp add: n_def)
  have gt: "short_press_ticks btn + 1 > short_press_ticks btn"
    using assms(5) by (simp add: word_less_nat_alt unat_word_ariths)
  have split: "replicate (n + 1) (ucast (button_level btn)) =
      replicate n (ucast (button_level btn)) @ [ucast (button_level btn)]"
    by (metis replicate_append_same add.commute plus_1_eq_Suc replicate_Suc)
  have b: "CALL_EVENT_CB ev (btn\<lparr>ticks := x, debounce_cnt := y\<rparr>) = CALL_EVENT_CB ev btn" for ev x y
    by (simp add: CALL_EVENT_CB_def split: option.splits)
  have "button_handler c (ucast (button_level btn)) b1 =
      (b1\<lparr>ticks := short_press_ticks btn + 1, event := BUTTON_PRESS_REPEAT_DONE, state := 0\<rparr>,
       (if repeat btn = 1 then CALL_EVENT_CB BUTTON_SINGLE_CLICK btn
        else if repeat btn = 2 then CALL_EVENT_CB BUTTON_DOUBLE_CLICK btn else [])
       @ CALL_EVENT_CB BUTTON_PRESS_REPEAT_DONE btn)"
    using assms(1-3) gt
    by (simp add: button_handler_def Let_def debounce_def state_machine_def b1_def t b)
  then have "button_run c (replicate (n + 1) (ucast (button_level btn))) btn =
      (b1\<lparr>ticks := short_press_ticks btn + 1, event := BUTTON_PRESS_REPEAT_DONE, state := 0\<rparr>,
       (if repeat btn = 1 then CALL_EVENT_CB BUTTON_SINGLE_CLICK btn
        else if repeat btn = 2 then CALL_EVENT_CB BUTTON_DOUBLE_CLICK btn else [])
       @ CALL_EVENT_CB BUTTON_PRESS_REPEAT_DONE btn)"
    unfolding split run_append run by simp
  then show ?thesis unfolding n_def [symmetric] Let_def by (simp add: b1_def)
qed

theorem clicks_reported_witness:
  "snd (button_run cfg_repo (replicate (unat (9 :: u16) + 1) 1)
     (sample_button\<lparr>state := 2, repeat := 2\<rparr>)) =
   [(BUTTON_DOUBLE_CLICK, 7, 0), (BUTTON_PRESS_REPEAT_DONE, 7, 0)]"
proof -
  have "ucast (1 :: 1 word) = (1 :: u8)" by simp
  then show ?thesis
    using clicks_reported [of "sample_button\<lparr>state := 2, repeat := 2\<rparr>" cfg_repo]
    by (simp add: sample_button_def Let_def CALL_EVENT_CB_def)
qed

section \<open>The list and its timer\<close>

text \<open>
  The operations of the library in any order. \<open>calloc\<close> returns an address that is not in use;
  handles are used while they are live; a 16-bit count of buttons is never exceeded.
\<close>

inductive buttons_step :: "btn_cfg \<Rightarrow> adc_cfg \<Rightarrow> 'd board \<Rightarrow> 'd buttons \<Rightarrow> 'd buttons \<Rightarrow> bool"
  for c :: btn_cfg and ac :: adc_cfg and b :: "'d board" where
  bs_create: "length (g_head_handle s) < 65535 \<Longrightarrow>
     (\<And>h. alloc = Some h \<Longrightarrow> h \<noteq> 0 \<and> find_button h s = None) \<Longrightarrow>
     buttons_step c ac b s (snd (iot_button_create c ac b alloc config s))"
| bs_delete: "iot_button_delete ac b h s = Some (r, s') \<Longrightarrow> buttons_step c ac b s s'"
| bs_register: "iot_button_register_cb h ev f data s = Some (r, s') \<Longrightarrow> buttons_step c ac b s s'"
| bs_unregister: "iot_button_unregister_cb h ev s = Some (r, s') \<Longrightarrow> buttons_step c ac b s s'"
| bs_timer: "buttons_step c ac b s (button_cb c ac b s)"

inductive buttons_reachable :: "btn_cfg \<Rightarrow> adc_cfg \<Rightarrow> 'd board \<Rightarrow> 'd buttons \<Rightarrow> bool"
  for c :: btn_cfg and ac :: adc_cfg and b :: "'d board" where
  br_init: "buttons_reachable c ac b
     \<lparr>g_head_handle = [], g_is_timer_running = False, btn_timer_ops = [], btn_calls = [], btn_adc = g\<rparr>"
| br_step: "buttons_reachable c ac b s \<Longrightarrow> buttons_step c ac b s s' \<Longrightarrow> buttons_reachable c ac b s'"

text \<open>Live handles are distinct and not null, the timer runs exactly while there are buttons.\<close>

definition handles :: "'d buttons \<Rightarrow> nat list" where
  "handles s = map fst (g_head_handle s)"

definition buttons_inv :: "'d buttons \<Rightarrow> bool" where
  "buttons_inv s \<longleftrightarrow> distinct (handles s) \<and> 0 \<notin> set (handles s) \<and> length (handles s) \<le> 65535
     \<and> (g_is_timer_running s \<longleftrightarrow> g_head_handle s \<noteq> [])"

lemma buttons_inv_adc [simp]: "buttons_inv (s\<lparr>btn_adc := g\<rparr>) = buttons_inv s"
  by (simp add: buttons_inv_def handles_def)

lemma handles_update [simp]: "handles (update_button h f s) = handles s"
  by (simp add: handles_def update_button_def case_prod_unfold comp_def)

lemma buttons_inv_update [simp]: "buttons_inv (update_button h f s) = buttons_inv s"
  unfolding buttons_inv_def handles_update by (simp add: update_button_def)

lemma find_button_None: "find_button h s = None \<longleftrightarrow> h \<notin> set (handles s)"
  by (simp add: find_button_def handles_def map_of_eq_None_iff)

lemma create_com_inv:
  assumes "buttons_inv s" "length (g_head_handle s) < 65535"
    and "\<And>h. alloc = Some h \<Longrightarrow> h \<noteq> 0 \<and> find_button h s = None"
    and "button_create_com c alloc active hal data lt st s = (r, s')"
  shows "buttons_inv s'"
  using assms
  by (auto simp: button_create_com_def Let_def buttons_inv_def handles_def find_button_None
      split: option.splits if_splits)

lemma delete_com_inv: "buttons_inv s \<Longrightarrow> buttons_inv (snd (button_delete_com h s))"
proof -
  assume inv: "buttons_inv s"
  define l where "l = filter (\<lambda>(k, _). k \<noteq> h) (g_head_handle s)"
  have len: "length l \<le> 65535" using inv by (simp add: l_def buttons_inv_def handles_def le_trans [OF length_filter_le])
  have z: "(word_of_nat (length l) :: u16) = 0 \<longleftrightarrow> l = []"
  proof -
    have "unat (word_of_nat (length l) :: u16) = length l" using len by (simp add: unsigned_of_nat take_bit_nat_eq_self)
    then show ?thesis by (simp only: unat_eq_zero [symmetric] length_0_conv)
  qed
  have sub: "set (map fst l) \<subseteq> set (handles s)" "distinct (map fst l)"
    using inv by (auto simp: l_def handles_def buttons_inv_def distinct_map inj_on_def)
  have e: "l \<noteq> [] \<Longrightarrow> g_head_handle s \<noteq> []" by (auto simp: l_def)
  show ?thesis using inv len z sub e
    by (auto simp: button_delete_com_def Let_def l_def [symmetric] buttons_inv_def handles_def)
qed

lemma create_com_inv_adc:
  assumes "buttons_inv s" "length (g_head_handle s) < 65535"
    and "\<And>h. alloc = Some h \<Longrightarrow> h \<noteq> 0 \<and> find_button h s = None"
  shows "buttons_inv (snd (button_create_com c alloc active hal data lt st (s\<lparr>btn_adc := g\<rparr>)))"
proof -
  let ?s = "s\<lparr>btn_adc := g\<rparr>"
  obtain r s' where e: "button_create_com c alloc active hal data lt st ?s = (r, s')" by fastforce
  have "buttons_inv ?s" "length (g_head_handle ?s) < 65535" using assms(1,2) by simp_all
  moreover have "h \<noteq> 0 \<and> find_button h ?s = None" if "alloc = Some h" for h
    using assms(3) [OF that] by (simp add: find_button_def)
  ultimately have "buttons_inv s'" by (rule create_com_inv [OF _ _ _ e])
  then show ?thesis by (simp add: e)
qed

lemma finish_inv:
  "buttons_inv (snd (case x of (None, s1) \<Rightarrow> (None, s1) | (Some h, s1) \<Rightarrow> (Some h, update_button h f s1)))
   = buttons_inv (snd x)"
  by (simp split: prod.split option.split)

lemma create_inv:
  assumes "buttons_inv s" "length (g_head_handle s) < 65535"
    and "\<And>h. alloc = Some h \<Longrightarrow> h \<noteq> 0 \<and> find_button h s = None"
  shows "buttons_inv (snd (iot_button_create c ac b alloc config s))"
proof (cases config)
  case (Some cf)
  note com = create_com_inv_adc [OF assms]
  show ?thesis
  proof (cases "bc_type cf")
    case BUTTON_TYPE_GPIO
    obtain r g where "button_gpio_init b (Some (bc_gpio cf)) (btn_adc s) = (r, g)" by fastforce
    then show ?thesis using assms(1)
      by (simp add: Some BUTTON_TYPE_GPIO iot_button_create_def Let_def finish_inv com)
  next
    case BUTTON_TYPE_ADC
    obtain r g where "button_adc_init ac (brd_adc b) (Some (bc_adc cf)) (btn_adc s) = (r, g)" by fastforce
    then show ?thesis using assms(1)
      by (simp add: Some BUTTON_TYPE_ADC iot_button_create_def Let_def finish_inv com)
  next
    case BUTTON_TYPE_CUSTOM
    obtain ok d where "(case cc_init (bc_custom cf) of None \<Rightarrow> (True, adc_dev (btn_adc s))
        | Some f \<Rightarrow> custom_init b f (cc_priv (bc_custom cf)) (adc_dev (btn_adc s))) = (ok, d)" by fastforce
    then show ?thesis using assms(1)
      by (simp add: Some BUTTON_TYPE_CUSTOM iot_button_create_def Let_def finish_inv com)
  qed (simp add: Some iot_button_create_def Let_def assms(1))
qed (simp add: iot_button_create_def assms(1))

lemma delete_inv:
  assumes "buttons_inv s" "iot_button_delete ac b h s = Some (r, s')"
  shows "buttons_inv s'"
proof -
  have com: "buttons_inv (snd (button_delete_com h (s\<lparr>btn_adc := g\<rparr>)))" for g
    by (rule delete_com_inv) (simp add: assms(1))
  have self: "buttons_inv (snd (button_delete_com h s))" by (rule delete_com_inv) (rule assms(1))
  show ?thesis
  proof (cases "h = 0 \<or> find_button h s = None")
    case True
    then show ?thesis using assms by (auto simp: iot_button_delete_def split: if_splits)
  next
    case False
    then obtain btn where btn: "h \<noteq> 0" "find_button h s = Some btn" by auto
    show ?thesis
    proof (cases "btn_type btn")
      case BUTTON_TYPE_GPIO
      obtain q g where "button_gpio_deinit b (sint (hardware_data btn)) (btn_adc s) = (q, g)" by fastforce
      then show ?thesis using assms btn com [of g]
        by (auto simp: BUTTON_TYPE_GPIO iot_button_delete_def split: if_splits)
    next
      case BUTTON_TYPE_ADC
      obtain q g where "button_adc_deinit ac (brd_adc b) (ucast (ADC_BUTTON_SPLIT_CHANNEL (hardware_data btn)))
          (uint (ADC_BUTTON_SPLIT_INDEX (hardware_data btn))) (btn_adc s) = (q, g)" by fastforce
      then show ?thesis using assms btn com [of g]
        by (auto simp: BUTTON_TYPE_ADC iot_button_delete_def split: if_splits)
    next
      case BUTTON_TYPE_CUSTOM
      have zero: "buttons_inv (snd (button_delete_com h (update_button h f (s\<lparr>btn_adc := g\<rparr>))))"
        "buttons_inv (snd (button_delete_com h (update_button h f s)))" for f g
        by (rule delete_com_inv, simp add: assms(1))+
      from BUTTON_TYPE_CUSTOM show ?thesis using assms btn zero
        by (auto simp: iot_button_delete_def split: if_splits option.splits prod.splits)
    next
      case BUTTON_TYPE_OTHER
      then show ?thesis using assms btn self
        by (auto simp: iot_button_delete_def split: if_splits)
    qed
  qed
qed

lemma cb_loop_handles: "button_cb_loop c ac b l g = (l', cs, g') \<Longrightarrow> map fst l' = map fst l"
  by (induction c ac b l g arbitrary: l' cs g' rule: button_cb_loop.induct) (auto split: prod.splits)

lemma button_cb_inv: "buttons_inv s \<Longrightarrow> buttons_inv (button_cb c ac b s)"
proof -
  assume inv: "buttons_inv s"
  obtain l cs g where r: "button_cb_loop c ac b (g_head_handle s) (btn_adc s) = (l, cs, g)" by (metis prod_cases3)
  have m: "map fst l = map fst (g_head_handle s)" using cb_loop_handles [OF r] .
  then have "l = [] \<longleftrightarrow> g_head_handle s = []" by (metis Nil_is_map_conv)
  then show ?thesis using inv m by (simp add: button_cb_def r buttons_inv_def handles_def)
qed


definition no_buttons :: "u64 buttons" where
  "no_buttons = \<lparr>g_head_handle = [], g_is_timer_running = False, btn_timer_ops = [], btn_calls = [], btn_adc = two_channels\<rparr>"

definition board_two :: "u64 board" where
  "board_two = \<lparr>brd_adc = driver_two, gpio_is_valid = (\<lambda>n. 0 \<le> n \<and> n < 22), gpio_config = (\<lambda>_. id),
     gpio_get_level = (\<lambda>_ d. (1, d)), custom_init = (\<lambda>_ _ d. (True, d)), custom_level = (\<lambda>_ _ d. (0, d)),
     custom_deinit = (\<lambda>_ _ d. (True, d))\<rparr>"


end
