(* ===== verification/Ring.thy ===== *)
theory Ring
  imports Prelude
begin

text \<open>
  The ring buffers of managed_components/espressif__esp_diag_data_store/src/rtc_store/rtc_store.c:
  \<open>data_store_t\<close> with its two 16-bit fields, staging of data behind the filled part, commit, reading and
  freeing. \<open>None\<close> is an access outside the buffer. The interface the store is written against is the locale
  \<open>staged_fifo\<close>; the ring buffer is its instance.
\<close>

section \<open>Data\<close>

record data_store =
  ds_buf :: bytes
  ds_size :: u32
  read_offset :: u16
  filled :: u16

record rbuf_data =
  rb_lock :: bool
  rb_store :: data_store
  wrap_cnt :: u32

definition data_store_get_size :: "data_store \<Rightarrow> u32" where
  "data_store_get_size s = ds_size s"

definition data_store_get_free_at_end :: "data_store \<Rightarrow> u32" where
  "data_store_get_free_at_end s =
     (let free_at_end = 0 in
      if ucast (read_offset s) + ucast (filled s) < ds_size s
      then ds_size s - (ucast (filled s) + ucast (read_offset s)) else free_at_end)"

definition data_store_get_free :: "data_store \<Rightarrow> u32" where
  "data_store_get_free s = ds_size s - ucast (filled s)"

definition data_store_get_filled :: "data_store \<Rightarrow> u32" where
  "data_store_get_filled s = ucast (filled s)"

section \<open>Operations\<close>

definition rtc_store_read_complete :: "u32 \<Rightarrow> rbuf_data \<Rightarrow> rbuf_data" where
  "rtc_store_read_complete len r =
     (let s = rb_store r;
          fi = filled s - ucast len;
          ro = read_offset s + ucast len in
      if ucast ro > ds_size s then
        r\<lparr>rb_store := s\<lparr>filled := fi, read_offset := ro - ucast (ds_size s)\<rparr>, wrap_cnt := wrap_cnt r + 1\<rparr>
      else r\<lparr>rb_store := s\<lparr>filled := fi, read_offset := ro\<rparr>\<rparr>)"

definition rtc_store_write_complete :: "u32 \<Rightarrow> rbuf_data \<Rightarrow> rbuf_data" where
  "rtc_store_write_complete len r = r\<lparr>rb_store := (rb_store r)\<lparr>filled := filled (rb_store r) + ucast len\<rparr>\<rparr>"

definition set_buf :: "bytes \<Rightarrow> rbuf_data \<Rightarrow> rbuf_data" where
  "set_buf b r = r\<lparr>rb_store := (rb_store r)\<lparr>ds_buf := b\<rparr>\<rparr>"

definition rtc_store_write_at_offset :: "bytes \<Rightarrow> u32 \<Rightarrow> rbuf_data \<Rightarrow> rbuf_data option" where
  "rtc_store_write_at_offset data offset r =
     (let s = rb_store r; len = (word_of_nat (length data) :: u32);
          wo = filled s + read_offset s;
          write_offset = (if ucast wo \<ge> ds_size s then wo - ucast (ds_size s) else wo);
          free_at_end = data_store_get_free_at_end s in
      map_option (\<lambda>b. set_buf b r)
       (if free_at_end \<noteq> 0 \<and> free_at_end < offset then
          memcpy_to (ds_buf s) (unat (offset - free_at_end)) data
        else if free_at_end \<noteq> 0 \<and> free_at_end < offset + len then
          let n = unat (free_at_end - offset) in
          Option.bind (memcpy_to (ds_buf s) (unat (ucast write_offset + offset)) (take n data))
            (\<lambda>b. memcpy_to b 0 (drop n data))
        else memcpy_to (ds_buf s) (unat (ucast write_offset + offset)) data))"

definition rtc_store_write :: "bytes \<Rightarrow> rbuf_data \<Rightarrow> rbuf_data option" where
  "rtc_store_write data r = rtc_store_write_at_offset data 0 r"

definition rtc_store_data_read_unsafe :: "u32 \<Rightarrow> rbuf_data \<Rightarrow> bytes option" where
  "rtc_store_data_read_unsafe sz r =
     (let s = rb_store r;
          n = (if ucast (filled s) < sz then ucast (filled s) else sz);
          data_at_end = ds_size s - ucast (read_offset s) in
      if data_at_end < n then
        Option.bind (memcpy_from (ds_buf s) (unat (read_offset s)) (unat data_at_end))
          (\<lambda>b1. Option.bind (memcpy_from (ds_buf s) 0 (unat (n - data_at_end))) (\<lambda>b2. Some (b1 @ b2)))
      else memcpy_from (ds_buf s) (unat (read_offset s)) (unat n))"

section \<open>Rings\<close>

text \<open>\<open>data\<close> written round the ring from position \<open>p\<close>.\<close>

definition ring_put :: "bytes \<Rightarrow> nat \<Rightarrow> bytes \<Rightarrow> bytes" where
  "ring_put buf p data =
     (let n = length buf - p in
      if length data \<le> n then blit buf p data else blit (blit buf p (take n data)) 0 (drop n data))"

definition ring_window :: "bytes \<Rightarrow> nat \<Rightarrow> nat \<Rightarrow> bytes" where
  "ring_window buf p n = map (\<lambda>i. buf ! ((p + i) mod length buf)) [0..<n]"

lemma length_ring_put [simp]:
  "p \<le> length buf \<Longrightarrow> length data \<le> length buf \<Longrightarrow> length (ring_put buf p data) = length buf"
  by (auto simp: ring_put_def Let_def)

lemma length_ring_window [simp]: "length (ring_window buf p n) = n"
  by (simp add: ring_window_def)

lemma nth_ring_window [simp]: "i < n \<Longrightarrow> ring_window buf p n ! i = buf ! ((p + i) mod length buf)"
  by (simp add: ring_window_def)

lemma ring_put_nth:
  assumes "p < length buf" "length data \<le> length buf" "j < length buf"
  shows "ring_put buf p data ! ((p + j) mod length buf) =
    (if j < length data then data ! j else buf ! ((p + j) mod length buf))"
proof (cases "p + j < length buf")
  case True
  then show ?thesis using assms by (auto simp: ring_put_def Let_def nth_blit min_def)
next
  case False
  then have m: "(p + j) mod length buf = p + j - length buf" using assms by (simp add: mod_if)
  have "p + j - length buf < p" using assms False by linarith
  then show ?thesis using assms False unfolding m
    by (auto simp: ring_put_def Let_def nth_blit)
qed

lemma mod_shift:
  assumes "k \<le> n" "n \<le> (l :: nat)"
  shows "((p + n) mod l + (l - (n - k))) mod l = (p + k) mod l"
proof -
  have "((p + n) mod l + (l - (n - k))) mod l = (p + n + (l - (n - k))) mod l"
    by (simp add: mod_add_left_eq)
  also have "p + n + (l - (n - k)) = p + k + l" using assms by simp
  finally show ?thesis by simp
qed

lemma ring_window_put:
  assumes "n + length data \<le> length buf"
  shows "ring_window (ring_put buf ((p + n) mod length buf) data) p (n + length data) =
    ring_window buf p n @ data"
proof (cases "length buf = 0")
  case False
  let ?l = "length buf" let ?q = "(p + n) mod ?l"
  have q: "?q < ?l" using False by simp
  have len: "length (ring_put buf ?q data) = ?l" using assms q by simp
  show ?thesis
  proof (rule nth_equalityI)
    fix i assume "i < length (ring_window (ring_put buf ?q data) p (n + length data))"
    then have i: "i < n + length data" by simp
    show "ring_window (ring_put buf ?q data) p (n + length data) ! i = (ring_window buf p n @ data) ! i"
    proof (cases "i < n")
      case True
      have "(p + i) mod ?l = (?q + (?l - (n - i))) mod ?l" using mod_shift [of i n ?l p] True assms by simp
      moreover have "?l - (n - i) < ?l" "\<not> ?l - (n - i) < length data" "length data \<le> ?l"
        using True assms by linarith+
      ultimately have "ring_put buf ?q data ! ((p + i) mod ?l) = buf ! ((p + i) mod ?l)"
        using ring_put_nth [OF q, of data "?l - (n - i)"] by metis
      then show ?thesis using True i len by (simp add: nth_append)
    next
      case False
      then obtain j where j: "i = n + j" by (metis le_Suc_ex not_le)
      have "(p + i) mod ?l = (?q + j) mod ?l" by (simp add: mod_add_left_eq j add.assoc)
      then show ?thesis
        using False i len ring_put_nth [OF q, of data j] assms by (simp add: nth_append j)
    qed
  qed simp
qed (use assms in \<open>simp add: ring_window_def\<close>)

lemma take_ring_window: "k \<le> n \<Longrightarrow> take k (ring_window buf p n) = ring_window buf p k"
  by (rule nth_equalityI) simp_all

lemma drop_ring_window: "k \<le> n \<Longrightarrow> drop k (ring_window buf p n) = ring_window buf (p + k) (n - k)"
  by (rule nth_equalityI) (simp_all add: add_ac)

lemma ring_window_mod: "ring_window buf (p mod length buf) n = ring_window buf p n"
  by (simp add: ring_window_def mod_add_left_eq)

lemma ring_window_split:
  assumes "p \<le> length buf" "n \<le> length buf"
  shows "ring_window buf p n =
    (if length buf - p < n then drop p buf @ take (n - (length buf - p)) buf else take n (drop p buf))"
proof (rule nth_equalityI)
  fix i assume "i < length (ring_window buf p n)"
  then have i: "i < n" by simp
  show "ring_window buf p n ! i =
    (if length buf - p < n then drop p buf @ take (n - (length buf - p)) buf else take n (drop p buf)) ! i"
  proof (cases "p + i < length buf")
    case False
    then have "(p + i) mod length buf = p + i - length buf" using assms i by (simp add: mod_if)
    then show ?thesis using i False assms by (auto simp: nth_append add.commute)
  qed (use i assms in \<open>auto simp: nth_append\<close>)
qed (use assms in auto)

section \<open>The ring buffer as a staged queue\<close>

text \<open>
  What the store relies on: data can be staged behind the filled part, one piece after the other,
  without touching what is already there, then committed; the front can be read and freed.
\<close>

fun stage_chunks :: "(bytes \<Rightarrow> nat \<Rightarrow> 's \<Rightarrow> 's option) \<Rightarrow> nat \<Rightarrow> bytes list \<Rightarrow> 's \<Rightarrow> 's option" where
  "stage_chunks stage off [] s = Some s"
| "stage_chunks stage off (x # xs) s = Option.bind (stage x off s) (stage_chunks stage (off + length x) xs)"

locale staged_fifo =
  fixes ok :: "'s \<Rightarrow> bool"
    and cap :: "'s \<Rightarrow> nat"
    and fill :: "'s \<Rightarrow> nat"
    and window :: "'s \<Rightarrow> nat \<Rightarrow> bytes"
    and stage :: "bytes \<Rightarrow> nat \<Rightarrow> 's \<Rightarrow> 's option"
    and commit :: "nat \<Rightarrow> 's \<Rightarrow> 's"
    and peek :: "nat \<Rightarrow> 's \<Rightarrow> bytes option"
    and discard :: "nat \<Rightarrow> 's \<Rightarrow> 's"
  assumes fill_le: "ok s \<Longrightarrow> fill s \<le> cap s"
    and length_window: "length (window s n) = n"
    and take_window: "k \<le> n \<Longrightarrow> take k (window s n) = window s k"
    and stage_ok: "ok s \<Longrightarrow> fill s + off + length x \<le> cap s \<Longrightarrow>
      \<exists>s'. stage x off s = Some s' \<and> ok s' \<and> cap s' = cap s \<and> fill s' = fill s \<and>
        window s' (fill s + off + length x) = window s (fill s + off) @ x"
    and commit_ok: "ok s \<Longrightarrow> fill s + n \<le> cap s \<Longrightarrow>
      ok (commit n s) \<and> cap (commit n s) = cap s \<and> fill (commit n s) = fill s + n \<and>
        window (commit n s) = window s"
    and peek_ok: "ok s \<Longrightarrow> n \<le> cap s \<Longrightarrow> peek n s = Some (take n (window s (fill s)))"
    and discard_ok: "ok s \<Longrightarrow> n \<le> fill s \<Longrightarrow>
      ok (discard n s) \<and> cap (discard n s) = cap s \<and> fill (discard n s) = fill s - n \<and>
        window (discard n s) (fill s - n) = drop n (window s (fill s))"
begin

lemma stage_chunks_ok:
  "ok s \<Longrightarrow> fill s + off + length (concat xs) \<le> cap s \<Longrightarrow>
   \<exists>s'. stage_chunks stage off xs s = Some s' \<and> ok s' \<and> cap s' = cap s \<and> fill s' = fill s \<and>
     window s' (fill s + off + length (concat xs)) = window s (fill s + off) @ concat xs"
proof (induction xs arbitrary: off s)
  case (Cons x xs)
  then obtain s1 where s1: "stage x off s = Some s1" "ok s1" "cap s1 = cap s" "fill s1 = fill s"
    "window s1 (fill s + off + length x) = window s (fill s + off) @ x"
    using stage_ok [of s off x] by auto
  then show ?case using Cons.IH [of s1 "off + length x"] Cons.prems by (auto simp: add_ac)
qed simp

text \<open>Until the commit the queue is what it was: an interrupted write is not visible.\<close>

lemma stage_chunks_invisible:
  assumes "ok s" "fill s + length (concat xs) \<le> cap s" "stage_chunks stage 0 xs s = Some s'"
  shows "ok s' \<and> fill s' = fill s \<and> window s' (fill s') = window s (fill s)"
proof -
  from stage_chunks_ok [OF assms(1), of 0 xs] assms obtain
    w: "window s' (fill s + length (concat xs)) = window s (fill s) @ concat xs" and o: "ok s'" "fill s' = fill s"
    by auto
  have "window s' (fill s) = take (fill s) (window s' (fill s + length (concat xs)))"
    by (simp add: take_window)
  also have "\<dots> = window s (fill s)" by (simp add: w length_window)
  finally show ?thesis using o by simp
qed

lemma append_chunks:
  assumes "ok s" "fill s + length (concat xs) \<le> cap s" "n = length (concat xs)"
  shows "\<exists>s'. map_option (commit n) (stage_chunks stage 0 xs s) = Some s' \<and> ok s' \<and> cap s' = cap s \<and>
    fill s' = fill s + n \<and> window s' (fill s') = window s (fill s) @ concat xs"
proof -
  from stage_chunks_ok [OF assms(1), of 0 xs] assms obtain s1 where s1: "stage_chunks stage 0 xs s = Some s1"
    "ok s1" "cap s1 = cap s" "fill s1 = fill s" "window s1 (fill s + n) = window s (fill s) @ concat xs"
    by auto
  then show ?thesis using commit_ok [of s1 n] assms by auto
qed

end

section \<open>The ring buffer is one\<close>

text \<open>The field widths: the sizes are below \<open>2 ^ 15\<close>, so that no sum of two offsets leaves 16 bits.\<close>

definition ring_ok :: "rbuf_data \<Rightarrow> bool" where
  "ring_ok r \<longleftrightarrow> (let s = rb_store r in length (ds_buf s) = unat (ds_size s) \<and> unat (ds_size s) < 2 ^ 15
     \<and> unat (filled s) \<le> unat (ds_size s) \<and> unat (read_offset s) \<le> unat (ds_size s))"

definition ring_cap :: "rbuf_data \<Rightarrow> nat" where
  "ring_cap r = unat (ds_size (rb_store r))"

definition ring_fill :: "rbuf_data \<Rightarrow> nat" where
  "ring_fill r = unat (filled (rb_store r))"

definition ring_at :: "rbuf_data \<Rightarrow> nat \<Rightarrow> bytes" where
  "ring_at r n = ring_window (ds_buf (rb_store r)) (unat (read_offset (rb_store r))) n"

text \<open>The bytes in the store, oldest first.\<close>

definition contents :: "rbuf_data \<Rightarrow> bytes" where
  "contents r = ring_at r (ring_fill r)"

lemma unat_ucast_u16 [simp]: "unat (ucast (x :: u16) :: u32) = unat x"
proof -
  have "unat x < 2 ^ LENGTH(16)" by (rule unsigned_less)
  then show ?thesis by (simp add: unsigned_ucast_eq take_bit_nat_eq_self)
qed

lemma unat_u16_add:
  fixes a b :: u16
  shows "unat a + unat b < 65536 \<Longrightarrow> unat (a + b) = unat a + unat b"
  by (simp add: unat_word_ariths)

lemma unat_u32_add:
  fixes a b :: u32
  shows "unat a + unat b < 2 ^ 32 \<Longrightarrow> unat (a + b) = unat a + unat b"
  by (simp add: unat_word_ariths)

lemma unat_u32_sub:
  fixes a b :: u32
  shows "unat b \<le> unat a \<Longrightarrow> unat (a - b) = unat a - unat b"
  by (simp add: unat_sub word_le_nat_alt)

lemma unat_u16_sub:
  fixes a b :: u16
  shows "unat b \<le> unat a \<Longrightarrow> unat (a - b) = unat a - unat b"
  by (simp add: unat_sub word_le_nat_alt)

lemma unat_u32_of_nat: "n < 2 ^ 32 \<Longrightarrow> unat (word_of_nat n :: u32) = n"
  by (simp add: unsigned_of_nat take_bit_nat_eq_self)

lemma unat_down: "unat (x :: u32) < 65536 \<Longrightarrow> unat (ucast x :: u16) = unat x"
  by (simp add: unsigned_ucast_eq take_bit_nat_eq_self)

lemma set_buf_id [simp]: "set_buf (ds_buf (rb_store r)) r = r"
  by (simp add: set_buf_def)

lemma write_at_offset_eq:
  assumes "ring_ok r" "ring_fill r + unat off + length data \<le> ring_cap r"
  shows "rtc_store_write_at_offset data off r =
    Some (set_buf (ring_put (ds_buf (rb_store r))
      ((unat (read_offset (rb_store r)) + (ring_fill r + unat off)) mod ring_cap r) data) r)"
proof -
  define s where "s = rb_store r"
  define S f ro oo where "S = unat (ds_size s)" and "f = unat (filled s)" and "ro = unat (read_offset s)" and "oo = unat off"
  have ok: "length (ds_buf s) = S" "S < 32768" "f \<le> S" "ro \<le> S" "f + oo + length data \<le> S"
    using assms by (simp_all add: ring_ok_def Let_def S_def f_def ro_def oo_def s_def ring_fill_def ring_cap_def)
  have len: "unat (word_of_nat (length data) :: u32) = length data"
    by (rule unat_u32_of_nat) (use ok in simp)
  have wo: "unat (filled s + read_offset s) = f + ro"
    unfolding f_def ro_def by (rule unat_u16_add) (use ok in \<open>simp add: f_def ro_def\<close>)
  have sz16: "unat (ucast (ds_size s) :: u16) = S"
    unfolding S_def by (rule unat_down) (use ok in \<open>simp add: S_def\<close>)
  have wrap: "ucast (filled s + read_offset s) \<ge> ds_size s \<longleftrightarrow> S \<le> f + ro"
    by (simp add: word_le_nat_alt wo S_def)
  define w where "w = (if ucast (filled s + read_offset s) \<ge> ds_size s
    then filled s + read_offset s - ucast (ds_size s) else filled s + read_offset s)"
  have w: "unat w = (if S \<le> f + ro then f + ro - S else f + ro)"
    using unat_u16_sub [of "ucast (ds_size s)" "filled s + read_offset s"] by (simp add: w_def wrap wo sz16)
  have sum32: "unat (ucast (filled s) + ucast (read_offset s) :: u32) = f + ro"
    using ok by (subst unat_u32_add) (simp_all add: f_def ro_def)
  define fe where "fe = data_store_get_free_at_end s"
  have fe: "unat fe = S - (f + ro)"
    using unat_u32_sub [of "ucast (filled s) + ucast (read_offset s)" "ds_size s"] sum32
    by (simp add: fe_def data_store_get_free_at_end_def Let_def word_less_nat_alt S_def add.commute [of "ucast (read_offset s) :: u32"])
  have fe0: "fe \<noteq> 0 \<longleftrightarrow> f + ro < S" using fe by (metis unat_0_iff zero_less_diff neq0_conv)
  have oc: "unat (ucast w + off) = unat w + oo"
    unfolding oo_def by (subst unat_u32_add) (use ok in \<open>auto simp: w oo_def\<close>)
  have ol: "unat (off + word_of_nat (length data)) = oo + length data"
    unfolding oo_def using ok len by (subst unat_u32_add) (simp_all add: oo_def)
  have lt1: "fe < off \<longleftrightarrow> S - (f + ro) < oo" by (simp add: word_less_nat_alt fe oo_def)
  have lt2: "fe < off + word_of_nat (length data) \<longleftrightarrow> S - (f + ro) < oo + length data"
    by (simp only: word_less_nat_alt fe ol)
  have code: "rtc_store_write_at_offset data off r = map_option (\<lambda>b. set_buf b r)
     (if f + ro < S \<and> S - (f + ro) < oo then memcpy_to (ds_buf s) (unat (off - fe)) data
      else if f + ro < S \<and> S - (f + ro) < oo + length data then
        Option.bind (memcpy_to (ds_buf s) (unat w + oo) (take (unat (fe - off)) data))
          (\<lambda>b. memcpy_to b 0 (drop (unat (fe - off)) data))
      else memcpy_to (ds_buf s) (unat w + oo) data)"
    unfolding rtc_store_write_at_offset_def Let_def s_def [symmetric] fe_def [symmetric] w_def [symmetric]
      fe0 lt1 lt2 oc ..
  have goal_fold: "ring_fill r = f" "ring_cap r = S" "rb_store r = s" "unat (read_offset s) = ro" "unat off = oo"
    by (simp_all add: ring_fill_def ring_cap_def s_def f_def S_def ro_def oo_def)
  consider (skip) "f + ro < S" "S - (f + ro) < oo" | (split) "f + ro < S" "oo \<le> S - (f + ro)" "S - (f + ro) < oo + length data"
    | (plain) "f + ro < S" "oo + length data \<le> S - (f + ro)" | (wrapped) "S \<le> f + ro" by linarith
  then show ?thesis
  proof cases
    case skip
    have "unat (off - fe) = oo - (S - (f + ro))" using skip unat_u32_sub [of fe off] by (simp add: fe oo_def)
    moreover have "(ro + (f + oo)) mod S = oo - (S - (f + ro))"
      using skip ok by (subst mod_if) (auto simp: mod_if)
    ultimately show ?thesis using skip ok
      by (auto simp: code memcpy_to_def ring_put_def Let_def goal_fold add_ac)
  next
    case split
    have n: "unat (fe - off) = S - (f + ro) - oo" using split unat_u32_sub [of off fe] by (simp add: fe oo_def)
    show ?thesis
    proof (cases "f + ro + oo = S")
      case True
      then have "(ro + (f + oo)) mod S = 0" by (simp add: add_ac)
      then show ?thesis using split ok True
        by (auto simp: code memcpy_to_def ring_put_def Let_def goal_fold add_ac n w)
    next
      case False
      then have "(ro + (f + oo)) mod S = f + ro + oo" using split by simp
      then show ?thesis using split ok False
        by (auto simp: code memcpy_to_def ring_put_def Let_def goal_fold add_ac n w)
    qed
  next
    case plain
    show ?thesis
    proof (cases "f + ro + oo = S")
      case True
      then have "(ro + (f + oo)) mod S = 0" by (simp add: add_ac)
      moreover have "length data = 0" using plain True by linarith
      ultimately show ?thesis unfolding code using plain ok True
        by (auto simp: code memcpy_to_def ring_put_def Let_def goal_fold add_ac w)
    next
      case False
      then have "(ro + (f + oo)) mod S = f + ro + oo" using plain by simp
      then show ?thesis using plain ok False
        by (auto simp: code memcpy_to_def ring_put_def Let_def goal_fold add_ac w)
    qed
  next
    case wrapped
    show ?thesis
    proof (cases "ro + (f + oo) = 2 * S")
      case True
      moreover have "length data = 0" using True ok by linarith
      ultimately show ?thesis unfolding code using wrapped ok
        by (auto simp: code memcpy_to_def ring_put_def Let_def goal_fold add_ac w)
    next
      case False
      then have "(ro + (f + oo)) mod S = f + ro + oo - S" using wrapped ok by (auto simp: mod_if add_ac)
      then show ?thesis using wrapped ok False
        by (auto simp: code memcpy_to_def ring_put_def Let_def goal_fold add_ac w)
    qed
  qed
qed


definition ring_stage :: "bytes \<Rightarrow> nat \<Rightarrow> rbuf_data \<Rightarrow> rbuf_data option" where
  "ring_stage data off = rtc_store_write_at_offset data (word_of_nat off)"

definition ring_commit :: "nat \<Rightarrow> rbuf_data \<Rightarrow> rbuf_data" where
  "ring_commit n = rtc_store_write_complete (word_of_nat n)"

definition ring_peek :: "nat \<Rightarrow> rbuf_data \<Rightarrow> bytes option" where
  "ring_peek n = rtc_store_data_read_unsafe (word_of_nat n)"

definition ring_discard :: "nat \<Rightarrow> rbuf_data \<Rightarrow> rbuf_data" where
  "ring_discard n = rtc_store_read_complete (word_of_nat n)"

lemma ring_set_buf [simp]:
  "ring_fill (set_buf b r) = ring_fill r" "ring_cap (set_buf b r) = ring_cap r"
  "ring_ok r \<Longrightarrow> length b = length (ds_buf (rb_store r)) \<Longrightarrow> ring_ok (set_buf b r)"
  "ring_at (set_buf b r) n = ring_window b (unat (read_offset (rb_store r))) n"
  by (simp_all add: ring_fill_def ring_cap_def ring_ok_def Let_def set_buf_def ring_at_def)

lemma ring_okD:
  "ring_ok r \<Longrightarrow> length (ds_buf (rb_store r)) = ring_cap r \<and> ring_cap r < 32768 \<and> ring_fill r \<le> ring_cap r \<and>
     unat (read_offset (rb_store r)) \<le> ring_cap r"
  by (simp add: ring_ok_def Let_def ring_fill_def ring_cap_def)

lemma ring_stage_ok:
  assumes "ring_ok r" "ring_fill r + off + length x \<le> ring_cap r"
  shows "\<exists>r'. ring_stage x off r = Some r' \<and> ring_ok r' \<and> ring_cap r' = ring_cap r \<and> ring_fill r' = ring_fill r \<and>
    ring_at r' (ring_fill r + off + length x) = ring_at r (ring_fill r + off) @ x"
proof -
  note d = ring_okD [OF assms(1)]
  let ?b = "ds_buf (rb_store r)" let ?ro = "unat (read_offset (rb_store r))"
  let ?p = "(?ro + (ring_fill r + off)) mod ring_cap r"
  have off: "unat (word_of_nat off :: u32) = off" by (rule unat_u32_of_nat) (use assms d in simp)
  have st: "ring_stage x off r = Some (set_buf (ring_put ?b ?p x) r)"
    using write_at_offset_eq [OF assms(1), of "word_of_nat off" x] assms(2) by (simp add: ring_stage_def off)
  have "?p \<le> length ?b" using d assms(2) by (cases "ring_cap r = 0") (simp_all add: less_imp_le)
  then have len: "length (ring_put ?b ?p x) = length ?b" using assms d by simp
  have "ring_window (ring_put ?b ?p x) ?ro (ring_fill r + off + length x) = ring_window ?b ?ro (ring_fill r + off) @ x"
    using ring_window_put [of "ring_fill r + off" x ?b ?ro] assms d by simp
  then show ?thesis using st len assms(1) by (simp add: ring_at_def set_buf_def [symmetric]) (simp add: set_buf_def)
qed

lemma ring_commit_ok:
  assumes "ring_ok r" "ring_fill r + n \<le> ring_cap r"
  shows "ring_ok (ring_commit n r) \<and> ring_cap (ring_commit n r) = ring_cap r \<and>
    ring_fill (ring_commit n r) = ring_fill r + n \<and> ring_at (ring_commit n r) = ring_at r"
proof -
  note d = ring_okD [OF assms(1)]
  have n: "unat (word_of_nat n :: u32) = n" by (rule unat_u32_of_nat) (use assms d in simp)
  have n16: "unat (ucast (word_of_nat n :: u32) :: u16) = n" using unat_down [of "word_of_nat n"] n assms d by simp
  have f: "ring_fill (ring_commit n r) = ring_fill r + n"
    using unat_u16_add [of "filled (rb_store r)" "ucast (word_of_nat n :: u32)"] n16 assms d
    by (simp add: ring_commit_def rtc_store_write_complete_def ring_fill_def)
  then show ?thesis using assms
    by (auto simp: ring_commit_def rtc_store_write_complete_def ring_ok_def Let_def ring_cap_def ring_fill_def ring_at_def)
qed

lemma ring_peek_ok:
  assumes "ring_ok r" "n \<le> ring_cap r"
  shows "ring_peek n r = Some (take n (ring_at r (ring_fill r)))"
proof -
  note d = ring_okD [OF assms(1)]
  let ?s = "rb_store r" let ?ro = "unat (read_offset ?s)" let ?k = "min n (ring_fill r)"
  have n: "unat (word_of_nat n :: u32) = n" by (rule unat_u32_of_nat) (use assms d in simp)
  define m where "m = (if ucast (filled ?s) < (word_of_nat n :: u32) then ucast (filled ?s) else (word_of_nat n :: u32))"
  have m: "unat m = ?k" by (simp add: m_def word_less_nat_alt n ring_fill_def min_def)
  define e where "e = ds_size ?s - ucast (read_offset ?s)"
  have e: "unat e = ring_cap r - ?ro" using unat_u32_sub [of "ucast (read_offset ?s)" "ds_size ?s"] d
    by (simp add: e_def ring_cap_def)
  have me: "e < m \<Longrightarrow> unat (m - e) = ?k - (ring_cap r - ?ro)"
    using unat_u32_sub [of e m] by (simp add: word_less_nat_alt e m)
  have "take n (ring_at r (ring_fill r)) = ring_window (ds_buf ?s) ?ro ?k"
    using take_ring_window [of n "ring_fill r" "ds_buf ?s" ?ro] by (auto simp: ring_at_def min_def)
  also have "\<dots> = (if length (ds_buf ?s) - ?ro < ?k then drop ?ro (ds_buf ?s) @ take (?k - (length (ds_buf ?s) - ?ro)) (ds_buf ?s)
      else take ?k (drop ?ro (ds_buf ?s)))"
    using d by (intro ring_window_split) (simp_all add: min.coboundedI2)
  finally have w: "take n (ring_at r (ring_fill r)) = \<dots>" .
  have "ring_peek n r = (if ring_cap r - ?ro < ?k
      then Option.bind (memcpy_from (ds_buf ?s) ?ro (ring_cap r - ?ro))
        (\<lambda>b1. Option.bind (memcpy_from (ds_buf ?s) 0 (?k - (ring_cap r - ?ro))) (\<lambda>b2. Some (b1 @ b2)))
      else memcpy_from (ds_buf ?s) ?ro ?k)"
    unfolding ring_peek_def rtc_store_data_read_unsafe_def Let_def m_def [symmetric] e_def [symmetric]
    using me by (simp add: word_less_nat_alt e m)
  then show ?thesis unfolding w using d by (auto simp: memcpy_from_def)
qed

lemma ring_discard_ok:
  assumes "ring_ok r" "n \<le> ring_fill r"
  shows "ring_ok (ring_discard n r) \<and> ring_cap (ring_discard n r) = ring_cap r \<and>
    ring_fill (ring_discard n r) = ring_fill r - n \<and>
    ring_at (ring_discard n r) (ring_fill r - n) = drop n (ring_at r (ring_fill r))"
proof -
  note d = ring_okD [OF assms(1)]
  let ?s = "rb_store r" let ?ro = "unat (read_offset ?s)" let ?n = "word_of_nat n :: u32"
  have n: "unat ?n = n" by (rule unat_u32_of_nat) (use assms d in simp)
  have n16: "unat (ucast ?n :: u16) = n" using unat_down [of ?n] n assms d by simp
  have f: "unat (filled ?s - ucast ?n) = ring_fill r - n"
    using unat_u16_sub [of "ucast ?n" "filled ?s"] n16 assms by (simp add: ring_fill_def)
  have ro: "unat (read_offset ?s + ucast ?n) = ?ro + n"
    using unat_u16_add [of "read_offset ?s" "ucast ?n"] n16 assms d by simp
  have sz: "unat (ucast (ds_size ?s) :: u16) = ring_cap r"
    using unat_down [of "ds_size ?s"] d by (simp add: ring_cap_def)
  have cond: "ucast (read_offset ?s + ucast ?n) > ds_size ?s \<longleftrightarrow> ring_cap r < ?ro + n"
    by (simp add: word_less_nat_alt ro ring_cap_def)
  have ro2: "ring_cap r < ?ro + n \<Longrightarrow> unat (read_offset ?s + ucast ?n - ucast (ds_size ?s)) = ?ro + n - ring_cap r"
    using unat_u16_sub [of "ucast (ds_size ?s)" "read_offset ?s + ucast ?n"] by (simp add: ro sz)
  have w: "drop n (ring_at r (ring_fill r)) = ring_window (ds_buf ?s) (?ro + n) (ring_fill r - n)"
    using assms(2) by (simp add: ring_at_def drop_ring_window)
  show ?thesis
  proof (cases "ring_cap r < ?ro + n")
    case True
    have "ring_window (ds_buf ?s) (?ro + n - ring_cap r) m = ring_window (ds_buf ?s) (?ro + n) m" for m
      using ring_window_mod [of "ds_buf ?s" "?ro + n" m] ring_window_mod [of "ds_buf ?s" "?ro + n - ring_cap r" m] True d
      by (metis le_mod_geq less_imp_le)
    then show ?thesis using True d assms ro2 f w cond
      by (auto simp: ring_discard_def rtc_store_read_complete_def Let_def ring_ok_def ring_cap_def ring_fill_def ring_at_def)
  next
    case False
    then show ?thesis using d assms ro f w cond
      by (auto simp: ring_discard_def rtc_store_read_complete_def Let_def ring_ok_def ring_cap_def ring_fill_def ring_at_def)
  qed
qed

interpretation ring: staged_fifo ring_ok ring_cap ring_fill ring_at ring_stage ring_commit ring_peek ring_discard
proof
  fix r :: rbuf_data and n k :: nat
  show "ring_ok r \<Longrightarrow> ring_fill r \<le> ring_cap r" using ring_okD by blast
  show "length (ring_at r n) = n" by (simp add: ring_at_def)
  show "k \<le> n \<Longrightarrow> take k (ring_at r n) = ring_at r k" by (simp add: ring_at_def take_ring_window)
qed (fact ring_stage_ok ring_commit_ok ring_peek_ok ring_discard_ok)+

end
