(* ===== verification/RtcStore.thy ===== *)
theory RtcStore
  imports Ring
begin

text \<open>
  managed_components/espressif__esp_diag_data_store/src/rtc_store/rtc_store.c above its ring buffers: the
  critical store, which refuses what does not fit, the non-critical store of length-value records,
  which may drop its oldest ones, the meta records, initialisation after a reset. A result \<open>None\<close>
  of an operation is an access outside a buffer or a wait without end. The mutexes are free when
  an operation takes them, except the one \<open>rtc_store_non_critical_data_write\<close> only tries.
\<close>

section \<open>Configuration and state\<close>

record rtc_cfg =
  RTC_STORE_DATA_SIZE :: nat
  RTC_STORE_CRITICAL_DATA_SIZE :: nat
  REPORTING_WATERMARK_PERCENT :: nat
  OVERWRITE_NON_CRITICAL_DATA :: bool
  SHA_SIZE :: nat
  esp_ptr_in_drom :: "u32 \<Rightarrow> bool"

definition DIAG_CRITICAL_BUF_SIZE :: "rtc_cfg \<Rightarrow> nat" where
  "DIAG_CRITICAL_BUF_SIZE c = RTC_STORE_CRITICAL_DATA_SIZE c"

definition NON_CRITICAL_DATA_SIZE :: "rtc_cfg \<Rightarrow> nat" where
  "NON_CRITICAL_DATA_SIZE c = RTC_STORE_DATA_SIZE c - DIAG_CRITICAL_BUF_SIZE c"

definition DIAG_NON_CRITICAL_BUF_SIZE :: "rtc_cfg \<Rightarrow> nat" where
  "DIAG_NON_CRITICAL_BUF_SIZE c =
     (if NON_CRITICAL_DATA_SIZE c mod 4 = 0 then NON_CRITICAL_DATA_SIZE c + 1 else NON_CRITICAL_DATA_SIZE c)"

definition DIAG_CRITICAL_DATA_REPORTING_WATERMARK :: "rtc_cfg \<Rightarrow> nat" where
  "DIAG_CRITICAL_DATA_REPORTING_WATERMARK c =
     DIAG_CRITICAL_BUF_SIZE c * (100 - REPORTING_WATERMARK_PERCENT c) div 100"

definition DIAG_NON_CRITICAL_DATA_REPORTING_WATERMARK :: "rtc_cfg \<Rightarrow> nat" where
  "DIAG_NON_CRITICAL_DATA_REPORTING_WATERMARK c =
     DIAG_NON_CRITICAL_BUF_SIZE c * (100 - REPORTING_WATERMARK_PERCENT c) div 100"

definition RTC_STORE_MAX_META_RECORDS :: nat where
  "RTC_STORE_MAX_META_RECORDS = 10"

record rtc_store_meta_header =
  gen_id :: u8
  boot_cnt :: u8
  hdr_sha_sum :: bytes
  hdr_valid :: bool

text \<open>Posted events: with the data pointer, the size that is read from it.\<close>

datatype ds_event =
    CRITICAL_DATA_WRITE_FAIL (ev_data: bytes) (ev_size: nat)
  | CRITICAL_DATA_LOW_MEM
  | NON_CRITICAL_DATA_LOW_MEM

text \<open>\<open>s_priv_data\<close> and \<open>s_rtc_store\<close>; a ring buffer is reached through the private data only.\<close>

record rtc_store =
  rs_init :: bool
  critical :: rbuf_data
  non_critical :: rbuf_data
  meta :: "rtc_store_meta_header list"
  meta_hdr_idx :: u8
  sha_sum :: bytes
  ds_events :: "ds_event list"

definition post :: "ds_event \<Rightarrow> rtc_store \<Rightarrow> rtc_store" where
  "post e s = s\<lparr>ds_events := ds_events s @ [e]\<rparr>"

section \<open>The critical store\<close>

definition rtc_store_critical_data_write ::
  "rtc_cfg \<Rightarrow> bytes option \<Rightarrow> rtc_store \<Rightarrow> (esp_err \<times> rtc_store) option" where
  "rtc_store_critical_data_write c data_ptr s =
     (case data_ptr of None \<Rightarrow> Some (ESP_ERR_INVALID_ARG, s)
      | Some data \<Rightarrow>
          let len = length data in
          if len = 0 then Some (ESP_ERR_INVALID_ARG, s)
          else if \<not> rs_init s then Some (ESP_ERR_INVALID_STATE, s)
          else
            let len_real = len + 1 in
            if len_real > DIAG_CRITICAL_BUF_SIZE c then Some (ESP_FAIL, s)
            else
              map_option
                (\<lambda>(ret, curr_free, s1).
                   (ret, if curr_free < DIAG_CRITICAL_DATA_REPORTING_WATERMARK c
                         then post CRITICAL_DATA_LOW_MEM s1 else s1))
                (let curr_free = unat (data_store_get_free (rb_store (critical s))) in
                 if curr_free < len_real then
                   Some (ESP_ERR_NO_MEM, curr_free, post (CRITICAL_DATA_WRITE_FAIL data len_real) s)
                 else
                   Option.bind (rtc_store_write [meta_hdr_idx s] (critical s)) (\<lambda>r1.
                   Option.bind (rtc_store_write_at_offset data 1 r1) (\<lambda>r2.
                     let r3 = rtc_store_write_complete (word_of_nat (len + 1)) r2 in
                     Some (ESP_OK, unat (data_store_get_free (rb_store r3)), s\<lparr>critical := r3\<rparr>)))))"

section \<open>Reading and releasing\<close>

text \<open>The returned number and the bytes put into \<open>buf\<close>.\<close>

definition rtc_store_data_read :: "bool \<Rightarrow> rbuf_data \<Rightarrow> u32 \<Rightarrow> (int \<times> bytes) option" where
  "rtc_store_data_read init r sz =
     (if sz = 0 then Some (-1, [])
      else if \<not> init then Some (-1, [])
      else map_option (\<lambda>b. (int (length b), b)) (rtc_store_data_read_unsafe sz r))"

definition rtc_store_data_release :: "bool \<Rightarrow> rbuf_data \<Rightarrow> u32 \<Rightarrow> esp_err \<times> rbuf_data" where
  "rtc_store_data_release init r sz =
     (if \<not> init then (ESP_ERR_INVALID_STATE, r)
      else if ucast (filled (rb_store r)) < sz then (ESP_FAIL, r)
      else (ESP_OK, rtc_store_read_complete sz r))"

definition rtc_store_critical_data_read :: "u32 \<Rightarrow> rtc_store \<Rightarrow> (int \<times> bytes) option" where
  "rtc_store_critical_data_read sz s = rtc_store_data_read (rs_init s) (critical s) sz"

definition rtc_store_critical_data_release :: "u32 \<Rightarrow> rtc_store \<Rightarrow> esp_err \<times> rtc_store" where
  "rtc_store_critical_data_release sz s =
     (case rtc_store_data_release (rs_init s) (critical s) sz of (e, r) \<Rightarrow> (e, s\<lparr>critical := r\<rparr>))"

definition rtc_store_critical_data_read_and_release :: "u32 \<Rightarrow> rtc_store \<Rightarrow> (int \<times> bytes \<times> rtc_store) option" where
  "rtc_store_critical_data_read_and_release sz s =
     map_option (\<lambda>(data_read, b).
         (data_read, b, if data_read > 0 then snd (rtc_store_critical_data_release sz s) else s))
       (rtc_store_data_read (rs_init s) (critical s) sz)"

definition rtc_store_non_critical_data_read :: "u32 \<Rightarrow> rtc_store \<Rightarrow> (int \<times> bytes) option" where
  "rtc_store_non_critical_data_read sz s = rtc_store_data_read (rs_init s) (non_critical s) sz"

definition rtc_store_non_critical_data_release :: "u32 \<Rightarrow> rtc_store \<Rightarrow> esp_err \<times> rtc_store" where
  "rtc_store_non_critical_data_release sz s =
     (case rtc_store_data_release (rs_init s) (non_critical s) sz of (e, r) \<Rightarrow> (e, s\<lparr>non_critical := r\<rparr>))"

definition rtc_store_non_critical_data_read_and_release :: "u32 \<Rightarrow> rtc_store \<Rightarrow> (int \<times> bytes \<times> rtc_store) option" where
  "rtc_store_non_critical_data_read_and_release sz s =
     map_option (\<lambda>(data_read, b).
         (data_read, b,
          if data_read > 0 then snd (rtc_store_non_critical_data_release (word_of_int data_read) s) else s))
       (rtc_store_data_read (rs_init s) (non_critical s) sz)"

section \<open>The non-critical store\<close>

text \<open>\<open>rtc_store_non_critical_data_hdr_t\<close>: the address of the group name, then the length.\<close>

definition header_bytes :: "u32 \<Rightarrow> u32 \<Rightarrow> bytes" where
  "header_bytes dg len = le32 dg @ le32 len"

definition header_len :: "bytes \<Rightarrow> u32" where
  "header_len hdr = rd32 (drop 4 hdr)"

definition HDR_SIZE :: nat where
  "HDR_SIZE = 8"

text \<open>
  Make room: drop the oldest record until the new one fits. A read of less than a header leaves the
  length uninitialised (\<open>None\<close>).
\<close>

partial_function (option) make_room :: "u32 \<Rightarrow> rbuf_data \<Rightarrow> rbuf_data option" where
  "make_room req_free r =
     (if data_store_get_free (rb_store r) < req_free then
        Option.bind (rtc_store_data_read_unsafe (word_of_nat (HDR_SIZE + 1)) r) (\<lambda>tmp_buf.
          if length tmp_buf < HDR_SIZE + 1 then None
          else make_room req_free
                 (rtc_store_read_complete (word_of_nat (HDR_SIZE + 1) + header_len (drop 1 tmp_buf)) r))
      else Some r)"

definition rtc_store_non_critical_data_write ::
  "rtc_cfg \<Rightarrow> bool \<Rightarrow> u32 \<Rightarrow> bytes option \<Rightarrow> rtc_store \<Rightarrow> (esp_err \<times> rtc_store) option" where
  "rtc_store_non_critical_data_write c lock_taken dg data_ptr s =
     (case data_ptr of None \<Rightarrow> Some (ESP_ERR_INVALID_ARG, s)
      | Some data \<Rightarrow>
          let len = length data; req_free = HDR_SIZE + len + 1 in
          if dg = 0 \<or> len = 0 then Some (ESP_ERR_INVALID_ARG, s)
          else if \<not> esp_ptr_in_drom c dg then Some (ESP_ERR_INVALID_ARG, s)
          else if \<not> rs_init s then Some (ESP_ERR_INVALID_STATE, s)
          else if req_free > DIAG_NON_CRITICAL_BUF_SIZE c then Some (ESP_FAIL, s)
          else if \<not> lock_taken then Some (ESP_FAIL, s)
          else if \<not> OVERWRITE_NON_CRITICAL_DATA c \<and> unat (data_store_get_free (rb_store (non_critical s))) < req_free
          then Some (ESP_ERR_NO_MEM, post NON_CRITICAL_DATA_LOW_MEM s)
          else
            Option.bind (if OVERWRITE_NON_CRITICAL_DATA c then make_room (word_of_nat req_free) (non_critical s)
                         else Some (non_critical s)) (\<lambda>r0.
            Option.bind (rtc_store_write [meta_hdr_idx s] r0) (\<lambda>r1.
            Option.bind (rtc_store_write_at_offset (header_bytes dg (word_of_nat len)) 1 r1) (\<lambda>r2.
            Option.bind (rtc_store_write_at_offset data (word_of_nat (1 + HDR_SIZE)) r2) (\<lambda>r3.
              let r4 = rtc_store_write_complete (word_of_nat req_free) r3;
                  s1 = s\<lparr>non_critical := r4\<rparr> in
              Some (ESP_OK,
                    if unat (data_store_get_free (rb_store r4)) < DIAG_NON_CRITICAL_DATA_REPORTING_WATERMARK c
                    then post NON_CRITICAL_DATA_LOW_MEM s1 else s1))))))"

section \<open>Initialisation\<close>

datatype esp_reset_reason = ESP_RST_UNKNOWN | ESP_RST_POWERON | ESP_RST_BROWNOUT | ESP_RST_OTHER

definition stale_reset :: "esp_reset_reason \<Rightarrow> bool" where
  "stale_reset r \<longleftrightarrow> r = ESP_RST_UNKNOWN \<or> r = ESP_RST_POWERON \<or> r = ESP_RST_BROWNOUT"

definition rtc_store_rbuf_deinit :: "rbuf_data \<Rightarrow> rbuf_data" where
  "rtc_store_rbuf_deinit r = (if rb_lock r then r\<lparr>rb_lock := False\<rparr> else r)"

definition rtc_store_deinit :: "rtc_store \<Rightarrow> rtc_store" where
  "rtc_store_deinit s = s\<lparr>critical := rtc_store_rbuf_deinit (critical s),
     non_critical := rtc_store_rbuf_deinit (non_critical s), rs_init := False\<rparr>"

definition rtc_store_integrity_check :: "data_store \<Rightarrow> bool" where
  "rtc_store_integrity_check st =
     (if ucast (filled st) > ds_size st \<or> ucast (read_offset st) > ds_size st then False else True)"

definition zero_info :: "data_store \<Rightarrow> data_store" where
  "zero_info st = st\<lparr>filled := 0, read_offset := 0\<rparr>"

text \<open>\<open>mutex\<close>: the mutex could be created. The array behind the buffer stays what it was.\<close>

definition rtc_store_rbuf_init :: "bool \<Rightarrow> esp_reset_reason \<Rightarrow> nat \<Rightarrow> rbuf_data \<Rightarrow> esp_err \<times> rbuf_data" where
  "rtc_store_rbuf_init mutex reset_reason rtc_buf_size r =
     (if \<not> mutex then (ESP_ERR_NO_MEM, r\<lparr>rb_lock := False\<rparr>)
      else
        let st = rb_store r;
            st1 = (if stale_reset reset_reason then zero_info st else st);
            st2 = st1\<lparr>ds_size := word_of_nat rtc_buf_size\<rparr>;
            st3 = (if rtc_store_integrity_check st2 = False then zero_info st2 else st2)
        in (ESP_OK, r\<lparr>rb_lock := True, rb_store := st3\<rparr>))"

definition rtc_store_get_meta_record_by_index :: "u8 \<Rightarrow> rtc_store \<Rightarrow> rtc_store_meta_header option" where
  "rtc_store_get_meta_record_by_index idx s =
     (if unat idx \<ge> RTC_STORE_MAX_META_RECORDS then None else Some (meta s ! unat idx))"

text \<open>An index outside the array is undefined (\<open>None\<close>).\<close>

definition rtc_store_get_meta_record_current :: "rtc_store \<Rightarrow> rtc_store_meta_header option" where
  "rtc_store_get_meta_record_current s =
     (if unat (meta_hdr_idx s) < length (meta s) then Some (meta s ! unat (meta_hdr_idx s)) else None)"

definition to_int_digit :: "u8 \<Rightarrow> u8" where
  "to_int_digit val = (if val \<le> 0x39 then val - 0x30 else val - 0x61 + 10)"

definition hex_to_bytes :: "bytes \<Rightarrow> nat \<Rightarrow> bytes" where
  "hex_to_bytes src out_len =
     map (\<lambda>i. push_bit 4 (to_int_digit (src ! (2 * i))) OR to_int_digit (src ! (2 * i + 1))) [0..<out_len]"

text \<open>What the non-volatile storage, the random generator and the application descriptor answer.\<close>

datatype nvs_err = NVS_OK | NVS_NO_FREE_PAGES | NVS_NEW_VERSION_FOUND | NVS_ERR

record boot_env =
  reset_reason :: esp_reset_reason
  mutex_critical :: bool
  mutex_non_critical :: bool
  nvs_flash_init1 :: nvs_err
  nvs_flash_erase :: nvs_err
  nvs_flash_init2 :: nvs_err
  nvs_open :: nvs_err
  nvs_gen_id :: "u8 option"
  nvs_boot_cnt :: "u8 option"
  esp_random :: u32
  elf_sha256 :: bytes

text \<open>The values of the new meta header and what is written to the storage.\<close>

definition nvs_read_write :: "boot_env \<Rightarrow> u8 \<times> u8 \<times> (string \<times> u8) list" where
  "nvs_read_write e =
     (let err = nvs_flash_init1 e;
          again = (err = NVS_NO_FREE_PAGES \<or> err = NVS_NEW_VERSION_FOUND) in
      if again \<and> nvs_flash_erase e \<noteq> NVS_OK then (0, 0, [])
      else if (if again then nvs_flash_init2 e else err) \<noteq> NVS_OK then (0, 0, [])
      else if nvs_open e \<noteq> NVS_OK then (0, 0, [])
      else
        case (nvs_gen_id e, nvs_boot_cnt e) of
          (Some g, Some b) \<Rightarrow> (g, b + 1, [(''boot_cnt'', b + 1)])
        | _ \<Rightarrow> (ucast (esp_random e), 0, [(''gen_id'', ucast (esp_random e)), (''boot_cnt'', 0)]))"

definition rtc_store_meta_hdr_init :: "rtc_cfg \<Rightarrow> boot_env \<Rightarrow> rtc_store \<Rightarrow> rtc_store \<times> (string \<times> u8) list" where
  "rtc_store_meta_hdr_init c e s =
     (case nvs_read_write e of (g, b, w) \<Rightarrow>
        let idx = (unat (meta_hdr_idx s) + 1) mod RTC_STORE_MAX_META_RECORDS;
            hdr = (meta s ! idx)\<lparr>hdr_sha_sum := hex_to_bytes (elf_sha256 e) (SHA_SIZE c), gen_id := g, boot_cnt := b\<rparr>
        in (s\<lparr>meta_hdr_idx := word_of_nat idx, sha_sum := elf_sha256 e, meta := (meta s)[idx := hdr]\<rparr>, w))"

definition rtc_store_discard_data :: "rtc_store \<Rightarrow> esp_err \<times> rtc_store" where
  "rtc_store_discard_data s =
     (if \<not> rs_init s then (ESP_ERR_INVALID_STATE, s)
      else (ESP_OK, s\<lparr>critical := (critical s)\<lparr>rb_store := zero_info (rb_store (critical s))\<rparr>,
                      non_critical := (non_critical s)\<lparr>rb_store := zero_info (rb_store (non_critical s))\<rparr>\<rparr>))"

definition rtc_store_init :: "rtc_cfg \<Rightarrow> boot_env \<Rightarrow> rtc_store \<Rightarrow> esp_err \<times> rtc_store" where
  "rtc_store_init c e s =
     (if rs_init s then (ESP_ERR_INVALID_STATE, s)
      else
        case rtc_store_rbuf_init (mutex_critical e) (reset_reason e) (DIAG_CRITICAL_BUF_SIZE c) (critical s) of
          (err, r) \<Rightarrow>
            let s1 = s\<lparr>critical := r\<rparr> in
            if err \<noteq> ESP_OK then (err, s1)
            else
              case rtc_store_rbuf_init (mutex_non_critical e) (reset_reason e) (DIAG_NON_CRITICAL_BUF_SIZE c)
                     (non_critical s1) of
                (err2, r2) \<Rightarrow>
                  let s2 = s1\<lparr>non_critical := r2\<rparr> in
                  if err2 \<noteq> ESP_OK then (err2, s2\<lparr>critical := rtc_store_rbuf_deinit (critical s2)\<rparr>)
                  else
                    let s3 = (if stale_reset (reset_reason e) then s2\<lparr>meta_hdr_idx := -1\<rparr> else s2)
                    in (ESP_OK, (fst (rtc_store_meta_hdr_init c e s3))\<lparr>rs_init := True\<rparr>))"

section \<open>Writing through the ring\<close>

definition rtc_ok :: "rtc_cfg \<Rightarrow> rtc_store \<Rightarrow> bool" where
  "rtc_ok c s \<longleftrightarrow> rs_init s \<and> ring_ok (critical s) \<and> ring_cap (critical s) = DIAG_CRITICAL_BUF_SIZE c
     \<and> ring_ok (non_critical s) \<and> ring_cap (non_critical s) = DIAG_NON_CRITICAL_BUF_SIZE c"

lemma post_frame [simp]:
  "critical (post e s) = critical s" "non_critical (post e s) = non_critical s" "rs_init (post e s) = rs_init s"
  "meta_hdr_idx (post e s) = meta_hdr_idx s" "rtc_ok c (post e s) = rtc_ok c s"
  by (simp_all add: post_def rtc_ok_def)

lemma unat_free: "ring_ok r \<Longrightarrow> unat (data_store_get_free (rb_store r)) = ring_cap r - ring_fill r"
  using unat_u32_sub [of "ucast (filled (rb_store r))" "ds_size (rb_store r)"] ring_okD [of r]
  by (simp add: data_store_get_free_def ring_cap_def ring_fill_def)

lemma length_contents: "length (contents r) = ring_fill r"
  by (simp add: contents_def ring_at_def)

lemma write_two:
  assumes "ring_ok r" "ring_fill r + (length data + 1) \<le> ring_cap r"
  obtains r1 r2 where "rtc_store_write [i] r = Some r1" "rtc_store_write_at_offset data 1 r1 = Some r2"
    "ring_ok (rtc_store_write_complete (word_of_nat (length data + 1)) r2)"
    "ring_cap (rtc_store_write_complete (word_of_nat (length data + 1)) r2) = ring_cap r"
    "contents (rtc_store_write_complete (word_of_nat (length data + 1)) r2) = contents r @ i # data"
proof -
  from ring.append_chunks [OF assms(1), of "[[i], data]" "length data + 1"] assms(2) obtain r3
    where r3: "map_option (ring_commit (length data + 1)) (stage_chunks ring_stage 0 [[i], data] r) = Some r3"
      "ring_ok r3" "ring_cap r3 = ring_cap r" "ring_at r3 (ring_fill r3) = ring_at r (ring_fill r) @ i # data"
    by auto
  from r3(1) obtain r1 r2 where r: "ring_stage [i] 0 r = Some r1" "ring_stage data 1 r1 = Some r2"
    "r3 = ring_commit (length data + 1) r2"
    by (auto simp: bind_eq_Some_conv)
  show ?thesis
    by (rule that [of r1 r2]) (use r r3(2-) in \<open>simp_all add: ring_stage_def rtc_store_write_def ring_commit_def contents_def\<close>)
qed

lemma write_three:
  assumes "ring_ok r" "ring_fill r + (length h + length data + 1) \<le> ring_cap r" "n = length h + length data + 1"
  obtains r1 r2 r3 where "rtc_store_write [i] r = Some r1" "rtc_store_write_at_offset h 1 r1 = Some r2"
    "rtc_store_write_at_offset data (word_of_nat (1 + length h)) r2 = Some r3"
    "ring_ok (rtc_store_write_complete (word_of_nat n) r3)"
    "ring_cap (rtc_store_write_complete (word_of_nat n) r3) = ring_cap r"
    "contents (rtc_store_write_complete (word_of_nat n) r3) = contents r @ i # h @ data"
proof -
  from ring.append_chunks [OF assms(1), of "[[i], h, data]" n] assms(2,3) obtain r4
    where r4: "map_option (ring_commit n) (stage_chunks ring_stage 0 [[i], h, data] r) = Some r4"
      "ring_ok r4" "ring_cap r4 = ring_cap r" "ring_at r4 (ring_fill r4) = ring_at r (ring_fill r) @ i # h @ data"
    by auto
  from r4(1) obtain r1 r2 r3 where r: "ring_stage [i] 0 r = Some r1" "ring_stage h 1 r1 = Some r2"
    "ring_stage data (1 + length h) r2 = Some r3" "r4 = ring_commit n r3"
    by (auto simp: bind_eq_Some_conv)
  show ?thesis
    by (rule that [of r1 r2 r3])
      (use r r4(2-) in \<open>simp_all add: ring_stage_def rtc_store_write_def ring_commit_def contents_def\<close>)
qed

lemma read_release_of_ok:
  assumes "ring_ok r" "unat n \<le> ring_cap r"
  shows "rtc_store_data_read_unsafe n r = Some (take (unat n) (contents r))"
    and "unat n \<le> ring_fill r \<Longrightarrow> ring_ok (rtc_store_read_complete n r)"
    and "unat n \<le> ring_fill r \<Longrightarrow> ring_cap (rtc_store_read_complete n r) = ring_cap r"
    and "unat n \<le> ring_fill r \<Longrightarrow> contents (rtc_store_read_complete n r) = drop (unat n) (contents r)"
  using ring.peek_ok [OF assms] ring.discard_ok [OF assms(1), of "unat n"]
  by (simp_all add: ring_peek_def ring_discard_def contents_def)

text \<open>A read of more than the whole buffer.\<close>

lemma read_all:
  assumes "ring_ok r" "ring_cap r < unat n"
  shows "rtc_store_data_read_unsafe n r = Some (contents r)"
proof -
  let ?s = "rb_store r" let ?m = "ucast (filled ?s) :: u32"
  have "?m < n" using assms ring_okD [OF assms(1)] by (simp add: word_less_nat_alt ring_fill_def)
  then have "rtc_store_data_read_unsafe n r = rtc_store_data_read_unsafe ?m r"
    by (simp add: rtc_store_data_read_unsafe_def)
  also have "\<dots> = Some (contents r)"
    using read_release_of_ok(1) [OF assms(1), of ?m] ring_okD [OF assms(1)] length_contents [of r]
    by (simp add: ring_fill_def)
  finally show ?thesis .
qed

lemma read_contents:
  assumes "ring_ok r"
  shows "rtc_store_data_read_unsafe n r = Some (take (unat n) (contents r))"
proof (cases "unat n \<le> ring_cap r")
  case True
  then show ?thesis using read_release_of_ok(1) [OF assms] by simp
next
  case False
  then show ?thesis using read_all [OF assms] ring_okD [OF assms] length_contents [of r] by simp
qed

section \<open>The critical store is a queue of bytes\<close>

definition critical_verdict :: "rtc_cfg \<Rightarrow> rtc_store \<Rightarrow> bytes \<Rightarrow> esp_err" where
  "critical_verdict c s data =
     (if data = [] then ESP_ERR_INVALID_ARG
      else if length data + 1 > DIAG_CRITICAL_BUF_SIZE c then ESP_FAIL
      else if DIAG_CRITICAL_BUF_SIZE c - length (contents (critical s)) < length data + 1 then ESP_ERR_NO_MEM
      else ESP_OK)"

lemma critical_write_cases:
  assumes "rtc_ok c s"
  shows "\<exists>s1. rtc_store_critical_data_write c (Some data) s = Some (critical_verdict c s data, s1) \<and>
    rtc_ok c s1 \<and> non_critical s1 = non_critical s \<and> meta_hdr_idx s1 = meta_hdr_idx s \<and>
    contents (critical s1) = contents (critical s) @
      (if critical_verdict c s data = ESP_OK then meta_hdr_idx s # data else [])"
proof -
  note ok = assms [unfolded rtc_ok_def]
  have free: "unat (data_store_get_free (rb_store (critical s))) = DIAG_CRITICAL_BUF_SIZE c - length (contents (critical s))"
    using ok by (simp add: unat_free length_contents)
  show ?thesis
  proof (cases "critical_verdict c s data = ESP_OK")
    case False
    then show ?thesis using assms ok
      by (auto simp: rtc_store_critical_data_write_def critical_verdict_def Let_def free)
  next
    case True
    then have fits: "data \<noteq> []" "length data + 1 \<le> DIAG_CRITICAL_BUF_SIZE c"
      "\<not> DIAG_CRITICAL_BUF_SIZE c - length (contents (critical s)) < length data + 1"
      by (auto simp: critical_verdict_def split: if_splits)
    then have "ring_fill (critical s) + (length data + 1) \<le> ring_cap (critical s)"
      using ok by (auto simp: length_contents)
    then obtain r1 r2 where r: "rtc_store_write [meta_hdr_idx s] (critical s) = Some r1"
      "rtc_store_write_at_offset data 1 r1 = Some r2"
      "ring_ok (rtc_store_write_complete (word_of_nat (length data + 1)) r2)"
      "ring_cap (rtc_store_write_complete (word_of_nat (length data + 1)) r2) = ring_cap (critical s)"
      "contents (rtc_store_write_complete (word_of_nat (length data + 1)) r2) = contents (critical s) @ meta_hdr_idx s # data"
      using ok by (elim write_two [rotated]) auto
    then show ?thesis using fits True ok
      by (simp add: rtc_store_critical_data_write_def Let_def free rtc_ok_def)
  qed
qed

text \<open>
  A session with the critical store: writes, and releases of bytes that were read before. It returns
  the bytes of the accepted writes and the bytes taken out.
\<close>

datatype crit_op = Crit_write bytes | Crit_release u32

fun critical_run :: "rtc_cfg \<Rightarrow> crit_op list \<Rightarrow> rtc_store \<Rightarrow> (bytes \<times> bytes \<times> rtc_store) option" where
  "critical_run c [] s = Some ([], [], s)"
| "critical_run c (Crit_write data # ops) s =
     Option.bind (rtc_store_critical_data_write c (Some data) s) (\<lambda>(e, s1).
     Option.bind (critical_run c ops s1) (\<lambda>(acc, taken, s2).
       Some ((if e = ESP_OK then meta_hdr_idx s # data else []) @ acc, taken, s2)))"
| "critical_run c (Crit_release n # ops) s =
     Option.bind (rtc_store_critical_data_read n s) (\<lambda>(_, b).
       case rtc_store_critical_data_release n s of (e, s1) \<Rightarrow>
         Option.bind (critical_run c ops s1) (\<lambda>(acc, taken, s2).
           Some (acc, (if e = ESP_OK then b else []) @ taken, s2)))"

lemma critical_release_cases:
  assumes "rtc_ok c s"
  shows "\<exists>i b e s1. rtc_store_critical_data_read n s = Some (i, b) \<and>
    rtc_store_critical_data_release n s = (e, s1) \<and> rtc_ok c s1 \<and>
    (if e = ESP_OK then b else []) @ contents (critical s1) = contents (critical s)"
proof -
  note ok = assms [unfolded rtc_ok_def]
  have le: "ring_fill (critical s) \<le> ring_cap (critical s)" using ok ring.fill_le by blast
  have f: "unat (ucast (filled (rb_store (critical s))) :: u32) = ring_fill (critical s)" by (simp add: ring_fill_def)
  show ?thesis
  proof (cases "unat n \<le> ring_fill (critical s)")
    case True
    then have "\<not> ucast (filled (rb_store (critical s))) < n" by (simp add: word_less_nat_alt ring_fill_def)
    moreover have "n = 0 \<Longrightarrow> contents (rtc_store_read_complete n (critical s)) = contents (critical s)"
      using read_release_of_ok(4) [of "critical s" n] ok by simp
    ultimately show ?thesis using ok True le read_release_of_ok [of "critical s" n]
      by (auto simp: rtc_store_critical_data_read_def rtc_store_data_read_def rtc_store_critical_data_release_def
          rtc_store_data_release_def rtc_ok_def)
  next
    case False
    then have "ucast (filled (rb_store (critical s))) < n" by (simp add: word_less_nat_alt ring_fill_def)
    then show ?thesis using ok read_contents [of "critical s" n] assms
      by (auto simp: rtc_store_critical_data_read_def rtc_store_data_read_def rtc_store_critical_data_release_def
          rtc_store_data_release_def)
  qed
qed

text \<open>C16: The critical store loses nothing it accepted and never leaves its memory. Over any sequence of
  writes and releases, wherever the ring wraps, what was in the store followed by the accepted data
  (each with its meta index) is what was read and released followed by what is still in the store.\<close>

theorem critical_store_is_fifo:
  assumes "rtc_ok c s"
  shows "\<exists>acc taken s'. critical_run c ops s = Some (acc, taken, s') \<and> rtc_ok c s' \<and>
    contents (critical s) @ acc = taken @ contents (critical s')"
  using assms
proof (induction ops arbitrary: s)
  case (Cons op ops)
  show ?case
  proof (cases op)
    case (Crit_write data)
    obtain s1 where s1: "rtc_store_critical_data_write c (Some data) s = Some (critical_verdict c s data, s1)"
      "rtc_ok c s1" "contents (critical s1) = contents (critical s) @
      (if critical_verdict c s data = ESP_OK then meta_hdr_idx s # data else [])"
      using critical_write_cases [OF Cons.prems, of data] by blast
    from Cons.IH [OF s1(2)] show ?thesis using s1 by (auto simp: Crit_write)
  next
    case (Crit_release n)
    obtain i b e s1 where s1: "rtc_store_critical_data_read n s = Some (i, b)"
      "rtc_store_critical_data_release n s = (e, s1)" "rtc_ok c s1"
      "(if e = ESP_OK then b else []) @ contents (critical s1) = contents (critical s)"
      using critical_release_cases [OF Cons.prems, of n] by blast
    obtain acc taken s' where r: "critical_run c ops s1 = Some (acc, taken, s')" "rtc_ok c s'"
      "contents (critical s1) @ acc = taken @ contents (critical s')"
      using Cons.IH [OF s1(3)] by blast
    then have "contents (critical s) @ acc = ((if e = ESP_OK then b else []) @ taken) @ contents (critical s')"
      unfolding s1(4) [symmetric] append_assoc by simp
    then show ?thesis using s1 r by (auto simp: Crit_release)
  qed
qed simp

text \<open>A write cut short is not visible. Before the last step of a critical write (the update of the
  16-bit \<open>filled\<close>, here after either copy) the store holds exactly what it held before, so a reset in
  the middle loses no older data and shows no torn record.\<close>

theorem interrupted_write_invisible:
  assumes "ring_ok r" and "length (contents r) + length data + 1 \<le> ring_cap r"
  shows "\<exists>r1 r2. rtc_store_write [i] r = Some r1 \<and> rtc_store_write_at_offset data 1 r1 = Some r2 \<and>
    contents r1 = contents r \<and> contents r2 = contents r"
proof -
  have fit: "ring_fill r + (length data + 1) \<le> ring_cap r" using assms(2) by (simp add: length_contents)
  obtain r1 r2 where r: "rtc_store_write [i] r = Some r1" "rtc_store_write_at_offset data 1 r1 = Some r2"
    using write_two [OF assms(1) fit] by blast
  have "stage_chunks ring_stage 0 [[i]] r = Some r1" "stage_chunks ring_stage 0 [[i], data] r = Some r2"
    using r by (simp_all add: ring_stage_def rtc_store_write_def)
  then have "contents r1 = contents r" "contents r2 = contents r"
    using ring.stage_chunks_invisible [OF assms(1), of "[[i]]" r1]
      ring.stage_chunks_invisible [OF assms(1), of "[[i], data]" r2] fit
    unfolding contents_def by (auto simp del: stage_chunks.simps)
  then show ?thesis using r by blast
qed

section \<open>The non-critical store is a queue of records\<close>

text \<open>A record: meta index, address of the group name, data.\<close>

type_synonym nc_record = "u8 \<times> u32 \<times> bytes"

fun rec_bytes :: "nc_record \<Rightarrow> bytes" where
  "rec_bytes (i, dg, d) = i # header_bytes dg (word_of_nat (length d)) @ d"

definition recs_bytes :: "nc_record list \<Rightarrow> bytes" where
  "recs_bytes rs = concat (map rec_bytes rs)"

text \<open>What is left when the oldest records go until \<open>need\<close> bytes of \<open>capacity\<close> are free.\<close>

fun evict :: "nat \<Rightarrow> nat \<Rightarrow> nc_record list \<Rightarrow> nc_record list" where
  "evict capacity need [] = []"
| "evict capacity need (r # rs) =
     (if length (recs_bytes (r # rs)) + need \<le> capacity then r # rs else evict capacity need rs)"

lemma recs_bytes_simps [simp]:
  "recs_bytes [] = []" "recs_bytes (r # rs) = rec_bytes r @ recs_bytes rs"
  "recs_bytes (xs @ ys) = recs_bytes xs @ recs_bytes ys"
  by (simp_all add: recs_bytes_def)

lemma evict_fits: "need \<le> capacity \<Longrightarrow> length (recs_bytes (evict capacity need rs)) + need \<le> capacity"
  by (induction capacity need rs rule: evict.induct) auto

lemma length_header [simp]: "length (header_bytes dg len) = 8"
  by (simp add: header_bytes_def)

lemma header_len_header [simp]: "header_len (header_bytes dg len) = len"
  using rd32_le32 [of len "[]"] by (simp add: header_len_def header_bytes_def)

lemma make_room_ok:
  assumes "ring_ok r" "contents r = recs_bytes rs" "unat req \<le> ring_cap r"
  shows "\<exists>r'. make_room req r = Some r' \<and> ring_ok r' \<and> ring_cap r' = ring_cap r \<and>
    contents r' = recs_bytes (evict (ring_cap r) (unat req) rs)"
  using assms
proof (induction rs arbitrary: r)
  case Nil
  then have "ring_fill r = 0" using length_contents [of r] by simp
  then have "\<not> data_store_get_free (rb_store r) < req" using Nil by (simp add: word_less_nat_alt unat_free)
  then show ?case using Nil by (simp add: make_room.simps)
next
  case (Cons rec rs)
  have fill: "ring_fill r = length (recs_bytes (rec # rs))" using length_contents [of r] Cons.prems(2) by simp
  have le: "ring_fill r \<le> ring_cap r" "ring_cap r < 32768" using ring_okD [OF Cons.prems(1)] by auto
  have full: "data_store_get_free (rb_store r) < req \<longleftrightarrow> ring_cap r < length (recs_bytes (rec # rs)) + unat req"
    using le fill by (auto simp: word_less_nat_alt unat_free [OF Cons.prems(1)])
  show ?case
  proof (cases "data_store_get_free (rb_store r) < req")
    case False
    then show ?thesis using Cons.prems full by (simp add: make_room.simps)
  next
    case True
    obtain i dg d where rec: "rec = (i, dg, d)" by (cases rec) auto
    have len: "length d + 9 \<le> ring_fill r" using fill by (simp add: rec)
    have nine: "unat (word_of_nat (HDR_SIZE + 1) :: u32) = 9" by (simp add: HDR_SIZE_def)
    have rd: "rtc_store_data_read_unsafe (word_of_nat (HDR_SIZE + 1)) r = Some (i # header_bytes dg (word_of_nat (length d)))"
      using read_contents [OF Cons.prems(1), of "word_of_nat (HDR_SIZE + 1)"] Cons.prems(2)
      by (simp only: nine) (simp add: rec)
    define n :: u32 where "n = word_of_nat (HDR_SIZE + 1) + word_of_nat (length d)"
    have n: "unat n = length d + 9"
      unfolding n_def using len le by (subst unat_u32_add) (simp_all add: HDR_SIZE_def unat_u32_of_nat)
    define r1 where "r1 = rtc_store_read_complete n r"
    have r1: "ring_ok r1" "ring_cap r1 = ring_cap r" "contents r1 = recs_bytes rs"
      using read_release_of_ok [OF Cons.prems(1), of n] Cons.prems(2) len le
      by (simp_all add: n r1_def rec drop_Cons')
    have "make_room req r = make_room req r1"
      using True rd by (subst make_room.simps) (simp add: r1_def n_def HDR_SIZE_def)
    then show ?thesis using Cons.IH [OF r1(1,3)] Cons.prems(3) r1(2) True full by simp
  qed
qed

text \<open>C17: With overwriting on, the non-critical store keeps the newest records. A write makes room by
  dropping the oldest whole records, no more than needed, and appends the new record behind the
  rest; the loop ends, no access leaves the memory and the critical store is not touched.\<close>

theorem noncritical_overwrites_oldest:
  assumes "rtc_ok c s" and "OVERWRITE_NON_CRITICAL_DATA c" and "contents (non_critical s) = recs_bytes rs"
    and "dg \<noteq> 0" and "esp_ptr_in_drom c dg" and "data \<noteq> []" and "length data + 9 \<le> DIAG_NON_CRITICAL_BUF_SIZE c"
  shows "\<exists>s'. rtc_store_non_critical_data_write c True dg (Some data) s = Some (ESP_OK, s') \<and> rtc_ok c s' \<and>
    critical s' = critical s \<and>
    contents (non_critical s') =
      recs_bytes (evict (DIAG_NON_CRITICAL_BUF_SIZE c) (length data + 9) rs @ [(meta_hdr_idx s, dg, data)])"
proof -
  note ok = assms(1) [unfolded rtc_ok_def]
  let ?B = "DIAG_NON_CRITICAL_BUF_SIZE c" let ?n = "length data + 9"
  have B: "?B < 32768" using ok ring_okD by metis
  have n: "unat (word_of_nat ?n :: u32) = ?n" using assms(7) B by (intro unat_u32_of_nat) simp
  obtain r0 where r0: "make_room (word_of_nat ?n) (non_critical s) = Some r0" "ring_ok r0" "ring_cap r0 = ?B"
    "contents r0 = recs_bytes (evict ?B ?n rs)"
    using make_room_ok [of "non_critical s" rs "word_of_nat ?n"] ok assms(3,7) n by auto
  have fit: "ring_fill r0 + (length (header_bytes dg (word_of_nat (length data))) + length data + 1) \<le> ring_cap r0"
    using evict_fits [OF assms(7), of rs] r0 length_contents [of r0] by simp
  have n9: "?n = length (header_bytes dg (word_of_nat (length data))) + length data + 1" by simp
  obtain r1 r2 r3 where w: "rtc_store_write [meta_hdr_idx s] r0 = Some r1"
    "rtc_store_write_at_offset (header_bytes dg (word_of_nat (length data))) 1 r1 = Some r2"
    "rtc_store_write_at_offset data (word_of_nat (1 + length (header_bytes dg (word_of_nat (length data))))) r2 = Some r3"
    "ring_ok (rtc_store_write_complete (word_of_nat ?n) r3)"
    "ring_cap (rtc_store_write_complete (word_of_nat ?n) r3) = ring_cap r0"
    "contents (rtc_store_write_complete (word_of_nat ?n) r3) =
       contents r0 @ meta_hdr_idx s # header_bytes dg (word_of_nat (length data)) @ data"
    by (rule write_three [OF r0(2) fit n9])
  have size: "word_of_nat (1 + HDR_SIZE) = (9 :: u32)" "HDR_SIZE + length data + 1 = ?n" by (simp_all add: HDR_SIZE_def)
  have "rtc_store_write_at_offset data 9 r2 = Some r3" using w(3) by simp
  then show ?thesis
    using assms(2,4-7) ok r0 w(1,2,4-6)
    by (auto simp: rtc_store_non_critical_data_write_def Let_def size rtc_ok_def simp del: of_nat_add of_nat_Suc add_Suc_right One_nat_def)
qed

section \<open>Reading with release\<close>

text \<open>A generous buffer defeats the release of critical data. When the caller asks for more bytes
  than there are, the data is returned but not released, because the release is tried with the
  requested size; the next call returns the same data again. The non-critical variant releases
  what was read.\<close>

theorem critical_read_and_release_keeps_data:
  assumes "rtc_ok c s" and "contents (critical s) \<noteq> []" and "length (contents (critical s)) < unat sz"
  shows "rtc_store_critical_data_read_and_release sz s =
    Some (int (length (contents (critical s))), contents (critical s), s)"
proof -
  have ok: "rs_init s" "ring_ok (critical s)" using assms(1) by (auto simp: rtc_ok_def)
  have nz: "sz \<noteq> 0" using assms(3) by auto
  have "ucast (filled (rb_store (critical s))) < sz"
    using assms(3) by (simp add: word_less_nat_alt length_contents ring_fill_def)
  then show ?thesis using ok nz assms(2,3) read_contents [OF ok(2), of sz]
    by (auto simp: rtc_store_critical_data_read_and_release_def rtc_store_data_read_def
        rtc_store_critical_data_release_def rtc_store_data_release_def)
qed

lemma non_critical_read_and_release_frees:
  assumes "rtc_ok c s" and "contents (non_critical s) \<noteq> []" and "length (contents (non_critical s)) < unat sz"
  shows "\<exists>s'. rtc_store_non_critical_data_read_and_release sz s =
    Some (int (length (contents (non_critical s))), contents (non_critical s), s') \<and> contents (non_critical s') = []"
proof -
  let ?r = "non_critical s" let ?n = "length (contents ?r)"
  have ok: "rs_init s" "ring_ok ?r" using assms(1) by (auto simp: rtc_ok_def)
  have nz: "sz \<noteq> 0" using assms(3) by auto
  have le: "?n \<le> ring_cap ?r" "ring_cap ?r < 32768" using ring_okD [OF ok(2)] by (auto simp: length_contents)
  have n: "unat (word_of_nat ?n :: u32) = ?n" using le by (intro unat_u32_of_nat) simp
  have "\<not> ucast (filled (rb_store ?r)) < (word_of_nat ?n :: u32)"
    unfolding word_less_nat_alt n by (simp add: length_contents ring_fill_def)
  moreover have "contents (rtc_store_read_complete (word_of_nat ?n) ?r) = []"
    using read_release_of_ok(4) [OF ok(2), of "word_of_nat ?n"] le by (simp only: n) (simp add: length_contents)
  ultimately show ?thesis using ok nz assms(2,3) read_contents [OF ok(2), of sz]
    by (simp add: rtc_store_non_critical_data_read_and_release_def rtc_store_data_read_def
        rtc_store_non_critical_data_release_def rtc_store_data_release_def)
qed

section \<open>Boot\<close>

text \<open>What a warm boot finds in a buffer: the offsets are inside it.\<close>

definition intact :: "nat \<Rightarrow> rbuf_data \<Rightarrow> bool" where
  "intact n r \<longleftrightarrow> unat (filled (rb_store r)) \<le> n \<and> unat (read_offset (rb_store r)) \<le> n"

lemma rbuf_init_ok:
  assumes "length (ds_buf (rb_store r)) = n" "n < 32768"
  shows "\<exists>r'. rtc_store_rbuf_init True why n r = (ESP_OK, r') \<and> ring_ok r' \<and> ring_cap r' = n \<and>
    contents r' = (if stale_reset why \<or> \<not> intact n r then [] else contents r)"
proof -
  have n: "unat (word_of_nat n :: u32) = n" using assms by (intro unat_u32_of_nat) simp
  have chk: "rtc_store_integrity_check (st\<lparr>ds_size := word_of_nat n\<rparr>) \<longleftrightarrow>
      unat (filled st) \<le> n \<and> unat (read_offset st) \<le> n" for st
    by (auto simp: rtc_store_integrity_check_def word_less_nat_alt n)
  show ?thesis
  proof (cases "stale_reset why")
    case True
    then show ?thesis using assms chk [of "zero_info (rb_store r)"]
      by (simp add: rtc_store_rbuf_init_def Let_def zero_info_def ring_ok_def ring_cap_def contents_def
          ring_fill_def ring_at_def ring_window_def n)
  next
    case False
    then show ?thesis using assms chk [of "rb_store r"]
      by (auto simp: rtc_store_rbuf_init_def Let_def zero_info_def ring_ok_def ring_cap_def contents_def
          ring_fill_def ring_at_def ring_window_def n intact_def)
  qed
qed

text \<open>C18: Diagnostics survive a warm reset and nothing stale survives a cold one. With its mutexes
  created, initialisation succeeds and establishes the invariant of both stores whatever is in the
  memory; a store keeps its bytes exactly if the reset was not a power-on, brown-out or unknown
  one and its offsets lie inside its buffer, and is empty otherwise. The meta index advances
  cyclically; after a cold reset it starts at 6, since -1 is stored in 8 bits.\<close>

theorem init_keeps_or_discards:
  assumes "\<not> rs_init s" and "mutex_critical e" and "mutex_non_critical e"
    and "length (ds_buf (rb_store (critical s))) = DIAG_CRITICAL_BUF_SIZE c"
    and "length (ds_buf (rb_store (non_critical s))) = DIAG_NON_CRITICAL_BUF_SIZE c"
    and "DIAG_CRITICAL_BUF_SIZE c < 32768" and "DIAG_NON_CRITICAL_BUF_SIZE c < 32768"
  shows "\<exists>s'. rtc_store_init c e s = (ESP_OK, s') \<and> rtc_ok c s' \<and>
    contents (critical s') =
      (if stale_reset (reset_reason e) \<or> \<not> intact (DIAG_CRITICAL_BUF_SIZE c) (critical s) then []
       else contents (critical s)) \<and>
    contents (non_critical s') =
      (if stale_reset (reset_reason e) \<or> \<not> intact (DIAG_NON_CRITICAL_BUF_SIZE c) (non_critical s) then []
       else contents (non_critical s)) \<and>
    meta_hdr_idx s' = (if stale_reset (reset_reason e) then 6 else word_of_nat ((unat (meta_hdr_idx s) + 1) mod 10))"
proof -
  obtain r1 where r1: "rtc_store_rbuf_init True (reset_reason e) (DIAG_CRITICAL_BUF_SIZE c) (critical s) = (ESP_OK, r1)"
    "ring_ok r1" "ring_cap r1 = DIAG_CRITICAL_BUF_SIZE c"
    "contents r1 = (if stale_reset (reset_reason e) \<or> \<not> intact (DIAG_CRITICAL_BUF_SIZE c) (critical s) then []
       else contents (critical s))"
    using rbuf_init_ok [OF assms(4,6)] by blast
  obtain r2 where r2: "rtc_store_rbuf_init True (reset_reason e) (DIAG_NON_CRITICAL_BUF_SIZE c) (non_critical s) = (ESP_OK, r2)"
    "ring_ok r2" "ring_cap r2 = DIAG_NON_CRITICAL_BUF_SIZE c"
    "contents r2 = (if stale_reset (reset_reason e) \<or> \<not> intact (DIAG_NON_CRITICAL_BUF_SIZE c) (non_critical s) then []
       else contents (non_critical s))"
    using rbuf_init_ok [OF assms(5,7)] by blast
  obtain g b w where nvs: "nvs_read_write e = (g, b, w)" by (cases "nvs_read_write e") auto
  have "unat (- 1 :: u8) = 255" by (simp add: unsigned_minus_1_eq_mask mask_eq_exp_minus_1)
  then show ?thesis using assms(1-3) r1 r2
    by (simp add: rtc_store_init_def rtc_store_meta_hdr_init_def nvs Let_def rtc_ok_def RTC_STORE_MAX_META_RECORDS_def)
qed

lemma discard_empties:
  "rs_init s \<Longrightarrow> rtc_store_discard_data s = (e, s') \<Longrightarrow>
   e = ESP_OK \<and> contents (critical s') = [] \<and> contents (non_critical s') = []"
  by (auto simp: rtc_store_discard_data_def contents_def ring_fill_def zero_info_def ring_at_def ring_window_def)

section \<open>Witnesses\<close>

definition cfg_rtc :: rtc_cfg where
  "cfg_rtc = \<lparr>RTC_STORE_DATA_SIZE = 6144, RTC_STORE_CRITICAL_DATA_SIZE = 4096, REPORTING_WATERMARK_PERCENT = 80,
     OVERWRITE_NON_CRITICAL_DATA = True, SHA_SIZE = 8, esp_ptr_in_drom = (\<lambda>p. p \<ge> 0x3c000000 \<and> p < 0x3c800000)\<rparr>"

definition ring_ex :: "nat \<Rightarrow> u16 \<Rightarrow> u16 \<Rightarrow> rbuf_data" where
  "ring_ex n ro fi = \<lparr>rb_lock = True, rb_store = \<lparr>ds_buf = replicate n 0xAB, ds_size = word_of_nat n,
     read_offset = ro, filled = fi\<rparr>, wrap_cnt = 0\<rparr>"

definition store_ex :: "bool \<Rightarrow> rtc_store" where
  "store_ex i = \<lparr>rs_init = i, critical = ring_ex 4096 4090 10, non_critical = ring_ex 2049 2040 0, meta = replicate 10
     \<lparr>gen_id = 0, boot_cnt = 0, hdr_sha_sum = [], hdr_valid = False\<rparr>, meta_hdr_idx = 3, sha_sum = [], ds_events = []\<rparr>"

lemma sizes_ex [simp]:
  "DIAG_CRITICAL_BUF_SIZE cfg_rtc = 4096" "DIAG_NON_CRITICAL_BUF_SIZE cfg_rtc = 2049"
  by (simp_all add: DIAG_CRITICAL_BUF_SIZE_def DIAG_NON_CRITICAL_BUF_SIZE_def NON_CRITICAL_DATA_SIZE_def cfg_rtc_def)

lemma store_ex_ok: "rtc_ok cfg_rtc (store_ex True)"
  by (simp add: rtc_ok_def store_ex_def ring_ex_def ring_ok_def ring_cap_def)

lemma store_ex_contents:
  "contents (critical (store_ex i)) = replicate 10 0xAB" "contents (non_critical (store_ex i)) = []"
  by (auto simp: store_ex_def ring_ex_def contents_def ring_fill_def ring_at_def ring_window_def
      map_replicate_const intro!: nth_equalityI)

theorem critical_store_is_fifo_witness:
  "\<exists>acc taken s'. critical_run cfg_rtc [Crit_write [1, 2], Crit_release 6, Crit_write [], Crit_release 9999]
     (store_ex True) = Some (acc, taken, s') \<and> rtc_ok cfg_rtc s' \<and>
    contents (critical (store_ex True)) @ acc = taken @ contents (critical s')"
  by (rule critical_store_is_fifo [OF store_ex_ok])

theorem interrupted_write_invisible_witness:
  "\<exists>r1 r2. rtc_store_write [3] (ring_ex 4096 4090 10) = Some r1 \<and> rtc_store_write_at_offset [1, 2] 1 r1 = Some r2 \<and>
    contents r1 = contents (ring_ex 4096 4090 10) \<and> contents r2 = contents (ring_ex 4096 4090 10)"
  by (rule interrupted_write_invisible)
    (simp_all add: ring_ex_def ring_ok_def ring_cap_def length_contents ring_fill_def)

theorem noncritical_overwrites_oldest_witness:
  "\<exists>s'. rtc_store_non_critical_data_write cfg_rtc True 0x3c000010 (Some [7]) (store_ex True) = Some (ESP_OK, s') \<and>
    rtc_ok cfg_rtc s' \<and> critical s' = critical (store_ex True) \<and>
    contents (non_critical s') =
      recs_bytes (evict (DIAG_NON_CRITICAL_BUF_SIZE cfg_rtc) (length [7 :: u8] + 9) [] @
        [(meta_hdr_idx (store_ex True), 0x3c000010, [7])])"
  by (rule noncritical_overwrites_oldest [OF store_ex_ok])
    (simp_all add: cfg_rtc_def store_ex_contents DIAG_NON_CRITICAL_BUF_SIZE_def NON_CRITICAL_DATA_SIZE_def
      DIAG_CRITICAL_BUF_SIZE_def)

theorem critical_read_and_release_keeps_data_witness:
  "rtc_store_critical_data_read_and_release 64 (store_ex True) =
     Some (int (length (contents (critical (store_ex True)))), contents (critical (store_ex True)), store_ex True)"
  by (rule critical_read_and_release_keeps_data [OF store_ex_ok]) (simp_all add: store_ex_contents)

theorem init_keeps_or_discards_witness:
  "\<exists>s'. rtc_store_init cfg_rtc \<lparr>reset_reason = ESP_RST_OTHER, mutex_critical = True, mutex_non_critical = True,
       nvs_flash_init1 = NVS_OK, nvs_flash_erase = NVS_OK, nvs_flash_init2 = NVS_OK, nvs_open = NVS_OK,
       nvs_gen_id = Some 5, nvs_boot_cnt = Some 1, esp_random = 0, elf_sha256 = replicate 17 0x30\<rparr> (store_ex False) =
       (ESP_OK, s') \<and> contents (critical s') = replicate 10 0xAB"
proof -
  let ?e = "\<lparr>reset_reason = ESP_RST_OTHER, mutex_critical = True, mutex_non_critical = True,
       nvs_flash_init1 = NVS_OK, nvs_flash_erase = NVS_OK, nvs_flash_init2 = NVS_OK, nvs_open = NVS_OK,
       nvs_gen_id = Some 5, nvs_boot_cnt = Some 1, esp_random = 0, elf_sha256 = replicate 17 0x30\<rparr>"
  have i: "intact 4096 (critical (store_ex False))" by (simp add: intact_def store_ex_def ring_ex_def)
  have "\<not> rs_init (store_ex False)" "length (ds_buf (rb_store (critical (store_ex False)))) = 4096"
    "length (ds_buf (rb_store (non_critical (store_ex False)))) = 2049"
    by (simp_all add: store_ex_def ring_ex_def)
  then show ?thesis
    using init_keeps_or_discards [of "store_ex False" ?e cfg_rtc] i
    by (auto simp: stale_reset_def store_ex_contents)
qed

end
