(* ===== verification/DiagStore.thy ===== *)
theory DiagStore
  imports RtcStore
begin

text \<open>
  managed_components/espressif__esp_diag_data_store/src/esp_diag_data_store.c: the front of the data store. It calls
  the RTC store through a table of callbacks, set by the initialisation and cleared by the
  deinitialisation. Calling through a cleared table is undefined (\<open>None\<close>). The CRC of the
  store's layout comes from a ROM function over addresses and is a parameter.
\<close>

section \<open>State\<close>

record 's data_store_cbs =
  cb_init :: "'s \<Rightarrow> esp_err \<times> 's"
  cb_deinit :: "'s \<Rightarrow> 's"
  cb_critical_write :: "bytes option \<Rightarrow> 's \<Rightarrow> (esp_err \<times> 's) option"
  cb_non_critical_write :: "u32 \<Rightarrow> bytes option \<Rightarrow> 's \<Rightarrow> (esp_err \<times> 's) option"
  cb_critical_read :: "u32 \<Rightarrow> 's \<Rightarrow> (int \<times> bytes) option"
  cb_non_critical_read :: "u32 \<Rightarrow> 's \<Rightarrow> (int \<times> bytes) option"
  cb_critical_release :: "u32 \<Rightarrow> 's \<Rightarrow> esp_err \<times> 's"
  cb_non_critical_release :: "u32 \<Rightarrow> 's \<Rightarrow> esp_err \<times> 's"
  cb_data_store_crc :: "'s \<Rightarrow> u32"
  cb_discard_data :: "'s \<Rightarrow> esp_err \<times> 's"

record diag_store =
  dst_init :: bool
  cbs :: "rtc_store data_store_cbs option"
  dst_store :: rtc_store

text \<open>The environment of one call: the boot values, whether the mutex is free, the CRC.\<close>

record diag_env =
  de_boot :: boot_env
  de_lock :: bool
  de_crc :: "rtc_store \<Rightarrow> u32"

definition rtc_cbs :: "rtc_cfg \<Rightarrow> diag_env \<Rightarrow> rtc_store data_store_cbs" where
  "rtc_cbs c e = \<lparr>cb_init = rtc_store_init c (de_boot e), cb_deinit = rtc_store_deinit,
     cb_critical_write = rtc_store_critical_data_write c,
     cb_non_critical_write = rtc_store_non_critical_data_write c (de_lock e),
     cb_critical_read = rtc_store_critical_data_read, cb_non_critical_read = rtc_store_non_critical_data_read,
     cb_critical_release = rtc_store_critical_data_release,
     cb_non_critical_release = rtc_store_non_critical_data_release,
     cb_data_store_crc = de_crc e, cb_discard_data = rtc_store_discard_data\<rparr>"

definition set_diag_store_cbs :: "rtc_cfg \<Rightarrow> diag_env \<Rightarrow> diag_store \<Rightarrow> diag_store" where
  "set_diag_store_cbs c e d = d\<lparr>cbs := Some (rtc_cbs c e)\<rparr>"

definition unset_diag_store_cbs :: "diag_store \<Rightarrow> diag_store" where
  "unset_diag_store_cbs d = d\<lparr>cbs := None\<rparr>"

definition with_store :: "diag_store \<Rightarrow> 'a \<times> rtc_store \<Rightarrow> 'a \<times> diag_store" where
  "with_store d r = (fst r, d\<lparr>dst_store := snd r\<rparr>)"

section \<open>Operations\<close>

definition esp_diag_data_store_critical_write :: "bytes option \<Rightarrow> diag_store \<Rightarrow> (esp_err \<times> diag_store) option" where
  "esp_diag_data_store_critical_write data d =
     (if \<not> dst_init d then Some (ESP_ERR_INVALID_STATE, d)
      else Option.bind (cbs d) (\<lambda>t. map_option (with_store d) (cb_critical_write t data (dst_store d))))"

definition esp_diag_data_store_non_critical_write ::
  "u32 \<Rightarrow> bytes option \<Rightarrow> diag_store \<Rightarrow> (esp_err \<times> diag_store) option" where
  "esp_diag_data_store_non_critical_write dg data d =
     (if \<not> dst_init d then Some (ESP_ERR_INVALID_STATE, d)
      else Option.bind (cbs d) (\<lambda>t. map_option (with_store d) (cb_non_critical_write t dg data (dst_store d))))"

definition esp_diag_data_store_critical_read :: "u32 \<Rightarrow> diag_store \<Rightarrow> (int \<times> bytes) option" where
  "esp_diag_data_store_critical_read sz d =
     (if \<not> dst_init d then Some (-1, []) else Option.bind (cbs d) (\<lambda>t. cb_critical_read t sz (dst_store d)))"

definition esp_diag_data_store_non_critical_read :: "u32 \<Rightarrow> diag_store \<Rightarrow> (int \<times> bytes) option" where
  "esp_diag_data_store_non_critical_read sz d =
     (if \<not> dst_init d then Some (-1, []) else Option.bind (cbs d) (\<lambda>t. cb_non_critical_read t sz (dst_store d)))"

definition esp_diag_data_store_critical_release :: "u32 \<Rightarrow> diag_store \<Rightarrow> (esp_err \<times> diag_store) option" where
  "esp_diag_data_store_critical_release sz d =
     (if \<not> dst_init d then Some (ESP_ERR_INVALID_STATE, d)
      else map_option (\<lambda>t. with_store d (cb_critical_release t sz (dst_store d))) (cbs d))"

definition esp_diag_data_store_non_critical_release :: "u32 \<Rightarrow> diag_store \<Rightarrow> (esp_err \<times> diag_store) option" where
  "esp_diag_data_store_non_critical_release sz d =
     (if \<not> dst_init d then Some (ESP_ERR_INVALID_STATE, d)
      else map_option (\<lambda>t. with_store d (cb_non_critical_release t sz (dst_store d))) (cbs d))"

definition esp_diag_data_store_init :: "rtc_cfg \<Rightarrow> diag_env \<Rightarrow> diag_store \<Rightarrow> (esp_err \<times> diag_store) option" where
  "esp_diag_data_store_init c e d0 =
     (let d = set_diag_store_cbs c e d0 in
      Option.bind (cbs d) (\<lambda>t.
        case cb_init t (dst_store d) of (err, s) \<Rightarrow>
          let d1 = d\<lparr>dst_store := s\<rparr> in
          if err \<noteq> ESP_OK then Some (err, d1) else Some (ESP_OK, d1\<lparr>dst_init := True\<rparr>)))"

definition esp_diag_data_store_deinit :: "diag_store \<Rightarrow> diag_store option" where
  "esp_diag_data_store_deinit d =
     (if \<not> dst_init d then Some d
      else map_option (\<lambda>t. (unset_diag_store_cbs (d\<lparr>dst_store := cb_deinit t (dst_store d)\<rparr>))\<lparr>dst_init := False\<rparr>) (cbs d))"

text \<open>Before the initialisation the error code comes back as a CRC.\<close>

definition esp_diag_data_store_get_crc :: "diag_store \<Rightarrow> u32 option" where
  "esp_diag_data_store_get_crc d =
     (if \<not> dst_init d then Some 0x103 else map_option (\<lambda>t. cb_data_store_crc t (dst_store d)) (cbs d))"

definition esp_diag_data_discard_data :: "diag_store \<Rightarrow> (esp_err \<times> diag_store) option" where
  "esp_diag_data_discard_data d =
     (if \<not> dst_init d then Some (ESP_ERR_INVALID_STATE, d)
      else map_option (\<lambda>t. with_store d (cb_discard_data t (dst_store d))) (cbs d))"

section \<open>Life cycle\<close>

inductive diag_step :: "rtc_cfg \<Rightarrow> diag_store \<Rightarrow> diag_store \<Rightarrow> bool" for c :: rtc_cfg where
  dg_init: "esp_diag_data_store_init c e d = Some (r, d') \<Longrightarrow> diag_step c d d'"
| dg_deinit: "esp_diag_data_store_deinit d = Some d' \<Longrightarrow> diag_step c d d'"
| dg_write: "esp_diag_data_store_critical_write data d = Some (r, d') \<Longrightarrow> diag_step c d d'"
| dg_nc_write: "esp_diag_data_store_non_critical_write dg data d = Some (r, d') \<Longrightarrow> diag_step c d d'"
| dg_release: "esp_diag_data_store_critical_release n d = Some (r, d') \<Longrightarrow> diag_step c d d'"
| dg_nc_release: "esp_diag_data_store_non_critical_release n d = Some (r, d') \<Longrightarrow> diag_step c d d'"
| dg_discard: "esp_diag_data_discard_data d = Some (r, d') \<Longrightarrow> diag_step c d d'"

text \<open>From the reset state: static data zeroed, the RTC memory holding anything.\<close>

inductive diag_reachable :: "rtc_cfg \<Rightarrow> diag_store \<Rightarrow> bool" for c :: rtc_cfg where
  dr_reset: "\<not> rs_init s \<Longrightarrow> diag_reachable c \<lparr>dst_init = False, cbs = None, dst_store = s\<rparr>"
| dr_step: "diag_reachable c d \<Longrightarrow> diag_step c d d' \<Longrightarrow> diag_reachable c d'"

definition diag_inv :: "rtc_cfg \<Rightarrow> diag_store \<Rightarrow> bool" where
  "diag_inv c d \<longleftrightarrow> rs_init (dst_store d) = dst_init d \<and> (\<forall>t. cbs d = Some t \<longrightarrow> (\<exists>e. t = rtc_cbs c e)) \<and>
     (dst_init d \<longrightarrow> cbs d \<noteq> None)"

text \<open>No operation of the store but init and deinit changes its flag.\<close>

lemma critical_write_flag:
  "rtc_store_critical_data_write c data s = Some (r, s') \<Longrightarrow> rs_init s' = rs_init s"
  by (auto simp: rtc_store_critical_data_write_def Let_def bind_eq_Some_conv split: option.splits if_splits)

lemma non_critical_write_flag:
  "rtc_store_non_critical_data_write c l dg data s = Some (r, s') \<Longrightarrow> rs_init s' = rs_init s"
  by (auto simp: rtc_store_non_critical_data_write_def Let_def bind_eq_Some_conv split: option.splits if_splits)

lemma release_flags:
  "rs_init (snd (rtc_store_critical_data_release n s)) = rs_init s"
  "rs_init (snd (rtc_store_non_critical_data_release n s)) = rs_init s"
  "rs_init (snd (rtc_store_discard_data s)) = rs_init s"
  by (simp_all add: rtc_store_critical_data_release_def rtc_store_non_critical_data_release_def
      rtc_store_discard_data_def split: prod.splits)

lemma init_flag:
  "rtc_store_init c e s = (r, s') \<Longrightarrow> rs_init s' = (if r = ESP_OK then True else rs_init s)"
  by (auto simp: rtc_store_init_def Let_def rtc_store_rbuf_init_def split: prod.splits if_splits)

lemmas diag_flags = critical_write_flag non_critical_write_flag release_flags init_flag

lemma diag_inv_step:
  assumes "diag_inv c d" "diag_step c d d'"
  shows "diag_inv c d'"
  using assms(2)
proof cases
  case (dg_init e r)
  then show ?thesis using assms(1)
    by (auto simp: esp_diag_data_store_init_def set_diag_store_cbs_def rtc_cbs_def Let_def diag_inv_def
        dest: init_flag split: prod.splits if_splits)
next
  case dg_deinit
  then show ?thesis using assms(1)
    by (auto simp: esp_diag_data_store_deinit_def unset_diag_store_cbs_def diag_inv_def rtc_cbs_def
        rtc_store_deinit_def split: if_splits)
next
  case (dg_write data r)
  then show ?thesis using assms(1)
    by (fastforce simp: esp_diag_data_store_critical_write_def with_store_def diag_inv_def rtc_cbs_def
        bind_eq_Some_conv dest: critical_write_flag split: if_splits)
next
  case (dg_nc_write dg data r)
  then show ?thesis using assms(1)
    by (fastforce simp: esp_diag_data_store_non_critical_write_def with_store_def diag_inv_def rtc_cbs_def
        bind_eq_Some_conv dest: non_critical_write_flag split: if_splits)
next
  case (dg_release n r)
  then show ?thesis using assms(1)
    by (fastforce simp: esp_diag_data_store_critical_release_def with_store_def diag_inv_def rtc_cbs_def
        release_flags split: if_splits)
next
  case (dg_nc_release n r)
  then show ?thesis using assms(1)
    by (fastforce simp: esp_diag_data_store_non_critical_release_def with_store_def diag_inv_def rtc_cbs_def
        release_flags split: if_splits)
next
  case (dg_discard r)
  then show ?thesis using assms(1)
    by (fastforce simp: esp_diag_data_discard_data_def with_store_def diag_inv_def rtc_cbs_def
        release_flags split: if_splits)
qed

text \<open>No call goes through a cleared callback. In every state the front of the data store can reach
  from a reset, whatever is called in whatever order, it is initialised exactly if the RTC store
  is, and then its callbacks are those of the RTC store.\<close>

theorem initialised_store_has_callbacks:
  assumes "diag_reachable c d"
  shows "dst_init d = rs_init (dst_store d) \<and> (dst_init d \<longrightarrow> (\<exists>e. cbs d = Some (rtc_cbs c e)))"
proof -
  from assms have "diag_inv c d"
  proof (induction rule: diag_reachable.induct)
    case (dr_reset s)
    then show ?case by (simp add: diag_inv_def)
  next
    case (dr_step d d')
    from this(3,2) show ?case by (rule diag_inv_step)
  qed
  then show ?thesis by (auto simp: diag_inv_def)
qed

theorem initialised_store_has_callbacks_witness:
  "\<exists>d. diag_reachable cfg_rtc d \<and> (dst_init d = rs_init (dst_store d)) \<and>
     (dst_init d \<longrightarrow> (\<exists>e. cbs d = Some (rtc_cbs cfg_rtc e)))"
proof -
  have r: "diag_reachable cfg_rtc \<lparr>dst_init = False, cbs = None, dst_store = store_ex False\<rparr>"
    by (rule dr_reset) (simp add: store_ex_def)
  show ?thesis using initialised_store_has_callbacks [OF r] r by blast
qed

end
