(* ===== verification/CborEnc.thy ===== *)
theory CborEnc
  imports Prelude
begin

text \<open>
  The CBOR encoder (managed_components/espressif__cbor/tinycbor/src/cborencoder.c and the inline functions of
  cbor.h), on a 32-bit target. An encoder writes into a buffer, keeps counting when the buffer is
  too small, or hands its bytes to a writer function, which is a parameter with its own state.
  The two are instances of one locale. Containers have an encoder of their own, whose
  position is copied back when they are closed. \<open>None\<close> is an access outside the buffer.
\<close>

section \<open>Types\<close>

datatype cbor_error =
    CborNoError | CborUnknownError | CborErrorUnknownLength | CborErrorAdvancePastEOF | CborErrorIO
  | CborErrorGarbageAtEnd | CborErrorUnexpectedEOF | CborErrorUnexpectedBreak | CborErrorUnknownType
  | CborErrorIllegalType | CborErrorIllegalNumber | CborErrorIllegalSimpleType | CborErrorNoMoreStringChunks
  | CborErrorUnknownSimpleType | CborErrorUnknownTag | CborErrorInappropriateTagForType
  | CborErrorDuplicateObjectKeys | CborErrorInvalidUtf8TextString | CborErrorExcludedType
  | CborErrorExcludedValue | CborErrorImproperValue | CborErrorOverlongEncoding | CborErrorMapKeyNotString
  | CborErrorMapNotSorted | CborErrorMapKeysNotUnique | CborErrorTooManyItems | CborErrorTooFewItems
  | CborErrorDataTooLarge | CborErrorNestingTooDeep | CborErrorUnsupportedType
  | CborErrorUnimplementedValidation | CborErrorJsonObjectKeyIsAggregate | CborErrorJsonObjectKeyNotString
  | CborErrorJsonNotImplemented | CborErrorOutOfMemory | CborErrorInternalError

text \<open>Major types, shifted into place, and the values of the low five bits.\<close>

definition UnsignedIntegerType :: u8 where "UnsignedIntegerType = 0"
definition NegativeIntegerType :: u8 where "NegativeIntegerType = 1"
definition ByteStringType :: u8 where "ByteStringType = 2"
definition TextStringType :: u8 where "TextStringType = 3"
definition ArrayType :: u8 where "ArrayType = 4"
definition MapType :: u8 where "MapType = 5"
definition TagType :: u8 where "TagType = 6"
definition SimpleTypesType :: u8 where "SimpleTypesType = 7"
definition Value8Bit :: u8 where "Value8Bit = 24"
definition IndefiniteLength :: u8 where "IndefiniteLength = 31"
definition BreakByte :: u8 where "BreakByte = 0xff"
definition HalfPrecisionFloat :: u8 where "HalfPrecisionFloat = 25"
definition Break :: u8 where "Break = 31"
definition CborIndefiniteLength :: u32 where "CborIndefiniteLength = 0xffffffff"

definition shifted :: "u8 \<Rightarrow> u8" where
  "shifted majorType = push_bit 5 majorType"

lemmas cbor_consts =
  UnsignedIntegerType_def NegativeIntegerType_def ByteStringType_def TextStringType_def ArrayType_def MapType_def
  TagType_def SimpleTypesType_def Value8Bit_def IndefiniteLength_def BreakByte_def HalfPrecisionFloat_def Break_def

datatype float_type = CborHalfFloatType | CborFloatType | CborDoubleType

text \<open>Big-endian bytes.\<close>

definition put16 :: "u16 \<Rightarrow> bytes" where
  "put16 v = [ucast (drop_bit 8 v), ucast v]"

definition put32 :: "u32 \<Rightarrow> bytes" where
  "put32 v = [ucast (drop_bit 24 v), ucast (drop_bit 16 v), ucast (drop_bit 8 v), ucast v]"

definition put64 :: "u64 \<Rightarrow> bytes" where
  "put64 v = [ucast (drop_bit 56 v), ucast (drop_bit 48 v), ucast (drop_bit 40 v), ucast (drop_bit 32 v),
     ucast (drop_bit 24 v), ucast (drop_bit 16 v), ucast (drop_bit 8 v), ucast v]"

section \<open>State\<close>

text \<open>\<open>e_data\<close> is the union: the position in the buffer, or the bytes needed once \<open>e_end\<close> is null.\<close>

record cbor_encoder =
  e_data :: nat
  e_end :: "nat option"
  e_remaining :: u32
  f_writer :: bool
  f_unknown_length :: bool
  f_map :: bool

record 'w enc_mem =
  em_buf :: bytes
  em_w :: 'w

datatype append_type = AppendCborData | AppendStringData

type_synonym 'w writer = "append_type \<Rightarrow> bytes \<Rightarrow> 'w \<Rightarrow> cbor_error \<times> 'w"
type_synonym 'w enc_op = "cbor_encoder \<Rightarrow> 'w enc_mem \<Rightarrow> (cbor_error \<times> cbor_encoder \<times> 'w enc_mem) option"

definition cbor_encoder_init :: "nat option \<Rightarrow> cbor_encoder" where
  "cbor_encoder_init buffer_size = \<lparr>e_data = 0, e_end = buffer_size, e_remaining = 2, f_writer = False,
     f_unknown_length = False, f_map = False\<rparr>"

text \<open>The token is stored where the end of the buffer would be.\<close>

definition cbor_encoder_init_writer :: "nat option \<Rightarrow> cbor_encoder" where
  "cbor_encoder_init_writer token = \<lparr>e_data = 0, e_end = token, e_remaining = 2, f_writer = True,
     f_unknown_length = False, f_map = False\<rparr>"

section \<open>Appending\<close>

definition isOomError :: "cbor_error \<Rightarrow> bool" where
  "isOomError err \<longleftrightarrow> err = CborErrorOutOfMemory"

definition would_overflow :: "cbor_encoder \<Rightarrow> nat \<Rightarrow> bool" where
  "would_overflow e len =
     (let remaining = (case e_end e of Some en \<Rightarrow> int en - int (e_data e) | None \<Rightarrow> 0 - int (e_data e))
      in remaining - int len < 0)"

definition advance_ptr :: "cbor_encoder \<Rightarrow> nat \<Rightarrow> cbor_encoder" where
  "advance_ptr e n = e\<lparr>e_data := e_data e + n\<rparr>"

definition append_to_buffer :: "'w writer \<Rightarrow> append_type \<Rightarrow> bytes \<Rightarrow> 'w enc_op" where
  "append_to_buffer wr t data e m =
     (if f_writer e then (case wr t data (em_w m) of (err, w) \<Rightarrow> Some (err, e, m\<lparr>em_w := w\<rparr>))
      else if would_overflow e (length data) then
        (case e_end e of
           Some en \<Rightarrow> Some (CborErrorOutOfMemory,
             advance_ptr (e\<lparr>e_end := None, e_data := 0\<rparr>) (length data - (en - e_data e)), m)
         | None \<Rightarrow> Some (CborErrorOutOfMemory, advance_ptr e (length data), m))
      else
        map_option (\<lambda>b. (CborNoError, e\<lparr>e_data := e_data e + length data\<rparr>, m\<lparr>em_buf := b\<rparr>))
          (memcpy_to (em_buf m) (e_data e) data))"

definition append_byte_to_buffer :: "'w writer \<Rightarrow> u8 \<Rightarrow> 'w enc_op" where
  "append_byte_to_buffer wr byte = append_to_buffer wr AppendCborData [byte]"

section \<open>Numbers\<close>

text \<open>The end of the 16-byte work area: the descriptor and as many bytes of the value as it needs.\<close>

definition head_bytes :: "u64 \<Rightarrow> u8 \<Rightarrow> bytes" where
  "head_bytes ui shiftedMajorType =
     (let buf = put64 ui in
      if ui < 24 then [last buf + shiftedMajorType]
      else
        let more = (if ui > 0xff then 1 else 0) + (if ui > 0xffff then 1 else 0) + (if ui > 0xffffffff then 1 else 0)
        in (shiftedMajorType + Value8Bit + word_of_nat more) # drop (8 - 2 ^ more) buf)"

definition encode_number_no_update :: "'w writer \<Rightarrow> u64 \<Rightarrow> u8 \<Rightarrow> 'w enc_op" where
  "encode_number_no_update wr ui shiftedMajorType = append_to_buffer wr AppendCborData (head_bytes ui shiftedMajorType)"

definition saturated_decrement :: "cbor_encoder \<Rightarrow> cbor_encoder" where
  "saturated_decrement e = (if e_remaining e \<noteq> 0 then e\<lparr>e_remaining := e_remaining e - 1\<rparr> else e)"

definition encode_number :: "'w writer \<Rightarrow> u64 \<Rightarrow> u8 \<Rightarrow> 'w enc_op" where
  "encode_number wr ui shiftedMajorType e m = encode_number_no_update wr ui shiftedMajorType (saturated_decrement e) m"

definition cbor_encode_uint :: "'w writer \<Rightarrow> u64 \<Rightarrow> 'w enc_op" where
  "cbor_encode_uint wr v = encode_number wr v (shifted UnsignedIntegerType)"

definition cbor_encode_negative_int :: "'w writer \<Rightarrow> u64 \<Rightarrow> 'w enc_op" where
  "cbor_encode_negative_int wr absolute_value = encode_number wr (absolute_value - 1) (shifted NegativeIntegerType)"

text \<open>\<open>v\<close> is the bit pattern of the signed value; the shift extends the sign.\<close>

definition cbor_encode_int :: "'w writer \<Rightarrow> u64 \<Rightarrow> 'w enc_op" where
  "cbor_encode_int wr v =
     (let ui = signed_drop_bit 63 v; majorType = ucast ui AND 0x20 in encode_number wr (ui XOR v) majorType)"

definition cbor_encode_simple_value :: "'w writer \<Rightarrow> u8 \<Rightarrow> 'w enc_op" where
  "cbor_encode_simple_value wr v e m =
     (if v \<ge> HalfPrecisionFloat \<and> v \<le> Break then Some (CborErrorIllegalSimpleType, e, m)
      else encode_number wr (ucast v) (shifted SimpleTypesType) e m)"

definition cbor_encode_boolean :: "'w writer \<Rightarrow> bool \<Rightarrow> 'w enc_op" where
  "cbor_encode_boolean wr v = cbor_encode_simple_value wr ((if v then 1 else 0) - 1 + 0x15)"

definition cbor_encode_null :: "'w writer \<Rightarrow> 'w enc_op" where
  "cbor_encode_null wr = cbor_encode_simple_value wr 0x16"

definition cbor_encode_undefined :: "'w writer \<Rightarrow> 'w enc_op" where
  "cbor_encode_undefined wr = cbor_encode_simple_value wr 0x17"

text \<open>The bits of the floating-point value, in the low bits.\<close>

fun float_bytes :: "float_type \<Rightarrow> u64 \<Rightarrow> bytes" where
  "float_bytes CborHalfFloatType v = 0xf9 # put16 (ucast v)"
| "float_bytes CborFloatType v = 0xfa # put32 (ucast v)"
| "float_bytes CborDoubleType v = 0xfb # put64 v"

definition cbor_encode_floating_point :: "'w writer \<Rightarrow> float_type \<Rightarrow> u64 \<Rightarrow> 'w enc_op" where
  "cbor_encode_floating_point wr fpType v e m =
     append_to_buffer wr AppendCborData (float_bytes fpType v) (saturated_decrement e) m"

definition cbor_encode_tag :: "'w writer \<Rightarrow> u64 \<Rightarrow> 'w enc_op" where
  "cbor_encode_tag wr tag = encode_number_no_update wr tag (shifted TagType)"

section \<open>Strings and containers\<close>

definition encode_string :: "'w writer \<Rightarrow> u8 \<Rightarrow> bytes \<Rightarrow> 'w enc_op" where
  "encode_string wr shiftedMajorType str e m =
     Option.bind (encode_number wr (word_of_nat (length str)) shiftedMajorType e m) (\<lambda>(err, e1, m1).
       if err \<noteq> CborNoError \<and> \<not> isOomError err then Some (err, e1, m1)
       else append_to_buffer wr AppendStringData str e1 m1)"

definition cbor_encode_byte_string :: "'w writer \<Rightarrow> bytes \<Rightarrow> 'w enc_op" where
  "cbor_encode_byte_string wr str = encode_string wr (shifted ByteStringType) str"

definition cbor_encode_text_string :: "'w writer \<Rightarrow> bytes \<Rightarrow> 'w enc_op" where
  "cbor_encode_text_string wr str = encode_string wr (shifted TextStringType) str"

text \<open>The parent, then the container.\<close>

definition create_container ::
  "'w writer \<Rightarrow> u32 \<Rightarrow> u8 \<Rightarrow> cbor_encoder \<Rightarrow> 'w enc_mem \<Rightarrow> (cbor_error \<times> cbor_encoder \<times> cbor_encoder \<times> 'w enc_mem) option" where
  "create_container wr len shiftedMajorType e m =
     (let is_map = (shiftedMajorType AND 0x20 \<noteq> 0);
          c = \<lparr>e_data = e_data e, e_end = e_end e, e_remaining = len + 1, f_writer = f_writer e,
               f_unknown_length = False, f_map = is_map\<rparr> in
      map_option (\<lambda>(err, c1, m1). (err, saturated_decrement e, c1, m1))
        (if len = CborIndefiniteLength then
           append_byte_to_buffer wr (shiftedMajorType + IndefiniteLength) (c\<lparr>f_unknown_length := True\<rparr>) m
         else
           encode_number_no_update wr (ucast len) shiftedMajorType
             (if is_map then c\<lparr>e_remaining := e_remaining c + len\<rparr> else c) m))"

definition cbor_encoder_create_array where
  "cbor_encoder_create_array wr len = create_container wr len (shifted ArrayType)"

text \<open>The container is left as it was (here: the parent) when the map is too large.\<close>

definition cbor_encoder_create_map where
  "cbor_encoder_create_map wr len e m =
     (if len \<noteq> CborIndefiniteLength \<and> len > 0xffffffff div 2 then Some (CborErrorDataTooLarge, e, e, m)
      else create_container wr len (shifted MapType) e m)"

definition cbor_encoder_close_container :: "'w writer \<Rightarrow> cbor_encoder \<Rightarrow> 'w enc_op" where
  "cbor_encoder_close_container wr c e m =
     (let e1 = e\<lparr>e_end := e_end c, e_data := e_data c\<rparr> in
      if f_unknown_length c then append_byte_to_buffer wr BreakByte e1 m
      else if e_remaining c \<noteq> 1 then
        Some (if e_remaining c = 0 then CborErrorTooManyItems else CborErrorTooFewItems, e1, m)
      else if e_end e1 = None then Some (CborErrorOutOfMemory, e1, m)
      else Some (CborNoError, e1, m))"

definition cbor_encoder_close_container_checked :: "'w writer \<Rightarrow> cbor_encoder \<Rightarrow> 'w enc_op" where
  "cbor_encoder_close_container_checked wr c = cbor_encoder_close_container wr c"

definition cbor_encoder_get_buffer_size :: "cbor_encoder \<Rightarrow> nat" where
  "cbor_encoder_get_buffer_size e = e_data e"

definition cbor_encoder_get_extra_bytes_needed :: "cbor_encoder \<Rightarrow> nat" where
  "cbor_encoder_get_extra_bytes_needed e = (case e_end e of Some _ \<Rightarrow> 0 | None \<Rightarrow> e_data e)"

section \<open>Items\<close>

text \<open>A data item, the calls a client makes for it, and its encoding.\<close>

datatype cbor_item =
    CUint u64 | CNegative u64 | CInt u64 | CSimple u8 | CBool bool | CNull | CUndefined | CFloating float_type u64
  | CBytes bytes | CText bytes | CTag u64 cbor_item
  | CArray bool "cbor_item list" | CMap bool "(cbor_item \<times> cbor_item) list"

text \<open>A client goes on after running out of memory and stops at any other error.\<close>

definition enc_seq :: "'w enc_op \<Rightarrow> 'w enc_op \<Rightarrow> 'w enc_op" where
  "enc_seq f g e m = Option.bind (f e m) (\<lambda>(err, e1, m1).
     if err \<noteq> CborNoError \<and> \<not> isOomError err then Some (err, e1, m1) else g e1 m1)"

fun enc_all :: "'w enc_op list \<Rightarrow> 'w enc_op" where
  "enc_all [] = (\<lambda>e m. Some (CborNoError, e, m))"
| "enc_all (f # fs) = enc_seq f (enc_all fs)"

definition in_container ::
  "(cbor_encoder \<Rightarrow> 'w enc_mem \<Rightarrow> (cbor_error \<times> cbor_encoder \<times> cbor_encoder \<times> 'w enc_mem) option) \<Rightarrow> 'w enc_op \<Rightarrow>
   (cbor_encoder \<Rightarrow> 'w enc_op) \<Rightarrow> 'w enc_op" where
  "in_container create body close e m =
     Option.bind (create e m) (\<lambda>(err, e1, c, m1).
       if err \<noteq> CborNoError \<and> \<not> isOomError err then Some (err, e1, m1)
       else Option.bind (body c m1) (\<lambda>(err2, c2, m2).
         if err2 \<noteq> CborNoError \<and> \<not> isOomError err2 then Some (err2, e1, m2) else close c2 e1 m2))"

definition item_count :: "bool \<Rightarrow> nat \<Rightarrow> u32" where
  "item_count definite n = (if definite then word_of_nat n else CborIndefiniteLength)"

fun encode_item :: "'w writer \<Rightarrow> cbor_item \<Rightarrow> 'w enc_op" where
  "encode_item wr (CUint v) = cbor_encode_uint wr v"
| "encode_item wr (CNegative v) = cbor_encode_negative_int wr v"
| "encode_item wr (CInt v) = cbor_encode_int wr v"
| "encode_item wr (CSimple v) = cbor_encode_simple_value wr v"
| "encode_item wr (CBool b) = cbor_encode_boolean wr b"
| "encode_item wr CNull = cbor_encode_null wr"
| "encode_item wr CUndefined = cbor_encode_undefined wr"
| "encode_item wr (CFloating t v) = cbor_encode_floating_point wr t v"
| "encode_item wr (CBytes s) = cbor_encode_byte_string wr s"
| "encode_item wr (CText s) = cbor_encode_text_string wr s"
| "encode_item wr (CTag t i) = enc_seq (cbor_encode_tag wr t) (encode_item wr i)"
| "encode_item wr (CArray d xs) =
     in_container (cbor_encoder_create_array wr (item_count d (length xs))) (enc_all (map (encode_item wr) xs))
       (cbor_encoder_close_container wr)"
| "encode_item wr (CMap d kvs) =
     in_container (cbor_encoder_create_map wr (item_count d (length kvs)))
       (enc_all (map (\<lambda>(k, v). enc_seq (encode_item wr k) (encode_item wr v)) kvs))
       (cbor_encoder_close_container wr)"

definition container_bytes :: "bool \<Rightarrow> u8 \<Rightarrow> nat \<Rightarrow> bytes \<Rightarrow> bytes" where
  "container_bytes definite majorType n body =
     (if definite then head_bytes (word_of_nat n) (shifted majorType) @ body
      else (shifted majorType + IndefiniteLength) # body @ [BreakByte])"

definition int_bytes :: "u64 \<Rightarrow> bytes" where
  "int_bytes v = (if sint v < 0 then head_bytes (NOT v) (shifted NegativeIntegerType)
     else head_bytes v (shifted UnsignedIntegerType))"

fun item_bytes :: "cbor_item \<Rightarrow> bytes" where
  "item_bytes (CUint v) = head_bytes v (shifted UnsignedIntegerType)"
| "item_bytes (CNegative v) = head_bytes (v - 1) (shifted NegativeIntegerType)"
| "item_bytes (CInt v) = int_bytes v"
| "item_bytes (CSimple v) = head_bytes (ucast v) (shifted SimpleTypesType)"
| "item_bytes (CBool b) = [if b then 0xf5 else 0xf4]"
| "item_bytes CNull = [0xf6]"
| "item_bytes CUndefined = [0xf7]"
| "item_bytes (CFloating t v) = float_bytes t v"
| "item_bytes (CBytes s) = head_bytes (word_of_nat (length s)) (shifted ByteStringType) @ s"
| "item_bytes (CText s) = head_bytes (word_of_nat (length s)) (shifted TextStringType) @ s"
| "item_bytes (CTag t i) = head_bytes t (shifted TagType) @ item_bytes i"
| "item_bytes (CArray d xs) = container_bytes d ArrayType (length xs) (concat (map item_bytes xs))"
| "item_bytes (CMap d kvs) =
     container_bytes d MapType (length kvs) (concat (map (\<lambda>(k, v). item_bytes k @ item_bytes v) kvs))"

end
