(* ===== verification/CborSink.thy ===== *)
theory CborSink
  imports CborEnc
begin

text \<open>
  What the encoder relies on (the locale \<open>cbor_sink\<close>), the proof inside it that every item is
  written as its encoding, and its two instances: the buffer with its count of missing bytes,
  and a writer function that takes everything.
\<close>

section \<open>Well-formed items\<close>

fun wf_item :: "cbor_item \<Rightarrow> bool" where
  "wf_item (CSimple v) = (\<not> (v \<ge> HalfPrecisionFloat \<and> v \<le> Break))"
| "wf_item (CBytes s) = (length s < 2 ^ 31)"
| "wf_item (CText s) = (length s < 2 ^ 31)"
| "wf_item (CTag t i) = wf_item i"
| "wf_item (CArray d xs) = (length xs < 2 ^ 31 \<and> (\<forall>x \<in> set xs. wf_item x))"
| "wf_item (CMap d kvs) = (length kvs < 2 ^ 31 \<and> (\<forall>(k, v) \<in> set kvs. wf_item k \<and> wf_item v))"
| "wf_item _ = True"

lemma cbor_encode_int_sign:
  "cbor_encode_int wr v = (if sint v < 0 then encode_number wr (NOT v) (shifted NegativeIntegerType)
     else encode_number wr v (shifted UnsignedIntegerType))"
proof -
  have "signed_drop_bit 63 v = (if sint v < 0 then -1 else 0)"
  proof (rule bit_word_eqI)
    fix n :: nat assume "n < LENGTH(64)"
    then show "bit (signed_drop_bit 63 v) n = bit (if sint v < 0 then -1 else 0 :: u64) n"
      using bit_last_iff [of v] by (cases "n = 0") (auto simp: bit_signed_drop_bit_iff)
  qed
  moreover have "ucast (-1 :: u64) = (-1 :: u8)" by (rule bit_word_eqI) (simp add: bit_ucast_iff)
  ultimately show ?thesis
    by (simp add: cbor_encode_int_def Let_def shifted_def cbor_consts)
qed

lemma heads:
  "head_bytes 0x14 0xe0 = [0xf4]" "head_bytes 0x15 0xe0 = [0xf5]" "head_bytes 0x16 0xe0 = [0xf6]" "head_bytes 0x17 0xe0 = [0xf7]"
  by (simp_all add: head_bytes_def Let_def put64_def)

lemma simple_heads:
  "cbor_encode_boolean wr b = encode_number wr (if b then 0x15 else 0x14) 0xe0"
  "cbor_encode_null wr = encode_number wr 0x16 0xe0"
  "cbor_encode_undefined wr = encode_number wr 0x17 0xe0"
  by (auto simp: cbor_encode_boolean_def cbor_encode_null_def cbor_encode_undefined_def cbor_encode_simple_value_def
      fun_eq_iff shifted_def cbor_consts)

lemma map_count_ok:
  "length kvs < 2 ^ 31 \<Longrightarrow> \<not> (item_count d (length kvs) \<noteq> CborIndefiniteLength \<and> item_count d (length kvs) > 0xffffffff div 2)"
  by (auto simp: item_count_def word_less_nat_alt unsigned_of_nat take_bit_nat_eq_self)

section \<open>The contract\<close>

text \<open>The abstract state \<open>taken\<close> takes bytes with \<open>push\<close> and knows whether space ran out (\<open>oom\<close>).\<close>

definition verdict :: "('a \<Rightarrow> bool) \<Rightarrow> 'a \<Rightarrow> cbor_error" where
  "verdict oom a = (if oom a then CborErrorOutOfMemory else CborNoError)"

definition same_modes :: "cbor_encoder \<Rightarrow> cbor_encoder \<Rightarrow> bool" where
  "same_modes e e' \<longleftrightarrow> f_writer e' = f_writer e \<and> f_unknown_length e' = f_unknown_length e \<and> f_map e' = f_map e"

text \<open>
  \<open>op\<close> takes the bytes \<open>bs\<close> into the sink and counts as \<open>k\<close> items; a strict operation
  reports whether space ran out.
\<close>

definition encodes ::
  "(cbor_encoder \<Rightarrow> 'w enc_mem \<Rightarrow> bool) \<Rightarrow> (cbor_encoder \<Rightarrow> 'w enc_mem \<Rightarrow> 'a) \<Rightarrow> (bytes \<Rightarrow> 'a \<Rightarrow> 'a) \<Rightarrow> ('a \<Rightarrow> bool) \<Rightarrow>
   bool \<Rightarrow> 'w enc_op \<Rightarrow> bytes \<Rightarrow> nat \<Rightarrow> bool" where
  "encodes ok taken push oom strict f bs k \<longleftrightarrow> (\<forall>e m. ok e m \<longrightarrow> (\<exists>err e' m'. f e m = Some (err, e', m') \<and> ok e' m' \<and>
     taken e' m' = push bs (taken e m) \<and> unat (e_remaining e') = unat (e_remaining e) - k \<and> same_modes e e' \<and>
     (err = verdict oom (taken e' m') \<or> \<not> strict \<and> err = CborNoError)))"

lemma unat_saturated [simp]: "unat (e_remaining (saturated_decrement e)) = unat (e_remaining e) - 1"
  by (auto simp: saturated_decrement_def unat_minus_one)

lemma saturated_fields [simp]:
  "e_data (saturated_decrement e) = e_data e" "e_end (saturated_decrement e) = e_end e"
  "f_writer (saturated_decrement e) = f_writer e" "f_unknown_length (saturated_decrement e) = f_unknown_length e"
  "f_map (saturated_decrement e) = f_map e"
  by (simp_all add: saturated_decrement_def)

lemma same_modes_simps [simp]:
  "same_modes e e" "same_modes (saturated_decrement e) e' = same_modes e e'"
  by (simp_all add: same_modes_def)

lemma same_modes_trans: "same_modes a b \<Longrightarrow> same_modes b c \<Longrightarrow> same_modes a c"
  by (simp add: same_modes_def)

lemma verdict_not_fatal [simp]: "\<not> (verdict oom a \<noteq> CborNoError \<and> \<not> isOomError (verdict oom a))"
  by (simp add: verdict_def isOomError_def)

locale cbor_sink =
  fixes wr :: "'w writer"
    and ok :: "cbor_encoder \<Rightarrow> 'w enc_mem \<Rightarrow> bool"
    and taken :: "cbor_encoder \<Rightarrow> 'w enc_mem \<Rightarrow> 'a"
    and push :: "bytes \<Rightarrow> 'a \<Rightarrow> 'a"
    and oom :: "'a \<Rightarrow> bool"
  assumes push_append: "push ys (push xs a) = push (xs @ ys) a"
    and push_Nil: "ok e m \<Longrightarrow> push [] (taken e m) = taken e m"
    and frame: "e_data e = e_data e' \<Longrightarrow> e_end e = e_end e' \<Longrightarrow> f_writer e = f_writer e' \<Longrightarrow>
      ok e m = ok e' m \<and> taken e m = taken e' m"
    and append_ok: "ok e m \<Longrightarrow> \<exists>e' m'. append_to_buffer wr t xs e m = Some (verdict oom (push xs (taken e m)), e', m') \<and>
      ok e' m' \<and> taken e' m' = push xs (taken e m) \<and> e_remaining e' = e_remaining e \<and> same_modes e e'"
    and end_ok: "ok e m \<Longrightarrow> (e_end e = None) = oom (taken e m)"
begin

lemma frame_saturated: "ok (saturated_decrement e) m = ok e m" "taken (saturated_decrement e) m = taken e m"
  using frame [of "saturated_decrement e" e m] by auto

lemma encodes_append: "encodes ok taken push oom True (append_to_buffer wr t xs) xs 0"
  unfolding encodes_def
proof (intro allI impI)
  fix e m assume "ok e m"
  from append_ok [OF this, of t xs] show "\<exists>err e' m'. append_to_buffer wr t xs e m = Some (err, e', m') \<and> ok e' m' \<and>
     taken e' m' = push xs (taken e m) \<and> unat (e_remaining e') = unat (e_remaining e) - 0 \<and> same_modes e e' \<and>
     (err = verdict oom (taken e' m') \<or> \<not> True \<and> err = CborNoError)"
    by auto
qed

lemma encodes_counted:
  assumes "encodes ok taken push oom s f bs 0"
  shows "encodes ok taken push oom s (\<lambda>e m. f (saturated_decrement e) m) bs 1"
  unfolding encodes_def
proof (intro allI impI)
  fix e m assume "ok e m"
  then have "ok (saturated_decrement e) m" by (simp add: frame_saturated)
  with assms obtain err e' m' where "f (saturated_decrement e) m = Some (err, e', m')" "ok e' m'"
    "taken e' m' = push bs (taken (saturated_decrement e) m)"
    "unat (e_remaining e') = unat (e_remaining (saturated_decrement e)) - 0" "same_modes (saturated_decrement e) e'"
    "err = verdict oom (taken e' m') \<or> \<not> s \<and> err = CborNoError"
    unfolding encodes_def by blast
  then show "\<exists>err e' m'. f (saturated_decrement e) m = Some (err, e', m') \<and> ok e' m' \<and>
     taken e' m' = push bs (taken e m) \<and> unat (e_remaining e') = unat (e_remaining e) - 1 \<and> same_modes e e' \<and>
     (err = verdict oom (taken e' m') \<or> \<not> s \<and> err = CborNoError)"
    by (auto simp: frame_saturated)
qed

lemma encodes_number: "encodes ok taken push oom True (encode_number wr ui smt) (head_bytes ui smt) 1"
  using encodes_counted [OF encodes_append, of AppendCborData "head_bytes ui smt"]
  by (simp add: encode_number_def [abs_def] encode_number_no_update_def)

lemma encodes_weaken: "encodes ok taken push oom s f bs k \<Longrightarrow> encodes ok taken push oom False f bs k"
  unfolding encodes_def by blast

lemma encodes_seq:
  assumes "encodes ok taken push oom False f xs k" "encodes ok taken push oom s g ys l"
  shows "encodes ok taken push oom s (enc_seq f g) (xs @ ys) (k + l)"
  unfolding encodes_def
proof (intro allI impI)
  fix e m assume "ok e m"
  with assms(1) obtain err e1 m1 where 1: "f e m = Some (err, e1, m1)" "ok e1 m1" "taken e1 m1 = push xs (taken e m)"
    "unat (e_remaining e1) = unat (e_remaining e) - k" "same_modes e e1"
    "err = verdict oom (taken e1 m1) \<or> err = CborNoError"
    unfolding encodes_def by blast
  from 1(2) assms(2) obtain err2 e2 m2 where 2: "g e1 m1 = Some (err2, e2, m2)" "ok e2 m2"
    "taken e2 m2 = push ys (taken e1 m1)" "unat (e_remaining e2) = unat (e_remaining e1) - l" "same_modes e1 e2"
    "err2 = verdict oom (taken e2 m2) \<or> \<not> s \<and> err2 = CborNoError"
    unfolding encodes_def by blast
  have "\<not> (err \<noteq> CborNoError \<and> \<not> isOomError err)" using 1(6) verdict_not_fatal by metis
  then have run: "enc_seq f g e m = Some (err2, e2, m2)" using 1(1) 2(1) by (auto simp: enc_seq_def)
  have "taken e2 m2 = push (xs @ ys) (taken e m)" "unat (e_remaining e2) = unat (e_remaining e) - (k + l)"
    by (simp_all add: 1(3,4) 2(3,4) push_append)
  moreover have "same_modes e e2" by (rule same_modes_trans [OF 1(5) 2(5)])
  ultimately show "\<exists>err e' m'. enc_seq f g e m = Some (err, e', m') \<and> ok e' m' \<and>
     taken e' m' = push (xs @ ys) (taken e m) \<and> unat (e_remaining e') = unat (e_remaining e) - (k + l) \<and> same_modes e e' \<and>
     (err = verdict oom (taken e' m') \<or> \<not> s \<and> err = CborNoError)"
    using run 2(2,6) by blast
qed

lemma encodes_all:
  "list_all2 (\<lambda>f bs. encodes ok taken push oom False f bs k) fs bss \<Longrightarrow>
   encodes ok taken push oom False (enc_all fs) (concat bss) (k * length fs)"
proof (induction fs bss rule: list_all2_induct)
  case Nil
  show ?case by (simp add: encodes_def push_Nil)
next
  case (Cons f fs b bs)
  then show ?case using encodes_seq [OF Cons.hyps(1) Cons.IH] by simp
qed

lemma encodes_string: "encodes ok taken push oom True (encode_string wr smt s) (head_bytes (word_of_nat (length s)) smt @ s) 1"
proof -
  have "encode_string wr smt s = enc_seq (encode_number wr (word_of_nat (length s)) smt) (append_to_buffer wr AppendStringData s)"
    by (intro ext) (simp add: encode_string_def enc_seq_def)
  then show ?thesis using encodes_seq [OF encodes_weaken [OF encodes_number] encodes_append] by simp
qed

text \<open>A container with as many items as announced.\<close>

lemma encodes_container:
  assumes body: "encodes ok taken push oom False body bs (j * n)"
    and n: "n < 2 ^ 31" and major: "(smt AND 0x20 \<noteq> 0) = (j = 2)" "j = 1 \<or> j = 2"
  shows "encodes ok taken push oom True
    (in_container (create_container wr (item_count d n) smt) body (cbor_encoder_close_container wr))
    (if d then head_bytes (word_of_nat n) smt @ bs else (smt + IndefiniteLength) # bs @ [BreakByte]) 1"
  unfolding encodes_def
proof (intro allI impI)
  fix e m assume ok: "ok e m"
  define c where "c = \<lparr>e_data = e_data e, e_end = e_end e, e_remaining = item_count d n + 1, f_writer = f_writer e,
     f_unknown_length = False, f_map = (smt AND 0x20 \<noteq> 0)\<rparr>"
  define c0 where "c0 = (if d then if j = 2 then c\<lparr>e_remaining := e_remaining c + item_count d n\<rparr> else c
     else c\<lparr>f_unknown_length := True\<rparr>)"
  define hd where "hd = (if d then head_bytes (word_of_nat n) smt else [smt + IndefiniteLength])"
  have cnt: "d \<Longrightarrow> item_count d n \<noteq> CborIndefiniteLength" "\<not> d \<Longrightarrow> item_count d n = CborIndefiniteLength"
  proof -
    assume d
    have "unat (word_of_nat n :: u32) = n" using n by (simp add: unsigned_of_nat take_bit_nat_eq_self)
    moreover have "unat CborIndefiniteLength = 2 ^ 32 - 1" by (simp add: CborIndefiniteLength_def)
    ultimately show "item_count d n \<noteq> CborIndefiniteLength" using n \<open>d\<close> by (auto simp: item_count_def)
  qed (simp add: item_count_def)
  have wn: "d \<Longrightarrow> ucast (item_count d n) = (word_of_nat n :: u64)"
    using n by (simp add: word_unat_eq_iff item_count_def unsigned_ucast_eq unsigned_of_nat take_bit_nat_eq_self)
  have c0: "ok c0 m" "taken c0 m = taken e m" "f_unknown_length c0 = (\<not> d)" "f_writer c0 = f_writer e"
    using frame [of c0 e m] ok by (auto simp: c0_def c_def)
  have rem0: "unat (e_remaining c0) = (if d then j * n + 1 else 0)"
  proof (cases d)
    case True
    have u: "unat (word_of_nat n :: u32) = n" using n by (simp add: unsigned_of_nat take_bit_nat_eq_self)
    have "unat (word_of_nat n + 1 :: u32) = n + 1" "unat (word_of_nat n + 1 + word_of_nat n :: u32) = 2 * n + 1"
      using u n by (simp_all add: unat_word_ariths)
    then show ?thesis using True major(2) by (auto simp: c0_def c_def item_count_def)
  next
    case False
    then show ?thesis by (simp add: c0_def c_def item_count_def CborIndefiniteLength_def)
  qed
  have cr: "create_container wr (item_count d n) smt e m =
      map_option (\<lambda>(err, c1, m1). (err, saturated_decrement e, c1, m1)) (append_to_buffer wr AppendCborData hd c0 m)"
    using cnt wn major(1)
    by (cases d) (auto simp: create_container_def Let_def c_def c0_def hd_def append_byte_to_buffer_def
        encode_number_no_update_def)
  obtain c1 m1 where 1: "append_to_buffer wr AppendCborData hd c0 m = Some (verdict oom (push hd (taken c0 m)), c1, m1)"
    "ok c1 m1" "taken c1 m1 = push hd (taken e m)" "e_remaining c1 = e_remaining c0" "same_modes c0 c1"
    using append_ok [OF c0(1), of AppendCborData hd] c0(2) by auto
  obtain err2 c2 m2 where 2: "body c1 m1 = Some (err2, c2, m2)" "ok c2 m2" "taken c2 m2 = push bs (taken c1 m1)"
    "unat (e_remaining c2) = unat (e_remaining c1) - j * n" "same_modes c1 c2"
    "err2 = verdict oom (taken c2 m2) \<or> err2 = CborNoError"
    using body 1(2) unfolding encodes_def by blast
  have nf: "\<not> (err2 \<noteq> CborNoError \<and> \<not> isOomError err2)" using 2(6) verdict_not_fatal by metis
  let ?e = "saturated_decrement e"
  define e1 where "e1 = ?e\<lparr>e_end := e_end c2, e_data := e_data c2\<rparr>"
  have w: "f_writer c2 = f_writer e" "f_unknown_length c2 = (\<not> d)" using 1(5) 2(5) c0 by (auto simp: same_modes_def)
  have e1: "ok e1 m2" "taken e1 m2 = push (hd @ bs) (taken e m)" "same_modes e e1"
    "unat (e_remaining e1) = unat (e_remaining e) - 1"
    using frame [of e1 c2 m2] 2(2,3) 1(3) w by (auto simp: e1_def push_append same_modes_def)
  have run: "in_container (create_container wr (item_count d n) smt) body (cbor_encoder_close_container wr) e m =
      cbor_encoder_close_container wr c2 ?e m2"
    using nf by (auto simp: in_container_def cr 1(1) 2(1))
  let ?P = "\<lambda>bs. \<exists>err e' m'. in_container (create_container wr (item_count d n) smt) body (cbor_encoder_close_container wr) e m =
      Some (err, e', m') \<and> ok e' m' \<and> taken e' m' = push bs (taken e m) \<and> unat (e_remaining e') = unat (e_remaining e) - 1 \<and>
      same_modes e e' \<and> (err = verdict oom (taken e' m') \<or> \<not> True \<and> err = CborNoError)"
  show "?P (if d then head_bytes (word_of_nat n) smt @ bs else (smt + IndefiniteLength) # bs @ [BreakByte])"
  proof (cases d)
    case True
    then have "e_remaining c2 = 1" using 2(4) 1(4) rem0 by (simp add: word_unat_eq_iff)
    then have "cbor_encoder_close_container wr c2 ?e m2 = Some (verdict oom (taken e1 m2), e1, m2)"
      using w True end_ok [OF e1(1)] by (auto simp: cbor_encoder_close_container_def Let_def e1_def verdict_def)
    then show ?thesis using True e1 run by (auto simp: hd_def)
  next
    case False
    obtain e2 m3 where "append_to_buffer wr AppendCborData [BreakByte] e1 m2 =
        Some (verdict oom (push [BreakByte] (taken e1 m2)), e2, m3)" "ok e2 m3" "taken e2 m3 = push [BreakByte] (taken e1 m2)"
      "e_remaining e2 = e_remaining e1" "same_modes e1 e2"
      using append_ok [OF e1(1)] by blast
    note 3 = this
    have "cbor_encoder_close_container wr c2 ?e m2 = append_to_buffer wr AppendCborData [BreakByte] e1 m2"
      using w False by (simp add: cbor_encoder_close_container_def Let_def e1_def append_byte_to_buffer_def)
    with run 3(1) have "in_container (create_container wr (item_count d n) smt) body (cbor_encoder_close_container wr) e m =
      Some (verdict oom (taken e2 m3), e2, m3)" by (simp add: 3(3))
    moreover have "taken e2 m3 = push ((smt + IndefiniteLength) # bs @ [BreakByte]) (taken e m)"
      using False by (simp add: 3(3) e1(2) push_append hd_def)
    moreover have "unat (e_remaining e2) = unat (e_remaining e) - 1" by (simp add: 3(4) e1(4))
    moreover have "same_modes e e2" by (rule same_modes_trans [OF e1(3) 3(5)])
    ultimately show ?thesis using False 3(2) by simp
  qed
qed

text \<open>Every item is taken as its encoding.\<close>

lemma encodes_item: "wf_item i \<Longrightarrow> encodes ok taken push oom True (encode_item wr i) (item_bytes i) 1"
proof (induction i rule: item_bytes.induct)
  case (3 v)
  then show ?case using encodes_number by (simp add: cbor_encode_int_sign int_bytes_def)
next
  case (11 t i)
  then show ?case
    using encodes_seq [OF encodes_weaken [OF encodes_append [of AppendCborData "head_bytes t (shifted TagType)"]]]
    by (simp add: cbor_encode_tag_def encode_number_no_update_def)
next
  case (12 d xs)
  have "list_all2 (\<lambda>f bs. encodes ok taken push oom False f bs 1) (map (encode_item wr) xs) (map item_bytes xs)"
    using 12 by (auto simp: list_all2_map1 list_all2_map2 list_all2_same intro: encodes_weaken)
  from encodes_all [OF this] have "encodes ok taken push oom False (enc_all (map (encode_item wr) xs))
      (concat (map item_bytes xs)) (1 * length xs)" by simp
  moreover have "(shifted ArrayType AND 0x20 \<noteq> 0) = (1 = (2 :: nat))" by (simp add: shifted_def ArrayType_def)
  ultimately show ?case using encodes_container [of _ _ 1 "length xs" "shifted ArrayType" d] 12(2)
    by (simp add: cbor_encoder_create_array_def container_bytes_def)
next
  case (13 d kvs)
  have "list_all2 (\<lambda>f bs. encodes ok taken push oom False f bs 2)
      (map (\<lambda>(k, v). enc_seq (encode_item wr k) (encode_item wr v)) kvs) (map (\<lambda>(k, v). item_bytes k @ item_bytes v) kvs)"
    using 13 encodes_seq [OF encodes_weaken encodes_weaken]
    by (fastforce simp: list_all2_map1 list_all2_map2 list_all2_same numeral_2_eq_2)
  from encodes_all [OF this] have body: "encodes ok taken push oom False
      (enc_all (map (\<lambda>(k, v). enc_seq (encode_item wr k) (encode_item wr v)) kvs))
      (concat (map (\<lambda>(k, v). item_bytes k @ item_bytes v) kvs)) (2 * length kvs)" by simp
  have "in_container (cbor_encoder_create_map wr (item_count d (length kvs))) = in_container
      (create_container wr (item_count d (length kvs)) (shifted MapType))"
    using map_count_ok [of kvs d] 13(3) by (intro arg_cong [where f = in_container] ext) (auto simp: cbor_encoder_create_map_def)
  moreover have "(shifted MapType AND 0x20 \<noteq> 0) = (2 = (2 :: nat))" by (simp add: shifted_def MapType_def)
  ultimately show ?case using encodes_container [OF body, of "shifted MapType" d] 13(3)
    by (simp add: container_bytes_def)
next
  case (1 v)
  show ?case by (simp add: cbor_encode_uint_def encodes_number [unfolded One_nat_def])
next
  case (2 v)
  show ?case by (simp add: cbor_encode_negative_int_def encodes_number [unfolded One_nat_def])
next
  case (4 v)
  then have "cbor_encode_simple_value wr v = encode_number wr (ucast v) (shifted SimpleTypesType)"
    by (intro ext) (auto simp: cbor_encode_simple_value_def)
  then show ?case using encodes_number by simp
next
  case (5 b)
  show ?case using encodes_number [of "0x14" "0xe0"] encodes_number [of "0x15" "0xe0"] by (simp add: simple_heads heads)
next
  case 6
  show ?case using encodes_number [of "0x16" "0xe0"] by (simp add: simple_heads heads)
next
  case 7
  show ?case using encodes_number [of "0x17" "0xe0"] by (simp add: simple_heads heads)
next
  case (8 ty v)
  show ?case using encodes_counted [OF encodes_append [of AppendCborData "float_bytes ty v"]]
    by (simp add: cbor_encode_floating_point_def [abs_def])
next
  case (9 s)
  show ?case using encodes_string by (simp add: cbor_encode_byte_string_def)
next
  case (10 s)
  show ?case using encodes_string by (simp add: cbor_encode_text_string_def)
qed

end

section \<open>The buffer\<close>

datatype taken = Fits bytes | Missing nat

fun push_buf :: "nat \<Rightarrow> bytes \<Rightarrow> taken \<Rightarrow> taken" where
  "push_buf n xs (Fits w) = (if length w + length xs \<le> n then Fits (w @ xs) else Missing (length w + length xs - n))"
| "push_buf n xs (Missing k) = Missing (k + length xs)"

fun oom_buf :: "taken \<Rightarrow> bool" where
  "oom_buf (Fits w) = False"
| "oom_buf (Missing k) = True"

definition taken_buf :: "cbor_encoder \<Rightarrow> 'w enc_mem \<Rightarrow> taken" where
  "taken_buf e m = (case e_end e of None \<Rightarrow> Missing (e_data e) | Some _ \<Rightarrow> Fits (take (e_data e) (em_buf m)))"

definition ok_buf :: "nat \<Rightarrow> cbor_encoder \<Rightarrow> 'w enc_mem \<Rightarrow> bool" where
  "ok_buf n e m \<longleftrightarrow> \<not> f_writer e \<and>
     (case e_end e of None \<Rightarrow> 0 < e_data e | Some en \<Rightarrow> en = n \<and> length (em_buf m) = n \<and> e_data e \<le> n)"

lemma append_buf:
  assumes "ok_buf n e m"
  shows "\<exists>e' m'. append_to_buffer wr t xs e m = Some (verdict oom_buf (push_buf n xs (taken_buf e m)), e', m') \<and>
    ok_buf n e' m' \<and> taken_buf e' m' = push_buf n xs (taken_buf e m) \<and> e_remaining e' = e_remaining e \<and> same_modes e e'"
proof (cases "e_end e")
  case None
  then have "would_overflow e (length xs)" using assms by (simp add: would_overflow_def ok_buf_def)
  then show ?thesis using assms None
    by (simp add: append_to_buffer_def ok_buf_def taken_buf_def advance_ptr_def verdict_def same_modes_def)
next
  case (Some en)
  then have s: "en = n" "length (em_buf m) = n" "e_data e \<le> n" "\<not> f_writer e" using assms by (auto simp: ok_buf_def)
  show ?thesis
  proof (cases "e_data e + length xs \<le> n")
    case True
    then have no: "\<not> would_overflow e (length xs)" using s Some by (simp add: would_overflow_def)
    obtain b where b: "memcpy_to (em_buf m) (e_data e) xs = Some b"
      using memcpy_some [of "e_data e" xs "em_buf m"] True s by auto
    have "length (take (e_data e) (em_buf m)) = e_data e" using s by simp
    then show ?thesis using take_memcpy [OF b] True no s Some b
      by (simp add: append_to_buffer_def ok_buf_def taken_buf_def verdict_def same_modes_def del: length_take)
  next
    case False
    then have "would_overflow e (length xs)" using s Some by (simp add: would_overflow_def)
    then show ?thesis using s Some False
      by (auto simp: append_to_buffer_def ok_buf_def taken_buf_def advance_ptr_def verdict_def same_modes_def min_def)
  qed
qed

interpretation buf: cbor_sink wr "ok_buf n" taken_buf "push_buf n" oom_buf for wr :: "'w writer" and n
proof
  fix xs ys :: bytes and a :: taken
  show "push_buf n ys (push_buf n xs a) = push_buf n (xs @ ys) a" by (cases a) auto
qed (erule append_buf | (auto simp: ok_buf_def taken_buf_def split: option.splits; fail))+

lemma encode_outcome:
  assumes "wf_item i"
  obtains err e m where "encode_item wr i (cbor_encoder_init (Some (length b))) \<lparr>em_buf = b, em_w = w\<rparr> = Some (err, e, m)"
    "taken_buf e m = push_buf (length b) (item_bytes i) (Fits [])" "err = verdict oom_buf (taken_buf e m)"
    "ok_buf (length b) e m"
proof -
  let ?e = "cbor_encoder_init (Some (length b))" let ?m = "\<lparr>em_buf = b, em_w = w\<rparr>"
  have "ok_buf (length b) ?e ?m" "taken_buf ?e ?m = Fits []"
    by (simp_all add: ok_buf_def taken_buf_def cbor_encoder_init_def)
  with buf.encodes_item [OF assms, of "length b" wr] obtain err e m where
    "encode_item wr i ?e ?m = Some (err, e, m)" "taken_buf e m = push_buf (length b) (item_bytes i) (Fits [])"
    "err = verdict oom_buf (taken_buf e m)" "ok_buf (length b) e m"
    unfolding encodes_def by fastforce
  then show thesis by (rule that)
qed


definition item_ex :: cbor_item where
  "item_ex = CMap True [(CText [0x6f, 0x6e], CBool True), (CText [0x6c], CArray False [CInt (-500), CTag 1 (CUint 70000), CNull])]"

lemma item_ex_wf: "wf_item item_ex"
  by (simp add: item_ex_def)

definition list_writer :: "bytes writer" where
  "list_writer t data w = (CborNoError, w @ data)"


section \<open>The writer\<close>

text \<open>A writer that takes everything, with a token that is not null.\<close>

definition ok_writer :: "cbor_encoder \<Rightarrow> bytes enc_mem \<Rightarrow> bool" where
  "ok_writer e m \<longleftrightarrow> f_writer e \<and> e_end e \<noteq> None"

interpretation wri: cbor_sink list_writer ok_writer "\<lambda>e m. em_w m" "\<lambda>xs w. w @ xs" "\<lambda>_. False"
  by unfold_locales (auto simp: ok_writer_def append_to_buffer_def list_writer_def verdict_def same_modes_def)

text \<open>A writer receives the encoding, and a null token turns success into out of memory. With a token
  that is not null the writer gets exactly the bytes of the item and no error is reported; with a
  null token an array is written completely all the same, but closing it reports that memory ran
  out, because the token is stored where the end of the buffer would be.\<close>

theorem writer_gets_item:
  assumes "wf_item i"
  shows "(\<exists>e m. encode_item list_writer i (cbor_encoder_init_writer (Some t)) \<lparr>em_buf = [], em_w = w\<rparr> =
      Some (CborNoError, e, m) \<and> em_w m = w @ item_bytes i) \<and>
    (\<exists>e m. encode_item list_writer (CArray True []) (cbor_encoder_init_writer None) \<lparr>em_buf = [], em_w = w\<rparr> =
      Some (CborErrorOutOfMemory, e, m) \<and> em_w m = w @ item_bytes (CArray True []))"
proof
  let ?e = "cbor_encoder_init_writer (Some t)" let ?m = "\<lparr>em_buf = [], em_w = w\<rparr>"
  have "ok_writer ?e ?m" by (simp add: ok_writer_def cbor_encoder_init_writer_def)
  with wri.encodes_item [OF assms] show "\<exists>e m. encode_item list_writer i ?e ?m = Some (CborNoError, e, m) \<and>
      em_w m = w @ item_bytes i"
    unfolding encodes_def by (fastforce simp: verdict_def)
  have "head_bytes 0 (shifted ArrayType) = [0x80]"
    by (simp add: head_bytes_def Let_def put64_def shifted_def ArrayType_def)
  then show "\<exists>e m. encode_item list_writer (CArray True []) (cbor_encoder_init_writer None) ?m =
      Some (CborErrorOutOfMemory, e, m) \<and> em_w m = w @ item_bytes (CArray True [])"
    by (simp add: in_container_def cbor_encoder_create_array_def create_container_def Let_def item_count_def
        CborIndefiniteLength_def encode_number_no_update_def append_to_buffer_def cbor_encoder_init_writer_def
        list_writer_def cbor_encoder_close_container_def container_bytes_def shifted_def ArrayType_def)
qed

theorem writer_gets_item_witness:
  "\<exists>e m. encode_item list_writer item_ex (cbor_encoder_init_writer (Some 64)) \<lparr>em_buf = [], em_w = []\<rparr> =
     Some (CborNoError, e, m) \<and> em_w m = item_bytes item_ex"
  using writer_gets_item [OF item_ex_wf, of 64 "[]"] by simp

end
