(* ===== verification/CborDec.thy ===== *)
theory CborDec
  imports CborEnc
begin

text \<open>
  The CBOR parser (managed_components/espressif__cbor/tinycbor/src/cborparser.c and the inline functions of cbor.h
  and cborinternal_p.h) on a buffer, 32-bit target. An iterator is a position in the fixed bytes
  \<open>src\<close>. A result \<open>None\<close> is a read outside the buffer or a loop without end. Sources read through
  callbacks are not modelled.
\<close>

section \<open>Iterators\<close>

record cbor_value =
  v_ptr :: nat
  v_remaining :: u32
  v_extra :: u16
  v_type :: u8
  v_flags :: u8

type_synonym 'a dec = "('a \<times> cbor_value) option"

definition IntegerValueIs64Bit :: u8 where "IntegerValueIs64Bit = 0x01"
definition IntegerValueTooLarge :: u8 where "IntegerValueTooLarge = 0x02"
definition NegativeInteger :: u8 where "NegativeInteger = 0x04"
definition BeforeFirstStringChunk :: u8 where "BeforeFirstStringChunk = 0x04"
definition IteratingStringChunks :: u8 where "IteratingStringChunks = 0x08"
definition UnknownLength :: u8 where "UnknownLength = 0x10"
definition ContainerIsMap :: u8 where "ContainerIsMap = 0x20"
definition NextIsMapKey :: u8 where "NextIsMapKey = 0x40"

definition CborIntegerType :: u8 where "CborIntegerType = 0x00"
definition CborByteStringType :: u8 where "CborByteStringType = 0x40"
definition CborTextStringType :: u8 where "CborTextStringType = 0x60"
definition CborArrayType :: u8 where "CborArrayType = 0x80"
definition CborMapType :: u8 where "CborMapType = 0xa0"
definition CborTagType :: u8 where "CborTagType = 0xc0"
definition CborSimpleType :: u8 where "CborSimpleType = 0xe0"
definition CborBooleanType :: u8 where "CborBooleanType = 0xf5"
definition CborInvalidType :: u8 where "CborInvalidType = 0xff"

lemmas cbor_flags =
  IntegerValueIs64Bit_def IntegerValueTooLarge_def NegativeInteger_def BeforeFirstStringChunk_def
  IteratingStringChunks_def UnknownLength_def ContainerIsMap_def NextIsMapKey_def

lemmas cbor_types =
  CborIntegerType_def CborByteStringType_def CborTextStringType_def CborArrayType_def CborMapType_def CborTagType_def
  CborSimpleType_def CborBooleanType_def CborInvalidType_def

definition UINT32_MAX :: u32 where "UINT32_MAX = 0xffffffff"

definition has_flag :: "u8 \<Rightarrow> cbor_value \<Rightarrow> bool" where
  "has_flag f it \<longleftrightarrow> v_flags it AND f \<noteq> 0"

definition set_flag :: "u8 \<Rightarrow> cbor_value \<Rightarrow> cbor_value" where
  "set_flag f it = it\<lparr>v_flags := v_flags it OR f\<rparr>"

definition clear_flag :: "u8 \<Rightarrow> cbor_value \<Rightarrow> cbor_value" where
  "clear_flag f it = it\<lparr>v_flags := v_flags it AND NOT f\<rparr>"

text \<open>The pointer difference is converted to \<open>size_t\<close>.\<close>

definition can_read_bytes :: "bytes \<Rightarrow> cbor_value \<Rightarrow> nat \<Rightarrow> bool" where
  "can_read_bytes src it n \<longleftrightarrow>
     n \<le> (if v_ptr it \<le> length src then length src - v_ptr it else 2 ^ 32 + length src - v_ptr it)"

definition read_bytes_unchecked :: "bytes \<Rightarrow> cbor_value \<Rightarrow> nat \<Rightarrow> nat \<Rightarrow> bytes option" where
  "read_bytes_unchecked src it off n = memcpy_from src (v_ptr it + off) n"

definition advance_bytes :: "nat \<Rightarrow> cbor_value \<Rightarrow> cbor_value" where
  "advance_bytes n it = it\<lparr>v_ptr := v_ptr it + n\<rparr>"

definition copy_current_position :: "cbor_value \<Rightarrow> cbor_value \<Rightarrow> cbor_value" where
  "copy_current_position dst s = dst\<lparr>v_ptr := v_ptr s\<rparr>"

definition be_val :: "bytes \<Rightarrow> u64" where
  "be_val bs = foldl (\<lambda>a b. push_bit 8 a OR ucast b) 0 bs"

definition SmallValueMask :: u8 where "SmallValueMask = 31"
definition MajorTypeMask :: u8 where "MajorTypeMask = 0xe0"
definition Value64Bit :: u8 where "Value64Bit = 27"

lemmas cbor_masks = SmallValueMask_def MajorTypeMask_def Value64Bit_def UINT32_MAX_def

definition bytes_needed :: "u8 \<Rightarrow> nat" where
  "bytes_needed descriptor = (if descriptor < Value8Bit then 0 else 2 ^ unat (descriptor - Value8Bit))"

section \<open>Numbers\<close>

definition cbor_value_decode_int64_internal :: "bytes \<Rightarrow> cbor_value \<Rightarrow> u64 option" where
  "cbor_value_decode_int64_internal src it =
     (if has_flag IntegerValueIs64Bit it then map_option be_val (read_bytes_unchecked src it 1 8)
      else map_option be_val (read_bytes_unchecked src it 1 4))"

definition cbor_value_extract_int64_helper :: "bytes \<Rightarrow> cbor_value \<Rightarrow> u64 option" where
  "cbor_value_extract_int64_helper src it =
     (if has_flag IntegerValueTooLarge it then cbor_value_decode_int64_internal src it else Some (ucast (v_extra it)))"

definition extract_number_and_advance :: "bytes \<Rightarrow> cbor_value \<Rightarrow> u64 dec" where
  "extract_number_and_advance src it =
     Option.bind (cbor_value_extract_int64_helper src it) (\<lambda>v.
     Option.bind (read_bytes_unchecked src it 0 1) (\<lambda>d.
       Some (v, advance_bytes (bytes_needed (hd d AND SmallValueMask) + 1) it)))"

definition is_fixed_type :: "u8 \<Rightarrow> bool" where
  "is_fixed_type t \<longleftrightarrow> t \<noteq> CborTextStringType \<and> t \<noteq> CborByteStringType \<and> t \<noteq> CborArrayType \<and> t \<noteq> CborMapType"

section \<open>The next value\<close>

text \<open>The number after the descriptor; what does not fit 16 bits is left in place.\<close>

definition preparse_number :: "bytes \<Rightarrow> u8 \<Rightarrow> cbor_value \<Rightarrow> cbor_error dec" where
  "preparse_number src descriptor it =
     (let n = bytes_needed descriptor in
      if n = 0 then Some (CborNoError, it)
      else if \<not> can_read_bytes src it (n + 1) then Some (CborErrorUnexpectedEOF, it)
      else if n \<le> 2 then
        map_option (\<lambda>b. (CborNoError, it\<lparr>v_extra := ucast (be_val b)\<rparr>)) (read_bytes_unchecked src it 1 n)
      else Some (CborNoError, (set_flag (descriptor AND 3) it)\<lparr>v_extra := 0\<rparr>))"

definition preparse_kind :: "bytes \<Rightarrow> u8 \<Rightarrow> u8 \<Rightarrow> cbor_value \<Rightarrow> cbor_error dec" where
  "preparse_kind src type descriptor it =
     (let majortype = drop_bit 5 type; descriptor_type = (\<lambda>it1. map_option (\<lambda>b. (CborNoError, it1\<lparr>v_type := hd b\<rparr>))
            (read_bytes_unchecked src it1 0 1)) in
      if majortype = NegativeIntegerType then
        Some (CborNoError, (set_flag NegativeInteger it)\<lparr>v_type := CborIntegerType\<rparr>)
      else if majortype = SimpleTypesType then
        if descriptor = 20 then Some (CborNoError, it\<lparr>v_extra := 0, v_type := CborBooleanType\<rparr>)
        else if descriptor = 26 \<or> descriptor = 27 then descriptor_type (set_flag IntegerValueTooLarge it)
        else if descriptor = 21 \<or> descriptor = 22 \<or> descriptor = 23 \<or> descriptor = 25 then descriptor_type it
        else if descriptor = 24 \<and> v_extra it < 32 then
          Some (CborErrorIllegalSimpleType, it\<lparr>v_type := CborInvalidType\<rparr>)
        else Some (CborNoError, it)
      else Some (CborNoError, it))"

definition preparse_value :: "bytes \<Rightarrow> cbor_value \<Rightarrow> cbor_error dec" where
  "preparse_value src it =
     (let it0 = it\<lparr>v_type := CborInvalidType, v_flags := v_flags it AND (ContainerIsMap OR NextIsMapKey)\<rparr> in
      if \<not> can_read_bytes src it0 1 then Some (CborErrorUnexpectedEOF, it0)
      else
        Option.bind (read_bytes_unchecked src it0 0 1) (\<lambda>d.
          let type = hd d AND MajorTypeMask; descriptor = hd d AND SmallValueMask;
              it1 = it0\<lparr>v_type := type, v_extra := ucast descriptor\<rparr> in
          if descriptor > Value64Bit then
            if descriptor \<noteq> IndefiniteLength then
              Some (if type = CborSimpleType then CborErrorUnknownType else CborErrorIllegalNumber, it1)
            else if \<not> is_fixed_type type then Some (CborNoError, set_flag UnknownLength it1)
            else Some (if type = CborSimpleType then CborErrorUnexpectedBreak else CborErrorIllegalNumber, it1)
          else
            Option.bind (preparse_number src descriptor it1) (\<lambda>(err, it2).
              if err \<noteq> CborNoError then Some (err, it2) else preparse_kind src type descriptor it2)))"

definition at_break :: "bytes \<Rightarrow> cbor_value \<Rightarrow> bool" where
  "at_break src it \<longleftrightarrow> can_read_bytes src it 1 \<and> read_bytes_unchecked src it 0 1 = Some [BreakByte]"

definition preparse_next_value_nodecrement :: "bytes \<Rightarrow> cbor_value \<Rightarrow> cbor_error dec" where
  "preparse_next_value_nodecrement src it =
     (if v_remaining it = UINT32_MAX \<and> at_break src it then
        if has_flag ContainerIsMap it \<and> has_flag NextIsMapKey it \<or> v_type it = CborTagType then
          Some (CborErrorUnexpectedBreak, it)
        else Some (CborNoError, set_flag UnknownLength (it\<lparr>v_type := CborInvalidType, v_remaining := 0\<rparr>))
      else preparse_value src it)"

definition preparse_next_value :: "bytes \<Rightarrow> cbor_value \<Rightarrow> cbor_error dec" where
  "preparse_next_value src it =
     (let itemCounts = (v_type it \<noteq> CborTagType);
          it1 = (if v_remaining it \<noteq> UINT32_MAX \<and> itemCounts then it\<lparr>v_remaining := v_remaining it - 1\<rparr> else it) in
      if v_remaining it \<noteq> UINT32_MAX \<and> itemCounts \<and> v_remaining it1 = 0 then
        Some (CborNoError, clear_flag UnknownLength (it1\<lparr>v_type := CborInvalidType\<rparr>))
      else
        preparse_next_value_nodecrement src
          (if itemCounts then it1\<lparr>v_flags := v_flags it1 XOR NextIsMapKey\<rparr> else it1))"

definition advance_internal :: "bytes \<Rightarrow> cbor_value \<Rightarrow> cbor_error dec" where
  "advance_internal src it =
     Option.bind (extract_number_and_advance src it) (\<lambda>(len, it1).
       preparse_next_value src
         (if v_type it1 = CborByteStringType \<or> v_type it1 = CborTextStringType then advance_bytes (unat len) it1 else it1))"

definition cbor_parser_init :: "bytes \<Rightarrow> cbor_error dec" where
  "cbor_parser_init src =
     preparse_value src \<lparr>v_ptr = 0, v_remaining = 1, v_extra = 0, v_type = 0, v_flags = 0\<rparr>"

definition cbor_value_reparse :: "bytes \<Rightarrow> cbor_value \<Rightarrow> cbor_error dec" where
  "cbor_value_reparse src it =
     (if has_flag IteratingStringChunks it then Some (CborNoError, it) else preparse_next_value_nodecrement src it)"

definition cbor_value_advance_fixed :: "bytes \<Rightarrow> cbor_value \<Rightarrow> cbor_error dec" where
  "cbor_value_advance_fixed src it =
     (if v_remaining it = 0 then Some (CborErrorAdvancePastEOF, it) else advance_internal src it)"

definition cbor_value_at_end :: "cbor_value \<Rightarrow> bool" where
  "cbor_value_at_end it \<longleftrightarrow> v_remaining it = 0"

definition cbor_value_is_length_known :: "cbor_value \<Rightarrow> bool" where
  "cbor_value_is_length_known it \<longleftrightarrow> \<not> has_flag UnknownLength it"

definition cbor_value_is_container :: "cbor_value \<Rightarrow> bool" where
  "cbor_value_is_container it \<longleftrightarrow> v_type it = CborArrayType \<or> v_type it = CborMapType"

section \<open>Containers\<close>

definition cbor_value_enter_container :: "bytes \<Rightarrow> cbor_value \<Rightarrow> cbor_error dec" where
  "cbor_value_enter_container src it =
     (let go = (\<lambda>r. preparse_next_value_nodecrement src (r\<lparr>v_flags := v_type r AND ContainerIsMap\<rparr>)) in
      if has_flag UnknownLength it then go (advance_bytes 1 (it\<lparr>v_remaining := UINT32_MAX\<rparr>))
      else
        Option.bind (extract_number_and_advance src it) (\<lambda>(len, r).
          let r1 = r\<lparr>v_remaining := ucast len\<rparr> in
          if ucast (v_remaining r1) \<noteq> len \<or> len = ucast UINT32_MAX then
            Some (CborErrorDataTooLarge, copy_current_position r1 it)
          else if v_type r1 = CborMapType \<and> v_remaining r1 > UINT32_MAX div 2 then
            Some (CborErrorDataTooLarge, copy_current_position r1 it)
          else
            let r2 = (if v_type r1 = CborMapType then r1\<lparr>v_remaining := v_remaining r1 * 2\<rparr> else r1) in
            if len = 0 then Some (CborNoError, r2\<lparr>v_type := CborInvalidType\<rparr>) else go r2))"

definition cbor_value_leave_container :: "bytes \<Rightarrow> cbor_value \<Rightarrow> cbor_value \<Rightarrow> cbor_error dec" where
  "cbor_value_leave_container src it recursed =
     (let it1 = copy_current_position it recursed in
      preparse_next_value src (if has_flag UnknownLength recursed then advance_bytes 1 it1 else it1))"

section \<open>Strings\<close>

definition cbor_value_begin_string_iteration :: "cbor_value \<Rightarrow> cbor_value" where
  "cbor_value_begin_string_iteration it =
     (let it1 = set_flag (IteratingStringChunks OR BeforeFirstStringChunk) it in
      if \<not> cbor_value_is_length_known it1 then advance_bytes 1 it1 else it1)"

definition cbor_value_finish_string_iteration :: "bytes \<Rightarrow> cbor_value \<Rightarrow> cbor_error dec" where
  "cbor_value_finish_string_iteration src it =
     preparse_next_value src (if \<not> cbor_value_is_length_known it then advance_bytes 1 it else it)"

text \<open>The offset to the data of the next chunk and its length, or the error.\<close>

definition get_string_chunk_size :: "bytes \<Rightarrow> cbor_value \<Rightarrow> (cbor_error + nat \<times> u32) option" where
  "get_string_chunk_size src it =
     (if cbor_value_is_length_known it \<and> \<not> has_flag BeforeFirstStringChunk it then Some (Inl CborErrorNoMoreStringChunks)
      else if \<not> can_read_bytes src it 1 then Some (Inl CborErrorUnexpectedEOF)
      else
        Option.bind (read_bytes_unchecked src it 0 1) (\<lambda>d.
          if hd d = BreakByte then Some (Inl CborErrorNoMoreStringChunks)
          else if hd d AND MajorTypeMask \<noteq> v_type it then Some (Inl CborErrorIllegalType)
          else
            let descriptor = hd d AND SmallValueMask in
            if descriptor < Value8Bit then Some (Inr (1, ucast descriptor))
            else if descriptor > Value64Bit then Some (Inl CborErrorIllegalNumber)
            else
              let n = bytes_needed descriptor in
              if \<not> can_read_bytes src it (1 + n) then Some (Inl CborErrorUnexpectedEOF)
              else
                Option.bind (read_bytes_unchecked src it 1 n) (\<lambda>b.
                  let val = be_val b; len = (ucast val :: u32) in
                  if ucast len \<noteq> val then Some (Inl CborErrorDataTooLarge) else Some (Inr (n + 1, len)))))"

text \<open>The chunk is given as its bytes (the code returns a pointer into the buffer).\<close>

definition transfer_string :: "bytes \<Rightarrow> nat \<Rightarrow> nat \<Rightarrow> cbor_value \<Rightarrow> (cbor_error + bytes) dec" where
  "transfer_string src offset len it =
     (let it1 = advance_bytes offset it in
      if can_read_bytes src it1 len then
        map_option (\<lambda>b. (Inr b, advance_bytes len it1)) (read_bytes_unchecked src it1 0 len)
      else Some (Inl CborErrorUnexpectedEOF, it1))"

definition get_string_chunk :: "bytes \<Rightarrow> cbor_value \<Rightarrow> (cbor_error + bytes) dec" where
  "get_string_chunk src it =
     Option.bind (get_string_chunk_size src it) (\<lambda>r.
       case r of Inl err \<Rightarrow> Some (Inl err, it)
       | Inr (offset, len) \<Rightarrow>
           map_option (\<lambda>(q, it1). case q of Inl err \<Rightarrow> (Inl err, it1)
               | Inr b \<Rightarrow> (Inr b, clear_flag BeforeFirstStringChunk it1))
             (transfer_string src offset (unat len) it))"

text \<open>
  \<open>func\<close> is called with the offset and the bytes of each chunk and works on the caller's memory \<open>'b\<close>;
  the result has the error, whether all calls succeeded, the total length and that memory.
\<close>

record 'b chunks =
  ck_result :: bool
  ck_total :: nat
  ck_mem :: 'b

type_synonym 'b iterate = "nat \<Rightarrow> bytes \<Rightarrow> 'b \<Rightarrow> (bool \<times> 'b) option"

partial_function (option) chunk_loop ::
  "bytes \<Rightarrow> 'b iterate \<Rightarrow> nat \<Rightarrow> 'b chunks \<Rightarrow> cbor_value \<Rightarrow> (cbor_error \<times> 'b chunks \<times> cbor_value) option" where
  "chunk_loop src func buflen k it =
     Option.bind (get_string_chunk src it) (\<lambda>(r, it1).
       case r of
         Inl err \<Rightarrow> Some (if err = CborErrorNoMoreStringChunks then CborNoError else err, k, it1)
       | Inr b \<Rightarrow>
           if ck_total k + length b \<ge> 2 ^ 32 then Some (CborErrorDataTooLarge, k, it1)
           else
             Option.bind (if ck_result k \<and> buflen \<ge> ck_total k + length b then func (ck_total k) b (ck_mem k)
                          else Some (False, ck_mem k)) (\<lambda>(ok, m).
               chunk_loop src func buflen \<lparr>ck_result = ok, ck_total = ck_total k + length b, ck_mem = m\<rparr> it1))"

definition iterate_string_chunks ::
  "bytes \<Rightarrow> 'b iterate \<Rightarrow> nat \<Rightarrow> 'b \<Rightarrow> cbor_value \<Rightarrow> (cbor_error \<times> 'b chunks \<times> cbor_value) option" where
  "iterate_string_chunks src func buflen m it =
     Option.bind (chunk_loop src func buflen \<lparr>ck_result = True, ck_total = 0, ck_mem = m\<rparr>
                    (cbor_value_begin_string_iteration it)) (\<lambda>(err, k, it1).
       if err \<noteq> CborNoError then Some (err, k, it1)
       else
         Option.bind (if ck_result k \<and> buflen > ck_total k then func (ck_total k) [0] (ck_mem k)
                      else Some (ck_result k, ck_mem k)) (\<lambda>(ok, m1).
         Option.bind (cbor_value_finish_string_iteration src it1) (\<lambda>(err2, it2).
           Some (err2, k\<lparr>ck_result := ok, ck_mem := m1\<rparr>, it2))))"

definition iterate_noop :: "'b iterate" where
  "iterate_noop off b m = Some (True, m)"

definition iterate_memcpy :: "bytes iterate" where
  "iterate_memcpy off b m = map_option (Pair True) (memcpy_to m off b)"

text \<open>The string compared with is followed by its NUL.\<close>

definition iterate_memcmp :: "bytes iterate" where
  "iterate_memcmp off b m = map_option (\<lambda>x. (x = b, m)) (memcpy_from m off (length b))"

definition cbor_value_copy_string ::
  "bytes \<Rightarrow> bytes option \<Rightarrow> nat \<Rightarrow> cbor_value \<Rightarrow> (cbor_error \<times> nat \<times> bytes \<times> cbor_value) option" where
  "cbor_value_copy_string src buffer buflen it =
     map_option (\<lambda>(err, k, it1). (if err \<noteq> CborNoError then err else if ck_result k then CborNoError
         else CborErrorOutOfMemory, ck_total k, ck_mem k, it1))
       (case buffer of None \<Rightarrow> iterate_string_chunks src iterate_noop buflen [] it
        | Some b \<Rightarrow> iterate_string_chunks src iterate_memcpy buflen b it)"

definition cbor_value_calculate_string_length :: "bytes \<Rightarrow> cbor_value \<Rightarrow> (cbor_error \<times> nat) option" where
  "cbor_value_calculate_string_length src it =
     map_option (\<lambda>(err, n, _, _). (err, n)) (cbor_value_copy_string src None (2 ^ 32 - 1) it)"

section \<open>Advancing over any value\<close>

partial_function (option) advance_all ::
  "(cbor_value \<Rightarrow> cbor_error dec) \<Rightarrow> cbor_value \<Rightarrow> cbor_error dec" where
  "advance_all advance r =
     (if cbor_value_at_end r then Some (CborNoError, r)
      else Option.bind (advance r) (\<lambda>(err, r1). if err \<noteq> CborNoError then Some (err, r1) else advance_all advance r1))"

fun advance_recursive :: "bytes \<Rightarrow> nat \<Rightarrow> cbor_value \<Rightarrow> cbor_error dec" where
  "advance_recursive src 0 it =
     (if is_fixed_type (v_type it) then advance_internal src it
      else if \<not> cbor_value_is_container it then
        map_option (\<lambda>(err, _, _, it1). (err, it1)) (cbor_value_copy_string src None (2 ^ 32 - 1) it)
      else Some (CborErrorNestingTooDeep, it))"
| "advance_recursive src (Suc nestingLevel) it =
     (if is_fixed_type (v_type it) then advance_internal src it
      else if \<not> cbor_value_is_container it then
        map_option (\<lambda>(err, _, _, it1). (err, it1)) (cbor_value_copy_string src None (2 ^ 32 - 1) it)
      else
        Option.bind (cbor_value_enter_container src it) (\<lambda>(err, r).
          if err \<noteq> CborNoError then Some (err, it)
          else Option.bind (advance_all (advance_recursive src nestingLevel) r) (\<lambda>(err2, r2).
            if err2 \<noteq> CborNoError then Some (err2, it) else cbor_value_leave_container src it r2)))"

definition CBOR_PARSER_MAX_RECURSIONS :: nat where
  "CBOR_PARSER_MAX_RECURSIONS = 1024"

definition cbor_value_advance :: "bytes \<Rightarrow> cbor_value \<Rightarrow> cbor_error dec" where
  "cbor_value_advance src it =
     (if v_remaining it = 0 then Some (CborErrorAdvancePastEOF, it)
      else advance_recursive src CBOR_PARSER_MAX_RECURSIONS it)"

definition cbor_value_validate_basic :: "bytes \<Rightarrow> cbor_value \<Rightarrow> cbor_error option" where
  "cbor_value_validate_basic src it = map_option fst (cbor_value_advance src it)"

partial_function (option) cbor_value_skip_tag :: "bytes \<Rightarrow> cbor_value \<Rightarrow> cbor_error dec" where
  "cbor_value_skip_tag src it =
     (if v_type it = CborTagType then
        Option.bind (cbor_value_advance_fixed src it) (\<lambda>(err, it1).
          if err \<noteq> CborNoError then Some (err, it1) else cbor_value_skip_tag src it1)
      else Some (CborNoError, it))"

section \<open>Typed access\<close>

text \<open>Signed results as bit patterns.\<close>

definition cbor_value_get_int64_checked :: "bytes \<Rightarrow> cbor_value \<Rightarrow> (cbor_error + u64) option" where
  "cbor_value_get_int64_checked src it =
     map_option (\<lambda>v. if v > 0x7fffffffffffffff then Inl CborErrorDataTooLarge
         else Inr (if has_flag NegativeInteger it then - v - 1 else v))
       (cbor_value_extract_int64_helper src it)"

definition cbor_value_get_int_checked :: "bytes \<Rightarrow> cbor_value \<Rightarrow> (cbor_error + int) option" where
  "cbor_value_get_int_checked src it =
     map_option (\<lambda>v. if has_flag NegativeInteger it then
           if v > 0x7fffffff then Inl CborErrorDataTooLarge else Inr (- uint v - 1)
         else if v > 0x7fffffff then Inl CborErrorDataTooLarge else Inr (uint v))
       (cbor_value_extract_int64_helper src it)"

definition cbor_value_text_string_equals :: "bytes \<Rightarrow> bytes \<Rightarrow> cbor_value \<Rightarrow> (cbor_error \<times> bool) option" where
  "cbor_value_text_string_equals src str it =
     Option.bind (cbor_value_skip_tag src it) (\<lambda>(err, copy).
       if err \<noteq> CborNoError then Some (err, False)
       else if v_type copy \<noteq> CborTextStringType then Some (CborNoError, False)
       else map_option (\<lambda>(err2, k, _). (err2, ck_result k))
              (iterate_string_chunks src iterate_memcmp (length str) (str @ [0]) copy))"

section \<open>Getters\<close>

text \<open>The inline functions of cbor.h. Floating-point values are given as their bits.\<close>

definition CborNullType :: u8 where "CborNullType = 0xf6"
definition CborUndefinedType :: u8 where "CborUndefinedType = 0xf7"
definition CborHalfFloat :: u8 where "CborHalfFloat = 0xf9"
definition CborFloat :: u8 where "CborFloat = 0xfa"
definition CborDouble :: u8 where "CborDouble = 0xfb"

lemmas cbor_simple_types = CborNullType_def CborUndefinedType_def CborHalfFloat_def CborFloat_def CborDouble_def

definition cbor_value_get_raw_integer :: "bytes \<Rightarrow> cbor_value \<Rightarrow> u64 option" where
  "cbor_value_get_raw_integer src it = cbor_value_extract_int64_helper src it"

definition cbor_value_is_negative_integer :: "cbor_value \<Rightarrow> bool" where
  "cbor_value_is_negative_integer it \<longleftrightarrow> v_type it = CborIntegerType \<and> has_flag NegativeInteger it"

definition cbor_value_get_boolean :: "cbor_value \<Rightarrow> bool" where
  "cbor_value_get_boolean it \<longleftrightarrow> v_extra it \<noteq> 0"

definition cbor_value_get_simple_type :: "cbor_value \<Rightarrow> u8" where
  "cbor_value_get_simple_type it = ucast (v_extra it)"

definition cbor_value_get_tag :: "bytes \<Rightarrow> cbor_value \<Rightarrow> u64 option" where
  "cbor_value_get_tag src it = cbor_value_extract_int64_helper src it"

definition cbor_value_get_half_float :: "cbor_value \<Rightarrow> u16" where
  "cbor_value_get_half_float it = v_extra it"

definition cbor_value_get_float :: "bytes \<Rightarrow> cbor_value \<Rightarrow> u32 option" where
  "cbor_value_get_float src it = map_option ucast (cbor_value_decode_int64_internal src it)"

definition cbor_value_get_double :: "bytes \<Rightarrow> cbor_value \<Rightarrow> u64 option" where
  "cbor_value_get_double src it = cbor_value_decode_int64_internal src it"

definition get_length :: "bytes \<Rightarrow> cbor_value \<Rightarrow> (cbor_error + u32) option" where
  "get_length src it =
     (if \<not> cbor_value_is_length_known it then Some (Inl CborErrorUnknownLength)
      else map_option (\<lambda>v. if ucast (ucast v :: u32) \<noteq> v then Inl CborErrorDataTooLarge else Inr (ucast v))
             (cbor_value_extract_int64_helper src it))"

definition cbor_value_get_string_length :: "bytes \<Rightarrow> cbor_value \<Rightarrow> (cbor_error + u32) option" where
  "cbor_value_get_string_length src it = get_length src it"

definition cbor_value_get_array_length :: "bytes \<Rightarrow> cbor_value \<Rightarrow> (cbor_error + u32) option" where
  "cbor_value_get_array_length src it = get_length src it"

definition cbor_value_get_map_length :: "bytes \<Rightarrow> cbor_value \<Rightarrow> (cbor_error + u32) option" where
  "cbor_value_get_map_length src it = get_length src it"

text \<open>\<open>malloc\<close> gives a block of the size asked for, or nothing.\<close>

definition cbor_value_dup_string ::
  "(nat \<Rightarrow> bytes option) \<Rightarrow> bytes \<Rightarrow> cbor_value \<Rightarrow> (cbor_error + bytes \<times> nat) dec" where
  "cbor_value_dup_string malloc src it =
     Option.bind (cbor_value_copy_string src None (2 ^ 32 - 1) it) (\<lambda>(err, buflen, _, _).
       if err \<noteq> CborNoError then Some (Inl err, it)
       else case malloc ((buflen + 1) mod 2 ^ 32) of
         None \<Rightarrow> Some (Inl CborErrorOutOfMemory, it)
       | Some block \<Rightarrow>
           map_option (\<lambda>(err, n, b, it1). (if err \<noteq> CborNoError then Inl err else Inr (b, n), it1))
             (cbor_value_copy_string src (Some block) ((buflen + 1) mod 2 ^ 32) it))"

text \<open>The loop of \<open>cbor_value_map_find_value\<close>; an error invalidates the element.\<close>

definition invalid :: "cbor_value \<Rightarrow> cbor_value" where
  "invalid it = it\<lparr>v_type := CborInvalidType\<rparr>"

partial_function (option) find_loop :: "bytes \<Rightarrow> bytes \<Rightarrow> cbor_value \<Rightarrow> cbor_error dec" where
  "find_loop src str el =
     (if cbor_value_at_end el then Some (CborNoError, invalid el)
      else
        Option.bind (cbor_value_skip_tag src el) (\<lambda>(err, el1).
          if err \<noteq> CborNoError then Some (err, invalid el1)
          else
            Option.bind
              (if v_type el1 = CborTextStringType then
                 map_option (\<lambda>(err2, k, el2). (err2, ck_result k, el2))
                   (iterate_string_chunks src iterate_memcmp (length str) (str @ [0]) el1)
               else map_option (\<lambda>(err2, el2). (err2, False, el2)) (cbor_value_advance src el1)) (\<lambda>(err2, equals, el2).
              if err2 \<noteq> CborNoError then Some (err2, invalid el2)
              else if equals then preparse_value src el2
              else
                Option.bind (cbor_value_skip_tag src el2) (\<lambda>(err3, el3).
                  if err3 \<noteq> CborNoError then Some (err3, invalid el3)
                  else
                    Option.bind (cbor_value_advance src el3) (\<lambda>(err4, el4).
                      if err4 \<noteq> CborNoError then Some (err4, invalid el4) else find_loop src str el4)))))"

definition cbor_value_map_find_value :: "bytes \<Rightarrow> cbor_value \<Rightarrow> bytes \<Rightarrow> cbor_error dec" where
  "cbor_value_map_find_value src map_it str =
     Option.bind (cbor_value_enter_container src map_it) (\<lambda>(err, el).
       if err \<noteq> CborNoError then Some (err, invalid el) else find_loop src str el)"

end
