(* ===== verification/CborRead.thy ===== *)
theory CborRead
  imports CborSink CborDec
begin

text \<open>
  What the parser's steps do on an encoded item: a client of the parser's functions
  (\<open>decode_item\<close>), and the lemmas for the head of an item, for the items without parts, for strings
  and for the step to the next value.
\<close>

section \<open>The client\<close>

definition on_ok :: "cbor_error dec \<Rightarrow> (cbor_value \<Rightarrow> 'b option) \<Rightarrow> 'b option" where
  "on_ok r f = Option.bind r (\<lambda>(err, it). if err \<noteq> CborNoError then None else f it)"

definition decode_string :: "(nat \<Rightarrow> bytes option) \<Rightarrow> bytes \<Rightarrow> cbor_value \<Rightarrow> bytes dec" where
  "decode_string malloc src it = Option.bind (cbor_value_dup_string malloc src it)
     (\<lambda>(r, it1). case r of Inl _ \<Rightarrow> None | Inr (b, n) \<Rightarrow> Some (take n b, it1))"

definition leaf_value :: "bytes \<Rightarrow> cbor_value \<Rightarrow> cbor_item option" where
  "leaf_value src it =
     (let t = v_type it in
      if t = CborIntegerType then
        map_option (\<lambda>v. if cbor_value_is_negative_integer it then CNegative (v + 1) else CUint v) (cbor_value_get_raw_integer src it)
      else if t = CborBooleanType then Some (CBool (cbor_value_get_boolean it))
      else if t = CborNullType then Some CNull
      else if t = CborUndefinedType then Some CUndefined
      else if t = CborHalfFloat then Some (CFloating CborHalfFloatType (ucast (cbor_value_get_half_float it)))
      else if t = CborFloat then map_option (\<lambda>v. CFloating CborFloatType (ucast v)) (cbor_value_get_float src it)
      else if t = CborDouble then map_option (CFloating CborDoubleType) (cbor_value_get_double src it)
      else if t = CborSimpleType then Some (CSimple (cbor_value_get_simple_type it))
      else None)"

fun pairs :: "'a list \<Rightarrow> ('a \<times> 'a) list" where
  "pairs (x # y # r) = (x, y) # pairs r"
| "pairs _ = []"

fun decode_item :: "(nat \<Rightarrow> bytes option) \<Rightarrow> bytes \<Rightarrow> nat \<Rightarrow> cbor_value \<Rightarrow> cbor_item dec"
and decode_seq :: "(nat \<Rightarrow> bytes option) \<Rightarrow> bytes \<Rightarrow> nat \<Rightarrow> cbor_value \<Rightarrow> cbor_item list dec" where
  "decode_item malloc src 0 it = None"
| "decode_item malloc src (Suc n) it =
     (if v_type it = CborTagType then
        Option.bind (cbor_value_get_tag src it) (\<lambda>t. on_ok (cbor_value_advance_fixed src it) (\<lambda>it1.
          map_option (\<lambda>(i, it2). (CTag t i, it2)) (decode_item malloc src n it1)))
      else if v_type it = CborByteStringType then map_option (\<lambda>(b, it1). (CBytes b, it1)) (decode_string malloc src it)
      else if v_type it = CborTextStringType then map_option (\<lambda>(b, it1). (CText b, it1)) (decode_string malloc src it)
      else if cbor_value_is_container it then
        on_ok (cbor_value_enter_container src it) (\<lambda>r.
          Option.bind (decode_seq malloc src n r) (\<lambda>(xs, r1). on_ok (cbor_value_leave_container src it r1) (\<lambda>it1.
            Some (if v_type it = CborMapType then CMap (cbor_value_is_length_known it) (pairs xs)
                  else CArray (cbor_value_is_length_known it) xs, it1))))
      else Option.bind (leaf_value src it) (\<lambda>i. on_ok (cbor_value_advance_fixed src it) (\<lambda>it1. Some (i, it1))))"
| "decode_seq malloc src 0 it = None"
| "decode_seq malloc src (Suc n) it =
     (if cbor_value_at_end it then Some ([], it)
      else Option.bind (decode_item malloc src n it) (\<lambda>(i, it1).
        map_option (\<lambda>(xs, it2). (i # xs, it2)) (decode_seq malloc src n it1)))"

section \<open>Descriptors\<close>

lemma be_val_step:
  fixes v :: u64
  shows "push_bit 8 (take_bit a (drop_bit (8 + k) v)) OR ucast (ucast (drop_bit k v) :: u8) = take_bit (8 + a) (drop_bit k v)"
proof (rule bit_word_eqI)
  fix n :: nat assume "n < LENGTH(64)"
  then show "bit (push_bit 8 (take_bit a (drop_bit (8 + k) v)) OR ucast (ucast (drop_bit k v) :: u8)) n =
      bit (take_bit (8 + a) (drop_bit k v)) n"
    by (cases "n < 8") (auto simp: bit_simps)
qed

lemma be_val_Nil [simp]: "be_val [] = 0"
  by (simp add: be_val_def)

lemma be_val_snoc:
  "be_val xs = take_bit a (drop_bit (8 + k) v) \<Longrightarrow> be_val (xs @ [ucast (drop_bit k v)]) = take_bit (8 + a) (drop_bit k v)"
  using be_val_step [of a k v] by (simp add: be_val_def)

lemma be_val_put64:
  "be_val (drop 7 (put64 v)) = take_bit 8 v" "be_val (drop 6 (put64 v)) = take_bit 16 v"
  "be_val (drop 4 (put64 v)) = take_bit 32 v" "be_val (put64 v) = v"
proof -
  have 1: "be_val [ucast v] = take_bit 8 v" for v :: u64
    using be_val_snoc [of "[]" 0 0 v] by simp
  have 2: "be_val [ucast (drop_bit 8 v), ucast v] = take_bit 16 v"  for v :: u64
    using be_val_snoc [of "[ucast (drop_bit 8 v)]" 8 0 v] 1 by simp
  have 4: "be_val [ucast (drop_bit 24 v), ucast (drop_bit 16 v), ucast (drop_bit 8 v), ucast v] = take_bit 32 v" for v :: u64
    using be_val_snoc [of "[ucast (drop_bit 24 v), ucast (drop_bit 16 v)]" 16 8 v]
      be_val_snoc [of "[ucast (drop_bit 24 v), ucast (drop_bit 16 v), ucast (drop_bit 8 v)]" 24 0 v] 2 [of "drop_bit 16 v"] by simp
  have 8: "be_val (put64 v) = take_bit 64 v"
    using be_val_snoc [of "take 4 (put64 v)" 32 24 v] be_val_snoc [of "take 5 (put64 v)" 40 16 v]
      be_val_snoc [of "take 6 (put64 v)" 48 8 v] be_val_snoc [of "take 7 (put64 v)" 56 0 v] 4 [of "drop_bit 32 v"]
    by (simp add: put64_def)
  show "be_val (drop 7 (put64 v)) = take_bit 8 v" "be_val (drop 6 (put64 v)) = take_bit 16 v"
    "be_val (drop 4 (put64 v)) = take_bit 32 v" "be_val (put64 v) = v"
    using 1 2 4 8 by (simp_all add: put64_def take_bit_word_eq_self)
qed

lemma descriptor_parts:
  assumes "m < 8" "d < 32"
  shows "(shifted m + d) AND MajorTypeMask = shifted m" "(shifted m + d) AND SmallValueMask = d"
    "drop_bit 5 (shifted m) = m" "unat (shifted m) = 32 * unat m"
proof -
  have m: "take_bit 3 m = m" and d: "take_bit 5 d = d"
    using assms by (simp_all add: word_less_nat_alt word_unat_eq_iff unsigned_take_bit_eq take_bit_nat_eq_self)
  have mk: "\<not> bit m k" if "k \<ge> 3" for k using that m by (metis bit_take_bit_iff leD)
  have dk: "\<not> bit d k" if "k \<ge> 5" for k using that d by (metis bit_take_bit_iff leD)
  have lt: "bit d k \<Longrightarrow> k < 5" for k using dk [of k] by linarith
  have sum: "shifted m + d = shifted m OR d"
    by (rule disjunctive_add) (auto simp: shifted_def bit_simps dk)
  have masks: "MajorTypeMask = NOT (mask 5)" "SmallValueMask = mask 5"
    by (simp_all add: MajorTypeMask_def SmallValueMask_def mask_eq_exp_minus_1)
  show "(shifted m + d) AND MajorTypeMask = shifted m" "(shifted m + d) AND SmallValueMask = d"
    unfolding sum masks by (rule bit_word_eqI; auto simp: shifted_def bit_simps dk dest: lt)+
  have "bit m k \<Longrightarrow> k < 3" for k using mk [of k] by linarith
  then show "drop_bit 5 (shifted m) = m"
    by (auto intro!: bit_word_eqI simp: shifted_def bit_simps mk)
  show "unat (shifted m) = 32 * unat m"
    using assms(1) by (simp add: shifted_def push_bit_eq_mult unat_mult_lem [THEN iffD1] word_less_nat_alt)
qed

lemma head_bytes_form:
  obtains d payload where "head_bytes ui smt = (smt + d) # payload" "d \<le> Value64Bit" "length payload = bytes_needed d"
    "payload = [] \<longrightarrow> d < 24 \<and> ui = ucast d" "payload \<noteq> [] \<longrightarrow> d \<ge> 24 \<and> be_val payload = ui"
    "d = 24 \<longrightarrow> ui \<ge> 24 \<and> ui < 256" "ui < 24 \<longrightarrow> payload = []"
proof -
  note [simp] = head_bytes_def bytes_needed_def cbor_consts Value64Bit_def
  have small: "take_bit n v = v" if "unat v < 2 ^ n" for n and v :: u64
    using that by (simp add: word_unat_eq_iff unsigned_take_bit_eq take_bit_nat_eq_self)
  consider "ui < 24" | "24 \<le> ui" "ui \<le> 0xff" | "0xff < ui" "ui \<le> 0xffff" | "0xffff < ui" "ui \<le> 0xffffffff"
    | "0xffffffff < ui" by fastforce
  then show thesis
  proof cases
    case 1
    then have "ui = ucast (ucast ui :: u8)"
      by (simp add: word_unat_eq_iff word_less_nat_alt unsigned_ucast_eq unsigned_take_bit_eq take_bit_nat_eq_self)
    moreover have "(ucast ui :: u8) < 24"
      using 1 by (simp add: word_less_nat_alt unsigned_ucast_eq take_bit_nat_eq_self)
    moreover from this have "(ucast ui :: u8) \<le> 27" "(ucast ui :: u8) \<noteq> 24" by (auto simp: word_less_nat_alt word_le_nat_alt)
    ultimately show ?thesis
      using that [of "ucast ui" "[]"] 1 by (simp add: put64_def add.commute)
  next
    case 2
    then have "be_val (drop 7 (put64 ui)) = ui"
      by (simp add: be_val_put64 small word_le_nat_alt)
    moreover have "\<not> ui < 24" "ui < 256" "\<not> 0xff < ui" "\<not> 0xffff < ui" "\<not> 0xffffffff < ui" using 2 by (simp_all add: word_less_nat_alt word_le_nat_alt)
    ultimately show ?thesis
      using that [of 24 "drop 7 (put64 ui)"] 2 by (simp add: put64_def)
  next
    case 3
    then have "be_val (drop 6 (put64 ui)) = ui"
      by (simp add: be_val_put64 small word_le_nat_alt)
    moreover have "\<not> ui < 24" "0xff < ui" "\<not> 0xffff < ui" "\<not> 0xffffffff < ui" using 3 by (simp_all add: word_less_nat_alt word_le_nat_alt)
    ultimately show ?thesis
      using that [of 25 "drop 6 (put64 ui)"] 3 by (simp add: put64_def)
  next
    case 4
    then have "be_val (drop 4 (put64 ui)) = ui"
      by (simp add: be_val_put64 small word_le_nat_alt)
    moreover have "\<not> ui < 24" "0xff < ui" "0xffff < ui" "\<not> 0xffffffff < ui" using 4 by (simp_all add: word_less_nat_alt word_le_nat_alt)
    ultimately show ?thesis
      using that [of 26 "drop 4 (put64 ui)"] 4 by (simp add: put64_def)
  next
    case 5
    then have "\<not> ui < 24" "ui > 0xff" "ui > 0xffff" by (simp_all add: word_less_nat_alt word_le_nat_alt)
    then show ?thesis
      using that [of 27 "put64 ui"] 5 be_val_put64(4) [of ui] by (simp add: put64_def)
  qed
qed

section \<open>Reading a descriptor\<close>

text \<open>The iterator at \<open>p\<close>, before the value there is looked at.\<close>

definition raw :: "nat \<Rightarrow> u32 \<Rightarrow> u8 \<Rightarrow> cbor_value" where
  "raw p r fl = \<lparr>v_ptr = p, v_remaining = r, v_extra = 0, v_type = CborInvalidType, v_flags = fl\<rparr>"

lemma keep_flags: "ContainerIsMap OR NextIsMapKey = 0x60"
  by (simp add: cbor_flags)

lemmas flag_simps = has_flag_def set_flag_def clear_flag_def keep_flags bit.conj_disj_distrib2 and.assoc or.assoc

lemma reads:
  assumes "src = pre @ xs @ post" "v_ptr it = length pre" "off + n \<le> length xs"
  shows "read_bytes_unchecked src it off n = Some (take n (drop off xs))" "can_read_bytes src it n"
  using assms by (auto simp: read_bytes_unchecked_def memcpy_from_def can_read_bytes_def)

lemma reading_frame [simp]:
  "can_read_bytes src (v_remaining_update f it) n = can_read_bytes src it n"
  "can_read_bytes src (v_extra_update g it) n = can_read_bytes src it n"
  "can_read_bytes src (v_type_update h it) n = can_read_bytes src it n"
  "can_read_bytes src (v_flags_update h it) n = can_read_bytes src it n"
  "read_bytes_unchecked src (v_remaining_update f it) off n = read_bytes_unchecked src it off n"
  "read_bytes_unchecked src (v_extra_update g it) off n = read_bytes_unchecked src it off n"
  "read_bytes_unchecked src (v_type_update h it) off n = read_bytes_unchecked src it off n"
  "read_bytes_unchecked src (v_flags_update h it) off n = read_bytes_unchecked src it off n"
  by (simp_all add: can_read_bytes_def read_bytes_unchecked_def)

lemma reading_raw [simp]:
  "can_read_bytes src (raw (v_ptr it) r fl) n = can_read_bytes src it n"
  "read_bytes_unchecked src (raw (v_ptr it) r fl) off n = read_bytes_unchecked src it off n"
  by (simp_all add: can_read_bytes_def read_bytes_unchecked_def raw_def)

definition fits :: "bytes \<Rightarrow> nat \<Rightarrow> nat \<Rightarrow> bool" where
  "fits src p n \<longleftrightarrow> n \<le> (if p \<le> length src then length src - p else 2 ^ 32 + length src - p)"

lemma can_read_fits: "can_read_bytes src it n = fits src (v_ptr it) n"
  by (simp add: can_read_bytes_def fits_def)

lemma preparse_value_raw:
  assumes "can_read_bytes src it 1"
  shows "preparse_value src it = preparse_value src (raw (v_ptr it) (v_remaining it) (v_flags it AND 0x60))"
  using assms
  by (cases it) (simp add: preparse_value_def Let_def keep_flags and.assoc raw_def can_read_fits read_bytes_unchecked_def
      del: One_nat_def)

definition number_extra :: "u8 \<Rightarrow> bytes \<Rightarrow> u16" where
  "number_extra d payload = (if payload = [] then ucast d else if length payload \<le> 2 then ucast (be_val payload) else 0)"

definition number_flags :: "u8 \<Rightarrow> u8" where
  "number_flags d = (if d \<ge> 26 then d AND 3 else 0)"

lemma small_descriptor: "d < 24 \<Longrightarrow> \<not> 26 \<le> (d :: u8)"
  by (simp add: not_le less_trans [of d 24 26])

lemma descriptor_cases: "d \<le> Value64Bit \<Longrightarrow> d < 24 \<or> d = 24 \<or> d = 25 \<or> d = 26 \<or> d = (27 :: u8)"
  by (simp add: Value64Bit_def word_le_nat_alt word_less_nat_alt word_unat_eq_iff) linarith

lemma preparse_number_reads:
  assumes src: "src = pre @ (h # payload) @ post" and it: "v_ptr it = length pre" "v_extra it = ucast d"
    and d: "d \<le> Value64Bit" "length payload = bytes_needed d"
  shows "preparse_number src d it = Some (CborNoError, it\<lparr>v_extra := number_extra d payload, v_flags := v_flags it OR number_flags d\<rparr>)"
proof -
  note [simp] = number_flags_def number_extra_def bytes_needed_def Value8Bit_def
  have r: "can_read_bytes src it (bytes_needed d + 1)" "read_bytes_unchecked src it 1 (bytes_needed d) = Some payload"
    using reads [OF src it(1), of 0 "length payload + 1"] reads [OF src it(1), of 1 "length payload"] d(2) by simp_all
  consider "d < 24" | "d = 24" | "d = 25" | "d = 26" | "d = 27"
    using descriptor_cases [OF d(1)] by blast
  then show ?thesis
  proof cases
    case 1
    then show ?thesis using small_descriptor [OF 1] d(2) it(2) by (cases it) (simp add: preparse_number_def)
  qed (use r d(2) in \<open>auto simp: preparse_number_def set_flag_def simp del: One_nat_def\<close>)
qed

lemma preparse_value_reads:
  assumes src: "src = pre @ ((shifted m + d) # payload) @ post" and it: "v_ptr it = length pre"
    and m: "m < 8" and d: "d \<le> Value64Bit" "length payload = bytes_needed d"
  shows "preparse_value src it = preparse_kind src (shifted m) d
    (it\<lparr>v_type := shifted m, v_extra := number_extra d payload, v_flags := (v_flags it AND 0x60) OR number_flags d\<rparr>)"
proof -
  define it1 where "it1 = it\<lparr>v_type := shifted m, v_extra := ucast d, v_flags := v_flags it AND 0x60\<rparr>"
  have "d < 32" using d(1) by (simp add: Value64Bit_def word_le_nat_alt word_less_nat_alt)
  note parts = descriptor_parts [OF m this]
  have "can_read_bytes src it 1" "read_bytes_unchecked src it 0 1 = Some [shifted m + d]"
    using reads [OF src it, of 0 1] by simp_all
  then have "preparse_value src it = Option.bind (preparse_number src d it1) (\<lambda>(err, it2).
      if err \<noteq> CborNoError then Some (err, it2) else preparse_kind src (shifted m) d it2)"
    using d(1) parts by (cases it) (simp add: preparse_value_def Let_def keep_flags it1_def not_less [symmetric] 
        can_read_fits read_bytes_unchecked_def del: One_nat_def cong: if_cong)
  moreover have "preparse_number src d it1 = Some (CborNoError, it1\<lparr>v_extra := number_extra d payload, v_flags := v_flags it1 OR number_flags d\<rparr>)"
    using preparse_number_reads [OF src _ _ d, of it1] it by (simp add: it1_def)
  ultimately show ?thesis by (simp add: it1_def)
qed

definition payload_value :: "u8 \<Rightarrow> bytes \<Rightarrow> u64" where
  "payload_value d payload = (if payload = [] then ucast d else be_val payload)"

lemma be_val_short: "payload \<noteq> [] \<Longrightarrow> length payload \<le> 2 \<Longrightarrow> ucast (ucast (be_val payload) :: u16) = be_val payload"
  by (cases payload rule: remdups_adj.cases)
    (auto intro!: bit_word_eqI simp: be_val_def bit_simps, (drule bit_imp_le_length, simp)+)

lemma ucast_descriptor [simp]: "ucast (ucast (d :: u8) :: u16) = (ucast d :: u64)"
  by (rule bit_word_eqI) (auto simp: bit_simps dest: bit_imp_le_length)

lemma extract_payload:
  assumes src: "src = pre @ (h # payload) @ post" and it: "v_ptr it = length pre" "v_extra it = number_extra d payload"
      "v_flags it = (fl AND 0x60) OR number_flags d OR x" "x AND 3 = 0"
    and d: "d \<le> Value64Bit" "length payload = bytes_needed d"
  shows "cbor_value_extract_int64_helper src it = Some (payload_value d payload)"
proof -
  note [simp] = cbor_value_extract_int64_helper_def cbor_value_decode_int64_internal_def number_extra_def number_flags_def
    payload_value_def bytes_needed_def Value8Bit_def
  have "x AND 2 = (x AND 3) AND 2" "x AND 1 = (x AND 3) AND 1" by (simp_all add: and.assoc)
  then have x: "x AND 2 = 0" "x AND 1 = 0" using it(4) by simp_all
  have r: "read_bytes_unchecked src it 1 (bytes_needed d) = Some payload"
    using reads [OF src it(1), of 1 "length payload"] d(2) by simp
  have short: "payload \<noteq> [] \<Longrightarrow> length payload \<le> 2 \<Longrightarrow> ucast (number_extra d payload) = be_val payload"
    by (simp add: be_val_short)
  consider "d < 24" | "d = 24" | "d = 25" | "d = 26" | "d = 27"
    using descriptor_cases [OF d(1)] by blast
  then show ?thesis
  proof cases
    case 1
    then show ?thesis using small_descriptor [OF 1] d(2) it(2, 3) x by (simp add: flag_simps cbor_flags)
  qed (use r d(2) it(2, 3) x short in \<open>auto simp: flag_simps cbor_flags simp del: One_nat_def\<close>)
qed

text \<open>An iterator on a number of type \<open>t\<close> with the value \<open>v\<close>, which ends at \<open>p\<close>.\<close>

definition on_number :: "bytes \<Rightarrow> u8 \<Rightarrow> u64 \<Rightarrow> nat \<Rightarrow> cbor_value \<Rightarrow> bool" where
  "on_number src t v p it \<longleftrightarrow> v_type it = t \<and> cbor_value_extract_int64_helper src it = Some v \<and>
     extract_number_and_advance src it = Some (v, it\<lparr>v_ptr := p\<rparr>)"

lemma extract_advances:
  assumes src: "src = pre @ ((shifted m + d) # payload) @ post" and m: "m < 8" and it: "v_ptr it = length pre"
    and d: "d \<le> Value64Bit" "length payload = bytes_needed d"
    and v: "cbor_value_extract_int64_helper src it = Some v"
  shows "on_number src (v_type it) v (length pre + (1 + length payload)) it"
proof -
  have "d < 32" using d(1) by (simp add: Value64Bit_def word_le_nat_alt word_less_nat_alt)
  then show ?thesis
    using descriptor_parts(2) [OF m, of d] reads [OF src it, of 0 1] v d(2) it
    by (simp add: on_number_def extract_number_and_advance_def advance_bytes_def)
qed

lemma on_number_head:
  assumes src: "src = pre @ head_bytes ui (shifted m) @ post" and m: "m < 7" and it: "v_ptr it = length pre"
  obtains it' where "preparse_value src it = Some (CborNoError, it')"
    "on_number src (if m = 1 then CborIntegerType else shifted m) ui (length (pre @ head_bytes ui (shifted m))) it'"
    "v_ptr it' = length pre" "v_remaining it' = v_remaining it" "v_flags it' AND 0x60 = v_flags it AND 0x60"
    "\<not> has_flag UnknownLength it'" "has_flag NegativeInteger it' = (m = 1)"
proof -
  obtain d payload where h: "head_bytes ui (shifted m) = (shifted m + d) # payload" "d \<le> Value64Bit"
      "length payload = bytes_needed d" "payload = [] \<longrightarrow> d < 24 \<and> ui = ucast d" "payload \<noteq> [] \<longrightarrow> d \<ge> 24 \<and> be_val payload = ui"
    by (rule head_bytes_form [of ui "shifted m"]) blast
  have src': "src = pre @ ((shifted m + d) # payload) @ post" using src h by simp
  have m8: "m < 8" "m \<noteq> 7" using m by (auto simp: word_less_nat_alt)
  define x :: u8 where "x = (if m = 1 then 4 else 0)"
  define it' where "it' = it\<lparr>v_type := if m = 1 then CborIntegerType else shifted m, v_extra := number_extra d payload,
    v_flags := (v_flags it AND 0x60) OR number_flags d OR x\<rparr>"
  have 1: "preparse_value src it = Some (CborNoError, it')"
    using preparse_value_reads [OF src' it m8(1) h(2, 3)] descriptor_parts(3) [OF m8(1), of 0] m8(2)
    by (cases it) (auto simp: preparse_kind_def it'_def x_def set_flag_def NegativeIntegerType_def SimpleTypesType_def NegativeInteger_def or.assoc)
  have "payload_value d payload = ui" using h by (auto simp: payload_value_def)
  then have "cbor_value_extract_int64_helper src it' = Some ui"
    using extract_payload [OF src', of it' d "v_flags it" x] h it by (simp add: it'_def x_def)
  then have 2: "on_number src (v_type it') ui (length (pre @ head_bytes ui (shifted m))) it'"
    using extract_advances [OF src' m8(1), of it' ui] h it by (simp add: it'_def)
  have nf: "number_flags d = 0 \<or> number_flags d = 2 \<or> number_flags d = 3"
    using descriptor_cases [OF h(2)] by (auto simp: number_flags_def dest: small_descriptor)
  show thesis
    using nf 1 2 by (intro that [of it']) (auto simp: it'_def it x_def flag_simps cbor_flags)
qed

section \<open>Simple values\<close>

definition simple_type_of :: "u8 \<Rightarrow> u8" where
  "simple_type_of d = (if d = 20 then CborBooleanType else if d = 21 \<or> d = 22 \<or> d = 23 \<or> d = 25 \<or> d = 26 \<or> d = 27 then 0xe0 + d
     else CborSimpleType)"

lemma preparse_simple:
  assumes "read_bytes_unchecked src it 0 1 = Some [0xe0 + d]" "d \<le> Value64Bit" "v_type it = CborSimpleType"
    and "\<not> (d = 24 \<and> v_extra it < 32)" "v_flags it = a OR number_flags d"
  shows "preparse_kind src (shifted SimpleTypesType) d it =
    Some (CborNoError, it\<lparr>v_type := simple_type_of d, v_extra := if d = 20 then 0 else v_extra it\<rparr>)"
proof -
  note [simp] = preparse_kind_def simple_type_of_def shifted_def SimpleTypesType_def NegativeIntegerType_def
  show ?thesis
  proof (cases "d = 20 \<or> d = 21 \<or> d = 22 \<or> d = 23 \<or> d = 24 \<or> d = 25 \<or> d = 26 \<or> d = 27")
    case False
    then show ?thesis using assms by (cases it) simp
  next
    case True
    then show ?thesis using assms
      by (elim disjE) (cases it; simp add: CborBooleanType_def number_flags_def set_flag_def IntegerValueTooLarge_def
        read_bytes_unchecked_def or.assoc)+
  qed
qed

lemma on_simple:
  assumes src: "src = pre @ ((0xe0 + d) # payload) @ post" and d: "d \<le> Value64Bit" "length payload = bytes_needed d"
    and ok: "\<not> (d = 24 \<and> number_extra d payload < 32)"
  obtains it v where "preparse_value src (raw (length pre) r fl) = Some (CborNoError, it)"
    "on_number src (simple_type_of d) v (length pre + (1 + length payload)) it"
    "v_ptr it = length pre" "v_remaining it = r" "v_flags it AND 0x60 = fl AND 0x60"
    "v_extra it = (if d = 20 then 0 else number_extra d payload)"
    "payload \<noteq> [] \<Longrightarrow> length payload > 2 \<Longrightarrow> cbor_value_decode_int64_internal src it = Some (be_val payload)"
proof -
  define it1 where "it1 = (raw (length pre) r fl)\<lparr>v_type := CborSimpleType, v_extra := number_extra d payload,
    v_flags := (fl AND 0x60) OR number_flags d\<rparr>"
  define it where "it = it1\<lparr>v_type := simple_type_of d, v_extra := if d = 20 then 0 else number_extra d payload\<rparr>"
  have s7: "shifted SimpleTypesType = 0xe0" by (simp add: shifted_def SimpleTypesType_def)
  have src': "src = pre @ ((shifted SimpleTypesType + d) # payload) @ post" using src by (simp add: s7)
  have m: "SimpleTypesType < 8" by (simp add: SimpleTypesType_def)
  have p: "v_ptr (raw (length pre) r fl) = length pre" "v_ptr it1 = length pre" "v_ptr it = length pre"
    by (simp_all add: raw_def it1_def it_def)
  have "preparse_value src (raw (length pre) r fl) = preparse_kind src (shifted SimpleTypesType) d it1"
    using preparse_value_reads [OF src' p(1) m d] by (simp add: raw_def it1_def s7 CborSimpleType_def)
  moreover have "preparse_kind src (shifted SimpleTypesType) d it1 = Some (CborNoError, it)"
    using preparse_simple [of src it1 d "fl AND 0x60"] reads [OF src p(2), of 0 1] d ok
    by (simp add: it_def it1_def)
  ultimately have 1: "preparse_value src (raw (length pre) r fl) = Some (CborNoError, it)" by simp
  have e: "cbor_value_extract_int64_helper src it = Some (payload_value d payload)" if "d \<noteq> 20"
    using extract_payload [OF src p(3) _ _ _ d, of fl 0] that by (simp add: it_def it1_def)
  have "cbor_value_extract_int64_helper src it = Some 0" if "d = 20"
    using that by (simp add: it_def it1_def cbor_value_extract_int64_helper_def flag_simps IntegerValueTooLarge_def number_flags_def)
  then obtain v where v: "cbor_value_extract_int64_helper src it = Some v"
    using e by (cases "d = 20") auto
  have 2: "on_number src (simple_type_of d) v (length pre + (1 + length payload)) it"
    using extract_advances [OF src' m p(3) d v] by (simp add: it_def)
  have 3: "cbor_value_decode_int64_internal src it = Some (be_val payload)" if "length payload > 2"
  proof -
    have "d = 26 \<or> d = 27"
      using descriptor_cases [OF d(1)] that d(2) by (auto simp: bytes_needed_def Value8Bit_def)
    moreover from this have "has_flag IntegerValueTooLarge it"
      by (auto simp: it_def it1_def flag_simps IntegerValueTooLarge_def number_flags_def)
    ultimately show ?thesis
      using e that by (auto simp: cbor_value_extract_int64_helper_def payload_value_def)
  qed
  have nf: "number_flags d = 0 \<or> number_flags d = 2 \<or> number_flags d = 3"
    using descriptor_cases [OF d(1)] by (auto simp: number_flags_def dest: small_descriptor)
  show thesis
    using nf 1 2 3 by (intro that [of it v]) (auto simp: it_def it1_def raw_def flag_simps)
qed

section \<open>Items without parts\<close>

text \<open>What the parser can tell: the shortest form of an integer, the named simple values, the width of a float.\<close>

fun norm_simple :: "u8 \<Rightarrow> cbor_item" where
  "norm_simple v = (if v = 20 then CBool False else if v = 21 then CBool True else if v = 22 then CNull
     else if v = 23 then CUndefined else CSimple v)"

fun norm_item :: "cbor_item \<Rightarrow> cbor_item" where
  "norm_item (CInt v) = (if sint v < 0 then CNegative (- v) else CUint v)"
| "norm_item (CSimple v) = norm_simple v"
| "norm_item (CFloating CborHalfFloatType v) = CFloating CborHalfFloatType (ucast (ucast v :: u16))"
| "norm_item (CFloating CborFloatType v) = CFloating CborFloatType (ucast (ucast v :: u32))"
| "norm_item (CTag t i) = CTag t (norm_item i)"
| "norm_item (CArray d xs) = CArray d (map norm_item xs)"
| "norm_item (CMap d kvs) = CMap d (map (\<lambda>(k, v). (norm_item k, norm_item v)) kvs)"
| "norm_item i = i"

definition leaf_read :: "bytes \<Rightarrow> nat \<Rightarrow> u32 \<Rightarrow> u8 \<Rightarrow> cbor_item \<Rightarrow> nat \<Rightarrow> bool" where
  "leaf_read src p r fl i p' \<longleftrightarrow> (\<exists>it v. preparse_value src (raw p r fl) = Some (CborNoError, it) \<and>
     on_number src (v_type it) v p' it \<and> v_ptr it = p \<and> v_remaining it = r \<and> v_flags it AND 0x60 = fl AND 0x60 \<and>
     leaf_value src it = Some i \<and> is_fixed_type (v_type it) \<and> v_type it \<noteq> CborTagType)"

lemma raw_fields [simp]:
  "v_ptr (raw p r fl) = p" "v_remaining (raw p r fl) = r" "v_flags (raw p r fl) = fl"
  by (simp_all add: raw_def)

lemma leaf_int:
  assumes src: "src = pre @ head_bytes ui (shifted m) @ post" and m: "m = 0 \<or> m = 1"
  shows "leaf_read src (length pre) r fl (if m = 1 then CNegative (ui + 1) else CUint ui) (length (pre @ head_bytes ui (shifted m)))"
proof -
  have m7: "m < 7" using m by auto
  obtain it where it: "preparse_value src (raw (length pre) r fl) = Some (CborNoError, it)"
    "on_number src (if m = 1 then CborIntegerType else shifted m) ui (length (pre @ head_bytes ui (shifted m))) it"
    "v_ptr it = length pre" "v_remaining it = r" "v_flags it AND 0x60 = fl AND 0x60"
    "has_flag NegativeInteger it = (m = 1)"
    using on_number_head [OF src m7, of "raw (length pre) r fl"] by auto
  then have "v_type it = CborIntegerType" using m by (auto simp: on_number_def CborIntegerType_def shifted_def)
  with it m show ?thesis
    unfolding leaf_read_def
    by (intro exI [of _ it] exI [of _ ui]) (auto simp: leaf_value_def cbor_value_is_negative_integer_def
      cbor_value_get_raw_integer_def on_number_def is_fixed_type_def cbor_types)
qed

lemma leaf_of_simple:
  assumes src: "src = pre @ ((0xe0 + d) # payload) @ post" and d: "d \<le> Value64Bit" "length payload = bytes_needed d"
    and ok: "\<not> (d = 24 \<and> number_extra d payload < 32)"
    and leaf: "\<And>it. v_type it = simple_type_of d \<Longrightarrow> v_extra it = (if d = 20 then 0 else number_extra d payload) \<Longrightarrow>
      (payload \<noteq> [] \<Longrightarrow> length payload > 2 \<Longrightarrow> cbor_value_decode_int64_internal src it = Some (be_val payload)) \<Longrightarrow>
      leaf_value src it = Some i"
  shows "leaf_read src (length pre) r fl i (length pre + (1 + length payload))"
proof -
  obtain it v where it: "preparse_value src (raw (length pre) r fl) = Some (CborNoError, it)"
    "on_number src (simple_type_of d) v (length pre + (1 + length payload)) it"
    "v_ptr it = length pre" "v_remaining it = r" "v_flags it AND 0x60 = fl AND 0x60"
    "v_extra it = (if d = 20 then 0 else number_extra d payload)"
    "payload \<noteq> [] \<Longrightarrow> length payload > 2 \<Longrightarrow> cbor_value_decode_int64_internal src it = Some (be_val payload)"
    using on_simple [OF src d ok] by metis
  have t: "v_type it = simple_type_of d" using it(2) by (simp add: on_number_def)
  moreover have "is_fixed_type (simple_type_of d)" "simple_type_of d \<noteq> CborTagType"
    by (auto simp: simple_type_of_def is_fixed_type_def cbor_types)
  ultimately show ?thesis
    unfolding leaf_read_def using it leaf [OF t it(6, 7)] by (intro exI [of _ it] exI [of _ v]) simp
qed

lemma ucast_back [simp]:
  "ucast (ucast a :: u16) = (a :: u8)" "ucast (ucast b :: u64) = (b :: u16)" "ucast (ucast c :: u64) = (c :: u32)"
  by (auto intro!: bit_word_eqI simp: bit_simps)

lemma leaf_short:
  assumes "src = pre @ [0xe0 + d] @ post" "d < 24"
  shows "leaf_read src (length pre) r fl (norm_simple d) (length pre + 1)"
proof -
  have "d \<le> Value64Bit" using assms(2) by (simp add: Value64Bit_def word_le_nat_alt word_less_nat_alt)
  moreover have "bytes_needed d = 0" "d \<noteq> 24" "d \<noteq> 25" "d \<noteq> 26" "d \<noteq> 27"
    using assms(2) by (auto simp: bytes_needed_def Value8Bit_def dest: small_descriptor)
  ultimately have "leaf_read src (length pre) r fl (norm_simple d) (length pre + (1 + length ([] :: bytes)))"
    using assms by (intro leaf_of_simple) (auto simp: leaf_value_def simple_type_of_def cbor_types cbor_simple_types number_extra_def
      cbor_value_get_boolean_def cbor_value_get_simple_type_def Let_def split: if_splits)
  then show ?thesis by simp
qed

lemma leaf_long_simple:
  assumes "src = pre @ [0xf8, d] @ post" "d \<ge> 32"
  shows "leaf_read src (length pre) r fl (CSimple d) (length pre + 2)"
proof -
  have "number_extra 24 [d] = ucast d"
    by (auto intro!: bit_word_eqI simp: number_extra_def be_val_def bit_simps)
  moreover have "unat d < 2 ^ 16" by (rule less_le_trans [OF unsigned_less]) simp
  then have "\<not> (ucast d :: u16) < 32" using assms(2) by (simp add: word_less_nat_alt word_le_nat_alt unsigned_ucast_eq take_bit_nat_eq_self)
  ultimately have "leaf_read src (length pre) r fl (CSimple d) (length pre + (1 + length [d]))"
    using assms(1) by (intro leaf_of_simple [where d = 24]) (auto simp: bytes_needed_def Value8Bit_def Value64Bit_def
      simple_type_of_def leaf_value_def cbor_types cbor_simple_types cbor_value_get_simple_type_def)
  then show ?thesis by simp
qed

lemma be_val_put:
  "be_val (put16 a) = ucast a" "be_val (put32 b) = ucast b"
proof -
  have "put16 a = drop 6 (put64 (ucast a))" "put32 b = drop 4 (put64 (ucast b))"
    by (auto simp: put16_def put32_def put64_def intro!: bit_word_eqI simp: bit_simps)
  moreover have "take_bit 16 (ucast a :: u64) = ucast a" "take_bit 32 (ucast b :: u64) = ucast b"
    using bit_imp_le_length [of a] bit_imp_le_length [of b] by (auto intro!: bit_word_eqI simp: bit_simps)
  ultimately show "be_val (put16 a) = ucast a" "be_val (put32 b) = ucast b"
    by (simp_all add: be_val_put64)
qed

lemma leaf_float:
  assumes src: "src = pre @ float_bytes t v @ post"
  shows "leaf_read src (length pre) r fl (norm_item (CFloating t v)) (length (pre @ float_bytes t v))"
proof (cases t)
  case CborHalfFloatType
  have "length (put16 x) = 2" "put16 x \<noteq> []" for x by (simp_all add: put16_def)
  moreover have "number_extra 25 (put16 (ucast v)) = ucast v"
    by (auto simp: number_extra_def put16_def [of "ucast v"]) (simp add: put16_def [symmetric] be_val_put)
  ultimately have "leaf_read src (length pre) r fl (norm_item (CFloating t v)) (length pre + (1 + length (put16 (ucast v))))"
    using src CborHalfFloatType by (intro leaf_of_simple [where d = 25]) (auto simp: bytes_needed_def Value8Bit_def Value64Bit_def
      simple_type_of_def leaf_value_def cbor_types cbor_simple_types cbor_value_get_half_float_def)
  then show ?thesis using CborHalfFloatType by simp
next
  case CborFloatType
  have l: "length (put32 x) = 4" "put32 x \<noteq> []" for x by (simp_all add: put32_def)
  then have "leaf_read src (length pre) r fl (norm_item (CFloating t v)) (length pre + (1 + length (put32 (ucast v))))"
    using src CborFloatType by (intro leaf_of_simple [where d = 26]) (auto simp: bytes_needed_def Value8Bit_def Value64Bit_def
      simple_type_of_def leaf_value_def cbor_types cbor_simple_types cbor_value_get_float_def be_val_put)
  then show ?thesis using CborFloatType by simp
next
  case CborDoubleType
  have l: "length (put64 x) = 8" "put64 x \<noteq> []" for x by (simp_all add: put64_def)
  then have "leaf_read src (length pre) r fl (norm_item (CFloating t v)) (length pre + (1 + length (put64 v)))"
    using src CborDoubleType by (intro leaf_of_simple [where d = 27]) (auto simp: bytes_needed_def Value8Bit_def Value64Bit_def
      simple_type_of_def leaf_value_def cbor_types cbor_simple_types cbor_value_get_double_def be_val_put64)
  then show ?thesis using CborDoubleType by simp
qed

section \<open>Strings\<close>

text \<open>An iterator on a string of known length with the bytes \<open>s\<close>.\<close>

definition on_string :: "bytes \<Rightarrow> u8 \<Rightarrow> bytes \<Rightarrow> nat \<Rightarrow> cbor_value \<Rightarrow> bool" where
  "on_string src m s p' it \<longleftrightarrow> (\<exists>pre post. src = pre @ (head_bytes (word_of_nat (length s)) (shifted m) @ s) @ post \<and>
     v_ptr it = length pre \<and> p' = length pre + length (head_bytes (word_of_nat (length s)) (shifted m) @ s) \<and>
     v_type it = shifted m \<and> \<not> has_flag UnknownLength it \<and> length s < 2 ^ 31 \<and> (m = 2 \<or> m = 3))"

lemma chunk_size_of_string:
  assumes src: "src = pre @ (head_bytes (word_of_nat (length s)) (shifted m) @ s) @ post" and it: "v_ptr it = length pre"
      "v_type it = shifted m" "has_flag BeforeFirstStringChunk it" and len: "length s < 2 ^ 31" and m: "m = 2 \<or> m = 3"
  shows "get_string_chunk_size src it =
    Some (Inr (length (head_bytes (word_of_nat (length s)) (shifted m)), word_of_nat (length s)))"
proof -
  define ui :: u64 where "ui = word_of_nat (length s)"
  have ui: "ucast ui = (word_of_nat (length s) :: u32)" "ucast (word_of_nat (length s) :: u32) = ui"
    using len by (simp_all add: ui_def word_unat_eq_iff unsigned_ucast_eq unsigned_of_nat take_bit_nat_eq_self)
  obtain d payload where h: "head_bytes ui (shifted m) = (shifted m + d) # payload" "d \<le> Value64Bit"
      "length payload = bytes_needed d" "payload = [] \<longrightarrow> d < 24 \<and> ui = ucast d" "payload \<noteq> [] \<longrightarrow> d \<ge> 24 \<and> be_val payload = ui"
    by (rule head_bytes_form [of ui "shifted m"]) blast
  have m8: "m < 8" using m by auto
  have d32: "d < 32" using h(2) by (simp add: Value64Bit_def word_le_nat_alt word_less_nat_alt)
  note parts = descriptor_parts(1, 2) [OF m8 d32]
  have src': "src = pre @ ((shifted m + d) # payload @ s) @ post" using src h(1) by (simp add: ui_def)
  have nb: "shifted m + d \<noteq> BreakByte"
  proof
    assume "shifted m + d = BreakByte"
    then have "shifted m = BreakByte AND MajorTypeMask" using parts by simp
    then show False using m by (auto simp: shifted_def BreakByte_def MajorTypeMask_def)
  qed
  have r: "read_bytes_unchecked src it 0 1 = Some [shifted m + d]" "can_read_bytes src it 1"
    "read_bytes_unchecked src it 1 (length payload) = Some payload" "can_read_bytes src it (1 + length payload)"
    using reads [OF src' it(1), of 0 1] reads [OF src' it(1), of 1 "length payload"] reads [OF src' it(1), of 0 "1 + length payload"]
    by simp_all
  have "get_string_chunk_size src it = Some (Inr (1 + length payload, ucast ui))"
  proof (cases "payload = []")
    case True
    then have d: "d < Value8Bit" "ui = ucast d" using h by (simp_all add: Value8Bit_def)
    have "ucast (ucast d :: u64) = (ucast d :: u32)" by (auto intro!: bit_word_eqI simp: bit_simps dest: bit_imp_le_length)
    then show ?thesis using r it parts nb d True by (simp add: get_string_chunk_size_def Let_def del: One_nat_def)
  next
    case False
    then have d: "\<not> d < Value8Bit" "\<not> d > Value64Bit" "be_val payload = ui" using h by (simp_all add: Value8Bit_def not_less)
    then show ?thesis using r it parts nb h(3) ui by (simp add: get_string_chunk_size_def Let_def del: One_nat_def)
  qed
  then show ?thesis using h(1) ui(1) by (simp add: ui_def)
qed

definition after_string :: "nat \<Rightarrow> cbor_value \<Rightarrow> cbor_value" where
  "after_string p' it = it\<lparr>v_ptr := p', v_flags := (v_flags it OR 0x0c) AND NOT 4\<rparr>"

lemma chunk_of_string:
  assumes "on_string src m s p' it"
  shows "get_string_chunk src (cbor_value_begin_string_iteration it) = Some (Inr s, after_string p' it)"
    "get_string_chunk src (after_string p' it) = Some (Inl CborErrorNoMoreStringChunks, after_string p' it)"
proof -
  obtain pre post where src: "src = pre @ (head_bytes (word_of_nat (length s)) (shifted m) @ s) @ post"
    and it: "v_ptr it = length pre" "v_type it = shifted m" "\<not> has_flag UnknownLength it" and len: "length s < 2 ^ 31"
    and m: "m = 2 \<or> m = 3" and p': "p' = length pre + length (head_bytes (word_of_nat (length s)) (shifted m) @ s)"
    using assms unfolding on_string_def by blast
  define h where "h = head_bytes (word_of_nat (length s)) (shifted m)"
  define b where "b = set_flag (IteratingStringChunks OR BeforeFirstStringChunk) it"
  have b: "cbor_value_begin_string_iteration it = b"
    using it(3) by (simp add: cbor_value_begin_string_iteration_def b_def cbor_value_is_length_known_def flag_simps cbor_flags)
  have "get_string_chunk_size src b = Some (Inr (length h, word_of_nat (length s)))"
    unfolding h_def using chunk_size_of_string [OF src _ _ _ len m, of b] it by (simp add: b_def flag_simps cbor_flags)
  moreover have "transfer_string src (length h) (length s) b = Some (Inr s, b\<lparr>v_ptr := p'\<rparr>)"
  proof -
    have v: "v_ptr (advance_bytes (length h) b) = length (pre @ h)" by (simp add: advance_bytes_def b_def set_flag_def it)
    have "src = (pre @ h) @ s @ post" using src h_def by simp
    from reads [OF this v, of 0 "length s"] show ?thesis
      by (simp add: transfer_string_def Let_def) (simp add: advance_bytes_def b_def set_flag_def it p' h_def add.assoc)
  qed
  moreover have "unat (word_of_nat (length s) :: u32) = length s" using len by (simp add: unsigned_of_nat take_bit_nat_eq_self)
  ultimately show "get_string_chunk src (cbor_value_begin_string_iteration it) = Some (Inr s, after_string p' it)"
    by (simp add: b get_string_chunk_def) (simp add: b_def set_flag_def clear_flag_def after_string_def cbor_flags)
  show "get_string_chunk src (after_string p' it) = Some (Inl CborErrorNoMoreStringChunks, after_string p' it)"
    using it(3) by (simp add: get_string_chunk_def get_string_chunk_size_def cbor_value_is_length_known_def after_string_def
        flag_simps cbor_flags)
qed

lemma iterate_string:
  assumes "on_string src m s p' it"
  shows "iterate_string_chunks src func buflen mem it =
    Option.bind (if buflen \<ge> length s then func 0 s mem else Some (False, mem)) (\<lambda>(ok, mem1).
    Option.bind (if ok \<and> buflen > length s then func (length s) [0] mem1 else Some (ok, mem1)) (\<lambda>(ok2, mem2).
    Option.bind (preparse_next_value src (after_string p' it)) (\<lambda>(err, it2).
      Some (err, \<lparr>ck_result = ok2, ck_total = length s, ck_mem = mem2\<rparr>, it2))))"
proof -
  note ch = chunk_of_string [OF assms]
  have len: "length s < 2 ^ 31" "\<not> has_flag UnknownLength (after_string p' it)"
    using assms by (auto simp: on_string_def after_string_def flag_simps cbor_flags)
  have stop: "chunk_loop src func buflen k (after_string p' it) = Some (CborNoError, k, after_string p' it)" for k
    by (subst chunk_loop.simps) (simp add: ch)
  have "chunk_loop src func buflen \<lparr>ck_result = True, ck_total = 0, ck_mem = mem\<rparr> (cbor_value_begin_string_iteration it) =
    Option.bind (if buflen \<ge> length s then func 0 s mem else Some (False, mem)) (\<lambda>(ok, mem1).
      Some (CborNoError, \<lparr>ck_result = ok, ck_total = length s, ck_mem = mem1\<rparr>, after_string p' it))"
    using len(1) by (subst chunk_loop.simps) (simp add: ch stop)
  then show ?thesis
    using len(2) by (auto simp: iterate_string_chunks_def cbor_value_finish_string_iteration_def cbor_value_is_length_known_def
        split: prod.splits Option.bind_splits)
qed

lemma copy_string_measures:
  assumes "on_string src m s p' it" "preparse_next_value src (after_string p' it) = Some (CborNoError, it2)"
  shows "cbor_value_copy_string src None (2 ^ 32 - 1) it = Some (CborNoError, length s, [], it2)"
  using assms by (auto simp: cbor_value_copy_string_def iterate_string iterate_noop_def on_string_def)

lemma copy_string_copies:
  assumes "on_string src m s p' it" "preparse_next_value src (after_string p' it) = Some (CborNoError, it2)"
    and "length block = length s + 1"
  shows "cbor_value_copy_string src (Some block) (length s + 1) it = Some (CborNoError, length s, s @ [0], it2)"
  using assms by (simp add: cbor_value_copy_string_def iterate_string iterate_memcpy_def memcpy_to_def blit_def)

lemma decode_string_reads:
  assumes "on_string src m s p' it" "preparse_next_value src (after_string p' it) = Some (CborNoError, it2)"
    and "\<And>n. \<exists>block. malloc n = Some block \<and> length block = n"
  shows "decode_string malloc src it = Some (s, it2)"
proof -
  obtain block where b: "malloc (length s + 1) = Some block" "length block = length s + 1" using assms(3) by blast
  have "(length s + 1) mod 2 ^ 32 = length s + 1" using assms(1) by (auto simp: on_string_def)
  then show ?thesis
    using copy_string_measures [OF assms(1, 2)] copy_string_copies [OF assms(1, 2) b(2)] b
    by (simp add: decode_string_def cbor_value_dup_string_def)
qed

section \<open>The next value\<close>

definition after_item :: "cbor_value \<Rightarrow> nat \<Rightarrow> u32 \<Rightarrow> u8 \<Rightarrow> bool" where
  "after_item X p r fl \<longleftrightarrow> v_ptr X = p \<and> v_remaining X = r \<and> v_flags X AND 0x60 = fl AND 0x60 \<and> v_type X \<noteq> CborTagType"

lemma next_end:
  assumes "after_item X p 1 fl"
  obtains E where "preparse_next_value src X = Some (CborNoError, E)" "v_ptr E = p" "v_remaining E = 0" "\<not> has_flag UnknownLength E"
  using assms by (force simp: after_item_def preparse_next_value_def Let_def UINT32_MAX_def flag_simps cbor_flags)

lemma next_not_end:
  assumes "after_item X p r fl" "r \<noteq> 1" "r \<noteq> 0"
  obtains Y where "preparse_next_value src X = preparse_next_value_nodecrement src Y"
    "after_item Y p (if r = UINT32_MAX then r else r - 1) (fl XOR NextIsMapKey)"
proof
  let ?X = "if r \<noteq> UINT32_MAX then X\<lparr>v_remaining := r - 1\<rparr> else X"
  show "preparse_next_value src X = preparse_next_value_nodecrement src (?X\<lparr>v_flags := v_flags X XOR NextIsMapKey\<rparr>)"
    using assms by (auto simp: preparse_next_value_def after_item_def Let_def)
  show "after_item (?X\<lparr>v_flags := v_flags X XOR NextIsMapKey\<rparr>) p (if r = UINT32_MAX then r else r - 1) (fl XOR NextIsMapKey)"
    using assms(1) by (auto simp: after_item_def bit.conj_xor_distrib2)
qed

lemma value_not_break:
  assumes "preparse_value src it = Some (CborNoError, it')"
  shows "can_read_bytes src it 1" "\<not> at_break src it"
proof -
  show 1: "can_read_bytes src it 1"
    using assms by (auto simp: preparse_value_def Let_def split: if_splits)
  show "\<not> at_break src it"
  proof
    assume "at_break src it"
    then have "read_bytes_unchecked src it 0 1 = Some [0xff]" by (simp add: at_break_def BreakByte_def)
    then have "\<exists>x. preparse_value src it = Some (CborErrorUnexpectedBreak, x)"
      using 1 by (simp add: preparse_value_def Let_def MajorTypeMask_def SmallValueMask_def Value64Bit_def IndefiniteLength_def
          is_fixed_type_def cbor_types)
    then show False using assms by simp
  qed
qed

lemma nodecrement_is_value:
  assumes y: "v_ptr Y = p" "v_remaining Y = r" "v_flags Y AND 0x60 = fl AND 0x60"
    and v: "preparse_value src (raw p r (fl AND 0x60)) = Some (CborNoError, it)"
  shows "preparse_next_value_nodecrement src Y = Some (CborNoError, it)"
proof -
  have "can_read_bytes src Y 1" "\<not> at_break src Y"
    using value_not_break [OF v] y(1) by (simp_all add: can_read_fits at_break_def read_bytes_unchecked_def)
  then show ?thesis
    using v preparse_value_raw [of src Y] y by (simp add: preparse_next_value_nodecrement_def)
qed

lemma nodecrement_value:
  assumes "after_item Y p r fl" "preparse_value src (raw p r (fl AND 0x60)) = Some (CborNoError, it)"
  shows "preparse_next_value_nodecrement src Y = Some (CborNoError, it)"
  using nodecrement_is_value [OF _ _ _ assms(2)] assms(1) by (simp add: after_item_def)

lemma nodecrement_break:
  assumes "after_item Y p UINT32_MAX fl" "src = pre @ BreakByte # post" "p = length pre" "fl AND 0x60 \<noteq> 0x60"
  obtains E where "preparse_next_value_nodecrement src Y = Some (CborNoError, E)" "v_ptr E = p" "v_remaining E = 0"
    "has_flag UnknownLength E"
proof -
  have src: "src = pre @ [BreakByte] @ post" using assms(2) by simp
  have y: "v_ptr Y = length pre" "v_remaining Y = UINT32_MAX" "v_flags Y AND 0x60 = fl AND 0x60" "v_type Y \<noteq> CborTagType"
    using assms(1, 3) by (simp_all add: after_item_def)
  have "at_break src Y" using reads [OF src y(1), of 0 1] by (simp add: at_break_def)
  moreover have "\<not> (has_flag ContainerIsMap Y \<and> has_flag NextIsMapKey Y)"
  proof
    assume a: "has_flag ContainerIsMap Y \<and> has_flag NextIsMapKey Y"
    have "v_flags Y AND 0x60 = 0x60"
    proof (rule bit_word_eqI)
      fix n :: nat assume "n < LENGTH(8)"
      then consider "n = 0" | "n = 1" | "n = 2" | "n = 3" | "n = 4" | "n = 5" | "n = 6" | "n = 7" by fastforce
      moreover have "bit (v_flags Y) 5" "bit (v_flags Y) 6"
        using a bit_iff_and_push_bit_not_eq_0 [of "v_flags Y" 5] bit_iff_and_push_bit_not_eq_0 [of "v_flags Y" 6]
        by (simp_all add: has_flag_def cbor_flags)
      ultimately show "bit (v_flags Y AND 0x60) n = bit (0x60 :: u8) n"
        by cases (simp_all add: bit_and_iff)
    qed
    then show False using y(3) assms(4) by simp
  qed
  ultimately show thesis
    using y assms(3) by (intro that [of "set_flag UnknownLength (Y\<lparr>v_type := CborInvalidType, v_remaining := 0\<rparr>)"]) (auto simp: preparse_next_value_nodecrement_def flag_simps cbor_flags bit.disj_conj_distrib2)
qed

end
