(* ===== verification/CborTrip.thy ===== *)
theory CborTrip
  imports CborRead
begin

text \<open>
  The parser reads back what the encoder writes: by induction over sequences, containers and tags, the
  client of CborRead recovers every readable item from its encoding.
\<close>

section \<open>Sequences\<close>

fun cost_item :: "cbor_item \<Rightarrow> nat" where
  "cost_item (CTag t i) = Suc (cost_item i)"
| "cost_item (CArray d xs) = 2 + sum_list (map (\<lambda>x. Suc (cost_item x)) xs)"
| "cost_item (CMap d kvs) = 2 + sum_list (map (\<lambda>(k, v). Suc (cost_item k) + Suc (cost_item v)) kvs)"
| "cost_item _ = 1"

definition cost_seq :: "cbor_item list \<Rightarrow> nat" where
  "cost_seq xs = Suc (sum_list (map (\<lambda>x. Suc (cost_item x)) xs))"

definition reads_item :: "(nat \<Rightarrow> bytes option) \<Rightarrow> bytes \<Rightarrow> nat \<Rightarrow> u32 \<Rightarrow> u8 \<Rightarrow> cbor_item \<Rightarrow> nat \<Rightarrow> nat \<Rightarrow> bool" where
  "reads_item malloc src p r fl i p' c \<longleftrightarrow> (\<exists>it X. preparse_value src (raw p r (fl AND 0x60)) = Some (CborNoError, it) \<and>
     v_remaining it = r \<and> after_item X p' r fl \<and>
     (\<forall>it2 n. n \<ge> c \<longrightarrow> preparse_next_value src X = Some (CborNoError, it2) \<longrightarrow> decode_item malloc src n it = Some (i, it2)))"

definition readable_at :: "(nat \<Rightarrow> bytes option) \<Rightarrow> cbor_item \<Rightarrow> bool" where
  "readable_at malloc i \<longleftrightarrow> (\<forall>src pre post r fl. src = pre @ item_bytes i @ post \<longrightarrow> r \<noteq> 0 \<longrightarrow>
     reads_item malloc src (length pre) r fl (norm_item i) (length (pre @ item_bytes i)) (cost_item i))"

text \<open>What is left of a container: items up to the count, or up to a break after complete pairs.\<close>

definition seq_left :: "bool \<Rightarrow> u32 \<Rightarrow> u8 \<Rightarrow> 'a list \<Rightarrow> bytes \<Rightarrow> bool" where
  "seq_left definite r fl xs post \<longleftrightarrow>
     (if definite then xs \<noteq> [] \<and> unat r = length xs \<and> r \<noteq> UINT32_MAX
      else r = UINT32_MAX \<and> (\<exists>rest. post = BreakByte # rest) \<and>
        (if even (length xs) then fl else fl XOR NextIsMapKey) AND 0x60 \<noteq> 0x60)"

lemma seq_reads:
  assumes "\<forall>x \<in> set xs. readable_at malloc x"
    and "src = pre @ concat (map item_bytes xs) @ post" "seq_left definite r fl xs post" "after_item Y (length pre) r fl"
  shows "\<exists>it E. preparse_next_value_nodecrement src Y = Some (CborNoError, it) \<and>
    (\<forall>n \<ge> cost_seq xs. decode_seq malloc src n it = Some (map norm_item xs, E)) \<and>
    v_ptr E = length (pre @ concat (map item_bytes xs)) \<and> v_remaining E = 0 \<and> has_flag UnknownLength E = (\<not> definite)"
  using assms
proof (induction xs arbitrary: pre r fl Y)
  case Nil
  then obtain rest where rest: "post = BreakByte # rest" "\<not> definite" "r = UINT32_MAX" "fl AND 0x60 \<noteq> 0x60"
    by (auto simp: seq_left_def split: if_splits)
  then obtain E where E: "preparse_next_value_nodecrement src Y = Some (CborNoError, E)" "v_ptr E = length pre" "v_remaining E = 0"
    "has_flag UnknownLength E"
    using nodecrement_break [of Y "length pre" fl src pre rest] Nil by auto
  have "decode_seq malloc src n E = Some ([], E)" if "n \<ge> cost_seq []" for n
    using that E(3) by (cases n) (auto simp: cost_seq_def cbor_value_at_end_def)
  then show ?case using E rest(2) by auto
next
  case (Cons x xs)
  have r0: "r \<noteq> 0" using Cons.prems(3) by (auto simp: seq_left_def UINT32_MAX_def split: if_splits)
  have "src = pre @ item_bytes x @ (concat (map item_bytes xs) @ post)" using Cons.prems(2) by simp
  with Cons.prems(1) r0 have "reads_item malloc src (length pre) r fl (norm_item x) (length (pre @ item_bytes x)) (cost_item x)"
    unfolding readable_at_def by simp
  then obtain it X where it: "preparse_value src (raw (length pre) r (fl AND 0x60)) = Some (CborNoError, it)" "v_remaining it = r"
    and X: "after_item X (length (pre @ item_bytes x)) r fl"
    and dec: "\<And>it2 n. n \<ge> cost_item x \<Longrightarrow> preparse_next_value src X = Some (CborNoError, it2) \<Longrightarrow>
      decode_item malloc src n it = Some (norm_item x, it2)"
    unfolding reads_item_def by blast
  have start: "preparse_next_value_nodecrement src Y = Some (CborNoError, it)"
    by (rule nodecrement_value [OF Cons.prems(4) it(1)])
  have "\<exists>it2 E. preparse_next_value src X = Some (CborNoError, it2) \<and>
    (\<forall>n \<ge> cost_seq xs. decode_seq malloc src n it2 = Some (map norm_item xs, E)) \<and>
    v_ptr E = length (pre @ concat (map item_bytes (x # xs))) \<and> v_remaining E = 0 \<and> has_flag UnknownLength E = (\<not> definite)"
  proof (cases "definite \<and> xs = []")
    case True
    then have "r = 1" using Cons.prems(3) by (simp add: seq_left_def word_unat_eq_iff)
    then obtain E where E: "preparse_next_value src X = Some (CborNoError, E)" "v_ptr E = length (pre @ item_bytes x)"
        "v_remaining E = 0" "\<not> has_flag UnknownLength E"
      using next_end X by blast
    have "decode_seq malloc src n E = Some ([], E)" if "n \<ge> cost_seq []" for n
      using that E(3) by (cases n) (auto simp: cost_seq_def cbor_value_at_end_def)
    then show ?thesis using E True by auto
  next
    case False
    then have r1: "r \<noteq> 1" using Cons.prems(3) by (auto simp: seq_left_def UINT32_MAX_def split: if_splits)
    obtain Y' where Y': "preparse_next_value src X = preparse_next_value_nodecrement src Y'"
      "after_item Y' (length (pre @ item_bytes x)) (if r = UINT32_MAX then r else r - 1) (fl XOR NextIsMapKey)"
      using next_not_end [OF X r1 r0] by blast
    have "r - 1 \<noteq> UINT32_MAX" using r0 by (auto simp: UINT32_MAX_def diff_eq_eq)
    then have "seq_left definite (if r = UINT32_MAX then r else r - 1) (fl XOR NextIsMapKey) xs post"
      using Cons.prems(3) False r0 by (auto simp: seq_left_def xor.assoc unat_minus_one split: if_splits)
    with Cons.IH [of "pre @ item_bytes x", OF _ _ _ Y'(2)] Cons.prems(1, 2) show ?thesis
      unfolding Y'(1) by simp
  qed
  then obtain it2 E where E: "preparse_next_value src X = Some (CborNoError, it2)"
    "\<And>n. n \<ge> cost_seq xs \<Longrightarrow> decode_seq malloc src n it2 = Some (map norm_item xs, E)"
    "v_ptr E = length (pre @ concat (map item_bytes (x # xs)))" "v_remaining E = 0" "has_flag UnknownLength E = (\<not> definite)"
    by blast
  have "decode_seq malloc src n it = Some (map norm_item (x # xs), E)" if "n \<ge> cost_seq (x # xs)" for n
    using that E(2) dec [OF _ E(1)] it(2) r0 by (cases n) (auto simp: cost_seq_def cbor_value_at_end_def)
  then show ?case using start E by blast
qed

section \<open>Containers\<close>

definition body :: "bool \<Rightarrow> bytes \<Rightarrow> bytes" where
  "body definite bs = (if definite then bs else bs @ [BreakByte])"

definition header :: "bool \<Rightarrow> u8 \<Rightarrow> nat \<Rightarrow> bytes" where
  "header definite m n = (if definite then head_bytes (word_of_nat n) (shifted m) else [shifted m + IndefiniteLength])"

lemma container_bytes_parts: "container_bytes definite m n bs = header definite m n @ body definite bs"
  by (simp add: container_bytes_def header_def body_def)

text \<open>An iterator on a container with \<open>n\<close> elements or pairs whose contents start at \<open>p'\<close>.\<close>

definition on_container :: "bytes \<Rightarrow> bool \<Rightarrow> u8 \<Rightarrow> nat \<Rightarrow> nat \<Rightarrow> cbor_value \<Rightarrow> bool" where
  "on_container src definite m n p' it \<longleftrightarrow> v_type it = shifted m \<and> has_flag UnknownLength it = (\<not> definite) \<and>
     (if definite then extract_number_and_advance src it = Some (word_of_nat n, it\<lparr>v_ptr := p'\<rparr>) else v_ptr it + 1 = p')"

lemma on_container_header:
  assumes src: "src = pre @ header definite m n @ post" and m: "m = 4 \<or> m = 5"
  obtains it where "preparse_value src (raw (length pre) r (fl AND 0x60)) = Some (CborNoError, it)"
    "on_container src definite m n (length (pre @ header definite m n)) it" "v_ptr it = length pre" "v_remaining it = r"
    "v_flags it AND 0x60 = fl AND 0x60"
proof (cases definite)
  case True
  have m7: "m < 7" "m \<noteq> 1" using m by auto
  have "src = pre @ head_bytes (word_of_nat n) (shifted m) @ post" using src True by (simp add: header_def)
  then obtain it where "preparse_value src (raw (length pre) r (fl AND 0x60)) = Some (CborNoError, it)"
    "on_number src (shifted m) (word_of_nat n) (length (pre @ head_bytes (word_of_nat n) (shifted m))) it"
    "v_ptr it = length pre" "v_remaining it = r" "v_flags it AND 0x60 = fl AND 0x60" "\<not> has_flag UnknownLength it"
    using on_number_head [of src pre "word_of_nat n" m post "raw (length pre) r (fl AND 0x60)"] m7 by (auto simp: and.assoc)
  then show thesis using True by (intro that [of it]) (auto simp: on_container_def on_number_def header_def)
next
  case False
  define it where "it = set_flag UnknownLength ((raw (length pre) r (fl AND 0x60))\<lparr>v_type := shifted m, v_extra := 31\<rparr>)"
  have src': "src = pre @ [shifted m + 31] @ post" using src False by (simp add: header_def IndefiniteLength_def)
  have m8: "m < 8" using m by auto
  have "preparse_value src (raw (length pre) r (fl AND 0x60)) = Some (CborNoError, it)"
    using reads [OF src', of "raw (length pre) r (fl AND 0x60)" 0 1] descriptor_parts [OF m8, of 31] m
    by (auto simp: preparse_value_def Let_def Value64Bit_def IndefiniteLength_def is_fixed_type_def it_def raw_def
        keep_flags and.assoc shifted_def cbor_types)
  then show thesis
    using False by (intro that [of it]) (auto simp: on_container_def it_def flag_simps cbor_flags header_def)
qed

lemma enter_definite:
  assumes "on_container src True m n p' it" "m = 4 \<or> m = 5" "n < 2 ^ 31"
  shows "cbor_value_enter_container src it =
    (let r = it\<lparr>v_ptr := p', v_remaining := word_of_nat (if m = 5 then 2 * n else n)\<rparr> in
     if n = 0 then Some (CborNoError, r\<lparr>v_type := CborInvalidType\<rparr>)
     else preparse_next_value_nodecrement src (r\<lparr>v_flags := shifted m AND ContainerIsMap\<rparr>))"
proof -
  have u: "unat (word_of_nat n :: u32) = n" "unat (word_of_nat n :: u64) = n"
    using assms(3) by (simp_all add: unsigned_of_nat take_bit_nat_eq_self)
  then have "ucast (word_of_nat n :: u64) = (word_of_nat n :: u32)" "ucast (word_of_nat n :: u32) = (word_of_nat n :: u64)"
    "word_of_nat n \<noteq> (ucast UINT32_MAX :: u64)" "\<not> (word_of_nat n :: u32) > UINT32_MAX div 2" "(word_of_nat n :: u64) = 0 \<longleftrightarrow> n = 0"
    using assms(3) by (auto simp: word_unat_eq_iff unsigned_ucast_eq take_bit_nat_eq_self UINT32_MAX_def word_less_nat_alt
        unat_div)
  then show ?thesis
    using assms by (auto simp: cbor_value_enter_container_def on_container_def Let_def cbor_types shifted_def mult.commute)
qed

text \<open>The number of elements a container counts.\<close>

definition elements :: "u8 \<Rightarrow> nat \<Rightarrow> nat" where
  "elements m n = (if m = MapType then 2 * n else n)"

lemma contents_read:
  assumes el: "\<forall>x \<in> set es. readable_at malloc x" and n: "length es = elements m n" "n < 2 ^ 31" and m: "m = 4 \<or> m = 5"
    and src: "src = pre @ body definite (concat (map item_bytes es)) @ post" and it: "on_container src definite m n (length pre) it"
  shows "\<exists>it0 E. cbor_value_enter_container src it = Some (CborNoError, it0) \<and>
    (\<forall>k \<ge> cost_seq es. decode_seq malloc src k it0 = Some (map norm_item es, E)) \<and>
    v_ptr E = length (pre @ concat (map item_bytes es)) \<and> has_flag UnknownLength E = (\<not> definite)"
proof -
  define fl where "fl = shifted m AND ContainerIsMap"
  have fl: "fl = (if m = 5 then 0x20 else 0)" "shifted m \<noteq> CborTagType"
    using m by (auto simp: fl_def shifted_def ContainerIsMap_def CborTagType_def)
  have len: "length es < 2 ^ 32 - 1" using n by (auto simp: elements_def split: if_splits)
  consider (empty) "definite" "n = 0" | (counted) "definite" "n \<noteq> 0" | (open_end) "\<not> definite" by blast
  then show ?thesis
  proof cases
    case empty
    then have on: "on_container src True m 0 (length pre) it" using it by simp
    define E where "E = it\<lparr>v_ptr := length pre, v_remaining := 0, v_type := CborInvalidType\<rparr>"
    have "es = []" using n empty by (simp add: elements_def split: if_splits)
    moreover have "cbor_value_enter_container src it = Some (CborNoError, E)"
      using enter_definite [OF on m] by (simp add: E_def Let_def cong: if_cong)
    moreover have "decode_seq malloc src k E = Some ([], E)" if "k \<ge> cost_seq []" for k
      using that by (cases k) (auto simp: cost_seq_def cbor_value_at_end_def E_def)
    moreover have "has_flag UnknownLength E = (\<not> definite)" using on empty by (simp add: E_def on_container_def flag_simps)
    ultimately show ?thesis by (auto simp: E_def)
  next
    case counted
    then have on: "on_container src True m n (length pre) it" using it by simp
    define r :: u32 where "r = word_of_nat (length es)"
    define Y where "Y = it\<lparr>v_ptr := length pre, v_remaining := r, v_flags := fl\<rparr>"
    have "cbor_value_enter_container src it = preparse_next_value_nodecrement src Y"
      using enter_definite [OF on m n(2)] counted n(1) by (simp add: Y_def r_def fl_def Let_def elements_def MapType_def)
    moreover have "seq_left definite r fl es post"
      using len n(1) counted by (auto simp: seq_left_def r_def unsigned_of_nat take_bit_nat_eq_self UINT32_MAX_def word_unat_eq_iff
          elements_def split: if_splits)
    moreover have "after_item Y (length pre) r fl" using on fl(2) by (simp add: Y_def after_item_def on_container_def)
    moreover have "src = pre @ concat (map item_bytes es) @ post" using src counted by (simp add: body_def)
    ultimately show ?thesis using seq_reads [OF el, of src pre post definite r fl Y] by auto
  next
    case open_end
    define Y where "Y = it\<lparr>v_ptr := length pre, v_remaining := UINT32_MAX, v_flags := fl\<rparr>"
    have "cbor_value_enter_container src it = preparse_next_value_nodecrement src Y"
      using it open_end by (cases it) (auto simp: cbor_value_enter_container_def on_container_def Y_def fl_def advance_bytes_def
          has_flag_def Let_def)
    moreover have "seq_left definite UINT32_MAX fl es (BreakByte # post)"
      using n(1) m open_end by (auto simp: seq_left_def fl elements_def MapType_def NextIsMapKey_def)
    moreover have "after_item Y (length pre) UINT32_MAX fl" using it fl(2) by (simp add: Y_def after_item_def on_container_def)
    moreover have "src = pre @ concat (map item_bytes es) @ (BreakByte # post)" using src open_end by (simp add: body_def)
    ultimately show ?thesis using seq_reads [OF el, of src pre "BreakByte # post" definite UINT32_MAX fl Y] by auto
  qed
qed

lemma container_reads:
  assumes el: "\<forall>x \<in> set es. readable_at malloc x" and n: "length es = elements m n" "n < 2 ^ 31" and m: "m = 4 \<or> m = 5"
    and src: "src = pre @ container_bytes definite m n (concat (map item_bytes es)) @ post"
  shows "reads_item malloc src (length pre) r fl
    (if m = 5 then CMap definite (pairs (map norm_item es)) else CArray definite (map norm_item es))
    (length (pre @ container_bytes definite m n (concat (map item_bytes es)))) (Suc (cost_seq es))"
proof -
  define bs where "bs = concat (map item_bytes es)"
  have src1: "src = pre @ header definite m n @ (body definite bs @ post)"
    and src2: "src = (pre @ header definite m n) @ body definite bs @ post"
    using src by (simp_all add: container_bytes_parts bs_def)
  obtain it where it: "preparse_value src (raw (length pre) r (fl AND 0x60)) = Some (CborNoError, it)"
    "on_container src definite m n (length (pre @ header definite m n)) it" "v_ptr it = length pre" "v_remaining it = r"
    "v_flags it AND 0x60 = fl AND 0x60"
    using on_container_header [OF src1 m] by metis
  obtain it0 E where E: "cbor_value_enter_container src it = Some (CborNoError, it0)"
    "\<And>k. k \<ge> cost_seq es \<Longrightarrow> decode_seq malloc src k it0 = Some (map norm_item es, E)"
    "v_ptr E = length ((pre @ header definite m n) @ bs)" "has_flag UnknownLength E = (\<not> definite)"
    using contents_read [OF el n m src2 [unfolded bs_def] it(2)] unfolding bs_def by blast
  define X where "X = it\<lparr>v_ptr := length (pre @ container_bytes definite m n bs)\<rparr>"
  have leave: "cbor_value_leave_container src it E = preparse_next_value src X"
    using E(3, 4) by (auto simp: cbor_value_leave_container_def copy_current_position_def advance_bytes_def Let_def X_def
        container_bytes_parts body_def)
  have t: "v_type it = shifted m" "cbor_value_is_length_known it = definite"
    using it(2) by (auto simp: on_container_def cbor_value_is_length_known_def)
  then have ty: "v_type it \<noteq> CborTagType" "v_type it \<noteq> CborByteStringType" "v_type it \<noteq> CborTextStringType"
    "cbor_value_is_container it" "v_type it = CborMapType \<longleftrightarrow> m = 5"
    using m by (auto simp: shifted_def cbor_types cbor_value_is_container_def)
  have "decode_item malloc src k it = Some (if m = 5 then CMap definite (pairs (map norm_item es)) else CArray definite (map norm_item es), it2)"
    if k: "k \<ge> Suc (cost_seq es)" and X2: "preparse_next_value src X = Some (CborNoError, it2)" for k it2
  proof -
    obtain k' where "k = Suc k'" "k' \<ge> cost_seq es" using k by (cases k) auto
    then show ?thesis using ty t E(1, 2) leave X2 by (simp add: on_ok_def)
  qed
  moreover have "after_item X (length (pre @ container_bytes definite m n bs)) r fl"
    using it ty by (simp add: X_def after_item_def)
  ultimately show ?thesis unfolding reads_item_def bs_def using it(1, 4) by blast
qed

section \<open>Items\<close>

text \<open>The encoder accepts the simple value 24, but the parser refuses its bytes.\<close>

fun readable :: "cbor_item \<Rightarrow> bool" where
  "readable (CSimple v) = (v < 24 \<or> v \<ge> 32)"
| "readable (CBytes s) = (length s < 2 ^ 31)"
| "readable (CText s) = (length s < 2 ^ 31)"
| "readable (CTag t i) = readable i"
| "readable (CArray d xs) = (length xs < 2 ^ 31 \<and> (\<forall>x \<in> set xs. readable x))"
| "readable (CMap d kvs) = (length kvs < 2 ^ 31 \<and> (\<forall>(k, v) \<in> set kvs. readable k \<and> readable v))"
| "readable _ = True"

lemma readable_wf: "readable i \<Longrightarrow> wf_item i"
  by (induction i rule: readable.induct) (auto simp: HalfPrecisionFloat_def Break_def word_le_nat_alt word_less_nat_alt)

lemma readable_leaf:
  assumes "\<And>src pre post r fl. src = pre @ item_bytes i @ post \<Longrightarrow>
    leaf_read src (length pre) r fl (norm_item i) (length (pre @ item_bytes i))" and "cost_item i = 1"
  shows "readable_at malloc i"
  unfolding readable_at_def
proof (intro allI impI)
  fix src pre post r fl assume src: "src = pre @ item_bytes i @ post" and r: "r \<noteq> (0 :: u32)"
  from assms(1) [OF src] obtain it v where it: "preparse_value src (raw (length pre) r (fl AND 0x60)) = Some (CborNoError, it)"
     "on_number src (v_type it) v (length (pre @ item_bytes i)) it" "v_ptr it = length pre" "v_remaining it = r"
     "v_flags it AND 0x60 = (fl AND 0x60) AND 0x60" "leaf_value src it = Some (norm_item i)" "is_fixed_type (v_type it)"
     "v_type it \<noteq> CborTagType"
    unfolding leaf_read_def by blast
  define X where "X = it\<lparr>v_ptr := length (pre @ item_bytes i)\<rparr>"
  have adv: "cbor_value_advance_fixed src it = preparse_next_value src X"
    using it(2, 4, 7) r by (auto simp: cbor_value_advance_fixed_def advance_internal_def on_number_def X_def is_fixed_type_def)
  have "decode_item malloc src n it = Some (norm_item i, it2)"
    if "n \<ge> 1" "preparse_next_value src X = Some (CborNoError, it2)" for n it2
    using that it(6-8) adv by (cases n) (auto simp: is_fixed_type_def cbor_value_is_container_def on_ok_def)
  moreover have "after_item X (length (pre @ item_bytes i)) r fl"
    using it by (simp add: X_def after_item_def and.assoc)
  ultimately show "reads_item malloc src (length pre) r fl (norm_item i) (length (pre @ item_bytes i)) (cost_item i)"
    unfolding reads_item_def assms(2) using it(1, 4) by blast
qed

lemma readable_string:
  assumes malloc: "\<And>n. \<exists>block. malloc n = Some block \<and> length block = n" and len: "length s < 2 ^ 31" and m: "m = 2 \<or> m = 3"
    and src: "src = pre @ (head_bytes (word_of_nat (length s)) (shifted m) @ s) @ post"
  shows "reads_item malloc src (length pre) r fl (if m = 2 then CBytes s else CText s)
    (length (pre @ head_bytes (word_of_nat (length s)) (shifted m) @ s)) 1"
proof -
  have m7: "m < 7" "m \<noteq> 1" using m by auto
  define h where "h = head_bytes (word_of_nat (length s)) (shifted m)"
  have "src = pre @ head_bytes (word_of_nat (length s)) (shifted m) @ (s @ post)" using src by simp
  then obtain it where it: "preparse_value src (raw (length pre) r (fl AND 0x60)) = Some (CborNoError, it)"
    "v_type it = shifted m" "v_ptr it = length pre" "v_remaining it = r" "v_flags it AND 0x60 = fl AND 0x60"
    "\<not> has_flag UnknownLength it"
    using on_number_head [of src pre "word_of_nat (length s)" m "s @ post" "raw (length pre) r (fl AND 0x60)"] m7
    by (auto simp: on_number_def and.assoc)
  have on: "on_string src m s (length (pre @ h @ s)) it"
    unfolding on_string_def using src it len m by (auto simp: h_def)
  have ty: "v_type it \<noteq> CborTagType" "v_type it = CborByteStringType \<longleftrightarrow> m = 2" "v_type it = CborTextStringType \<longleftrightarrow> m = 3"
    using m it(2) by (auto simp: shifted_def cbor_types)
  have "decode_item malloc src n it = Some (if m = 2 then CBytes s else CText s, it2)"
    if "n \<ge> 1" "preparse_next_value src (after_string (length (pre @ h @ s)) it) = Some (CborNoError, it2)" for n it2
    using that decode_string_reads [OF on that(2) malloc] ty m by (cases n) auto
  moreover have "after_item (after_string (length (pre @ h @ s)) it) (length (pre @ h @ s)) r fl"
    using it(4, 5) ty(1) by (simp add: after_item_def after_string_def flag_simps)
  ultimately show ?thesis unfolding reads_item_def h_def [symmetric] using it(1, 4) by blast
qed

lemma readable_tag:
  assumes "readable_at malloc i"
  shows "readable_at malloc (CTag t i)"
  unfolding readable_at_def
proof (intro allI impI)
  fix src pre post r fl assume src: "src = pre @ item_bytes (CTag t i) @ post" and r: "r \<noteq> (0 :: u32)"
  define h where "h = head_bytes t (shifted TagType)"
  have src1: "src = pre @ h @ (item_bytes i @ post)" and src2: "src = (pre @ h) @ item_bytes i @ post"
    using src by (simp_all add: h_def)
  obtain it where it: "preparse_value src (raw (length pre) r (fl AND 0x60)) = Some (CborNoError, it)"
    "on_number src (shifted TagType) t (length (pre @ h)) it" "v_remaining it = r" "v_flags it AND 0x60 = fl AND 0x60"
    using on_number_head [OF src1 [unfolded h_def], of "raw (length pre) r (fl AND 0x60)"]
    by (auto simp: TagType_def h_def and.assoc)
  obtain it1 X where i: "preparse_value src (raw (length (pre @ h)) r (fl AND 0x60)) = Some (CborNoError, it1)"
    "after_item X (length ((pre @ h) @ item_bytes i)) r fl"
    "\<And>it2 n. n \<ge> cost_item i \<Longrightarrow> preparse_next_value src X = Some (CborNoError, it2) \<Longrightarrow>
      decode_item malloc src n it1 = Some (norm_item i, it2)"
    using assms src2 r unfolding readable_at_def reads_item_def by blast
  have ty: "v_type it = CborTagType" "cbor_value_get_tag src it = Some t"
    using it(2) by (simp_all add: on_number_def shifted_def TagType_def CborTagType_def cbor_value_get_tag_def)
  have "preparse_next_value src (it\<lparr>v_ptr := length (pre @ h)\<rparr>) = Some (CborNoError, it1)"
    using nodecrement_is_value [OF _ _ _ i(1), of "it\<lparr>v_ptr := length (pre @ h)\<rparr>"] it ty(1)
    by (simp add: preparse_next_value_def)
  then have adv: "cbor_value_advance_fixed src it = Some (CborNoError, it1)"
    using it(2, 3) r ty(1) by (simp add: cbor_value_advance_fixed_def advance_internal_def on_number_def cbor_types)
  have "decode_item malloc src n it = Some (CTag t (norm_item i), it2)"
    if "n \<ge> Suc (cost_item i)" "preparse_next_value src X = Some (CborNoError, it2)" for n it2
    using that i(3) ty adv by (cases n) (auto simp: on_ok_def)
  then show "reads_item malloc src (length pre) r fl (norm_item (CTag t i)) (length (pre @ item_bytes (CTag t i))) (cost_item (CTag t i))"
    unfolding reads_item_def using it(1, 3) i(2) by (intro exI [of _ it] exI [of _ X]) (simp add: h_def)
qed

definition flat :: "('a \<times> 'a) list \<Rightarrow> 'a list" where
  "flat kvs = concat (map (\<lambda>(k, v). [k, v]) kvs)"

lemma flat_simps [simp]: "flat [] = []" "flat ((k, v) # kvs) = k # v # flat kvs"
  by (simp_all add: flat_def)

lemma flat_facts:
  "length (flat kvs) = 2 * length kvs" "pairs (map norm_item (flat kvs)) = map (\<lambda>(k, v). (norm_item k, norm_item v)) kvs"
  "concat (map item_bytes (flat kvs)) = concat (map (\<lambda>(k, v). item_bytes k @ item_bytes v) kvs)"
  "Suc (cost_seq (flat kvs)) = cost_item (CMap d kvs)"
  by (induction kvs) (auto simp: cost_seq_def)

lemma readable_number:
  "readable_at malloc (CUint v)" "readable_at malloc (CNegative v)" "readable_at malloc (CInt v)"
proof -
  have "- v = NOT v + 1" by (rule minus_eq_not_plus_1)
  then have i: "leaf_read src (length pre) r fl (norm_item i) (length (pre @ item_bytes i))"
    if "src = pre @ item_bytes i @ post" "i = CUint v \<or> i = CNegative v \<or> i = CInt v" for src pre post r fl i
    using that leaf_int [of src pre v 0 post] leaf_int [of src pre "v - 1" 1 post] leaf_int [of src pre "NOT v" 1 post]
    by (auto simp: UnsignedIntegerType_def NegativeIntegerType_def int_bytes_def)
  show "readable_at malloc (CUint v)" "readable_at malloc (CNegative v)" "readable_at malloc (CInt v)"
    by (rule readable_leaf, rule i, assumption, simp, simp)+
qed

lemma readable_float: "readable_at malloc (CFloating t v)"
  using leaf_float by (intro readable_leaf) auto

lemma readable_named:
  "readable_at malloc (CBool b)" "readable_at malloc CNull" "readable_at malloc CUndefined"
proof -
  have i: "leaf_read src (length pre) r fl (norm_item i) (length (pre @ item_bytes i))"
    if "src = pre @ item_bytes i @ post" "i = CBool b \<or> i = CNull \<or> i = CUndefined" for src pre post r fl i
    using that leaf_short [of src pre 20 post] leaf_short [of src pre 21 post] leaf_short [of src pre 22 post]
      leaf_short [of src pre 23 post] by auto
  show "readable_at malloc (CBool b)" "readable_at malloc CNull" "readable_at malloc CUndefined"
    by (rule readable_leaf, rule i, assumption, simp, simp)+
qed

lemma readable_item:
  assumes malloc: "\<And>n. \<exists>block. malloc n = Some block \<and> length block = n"
  shows "readable i \<Longrightarrow> readable_at malloc i"
proof (induction i rule: readable.induct)
  case (1 v)
  have "leaf_read src (length pre) r fl (norm_item (CSimple v)) (length (pre @ item_bytes (CSimple v)))"
    if src: "src = pre @ item_bytes (CSimple v) @ post" for src pre post r fl
  proof (cases "v < 24")
    case True
    then have "(ucast v :: u64) < 24" by (simp add: word_less_nat_alt unsigned_ucast_eq take_bit_nat_eq_self)
    moreover have "ucast (ucast v :: u64) = v" by (auto intro!: bit_word_eqI simp: bit_simps)
    ultimately have "item_bytes (CSimple v) = [0xe0 + v]"
      by (simp add: head_bytes_def put64_def shifted_def SimpleTypesType_def add.commute)
    then show ?thesis using leaf_short [of src pre v post] src True by simp
  next
    case False
    then have v: "v \<ge> 32" using 1 by simp
    have b: "unat v < 256" using unsigned_less [of v] by simp
    then have "\<not> (ucast v :: u64) < 24" "\<not> (ucast v :: u64) > 0xff" "\<not> (ucast v :: u64) > 0xffff" "\<not> (ucast v :: u64) > 0xffffffff"
      using v by (simp_all add: word_less_nat_alt word_le_nat_alt unsigned_ucast_eq take_bit_nat_eq_self)
    moreover have "ucast (ucast v :: u64) = v" by (auto intro!: bit_word_eqI simp: bit_simps)
    ultimately have "item_bytes (CSimple v) = [0xf8, v]"
      by (simp add: head_bytes_def put64_def shifted_def SimpleTypesType_def Value8Bit_def)
    moreover have "norm_item (CSimple v) = CSimple v" using v by (auto simp: word_le_nat_alt)
    ultimately show ?thesis using leaf_long_simple [of src pre v post] src v by simp
  qed
  then show ?case by (intro readable_leaf) auto
next
  case (4 t i) then show ?case by (simp add: readable_tag)
next
  case (5 d xs)
  then show ?case
    using container_reads [of xs malloc ArrayType "length xs"] malloc
    unfolding readable_at_def by (simp add: elements_def ArrayType_def MapType_def cost_seq_def)
next
  case (6 d kvs)
  have "\<forall>x \<in> set (flat kvs). readable_at malloc x" using 6 by (fastforce simp: flat_def)
  then show ?case
    using container_reads [of "flat kvs" malloc MapType "length kvs"] malloc 6
    unfolding readable_at_def by (simp add: elements_def MapType_def flat_facts(1-3) flat_facts(4) [of kvs d, symmetric] del: cost_item.simps)
next
  case (2 s)
  then show ?case
    using readable_string [OF malloc, of s 2] unfolding readable_at_def by (simp add: ByteStringType_def)
next
  case (3 s)
  then show ?case
    using readable_string [OF malloc, of s 3] unfolding readable_at_def by (simp add: TextStringType_def)
qed (simp_all add: readable_number readable_named readable_float)

section \<open>The stream\<close>

lemma parse_reads:
  assumes "readable i" "\<And>n. \<exists>block. malloc n = Some block \<and> length block = n"
  shows "\<exists>it E. cbor_parser_init (item_bytes i @ rest) = Some (CborNoError, it) \<and>
    (\<forall>n \<ge> cost_item i. decode_item malloc (item_bytes i @ rest) n it = Some (norm_item i, E)) \<and>
    v_ptr E = length (item_bytes i) \<and> cbor_value_at_end E"
proof -
  let ?src = "item_bytes i @ rest"
  let ?it = "\<lparr>v_ptr = 0, v_remaining = 1, v_extra = 0, v_type = 0, v_flags = 0\<rparr>"
  have "reads_item malloc ?src 0 1 0 (norm_item i) (length (item_bytes i)) (cost_item i)"
    using readable_item [OF assms(2, 1)] unfolding readable_at_def by (metis append_Nil list.size(3) zero_neq_one)
  then obtain it X where it: "preparse_value ?src (raw 0 1 0) = Some (CborNoError, it)"
    "after_item X (length (item_bytes i)) 1 0"
    "\<And>it2 n. n \<ge> cost_item i \<Longrightarrow> preparse_next_value ?src X = Some (CborNoError, it2) \<Longrightarrow>
      decode_item malloc ?src n it = Some (norm_item i, it2)"
    unfolding reads_item_def by auto
  have "cbor_parser_init ?src = Some (CborNoError, it)"
    using preparse_value_raw [of ?src ?it] value_not_break(1) [OF it(1)] it(1)
    by (simp add: cbor_parser_init_def can_read_fits)
  moreover obtain E where "preparse_next_value ?src X = Some (CborNoError, E)" "v_ptr E = length (item_bytes i)" "v_remaining E = 0"
    using next_end [OF it(2)] by metis
  ultimately show ?thesis using it(3) by (auto simp: cbor_value_at_end_def)
qed

text \<open>C20: What is encoded is read back. Encode any readable item, with nested arrays, maps and tags of either
  length kind, into a buffer that is large enough, and parse what the buffer then holds up to the reported size, or
  longer: every call of the parser succeeds, the client gets the item in the form the parser
  reports it, and the parser stops exactly where the encoding ends.\<close>

theorem encoded_item_is_read_back:
  assumes "readable i" "length (item_bytes i) \<le> length b" "\<And>n. \<exists>block. malloc n = Some block \<and> length block = n"
  shows "\<exists>e m it E. encode_item wr i (cbor_encoder_init (Some (length b))) \<lparr>em_buf = b, em_w = w\<rparr> = Some (CborNoError, e, m) \<and>
    cbor_parser_init (take (cbor_encoder_get_buffer_size e) (em_buf m) @ rest) = Some (CborNoError, it) \<and>
    (\<forall>n \<ge> cost_item i. decode_item malloc (take (cbor_encoder_get_buffer_size e) (em_buf m) @ rest) n it = Some (norm_item i, E)) \<and>
    v_ptr E = cbor_encoder_get_buffer_size e \<and> cbor_value_at_end E"
proof -
  obtain err e m where "encode_item wr i (cbor_encoder_init (Some (length b))) \<lparr>em_buf = b, em_w = w\<rparr> = Some (err, e, m)"
    and t: "taken_buf e m = push_buf (length b) (item_bytes i) (Fits [])" "err = verdict oom_buf (taken_buf e m)"
      "ok_buf (length b) e m"
    by (rule encode_outcome [OF readable_wf [OF assms(1)], of wr b w])
  moreover from t assms(2) have "err = CborNoError" "take (cbor_encoder_get_buffer_size e) (em_buf m) = item_bytes i"
    "cbor_encoder_get_buffer_size e = length (item_bytes i)"
    by (auto simp: verdict_def taken_buf_def ok_buf_def cbor_encoder_get_buffer_size_def min_def split: option.splits
          if_splits dest!: arg_cong [of "take _ _" "item_bytes i" length])
  ultimately show ?thesis using parse_reads [OF assms(1) assms(3), of rest] by auto
qed

definition zeros :: "nat \<Rightarrow> bytes option" where
  "zeros n = Some (replicate n 0)"

theorem encoded_item_is_read_back_witness:
  "\<exists>e m it E. encode_item list_writer item_ex (cbor_encoder_init (Some (length (replicate 40 (0 :: u8))))) \<lparr>em_buf = replicate 40 0, em_w = []\<rparr> =
      Some (CborNoError, e, m) \<and>
    cbor_parser_init (take (cbor_encoder_get_buffer_size e) (em_buf m) @ [0xff]) = Some (CborNoError, it) \<and>
    (\<forall>n \<ge> cost_item item_ex. decode_item zeros (take (cbor_encoder_get_buffer_size e) (em_buf m) @ [0xff]) n it = Some (norm_item item_ex, E)) \<and>
    v_ptr E = cbor_encoder_get_buffer_size e \<and> cbor_value_at_end E"
  by (rule encoded_item_is_read_back) (simp_all add: item_ex_def zeros_def int_bytes_def container_bytes_def head_bytes_def put64_def)

text \<open>One simple value is written and never read. The encoder accepts the simple value 24 and
  writes F8 18, but parsing those bytes ends with the illegal-simple-type error, while the next
  values the encoder refuses (25 to 31) are not written at all.\<close>

theorem simple_24_is_written_not_read:
  "item_bytes (CSimple 24) = [0xf8, 0x18] \<and>
   cbor_encode_simple_value wr 24 e m = encode_number wr 24 0xe0 e m \<and>
   cbor_encode_simple_value wr 25 e m = Some (CborErrorIllegalSimpleType, e, m) \<and>
   map_option fst (cbor_parser_init (item_bytes (CSimple 24) @ rest)) = Some CborErrorIllegalSimpleType"
  by (simp add: cbor_encode_simple_value_def HalfPrecisionFloat_def Break_def shifted_def SimpleTypesType_def head_bytes_def
      put64_def Value8Bit_def cbor_parser_init_def preparse_value_def preparse_number_def preparse_kind_def can_read_bytes_def
      read_bytes_unchecked_def memcpy_from_def bytes_needed_def cbor_masks be_val_def NegativeIntegerType_def)

end
