(* ===== verification/CborSafe.thy ===== *)
theory CborSafe
  imports CborRead
begin

text \<open>
  Memory safety and termination of the parser on arbitrary bytes: whatever the buffer holds, no step
  reads outside it and walking over the whole value ends.
\<close>

section \<open>Iterators that may be used\<close>

text \<open>The head of the value is in the buffer, and so is the number after it.\<close>

definition headed :: "bytes \<Rightarrow> cbor_value \<Rightarrow> bool" where
  "headed src it \<longleftrightarrow> v_ptr it < length src \<and>
     (if has_flag UnknownLength it then \<not> is_fixed_type (v_type it)
      else src ! v_ptr it \<noteq> BreakByte \<and> v_ptr it + bytes_needed (src ! v_ptr it AND SmallValueMask) + 1 \<le> length src \<and>
        (has_flag IntegerValueTooLarge it \<longrightarrow>
           (if has_flag IntegerValueIs64Bit it then 8 else 4) \<le> bytes_needed (src ! v_ptr it AND SmallValueMask)))"

text \<open>Either a value follows, or this is the end, which may be a break that is still to be read.\<close>

definition usable :: "bytes \<Rightarrow> cbor_value \<Rightarrow> bool" where
  "usable src it \<longleftrightarrow> v_ptr it \<le> length src \<and>
     (if v_remaining it = 0 then has_flag UnknownLength it \<longrightarrow> v_ptr it < length src else headed src it)"

lemma fits_iff: "p \<le> length src \<Longrightarrow> fits src p n \<longleftrightarrow> p + n \<le> length src"
  by (auto simp: fits_def)

lemma read_head: "v_ptr it < length src \<Longrightarrow> read_bytes_unchecked src it 0 1 = Some [src ! v_ptr it]"
  by (simp add: read_bytes_unchecked_def memcpy_from_def take_Suc_conv_app_nth hd_drop_conv_nth flip: hd_drop_conv_nth)

lemma read_inside: "v_ptr it + off + n \<le> length src \<Longrightarrow> \<exists>b. read_bytes_unchecked src it off n = Some b \<and> length b = n"
  by (simp add: read_bytes_unchecked_def memcpy_from_def)

lemma preparse_number_total:
  assumes "v_ptr it < length src" "d \<le> Value64Bit"
  shows "\<exists>err it1. preparse_number src d it = Some (err, it1) \<and> v_ptr it1 = v_ptr it \<and> v_remaining it1 = v_remaining it \<and>
    v_type it1 = v_type it \<and>
    (err = CborNoError \<longrightarrow> v_ptr it + bytes_needed d + 1 \<le> length src \<and> v_flags it1 = v_flags it OR number_flags d)"
proof (cases "v_ptr it + bytes_needed d + 1 \<le> length src")
  case True
  obtain b where b: "read_bytes_unchecked src it 1 (bytes_needed d) = Some b" using read_inside [of it 1 "bytes_needed d" src] True by auto
  consider "d < 24" | "d = 24" | "d = 25" | "d = 26" | "d = 27"
    using descriptor_cases [OF assms(2)] by blast
  then show ?thesis
  proof cases
    case 1
    then show ?thesis using True small_descriptor [OF 1] by (simp add: preparse_number_def bytes_needed_def Value8Bit_def number_flags_def)
  qed (use True b assms in \<open>auto simp: preparse_number_def bytes_needed_def Value8Bit_def number_flags_def set_flag_def
      can_read_fits fits_iff\<close>)
next
  case False
  then have "\<not> fits src (v_ptr it) (bytes_needed d + 1)" using assms(1) by (simp add: fits_iff)
  moreover have "bytes_needed d \<noteq> 0" using False assms(1) by auto
  ultimately show ?thesis by (simp add: preparse_number_def can_read_fits)
qed

lemma preparse_kind_total:
  assumes "v_ptr it < length src"
  shows "\<exists>err it1. preparse_kind src t d it = Some (err, it1) \<and> v_ptr it1 = v_ptr it \<and> v_remaining it1 = v_remaining it \<and>
    (v_flags it1 = v_flags it \<or> v_flags it1 = v_flags it OR 4 \<or> (d = 26 \<or> d = 27) \<and> v_flags it1 = v_flags it OR 2)"
  using read_head [OF assms] read_head [of "set_flag IntegerValueTooLarge it" src] assms
  by (simp add: preparse_kind_def Let_def set_flag_def NegativeInteger_def IntegerValueTooLarge_def)

lemma preparse_value_total:
  assumes "v_ptr it \<le> length src"
  shows "\<exists>err it1. preparse_value src it = Some (err, it1) \<and> v_ptr it1 = v_ptr it \<and> v_remaining it1 = v_remaining it \<and>
    (err = CborNoError \<longrightarrow> headed src it1)"
proof (cases "v_ptr it < length src")
  case False
  then show ?thesis using assms by (simp add: preparse_value_def Let_def can_read_fits fits_iff)
next
  case True
  define d where "d = src ! v_ptr it AND SmallValueMask"
  define t where "t = src ! v_ptr it AND MajorTypeMask"
  define it1 where "it1 = it\<lparr>v_type := CborInvalidType, v_flags := v_flags it AND (ContainerIsMap OR NextIsMapKey),
    v_type := t, v_extra := ucast d\<rparr>"
  have v1: "v_ptr it1 = v_ptr it" "v_remaining it1 = v_remaining it" "v_flags it1 = v_flags it AND 0x60" "v_type it1 = t"
    by (simp_all add: it1_def keep_flags)
  have eq: "preparse_value src it =
    (if d > Value64Bit then
       if d \<noteq> IndefiniteLength then Some (if t = CborSimpleType then CborErrorUnknownType else CborErrorIllegalNumber, it1)
       else if \<not> is_fixed_type t then Some (CborNoError, set_flag UnknownLength it1)
       else Some (if t = CborSimpleType then CborErrorUnexpectedBreak else CborErrorIllegalNumber, it1)
     else Option.bind (preparse_number src d it1) (\<lambda>(err, it2).
       if err \<noteq> CborNoError then Some (err, it2) else preparse_kind src t d it2))"
    using True read_head [of it src] by (simp add: preparse_value_def Let_def can_read_fits fits_iff d_def t_def it1_def
        read_bytes_unchecked_def cong: if_cong)
  show ?thesis
  proof (cases "d > Value64Bit")
    case big: True
    have "headed src (set_flag UnknownLength it1)" if "\<not> is_fixed_type t"
      using that True v1 by (simp add: headed_def flag_simps UnknownLength_def)
    then show ?thesis using eq big v1 by (auto simp: set_flag_def)
  next
    case False
    then have d: "d \<le> Value64Bit" by simp
    obtain err it2 where n: "preparse_number src d it1 = Some (err, it2)" "v_ptr it2 = v_ptr it" "v_remaining it2 = v_remaining it"
      "err = CborNoError \<Longrightarrow> v_ptr it + bytes_needed d + 1 \<le> length src \<and> v_flags it2 = (v_flags it AND 0x60) OR number_flags d"
      using preparse_number_total [of it1 src d] d True v1 by auto
    obtain err3 it3 where k: "preparse_kind src t d it2 = Some (err3, it3)" "v_ptr it3 = v_ptr it" "v_remaining it3 = v_remaining it"
      "v_flags it3 = v_flags it2 \<or> v_flags it3 = v_flags it2 OR 4 \<or> (d = 26 \<or> d = 27) \<and> v_flags it3 = v_flags it2 OR 2"
      using preparse_kind_total [of it2 src t d] n True by auto
    have "headed src it3" if e: "err = CborNoError"
    proof -
      have nb: "src ! v_ptr it \<noteq> BreakByte"
        using d by (auto simp: d_def BreakByte_def SmallValueMask_def Value64Bit_def)
      have f: "(d = 26 \<or> d = 27) \<or> number_flags d = 0 \<and> bytes_needed d < 4"
        using descriptor_cases [OF d] by (auto simp: number_flags_def bytes_needed_def Value8Bit_def dest: small_descriptor)
      then show ?thesis
        using k n(4) [OF e] True nb
        by (auto simp: headed_def flag_simps cbor_flags number_flags_def bytes_needed_def Value8Bit_def d_def [symmetric])
    qed
    then show ?thesis using eq False n k by auto
  qed
qed

lemma break_follows: "at_break src it \<Longrightarrow> v_ptr it \<le> length src \<Longrightarrow> v_ptr it < length src"
  by (simp add: at_break_def can_read_fits fits_iff)

lemma nodecrement_total:
  assumes "v_ptr it \<le> length src" "v_remaining it \<noteq> 0"
  shows "\<exists>err it1. preparse_next_value_nodecrement src it = Some (err, it1) \<and> v_ptr it1 = v_ptr it \<and>
    (err = CborNoError \<longrightarrow> usable src it1)"
proof (cases "v_remaining it = UINT32_MAX \<and> at_break src it")
  case True
  then show ?thesis
    using assms break_follows [of src it] by (auto simp: preparse_next_value_nodecrement_def usable_def set_flag_def)
next
  case False
  obtain err it1 where v: "preparse_value src it = Some (err, it1)" "v_ptr it1 = v_ptr it" "v_remaining it1 = v_remaining it"
    "err = CborNoError \<Longrightarrow> headed src it1"
    using preparse_value_total [OF assms(1)] by blast
  then have "err = CborNoError \<Longrightarrow> usable src it1" using assms by (simp add: usable_def)
  then show ?thesis using v False by (auto simp: preparse_next_value_nodecrement_def)
qed

lemma next_total:
  assumes "v_ptr it \<le> length src" "v_remaining it \<noteq> 0"
  shows "\<exists>err it1. preparse_next_value src it = Some (err, it1) \<and> v_ptr it1 = v_ptr it \<and>
    (err = CborNoError \<longrightarrow> usable src it1)"
proof (cases "v_remaining it = 1 \<and> v_type it \<noteq> CborTagType")
  case True
  then show ?thesis using assms by (simp add: preparse_next_value_def Let_def UINT32_MAX_def usable_def flag_simps UnknownLength_def)
next
  case False
  define Y where "Y = (let it1 = (if v_remaining it \<noteq> UINT32_MAX \<and> v_type it \<noteq> CborTagType then it\<lparr>v_remaining := v_remaining it - 1\<rparr> else it)
    in if v_type it \<noteq> CborTagType then it1\<lparr>v_flags := v_flags it1 XOR NextIsMapKey\<rparr> else it1)"
  have "preparse_next_value src it = preparse_next_value_nodecrement src Y"
    using False by (auto simp: preparse_next_value_def Y_def Let_def)
  moreover have "v_ptr Y = v_ptr it" "v_remaining Y \<noteq> 0" using assms(2) False by (auto simp: Y_def Let_def)
  ultimately show ?thesis using nodecrement_total [of Y src] assms(1) by simp
qed

lemma extract_total:
  assumes "headed src it" "\<not> has_flag UnknownLength it"
  shows "\<exists>v k. extract_number_and_advance src it = Some (v, advance_bytes (Suc k) it) \<and> v_ptr it + Suc k \<le> length src"
proof -
  have h: "v_ptr it < length src" "v_ptr it + bytes_needed (src ! v_ptr it AND SmallValueMask) + 1 \<le> length src"
    "has_flag IntegerValueTooLarge it \<Longrightarrow>
       (if has_flag IntegerValueIs64Bit it then 8 else 4) \<le> bytes_needed (src ! v_ptr it AND SmallValueMask)"
    using assms by (simp_all add: headed_def)
  have "\<exists>v. cbor_value_extract_int64_helper src it = Some v"
  proof (cases "has_flag IntegerValueTooLarge it")
    case True
    define w :: nat where "w = (if has_flag IntegerValueIs64Bit it then 8 else 4)"
    have "v_ptr it + 1 + w \<le> length src" using h(2) h(3) [OF True] w_def by linarith
    then show ?thesis
      using read_inside [of it 1 w src] True by (auto simp: cbor_value_extract_int64_helper_def cbor_value_decode_int64_internal_def w_def
          split: if_splits)
  qed (simp add: cbor_value_extract_int64_helper_def)
  then show ?thesis
    using read_head [OF h(1)] h(2) by (auto simp: extract_number_and_advance_def)
qed

section \<open>Steps over a value\<close>

text \<open>A step that never reads outside the buffer and moves forward when it succeeds.\<close>

definition steps_safely :: "bytes \<Rightarrow> cbor_value \<Rightarrow> cbor_error dec \<Rightarrow> bool" where
  "steps_safely src it r \<longleftrightarrow> (\<exists>err it1. r = Some (err, it1) \<and> (err = CborNoError \<longrightarrow> usable src it1 \<and> v_ptr it < v_ptr it1))"

lemma next_steps:
  assumes "v_ptr it < v_ptr X" "v_ptr X \<le> length src" "v_remaining X \<noteq> 0"
  shows "steps_safely src it (preparse_next_value src X)"
  using next_total [OF assms(2, 3)] assms(1) by (auto simp: steps_safely_def)

lemma fixed_steps:
  assumes "usable src it" "v_remaining it \<noteq> 0" "is_fixed_type (v_type it)"
  shows "steps_safely src it (advance_internal src it)"
proof -
  have h: "headed src it" "\<not> has_flag UnknownLength it" using assms by (auto simp: usable_def headed_def split: if_splits)
  then obtain v k where "extract_number_and_advance src it = Some (v, advance_bytes (Suc k) it)" "v_ptr it + Suc k \<le> length src"
    using extract_total by blast
  moreover have "steps_safely src it (preparse_next_value src (advance_bytes (Suc k) it))"
    using calculation(2) assms(2) by (intro next_steps) (simp_all add: advance_bytes_def)
  ultimately show ?thesis using assms(3) by (simp add: advance_internal_def is_fixed_type_def) (simp add: advance_bytes_def)
qed

definition no_chunk :: "bytes \<Rightarrow> cbor_value \<Rightarrow> bool" where
  "no_chunk src it \<longleftrightarrow> cbor_value_is_length_known it \<and> \<not> has_flag BeforeFirstStringChunk it \<or>
     v_ptr it < length src \<and> src ! v_ptr it = BreakByte"

lemma chunk_size_total:
  assumes "v_ptr it \<le> length src"
  shows "(\<exists>err. get_string_chunk_size src it = Some (Inl err) \<and> err \<noteq> CborNoError \<and>
      (err = CborErrorNoMoreStringChunks \<longrightarrow> no_chunk src it)) \<or>
    (\<exists>k len. get_string_chunk_size src it = Some (Inr (Suc k, len)) \<and> v_ptr it + Suc k \<le> length src)"
proof (cases "cbor_value_is_length_known it \<and> \<not> has_flag BeforeFirstStringChunk it \<or> \<not> v_ptr it < length src")
  case True
  then show ?thesis using assms by (auto simp: get_string_chunk_size_def can_read_fits fits_iff no_chunk_def)
next
  case False
  then have p: "v_ptr it < length src" by simp
  define d where "d = src ! v_ptr it AND SmallValueMask"
  have r: "can_read_bytes src it 1" "read_bytes_unchecked src it 0 1 = Some [src ! v_ptr it]"
    using p read_head [OF p] by (simp_all add: can_read_fits fits_iff)
  consider "src ! v_ptr it = BreakByte \<or> src ! v_ptr it AND MajorTypeMask \<noteq> v_type it" | "d < Value8Bit" | "d > Value64Bit"
    | "v_ptr it + bytes_needed d + 1 > length src"
    | b where "read_bytes_unchecked src it 1 (bytes_needed d) = Some b" "v_ptr it + bytes_needed d + 1 \<le> length src"
    using read_inside [of it 1 "bytes_needed d" src] by (cases "v_ptr it + bytes_needed d + 1 \<le> length src") auto
  then show ?thesis
    using False p r by cases (auto simp: get_string_chunk_size_def Let_def can_read_fits fits_iff d_def [symmetric] no_chunk_def)
qed

lemma chunk_total:
  assumes "v_ptr it \<le> length src"
  shows "(\<exists>err it1. get_string_chunk src it = Some (Inl err, it1) \<and> err \<noteq> CborNoError \<and> (err = CborErrorNoMoreStringChunks \<longrightarrow>
      it1 = it \<and> no_chunk src it)) \<or>
    (\<exists>b it1. get_string_chunk src it = Some (Inr b, it1) \<and> v_ptr it < v_ptr it1 \<and> v_ptr it1 \<le> length src \<and>
      v_remaining it1 = v_remaining it)"
  using chunk_size_total [OF assms]
proof
  assume "\<exists>k len. get_string_chunk_size src it = Some (Inr (Suc k, len)) \<and> v_ptr it + Suc k \<le> length src"
  then obtain k len where k: "get_string_chunk_size src it = Some (Inr (Suc k, len))" "v_ptr it + Suc k \<le> length src" by blast
  have "can_read_bytes src (advance_bytes (Suc k) it) (unat len) \<longleftrightarrow> v_ptr it + Suc k + unat len \<le> length src"
    using k(2) by (simp add: can_read_fits fits_iff advance_bytes_def)
  moreover have "v_ptr it + Suc k + unat len \<le> length src \<Longrightarrow>
      \<exists>b. read_bytes_unchecked src (advance_bytes (Suc k) it) 0 (unat len) = Some b"
    using read_inside [of "advance_bytes (Suc k) it" 0 "unat len" src] by (auto simp: advance_bytes_def)
  ultimately show ?thesis
    using k by (cases "v_ptr it + Suc k + unat len \<le> length src")
      (auto simp: get_string_chunk_def transfer_string_def Let_def, auto simp: advance_bytes_def clear_flag_def)
qed (auto simp: get_string_chunk_def)

lemma chunk_loop_total:
  assumes "v_ptr it \<le> length src" "\<And>off b m. \<exists>r. func off b m = Some r"
  shows "\<exists>err k1 it1. chunk_loop src func buflen k it = Some (err, k1, it1) \<and> (err = CborNoError \<longrightarrow>
    v_ptr it \<le> v_ptr it1 \<and> v_ptr it1 \<le> length src \<and> v_remaining it1 = v_remaining it \<and>
    (cbor_value_is_length_known it1 \<or> v_ptr it1 < length src) \<and> (v_ptr it < v_ptr it1 \<or> it1 = it \<and> no_chunk src it))"
  using assms(1)
proof (induction "length src - v_ptr it" arbitrary: it k rule: less_induct)
  case less
  from chunk_total [OF less.prems] show ?case
  proof (elim disjE exE conjE)
    fix err it1 assume "get_string_chunk src it = Some (Inl err, it1)" "err \<noteq> CborNoError" "err = CborErrorNoMoreStringChunks \<longrightarrow> it1 = it \<and> no_chunk src it"
    then show ?case using less.prems by (subst chunk_loop.simps) (auto simp: no_chunk_def)
  next
    fix b it1 assume g: "get_string_chunk src it = Some (Inr b, it1)" "v_ptr it < v_ptr it1" "v_ptr it1 \<le> length src"
      "v_remaining it1 = v_remaining it"
    obtain ok m where f: "(if ck_result k \<and> buflen \<ge> ck_total k + length b then func (ck_total k) b (ck_mem k)
        else Some (False, ck_mem k)) = Some (ok, m)"
      using assms(2) by (metis (full_types) surj_pair)
    have "length src - v_ptr it1 < length src - v_ptr it" using g by linarith
    from less.hyps [OF this g(3), of "\<lparr>ck_result = ok, ck_total = ck_total k + length b, ck_mem = m\<rparr>"] g f show ?case
      by (subst chunk_loop.simps) (auto simp del: split_paired_Ex)
  qed
qed

lemma string_steps:
  assumes "usable src it" "v_remaining it \<noteq> 0"
  shows "steps_safely src it (map_option (\<lambda>(err, _, _, it1). (err, it1)) (cbor_value_copy_string src None buflen it))"
proof -
  define it1 where "it1 = cbor_value_begin_string_iteration it"
  have h: "headed src it" using assms by (simp add: usable_def)
  have known: "cbor_value_is_length_known it1 = cbor_value_is_length_known it" "v_remaining it1 = v_remaining it"
    "v_ptr it1 = v_ptr it + (if cbor_value_is_length_known it then 0 else 1)" "has_flag BeforeFirstStringChunk it1"
    by (auto simp: it1_def cbor_value_begin_string_iteration_def Let_def cbor_value_is_length_known_def advance_bytes_def
        flag_simps cbor_flags)
  have p: "v_ptr it1 \<le> length src" "v_ptr it1 < v_ptr it \<longrightarrow> False" using h known by (auto simp: headed_def)
  have nc: "\<not> no_chunk src it1" if "cbor_value_is_length_known it"
    using that h known by (auto simp: no_chunk_def headed_def cbor_value_is_length_known_def)
  have f: "\<exists>r. iterate_noop off b m = Some r" for off b and m :: bytes by (auto simp: iterate_noop_def)
  define k :: "bytes chunks" where "k = \<lparr>ck_result = True, ck_total = 0, ck_mem = []\<rparr>"
  note loop = chunk_loop_total [where func = iterate_noop and buflen = buflen and k = k, OF p(1) f]
  obtain err k1 it2 where l: "chunk_loop src iterate_noop buflen k it1 = Some (err, k1, it2)"
    "err = CborNoError \<Longrightarrow> v_ptr it1 \<le> v_ptr it2 \<and> v_ptr it2 \<le> length src \<and> v_remaining it2 = v_remaining it1 \<and>
      (cbor_value_is_length_known it2 \<or> v_ptr it2 < length src) \<and> (v_ptr it1 < v_ptr it2 \<or> it2 = it1 \<and> no_chunk src it1)"
    using loop by blast
  show ?thesis
  proof (cases "err = CborNoError")
    case True
    have "v_ptr it < v_ptr it2" if "cbor_value_is_length_known it2 \<or> v_ptr it1 < v_ptr it2"
      using l(2) [OF True] known nc that by auto
    then have "steps_safely src it (cbor_value_finish_string_iteration src it2)"
      using l(2) [OF True] known assms(2) unfolding cbor_value_finish_string_iteration_def
      by (intro next_steps) (auto simp: advance_bytes_def)
    then obtain err3 it3 where f3: "cbor_value_finish_string_iteration src it2 = Some (err3, it3)"
      "err3 = CborNoError \<Longrightarrow> usable src it3 \<and> v_ptr it < v_ptr it3"
      unfolding steps_safely_def by blast
    have "cbor_value_copy_string src None buflen it = Some
        (if err3 \<noteq> CborNoError then err3 else if ck_result k1 then CborNoError else CborErrorOutOfMemory, ck_total k1, ck_mem k1, it3)"
      using l(1) True f3(1) unfolding k_def it1_def
      by (auto simp: cbor_value_copy_string_def iterate_string_chunks_def iterate_noop_def)
    then show ?thesis using f3(2) by (simp add: steps_safely_def)
  next
    case False
    then show ?thesis
      using l(1) unfolding k_def it1_def
      by (auto simp: cbor_value_copy_string_def iterate_string_chunks_def iterate_noop_def steps_safely_def)
  qed
qed

lemma double_nonzero: "\<not> (w :: u32) > 0x7fffffff \<Longrightarrow> w * 2 = 0 \<Longrightarrow> w = 0"
proof -
  assume a: "\<not> w > 0x7fffffff" "w * 2 = 0"
  then have "unat w * 2 < 2 ^ 32" by (simp add: word_less_nat_alt)
  then have "unat (w * 2) = unat w * 2" by (simp add: unat_word_ariths)
  then show "w = 0" using a(2) by (simp add: word_unat_eq_iff)
qed

text \<open>Entering a container ends before its first element or at its end.\<close>

lemma enter_total:
  assumes "usable src it" "v_remaining it \<noteq> 0"
  shows "steps_safely src it (cbor_value_enter_container src it)"
proof (cases "has_flag UnknownLength it")
  case True
  have "v_ptr it < length src" using assms by (simp add: usable_def headed_def)
  then show ?thesis
    using True nodecrement_total [of "(advance_bytes 1 (it\<lparr>v_remaining := UINT32_MAX\<rparr>))\<lparr>v_flags := v_type it AND ContainerIsMap\<rparr>" src]
    by (auto simp: cbor_value_enter_container_def steps_safely_def Let_def advance_bytes_def UINT32_MAX_def)
next
  case False
  have "headed src it" using assms by (simp add: usable_def)
  from extract_total [OF this False]
  obtain v k where e: "extract_number_and_advance src it = Some (v, advance_bytes (Suc k) it)" "v_ptr it + Suc k \<le> length src" by blast
  define r where "r = advance_bytes (Suc k) it"
  have p: "v_ptr it < v_ptr r" "v_ptr r \<le> length src" "v_type r = v_type it" "v_flags r = v_flags it"
    using e(2) by (simp_all add: r_def advance_bytes_def)
  define R where "R = r\<lparr>v_remaining := if v_type r = CborMapType then ucast v * 2 else ucast v\<rparr>"
  have go: "steps_safely src it (preparse_next_value_nodecrement src (R\<lparr>v_flags := f\<rparr>))" if "v_remaining R \<noteq> 0" for f
    using nodecrement_total [of "R\<lparr>v_flags := f\<rparr>" src] that p by (auto simp: R_def steps_safely_def)
  have nz: "v_remaining R \<noteq> 0" if "ucast (ucast v :: u32) = v" "v \<noteq> 0" "v_type r = CborMapType \<longrightarrow> \<not> (ucast v :: u32) > UINT32_MAX div 2"
    using that double_nonzero [of "ucast v"] by (auto simp: R_def UINT32_MAX_def)
  have empty: "steps_safely src it (Some (CborNoError, R\<lparr>v_type := CborInvalidType\<rparr>))" if "v = 0"
    using that p False by (simp add: steps_safely_def usable_def R_def has_flag_def)
  have fail: "steps_safely src it (Some (CborErrorDataTooLarge, x))" for x by (simp add: steps_safely_def)
  have eq: "cbor_value_enter_container src it =
    (if ucast (ucast v :: u32) \<noteq> v \<or> v = ucast UINT32_MAX \<or> v_type r = CborMapType \<and> (ucast v :: u32) > UINT32_MAX div 2
     then Some (CborErrorDataTooLarge, copy_current_position (r\<lparr>v_remaining := ucast v\<rparr>) it)
     else if v = 0 then Some (CborNoError, R\<lparr>v_type := CborInvalidType\<rparr>)
     else preparse_next_value_nodecrement src (R\<lparr>v_flags := v_type R AND ContainerIsMap\<rparr>))"
    using False e(1) by (auto simp: cbor_value_enter_container_def Let_def r_def [symmetric] R_def)
  show ?thesis
    unfolding eq using go nz empty fail by auto
qed

lemma leave_steps:
  assumes "usable src r" "v_remaining r = 0" "v_ptr it < v_ptr r" "v_remaining it \<noteq> 0"
  shows "steps_safely src it (cbor_value_leave_container src it r)"
  using assms unfolding cbor_value_leave_container_def Let_def
  by (intro next_steps) (auto simp: usable_def copy_current_position_def advance_bytes_def split: if_splits)

lemma advance_all_total:
  assumes "\<And>r. usable src r \<Longrightarrow> v_remaining r \<noteq> 0 \<Longrightarrow> steps_safely src r (advance r)" "usable src r"
  shows "\<exists>err r1. advance_all advance r = Some (err, r1) \<and>
    (err = CborNoError \<longrightarrow> usable src r1 \<and> v_remaining r1 = 0 \<and> v_ptr r \<le> v_ptr r1)"
  using assms(2)
proof (induction "length src - v_ptr r" arbitrary: r rule: less_induct)
  case less
  show ?case
  proof (cases "v_remaining r = 0")
    case True
    then show ?thesis using less.prems by (subst advance_all.simps) (simp add: cbor_value_at_end_def)
  next
    case False
    then obtain err r1 where a: "advance r = Some (err, r1)" "err = CborNoError \<Longrightarrow> usable src r1 \<and> v_ptr r < v_ptr r1"
      using assms(1) less.prems unfolding steps_safely_def by blast
    show ?thesis
    proof (cases "err = CborNoError")
      case True
      then have "length src - v_ptr r1 < length src - v_ptr r" using a(2) by (auto simp: usable_def)
      from less.hyps [OF this] a True False show ?thesis
        by (subst advance_all.simps) (auto simp: cbor_value_at_end_def)
    next
      case e: False
      then show ?thesis using a(1) False by (subst advance_all.simps) (simp add: cbor_value_at_end_def)
    qed
  qed
qed

lemma advance_steps:
  "usable src it \<Longrightarrow> v_remaining it \<noteq> 0 \<Longrightarrow> steps_safely src it (advance_recursive src n it)"
proof (induction n arbitrary: it)
  case 0
  then show ?case using fixed_steps string_steps by (auto simp: steps_safely_def [of _ _ "Some _"])
next
  case (Suc n)
  show ?case
  proof (cases "cbor_value_is_container it")
    case False
    then show ?thesis using Suc.prems fixed_steps string_steps by simp
  next
    case True
    then have t: "\<not> is_fixed_type (v_type it)" by (auto simp: cbor_value_is_container_def is_fixed_type_def)
    obtain err r where e: "cbor_value_enter_container src it = Some (err, r)" "err = CborNoError \<Longrightarrow> usable src r \<and> v_ptr it < v_ptr r"
      using enter_total [OF Suc.prems] unfolding steps_safely_def by blast
    show ?thesis
    proof (cases "err = CborNoError")
      case ok: True
      then obtain err2 r2 where a: "advance_all (advance_recursive src n) r = Some (err2, r2)"
        "err2 = CborNoError \<Longrightarrow> usable src r2 \<and> v_remaining r2 = 0 \<and> v_ptr r \<le> v_ptr r2"
        using advance_all_total [of src "advance_recursive src n" r] Suc.IH e(2) by blast
      show ?thesis
      proof (cases "err2 = CborNoError")
        case True
        then have "steps_safely src it (cbor_value_leave_container src it r2)"
          using a(2) e(2) ok Suc.prems by (intro leave_steps) auto
        then show ?thesis using t \<open>cbor_value_is_container it\<close> e(1) a(1) ok True by simp
      qed (use t \<open>cbor_value_is_container it\<close> e(1) a(1) ok in \<open>simp add: steps_safely_def\<close>)
    qed (use t \<open>cbor_value_is_container it\<close> e(1) in \<open>simp add: steps_safely_def\<close>)
  qed
qed

text \<open>C21: Any bytes can be parsed safely. For every buffer, initialising the parser ends without reading
  outside it; if it reports no error, walking over the whole value (all its nested parts, to the
  depth limit) also ends without a read outside, with a result or an error, and on success the
  position is inside the buffer and has moved.\<close>

theorem any_bytes_are_parsed_safely:
  assumes "cbor_parser_init src = Some (CborNoError, it)"
  shows "(\<exists>err it1. cbor_value_advance src it = Some (err, it1) \<and>
      (err = CborNoError \<longrightarrow> v_ptr it < v_ptr it1 \<and> v_ptr it1 \<le> length src)) \<and>
    (\<exists>err. cbor_value_validate_basic src it = Some err) \<and> (\<forall>src. cbor_parser_init src \<noteq> None)"
proof -
  let ?it = "\<lparr>v_ptr = 0, v_remaining = 1, v_extra = 0, v_type = 0, v_flags = 0\<rparr>"
  have init: "\<exists>err it1. cbor_parser_init src = Some (err, it1) \<and> v_remaining it1 = 1 \<and> (err = CborNoError \<longrightarrow> headed src it1)"
    for src using preparse_value_total [of ?it src] by (auto simp: cbor_parser_init_def)
  have "usable src it" "v_remaining it = 1" using init [of src] assms by (auto simp: usable_def headed_def)
  then obtain err it1 where "cbor_value_advance src it = Some (err, it1)"
    "err = CborNoError \<Longrightarrow> usable src it1 \<and> v_ptr it < v_ptr it1"
    using advance_steps [of src it CBOR_PARSER_MAX_RECURSIONS] unfolding steps_safely_def cbor_value_advance_def by auto
  then show ?thesis using init by (fastforce simp: cbor_value_validate_basic_def usable_def)
qed

text \<open>An array of two whose second element, a string, is cut off.\<close>

definition cut_off :: bytes where
  "cut_off = [0x82, 0x01, 0x62, 0x61]"

theorem any_bytes_are_parsed_safely_witness:
  "\<exists>err it1. cbor_value_advance cut_off \<lparr>v_ptr = 0, v_remaining = 1, v_extra = 2, v_type = 0x80, v_flags = 0\<rparr> = Some (err, it1) \<and>
     (err = CborNoError \<longrightarrow> 0 < v_ptr it1 \<and> v_ptr it1 \<le> length cut_off)"
proof -
  have "cbor_parser_init cut_off = Some (CborNoError, \<lparr>v_ptr = 0, v_remaining = 1, v_extra = 2, v_type = 0x80, v_flags = 0\<rparr>)"
    by (simp add: cut_off_def cbor_parser_init_def preparse_value_def preparse_number_def preparse_kind_def can_read_bytes_def
      read_bytes_unchecked_def memcpy_from_def bytes_needed_def cbor_masks Value8Bit_def NegativeIntegerType_def SimpleTypesType_def)
  from conjunct1 [OF any_bytes_are_parsed_safely [OF this]] show ?thesis by simp
qed

end
