(* ===== verification/JsonGen.thy ===== *)
theory JsonGen
  imports Prelude
begin

text \<open>
  managed_components/espressif__json_generator/src/json_generator.c: JSON text written piece by piece into
  a buffer that is flushed through a callback when it is full, or refuses more, or is absent and only
  measured. The three modes are instances of one locale, in which the calls are proved to write
  the text of a reference printer. Calls of the flush callback are recorded; a result \<open>None\<close> is an access
  outside the buffer or a loop without end. C strings are character lists without NUL.
\<close>

section \<open>The string buffer\<close>

definition NUL :: char where
  "NUL = CHR 0x00"

definition MAX_INT_IN_STR :: nat where "MAX_INT_IN_STR = 24"

definition MAX_FLOAT_IN_STR :: nat where "MAX_FLOAT_IN_STR = 30"

record json_gen_str =
  jbuf :: "string option"
  buf_size :: int
  flush_cb :: bool
  comma_req :: bool
  free_ptr :: nat
  total_len :: int
  flushed :: "string list"

type_synonym gen = "json_gen_str \<Rightarrow> (int \<times> json_gen_str) option"

definition c_string :: "string \<Rightarrow> string" where
  "c_string b = takeWhile (\<lambda>x. x \<noteq> NUL) b"

definition json_gen_get_empty_len :: "json_gen_str \<Rightarrow> int" where
  "json_gen_get_empty_len j = buf_size j - int (free_ptr j) - 1"

text \<open>The copy loop of \<open>json_gen_add_to_str\<close>; \<open>b\<close> is the buffer, \<open>cur\<close> what is still to be copied.\<close>

partial_function (option) add_loop :: "string \<Rightarrow> string \<Rightarrow> json_gen_str \<Rightarrow> (int \<times> json_gen_str) option" where
  "add_loop b cur j =
     (let len = int (length cur);
          len_remaining = json_gen_get_empty_len j;
          copy_len = (if len_remaining > len then len else len_remaining) in
      if copy_len < 0 then None
      else
        Option.bind (memcpy_to b (free_ptr j) (take (nat copy_len) cur)) (\<lambda>b1.
          let fp = free_ptr j + nat copy_len; rest = drop (nat copy_len) cur in
          if rest \<noteq> [] then
            Option.bind (memcpy_to b1 fp [NUL]) (\<lambda>b2.
              if \<not> flush_cb j then Some (-1, j\<lparr>jbuf := Some b2, free_ptr := fp\<rparr>)
              else add_loop b2 rest (j\<lparr>jbuf := Some b2, flushed := flushed j @ [c_string b2], free_ptr := 0\<rparr>))
          else Some (0, j\<lparr>jbuf := Some b1, free_ptr := fp\<rparr>)))"

definition json_gen_add_to_str :: "string option \<Rightarrow> gen" where
  "json_gen_add_to_str str_ptr j =
     (case str_ptr of None \<Rightarrow> Some (0, j)
      | Some str \<Rightarrow>
          let j1 = j\<lparr>total_len := total_len j + int (length str)\<rparr> in
          case jbuf j1 of None \<Rightarrow> Some (0, j1)
          | Some b \<Rightarrow> add_loop b str j1)"

definition json_gen_str_start :: "string option \<Rightarrow> int \<Rightarrow> bool \<Rightarrow> json_gen_str" where
  "json_gen_str_start b n cb = \<lparr>jbuf = b, buf_size = n, flush_cb = cb, comma_req = False, free_ptr = 0,
     total_len = 0, flushed = []\<rparr>"

text \<open>The end: the returned length, the flushed strings, and what the caller's buffer holds.\<close>

definition json_gen_str_end :: "json_gen_str \<Rightarrow> (int \<times> string list \<times> string option) option" where
  "json_gen_str_end j =
     (case jbuf j of None \<Rightarrow> Some (total_len j + 1, flushed j, None)
      | Some b \<Rightarrow>
          Option.bind (memcpy_to b (free_ptr j) [NUL]) (\<lambda>b1.
            Some (total_len j + 1, if flush_cb j then flushed j @ [c_string b1] else flushed j, Some b1)))"

section \<open>The calls\<close>

text \<open>Sequencing; the result of the first call is dropped, as the code does.\<close>

definition seqg :: "gen \<Rightarrow> gen \<Rightarrow> gen" where
  "seqg f g j = Option.bind (f j) (\<lambda>(_, j1). g j1)"

definition set_comma :: "bool \<Rightarrow> gen" where
  "set_comma c j = Some (0, j\<lparr>comma_req := c\<rparr>)"

definition add_lit :: "string \<Rightarrow> gen" where
  "add_lit s = json_gen_add_to_str (Some s)"

definition json_gen_handle_comma :: gen where
  "json_gen_handle_comma j = (if comma_req j then add_lit '','' j else Some (0, j))"

definition json_gen_handle_name :: "string option \<Rightarrow> gen" where
  "json_gen_handle_name name = seqg (seqg (add_lit [CHR 0x22]) (json_gen_add_to_str name)) (add_lit [CHR 0x22, CHR '':''])"

definition json_gen_start_object :: gen where
  "json_gen_start_object = seqg (seqg json_gen_handle_comma (set_comma False)) (add_lit ''{'')"

definition json_gen_end_object :: gen where
  "json_gen_end_object = seqg (set_comma True) (add_lit ''}'')"

definition json_gen_start_array :: gen where
  "json_gen_start_array = seqg (seqg json_gen_handle_comma (set_comma False)) (add_lit ''['')"

definition json_gen_end_array :: gen where
  "json_gen_end_array = seqg (set_comma True) (add_lit '']'')"

definition json_gen_push_object :: "string option \<Rightarrow> gen" where
  "json_gen_push_object name =
     seqg (seqg (seqg json_gen_handle_comma (json_gen_handle_name name)) (set_comma False)) (add_lit ''{'')"

definition json_gen_pop_object :: gen where
  "json_gen_pop_object = seqg (set_comma True) (add_lit ''}'')"

definition json_gen_push_object_str :: "string option \<Rightarrow> string option \<Rightarrow> gen" where
  "json_gen_push_object_str name object_str =
     seqg (seqg (seqg json_gen_handle_comma (json_gen_handle_name name)) (set_comma True)) (json_gen_add_to_str object_str)"

definition json_gen_push_array :: "string option \<Rightarrow> gen" where
  "json_gen_push_array name =
     seqg (seqg (seqg json_gen_handle_comma (json_gen_handle_name name)) (set_comma False)) (add_lit ''['')"

definition json_gen_pop_array :: gen where
  "json_gen_pop_array = seqg (set_comma True) (add_lit '']'')"

definition json_gen_push_array_str :: "string option \<Rightarrow> string option \<Rightarrow> gen" where
  "json_gen_push_array_str name array_str =
     seqg (seqg (seqg json_gen_handle_comma (json_gen_handle_name name)) (set_comma True)) (json_gen_add_to_str array_str)"

definition obj_set :: "string option \<Rightarrow> gen \<Rightarrow> gen" where
  "obj_set name g = seqg (seqg json_gen_handle_comma (json_gen_handle_name name)) g"

definition arr_set :: "gen \<Rightarrow> gen" where
  "arr_set g = seqg json_gen_handle_comma g"

definition json_gen_set_bool :: "bool \<Rightarrow> gen" where
  "json_gen_set_bool val = seqg (set_comma True) (if val then add_lit ''true'' else add_lit ''false'')"

definition json_gen_obj_set_bool :: "string option \<Rightarrow> bool \<Rightarrow> gen" where
  "json_gen_obj_set_bool name val = obj_set name (json_gen_set_bool val)"

definition json_gen_arr_set_bool :: "bool \<Rightarrow> gen" where
  "json_gen_arr_set_bool val = arr_set (json_gen_set_bool val)"

text \<open>\<open>snprintf\<close> with \<open>%d\<close>, which writes at most the size of its array less one.\<close>

fun dec_nat :: "nat \<Rightarrow> string" where
  "dec_nat n = (if n < 10 then [char_of (48 + n)] else dec_nat (n div 10) @ [char_of (48 + n mod 10)])"

definition dec_int :: "int \<Rightarrow> string" where
  "dec_int i = (if i < 0 then CHR ''-'' # dec_nat (nat (- i)) else dec_nat (nat i))"

definition json_gen_set_int :: "int \<Rightarrow> gen" where
  "json_gen_set_int val = seqg (set_comma True) (add_lit (take (MAX_INT_IN_STR - 1) (dec_int val)))"

definition json_gen_obj_set_int :: "string option \<Rightarrow> int \<Rightarrow> gen" where
  "json_gen_obj_set_int name val = obj_set name (json_gen_set_int val)"

definition json_gen_arr_set_int :: "int \<Rightarrow> gen" where
  "json_gen_arr_set_int val = arr_set (json_gen_set_int val)"

text \<open>\<open>val\<close> is the text \<open>%.5f\<close> gives for the number.\<close>

definition json_gen_set_float :: "string \<Rightarrow> gen" where
  "json_gen_set_float val = seqg (set_comma True) (add_lit (take (MAX_FLOAT_IN_STR - 1) val))"

definition json_gen_obj_set_float :: "string option \<Rightarrow> string \<Rightarrow> gen" where
  "json_gen_obj_set_float name val = obj_set name (json_gen_set_float val)"

definition json_gen_arr_set_float :: "string \<Rightarrow> gen" where
  "json_gen_arr_set_float val = arr_set (json_gen_set_float val)"

definition json_gen_set_string :: "string option \<Rightarrow> gen" where
  "json_gen_set_string val =
     seqg (seqg (seqg (set_comma True) (add_lit [CHR 0x22])) (json_gen_add_to_str val)) (add_lit [CHR 0x22])"

definition json_gen_obj_set_string :: "string option \<Rightarrow> string option \<Rightarrow> gen" where
  "json_gen_obj_set_string name val = obj_set name (json_gen_set_string val)"

definition json_gen_arr_set_string :: "string option \<Rightarrow> gen" where
  "json_gen_arr_set_string val = arr_set (json_gen_set_string val)"

definition json_gen_set_long_string :: "string option \<Rightarrow> gen" where
  "json_gen_set_long_string val = seqg (seqg (set_comma True) (add_lit [CHR 0x22])) (json_gen_add_to_str val)"

definition json_gen_obj_start_long_string :: "string option \<Rightarrow> string option \<Rightarrow> gen" where
  "json_gen_obj_start_long_string name val = obj_set name (json_gen_set_long_string val)"

definition json_gen_arr_start_long_string :: "string option \<Rightarrow> gen" where
  "json_gen_arr_start_long_string val = arr_set (json_gen_set_long_string val)"

definition json_gen_add_to_long_string :: "string option \<Rightarrow> gen" where
  "json_gen_add_to_long_string val = json_gen_add_to_str val"

definition json_gen_end_long_string :: gen where
  "json_gen_end_long_string = add_lit [CHR 0x22]"

definition json_gen_set_null :: gen where
  "json_gen_set_null = seqg (set_comma True) (add_lit ''null'')"

definition json_gen_obj_set_null :: "string option \<Rightarrow> gen" where
  "json_gen_obj_set_null name = obj_set name json_gen_set_null"

definition json_gen_arr_set_null :: gen where
  "json_gen_arr_set_null = arr_set json_gen_set_null"

section \<open>Documents and their text\<close>

text \<open>A document, the reference printer, and the calls a client makes for it.\<close>

datatype json =
    JNull | JBool bool | JInt int | JFloat string | JStr string | JLong string "string list"
  | JArr "json list" | JObj "(string \<times> json) list"

definition quoted :: "string \<Rightarrow> string" where
  "quoted s = CHR 0x22 # s @ [CHR 0x22]"

fun commas :: "string list \<Rightarrow> string" where
  "commas [] = []"
| "commas [s] = s"
| "commas (s # t # ss) = s @ '','' @ commas (t # ss)"

fun render :: "json \<Rightarrow> string" where
  "render JNull = ''null''"
| "render (JBool b) = (if b then ''true'' else ''false'')"
| "render (JInt i) = dec_int i"
| "render (JFloat s) = s"
| "render (JStr s) = quoted s"
| "render (JLong s ss) = quoted (s @ concat ss)"
| "render (JArr vs) = ''['' @ commas (map render vs) @ '']''"
| "render (JObj ms) = ''{'' @ commas (map (\<lambda>(k, v). quoted k @ '':'' @ render v) ms) @ ''}''"

fun seqs :: "gen list \<Rightarrow> gen" where
  "seqs [] = (\<lambda>j. Some (0, j))"
| "seqs (g # gs) = seqg g (seqs gs)"

fun emit_member :: "string \<Rightarrow> json \<Rightarrow> gen" and emit_elem :: "json \<Rightarrow> gen" where
  "emit_member k JNull = json_gen_obj_set_null (Some k)"
| "emit_member k (JBool b) = json_gen_obj_set_bool (Some k) b"
| "emit_member k (JInt i) = json_gen_obj_set_int (Some k) i"
| "emit_member k (JFloat s) = json_gen_obj_set_float (Some k) s"
| "emit_member k (JStr s) = json_gen_obj_set_string (Some k) (Some s)"
| "emit_member k (JLong s ss) = seqg (json_gen_obj_start_long_string (Some k) (Some s))
     (seqg (seqs (map (\<lambda>x. json_gen_add_to_long_string (Some x)) ss)) json_gen_end_long_string)"
| "emit_member k (JArr vs) = seqg (json_gen_push_array (Some k)) (seqg (seqs (map emit_elem vs)) json_gen_pop_array)"
| "emit_member k (JObj ms) = seqg (json_gen_push_object (Some k))
     (seqg (seqs (map (\<lambda>(n, v). emit_member n v) ms)) json_gen_pop_object)"
| "emit_elem JNull = json_gen_arr_set_null"
| "emit_elem (JBool b) = json_gen_arr_set_bool b"
| "emit_elem (JInt i) = json_gen_arr_set_int i"
| "emit_elem (JFloat s) = json_gen_arr_set_float s"
| "emit_elem (JStr s) = json_gen_arr_set_string (Some s)"
| "emit_elem (JLong s ss) = seqg (json_gen_arr_start_long_string (Some s))
     (seqg (seqs (map (\<lambda>x. json_gen_add_to_long_string (Some x)) ss)) json_gen_end_long_string)"
| "emit_elem (JArr vs) = seqg json_gen_start_array (seqg (seqs (map emit_elem vs)) json_gen_end_array)"
| "emit_elem (JObj ms) = seqg json_gen_start_object
     (seqg (seqs (map (\<lambda>(n, v). emit_member n v) ms)) json_gen_end_object)"

text \<open>A whole document between start and end.\<close>

definition json_document :: "string option \<Rightarrow> int \<Rightarrow> bool \<Rightarrow> json \<Rightarrow> (int \<times> string list \<times> string option) option" where
  "json_document b n cb v = Option.bind (emit_elem v (json_gen_str_start b n cb)) (\<lambda>(_, j). json_gen_str_end j)"

section \<open>What a call writes\<close>

text \<open>
  \<open>emits ok out clip g t c\<close>: from any good state the call \<open>g\<close> succeeds, appends the text \<open>t\<close> (which depends
  on whether a comma is due) as far as the sink takes it, and leaves the comma flag \<open>c\<close>.
\<close>

definition emits ::
  "(json_gen_str \<Rightarrow> bool) \<Rightarrow> (json_gen_str \<Rightarrow> string) \<Rightarrow> (string \<Rightarrow> string) \<Rightarrow> gen \<Rightarrow> (bool \<Rightarrow> string) \<Rightarrow> (bool \<Rightarrow> bool) \<Rightarrow> bool" where
  "emits ok out clip g t c \<longleftrightarrow> (\<forall>j. ok j \<longrightarrow> (\<exists>r j'. g j = Some (r, j') \<and> ok j' \<and>
     out j' = clip (out j @ t (comma_req j)) \<and> comma_req j' = c (comma_req j) \<and>
     total_len j' = total_len j + int (length (t (comma_req j)))))"

definition sep :: "bool \<Rightarrow> string" where
  "sep b = (if b then '','' else [])"

fun wf_json :: "json \<Rightarrow> bool" where
  "wf_json JNull = True"
| "wf_json (JBool b) = True"
| "wf_json (JInt i) = (- (2 ^ 31) \<le> i \<and> i < 2 ^ 31)"
| "wf_json (JFloat s) = (NUL \<notin> set s \<and> length s < MAX_FLOAT_IN_STR)"
| "wf_json (JStr s) = (NUL \<notin> set s)"
| "wf_json (JLong s ss) = (NUL \<notin> set s \<and> (\<forall>x \<in> set ss. NUL \<notin> set x))"
| "wf_json (JArr vs) = (\<forall>v \<in> set vs. wf_json v)"
| "wf_json (JObj ms) = (\<forall>(k, v) \<in> set ms. NUL \<notin> set k \<and> wf_json v)"

declare dec_nat.simps [simp del]

lemma length_dec_nat: "n < 10 ^ k \<Longrightarrow> 0 < k \<Longrightarrow> length (dec_nat n) \<le> k"
proof (induction n arbitrary: k rule: dec_nat.induct)
  case (1 n)
  show ?case
  proof (cases "n < 10")
    case False
    with 1 obtain m where m: "k = Suc m" "0 < m" by (cases k; cases "k - 1") auto
    have "n div 10 < 10 ^ m" using 1(2) m by (simp add: div_less_iff_less_mult mult.commute)
    then show ?thesis using 1(1) [OF False _ m(2)] False m(1) by (subst dec_nat.simps) simp
  qed (use 1 in \<open>subst dec_nat.simps, simp\<close>)
qed

lemma digit_no_NUL: "(d :: nat) < 10 \<Longrightarrow> char_of (48 + d) \<noteq> NUL"
proof
  assume "d < 10" "char_of (48 + d) = NUL"
  then have "of_char (char_of (48 + d)) = (of_char NUL :: nat)" by simp
  then show False using \<open>d < 10\<close> by (simp add: NUL_def)
qed

lemma dec_nat_no_NUL: "NUL \<notin> set (dec_nat n)"
proof (induction n rule: dec_nat.induct)
  case (1 n)
  then show ?case
    using digit_no_NUL [of n] digit_no_NUL [of "n mod 10"] by (subst dec_nat.simps) auto
qed

lemma dec_int_text:
  assumes "- (2 ^ 31) \<le> i" "i < 2 ^ 31"
  shows "take 23 (dec_int i) = dec_int i" and "NUL \<notin> set (dec_int i)"
proof -
  have "length (dec_nat (nat \<bar>i\<bar>)) \<le> 10" using assms by (intro length_dec_nat) auto
  then show "take 23 (dec_int i) = dec_int i"
    by (auto simp: dec_int_def abs_if split: if_splits)
  show "NUL \<notin> set (dec_int i)" using dec_nat_no_NUL by (auto simp: dec_int_def NUL_def)
qed

section \<open>Sinks\<close>

locale json_sink =
  fixes ok :: "json_gen_str \<Rightarrow> bool"
    and out :: "json_gen_str \<Rightarrow> string"
    and clip :: "string \<Rightarrow> string"
  assumes clip_clip: "clip (clip x @ y) = clip (x @ y)"
    and out_clip: "ok j \<Longrightarrow> clip (out j) = out j"
    and comma_frame: "ok (j\<lparr>comma_req := b\<rparr>) = ok j" "out (j\<lparr>comma_req := b\<rparr>) = out j"
    and add_ok: "ok j \<Longrightarrow> NUL \<notin> set s \<Longrightarrow>
      \<exists>r j'. json_gen_add_to_str (Some s) j = Some (r, j') \<and> ok j' \<and> out j' = clip (out j @ s) \<and>
        comma_req j' = comma_req j \<and> total_len j' = total_len j + int (length s)"
begin

lemma emits_str: "NUL \<notin> set s \<Longrightarrow> emits ok out clip (json_gen_add_to_str (Some s)) (\<lambda>_. s) (\<lambda>b. b)"
  unfolding emits_def using add_ok by blast

lemma emits_lit: "NUL \<notin> set s \<Longrightarrow> emits ok out clip (add_lit s) (\<lambda>_. s) (\<lambda>b. b)"
  unfolding add_lit_def by (rule emits_str)

lemma emits_skip: "emits ok out clip (\<lambda>j. Some (0, j)) (\<lambda>_. []) (\<lambda>b. b)"
  by (simp add: emits_def out_clip)

lemma emits_set_comma: "emits ok out clip (set_comma c) (\<lambda>_. []) (\<lambda>_. c)"
  by (simp add: emits_def set_comma_def comma_frame out_clip)

lemma emits_seq:
  assumes "emits ok out clip g t c" "emits ok out clip h u d"
  shows "emits ok out clip (seqg g h) (\<lambda>b. t b @ u (c b)) (\<lambda>b. d (c b))"
  unfolding emits_def
proof (intro allI impI)
  fix j assume "ok j"
  then obtain r j1 where 1: "g j = Some (r, j1)" "ok j1" "out j1 = clip (out j @ t (comma_req j))"
    "comma_req j1 = c (comma_req j)" "total_len j1 = total_len j + int (length (t (comma_req j)))"
    using assms(1) unfolding emits_def by blast
  moreover obtain q j2 where 2: "h j1 = Some (q, j2)" "ok j2" "out j2 = clip (out j1 @ u (comma_req j1))"
    "comma_req j2 = d (comma_req j1)" "total_len j2 = total_len j1 + int (length (u (comma_req j1)))"
    using assms(2) 1(2) unfolding emits_def by blast
  ultimately show "\<exists>r j'. seqg g h j = Some (r, j') \<and> ok j' \<and>
      out j' = clip (out j @ t (comma_req j) @ u (c (comma_req j))) \<and> comma_req j' = d (c (comma_req j)) \<and>
      total_len j' = total_len j + int (length (t (comma_req j) @ u (c (comma_req j))))"
    using clip_clip [of "out j @ t (comma_req j)" "u (c (comma_req j))"] by (simp add: seqg_def)
qed

lemma emits_eq: "emits ok out clip g t c \<Longrightarrow> (\<And>b. t' b = t b) \<Longrightarrow> (\<And>b. c' b = c b) \<Longrightarrow> emits ok out clip g t' c'"
  by (simp add: emits_def)

lemma emits_handle_comma: "emits ok out clip json_gen_handle_comma sep (\<lambda>b. b)"
proof -
  have "NUL \<notin> set '',''" by (simp add: NUL_def)
  from emits_lit [OF this] show ?thesis
    by (auto simp: emits_def json_gen_handle_comma_def sep_def out_clip)
qed

lemma emits_name: "NUL \<notin> set k \<Longrightarrow>
    emits ok out clip (json_gen_handle_name (Some k)) (\<lambda>_. quoted k @ '':'') (\<lambda>b. b)"
  unfolding json_gen_handle_name_def
  by (rule emits_eq, (rule emits_seq emits_lit emits_str | (simp add: NUL_def quoted_def; fail))+)

lemma emits_obj_set:
  assumes "NUL \<notin> set k" "emits ok out clip g (\<lambda>_. t) (\<lambda>_. c)"
  shows "emits ok out clip (obj_set (Some k) g) (\<lambda>b. sep b @ quoted k @ '':'' @ t) (\<lambda>_. c)"
  unfolding obj_set_def
  by (rule emits_eq, (rule emits_seq emits_handle_comma emits_name assms | (simp; fail))+)

lemma emits_arr_set: "emits ok out clip g (\<lambda>_. t) (\<lambda>_. c) \<Longrightarrow> emits ok out clip (arr_set g) (\<lambda>b. sep b @ t) (\<lambda>_. c)"
  unfolding arr_set_def by (rule emits_eq, (assumption | rule emits_seq emits_handle_comma | (simp; fail))+)

text \<open>The atoms.\<close>

lemma emits_bool: "emits ok out clip (json_gen_set_bool b) (\<lambda>_. render (JBool b)) (\<lambda>_. True)"
  unfolding json_gen_set_bool_def
  by (cases b; rule emits_eq, rule emits_seq [OF emits_set_comma], simp, rule emits_lit; simp add: NUL_def)

lemma emits_atoms:
  "emits ok out clip json_gen_set_null (\<lambda>_. render JNull) (\<lambda>_. True)"
  "wf_json (JInt i) \<Longrightarrow> emits ok out clip (json_gen_set_int i) (\<lambda>_. render (JInt i)) (\<lambda>_. True)"
  "wf_json (JFloat s) \<Longrightarrow> emits ok out clip (json_gen_set_float s) (\<lambda>_. render (JFloat s)) (\<lambda>_. True)"
  "wf_json (JStr s) \<Longrightarrow> emits ok out clip (json_gen_set_string (Some s)) (\<lambda>_. render (JStr s)) (\<lambda>_. True)"
  "NUL \<notin> set s \<Longrightarrow> emits ok out clip (json_gen_set_long_string (Some s)) (\<lambda>_. CHR 0x22 # s) (\<lambda>_. True)"
  unfolding json_gen_set_null_def json_gen_set_bool_def json_gen_set_int_def json_gen_set_float_def
    json_gen_set_string_def json_gen_set_long_string_def
  by (rule emits_eq, (rule emits_seq emits_set_comma emits_lit emits_str
      | (simp add: NUL_def; fail) | (simp add: quoted_def; fail)
      | (use in_set_takeD in \<open>force simp: MAX_INT_IN_STR_def MAX_FLOAT_IN_STR_def dec_int_text\<close>))+)+

text \<open>Lists of elements, each separated from what is before it.\<close>

lemma emits_seqs:
  "list_all2 (\<lambda>g s. emits ok out clip g (\<lambda>b. sep b @ s) (\<lambda>_. True)) gs ss \<Longrightarrow>
   emits ok out clip (seqs gs) (\<lambda>b. if ss = [] then [] else sep b @ commas ss) (\<lambda>b. b \<or> ss \<noteq> [])"
proof (induction gs ss rule: list_all2_induct)
  case Nil
  then show ?case using emits_skip by simp
next
  case (Cons g gs s ss)
  have "sep b @ s @ (if ss = [] then [] else sep True @ commas ss) = sep b @ commas (s # ss)" for b
    by (cases ss) (simp_all add: sep_def)
  with emits_seq [OF Cons.hyps(1) Cons.IH] show ?case by (auto elim!: emits_eq)
qed

lemma emits_chunks:
  "\<forall>x \<in> set ss. NUL \<notin> set x \<Longrightarrow>
   emits ok out clip (seqs (map (\<lambda>x. json_gen_add_to_long_string (Some x)) ss)) (\<lambda>_. concat ss) (\<lambda>b. b)"
proof (induction ss)
  case Nil
  then show ?case using emits_skip by simp
next
  case (Cons s ss)
  then show ?case using emits_seq [OF emits_str [of s] Cons.IH]
    by (simp add: json_gen_add_to_long_string_def)
qed

lemma emits_open:
  "emits ok out clip json_gen_start_object (\<lambda>b. sep b @ ''{'') (\<lambda>_. False)"
  "emits ok out clip json_gen_start_array (\<lambda>b. sep b @ ''['') (\<lambda>_. False)"
  "NUL \<notin> set k \<Longrightarrow> emits ok out clip (json_gen_push_object (Some k)) (\<lambda>b. sep b @ quoted k @ '':'' @ ''{'') (\<lambda>_. False)"
  "NUL \<notin> set k \<Longrightarrow> emits ok out clip (json_gen_push_array (Some k)) (\<lambda>b. sep b @ quoted k @ '':'' @ ''['') (\<lambda>_. False)"
  unfolding json_gen_start_object_def json_gen_start_array_def json_gen_push_object_def json_gen_push_array_def
  by (rule emits_eq [OF emits_seq [OF emits_seq [OF emits_handle_comma emits_set_comma] emits_lit]]
        emits_eq [OF emits_seq [OF emits_seq [OF emits_seq [OF emits_handle_comma emits_name] emits_set_comma] emits_lit]],
      simp_all add: NUL_def)+

lemma emits_close:
  "emits ok out clip json_gen_end_object (\<lambda>_. ''}'') (\<lambda>_. True)"
  "emits ok out clip json_gen_end_array (\<lambda>_. '']'') (\<lambda>_. True)"
  "emits ok out clip json_gen_pop_object (\<lambda>_. ''}'') (\<lambda>_. True)"
  "emits ok out clip json_gen_pop_array (\<lambda>_. '']'') (\<lambda>_. True)"
  "emits ok out clip json_gen_end_long_string (\<lambda>_. [CHR 0x22]) (\<lambda>b. b)"
  unfolding json_gen_end_object_def json_gen_end_array_def json_gen_pop_object_def json_gen_pop_array_def
    json_gen_end_long_string_def
  by (rule emits_eq, (rule emits_seq emits_set_comma emits_lit | (simp add: NUL_def; fail))+)+

text \<open>Composite values: an opening, the elements, a closing.\<close>

lemma emits_composite:
  assumes "emits ok out clip op t (\<lambda>_. False)" "emits ok out clip cl (\<lambda>_. u) (\<lambda>_. True)"
    and "list_all2 (\<lambda>g s. emits ok out clip g (\<lambda>b. sep b @ s) (\<lambda>_. True)) gs ss"
  shows "emits ok out clip (seqg op (seqg (seqs gs) cl)) (\<lambda>b. t b @ commas ss @ u) (\<lambda>_. True)"
  by (rule emits_eq [OF emits_seq [OF assms(1) emits_seq [OF emits_seqs [OF assms(3)] assms(2)]]])
    (simp_all add: sep_def)

lemma emits_long:
  assumes "emits ok out clip g (\<lambda>b. t b @ CHR 0x22 # s) (\<lambda>_. True)" "\<forall>x \<in> set ss. NUL \<notin> set x"
  shows "emits ok out clip (seqg g (seqg (seqs (map (\<lambda>x. json_gen_add_to_long_string (Some x)) ss))
    json_gen_end_long_string)) (\<lambda>b. t b @ quoted (s @ concat ss)) (\<lambda>_. True)"
  by (rule emits_eq [OF emits_seq [OF assms(1) emits_seq [OF emits_chunks [OF assms(2)] emits_close(5)]]])
    (simp_all add: quoted_def)

text \<open>Every value is written as its text.\<close>

lemma emits_value:
  "NUL \<notin> set k \<Longrightarrow> wf_json v \<Longrightarrow>
    emits ok out clip (emit_member k v) (\<lambda>b. sep b @ quoted k @ '':'' @ render v) (\<lambda>_. True)"
  "wf_json w \<Longrightarrow> emits ok out clip (emit_elem w) (\<lambda>b. sep b @ render w) (\<lambda>_. True)"
proof (induction k v and w rule: emit_member_emit_elem.induct)
  case (6 k s ss)
  then have "emits ok out clip (json_gen_obj_start_long_string (Some k) (Some s))
      (\<lambda>b. (sep b @ quoted k @ '':'') @ CHR 0x22 # s) (\<lambda>_. True)"
    unfolding json_gen_obj_start_long_string_def
    by (intro emits_eq [OF emits_obj_set [OF _ emits_atoms(5)]]) auto
  from emits_long [OF this, of ss] 6 show ?case by simp
next
  case (7 k vs)
  have "list_all2 (\<lambda>g s. emits ok out clip g (\<lambda>b. sep b @ s) (\<lambda>_. True)) (map emit_elem vs) (map render vs)"
    using 7 by (auto simp: list_all2_map1 list_all2_map2 list_all2_same)
  from emits_composite [OF emits_open(4) [OF 7(2)] emits_close(4) this] show ?case by simp
next
  case (8 k ms)
  have "list_all2 (\<lambda>g s. emits ok out clip g (\<lambda>b. sep b @ s) (\<lambda>_. True))
      (map (\<lambda>(n, v). emit_member n v) ms) (map (\<lambda>(k, v). quoted k @ '':'' @ render v) ms)"
    using 8 by (fastforce simp: list_all2_map1 list_all2_map2 list_all2_same)
  from emits_composite [OF emits_open(3) [OF 8(2)] emits_close(3) this] show ?case by simp
next
  case (14 s ss)
  then have "emits ok out clip (json_gen_arr_start_long_string (Some s)) (\<lambda>b. sep b @ CHR 0x22 # s) (\<lambda>_. True)"
    unfolding json_gen_arr_start_long_string_def
    by (intro emits_arr_set emits_atoms(5)) auto
  from emits_long [OF this, of ss] 14 show ?case by simp
next
  case (15 vs)
  have "list_all2 (\<lambda>g s. emits ok out clip g (\<lambda>b. sep b @ s) (\<lambda>_. True)) (map emit_elem vs) (map render vs)"
    using 15 by (auto simp: list_all2_map1 list_all2_map2 list_all2_same)
  from emits_composite [OF emits_open(2) emits_close(2) this] show ?case by simp
next
  case (16 ms)
  have "list_all2 (\<lambda>g s. emits ok out clip g (\<lambda>b. sep b @ s) (\<lambda>_. True))
      (map (\<lambda>(n, v). emit_member n v) ms) (map (\<lambda>(k, v). quoted k @ '':'' @ render v) ms)"
    using 16 by (fastforce simp: list_all2_map1 list_all2_map2 list_all2_same)
  from emits_composite [OF emits_open(1) emits_close(1) this] show ?case by simp
next
  case (1 k)
  then show ?case using emits_obj_set [OF _ emits_atoms(1), of k] by (simp add: json_gen_obj_set_null_def)
next
  case (2 k b)
  then show ?case using emits_obj_set [OF _ emits_bool, of k b] by (simp add: json_gen_obj_set_bool_def)
next
  case (3 k i)
  then show ?case using emits_obj_set [OF _ emits_atoms(2), of k i] by (simp add: json_gen_obj_set_int_def)
next
  case (4 k s)
  then show ?case using emits_obj_set [OF _ emits_atoms(3), of k s] by (simp add: json_gen_obj_set_float_def)
next
  case (5 k s)
  then show ?case using emits_obj_set [OF _ emits_atoms(4), of k s] by (simp add: json_gen_obj_set_string_def)
next
  case 9
  show ?case using emits_arr_set [OF emits_atoms(1)] by (simp add: json_gen_arr_set_null_def)
next
  case (10 b)
  show ?case using emits_arr_set [OF emits_bool, of b] by (simp add: json_gen_arr_set_bool_def)
next
  case (11 i)
  then show ?case using emits_arr_set [OF emits_atoms(2), of i] by (simp add: json_gen_arr_set_int_def)
next
  case (12 s)
  then show ?case using emits_arr_set [OF emits_atoms(3), of s] by (simp add: json_gen_arr_set_float_def)
next
  case (13 s)
  then show ?case using emits_arr_set [OF emits_atoms(4), of s] by (simp add: json_gen_arr_set_string_def)
qed

lemma document_text:
  assumes "wf_json v" "ok (json_gen_str_start b n cb)" "out (json_gen_str_start b n cb) = []"
  obtains r j where "emit_elem v (json_gen_str_start b n cb) = Some (r, j)" "ok j" "out j = clip (render v)"
    "total_len j = int (length (render v))"
  using emits_value(2) [OF assms(1)] assms(2,3)
  by (force simp: emits_def sep_def json_gen_str_start_def)

end

section \<open>The three sinks\<close>

text \<open>What was flushed and what is in the buffer.\<close>

definition out_buf :: "json_gen_str \<Rightarrow> string" where
  "out_buf j = concat (flushed j) @ (case jbuf j of None \<Rightarrow> [] | Some b \<Rightarrow> take (free_ptr j) b)"

text \<open>With a callback: every flushed string has the length of the buffer less one.\<close>

definition ok_flush :: "nat \<Rightarrow> json_gen_str \<Rightarrow> bool" where
  "ok_flush n j \<longleftrightarrow> 2 \<le> n \<and> flush_cb j \<and> buf_size j = int n \<and> free_ptr j \<le> n - 1 \<and>
     (\<exists>b. jbuf j = Some b \<and> length b = n \<and> NUL \<notin> set (take (free_ptr j) b)) \<and>
     (\<forall>s \<in> set (flushed j). length s = n - 1)"

definition ok_plain :: "nat \<Rightarrow> json_gen_str \<Rightarrow> bool" where
  "ok_plain n j \<longleftrightarrow> 1 \<le> n \<and> \<not> flush_cb j \<and> buf_size j = int n \<and> free_ptr j \<le> n - 1 \<and> flushed j = [] \<and>
     (\<exists>b. jbuf j = Some b \<and> length b = n \<and> NUL \<notin> set (take (free_ptr j) b))"

definition ok_null :: "json_gen_str \<Rightarrow> bool" where
  "ok_null j \<longleftrightarrow> jbuf j = None \<and> flushed j = []"

lemma out_buf_frame [simp]:
  "out_buf (j\<lparr>comma_req := c\<rparr>) = out_buf j" "out_buf (j\<lparr>total_len := l\<rparr>) = out_buf j"
  by (cases "jbuf j"; simp add: out_buf_def)+

text \<open>The copy when everything fits, and when it does not.\<close>

lemma add_loop_fits:
  assumes "buf_size j = int n" "length b = n" "free_ptr j + length cur < n"
  obtains b' where "memcpy_to b (free_ptr j) cur = Some b'"
    "add_loop b cur j = Some (0, j\<lparr>jbuf := Some b', free_ptr := free_ptr j + length cur\<rparr>)"
proof -
  obtain b' where b: "memcpy_to b (free_ptr j) cur = Some b'" using memcpy_some [of "free_ptr j" cur b] assms by auto
  have "add_loop b cur j = Some (0, j\<lparr>jbuf := Some b', free_ptr := free_ptr j + length cur\<rparr>)"
    using assms b by (subst add_loop.simps) (auto simp: Let_def json_gen_get_empty_len_def)
  then show ?thesis using b that by blast
qed

lemma add_loop_full:
  assumes "buf_size j = int n" "length b = n" "free_ptr j < n" "n \<le> free_ptr j + length cur"
  obtains b1 b2 where "memcpy_to b (free_ptr j) (take (n - 1 - free_ptr j) cur) = Some b1"
    "memcpy_to b1 (n - 1) [NUL] = Some b2"
    "add_loop b cur j =
       (if \<not> flush_cb j then Some (-1, j\<lparr>jbuf := Some b2, free_ptr := n - 1\<rparr>)
        else add_loop b2 (drop (n - 1 - free_ptr j) cur)
               (j\<lparr>jbuf := Some b2, flushed := flushed j @ [c_string b2], free_ptr := 0\<rparr>))"
proof -
  let ?k = "n - 1 - free_ptr j"
  have k: "nat (json_gen_get_empty_len j) = ?k" "\<not> json_gen_get_empty_len j > int (length cur)"
    "\<not> json_gen_get_empty_len j < 0" "free_ptr j + ?k = n - 1"
    using assms by (auto simp: json_gen_get_empty_len_def)
  obtain b1 where b1: "memcpy_to b (free_ptr j) (take ?k cur) = Some b1"
    using memcpy_some [of "free_ptr j" "take ?k cur" b] assms by auto
  have "length b1 = n" using take_memcpy [OF b1] assms by simp
  then obtain b2 where b2: "memcpy_to b1 (n - 1) [NUL] = Some b2"
    using memcpy_some [of "n - 1" "[NUL]" b1] assms by auto
  have "drop ?k cur \<noteq> []" using assms by simp
  then have "add_loop b cur j =
       (if \<not> flush_cb j then Some (-1, j\<lparr>jbuf := Some b2, free_ptr := n - 1\<rparr>)
        else add_loop b2 (drop ?k cur) (j\<lparr>jbuf := Some b2, flushed := flushed j @ [c_string b2], free_ptr := 0\<rparr>))"
    by (subst add_loop.simps) (simp only: Let_def k b1 b2 if_False not_False_eq_True if_True bind.bind_lunit option.sel Option.bind.bind_lunit)
  then show ?thesis using b1 b2 that by blast
qed

lemma c_string_terminated:
  assumes "memcpy_to b p [NUL] = Some b'" "NUL \<notin> set (take p b)"
  shows "c_string b' = take p b"
proof -
  have "b' = take p b @ NUL # drop (Suc p) b" using assms(1)
    by (auto simp: memcpy_to_def blit_def split: if_splits)
  then show ?thesis using assms(2) by (auto simp: c_string_def takeWhile_append)
qed

lemma add_loop_flush:
  "ok_flush n j \<Longrightarrow> jbuf j = Some b \<Longrightarrow> NUL \<notin> set cur \<Longrightarrow>
   \<exists>j'. add_loop b cur j = Some (0, j') \<and> ok_flush n j' \<and> out_buf j' = out_buf j @ cur \<and>
     comma_req j' = comma_req j \<and> total_len j' = total_len j"
proof (induction "2 * length cur + free_ptr j" arbitrary: b cur j rule: less_induct)
  case less
  note ok = less.prems(1) [unfolded ok_flush_def]
  have b: "length b = n" "NUL \<notin> set (take (free_ptr j) b)" using ok less.prems(2) by auto
  show ?case
  proof (cases "free_ptr j + length cur < n")
    case True
    obtain b' where b': "memcpy_to b (free_ptr j) cur = Some b'"
      "add_loop b cur j = Some (0, j\<lparr>jbuf := Some b', free_ptr := free_ptr j + length cur\<rparr>)"
      using add_loop_fits [of j n b cur] ok b True by auto
    then show ?thesis using take_memcpy [OF b'(1)] ok b less.prems True
      by (auto simp: ok_flush_def out_buf_def)
  next
    case False
    let ?k = "n - 1 - free_ptr j"
    have pre: "buf_size j = int n" "free_ptr j < n" "n \<le> free_ptr j + length cur" using ok False by auto
    obtain b1 b2 where w: "memcpy_to b (free_ptr j) (take ?k cur) = Some b1" "memcpy_to b1 (n - 1) [NUL] = Some b2"
      "add_loop b cur j = add_loop b2 (drop ?k cur)
        (j\<lparr>jbuf := Some b2, flushed := flushed j @ [c_string b2], free_ptr := 0\<rparr>)"
      using add_loop_full [OF pre(1) b(1) pre(2,3)] ok by auto
    let ?j = "j\<lparr>jbuf := Some b2, flushed := flushed j @ [c_string b2], free_ptr := 0\<rparr>"
    have k: "length (take ?k cur) = ?k" "free_ptr j + ?k = n - 1" using pre by simp_all
    have t1: "length b1 = n" "take (n - 1) b1 = take (free_ptr j) b @ take ?k cur"
      using take_memcpy [OF w(1)] b(1) unfolding k by blast+
    have "NUL \<notin> set (take (n - 1) b1)" unfolding t1(2) using b(2) less.prems(3) by (auto dest: in_set_takeD)
    then have cs: "c_string b2 = take (free_ptr j) b @ take ?k cur"
      using c_string_terminated [OF w(2)] t1(2) by simp
    have "length (c_string b2) = free_ptr j + ?k"
      unfolding cs length_append k using b(1) pre by simp
    then have lc: "length (c_string b2) = n - 1" by (simp only: k)
    have "length b2 = n" using take_memcpy [OF w(2)] t1(1) by simp
    then have ok2: "ok_flush n ?j" using ok lc by (auto simp: ok_flush_def)
    have "2 * length (drop ?k cur) + free_ptr ?j < 2 * length cur + free_ptr j" using ok False by auto
    from less.hyps [OF this ok2] less.prems(3) obtain j' where
      "add_loop b2 (drop ?k cur) ?j = Some (0, j')" "ok_flush n j'" "out_buf j' = out_buf ?j @ drop ?k cur"
      "comma_req j' = comma_req j" "total_len j' = total_len j"
      by (auto dest: in_set_dropD)
    moreover have "out_buf ?j @ drop ?k cur = out_buf j @ cur"
      using less.prems(2) by (simp add: out_buf_def cs)
    ultimately show ?thesis using w(3) by auto
  qed
qed

lemma add_loop_plain:
  assumes "ok_plain n j" "jbuf j = Some b" "NUL \<notin> set cur"
  shows "\<exists>r j'. add_loop b cur j = Some (r, j') \<and> ok_plain n j' \<and> out_buf j' = take (n - 1) (out_buf j @ cur) \<and>
     comma_req j' = comma_req j \<and> total_len j' = total_len j"
proof -
  note ok = assms(1) [unfolded ok_plain_def]
  have b: "length b = n" "NUL \<notin> set (take (free_ptr j) b)" using ok assms(2) by auto
  show ?thesis
  proof (cases "free_ptr j + length cur < n")
    case True
    obtain b' where b': "memcpy_to b (free_ptr j) cur = Some b'"
      "add_loop b cur j = Some (0, j\<lparr>jbuf := Some b', free_ptr := free_ptr j + length cur\<rparr>)"
      using add_loop_fits [of j n b cur] ok b True by auto
    then show ?thesis using take_memcpy [OF b'(1)] ok b assms True
      by (auto simp: ok_plain_def out_buf_def min_def)
  next
    case False
    let ?k = "n - 1 - free_ptr j"
    have pre: "buf_size j = int n" "free_ptr j < n" "n \<le> free_ptr j + length cur" using ok False by auto
    obtain b1 b2 where w: "memcpy_to b (free_ptr j) (take ?k cur) = Some b1" "memcpy_to b1 (n - 1) [NUL] = Some b2"
      "add_loop b cur j = Some (-1, j\<lparr>jbuf := Some b2, free_ptr := n - 1\<rparr>)"
      using add_loop_full [OF pre(1) b(1) pre(2,3)] ok by auto
    have k: "length (take ?k cur) = ?k" "free_ptr j + ?k = n - 1" using pre by simp_all
    have t1: "length b1 = n" "take (n - 1) b1 = take (free_ptr j) b @ take ?k cur"
      using take_memcpy [OF w(1)] b(1) unfolding k by blast+
    have "take (n - 1) b2 = take (n - 1) b1" "length b2 = n"
      using w(2) t1(1) by (auto simp: memcpy_to_def blit_def split: if_splits)
    then show ?thesis using w(3) t1 ok b assms
      by (auto simp: ok_plain_def out_buf_def min_def dest: in_set_takeD)
  qed
qed

interpretation flush: json_sink "ok_flush n" out_buf "\<lambda>s. s" for n
proof
  fix j and s :: string
  assume a: "ok_flush n j" "NUL \<notin> set s"
  then obtain b where b: "jbuf j = Some b" by (auto simp: ok_flush_def)
  let ?j = "j\<lparr>total_len := total_len j + int (length s)\<rparr>"
  have "ok_flush n ?j" "jbuf ?j = Some b" using a b by (auto simp: ok_flush_def)
  from add_loop_flush [OF this a(2)] show
    "\<exists>r j'. json_gen_add_to_str (Some s) j = Some (r, j') \<and> ok_flush n j' \<and> out_buf j' = out_buf j @ s \<and>
        comma_req j' = comma_req j \<and> total_len j' = total_len j + int (length s)"
    by (auto simp: json_gen_add_to_str_def b out_buf_def)
qed (auto simp: ok_flush_def)

interpretation plain: json_sink "ok_plain n" out_buf "take (n - 1)" for n
proof
  fix j and s :: string
  assume a: "ok_plain n j" "NUL \<notin> set s"
  then obtain b where b: "jbuf j = Some b" by (auto simp: ok_plain_def)
  let ?j = "j\<lparr>total_len := total_len j + int (length s)\<rparr>"
  have "ok_plain n ?j" "jbuf ?j = Some b" using a b by (auto simp: ok_plain_def)
  from add_loop_plain [OF this a(2)] show
    "\<exists>r j'. json_gen_add_to_str (Some s) j = Some (r, j') \<and> ok_plain n j' \<and> out_buf j' = take (n - 1) (out_buf j @ s) \<and>
        comma_req j' = comma_req j \<and> total_len j' = total_len j + int (length s)"
    by (auto simp: json_gen_add_to_str_def b out_buf_def)
next
  fix x y :: string
  show "take (n - 1) (take (n - 1) x @ y) = take (n - 1) (x @ y)"
    by (auto simp: min_def)
qed (auto simp: ok_plain_def, simp add: out_buf_def)

interpretation null: json_sink ok_null out_buf "\<lambda>_. []"
  by unfold_locales (auto simp: ok_null_def json_gen_add_to_str_def, simp_all add: out_buf_def)

section \<open>Whole documents\<close>

lemma document_flushes:
  assumes "wf_json v" and "2 \<le> length b"
  shows "\<exists>chunks m. json_document (Some b) (int (length b)) True v = Some (int (length (render v)) + 1, chunks, m) \<and>
    concat chunks = render v \<and> (\<forall>x \<in> set (butlast chunks). length x = length b - 1)"
proof -
  let ?s = "json_gen_str_start (Some b) (int (length b)) True"
  have "ok_flush (length b) ?s" "out_buf ?s = []"
    using assms(2) by (simp_all add: ok_flush_def out_buf_def json_gen_str_start_def)
  from flush.document_text [OF assms(1) this] obtain r j where
    j: "emit_elem v ?s = Some (r, j)" "ok_flush (length b) j" "out_buf j = render v" "total_len j = int (length (render v))"
    by blast
  obtain b1 where b1: "jbuf j = Some b1" "length b1 = length b" "NUL \<notin> set (take (free_ptr j) b1)" "flush_cb j"
    "free_ptr j \<le> length b - 1"
    using j(2) by (auto simp: ok_flush_def)
  have "free_ptr j + length [NUL] \<le> length b1" using b1(2,5) assms(2) by simp
  then obtain b2 where b2: "memcpy_to b1 (free_ptr j) [NUL] = Some b2" using memcpy_some by blast
  have "json_document (Some b) (int (length b)) True v =
      Some (int (length (render v)) + 1, flushed j @ [take (free_ptr j) b1], Some b2)"
    using j(1,4) b1 b2 c_string_terminated [OF b2 b1(3)] by (simp add: json_document_def json_gen_str_end_def)
  moreover have "concat (flushed j @ [take (free_ptr j) b1]) = render v" using j(3) b1(1) by (simp add: out_buf_def)
  moreover have "\<forall>x \<in> set (butlast (flushed j @ [take (free_ptr j) b1])). length x = length b - 1"
    using j(2) by (simp add: ok_flush_def)
  ultimately show ?thesis by blast
qed


text \<open>Without a callback the buffer holds as much of the text as fits, terminated, and without a buffer
  nothing is written; the returned number is the length of the whole text with its NUL in both
  cases, so the needed size can be measured first.\<close>

theorem document_without_callback:
  assumes "wf_json v" and "1 \<le> length b"
  shows "(\<exists>m. json_document (Some b) (int (length b)) False v = Some (int (length (render v)) + 1, [], Some m) \<and>
      c_string m = take (length b - 1) (render v)) \<and>
    json_document None n cb v = Some (int (length (render v)) + 1, [], None)"
proof
  let ?s = "json_gen_str_start (Some b) (int (length b)) False"
  have "ok_plain (length b) ?s" "out_buf ?s = []"
    using assms(2) by (simp_all add: ok_plain_def out_buf_def json_gen_str_start_def)
  from plain.document_text [OF assms(1) this] obtain r j where
    j: "emit_elem v ?s = Some (r, j)" "ok_plain (length b) j" "out_buf j = take (length b - 1) (render v)"
    "total_len j = int (length (render v))"
    by blast
  obtain b1 where b1: "jbuf j = Some b1" "length b1 = length b" "NUL \<notin> set (take (free_ptr j) b1)" "\<not> flush_cb j"
    "free_ptr j \<le> length b - 1" "flushed j = []"
    using j(2) by (auto simp: ok_plain_def)
  have "free_ptr j + length [NUL] \<le> length b1" using b1(2,5) assms(2) by simp
  then obtain b2 where b2: "memcpy_to b1 (free_ptr j) [NUL] = Some b2" using memcpy_some by blast
  show "\<exists>m. json_document (Some b) (int (length b)) False v = Some (int (length (render v)) + 1, [], Some m) \<and>
      c_string m = take (length b - 1) (render v)"
    using j(1,3,4) b1 b2 c_string_terminated [OF b2 b1(3)]
    by (simp add: json_document_def json_gen_str_end_def out_buf_def)
next
  let ?s = "json_gen_str_start None n cb"
  have "ok_null ?s" "out_buf ?s = []" by (simp_all add: ok_null_def out_buf_def json_gen_str_start_def)
  from null.document_text [OF assms(1) this] obtain r j where
    j: "emit_elem v ?s = Some (r, j)" "ok_null j" "total_len j = int (length (render v))"
    by blast
  then show "json_document None n cb v = Some (int (length (render v)) + 1, [], None)"
    by (simp add: json_document_def json_gen_str_end_def ok_null_def)
qed

text \<open>The text of a number too long for its array is cut: ten to the thirty becomes ten to the twenty-eight.\<close>

lemma long_float_loses_magnitude:
  "take (MAX_FLOAT_IN_STR - 1) (dec_nat (10 ^ 30) @ ''.00000'') = dec_nat (10 ^ 28)"
  by (simp add: MAX_FLOAT_IN_STR_def dec_nat.simps)

definition doc_ex :: json where
  "doc_ex = JObj [(''on'', JBool True), (''l'', JArr [JInt (-5), JNull, JLong ''a'' [''b'', []]])]"

lemma doc_ex_wf: "wf_json doc_ex"
  by (simp add: doc_ex_def NUL_def)

lemma doc_ex_text: "render doc_ex = ''{'' @ quoted ''on'' @ '':true,'' @ quoted ''l'' @ '':[-5,null,'' @ quoted ''ab'' @ '']}''"
  by (simp add: doc_ex_def quoted_def dec_int_def dec_nat.simps char_of_def bit_0)


theorem document_without_callback_witness:
  "(\<exists>m. json_document (Some ''????'') (int (length ''????'')) False doc_ex =
      Some (int (length (render doc_ex)) + 1, [], Some m) \<and> c_string m = take (length ''????'' - 1) (render doc_ex)) \<and>
    json_document None 0 True doc_ex = Some (int (length (render doc_ex)) + 1, [], None)"
  by (rule document_without_callback [OF doc_ex_wf]) simp

end
