(* ===== verification/Jsmn.thy ===== *)
theory Jsmn
  imports Prelude
begin

text \<open>
  The JSON tokenizer (managed_components/espressif__jsmn/include/jsmn.h) the way json_parser.c compiles it:
  strict, with parent links. \<open>js\<close> is the text of the given length and the tokens are the caller's array or
  absent, when tokens are only counted. A result \<open>None\<close> is an access outside the text or the
  array, or a loop without end.
\<close>

section \<open>Tokens\<close>

datatype jsmntype_t = JSMN_UNDEFINED | JSMN_OBJECT | JSMN_ARRAY | JSMN_STRING | JSMN_PRIMITIVE

definition JSMN_ERROR_NOMEM :: int where "JSMN_ERROR_NOMEM = -1"
definition JSMN_ERROR_INVAL :: int where "JSMN_ERROR_INVAL = -2"
definition JSMN_ERROR_PART :: int where "JSMN_ERROR_PART = -3"

lemmas jsmn_errors = JSMN_ERROR_NOMEM_def JSMN_ERROR_INVAL_def JSMN_ERROR_PART_def

record jsmntok =
  t_type :: jsmntype_t
  t_start :: int
  t_end :: int
  t_size :: int
  t_parent :: int

record jsmn_parser =
  p_pos :: nat
  p_toknext :: nat
  p_toksuper :: int

type_synonym tokens = "jsmntok list option"

definition tok_at :: "jsmntok list \<Rightarrow> int \<Rightarrow> jsmntok option" where
  "tok_at ts i = (if 0 \<le> i \<and> i < int (length ts) then Some (ts ! nat i) else None)"

definition tok_set :: "jsmntok list \<Rightarrow> int \<Rightarrow> jsmntok \<Rightarrow> jsmntok list option" where
  "tok_set ts i t = (if 0 \<le> i \<and> i < int (length ts) then Some (ts[nat i := t]) else None)"

text \<open>The index is that of the new token; \<open>Some None\<close> is the null pointer.\<close>

definition jsmn_alloc_token ::
  "jsmn_parser \<Rightarrow> jsmntok list \<Rightarrow> nat \<Rightarrow> (int \<times> jsmn_parser \<times> jsmntok list) option option" where
  "jsmn_alloc_token p ts num_tokens =
     (if p_toknext p \<ge> num_tokens then Some None
      else
        Option.bind (tok_at ts (int (p_toknext p))) (\<lambda>t.
        map_option (\<lambda>ts1. Some (int (p_toknext p), p\<lparr>p_toknext := p_toknext p + 1\<rparr>, ts1))
          (tok_set ts (int (p_toknext p)) (t\<lparr>t_start := -1, t_end := -1, t_size := 0, t_parent := -1\<rparr>))))"

definition jsmn_fill_token :: "jsmntype_t \<Rightarrow> int \<Rightarrow> int \<Rightarrow> jsmntok \<Rightarrow> jsmntok" where
  "jsmn_fill_token type start end_pos t = t\<lparr>t_type := type, t_start := start, t_end := end_pos, t_size := 0\<rparr>"

section \<open>Primitives and strings\<close>

definition NUL_char :: char where "NUL_char = CHR 0x00"

definition prim_end :: "char \<Rightarrow> bool" where
  "prim_end c \<longleftrightarrow> c \<in> {CHR 0x09, CHR 0x0d, CHR 0x0a, CHR '' '', CHR '','', CHR '']'', CHR ''}''}"

text \<open>The position of the character that ends the primitive, or the error.\<close>

function prim_loop :: "string \<Rightarrow> nat \<Rightarrow> int + nat" where
  "prim_loop js pos =
     (if pos < length js \<and> js ! pos \<noteq> NUL_char then
        if prim_end (js ! pos) then Inr pos
        else if (of_char (js ! pos) :: nat) < 32 \<or> (of_char (js ! pos) :: nat) \<ge> 127 then Inl JSMN_ERROR_INVAL
        else prim_loop js (Suc pos)
      else Inl JSMN_ERROR_PART)"
  by auto
termination by (relation "measure (\<lambda>(js, pos). length js - pos)") auto

declare prim_loop.simps [simp del]

text \<open>What both parsers do with a token that ends: \<open>last_pos\<close> is the position they stop at.\<close>

definition new_token ::
  "jsmntype_t \<Rightarrow> int \<Rightarrow> int \<Rightarrow> nat \<Rightarrow> jsmn_parser \<Rightarrow> tokens \<Rightarrow> nat \<Rightarrow> (int \<times> jsmn_parser \<times> tokens) option" where
  "new_token type start end_pos last_pos p toks num_tokens =
     (case toks of None \<Rightarrow> Some (0, p\<lparr>p_pos := last_pos\<rparr>, None)
      | Some ts \<Rightarrow>
          Option.bind (jsmn_alloc_token p ts num_tokens) (\<lambda>r.
            case r of None \<Rightarrow> Some (JSMN_ERROR_NOMEM, p, toks)
            | Some (i, p1, ts1) \<Rightarrow>
                Option.bind (tok_at ts1 i) (\<lambda>t.
                map_option (\<lambda>ts2. (0, p1\<lparr>p_pos := last_pos\<rparr>, Some ts2))
                  (tok_set ts1 i ((jsmn_fill_token type start end_pos t)\<lparr>t_parent := p_toksuper p1\<rparr>)))))"

definition jsmn_parse_primitive ::
  "jsmn_parser \<Rightarrow> string \<Rightarrow> tokens \<Rightarrow> nat \<Rightarrow> (int \<times> jsmn_parser \<times> tokens) option" where
  "jsmn_parse_primitive p js toks num_tokens =
     (case prim_loop js (p_pos p) of Inl err \<Rightarrow> Some (err, p, toks)
      | Inr q \<Rightarrow> new_token JSMN_PRIMITIVE (int (p_pos p)) (int q) (q - 1) p toks num_tokens)"

definition is_hex :: "char \<Rightarrow> bool" where
  "is_hex c \<longleftrightarrow> (let x = (of_char c :: nat) in 48 \<le> x \<and> x \<le> 57 \<or> 65 \<le> x \<and> x \<le> 70 \<or> 97 \<le> x \<and> x \<le> 102)"

text \<open>At most \<open>n\<close> more digits of an escaped character.\<close>

fun hex_loop :: "string \<Rightarrow> nat \<Rightarrow> nat \<Rightarrow> int + nat" where
  "hex_loop js 0 pos = Inr pos"
| "hex_loop js (Suc n) pos =
     (if pos < length js \<and> js ! pos \<noteq> NUL_char then
        if \<not> is_hex (js ! pos) then Inl JSMN_ERROR_INVAL else hex_loop js n (Suc pos)
      else Inr pos)"

lemma hex_loop_mono: "hex_loop js n pos = Inr q \<Longrightarrow> pos \<le> q"
  by (induction js n pos rule: hex_loop.induct) (auto split: if_splits)

definition simple_escape :: "char \<Rightarrow> bool" where
  "simple_escape c \<longleftrightarrow> c \<in> {CHR 0x22, CHR ''/'', CHR 0x5c, CHR ''b'', CHR ''f'', CHR ''r'', CHR ''n'', CHR ''t''}"

text \<open>The position of the closing quote, or the error.\<close>

function str_loop :: "string \<Rightarrow> nat \<Rightarrow> int + nat" where
  "str_loop js pos =
     (if pos < length js \<and> js ! pos \<noteq> NUL_char then
        if js ! pos = CHR 0x22 then Inr pos
        else if js ! pos = CHR 0x5c \<and> pos + 1 < length js then
          if simple_escape (js ! (pos + 1)) then str_loop js (pos + 2)
          else if js ! (pos + 1) = CHR ''u'' then
            (case hex_loop js 4 (pos + 2) of Inl err \<Rightarrow> Inl err | Inr q \<Rightarrow> str_loop js q)
          else Inl JSMN_ERROR_INVAL
        else str_loop js (pos + 1)
      else Inl JSMN_ERROR_PART)"
  by pat_completeness auto
termination by (relation "measure (\<lambda>(js, pos). length js - pos)") (auto dest: hex_loop_mono)

declare str_loop.simps [simp del]

definition jsmn_parse_string ::
  "jsmn_parser \<Rightarrow> string \<Rightarrow> tokens \<Rightarrow> nat \<Rightarrow> (int \<times> jsmn_parser \<times> tokens) option" where
  "jsmn_parse_string p js toks num_tokens =
     (case str_loop js (p_pos p + 1) of Inl err \<Rightarrow> Some (err, p, toks)
      | Inr q \<Rightarrow> new_token JSMN_STRING (int (p_pos p) + 1) (int q) q p toks num_tokens)"

section \<open>The tokenizer\<close>

text \<open>Looking upwards for the open token a closing bracket belongs to.\<close>

partial_function (option) close_loop ::
  "jsmntok list \<Rightarrow> jsmn_parser \<Rightarrow> jsmntype_t \<Rightarrow> int \<Rightarrow> (int \<times> jsmn_parser \<times> jsmntok list) option" where
  "close_loop ts p type i =
     Option.bind (tok_at ts i) (\<lambda>t.
       if t_start t \<noteq> -1 \<and> t_end t = -1 then
         if t_type t \<noteq> type then Some (JSMN_ERROR_INVAL, p, ts)
         else map_option (\<lambda>ts1. (0, p\<lparr>p_toksuper := t_parent t\<rparr>, ts1)) (tok_set ts i (t\<lparr>t_end := int (p_pos p) + 1\<rparr>))
       else if t_parent t = -1 then
         if t_type t \<noteq> type \<or> p_toksuper p = -1 then Some (JSMN_ERROR_INVAL, p, ts) else Some (0, p, ts)
       else close_loop ts p type (t_parent t))"

definition jsmn_open :: "char \<Rightarrow> jsmn_parser \<Rightarrow> jsmntok list \<Rightarrow> nat \<Rightarrow> (int \<times> jsmn_parser \<times> tokens) option" where
  "jsmn_open c p ts num_tokens =
     Option.bind (jsmn_alloc_token p ts num_tokens) (\<lambda>r.
       case r of None \<Rightarrow> Some (JSMN_ERROR_NOMEM, p, Some ts)
       | Some (i, p1, ts1) \<Rightarrow>
           let finish = (\<lambda>parent ts2. Option.bind (tok_at ts2 i) (\<lambda>t.
                 map_option (\<lambda>ts3. (0, p1\<lparr>p_toksuper := int (p_toknext p1) - 1\<rparr>, Some ts3))
                   (tok_set ts2 i (t\<lparr>t_parent := parent (t_parent t),
                      t_type := if c = CHR ''{'' then JSMN_OBJECT else JSMN_ARRAY, t_start := int (p_pos p1)\<rparr>)))) in
           if p_toksuper p1 \<noteq> -1 then
             Option.bind (tok_at ts1 (p_toksuper p1)) (\<lambda>s.
               if t_type s = JSMN_OBJECT then Some (JSMN_ERROR_INVAL, p1, Some ts1)
               else Option.bind (tok_set ts1 (p_toksuper p1) (s\<lparr>t_size := t_size s + 1\<rparr>)) (finish (\<lambda>_. p_toksuper p1)))
           else finish (\<lambda>q. q) ts1)"

definition jsmn_close :: "char \<Rightarrow> jsmn_parser \<Rightarrow> jsmntok list \<Rightarrow> (int \<times> jsmn_parser \<times> tokens) option" where
  "jsmn_close c p ts =
     (if p_toknext p < 1 then Some (JSMN_ERROR_INVAL, p, Some ts)
      else map_option (\<lambda>(r, p1, ts1). (r, p1, Some ts1))
             (close_loop ts p (if c = CHR ''}'' then JSMN_OBJECT else JSMN_ARRAY) (int (p_toknext p) - 1)))"

text \<open>The token above counts one more.\<close>

definition count_in_super :: "jsmn_parser \<Rightarrow> tokens \<Rightarrow> tokens option" where
  "count_in_super p toks =
     (case toks of None \<Rightarrow> Some None
      | Some ts \<Rightarrow>
          if p_toksuper p = -1 then Some toks
          else Option.bind (tok_at ts (p_toksuper p)) (\<lambda>s.
            map_option Some (tok_set ts (p_toksuper p) (s\<lparr>t_size := t_size s + 1\<rparr>))))"

definition after_value ::
  "(int \<times> jsmn_parser \<times> tokens) option \<Rightarrow> int \<Rightarrow> (int \<times> jsmn_parser \<times> tokens \<times> int) option" where
  "after_value res count =
     Option.bind res (\<lambda>(r, p, toks).
       if r < 0 then Some (r, p, toks, count)
       else map_option (\<lambda>toks1. (0, p, toks1, count + 1)) (count_in_super p toks))"

definition primitive_start :: "char \<Rightarrow> bool" where
  "primitive_start c \<longleftrightarrow> c \<in> set ''-0123456789tfn''"

text \<open>A primitive may not stand where a key is expected.\<close>

definition primitive_misplaced :: "jsmn_parser \<Rightarrow> tokens \<Rightarrow> bool option" where
  "primitive_misplaced p toks =
     (case toks of None \<Rightarrow> Some False
      | Some ts \<Rightarrow>
          if p_toksuper p = -1 then Some False
          else map_option (\<lambda>t. t_type t = JSMN_OBJECT \<or> t_type t = JSMN_STRING \<and> t_size t \<noteq> 0) (tok_at ts (p_toksuper p)))"

definition jsmn_comma :: "jsmn_parser \<Rightarrow> tokens \<Rightarrow> jsmn_parser option" where
  "jsmn_comma p toks =
     (case toks of None \<Rightarrow> Some p
      | Some ts \<Rightarrow>
          if p_toksuper p = -1 then Some p
          else map_option (\<lambda>t. if t_type t \<noteq> JSMN_ARRAY \<and> t_type t \<noteq> JSMN_OBJECT then p\<lparr>p_toksuper := t_parent t\<rparr> else p)
                 (tok_at ts (p_toksuper p)))"

text \<open>The body of the loop; a negative first component is returned, else the loop goes on.\<close>

definition jsmn_step :: "string \<Rightarrow> nat \<Rightarrow> jsmn_parser \<Rightarrow> tokens \<Rightarrow> int \<Rightarrow> (int \<times> jsmn_parser \<times> tokens \<times> int) option" where
  "jsmn_step js num_tokens p toks count =
     (let c = js ! p_pos p in
      if c = CHR ''{'' \<or> c = CHR ''['' then
        (case toks of None \<Rightarrow> Some (0, p, None, count + 1)
         | Some ts \<Rightarrow> map_option (\<lambda>(r, p1, toks1). (r, p1, toks1, count + 1)) (jsmn_open c p ts num_tokens))
      else if c = CHR ''}'' \<or> c = CHR '']'' then
        (case toks of None \<Rightarrow> Some (0, p, None, count)
         | Some ts \<Rightarrow> map_option (\<lambda>(r, p1, toks1). (r, p1, toks1, count)) (jsmn_close c p ts))
      else if c = CHR 0x22 then after_value (jsmn_parse_string p js toks num_tokens) count
      else if c \<in> {CHR 0x09, CHR 0x0d, CHR 0x0a, CHR '' ''} then Some (0, p, toks, count)
      else if c = CHR '':'' then Some (0, p\<lparr>p_toksuper := int (p_toknext p) - 1\<rparr>, toks, count)
      else if c = CHR '','' then map_option (\<lambda>p1. (0, p1, toks, count)) (jsmn_comma p toks)
      else if primitive_start c then
        Option.bind (primitive_misplaced p toks) (\<lambda>bad.
          if bad then Some (JSMN_ERROR_INVAL, p, toks, count)
          else after_value (jsmn_parse_primitive p js toks num_tokens) count)
      else Some (JSMN_ERROR_INVAL, p, toks, count))"

text \<open>Is some token still open?\<close>

definition unmatched :: "jsmn_parser \<Rightarrow> jsmntok list \<Rightarrow> bool option" where
  "unmatched p ts =
     (if p_toknext p \<le> length ts then Some (list_ex (\<lambda>t. t_start t \<noteq> -1 \<and> t_end t = -1) (take (p_toknext p) ts)) else None)"

definition jsmn_finish :: "jsmn_parser \<Rightarrow> tokens \<Rightarrow> int \<Rightarrow> (int \<times> jsmn_parser \<times> tokens) option" where
  "jsmn_finish p toks count =
     (case toks of None \<Rightarrow> Some (count, p, None)
      | Some ts \<Rightarrow> map_option (\<lambda>b. (if b then JSMN_ERROR_PART else count, p, toks)) (unmatched p ts))"

partial_function (option) jsmn_loop ::
  "string \<Rightarrow> nat \<Rightarrow> jsmn_parser \<Rightarrow> tokens \<Rightarrow> int \<Rightarrow> (int \<times> jsmn_parser \<times> tokens) option" where
  "jsmn_loop js num_tokens p toks count =
     (if p_pos p < length js \<and> js ! p_pos p \<noteq> NUL_char then
        Option.bind (jsmn_step js num_tokens p toks count) (\<lambda>(r, p1, toks1, count1).
          if r < 0 then Some (r, p1, toks1)
          else jsmn_loop js num_tokens (p1\<lparr>p_pos := p_pos p1 + 1\<rparr>) toks1 count1)
      else jsmn_finish p toks count)"

definition jsmn_parse :: "string \<Rightarrow> nat \<Rightarrow> jsmn_parser \<Rightarrow> tokens \<Rightarrow> (int \<times> jsmn_parser \<times> tokens) option" where
  "jsmn_parse js num_tokens p toks = jsmn_loop js num_tokens p toks (int (p_toknext p))"

definition jsmn_init :: jsmn_parser where
  "jsmn_init = \<lparr>p_pos = 0, p_toknext = 0, p_toksuper = -1\<rparr>"

section \<open>Any text\<close>

text \<open>The tokens in use point upwards, to earlier tokens.\<close>

definition jsmn_inv :: "nat \<Rightarrow> jsmn_parser \<Rightarrow> tokens \<Rightarrow> bool" where
  "jsmn_inv n p toks \<longleftrightarrow> (case toks of None \<Rightarrow> True
     | Some ts \<Rightarrow> length ts = n \<and> p_toknext p \<le> n \<and> -1 \<le> p_toksuper p \<and> p_toksuper p < int (p_toknext p) \<and>
         (\<forall>i < p_toknext p. -1 \<le> t_parent (ts ! i) \<and> t_parent (ts ! i) < int i))"

text \<open>A call ends with a result, keeps the invariant, and does not go back behind \<open>p0\<close> unless it fails.\<close>

definition fine :: "nat \<Rightarrow> nat \<Rightarrow> (int \<times> jsmn_parser \<times> tokens) option \<Rightarrow> bool" where
  "fine n p0 res \<longleftrightarrow> (\<exists>r p1 toks1. res = Some (r, p1, toks1) \<and> jsmn_inv n p1 toks1 \<and> (r < 0 \<or> p0 \<le> p_pos p1))"

lemma prim_loop_moves: "prim_loop js pos = Inr q \<Longrightarrow> pos \<le> q \<and> prim_end (js ! q)"
  by (induction js pos rule: prim_loop.induct) (auto simp: prim_loop.simps split: if_splits)

lemma str_loop_moves: "str_loop js pos = Inr q \<Longrightarrow> pos \<le> q"
  by (induction js pos rule: str_loop.induct) (subst (asm) (4) str_loop.simps, auto split: if_splits sum.splits dest: hex_loop_mono)

lemma tok_simps [simp]:
  "0 \<le> i \<Longrightarrow> i < int (length ts) \<Longrightarrow> tok_at ts i = Some (ts ! nat i)"
  "0 \<le> i \<Longrightarrow> i < int (length ts) \<Longrightarrow> tok_set ts i t = Some (ts[nat i := t])"
  by (simp_all add: tok_at_def tok_set_def)

lemma new_token_fine:
  assumes "jsmn_inv n p toks" "p0 \<le> q"
  shows "fine n p0 (new_token ty st en q p toks n)"
proof (cases toks)
  case (Some ts)
  show ?thesis
  proof (cases "p_toknext p < n")
    case True
    then show ?thesis
      using assms Some by (auto simp: fine_def new_token_def jsmn_alloc_token_def jsmn_inv_def nth_list_update jsmn_fill_token_def
          less_Suc_eq)
  qed (use assms Some in \<open>auto simp: fine_def new_token_def jsmn_alloc_token_def jsmn_errors\<close>)
qed (use assms in \<open>auto simp: fine_def new_token_def jsmn_inv_def\<close>)

lemma parse_string_fine: "jsmn_inv n p toks \<Longrightarrow> fine n (p_pos p) (jsmn_parse_string p js toks n)"
  using new_token_fine [of n p toks "p_pos p"] str_loop_moves [of js "p_pos p + 1"]
  by (cases "str_loop js (p_pos p + 1)") (force simp: jsmn_parse_string_def fine_def jsmn_errors)+

lemma parse_primitive_fine:
  assumes "jsmn_inv n p toks" "primitive_start (js ! p_pos p)"
  shows "fine n (p_pos p) (jsmn_parse_primitive p js toks n)"
proof (cases "prim_loop js (p_pos p)")
  case (Inl err)
  have "prim_loop js pos = Inl e \<Longrightarrow> e < 0" for pos e
    by (induction js pos rule: prim_loop.induct) (auto simp: prim_loop.simps jsmn_errors split: if_splits)
  then show ?thesis using Inl assms(1) by (simp add: jsmn_parse_primitive_def fine_def)
next
  case (Inr q)
  have "\<not> prim_end (js ! p_pos p)" using assms(2) by (auto simp: primitive_start_def prim_end_def)
  then have "p_pos p \<le> q - 1" using prim_loop_moves [OF Inr] by (cases "q = p_pos p") auto
  then show ?thesis using Inr new_token_fine [OF assms(1)] by (simp add: jsmn_parse_primitive_def)
qed

lemma close_loop_fine:
  assumes "jsmn_inv n p (Some ts)" "0 \<le> i" "i < int (p_toknext p)"
  shows "\<exists>r p1 ts1. close_loop ts p ty i = Some (r, p1, ts1) \<and> jsmn_inv n p1 (Some ts1) \<and> p_pos p1 = p_pos p"
  using assms(2, 3)
proof (induction "nat i" arbitrary: i rule: less_induct)
  case less
  have len: "length ts = n" "p_toknext p \<le> n" and par: "\<And>k. k < p_toknext p \<Longrightarrow> -1 \<le> t_parent (ts ! k) \<and> t_parent (ts ! k) < int k"
    using assms(1) by (auto simp: jsmn_inv_def)
  define t where "t = ts ! nat i"
  have t: "tok_at ts i = Some t" "-1 \<le> t_parent t" "t_parent t < i"
    using less.prems len par [of "nat i"] by (auto simp: t_def)
  have inv1: "jsmn_inv n (p\<lparr>p_toksuper := t_parent t\<rparr>) (Some (ts[nat i := t\<lparr>t_end := int (p_pos p) + 1\<rparr>]))"
    using assms(1) t less.prems by (auto simp: jsmn_inv_def nth_list_update)
  show ?case
  proof (cases "\<not> (t_start t \<noteq> -1 \<and> t_end t = -1) \<and> t_parent t \<noteq> -1")
    case True
    then have "0 \<le> t_parent t" using t(2) by linarith
    then have "\<exists>r p1 ts1. close_loop ts p ty (t_parent t) = Some (r, p1, ts1) \<and> jsmn_inv n p1 (Some ts1) \<and> p_pos p1 = p_pos p"
      using less.hyps [of "t_parent t"] t less.prems by auto
    then show ?thesis using True t(1) by (subst close_loop.simps) auto
  next
    case False
    then show ?thesis
      using t(1) less.prems len assms(1) inv1 by (subst close_loop.simps) auto
  qed
qed

lemma close_fine: "jsmn_inv n p (Some ts) \<Longrightarrow> fine n (p_pos p) (jsmn_close c p ts)"
  using close_loop_fine [of n p ts "int (p_toknext p) - 1" "if c = CHR ''}'' then JSMN_OBJECT else JSMN_ARRAY"]
  by (auto simp: jsmn_close_def fine_def jsmn_errors simp del: split_paired_Ex)

lemma parent_size [simp]: "t_parent (ts[k := (ts ! k)\<lparr>t_size := x\<rparr>] ! i) = t_parent (ts ! i)"
  by (cases "i = k"; cases "k < length ts") (auto simp: list_update_beyond)

lemma open_fine:
  assumes "jsmn_inv n p (Some ts)"
  shows "fine n (p_pos p) (jsmn_open c p ts n)"
proof (cases "p_toknext p < n")
  case True
  define ts1 where "ts1 = ts[p_toknext p := (ts ! p_toknext p)\<lparr>t_start := -1, t_end := -1, t_size := 0, t_parent := -1\<rparr>]"
  define p1 where "p1 = p\<lparr>p_toknext := p_toknext p + 1\<rparr>"
  have alloc: "jsmn_alloc_token p ts n = Some (Some (int (p_toknext p), p1, ts1))"
    using True assms by (simp add: jsmn_alloc_token_def jsmn_inv_def ts1_def p1_def)
  have inv1: "jsmn_inv n p1 (Some ts1)"
    using True assms by (auto simp: jsmn_inv_def ts1_def p1_def nth_list_update less_Suc_eq)
  have inv2: "jsmn_inv n (p1\<lparr>p_toksuper := int (p_toknext p1) - 1\<rparr>) (Some (ts2[p_toknext p := t]))"
    if "jsmn_inv n p1 (Some ts2)" "-1 \<le> t_parent t" "t_parent t < int (p_toknext p)" for ts2 t
    using that by (auto simp: jsmn_inv_def p1_def nth_list_update)
  have inv3: "jsmn_inv n p1 (Some (ts1[k := (ts1 ! k)\<lparr>t_size := x\<rparr>]))" for k x
    using inv1 by (auto simp: jsmn_inv_def nth_list_update)
  have len: "length ts1 = n" "p_toksuper p1 = p_toksuper p" "p_pos p1 = p_pos p" "p_toknext p1 = Suc (p_toknext p)"
    using assms by (auto simp: jsmn_inv_def ts1_def p1_def)
  show ?thesis
  proof (cases "p_toksuper p = -1")
    case True
    have "t_parent (ts1 ! p_toknext p) = -1" using \<open>p_toknext p < n\<close> assms by (simp add: ts1_def jsmn_inv_def)
    then show ?thesis
      using True inv2 [OF inv1] len \<open>p_toknext p < n\<close> by (simp add: jsmn_open_def alloc fine_def)
  next
    case False
    then have s: "0 \<le> p_toksuper p" "p_toksuper p < int (p_toknext p)" "p_toksuper p < int n"
      using assms by (auto simp: jsmn_inv_def)
    then show ?thesis
      using False inv1 inv2 [OF inv3] len \<open>p_toknext p < n\<close> by (auto simp: jsmn_open_def alloc fine_def Let_def)
  qed
qed (use assms in \<open>auto simp: jsmn_open_def jsmn_alloc_token_def fine_def jsmn_errors\<close>)

lemma count_in_super_fine:
  assumes "jsmn_inv n p toks"
  shows "\<exists>toks1. count_in_super p toks = Some toks1 \<and> jsmn_inv n p toks1"
proof (cases toks)
  case (Some ts)
  show ?thesis
  proof (cases "p_toksuper p = -1")
    case False
    then have "0 \<le> p_toksuper p" "p_toksuper p < int (length ts)" using assms Some by (auto simp: jsmn_inv_def)
    then show ?thesis using assms Some False by (auto simp: count_in_super_def jsmn_inv_def nth_list_update)
  qed (use assms Some in \<open>simp add: count_in_super_def\<close>)
qed (use assms in \<open>simp add: count_in_super_def\<close>)

lemma after_value_fine:
  assumes "fine n p0 res"
  shows "\<exists>r p1 toks1 c1. after_value res c = Some (r, p1, toks1, c1) \<and> jsmn_inv n p1 toks1 \<and> (r < 0 \<or> p0 \<le> p_pos p1)"
proof -
  obtain r p1 toks1 where r: "res = Some (r, p1, toks1)" "jsmn_inv n p1 toks1" "r < 0 \<or> p0 \<le> p_pos p1"
    using assms unfolding fine_def by blast
  from count_in_super_fine [OF r(2)] r show ?thesis by (auto simp: after_value_def)
qed

lemma super_fine:
  assumes "jsmn_inv n p toks"
  shows "\<exists>b. primitive_misplaced p toks = Some b"
    and "\<exists>p1. jsmn_comma p toks = Some p1 \<and> jsmn_inv n p1 toks \<and> p_pos p1 = p_pos p"
proof -
  have s: "tok_at ts (p_toksuper p) = Some (ts ! nat (p_toksuper p)) \<and> -1 \<le> t_parent (ts ! nat (p_toksuper p)) \<and>
      t_parent (ts ! nat (p_toksuper p)) < int (p_toknext p)"
    if "toks = Some ts" "p_toksuper p \<noteq> -1" for ts
  proof -
    have "0 \<le> p_toksuper p" "p_toksuper p < int (length ts)" "p_toksuper p < int (p_toknext p)"
      using assms that by (auto simp: jsmn_inv_def)
    moreover from this have "nat (p_toksuper p) < p_toknext p" by linarith
    moreover have "\<forall>i < p_toknext p. -1 \<le> t_parent (ts ! i) \<and> t_parent (ts ! i) < int i"
      using assms that by (simp add: jsmn_inv_def)
    ultimately have "t_parent (ts ! nat (p_toksuper p)) < int (p_toknext p) \<and> -1 \<le> t_parent (ts ! nat (p_toksuper p))"
      by force
    moreover have "0 \<le> p_toksuper p" "p_toksuper p < int (length ts)" using assms that by (auto simp: jsmn_inv_def)
    ultimately show ?thesis by simp
  qed
  show "\<exists>b. primitive_misplaced p toks = Some b"
    using s by (auto simp: primitive_misplaced_def split: option.splits)
  show "\<exists>p1. jsmn_comma p toks = Some p1 \<and> jsmn_inv n p1 toks \<and> p_pos p1 = p_pos p"
    using s assms by (auto simp: jsmn_comma_def jsmn_inv_def split: option.splits)
qed

lemma step_fine:
  assumes "jsmn_inv n p toks"
  shows "\<exists>r p1 toks1 c1. jsmn_step js n p toks c = Some (r, p1, toks1, c1) \<and> jsmn_inv n p1 toks1 \<and> (r < 0 \<or> p_pos p \<le> p_pos p1)"
proof -
  let ?c = "js ! p_pos p"
  let ?goal = "\<lambda>res. \<exists>r p1 toks1 c1. res = Some (r, p1, toks1, c1) \<and> jsmn_inv n p1 toks1 \<and> (r < 0 \<or> p_pos p \<le> p_pos p1)"
  have count: "?goal (map_option (\<lambda>(r, p1, toks1). (r, p1, toks1, k)) res)" if "fine n (p_pos p) res" for res and k :: int
    using that by (auto simp: fine_def)
  have start: "jsmn_inv n (p\<lparr>p_toksuper := int (p_toknext p) - 1\<rparr>) toks"
    using assms by (auto simp: jsmn_inv_def split: option.splits)
  show ?thesis
    unfolding jsmn_step_def Let_def
    using count [OF open_fine] count [OF close_fine] after_value_fine [OF parse_string_fine [OF assms]]
      after_value_fine [OF parse_primitive_fine [OF assms]] super_fine [OF assms] start assms
    by (auto split: option.splits simp: jsmn_errors)
qed

lemma loop_fine:
  assumes "jsmn_inv n p toks"
  shows "\<exists>r p1 toks1. jsmn_loop js n p toks c = Some (r, p1, toks1) \<and> jsmn_inv n p1 toks1"
  using assms
proof (induction "length js - p_pos p" arbitrary: p toks c rule: less_induct)
  case less
  show ?case
  proof (cases "p_pos p < length js \<and> js ! p_pos p \<noteq> NUL_char")
    case True
    obtain r p1 toks1 c1 where st: "jsmn_step js n p toks c = Some (r, p1, toks1, c1)" "jsmn_inv n p1 toks1"
      "r < 0 \<or> p_pos p \<le> p_pos p1"
      using step_fine [OF less.prems, of js c] by blast
    have inv: "jsmn_inv n (p1\<lparr>p_pos := p_pos p1 + 1\<rparr>) toks1" using st(2) by (simp add: jsmn_inv_def split: option.splits)
    show ?thesis
    proof (cases "r < 0")
      case False
      then have "length js - p_pos (p1\<lparr>p_pos := p_pos p1 + 1\<rparr>) < length js - p_pos p" using st(3) True by auto
      from less.hyps [OF this inv, of c1] show ?thesis
        by (subst jsmn_loop.simps) (simp add: True st False)
    qed (subst jsmn_loop.simps, simp add: True st)
  next
    case False
    then show ?thesis
      using less.prems by (subst jsmn_loop.simps) (auto simp: jsmn_finish_def unmatched_def jsmn_inv_def split: option.splits)
  qed
qed


end
