(* ===== verification/JsonParser.thy ===== *)
theory JsonParser
  imports Jsmn
begin

text \<open>
  Typed access to tokenized JSON (managed_components/espressif__json_parser/src/json_parser.c). The context
  holds the tokens; \<open>cur\<close> is the index of the current one. Of the C library, \<open>strncmp\<close>, \<open>strncpy\<close>,
  \<open>strtoul\<close> and \<open>strtoull\<close> are modelled, \<open>strtof\<close> is a parameter. A result \<open>None\<close> is an access outside the text, the tokens or the
  caller's buffer; a value \<open>None\<close> has not been written. Failure is returned as \<open>-OS_FAIL\<close>, which is 1.
\<close>

section \<open>The C library\<close>

text \<open>Is the text equal to \<open>str\<close> in its first characters? \<open>str\<close> has no NUL, so a NUL in the text ends the comparison.\<close>

fun strncmp_eq :: "string \<Rightarrow> string \<Rightarrow> bool option" where
  "strncmp_eq js [] = Some True"
| "strncmp_eq [] (x # xs) = None"
| "strncmp_eq (c # cs) (x # xs) = (if c = x then strncmp_eq cs xs else Some False)"

definition is_digit :: "char \<Rightarrow> bool" where
  "is_digit c \<longleftrightarrow> (let x = (of_char c :: nat) in 48 \<le> x \<and> x \<le> 57)"

definition is_space :: "char \<Rightarrow> bool" where
  "is_space c \<longleftrightarrow> (let x = (of_char c :: nat) in x = 32 \<or> 9 \<le> x \<and> x \<le> 13)"

definition digits_val :: "string \<Rightarrow> nat" where
  "digits_val ds = foldl (\<lambda>a c. 10 * a + (of_char c - 48)) 0 ds"

text \<open>
  Base 10, on a text that must not end inside the number: the value modulo the width, all ones when it is
  out of range, and the number of characters taken (0 when there is no number).
\<close>

definition strtoul_w :: "string \<Rightarrow> ('w :: len word \<times> nat) option" where
  "strtoul_w s =
     (let ws = takeWhile is_space s; s1 = drop (length ws) s;
          sign = (if s1 \<noteq> [] \<and> (hd s1 = CHR ''-'' \<or> hd s1 = CHR ''+'') then 1 else 0);
          ds = takeWhile is_digit (drop sign s1);
          used = length ws + sign + length ds in
      if used = length s then None
      else if ds = [] then Some (0, 0)
      else if digits_val ds \<ge> 2 ^ LENGTH('w) then Some (-1, used)
      else Some ((if sign = 1 \<and> hd s1 = CHR ''-'' then - word_of_nat (digits_val ds) else word_of_nat (digits_val ds)), used))"

definition strtoul :: "string \<Rightarrow> (u32 \<times> nat) option" where
  "strtoul s = strtoul_w s"

definition strtoull :: "string \<Rightarrow> (u64 \<times> nat) option" where
  "strtoull s = strtoul_w s"

definition the_default :: "'a \<Rightarrow> 'a option \<Rightarrow> 'a" where
  "the_default d x = (case x of None \<Rightarrow> d | Some y \<Rightarrow> y)"

section \<open>The context\<close>

definition OS_SUCCESS :: int where "OS_SUCCESS = 0"
definition OS_FAIL :: int where "OS_FAIL = -1"

record jparse_ctx =
  jp_parser :: jsmn_parser
  jp_js :: string
  jp_tokens :: "jsmntok list"
  jp_cur :: int
  jp_num_tokens :: int

definition zero_ctx :: jparse_ctx where
  "zero_ctx = \<lparr>jp_parser = \<lparr>p_pos = 0, p_toknext = 0, p_toksuper = 0\<rparr>, jp_js = [], jp_tokens = [], jp_cur = 0, jp_num_tokens = 0\<rparr>"

definition zero_token :: jsmntok where
  "zero_token = \<lparr>t_type = JSMN_UNDEFINED, t_start = 0, t_end = 0, t_size = 0, t_parent = 0\<rparr>"

definition js_from :: "jparse_ctx \<Rightarrow> int \<Rightarrow> string option" where
  "js_from ctx i = (if 0 \<le> i \<and> i \<le> int (length (jp_js ctx)) then Some (drop (nat i) (jp_js ctx)) else None)"

definition token_matches_str :: "jparse_ctx \<Rightarrow> jsmntok \<Rightarrow> string \<Rightarrow> bool option" where
  "token_matches_str ctx tok str =
     Option.bind (js_from ctx (t_start tok)) (\<lambda>s.
     map_option (\<lambda>eq. eq \<and> int (length str) = t_end tok - t_start tok) (strncmp_eq s str))"

text \<open>The last token of the value at \<open>i\<close>; the loop counts down the elements.\<close>

partial_function (option) skip_loop :: "jsmntok list \<Rightarrow> int \<Rightarrow> int \<Rightarrow> int option" where
  "skip_loop ts cnt i =
     (if cnt = 0 then Some i
      else Option.bind (tok_at ts (i + 1)) (\<lambda>t. Option.bind (skip_loop ts (t_size t) (i + 1)) (\<lambda>j. skip_loop ts (cnt - 1) j)))"

definition json_skip_elem :: "jsmntok list \<Rightarrow> int \<Rightarrow> int option" where
  "json_skip_elem ts i = Option.bind (tok_at ts i) (\<lambda>t. skip_loop ts (t_size t) i)"

section \<open>Values of tokens\<close>

type_synonym 'a jres = "(int \<times> 'a option) option"

definition json_tok_to_bool :: "jparse_ctx \<Rightarrow> jsmntok \<Rightarrow> bool jres" where
  "json_tok_to_bool ctx tok =
     Option.bind (token_matches_str ctx tok ''true'') (\<lambda>t.
     Option.bind (if t then Some True else token_matches_str ctx tok ''1'') (\<lambda>one.
       if one then Some (OS_SUCCESS, Some True)
       else
         Option.bind (token_matches_str ctx tok ''false'') (\<lambda>f.
         Option.bind (if f then Some True else token_matches_str ctx tok ''0'') (\<lambda>zero.
           if zero then Some (OS_SUCCESS, Some False) else Some (- OS_FAIL, None)))))"

definition json_tok_to_int :: "jparse_ctx \<Rightarrow> jsmntok \<Rightarrow> int jres" where
  "json_tok_to_int ctx tok =
     Option.bind (js_from ctx (t_start tok)) (\<lambda>s. map_option (\<lambda>(v, used).
       if t_start tok + int used = t_end tok then (OS_SUCCESS, Some (sint v)) else (- OS_FAIL, None)) (strtoul s))"

definition json_tok_to_int64 :: "jparse_ctx \<Rightarrow> jsmntok \<Rightarrow> int jres" where
  "json_tok_to_int64 ctx tok =
     Option.bind (js_from ctx (t_start tok)) (\<lambda>s. map_option (\<lambda>(v, used).
       if t_start tok + int used = t_end tok then (OS_SUCCESS, Some (sint v)) else (- OS_FAIL, None)) (strtoull s))"

definition json_tok_to_float :: "(string \<Rightarrow> 'f \<times> nat) \<Rightarrow> jparse_ctx \<Rightarrow> jsmntok \<Rightarrow> 'f jres" where
  "json_tok_to_float strtof ctx tok =
     map_option (\<lambda>s. case strtof s of (v, used) \<Rightarrow>
       if t_start tok + int used = t_end tok then (OS_SUCCESS, Some v) else (- OS_FAIL, None)) (js_from ctx (t_start tok))"

text \<open>\<open>strncpy\<close> stops at a NUL and fills up with NULs.\<close>

definition strncpy_text :: "string \<Rightarrow> nat \<Rightarrow> string" where
  "strncpy_text s n = (let w = takeWhile (\<lambda>c. c \<noteq> NUL_char) (take n s) in w @ replicate (n - length w) NUL_char)"

definition json_tok_to_string :: "jparse_ctx \<Rightarrow> jsmntok \<Rightarrow> string \<Rightarrow> int \<Rightarrow> (int \<times> string) option" where
  "json_tok_to_string ctx tok val buflen =
     (let n = t_end tok - t_start tok in
      if n > buflen - 1 then Some (- OS_FAIL, val)
      else if n < 0 then None
      else
        Option.bind (js_from ctx (t_start tok)) (\<lambda>s.
        Option.bind (if length s < nat n then None else memcpy_to val 0 (strncpy_text s (nat n))) (\<lambda>v1.
        map_option (Pair OS_SUCCESS) (memcpy_to v1 (nat n) [NUL_char]))))"

section \<open>Objects\<close>

text \<open>The inner \<open>None\<close> is the null pointer, else the index of the key.\<close>

partial_function (option) search_loop :: "jparse_ctx \<Rightarrow> string \<Rightarrow> int \<Rightarrow> int \<Rightarrow> int option option" where
  "search_loop ctx key cnt i =
     (if cnt = 0 then Some None
      else
        Option.bind (tok_at (jp_tokens ctx) (i + 1)) (\<lambda>tok.
        Option.bind (token_matches_str ctx tok key) (\<lambda>m.
          if m then Some (Some (i + 1))
          else Option.bind (json_skip_elem (jp_tokens ctx) (i + 1)) (search_loop ctx key (cnt - 1)))))"

definition json_obj_search :: "jparse_ctx \<Rightarrow> string \<Rightarrow> int option option" where
  "json_obj_search ctx key =
     Option.bind (tok_at (jp_tokens ctx) (jp_cur ctx)) (\<lambda>tok.
       if t_size tok \<le> 0 then Some None
       else if t_type tok \<noteq> JSMN_OBJECT then Some None
       else search_loop ctx key (t_size tok) (jp_cur ctx))"

definition json_obj_get_val_tok :: "jparse_ctx \<Rightarrow> string \<Rightarrow> jsmntype_t \<Rightarrow> (int \<times> jsmntok) option option" where
  "json_obj_get_val_tok ctx name type =
     Option.bind (json_obj_search ctx name) (\<lambda>r. case r of None \<Rightarrow> Some None
       | Some i \<Rightarrow> map_option (\<lambda>t. if t_type t \<noteq> type then None else Some (i + 1, t)) (tok_at (jp_tokens ctx) (i + 1)))"

text \<open>What every access does with the token it finds.\<close>

definition on_tok :: "(int \<times> jsmntok) option option \<Rightarrow> 'r \<Rightarrow> (int \<Rightarrow> jsmntok \<Rightarrow> 'r option) \<Rightarrow> 'r option" where
  "on_tok found fail f = Option.bind found (\<lambda>r. case r of None \<Rightarrow> Some fail | Some (i, t) \<Rightarrow> f i t)"

definition json_obj_get_array :: "jparse_ctx \<Rightarrow> string \<Rightarrow> (int \<times> int option \<times> jparse_ctx) option" where
  "json_obj_get_array ctx name = on_tok (json_obj_get_val_tok ctx name JSMN_ARRAY) (- OS_FAIL, None, ctx)
     (\<lambda>i t. Some (OS_SUCCESS, Some (t_size t), ctx\<lparr>jp_cur := i\<rparr>))"

text \<open>To the token above, if there is one.\<close>

definition to_parent :: "jparse_ctx \<Rightarrow> (int \<times> jparse_ctx) option" where
  "to_parent ctx = map_option (\<lambda>t. if t_parent t < 0 then (- OS_FAIL, ctx) else (OS_SUCCESS, ctx\<lparr>jp_cur := t_parent t\<rparr>))
     (tok_at (jp_tokens ctx) (jp_cur ctx))"

definition json_obj_leave_array :: "jparse_ctx \<Rightarrow> (int \<times> jparse_ctx) option" where
  "json_obj_leave_array ctx = Option.bind (to_parent ctx) (\<lambda>(r, ctx1). if r \<noteq> OS_SUCCESS then Some (r, ctx1) else to_parent ctx1)"

definition json_obj_get_object :: "jparse_ctx \<Rightarrow> string \<Rightarrow> (int \<times> jparse_ctx) option" where
  "json_obj_get_object ctx name = on_tok (json_obj_get_val_tok ctx name JSMN_OBJECT) (- OS_FAIL, ctx)
     (\<lambda>i t. Some (OS_SUCCESS, ctx\<lparr>jp_cur := i\<rparr>))"

definition json_obj_leave_object :: "jparse_ctx \<Rightarrow> (int \<times> jparse_ctx) option" where
  "json_obj_leave_object ctx = Option.bind (to_parent ctx) (\<lambda>(r, ctx1). if r \<noteq> OS_SUCCESS then Some (r, ctx1) else to_parent ctx1)"

definition json_obj_get_bool :: "jparse_ctx \<Rightarrow> string \<Rightarrow> bool jres" where
  "json_obj_get_bool ctx name = on_tok (json_obj_get_val_tok ctx name JSMN_PRIMITIVE) (- OS_FAIL, None) (\<lambda>_. json_tok_to_bool ctx)"

definition json_obj_get_int :: "jparse_ctx \<Rightarrow> string \<Rightarrow> int jres" where
  "json_obj_get_int ctx name = on_tok (json_obj_get_val_tok ctx name JSMN_PRIMITIVE) (- OS_FAIL, None) (\<lambda>_. json_tok_to_int ctx)"

definition json_obj_get_int64 :: "jparse_ctx \<Rightarrow> string \<Rightarrow> int jres" where
  "json_obj_get_int64 ctx name = on_tok (json_obj_get_val_tok ctx name JSMN_PRIMITIVE) (- OS_FAIL, None) (\<lambda>_. json_tok_to_int64 ctx)"

definition json_obj_get_float :: "(string \<Rightarrow> 'f \<times> nat) \<Rightarrow> jparse_ctx \<Rightarrow> string \<Rightarrow> 'f jres" where
  "json_obj_get_float strtof ctx name = on_tok (json_obj_get_val_tok ctx name JSMN_PRIMITIVE) (- OS_FAIL, None)
     (\<lambda>_. json_tok_to_float strtof ctx)"

definition json_obj_get_string :: "jparse_ctx \<Rightarrow> string \<Rightarrow> string \<Rightarrow> int \<Rightarrow> (int \<times> string) option" where
  "json_obj_get_string ctx name val buflen = on_tok (json_obj_get_val_tok ctx name JSMN_STRING) (- OS_FAIL, val)
     (\<lambda>_ t. json_tok_to_string ctx t val buflen)"

definition json_obj_get_strlen :: "jparse_ctx \<Rightarrow> string \<Rightarrow> int jres" where
  "json_obj_get_strlen ctx name = on_tok (json_obj_get_val_tok ctx name JSMN_STRING) (- OS_FAIL, None)
     (\<lambda>_ t. Some (OS_SUCCESS, Some (t_end t - t_start t)))"

definition json_obj_get_object_str :: "jparse_ctx \<Rightarrow> string \<Rightarrow> string \<Rightarrow> int \<Rightarrow> (int \<times> string) option" where
  "json_obj_get_object_str ctx name val buflen = on_tok (json_obj_get_val_tok ctx name JSMN_OBJECT) (- OS_FAIL, val)
     (\<lambda>_ t. json_tok_to_string ctx t val buflen)"

definition json_obj_get_object_strlen :: "jparse_ctx \<Rightarrow> string \<Rightarrow> int jres" where
  "json_obj_get_object_strlen ctx name = on_tok (json_obj_get_val_tok ctx name JSMN_OBJECT) (- OS_FAIL, None)
     (\<lambda>_ t. Some (OS_SUCCESS, Some (t_end t - t_start t)))"

definition json_obj_get_array_str :: "jparse_ctx \<Rightarrow> string \<Rightarrow> string \<Rightarrow> int \<Rightarrow> (int \<times> string) option" where
  "json_obj_get_array_str ctx name val buflen = on_tok (json_obj_get_val_tok ctx name JSMN_ARRAY) (- OS_FAIL, val)
     (\<lambda>_ t. json_tok_to_string ctx t val buflen)"

definition json_obj_get_array_strlen :: "jparse_ctx \<Rightarrow> string \<Rightarrow> int jres" where
  "json_obj_get_array_strlen ctx name = on_tok (json_obj_get_val_tok ctx name JSMN_ARRAY) (- OS_FAIL, None)
     (\<lambda>_ t. Some (OS_SUCCESS, Some (t_end t - t_start t)))"

section \<open>Arrays\<close>

text \<open>The index is a 32-bit number; the loop counts it down.\<close>

partial_function (option) arr_loop :: "jsmntok list \<Rightarrow> u32 \<Rightarrow> int \<Rightarrow> int option" where
  "arr_loop ts index i =
     (if index = 0 then Some i
      else Option.bind (json_skip_elem ts i) (\<lambda>j. arr_loop ts (index - 1) (j + 1)))"

definition json_arr_search :: "jparse_ctx \<Rightarrow> u32 \<Rightarrow> int option option" where
  "json_arr_search ctx index =
     Option.bind (tok_at (jp_tokens ctx) (jp_cur ctx)) (\<lambda>tok.
       if t_type tok \<noteq> JSMN_ARRAY \<or> t_size tok \<le> 0 then Some None
       else if index > word_of_int (t_size tok - 1) then Some None
       else map_option Some (arr_loop (jp_tokens ctx) index (jp_cur ctx + 1)))"

definition json_arr_get_val_tok :: "jparse_ctx \<Rightarrow> u32 \<Rightarrow> jsmntype_t \<Rightarrow> (int \<times> jsmntok) option option" where
  "json_arr_get_val_tok ctx index type =
     Option.bind (json_arr_search ctx index) (\<lambda>r. case r of None \<Rightarrow> Some None
       | Some i \<Rightarrow> map_option (\<lambda>t. if t_type t \<noteq> type then None else Some (i, t)) (tok_at (jp_tokens ctx) i))"

definition json_arr_get_array :: "jparse_ctx \<Rightarrow> u32 \<Rightarrow> (int \<times> jparse_ctx) option" where
  "json_arr_get_array ctx index = on_tok (json_arr_get_val_tok ctx index JSMN_ARRAY) (- OS_FAIL, ctx)
     (\<lambda>i t. Some (OS_SUCCESS, ctx\<lparr>jp_cur := i\<rparr>))"

definition json_arr_leave_array :: "jparse_ctx \<Rightarrow> (int \<times> jparse_ctx) option" where
  "json_arr_leave_array ctx = to_parent ctx"

definition json_arr_get_object :: "jparse_ctx \<Rightarrow> u32 \<Rightarrow> (int \<times> jparse_ctx) option" where
  "json_arr_get_object ctx index = on_tok (json_arr_get_val_tok ctx index JSMN_OBJECT) (- OS_FAIL, ctx)
     (\<lambda>i t. Some (OS_SUCCESS, ctx\<lparr>jp_cur := i\<rparr>))"

definition json_arr_leave_object :: "jparse_ctx \<Rightarrow> (int \<times> jparse_ctx) option" where
  "json_arr_leave_object ctx = to_parent ctx"

definition json_arr_get_bool :: "jparse_ctx \<Rightarrow> u32 \<Rightarrow> bool jres" where
  "json_arr_get_bool ctx index = on_tok (json_arr_get_val_tok ctx index JSMN_PRIMITIVE) (- OS_FAIL, None) (\<lambda>_. json_tok_to_bool ctx)"

definition json_arr_get_int :: "jparse_ctx \<Rightarrow> u32 \<Rightarrow> int jres" where
  "json_arr_get_int ctx index = on_tok (json_arr_get_val_tok ctx index JSMN_PRIMITIVE) (- OS_FAIL, None) (\<lambda>_. json_tok_to_int ctx)"

definition json_arr_get_int64 :: "jparse_ctx \<Rightarrow> u32 \<Rightarrow> int jres" where
  "json_arr_get_int64 ctx index = on_tok (json_arr_get_val_tok ctx index JSMN_PRIMITIVE) (- OS_FAIL, None) (\<lambda>_. json_tok_to_int64 ctx)"

definition json_arr_get_float :: "(string \<Rightarrow> 'f \<times> nat) \<Rightarrow> jparse_ctx \<Rightarrow> u32 \<Rightarrow> 'f jres" where
  "json_arr_get_float strtof ctx index = on_tok (json_arr_get_val_tok ctx index JSMN_PRIMITIVE) (- OS_FAIL, None)
     (\<lambda>_. json_tok_to_float strtof ctx)"

definition json_arr_get_string :: "jparse_ctx \<Rightarrow> u32 \<Rightarrow> string \<Rightarrow> int \<Rightarrow> (int \<times> string) option" where
  "json_arr_get_string ctx index val buflen = on_tok (json_arr_get_val_tok ctx index JSMN_STRING) (- OS_FAIL, val)
     (\<lambda>_ t. json_tok_to_string ctx t val buflen)"

definition json_arr_get_strlen :: "jparse_ctx \<Rightarrow> u32 \<Rightarrow> int jres" where
  "json_arr_get_strlen ctx index = on_tok (json_arr_get_val_tok ctx index JSMN_STRING) (- OS_FAIL, None)
     (\<lambda>_ t. Some (OS_SUCCESS, Some (t_end t - t_start t)))"

section \<open>Start and end\<close>

text \<open>The tokens are counted first; \<open>calloc\<close> tells whether there is memory for them.\<close>

definition json_parse_start :: "(nat \<Rightarrow> bool) \<Rightarrow> string \<Rightarrow> (int \<times> jparse_ctx) option" where
  "json_parse_start calloc js =
     Option.bind (jsmn_parse js 0 jsmn_init None) (\<lambda>(num_tokens, p, _).
       let ctx = zero_ctx\<lparr>jp_parser := p\<rparr> in
       if num_tokens \<le> 0 then Some (- OS_FAIL, ctx)
       else if \<not> calloc (nat num_tokens) then Some (- OS_FAIL, ctx\<lparr>jp_num_tokens := num_tokens\<rparr>)
       else
         Option.bind (jsmn_parse js (nat num_tokens) jsmn_init (Some (replicate (nat num_tokens) zero_token))) (\<lambda>(ret, p1, toks).
           if ret \<le> 0 then Some (- OS_FAIL, zero_ctx)
           else Some (OS_SUCCESS, \<lparr>jp_parser = p1, jp_js = js, jp_tokens = the_default [] toks, jp_cur = 0,
                  jp_num_tokens = num_tokens\<rparr>)))"

definition json_parse_end :: "jparse_ctx \<Rightarrow> int \<times> jparse_ctx" where
  "json_parse_end ctx = (OS_SUCCESS, zero_ctx)"

text \<open>The caller's tokens are cleared, and come back in the second component.\<close>

definition json_parse_start_static :: "string \<Rightarrow> jsmntok list \<Rightarrow> (int \<times> jsmntok list \<times> jparse_ctx) option" where
  "json_parse_start_static js buffer_tokens =
     (let cleared = replicate (length buffer_tokens) zero_token in
      Option.bind (jsmn_parse js 0 jsmn_init None) (\<lambda>(num_tokens, p, _).
       if num_tokens \<le> 0 \<or> num_tokens > int (length buffer_tokens) then Some (- OS_FAIL, cleared, zero_ctx\<lparr>jp_parser := p\<rparr>)
       else
         Option.bind (jsmn_parse js (nat num_tokens) jsmn_init (Some cleared)) (\<lambda>(ret, p1, toks).
           if ret \<le> 0 then Some (- OS_FAIL, the_default [] toks, zero_ctx)
           else Some (OS_SUCCESS, the_default [] toks, \<lparr>jp_parser = p1, jp_js = js, jp_tokens = the_default [] toks,
                  jp_cur = 0, jp_num_tokens = num_tokens\<rparr>))))"

definition json_parse_end_static :: "jparse_ctx \<Rightarrow> int \<times> jparse_ctx" where
  "json_parse_end_static ctx = (OS_SUCCESS, zero_ctx)"

end
