(* ===== verification/JsonTrip.thy ===== *)
theory JsonTrip
  imports JsonGen JsonParser
begin

text \<open>
  The text the JSON generator writes is tokenized as the document it came from, and the typed access
  finds its values.
\<close>

section \<open>The tokens of a document\<close>

fun tok_count :: "json \<Rightarrow> nat" where
  "tok_count (JArr vs) = Suc (sum_list (map tok_count vs))"
| "tok_count (JObj ms) = Suc (sum_list (map (\<lambda>(k, v). Suc (tok_count v)) ms))"
| "tok_count _ = 1"

definition prim_tok :: "nat \<Rightarrow> int \<Rightarrow> string \<Rightarrow> jsmntok" where
  "prim_tok p s w = \<lparr>t_type = JSMN_PRIMITIVE, t_start = int p, t_end = int (p + length w), t_size = 0, t_parent = s\<rparr>"

definition str_tok :: "nat \<Rightarrow> int \<Rightarrow> int \<Rightarrow> string \<Rightarrow> jsmntok" where
  "str_tok p s n w = \<lparr>t_type = JSMN_STRING, t_start = int p + 1, t_end = int (p + length w + 1), t_size = n, t_parent = s\<rparr>"

definition cont_tok :: "jsmntype_t \<Rightarrow> nat \<Rightarrow> int \<Rightarrow> nat \<Rightarrow> string \<Rightarrow> jsmntok" where
  "cont_tok ty p s n w = \<lparr>t_type = ty, t_start = int p, t_end = int (p + length w), t_size = int n, t_parent = s\<rparr>"

text \<open>Parts one after the other, separated by a comma: length of the text, number of tokens, and the tokens.\<close>

fun layouts :: "nat \<Rightarrow> nat \<Rightarrow> (nat \<times> nat \<times> (nat \<Rightarrow> nat \<Rightarrow> jsmntok list)) list \<Rightarrow> jsmntok list" where
  "layouts p i [] = []"
| "layouts p i ((l, k, f) # r) = f p i @ layouts (p + l + 1) (i + k) r"

text \<open>The tokens of a value whose text is at \<open>p\<close>, below the token \<open>s\<close>, from the index \<open>i\<close> on.\<close>

fun layout :: "nat \<Rightarrow> int \<Rightarrow> nat \<Rightarrow> json \<Rightarrow> jsmntok list" where
  "layout p s i (JStr w) = [str_tok p s 0 w]"
| "layout p s i (JLong w ws) = [str_tok p s 0 (w @ concat ws)]"
| "layout p s i (JArr vs) = cont_tok JSMN_ARRAY p s (length vs) (render (JArr vs)) #
     layouts (p + 1) (i + 1) (map (\<lambda>v. (length (render v), tok_count v, \<lambda>p' i'. layout p' (int i) i' v)) vs)"
| "layout p s i (JObj ms) = cont_tok JSMN_OBJECT p s (length ms) (render (JObj ms)) #
     layouts (p + 1) (i + 1) (map (\<lambda>(k, v). (length k + 3 + length (render v), Suc (tok_count v),
       \<lambda>p' i'. str_tok p' (int i) 1 k # layout (p' + length k + 3) (int i') (i' + 1) v)) ms)"
| "layout p s i JNull = [prim_tok p s ''null'']"
| "layout p s i (JBool b) = [prim_tok p s (if b then ''true'' else ''false'')]"
| "layout p s i (JInt n) = [prim_tok p s (dec_int n)]"
| "layout p s i (JFloat w) = [prim_tok p s w]"

lemma length_layouts:
  "\<forall>x \<in> set xs. \<forall>p i. length (snd (snd x) p i) = fst (snd x) \<Longrightarrow>
    length (layouts p i xs) = sum_list (map (\<lambda>x. fst (snd x)) xs)"
  by (induction p i xs rule: layouts.induct) auto

lemma length_layout [simp]: "length (layout p s i v) = tok_count v"
proof (induction v arbitrary: p s i rule: tok_count.induct)
  case (1 vs)
  then have "length (layouts p' i' (map (\<lambda>v. (length (render v), tok_count v, \<lambda>p' i'. layout p' (int i) i' v)) vs)) = sum_list (map tok_count vs)"
    for p' i' by (subst length_layouts) (auto simp: comp_def)
  then show ?case by simp
next
  case (2 ms)
  then have "length (layouts p' i' (map (\<lambda>(k, v). (length k + 3 + length (render v), Suc (tok_count v),
       \<lambda>p' i'. str_tok p' (int i) 1 k # layout (p' + length k + 3) (int i') (i' + 1) v)) ms)) =
     sum_list (map (\<lambda>(k, v). Suc (tok_count v)) ms)" for p' i'
    by (subst length_layouts) (auto simp: comp_def split_def)
  then show ?case by simp
qed auto

section \<open>Nested tokens\<close>

definition closed_tok :: "jsmntok \<Rightarrow> bool" where
  "closed_tok t \<longleftrightarrow> t_start t \<noteq> -1 \<and> t_end t \<noteq> -1"

definition nested :: "int \<Rightarrow> nat \<Rightarrow> jsmntok list \<Rightarrow> bool" where
  "nested s i ts \<longleftrightarrow> (\<forall>j < length ts. closed_tok (ts ! j) \<and>
     (t_parent (ts ! j) = s \<or> int i \<le> t_parent (ts ! j) \<and> t_parent (ts ! j) < int (i + j)))"

lemma nested_Nil [simp]: "nested s i []"
  by (simp add: nested_def)

lemma nested_append: "nested s i xs \<Longrightarrow> nested s (i + length xs) ys \<Longrightarrow> nested s i (xs @ ys)"
  unfolding nested_def
proof (intro allI impI)
  fix j
  assume xs: "\<forall>j < length xs. closed_tok (xs ! j) \<and> (t_parent (xs ! j) = s \<or> int i \<le> t_parent (xs ! j) \<and> t_parent (xs ! j) < int (i + j))"
    and ys: "\<forall>j < length ys. closed_tok (ys ! j) \<and>
      (t_parent (ys ! j) = s \<or> int (i + length xs) \<le> t_parent (ys ! j) \<and> t_parent (ys ! j) < int (i + length xs + j))"
    and j: "j < length (xs @ ys)"
  show "closed_tok ((xs @ ys) ! j) \<and>
     (t_parent ((xs @ ys) ! j) = s \<or> int i \<le> t_parent ((xs @ ys) ! j) \<and> t_parent ((xs @ ys) ! j) < int (i + j))"
  proof (cases "j < length xs")
    case False
    moreover from this j have "j - length xs < length ys" by auto
    from ys [rule_format, OF this] have "closed_tok (ys ! (j - length xs))"
      "t_parent (ys ! (j - length xs)) = s \<or> int (i + length xs) \<le> t_parent (ys ! (j - length xs)) \<and>
        t_parent (ys ! (j - length xs)) < int (i + length xs + (j - length xs))" by simp_all
    ultimately show ?thesis by (auto simp: nth_append)
  qed (use xs in \<open>simp add: nth_append\<close>)
qed

lemma nested_Cons: "closed_tok t \<Longrightarrow> t_parent t = s \<Longrightarrow> nested (int i) (i + 1) ts \<Longrightarrow> nested s i (t # ts)"
  by (force simp: nested_def nth_Cons split: nat.splits)

lemma nested_layouts:
  "\<forall>x \<in> set xs. \<forall>p i. length (snd (snd x) p i) = fst (snd x) \<and> nested s i (snd (snd x) p i) \<Longrightarrow> nested s i (layouts p i xs)"
  by (induction p i xs rule: layouts.induct) (simp_all add: nested_append)

lemma closed_toks [simp]: "closed_tok (prim_tok p s w)" "closed_tok (str_tok p s n w)" "closed_tok (cont_tok ty p s k w)"
  by (simp_all add: closed_tok_def prim_tok_def str_tok_def cont_tok_def)

lemma parent_toks [simp]:
  "t_parent (prim_tok p s w) = s" "t_parent (str_tok p s n w) = s" "t_parent (cont_tok ty p s k w) = s"
  by (simp_all add: prim_tok_def str_tok_def cont_tok_def)

lemma nested_layout: "nested s i (layout p s i v)"
proof (induction v arbitrary: p s i rule: tok_count.induct)
  case (1 vs)
  then show ?case by (auto intro!: nested_Cons nested_layouts)
next
  case (2 ms)
  then show ?case by (auto intro!: nested_Cons nested_layouts)
qed (auto intro!: nested_Cons)

text \<open>Climbing from the end of closed tokens arrives at the token above them.\<close>

lemma close_loop_climbs:
  assumes "nested s (length xs) ys" "0 \<le> s" "j < length ys"
  shows "close_loop (xs @ ys @ zs) p ty (int (length xs + j)) = close_loop (xs @ ys @ zs) p ty s"
  using assms(3)
proof (induction j rule: less_induct)
  case (less j)
  define t where "t = ys ! j"
  have t: "tok_at (xs @ ys @ zs) (int (length xs + j)) = Some t" "closed_tok t"
    "t_parent t = s \<or> int (length xs) \<le> t_parent t \<and> t_parent t < int (length xs + j)"
    using assms(1) less.prems by (auto simp: nested_def t_def nth_append tok_at_def nat_add_distrib)
  then have "close_loop (xs @ ys @ zs) p ty (int (length xs + j)) = close_loop (xs @ ys @ zs) p ty (t_parent t)"
    using assms(2) by (subst close_loop.simps) (auto simp: closed_tok_def)
  moreover have "close_loop (xs @ ys @ zs) p ty (t_parent t) = close_loop (xs @ ys @ zs) p ty s" if "t_parent t \<noteq> s"
  proof -
    define k where "k = nat (t_parent t) - length xs"
    have "t_parent t = int (length xs + k)" "k < j" using t(3) that by (auto simp: k_def)
    with less.IH [of k] less.prems show ?thesis by simp
  qed
  ultimately show ?case by metis
qed

section \<open>Steps of the tokenizer\<close>

definition plain_char :: "char \<Rightarrow> bool" where
  "plain_char c \<longleftrightarrow> c \<noteq> CHR 0x22 \<and> c \<noteq> CHR 0x5c \<and> c \<noteq> NUL_char"

definition word_char :: "char \<Rightarrow> bool" where
  "word_char c \<longleftrightarrow> \<not> prim_end c \<and> 32 \<le> (of_char c :: nat) \<and> (of_char c :: nat) < 127"

definition prim_text :: "string \<Rightarrow> bool" where
  "prim_text w \<longleftrightarrow> w \<noteq> [] \<and> primitive_start (hd w) \<and> list_all word_char w"

fun plain_json :: "json \<Rightarrow> bool" where
  "plain_json (JStr w) = list_all plain_char w"
| "plain_json (JLong w ws) = list_all plain_char (w @ concat ws)"
| "plain_json (JFloat w) = prim_text w"
| "plain_json (JArr vs) = (\<forall>v \<in> set vs. plain_json v)"
| "plain_json (JObj ms) = (\<forall>(k, v) \<in> set ms. list_all plain_char k \<and> plain_json v)"
| "plain_json _ = True"

lemma word_char_NUL: "word_char c \<Longrightarrow> c \<noteq> NUL_char"
  by (auto simp: word_char_def NUL_char_def)

lemma prim_loop_word:
  "js = pre @ w @ d # post \<Longrightarrow> list_all word_char w \<Longrightarrow> prim_end d \<Longrightarrow>
    prim_loop js (length pre) = Inr (length pre + length w)"
proof (induction w arbitrary: pre)
  case Nil
  then have "js ! length pre \<noteq> NUL_char" by (auto simp: prim_end_def NUL_char_def)
  then show ?case using Nil by (subst prim_loop.simps) (simp add: nth_append)
next
  case (Cons c w)
  then have "prim_loop js (length (pre @ [c])) = Inr (length (pre @ [c]) + length w)" by (intro Cons.IH) auto
  then show ?case using Cons.prems word_char_NUL [of c] by (subst prim_loop.simps) (auto simp: word_char_def nth_append)
qed

lemma str_loop_plain:
  "js = pre @ w @ CHR 0x22 # post \<Longrightarrow> list_all plain_char w \<Longrightarrow> str_loop js (length pre) = Inr (length pre + length w)"
proof (induction w arbitrary: pre)
  case Nil
  then show ?case by (subst str_loop.simps) (simp add: nth_append NUL_char_def)
next
  case (Cons c w)
  then have "str_loop js (length (pre @ [c])) = Inr (length (pre @ [c]) + length w)" by (intro Cons.IH) auto
  then show ?case using Cons.prems by (subst str_loop.simps) (auto simp: plain_char_def nth_append)
qed

lemma loop_step:
  assumes "js = pre @ c # post" "c \<noteq> NUL_char" "p_pos p = length pre"
    and "jsmn_step js n p toks k = Some (0, p1, toks1, k1)" "p_pos p1 + 1 = q"
  shows "jsmn_loop js n p toks k = jsmn_loop js n (p1\<lparr>p_pos := q\<rparr>) toks1 k1"
proof -
  have "p_pos p < length js \<and> js ! p_pos p \<noteq> NUL_char" using assms(1-3) by (simp add: nth_append)
  then show ?thesis using assms(4, 5) by (subst jsmn_loop.simps) simp
qed

text \<open>The token above counts one more, if there is one.\<close>

definition bump :: "int \<Rightarrow> jsmntok list \<Rightarrow> jsmntok list" where
  "bump s ts = (if s = -1 then ts else ts[nat s := (ts ! nat s)\<lparr>t_size := t_size (ts ! nat s) + 1\<rparr>])"

text \<open>The token above accepts a value.\<close>

definition host :: "int \<Rightarrow> jsmntok list \<Rightarrow> bool" where
  "host s ts \<longleftrightarrow> s = -1 \<or> 0 \<le> s \<and> s < int (length ts) \<and>
     (t_type (ts ! nat s) = JSMN_ARRAY \<or> t_type (ts ! nat s) = JSMN_STRING \<and> t_size (ts ! nat s) = 0)"

lemma length_bump [simp]: "length (bump s ts) = length ts"
  by (simp add: bump_def)

lemma bump_append: "-1 \<le> s \<Longrightarrow> s < int (length xs) \<Longrightarrow> bump s (xs @ ys) = bump s xs @ ys"
  by (auto simp: bump_def list_update_append nth_append)

lemma new_token_appends:
  assumes "length Z = Suc m" "n = length A + length Z" "s < int (length A)" "-1 \<le> s"
  shows "new_token ty st en q \<lparr>p_pos = x, p_toknext = length A, p_toksuper = s\<rparr> (Some (A @ Z)) n =
    Some (0, \<lparr>p_pos = q, p_toknext = Suc (length A), p_toksuper = s\<rparr>,
      Some (A @ \<lparr>t_type = ty, t_start = st, t_end = en, t_size = 0, t_parent = s\<rparr> # drop 1 Z))"
proof -
  obtain z Z' where Z: "Z = z # Z'" using assms(1) by (cases Z) auto
  show ?thesis using assms(2-4) unfolding Z
    by (cases z) (simp add: new_token_def jsmn_alloc_token_def jsmn_fill_token_def nth_append list_update_append)
qed

lemma count_in_super_bumps:
  "-1 \<le> s \<Longrightarrow> s < int (length ts) \<Longrightarrow>
    count_in_super \<lparr>p_pos = x, p_toknext = y, p_toksuper = s\<rparr> (Some ts) = Some (Some (bump s ts))"
  by (auto simp: count_in_super_def bump_def)

lemma run_primitive:
  assumes js: "js = pre @ w @ d # post" and w: "prim_text w" and d: "prim_end d" and s: "-1 \<le> s" "s < int (length A)" "host s A"
    and Z: "length Z = Suc m" "n = length A + length Z"
  shows "jsmn_loop js n \<lparr>p_pos = length pre, p_toknext = length A, p_toksuper = s\<rparr> (Some (A @ Z)) k =
    jsmn_loop js n \<lparr>p_pos = length (pre @ w), p_toknext = Suc (length A), p_toksuper = s\<rparr>
      (Some (bump s A @ prim_tok (length pre) s w # drop 1 Z)) (k + 1)"
proof -
  obtain c w' where cw: "w = c # w'" using w by (cases w) (auto simp: prim_text_def)
  then have c: "primitive_start c" "word_char c" using w by (auto simp: prim_text_def)
  have at: "js ! length pre = c" using js cw by (simp add: nth_append)
  let ?p = "\<lparr>p_pos = length pre, p_toknext = length A, p_toksuper = s\<rparr>"
  have "primitive_misplaced ?p (Some (A @ Z)) = Some False"
    using s by (auto simp: primitive_misplaced_def host_def nth_append)
  moreover have "jsmn_parse_primitive ?p js (Some (A @ Z)) n = Some (0, \<lparr>p_pos = length pre + length w - 1,
      p_toknext = Suc (length A), p_toksuper = s\<rparr>, Some (A @ prim_tok (length pre) s w # drop 1 Z))"
    using prim_loop_word [OF js] w d new_token_appends [OF Z s(2, 1)]
    by (simp add: jsmn_parse_primitive_def prim_text_def prim_tok_def)
  ultimately have st: "jsmn_step js n ?p (Some (A @ Z)) k = Some (0, \<lparr>p_pos = length pre + length w - 1,
      p_toknext = Suc (length A), p_toksuper = s\<rparr>, Some (bump s A @ prim_tok (length pre) s w # drop 1 Z), k + 1)"
    using c(1) at s by (auto simp: jsmn_step_def after_value_def primitive_start_def count_in_super_bumps bump_append)
  have "js = pre @ c # (w' @ d # post)" using js cw by simp
  from loop_step [OF this word_char_NUL [OF c(2)] _ st, of "length (pre @ w)"] show ?thesis using cw by simp
qed

lemma run_string:
  assumes js: "js = pre @ quoted w @ post" and w: "list_all plain_char w" and s: "-1 \<le> s" "s < int (length A)"
    and Z: "length Z = Suc m" "n = length A + length Z"
  shows "jsmn_loop js n \<lparr>p_pos = length pre, p_toknext = length A, p_toksuper = s\<rparr> (Some (A @ Z)) k =
    jsmn_loop js n \<lparr>p_pos = length (pre @ quoted w), p_toknext = Suc (length A), p_toksuper = s\<rparr>
      (Some (bump s A @ str_tok (length pre) s 0 w # drop 1 Z)) (k + 1)"
proof -
  let ?p = "\<lparr>p_pos = length pre, p_toknext = length A, p_toksuper = s\<rparr>"
  have at: "js ! length pre = CHR 0x22" using js by (simp add: nth_append quoted_def)
  have "js = (pre @ [CHR 0x22]) @ w @ CHR 0x22 # post" using js by (simp add: quoted_def)
  from str_loop_plain [OF this w] have "str_loop js (length pre + 1) = Inr (length pre + 1 + length w)" by simp
  then have "jsmn_parse_string ?p js (Some (A @ Z)) n = Some (0, \<lparr>p_pos = length pre + 1 + length w,
      p_toknext = Suc (length A), p_toksuper = s\<rparr>, Some (A @ str_tok (length pre) s 0 w # drop 1 Z))"
    using new_token_appends [OF Z s(2, 1)] by (simp add: jsmn_parse_string_def str_tok_def add.commute)
  then have st: "jsmn_step js n ?p (Some (A @ Z)) k = Some (0, \<lparr>p_pos = length pre + 1 + length w,
      p_toknext = Suc (length A), p_toksuper = s\<rparr>, Some (bump s A @ str_tok (length pre) s 0 w # drop 1 Z), k + 1)"
    using at s by (simp add: jsmn_step_def after_value_def count_in_super_bumps bump_append)
  have "js = pre @ CHR 0x22 # (w @ CHR 0x22 # post)" using js by (simp add: quoted_def)
  from loop_step [OF this _ _ st, of "length (pre @ quoted w)"] show ?thesis by (simp add: NUL_char_def quoted_def)
qed

lemma run_open:
  assumes js: "js = pre @ c # post" and c: "c = CHR ''{'' \<or> c = CHR ''[''" and s: "-1 \<le> s" "s < int (length A)" "host s A"
    and Z: "length Z = Suc m" "n = length A + length Z"
  shows "jsmn_loop js n \<lparr>p_pos = length pre, p_toknext = length A, p_toksuper = s\<rparr> (Some (A @ Z)) k =
    jsmn_loop js n \<lparr>p_pos = length (pre @ [c]), p_toknext = Suc (length A), p_toksuper = int (length A)\<rparr>
      (Some (bump s A @ \<lparr>t_type = if c = CHR ''{'' then JSMN_OBJECT else JSMN_ARRAY, t_start = int (length pre), t_end = -1,
        t_size = 0, t_parent = s\<rparr> # drop 1 Z)) (k + 1)"
proof -
  let ?p = "\<lparr>p_pos = length pre, p_toknext = length A, p_toksuper = s\<rparr>"
  let ?t = "\<lparr>t_type = if c = CHR ''{'' then JSMN_OBJECT else JSMN_ARRAY, t_start = int (length pre), t_end = -1,
        t_size = 0, t_parent = s\<rparr>"
  obtain z Z' where zz: "Z = z # Z'" using Z(1) by (cases Z) auto
  have at: "js ! length pre = c" using js by (simp add: nth_append)
  have alloc: "jsmn_alloc_token ?p (A @ Z) n = Some (Some (int (length A), ?p\<lparr>p_toknext := Suc (length A)\<rparr>,
      A @ z\<lparr>t_start := -1, t_end := -1, t_size := 0, t_parent := -1\<rparr> # Z'))"
    using Z(2) zz by (simp add: jsmn_alloc_token_def nth_append list_update_append)
  have host: "t_type (A ! nat s) \<noteq> JSMN_OBJECT \<and> nat s < length A \<and> 0 \<le> s" if "s \<noteq> -1"
    using s that by (auto simp: host_def)
  have "jsmn_open c ?p (A @ Z) n = Some (0, \<lparr>p_pos = length pre, p_toknext = Suc (length A), p_toksuper = int (length A)\<rparr>,
      Some (bump s A @ ?t # Z'))"
    unfolding jsmn_open_def alloc using host by (cases "s = -1"; cases z)
      (auto simp: Let_def bump_def nth_append list_update_append)
  then have st: "jsmn_step js n ?p (Some (A @ Z)) k = Some (0, \<lparr>p_pos = length pre, p_toknext = Suc (length A),
      p_toksuper = int (length A)\<rparr>, Some (bump s A @ ?t # Z'), k + 1)"
    using at c by (auto simp: jsmn_step_def)
  have "c \<noteq> NUL_char" using c by (auto simp: NUL_char_def)
  from loop_step [OF js this _ st, of "length (pre @ [c])"] show ?thesis using zz by simp
qed

lemma run_comma:
  assumes js: "js = pre @ CHR '','' # post" and s: "0 \<le> s" "s < int (length A)"
  shows "jsmn_loop js n \<lparr>p_pos = length pre, p_toknext = x, p_toksuper = s\<rparr> (Some A) k =
    jsmn_loop js n \<lparr>p_pos = length (pre @ '',''), p_toknext = x,
      p_toksuper = if t_type (A ! nat s) \<noteq> JSMN_ARRAY \<and> t_type (A ! nat s) \<noteq> JSMN_OBJECT then t_parent (A ! nat s) else s\<rparr> (Some A) k"
proof -
  let ?s = "if t_type (A ! nat s) \<noteq> JSMN_ARRAY \<and> t_type (A ! nat s) \<noteq> JSMN_OBJECT then t_parent (A ! nat s) else s"
  have at: "js ! length pre = CHR '',''" using js by (simp add: nth_append)
  have st: "jsmn_step js n \<lparr>p_pos = length pre, p_toknext = x, p_toksuper = s\<rparr> (Some A) k =
      Some (0, \<lparr>p_pos = length pre, p_toknext = x, p_toksuper = ?s\<rparr>, Some A, k)"
    using s at by (simp add: jsmn_step_def jsmn_comma_def)
  from loop_step [OF js _ _ st, of "length (pre @ '','')"] show ?thesis by (simp add: NUL_char_def)
qed

lemma run_colon:
  assumes js: "js = pre @ CHR '':'' # post"
  shows "jsmn_loop js n \<lparr>p_pos = length pre, p_toknext = Suc x, p_toksuper = s\<rparr> toks k =
    jsmn_loop js n \<lparr>p_pos = length (pre @ '':''), p_toknext = Suc x, p_toksuper = int x\<rparr> toks k"
proof -
  have at: "js ! length pre = CHR '':''" using js by (simp add: nth_append)
  have st: "jsmn_step js n \<lparr>p_pos = length pre, p_toknext = Suc x, p_toksuper = s\<rparr> toks k =
      Some (0, \<lparr>p_pos = length pre, p_toknext = Suc x, p_toksuper = int x\<rparr>, toks, k)"
    using at by (simp add: jsmn_step_def)
  from loop_step [OF js _ _ st, of "length (pre @ '':'')"] show ?thesis by (simp add: NUL_char_def)
qed

text \<open>A closing bracket closes the open token above the closed ones.\<close>

lemma run_close:
  assumes js: "js = pre @ c # post" and c: "c = (if ty = JSMN_OBJECT then CHR ''}'' else CHR '']'')"
    and t: "t_type t = ty" "ty = JSMN_OBJECT \<or> ty = JSMN_ARRAY" "t_start t \<noteq> -1" "t_end t = -1"
    and L: "nested (int (length A)) (Suc (length A)) L"
  shows "jsmn_loop js n \<lparr>p_pos = length pre, p_toknext = length A + Suc (length L), p_toksuper = s\<rparr> (Some (A @ t # L @ Z)) k =
    jsmn_loop js n \<lparr>p_pos = length (pre @ [c]), p_toknext = length A + Suc (length L), p_toksuper = t_parent t\<rparr>
      (Some (A @ t\<lparr>t_end := int (length pre) + 1\<rparr> # L @ Z)) k"
proof -
  let ?p = "\<lparr>p_pos = length pre, p_toknext = length A + Suc (length L), p_toksuper = s\<rparr>"
  have at: "js ! length pre = c" using js by (simp add: nth_append)
  have top: "close_loop (A @ t # L @ Z) ?p ty (int (length A)) =
      Some (0, ?p\<lparr>p_toksuper := t_parent t\<rparr>, A @ t\<lparr>t_end := int (length pre) + 1\<rparr> # L @ Z)"
    using t by (subst close_loop.simps) (simp add: nth_append list_update_append)
  have "close_loop (A @ t # L @ Z) ?p ty (int (length A + length L)) = close_loop (A @ t # L @ Z) ?p ty (int (length A))"
  proof (cases "L = []")
    case False
    then show ?thesis
      using close_loop_climbs [of "int (length A)" "A @ [t]" L "length L - 1" Z ?p ty] L by (cases L) simp_all
  qed simp
  then have "jsmn_close c ?p (A @ t # L @ Z) =
      Some (0, ?p\<lparr>p_toksuper := t_parent t\<rparr>, Some (A @ t\<lparr>t_end := int (length pre) + 1\<rparr> # L @ Z))"
    using top c t(2) by (auto simp: jsmn_close_def)
  then have st: "jsmn_step js n ?p (Some (A @ t # L @ Z)) k =
      Some (0, ?p\<lparr>p_toksuper := t_parent t\<rparr>, Some (A @ t\<lparr>t_end := int (length pre) + 1\<rparr> # L @ Z), k)"
    using at c by (auto simp: jsmn_step_def)
  have "c \<noteq> NUL_char" using c by (auto simp: NUL_char_def)
  from loop_step [OF js this _ st, of "length (pre @ [c])"] show ?thesis by simp
qed

section \<open>Documents are tokenized\<close>

fun is_container :: "json \<Rightarrow> bool" where
  "is_container (JArr vs) = True"
| "is_container (JObj ms) = True"
| "is_container _ = False"

definition delimited :: "json \<Rightarrow> string \<Rightarrow> bool" where
  "delimited v post \<longleftrightarrow> is_container v \<or> (\<exists>d r. post = d # r \<and> prim_end d)"

definition tokenizes :: "json \<Rightarrow> bool" where
  "tokenizes v \<longleftrightarrow> (\<forall>js pre post A Z s k n. js = pre @ render v @ post \<longrightarrow> delimited v post \<longrightarrow> -1 \<le> s \<longrightarrow> s < int (length A) \<longrightarrow>
     host s A \<longrightarrow> tok_count v \<le> length Z \<longrightarrow> n = length A + length Z \<longrightarrow>
     jsmn_loop js n \<lparr>p_pos = length pre, p_toknext = length A, p_toksuper = s\<rparr> (Some (A @ Z)) k =
     jsmn_loop js n \<lparr>p_pos = length (pre @ render v), p_toknext = length A + tok_count v, p_toksuper = s\<rparr>
       (Some (bump s A @ layout (length pre) s (length A) v @ drop (tok_count v) Z)) (k + int (tok_count v)))"

lemma tokenizesD:
  assumes "tokenizes v" "js = pre @ render v @ post" "delimited v post" "-1 \<le> s" "s < int (length A)" "host s A"
    "tok_count v \<le> length Z" "n = length A + length Z"
  shows "jsmn_loop js n \<lparr>p_pos = length pre, p_toknext = length A, p_toksuper = s\<rparr> (Some (A @ Z)) k =
     jsmn_loop js n \<lparr>p_pos = length (pre @ render v), p_toknext = length A + tok_count v, p_toksuper = s\<rparr>
       (Some (bump s A @ layout (length pre) s (length A) v @ drop (tok_count v) Z)) (k + int (tok_count v))"
  using assms unfolding tokenizes_def by blast

definition elem_layouts :: "nat \<Rightarrow> nat \<Rightarrow> nat \<Rightarrow> json list \<Rightarrow> jsmntok list" where
  "elem_layouts b p i vs = layouts p i (map (\<lambda>v. (length (render v), tok_count v, \<lambda>p' i'. layout p' (int b) i' v)) vs)"

definition memb_layouts :: "nat \<Rightarrow> nat \<Rightarrow> nat \<Rightarrow> (string \<times> json) list \<Rightarrow> jsmntok list" where
  "memb_layouts b p i ms = layouts p i (map (\<lambda>(k, v). (length k + 3 + length (render v), Suc (tok_count v),
       \<lambda>p' i'. str_tok p' (int b) 1 k # layout (p' + length k + 3) (int i') (i' + 1) v)) ms)"

lemma part_layouts [simp]:
  "elem_layouts b p i [] = []" "memb_layouts b p i [] = []"
  "elem_layouts b p i (v # vs) = layout p (int b) i v @ elem_layouts b (p + length (render v) + 1) (i + tok_count v) vs"
  "memb_layouts b p i ((k, v) # ms) = str_tok p (int b) 1 k # layout (p + length k + 3) (int i) (i + 1) v @
     memb_layouts b (p + (length k + 3 + length (render v)) + 1) (i + Suc (tok_count v)) ms"
  by (simp_all add: elem_layouts_def memb_layouts_def)

lemma nested_parts: "nested (int b) i (elem_layouts b p i vs)" "nested (int b) i (memb_layouts b p i ms)"
  unfolding elem_layouts_def memb_layouts_def by (rule nested_layouts; auto intro!: nested_Cons nested_layout)+

lemma length_parts [simp]:
  "length (elem_layouts b p i vs) = sum_list (map tok_count vs)"
  "length (memb_layouts b p i ms) = sum_list (map (\<lambda>(k, v). Suc (tok_count v)) ms)"
proof -
  show "length (elem_layouts b p i vs) = sum_list (map tok_count vs)" by (induction vs arbitrary: p i) auto
  show "length (memb_layouts b p i ms) = sum_list (map (\<lambda>(k, v). Suc (tok_count v)) ms)" by (induction ms arbitrary: p i) auto
qed

definition grow :: "nat \<Rightarrow> nat \<Rightarrow> jsmntok list \<Rightarrow> jsmntok list" where
  "grow m b ts = ts[b := (ts ! b)\<lparr>t_size := t_size (ts ! b) + int m\<rparr>]"

lemma grow_simps [simp]:
  "length (grow m b ts) = length ts" "b < length ts \<Longrightarrow> t_type (grow m b ts ! b) = t_type (ts ! b)"
  "b < length ts \<Longrightarrow> grow m b (bump (int b) ts @ us) = grow (Suc m) b ts @ us" "bump (int b) ts = grow 1 b ts"
  "b < length ts \<Longrightarrow> grow m b (grow l b ts @ us) = grow (l + m) b ts @ us"
  by (auto simp: grow_def bump_def nth_append list_update_append algebra_simps)

lemma run_elements:
  assumes "\<forall>v \<in> set vs. tokenizes v" "vs \<noteq> []" "js = pre @ commas (map render vs) @ CHR '']'' # post" "b < length B"
    "t_type (B ! b) = JSMN_ARRAY" "sum_list (map tok_count vs) \<le> length Z" "n = length B + length Z"
  shows "jsmn_loop js n \<lparr>p_pos = length pre, p_toknext = length B, p_toksuper = int b\<rparr> (Some (B @ Z)) k =
    jsmn_loop js n \<lparr>p_pos = length (pre @ commas (map render vs)), p_toknext = length B + sum_list (map tok_count vs), p_toksuper = int b\<rparr>
      (Some (grow (length vs) b B @ elem_layouts b (length pre) (length B) vs @ drop (sum_list (map tok_count vs)) Z))
      (k + int (sum_list (map tok_count vs)))"
  using assms
proof (induction vs arbitrary: pre B Z k)
  case (Cons v vs)
  have host: "host (int b) B" using Cons.prems by (simp add: host_def)
  have tv: "tokenizes v" "tok_count v \<le> length Z" using Cons.prems by simp_all
  show ?case
  proof (cases vs)
    case Nil
    have js: "js = pre @ render v @ CHR '']'' # post" using Cons.prems(3) Nil by simp
    have "delimited v (CHR '']'' # post)" by (simp add: delimited_def prim_end_def)
    from tokenizesD [OF tv(1) js this _ _ host tv(2) Cons.prems(7)] Cons.prems(4) Nil show ?thesis by simp
  next
    case (Cons v2 vs2)
    define rest where "rest = commas (map render vs) @ CHR '']'' # post"
    define Z1 where "Z1 = drop (tok_count v) Z"
    define B1 where "B1 = grow 1 b B @ layout (length pre) (int b) (length B) v"
    have js: "js = pre @ render v @ CHR '','' # rest" using Cons.prems(3) Cons by (simp add: rest_def)
    have del: "delimited v (CHR '','' # rest)" by (simp add: delimited_def prim_end_def)
    have b1: "b < length B1" "t_type (B1 ! b) = JSMN_ARRAY" "length B1 = length B + tok_count v"
      using Cons.prems(4, 5) by (simp_all add: B1_def nth_append)
    have "jsmn_loop js n \<lparr>p_pos = length pre, p_toknext = length B, p_toksuper = int b\<rparr> (Some (B @ Z)) k =
      jsmn_loop js n \<lparr>p_pos = length (pre @ render v), p_toknext = length B1, p_toksuper = int b\<rparr> (Some (B1 @ Z1)) (k + int (tok_count v))"
      using tokenizesD [OF tv(1) js del _ _ host tv(2) Cons.prems(7)] Cons.prems(4) b1(3) by (simp add: B1_def Z1_def)
    also have "\<dots> = jsmn_loop js n \<lparr>p_pos = length (pre @ render v @ '',''), p_toknext = length B1, p_toksuper = int b\<rparr> (Some (B1 @ Z1))
        (k + int (tok_count v))"
      using run_comma [of js "pre @ render v" rest "int b" "B1 @ Z1"] js b1 by (simp add: nth_append)
    also have "\<dots> = jsmn_loop js n \<lparr>p_pos = length ((pre @ render v @ '','') @ commas (map render vs)),
        p_toknext = length B1 + sum_list (map tok_count vs), p_toksuper = int b\<rparr>
      (Some (grow (length vs) b B1 @ elem_layouts b (length (pre @ render v @ '','')) (length B1) vs @
         drop (sum_list (map tok_count vs)) Z1)) (k + int (tok_count v) + int (sum_list (map tok_count vs)))"
      using Cons.IH [of "pre @ render v @ '',''" B1 Z1 "k + int (tok_count v)"] Cons.prems js Cons b1 by (simp add: rest_def Z1_def)
    finally show ?thesis
      using Cons b1 Cons.prems(4) by (simp add: B1_def Z1_def add.assoc add.commute add.left_commute)
  qed
qed simp

definition member_text :: "string \<times> json \<Rightarrow> string" where
  "member_text = (\<lambda>(k, v). quoted k @ '':'' @ render v)"

definition member_count :: "string \<times> json \<Rightarrow> nat" where
  "member_count = (\<lambda>(k, v). Suc (tok_count v))"

lemma run_member:
  assumes v: "tokenizes v" "list_all plain_char key" and js: "js = pre @ member_text (key, v) @ d # post" and d: "prim_end d"
    and b: "b < length B" and Z: "Suc (tok_count v) \<le> length Z" "n = length B + length Z"
  shows "jsmn_loop js n \<lparr>p_pos = length pre, p_toknext = length B, p_toksuper = int b\<rparr> (Some (B @ Z)) k =
    jsmn_loop js n \<lparr>p_pos = length (pre @ member_text (key, v)), p_toknext = length B + Suc (tok_count v), p_toksuper = int (length B)\<rparr>
      (Some (grow 1 b B @ str_tok (length pre) (int b) 1 key # layout (length pre + length key + 3) (int (length B)) (length B + 1) v @
         drop (Suc (tok_count v)) Z)) (k + int (Suc (tok_count v)))"
proof -
  define A where "A = grow 1 b B @ [str_tok (length pre) (int b) 0 key]"
  obtain z Z' where zz: "Z = z # Z'" using Z(1) by (cases Z) auto
  have js1: "js = pre @ quoted key @ (CHR '':'' # render v @ d # post)" and js2: "js = (pre @ quoted key) @ CHR '':'' # (render v @ d # post)"
    and js3: "js = (pre @ quoted key @ '':'') @ render v @ d # post"
    using js by (simp_all add: member_text_def)
  have "jsmn_loop js n \<lparr>p_pos = length pre, p_toknext = length B, p_toksuper = int b\<rparr> (Some (B @ Z)) k =
    jsmn_loop js n \<lparr>p_pos = length (pre @ quoted key), p_toknext = Suc (length B), p_toksuper = int b\<rparr> (Some (A @ Z')) (k + 1)"
    using run_string [OF js1 v(2), of "int b" B Z "length Z'" n k] b Z(2) zz by (simp add: A_def)
  also have "\<dots> = jsmn_loop js n \<lparr>p_pos = length (pre @ quoted key @ '':''), p_toknext = length A, p_toksuper = int (length B)\<rparr>
      (Some (A @ Z')) (k + 1)"
    using run_colon [OF js2, of n "length B"] by (simp add: A_def)
  also have "\<dots> = jsmn_loop js n \<lparr>p_pos = length ((pre @ quoted key @ '':'') @ render v), p_toknext = length A + tok_count v,
      p_toksuper = int (length B)\<rparr> (Some (bump (int (length B)) A @ layout (length (pre @ quoted key @ '':'')) (int (length B)) (length A) v @
        drop (tok_count v) Z')) (k + 1 + int (tok_count v))"
  proof (rule tokenizesD [OF v(1) js3])
    show "delimited v (d # post)" using d by (simp add: delimited_def)
    show "host (int (length B)) A" by (simp add: host_def A_def str_tok_def nth_append)
  qed (use Z zz in \<open>auto simp: A_def\<close>)
  also have "bump (int (length B)) A = grow 1 b B @ [str_tok (length pre) (int b) 1 key]"
    using b by (simp add: A_def grow_def str_tok_def list_update_append nth_append)
  finally show ?thesis
    using zz by (simp add: A_def member_text_def quoted_def numeral_3_eq_3 add.assoc add.commute add.left_commute)
qed

lemma run_members:
  assumes "\<forall>(key, v) \<in> set ms. tokenizes v \<and> list_all plain_char key" "ms \<noteq> []"
    "js = pre @ commas (map member_text ms) @ CHR ''}'' # post" "b < length B"
    "t_type (B ! b) = JSMN_OBJECT" "sum_list (map member_count ms) \<le> length Z" "n = length B + length Z"
  shows "\<exists>s. jsmn_loop js n \<lparr>p_pos = length pre, p_toknext = length B, p_toksuper = int b\<rparr> (Some (B @ Z)) k =
    jsmn_loop js n \<lparr>p_pos = length (pre @ commas (map member_text ms)), p_toknext = length B + sum_list (map member_count ms), p_toksuper = s\<rparr>
      (Some (grow (length ms) b B @ memb_layouts b (length pre) (length B) ms @ drop (sum_list (map member_count ms)) Z))
      (k + int (sum_list (map member_count ms)))"
  using assms
proof (induction ms arbitrary: pre B Z k)
  case (Cons m ms)
  obtain key v where m: "m = (key, v)" by (cases m)
  have tv: "tokenizes v" "list_all plain_char key" "Suc (tok_count v) \<le> length Z"
    using Cons.prems m by (simp_all add: member_count_def)
  show ?case
  proof (cases ms)
    case Nil
    have "js = pre @ member_text (key, v) @ CHR ''}'' # post" using Cons.prems(3) Nil m by simp
    from run_member [OF tv(1, 2) this _ Cons.prems(4) tv(3) Cons.prems(7), of k] show ?thesis
      using Nil m by (intro exI [of _ "int (length B)"]) (simp add: prim_end_def member_count_def)
  next
    case (Cons m2 ms2)
    define rest where "rest = commas (map member_text ms) @ CHR ''}'' # post"
    define Z1 where "Z1 = drop (Suc (tok_count v)) Z"
    define L where "L = str_tok (length pre) (int b) 1 key # layout (length pre + length key + 3) (int (length B)) (length B + 1) v"
    define B1 where "B1 = grow 1 b B @ L"
    have js: "js = pre @ member_text (key, v) @ CHR '','' # rest" using Cons.prems(3) Cons m by (simp add: rest_def)
    have b1: "b < length B1" "t_type (B1 ! b) = JSMN_OBJECT" "length B1 = length B + Suc (tok_count v)"
      using Cons.prems(4, 5) by (simp_all add: B1_def L_def nth_append)
    have "jsmn_loop js n \<lparr>p_pos = length pre, p_toknext = length B, p_toksuper = int b\<rparr> (Some (B @ Z)) k =
      jsmn_loop js n \<lparr>p_pos = length (pre @ member_text (key, v)), p_toknext = length B1, p_toksuper = int (length B)\<rparr>
        (Some (B1 @ Z1)) (k + int (Suc (tok_count v)))"
      using run_member [OF tv(1, 2) js _ Cons.prems(4) tv(3) Cons.prems(7), of k] b1(3)
      by (simp add: prim_end_def B1_def L_def Z1_def)
    also have "\<dots> = jsmn_loop js n \<lparr>p_pos = length (pre @ member_text (key, v) @ '',''), p_toknext = length B1, p_toksuper = int b\<rparr>
        (Some (B1 @ Z1)) (k + int (Suc (tok_count v)))"
      using run_comma [of js "pre @ member_text (key, v)" rest "int (length B)" "B1 @ Z1"] js
      by (simp add: B1_def L_def nth_append str_tok_def)
    finally have step: "jsmn_loop js n \<lparr>p_pos = length pre, p_toknext = length B, p_toksuper = int b\<rparr> (Some (B @ Z)) k =
      jsmn_loop js n \<lparr>p_pos = length (pre @ member_text (key, v) @ '',''), p_toknext = length B1, p_toksuper = int b\<rparr>
        (Some (B1 @ Z1)) (k + int (Suc (tok_count v)))" .
    have mc: "member_count m = Suc (tok_count v)" using m by (simp add: member_count_def)
    have IH: "\<exists>s. jsmn_loop js n \<lparr>p_pos = length (pre @ member_text (key, v) @ '',''), p_toknext = length B1, p_toksuper = int b\<rparr>
        (Some (B1 @ Z1)) (k + int (Suc (tok_count v))) =
      jsmn_loop js n \<lparr>p_pos = length ((pre @ member_text (key, v) @ '','') @ commas (map member_text ms)),
        p_toknext = length B1 + sum_list (map member_count ms), p_toksuper = s\<rparr>
      (Some (grow (length ms) b B1 @ memb_layouts b (length (pre @ member_text (key, v) @ '','')) (length B1) ms @
         drop (sum_list (map member_count ms)) Z1)) (k + int (Suc (tok_count v)) + int (sum_list (map member_count ms)))"
    proof (rule Cons.IH)
      show "js = (pre @ member_text (key, v) @ '','') @ commas (map member_text ms) @ CHR ''}'' # post"
        using js by (simp add: rest_def)
      show "\<forall>(key, v) \<in> set ms. tokenizes v \<and> list_all plain_char key" using Cons.prems(1) by auto
    qed (use Cons.prems Cons b1 mc in \<open>auto simp: Z1_def\<close>)
    moreover have "length (member_text (key, v)) = length key + 3 + length (render v)" by (simp add: member_text_def quoted_def)
    ultimately show ?thesis
      unfolding step using Cons b1 Cons.prems(4) m mc
      by (simp add: B1_def L_def Z1_def add.assoc add.commute add.left_commute)
  qed
qed simp

text \<open>A bracket, contents that have been read, and the closing bracket.\<close>

lemma run_container:
  assumes js: "js = pre @ c # inner @ c' # post" and ty: "ty = JSMN_OBJECT \<and> c = CHR ''{'' \<and> c' = CHR ''}'' \<or>
      ty = JSMN_ARRAY \<and> c = CHR ''['' \<and> c' = CHR '']''"
    and s: "-1 \<le> s" "s < int (length A)" "host s A" and Z: "length Z = Suc m" "n = length A + length Z"
    and L: "nested (int (length A)) (Suc (length A)) L" "length L \<le> m"
    and contents: "\<And>B k. B = bump s A @ [\<lparr>t_type = ty, t_start = int (length pre), t_end = -1, t_size = 0, t_parent = s\<rparr>] \<Longrightarrow>
      \<exists>s'. jsmn_loop js n \<lparr>p_pos = length (pre @ [c]), p_toknext = length B, p_toksuper = int (length A)\<rparr> (Some (B @ drop 1 Z)) k =
        jsmn_loop js n \<lparr>p_pos = length (pre @ c # inner), p_toknext = length B + length L, p_toksuper = s'\<rparr>
          (Some (grow x (length A) B @ L @ drop (Suc (length L)) Z)) (k + int (length L))"
  shows "jsmn_loop js n \<lparr>p_pos = length pre, p_toknext = length A, p_toksuper = s\<rparr> (Some (A @ Z)) k =
    jsmn_loop js n \<lparr>p_pos = length (pre @ c # inner @ [c']), p_toknext = length A + Suc (length L), p_toksuper = s\<rparr>
      (Some (bump s A @ cont_tok ty (length pre) s x (c # inner @ [c']) # L @ drop (Suc (length L)) Z)) (k + int (Suc (length L)))"
proof -
  define t0 where "t0 = \<lparr>t_type = ty, t_start = int (length pre), t_end = -1, t_size = 0, t_parent = s\<rparr>"
  define B where "B = bump s A @ [t0]"
  define Z2 where "Z2 = drop (Suc (length L)) Z"
  have c: "c = CHR ''{'' \<or> c = CHR ''[''" "(if c = CHR ''{'' then JSMN_OBJECT else JSMN_ARRAY) = ty" using ty by auto
  from run_open [OF js c(1) s Z, of k]
  have 1: "jsmn_loop js n \<lparr>p_pos = length pre, p_toknext = length A, p_toksuper = s\<rparr> (Some (A @ Z)) k =
    jsmn_loop js n \<lparr>p_pos = length (pre @ [c]), p_toknext = length B, p_toksuper = int (length A)\<rparr> (Some (B @ drop 1 Z)) (k + 1)"
    by (simp add: c(2) B_def t0_def)
  obtain s' where 2: "jsmn_loop js n \<lparr>p_pos = length (pre @ [c]), p_toknext = length B, p_toksuper = int (length A)\<rparr> (Some (B @ drop 1 Z)) (k + 1) =
        jsmn_loop js n \<lparr>p_pos = length (pre @ c # inner), p_toknext = length B + length L, p_toksuper = s'\<rparr>
          (Some (grow x (length A) B @ L @ Z2)) (k + 1 + int (length L))"
    using contents [OF B_def [unfolded t0_def], of "k + 1"] unfolding Z2_def by blast
  define t1 where "t1 = t0\<lparr>t_size := int x\<rparr>"
  have g: "grow x (length A) (bump s A @ [t0]) = bump s A @ [t1]"
    by (simp add: grow_def t1_def t0_def nth_append list_update_append)
  have js2: "js = (pre @ c # inner) @ c' # post" using js by simp
  have "nested (int (length (bump s A))) (Suc (length (bump s A))) L" using L(1) by simp
  from run_close [OF js2 _ _ _ _ _ this, of ty t1 n s' Z2 "k + 1 + int (length L)"] ty
  have 3: "jsmn_loop js n \<lparr>p_pos = length (pre @ c # inner), p_toknext = length A + Suc (length L), p_toksuper = s'\<rparr>
        (Some (bump s A @ t1 # L @ Z2)) (k + 1 + int (length L)) =
      jsmn_loop js n \<lparr>p_pos = length (pre @ c # inner @ [c']), p_toknext = length A + Suc (length L), p_toksuper = s\<rparr>
        (Some (bump s A @ t1\<lparr>t_end := int (length (pre @ c # inner)) + 1\<rparr> # L @ Z2)) (k + 1 + int (length L))"
    by (auto simp: t1_def t0_def)
  have "t1\<lparr>t_end := int (length (pre @ c # inner)) + 1\<rparr> = cont_tok ty (length pre) s x (c # inner @ [c'])"
    by (simp add: t1_def t0_def cont_tok_def)
  then show ?thesis
    unfolding 1 2 using 3 by (simp add: g B_def Z2_def add.assoc add.commute add.left_commute)
qed

lemma tokenizes_array:
  assumes "\<forall>v \<in> set vs. tokenizes v"
  shows "tokenizes (JArr vs)"
  unfolding tokenizes_def
proof (intro allI impI)
  fix js pre post and A Z :: "jsmntok list" and s k n
  assume js: "js = pre @ render (JArr vs) @ post" and s: "-1 \<le> s" "s < int (length A)" "host s A"
    and Z: "tok_count (JArr vs) \<le> length Z" "n = length A + length Z"
  define L where "L = elem_layouts (length A) (length pre + 1) (length A + 1) vs"
  define inner where "inner = commas (map render vs)"
  from Z(1) obtain m where m: "length Z = Suc m" by (cases "length Z") auto
  have js': "js = pre @ CHR ''['' # inner @ CHR '']'' # post" using js by (simp add: inner_def)
  have L: "nested (int (length A)) (Suc (length A)) L" "length L \<le> m"
    using nested_parts(1) [of "length A" "length A + 1" "length pre + 1" vs] Z(1) m by (simp_all add: L_def)
  have js2: "js = (pre @ ''['') @ commas (map render vs) @ CHR '']'' # post" using js' by (simp add: inner_def)
  have "jsmn_loop js n \<lparr>p_pos = length (pre @ ''[''), p_toknext = length B, p_toksuper = int (length A)\<rparr> (Some (B @ drop 1 Z)) k =
        jsmn_loop js n \<lparr>p_pos = length (pre @ CHR ''['' # inner), p_toknext = length B + length L, p_toksuper = int (length A)\<rparr>
          (Some (grow (length vs) (length A) B @ L @ drop (Suc (length L)) Z)) (k + int (length L))"
    if "B = bump s A @ [\<lparr>t_type = JSMN_ARRAY, t_start = int (length pre), t_end = -1, t_size = 0, t_parent = s\<rparr>]" for B k
  proof (cases "vs = []")
    case True
    then show ?thesis using that by (simp add: L_def inner_def grow_def nth_append list_update_append)
  next
    case False
    then show ?thesis
      using run_elements [OF assms False js2, of "length A" B "drop 1 Z" n k] that Z m
      by (simp add: L_def inner_def nth_append)
  qed
  then have contents: "\<exists>s'. jsmn_loop js n \<lparr>p_pos = length (pre @ ''[''), p_toknext = length B, p_toksuper = int (length A)\<rparr> (Some (B @ drop 1 Z)) k =
        jsmn_loop js n \<lparr>p_pos = length (pre @ CHR ''['' # inner), p_toknext = length B + length L, p_toksuper = s'\<rparr>
          (Some (grow (length vs) (length A) B @ L @ drop (Suc (length L)) Z)) (k + int (length L))"
    if "B = bump s A @ [\<lparr>t_type = JSMN_ARRAY, t_start = int (length pre), t_end = -1, t_size = 0, t_parent = s\<rparr>]" for B k
    using that by blast
  have "length L = sum_list (map tok_count vs)" by (simp add: L_def)
  with run_container [OF js' _ s m Z(2) L contents, of JSMN_ARRAY k]
  show "jsmn_loop js n \<lparr>p_pos = length pre, p_toknext = length A, p_toksuper = s\<rparr> (Some (A @ Z)) k =
     jsmn_loop js n \<lparr>p_pos = length (pre @ render (JArr vs)), p_toknext = length A + tok_count (JArr vs), p_toksuper = s\<rparr>
       (Some (bump s A @ layout (length pre) s (length A) (JArr vs) @ drop (tok_count (JArr vs)) Z)) (k + int (tok_count (JArr vs)))"
    by (simp add: inner_def L_def elem_layouts_def)
qed

lemma tokenizes_object:
  assumes "\<forall>(key, v) \<in> set ms. tokenizes v \<and> list_all plain_char key"
  shows "tokenizes (JObj ms)"
  unfolding tokenizes_def
proof (intro allI impI)
  fix js pre post and A Z :: "jsmntok list" and s k n
  assume js: "js = pre @ render (JObj ms) @ post" and s: "-1 \<le> s" "s < int (length A)" "host s A"
    and Z: "tok_count (JObj ms) \<le> length Z" "n = length A + length Z"
  define L where "L = memb_layouts (length A) (length pre + 1) (length A + 1) ms"
  define inner where "inner = commas (map member_text ms)"
  from Z(1) obtain m where m: "length Z = Suc m" by (cases "length Z") auto
  have js': "js = pre @ CHR ''{'' # inner @ CHR ''}'' # post" using js by (simp add: inner_def member_text_def)
  have lL: "length L = sum_list (map member_count ms)" by (simp add: L_def member_count_def)
  have L: "nested (int (length A)) (Suc (length A)) L" "length L \<le> m"
    using nested_parts(2) [of "length A" "length A + 1" "length pre + 1" ms] Z(1) m lL by (simp_all add: L_def member_count_def)
  have js2: "js = (pre @ ''{'') @ commas (map member_text ms) @ CHR ''}'' # post" using js' by (simp add: inner_def)
  have contents: "\<exists>s'. jsmn_loop js n \<lparr>p_pos = length (pre @ ''{''), p_toknext = length B, p_toksuper = int (length A)\<rparr> (Some (B @ drop 1 Z)) k =
        jsmn_loop js n \<lparr>p_pos = length (pre @ CHR ''{'' # inner), p_toknext = length B + length L, p_toksuper = s'\<rparr>
          (Some (grow (length ms) (length A) B @ L @ drop (Suc (length L)) Z)) (k + int (length L))"
    if "B = bump s A @ [\<lparr>t_type = JSMN_OBJECT, t_start = int (length pre), t_end = -1, t_size = 0, t_parent = s\<rparr>]" for B k
  proof (cases "ms = []")
    case True
    then show ?thesis using that by (intro exI [of _ "int (length A)"]) (simp add: L_def inner_def grow_def nth_append list_update_append)
  next
    case False
    have "sum_list (map member_count ms) \<le> length (drop 1 Z)" "n = length B + length (drop 1 Z)" using Z m L(2) lL that by simp_all
    from run_members [OF assms False js2 _ _ this, of "length A" k] that show ?thesis
      by (simp add: L_def inner_def nth_append member_count_def)
  qed
  from run_container [OF js' _ s m Z(2) L contents, of JSMN_OBJECT k] lL
  show "jsmn_loop js n \<lparr>p_pos = length pre, p_toknext = length A, p_toksuper = s\<rparr> (Some (A @ Z)) k =
     jsmn_loop js n \<lparr>p_pos = length (pre @ render (JObj ms)), p_toknext = length A + tok_count (JObj ms), p_toksuper = s\<rparr>
       (Some (bump s A @ layout (length pre) s (length A) (JObj ms) @ drop (tok_count (JObj ms)) Z)) (k + int (tok_count (JObj ms)))"
    by (simp add: inner_def L_def memb_layouts_def member_text_def member_count_def)
qed

end
