(* ===== verification/JsonRead.thy ===== *)
theory JsonRead
  imports JsonTrip
begin

text \<open>
  Every plain document is counted and tokenized to its layout, so parsing its text starts with these tokens.
\<close>

section \<open>Every plain document is tokenized\<close>

lemma of_char_eq: "c = d \<longleftrightarrow> (of_char c :: nat) = of_char d"
  by (metis char_of_char)

lemma is_digit_char_of: "(d :: nat) < 10 \<Longrightarrow> is_digit (char_of (48 + d)) \<and> of_char (char_of (48 + d) :: char) - 48 = d"
  by (simp add: is_digit_def)

lemma dec_nat_digits: "list_all is_digit (dec_nat n) \<and> dec_nat n \<noteq> []"
proof (induction n rule: dec_nat.induct)
  case (1 n)
  have "is_digit (char_of (48 + n mod 10))" "n < 10 \<Longrightarrow> is_digit (char_of (48 + n))"
    using is_digit_char_of [of "n mod 10"] is_digit_char_of [of n] by simp_all
  then show ?case using 1 by (subst (1 2) dec_nat.simps) auto
qed

lemma word_char_ex: "list_all word_char ''-0123456789''" "list_all word_char ''null''" "list_all word_char ''true''"
  "list_all word_char ''false''"
  by (simp_all add: word_char_def prim_end_def)

lemma digit_char_word: "is_digit c \<Longrightarrow> word_char c \<and> primitive_start c"
proof -
  assume "is_digit c"
  then have "48 \<le> (of_char c :: nat)" "(of_char c :: nat) \<le> 57" by (simp_all add: is_digit_def Let_def)
  then show ?thesis by (simp add: word_char_def primitive_start_def prim_end_def of_char_eq [of c]) arith
qed

lemma prim_text_dec_int: "prim_text (dec_int i)"
proof -
  have "list_all word_char (dec_nat n)" "dec_nat n \<noteq> []" "primitive_start (hd (dec_nat n))" for n
    using dec_nat_digits [of n] digit_char_word by (auto simp: list_all_iff)
  moreover have "word_char CHR ''-''" "primitive_start CHR ''-''" using word_char_ex(1) by (simp_all add: primitive_start_def)
  ultimately show ?thesis by (simp add: prim_text_def dec_int_def)
qed

lemma prim_text_words: "prim_text ''null''" "prim_text ''true''" "prim_text ''false''"
  using word_char_ex by (simp_all add: prim_text_def primitive_start_def)

lemma tokenizes_primitive:
  assumes "prim_text (render v)" "\<not> is_container v" "tok_count v = 1" "\<And>p s i. layout p s i v = [prim_tok p s (render v)]"
  shows "tokenizes v"
  unfolding tokenizes_def
proof (intro allI impI)
  fix js pre post and A Z :: "jsmntok list" and s k n
  assume js: "js = pre @ render v @ post" and d: "delimited v post" and s: "-1 \<le> s" "s < int (length A)" "host s A"
    and Z: "tok_count v \<le> length Z" "n = length A + length Z"
  obtain c r where "post = c # r" "prim_end c" using d assms(2) by (auto simp: delimited_def)
  moreover from Z(1) assms(3) obtain m where "length Z = Suc m" by (cases "length Z") auto
  ultimately show "jsmn_loop js n \<lparr>p_pos = length pre, p_toknext = length A, p_toksuper = s\<rparr> (Some (A @ Z)) k =
     jsmn_loop js n \<lparr>p_pos = length (pre @ render v), p_toknext = length A + tok_count v, p_toksuper = s\<rparr>
       (Some (bump s A @ layout (length pre) s (length A) v @ drop (tok_count v) Z)) (k + int (tok_count v))"
    using run_primitive [of js pre "render v" c r s A Z m n k] js assms s Z(2) by simp
qed

lemma tokenizes_string:
  assumes "render v = quoted w" "list_all plain_char w" "tok_count v = 1" "\<And>p s i. layout p s i v = [str_tok p s 0 w]"
  shows "tokenizes v"
  unfolding tokenizes_def
proof (intro allI impI)
  fix js pre post and A Z :: "jsmntok list" and s k n
  assume js: "js = pre @ render v @ post" and s: "-1 \<le> s" "s < int (length A)"
    and Z: "tok_count v \<le> length Z" "n = length A + length Z"
  from Z(1) assms(3) obtain m where "length Z = Suc m" by (cases "length Z") auto
  then show "jsmn_loop js n \<lparr>p_pos = length pre, p_toknext = length A, p_toksuper = s\<rparr> (Some (A @ Z)) k =
     jsmn_loop js n \<lparr>p_pos = length (pre @ render v), p_toknext = length A + tok_count v, p_toksuper = s\<rparr>
       (Some (bump s A @ layout (length pre) s (length A) v @ drop (tok_count v) Z)) (k + int (tok_count v))"
    using run_string [of js pre w post s A Z m n k] js assms s Z(2) by simp
qed

lemma plain_json_tokenizes: "plain_json v \<Longrightarrow> tokenizes v"
proof (induction v rule: plain_json.induct)
  case (1 w)
  then show ?case by (intro tokenizes_string [of _ w]) simp_all
next
  case (2 w ws)
  then show ?case by (intro tokenizes_string [of _ "w @ concat ws"]) simp_all
next
  case (4 vs)
  then show ?case by (intro tokenizes_array) auto
next
  case (5 ms)
  then show ?case by (intro tokenizes_object) auto
qed (auto intro!: tokenizes_primitive simp: prim_text_words prim_text_dec_int)

section \<open>The counting pass\<close>

abbreviation counting :: "nat \<Rightarrow> jsmn_parser" where
  "counting q \<equiv> \<lparr>p_pos = q, p_toknext = 0, p_toksuper = -1\<rparr>"

definition delim :: "string \<Rightarrow> bool" where
  "delim post \<longleftrightarrow> (\<exists>d r. post = d # r \<and> prim_end d)"

lemma delim_Cons [simp]: "delim (d # r) \<longleftrightarrow> prim_end d"
  by (simp add: delim_def)

lemma prim_end_marks: "c \<in> set '',}]'' \<Longrightarrow> prim_end c"
  by (auto simp: prim_end_def)

lemma delimited_delim: "delim post \<Longrightarrow> delimited v post"
  by (simp add: delim_def delimited_def)

text \<open>Without tokens, the text \<open>w\<close> is passed over and counts \<open>c\<close>, if what follows satisfies \<open>P\<close>.\<close>

definition counted :: "(string \<Rightarrow> bool) \<Rightarrow> string \<Rightarrow> nat \<Rightarrow> bool" where
  "counted P w c \<longleftrightarrow> (\<forall>pre post k n. P post \<longrightarrow>
     jsmn_loop (pre @ w @ post) n (counting (length pre)) None k =
     jsmn_loop (pre @ w @ post) n (counting (length (pre @ w))) None (k + int c))"

lemma countedD:
  "counted P w c \<Longrightarrow> P post \<Longrightarrow> js = pre @ w @ post \<Longrightarrow> q = length (pre @ w) \<Longrightarrow>
    jsmn_loop js n (counting (length pre)) None k = jsmn_loop js n (counting q) None (k + int c)"
  by (simp add: counted_def)

lemma counted_mono: "counted P w c \<Longrightarrow> (\<And>post. Q post \<Longrightarrow> P post) \<Longrightarrow> counted Q w c"
  by (simp add: counted_def)

lemma counted_delim: "counted (delimited v) w c \<Longrightarrow> counted delim w c"
  by (rule counted_mono [of "delimited v"]) (simp_all add: delimited_delim)

lemma counted_append:
  assumes "counted P w c" "counted Q x d" "\<And>post. Q post \<Longrightarrow> P (x @ post)"
  shows "counted Q (w @ x) (c + d)"
  unfolding counted_def
proof (intro allI impI)
  fix pre post k n
  assume "Q post"
  with assms(3) have "jsmn_loop (pre @ (w @ x) @ post) n (counting (length pre)) None k =
    jsmn_loop (pre @ (w @ x) @ post) n (counting (length (pre @ w))) None (k + int c)"
    by (intro countedD [OF assms(1)]) auto
  also have "\<dots> = jsmn_loop (pre @ (w @ x) @ post) n (counting (length (pre @ w @ x))) None (k + int c + int d)"
    by (rule countedD [OF assms(2) \<open>Q post\<close>]) simp_all
  finally show "jsmn_loop (pre @ (w @ x) @ post) n (counting (length pre)) None k =
     jsmn_loop (pre @ (w @ x) @ post) n (counting (length (pre @ (w @ x)))) None (k + int (c + d))"
    by (simp add: add.assoc)
qed

text \<open>The characters between values.\<close>

definition mark_count :: "char \<Rightarrow> nat" where
  "mark_count c = (if c = CHR ''{'' \<or> c = CHR ''['' then 1 else 0)"

lemma counted_mark:
  assumes "c \<in> set ''{[}],:''"
  shows "counted (\<lambda>_. True) [c] (mark_count c)"
  unfolding counted_def
proof (intro allI impI)
  fix pre post and k :: int and n
  have st: "jsmn_step (pre @ [c] @ post) n (counting (length pre)) None k =
      Some (0, counting (length pre), None, k + int (mark_count c))"
    using assms by (auto simp: jsmn_step_def nth_append jsmn_comma_def mark_count_def)
  have "c \<noteq> NUL_char" using assms by (auto simp: NUL_char_def)
  from loop_step [OF _ this _ st, of pre post "length (pre @ [c])"]
  show "jsmn_loop (pre @ [c] @ post) n (counting (length pre)) None k =
     jsmn_loop (pre @ [c] @ post) n (counting (length (pre @ [c]))) None (k + int (mark_count c))" by simp
qed

lemma counted_string:
  assumes "list_all plain_char w"
  shows "counted (\<lambda>_. True) (quoted w) 1"
  unfolding counted_def
proof (intro allI impI)
  fix pre post and k :: int and n
  let ?js = "pre @ quoted w @ post"
  have "?js = (pre @ [CHR 0x22]) @ w @ CHR 0x22 # post" by (simp add: quoted_def)
  from str_loop_plain [OF this assms] have "str_loop ?js (length pre + 1) = Inr (length pre + 1 + length w)" by simp
  moreover have "?js ! length pre = CHR 0x22" by (simp add: nth_append quoted_def)
  ultimately have st: "jsmn_step ?js n (counting (length pre)) None k = Some (0, counting (length pre + 1 + length w), None, k + 1)"
    by (simp add: jsmn_step_def jsmn_parse_string_def new_token_def after_value_def count_in_super_def)
  have "?js = pre @ CHR 0x22 # (w @ CHR 0x22 # post)" by (simp add: quoted_def)
  from loop_step [OF this _ _ st, of "length (pre @ quoted w)"]
  show "jsmn_loop ?js n (counting (length pre)) None k = jsmn_loop ?js n (counting (length (pre @ quoted w))) None (k + int 1)"
    by (simp add: NUL_char_def quoted_def)
qed

lemma counted_primitive:
  assumes "prim_text w"
  shows "counted delim w 1"
  unfolding counted_def
proof (intro allI impI)
  fix pre post and k :: int and n
  assume "delim post"
  then obtain d r where d: "post = d # r" "prim_end d" by (auto simp: delim_def)
  let ?js = "pre @ w @ post"
  obtain c w' where cw: "w = c # w'" using assms by (cases w) (auto simp: prim_text_def)
  then have c: "primitive_start c" "word_char c" using assms by (auto simp: prim_text_def)
  have "prim_loop ?js (length pre) = Inr (length pre + length w)"
    using prim_loop_word [of ?js pre w d r] assms d by (simp add: prim_text_def)
  moreover have "?js ! length pre = c" using cw by (simp add: nth_append)
  ultimately have st: "jsmn_step ?js n (counting (length pre)) None k = Some (0, counting (length pre + length w - 1), None, k + 1)"
    using c(1) by (auto simp: jsmn_step_def jsmn_parse_primitive_def new_token_def after_value_def count_in_super_def
        primitive_misplaced_def primitive_start_def)
  have "?js = pre @ c # (w' @ post)" using cw by simp
  from loop_step [OF this word_char_NUL [OF c(2)] _ st, of "length (pre @ w)"] cw
  show "jsmn_loop ?js n (counting (length pre)) None k = jsmn_loop ?js n (counting (length (pre @ w))) None (k + int 1)"
    by simp
qed

lemma counted_commas:
  assumes "\<forall>(w, c) \<in> set xs. counted delim w c"
  shows "counted delim (commas (map fst xs)) (sum_list (map snd xs))"
  using assms
proof (induction xs rule: induct_list012)
  case 1
  then show ?case by (simp add: counted_def)
next
  case (2 x)
  then show ?case by (cases x) simp
next
  case (3 x y xs)
  obtain w c where x: "x = (w, c)" by (cases x)
  have "counted delim w c" using 3(3) x by simp
  moreover have "counted delim ('','' @ commas (map fst (y # xs))) (mark_count CHR '','' + sum_list (map snd (y # xs)))"
    using 3 by (intro counted_append [OF counted_mark]) simp_all
  ultimately have "counted delim (w @ ('','' @ commas (map fst (y # xs)))) (c + (mark_count CHR '','' + sum_list (map snd (y # xs))))"
    by (rule counted_append) (simp add: prim_end_marks)
  then show ?case using x by (simp add: mark_count_def)
qed

text \<open>A container's text needs nothing behind it.\<close>

lemma counted_brackets:
  assumes "counted delim w n" "c \<in> set ''[{''" "c' \<in> set '']}''"
  shows "counted (\<lambda>_. True) ([c] @ w @ [c']) (Suc n)"
proof -
  have "counted (\<lambda>_. True) (w @ [c']) (n + mark_count c')"
    using assms prim_end_marks [of c'] by (intro counted_append [OF assms(1) counted_mark]) auto
  then have "counted (\<lambda>_. True) ([c] @ w @ [c']) (mark_count c + (n + mark_count c'))"
    using assms by (intro counted_append [OF counted_mark]) auto
  moreover have "mark_count c = 1" "mark_count c' = 0" using assms by (auto simp: mark_count_def)
  ultimately show ?thesis by simp
qed

lemma plain_json_counted: "plain_json v \<Longrightarrow> counted (delimited v) (render v) (tok_count v)"
proof (induction v rule: plain_json.induct)
  case (4 vs)
  have "counted delim (render v) (tok_count v)" if "v \<in> set vs" for v
    using 4 that by (intro counted_delim [of v]) simp_all
  then have "counted delim (commas (map render vs)) (sum_list (map tok_count vs))"
    using counted_commas [of "map (\<lambda>v. (render v, tok_count v)) vs"] by (simp add: comp_def)
  from counted_brackets [OF this, of "CHR ''[''" "CHR '']''"] show ?case by (simp add: counted_def)
next
  case (5 ms)
  have "counted delim (quoted k @ '':'' @ render v) (Suc (tok_count v))" if "(k, v) \<in> set ms" for k v
  proof -
    have "counted delim (render v) (tok_count v)"
      using 5(1) [OF that] 5(2) that by (intro counted_delim [of v]) auto
    then have "counted delim ('':'' @ render v) (mark_count CHR '':'' + tok_count v)"
      by (rule counted_append [OF counted_mark, rotated]) simp_all
    then have "counted delim (quoted k @ '':'' @ render v) (1 + (mark_count CHR '':'' + tok_count v))"
      using 5(2) that by (intro counted_append [OF counted_string]) (auto simp only: plain_json.simps split: prod.splits)
    then show ?thesis by (simp add: mark_count_def)
  qed
  then have "counted delim (commas (map (\<lambda>(k, v). quoted k @ '':'' @ render v) ms)) (sum_list (map (\<lambda>(k, v). Suc (tok_count v)) ms))"
    using counted_commas [of "map (\<lambda>(k, v). (quoted k @ '':'' @ render v, Suc (tok_count v))) ms"]
    by (simp add: comp_def split_def)
  from counted_brackets [OF this, of "CHR ''{''" "CHR ''}''"] show ?case by (simp add: counted_def)
next
  case (3 w)
  then have "counted delim w 1" by (intro counted_primitive) simp
  then show ?case by (simp add: counted_def delimited_def delim_def)
next
  case "6_1"
  show ?case using counted_primitive [OF prim_text_words(1)] by (simp add: counted_def delimited_def delim_def)
next
  case "6_2"
  show ?case using counted_primitive [OF prim_text_words(2)] counted_primitive [OF prim_text_words(3)]
    by (simp add: counted_def delimited_def delim_def)
next
  case "6_3"
  show ?case using counted_primitive [OF prim_text_dec_int] by (simp add: counted_def delimited_def delim_def)
qed (use counted_string in \<open>simp_all add: counted_def\<close>)

section \<open>Parsing a document\<close>

definition parsed :: "json \<Rightarrow> jparse_ctx" where
  "parsed v = \<lparr>jp_parser = \<lparr>p_pos = length (render v), p_toknext = tok_count v, p_toksuper = -1\<rparr>, jp_js = render v,
     jp_tokens = layout 0 (-1) 0 v, jp_cur = 0, jp_num_tokens = int (tok_count v)\<rparr>"

lemma tok_count_positive: "0 < tok_count v"
  by (cases v) simp_all

lemma plain_json_counts:
  assumes "plain_json v" "is_container v"
  shows "jsmn_parse (render v) n jsmn_init None = Some (int (tok_count v), counting (length (render v)), None)"
proof -
  have "jsmn_parse (render v) n jsmn_init None = jsmn_loop (render v) n (counting (length ([] :: string))) None 0"
    by (simp add: jsmn_parse_def jsmn_init_def)
  also have "\<dots> = jsmn_loop (render v) n (counting (length (render v))) None (0 + int (tok_count v))"
    using assms by (intro countedD [OF plain_json_counted, of v "[]"]) (simp_all add: delimited_def)
  also have "\<dots> = Some (int (tok_count v), counting (length (render v)), None)"
    by (subst jsmn_loop.simps) (simp add: jsmn_finish_def)
  finally show ?thesis .
qed

lemma layout_closed: "list_ex (\<lambda>t. t_start t \<noteq> -1 \<and> t_end t = -1) (layout p s i v) = False"
  using nested_layout [of s i p v] by (auto simp: nested_def closed_tok_def list_ex_iff in_set_conv_nth)

lemma plain_json_parses:
  assumes "plain_json v" "is_container v" "length ts = tok_count v"
  shows "jsmn_parse (render v) (tok_count v) jsmn_init (Some ts) =
    Some (int (tok_count v), \<lparr>p_pos = length (render v), p_toknext = tok_count v, p_toksuper = -1\<rparr>, Some (layout 0 (-1) 0 v))"
proof -
  have "jsmn_parse (render v) (tok_count v) jsmn_init (Some ts) =
    jsmn_loop (render v) (tok_count v) \<lparr>p_pos = length ([] :: string), p_toknext = length ([] :: jsmntok list), p_toksuper = -1\<rparr> (Some ([] @ ts)) 0"
    by (simp add: jsmn_parse_def jsmn_init_def)
  also have "\<dots> = jsmn_loop (render v) (tok_count v) \<lparr>p_pos = length ([] @ render v), p_toknext = length ([] :: jsmntok list) + tok_count v,
      p_toksuper = -1\<rparr> (Some (bump (-1) [] @ layout (length ([] :: string)) (-1) (length ([] :: jsmntok list)) v @ drop (tok_count v) ts))
      (0 + int (tok_count v))"
    using assms by (intro tokenizesD [OF plain_json_tokenizes, where post = "[]"]) (simp_all add: delimited_def host_def)
  also have "\<dots> = Some (int (tok_count v), \<lparr>p_pos = length (render v), p_toknext = tok_count v, p_toksuper = -1\<rparr>,
      Some (layout 0 (-1) 0 v))"
    using assms(3) layout_closed [of 0 "-1" 0 v]
    by (subst jsmn_loop.simps) (simp add: jsmn_finish_def unmatched_def bump_def)
  finally show ?thesis .
qed

lemma document_starts:
  assumes "plain_json v" "is_container v"
  shows "json_parse_start calloc (render v) =
    (if calloc (tok_count v) then Some (OS_SUCCESS, parsed v)
     else Some (- OS_FAIL, zero_ctx\<lparr>jp_parser := counting (length (render v)), jp_num_tokens := int (tok_count v)\<rparr>))"
  using tok_count_positive [of v]
  by (simp add: json_parse_start_def plain_json_counts [OF assms] plain_json_parses [OF assms] parsed_def the_default_def Let_def)

end
