(* ===== verification/JsonAccess.thy ===== *)
theory JsonAccess
  imports JsonRead
begin

text \<open>
  The typed access of json_parser.c on the tokens of a document: keys and indices find their values, and what
  the generator wrote is read back.
\<close>

section \<open>Skipping a value\<close>

definition skips :: "jsmntok list \<Rightarrow> nat \<Rightarrow> nat \<Rightarrow> bool" where
  "skips ts i c \<longleftrightarrow> 0 < c \<and> json_skip_elem ts (int i) = Some (int i + int c - 1)"

lemma skip_loop_zero [simp]: "skip_loop ts 0 i = Some i"
  by (simp add: skip_loop.simps)

lemma skip_loop_next:
  assumes "skips ts (Suc i) c" "i' = int i" "j = int (i + c)"
  shows "skip_loop ts (1 + int n) i' = skip_loop ts (int n) j"
  using assms by (subst skip_loop.simps) (auto simp: skips_def json_skip_elem_def add.commute bind_eq_Some_conv)

lemma skips_cons:
  assumes "i < length ts" "skip_loop ts (t_size (ts ! i)) (int i) = Some (int i + int c)"
  shows "skips ts i (Suc c)"
  using assms by (simp add: skips_def json_skip_elem_def)

lemma skip_layouts:
  assumes "\<forall>x \<in> set xs. \<forall>p A Z. length (snd (snd x) p (length A)) = fst (snd x) \<and>
      skips (A @ snd (snd x) p (length A) @ Z) (length A) (fst (snd x))"
    "ts = A @ layouts p (length A) xs @ Z" "length A = Suc i"
  shows "skip_loop ts (int (length xs)) (int i) = Some (int i + int (sum_list (map (\<lambda>x. fst (snd x)) xs)))"
  using assms
proof (induction xs arbitrary: A p i)
  case (Cons x xs)
  obtain l c f where x: "x = (l, c, f)" by (cases x)
  from Cons.prems(1) have f: "length (f p (length A)) = c" "skips (A @ f p (length A) @ Z') (length A) c" for Z'
    unfolding x by auto
  have "skips ts (Suc i) c" using f(2) Cons.prems(2,3) x by simp
  from skip_loop_next [OF this, of "int i" "int (i + c)" "length xs"]
  have "skip_loop ts (int (length (x # xs))) (int i) = skip_loop ts (int (length xs)) (int (i + c))" by simp
  also have "\<dots> = Some (int (i + c) + int (sum_list (map (\<lambda>x. fst (snd x)) xs)))"
    by (rule Cons.IH [of "A @ f p (length A)" "p + l + 1"]) (use Cons.prems x f(1) in \<open>auto simp: add.commute\<close>)
  finally show ?case using x by simp
qed simp

lemma skips_layout: "skips (A @ layout p s (length A) v @ Z) (length A) (tok_count v)"
proof (induction v arbitrary: A p s Z rule: tok_count.induct)
  case (1 vs)
  let ?ts = "A @ layout p s (length A) (JArr vs) @ Z" and ?c = "cont_tok JSMN_ARRAY p s (length vs) (render (JArr vs))"
  let ?xs = "map (\<lambda>v. (length (render v), tok_count v, \<lambda>p' i'. layout p' (int (length A)) i' v)) vs"
  have "skip_loop ?ts (int (length ?xs)) (int (length A)) = Some (int (length A) + int (sum_list (map (\<lambda>x. fst (snd x)) ?xs)))"
    by (rule skip_layouts [of _ _ "A @ [?c]" "p + 1" Z]) (use 1 in simp_all)
  then show ?case by (simp only: tok_count.simps) (intro skips_cons, simp_all add: cont_tok_def nth_append comp_def)
next
  case (2 ms)
  let ?ts = "A @ layout p s (length A) (JObj ms) @ Z" and ?c = "cont_tok JSMN_OBJECT p s (length ms) (render (JObj ms))"
  let ?xs = "map (\<lambda>(k, v). (length k + 3 + length (render v), Suc (tok_count v),
       \<lambda>p' i'. str_tok p' (int (length A)) 1 k # layout (p' + length k + 3) (int i') (i' + 1) v)) ms"
  have member: "skips (B @ (str_tok q s' 1 k # layout (q + length k + 3) (int (length B)) (length B + 1) v) @ Y) (length B) (Suc (tok_count v))"
    if "(k, v) \<in> set ms" for k v B q s' Y
  proof (rule skips_cons)
    let ?us = "B @ (str_tok q s' 1 k # layout (q + length k + 3) (int (length B)) (length B + 1) v) @ Y"
    have "skips ((B @ [str_tok q s' 1 k]) @ layout (q + length k + 3) (int (length B)) (length (B @ [str_tok q s' 1 k])) v @ Y)
        (length (B @ [str_tok q s' 1 k])) (tok_count v)"
      by (rule 2 [OF that refl])
    then have "skips ?us (Suc (length B)) (tok_count v)" by simp
    from skip_loop_next [OF this refl refl, of 0]
    show "skip_loop ?us (t_size (?us ! length B)) (int (length B)) = Some (int (length B) + int (tok_count v))"
      by (simp add: str_tok_def nth_append)
  qed simp
  have "skip_loop ?ts (int (length ?xs)) (int (length A)) = Some (int (length A) + int (sum_list (map (\<lambda>x. fst (snd x)) ?xs)))"
    by (rule skip_layouts [of _ _ "A @ [?c]" "p + 1" Z]) (use member in \<open>auto simp: split_def\<close>)
  then show ?case by (simp only: tok_count.simps) (intro skips_cons, simp_all add: cont_tok_def nth_append comp_def split_def)
qed (simp_all add: skips_def json_skip_elem_def prim_tok_def str_tok_def)

section \<open>Searching a key\<close>

lemma strncmp_eq_key:
  "list_all plain_char name \<Longrightarrow> strncmp_eq (k @ CHR 0x22 # r) name = Some (take (length name) k = name)"
proof (induction name arbitrary: k)
  case (Cons c name)
  then show ?case by (cases k) (auto simp: plain_char_def)
qed simp

lemma key_matches:
  assumes "jp_js ctx = pre @ quoted k @ rest" "list_all plain_char name"
  shows "token_matches_str ctx (str_tok (length pre) s n k) name = Some (k = name)"
proof -
  have "js_from ctx (int (length pre) + 1) = Some (k @ CHR 0x22 # rest)"
    using assms(1) by (simp add: js_from_def quoted_def nat_add_distrib)
  then show ?thesis using strncmp_eq_key [OF assms(2)]
    by (auto simp: token_matches_str_def str_tok_def)
qed

lemma search_members:
  assumes "list_all plain_char name" "jp_js ctx = pre @ commas (map member_text ms) @ d # post" "prim_end d"
    "jp_tokens ctx = A @ memb_layouts b (length pre) (length A) ms @ Z" "length A = Suc i"
  shows "case map_of ms name of None \<Rightarrow> search_loop ctx name (int (length ms)) (int i) = Some None
    | Some v \<Rightarrow> \<exists>u w B t Y. search_loop ctx name (int (length ms)) (int i) = Some (Some (int (length B))) \<and>
        jp_tokens ctx = B @ t # layout (length u) (int (length B)) (Suc (length B)) v @ Y \<and>
        jp_js ctx = u @ render v @ w \<and> delim w \<and> t_parent t = int b"
  using assms(2-)
proof (induction ms arbitrary: pre A i)
  case Nil
  then show ?case by (simp add: search_loop.simps)
next
  case (Cons m ms)
  obtain k v where m: "m = (k, v)" by (cases m)
  define rest where "rest = (if ms = [] then d # post else CHR '','' # commas (map member_text ms) @ d # post)"
  have js: "jp_js ctx = pre @ quoted k @ '':'' @ render v @ rest"
    using Cons.prems(1) m by (cases ms) (simp_all add: rest_def member_text_def)
  define t where "t = str_tok (length pre) (int b) 1 k"
  define L where "L = layout (length pre + length k + 3) (int (length A)) (length A + 1) v"
  define Y where "Y = memb_layouts b (length pre + (length k + 3 + length (render v)) + 1) (length A + Suc (tok_count v)) ms @ Z"
  have ts: "jp_tokens ctx = A @ t # L @ Y" using Cons.prems(3) m by (simp add: t_def L_def Y_def)
  have at: "tok_at (jp_tokens ctx) (int i + 1) = Some t" using ts Cons.prems(4) by (simp add: tok_at_def nth_append nat_add_distrib)
  have match: "token_matches_str ctx t name = Some (k = name)" unfolding t_def by (rule key_matches [OF js assms(1)])
  show ?case
  proof (cases "k = name")
    case True
    have "search_loop ctx name (int (length (m # ms))) (int i) = Some (Some (int (length A)))"
      using at match True Cons.prems(4) by (subst search_loop.simps) (simp add: add.commute)
    moreover have "delim rest" using Cons.prems(2) by (simp add: rest_def prim_end_marks)
    moreover have "jp_js ctx = (pre @ quoted k @ '':'') @ render v @ rest" using js by simp
    moreover have "jp_tokens ctx = A @ t # layout (length (pre @ quoted k @ '':'')) (int (length A)) (Suc (length A)) v @ Y"
      using ts by (simp add: L_def quoted_def numeral_3_eq_3)
    moreover have "t_parent t = int b" by (simp add: t_def)
    ultimately show ?thesis using True m by (simp del: length_append append_assoc) blast
  next
    case False
    have "skips ((A @ [t]) @ L @ Y) (length (A @ [t])) (tok_count v)" unfolding L_def
      using skips_layout [of "A @ [t]" "length pre + length k + 3" "int (length A)" v Y] by simp
    then have "skips (jp_tokens ctx) (Suc (length A)) (tok_count v)" using ts by simp
    from skip_loop_next [OF this refl refl, of 0]
    have "json_skip_elem (jp_tokens ctx) (int i + 1) = Some (int (length A + tok_count v))"
      using at Cons.prems(4) by (simp add: json_skip_elem_def t_def str_tok_def add.commute)
    then have step: "search_loop ctx name (int (length (m # ms))) (int i) =
        search_loop ctx name (int (length ms)) (int (length A + tok_count v))"
      using at match False by (subst search_loop.simps) simp
    show ?thesis
    proof (cases "ms = []")
      case True
      then show ?thesis using step m False by (simp add: search_loop.simps)
    next
      case ne: False
      have "case map_of ms name of None \<Rightarrow> search_loop ctx name (int (length ms)) (int (length A + tok_count v)) = Some None
        | Some v' \<Rightarrow> \<exists>u w B t Y. search_loop ctx name (int (length ms)) (int (length A + tok_count v)) = Some (Some (int (length B))) \<and>
          jp_tokens ctx = B @ t # layout (length u) (int (length B)) (Suc (length B)) v' @ Y \<and>
          jp_js ctx = u @ render v' @ w \<and> delim w \<and> t_parent t = int b"
      proof (rule Cons.IH)
        show "jp_js ctx = (pre @ quoted k @ '':'' @ render v @ '','') @ commas (map member_text ms) @ d # post"
          using js ne by (simp add: rest_def)
        show "jp_tokens ctx = (A @ t # L) @ memb_layouts b (length (pre @ quoted k @ '':'' @ render v @ '','')) (length (A @ t # L)) ms @ Z"
          using ts by (simp add: Y_def L_def quoted_def add.commute add.left_commute numeral_eq_Suc)
      qed (use Cons.prems in \<open>simp_all add: L_def\<close>)
      then show ?thesis using False unfolding step by (simp add: m)
    qed
  qed
qed

text \<open>The value \<open>v\<close> has its text, followed by \<open>w\<close>, and its tokens, from the index \<open>i\<close> on, in the context.\<close>

definition at_value :: "jparse_ctx \<Rightarrow> nat \<Rightarrow> json \<Rightarrow> string \<Rightarrow> int \<Rightarrow> bool" where
  "at_value ctx i v w s \<longleftrightarrow> (\<exists>u A Z. length A = i \<and> jp_tokens ctx = A @ layout (length u) s i v @ Z \<and> jp_js ctx = u @ render v @ w)"

definition located :: "jparse_ctx \<Rightarrow> json \<Rightarrow> bool" where
  "located ctx v \<longleftrightarrow> (\<exists>i w s. jp_cur ctx = int i \<and> at_value ctx i v w s)"

lemma search_object:
  assumes "list_all plain_char name" "jp_cur ctx = int i" "at_value ctx i (JObj ms) w0 s0"
  shows "case map_of ms name of None \<Rightarrow> json_obj_search ctx name = Some None
    | Some v \<Rightarrow> \<exists>j w. json_obj_search ctx name = Some (Some (int j)) \<and> at_value ctx (Suc j) v w (int j) \<and> delim w \<and>
        j < length (jp_tokens ctx) \<and> t_parent (jp_tokens ctx ! j) = int i"
proof -
  from assms(3) obtain u A Z where A: "length A = i" and tz: "jp_tokens ctx = A @ layout (length u) s0 i (JObj ms) @ Z"
    and jz: "jp_js ctx = u @ render (JObj ms) @ w0" by (auto simp: at_value_def)
  let ?c = "cont_tok JSMN_OBJECT (length u) s0 (length ms) (render (JObj ms))"
  have js: "jp_js ctx = (u @ ''{'') @ commas (map member_text ms) @ CHR ''}'' # w0"
    using jz by (simp add: member_text_def)
  have ts: "jp_tokens ctx = (A @ [?c]) @ memb_layouts i (length (u @ ''{'')) (length (A @ [?c])) ms @ Z"
    using tz A by (simp add: memb_layouts_def)
  have at: "tok_at (jp_tokens ctx) (jp_cur ctx) = Some ?c" using A assms(2) by (simp add: ts tok_at_def nth_append)
  have "json_obj_search ctx name = search_loop ctx name (int (length ms)) (int i)"
    using at assms(2) by (cases ms) (simp_all add: json_obj_search_def cont_tok_def search_loop.simps)
  moreover have "prim_end CHR ''}''" by (simp add: prim_end_marks)
  ultimately have found: "case map_of ms name of None \<Rightarrow> json_obj_search ctx name = Some None
    | Some v \<Rightarrow> \<exists>u w B t Y. json_obj_search ctx name = Some (Some (int (length B))) \<and>
        jp_tokens ctx = B @ t # layout (length u) (int (length B)) (Suc (length B)) v @ Y \<and>
        jp_js ctx = u @ render v @ w \<and> delim w \<and> t_parent t = int i"
    using search_members [OF assms(1) js _ ts, of i] A by (simp only:) simp
  show ?thesis
  proof (cases "map_of ms name")
    case (Some v)
    with found obtain u w B t Y where f: "json_obj_search ctx name = Some (Some (int (length B)))"
      "jp_tokens ctx = B @ t # layout (length u) (int (length B)) (Suc (length B)) v @ Y"
      "jp_js ctx = u @ render v @ w" "delim w" "t_parent t = int i" by auto
    have "at_value ctx (Suc (length B)) v w (int (length B))"
      unfolding at_value_def using f(2,3) by (intro exI [of _ u] exI [of _ "B @ [t]"] exI [of _ Y]) simp
    then show ?thesis using Some f by (auto simp: nth_append)
  qed (use found in simp)
qed

section \<open>Numbers\<close>

lemma digits_val_append: "digits_val (xs @ [c]) = 10 * digits_val xs + (of_char c - 48)"
  by (simp add: digits_val_def)

lemma digits_val_dec_nat: "digits_val (dec_nat n) = n"
proof (induction n rule: dec_nat.induct)
  case (1 n)
  show ?case
  proof (cases "n < 10")
    case True
    then show ?thesis using is_digit_char_of [of n] by (subst dec_nat.simps) (simp add: digits_val_def)
  next
    case False
    then show ?thesis using 1 [OF False] is_digit_char_of [of "n mod 10"]
      by (subst dec_nat.simps) (simp add: digits_val_append)
  qed
qed

lemma takeWhile_all: "list_all P xs \<Longrightarrow> ys = [] \<or> \<not> P (hd ys) \<Longrightarrow> takeWhile P (xs @ ys) = xs"
  by (induction xs) (auto simp: takeWhile_eq_Nil_iff)

lemma prim_end_no_digit: "prim_end d \<Longrightarrow> \<not> is_digit d"
  by (auto simp: prim_end_def is_digit_def)

lemma digit_no_space: "is_digit c \<Longrightarrow> \<not> is_space c \<and> c \<noteq> CHR ''-'' \<and> c \<noteq> CHR ''+''"
  by (auto simp: is_digit_def is_space_def Let_def)

lemma strtoul_dec_int:
  assumes "\<bar>i\<bar> < 2 ^ LENGTH('w)" "delim w"
  shows "strtoul_w (dec_int i @ w) = Some (word_of_int i :: 'w :: len word, length (dec_int i))"
proof -
  obtain d r where w: "w = d # r" "prim_end d" using assms(2) by (auto simp: delim_def)
  define n where "n = nat \<bar>i\<bar>"
  obtain c ds where cs: "dec_nat n = c # ds" "is_digit c" using dec_nat_digits [of n] by (cases "dec_nat n") auto
  have ds: "takeWhile is_digit (dec_nat n @ w) = dec_nat n"
    using dec_nat_digits [of n] prim_end_no_digit w by (intro takeWhile_all) auto
  have bound: "n < 2 ^ LENGTH('w)" using assms(1) by (simp add: n_def nat_less_iff)
  show ?thesis
  proof (cases "i < 0")
    case True
    then have t: "dec_int i = CHR ''-'' # dec_nat n" "int n = - i" by (simp_all add: dec_int_def n_def)
    have sp: "\<not> is_space CHR ''-''" by (simp add: is_space_def)
    have "- word_of_nat n = (word_of_int i :: 'w word)" using t(2) by (metis minus_minus of_int_minus of_int_of_nat_eq)
    then show ?thesis using ds bound sp w cs digits_val_dec_nat [of n, unfolded cs(1)]
      by (simp add: strtoul_w_def t(1) Let_def digits_val_dec_nat)
  next
    case False
    then have t: "dec_int i = dec_nat n" "int n = i" by (simp_all add: dec_int_def n_def)
    have "word_of_nat n = (word_of_int i :: 'w word)" using t(2) by (metis of_int_of_nat_eq)
    then show ?thesis using ds bound w cs digit_no_space [of c] digits_val_dec_nat [of n, unfolded cs(1)]
      by (simp add: strtoul_w_def t(1) Let_def)
  qed
qed

section \<open>Values of tokens\<close>

fun kind :: "json \<Rightarrow> jsmntype_t" where
  "kind (JStr w) = JSMN_STRING"
| "kind (JLong w ws) = JSMN_STRING"
| "kind (JArr vs) = JSMN_ARRAY"
| "kind (JObj ms) = JSMN_OBJECT"
| "kind _ = JSMN_PRIMITIVE"

fun inner :: "json \<Rightarrow> string" where
  "inner (JStr w) = w"
| "inner (JLong w ws) = w @ concat ws"
| "inner v = render v"

fun parts :: "json \<Rightarrow> nat" where
  "parts (JArr vs) = length vs"
| "parts (JObj ms) = length ms"
| "parts _ = 0"

definition token_text :: "jparse_ctx \<Rightarrow> jsmntok \<Rightarrow> string \<Rightarrow> string \<Rightarrow> bool" where
  "token_text ctx t x r \<longleftrightarrow> js_from ctx (t_start t) = Some (x @ r) \<and> t_end t = t_start t + int (length x) \<and> 0 \<le> t_start t"

lemma at_value_token:
  assumes "at_value ctx i v w s"
  shows "\<exists>t. tok_at (jp_tokens ctx) (int i) = Some t \<and> t_type t = kind v \<and> t_parent t = s \<and> t_size t = int (parts v) \<and>
    token_text ctx t (inner v) (if kind v = JSMN_STRING then CHR 0x22 # w else w)"
proof -
  obtain u A Z where A: "length A = i" "jp_tokens ctx = A @ layout (length u) s i v @ Z" and js: "jp_js ctx = u @ render v @ w"
    using assms by (auto simp: at_value_def)
  define t where "t = hd (layout (length u) s i v)"
  obtain L where L: "layout (length u) s i v = t # L"
    using length_layout [of "length u" s i v] tok_count_positive [of v] unfolding t_def by (cases "layout (length u) s i v") auto
  then have "tok_at (jp_tokens ctx) (int i) = Some t" using A by (simp add: tok_at_def nth_append)
  moreover have "t_type t = kind v \<and> t_parent t = s \<and> t_size t = int (parts v) \<and>
    token_text ctx t (inner v) (if kind v = JSMN_STRING then CHR 0x22 # w else w)"
    using js unfolding t_def
    by (cases v) (simp_all add: prim_tok_def str_tok_def cont_tok_def token_text_def js_from_def quoted_def nat_add_distrib split: if_splits)
  ultimately show ?thesis by blast
qed

lemma text_to_bool:
  assumes "token_text ctx t (render (JBool b)) r"
  shows "json_tok_to_bool ctx t = Some (OS_SUCCESS, Some b)"
  using assms by (cases b) (simp_all add: token_text_def json_tok_to_bool_def token_matches_str_def)

lemma text_to_int:
  assumes "token_text ctx t (dec_int i) r" "delim r"
  shows "- (2 ^ 31) \<le> i \<Longrightarrow> i < 2 ^ 31 \<Longrightarrow> json_tok_to_int ctx t = Some (OS_SUCCESS, Some i)"
    and "- (2 ^ 63) \<le> i \<Longrightarrow> i < 2 ^ 63 \<Longrightarrow> json_tok_to_int64 ctx t = Some (OS_SUCCESS, Some i)"
proof -
  assume i: "- (2 ^ 31) \<le> i" "i < 2 ^ 31"
  then have "strtoul (dec_int i @ r) = Some (word_of_int i, length (dec_int i))"
    unfolding strtoul_def by (intro strtoul_dec_int [OF _ assms(2)]) auto
  moreover have "sint (word_of_int i :: u32) = i" using i by (simp add: sint_sbintrunc' signed_take_bit_int_eq_self)
  ultimately show "json_tok_to_int ctx t = Some (OS_SUCCESS, Some i)" using assms(1) by (simp add: token_text_def json_tok_to_int_def)
next
  assume i: "- (2 ^ 63) \<le> i" "i < 2 ^ 63"
  then have "strtoull (dec_int i @ r) = Some (word_of_int i, length (dec_int i))"
    unfolding strtoull_def by (intro strtoul_dec_int [OF _ assms(2)]) auto
  moreover have "sint (word_of_int i :: u64) = i" using i by (simp add: sint_sbintrunc' signed_take_bit_int_eq_self)
  ultimately show "json_tok_to_int64 ctx t = Some (OS_SUCCESS, Some i)" using assms(1) by (simp add: token_text_def json_tok_to_int64_def)
qed

lemma text_null:
  assumes "token_text ctx t ''null'' r"
  shows "json_tok_to_bool ctx t = Some (- OS_FAIL, None)" "json_tok_to_int ctx t = Some (- OS_FAIL, None)"
    "json_tok_to_int64 ctx t = Some (- OS_FAIL, None)"
  using assms by (simp_all add: token_text_def json_tok_to_bool_def token_matches_str_def json_tok_to_int_def strtoul_def
      json_tok_to_int64_def strtoull_def strtoul_w_def is_space_def is_digit_def Let_def)

lemma text_to_string:
  assumes "token_text ctx t x r" "list_all plain_char x" "0 \<le> buflen" "nat buflen \<le> length val"
  shows "json_tok_to_string ctx t val buflen =
    (if int (length x) < buflen then Some (OS_SUCCESS, x @ NUL_char # drop (Suc (length x)) val) else Some (- OS_FAIL, val))"
proof (cases "int (length x) < buflen")
  case True
  have "takeWhile (\<lambda>c. c \<noteq> NUL_char) (take (length x) (x @ r)) = x"
    using assms(2) by (simp add: list_all_iff plain_char_def)
  then have "strncpy_text (x @ r) (length x) = x" by (simp only: strncpy_text_def Let_def diff_self_eq_0 replicate_0 append_Nil2)
  moreover have "Suc (length x) \<le> length val" using True assms(3,4) by linarith
  ultimately show ?thesis using True assms(1) by (simp add: json_tok_to_string_def token_text_def memcpy_to_def blit_def)
qed (use assms(1) in \<open>simp add: json_tok_to_string_def token_text_def\<close>)

section \<open>Members of objects\<close>

lemma found_member:
  assumes "list_all plain_char name" "jp_cur ctx = int i" "at_value ctx i (JObj ms) w0 s0" "map_of ms name = Some v"
  obtains j w t key where "at_value ctx (Suc j) v w (int j)" "delim w"
    "tok_at (jp_tokens ctx) (int (Suc j)) = Some t" "t_parent t = int j" "t_size t = int (parts v)"
    "token_text ctx t (inner v) (if kind v = JSMN_STRING then CHR 0x22 # w else w)"
    "tok_at (jp_tokens ctx) (int j) = Some key" "t_parent key = int i"
    "\<And>ty. json_obj_get_val_tok ctx name ty = Some (if kind v = ty then Some (int (Suc j), t) else None)"
proof -
  from search_object [OF assms(1-3)] assms(4) obtain j w where f: "json_obj_search ctx name = Some (Some (int j))"
    "at_value ctx (Suc j) v w (int j)" "delim w" "j < length (jp_tokens ctx)" "t_parent (jp_tokens ctx ! j) = int i" by auto
  from at_value_token [OF f(2)] obtain t where t: "tok_at (jp_tokens ctx) (int (Suc j)) = Some t" "t_type t = kind v"
    "t_parent t = int j" "t_size t = int (parts v)" "token_text ctx t (inner v) (if kind v = JSMN_STRING then CHR 0x22 # w else w)"
    by blast
  have key: "tok_at (jp_tokens ctx) (int j) = Some (jp_tokens ctx ! j)" using f(4) by (simp add: tok_at_def)
  have get: "json_obj_get_val_tok ctx name ty = Some (if kind v = ty then Some (int (Suc j), t) else None)" for ty
    using f(1) t(1,2) by (simp add: json_obj_get_val_tok_def add.commute)
  show ?thesis by (rule that [OF f(2,3) t(1,3-5) key f(5) get])
qed

lemma found_none:
  assumes "list_all plain_char name" "jp_cur ctx = int i" "at_value ctx i (JObj ms) w0 s0" "map_of ms name = None"
  shows "json_obj_get_val_tok ctx name ty = Some None"
  using search_object [OF assms(1-3)] assms(4) by (simp add: json_obj_get_val_tok_def)

text \<open>What the typed accesses give for the member \<open>v\<close>.\<close>

definition string_read :: "jparse_ctx \<Rightarrow> string \<Rightarrow> string \<Rightarrow> bool" where
  "string_read ctx name x \<longleftrightarrow>
     json_obj_get_strlen ctx name = Some (OS_SUCCESS, Some (int (length x))) \<and>
     (\<forall>val. json_obj_get_string ctx name val (int (length val)) =
       Some (if length x < length val then (OS_SUCCESS, x @ NUL_char # drop (Suc (length x)) val) else (- OS_FAIL, val)))"

fun member_read :: "jparse_ctx \<Rightarrow> string \<Rightarrow> json \<Rightarrow> bool" where
  "member_read ctx name JNull \<longleftrightarrow>
     json_obj_get_bool ctx name = Some (- OS_FAIL, None) \<and> json_obj_get_int ctx name = Some (- OS_FAIL, None)"
| "member_read ctx name (JBool b) \<longleftrightarrow> json_obj_get_bool ctx name = Some (OS_SUCCESS, Some b)"
| "member_read ctx name (JInt i) \<longleftrightarrow>
     json_obj_get_int ctx name = Some (OS_SUCCESS, Some i) \<and> json_obj_get_int64 ctx name = Some (OS_SUCCESS, Some i)"
| "member_read ctx name (JFloat x) \<longleftrightarrow> (\<forall>strtof y. (\<forall>r. delim r \<longrightarrow> strtof (x @ r) = (y, length x)) \<longrightarrow>
     json_obj_get_float strtof ctx name = Some (OS_SUCCESS, Some (y :: int)))"
| "member_read ctx name (JStr x) \<longleftrightarrow> string_read ctx name x"
| "member_read ctx name (JLong x xs) \<longleftrightarrow> string_read ctx name (x @ concat xs)"
| "member_read ctx name (JArr vs) \<longleftrightarrow> (\<exists>ctx'. json_obj_get_array ctx name = Some (OS_SUCCESS, Some (int (length vs)), ctx') \<and>
     located ctx' (JArr vs) \<and> json_obj_leave_array ctx' = Some (OS_SUCCESS, ctx))"
| "member_read ctx name (JObj ms) \<longleftrightarrow> (\<exists>ctx'. json_obj_get_object ctx name = Some (OS_SUCCESS, ctx') \<and>
     located ctx' (JObj ms) \<and> json_obj_leave_object ctx' = Some (OS_SUCCESS, ctx))"

lemma at_value_cur [simp]: "at_value (ctx\<lparr>jp_cur := c\<rparr>) i v w s = at_value ctx i v w s"
  by (simp add: at_value_def)

lemma members_are_read:
  assumes "list_all plain_char name" "located ctx (JObj ms)" "map_of ms name = Some v" "plain_json v" "wf_json v"
  shows "member_read ctx name v"
proof -
  from assms(2) obtain i w0 s0 where loc: "jp_cur ctx = int i" "at_value ctx i (JObj ms) w0 s0" by (auto simp: located_def)
  obtain j w t key where f: "at_value ctx (Suc j) v w (int j)" "delim w"
    "tok_at (jp_tokens ctx) (int (Suc j)) = Some t" "t_parent t = int j" "t_size t = int (parts v)"
    "token_text ctx t (inner v) (if kind v = JSMN_STRING then CHR 0x22 # w else w)"
    "tok_at (jp_tokens ctx) (int j) = Some key" "t_parent key = int i"
    and get: "\<And>ty. json_obj_get_val_tok ctx name ty = Some (if kind v = ty then Some (int (Suc j), t) else None)"
    by (rule found_member [OF assms(1) loc assms(3)]) blast
  let ?inside = "ctx\<lparr>jp_cur := int (Suc j)\<rparr>"
  have leave: "to_parent ?inside = Some (OS_SUCCESS, ctx\<lparr>jp_cur := int j\<rparr>)" "to_parent (ctx\<lparr>jp_cur := int j\<rparr>) = Some (OS_SUCCESS, ctx)"
    using f(3,4,7,8) loc(1) by (simp_all add: to_parent_def)
  have there: "located ?inside v" unfolding located_def using f(1) by (intro exI [of _ "Suc j"]) auto
  have string: "string_read ctx name x" if "token_text ctx t x r" "list_all plain_char x" "kind v = JSMN_STRING" for x r
    using that get text_to_string [OF that(1,2)]
    by (auto simp: string_read_def json_obj_get_strlen_def json_obj_get_string_def on_tok_def token_text_def)
  show ?thesis
  proof (cases v)
    case JNull
    then show ?thesis using get f(6) by (simp add: json_obj_get_bool_def json_obj_get_int_def on_tok_def text_null)
  next
    case (JBool b)
    then show ?thesis using get f(6) text_to_bool [of ctx t b w] by (simp add: json_obj_get_bool_def on_tok_def)
  next
    case (JInt n)
    then show ?thesis using get f(6,2) assms(5) text_to_int [of ctx t n w]
      by (simp add: json_obj_get_int_def json_obj_get_int64_def on_tok_def)
  next
    case (JFloat x)
    then show ?thesis using get f(6,2) by (simp add: json_obj_get_float_def on_tok_def json_tok_to_float_def token_text_def)
  next
    case (JStr x)
    then show ?thesis using string f(6) assms(4) by simp
  next
    case (JLong x xs)
    then show ?thesis using string f(6) assms(4) by simp
  next
    case (JArr vs)
    then show ?thesis using get f(5) leave there by (simp add: json_obj_get_array_def json_obj_leave_array_def on_tok_def)
  next
    case (JObj ms')
    then show ?thesis using get leave there by (simp add: json_obj_get_object_def json_obj_leave_object_def on_tok_def)
  qed
qed

section \<open>Elements of arrays\<close>

lemma elem_at:
  assumes "n < length vs" "jp_tokens ctx = A @ elem_layouts b (length pre) (length A) vs @ Z"
    "jp_js ctx = pre @ commas (map render vs) @ d # post" "prim_end d" "length vs < 2 ^ 32"
  shows "\<exists>j w. arr_loop (jp_tokens ctx) (word_of_nat n) (int (length A)) = Some (int j) \<and> at_value ctx j (vs ! n) w (int b) \<and> delim w"
  using assms
proof (induction vs arbitrary: n A pre)
  case (Cons v vs)
  define rest where "rest = (if vs = [] then d # post else CHR '','' # commas (map render vs) @ d # post)"
  have js: "jp_js ctx = pre @ render v @ rest" using Cons.prems(3) by (cases vs) (simp_all add: rest_def)
  define L where "L = layout (length pre) (int b) (length A) v"
  have ts: "jp_tokens ctx = A @ L @ elem_layouts b (length pre + length (render v) + 1) (length A + tok_count v) vs @ Z"
    using Cons.prems(2) by (simp add: L_def)
  show ?case
  proof (cases n)
    case 0
    have "at_value ctx (length A) v rest (int b)"
      unfolding at_value_def using ts js L_def by blast
    moreover have "delim rest" using Cons.prems(4) by (simp add: rest_def prim_end_marks)
    ultimately show ?thesis using 0 by (subst arr_loop.simps) auto
  next
    case (Suc m)
    then have ne: "vs \<noteq> []" "m < length vs" using Cons.prems(1) by auto
    have "\<not> 2 ^ 32 dvd n" using Suc Cons.prems(1,5) by (auto dest: dvd_imp_le)
    then have nz: "word_of_nat n \<noteq> (0 :: u32)" "word_of_nat n - 1 = (word_of_nat m :: u32)"
      using Suc by (simp_all add: word_of_nat_eq_0_iff del: of_nat_Suc) simp
    have "skips (jp_tokens ctx) (length A) (tok_count v)"
      using skips_layout [of A "length pre" "int b" v] ts by (simp add: L_def)
    then have "arr_loop (jp_tokens ctx) (word_of_nat n) (int (length A)) =
        arr_loop (jp_tokens ctx) (word_of_nat m) (int (length (A @ L)))"
      using nz by (subst arr_loop.simps) (simp add: skips_def L_def)
    moreover have "\<exists>j w. arr_loop (jp_tokens ctx) (word_of_nat m) (int (length (A @ L))) = Some (int j) \<and>
        at_value ctx j (vs ! m) w (int b) \<and> delim w"
    proof (rule Cons.IH [OF ne(2)])
      show "jp_js ctx = (pre @ render v @ '','') @ commas (map render vs) @ d # post" using js ne by (simp add: rest_def)
      show "jp_tokens ctx = (A @ L) @ elem_layouts b (length (pre @ render v @ '','')) (length (A @ L)) vs @ Z"
        using ts by (simp add: L_def)
    qed (use Cons.prems in simp_all)
    ultimately show ?thesis using Suc by simp
  qed
qed simp

lemma found_element:
  assumes "jp_cur ctx = int i" "at_value ctx i (JArr vs) w0 s0" "n < length vs" "length vs < 2 ^ 31"
  obtains j w t where "at_value ctx j (vs ! n) w (int i)" "delim w"
    "tok_at (jp_tokens ctx) (int j) = Some t" "t_parent t = int i" "t_size t = int (parts (vs ! n))"
    "token_text ctx t (inner (vs ! n)) (if kind (vs ! n) = JSMN_STRING then CHR 0x22 # w else w)"
    "\<And>ty. json_arr_get_val_tok ctx (word_of_nat n) ty = Some (if kind (vs ! n) = ty then Some (int j, t) else None)"
proof -
  from assms(2) obtain u A Z where A: "length A = i" and tz: "jp_tokens ctx = A @ layout (length u) s0 i (JArr vs) @ Z"
    and jz: "jp_js ctx = u @ render (JArr vs) @ w0" by (auto simp: at_value_def)
  let ?c = "cont_tok JSMN_ARRAY (length u) s0 (length vs) (render (JArr vs))"
  have js: "jp_js ctx = (u @ ''['') @ commas (map render vs) @ CHR '']'' # w0" using jz by simp
  have ts: "jp_tokens ctx = (A @ [?c]) @ elem_layouts i (length (u @ ''['')) (length (A @ [?c])) vs @ Z"
    using tz A by (simp add: elem_layouts_def)
  have at: "tok_at (jp_tokens ctx) (jp_cur ctx) = Some ?c" using A assms(1) by (simp add: ts tok_at_def nth_append)
  have d: "prim_end CHR '']''" by (simp add: prim_end_marks)
  have "length vs < 2 ^ 32" using assms(4) by simp
  from elem_at [OF assms(3) ts js d this] obtain j w where
    j: "arr_loop (jp_tokens ctx) (word_of_nat n) (int (Suc i)) = Some (int j)" "at_value ctx j (vs ! n) w (int i)" "delim w"
    using A by auto
  have "\<not> (word_of_nat n :: u32) > word_of_int (int (length vs) - 1)"
  proof -
    have "word_of_int (int (length vs) - 1) = (word_of_nat (length vs - 1) :: u32)" using assms(3) by (simp add: of_nat_diff)
    moreover have "uint (word_of_nat (length vs - 1) :: u32) = int (length vs - 1)"
      using assms(4) by (simp add: unsigned_of_nat take_bit_nat_eq_self)
    ultimately have "uint (word_of_int (int (length vs) - 1) :: u32) = int (length vs) - 1" using assms(3) by simp
    moreover have "n < 2 ^ 32" using assms(3,4) by simp
    then have "uint (word_of_nat n :: u32) = int n" by (simp add: unsigned_of_nat take_bit_nat_eq_self)
    ultimately show ?thesis using assms(3) by (simp add: word_less_alt)
  qed
  then have "json_arr_search ctx (word_of_nat n) = Some (Some (int j))"
    using at j(1) assms(1,3) by (cases vs) (simp_all add: json_arr_search_def cont_tok_def add.commute)
  moreover from at_value_token [OF j(2)] obtain t where t: "tok_at (jp_tokens ctx) (int j) = Some t" "t_type t = kind (vs ! n)"
    "t_parent t = int i" "t_size t = int (parts (vs ! n))"
    "token_text ctx t (inner (vs ! n)) (if kind (vs ! n) = JSMN_STRING then CHR 0x22 # w else w)"
    by blast
  ultimately have "json_arr_get_val_tok ctx (word_of_nat n) ty = Some (if kind (vs ! n) = ty then Some (int j, t) else None)" for ty
    by (simp add: json_arr_get_val_tok_def)
  from that [OF j(2,3) t(1,3-5) this] show ?thesis .
qed

text \<open>What the accesses by index give, and leaving what an access has entered.\<close>

definition arr_string_read :: "jparse_ctx \<Rightarrow> u32 \<Rightarrow> string \<Rightarrow> bool" where
  "arr_string_read ctx n x \<longleftrightarrow>
     json_arr_get_strlen ctx n = Some (OS_SUCCESS, Some (int (length x))) \<and>
     (\<forall>val. json_arr_get_string ctx n val (int (length val)) =
       Some (if length x < length val then (OS_SUCCESS, x @ NUL_char # drop (Suc (length x)) val) else (- OS_FAIL, val)))"

fun element_read :: "jparse_ctx \<Rightarrow> u32 \<Rightarrow> json \<Rightarrow> bool" where
  "element_read ctx n JNull \<longleftrightarrow>
     json_arr_get_bool ctx n = Some (- OS_FAIL, None) \<and> json_arr_get_int ctx n = Some (- OS_FAIL, None)"
| "element_read ctx n (JBool b) \<longleftrightarrow> json_arr_get_bool ctx n = Some (OS_SUCCESS, Some b)"
| "element_read ctx n (JInt i) \<longleftrightarrow>
     json_arr_get_int ctx n = Some (OS_SUCCESS, Some i) \<and> json_arr_get_int64 ctx n = Some (OS_SUCCESS, Some i)"
| "element_read ctx n (JFloat x) \<longleftrightarrow> (\<forall>strtof y. (\<forall>r. delim r \<longrightarrow> strtof (x @ r) = (y, length x)) \<longrightarrow>
     json_arr_get_float strtof ctx n = Some (OS_SUCCESS, Some (y :: int)))"
| "element_read ctx n (JStr x) \<longleftrightarrow> arr_string_read ctx n x"
| "element_read ctx n (JLong x xs) \<longleftrightarrow> arr_string_read ctx n (x @ concat xs)"
| "element_read ctx n (JArr vs) \<longleftrightarrow> (\<exists>ctx'. json_arr_get_array ctx n = Some (OS_SUCCESS, ctx') \<and>
     located ctx' (JArr vs) \<and> json_arr_leave_array ctx' = Some (OS_SUCCESS, ctx))"
| "element_read ctx n (JObj ms) \<longleftrightarrow> (\<exists>ctx'. json_arr_get_object ctx n = Some (OS_SUCCESS, ctx') \<and>
     located ctx' (JObj ms) \<and> json_arr_leave_object ctx' = Some (OS_SUCCESS, ctx))"

lemma elements_are_read:
  assumes "located ctx (JArr vs)" "n < length vs" "length vs < 2 ^ 31" "plain_json (vs ! n)" "wf_json (vs ! n)"
  shows "element_read ctx (word_of_nat n) (vs ! n)"
proof -
  from assms(1) obtain i w0 s0 where loc: "jp_cur ctx = int i" "at_value ctx i (JArr vs) w0 s0" by (auto simp: located_def)
  obtain j w t where f: "at_value ctx j (vs ! n) w (int i)" "delim w"
    "tok_at (jp_tokens ctx) (int j) = Some t" "t_parent t = int i"
    "token_text ctx t (inner (vs ! n)) (if kind (vs ! n) = JSMN_STRING then CHR 0x22 # w else w)"
    and get: "\<And>ty. json_arr_get_val_tok ctx (word_of_nat n) ty = Some (if kind (vs ! n) = ty then Some (int j, t) else None)"
    by (rule found_element [OF loc assms(2,3)]) blast
  let ?inside = "ctx\<lparr>jp_cur := int j\<rparr>"
  have leave: "to_parent ?inside = Some (OS_SUCCESS, ctx)" using f(3,4) loc(1) by (simp add: to_parent_def)
  have there: "located ?inside (vs ! n)" unfolding located_def using f(1) by (intro exI [of _ j]) auto
  have string: "arr_string_read ctx (word_of_nat n) x"
    if "token_text ctx t x r" "list_all plain_char x" "kind (vs ! n) = JSMN_STRING" for x r
    using that get text_to_string [OF that(1,2)]
    by (auto simp: arr_string_read_def json_arr_get_strlen_def json_arr_get_string_def on_tok_def token_text_def)
  show ?thesis
  proof (cases "vs ! n")
    case JNull
    then show ?thesis using get f(5) by (simp add: json_arr_get_bool_def json_arr_get_int_def on_tok_def text_null)
  next
    case (JBool b)
    then show ?thesis using get f(5) text_to_bool [of ctx t b w] by (simp add: json_arr_get_bool_def on_tok_def)
  next
    case (JInt k)
    then show ?thesis using get f(5,2) assms(5) text_to_int [of ctx t k w]
      by (simp add: json_arr_get_int_def json_arr_get_int64_def on_tok_def)
  next
    case (JFloat x)
    then show ?thesis using get f(5,2) by (simp add: json_arr_get_float_def on_tok_def json_tok_to_float_def token_text_def)
  next
    case (JStr x)
    then show ?thesis using string f(5) assms(4) by simp
  next
    case (JLong x xs)
    then show ?thesis using string f(5) assms(4) by simp
  next
    case (JArr vs')
    then show ?thesis using get leave there by (simp add: json_arr_get_array_def json_arr_leave_array_def on_tok_def)
  next
    case (JObj ms')
    then show ?thesis using get leave there by (simp add: json_arr_get_object_def json_arr_leave_object_def on_tok_def)
  qed
qed

section \<open>From the generator to the parser\<close>

lemma parsed_located: "located (parsed v) v"
proof -
  have "at_value (parsed v) 0 v [] (-1)" unfolding at_value_def by (intro exI [of _ "[]"]) (simp add: parsed_def)
  then show ?thesis unfolding located_def by (intro exI [of _ 0]) (auto simp: parsed_def)
qed

text \<open>C24: What the generator writes the parser reads. A plain document written through a buffer of at least
  two bytes is handed to the callback in pieces; the pieces put together are parsed, and every access
  by key gives the first member of that name: booleans, integers, strings with their final NUL (or a failure when the
  caller's buffer is too small); arrays and objects are entered and left again, with the context as before; null has
  no value of any type.\<close>

theorem generated_member_is_read:
  assumes "wf_json (JObj ms)" "plain_json (JObj ms)" "2 \<le> length b" "calloc (tok_count (JObj ms))"
    "list_all plain_char name" "map_of ms name = Some v"
  shows "\<exists>n chunks m ctx. json_document (Some b) (int (length b)) True (JObj ms) = Some (n, chunks, m) \<and>
    json_parse_start calloc (concat chunks) = Some (OS_SUCCESS, ctx) \<and> located ctx (JObj ms) \<and> member_read ctx name v"
proof -
  obtain chunks m where "json_document (Some b) (int (length b)) True (JObj ms) = Some (int (length (render (JObj ms))) + 1, chunks, m)"
    "concat chunks = render (JObj ms)" using document_flushes [OF assms(1,3)] by blast
  moreover have "json_parse_start calloc (render (JObj ms)) = Some (OS_SUCCESS, parsed (JObj ms))"
    using document_starts [OF assms(2)] assms(4) by simp
  moreover have "member_read (parsed (JObj ms)) name v"
    using assms map_of_SomeD [OF assms(6)] by (intro members_are_read [OF assms(5) parsed_located assms(6)]) auto
  ultimately show ?thesis using parsed_located by metis
qed

text \<open>A key without a value. The text is accepted, with two tokens, and reading the member
  looks at a third one, outside the array.\<close>

theorem key_without_value_reads_outside:
  "\<exists>ctx. json_parse_start (\<lambda>_. True) (''{'' @ quoted ''a'' @ ''}'') = Some (OS_SUCCESS, ctx) \<and> length (jp_tokens ctx) = 2 \<and>
    json_obj_get_int ctx ''a'' = None"
proof -
  let ?js = "[CHR ''{'', CHR 0x22, CHR ''a'', CHR 0x22, CHR ''}'']"
  let ?t = "\<lparr>t_type = JSMN_OBJECT, t_start = 0, t_end = 5, t_size = 1, t_parent = -1\<rparr>"
  let ?k = "\<lparr>t_type = JSMN_STRING, t_start = 2, t_end = 3, t_size = 0, t_parent = 0\<rparr>"
  have str: "str_loop ?js 2 = Inr 3" by (simp add: str_loop.simps NUL_char_def)
  have count: "jsmn_parse ?js 0 jsmn_init None = Some (2, counting 5, None)"
    by (simp add: jsmn_parse_def jsmn_init_def jsmn_loop.simps jsmn_step_def jsmn_parse_string_def str NUL_char_def new_token_def
        after_value_def count_in_super_def jsmn_finish_def numeral_2_eq_2 [symmetric])
  have toks: "\<exists>p. jsmn_parse ?js 2 jsmn_init (Some [zero_token, zero_token]) = Some (2, p, Some [?t, ?k])"
    by (simp add: jsmn_parse_def jsmn_init_def jsmn_loop.simps jsmn_step_def jsmn_parse_string_def str NUL_char_def new_token_def
        after_value_def count_in_super_def jsmn_finish_def numeral_2_eq_2 [symmetric] jsmn_open_def jsmn_alloc_token_def
        zero_token_def jsmn_fill_token_def jsmn_close_def close_loop.simps unmatched_def)
  then obtain p where p: "jsmn_parse ?js 2 jsmn_init (Some [zero_token, zero_token]) = Some (2, p, Some [?t, ?k])" by blast
  define ctx where "ctx = \<lparr>jp_parser = p, jp_js = ?js, jp_tokens = [?t, ?k], jp_cur = 0, jp_num_tokens = 2\<rparr>"
  have "json_parse_start (\<lambda>_. True) ?js = Some (OS_SUCCESS, ctx)"
    using count p by (simp add: json_parse_start_def ctx_def the_default_def numeral_2_eq_2)
  moreover have "json_obj_get_int ctx ''a'' = None"
    by (simp add: ctx_def json_obj_get_int_def on_tok_def json_obj_get_val_tok_def json_obj_search_def search_loop.simps tok_at_def
        token_matches_str_def js_from_def)
  ultimately show ?thesis by (intro exI [of _ ctx]) (simp add: quoted_def ctx_def)
qed

lemma doc_ex_plain: "plain_json doc_ex"
  by (simp add: doc_ex_def plain_char_def NUL_char_def)

theorem generated_member_is_read_witness:
  "\<exists>n chunks m ctx. json_document (Some ''???'') (int (length ''???'')) True
      (JObj [(''on'', JBool True), (''l'', JArr [JInt (-5), JNull, JLong ''a'' [''b'', []]])]) = Some (n, chunks, m) \<and>
    json_parse_start (\<lambda>_. True) (concat chunks) = Some (OS_SUCCESS, ctx) \<and>
    located ctx (JObj [(''on'', JBool True), (''l'', JArr [JInt (-5), JNull, JLong ''a'' [''b'', []]])]) \<and>
    member_read ctx ''on'' (JBool True)"
  by (rule generated_member_is_read)
    (use doc_ex_wf doc_ex_plain in \<open>simp_all add: doc_ex_def plain_char_def NUL_char_def\<close>)

end
