(* ===== verification/CmdResp.thy ===== *)
theory CmdResp
  imports Prelude
begin

text \<open>
  managed_components/espressif__rmaker_common/src/cmd_resp.c: commands and responses as type-length-value
  elements, the table of commands, and the handler that checks the role of the user and calls the
  command. Values longer than 255 bytes are split into elements of the same type. The handlers of the
  application are parameters over a state \<open>'a\<close>. A result \<open>None\<close> is an access outside a buffer, or a use of a
  pointer nobody has set.
\<close>

section \<open>Type-length-value buffers\<close>

definition get_u16_le :: "bytes \<Rightarrow> u16" where
  "get_u16_le p = ucast (p ! 0) OR push_bit 8 (ucast (p ! 1))"

definition put_u16_le :: "u16 \<Rightarrow> bytes" where
  "put_u16_le val = [ucast val AND 0xff, ucast (drop_bit 8 val) AND 0xff]"

record tlv_data =
  bufptr :: "bytes option"
  bufsize :: int
  curlen :: nat

definition esp_rmaker_tlv_data_init :: "bytes option \<Rightarrow> int \<Rightarrow> tlv_data" where
  "esp_rmaker_tlv_data_init buf buf_size = \<lparr>bufptr = buf, bufsize = buf_size, curlen = 0\<rparr>"

definition byte_at :: "bytes \<Rightarrow> nat \<Rightarrow> u8 option" where
  "byte_at buf i = (if i < length buf then Some (buf ! i) else None)"

text \<open>The loop of \<open>esp_rmaker_get_tlv_length\<close>.\<close>

function tlv_length_loop :: "bytes \<Rightarrow> u8 \<Rightarrow> int \<Rightarrow> nat \<Rightarrow> int \<Rightarrow> bool \<Rightarrow> int option" where
  "tlv_length_loop buf type buflen cur val_len found =
     (if buflen > 0 then
        Option.bind (byte_at buf cur) (\<lambda>ty.
          let next = (\<lambda>val_len found. Option.bind (byte_at buf (cur + 1)) (\<lambda>n.
                tlv_length_loop buf type (buflen - (2 + int (unat n))) (cur + (2 + unat n)) val_len found)) in
          if ty = type then
            Option.bind (byte_at buf (cur + 1)) (\<lambda>len.
              if buflen - int (unat len) < 2 then Some (-1)
              else if len < 255 then Some (val_len + int (unat len))
              else next (val_len + int (unat len)) True)
          else if found then Some val_len
          else next val_len found)
      else Some (if found then val_len else -1))"
  by pat_completeness auto
termination by (relation "measure (\<lambda>(buf, type, buflen, cur, val_len, found). nat buflen)") (auto intro: order.strict_trans2 [of "-2" 0])

declare tlv_length_loop.simps [simp del]

definition esp_rmaker_get_tlv_length :: "bytes option \<Rightarrow> int \<Rightarrow> u8 \<Rightarrow> int option" where
  "esp_rmaker_get_tlv_length buf buflen type =
     (case buf of None \<Rightarrow> Some (-1) | Some b \<Rightarrow> tlv_length_loop b type buflen 0 0 False)"

text \<open>The loop of \<open>esp_rmaker_get_value_from_tlv\<close>; the caller's buffer is \<open>val\<close>.\<close>

function tlv_value_loop ::
  "bytes \<Rightarrow> u8 \<Rightarrow> int \<Rightarrow> nat \<Rightarrow> nat \<Rightarrow> bool \<Rightarrow> bytes \<Rightarrow> int \<Rightarrow> (int \<times> bytes) option" where
  "tlv_value_loop buf type buflen cur val_len found val val_size =
     (if buflen > 0 then
        Option.bind (byte_at buf cur) (\<lambda>ty.
          let next = (\<lambda>val_len found val val_size. Option.bind (byte_at buf (cur + 1)) (\<lambda>n.
                tlv_value_loop buf type (buflen - (2 + int (unat n))) (cur + (2 + unat n)) val_len found val val_size)) in
          if ty = type then
            Option.bind (byte_at buf (cur + 1)) (\<lambda>len.
              if val_size < int (unat len) \<or> buflen - int (unat len) < 2 then Some (-1, val)
              else
                Option.bind (memcpy_from buf (cur + 2) (unat len)) (\<lambda>chunk.
                Option.bind (memcpy_to val val_len chunk) (\<lambda>val1.
                  if len < 255 then Some (int (val_len + unat len), val1)
                  else next (val_len + unat len) True val1 (val_size - int (unat len)))))
          else if found then Some (int val_len, val)
          else next val_len found val val_size)
      else Some (if found then int val_len else -1, val))"
  by pat_completeness auto
termination by (relation "measure (\<lambda>(buf, type, buflen, cur, val_len, found, val, val_size). nat buflen)") (auto intro: order.strict_trans2 [of "-2" 0])

declare tlv_value_loop.simps [simp del]

definition esp_rmaker_get_value_from_tlv ::
  "bytes option \<Rightarrow> int \<Rightarrow> u8 \<Rightarrow> bytes \<Rightarrow> (int \<times> bytes) option" where
  "esp_rmaker_get_value_from_tlv buf buflen type val =
     (case buf of None \<Rightarrow> Some (-1, val) | Some b \<Rightarrow> tlv_value_loop b type buflen 0 0 False val (int (length val)))"

text \<open>The loop of \<open>esp_rmaker_add_tlv\<close>; the value left to write is \<open>v\<close>.\<close>

function add_tlv_loop :: "u8 \<Rightarrow> bytes \<Rightarrow> bytes \<Rightarrow> nat \<Rightarrow> (bytes \<times> nat) option" where
  "add_tlv_loop type v buf cur =
     (let tmp_len = (if length v > 255 then 255 else length v) in
      Option.bind (memcpy_to buf cur [type]) (\<lambda>b1.
      Option.bind (memcpy_to b1 (cur + 1) [word_of_nat tmp_len]) (\<lambda>b2.
      Option.bind (memcpy_to b2 (cur + 2) (take tmp_len v)) (\<lambda>b3.
        if length v - tmp_len = 0 then Some (b3, cur + 2 + tmp_len)
        else add_tlv_loop type (drop tmp_len v) b3 (cur + 2 + tmp_len)))))"
  by pat_completeness auto
termination by (relation "measure (\<lambda>(type, v, buf, cur). length v)") auto

declare add_tlv_loop.simps [simp del]

text \<open>The value is null or the bytes of its length.\<close>

definition esp_rmaker_add_tlv :: "tlv_data \<Rightarrow> u8 \<Rightarrow> nat \<Rightarrow> bytes option \<Rightarrow> (int \<times> tlv_data) option" where
  "esp_rmaker_add_tlv t type len val =
     (case bufptr t of None \<Rightarrow> Some (-1, t)
      | Some buf \<Rightarrow>
          if int len + 2 > bufsize t - int (curlen t) then Some (-1, t)
          else if len > 0 \<and> val = None then Some (-1, t)
          else
            map_option (\<lambda>(b, cur). (int cur - int (curlen t), t\<lparr>bufptr := Some b, curlen := cur\<rparr>))
              (add_tlv_loop type (case val of None \<Rightarrow> [] | Some v \<Rightarrow> v) buf (curlen t)))"

section \<open>Commands\<close>

definition ESP_RMAKER_TLV_TYPE_REQ_ID :: u8 where "ESP_RMAKER_TLV_TYPE_REQ_ID = 1"
definition ESP_RMAKER_TLV_TYPE_USER_ROLE :: u8 where "ESP_RMAKER_TLV_TYPE_USER_ROLE = 2"
definition ESP_RMAKER_TLV_TYPE_STATUS :: u8 where "ESP_RMAKER_TLV_TYPE_STATUS = 3"
definition ESP_RMAKER_TLV_TYPE_CMD :: u8 where "ESP_RMAKER_TLV_TYPE_CMD = 5"
definition ESP_RMAKER_TLV_TYPE_DATA :: u8 where "ESP_RMAKER_TLV_TYPE_DATA = 6"

lemmas tlv_types = ESP_RMAKER_TLV_TYPE_REQ_ID_def ESP_RMAKER_TLV_TYPE_USER_ROLE_def ESP_RMAKER_TLV_TYPE_STATUS_def
  ESP_RMAKER_TLV_TYPE_CMD_def ESP_RMAKER_TLV_TYPE_DATA_def

datatype cmd_status = ESP_RMAKER_CMD_STATUS_SUCCESS | ESP_RMAKER_CMD_STATUS_FAILED | ESP_RMAKER_CMD_STATUS_CMD_INVALID
  | ESP_RMAKER_CMD_STATUS_AUTH_FAIL | ESP_RMAKER_CMD_STATUS_NOT_FOUND

fun status_code :: "cmd_status \<Rightarrow> u8" where
  "status_code ESP_RMAKER_CMD_STATUS_SUCCESS = 0"
| "status_code ESP_RMAKER_CMD_STATUS_FAILED = 1"
| "status_code ESP_RMAKER_CMD_STATUS_CMD_INVALID = 2"
| "status_code ESP_RMAKER_CMD_STATUS_AUTH_FAIL = 3"
| "status_code ESP_RMAKER_CMD_STATUS_NOT_FOUND = 4"

definition REQ_ID_LEN :: nat where "REQ_ID_LEN = 32"

record cmd_ctx =
  cx_cmd :: u16
  req_id :: bytes
  user_role :: u8

text \<open>\<open>strlen\<close> of an array, which must hold a NUL.\<close>

definition strlen_in :: "bytes \<Rightarrow> nat option" where
  "strlen_in b = (let n = length (takeWhile (\<lambda>x. x \<noteq> 0) b) in if n < length b then Some n else None)"

text \<open>
  A handler gets the data, which is absent when there is none, and the context. It returns its error
  code, the response (absent if it leaves the pointer to it unset), the context and the state.
\<close>

type_synonym 'a cmd_handler = "bytes option \<Rightarrow> cmd_ctx \<Rightarrow> 'a \<Rightarrow> esp_err \<times> bytes option \<times> cmd_ctx \<times> 'a"

record 'a cmd_info =
  ci_cmd :: u16
  ci_access :: u8
  ci_free_on_return :: bool
  ci_handler :: "'a cmd_handler"

type_synonym 'a cmd_list = "'a cmd_info option list"

text \<open>Adding and dropping the length the call returns.\<close>

definition add_elem :: "u8 \<Rightarrow> bytes option \<Rightarrow> tlv_data \<Rightarrow> tlv_data option" where
  "add_elem type val t = map_option snd (esp_rmaker_add_tlv t type (case val of None \<Rightarrow> 0 | Some v \<Rightarrow> length v) val)"

text \<open>The output is the generated bytes.\<close>

definition tlv_output :: "tlv_data \<Rightarrow> bytes" where
  "tlv_output t = (case bufptr t of None \<Rightarrow> [] | Some b \<Rightarrow> take (curlen t) b)"

definition esp_rmaker_cmd_prepare_response ::
  "(nat \<Rightarrow> bool) \<Rightarrow> cmd_ctx \<Rightarrow> cmd_status \<Rightarrow> bytes option \<Rightarrow> (esp_err \<times> bytes option) option" where
  "esp_rmaker_cmd_prepare_response alloc ctx status response =
     (let response_size = (case response of None \<Rightarrow> 0 | Some r \<Rightarrow> length r); publish_size = response_size + 100 in
      if \<not> alloc publish_size then Some (ESP_ERR_NO_MEM, None)
      else
        Option.bind (strlen_in (req_id ctx)) (\<lambda>n.
        let t0 = esp_rmaker_tlv_data_init (Some (replicate publish_size 0)) (int publish_size) in
        Option.bind (if n \<noteq> 0 then add_elem ESP_RMAKER_TLV_TYPE_REQ_ID (Some (take n (req_id ctx))) t0 else Some t0) (\<lambda>t1.
        Option.bind (add_elem ESP_RMAKER_TLV_TYPE_STATUS (Some [status_code status]) t1) (\<lambda>t2.
        Option.bind (add_elem ESP_RMAKER_TLV_TYPE_CMD (Some (put_u16_le (cx_cmd ctx))) t2) (\<lambda>t3.
        map_option (\<lambda>t4. (ESP_OK, Some (tlv_output t4)))
          (if response_size \<noteq> 0 then add_elem ESP_RMAKER_TLV_TYPE_DATA response t3 else Some t3))))))"

definition esp_rmaker_cmd_prepare_empty_response :: "(nat \<Rightarrow> bool) \<Rightarrow> (esp_err \<times> bytes option) option" where
  "esp_rmaker_cmd_prepare_empty_response alloc =
     (if \<not> alloc 6 then Some (ESP_ERR_NO_MEM, None)
      else
        Option.bind (add_elem ESP_RMAKER_TLV_TYPE_REQ_ID None (esp_rmaker_tlv_data_init (Some (replicate 6 0)) 6)) (\<lambda>t1.
        map_option (\<lambda>t2. (ESP_OK, Some (tlv_output t2))) (add_elem ESP_RMAKER_TLV_TYPE_CMD (Some (put_u16_le 0)) t1)))"

definition has_cmd :: "u16 \<Rightarrow> 'a cmd_info option \<Rightarrow> bool" where
  "has_cmd cmd slot \<longleftrightarrow> (case slot of None \<Rightarrow> False | Some ci \<Rightarrow> ci_cmd ci = cmd)"

text \<open>The first slot that satisfies the test of a loop over the table.\<close>

fun find_slot :: "('b \<Rightarrow> bool) \<Rightarrow> nat \<Rightarrow> 'b list \<Rightarrow> nat option" where
  "find_slot p i [] = None"
| "find_slot p i (x # xs) = (if p x then Some i else find_slot p (i + 1) xs)"

definition esp_rmaker_cmd_register :: "bool \<Rightarrow> 'a cmd_info \<Rightarrow> 'a cmd_list \<Rightarrow> esp_err \<times> 'a cmd_list" where
  "esp_rmaker_cmd_register calloc info cmds =
     (if find_slot (has_cmd (ci_cmd info)) 0 cmds \<noteq> None then (ESP_FAIL, cmds)
      else
        (case find_slot (\<lambda>s. s = None) 0 cmds of None \<Rightarrow> (ESP_ERR_NO_MEM, cmds)
         | Some i \<Rightarrow> if \<not> calloc then (ESP_ERR_NO_MEM, cmds) else (ESP_OK, cmds[i := Some info])))"

definition esp_rmaker_get_cmd_info :: "u16 \<Rightarrow> 'a cmd_list \<Rightarrow> 'a cmd_info option" where
  "esp_rmaker_get_cmd_info cmd cmds = (case find_slot (has_cmd cmd) 0 cmds of None \<Rightarrow> None | Some i \<Rightarrow> cmds ! i)"

definition esp_rmaker_cmd_deregister :: "u16 \<Rightarrow> 'a cmd_list \<Rightarrow> esp_err \<times> 'a cmd_list" where
  "esp_rmaker_cmd_deregister cmd cmds =
     (case find_slot (has_cmd cmd) 0 cmds of None \<Rightarrow> (ESP_ERR_INVALID_ARG, cmds) | Some i \<Rightarrow> (ESP_OK, cmds[i := None]))"

text \<open>The mandatory fields, whose results are not checked: a failed read leaves zeros.\<close>

definition read_ctx :: "bytes option \<Rightarrow> int \<Rightarrow> cmd_ctx option" where
  "read_ctx input input_len =
     Option.bind (esp_rmaker_get_value_from_tlv input input_len ESP_RMAKER_TLV_TYPE_REQ_ID (replicate REQ_ID_LEN 0)) (\<lambda>(_, rid).
     Option.bind (esp_rmaker_get_value_from_tlv input input_len ESP_RMAKER_TLV_TYPE_USER_ROLE [0]) (\<lambda>(_, role).
     map_option (\<lambda>(_, cmd_buf). \<lparr>cx_cmd = get_u16_le cmd_buf, req_id = rid, user_role = role ! 0\<rparr>)
       (esp_rmaker_get_value_from_tlv input input_len ESP_RMAKER_TLV_TYPE_CMD [0, 0])))"

text \<open>The data of a command: absent, or a copy, or there is no memory for it.\<close>

definition read_data :: "(nat \<Rightarrow> bool) \<Rightarrow> bytes option \<Rightarrow> int \<Rightarrow> bytes option option option" where
  "read_data alloc input input_len =
     Option.bind (esp_rmaker_get_tlv_length input input_len ESP_RMAKER_TLV_TYPE_DATA) (\<lambda>data_size.
       if data_size > 0 then
         if \<not> alloc (nat data_size) then Some None
         else map_option (\<lambda>(_, data). Some (Some data))
           (esp_rmaker_get_value_from_tlv input input_len ESP_RMAKER_TLV_TYPE_DATA (replicate (nat data_size) 0))
       else Some (Some None))"

definition esp_rmaker_cmd_response_handler ::
  "(nat \<Rightarrow> bool) \<Rightarrow> 'a cmd_list \<Rightarrow> bytes option \<Rightarrow> int \<Rightarrow> 'a \<Rightarrow> (esp_err \<times> bytes option \<times> 'a) option" where
  "esp_rmaker_cmd_response_handler alloc cmds input input_len st =
     Option.bind (read_ctx input input_len) (\<lambda>ctx.
     Option.bind (strlen_in (req_id ctx)) (\<lambda>n.
       let answer = (\<lambda>ctx1 status response st1. map_option (\<lambda>(err, out). (err, out, st1))
             (esp_rmaker_cmd_prepare_response alloc ctx1 status response)) in
       if n = 0 \<or> user_role ctx = 0 \<or> cx_cmd ctx = 0 then answer ctx ESP_RMAKER_CMD_STATUS_CMD_INVALID None st
       else
         (case esp_rmaker_get_cmd_info (cx_cmd ctx) cmds of
            None \<Rightarrow> answer ctx ESP_RMAKER_CMD_STATUS_NOT_FOUND None st
          | Some ci \<Rightarrow>
              if ci_access ci AND user_role ctx \<noteq> 0 then
                Option.bind (read_data alloc input input_len) (\<lambda>d.
                  case d of None \<Rightarrow> Some (ESP_ERR_NO_MEM, None, st)
                  | Some data \<Rightarrow>
                      (case ci_handler ci data ctx st of (err, response, ctx1, st1) \<Rightarrow>
                         if response = None \<and> ci_free_on_return ci then None
                         else if err = ESP_OK then answer ctx1 ESP_RMAKER_CMD_STATUS_SUCCESS response st1
                         else answer ctx1 ESP_RMAKER_CMD_STATUS_FAILED None st1))
              else answer ctx ESP_RMAKER_CMD_STATUS_AUTH_FAIL None st)))"

text \<open>A test command, built in 200 bytes.\<close>

definition esp_rmaker_cmd_resp_test_send :: "bytes option \<Rightarrow> u8 \<Rightarrow> u16 \<Rightarrow> bytes option \<Rightarrow> bytes option" where
  "esp_rmaker_cmd_resp_test_send rid role cmd data =
     Option.bind (if rid \<noteq> None then add_elem ESP_RMAKER_TLV_TYPE_REQ_ID rid (esp_rmaker_tlv_data_init (Some (replicate 200 0)) 200)
                  else Some (esp_rmaker_tlv_data_init (Some (replicate 200 0)) 200)) (\<lambda>t1.
     Option.bind (add_elem ESP_RMAKER_TLV_TYPE_USER_ROLE (Some [role]) t1) (\<lambda>t2.
     Option.bind (add_elem ESP_RMAKER_TLV_TYPE_CMD (Some (put_u16_le cmd)) t2) (\<lambda>t3.
     map_option tlv_output (if data \<noteq> None \<and> data \<noteq> Some [] then add_elem ESP_RMAKER_TLV_TYPE_DATA data t3 else Some t3))))"

section \<open>The encoding\<close>

text \<open>A value as elements of at most 255 bytes.\<close>

function tlv_bytes :: "u8 \<Rightarrow> bytes \<Rightarrow> bytes" where
  "tlv_bytes ty v =
     (if length v \<le> 255 then ty # word_of_nat (length v) # v
      else ty # 255 # take 255 v @ tlv_bytes ty (drop 255 v))"
  by pat_completeness auto
termination by (relation "measure (\<lambda>(ty, v). length v)") auto

declare tlv_bytes.simps [simp del]

definition encode_tlvs :: "(u8 \<times> bytes) list \<Rightarrow> bytes" where
  "encode_tlvs msg = concat (map (\<lambda>(ty, v). tlv_bytes ty v) msg)"

lemma encode_tlvs_simps [simp]:
  "encode_tlvs [] = []" "encode_tlvs ((ty, v) # msg) = tlv_bytes ty v @ encode_tlvs msg"
  "encode_tlvs (xs @ ys) = encode_tlvs xs @ encode_tlvs ys"
  by (simp_all add: encode_tlvs_def)

lemma tlv_bytes_hd: "\<exists>r. tlv_bytes ty v = ty # r"
  by (subst tlv_bytes.simps) auto

lemma tlv_bytes_overhead: "length (tlv_bytes ty v) = length v + 2 * (if v = [] then 1 else (length v + 254) div 255)"
proof (induction ty v rule: tlv_bytes.induct)
  case (1 ty v)
  show ?case
  proof (cases "length v \<le> 255")
    case True
    then have "v \<noteq> [] \<Longrightarrow> (length v + 254) div 255 = 1" by (cases v) (auto intro: div_nat_eqI)
    then show ?thesis using True by (subst tlv_bytes.simps) simp
  next
    case False
    then have "(length v + 254) div 255 = Suc ((length v - 255 + 254) div 255)"
    proof -
      have "length v + 254 = 255 + (length v - 255 + 254)" using False by simp
      then show ?thesis by (simp only: div_add_self1)
    qed
    moreover have "v \<noteq> []" "drop 255 v \<noteq> []" using False by auto
    ultimately show ?thesis using False 1 by (subst tlv_bytes.simps) simp
  qed
qed

text \<open>Adding writes the encoding exactly if it fits into the buffer, whatever the check before it said.\<close>

lemma blit_at: "n \<le> length b \<Longrightarrow> blit b n xs = take n b @ xs @ drop (n + length xs) b"
  by (simp add: blit_def)

lemma add_tlv_loop_eq:
  "cur \<le> length buf \<Longrightarrow> add_tlv_loop ty v buf cur =
    map_option (\<lambda>b. (b, cur + length (tlv_bytes ty v))) (memcpy_to buf cur (tlv_bytes ty v))"
proof (induction ty v buf cur rule: add_tlv_loop.induct)
  case (1 ty v buf cur)
  define m where "m = (if length v > 255 then 255 else length v)"
  have m: "m \<le> length v" by (simp add: m_def)
  show ?case
  proof (cases "cur + 2 + m \<le> length buf")
    case False
    have "2 + m \<le> length (tlv_bytes ty v)" by (subst tlv_bytes.simps) (simp add: m_def)
    with False have "memcpy_to buf cur (tlv_bytes ty v) = None" by (simp add: memcpy_to_def)
    with False m show ?thesis
      by (subst add_tlv_loop.simps) (auto simp: memcpy_to_def Let_def m_def [symmetric] bind_eq_None_conv)
  next
    case True
    define b where "b = blit buf cur (ty # word_of_nat m # take m v)"
    have b: "memcpy_to (blit (blit buf cur [ty]) (cur + 1) [word_of_nat m]) (cur + 2) (take m v) = Some b"
      using True m blit_append [of cur "[ty]" "[word_of_nat m]" buf] blit_append [of cur "[ty, word_of_nat m]" "take m v" buf]
      by (simp add: memcpy_to_def b_def min_def numeral_2_eq_2)
    have lb: "length b = length buf" using True m by (simp add: b_def min_def)
    have step: "add_tlv_loop ty v buf cur = (if length v - m = 0 then Some (b, cur + 2 + m)
        else add_tlv_loop ty (drop m v) b (cur + 2 + m))"
      using True b by (subst add_tlv_loop.simps) (simp add: Let_def m_def [symmetric] memcpy_to_def [of _ _ "[_]"])
    show ?thesis
    proof (cases "length v > 255")
      case False
      then have "tlv_bytes ty v = ty # word_of_nat m # take m v" by (subst tlv_bytes.simps) (simp add: m_def)
      then show ?thesis using False True step by (simp add: m_def b_def memcpy_to_def)
    next
      case gt: True
      then have me: "m = 255" "tlv_bytes ty v = ty # 255 # take 255 v @ tlv_bytes ty (drop 255 v)"
        by (simp_all add: m_def) (subst tlv_bytes.simps, simp)
      have "add_tlv_loop ty (drop m v) b (cur + 2 + m) =
          map_option (\<lambda>b'. (b', cur + 2 + m + length (tlv_bytes ty (drop m v)))) (memcpy_to b (cur + 2 + m) (tlv_bytes ty (drop m v)))"
        using 1 [unfolded Let_def, folded m_def] gt True lb b me(1)
        by (simp add: memcpy_to_def [of _ _ "[_]"] memcpy_to_def [of buf])
      moreover have "memcpy_to b (cur + 2 + m) (tlv_bytes ty (drop m v)) = memcpy_to buf cur (tlv_bytes ty v)"
        using lb gt blit_append [of cur "ty # word_of_nat m # take m v" "tlv_bytes ty (drop m v)" buf]
        by (simp add: memcpy_to_def b_def me add.assoc add.commute [of 257])
      ultimately show ?thesis using step gt me by (simp add: add.assoc add.commute add.left_commute)
    qed
  qed
qed

text \<open>The buffer has \<open>P\<close> bytes and begins with the bytes written so far.\<close>

definition holds :: "tlv_data \<Rightarrow> nat \<Rightarrow> bytes \<Rightarrow> bool" where
  "holds t P enc \<longleftrightarrow> (\<exists>b. bufptr t = Some b \<and> length b = P \<and> bufsize t = int P \<and> curlen t = length enc \<and>
     take (length enc) b = enc \<and> length enc \<le> P)"

lemma holds_init: "holds (esp_rmaker_tlv_data_init (Some (replicate P 0)) (int P)) P []"
  by (simp add: holds_def esp_rmaker_tlv_data_init_def)

lemma holds_output: "holds t P enc \<Longrightarrow> tlv_output t = enc"
  by (auto simp: holds_def tlv_output_def)

lemma add_elem_holds:
  assumes "holds t P enc" "length enc + length (tlv_bytes ty v) \<le> P"
  shows "\<exists>t'. add_elem ty (Some v) t = Some t' \<and> holds t' P (enc @ tlv_bytes ty v)"
proof -
  obtain b where b: "bufptr t = Some b" "length b = P" "bufsize t = int P" "curlen t = length enc" "take (length enc) b = enc"
    using assms(1) by (auto simp: holds_def)
  have "length v + 2 \<le> length (tlv_bytes ty v)" using tlv_bytes_overhead [of ty v] by (cases v) auto
  then have "\<not> int (length v) + 2 > bufsize t - int (curlen t)" using assms(2) b by simp
  then show ?thesis using assms(2) b
    by (simp add: add_elem_def esp_rmaker_add_tlv_def add_tlv_loop_eq holds_def memcpy_to_def blit_def)
qed

lemma add_elem_overflows:
  assumes "holds t P enc" "length enc + length v + 2 \<le> P" "P < length enc + length (tlv_bytes ty v)"
  shows "add_elem ty (Some v) t = None"
proof -
  obtain b where b: "bufptr t = Some b" "length b = P" "bufsize t = int P" "curlen t = length enc" "length enc \<le> P"
    using assms(1) by (auto simp: holds_def)
  then have "\<not> int (length v) + 2 > bufsize t - int (curlen t)" using assms(2) by simp
  then show ?thesis using assms(3) b
    by (simp add: add_elem_def esp_rmaker_add_tlv_def add_tlv_loop_eq memcpy_to_def)
qed

section \<open>Reading back\<close>

lemma tlv_value_loop_end [simp]:
  "tlv_value_loop buf type 0 cur n found val room = Some (if found then int n else -1, val)"
  by (simp add: tlv_value_loop.simps)

lemma tlv_length_loop_end [simp]: "tlv_length_loop buf type 0 cur n found = Some (if found then n else -1)"
  by (simp add: tlv_length_loop.simps)

text \<open>Elements of another type are passed over.\<close>

lemma unat_len: "n \<le> 255 \<Longrightarrow> unat (word_of_nat n :: u8) = n \<and> uint (word_of_nat n :: u8) = int n"
  by (simp add: unat_of_nat unsigned_of_nat take_bit_nat_eq_self)

lemma byte_at_append [simp]: "byte_at (pre @ xs) (length pre) = (case xs of [] \<Rightarrow> None | x # r \<Rightarrow> Some x)"
  "byte_at (pre @ y # xs) (Suc (length pre)) = (case xs of [] \<Rightarrow> None | x # r \<Rightarrow> Some x)"
  by (cases xs; simp add: byte_at_def nth_append)+

lemma skip_element:
  assumes "ty \<noteq> type" "length v \<le> 255" "buf = pre @ (ty # word_of_nat (length v) # v) @ post" "buflen > 0"
  shows "tlv_value_loop buf type buflen (length pre) n False val room =
      tlv_value_loop buf type (buflen - int (length v + 2)) (length (pre @ ty # word_of_nat (length v) # v)) n False val room"
    "tlv_length_loop buf type buflen (length pre) m False =
      tlv_length_loop buf type (buflen - int (length v + 2)) (length (pre @ ty # word_of_nat (length v) # v)) m False"
proof -
  have u: "unat (word_of_nat (length v) :: u8) = length v" "uint (word_of_nat (length v) :: u8) = int (length v)"
    using unat_len [OF assms(2)] by simp_all
  have b: "byte_at buf (length pre) = Some ty" "byte_at buf (length pre + 1) = Some (word_of_nat (length v))" using assms(3) by simp_all
  show "tlv_value_loop buf type buflen (length pre) n False val room =
      tlv_value_loop buf type (buflen - int (length v + 2)) (length (pre @ ty # word_of_nat (length v) # v)) n False val room"
    using assms(1,4) b u by (subst tlv_value_loop.simps) (simp add: add.commute)
  show "tlv_length_loop buf type buflen (length pre) m False =
      tlv_length_loop buf type (buflen - int (length v + 2)) (length (pre @ ty # word_of_nat (length v) # v)) m False"
    using assms(1,4) b u by (subst tlv_length_loop.simps) (simp add: add.commute)
qed

lemma skip_tlv:
  assumes "ty \<noteq> type" "buf = pre @ tlv_bytes ty v @ post" "buflen = int (length (tlv_bytes ty v @ post))"
  shows "tlv_value_loop buf type buflen (length pre) n False val room =
      tlv_value_loop buf type (int (length post)) (length (pre @ tlv_bytes ty v)) n False val room \<and>
    tlv_length_loop buf type buflen (length pre) m False =
      tlv_length_loop buf type (int (length post)) (length (pre @ tlv_bytes ty v)) m False"
  using assms
proof (induction ty v arbitrary: pre buflen rule: tlv_bytes.induct)
  case (1 ty v)
  show ?case
  proof (cases "length v \<le> 255")
    case True
    then have e: "tlv_bytes ty v = ty # word_of_nat (length v) # v" by (subst tlv_bytes.simps) simp
    show ?thesis using skip_element [OF 1(2) True, of buf pre post buflen] 1(3,4) by (simp add: e)
  next
    case False
    let ?f = "ty # word_of_nat (length (take 255 v)) # take 255 v"
    have e: "tlv_bytes ty v = ?f @ tlv_bytes ty (drop 255 v)" using False by (subst tlv_bytes.simps) simp
    have l: "length ?f = 257" using False by simp
    have "buf = pre @ ?f @ (tlv_bytes ty (drop 255 v) @ post)" "length (take 255 v) \<le> 255" "buflen > 0"
      using 1(3,4) e by simp_all
    note step = skip_element [OF 1(2) this(2,1,3)]
    have "buf = (pre @ ?f) @ tlv_bytes ty (drop 255 v) @ post" using 1(3) e by simp
    note ih = 1(1) [OF False 1(2) this, of "int (length (tlv_bytes ty (drop 255 v) @ post))"]
    have "buflen - int (length (take 255 v) + 2) = int (length (tlv_bytes ty (drop 255 v) @ post))" using 1(4) e l by simp
    then show ?thesis using ih step e by simp
  qed
qed

text \<open>The elements of the type are put together.\<close>

lemma take_element:
  assumes "length v \<le> 255" "buf = pre @ (type # word_of_nat (length v) # v) @ post" "buflen = int (length v + 2 + length post)"
    "n + length v \<le> length val" "int (length v) \<le> room"
  shows "tlv_value_loop buf type buflen (length pre) n found val room =
     (if length v < 255 then Some (int (n + length v), blit val n v)
      else tlv_value_loop buf type (int (length post)) (length (pre @ type # word_of_nat (length v) # v)) (n + length v) True
        (blit val n v) (room - int (length v)))"
    "tlv_length_loop buf type buflen (length pre) m found =
     (if length v < 255 then Some (m + int (length v))
      else tlv_length_loop buf type (int (length post)) (length (pre @ type # word_of_nat (length v) # v)) (m + int (length v)) True)"
proof -
  have u: "unat (word_of_nat (length v) :: u8) = length v" "uint (word_of_nat (length v) :: u8) = int (length v)"
    using unat_len [OF assms(1)] by simp_all
  have w: "word_of_nat (length v) < (255 :: u8) \<longleftrightarrow> length v < 255" using u(1) by (simp add: word_less_nat_alt)
  have b: "byte_at buf (length pre) = Some type" "byte_at buf (length pre + 1) = Some (word_of_nat (length v))" using assms(2) by simp_all
  have c: "memcpy_from buf (length pre + 2) (length v) = Some v" "memcpy_to val n v = Some (blit val n v)"
    using assms(2,4) by (simp_all add: memcpy_from_def memcpy_to_def)
  show "tlv_value_loop buf type buflen (length pre) n found val room =
     (if length v < 255 then Some (int (n + length v), blit val n v)
      else tlv_value_loop buf type (int (length post)) (length (pre @ type # word_of_nat (length v) # v)) (n + length v) True
        (blit val n v) (room - int (length v)))"
    using assms(3,5) b c u w by (subst tlv_value_loop.simps) simp
  show "tlv_length_loop buf type buflen (length pre) m found =
     (if length v < 255 then Some (m + int (length v))
      else tlv_length_loop buf type (int (length post)) (length (pre @ type # word_of_nat (length v) # v)) (m + int (length v)) True)"
    using assms(3) b u w by (subst tlv_length_loop.simps) simp
qed

lemma found_stops:
  assumes "buf = pre @ post" "post = [] \<or> hd post \<noteq> type" "buflen = int (length post)"
  shows "tlv_value_loop buf type buflen (length pre) n True val room = Some (int n, val)"
    "tlv_length_loop buf type buflen (length pre) m True = Some m"
  using assms by (cases post; subst tlv_value_loop.simps tlv_length_loop.simps; simp)+

lemma take_tlv:
  assumes "buf = pre @ tlv_bytes type v @ post" "post = [] \<or> hd post \<noteq> type" "buflen = int (length (tlv_bytes type v @ post))"
    "n + length v \<le> length val" "int (length v) \<le> room"
  shows "tlv_value_loop buf type buflen (length pre) n found val room = Some (int (n + length v), blit val n v) \<and>
    tlv_length_loop buf type buflen (length pre) m found = Some (m + int (length v))"
  using assms
proof (induction type v arbitrary: pre buflen n m found val room rule: tlv_bytes.induct)
  case (1 type v)
  show ?case
  proof (cases "length v \<le> 255")
    case True
    have e: "tlv_bytes type v = type # word_of_nat (length v) # v" using True by (subst tlv_bytes.simps) simp
    have "buflen = int (length v + 2 + length post)" using 1(4) e by simp
    note step = take_element [OF True 1(2) [unfolded e] this 1(5,6)]
    have "buf = (pre @ type # word_of_nat (length v) # v) @ post" using 1(2) e by simp
    note stop = found_stops [OF this 1(3) refl]
    show ?thesis unfolding step by (simp only: stop) simp
  next
    case False
    let ?h = "take 255 v" and ?t = "drop 255 v"
    let ?f = "type # word_of_nat (length ?h) # ?h"
    have e: "tlv_bytes type v = ?f @ tlv_bytes type ?t" using False by (subst tlv_bytes.simps) simp
    have f: "length ?h = 255" "length ?h \<le> 255" using False by simp_all
    have b1: "buf = pre @ ?f @ (tlv_bytes type ?t @ post)" "buflen = int (length ?h + 2 + length (tlv_bytes type ?t @ post))"
      using 1(2,4) e by simp_all
    have b2: "n + length ?h \<le> length val" "int (length ?h) \<le> room" using 1(5,6) False by simp_all
    note step = take_element [OF f(2) b1 b2]
    have b3: "buf = (pre @ ?f) @ tlv_bytes type ?t @ post" using b1(1) by simp
    have ih: "tlv_value_loop buf type (int (length (tlv_bytes type ?t @ post))) (length (pre @ ?f)) (n + 255) True (blit val n ?h) (room - 255) =
        Some (int (n + 255 + length ?t), blit (blit val n ?h) (n + 255) ?t) \<and>
      tlv_length_loop buf type (int (length (tlv_bytes type ?t @ post))) (length (pre @ ?f)) (m + 255) True = Some (m + 255 + int (length ?t))"
      using 1(5,6) False f b2 by (intro 1(1) [OF False b3 1(3) refl]) simp_all
    have "blit (blit val n ?h) (n + 255) ?t = blit val n v"
      using blit_append [of n ?h ?t val] 1(5) f by simp
    then show ?thesis using ih step f False by simp
  qed
qed

lemma encode_hd: "encode_tlvs msg = [] \<and> msg = [] \<or> (\<exists>ty v r msg'. msg = (ty, v) # msg' \<and> encode_tlvs msg = ty # r)"
  using tlv_bytes_hd by (cases msg) (auto, metis append_Cons)

lemma lookup_tlvs:
  assumes "distinct (map fst msg)" "buf = pre @ encode_tlvs msg" "buflen = int (length (encode_tlvs msg))"
    "\<And>v. map_of msg type = Some v \<Longrightarrow> length v \<le> length val"
  shows "tlv_value_loop buf type buflen (length pre) 0 False val (int (length val)) =
      (case map_of msg type of None \<Rightarrow> Some (-1, val) | Some v \<Rightarrow> Some (int (length v), blit val 0 v)) \<and>
    tlv_length_loop buf type buflen (length pre) 0 False = Some (case map_of msg type of None \<Rightarrow> -1 | Some v \<Rightarrow> int (length v))"
  using assms
proof (induction msg arbitrary: pre buflen)
  case (Cons e msg)
  obtain ty v where e: "e = (ty, v)" by (cases e)
  have b: "buf = pre @ tlv_bytes ty v @ encode_tlvs msg" "buflen = int (length (tlv_bytes ty v @ encode_tlvs msg))"
    using Cons.prems(2,3) e by simp_all
  show ?case
  proof (cases "ty = type")
    case True
    have "encode_tlvs msg = [] \<or> hd (encode_tlvs msg) \<noteq> type"
      using encode_hd [of msg] Cons.prems(1) e True by (auto simp: rev_image_eqI)
    moreover have "length v \<le> length val" using Cons.prems(4) [of v] e True by simp
    ultimately show ?thesis
      using take_tlv [OF b(1) [unfolded True] _ b(2) [unfolded True], of 0 val "int (length val)" False 0] e True by simp
  next
    case False
    have "tlv_value_loop buf type (int (length (encode_tlvs msg))) (length (pre @ tlv_bytes ty v)) 0 False val (int (length val)) =
        (case map_of msg type of None \<Rightarrow> Some (-1, val) | Some v \<Rightarrow> Some (int (length v), blit val 0 v)) \<and>
      tlv_length_loop buf type (int (length (encode_tlvs msg))) (length (pre @ tlv_bytes ty v)) 0 False =
        Some (case map_of msg type of None \<Rightarrow> -1 | Some v \<Rightarrow> int (length v))"
      using Cons.prems b e False by (intro Cons.IH) simp_all
    then show ?thesis using skip_tlv [OF False b] e False by simp
  qed
qed simp

corollary get_value_of:
  assumes "distinct (map fst msg)" "\<And>v. map_of msg type = Some v \<Longrightarrow> length v \<le> length val"
  shows "esp_rmaker_get_value_from_tlv (Some (encode_tlvs msg)) (int (length (encode_tlvs msg))) type val =
    (case map_of msg type of None \<Rightarrow> Some (-1, val) | Some v \<Rightarrow> Some (int (length v), blit val 0 v))"
  using lookup_tlvs [OF assms(1) _ refl assms(2), of "encode_tlvs msg" "[]"]
  by (simp add: esp_rmaker_get_value_from_tlv_def)

corollary get_length_of:
  assumes "distinct (map fst msg)"
  shows "esp_rmaker_get_tlv_length (Some (encode_tlvs msg)) (int (length (encode_tlvs msg))) type =
    Some (case map_of msg type of None \<Rightarrow> -1 | Some v \<Rightarrow> int (length v))"
proof -
  obtain val :: bytes where "\<And>v. map_of msg type = Some v \<Longrightarrow> length v \<le> length val"
    by (cases "map_of msg type") auto
  from lookup_tlvs [OF assms _ refl this, of "encode_tlvs msg" "[]"] show ?thesis
    by (simp add: esp_rmaker_get_tlv_length_def)
qed

section \<open>Requests and responses\<close>

definition request :: "bytes \<Rightarrow> u8 \<Rightarrow> u16 \<Rightarrow> bytes \<Rightarrow> (u8 \<times> bytes) list" where
  "request rid role cmd data =
     [(ESP_RMAKER_TLV_TYPE_REQ_ID, rid), (ESP_RMAKER_TLV_TYPE_USER_ROLE, [role]), (ESP_RMAKER_TLV_TYPE_CMD, put_u16_le cmd)] @
     (if data = [] then [] else [(ESP_RMAKER_TLV_TYPE_DATA, data)])"

definition response :: "bytes \<Rightarrow> u16 \<Rightarrow> cmd_status \<Rightarrow> bytes \<Rightarrow> (u8 \<times> bytes) list" where
  "response rid cmd status data =
     (if rid = [] then [] else [(ESP_RMAKER_TLV_TYPE_REQ_ID, rid)]) @
     [(ESP_RMAKER_TLV_TYPE_STATUS, [status_code status]), (ESP_RMAKER_TLV_TYPE_CMD, put_u16_le cmd)] @
     (if data = [] then [] else [(ESP_RMAKER_TLV_TYPE_DATA, data)])"

lemma distinct_types: "distinct (map fst (request rid role cmd data))" "distinct (map fst (response rid cmd status data))"
  by (simp_all add: request_def response_def tlv_types)

lemma put_u16_le_bytes: "put_u16_le x = [ucast x, ucast (drop_bit 8 x)]"
proof -
  have "(255 :: u8) = -1" by simp
  then show ?thesis by (simp only: put_u16_le_def and.right_neutral)
qed

lemma u16_le_roundtrip [simp]: "get_u16_le (put_u16_le x) = x" "length (put_u16_le x) = 2"
proof -
  show "get_u16_le (put_u16_le x) = x"
  proof (rule bit_word_eqI)
    fix n assume "n < LENGTH(16)"
    then show "bit (get_u16_le (put_u16_le x)) n = bit x n"
      by (cases "n < 8") (auto simp: get_u16_le_def put_u16_le_bytes bit_simps)
  qed
qed (simp add: put_u16_le_def)

lemma bind_exI: "\<exists>x. m = Some x \<and> P x \<Longrightarrow> (\<And>x. P x \<Longrightarrow> f x = r) \<Longrightarrow> Option.bind m f = r"
  by auto

lemma strlen_padded: "0 \<notin> set rid \<Longrightarrow> length rid < n \<Longrightarrow> strlen_in (rid @ replicate (n - length rid) 0) = Some (length rid)"
proof -
  assume a: "0 \<notin> set rid" "length rid < n"
  then obtain m where "n - length rid = Suc m" by (cases "n - length rid") auto
  moreover have "takeWhile (\<lambda>x. x \<noteq> 0) rid = rid" using a(1) by (auto simp: takeWhile_eq_all_conv)
  ultimately show ?thesis using a by (simp add: strlen_in_def takeWhile_append2 takeWhile_eq_all_conv)
qed

lemma request_sent:
  assumes "rid \<noteq> []" "data \<noteq> []" "length rid + length data \<le> 189"
  shows "esp_rmaker_cmd_resp_test_send (Some rid) role cmd (Some data) = Some (encode_tlvs (request rid role cmd data))"
proof -
  have len: "length (tlv_bytes ty v) = length v + 2" if "v \<noteq> []" "length v \<le> 255" for ty v
    using that by (subst tlv_bytes.simps) simp
  obtain t1 where t1: "add_elem ESP_RMAKER_TLV_TYPE_REQ_ID (Some rid) (esp_rmaker_tlv_data_init (Some (replicate 200 0)) (int 200)) = Some t1"
    "holds t1 200 (tlv_bytes ESP_RMAKER_TLV_TYPE_REQ_ID rid)"
    using add_elem_holds [OF holds_init [of 200], of ESP_RMAKER_TLV_TYPE_REQ_ID rid] assms by (auto simp: len)
  obtain t2 where t2: "add_elem ESP_RMAKER_TLV_TYPE_USER_ROLE (Some [role]) t1 = Some t2"
    "holds t2 200 (tlv_bytes ESP_RMAKER_TLV_TYPE_REQ_ID rid @ tlv_bytes ESP_RMAKER_TLV_TYPE_USER_ROLE [role])"
    using add_elem_holds [OF t1(2), of ESP_RMAKER_TLV_TYPE_USER_ROLE "[role]"] assms by (auto simp: len)
  obtain t3 where t3: "add_elem ESP_RMAKER_TLV_TYPE_CMD (Some (put_u16_le cmd)) t2 = Some t3"
    "holds t3 200 ((tlv_bytes ESP_RMAKER_TLV_TYPE_REQ_ID rid @ tlv_bytes ESP_RMAKER_TLV_TYPE_USER_ROLE [role]) @
       tlv_bytes ESP_RMAKER_TLV_TYPE_CMD (put_u16_le cmd))"
    using add_elem_holds [OF t2(2), of ESP_RMAKER_TLV_TYPE_CMD "put_u16_le cmd"] assms by (auto simp: len put_u16_le_def)
  have lp: "length (tlv_bytes ESP_RMAKER_TLV_TYPE_CMD (put_u16_le cmd)) = 4" using len [of "put_u16_le cmd"] by (simp add: put_u16_le_def)
  obtain t4 where t4: "add_elem ESP_RMAKER_TLV_TYPE_DATA (Some data) t3 = Some t4"
    "holds t4 200 (encode_tlvs (request rid role cmd data))"
    using add_elem_holds [OF t3(2), of ESP_RMAKER_TLV_TYPE_DATA data] assms lp by (auto simp: len request_def)
  show ?thesis using t1(1) t2(1) t3(1) t4(1) assms(2) holds_output [OF t4(2)] by (simp add: esp_rmaker_cmd_resp_test_send_def)
qed

text \<open>How a response comes out depends on its size: the buffer has 100 bytes for everything but the data itself.\<close>

definition response_space :: "nat \<Rightarrow> bool" where
  "response_space n \<longleftrightarrow> n \<le> 28 * 255"

lemma prepared:
  fixes resp :: "bytes option"
  assumes "strlen_in (req_id ctx) = Some n" "n < 32" "\<forall>k. alloc k"
  defines "d \<equiv> (case resp of None \<Rightarrow> [] | Some r \<Rightarrow> r)"
  shows "response_space (length d) \<Longrightarrow> esp_rmaker_cmd_prepare_response alloc ctx status resp =
      Some (ESP_OK, Some (encode_tlvs (response (take n (req_id ctx)) (cx_cmd ctx) status d)))"
    and "45 * 255 < length d \<Longrightarrow> 0 < n \<Longrightarrow> esp_rmaker_cmd_prepare_response alloc ctx status resp = None"
proof -
  let ?P = "length d + 100" and ?rid = "take n (req_id ctx)"
  have n: "n \<le> length (req_id ctx)" using assms(1) by (auto simp: strlen_in_def Let_def split: if_splits)
  have P: "(case resp of None \<Rightarrow> 0 | Some r \<Rightarrow> length r) = length d" by (simp add: d_def split: option.splits)
  have len: "length (tlv_bytes ty v) = length v + 2" if "v \<noteq> []" "length v \<le> 255" for ty v
    using that by (subst tlv_bytes.simps) simp
  let ?e1 = "if n = 0 then [] else tlv_bytes ESP_RMAKER_TLV_TYPE_REQ_ID ?rid"
  have "n \<noteq> 0 \<Longrightarrow> ?rid \<noteq> []" using n by auto
  then have l1: "length ?e1 \<le> 33" using n assms(2) len [of ?rid ESP_RMAKER_TLV_TYPE_REQ_ID] by (cases "n = 0") simp_all
  let ?t0 = "esp_rmaker_tlv_data_init (Some (replicate ?P 0)) (int ?P)"
  obtain t1 where t1: "(if n \<noteq> 0 then add_elem ESP_RMAKER_TLV_TYPE_REQ_ID (Some ?rid) ?t0 else Some ?t0) = Some t1" "holds t1 ?P ?e1"
    using add_elem_holds [OF holds_init [of ?P], of ESP_RMAKER_TLV_TYPE_REQ_ID ?rid] l1 holds_init [of ?P] by (cases "n = 0") auto
  have l2: "length (tlv_bytes ESP_RMAKER_TLV_TYPE_STATUS [status_code status]) = 3"
    "length (tlv_bytes ESP_RMAKER_TLV_TYPE_CMD (put_u16_le (cx_cmd ctx))) = 4" using len [of "put_u16_le (cx_cmd ctx)"]
    by (simp_all add: len put_u16_le_def)
  obtain t2 where t2: "add_elem ESP_RMAKER_TLV_TYPE_STATUS (Some [status_code status]) t1 = Some t2"
    "holds t2 ?P (?e1 @ tlv_bytes ESP_RMAKER_TLV_TYPE_STATUS [status_code status])"
    using add_elem_holds [OF t1(2), of ESP_RMAKER_TLV_TYPE_STATUS "[status_code status]"] l1 l2 by auto
  define e3 where "e3 = (?e1 @ tlv_bytes ESP_RMAKER_TLV_TYPE_STATUS [status_code status]) @ tlv_bytes ESP_RMAKER_TLV_TYPE_CMD (put_u16_le (cx_cmd ctx))"
  obtain t3 where t3: "add_elem ESP_RMAKER_TLV_TYPE_CMD (Some (put_u16_le (cx_cmd ctx))) t2 = Some t3" "holds t3 ?P e3"
    using add_elem_holds [OF t2(2), of ESP_RMAKER_TLV_TYPE_CMD "put_u16_le (cx_cmd ctx)"] l1 l2 unfolding e3_def by auto
  have l3: "length e3 = length ?e1 + 7" using l2 by (simp add: e3_def)
  have eq: "esp_rmaker_cmd_prepare_response alloc ctx status resp = map_option (\<lambda>t4. (ESP_OK, Some (tlv_output t4)))
      (if d \<noteq> [] then add_elem ESP_RMAKER_TLV_TYPE_DATA (Some d) t3 else Some t3)"
  proof (cases "d = []")
    case True
    then show ?thesis using assms(1,3) t1(1) t2(1) t3(1) P
      by (simp add: esp_rmaker_cmd_prepare_response_def Let_def cong: if_cong)
  next
    case False
    then have "resp = Some d" by (simp add: d_def split: option.splits)
    then show ?thesis using assms(1,3) t1(1) t2(1) t3(1) P False
      by (simp add: esp_rmaker_cmd_prepare_response_def Let_def cong: if_cong)
  qed
  have out: "encode_tlvs (response ?rid (cx_cmd ctx) status d) = e3 @ (if d = [] then [] else tlv_bytes ESP_RMAKER_TLV_TYPE_DATA d)"
    using n by (auto simp: response_def e3_def)
  show "esp_rmaker_cmd_prepare_response alloc ctx status resp =
      Some (ESP_OK, Some (encode_tlvs (response ?rid (cx_cmd ctx) status d)))" if "response_space (length d)"
  proof (cases "d = []")
    case True
    then show ?thesis using eq out holds_output [OF t3(2)] by simp
  next
    case False
    have "(length d + 254) div 255 \<le> 28" using that by (simp add: response_space_def div_le_mono less_mult_imp_div_less [of _ 29, simplified])
    then have "length e3 + length (tlv_bytes ESP_RMAKER_TLV_TYPE_DATA d) \<le> ?P"
      using False l1 l3 by (simp add: tlv_bytes_overhead)
    from add_elem_holds [OF t3(2) this] obtain t4 where "add_elem ESP_RMAKER_TLV_TYPE_DATA (Some d) t3 = Some t4"
      "holds t4 ?P (e3 @ tlv_bytes ESP_RMAKER_TLV_TYPE_DATA d)" by blast
    then show ?thesis using eq out False holds_output by simp
  qed
  show "esp_rmaker_cmd_prepare_response alloc ctx status resp = None" if "45 * 255 < length d" "0 < n"
  proof -
    have "d \<noteq> []" using that by auto
    have "46 * 255 div 255 \<le> (length d + 254) div 255" using that(1) by (intro div_le_mono) simp
    then have "46 \<le> (length d + 254) div 255" by simp
    moreover have "?rid \<noteq> []" using that(2) n by (cases "req_id ctx") auto
    then have "3 \<le> length ?e1" using that(2) n assms(2) len [of ?rid ESP_RMAKER_TLV_TYPE_REQ_ID] by simp
    ultimately have "?P < length e3 + length (tlv_bytes ESP_RMAKER_TLV_TYPE_DATA d)"
      using \<open>d \<noteq> []\<close> l3 by (simp add: tlv_bytes_overhead)
    from add_elem_overflows [OF t3(2) _ this] show ?thesis using eq \<open>d \<noteq> []\<close> l1 l3 by simp
  qed
qed

section \<open>Dispatching\<close>

text \<open>What becomes of a command: status, response data and the new state.\<close>

definition dispatch :: "'a cmd_list \<Rightarrow> cmd_ctx \<Rightarrow> bytes option \<Rightarrow> 'a \<Rightarrow> cmd_status \<times> bytes \<times> 'a" where
  "dispatch cmds ctx data st =
     (case esp_rmaker_get_cmd_info (cx_cmd ctx) cmds of None \<Rightarrow> (ESP_RMAKER_CMD_STATUS_NOT_FOUND, [], st)
      | Some ci \<Rightarrow>
          if ci_access ci AND user_role ctx = 0 then (ESP_RMAKER_CMD_STATUS_AUTH_FAIL, [], st)
          else
            (case ci_handler ci data ctx st of (err, resp, _, st1) \<Rightarrow>
               if err = ESP_OK then (ESP_RMAKER_CMD_STATUS_SUCCESS, (case resp of None \<Rightarrow> [] | Some r \<Rightarrow> r), st1)
               else (ESP_RMAKER_CMD_STATUS_FAILED, [], st1)))"

text \<open>A handler that sets its response, which is not too long, and leaves the context alone.\<close>

definition tame :: "bytes option \<Rightarrow> cmd_ctx \<Rightarrow> 'a \<Rightarrow> 'a cmd_info \<Rightarrow> bool" where
  "tame data ctx st ci \<longleftrightarrow> (case ci_handler ci data ctx st of (err, resp, ctx1, st1) \<Rightarrow>
     ctx1 = ctx \<and> (case resp of None \<Rightarrow> False | Some r \<Rightarrow> response_space (length r)))"

definition ctx_of :: "bytes \<Rightarrow> u8 \<Rightarrow> u16 \<Rightarrow> cmd_ctx" where
  "ctx_of rid role cmd = \<lparr>cx_cmd = cmd, req_id = rid @ replicate (REQ_ID_LEN - length rid) 0, user_role = role\<rparr>"

lemma context_read:
  assumes "length rid \<le> REQ_ID_LEN"
  shows "read_ctx (Some (encode_tlvs (request rid role cmd data))) (int (length (encode_tlvs (request rid role cmd data)))) =
    Some (ctx_of rid role cmd)"
proof -
  let ?m = "request rid role cmd data"
  have m: "map_of ?m ESP_RMAKER_TLV_TYPE_REQ_ID = Some rid" "map_of ?m ESP_RMAKER_TLV_TYPE_USER_ROLE = Some [role]"
    "map_of ?m ESP_RMAKER_TLV_TYPE_CMD = Some (put_u16_le cmd)" by (simp_all add: request_def tlv_types)
  note get = get_value_of [OF distinct_types(1) [of rid role cmd data]]
  have "esp_rmaker_get_value_from_tlv (Some (encode_tlvs ?m)) (int (length (encode_tlvs ?m))) ESP_RMAKER_TLV_TYPE_REQ_ID
      (replicate REQ_ID_LEN 0) = Some (int (length rid), rid @ replicate (REQ_ID_LEN - length rid) 0)"
    using get [of ESP_RMAKER_TLV_TYPE_REQ_ID "replicate REQ_ID_LEN 0"] m assms by (simp add: blit_def)
  moreover have "esp_rmaker_get_value_from_tlv (Some (encode_tlvs ?m)) (int (length (encode_tlvs ?m))) ESP_RMAKER_TLV_TYPE_USER_ROLE [0] =
      Some (1, [role])"
    using get [of ESP_RMAKER_TLV_TYPE_USER_ROLE "[0]"] m by (simp add: blit_def)
  moreover have "esp_rmaker_get_value_from_tlv (Some (encode_tlvs ?m)) (int (length (encode_tlvs ?m))) ESP_RMAKER_TLV_TYPE_CMD [0, 0] =
      Some (2, put_u16_le cmd)"
    using get [of ESP_RMAKER_TLV_TYPE_CMD "[0, 0]"] m by (simp add: blit_def)
  ultimately show ?thesis by (simp add: read_ctx_def ctx_of_def)
qed

lemma data_read:
  assumes "data \<noteq> []" "\<forall>k. alloc k"
  shows "read_data alloc (Some (encode_tlvs (request rid role cmd data))) (int (length (encode_tlvs (request rid role cmd data)))) =
    Some (Some (Some data))"
proof -
  let ?m = "request rid role cmd data"
  have m: "map_of ?m ESP_RMAKER_TLV_TYPE_DATA = Some data" using assms(1) by (simp add: request_def tlv_types)
  have "esp_rmaker_get_value_from_tlv (Some (encode_tlvs ?m)) (int (length (encode_tlvs ?m))) ESP_RMAKER_TLV_TYPE_DATA
      (replicate (length data) 0) = Some (int (length data), data)"
    using get_value_of [OF distinct_types(1) [of rid role cmd data], of ESP_RMAKER_TLV_TYPE_DATA "replicate (length data) 0"] m
    by (simp add: blit_def)
  then show ?thesis using get_length_of [OF distinct_types(1) [of rid role cmd data], of ESP_RMAKER_TLV_TYPE_DATA] m assms
    by (simp add: read_data_def)
qed

lemma handled:
  assumes "rid \<noteq> []" "0 \<notin> set rid" "length rid < REQ_ID_LEN" "role \<noteq> 0" "cmd \<noteq> 0" "data \<noteq> []" "\<forall>k. alloc k"
    "\<And>ci. esp_rmaker_get_cmd_info cmd cmds = Some ci \<Longrightarrow> tame (Some data) (ctx_of rid role cmd) st ci"
    "dispatch cmds (ctx_of rid role cmd) (Some data) st = (status, resp, st1)"
  shows "esp_rmaker_cmd_response_handler alloc cmds (Some (encode_tlvs (request rid role cmd data)))
      (int (length (encode_tlvs (request rid role cmd data)))) st =
    Some (ESP_OK, Some (encode_tlvs (response rid cmd status resp)), st1)"
proof -
  let ?ctx = "ctx_of rid role cmd"
  have sl: "strlen_in (req_id ?ctx) = Some (length rid)" using strlen_padded [OF assms(2,3)] by (simp add: ctx_of_def)
  have rid: "take (length rid) (req_id ?ctx) = rid" "cx_cmd ?ctx = cmd" "user_role ?ctx = role" by (simp_all add: ctx_of_def)
  have prep: "esp_rmaker_cmd_prepare_response alloc ?ctx s r = Some (ESP_OK, Some (encode_tlvs (response rid cmd s
      (case r of None \<Rightarrow> [] | Some x \<Rightarrow> x))))"
    if "response_space (length (case r of None \<Rightarrow> [] | Some x \<Rightarrow> x))" for s r
    using prepared(1) [OF sl _ assms(7) that] assms(3) rid by (simp add: REQ_ID_LEN_def)
  have space0: "response_space 0" by (simp add: response_space_def)
  have ctx: "read_ctx (Some (encode_tlvs (request rid role cmd data))) (int (length (encode_tlvs (request rid role cmd data)))) = Some ?ctx"
    using assms(3) by (intro context_read) simp
  show ?thesis
  proof (cases "esp_rmaker_get_cmd_info cmd cmds")
    case None
    then show ?thesis using ctx sl rid assms prep [of None] space0 by (simp add: esp_rmaker_cmd_response_handler_def dispatch_def Let_def)
  next
    case (Some ci)
    show ?thesis
    proof (cases "ci_access ci AND role = 0")
      case True
      then show ?thesis using Some ctx sl rid assms prep [of None] space0
        by (simp add: esp_rmaker_cmd_response_handler_def dispatch_def Let_def)
    next
      case False
      obtain err r st2 where h: "ci_handler ci (Some data) ?ctx st = (err, Some r, ?ctx, st2)" "response_space (length r)"
        using assms(8) [OF Some] by (auto simp: tame_def split: prod.splits option.splits)
      then show ?thesis using Some False ctx sl rid assms(1,4,5,9) prep [of None] prep [of "Some r"] space0 data_read [OF assms(6,7)]
        by (auto simp: esp_rmaker_cmd_response_handler_def dispatch_def Let_def)
    qed
  qed
qed

text \<open>C25: A command and its answer. A request with a request id of 1 to 31 characters, a role, a command and data,
  built by the sender, is answered by the handler with what the table of commands says: not found,
  not authorised (then the state of the application is unchanged), or the result of calling the registered
  handler once with the data; the answer names the request, and its reader gets the status and the response data.\<close>

theorem command_is_answered:
  assumes "rid \<noteq> []" "0 \<notin> set rid" "length rid < REQ_ID_LEN" "role \<noteq> 0" "cmd \<noteq> 0" "data \<noteq> []" "length rid + length data \<le> 189"
    "\<forall>k. alloc k" "\<And>ci. esp_rmaker_get_cmd_info cmd cmds = Some ci \<Longrightarrow> tame (Some data) (ctx_of rid role cmd) st ci"
    "dispatch cmds (ctx_of rid role cmd) (Some data) st = (status, resp, st1)"
  shows "\<exists>req out. esp_rmaker_cmd_resp_test_send (Some rid) role cmd (Some data) = Some req \<and>
    esp_rmaker_cmd_response_handler alloc cmds (Some req) (int (length req)) st = Some (ESP_OK, Some out, st1) \<and>
    esp_rmaker_get_value_from_tlv (Some out) (int (length out)) ESP_RMAKER_TLV_TYPE_REQ_ID (replicate (length rid) 0) = Some (int (length rid), rid) \<and>
    esp_rmaker_get_value_from_tlv (Some out) (int (length out)) ESP_RMAKER_TLV_TYPE_STATUS [0] = Some (1, [status_code status]) \<and>
    esp_rmaker_get_value_from_tlv (Some out) (int (length out)) ESP_RMAKER_TLV_TYPE_DATA (replicate (length resp) 0) =
      Some (if resp = [] then -1 else int (length resp), resp)"
proof -
  let ?m = "response rid cmd status resp"
  have m: "map_of ?m ESP_RMAKER_TLV_TYPE_REQ_ID = Some rid" "map_of ?m ESP_RMAKER_TLV_TYPE_STATUS = Some [status_code status]"
    "map_of ?m ESP_RMAKER_TLV_TYPE_DATA = (if resp = [] then None else Some resp)"
    using assms(1) by (simp_all add: response_def tlv_types)
  note get = get_value_of [OF distinct_types(2) [of rid cmd status resp]]
  have "esp_rmaker_get_value_from_tlv (Some (encode_tlvs ?m)) (int (length (encode_tlvs ?m))) ESP_RMAKER_TLV_TYPE_REQ_ID
      (replicate (length rid) 0) = Some (int (length rid), rid)"
    using get [of ESP_RMAKER_TLV_TYPE_REQ_ID "replicate (length rid) 0"] m by (simp add: blit_def)
  moreover have "esp_rmaker_get_value_from_tlv (Some (encode_tlvs ?m)) (int (length (encode_tlvs ?m))) ESP_RMAKER_TLV_TYPE_STATUS [0] =
      Some (1, [status_code status])"
    using get [of ESP_RMAKER_TLV_TYPE_STATUS "[0]"] m by (simp add: blit_def)
  moreover have "esp_rmaker_get_value_from_tlv (Some (encode_tlvs ?m)) (int (length (encode_tlvs ?m))) ESP_RMAKER_TLV_TYPE_DATA
      (replicate (length resp) 0) = Some (if resp = [] then -1 else int (length resp), resp)"
    using get [of ESP_RMAKER_TLV_TYPE_DATA "replicate (length resp) 0"] m by (simp add: blit_def split: if_splits)
  ultimately show ?thesis
    using request_sent [OF assms(1,6,7)] handled [OF assms(1-6) assms(8-10)] by blast
qed

text \<open>A long response is written outside its buffer. The buffer is 100 bytes larger than the data, but
  every 255 bytes of data take two bytes more: with more than 11475 bytes of data the answer to a request with an
  id is written beyond the end.\<close>

theorem long_response_overflows:
  assumes "strlen_in (req_id ctx) = Some n" "0 < n" "n < REQ_ID_LEN" "\<forall>k. alloc k" "45 * 255 < length data"
  shows "esp_rmaker_cmd_prepare_response alloc ctx status (Some data) = None"
  using assms prepared(2) [of ctx n alloc "Some data" status] by (simp add: REQ_ID_LEN_def)

text \<open>A request id of the documented maximum of 32 characters leaves no NUL at its end.\<close>

lemma longest_request_id_unterminated:
  assumes "0 \<notin> set rid" "length rid = REQ_ID_LEN"
  shows "esp_rmaker_cmd_response_handler alloc cmds (Some (encode_tlvs (request rid role cmd data)))
    (int (length (encode_tlvs (request rid role cmd data)))) st = None"
proof -
  have "takeWhile (\<lambda>x. x \<noteq> 0) rid = rid" using assms(1) by (auto simp: takeWhile_eq_all_conv)
  then have "strlen_in rid = None" unfolding strlen_in_def Let_def by (simp only: if_False less_irrefl)
  then have "strlen_in (req_id (ctx_of rid role cmd)) = None" using assms(2) by (simp add: ctx_of_def)
  then show ?thesis using assms(2) by (simp add: esp_rmaker_cmd_response_handler_def context_read)
qed

text \<open>The table: a command is found after it was registered and not after it was deregistered.\<close>

lemma find_slot_Some: "find_slot p i xs = Some j \<Longrightarrow> i \<le> j \<and> j < i + length xs \<and> p (xs ! (j - i)) \<and> (\<forall>k < j - i. \<not> p (xs ! k))"
proof (induction p i xs rule: find_slot.induct)
  case (2 p i x xs)
  show ?case
  proof (cases "p x")
    case False
    with 2 have "Suc i \<le> j \<and> j < Suc i + length xs \<and> p (xs ! (j - Suc i)) \<and> (\<forall>k < j - Suc i. \<not> p (xs ! k))" by simp
    moreover from this have "j - i = Suc (j - Suc i)" by linarith
    ultimately show ?thesis using False by (auto simp: nth_Cons split: nat.splits)
  qed (use 2 in auto)
qed simp

lemma find_slot_None: "find_slot p i xs = None \<longleftrightarrow> (\<forall>x \<in> set xs. \<not> p x)"
  by (induction p i xs rule: find_slot.induct) auto

definition distinct_cmds :: "'a cmd_list \<Rightarrow> bool" where
  "distinct_cmds cmds \<longleftrightarrow> (\<forall>i < length cmds. \<forall>j < length cmds. \<forall>cmd. has_cmd cmd (cmds ! i) \<longrightarrow> has_cmd cmd (cmds ! j) \<longrightarrow> i = j)"

lemma has_cmd_Some [simp]: "has_cmd cmd (Some ci) \<longleftrightarrow> ci_cmd ci = cmd" "\<not> has_cmd cmd None"
  by (simp_all add: has_cmd_def)

lemma get_cmd_info_iff:
  assumes "distinct_cmds cmds"
  shows "esp_rmaker_get_cmd_info cmd cmds = Some ci \<longleftrightarrow> Some ci \<in> set cmds \<and> ci_cmd ci = cmd"
proof
  assume "esp_rmaker_get_cmd_info cmd cmds = Some ci"
  then obtain i where i: "find_slot (has_cmd cmd) 0 cmds = Some i" "cmds ! i = Some ci"
    by (auto simp: esp_rmaker_get_cmd_info_def split: option.splits)
  from find_slot_Some [OF i(1)] i(2) show "Some ci \<in> set cmds \<and> ci_cmd ci = cmd" by (auto intro: nth_mem) (metis nth_mem)
next
  assume a: "Some ci \<in> set cmds \<and> ci_cmd ci = cmd"
  then obtain k where k: "k < length cmds" "cmds ! k = Some ci" by (auto simp: in_set_conv_nth)
  obtain i where i: "find_slot (has_cmd cmd) 0 cmds = Some i"
    using a find_slot_None [of "has_cmd cmd" 0 cmds] by (cases "find_slot (has_cmd cmd) 0 cmds") force+
  with find_slot_Some [OF i] have "i < length cmds" "has_cmd cmd (cmds ! i)" by auto
  then have "i = k" using assms k a unfolding distinct_cmds_def by (metis has_cmd_Some(1))
  then show "esp_rmaker_get_cmd_info cmd cmds = Some ci" using i k by (simp add: esp_rmaker_get_cmd_info_def)
qed

lemma no_cmd_info_iff: "esp_rmaker_get_cmd_info cmd cmds = None \<longleftrightarrow> find_slot (has_cmd cmd) 0 cmds = None"
  using find_slot_Some [of "has_cmd cmd" 0 cmds] by (auto simp: esp_rmaker_get_cmd_info_def has_cmd_def split: option.splits)

lemma get_cmd_info_eqI:
  assumes "distinct_cmds cmds" "\<And>ci. Some ci \<in> set cmds \<and> ci_cmd ci = cmd \<longleftrightarrow> res = Some ci"
  shows "esp_rmaker_get_cmd_info cmd cmds = res"
  using get_cmd_info_iff [OF assms(1)] assms(2) by (metis option.exhaust)

lemma put_slot:
  assumes "distinct_cmds cmds" "i < length cmds" "cmds ! i = None" "esp_rmaker_get_cmd_info (ci_cmd info) cmds = None"
  shows "distinct_cmds (cmds[i := Some info])"
    "esp_rmaker_get_cmd_info c (cmds[i := Some info]) = (if c = ci_cmd info then Some info else esp_rmaker_get_cmd_info c cmds)"
proof -
  have free: "\<not> has_cmd (ci_cmd info) (cmds ! k)" if "k < length cmds" for k
    using assms(4) that no_cmd_info_iff [of "ci_cmd info" cmds] find_slot_None [of "has_cmd (ci_cmd info)" 0 cmds] by auto
  show d: "distinct_cmds (cmds[i := Some info])"
    using assms(1,2) free unfolding distinct_cmds_def by (auto simp: nth_list_update)
  have "Some ci \<in> set (cmds[i := Some info]) \<longleftrightarrow> Some ci \<in> set cmds \<or> ci = info" for ci
  proof
    assume "Some ci \<in> set (cmds[i := Some info])"
    then show "Some ci \<in> set cmds \<or> ci = info" using set_update_subset_insert [of cmds i "Some info"] by auto
  next
    assume "Some ci \<in> set cmds \<or> ci = info"
    then consider k where "k < length cmds" "cmds ! k = Some ci" | "ci = info" by (auto simp: in_set_conv_nth)
    then show "Some ci \<in> set (cmds[i := Some info])"
    proof cases
      case 1
      then have "i \<noteq> k" using assms(3) by auto
      then have "cmds[i := Some info] ! k = Some ci" using 1 by simp
      then show ?thesis using 1(1) by (metis length_list_update nth_mem)
    qed (use assms(2) in \<open>simp add: set_update_memI\<close>)
  qed
  moreover have "Some ci \<in> set cmds \<Longrightarrow> ci_cmd ci \<noteq> ci_cmd info" for ci
    using free by (auto simp: in_set_conv_nth) (metis has_cmd_Some(1))
  ultimately show "esp_rmaker_get_cmd_info c (cmds[i := Some info]) =
      (if c = ci_cmd info then Some info else esp_rmaker_get_cmd_info c cmds)"
    using get_cmd_info_iff [OF assms(1)] by (intro get_cmd_info_eqI [OF d]) auto
qed

lemma clear_slot:
  assumes "distinct_cmds cmds" "i < length cmds" "has_cmd cmd (cmds ! i)"
  shows "distinct_cmds (cmds[i := None])"
    "esp_rmaker_get_cmd_info c (cmds[i := None]) = (if c = cmd then None else esp_rmaker_get_cmd_info c cmds)"
proof -
  show d: "distinct_cmds (cmds[i := None])"
    using assms(1,2) unfolding distinct_cmds_def by (auto simp: nth_list_update)
  have "Some ci \<in> set (cmds[i := None]) \<longleftrightarrow> Some ci \<in> set cmds \<and> ci_cmd ci \<noteq> cmd" for ci
  proof
    assume "Some ci \<in> set (cmds[i := None])"
    then obtain k where "k < length cmds" "cmds[i := None] ! k = Some ci" by (auto simp: in_set_conv_nth)
    then have k: "k < length cmds" "k \<noteq> i" "cmds ! k = Some ci" by (cases "k = i"; simp)+
    moreover from this have "ci_cmd ci \<noteq> cmd" using assms unfolding distinct_cmds_def by (metis has_cmd_Some(1))
    ultimately show "Some ci \<in> set cmds \<and> ci_cmd ci \<noteq> cmd" by (metis nth_mem)
  next
    assume "Some ci \<in> set cmds \<and> ci_cmd ci \<noteq> cmd"
    moreover from this obtain k where "k < length cmds" "cmds ! k = Some ci" by (auto simp: in_set_conv_nth)
    ultimately show "Some ci \<in> set (cmds[i := None])"
      using assms(2,3) by (auto simp: in_set_conv_nth nth_list_update intro!: exI [of _ k])
  qed
  then show "esp_rmaker_get_cmd_info c (cmds[i := None]) = (if c = cmd then None else esp_rmaker_get_cmd_info c cmds)"
    using get_cmd_info_iff [OF assms(1)] by (intro get_cmd_info_eqI [OF d]) auto
qed

text \<open>The table of commands is a map. Registering a new command adds it, if there is a free slot and memory,
  registering a command twice fails, deregistering removes it and fails for a command that is not there; no
  command has two handlers.\<close>

theorem command_table_is_map:
  assumes "distinct_cmds cmds"
  shows "(case esp_rmaker_cmd_register calloc info cmds of (err, cmds1) \<Rightarrow> distinct_cmds cmds1 \<and>
      (if esp_rmaker_get_cmd_info (ci_cmd info) cmds = None \<and> None \<in> set cmds \<and> calloc
       then err = ESP_OK \<and> (\<lambda>c. esp_rmaker_get_cmd_info c cmds1) = (\<lambda>c. esp_rmaker_get_cmd_info c cmds)(ci_cmd info \<mapsto> info)
       else err \<noteq> ESP_OK \<and> cmds1 = cmds)) \<and>
    (case esp_rmaker_cmd_deregister cmd cmds of (err, cmds1) \<Rightarrow> distinct_cmds cmds1 \<and>
      (\<lambda>c. esp_rmaker_get_cmd_info c cmds1) = (\<lambda>c. esp_rmaker_get_cmd_info c cmds)(cmd := None) \<and>
      (err = ESP_OK) = (esp_rmaker_get_cmd_info cmd cmds \<noteq> None))"
proof (intro conjI)
  show "case esp_rmaker_cmd_register calloc info cmds of (err, cmds1) \<Rightarrow> distinct_cmds cmds1 \<and>
      (if esp_rmaker_get_cmd_info (ci_cmd info) cmds = None \<and> None \<in> set cmds \<and> calloc
       then err = ESP_OK \<and> (\<lambda>c. esp_rmaker_get_cmd_info c cmds1) = (\<lambda>c. esp_rmaker_get_cmd_info c cmds)(ci_cmd info \<mapsto> info)
       else err \<noteq> ESP_OK \<and> cmds1 = cmds)"
  proof (cases "find_slot (\<lambda>s. s = None) 0 cmds")
    case None
    then have "None \<notin> set cmds" using find_slot_None [of "\<lambda>s. s = None" 0 cmds] by auto
    then show ?thesis using None assms by (simp add: esp_rmaker_cmd_register_def)
  next
    case (Some i)
    from find_slot_Some [OF this] have i: "i < length cmds" "cmds ! i = None" by simp_all
    then have "None \<in> set cmds" by (metis nth_mem)
    then show ?thesis using Some assms put_slot [OF assms i] no_cmd_info_iff [of "ci_cmd info" cmds]
      by (auto simp: esp_rmaker_cmd_register_def fun_eq_iff)
  qed
  show "case esp_rmaker_cmd_deregister cmd cmds of (err, cmds1) \<Rightarrow> distinct_cmds cmds1 \<and>
      (\<lambda>c. esp_rmaker_get_cmd_info c cmds1) = (\<lambda>c. esp_rmaker_get_cmd_info c cmds)(cmd := None) \<and>
      (err = ESP_OK) = (esp_rmaker_get_cmd_info cmd cmds \<noteq> None)"
  proof (cases "find_slot (has_cmd cmd) 0 cmds")
    case None
    then show ?thesis using assms no_cmd_info_iff [of cmd cmds] by (auto simp: esp_rmaker_cmd_deregister_def fun_eq_iff)
  next
    case (Some i)
    from find_slot_Some [OF this] have i: "i < length cmds" "has_cmd cmd (cmds ! i)" by simp_all
    then show ?thesis using Some assms clear_slot [OF assms i] no_cmd_info_iff [of cmd cmds]
      by (auto simp: esp_rmaker_cmd_deregister_def fun_eq_iff)
  qed
qed

section \<open>Instances\<close>

definition counting_cmd :: "nat cmd_info" where
  "counting_cmd = \<lparr>ci_cmd = 7, ci_access = 3, ci_free_on_return = False, ci_handler = (\<lambda>d ctx st. (ESP_OK, d, ctx, st + 1))\<rparr>"

lemma counting_cmd_found: "esp_rmaker_get_cmd_info 7 [None, Some counting_cmd] = Some counting_cmd"
  by (simp add: esp_rmaker_get_cmd_info_def has_cmd_def counting_cmd_def)

theorem command_is_answered_witness:
  "\<exists>req out. esp_rmaker_cmd_resp_test_send (Some [65, 66]) 2 7 (Some [1, 2, 3]) = Some req \<and>
    esp_rmaker_cmd_response_handler (\<lambda>_. True) [None, Some counting_cmd] (Some req) (int (length req)) 0 = Some (ESP_OK, Some out, 1) \<and>
    esp_rmaker_get_value_from_tlv (Some out) (int (length out)) ESP_RMAKER_TLV_TYPE_REQ_ID (replicate (length [65, 66 :: u8]) 0) =
      Some (int (length [65, 66 :: u8]), [65, 66]) \<and>
    esp_rmaker_get_value_from_tlv (Some out) (int (length out)) ESP_RMAKER_TLV_TYPE_STATUS [0] =
      Some (1, [status_code ESP_RMAKER_CMD_STATUS_SUCCESS]) \<and>
    esp_rmaker_get_value_from_tlv (Some out) (int (length out)) ESP_RMAKER_TLV_TYPE_DATA (replicate (length [1, 2, 3 :: u8]) 0) =
      Some (if [1, 2, 3 :: u8] = [] then -1 else int (length [1, 2, 3 :: u8]), [1, 2, 3])"
  by (rule command_is_answered)
    (use counting_cmd_found in \<open>simp_all add: REQ_ID_LEN_def dispatch_def tame_def response_space_def ctx_of_def, simp_all add: counting_cmd_def response_space_def\<close>)

theorem long_response_overflows_witness:
  "esp_rmaker_cmd_prepare_response (\<lambda>_. True) (ctx_of [65] 1 7) ESP_RMAKER_CMD_STATUS_SUCCESS (Some (replicate 12000 0)) = None"
proof (rule long_response_overflows [of _ 1])
  show "strlen_in (req_id (ctx_of [65] 1 7)) = Some 1"
    using strlen_padded [of "[65]" REQ_ID_LEN] by (simp add: ctx_of_def REQ_ID_LEN_def)
qed (simp_all add: REQ_ID_LEN_def)

definition two_slots :: "nat cmd_list" where
  "two_slots = [None, None]"

theorem command_table_is_map_witness:
  "(case esp_rmaker_cmd_register True counting_cmd two_slots of (err, cmds1) \<Rightarrow> distinct_cmds cmds1 \<and>
      (if esp_rmaker_get_cmd_info (ci_cmd counting_cmd) two_slots = None \<and> None \<in> set two_slots \<and> True
       then err = ESP_OK \<and> (\<lambda>c. esp_rmaker_get_cmd_info c cmds1) =
          (\<lambda>c. esp_rmaker_get_cmd_info c two_slots)(ci_cmd counting_cmd \<mapsto> counting_cmd)
       else err \<noteq> ESP_OK \<and> cmds1 = two_slots)) \<and>
    (case esp_rmaker_cmd_deregister 7 two_slots of (err, cmds1) \<Rightarrow> distinct_cmds cmds1 \<and>
      (\<lambda>c. esp_rmaker_get_cmd_info c cmds1) = (\<lambda>c. esp_rmaker_get_cmd_info c two_slots)(7 := None) \<and>
      (err = ESP_OK) = (esp_rmaker_get_cmd_info 7 two_slots \<noteq> None))"
proof -
  have "distinct_cmds two_slots" by (simp add: distinct_cmds_def two_slots_def less_Suc_eq)
  from command_table_is_map [OF this, of counting_cmd True 7] show ?thesis .
qed

end
