(* ===== verification/WorkQueue.thy ===== *)
theory WorkQueue
  imports Prelude
begin

text \<open>
  managed_components/espressif__rmaker_common/src/work_queue.c: work items queued by any thread and executed by one
  task. The calls are functions on the state; the step relation interleaves them with the task, whose loop is
  cut at every access to the shared state, and starting is cut between the creation of the task and
  the change of the state. A FreeRTOS queue is a list of bounded length; sending without waiting
  fails when it is full, receiving gives the oldest item. The fields \<open>accepted\<close> and \<open>executed\<close> record,
  since the last initialisation, the items that were queued and those that were run.
\<close>

definition ESP_RMAKER_TASK_QUEUE_SIZE :: nat where "ESP_RMAKER_TASK_QUEUE_SIZE = 8"

datatype wq_state = WORK_QUEUE_STATE_DEINIT | WORK_QUEUE_STATE_INIT_DONE | WORK_QUEUE_STATE_RUNNING | WORK_QUEUE_STATE_STOP_REQUESTED

text \<open>Where the task is: before the test of its loop, or handling the queue.\<close>

datatype task_pc = At_test | Handling

record 'w wq =
  work_queue :: "'w list option"
  queue_state :: wq_state
  wq_tasks :: "task_pc list"
  wq_starting :: bool
  accepted :: "'w list"
  executed :: "'w list"

definition wq_boot :: "'w wq" where
  "wq_boot = \<lparr>work_queue = None, queue_state = WORK_QUEUE_STATE_DEINIT, wq_tasks = [], wq_starting = False, accepted = [], executed = []\<rparr>"

section \<open>The calls\<close>

definition esp_rmaker_work_queue_add_task :: "'w \<Rightarrow> 'w wq \<Rightarrow> esp_err \<times> 'w wq" where
  "esp_rmaker_work_queue_add_task w s =
     (case work_queue s of None \<Rightarrow> (ESP_ERR_INVALID_STATE, s)
      | Some q \<Rightarrow>
          if length q < ESP_RMAKER_TASK_QUEUE_SIZE
          then (ESP_OK, s\<lparr>work_queue := Some (q @ [w]), accepted := accepted s @ [w]\<rparr>)
          else (ESP_FAIL, s))"

definition esp_rmaker_work_queue_init :: "bool \<Rightarrow> 'w wq \<Rightarrow> esp_err \<times> 'w wq" where
  "esp_rmaker_work_queue_init created s =
     (if queue_state s \<noteq> WORK_QUEUE_STATE_DEINIT then (ESP_OK, s)
      else if \<not> created then (ESP_FAIL, s\<lparr>work_queue := None\<rparr>)
      else (ESP_OK, s\<lparr>work_queue := Some [], queue_state := WORK_QUEUE_STATE_INIT_DONE, accepted := [], executed := []\<rparr>))"

definition esp_rmaker_work_queue_stop :: "'w wq \<Rightarrow> esp_err \<times> 'w wq" where
  "esp_rmaker_work_queue_stop s =
     (ESP_OK, if queue_state s = WORK_QUEUE_STATE_RUNNING then s\<lparr>queue_state := WORK_QUEUE_STATE_STOP_REQUESTED\<rparr> else s)"

text \<open>Deinitialisation before its waiting loop, and after it.\<close>

definition deinit_begin :: "'w wq \<Rightarrow> 'w wq" where
  "deinit_begin s = (if queue_state s \<noteq> WORK_QUEUE_STATE_STOP_REQUESTED then snd (esp_rmaker_work_queue_stop s) else s)"

definition deinit_end :: "'w wq \<Rightarrow> esp_err \<times> 'w wq" where
  "deinit_end s =
     (if queue_state s = WORK_QUEUE_STATE_DEINIT then (ESP_OK, s)
      else if queue_state s \<noteq> WORK_QUEUE_STATE_INIT_DONE then (ESP_ERR_INVALID_STATE, s)
      else (ESP_OK, s\<lparr>work_queue := None, queue_state := WORK_QUEUE_STATE_DEINIT\<rparr>))"

text \<open>Starting up to the creation of the task; \<open>None\<close> means the call goes on with \<open>start_end\<close>.\<close>

definition start_begin :: "bool \<Rightarrow> 'w wq \<Rightarrow> esp_err option \<times> 'w wq" where
  "start_begin task_created s =
     (if queue_state s = WORK_QUEUE_STATE_RUNNING then (Some ESP_OK, s)
      else if queue_state s \<noteq> WORK_QUEUE_STATE_INIT_DONE then (Some ESP_ERR_INVALID_STATE, s)
      else if \<not> task_created then (Some ESP_FAIL, s)
      else (None, s\<lparr>wq_tasks := wq_tasks s @ [At_test], wq_starting := True\<rparr>))"

definition start_end :: "'w wq \<Rightarrow> 'w wq" where
  "start_end s = s\<lparr>queue_state := WORK_QUEUE_STATE_RUNNING, wq_starting := False\<rparr>"

section \<open>The task\<close>

text \<open>
  One step of the task at \<open>pc\<close>: the test of \<open>esp_rmaker_work_queue_task\<close>, or a receive of
  \<open>esp_rmaker_handle_work_queue\<close> and the call of what was received. The first component is where the task is
  afterwards, if it still exists; the whole is \<open>None\<close> if the queue has been deleted.
\<close>

definition task_step :: "task_pc \<Rightarrow> 'w wq \<Rightarrow> (task_pc option \<times> 'w wq) option" where
  "task_step pc s =
     (case pc of
        At_test \<Rightarrow>
          if queue_state s \<noteq> WORK_QUEUE_STATE_STOP_REQUESTED then Some (Some Handling, s)
          else Some (None, s\<lparr>queue_state := WORK_QUEUE_STATE_INIT_DONE\<rparr>)
      | Handling \<Rightarrow>
          (case work_queue s of None \<Rightarrow> None
           | Some [] \<Rightarrow> Some (Some At_test, s)
           | Some (w # q) \<Rightarrow> Some (Some Handling, s\<lparr>work_queue := Some q, executed := executed s @ [w]\<rparr>)))"

definition move_task :: "nat \<Rightarrow> task_pc option \<Rightarrow> 'w wq \<Rightarrow> 'w wq" where
  "move_task i pc s = s\<lparr>wq_tasks := (case pc of None \<Rightarrow> take i (wq_tasks s) @ drop (i + 1) (wq_tasks s) | Some p \<Rightarrow> (wq_tasks s)[i := p])\<rparr>"

section \<open>All interleavings\<close>

text \<open>One thread starts, stops and deinitialises; any thread adds work at any time.\<close>

inductive wq_step :: "'w wq \<Rightarrow> 'w wq \<Rightarrow> bool" where
  Add: "wq_step s (snd (esp_rmaker_work_queue_add_task w s))"
| Init: "\<not> wq_starting s \<Longrightarrow> wq_step s (snd (esp_rmaker_work_queue_init ok s))"
| Start_begin: "\<not> wq_starting s \<Longrightarrow> wq_step s (snd (start_begin ok s))"
| Start_end: "wq_starting s \<Longrightarrow> wq_step s (start_end s)"
| Stop: "\<not> wq_starting s \<Longrightarrow> wq_step s (snd (esp_rmaker_work_queue_stop s))"
| Deinit_end: "\<not> wq_starting s \<Longrightarrow> queue_state s \<noteq> WORK_QUEUE_STATE_STOP_REQUESTED \<Longrightarrow> wq_step s (snd (deinit_end s))"
| Task: "i < length (wq_tasks s) \<Longrightarrow> task_step (wq_tasks s ! i) s = Some (pc, s1) \<Longrightarrow> wq_step s (move_task i pc s1)"

inductive_cases wq_stepE: "wq_step s t"

text \<open>The invariant: who exists when, and what has become of the accepted work.\<close>

definition wq_inv :: "'w wq \<Rightarrow> bool" where
  "wq_inv s \<longleftrightarrow>
     (work_queue s = None \<longleftrightarrow> queue_state s = WORK_QUEUE_STATE_DEINIT) \<and>
     (wq_starting s \<longrightarrow> queue_state s = WORK_QUEUE_STATE_INIT_DONE) \<and>
     length (wq_tasks s) = (if wq_starting s \<or> queue_state s \<in> {WORK_QUEUE_STATE_RUNNING, WORK_QUEUE_STATE_STOP_REQUESTED} then 1 else 0) \<and>
     (\<forall>q. work_queue s = Some q \<longrightarrow> accepted s = executed s @ q \<and> length q \<le> ESP_RMAKER_TASK_QUEUE_SIZE)"

lemma wq_boot_inv: "wq_inv wq_boot"
  by (simp add: wq_inv_def wq_boot_def)

lemma task_step_inv:
  assumes "wq_inv s" "i < length (wq_tasks s)" "task_step (wq_tasks s ! i) s = Some (pc, s1)"
  shows "wq_inv (move_task i pc s1)"
proof -
  obtain t where t: "wq_tasks s = [t]" "i = 0"
    using assms(1,2) by (cases "wq_tasks s") (auto simp: wq_inv_def split: if_splits)
  have ts: "task_step t s = Some (pc, s1)" using assms(3) t by simp
  show ?thesis
  proof (cases t)
    case At_test
    show ?thesis
    proof (cases "queue_state s = WORK_QUEUE_STATE_STOP_REQUESTED")
      case True
      then have "pc = None" "s1 = s\<lparr>queue_state := WORK_QUEUE_STATE_INIT_DONE\<rparr>" using ts At_test by (simp_all add: task_step_def)
      then show ?thesis using assms(1) t True by (simp add: move_task_def wq_inv_def)
    next
      case False
      then have "pc = Some Handling" "s1 = s" using ts At_test by (simp_all add: task_step_def)
      then show ?thesis using assms(1) t by (simp add: move_task_def wq_inv_def)
    qed
  next
    case Handling
    then obtain q where q: "work_queue s = Some q" using ts by (cases "work_queue s") (simp_all add: task_step_def)
    show ?thesis
    proof (cases q)
      case Nil
      then have "pc = Some At_test" "s1 = s" using ts Handling q by (simp_all add: task_step_def)
      then show ?thesis using assms(1) t by (simp add: move_task_def wq_inv_def)
    next
      case (Cons w q')
      then have "pc = Some Handling" "s1 = s\<lparr>work_queue := Some q', executed := executed s @ [w]\<rparr>"
        using ts Handling q by (simp_all add: task_step_def)
      then show ?thesis using assms(1) t q Cons by (simp add: move_task_def wq_inv_def)
    qed
  qed
qed

lemmas wq_calls = esp_rmaker_work_queue_add_task_def esp_rmaker_work_queue_init_def start_begin_def start_end_def
  esp_rmaker_work_queue_stop_def deinit_end_def

lemma calls_inv:
  assumes "wq_inv s"
  shows "wq_inv (snd (esp_rmaker_work_queue_add_task w s))" "wq_inv (snd (esp_rmaker_work_queue_stop s))"
    "\<not> wq_starting s \<Longrightarrow> wq_inv (snd (esp_rmaker_work_queue_init ok s))"
    "\<not> wq_starting s \<Longrightarrow> wq_inv (snd (start_begin ok s))" "wq_starting s \<Longrightarrow> wq_inv (start_end s)"
    "\<not> wq_starting s \<Longrightarrow> wq_inv (snd (deinit_end s))"
  using assms by (auto simp: wq_inv_def wq_calls split: option.splits if_splits)

lemma wq_step_inv: "wq_step s t \<Longrightarrow> wq_inv s \<Longrightarrow> wq_inv t"
  by (erule wq_stepE) (simp_all add: calls_inv task_step_inv)

lemma wq_reachable_inv: "wq_step\<^sup>*\<^sup>* wq_boot s \<Longrightarrow> wq_inv s"
  by (induction rule: rtranclp_induct) (auto intro: wq_boot_inv wq_step_inv)


section \<open>Progress\<close>

inductive task_only :: "'w wq \<Rightarrow> 'w wq \<Rightarrow> bool" where
  "i < length (wq_tasks s) \<Longrightarrow> task_step (wq_tasks s ! i) s = Some (pc, s1) \<Longrightarrow> task_only s (move_task i pc s1)"

lemma handling_drains:
  assumes "wq_tasks s = [Handling]" "work_queue s = Some q"
  shows "task_only\<^sup>*\<^sup>* s (s\<lparr>work_queue := Some [], executed := executed s @ q, wq_tasks := [At_test]\<rparr>)"
  using assms
proof (induction q arbitrary: s)
  case Nil
  have "task_only s (move_task 0 (Some At_test) s)" using Nil by (intro task_only.intros) (simp_all add: task_step_def)
  moreover have "move_task 0 (Some At_test) s = s\<lparr>work_queue := Some [], executed := executed s @ [], wq_tasks := [At_test]\<rparr>"
    using Nil by (simp add: move_task_def)
  ultimately show ?case by auto
next
  case (Cons w q)
  let ?s1 = "s\<lparr>work_queue := Some q, executed := executed s @ [w]\<rparr>"
  have "task_only s (move_task 0 (Some Handling) ?s1)" using Cons.prems by (intro task_only.intros) (simp_all add: task_step_def)
  moreover have "move_task 0 (Some Handling) ?s1 = ?s1" using Cons.prems by (cases s) (simp add: move_task_def)
  moreover have "task_only\<^sup>*\<^sup>* ?s1 (?s1\<lparr>work_queue := Some [], executed := executed ?s1 @ q, wq_tasks := [At_test]\<rparr>)"
    using Cons.prems by (intro Cons.IH) simp_all
  ultimately show ?case by (simp add: converse_rtranclp_into_rtranclp)
qed

text \<open>C27: Accepted work gets done. From every reachable running state the steps of the task alone lead to a state in which
  all accepted work has been executed, and if a stop was requested they lead to one in which the task is gone and the
  queue can be deinitialised.\<close>

theorem accepted_work_gets_done:
  assumes "wq_step\<^sup>*\<^sup>* wq_boot s"
  shows "(queue_state s = WORK_QUEUE_STATE_RUNNING \<longrightarrow> (\<exists>t. task_only\<^sup>*\<^sup>* s t \<and> executed t = accepted t \<and> accepted t = accepted s)) \<and>
    (queue_state s = WORK_QUEUE_STATE_STOP_REQUESTED \<longrightarrow>
       (\<exists>t. task_only\<^sup>*\<^sup>* s t \<and> queue_state t = WORK_QUEUE_STATE_INIT_DONE \<and> wq_tasks t = []))"
proof -
  from wq_reachable_inv [OF assms] have inv: "wq_inv s" .
  show ?thesis
  proof (cases "queue_state s \<in> {WORK_QUEUE_STATE_RUNNING, WORK_QUEUE_STATE_STOP_REQUESTED}")
    case True
    then obtain pc q where pc: "wq_tasks s = [pc]" and q: "work_queue s = Some q" "accepted s = executed s @ q"
      using inv by (cases "wq_tasks s"; cases "work_queue s") (auto simp: wq_inv_def)
    let ?drained = "s\<lparr>work_queue := Some [], executed := executed s @ q, wq_tasks := [At_test]\<rparr>"
    show ?thesis
    proof (cases "queue_state s = WORK_QUEUE_STATE_RUNNING")
      case running: True
      have "task_only\<^sup>*\<^sup>* s ?drained"
      proof (cases pc)
        case At_test
        have "task_only s (move_task 0 (Some Handling) s)"
          using pc At_test running by (intro task_only.intros) (simp_all add: task_step_def)
        moreover have "task_only\<^sup>*\<^sup>* (move_task 0 (Some Handling) s) ?drained"
          using handling_drains [of "move_task 0 (Some Handling) s" q] pc q by (simp add: move_task_def)
        ultimately show ?thesis by (rule converse_rtranclp_into_rtranclp)
      qed (use handling_drains pc q in simp)
      then show ?thesis using running q by auto
    next
      case False
      then have stop: "queue_state s = WORK_QUEUE_STATE_STOP_REQUESTED" using True by simp
      have ends: "task_only u (move_task 0 None (u\<lparr>queue_state := WORK_QUEUE_STATE_INIT_DONE\<rparr>))"
        if "wq_tasks u = [At_test]" "queue_state u = WORK_QUEUE_STATE_STOP_REQUESTED" for u :: "'a wq"
        using that by (intro task_only.intros) (simp_all add: task_step_def)
      have "\<exists>u. task_only\<^sup>*\<^sup>* s u \<and> wq_tasks u = [At_test] \<and> queue_state u = WORK_QUEUE_STATE_STOP_REQUESTED"
      proof (cases pc)
        case Handling
        then show ?thesis using handling_drains [of s q] pc q stop by (intro exI [of _ ?drained]) simp
      qed (use pc stop in blast)
      then obtain u where u: "task_only\<^sup>*\<^sup>* s u" "wq_tasks u = [At_test]" "queue_state u = WORK_QUEUE_STATE_STOP_REQUESTED" by blast
      let ?t = "move_task 0 None (u\<lparr>queue_state := WORK_QUEUE_STATE_INIT_DONE\<rparr>)"
      have "task_only\<^sup>*\<^sup>* s ?t" using u(1) ends [OF u(2,3)] by (rule rtranclp.rtrancl_into_rtrancl)
      moreover have "queue_state ?t = WORK_QUEUE_STATE_INIT_DONE" "wq_tasks ?t = []" using u(2) by (simp_all add: move_task_def)
      ultimately show ?thesis using stop by auto
    qed
  qed simp
qed

section \<open>An example run\<close>

definition wq_ex :: "nat wq" where
  "wq_ex = start_end (snd (start_begin True (snd (esp_rmaker_work_queue_add_task 5 (snd (esp_rmaker_work_queue_init True wq_boot))))))"

lemma wq_ex_reachable: "wq_step\<^sup>*\<^sup>* wq_boot wq_ex"
proof -
  let ?s1 = "snd (esp_rmaker_work_queue_init True wq_boot) :: nat wq"
  let ?s2 = "snd (esp_rmaker_work_queue_add_task 5 ?s1)" and ?s3 = "snd (start_begin True (snd (esp_rmaker_work_queue_add_task 5 ?s1)))"
  have "\<not> wq_starting wq_boot" "\<not> wq_starting ?s2" "wq_starting ?s3" by (simp_all add: wq_boot_def wq_calls ESP_RMAKER_TASK_QUEUE_SIZE_def)
  then have "wq_step wq_boot ?s1" "wq_step ?s1 ?s2" "wq_step ?s2 ?s3" "wq_step ?s3 wq_ex"
    unfolding wq_ex_def by (blast intro: wq_step.intros)+
  then show ?thesis by (meson rtranclp.rtrancl_into_rtrancl rtranclp.rtrancl_refl)
qed


theorem accepted_work_gets_done_witness:
  "\<exists>t. task_only\<^sup>*\<^sup>* wq_ex t \<and> executed t = accepted t \<and> accepted t = [5]"
proof -
  have "queue_state wq_ex = WORK_QUEUE_STATE_RUNNING" "accepted wq_ex = [5]"
    by (simp_all add: wq_ex_def wq_boot_def wq_calls ESP_RMAKER_TASK_QUEUE_SIZE_def)
  then show ?thesis using accepted_work_gets_done [OF wq_ex_reachable] by auto
qed

end
