(* ===== verification/EncImg.thy ===== *)
theory EncImg
  imports Prelude
begin

text \<open>
  managed_components/espressif__esp_encrypted_img/src/esp_encrypted_img.c: decryption of an image that
  arrives in chunks of any size. The ciphers of mbedTLS are a parameter: deciphering the key (seeding,
  parsing the private key and decrypting), starting the authenticated cipher, and its update and finish. A result
  \<open>None\<close> is an access outside a buffer or through a null pointer. \<open>alloc\<close> says which allocations succeed.
\<close>

section \<open>State\<close>

datatype esp_encrypted_img_state = ESP_PRE_ENC_IMG_READ_MAGIC | ESP_PRE_ENC_IMG_READ_GCM | ESP_PRE_ENC_IMG_READ_IV
  | ESP_PRE_ENC_IMG_READ_BINSIZE | ESP_PRE_ENC_IMG_READ_AUTH | ESP_PRE_ENC_IMG_READ_EXTRA_HEADER | ESP_PRE_ENC_DATA_DECODE_STATE

definition GCM_KEY_SIZE :: nat where "GCM_KEY_SIZE = 32"
definition MAGIC_SIZE :: nat where "MAGIC_SIZE = 4"
definition ENC_GCM_KEY_SIZE :: nat where "ENC_GCM_KEY_SIZE = 384"
definition IV_SIZE :: nat where "IV_SIZE = 16"
definition BIN_SIZE_DATA :: nat where "BIN_SIZE_DATA = 4"
definition AUTH_SIZE :: nat where "AUTH_SIZE = 16"
definition RESERVED_HEADER :: nat where "RESERVED_HEADER = 88"
definition esp_enc_img_magic :: u32 where "esp_enc_img_magic = 0x0788b6cf"

lemmas img_sizes = GCM_KEY_SIZE_def MAGIC_SIZE_def ENC_GCM_KEY_SIZE_def IV_SIZE_def BIN_SIZE_DATA_def AUTH_SIZE_def RESERVED_HEADER_def

record 'g cipher =
  pk_decipher :: "bytes \<Rightarrow> bytes \<Rightarrow> bytes option"
  gcm_starts :: "bytes \<Rightarrow> bytes \<Rightarrow> 'g option"
  gcm_update :: "'g \<Rightarrow> bytes \<Rightarrow> ('g \<times> bytes) option"
  gcm_finish :: "'g \<Rightarrow> bytes option"

record 'g enc_handle =
  rsa_pem :: "bytes option"
  binary_file_len :: nat
  binary_file_read :: nat
  gcm_key :: bytes
  img_iv :: bytes
  auth_tag :: bytes
  img_state :: esp_encrypted_img_state
  gcm_ctx :: "'g option"
  cache_buf_len :: nat
  cache_buf :: "bytes option"

record decrypt_arg =
  data_in :: "bytes option"
  data_out :: "bytes option"
  data_out_len :: nat

text \<open>The configuration is null, or has a key that may be null.\<close>

definition esp_encrypted_img_decrypt_start :: "(nat \<Rightarrow> bool) \<Rightarrow> bytes option option \<Rightarrow> 'g enc_handle option" where
  "esp_encrypted_img_decrypt_start alloc cfg =
     (case cfg of Some (Some key) \<Rightarrow>
        if \<not> alloc 536 \<or> \<not> alloc (length key) \<or> \<not> alloc ENC_GCM_KEY_SIZE then None
        else Some \<lparr>rsa_pem = Some key, binary_file_len = 0, binary_file_read = 0, gcm_key = replicate GCM_KEY_SIZE 0,
               img_iv = replicate IV_SIZE 0, auth_tag = replicate AUTH_SIZE 0, img_state = ESP_PRE_ENC_IMG_READ_MAGIC,
               gcm_ctx = None, cache_buf_len = 0, cache_buf = Some (replicate ENC_GCM_KEY_SIZE 0)\<rparr>
      | _ \<Rightarrow> None)"

text \<open>Resized memory keeps what fits.\<close>

definition realloc_buf :: "nat \<Rightarrow> bytes option \<Rightarrow> bytes" where
  "realloc_buf n b = take n ((case b of None \<Rightarrow> [] | Some x \<Rightarrow> x) @ replicate n 0)"

text \<open>The flag tells whether the function returned zero.\<close>

definition decipher_gcm_key :: "'g cipher \<Rightarrow> (nat \<Rightarrow> bool) \<Rightarrow> bytes \<Rightarrow> 'g enc_handle \<Rightarrow> (bool \<times> 'g enc_handle) option" where
  "decipher_gcm_key cr alloc enc_gcm h =
     Option.bind (rsa_pem h) (\<lambda>pem.
       case pk_decipher cr pem enc_gcm of None \<Rightarrow> Some (False, h\<lparr>rsa_pem := None\<rparr>)
       | Some key \<Rightarrow>
           Option.bind (memcpy_to (gcm_key h) 0 key) (\<lambda>k.
             if \<not> alloc 16 then Some (False, h\<lparr>gcm_key := k, cache_buf := None\<rparr>)
             else Some (True, h\<lparr>gcm_key := k, cache_buf := Some (realloc_buf 16 (cache_buf h)),
                    img_state := ESP_PRE_ENC_IMG_READ_IV, binary_file_read := 0, cache_buf_len := 0, rsa_pem := None\<rparr>)))"

section \<open>The data\<close>

text \<open>An update whose output goes to \<open>out\<close> at an offset; \<open>Inl\<close> is a failure of the cipher.\<close>

definition update_at ::
  "'g cipher \<Rightarrow> 'g enc_handle \<Rightarrow> bytes \<Rightarrow> bytes option \<Rightarrow> nat \<Rightarrow> (unit + 'g enc_handle \<times> bytes option) option" where
  "update_at cr h input out off =
     Option.bind (gcm_ctx h) (\<lambda>g.
       case gcm_update cr g input of None \<Rightarrow> Some (Inl ())
       | Some (g1, res) \<Rightarrow>
           Option.bind out (\<lambda>b. map_option (\<lambda>b1. Inr (h\<lparr>gcm_ctx := Some g1\<rparr>, Some b1)) (memcpy_to b off res)))"

text \<open>The cached block: the bytes that complete it are copied behind those it has.\<close>

definition fill_cache :: "bytes \<Rightarrow> nat \<Rightarrow> 'g enc_handle \<Rightarrow> (nat \<times> 'g enc_handle) option" where
  "fill_cache data curr_index h =
     (let copy_len = min (16 - cache_buf_len h) (length data - curr_index) in
      Option.bind (cache_buf h) (\<lambda>c.
        map_option (\<lambda>c1. (copy_len, h\<lparr>cache_buf := Some c1, cache_buf_len := cache_buf_len h + copy_len\<rparr>))
          (memcpy_to c (cache_buf_len h) (take copy_len (drop curr_index data)))))"

text \<open>The part of \<open>process_bin\<close> after the cached block, of which \<open>dec_len\<close> bytes are written.\<close>

definition process_blocks ::
  "'g cipher \<Rightarrow> 'g enc_handle \<Rightarrow> decrypt_arg \<Rightarrow> bytes \<Rightarrow> nat \<Rightarrow> nat \<Rightarrow> nat \<Rightarrow> bytes option \<Rightarrow> (esp_err \<times> decrypt_arg \<times> 'g enc_handle) option" where
  "process_blocks cr h args data curr_index copy_len dec_len out =
     (let left = (length data - curr_index - copy_len) mod 16; data_len = length data - left in
      Option.bind (if left \<noteq> 0 then Option.bind (cache_buf h) (\<lambda>c. map_option Some (memcpy_to c 0 (take left (drop data_len data))))
                   else Some (cache_buf h)) (\<lambda>c1.
      let h1 = h\<lparr>cache_buf_len := left, cache_buf := c1\<rparr> in
      Option.bind (if data_len - copy_len - curr_index > 0
                   then update_at cr h1 (take (data_len - copy_len - curr_index) (drop (curr_index + copy_len) data)) out dec_len
                   else Some (Inr (h1, out))) (\<lambda>r.
        case r of Inl _ \<Rightarrow> Some (ESP_FAIL, args\<lparr>data_out := out\<rparr>, h1)
        | Inr (h2, out1) \<Rightarrow>
            Some (ESP_ERR_NOT_FINISHED, args\<lparr>data_out := out1, data_out_len := dec_len + data_len - curr_index - copy_len\<rparr>, h2))))"

definition process_bin ::
  "'g cipher \<Rightarrow> (nat \<Rightarrow> bool) \<Rightarrow> 'g enc_handle \<Rightarrow> decrypt_arg \<Rightarrow> bytes \<Rightarrow> nat \<Rightarrow> (esp_err \<times> decrypt_arg \<times> 'g enc_handle) option" where
  "process_bin cr alloc h0 args data curr_index =
     (let recv = length data - curr_index;
          h = h0\<lparr>binary_file_read := (binary_file_read h0 + recv) mod 2 ^ 32\<rparr>;
          avail = cache_buf_len h + recv in
      if binary_file_read h \<noteq> binary_file_len h then
        let full = avail - avail mod 16 in
        if full > 0 \<and> \<not> alloc full then Some (ESP_ERR_NO_MEM, args\<lparr>data_out := None\<rparr>, h)
        else
          let out = (if full > 0 then Some (realloc_buf full (data_out args)) else data_out args) in
          if cache_buf_len h \<noteq> 0 then
            Option.bind (fill_cache data curr_index h) (\<lambda>(copy_len, h1).
              if cache_buf_len h1 \<noteq> 16 then Some (ESP_ERR_NOT_FINISHED, args\<lparr>data_out := out, data_out_len := 0\<rparr>, h1)
              else
                Option.bind (Option.bind (cache_buf h1) (\<lambda>c. update_at cr h1 (take 16 c) out 0)) (\<lambda>r.
                  case r of Inl _ \<Rightarrow> Some (ESP_FAIL, args\<lparr>data_out := out\<rparr>, h1)
                  | Inr (h2, out1) \<Rightarrow> process_blocks cr h2 args data curr_index copy_len 16 out1))
          else process_blocks cr h args data curr_index 0 0 out
      else
        if \<not> alloc avail then Some (ESP_ERR_NO_MEM, args\<lparr>data_out := None\<rparr>, h)
        else
          let out = Some (realloc_buf avail (data_out args)) in
          Option.bind (fill_cache data curr_index h) (\<lambda>(copy_len, h1).
          Option.bind (Option.bind (cache_buf h1) (\<lambda>c. update_at cr h1 (take (cache_buf_len h1) c) out 0)) (\<lambda>r.
            case r of Inl _ \<Rightarrow> Some (ESP_FAIL, args\<lparr>data_out := out\<rparr>, h1)
            | Inr (h2, out1) \<Rightarrow>
                Option.bind (if recv - copy_len > 0 then update_at cr h2 (take (recv - copy_len) (drop (curr_index + copy_len) data)) out1 16
                             else Some (Inr (h2, out1))) (\<lambda>r2.
                  case r2 of Inl _ \<Rightarrow> Some (ESP_FAIL, args\<lparr>data_out := out1\<rparr>, h2)
                  | Inr (h3, out2) \<Rightarrow>
                      Some (ESP_OK, args\<lparr>data_out := out2, data_out_len := cache_buf_len h3 + length data - copy_len - curr_index\<rparr>,
                            h3\<lparr>cache_buf_len := 0\<rparr>)))))"

section \<open>The header\<close>

definition read_and_cache_data :: "'g enc_handle \<Rightarrow> bytes \<Rightarrow> nat \<Rightarrow> nat \<Rightarrow> ('g enc_handle \<times> nat) option" where
  "read_and_cache_data h data curr_index data_size =
     (let data_left = int data_size - int (binary_file_read h); data_recv = int (length data) - int curr_index;
          n = min data_recv data_left; chunk = take (nat n) (drop curr_index data) in
      if n < 0 then None
      else
        map_option (\<lambda>h1. (h1\<lparr>cache_buf_len := cache_buf_len h1 + nat n, binary_file_read := (binary_file_read h1 + nat n) mod 2 ^ 32\<rparr>,
            curr_index + nat n))
          (if img_state h = ESP_PRE_ENC_IMG_READ_IV then map_option (\<lambda>b. h\<lparr>img_iv := b\<rparr>) (memcpy_to (img_iv h) (cache_buf_len h) chunk)
           else if img_state h = ESP_PRE_ENC_IMG_READ_AUTH then
             map_option (\<lambda>b. h\<lparr>auth_tag := b\<rparr>) (memcpy_to (auth_tag h) (cache_buf_len h) chunk)
           else Option.bind (cache_buf h) (\<lambda>c. map_option (\<lambda>b. h\<lparr>cache_buf := Some b\<rparr>) (memcpy_to c (cache_buf_len h) chunk))))"

text \<open>
  One function per label of the switch in \<open>esp_encrypted_img_decrypt_data\<close>: \<open>Inl\<close> is a return,
  \<open>Inr\<close> falls through to the next label with the index into the data.
\<close>

type_synonym 'g label_result = "((esp_err \<times> 'g enc_handle) + ('g enc_handle \<times> nat)) option"

definition whole_field :: "'g enc_handle \<Rightarrow> bytes \<Rightarrow> nat \<Rightarrow> nat \<Rightarrow> bool" where
  "whole_field h data curr_index size_of_field \<longleftrightarrow> cache_buf_len h = 0 \<and> length data - curr_index \<ge> size_of_field"

definition case_magic :: "bytes \<Rightarrow> 'g enc_handle \<Rightarrow> nat \<Rightarrow> 'g label_result" where
  "case_magic data h curr_index =
     (if whole_field h data curr_index MAGIC_SIZE then
        if rd32 data \<noteq> esp_enc_img_magic then Some (Inl (ESP_FAIL, h\<lparr>rsa_pem := None\<rparr>))
        else Some (Inr (h\<lparr>img_state := ESP_PRE_ENC_IMG_READ_GCM\<rparr>, curr_index + MAGIC_SIZE))
      else
        Option.bind (read_and_cache_data h data curr_index MAGIC_SIZE) (\<lambda>(h1, ci).
          if binary_file_read h1 = MAGIC_SIZE then
            Option.bind (cache_buf h1) (\<lambda>c.
              if rd32 c \<noteq> esp_enc_img_magic then Some (Inl (ESP_FAIL, h1\<lparr>rsa_pem := None\<rparr>))
              else Some (Inr (h1\<lparr>binary_file_read := 0, cache_buf_len := 0, img_state := ESP_PRE_ENC_IMG_READ_GCM\<rparr>, ci)))
          else Some (Inl (ESP_ERR_NOT_FINISHED, h1))))"

definition case_gcm :: "'g cipher \<Rightarrow> (nat \<Rightarrow> bool) \<Rightarrow> bytes \<Rightarrow> 'g enc_handle \<Rightarrow> nat \<Rightarrow> 'g label_result" where
  "case_gcm cr alloc data h curr_index =
     (if whole_field h data curr_index ENC_GCM_KEY_SIZE then
        map_option (\<lambda>(ok, h1). if ok then Inr (h1, curr_index + ENC_GCM_KEY_SIZE) else Inl (ESP_FAIL, h1))
          (decipher_gcm_key cr alloc (take ENC_GCM_KEY_SIZE (drop curr_index data)) h)
      else
        Option.bind (read_and_cache_data h data curr_index ENC_GCM_KEY_SIZE) (\<lambda>(h1, ci).
          if cache_buf_len h1 = ENC_GCM_KEY_SIZE then
            Option.bind (cache_buf h1) (\<lambda>c.
              map_option (\<lambda>(ok, h2). if ok then Inr (h2, ci) else Inl (ESP_FAIL, h2))
                (decipher_gcm_key cr alloc (take ENC_GCM_KEY_SIZE c) h1))
          else Some (Inl (ESP_ERR_NOT_FINISHED, h1))))"

definition case_iv :: "'g cipher \<Rightarrow> bytes \<Rightarrow> 'g enc_handle \<Rightarrow> nat \<Rightarrow> 'g label_result" where
  "case_iv cr data h curr_index =
     Option.bind
       (if whole_field h data curr_index IV_SIZE
        then map_option (\<lambda>b. (h\<lparr>img_iv := b, binary_file_read := IV_SIZE\<rparr>, curr_index + IV_SIZE))
               (memcpy_to (img_iv h) 0 (take IV_SIZE (drop curr_index data)))
        else read_and_cache_data h data curr_index IV_SIZE) (\<lambda>(h1, ci).
       if binary_file_read h1 = IV_SIZE then
         let h2 = h1\<lparr>img_state := ESP_PRE_ENC_IMG_READ_BINSIZE, binary_file_read := 0, cache_buf_len := 0\<rparr> in
         (case gcm_starts cr (gcm_key h2) (img_iv h2) of None \<Rightarrow> Some (Inl (ESP_FAIL, h2))
          | Some g \<Rightarrow> Some (Inr (h2\<lparr>gcm_ctx := Some g\<rparr>, ci)))
       else Some (Inl (ESP_ERR_NOT_FINISHED, h1)))"

definition case_binsize :: "bytes \<Rightarrow> 'g enc_handle \<Rightarrow> nat \<Rightarrow> 'g label_result" where
  "case_binsize data h curr_index =
     (let next = (\<lambda>h. h\<lparr>img_state := ESP_PRE_ENC_IMG_READ_AUTH, binary_file_read := 0, cache_buf_len := 0\<rparr>) in
      if whole_field h data curr_index BIN_SIZE_DATA
      then Some (Inr (next (h\<lparr>binary_file_len := unat (rd32 (drop curr_index data))\<rparr>), curr_index + BIN_SIZE_DATA))
      else
        Option.bind (read_and_cache_data h data curr_index BIN_SIZE_DATA) (\<lambda>(h1, ci).
          if binary_file_read h1 = BIN_SIZE_DATA then
            map_option (\<lambda>c. Inr (next (h1\<lparr>binary_file_len := unat (rd32 c)\<rparr>), ci)) (cache_buf h1)
          else Some (Inl (ESP_ERR_NOT_FINISHED, h1))))"

definition case_auth :: "bytes \<Rightarrow> 'g enc_handle \<Rightarrow> nat \<Rightarrow> 'g label_result" where
  "case_auth data h curr_index =
     Option.bind
       (if whole_field h data curr_index AUTH_SIZE
        then map_option (\<lambda>b. (h\<lparr>auth_tag := b, binary_file_read := AUTH_SIZE\<rparr>, curr_index + AUTH_SIZE))
               (memcpy_to (auth_tag h) 0 (take AUTH_SIZE (drop curr_index data)))
        else read_and_cache_data h data curr_index AUTH_SIZE) (\<lambda>(h1, ci).
       if binary_file_read h1 = AUTH_SIZE
       then Some (Inr (h1\<lparr>img_state := ESP_PRE_ENC_IMG_READ_EXTRA_HEADER, binary_file_read := 0, cache_buf_len := 0\<rparr>, ci))
       else Some (Inl (ESP_ERR_NOT_FINISHED, h1)))"

definition case_extra :: "bytes \<Rightarrow> 'g enc_handle \<Rightarrow> nat \<Rightarrow> 'g label_result" where
  "case_extra data h curr_index =
     (let n = min (length data - curr_index) (RESERVED_HEADER - binary_file_read h);
          h1 = h\<lparr>binary_file_read := (binary_file_read h + n) mod 2 ^ 32\<rparr> in
      if binary_file_read h1 = RESERVED_HEADER
      then Some (Inr (h1\<lparr>img_state := ESP_PRE_ENC_DATA_DECODE_STATE, binary_file_read := 0, cache_buf_len := 0\<rparr>, curr_index + n))
      else Some (Inl (ESP_ERR_NOT_FINISHED, h1)))"

definition header_labels :: "'g cipher \<Rightarrow> (nat \<Rightarrow> bool) \<Rightarrow> (bytes \<Rightarrow> 'g enc_handle \<Rightarrow> nat \<Rightarrow> 'g label_result) list" where
  "header_labels cr alloc = [case_magic, case_gcm cr alloc, case_iv cr, case_binsize, case_auth, case_extra]"

fun label_index :: "esp_encrypted_img_state \<Rightarrow> nat" where
  "label_index ESP_PRE_ENC_IMG_READ_MAGIC = 0"
| "label_index ESP_PRE_ENC_IMG_READ_GCM = 1"
| "label_index ESP_PRE_ENC_IMG_READ_IV = 2"
| "label_index ESP_PRE_ENC_IMG_READ_BINSIZE = 3"
| "label_index ESP_PRE_ENC_IMG_READ_AUTH = 4"
| "label_index ESP_PRE_ENC_IMG_READ_EXTRA_HEADER = 5"
| "label_index ESP_PRE_ENC_DATA_DECODE_STATE = 6"

fun fall_through :: "(bytes \<Rightarrow> 'g enc_handle \<Rightarrow> nat \<Rightarrow> 'g label_result) list \<Rightarrow> bytes \<Rightarrow> 'g enc_handle \<Rightarrow> nat \<Rightarrow> 'g label_result" where
  "fall_through [] data h curr_index = Some (Inr (h, curr_index))"
| "fall_through (l # ls) data h curr_index =
     Option.bind (l data h curr_index) (\<lambda>r. case r of Inl x \<Rightarrow> Some (Inl x) | Inr (h1, ci) \<Rightarrow> fall_through ls data h1 ci)"

definition esp_encrypted_img_decrypt_data ::
  "'g cipher \<Rightarrow> (nat \<Rightarrow> bool) \<Rightarrow> 'g enc_handle option \<Rightarrow> decrypt_arg \<Rightarrow> (esp_err \<times> decrypt_arg \<times> 'g enc_handle option) option" where
  "esp_encrypted_img_decrypt_data cr alloc ctx args =
     (case (ctx, data_in args) of
        (Some h, Some data) \<Rightarrow>
          Option.bind (fall_through (drop (label_index (img_state h)) (header_labels cr alloc)) data h 0) (\<lambda>r.
            case r of Inl (err, h1) \<Rightarrow> Some (err, args, Some h1)
            | Inr (h1, ci) \<Rightarrow> map_option (\<lambda>(err, args1, h2). (err, args1, Some h2)) (process_bin cr alloc h1 args data ci))
      | _ \<Rightarrow> Some (ESP_ERR_INVALID_ARG, args, ctx))"

section \<open>The end\<close>

definition esp_encrypted_img_decrypt_end :: "'g cipher \<Rightarrow> 'g enc_handle option \<Rightarrow> esp_err option" where
  "esp_encrypted_img_decrypt_end cr ctx =
     (case ctx of None \<Rightarrow> Some ESP_ERR_INVALID_ARG
      | Some h \<Rightarrow>
          if img_state h = ESP_PRE_ENC_DATA_DECODE_STATE then
            if cache_buf_len h \<noteq> 0 \<or> binary_file_read h \<noteq> binary_file_len h then Some ESP_FAIL
            else
              map_option (\<lambda>g. case gcm_finish cr g of None \<Rightarrow> ESP_FAIL
                  | Some got_auth \<Rightarrow> if got_auth \<noteq> auth_tag h then ESP_FAIL else ESP_OK) (gcm_ctx h)
          else Some ESP_OK)"

definition esp_encrypted_img_is_complete_data_received :: "'g enc_handle option \<Rightarrow> bool" where
  "esp_encrypted_img_is_complete_data_received ctx \<longleftrightarrow> (case ctx of None \<Rightarrow> False | Some h \<Rightarrow> binary_file_len h = binary_file_read h)"

definition esp_encrypted_img_decrypt_abort :: "'g enc_handle option \<Rightarrow> esp_err" where
  "esp_encrypted_img_decrypt_abort ctx = (case ctx of None \<Rightarrow> ESP_ERR_INVALID_ARG | Some h \<Rightarrow> ESP_OK)"

section \<open>Images\<close>

record package =
  enc_key :: bytes
  start_iv :: bytes
  img_tag :: bytes
  extra_header :: bytes
  img_body :: bytes

definition package_ok :: "package \<Rightarrow> bool" where
  "package_ok p \<longleftrightarrow> length (enc_key p) = ENC_GCM_KEY_SIZE \<and> length (start_iv p) = IV_SIZE \<and> length (img_tag p) = AUTH_SIZE \<and>
     length (extra_header p) = RESERVED_HEADER \<and> 0 < length (img_body p) \<and> length (img_body p) < 2 ^ 32"

fun img_field :: "package \<Rightarrow> esp_encrypted_img_state \<Rightarrow> bytes" where
  "img_field p ESP_PRE_ENC_IMG_READ_MAGIC = le32 esp_enc_img_magic"
| "img_field p ESP_PRE_ENC_IMG_READ_GCM = enc_key p"
| "img_field p ESP_PRE_ENC_IMG_READ_IV = start_iv p"
| "img_field p ESP_PRE_ENC_IMG_READ_BINSIZE = le32 (word_of_nat (length (img_body p)))"
| "img_field p ESP_PRE_ENC_IMG_READ_AUTH = img_tag p"
| "img_field p ESP_PRE_ENC_IMG_READ_EXTRA_HEADER = extra_header p"
| "img_field p ESP_PRE_ENC_DATA_DECODE_STATE = img_body p"

definition img_states :: "esp_encrypted_img_state list" where
  "img_states = [ESP_PRE_ENC_IMG_READ_MAGIC, ESP_PRE_ENC_IMG_READ_GCM, ESP_PRE_ENC_IMG_READ_IV, ESP_PRE_ENC_IMG_READ_BINSIZE,
     ESP_PRE_ENC_IMG_READ_AUTH, ESP_PRE_ENC_IMG_READ_EXTRA_HEADER, ESP_PRE_ENC_DATA_DECODE_STATE]"

definition later_fields :: "package \<Rightarrow> esp_encrypted_img_state \<Rightarrow> bytes" where
  "later_fields p st = concat (map (img_field p) (drop (Suc (label_index st)) img_states))"

definition package_bytes :: "package \<Rightarrow> bytes" where
  "package_bytes p = concat (map (img_field p) img_states)"

text \<open>
  What the code relies on in the cipher: an update by whole blocks can be followed by another, which together are one
  update, the output is as long as the input, and an empty update does nothing.
\<close>

definition gcm_streams :: "'g cipher \<Rightarrow> bool" where
  "gcm_streams cr \<longleftrightarrow>
     (\<forall>g a b. length a mod 16 = 0 \<longrightarrow> gcm_update cr g (a @ b) =
        Option.bind (gcm_update cr g a) (\<lambda>(g1, o1). map_option (\<lambda>(g2, o2). (g2, o1 @ o2)) (gcm_update cr g1 b))) \<and>
     (\<forall>g a g1 o1. gcm_update cr g a = Some (g1, o1) \<longrightarrow> length o1 = length a) \<and>
     (\<forall>g. gcm_update cr g [] = Some (g, []))"

text \<open>The key of the image is deciphered and its body decrypts to \<open>plain\<close>.\<close>

definition decrypts ::
  "'g cipher \<Rightarrow> bytes \<Rightarrow> package \<Rightarrow> bytes \<Rightarrow> 'g \<Rightarrow> 'g \<Rightarrow> bytes \<Rightarrow> bool" where
  "decrypts cr pem p key g0 g1 plain \<longleftrightarrow>
     pk_decipher cr pem (enc_key p) = Some key \<and> length key \<le> GCM_KEY_SIZE \<and>
     gcm_starts cr (blit (replicate GCM_KEY_SIZE 0) 0 key) (start_iv p) = Some g0 \<and>
     gcm_update cr g0 (img_body p) = Some (g1, plain)"

lemma update_extend:
  assumes "gcm_streams cr" "gcm_update cr g0 body = Some (gN, plain)" "gcm_update cr g0 (take q body) = Some (g1, o1)"
    "q mod 16 = 0" "q \<le> r" "r \<le> length body" "r mod 16 = 0 \<or> r = length body"
  shows "\<exists>g2 o2. gcm_update cr g1 (drop q (take r body)) = Some (g2, o2) \<and> length o2 = r - q \<and>
    gcm_update cr g0 (take r body) = Some (g2, o1 @ o2)"
proof -
  have law: "length a mod 16 = 0 \<Longrightarrow> gcm_update cr g (a @ b) =
      Option.bind (gcm_update cr g a) (\<lambda>(g1, o1). map_option (\<lambda>(g2, o2). (g2, o1 @ o2)) (gcm_update cr g1 b))"
    and len: "gcm_update cr g a = Some (g', o') \<Longrightarrow> length o' = length a" for g a b g' o'
    using assms(1) by (auto simp: gcm_streams_def)
  have "gcm_update cr g0 (take r body) \<noteq> None"
  proof (cases "r = length body")
    case False
    then have "r mod 16 = 0" using assms(7) by simp
    then have "gcm_update cr g0 (take r body @ drop r body) =
        Option.bind (gcm_update cr g0 (take r body)) (\<lambda>(g1, o1). map_option (\<lambda>(g2, o2). (g2, o1 @ o2)) (gcm_update cr g1 (drop r body)))"
      using assms(6) by (intro law) simp
    then show ?thesis using assms(2) by (cases "gcm_update cr g0 (take r body)") auto
  qed (use assms(2) in simp)
  then obtain g2 o' where whole: "gcm_update cr g0 (take r body) = Some (g2, o')" by auto
  have split: "take r body = take q body @ drop q (take r body)"
    using assms(5) by (metis append_take_drop_id min.absorb1 take_take)
  have "length (take q body) mod 16 = 0" using assms(4,5,6) by simp
  from law [OF this, of g0 "drop q (take r body)"] split assms(3) whole
  have "map_option (\<lambda>(g2, o2). (g2, o1 @ o2)) (gcm_update cr g1 (drop q (take r body))) = Some (g2, o')" by simp
  then obtain o2 where o2: "gcm_update cr g1 (drop q (take r body)) = Some (g2, o2)" "o' = o1 @ o2" by auto
  have "length o2 = r - q" using len [OF o2(1)] assms(5,6) by simp
  then show ?thesis using o2 whole by blast
qed

section \<open>What the handle waits for\<close>

text \<open>
  In every state the handle has seen \<open>binary_file_read\<close> bytes of the field it reads and has them cached; \<open>rest\<close> are the
  bytes of the image that have not arrived, \<open>out\<close> is the output so far.
\<close>

definition awaits ::
  "'g cipher \<Rightarrow> bytes \<Rightarrow> package \<Rightarrow> bytes \<Rightarrow> 'g \<Rightarrow> 'g enc_handle \<Rightarrow> bytes \<Rightarrow> bytes \<Rightarrow> bool" where
  "awaits cr pem p key g0 h rest out \<longleftrightarrow>
     (let st = img_state h; f = img_field p st; m = binary_file_read h;
          cached = (\<lambda>buf. cache_buf_len h = m \<and> take m buf = take m f) in
      m < length f \<and> rest = drop m f @ later_fields p st \<and>
      (\<exists>c. cache_buf h = Some c \<and> length c = (if label_index st < 2 then ENC_GCM_KEY_SIZE else 16) \<and>
        length (img_iv h) = IV_SIZE \<and> length (auth_tag h) = AUTH_SIZE \<and>
        (if label_index st < 2 then rsa_pem h = Some pem \<and> gcm_key h = replicate GCM_KEY_SIZE 0
         else gcm_key h = blit (replicate GCM_KEY_SIZE 0) 0 key) \<and>
        (label_index st < 6 \<longrightarrow> out = [] \<and> (2 < label_index st \<longrightarrow> gcm_ctx h = Some g0)) \<and>
        (3 < label_index st \<longrightarrow> binary_file_len h = length (img_body p)) \<and>
        (4 < label_index st \<longrightarrow> auth_tag h = img_tag p) \<and>
        (case st of
           ESP_PRE_ENC_IMG_READ_IV \<Rightarrow> cached (img_iv h)
         | ESP_PRE_ENC_IMG_READ_AUTH \<Rightarrow> cached (auth_tag h)
         | ESP_PRE_ENC_IMG_READ_EXTRA_HEADER \<Rightarrow> cache_buf_len h = 0
         | ESP_PRE_ENC_DATA_DECODE_STATE \<Rightarrow>
             cache_buf_len h = m mod 16 \<and> take (m mod 16) c = drop (m - m mod 16) (take m f) \<and>
             (\<exists>g. gcm_ctx h = Some g \<and> gcm_update cr g0 (take (m - m mod 16) f) = Some (g, out))
         | _ \<Rightarrow> cached c)))"

text \<open>A label continues correctly: it returns waiting for what follows the data, or goes on in the next state.\<close>

definition continues ::
  "'g cipher \<Rightarrow> bytes \<Rightarrow> package \<Rightarrow> bytes \<Rightarrow> 'g \<Rightarrow> bytes \<Rightarrow> bytes \<Rightarrow> esp_encrypted_img_state \<Rightarrow>
   ((esp_err \<times> 'g enc_handle) + ('g enc_handle \<times> nat)) option \<Rightarrow> bool" where
  "continues cr pem p key g0 data z st r \<longleftrightarrow>
     (case r of None \<Rightarrow> False
      | Some (Inl (err, h)) \<Rightarrow> err = ESP_ERR_NOT_FINISHED \<and> awaits cr pem p key g0 h z []
      | Some (Inr (h, ci)) \<Rightarrow> ci \<le> length data \<and> img_state h = st \<and> awaits cr pem p key g0 h (drop ci data @ z) [])"

lemma short_chunk: "d @ z = f @ t \<Longrightarrow> length d < length f \<Longrightarrow> d = take (length d) f \<and> z = drop (length d) f @ t"
  by (simp add: append_eq_append_conv_if)

lemma long_chunk: "d @ z = f @ t \<Longrightarrow> length f \<le> length d \<Longrightarrow> take (length f) d = f \<and> drop (length f) d @ z = t"
  by (metis append_eq_append_conv_if append_take_drop_id)

lemma cached_more:
  "take m b = take m f \<Longrightarrow> m + n \<le> length b \<Longrightarrow> m + n \<le> length f \<Longrightarrow>
   take (m + n) (blit b m (take n (drop m f))) = take (m + n) f"
  by (simp add: blit_def take_add)

lemma read_and_cache:
  assumes "binary_file_read h = m" "cache_buf_len h = m" "m \<le> L" "L < 2 ^ 32" "ci \<le> length data"
    and n: "n = min (length data - ci) (L - m)"
  shows
    "img_state h \<noteq> ESP_PRE_ENC_IMG_READ_IV \<Longrightarrow> img_state h \<noteq> ESP_PRE_ENC_IMG_READ_AUTH \<Longrightarrow> cache_buf h = Some c \<Longrightarrow> L \<le> length c \<Longrightarrow>
      read_and_cache_data h data ci L =
        Some (h\<lparr>cache_buf := Some (blit c m (take n (drop ci data))), cache_buf_len := m + n, binary_file_read := m + n\<rparr>, ci + n)"
    "img_state h = ESP_PRE_ENC_IMG_READ_IV \<Longrightarrow> L \<le> length (img_iv h) \<Longrightarrow>
      read_and_cache_data h data ci L =
        Some (h\<lparr>img_iv := blit (img_iv h) m (take n (drop ci data)), cache_buf_len := m + n, binary_file_read := m + n\<rparr>, ci + n)"
    "img_state h = ESP_PRE_ENC_IMG_READ_AUTH \<Longrightarrow> L \<le> length (auth_tag h) \<Longrightarrow>
      read_and_cache_data h data ci L =
        Some (h\<lparr>auth_tag := blit (auth_tag h) m (take n (drop ci data)), cache_buf_len := m + n, binary_file_read := m + n\<rparr>, ci + n)"
proof -
  have i: "min (int (length data) - int ci) (int L - int m) = int n" using assms(3,5) n by simp
  have s: "m + n < 2 ^ 32" "m + n \<le> L" "length (take n (drop ci data)) = n" using assms(3,4,5) n by simp_all
  show "read_and_cache_data h data ci L =
      Some (h\<lparr>cache_buf := Some (blit c m (take n (drop ci data))), cache_buf_len := m + n, binary_file_read := m + n\<rparr>, ci + n)"
    if "img_state h \<noteq> ESP_PRE_ENC_IMG_READ_IV" "img_state h \<noteq> ESP_PRE_ENC_IMG_READ_AUTH" "cache_buf h = Some c" "L \<le> length c"
    using that s assms(1,2) i by (simp add: read_and_cache_data_def memcpy_to_def)
  show "read_and_cache_data h data ci L =
        Some (h\<lparr>img_iv := blit (img_iv h) m (take n (drop ci data)), cache_buf_len := m + n, binary_file_read := m + n\<rparr>, ci + n)"
    if "img_state h = ESP_PRE_ENC_IMG_READ_IV" "L \<le> length (img_iv h)"
    using that s assms(1,2) i by (simp add: read_and_cache_data_def memcpy_to_def)
  show "read_and_cache_data h data ci L =
        Some (h\<lparr>auth_tag := blit (auth_tag h) m (take n (drop ci data)), cache_buf_len := m + n, binary_file_read := m + n\<rparr>, ci + n)"
    if "img_state h = ESP_PRE_ENC_IMG_READ_AUTH" "L \<le> length (auth_tag h)"
    using that s assms(1,2) i by (simp add: read_and_cache_data_def memcpy_to_def)
qed

lemma field_lengths:
  assumes "package_ok p"
  shows "length (enc_key p) = 384" "length (start_iv p) = 16" "length (img_tag p) = 16" "length (extra_header p) = 88"
    "0 < length (img_body p)" "length (img_body p) < 2 ^ 32"
  using assms by (simp_all add: package_ok_def img_sizes)

lemma fields_nonempty:
  assumes "package_ok p"
  shows "enc_key p \<noteq> []" "start_iv p \<noteq> []" "img_tag p \<noteq> []" "extra_header p \<noteq> []" "img_body p \<noteq> []" "le32 x \<noteq> []"
  using field_lengths [OF assms] by (auto simp: le32_def)

lemma later_fields_simps:
  "later_fields p ESP_PRE_ENC_IMG_READ_MAGIC = enc_key p @ later_fields p ESP_PRE_ENC_IMG_READ_GCM"
  "later_fields p ESP_PRE_ENC_IMG_READ_GCM = start_iv p @ later_fields p ESP_PRE_ENC_IMG_READ_IV"
  "later_fields p ESP_PRE_ENC_IMG_READ_IV = le32 (word_of_nat (length (img_body p))) @ later_fields p ESP_PRE_ENC_IMG_READ_BINSIZE"
  "later_fields p ESP_PRE_ENC_IMG_READ_BINSIZE = img_tag p @ later_fields p ESP_PRE_ENC_IMG_READ_AUTH"
  "later_fields p ESP_PRE_ENC_IMG_READ_AUTH = extra_header p @ later_fields p ESP_PRE_ENC_IMG_READ_EXTRA_HEADER"
  "later_fields p ESP_PRE_ENC_IMG_READ_EXTRA_HEADER = img_body p"
  "later_fields p ESP_PRE_ENC_DATA_DECODE_STATE = []"
  by (simp_all add: later_fields_def img_states_def)

lemma take_eq_append: "take (length f) b = f \<Longrightarrow> \<exists>r. b = f @ r"
  by (metis append_take_drop_id)

text \<open>The part of a field that is in the data: its bytes are cached, and the field is complete or all data is consumed.\<close>

lemma data_of_field:
  assumes "drop ci data @ z = drop m f @ t" "m < length f" "ci \<le> length data"
  shows "length data - ci < length f - m \<Longrightarrow>
      take (length data - ci) (drop ci data) = take (length data - ci) (drop m f) \<and> z = drop (m + (length data - ci)) f @ t"
    "length f - m \<le> length data - ci \<Longrightarrow>
      take (length f - m) (drop ci data) = drop m f \<and> drop (ci + (length f - m)) data @ z = t"
  using short_chunk [OF assms(1)] long_chunk [OF assms(1)] by (auto simp: add.commute)

lemma cache_field:
  assumes "drop ci data @ z = drop m f @ t" "m < length f" "ci \<le> length data" "take m b = take m f" "length f \<le> length b"
    and n: "n = min (length data - ci) (length f - m)"
  shows "length (blit b m (take n (drop ci data))) = length b"
    "m + n \<noteq> length f \<Longrightarrow> m + n < length f \<and> take (m + n) (blit b m (take n (drop ci data))) = take (m + n) f \<and> z = drop (m + n) f @ t"
    "m + n = length f \<Longrightarrow> take (length f) (blit b m (take n (drop ci data))) = f \<and> ci + n \<le> length data \<and> drop (ci + n) data @ z = t"
proof -
  have lc: "length (take n (drop ci data)) = n" "m + n \<le> length b" "m + n \<le> length f" using assms(2,5) n by simp_all
  then show "length (blit b m (take n (drop ci data))) = length b" by simp
  note data = data_of_field [OF assms(1-3)]
  show "m + n < length f \<and> take (m + n) (blit b m (take n (drop ci data))) = take (m + n) f \<and> z = drop (m + n) f @ t" if "m + n \<noteq> length f"
  proof -
    from that have "length data - ci < length f - m" "n = length data - ci" using n assms(2) by auto
    with data(1) that show ?thesis using cached_more [OF assms(4) lc(2,3)] lc(3) by simp
  qed
  show "take (length f) (blit b m (take n (drop ci data))) = f \<and> ci + n \<le> length data \<and> drop (ci + n) data @ z = t" if "m + n = length f"
  proof -
    from that have e: "length f - m \<le> length data - ci" "n = length f - m" using n assms(2) by auto
    with data(2) have "take n (drop ci data) = take n (drop m f)" "drop (ci + n) data @ z = t" by simp_all
    with cached_more [OF assms(4) lc(2,3)] that e(1) assms(3) show ?thesis by auto
  qed
qed

lemma complete_le32: "take 4 b = le32 x \<Longrightarrow> rd32 b = x"
  using take_eq_append [of "le32 x" b] by auto

section \<open>One lemma for each label\<close>

lemma step_magic:
  assumes "package_ok p" "awaits cr pem p key g0 h (data @ z) []" "img_state h = ESP_PRE_ENC_IMG_READ_MAGIC"
  shows "continues cr pem p key g0 data z ESP_PRE_ENC_IMG_READ_GCM (case_magic data h 0)"
proof -
  define m where "m = binary_file_read h"
  define f where "f = le32 esp_enc_img_magic"
  have lf: "length f = 4" by (simp add: f_def)
  note aw = assms(2) [unfolded awaits_def Let_def assms(3), simplified, folded m_def f_def, unfolded lf]
  obtain c where c: "cache_buf h = Some c" "length c = 384" using aw by (auto simp: img_sizes)
  have m: "m < 4" "cache_buf_len h = m" "take m c = take m f"
    and d: "drop 0 data @ z = drop m f @ later_fields p ESP_PRE_ENC_IMG_READ_MAGIC"
    and frame: "rsa_pem h = Some pem" "gcm_key h = replicate GCM_KEY_SIZE 0" "length (img_iv h) = IV_SIZE" "length (auth_tag h) = AUTH_SIZE"
    using aw c by auto
  define n where "n = min (length data - 0) (4 - m)"
  note field = cache_field [OF d, unfolded lf, OF m(1) _ m(3) _ n_def, simplified c(2), simplified]
  show ?thesis
  proof (cases "whole_field h data 0 MAGIC_SIZE")
    case True
    then have w: "m = 0" "n = 4" using m by (auto simp: whole_field_def img_sizes n_def)
    then have "rd32 data = esp_enc_img_magic" using data_of_field(2) [OF d, unfolded lf] True
      by (intro complete_le32) (simp add: whole_field_def img_sizes f_def)
    then show ?thesis using True w field(3) frame c assms(1,3) m
      by (simp add: case_magic_def continues_def awaits_def img_sizes later_fields_simps field_lengths fields_nonempty m_def)
  next
    case False
    have rc: "read_and_cache_data h data 0 MAGIC_SIZE =
        Some (h\<lparr>cache_buf := Some (blit c m (take n data)), cache_buf_len := m + n, binary_file_read := m + n\<rparr>, n)"
      using read_and_cache(1) [of h m 4 0 data n c] m c assms(3) by (simp add: img_sizes n_def m_def)
    show ?thesis
    proof (cases "m + n = 4")
      case True
      then have "rd32 (blit c m (take n data)) = esp_enc_img_magic" using field(3) by (intro complete_le32) (simp add: f_def)
      then show ?thesis using False rc True field(1,3) frame c assms(1)
        by (simp add: case_magic_def continues_def awaits_def img_sizes later_fields_simps field_lengths fields_nonempty)
    qed (use False rc field(1,2) frame c assms(3) in \<open>simp add: case_magic_def continues_def awaits_def img_sizes f_def\<close>)
  qed
qed

lemma step_gcm:
  assumes "package_ok p" "awaits cr pem p key g0 h (drop ci data @ z) []" "img_state h = ESP_PRE_ENC_IMG_READ_GCM" "ci \<le> length data"
    "pk_decipher cr pem (enc_key p) = Some key" "length key \<le> GCM_KEY_SIZE" "alloc 16"
  shows "continues cr pem p key g0 data z ESP_PRE_ENC_IMG_READ_IV (case_gcm cr alloc data h ci)"
proof -
  define m where "m = binary_file_read h"
  define f where "f = enc_key p"
  have lf: "length f = 384" using assms(1) by (simp add: f_def field_lengths)
  note aw = assms(2) [unfolded awaits_def Let_def assms(3), simplified, folded m_def f_def, unfolded lf]
  obtain c where c: "cache_buf h = Some c" "length c = 384" using aw by (auto simp: img_sizes)
  have m: "m < 384" "cache_buf_len h = m" "take m c = take m f" and d: "drop ci data @ z = drop m f @ later_fields p ESP_PRE_ENC_IMG_READ_GCM"
    and frame: "rsa_pem h = Some pem" "gcm_key h = replicate GCM_KEY_SIZE 0" "length (img_iv h) = IV_SIZE" "length (auth_tag h) = AUTH_SIZE"
    using aw c by auto
  have dec: "decipher_gcm_key cr alloc f h1 = Some (True, h1\<lparr>gcm_key := blit (replicate GCM_KEY_SIZE 0) 0 key,
        cache_buf := Some (realloc_buf 16 (cache_buf h1)), img_state := ESP_PRE_ENC_IMG_READ_IV, binary_file_read := 0,
        cache_buf_len := 0, rsa_pem := None\<rparr>)"
    if "rsa_pem h1 = Some pem" "gcm_key h1 = replicate GCM_KEY_SIZE 0" for h1 :: "'a enc_handle"
    using that assms(5-7) by (simp add: decipher_gcm_key_def memcpy_to_def f_def)
  define n where "n = min (length data - ci) (384 - m)"
  note field = cache_field [OF d, unfolded lf, OF m(1) assms(4) m(3) _ n_def, simplified c(2), simplified]
  show ?thesis
  proof (cases "whole_field h data ci ENC_GCM_KEY_SIZE")
    case True
    then have w: "m = 0" "n = 384" using m by (auto simp: whole_field_def img_sizes n_def)
    then have "take ENC_GCM_KEY_SIZE (drop ci data) = f" using data_of_field(2) [OF d, unfolded lf] assms(4) True
      by (simp add: whole_field_def img_sizes)
    then show ?thesis using True w field(3) dec [of h] frame c assms(1)
      by (simp add: case_gcm_def continues_def awaits_def img_sizes later_fields_simps field_lengths fields_nonempty realloc_buf_def)
  next
    case False
    let ?h1 = "h\<lparr>cache_buf := Some (blit c m (take n (drop ci data))), cache_buf_len := m + n, binary_file_read := m + n\<rparr>"
    have rc: "read_and_cache_data h data ci ENC_GCM_KEY_SIZE = Some (?h1, ci + n)"
      using read_and_cache(1) [of h m 384 ci data n c] m c assms(3,4) by (simp add: img_sizes n_def m_def)
    show ?thesis
    proof (cases "m + n = 384")
      case True
      then have "take ENC_GCM_KEY_SIZE (blit c m (take n (drop ci data))) = f" using field(3) by (simp add: img_sizes)
      then show ?thesis using False rc True field(1,3) dec [of ?h1] frame c assms(1)
        by (simp add: case_gcm_def continues_def awaits_def img_sizes later_fields_simps field_lengths fields_nonempty realloc_buf_def)
    qed (use False rc field(1,2) frame c lf assms(3) in \<open>simp add: case_gcm_def continues_def awaits_def img_sizes f_def\<close>)
  qed
qed

lemma step_iv:
  assumes "package_ok p" "awaits cr pem p key g0 h (drop ci data @ z) []" "img_state h = ESP_PRE_ENC_IMG_READ_IV" "ci \<le> length data"
    "gcm_starts cr (blit (replicate GCM_KEY_SIZE 0) 0 key) (start_iv p) = Some g0"
  shows "continues cr pem p key g0 data z ESP_PRE_ENC_IMG_READ_BINSIZE (case_iv cr data h ci)"
proof -
  define m where "m = binary_file_read h"
  define f where "f = start_iv p"
  have lf: "length f = 16" using assms(1) by (simp add: f_def field_lengths)
  note aw = assms(2) [unfolded awaits_def Let_def assms(3), simplified, folded m_def f_def, unfolded lf]
  obtain c where c: "cache_buf h = Some c" "length c = 16" using aw by auto
  have m: "m < 16" "cache_buf_len h = m" "take m (img_iv h) = take m f"
    and d: "drop ci data @ z = drop m f @ later_fields p ESP_PRE_ENC_IMG_READ_IV"
    and frame: "gcm_key h = blit (replicate GCM_KEY_SIZE 0) 0 key" "length (img_iv h) = 16" "length (auth_tag h) = AUTH_SIZE"
    using aw c by (auto simp: img_sizes)
  define n where "n = min (length data - ci) (16 - m)"
  note field = cache_field [OF d, unfolded lf, OF m(1) assms(4) m(3) _ n_def, simplified frame(2), simplified]
  define b where "b = blit (img_iv h) m (take n (drop ci data))"
  have rc: "(if whole_field h data ci IV_SIZE
        then map_option (\<lambda>b. (h\<lparr>img_iv := b, binary_file_read := IV_SIZE\<rparr>, ci + IV_SIZE)) (memcpy_to (img_iv h) 0 (take IV_SIZE (drop ci data)))
        else read_and_cache_data h data ci IV_SIZE) =
      Some (h\<lparr>img_iv := b, cache_buf_len := (if whole_field h data ci IV_SIZE then 0 else m + n), binary_file_read := m + n\<rparr>, ci + n)"
    using read_and_cache(2) [of h m 16 ci data n] m frame assms(3,4)
    by (auto simp: img_sizes n_def m_def b_def whole_field_def memcpy_to_def)
  show ?thesis
  proof (cases "m + n = 16")
    case True
    then have "b = f" using field(1,3) by (simp add: b_def)
    then show ?thesis using rc True field(3) frame c assms(1,5)
      by (simp add: case_iv_def continues_def awaits_def img_sizes later_fields_simps field_lengths fields_nonempty f_def)
  next
    case False
    moreover from this have "\<not> whole_field h data ci IV_SIZE" using m by (auto simp: whole_field_def img_sizes n_def)
    ultimately show ?thesis using rc field(1,2) frame c lf assms(3)
      by (simp add: case_iv_def continues_def awaits_def img_sizes f_def b_def)
  qed
qed

lemma step_binsize:
  assumes "package_ok p" "awaits cr pem p key g0 h (drop ci data @ z) []" "img_state h = ESP_PRE_ENC_IMG_READ_BINSIZE" "ci \<le> length data"
  shows "continues cr pem p key g0 data z ESP_PRE_ENC_IMG_READ_AUTH (case_binsize data h ci)"
proof -
  define m where "m = binary_file_read h"
  define f where "f = le32 (word_of_nat (length (img_body p)))"
  have lf: "length f = 4" by (simp add: f_def)
  have size: "unat (rd32 b) = length (img_body p)" if "take 4 b = f" for b
    using complete_le32 [of b] that field_lengths(6) [OF assms(1)] by (simp add: f_def unat_of_nat take_bit_nat_eq_self)
  note aw = assms(2) [unfolded awaits_def Let_def assms(3), simplified, folded m_def f_def, unfolded lf]
  obtain c where c: "cache_buf h = Some c" "length c = 16" using aw by auto
  have m: "m < 4" "cache_buf_len h = m" "take m c = take m f"
    and d: "drop ci data @ z = drop m f @ later_fields p ESP_PRE_ENC_IMG_READ_BINSIZE"
    and frame: "gcm_key h = blit (replicate GCM_KEY_SIZE 0) 0 key" "gcm_ctx h = Some g0" "length (img_iv h) = IV_SIZE" "length (auth_tag h) = AUTH_SIZE"
    using aw c by auto
  define n where "n = min (length data - ci) (4 - m)"
  note field = cache_field [OF d, unfolded lf, OF m(1) assms(4) m(3) _ n_def, simplified c(2), simplified]
  show ?thesis
  proof (cases "whole_field h data ci BIN_SIZE_DATA")
    case True
    then have w: "m = 0" "n = 4" using m by (auto simp: whole_field_def img_sizes n_def)
    then have "unat (rd32 (drop ci data)) = length (img_body p)" using data_of_field(2) [OF d, unfolded lf] assms(4) True
      by (intro size) (simp add: whole_field_def img_sizes)
    then show ?thesis using True w field(3) frame c assms(1)
      by (simp add: case_binsize_def continues_def awaits_def img_sizes later_fields_simps field_lengths fields_nonempty)
  next
    case False
    have rc: "read_and_cache_data h data ci BIN_SIZE_DATA =
        Some (h\<lparr>cache_buf := Some (blit c m (take n (drop ci data))), cache_buf_len := m + n, binary_file_read := m + n\<rparr>, ci + n)"
      using read_and_cache(1) [of h m 4 ci data n c] m c assms(3,4) by (simp add: img_sizes n_def m_def)
    show ?thesis
    proof (cases "m + n = 4")
      case True
      then show ?thesis using False rc field(1,3) size frame c assms(1)
        by (simp add: case_binsize_def continues_def awaits_def img_sizes later_fields_simps field_lengths fields_nonempty)
    qed (use False rc field(1,2) frame c lf assms(3) in \<open>simp add: case_binsize_def continues_def awaits_def img_sizes f_def\<close>)
  qed
qed

lemma step_auth:
  assumes "package_ok p" "awaits cr pem p key g0 h (drop ci data @ z) []" "img_state h = ESP_PRE_ENC_IMG_READ_AUTH" "ci \<le> length data"
  shows "continues cr pem p key g0 data z ESP_PRE_ENC_IMG_READ_EXTRA_HEADER (case_auth data h ci)"
proof -
  define m where "m = binary_file_read h"
  define f where "f = img_tag p"
  have lf: "length f = 16" using assms(1) by (simp add: f_def field_lengths)
  note aw = assms(2) [unfolded awaits_def Let_def assms(3), simplified, folded m_def f_def, unfolded lf]
  obtain c where c: "cache_buf h = Some c" "length c = 16" using aw by auto
  have m: "m < 16" "cache_buf_len h = m" "take m (auth_tag h) = take m f"
    and d: "drop ci data @ z = drop m f @ later_fields p ESP_PRE_ENC_IMG_READ_AUTH"
    and frame: "gcm_key h = blit (replicate GCM_KEY_SIZE 0) 0 key" "length (auth_tag h) = 16" "length (img_iv h) = IV_SIZE"
      "gcm_ctx h = Some g0" "binary_file_len h = length (img_body p)"
    using aw c by (auto simp: img_sizes)
  define n where "n = min (length data - ci) (16 - m)"
  note field = cache_field [OF d, unfolded lf, OF m(1) assms(4) m(3) _ n_def, simplified frame(2), simplified]
  define b where "b = blit (auth_tag h) m (take n (drop ci data))"
  have rc: "(if whole_field h data ci AUTH_SIZE
        then map_option (\<lambda>b. (h\<lparr>auth_tag := b, binary_file_read := AUTH_SIZE\<rparr>, ci + AUTH_SIZE)) (memcpy_to (auth_tag h) 0 (take AUTH_SIZE (drop ci data)))
        else read_and_cache_data h data ci AUTH_SIZE) =
      Some (h\<lparr>auth_tag := b, cache_buf_len := (if whole_field h data ci AUTH_SIZE then 0 else m + n), binary_file_read := m + n\<rparr>, ci + n)"
    using read_and_cache(3) [of h m 16 ci data n] m frame assms(3,4)
    by (auto simp: img_sizes n_def m_def b_def whole_field_def memcpy_to_def)
  show ?thesis
  proof (cases "m + n = 16")
    case True
    then have "b = f" using field(1,3) by (simp add: b_def)
    then show ?thesis using rc True field(3) frame c assms(1)
      by (simp add: case_auth_def continues_def awaits_def img_sizes later_fields_simps field_lengths fields_nonempty f_def)
  next
    case False
    moreover from this have "\<not> whole_field h data ci AUTH_SIZE" using m by (auto simp: whole_field_def img_sizes n_def)
    ultimately show ?thesis using rc field(1,2) frame c lf assms(3)
      by (simp add: case_auth_def continues_def awaits_def img_sizes f_def b_def)
  qed
qed

lemma step_extra:
  assumes "package_ok p" "gcm_streams cr" "awaits cr pem p key g0 h (drop ci data @ z) []"
    "img_state h = ESP_PRE_ENC_IMG_READ_EXTRA_HEADER" "ci \<le> length data"
  shows "continues cr pem p key g0 data z ESP_PRE_ENC_DATA_DECODE_STATE (case_extra data h ci)"
proof -
  define m where "m = binary_file_read h"
  have lf: "length (extra_header p) = 88" using assms(1) by (simp add: field_lengths)
  note aw = assms(3) [unfolded awaits_def Let_def assms(4), simplified, folded m_def, unfolded lf]
  obtain c where c: "cache_buf h = Some c" "length c = 16" using aw by auto
  have m: "m < 88" and d: "drop ci data @ z = drop m (extra_header p) @ later_fields p ESP_PRE_ENC_IMG_READ_EXTRA_HEADER"
    and frame: "gcm_key h = blit (replicate GCM_KEY_SIZE 0) 0 key" "auth_tag h = img_tag p" "length (img_iv h) = IV_SIZE"
      "gcm_ctx h = Some g0" "binary_file_len h = length (img_body p)" "cache_buf_len h = 0"
    using aw c by auto
  define n where "n = min (length data - ci) (88 - m)"
  note field = cache_field [OF d, unfolded lf, OF m assms(5) refl _ n_def, simplified lf, simplified]
  have nil: "gcm_update cr g0 [] = Some (g0, [])" using assms(2) by (simp add: gcm_streams_def)
  have r: "(m + n) mod 4294967296 = m + n" using m by (simp add: n_def)
  show ?thesis
  proof (cases "m + n = 88")
    case True
    then show ?thesis using r field(3) frame c assms(1) nil
      by (simp add: case_extra_def continues_def awaits_def img_sizes later_fields_simps field_lengths fields_nonempty m_def [symmetric] n_def [symmetric])
  qed (use r field(2) frame c lf assms(1,4) in
    \<open>simp add: case_extra_def continues_def awaits_def img_sizes field_lengths m_def [symmetric] n_def [symmetric]\<close>)
qed

lemma fall_through_next:
  assumes "continues cr pem p key g0 data z st (l data h ci)"
    "\<And>h1 ci1. ci1 \<le> length data \<Longrightarrow> img_state h1 = st \<Longrightarrow> awaits cr pem p key g0 h1 (drop ci1 data @ z) [] \<Longrightarrow>
      continues cr pem p key g0 data z ESP_PRE_ENC_DATA_DECODE_STATE (fall_through ls data h1 ci1)"
  shows "continues cr pem p key g0 data z ESP_PRE_ENC_DATA_DECODE_STATE (fall_through (l # ls) data h ci)"
proof -
  obtain r where r: "l data h ci = Some r" using assms(1) by (auto simp: continues_def split: option.splits)
  show ?thesis
  proof (cases r)
    case (Inr x)
    obtain h1 ci1 where "x = (h1, ci1)" by (cases x)
    then have "ci1 \<le> length data" "img_state h1 = st" "awaits cr pem p key g0 h1 (drop ci1 data @ z) []"
      using assms(1) r Inr by (simp_all add: continues_def)
    from assms(2) [OF this] show ?thesis using r Inr \<open>x = (h1, ci1)\<close> by simp
  qed (use assms(1) r in \<open>simp add: continues_def\<close>)
qed

text \<open>The labels from the current state on.\<close>

lemma header_read:
  assumes "package_ok p" "gcm_streams cr" "decrypts cr pem p key g0 gN plain" "alloc 16"
    and aw: "awaits cr pem p key g0 h (drop ci data @ z) []" "ci \<le> length data" "img_state h = ESP_PRE_ENC_IMG_READ_MAGIC \<Longrightarrow> ci = 0"
  shows "continues cr pem p key g0 data z ESP_PRE_ENC_DATA_DECODE_STATE
    (fall_through (drop (label_index (img_state h)) (header_labels cr alloc)) data h ci)"
proof -
  have crypto: "pk_decipher cr pem (enc_key p) = Some key" "length key \<le> GCM_KEY_SIZE"
    "gcm_starts cr (blit (replicate GCM_KEY_SIZE 0) 0 key) (start_iv p) = Some g0"
    using assms(3) by (simp_all add: decrypts_def)
  let ?go = "\<lambda>ls h ci. continues cr pem p key g0 data z ESP_PRE_ENC_DATA_DECODE_STATE (fall_through ls data h ci)"
  let ?at = "\<lambda>st h ci. ci \<le> length data \<and> img_state h = st \<and> awaits cr pem p key g0 h (drop ci data @ z) []"
  have data: "?go [] h ci" if "?at ESP_PRE_ENC_DATA_DECODE_STATE h ci" for h ci
    using that by (simp add: continues_def)
  have extra: "?go [case_extra] h ci" if "?at ESP_PRE_ENC_IMG_READ_EXTRA_HEADER h ci" for h ci
    by (rule fall_through_next, rule step_extra [OF assms(1,2)]; use that in \<open>simp add: data del: fall_through.simps\<close>)
  have auth: "?go [case_auth, case_extra] h ci" if "?at ESP_PRE_ENC_IMG_READ_AUTH h ci" for h ci
    by (rule fall_through_next, rule step_auth [OF assms(1)]; use that in \<open>simp add: extra del: fall_through.simps\<close>)
  have binsize: "?go [case_binsize, case_auth, case_extra] h ci" if "?at ESP_PRE_ENC_IMG_READ_BINSIZE h ci" for h ci
    by (rule fall_through_next, rule step_binsize [OF assms(1)]; use that in \<open>simp add: auth del: fall_through.simps\<close>)
  have iv: "?go [case_iv cr, case_binsize, case_auth, case_extra] h ci" if "?at ESP_PRE_ENC_IMG_READ_IV h ci" for h ci
    by (rule fall_through_next, rule step_iv [OF assms(1) _ _ _ crypto(3)]; use that in \<open>simp add: binsize del: fall_through.simps\<close>)
  have gcm: "?go [case_gcm cr alloc, case_iv cr, case_binsize, case_auth, case_extra] h ci" if "?at ESP_PRE_ENC_IMG_READ_GCM h ci" for h ci
    by (rule fall_through_next, rule step_gcm [where alloc = alloc, OF assms(1) _ _ _ crypto(1,2) assms(4)]; use that in \<open>simp add: iv del: fall_through.simps\<close>)
  have magic: "?go (header_labels cr alloc) h 0" if "?at ESP_PRE_ENC_IMG_READ_MAGIC h 0" for h
    unfolding header_labels_def by (rule fall_through_next, rule step_magic [OF assms(1)]; use that in \<open>simp add: gcm del: fall_through.simps\<close>)
  show ?thesis using aw magic gcm iv binsize auth extra data
    by (cases "img_state h") (simp_all add: header_labels_def eval_nat_numeral)
qed

section \<open>The body\<close>

definition out_bytes :: "bytes option \<Rightarrow> bytes" where
  "out_bytes out = (case out of None \<Rightarrow> [] | Some b \<Rightarrow> b)"

lemma out_bytes_simps [simp]: "out_bytes None = []" "out_bytes (Some b) = b"
  by (simp_all add: out_bytes_def)

definition delivered :: "decrypt_arg \<Rightarrow> bytes" where
  "delivered args = take (data_out_len args) (out_bytes (data_out args))"

lemma update_at_ok:
  assumes "gcm_ctx h = Some g" "gcm_update cr g input = Some (g2, o2)" "off + length o2 \<le> length b"
  shows "update_at cr h input (Some b) off = Some (Inr (h\<lparr>gcm_ctx := Some g2\<rparr>, Some (blit b off o2)))"
  using assms by (simp add: update_at_def memcpy_to_def)

lemma blocks_ok:
  assumes "gcm_streams cr" "gcm_update cr g0 body = Some (gN, plain)"
    and g: "gcm_ctx h = Some g" "gcm_update cr g0 (take q body) = Some (g, o1)" "q mod 16 = 0"
    and d: "drop (ci + cl) data @ z = drop q body" "ci + cl \<le> length data" "q \<le> length body" "r = length data - ci - cl"
    and c: "cache_buf h = Some c" "length c = 16"
    and out: "0 < r - r mod 16 \<Longrightarrow> \<exists>b. out = Some b \<and> length b = dl + (r - r mod 16)" "dl \<le> length (out_bytes out)"
  shows "\<exists>out1 c1 g1 o2. process_blocks cr h args data ci cl dl out =
      Some (ESP_ERR_NOT_FINISHED, args\<lparr>data_out := out1, data_out_len := dl + (r - r mod 16)\<rparr>,
        h\<lparr>cache_buf_len := r mod 16, cache_buf := Some c1, gcm_ctx := Some g1\<rparr>) \<and>
      take (dl + (r - r mod 16)) (out_bytes out1) = take dl (out_bytes out) @ o2 \<and> length c1 = 16 \<and>
      take (r mod 16) c1 = take (r mod 16) (drop (q + (r - r mod 16)) body) \<and>
      gcm_update cr g0 (take (q + (r - r mod 16)) body) = Some (g1, o1 @ o2)"
proof -
  define left w where "left = r mod 16" and "w = r - r mod 16"
  have lw: "left < 16" "r = w + left" "w mod 16 = 0" by (simp_all add: left_def w_def minus_mod_eq_mult_div)
  have qb: "q + r \<le> length body" using arg_cong [OF d(1), of length] d(2-4) by simp
  have dd: "drop (ci + cl) data = take r (drop q body)"
    using arg_cong [OF d(1), of "take r"] d(2,4) by simp
  define c1 where "c1 = (if left \<noteq> 0 then blit c 0 (take left (drop (length data - left) data)) else c)"
  have dl: "length data - left = (ci + cl) + w" using d(2,4) lw by simp
  have "drop (length data - left) data = drop w (drop (ci + cl) data)" by (simp add: dl add.commute)
  then have rest: "take left (drop (length data - left) data) = take left (drop (q + w) body)"
    by (simp add: dd drop_take lw(2) add.commute)
  then have c1: "length c1 = 16" "take left c1 = take left (drop (q + w) body)"
    using c(2) lw(1,2) qb by (auto simp: c1_def blit_def)
  have cache: "(if left \<noteq> 0 then Option.bind (cache_buf h) (\<lambda>c. map_option Some (memcpy_to c 0 (take left (drop (length data - left) data))))
      else Some (cache_buf h)) = Some (Some c1)"
    using c lw(1) d(2,4) lw(2) by (simp add: memcpy_to_def c1_def)
  have dlen: "length data - left - cl - ci = w" "dl + (length data - left) - ci - cl = dl + w" using dl by simp_all
  obtain g1 o2 where u: "gcm_update cr g (drop q (take (q + w) body)) = Some (g1, o2)" "length o2 = w"
    "gcm_update cr g0 (take (q + w) body) = Some (g1, o1 @ o2)"
    using update_extend [OF assms(1,2) g(2,3), of "q + w"] lw g(3) qb by (auto simp: mod_add_eq [symmetric])
  let ?h1 = "h\<lparr>cache_buf_len := left, cache_buf := Some c1\<rparr>"
  show ?thesis
  proof (cases "w = 0")
    case True
    have "process_blocks cr h args data ci cl dl out =
        Some (ESP_ERR_NOT_FINISHED, args\<lparr>data_out := out, data_out_len := dl + w\<rparr>, ?h1)"
      unfolding process_blocks_def Let_def d(4) [symmetric] left_def [symmetric] cache dlen by (simp add: True)
    moreover have "?h1 = ?h1\<lparr>gcm_ctx := Some g\<rparr>" using g(1) by simp
    moreover have "o2 = []" "g1 = g" using u g(2) True by simp_all
    ultimately show ?thesis unfolding w_def [symmetric] unfolding left_def [symmetric]
      by - (rule exI [of _ out], rule exI [of _ c1], rule exI [of _ g1], rule exI [of _ o2], use u c1 True in simp)
  next
    case False
    then obtain b where b: "out = Some b" "length b = dl + w" using out(1) by (auto simp: w_def)
    have "take w (drop (ci + cl) data) = drop q (take (q + w) body)" using lw by (simp add: dd min_def drop_take)
    then have "update_at cr ?h1 (take w (drop (ci + cl) data)) (Some b) dl = Some (Inr (?h1\<lparr>gcm_ctx := Some g1\<rparr>, Some (blit b dl o2)))"
      using u g(1) b by (intro update_at_ok) simp_all
    then have "process_blocks cr h args data ci cl dl out =
        Some (ESP_ERR_NOT_FINISHED, args\<lparr>data_out := Some (blit b dl o2), data_out_len := dl + w\<rparr>, ?h1\<lparr>gcm_ctx := Some g1\<rparr>)"
      unfolding process_blocks_def Let_def d(4) [symmetric] left_def [symmetric] cache dlen by (simp add: False b(1))
    then show ?thesis unfolding w_def [symmetric] unfolding left_def [symmetric]
      by - (rule exI [of _ "Some (blit b dl o2)"], rule exI [of _ c1], rule exI [of _ g1], rule exI [of _ o2], use u c1 b in \<open>simp add: blit_def\<close>)
  qed
qed

text \<open>The fields that the body leaves alone, and what the handle holds of the body.\<close>

definition body_frame :: "package \<Rightarrow> bytes \<Rightarrow> 'g enc_handle \<Rightarrow> bool" where
  "body_frame p key h \<longleftrightarrow> img_state h = ESP_PRE_ENC_DATA_DECODE_STATE \<and> length (img_iv h) = IV_SIZE \<and> length (auth_tag h) = AUTH_SIZE \<and>
     gcm_key h = blit (replicate GCM_KEY_SIZE 0) 0 key \<and> binary_file_len h = length (img_body p) \<and> auth_tag h = img_tag p"

definition body_holds :: "'g cipher \<Rightarrow> 'g \<Rightarrow> bytes \<Rightarrow> 'g enc_handle \<Rightarrow> nat \<Rightarrow> bytes \<Rightarrow> bytes \<Rightarrow> 'g \<Rightarrow> bool" where
  "body_holds cr g0 body h m out c g \<longleftrightarrow> binary_file_read h = m \<and> cache_buf h = Some c \<and> length c = 16 \<and> cache_buf_len h = m mod 16 \<and>
     take (m mod 16) c = take (m mod 16) (drop (m - m mod 16) body) \<and> gcm_ctx h = Some g \<and>
     gcm_update cr g0 (take (m - m mod 16) body) = Some (g, out)"

lemma awaits_body:
  "img_state h = ESP_PRE_ENC_DATA_DECODE_STATE \<Longrightarrow> awaits cr pem p key g0 h rest out \<longleftrightarrow>
    (\<exists>m c g. m < length (img_body p) \<and> rest = drop m (img_body p) \<and> body_frame p key h \<and> body_holds cr g0 (img_body p) h m out c g)"
  unfolding awaits_def body_frame_def body_holds_def Let_def
  by (auto simp: later_fields_simps drop_take)

lemma awaits_bodyI:
  assumes "body_frame p key h" "body_holds cr g0 (img_body p) h m out c g" "m < length (img_body p)"
  shows "awaits cr pem p key g0 h (drop m (img_body p)) out"
proof -
  have "img_state h = ESP_PRE_ENC_DATA_DECODE_STATE" using assms(1) by (simp add: body_frame_def)
  from awaits_body [OF this] assms show ?thesis by blast
qed

lemma body_frame_update [simp]:
  "body_frame p key (h\<lparr>cache_buf_len := n, cache_buf := b, gcm_ctx := g\<rparr>) = body_frame p key h"
  "body_frame p key (h\<lparr>binary_file_read := n\<rparr>) = body_frame p key h"
  "body_frame p key (h\<lparr>cache_buf_len := n\<rparr>) = body_frame p key h"
  "body_frame p key (h\<lparr>cache_buf := b\<rparr>) = body_frame p key h"
  "body_frame p key (h\<lparr>gcm_ctx := g\<rparr>) = body_frame p key h"
  by (simp_all add: body_frame_def)

text \<open>The cached block filled up with the next bytes of the body.\<close>

lemma filled_cache:
  assumes "cache_buf h = Some c" "length c = 16" "cache_buf_len h = m mod 16" "take (m mod 16) c = take (m mod 16) (drop (m - m mod 16) body)"
    and d: "drop ci data @ z = drop m body" "ci \<le> length data" "m \<le> length body"
    and n: "n = min (16 - m mod 16) (length data - ci)"
  shows "\<exists>c1. fill_cache data ci h = Some (n, h\<lparr>cache_buf := Some c1, cache_buf_len := m mod 16 + n\<rparr>) \<and> length c1 = 16 \<and>
    take (m mod 16 + n) c1 = take (m mod 16 + n) (drop (m - m mod 16) body)"
proof -
  define k where "k = m mod 16"
  have k: "k < 16" "k \<le> m" by (simp_all add: k_def)
  note assms = assms [folded k_def]
  have l: "length (take n (drop ci data)) = n" "k + n \<le> 16" using d(2) assms(8) k by simp_all
  have e: "take n (drop ci data) = take n (drop m body)" using arg_cong [OF d(1), of "take n"] d(2) assms(8) by simp
  have "drop m body = drop k (drop (m - k) body)" using k by simp
  then have t: "take (k + n) (drop (m - k) body) = take k (drop (m - k) body) @ take n (drop m body)" by (simp only: take_add)
  let ?c1 = "blit c k (take n (drop ci data))"
  have "length ?c1 = 16" "take (k + n) ?c1 = take k c @ take n (drop ci data)"
    using assms(2) l k(1) by (simp_all add: blit_def)
  then have "length ?c1 = 16" "take (k + n) ?c1 = take (k + n) (drop (m - k) body)" by (simp_all only: t e assms(4))
  moreover have "fill_cache data ci h = Some (n, h\<lparr>cache_buf := Some ?c1, cache_buf_len := k + n\<rparr>)"
    using assms(1-3) l assms(8) by (simp add: fill_cache_def memcpy_to_def Let_def)
  ultimately show ?thesis unfolding k_def [symmetric] by blast
qed

lemma realloc_length [simp]: "length (realloc_buf n b) = n"
  by (simp add: realloc_buf_def)

text \<open>Data before the end of the body: whole blocks are delivered.\<close>

lemma blocks_await:
  assumes "gcm_streams cr" "gcm_update cr g0 (img_body p) = Some (gN, plain)" "body_frame p key h" "binary_file_read h = m + r"
    and g: "gcm_ctx h = Some g" "gcm_update cr g0 (take q (img_body p)) = Some (g, o1)" "q mod 16 = 0" "q = m + cl"
    and d: "drop ci data @ z = drop m (img_body p)" "ci + cl \<le> length data" "r = length data - ci" "z \<noteq> []" "m < length (img_body p)"
    and c: "cache_buf h = Some c" "length c = 16"
    and out: "0 < r - cl - (r - cl) mod 16 \<Longrightarrow> \<exists>b. out = Some b \<and> length b = dl + (r - cl - (r - cl) mod 16)" "dl \<le> length (out_bytes out)"
  shows "\<exists>args1 h1 o2. process_blocks cr h args data ci cl dl out = Some (ESP_ERR_NOT_FINISHED, args1, h1) \<and>
      delivered args1 = take dl (out_bytes out) @ o2 \<and> awaits cr pem p key g0 h1 z (o1 @ o2)"
proof -
  have "m + r < length (img_body p)" using arg_cong [OF d(1), of length] d(3-5) by (cases z) auto
  then have m: "m + r < length (img_body p)" "q \<le> length (img_body p)" using d(2,3) g(4) by simp_all
  have dd: "drop (ci + cl) data @ z = drop q (img_body p)"
    using arg_cong [OF d(1), of "drop cl"] d(2) g(4) by (simp add: add.commute)
  have r: "r - cl = length data - ci - cl" using d(3) by simp
  obtain out1 c1 g1 o2 where b: "process_blocks cr h args data ci cl dl out =
      Some (ESP_ERR_NOT_FINISHED, args\<lparr>data_out := out1, data_out_len := dl + (r - cl - (r - cl) mod 16)\<rparr>,
        h\<lparr>cache_buf_len := (r - cl) mod 16, cache_buf := Some c1, gcm_ctx := Some g1\<rparr>)"
      "take (dl + (r - cl - (r - cl) mod 16)) (out_bytes out1) = take dl (out_bytes out) @ o2" "length c1 = 16"
      "take ((r - cl) mod 16) c1 = take ((r - cl) mod 16) (drop (q + (r - cl - (r - cl) mod 16)) (img_body p))"
      "gcm_update cr g0 (take (q + (r - cl - (r - cl) mod 16)) (img_body p)) = Some (g1, o1 @ o2)"
    using blocks_ok [OF assms(1,2) g(1-3) dd d(2) m(2) r c out] by blast
  have "m + r = q + (r - cl)" using d(2,3) g(4) by simp
  then have "(m + r) mod 16 = (r - cl) mod 16" using g(3) mod_add_left_eq [of q 16 "r - cl"] by simp
  moreover from this have "m + r - (m + r) mod 16 = q + (r - cl - (r - cl) mod 16)" using \<open>m + r = q + (r - cl)\<close> mod_less_eq_dividend [of "r - cl" 16] by linarith
  moreover have "z = drop (m + r) (img_body p)"
    using arg_cong [OF d(1), of "drop r"] d(3) by (simp add: add.commute)
  ultimately have w: "(m + r) mod 16 = (r - cl) mod 16" "m + r - (r - cl) mod 16 = q + (r - cl - (r - cl) mod 16)" "z = drop (m + r) (img_body p)"
    by simp_all
  let ?h1 = "h\<lparr>cache_buf_len := (r - cl) mod 16, cache_buf := Some c1, gcm_ctx := Some g1\<rparr>"
  have "body_holds cr g0 (img_body p) ?h1 (m + r) (o1 @ o2) c1 g1"
    unfolding body_holds_def w using b(3-5) assms(4) by simp
  then have "awaits cr pem p key g0 ?h1 z (o1 @ o2)" unfolding w(3) using assms(3) m(1) by (intro awaits_bodyI) simp_all
  moreover have "delivered (args\<lparr>data_out := out1, data_out_len := dl + (r - cl - (r - cl) mod 16)\<rparr>) = take dl (out_bytes out) @ o2"
    unfolding delivered_def using b(2) by simp
  ultimately show ?thesis using b(1) by blast
qed

lemma process_bin_before_end:
  assumes "binary_file_read h0 = m" "r = length data - ci" "(m + r) mod 2 ^ 32 = m + r" "m + r \<noteq> binary_file_len h0" "\<forall>n. alloc n"
    "cache_buf_len h0 = k" "full = k + r - (k + r) mod 16" "h1 = h0\<lparr>binary_file_read := m + r\<rparr>"
    "outb = (if full > 0 then Some (realloc_buf full (data_out args)) else data_out args)"
  shows "process_bin cr alloc h0 args data ci =
    (if k \<noteq> 0 then
       Option.bind (fill_cache data ci h1) (\<lambda>(copy_len, h1).
         if cache_buf_len h1 \<noteq> 16 then Some (ESP_ERR_NOT_FINISHED, args\<lparr>data_out := outb, data_out_len := 0\<rparr>, h1)
         else
           Option.bind (Option.bind (cache_buf h1) (\<lambda>c. update_at cr h1 (take 16 c) outb 0)) (\<lambda>r.
             case r of Inl _ \<Rightarrow> Some (ESP_FAIL, args\<lparr>data_out := outb\<rparr>, h1)
             | Inr (h2, out1) \<Rightarrow> process_blocks cr h2 args data ci copy_len 16 out1))
     else process_blocks cr h1 args data ci 0 0 outb)"
proof -
  have "binary_file_len h1 = binary_file_len h0" "cache_buf_len h1 = k" "binary_file_read h1 = m + r" using assms(6,8) by simp_all
  then show ?thesis
    unfolding process_bin_def Let_def assms(1) assms(2) [symmetric] assms(3) assms(8) [symmetric]
    using assms(4,5) by (simp only: assms(9) assms(7) simp_thms if_True if_False)
qed

lemma body_step:
  assumes "package_ok p" "gcm_streams cr" "gcm_update cr g0 (img_body p) = Some (gN, plain)" "\<forall>n. alloc n"
    and aw: "awaits cr pem p key g0 h (drop ci data @ z) out" "img_state h = ESP_PRE_ENC_DATA_DECODE_STATE" "ci \<le> length data" "z \<noteq> []"
  shows "\<exists>args1 h1. process_bin cr alloc h args data ci = Some (ESP_ERR_NOT_FINISHED, args1, h1) \<and>
    awaits cr pem p key g0 h1 z (out @ delivered args1)"
proof -
  obtain m c g where m: "m < length (img_body p)" "drop ci data @ z = drop m (img_body p)" "body_frame p key h"
    and holds: "binary_file_read h = m" "cache_buf h = Some c" "length c = 16" "cache_buf_len h = m mod 16"
      "take (m mod 16) c = take (m mod 16) (drop (m - m mod 16) (img_body p))" "gcm_ctx h = Some g"
      "gcm_update cr g0 (take (m - m mod 16) (img_body p)) = Some (g, out)"
    using aw(1) awaits_body [OF aw(2)] unfolding body_holds_def by blast
  define k r where "k = m mod 16" and "r = length data - ci"
  note holds = holds [folded k_def]
  have k: "k < 16" "k \<le> m" "(m - k) mod 16 = 0" by (simp_all add: k_def minus_mod_eq_mult_div)
  have mr: "m + r < length (img_body p)" using arg_cong [OF m(2), of length] aw(4) m(1) by (cases z) (auto simp: r_def)
  then have read: "(m + r) mod 2 ^ 32 = m + r" "m + r \<noteq> length (img_body p)" using field_lengths(6) [OF assms(1)] by simp_all
  define full where "full = k + r - (k + r) mod 16"
  define outb where "outb = (if full > 0 then Some (realloc_buf full (data_out args)) else data_out args)"
  define h0 where "h0 = h\<lparr>binary_file_read := m + r\<rparr>"
  have fr: "body_frame p key h0" using m(3) by (simp add: h0_def)
  then have len: "binary_file_len h0 = length (img_body p)" by (simp add: body_frame_def)
  have h0: "cache_buf h0 = Some c" "cache_buf_len h0 = k" "gcm_ctx h0 = Some g" "binary_file_read h0 = m + r" using holds by (simp_all add: h0_def)
  have "binary_file_len h = length (img_body p)" using len by (simp add: h0_def)
  note pb0 = process_bin_before_end [OF holds(1) r_def read(1) _ assms(4) holds(4) full_def h0_def outb_def, unfolded this, OF read(2), of cr]
  show ?thesis
  proof (cases "k = 0")
    case True
    have pb: "process_bin cr alloc h args data ci = process_blocks cr h0 args data ci 0 0 outb"
      using pb0 True by simp
    have "gcm_update cr g0 (take m (img_body p)) = Some (g, out)" "m mod 16 = 0" using holds(7) k(3) True by simp_all
    moreover have "\<exists>b. outb = Some b \<and> length b = 0 + (r - 0 - (r - 0) mod 16)" if "0 < r - 0 - (r - 0) mod 16"
      using that True by (simp add: outb_def full_def)
    ultimately obtain args1 h1 o2 where "process_blocks cr h0 args data ci 0 0 outb = Some (ESP_ERR_NOT_FINISHED, args1, h1)"
      "delivered args1 = take 0 (out_bytes outb) @ o2" "awaits cr pem p key g0 h1 z (out @ o2)"
      using blocks_await [OF assms(2,3) fr h0(4,3), of m out 0 ci data z c outb 0 args pem] m(1,2) aw(3,4) h0(1) holds(3) r_def by auto
    then show ?thesis using pb by simp
  next
    case False
    obtain n c1 where n: "n = min (16 - k) r" and fc: "fill_cache data ci h0 = Some (n, h0\<lparr>cache_buf := Some c1, cache_buf_len := k + n\<rparr>)"
      "length c1 = 16" "take (k + n) c1 = take (k + n) (drop (m - k) (img_body p))"
      using filled_cache [of h0 c m "img_body p" ci data z] h0 holds m(1,2) aw(3) unfolding k_def r_def by auto
    let ?h1 = "h0\<lparr>cache_buf := Some c1, cache_buf_len := k + n\<rparr>"
    have pb: "process_bin cr alloc h args data ci =
        (if k + n \<noteq> 16 then Some (ESP_ERR_NOT_FINISHED, args\<lparr>data_out := outb, data_out_len := 0\<rparr>, ?h1)
         else Option.bind (update_at cr ?h1 (take 16 c1) outb 0) (\<lambda>r.
           case r of Inl _ \<Rightarrow> Some (ESP_FAIL, args\<lparr>data_out := outb\<rparr>, ?h1)
           | Inr (h2, out1) \<Rightarrow> process_blocks cr h2 args data ci n 16 out1))"
      using pb0 False fc(1) by (cases "k + n = 16") simp_all
    show ?thesis
    proof (cases "k + n = 16")
      case short: False
      then have s: "n = r" "k + r < 16" using n k(1) by auto
      have "(m + r) mod 16 = (k + r) mod 16" by (simp only: k_def mod_add_left_eq)
      then have e: "(m + r) mod 16 = k + r" "m + r - (k + r) = m - k" "z = drop (m + r) (img_body p)"
        using s(2) k(2) arg_cong [OF m(2), of "drop r"] by (simp_all add: r_def add.commute)
      have "body_holds cr g0 (img_body p) ?h1 (m + r) out c1 g"
        unfolding body_holds_def e(1,2) using fc(2,3) h0(3,4) holds(7) s(1) by simp
      then have "awaits cr pem p key g0 ?h1 z out" unfolding e(3) using fr mr by (intro awaits_bodyI) simp_all
      then show ?thesis using pb short by (simp add: delivered_def)
    next
      case whole: True
      have q: "m - k + 16 = m + n" "n \<le> r" using whole k(2) n by simp_all
      have q0: "(m + n) mod 16 = 0" unfolding q(1) [symmetric] using k(3) by simp
      have c16: "take 16 c1 = drop (m - k) (take (m + n) (img_body p))"
        using fc(3) unfolding whole take_drop q(1) [symmetric] by (simp only: add.commute)
      obtain g1 o2 where u: "gcm_update cr g (drop (m - k) (take (m + n) (img_body p))) = Some (g1, o2)" "length o2 = 16"
        "gcm_update cr g0 (take (m + n) (img_body p)) = Some (g1, out @ o2)"
        using update_extend [OF assms(2,3) holds(7) k(3), of "m + n"] q q0 mr k(2) by auto
      have "full = 16 + (r - n - (r - n) mod 16)"
      proof -
        have e: "k + r = 16 + (r - n)" using whole q(2) by simp
        have "(16 + (r - n)) mod 16 = (r - n) mod 16" by simp
        then show ?thesis unfolding full_def e using mod_less_eq_dividend [of "r - n" 16] by linarith
      qed
      then have ob: "outb = Some (realloc_buf full (data_out args))" "full = 16 + (r - n - (r - n) mod 16)" by (simp_all add: outb_def)
      have ua: "update_at cr ?h1 (take 16 c1) outb 0 =
          Some (Inr (?h1\<lparr>gcm_ctx := Some g1\<rparr>, Some (blit (realloc_buf full (data_out args)) 0 o2)))"
        unfolding ob(1) c16 using h0(3) u(1,2) ob(2) by (intro update_at_ok) simp_all
      define ob1 where "ob1 = blit (realloc_buf full (data_out args)) 0 o2"
      have ob1: "take 16 ob1 = o2" "length ob1 = 16 + (r - n - (r - n) mod 16)" "16 \<le> length ob1"
        using u(2) ob(2) by (simp_all add: ob1_def blit_def)
      have "\<exists>args1 h1 o3. process_blocks cr (?h1\<lparr>gcm_ctx := Some g1\<rparr>) args data ci n 16 (Some ob1) = Some (ESP_ERR_NOT_FINISHED, args1, h1) \<and>
          delivered args1 = take 16 (out_bytes (Some ob1)) @ o3 \<and> awaits cr pem p key g0 h1 z ((out @ o2) @ o3)"
      proof (rule blocks_await [OF assms(2,3) _ _ _ u(3) q0 refl m(2) _ r_def aw(4) m(1)])
        show "ci + n \<le> length data" using q(2) aw(3) by (simp add: r_def)
      qed (use fr h0(4) fc(2) ob1(2,3) in simp_all)
      then show ?thesis using pb ua whole ob1(1) unfolding ob1_def [symmetric] by fastforce
    qed
  qed
qed

lemma process_bin_at_end:
  assumes "binary_file_read h0 = m" "r = length data - ci" "(m + r) mod 2 ^ 32 = m + r" "m + r = binary_file_len h0" "\<forall>n. alloc n"
    "h1 = h0\<lparr>binary_file_read := m + r\<rparr>" "out = Some (realloc_buf (cache_buf_len h0 + r) (data_out args))"
    and fill: "fill_cache data ci h1 = Some (n, h2)" "cache_buf h2 = Some c" "cache_buf_len h2 = k"
    and first: "update_at cr h2 (take k c) out 0 = Some (Inr (h3, out1))"
    and rest: "(if r - n > 0 then update_at cr h3 (take (r - n) (drop (ci + n) data)) out1 16 else Some (Inr (h3, out1))) = Some (Inr (h4, out2))"
    and keep: "cache_buf_len h4 = k"
  shows "process_bin cr alloc h0 args data ci =
    Some (ESP_OK, args\<lparr>data_out := out2, data_out_len := k + length data - n - ci\<rparr>, h4\<lparr>cache_buf_len := 0\<rparr>)"
proof -
  have "binary_file_len h1 = binary_file_len h0" "cache_buf_len h1 = cache_buf_len h0" "binary_file_read h1 = m + r" using assms(6) by simp_all
  then show ?thesis
    unfolding process_bin_def Let_def assms(1) assms(2) [symmetric] assms(3) assms(6) [symmetric]
    using assms(4,5) first rest keep by (simp add: fill flip: assms(7))
qed

lemma body_end:
  assumes "package_ok p" "gcm_streams cr" "gcm_update cr g0 (img_body p) = Some (gN, plain)" "\<forall>n. alloc n"
    and aw: "awaits cr pem p key g0 h (drop ci data) out" "img_state h = ESP_PRE_ENC_DATA_DECODE_STATE" "ci \<le> length data"
  shows "\<exists>args1 h1. process_bin cr alloc h args data ci = Some (ESP_OK, args1, h1) \<and> out @ delivered args1 = plain \<and>
    body_frame p key h1 \<and> binary_file_read h1 = length (img_body p) \<and> cache_buf_len h1 = 0 \<and> gcm_ctx h1 = Some gN"
proof -
  obtain m c g where m: "m < length (img_body p)" "drop ci data = drop m (img_body p)" "body_frame p key h"
    and holds: "binary_file_read h = m" "cache_buf h = Some c" "length c = 16" "cache_buf_len h = m mod 16"
      "take (m mod 16) c = take (m mod 16) (drop (m - m mod 16) (img_body p))" "gcm_ctx h = Some g"
      "gcm_update cr g0 (take (m - m mod 16) (img_body p)) = Some (g, out)"
    using aw(1) awaits_body [OF aw(2)] unfolding body_holds_def by blast
  define k r where "k = m mod 16" and "r = length data - ci"
  note holds = holds [folded k_def]
  have k: "k < 16" "k \<le> m" "(m - k) mod 16 = 0" by (simp_all add: k_def minus_mod_eq_mult_div)
  have mr: "m + r = length (img_body p)" "0 < r" using arg_cong [OF m(2), of length] m(1) by (simp_all add: r_def)
  then have read: "(m + r) mod 2 ^ 32 = m + r" using field_lengths(6) [OF assms(1)] by simp
  define h0 where "h0 = h\<lparr>binary_file_read := m + r\<rparr>"
  have h0: "cache_buf h0 = Some c" "cache_buf_len h0 = k" "gcm_ctx h0 = Some g" "body_frame p key h0" using holds m(3) by (simp_all add: h0_def)
  have len: "m + r = binary_file_len h" using m(3) mr by (simp add: body_frame_def)
  have "drop ci data @ [] = drop m (img_body p)" using m(2) by simp
  from filled_cache [of h0 c m "img_body p" ci data "[]" "min (16 - k) r", OF h0(1) holds(3) _ _ this aw(3)] h0(2) holds(5) m(1)
  obtain n c1 where n: "n = min (16 - k) r" and fc: "fill_cache data ci h0 = Some (n, h0\<lparr>cache_buf := Some c1, cache_buf_len := k + n\<rparr>)"
      "length c1 = 16" "take (k + n) c1 = take (k + n) (drop (m - k) (img_body p))"
    unfolding k_def r_def by auto
  define q where "q = m + n"
  have q: "m - k \<le> q" "q \<le> length (img_body p)" "q = m - k + (k + n)" "q - (m - k) = k + n" using n k(2) mr by (simp_all add: q_def)
  have al: "q mod 16 = 0 \<or> q = length (img_body p)"
  proof (cases "n = r")
    case False
    then have "k + n = 16" using n k(1) by (simp add: min_def split: if_splits)
    then have "q = m - k + 16" using q(3) by simp
    then show ?thesis using k(3) by simp
  qed (use mr q_def in simp)
  have first_in: "take (k + n) c1 = drop (m - k) (take q (img_body p))"
    unfolding fc(3) take_drop q(3) by (simp only: add.commute)
  obtain g1 o1 where u: "gcm_update cr g (drop (m - k) (take q (img_body p))) = Some (g1, o1)" "length o1 = k + n"
    "gcm_update cr g0 (take q (img_body p)) = Some (g1, out @ o1)"
    using update_extend [OF assms(2,3) holds(7) k(3) q(1,2) al] q(4) by auto
  let ?h2 = "h0\<lparr>cache_buf := Some c1, cache_buf_len := k + n\<rparr>" and ?b = "realloc_buf (k + r) (data_out args)"
  have kn: "k + n \<le> k + r" using n by simp
  have first: "update_at cr ?h2 (take (k + n) c1) (Some ?b) 0 = Some (Inr (?h2\<lparr>gcm_ctx := Some g1\<rparr>, Some (blit ?b 0 o1)))"
    unfolding first_in using h0(3) u(1,2) kn by (intro update_at_ok) simp_all
  define b1 where "b1 = blit ?b 0 o1"
  have b1: "length b1 = k + r" "take (k + n) b1 = o1" using u(2) kn by (simp_all add: b1_def blit_def)
  have "\<exists>b2. (if r - n > 0 then update_at cr (?h2\<lparr>gcm_ctx := Some g1\<rparr>) (take (r - n) (drop (ci + n) data)) (Some b1) 16
      else Some (Inr (?h2\<lparr>gcm_ctx := Some g1\<rparr>, Some b1))) = Some (Inr (?h2\<lparr>gcm_ctx := Some gN\<rparr>, Some b2)) \<and> out @ take (k + r) b2 = plain"
  proof (cases "r - n > 0")
    case True
    then have s: "k + n = 16" "q mod 16 = 0" "n < r" using n k(1,3) q(3) by (auto simp: min_def split: if_splits)
    have "gcm_update cr g0 (take (length (img_body p)) (img_body p)) = Some (gN, plain)" using assms(3) by simp
    then obtain o2 where o2: "gcm_update cr g1 (drop q (img_body p)) = Some (gN, o2)" "length o2 = r - n" "plain = (out @ o1) @ o2"
      using update_extend [OF assms(2,3) u(3) s(2) q(2) order.refl] mr q_def by auto
    have "drop (ci + n) data = drop q (img_body p)" using arg_cong [OF m(2), of "drop n"] by (simp add: q_def add.commute)
    then have "take (r - n) (drop (ci + n) data) = drop q (img_body p)" using mr q_def by simp
    moreover have "update_at cr (?h2\<lparr>gcm_ctx := Some g1\<rparr>) (drop q (img_body p)) (Some b1) 16 =
        Some (Inr (?h2\<lparr>gcm_ctx := Some g1\<rparr>\<lparr>gcm_ctx := Some gN\<rparr>, Some (blit b1 16 o2)))"
      using o2(1,2) b1(1) s by (intro update_at_ok) simp_all
    moreover have "take (k + r) (blit b1 16 o2) = o1 @ o2" using o2(2) b1 u(2) s by (simp add: blit_def)
    ultimately show ?thesis using True o2(3) by simp
  next
    case False
    then have "n = r" using n by simp
    then have "q = length (img_body p)" using mr q_def by simp
    then show ?thesis using u(3) assms(3) b1 False \<open>n = r\<close> by simp
  qed
  then obtain b2 where b2: "(if r - n > 0 then update_at cr (?h2\<lparr>gcm_ctx := Some g1\<rparr>) (take (r - n) (drop (ci + n) data)) (Some b1) 16
      else Some (Inr (?h2\<lparr>gcm_ctx := Some g1\<rparr>, Some b1))) = Some (Inr (?h2\<lparr>gcm_ctx := Some gN\<rparr>, Some b2))" "out @ take (k + r) b2 = plain"
    by blast
  have room: "Some ?b = Some (realloc_buf (cache_buf_len h + r) (data_out args))" using holds(4) by simp
  have pb: "process_bin cr alloc h args data ci =
      Some (ESP_OK, args\<lparr>data_out := Some b2, data_out_len := k + n + length data - n - ci\<rparr>, ?h2\<lparr>gcm_ctx := Some gN\<rparr>\<lparr>cache_buf_len := 0\<rparr>)"
    by (rule process_bin_at_end [OF holds(1) r_def read len assms(4) h0_def room fc(1) _ _ first [folded b1_def] b2(1)])
      simp_all
  have "k + n + length data - n - ci = k + r" using aw(3) r_def by simp
  moreover have "binary_file_read h0 = length (img_body p)" using mr by (simp add: h0_def)
  ultimately show ?thesis using pb b2(2) h0(4) by (simp add: delivered_def)
qed

section \<open>A whole image\<close>

lemma awaits_nonempty: "awaits cr pem p key g0 h rest out \<Longrightarrow> rest \<noteq> []"
  by (auto simp: awaits_def Let_def)

lemma awaits_header_out:
  "awaits cr pem p key g0 h rest out \<Longrightarrow> img_state h \<noteq> ESP_PRE_ENC_DATA_DECODE_STATE \<Longrightarrow> out = []"
  by (cases "img_state h") (auto simp: awaits_def Let_def)

text \<open>The caller: every chunk is passed with no buffer, and the output is put together.\<close>

fun decrypt_chunks ::
  "'g cipher \<Rightarrow> (nat \<Rightarrow> bool) \<Rightarrow> 'g enc_handle option \<Rightarrow> bytes list \<Rightarrow> (esp_err list \<times> bytes \<times> 'g enc_handle option) option" where
  "decrypt_chunks cr alloc ctx [] = Some ([], [], ctx)"
| "decrypt_chunks cr alloc ctx (c # cs) =
     Option.bind (esp_encrypted_img_decrypt_data cr alloc ctx \<lparr>data_in = Some c, data_out = None, data_out_len = 0\<rparr>) (\<lambda>(err, args, ctx1).
       map_option (\<lambda>(errs, out, ctx2). (err # errs, delivered args @ out, ctx2)) (decrypt_chunks cr alloc ctx1 cs))"

lemma to_the_body:
  assumes "package_ok p" "gcm_streams cr" "decrypts cr pem p key g0 gN plain" "\<forall>n. alloc n"
    and aw: "awaits cr pem p key g0 h (c @ z) out"
  shows "(\<exists>h1. fall_through (drop (label_index (img_state h)) (header_labels cr alloc)) c h 0 = Some (Inl (ESP_ERR_NOT_FINISHED, h1)) \<and>
        out = [] \<and> awaits cr pem p key g0 h1 z []) \<or>
    (\<exists>h1 ci. fall_through (drop (label_index (img_state h)) (header_labels cr alloc)) c h 0 = Some (Inr (h1, ci)) \<and>
        ci \<le> length c \<and> img_state h1 = ESP_PRE_ENC_DATA_DECODE_STATE \<and> awaits cr pem p key g0 h1 (drop ci c @ z) out)"
proof (cases "img_state h = ESP_PRE_ENC_DATA_DECODE_STATE")
  case False
  from awaits_header_out [OF aw this] have out: "out = []" .
  have "awaits cr pem p key g0 h (drop 0 c @ z) []" using aw out by simp
  from header_read [OF assms(1-3) _ this, of alloc] assms(4) show ?thesis
    unfolding continues_def out by (auto split: option.splits sum.splits)
qed (use aw in \<open>simp add: header_labels_def\<close>)

lemma chunk_step:
  assumes "package_ok p" "gcm_streams cr" "decrypts cr pem p key g0 gN plain" "\<forall>n. alloc n"
    and aw: "awaits cr pem p key g0 h (c @ z) out"
    and a: "args = \<lparr>data_in = Some c, data_out = None, data_out_len = 0\<rparr>"
  shows "z \<noteq> [] \<Longrightarrow> \<exists>args1 h1. esp_encrypted_img_decrypt_data cr alloc (Some h) args = Some (ESP_ERR_NOT_FINISHED, args1, Some h1) \<and>
      awaits cr pem p key g0 h1 z (out @ delivered args1)"
    "z = [] \<Longrightarrow> \<exists>args1 h1. esp_encrypted_img_decrypt_data cr alloc (Some h) args = Some (ESP_OK, args1, Some h1) \<and>
      out @ delivered args1 = plain \<and> body_frame p key h1 \<and> binary_file_read h1 = length (img_body p) \<and> cache_buf_len h1 = 0 \<and> gcm_ctx h1 = Some gN"
proof -
  have up: "gcm_update cr g0 (img_body p) = Some (gN, plain)" using assms(3) by (simp add: decrypts_def)
  note body = to_the_body [OF assms(1-4) aw]
  have dd: "esp_encrypted_img_decrypt_data cr alloc (Some h) args =
      Option.bind (fall_through (drop (label_index (img_state h)) (header_labels cr alloc)) c h 0) (\<lambda>r.
            case r of Inl (err, h1) \<Rightarrow> Some (err, args, Some h1)
            | Inr (h1, ci) \<Rightarrow> map_option (\<lambda>(err, args1, h2). (err, args1, Some h2)) (process_bin cr alloc h1 args c ci))"
    unfolding esp_encrypted_img_decrypt_data_def a by simp
  have d0: "delivered args = []" by (simp add: delivered_def a)
  show "\<exists>args1 h1. esp_encrypted_img_decrypt_data cr alloc (Some h) args = Some (ESP_ERR_NOT_FINISHED, args1, Some h1) \<and>
      awaits cr pem p key g0 h1 z (out @ delivered args1)" if "z \<noteq> []"
    using body
  proof (elim disjE exE conjE)
    fix h1 ci assume "fall_through (drop (label_index (img_state h)) (header_labels cr alloc)) c h 0 = Some (Inr (h1, ci))"
      "ci \<le> length c" "img_state h1 = ESP_PRE_ENC_DATA_DECODE_STATE" "awaits cr pem p key g0 h1 (drop ci c @ z) out"
    with body_step [OF assms(1,2) up assms(4) this(4,3,2) that, of args] show ?thesis by (auto simp: dd)
  qed (simp add: dd d0)
  show "\<exists>args1 h1. esp_encrypted_img_decrypt_data cr alloc (Some h) args = Some (ESP_OK, args1, Some h1) \<and>
      out @ delivered args1 = plain \<and> body_frame p key h1 \<and> binary_file_read h1 = length (img_body p) \<and> cache_buf_len h1 = 0 \<and> gcm_ctx h1 = Some gN"
    if "z = []"
    using body
  proof (elim disjE exE conjE)
    fix h1 ci assume "fall_through (drop (label_index (img_state h)) (header_labels cr alloc)) c h 0 = Some (Inr (h1, ci))"
      "ci \<le> length c" "img_state h1 = ESP_PRE_ENC_DATA_DECODE_STATE" "awaits cr pem p key g0 h1 (drop ci c @ z) out"
    with body_end [OF assms(1,2) up assms(4), of pem key h1 ci c out args] that show ?thesis by (auto simp: dd)
  next
    fix h1 assume "awaits cr pem p key g0 h1 z []"
    with awaits_nonempty [OF this] that show ?thesis by simp
  qed
qed

lemma chunks_before_end:
  assumes "package_ok p" "gcm_streams cr" "decrypts cr pem p key g0 gN plain" "\<forall>n. alloc n"
    "awaits cr pem p key g0 h (concat cs @ z) out" "z \<noteq> []"
  shows "\<exists>out1 h1. decrypt_chunks cr alloc (Some h) cs = Some (replicate (length cs) ESP_ERR_NOT_FINISHED, out1, Some h1) \<and>
    awaits cr pem p key g0 h1 z (out @ out1)"
  using assms(5)
proof (induction cs arbitrary: h out)
  case (Cons c cs)
  have "awaits cr pem p key g0 h (c @ (concat cs @ z)) out" "concat cs @ z \<noteq> []" using Cons.prems assms(6) by simp_all
  from chunk_step(1) [OF assms(1-4) this(1) refl this(2)] obtain args1 h1 where
    s: "esp_encrypted_img_decrypt_data cr alloc (Some h) \<lparr>data_in = Some c, data_out = None, data_out_len = 0\<rparr> =
        Some (ESP_ERR_NOT_FINISHED, args1, Some h1)" "awaits cr pem p key g0 h1 (concat cs @ z) (out @ delivered args1)" by blast
  from Cons.IH [OF s(2)] s(1) show ?case by fastforce
qed simp

lemma chunks_append:
  "decrypt_chunks cr alloc ctx (cs @ ds) = Option.bind (decrypt_chunks cr alloc ctx cs) (\<lambda>(e1, o1, ctx1).
     map_option (\<lambda>(e2, o2, ctx2). (e1 @ e2, o1 @ o2, ctx2)) (decrypt_chunks cr alloc ctx1 ds))"
proof (induction cs arbitrary: ctx)
  case (Cons c cs)
  show ?case
  proof (cases "esp_encrypted_img_decrypt_data cr alloc ctx \<lparr>data_in = Some c, data_out = None, data_out_len = 0\<rparr>")
    case (Some x)
    obtain err args ctx1 where "x = (err, args, ctx1)" by (cases x)
    with Some Cons [of ctx1] show ?thesis
      by (cases "decrypt_chunks cr alloc ctx1 cs") (auto simp: option.map_comp comp_def split_def)
  qed simp
qed (simp add: option.map_id)

lemma started:
  assumes "\<forall>n. alloc n" "package_ok p"
  obtains h where "esp_encrypted_img_decrypt_start alloc (Some (Some pem)) = Some h" "awaits cr pem p key g0 h (package_bytes p) []"
proof -
  obtain h :: "'a enc_handle" where h: "esp_encrypted_img_decrypt_start alloc (Some (Some pem)) = Some h"
    and hf: "img_state h = ESP_PRE_ENC_IMG_READ_MAGIC" "rsa_pem h = Some pem" "binary_file_read h = 0" "gcm_key h = replicate GCM_KEY_SIZE 0"
      "length (img_iv h) = IV_SIZE" "length (auth_tag h) = AUTH_SIZE" "cache_buf_len h = 0" "cache_buf h = Some (replicate ENC_GCM_KEY_SIZE 0)"
    using assms(1) by (simp add: esp_encrypted_img_decrypt_start_def)
  have "awaits cr pem p key g0 h (package_bytes p) []"
    using hf fields_nonempty [OF assms(2)] by (simp add: awaits_def package_bytes_def later_fields_def img_states_def)
  with h show ?thesis by (rule that)
qed

text \<open>C28: Decryption does not depend on how the image arrives. If an image is passed in chunks of any sizes, empty ones
  included before the last, every call but the last asks for more data and the last returns ESP_OK, the output of the calls put
  together is the decrypted body, and ending succeeds exactly if the tag of the image is the computed one. The cipher must be able to
  continue after whole blocks and the allocations must succeed.\<close>

theorem image_is_decrypted_in_any_chunks:
  assumes "package_ok p" "gcm_streams cr" "decrypts cr pem p key g0 gN plain" "\<forall>n. alloc n"
    "concat cs @ c = package_bytes p" "c \<noteq> []"
  shows "\<exists>ctx. decrypt_chunks cr alloc (esp_encrypted_img_decrypt_start alloc (Some (Some pem))) (cs @ [c]) =
      Some (replicate (length cs) ESP_ERR_NOT_FINISHED @ [ESP_OK], plain, ctx) \<and>
    esp_encrypted_img_is_complete_data_received ctx \<and>
    esp_encrypted_img_decrypt_end cr ctx = Some (if gcm_finish cr gN = Some (img_tag p) then ESP_OK else ESP_FAIL)"
proof -
  obtain h where h: "esp_encrypted_img_decrypt_start alloc (Some (Some pem)) = Some h" "awaits cr pem p key g0 h (package_bytes p) []"
    using started [OF assms(4,1)] by metis
  then have "awaits cr pem p key g0 h (concat cs @ c) []" using assms(5) by simp
  from chunks_before_end [OF assms(1-4) this assms(6)] obtain out1 h1 where
    c1: "decrypt_chunks cr alloc (Some h) cs = Some (replicate (length cs) ESP_ERR_NOT_FINISHED, out1, Some h1)"
      "awaits cr pem p key g0 h1 (c @ []) ([] @ out1)" by auto
  from chunk_step(2) [OF assms(1-4) c1(2) refl refl] obtain args1 h2 where
    c2: "esp_encrypted_img_decrypt_data cr alloc (Some h1) \<lparr>data_in = Some c, data_out = None, data_out_len = 0\<rparr> = Some (ESP_OK, args1, Some h2)"
      "out1 @ delivered args1 = plain" "body_frame p key h2" "binary_file_read h2 = length (img_body p)" "cache_buf_len h2 = 0" "gcm_ctx h2 = Some gN"
    by auto
  have "decrypt_chunks cr alloc (Some h) (cs @ [c]) = Some (replicate (length cs) ESP_ERR_NOT_FINISHED @ [ESP_OK], plain, Some h2)"
    using c1(1) c2(1,2) by (simp add: chunks_append)
  moreover have "esp_encrypted_img_is_complete_data_received (Some h2)"
    using c2(3,4) by (simp add: esp_encrypted_img_is_complete_data_received_def body_frame_def)
  moreover have "esp_encrypted_img_decrypt_end cr (Some h2) = Some (if gcm_finish cr gN = Some (img_tag p) then ESP_OK else ESP_FAIL)"
    using c2(3-6) by (auto simp: esp_encrypted_img_decrypt_end_def body_frame_def split: option.splits)
  ultimately show ?thesis using h(1) by auto
qed

text \<open>A truncated image is noticed only if its header is complete. When the data stops before the end of the image, every
  call asks for more and what was delivered is the beginning of the decrypted body; ending fails if the 512 bytes of the header have arrived,
  and returns ESP_OK if they have not, even if nothing has.\<close>

theorem truncated_image:
  assumes "package_ok p" "gcm_streams cr" "decrypts cr pem p key g0 gN plain" "\<forall>n. alloc n"
    "concat cs @ z = package_bytes p" "z \<noteq> []"
  shows "\<exists>out rest ctx. decrypt_chunks cr alloc (esp_encrypted_img_decrypt_start alloc (Some (Some pem))) cs =
      Some (replicate (length cs) ESP_ERR_NOT_FINISHED, out, ctx) \<and> plain = out @ rest \<and>
    esp_encrypted_img_decrypt_end cr ctx = Some (if length (concat cs) < 512 then ESP_OK else ESP_FAIL)"
proof -
  obtain h where h: "esp_encrypted_img_decrypt_start alloc (Some (Some pem)) = Some h" "awaits cr pem p key g0 h (package_bytes p) []"
    using started [OF assms(4,1)] by metis
  then have "awaits cr pem p key g0 h (concat cs @ z) []" using assms(5) by simp
  from chunks_before_end [OF assms(1-4) this assms(6)] obtain out h1 where
    c1: "decrypt_chunks cr alloc (Some h) cs = Some (replicate (length cs) ESP_ERR_NOT_FINISHED, out, Some h1)"
      "awaits cr pem p key g0 h1 z out" by auto
  have len: "length (concat cs) + length z = 512 + length (img_body p)"
    using arg_cong [OF assms(5), of length] field_lengths [OF assms(1)] by (simp add: package_bytes_def img_states_def)
  show ?thesis
  proof (cases "img_state h1 = ESP_PRE_ENC_DATA_DECODE_STATE")
    case True
    then obtain m c g where m: "m < length (img_body p)" "z = drop m (img_body p)" "body_frame p key h1"
      "binary_file_read h1 = m" "gcm_update cr g0 (take (m - m mod 16) (img_body p)) = Some (g, out)"
      using c1(2) awaits_body [OF True] unfolding body_holds_def by blast
    have "gcm_update cr g0 (take (length (img_body p)) (img_body p)) = Some (gN, plain)" using assms(3) by (simp add: decrypts_def)
    then obtain rest where "plain = out @ rest"
      using update_extend [OF assms(2) _ m(5), of gN plain "length (img_body p)"] m(1)
      less_imp_le [OF le_less_trans [OF diff_le_self m(1)], of "m mod 16"] by (auto simp: minus_mod_eq_mult_div)
    moreover have "\<not> length (concat cs) < 512" using len m(1,2) by simp
    moreover have "esp_encrypted_img_decrypt_end cr (Some h1) = Some ESP_FAIL"
      using True m by (simp add: esp_encrypted_img_decrypt_end_def body_frame_def)
    ultimately show ?thesis using h(1) c1(1) by auto
  next
    case False
    then have "length (later_fields p (img_state h1)) \<ge> length (img_body p)"
      by (cases "img_state h1") (simp_all add: later_fields_simps)
    moreover have "length z > length (later_fields p (img_state h1))" using c1(2) by (auto simp: awaits_def Let_def)
    ultimately have "length (concat cs) < 512" using len by simp
    moreover have "esp_encrypted_img_decrypt_end cr (Some h1) = Some ESP_OK"
      using False by (simp add: esp_encrypted_img_decrypt_end_def)
    ultimately show ?thesis using h(1) c1(1) awaits_header_out [OF c1(2) False] by auto
  qed
qed

section \<open>An instance\<close>

text \<open>A cipher over a running sum.\<close>

definition sum_cipher :: "nat cipher" where
  "sum_cipher = \<lparr>pk_decipher = (\<lambda>pem enc. if pem = [] then None else Some (take 32 enc)),
     gcm_starts = (\<lambda>key iv. Some (unat (hd key) + unat (hd iv))),
     gcm_update = (\<lambda>g input. Some (g + sum_list (map unat input), map (\<lambda>b. b XOR 90) input)),
     gcm_finish = (\<lambda>g. Some (replicate 16 (word_of_nat g)))\<rparr>"

lemma sum_cipher_streams: "gcm_streams sum_cipher"
  by (simp add: gcm_streams_def sum_cipher_def)

definition img_ex :: package where
  "img_ex = \<lparr>enc_key = replicate 384 1, start_iv = replicate 16 2, img_tag = replicate 16 9, extra_header = replicate 88 0, img_body = [1, 2, 3]\<rparr>"

lemma img_ex_decrypts: "package_ok img_ex" "decrypts sum_cipher [7] img_ex (replicate 32 1) 3 9 [91, 88, 89]"
  by (simp_all add: package_ok_def img_ex_def img_sizes decrypts_def sum_cipher_def blit_def hd_append)

theorem image_is_decrypted_in_any_chunks_witness:
  "\<exists>ctx. decrypt_chunks sum_cipher (\<lambda>_. True) (esp_encrypted_img_decrypt_start (\<lambda>_. True) (Some (Some [7])))
        ([take 10 (package_bytes img_ex), []] @ [drop 10 (package_bytes img_ex)]) =
      Some (replicate (length [take 10 (package_bytes img_ex), []]) ESP_ERR_NOT_FINISHED @ [ESP_OK], [91, 88, 89], ctx) \<and>
    esp_encrypted_img_is_complete_data_received ctx \<and>
    esp_encrypted_img_decrypt_end sum_cipher ctx = Some ESP_OK"
proof -
  have "drop 10 (package_bytes img_ex) \<noteq> []" by (simp add: package_bytes_def img_states_def img_ex_def)
  moreover have "concat [take 10 (package_bytes img_ex), []] @ drop 10 (package_bytes img_ex) = package_bytes img_ex" by simp
  moreover have "gcm_finish sum_cipher 9 = Some (img_tag img_ex)" by (simp add: sum_cipher_def img_ex_def)
  ultimately show ?thesis
    using image_is_decrypted_in_any_chunks [OF img_ex_decrypts(1) sum_cipher_streams img_ex_decrypts(2), of "\<lambda>_. True"
      "[take 10 (package_bytes img_ex), []]" "drop 10 (package_bytes img_ex)"] by (simp only: simp_thms if_True)
qed

theorem truncated_image_witness:
  "\<exists>out rest ctx. decrypt_chunks sum_cipher (\<lambda>_. True) (esp_encrypted_img_decrypt_start (\<lambda>_. True) (Some (Some [7])))
        [take 10 (package_bytes img_ex)] = Some (replicate (length [take 10 (package_bytes img_ex)]) ESP_ERR_NOT_FINISHED, out, ctx) \<and>
    [91, 88, 89] = out @ rest \<and> esp_encrypted_img_decrypt_end sum_cipher ctx = Some ESP_OK"
proof -
  have "drop 10 (package_bytes img_ex) \<noteq> []" by (simp add: package_bytes_def img_states_def img_ex_def)
  moreover have "concat [take 10 (package_bytes img_ex)] @ drop 10 (package_bytes img_ex) = package_bytes img_ex" by simp
  moreover have "length (concat [take 10 (package_bytes img_ex)]) < 512" by simp
  ultimately show ?thesis
    using truncated_image [OF img_ex_decrypts(1) sum_cipher_streams img_ex_decrypts(2), of "\<lambda>_. True"
      "[take 10 (package_bytes img_ex)]" "drop 10 (package_bytes img_ex)"] by (simp only: simp_thms if_True)
qed

end
