(* ===== verification/SecureCert.thy ===== *)
theory SecureCert
  imports Prelude
begin

text \<open>
  managed_components/espressif__esp_secure_cert_mgr/srcs/esp_secure_cert_tlv_read.c (with the HMAC peripheral and
  without support for legacy formats): entries of type, subtype, value and checksum in a flash partition mapped
  into memory. The mapped partition is a list of bytes or absent. The checksum of the ROM, the HMAC peripheral, the ciphers and the
  allocation are a parameter. A function that may not return has an option of an option as its result:
  \<open>None\<close> means it does not return, \<open>Some None\<close> is a fault (a read outside the mapping, a null pointer, memory
  freed twice, or the reset by a fault assertion).
\<close>

section \<open>Entries\<close>

definition MIN_ALIGNMENT_REQUIRED :: nat where "MIN_ALIGNMENT_REQUIRED = 16"
definition ESP_SECURE_CERT_TLV_MAGIC :: u32 where "ESP_SECURE_CERT_TLV_MAGIC = 0xBA5EBA11"

definition ESP_SECURE_CERT_CA_CERT_TLV :: u8 where "ESP_SECURE_CERT_CA_CERT_TLV = 0"
definition ESP_SECURE_CERT_DEV_CERT_TLV :: u8 where "ESP_SECURE_CERT_DEV_CERT_TLV = 1"
definition ESP_SECURE_CERT_PRIV_KEY_TLV :: u8 where "ESP_SECURE_CERT_PRIV_KEY_TLV = 2"
definition ESP_SECURE_CERT_HMAC_ECDSA_KEY_SALT :: u8 where "ESP_SECURE_CERT_HMAC_ECDSA_KEY_SALT = 5"
definition ESP_SECURE_CERT_TLV_SEC_CFG :: u8 where "ESP_SECURE_CERT_TLV_SEC_CFG = 6"
definition ESP_SECURE_CERT_TLV_END :: u8 where "ESP_SECURE_CERT_TLV_END = 50"
definition ESP_SECURE_CERT_SUBTYPE_MAX :: u8 where "ESP_SECURE_CERT_SUBTYPE_MAX = 254"
definition ESP_SECURE_CERT_SUBTYPE_INVALID :: u8 where "ESP_SECURE_CERT_SUBTYPE_INVALID = 255"

definition ESP_SECURE_CERT_IS_TLV_ENCRYPTED :: "u8 \<Rightarrow> bool" where
  "ESP_SECURE_CERT_IS_TLV_ENCRYPTED flags \<longleftrightarrow> flags AND 0xC0 = 0x80"

definition ESP_SECURE_CERT_HMAC_ECDSA_KEY_DERIVATION :: "u8 \<Rightarrow> bool" where
  "ESP_SECURE_CERT_HMAC_ECDSA_KEY_DERIVATION flags \<longleftrightarrow> flags AND 0xC0 = 0x40"

definition ESP_SECURE_CERT_KEY_ECDSA_PERIPHERAL :: "u8 \<Rightarrow> bool" where
  "ESP_SECURE_CERT_KEY_ECDSA_PERIPHERAL flags \<longleftrightarrow> flags AND 0x38 = 0x08"

record tlv_header =
  tlv_flags :: u8
  tlv_type :: u8
  tlv_subtype :: u8
  tlv_length :: nat

definition word_at :: "bytes \<Rightarrow> nat \<Rightarrow> u32 option" where
  "word_at part off = map_option rd32 (memcpy_from part off 4)"

text \<open>The header at an offset, whose magic number has been read before.\<close>

definition header_at :: "bytes \<Rightarrow> nat \<Rightarrow> tlv_header option" where
  "header_at part off = map_option (\<lambda>b. \<lparr>tlv_flags = b ! 4, tlv_type = b ! 8, tlv_subtype = b ! 9, tlv_length = unat (b ! 10) + 256 * unat (b ! 11)\<rparr>)
     (memcpy_from part off 12)"

definition esp_secure_cert_get_padding_length :: "nat \<Rightarrow> nat" where
  "esp_secure_cert_get_padding_length len =
     (MIN_ALIGNMENT_REQUIRED - len mod MIN_ALIGNMENT_REQUIRED) mod MIN_ALIGNMENT_REQUIRED"

text \<open>The total is a 16 bit value.\<close>

definition esp_secure_cert_get_tlv_total_length :: "nat \<Rightarrow> nat" where
  "esp_secure_cert_get_tlv_total_length len = (12 + len + esp_secure_cert_get_padding_length len + 4) mod 2 ^ 16"

record cert_hw =
  hw_crc :: "bytes \<Rightarrow> u32"
  hw_hmac_up :: bool
  hw_hmac :: "bytes \<Rightarrow> esp_err + bytes"
  hw_gcm_decrypt :: "bytes \<Rightarrow> bytes \<Rightarrow> bytes \<Rightarrow> bytes \<Rightarrow> bytes option"
  hw_pbkdf2 :: "bytes \<Rightarrow> bytes option"
  hw_to_der :: "bytes \<Rightarrow> bytes option"
  hw_alloc :: "nat \<Rightarrow> bool"

definition esp_secure_cert_verify_tlv_integrity :: "cert_hw \<Rightarrow> bytes \<Rightarrow> nat \<Rightarrow> bool option" where
  "esp_secure_cert_verify_tlv_integrity hw part off =
     Option.bind (word_at part off) (\<lambda>magic.
       if magic \<noteq> ESP_SECURE_CERT_TLV_MAGIC then Some False
       else
         Option.bind (header_at part off) (\<lambda>h.
           let crc_data_len = 12 + tlv_length h + esp_secure_cert_get_padding_length (tlv_length h) in
           Option.bind (memcpy_from part off crc_data_len) (\<lambda>data.
             map_option (\<lambda>crc. crc = hw_crc hw data) (word_at part (off + crc_data_len)))))"

section \<open>Finding an entry\<close>

text \<open>What happens at the first wrong magic number.\<close>

definition find_at_end :: "cert_hw \<Rightarrow> bytes \<Rightarrow> u8 \<Rightarrow> bool \<Rightarrow> nat \<Rightarrow> nat option \<Rightarrow> (esp_err \<times> nat option) option" where
  "find_at_end hw part type read_latest off latest =
     (case (if read_latest then latest else None) of
        Some l \<Rightarrow> map_option (\<lambda>ok. if ok then (ESP_OK, Some l) else (ESP_FAIL, None)) (esp_secure_cert_verify_tlv_integrity hw part l)
      | None \<Rightarrow> if type = ESP_SECURE_CERT_TLV_END then Some (ESP_OK, Some off) else Some (ESP_FAIL, None))"

text \<open>The offset is a 16 bit value.\<close>

partial_function (option) find_loop ::
  "cert_hw \<Rightarrow> bytes \<Rightarrow> u8 \<Rightarrow> u8 \<Rightarrow> nat \<Rightarrow> nat option \<Rightarrow> (esp_err \<times> nat option) option option" where
  "find_loop hw part type subtype off latest =
     (case word_at part off of
        None \<Rightarrow> Some None
      | Some magic \<Rightarrow>
          if magic \<noteq> ESP_SECURE_CERT_TLV_MAGIC
          then Some (find_at_end hw part type (subtype = ESP_SECURE_CERT_SUBTYPE_MAX) off latest)
          else
            (case header_at part off of
               None \<Rightarrow> Some None
             | Some h \<Rightarrow>
                 let next = (off + esp_secure_cert_get_tlv_total_length (tlv_length h)) mod 2 ^ 16 in
                 if tlv_type h = type then
                   if subtype = ESP_SECURE_CERT_SUBTYPE_MAX then find_loop hw part type subtype next (Some off)
                   else if tlv_subtype h = subtype then
                     Some (map_option (\<lambda>ok. if ok then (ESP_OK, Some off) else (ESP_FAIL, None))
                       (esp_secure_cert_verify_tlv_integrity hw part off))
                   else find_loop hw part type subtype next latest
                 else find_loop hw part type subtype next latest))"

definition esp_secure_cert_find_tlv :: "cert_hw \<Rightarrow> bytes \<Rightarrow> u8 \<Rightarrow> u8 \<Rightarrow> (esp_err \<times> nat option) option option" where
  "esp_secure_cert_find_tlv hw part type subtype = find_loop hw part type subtype 0 None"

definition esp_secure_cert_tlv_get_header ::
  "cert_hw \<Rightarrow> bytes option \<Rightarrow> u8 \<Rightarrow> u8 \<Rightarrow> (esp_err \<times> nat option) option option" where
  "esp_secure_cert_tlv_get_header hw mapped type subtype =
     (case mapped of None \<Rightarrow> Some (Some (ESP_FAIL, None)) | Some part \<Rightarrow> esp_secure_cert_find_tlv hw part type subtype)"

section \<open>Reading an entry\<close>

text \<open>A buffer is an address in the partition or allocated memory.\<close>

datatype tlv_buffer = In_flash nat | Allocated bytes

definition buffer_bytes :: "bytes \<Rightarrow> tlv_buffer \<Rightarrow> nat \<Rightarrow> bytes" where
  "buffer_bytes part buf len = (case buf of In_flash off \<Rightarrow> take len (drop off part) | Allocated b \<Rightarrow> take len b)"

definition HMAC_ENCRYPTION_IV_LEN :: nat where "HMAC_ENCRYPTION_IV_LEN = 16"
definition HMAC_ENCRYPTION_TAG_LEN :: nat where "HMAC_ENCRYPTION_TAG_LEN = 16"
definition ESP_SECURE_CERT_ECDSA_DER_KEY_SIZE :: nat where "ESP_SECURE_CERT_ECDSA_DER_KEY_SIZE = 121"

definition esp_secure_cert_calculate_hmac_encryption_iv :: "cert_hw \<Rightarrow> esp_err + bytes" where
  "esp_secure_cert_calculate_hmac_encryption_iv hw =
     (if \<not> hw_hmac_up hw then Inl ESP_FAIL
      else (case hw_hmac hw (concat (replicate 8 (le32 0xABCDABCD))) of Inl e \<Rightarrow> Inl e | Inr hmac \<Rightarrow> Inr (take HMAC_ENCRYPTION_IV_LEN hmac)))"

definition esp_secure_cert_calculate_hmac_encryption_key :: "cert_hw \<Rightarrow> esp_err + bytes" where
  "esp_secure_cert_calculate_hmac_encryption_key hw =
     (if \<not> hw_hmac_up hw then Inl ESP_FAIL else hw_hmac hw (concat (replicate 8 (le32 0xFFFFFFFF))))"

text \<open>The length is a 32 bit value from which the length of the tag is subtracted.\<close>

definition esp_secure_cert_hmac_based_decryption :: "cert_hw \<Rightarrow> bytes \<Rightarrow> nat \<Rightarrow> u32 \<Rightarrow> (esp_err + bytes) option" where
  "esp_secure_cert_hmac_based_decryption hw part off len =
     (case (esp_secure_cert_calculate_hmac_encryption_iv hw, esp_secure_cert_calculate_hmac_encryption_key hw) of
        (Inl e, _) \<Rightarrow> Some (Inl e)
      | (Inr iv, Inl e) \<Rightarrow> Some (Inl e)
      | (Inr iv, Inr key) \<Rightarrow>
          let n = unat (len - word_of_nat HMAC_ENCRYPTION_TAG_LEN) in
          Option.bind (memcpy_from part off n) (\<lambda>input.
          map_option (\<lambda>tag. case hw_gcm_decrypt hw key iv tag input of None \<Rightarrow> Inl ESP_FAIL | Some out \<Rightarrow> Inr out)
            (memcpy_from part (off + n) HMAC_ENCRYPTION_TAG_LEN)))"

text \<open>The result of a read: an error code and a buffer with its length.\<close>

type_synonym tlv_read = "esp_err \<times> (tlv_buffer \<times> nat) option"

definition read_encrypted :: "cert_hw \<Rightarrow> bytes \<Rightarrow> nat \<Rightarrow> nat \<Rightarrow> tlv_read option" where
  "read_encrypted hw part off len =
     (let n = unat (word_of_nat len - word_of_nat HMAC_ENCRYPTION_TAG_LEN :: u32) in
      if \<not> hw_alloc hw n then Some (ESP_ERR_NO_MEM, None)
      else
        map_option (\<lambda>r. case r of Inl e \<Rightarrow> (e, None) | Inr out \<Rightarrow> (ESP_OK, Some (Allocated out, n)))
          (esp_secure_cert_hmac_based_decryption hw part off (word_of_nat len)))"

text \<open>
  The derived key, from the result of reading the salt: without a salt the fault assertion resets the device; if the conversion
  fails, the output buffer is freed here and again by the caller.
\<close>

definition esp_secure_cert_gen_ecdsa_key :: "cert_hw \<Rightarrow> bytes \<Rightarrow> tlv_read \<Rightarrow> tlv_read option" where
  "esp_secure_cert_gen_ecdsa_key hw part salt =
     (case salt of
        (ESP_OK, Some (buf, len)) \<Rightarrow>
          if \<not> hw_hmac_up hw then Some (ESP_FAIL, None)
          else if \<not> hw_alloc hw 32 then Some (ESP_FAIL, None)
          else
            (case hw_pbkdf2 hw (buffer_bytes part buf len) of None \<Rightarrow> Some (ESP_FAIL, None)
             | Some key \<Rightarrow>
                 map_option (\<lambda>der. (ESP_OK, Some (Allocated der, ESP_SECURE_CERT_ECDSA_DER_KEY_SIZE))) (hw_to_der hw key))
      | _ \<Rightarrow> None)"

text \<open>Reading the salt of a derived key is a call of the function itself.\<close>

partial_function (option) esp_secure_cert_tlv_get_addr ::
  "cert_hw \<Rightarrow> bytes option \<Rightarrow> u8 \<Rightarrow> u8 \<Rightarrow> tlv_read option option" where
  "esp_secure_cert_tlv_get_addr hw mapped type subtype =
     Option.bind (esp_secure_cert_tlv_get_header hw mapped type subtype) (\<lambda>r.
       case (r, mapped) of
         (Some (ESP_OK, Some off), Some part) \<Rightarrow>
           if type = ESP_SECURE_CERT_TLV_END then Some (Some (ESP_OK, Some (In_flash off, off)))
           else
             (case header_at part off of
                None \<Rightarrow> Some None
              | Some h \<Rightarrow>
                  if ESP_SECURE_CERT_IS_TLV_ENCRYPTED (tlv_flags h) then Some (read_encrypted hw part (off + 12) (tlv_length h))
                  else if ESP_SECURE_CERT_HMAC_ECDSA_KEY_DERIVATION (tlv_flags h) then
                    if \<not> hw_alloc hw ESP_SECURE_CERT_ECDSA_DER_KEY_SIZE then Some (Some (ESP_ERR_NO_MEM, None))
                    else
                      Option.bind (esp_secure_cert_tlv_get_addr hw mapped ESP_SECURE_CERT_HMAC_ECDSA_KEY_SALT subtype) (\<lambda>s.
                        Some (Option.bind s (esp_secure_cert_gen_ecdsa_key hw part)))
                  else Some (Some (ESP_OK, Some (In_flash (off + 12), tlv_length h))))
       | (Some (e, _), _) \<Rightarrow> Some (Some (e, None))
       | (None, _) \<Rightarrow> Some None)"

record tlv_info =
  info_type :: u8
  info_subtype :: u8
  info_data :: "(tlv_buffer \<times> nat) option"
  info_flags :: u8

definition esp_secure_cert_get_tlv_info ::
  "cert_hw \<Rightarrow> bytes option \<Rightarrow> u8 \<Rightarrow> u8 \<Rightarrow> (esp_err \<times> tlv_info option) option option" where
  "esp_secure_cert_get_tlv_info hw mapped type subtype =
     Option.bind (esp_secure_cert_tlv_get_header hw mapped type subtype) (\<lambda>r.
       case (r, mapped) of
         (Some (ESP_OK, Some off), Some part) \<Rightarrow>
           map_option (\<lambda>a. Option.bind a (\<lambda>(err, data).
               if err \<noteq> ESP_OK then Some (err, None)
               else
                 map_option (\<lambda>h. (err, Some \<lparr>info_type = tlv_type h,
                     info_subtype = (if tlv_type h = ESP_SECURE_CERT_TLV_END then ESP_SECURE_CERT_SUBTYPE_INVALID else tlv_subtype h),
                     info_data = data, info_flags = tlv_flags h\<rparr>)) (header_at part off)))
             (esp_secure_cert_tlv_get_addr hw mapped type subtype)
       | (Some (e, _), _) \<Rightarrow> Some (Some (e, None))
       | (None, _) \<Rightarrow> Some None)"

section \<open>The iterator\<close>

text \<open>An iterator is null or the offset of an entry.\<close>

definition esp_secure_cert_iterate_to_next_tlv :: "cert_hw \<Rightarrow> bytes option \<Rightarrow> nat option \<Rightarrow> (esp_err \<times> nat option) option" where
  "esp_secure_cert_iterate_to_next_tlv hw mapped iter =
     Option.bind mapped (\<lambda>part.
       case iter of
         None \<Rightarrow> map_option (\<lambda>ok. if ok then (ESP_OK, Some 0) else (ESP_FAIL, None)) (esp_secure_cert_verify_tlv_integrity hw part 0)
       | Some off \<Rightarrow>
           Option.bind (esp_secure_cert_verify_tlv_integrity hw part off) (\<lambda>ok.
             if \<not> ok then Some (ESP_FAIL, iter)
             else
               Option.bind (header_at part off) (\<lambda>h.
                 let next = off + esp_secure_cert_get_tlv_total_length (tlv_length h) in
                 map_option (\<lambda>ok. if ok then (ESP_OK, Some next) else (ESP_FAIL, iter))
                   (esp_secure_cert_verify_tlv_integrity hw part next))))"

definition esp_secure_cert_get_tlv_info_from_iterator ::
  "cert_hw \<Rightarrow> bytes option \<Rightarrow> nat option \<Rightarrow> (esp_err \<times> tlv_info option) option option" where
  "esp_secure_cert_get_tlv_info_from_iterator hw mapped iter =
     (case (mapped, iter) of
        (Some part, Some off) \<Rightarrow>
          (case esp_secure_cert_verify_tlv_integrity hw part off of
             None \<Rightarrow> Some None
           | Some ok \<Rightarrow>
               if \<not> ok then Some (Some (ESP_ERR_INVALID_ARG, None))
               else (case header_at part off of None \<Rightarrow> Some None
                     | Some h \<Rightarrow> esp_secure_cert_get_tlv_info hw mapped (tlv_type h) (tlv_subtype h)))
      | _ \<Rightarrow> Some None)"

text \<open>The entries that are printed.\<close>

partial_function (option) list_loop :: "cert_hw \<Rightarrow> bytes option \<Rightarrow> nat option \<Rightarrow> tlv_info list \<Rightarrow> tlv_info list option option" where
  "list_loop hw mapped iter shown =
     (case esp_secure_cert_iterate_to_next_tlv hw mapped iter of
        None \<Rightarrow> Some None
      | Some (err, iter1) \<Rightarrow>
          if err \<noteq> ESP_OK then Some (Some shown)
          else
            Option.bind (esp_secure_cert_get_tlv_info_from_iterator hw mapped iter1) (\<lambda>r.
              case r of None \<Rightarrow> Some None
              | Some (err, info) \<Rightarrow>
                  list_loop hw mapped iter1 (case info of Some i \<Rightarrow> if err = ESP_OK then shown @ [i] else shown | None \<Rightarrow> shown)))"

definition esp_secure_cert_list_tlv_entries :: "cert_hw \<Rightarrow> bytes option \<Rightarrow> tlv_info list option option" where
  "esp_secure_cert_list_tlv_entries hw mapped = list_loop hw mapped None []"

section \<open>Named entries\<close>

definition esp_secure_cert_is_tlv_partition :: "bytes option \<Rightarrow> bool option" where
  "esp_secure_cert_is_tlv_partition mapped =
     (case mapped of None \<Rightarrow> Some False | Some part \<Rightarrow> map_option (\<lambda>magic. magic = ESP_SECURE_CERT_TLV_MAGIC) (word_at part 0))"

definition esp_secure_cert_get_device_cert :: "cert_hw \<Rightarrow> bytes option \<Rightarrow> tlv_read option option" where
  "esp_secure_cert_get_device_cert hw mapped = esp_secure_cert_tlv_get_addr hw mapped ESP_SECURE_CERT_DEV_CERT_TLV 0"

definition esp_secure_cert_get_ca_cert :: "cert_hw \<Rightarrow> bytes option \<Rightarrow> tlv_read option option" where
  "esp_secure_cert_get_ca_cert hw mapped = esp_secure_cert_tlv_get_addr hw mapped ESP_SECURE_CERT_CA_CERT_TLV 0"

definition esp_secure_cert_get_priv_key :: "cert_hw \<Rightarrow> bytes option \<Rightarrow> tlv_read option option" where
  "esp_secure_cert_get_priv_key hw mapped = esp_secure_cert_tlv_get_addr hw mapped ESP_SECURE_CERT_PRIV_KEY_TLV 0"

datatype key_type = ESP_SECURE_CERT_INVALID_KEY | ESP_SECURE_CERT_DEFAULT_FORMAT_KEY | ESP_SECURE_CERT_HMAC_ENCRYPTED_KEY
  | ESP_SECURE_CERT_HMAC_DERIVED_ECDSA_KEY | ESP_SECURE_CERT_ECDSA_PERIPHERAL_KEY

definition key_type_of :: "u8 \<Rightarrow> key_type" where
  "key_type_of flags =
     (if ESP_SECURE_CERT_HMAC_ECDSA_KEY_DERIVATION flags then ESP_SECURE_CERT_HMAC_DERIVED_ECDSA_KEY
      else if ESP_SECURE_CERT_KEY_ECDSA_PERIPHERAL flags then ESP_SECURE_CERT_ECDSA_PERIPHERAL_KEY
      else if ESP_SECURE_CERT_IS_TLV_ENCRYPTED flags then ESP_SECURE_CERT_HMAC_ENCRYPTED_KEY
      else ESP_SECURE_CERT_DEFAULT_FORMAT_KEY)"

definition esp_secure_cert_get_priv_key_type :: "cert_hw \<Rightarrow> bytes option \<Rightarrow> (esp_err \<times> key_type) option option" where
  "esp_secure_cert_get_priv_key_type hw mapped =
     map_option (\<lambda>r. Option.bind r (\<lambda>(err, off).
         case (err, off, mapped) of
           (ESP_OK, Some off, Some part) \<Rightarrow> map_option (\<lambda>h. (ESP_OK, key_type_of (tlv_flags h))) (header_at part off)
         | _ \<Rightarrow> Some (err, ESP_SECURE_CERT_INVALID_KEY)))
       (esp_secure_cert_tlv_get_header hw mapped ESP_SECURE_CERT_PRIV_KEY_TLV 0)"

definition esp_secure_cert_get_priv_key_efuse_id :: "cert_hw \<Rightarrow> bytes option \<Rightarrow> (esp_err \<times> u8 option) option option" where
  "esp_secure_cert_get_priv_key_efuse_id hw mapped =
     map_option (\<lambda>r. Option.bind r (\<lambda>(err, off).
         case (err, off, mapped) of
           (ESP_OK, Some off, Some part) \<Rightarrow> map_option (\<lambda>b. (ESP_OK, Some (b ! 0))) (memcpy_from part (off + 12) 1)
         | _ \<Rightarrow> Some (ESP_ERR_NOT_SUPPORTED, None)))
       (esp_secure_cert_tlv_get_header hw mapped ESP_SECURE_CERT_TLV_SEC_CFG 0)"

section \<open>Partitions\<close>

record entry =
  en_flags :: u8
  en_type :: u8
  en_subtype :: u8
  en_value :: bytes
  en_crc :: u32

definition entry_data :: "entry \<Rightarrow> bytes" where
  "entry_data e = le32 ESP_SECURE_CERT_TLV_MAGIC @ [en_flags e, 0, 0, 0, en_type e, en_subtype e] @ le16 (word_of_nat (length (en_value e))) @
     en_value e @ replicate (esp_secure_cert_get_padding_length (length (en_value e))) 0"

definition entry_bytes :: "entry \<Rightarrow> bytes" where
  "entry_bytes e = entry_data e @ le32 (en_crc e)"

definition entries_bytes :: "entry list \<Rightarrow> bytes" where
  "entries_bytes es = concat (map entry_bytes es)"

definition intact :: "cert_hw \<Rightarrow> entry \<Rightarrow> bool" where
  "intact hw e \<longleftrightarrow> en_crc e = hw_crc hw (entry_data e)"

text \<open>The entries end before 64 KiB, and what follows them does not begin with the magic number.\<close>

definition area_ok :: "entry list \<Rightarrow> bytes \<Rightarrow> bool" where
  "area_ok es rest \<longleftrightarrow> length (entries_bytes es) < 2 ^ 16 \<and> 4 \<le> length rest \<and> rd32 rest \<noteq> ESP_SECURE_CERT_TLV_MAGIC"

lemma entries_bytes_simps [simp]:
  "entries_bytes [] = []" "entries_bytes (e # es) = entry_bytes e @ entries_bytes es" "entries_bytes (xs @ ys) = entries_bytes xs @ entries_bytes ys"
  by (simp_all add: entries_bytes_def)

lemma word_at_append [simp]: "4 \<le> length b \<Longrightarrow> word_at (pre @ b) (length pre) = Some (rd32 b)"
proof -
  assume "4 \<le> length b"
  moreover have "rd32 (take 4 b) = rd32 b" by (simp add: rd32_def)
  ultimately show ?thesis by (simp add: word_at_def memcpy_from_def)
qed

lemma length_entry_data: "length (entry_data e) = 12 + length (en_value e) + esp_secure_cert_get_padding_length (length (en_value e))"
  by (simp add: entry_data_def)

lemma length_entry_bytes: "length (entry_bytes e) = length (entry_data e) + 4"
  by (simp add: entry_bytes_def)

lemma total_length_entry:
  "length (entry_bytes e) < 2 ^ 16 \<Longrightarrow> esp_secure_cert_get_tlv_total_length (length (en_value e)) = length (entry_bytes e)"
  by (simp add: esp_secure_cert_get_tlv_total_length_def length_entry_bytes length_entry_data add.commute)

lemma le16_value: "n < 2 ^ 16 \<Longrightarrow> unat (le16 (word_of_nat n) ! 0) + 256 * unat (le16 (word_of_nat n) ! 1) = n"
proof -
  assume n: "n < 2 ^ 16"
  then have "n div 256 < 256" by simp
  then have "n mod 256 + 256 * ((n div 256) mod 256) = n" by simp
  moreover have "unat (le16 (word_of_nat n) ! 0) = n mod 256" "unat (le16 (word_of_nat n) ! 1) = (drop_bit 8 n) mod 256"
    using n by (simp_all add: le16_def unsigned_ucast_eq take_bit_eq_mod unat_drop_bit_eq unat_of_nat)
  ultimately show ?thesis by (simp add: drop_bit_eq_div)
qed

definition header_of :: "entry \<Rightarrow> tlv_header" where
  "header_of e = \<lparr>tlv_flags = en_flags e, tlv_type = en_type e, tlv_subtype = en_subtype e, tlv_length = length (en_value e)\<rparr>"

lemma at_entry:
  assumes "part = pre @ entry_bytes e @ post" "length (entry_bytes e) < 2 ^ 16"
  shows "word_at part (length pre) = Some ESP_SECURE_CERT_TLV_MAGIC" "header_at part (length pre) = Some (header_of e)"
    "esp_secure_cert_verify_tlv_integrity hw part (length pre) = Some (intact hw e)"
proof -
  have v: "length (en_value e) < 2 ^ 16" using assms(2) by (simp add: length_entry_bytes length_entry_data)
  have "4 \<le> length (entry_bytes e @ post)" by (simp add: length_entry_bytes length_entry_data)
  then show w: "word_at part (length pre) = Some ESP_SECURE_CERT_TLV_MAGIC"
    unfolding assms(1) by (simp only: word_at_append) (simp add: entry_bytes_def entry_data_def)
  show h: "header_at part (length pre) = Some (header_of e)"
    using le16_value [OF v] unfolding assms(1)
    by (simp add: header_at_def memcpy_from_def entry_bytes_def entry_data_def header_of_def le32_def le16_def eval_nat_numeral)
  let ?n = "12 + length (en_value e) + esp_secure_cert_get_padding_length (length (en_value e))"
  have "memcpy_from part (length pre) ?n = Some (entry_data e)"
    unfolding assms(1) length_entry_data [symmetric] by (simp add: memcpy_from_def entry_bytes_def)
  moreover have "word_at ((pre @ entry_data e) @ (le32 (en_crc e) @ post)) (length (pre @ entry_data e)) = Some (en_crc e)"
    by (subst word_at_append) simp_all
  then have "word_at part (length pre + ?n) = Some (en_crc e)"
    unfolding length_entry_data [symmetric] assms(1) by (simp add: entry_bytes_def)
  ultimately show "esp_secure_cert_verify_tlv_integrity hw part (length pre) = Some (intact hw e)"
    using w h by (simp add: esp_secure_cert_verify_tlv_integrity_def header_of_def intact_def add.assoc)
qed

definition matches :: "u8 \<Rightarrow> u8 \<Rightarrow> entry \<Rightarrow> bool" where
  "matches type subtype e \<longleftrightarrow> en_type e = type \<and> (subtype = ESP_SECURE_CERT_SUBTYPE_MAX \<or> en_subtype e = subtype)"

lemma find_step:
  assumes "part = entries_bytes pre @ entry_bytes e @ post" "length (entries_bytes pre @ entry_bytes e) < 2 ^ 16"
  shows "find_loop hw part type subtype (length (entries_bytes pre)) latest =
    (if matches type subtype e \<and> subtype \<noteq> ESP_SECURE_CERT_SUBTYPE_MAX
     then Some (Some (if intact hw e then (ESP_OK, Some (length (entries_bytes pre))) else (ESP_FAIL, None)))
     else find_loop hw part type subtype (length (entries_bytes (pre @ [e])))
       (if matches type subtype e then Some (length (entries_bytes pre)) else latest))"
proof -
  have l: "length (entry_bytes e) < 2 ^ 16" using assms(2) by simp
  note at = at_entry [OF assms(1) l]
  have n: "(length (entries_bytes pre) + esp_secure_cert_get_tlv_total_length (length (en_value e))) mod 2 ^ 16 = length (entries_bytes (pre @ [e]))"
    using assms(2) total_length_entry [OF l] by simp
  show ?thesis
    using at n by (subst find_loop.simps) (simp add: Let_def header_of_def matches_def)
qed

lemma find_end:
  assumes "part = entries_bytes es @ rest" "area_ok es rest"
  shows "find_loop hw part type subtype (length (entries_bytes es)) latest =
    Some (find_at_end hw part type (subtype = ESP_SECURE_CERT_SUBTYPE_MAX) (length (entries_bytes es)) latest)"
  using assms by (subst find_loop.simps) (simp add: area_ok_def)

section \<open>Lookup\<close>

lemma fits_prefix:
  "area_ok (xs @ e # ys) rest \<Longrightarrow> length (entries_bytes xs @ entry_bytes e) < 2 ^ 16"
  by (simp add: area_ok_def)

lemma pass_over:
  assumes "\<forall>e \<in> set ys. \<not> matches type subtype e" "area_ok (xs @ ys @ zs) rest"
  shows "find_loop hw (entries_bytes (xs @ ys @ zs) @ rest) type subtype (length (entries_bytes xs)) latest =
    find_loop hw (entries_bytes (xs @ ys @ zs) @ rest) type subtype (length (entries_bytes (xs @ ys))) latest"
  using assms
proof (induction ys arbitrary: xs)
  case (Cons y ys)
  have "length (entries_bytes xs @ entry_bytes y) < 2 ^ 16" using fits_prefix [of xs y "ys @ zs"] Cons.prems(2) by simp
  from find_step [OF _ this, of _ "entries_bytes (ys @ zs) @ rest"] Cons.prems(1)
  show ?case using Cons.IH [of "xs @ [y]"] Cons.prems by simp
qed simp

lemma keep_latest:
  assumes "area_ok (xs @ ys @ zs) rest"
  shows "\<exists>l. find_loop hw (entries_bytes (xs @ ys @ zs) @ rest) type ESP_SECURE_CERT_SUBTYPE_MAX (length (entries_bytes xs)) latest =
    find_loop hw (entries_bytes (xs @ ys @ zs) @ rest) type ESP_SECURE_CERT_SUBTYPE_MAX (length (entries_bytes (xs @ ys))) l"
  using assms
proof (induction ys arbitrary: xs latest)
  case (Cons y ys)
  have "length (entries_bytes xs @ entry_bytes y) < 2 ^ 16" using fits_prefix [of xs y "ys @ zs"] Cons.prems by simp
  from find_step [OF _ this, of _ "entries_bytes (ys @ zs) @ rest" hw type ESP_SECURE_CERT_SUBTYPE_MAX latest]
  show ?case using Cons.IH [of "xs @ [y]"] Cons.prems by simp
qed auto

text \<open>The entry that a lookup is for: the first with the type and subtype, or the last with the type.\<close>

definition sought :: "u8 \<Rightarrow> u8 \<Rightarrow> entry list \<Rightarrow> entry option" where
  "sought type subtype es = List.find (matches type subtype) (if subtype = ESP_SECURE_CERT_SUBTYPE_MAX then rev es else es)"

lemma find_split: "List.find P xs = Some e \<Longrightarrow> \<exists>ys zs. xs = ys @ e # zs \<and> P e \<and> (\<forall>y \<in> set ys. \<not> P y)"
  by (metis find_Some_iff id_take_nth_drop in_set_conv_nth length_take min_less_iff_conj nth_take)

lemma sought_split:
  assumes "sought type subtype es = Some e"
  shows "\<exists>xs ys. es = xs @ e # ys \<and> matches type subtype e \<and>
    (if subtype = ESP_SECURE_CERT_SUBTYPE_MAX then \<forall>y \<in> set ys. \<not> matches type subtype y else \<forall>x \<in> set xs. \<not> matches type subtype x)"
proof (cases "subtype = ESP_SECURE_CERT_SUBTYPE_MAX")
  case True
  then obtain ys zs where "rev es = ys @ e # zs" "matches type subtype e" "\<forall>y \<in> set ys. \<not> matches type subtype y"
    using find_split assms unfolding sought_def by fastforce
  then show ?thesis using True by (intro exI [of _ "rev zs"] exI [of _ "rev ys"]) (simp add: rev_swap)
qed (use find_split assms in \<open>fastforce simp: sought_def\<close>)

lemma find_is_sought:
  assumes "area_ok es rest" "type \<noteq> ESP_SECURE_CERT_TLV_END"
  shows "case sought type subtype es of
      None \<Rightarrow> esp_secure_cert_find_tlv hw (entries_bytes es @ rest) type subtype = Some (Some (ESP_FAIL, None))
    | Some e \<Rightarrow> \<exists>xs ys. es = xs @ e # ys \<and> esp_secure_cert_find_tlv hw (entries_bytes es @ rest) type subtype =
        Some (Some (if intact hw e then (ESP_OK, Some (length (entries_bytes xs))) else (ESP_FAIL, None)))"
proof (cases "sought type subtype es")
  case None
  then have "\<forall>e \<in> set es. \<not> matches type subtype e" by (auto simp: sought_def find_None_iff split: if_splits)
  from pass_over [OF this, of "[]" "[]" rest] assms find_end [OF refl assms(1)] None show ?thesis
    by (simp add: esp_secure_cert_find_tlv_def find_at_end_def)
next
  case (Some e)
  from sought_split [OF this] obtain xs ys where e: "es = xs @ e # ys" "matches type subtype e"
    "if subtype = ESP_SECURE_CERT_SUBTYPE_MAX then \<forall>y \<in> set ys. \<not> matches type subtype y else \<forall>x \<in> set xs. \<not> matches type subtype x" by blast
  let ?part = "entries_bytes es @ rest"
  have area: "area_ok ([] @ xs @ e # ys) rest" "area_ok ((xs @ [e]) @ ys @ []) rest" using assms(1) e(1) by simp_all
  have step: "find_loop hw ?part type subtype (length (entries_bytes xs)) l =
    (if subtype \<noteq> ESP_SECURE_CERT_SUBTYPE_MAX then Some (Some (if intact hw e then (ESP_OK, Some (length (entries_bytes xs))) else (ESP_FAIL, None)))
     else find_loop hw ?part type subtype (length (entries_bytes (xs @ [e]))) (Some (length (entries_bytes xs))))" for l
    using find_step [OF _ fits_prefix [of xs e ys rest], of ?part "entries_bytes ys @ rest" hw type subtype l] area(1) e(1,2)
    by (cases "subtype = ESP_SECURE_CERT_SUBTYPE_MAX") simp_all
  have "esp_secure_cert_find_tlv hw ?part type subtype = Some (Some (if intact hw e then (ESP_OK, Some (length (entries_bytes xs))) else (ESP_FAIL, None)))"
  proof (cases "subtype = ESP_SECURE_CERT_SUBTYPE_MAX")
    case False
    then show ?thesis using pass_over [OF _ area(1), of type subtype hw None] e step by (simp add: esp_secure_cert_find_tlv_def)
  next
    case True
    then obtain l where "find_loop hw ?part type subtype 0 None = find_loop hw ?part type subtype (length (entries_bytes xs)) l"
      using keep_latest [OF area(1), of hw type None] e(1) by auto
    moreover have "\<forall>y \<in> set ys. \<not> matches type subtype y" using e(3) True by simp
    note pass_over [OF this area(2), of hw "Some (length (entries_bytes xs))"]
    ultimately have "esp_secure_cert_find_tlv hw ?part type subtype = Some (find_at_end hw ?part type True (length (entries_bytes es)) (Some (length (entries_bytes xs))))"
      using step [of l] find_end [OF refl assms(1), of hw type subtype] True e(1) by (simp add: esp_secure_cert_find_tlv_def)
    moreover have "esp_secure_cert_verify_tlv_integrity hw ?part (length (entries_bytes xs)) = Some (intact hw e)"
      using at_entry(3) [of ?part "entries_bytes xs" e "entries_bytes ys @ rest"] e(1) fits_prefix [OF area(1) [simplified]] by simp
    ultimately show ?thesis by (simp add: find_at_end_def)
  qed
  then show ?thesis using Some e(1) by auto
qed

text \<open>An entry that is stored as it is.\<close>

definition plain_entry :: "entry \<Rightarrow> bool" where
  "plain_entry e \<longleftrightarrow> \<not> ESP_SECURE_CERT_IS_TLV_ENCRYPTED (en_flags e) \<and> \<not> ESP_SECURE_CERT_HMAC_ECDSA_KEY_DERIVATION (en_flags e)"

lemma value_at:
  "entries_bytes (xs @ e # ys) @ rest = (entries_bytes xs @ take 12 (entry_bytes e)) @ en_value e @ drop (12 + length (en_value e)) (entry_bytes e) @ entries_bytes ys @ rest"
  by (simp add: entry_bytes_def entry_data_def le32_def le16_def eval_nat_numeral)

lemma plain_read:
  assumes "area_ok es rest" "type \<noteq> ESP_SECURE_CERT_TLV_END" "sought type subtype es = Some e" "plain_entry e" "intact hw e"
  shows "\<exists>off. esp_secure_cert_tlv_get_header hw (Some (entries_bytes es @ rest)) type subtype = Some (Some (ESP_OK, Some off)) \<and>
    header_at (entries_bytes es @ rest) off = Some (header_of e) \<and>
    esp_secure_cert_tlv_get_addr hw (Some (entries_bytes es @ rest)) type subtype = Some (Some (ESP_OK, Some (In_flash (off + 12), length (en_value e)))) \<and>
    buffer_bytes (entries_bytes es @ rest) (In_flash (off + 12)) (length (en_value e)) = en_value e"
proof -
  from find_is_sought [OF assms(1,2), where subtype = subtype and hw = hw] assms(3,5) obtain xs ys where
    e: "es = xs @ e # ys" and f: "esp_secure_cert_find_tlv hw (entries_bytes es @ rest) type subtype = Some (Some (ESP_OK, Some (length (entries_bytes xs))))"
    by auto
  have h: "header_at (entries_bytes es @ rest) (length (entries_bytes xs)) = Some (header_of e)"
    using at_entry(2) [of _ "entries_bytes xs" e "entries_bytes ys @ rest"] e fits_prefix [of xs e ys rest] assms(1) by simp
  have "take (length (en_value e)) (drop (length (entries_bytes xs) + 12) (entries_bytes es @ rest)) = en_value e"
  proof -
    have "length (entries_bytes xs @ take 12 (entry_bytes e)) = length (entries_bytes xs) + 12" by (simp add: length_entry_bytes length_entry_data)
    then show ?thesis unfolding e value_at by (metis append_eq_conv_conj append_take_drop_id)
  qed
  then show ?thesis using f h assms(2,4)
    by (intro exI [of _ "length (entries_bytes xs)"], subst esp_secure_cert_tlv_get_addr.simps)
      (simp add: esp_secure_cert_tlv_get_header_def header_of_def plain_entry_def buffer_bytes_def)
qed


section \<open>Searches that do not end\<close>

lemma find_never_returns:
  assumes "word_at part 0 = Some ESP_SECURE_CERT_TLV_MAGIC" "header_at part 0 = Some h" "esp_secure_cert_get_tlv_total_length (tlv_length h) = 0"
    "tlv_type h \<noteq> type"
  shows "find_loop hw part type subtype 0 latest = None"
proof -
  have ne: "hw' = hw \<longrightarrow> part' = part \<longrightarrow> type' = type \<longrightarrow> off \<noteq> 0" if "find_loop hw' part' type' subtype' off l = Some y"
    for hw' part' type' subtype' off l y
  proof (rule find_loop.raw_induct [where P = "\<lambda>hw' part' type' subtype' off l y. hw' = hw \<longrightarrow> part' = part \<longrightarrow> type' = type \<longrightarrow> off \<noteq> 0", OF _ that],
      intro impI notI, goal_cases)
    case (1 rec hw' part' type' subtype' off l y)
    have "rec hw part type subtype' 0 l = Some y" using 1(2-) assms by (simp add: Let_def)
    from 1(1) [OF this] show ?case by simp
  qed
  show ?thesis
  proof (cases "find_loop hw part type subtype 0 latest")
    case (Some y)
    from ne [OF this] show ?thesis by simp
  qed
qed

text \<open>A long entry makes the search endless. The length of an entry is 16 bits wide, and so is its total length with
  header, padding and checksum: if the first entry claims between 65505 and 65520 bytes, the total is 0, and the search for any other type
  looks at this entry for ever. The entry is not verified before.\<close>

theorem oversized_entry_is_endless:
  assumes "word_at part 0 = Some ESP_SECURE_CERT_TLV_MAGIC" "header_at part 0 = Some h" "65505 \<le> tlv_length h" "tlv_length h \<le> 65520"
    "tlv_type h \<noteq> type"
  shows "esp_secure_cert_find_tlv hw part type subtype = None \<and> esp_secure_cert_tlv_get_addr hw (Some part) type subtype = None"
proof -
  have "(65520 - tlv_length h) div 16 = 0" using assms(3) by simp
  have "tlv_length h mod 16 = (tlv_length h - 65504) mod 16"
    using assms(3) mod_mult_self3 [of 4094 16 "tlv_length h - 65504"] by simp
  also have "\<dots> = (if tlv_length h = 65520 then 0 else tlv_length h - 65504)" using assms(3,4) by auto
  finally have "esp_secure_cert_get_tlv_total_length (tlv_length h) = 0"
    using assms(3,4) by (auto simp: esp_secure_cert_get_tlv_total_length_def esp_secure_cert_get_padding_length_def MIN_ALIGNMENT_REQUIRED_def)
  from find_never_returns [OF assms(1,2) this assms(5)] show ?thesis
    by (simp add: esp_secure_cert_find_tlv_def esp_secure_cert_tlv_get_addr.simps esp_secure_cert_tlv_get_header_def)
qed

text \<open>A salt that is itself marked as a derived key is looked for by itself.\<close>

lemma derived_salt_recurses:
  assumes "esp_secure_cert_tlv_get_header hw (Some part) ESP_SECURE_CERT_HMAC_ECDSA_KEY_SALT subtype = Some (Some (ESP_OK, Some off))"
    "header_at part off = Some h" "ESP_SECURE_CERT_HMAC_ECDSA_KEY_DERIVATION (tlv_flags h)" "hw_alloc hw ESP_SECURE_CERT_ECDSA_DER_KEY_SIZE"
  shows "esp_secure_cert_tlv_get_addr hw (Some part) ESP_SECURE_CERT_HMAC_ECDSA_KEY_SALT subtype = None"
proof -
  have ne: "ESP_SECURE_CERT_HMAC_ECDSA_KEY_SALT \<noteq> ESP_SECURE_CERT_TLV_END" "\<not> ESP_SECURE_CERT_IS_TLV_ENCRYPTED (tlv_flags h)"
    using assms(3) by (auto simp: ESP_SECURE_CERT_HMAC_ECDSA_KEY_SALT_def ESP_SECURE_CERT_TLV_END_def ESP_SECURE_CERT_IS_TLV_ENCRYPTED_def
      ESP_SECURE_CERT_HMAC_ECDSA_KEY_DERIVATION_def)
  have never: "hw' = hw \<longrightarrow> m' = Some part \<longrightarrow> type' = ESP_SECURE_CERT_HMAC_ECDSA_KEY_SALT \<longrightarrow> subtype' \<noteq> subtype"
    if "esp_secure_cert_tlv_get_addr hw' m' type' subtype' = Some y" for hw' m' type' subtype' y
  proof (rule esp_secure_cert_tlv_get_addr.raw_induct [where
      P = "\<lambda>hw' m' type' subtype' y. hw' = hw \<longrightarrow> m' = Some part \<longrightarrow> type' = ESP_SECURE_CERT_HMAC_ECDSA_KEY_SALT \<longrightarrow> subtype' \<noteq> subtype", OF _ that],
      intro impI notI, goal_cases)
    case (1 rec hw' m' type' subtype' y)
    have "rec hw (Some part) ESP_SECURE_CERT_HMAC_ECDSA_KEY_SALT subtype \<noteq> None" using 1(2-) assms ne by (auto simp: bind_eq_Some_conv)
    then obtain z where "rec hw (Some part) ESP_SECURE_CERT_HMAC_ECDSA_KEY_SALT subtype = Some z" by auto
    from 1(1) [OF this] show ?case by simp
  qed
  show ?thesis
  proof (cases "esp_secure_cert_tlv_get_addr hw (Some part) ESP_SECURE_CERT_HMAC_ECDSA_KEY_SALT subtype")
    case (Some y)
    from never [OF this] show ?thesis by simp
  qed
qed

section \<open>The listing\<close>

definition distinct_keys :: "entry list \<Rightarrow> bool" where
  "distinct_keys es \<longleftrightarrow> distinct (map (\<lambda>e. (en_type e, en_subtype e)) es)"

definition listable :: "entry \<Rightarrow> bool" where
  "listable e \<longleftrightarrow> plain_entry e \<and> en_type e \<noteq> ESP_SECURE_CERT_TLV_END \<and> en_subtype e \<noteq> ESP_SECURE_CERT_SUBTYPE_MAX"

definition info_view :: "bytes \<Rightarrow> tlv_info \<Rightarrow> u8 \<times> u8 \<times> u8 \<times> bytes option" where
  "info_view part i = (info_type i, info_subtype i, info_flags i, map_option (\<lambda>(b, n). buffer_bytes part b n) (info_data i))"

definition entry_view :: "entry \<Rightarrow> u8 \<times> u8 \<times> u8 \<times> bytes option" where
  "entry_view e = (en_type e, en_subtype e, en_flags e, Some (en_value e))"

lemma sought_itself:
  assumes "distinct_keys es" "e \<in> set es" "en_subtype e \<noteq> ESP_SECURE_CERT_SUBTYPE_MAX"
  shows "sought (en_type e) (en_subtype e) es = Some e"
proof -
  have inj: "inj_on (\<lambda>e. (en_type e, en_subtype e)) (set es)" using assms(1) by (simp add: distinct_keys_def distinct_map)
  have "matches (en_type e) (en_subtype e) x \<longleftrightarrow> x = e" if "x \<in> set es" for x
    using inj that assms(2,3) by (auto simp: matches_def inj_on_def)
  then have "List.find (matches (en_type e) (en_subtype e)) es = List.find (\<lambda>x. x = e) es"
    by (intro find_cong refl) simp
  also have "\<dots> = Some e" using assms(2) by (induction es) auto
  finally show ?thesis using assms(3) by (simp add: sought_def)
qed

lemma verify_next:
  assumes "area_ok (xs @ ys) rest"
  shows "esp_secure_cert_verify_tlv_integrity hw (entries_bytes (xs @ ys) @ rest) (length (entries_bytes xs)) =
    Some (case ys of [] \<Rightarrow> False | y # _ \<Rightarrow> intact hw y)"
proof (cases ys)
  case Nil
  then show ?thesis using assms by (simp add: esp_secure_cert_verify_tlv_integrity_def area_ok_def)
next
  case (Cons y zs)
  then show ?thesis using at_entry(3) [of _ "entries_bytes xs" y "entries_bytes zs @ rest"] fits_prefix [of xs y zs rest] assms by simp
qed

lemma info_at:
  assumes "area_ok (xs @ e # ys) rest" "distinct_keys (xs @ e # ys)" "listable e" "intact hw e"
  defines "part \<equiv> entries_bytes (xs @ e # ys) @ rest"
  shows "\<exists>i. esp_secure_cert_get_tlv_info_from_iterator hw (Some part) (Some (length (entries_bytes xs))) = Some (Some (ESP_OK, Some i)) \<and>
    info_view part i = entry_view e"
proof -
  have l: "en_type e \<noteq> ESP_SECURE_CERT_TLV_END" "plain_entry e" "en_subtype e \<noteq> ESP_SECURE_CERT_SUBTYPE_MAX" using assms(3) by (simp_all add: listable_def)
  from plain_read [OF assms(1) l(1) sought_itself [OF assms(2) _ l(3)] l(2) assms(4), folded part_def] obtain off where r:
    "esp_secure_cert_tlv_get_header hw (Some part) (en_type e) (en_subtype e) = Some (Some (ESP_OK, Some off))"
    "header_at part off = Some (header_of e)"
    "esp_secure_cert_tlv_get_addr hw (Some part) (en_type e) (en_subtype e) = Some (Some (ESP_OK, Some (In_flash (off + 12), length (en_value e))))"
    "buffer_bytes part (In_flash (off + 12)) (length (en_value e)) = en_value e" by auto
  have h: "header_at part (length (entries_bytes xs)) = Some (header_of e)"
    using at_entry(2) [of part "entries_bytes xs" e "entries_bytes ys @ rest"] fits_prefix [OF assms(1)] by (simp add: part_def)
  have v: "esp_secure_cert_verify_tlv_integrity hw part (length (entries_bytes xs)) = Some True"
    using verify_next [OF assms(1), of hw] assms(4) by (simp add: part_def)
  show ?thesis using r h v l(1)
    by (simp add: esp_secure_cert_get_tlv_info_from_iterator_def esp_secure_cert_get_tlv_info_def header_of_def info_view_def entry_view_def)
qed

lemma list_from:
  assumes "area_ok (xs @ x # ys) rest" "distinct_keys (xs @ x # ys)" "\<forall>e \<in> set (x # ys). listable e" "intact hw x"
  shows "\<exists>infos. list_loop hw (Some (entries_bytes (xs @ x # ys) @ rest)) (Some (length (entries_bytes xs))) shown = Some (Some (shown @ infos)) \<and>
    map (info_view (entries_bytes (xs @ x # ys) @ rest)) infos = map entry_view (takeWhile (intact hw) ys)"
  using assms
proof (induction ys arbitrary: xs x shown)
  case (Cons y ys)
  let ?part = "entries_bytes (xs @ x # y # ys) @ rest"
  have nxt: "esp_secure_cert_iterate_to_next_tlv hw (Some ?part) (Some (length (entries_bytes xs))) =
      Some (if intact hw y then (ESP_OK, Some (length (entries_bytes (xs @ [x])))) else (ESP_FAIL, Some (length (entries_bytes xs))))"
    using verify_next [OF Cons.prems(1), of hw] verify_next [of "xs @ [x]" "y # ys" rest hw] Cons.prems(1,4)
      at_entry(2) [of ?part "entries_bytes xs" x "entries_bytes (y # ys) @ rest"] fits_prefix [OF Cons.prems(1)] total_length_entry [of x]
    by (simp add: esp_secure_cert_iterate_to_next_tlv_def header_of_def)
  show ?case
  proof (cases "intact hw y")
    case True
    have shape: "area_ok ((xs @ [x]) @ y # ys) rest" "distinct_keys ((xs @ [x]) @ y # ys)" using Cons.prems(1,2) by simp_all
    from info_at [OF shape _ True] Cons.prems(3) obtain i where
      i: "esp_secure_cert_get_tlv_info_from_iterator hw (Some ?part) (Some (length (entries_bytes (xs @ [x])))) = Some (Some (ESP_OK, Some i))"
        "info_view ?part i = entry_view y" by auto
    from Cons.IH [OF shape _ True, of "shown @ [i]"] Cons.prems(3) obtain infos where
      "list_loop hw (Some ?part) (Some (length (entries_bytes (xs @ [x])))) (shown @ [i]) = Some (Some ((shown @ [i]) @ infos))"
      "map (info_view ?part) infos = map entry_view (takeWhile (intact hw) ys)" by auto
    then show ?thesis using nxt i True by (subst list_loop.simps) (auto intro!: exI [of _ "i # infos"])
  qed (use nxt in \<open>subst list_loop.simps, simp\<close>)
next
  case Nil
  have "esp_secure_cert_iterate_to_next_tlv hw (Some (entries_bytes (xs @ [x]) @ rest)) (Some (length (entries_bytes xs))) =
      Some (ESP_FAIL, Some (length (entries_bytes xs)))"
    using verify_next [OF Nil(1), of hw] verify_next [of "xs @ [x]" "[]" rest hw] Nil(1,4)
      at_entry(2) [of "entries_bytes (xs @ [x]) @ rest" "entries_bytes xs" x rest] fits_prefix [OF Nil(1)] total_length_entry [of x]
    by (simp add: esp_secure_cert_iterate_to_next_tlv_def header_of_def)
  then show ?case by (subst list_loop.simps) simp
qed

text \<open>The listing shows the entries up to the first damaged one. If no two entries have the same type and subtype, the
  iterator ends, and the printed entries have the types, subtypes, flags and values of the entries before the first with a wrong checksum, in their order.\<close>

theorem entries_are_listed:
  assumes "area_ok es rest" "distinct_keys es" "\<forall>e \<in> set es. listable e"
  shows "\<exists>infos. esp_secure_cert_list_tlv_entries hw (Some (entries_bytes es @ rest)) = Some (Some infos) \<and>
    map (info_view (entries_bytes es @ rest)) infos = map entry_view (takeWhile (intact hw) es)"
proof (cases es)
  case Nil
  then show ?thesis using verify_next [of "[]" "[]" rest hw] assms(1)
    by (simp add: esp_secure_cert_list_tlv_entries_def list_loop.simps esp_secure_cert_iterate_to_next_tlv_def)
next
  case (Cons x ys)
  let ?part = "entries_bytes es @ rest"
  have first: "esp_secure_cert_iterate_to_next_tlv hw (Some ?part) None = Some (if intact hw x then (ESP_OK, Some 0) else (ESP_FAIL, None))"
    using verify_next [of "[]" es rest hw] assms(1) Cons by (simp add: esp_secure_cert_iterate_to_next_tlv_def)
  show ?thesis
  proof (cases "intact hw x")
    case True
    have shape: "area_ok ([] @ x # ys) rest" "distinct_keys ([] @ x # ys)" "\<forall>e \<in> set (x # ys). listable e" using assms Cons by simp_all
    from info_at [OF shape(1,2) _ True] shape(3) obtain i where
      i: "esp_secure_cert_get_tlv_info_from_iterator hw (Some ?part) (Some 0) = Some (Some (ESP_OK, Some i))" "info_view ?part i = entry_view x"
      using Cons by auto
    from list_from [OF shape True, of "[i]"] obtain infos where
      "list_loop hw (Some ?part) (Some 0) [i] = Some (Some ([i] @ infos))" "map (info_view ?part) infos = map entry_view (takeWhile (intact hw) ys)"
      using Cons by auto
    then show ?thesis using first i True Cons
      by (simp add: esp_secure_cert_list_tlv_entries_def) (subst list_loop.simps, auto intro!: exI [of _ "i # infos"])
  qed (use first Cons in \<open>simp add: esp_secure_cert_list_tlv_entries_def list_loop.simps\<close>)
qed

section \<open>Instances\<close>

definition sum_hw :: cert_hw where
  "sum_hw = \<lparr>hw_crc = (\<lambda>b. word_of_nat (length b)), hw_hmac_up = False, hw_hmac = (\<lambda>_. Inl ESP_FAIL), hw_gcm_decrypt = (\<lambda>_ _ _ _. None),
     hw_pbkdf2 = (\<lambda>_. None), hw_to_der = (\<lambda>_. None), hw_alloc = (\<lambda>_. True)\<rparr>"

definition two_certs :: "entry list" where
  "two_certs = [\<lparr>en_flags = 0, en_type = 1, en_subtype = 0, en_value = [1, 2, 3], en_crc = 28\<rparr>,
     \<lparr>en_flags = 0, en_type = 0, en_subtype = 0, en_value = [9], en_crc = 0\<rparr>]"

lemma two_certs_ok: "area_ok two_certs [255, 255, 255, 255]" "\<forall>e \<in> set two_certs. listable e" "distinct_keys two_certs"
  by (simp_all add: area_ok_def two_certs_def entry_bytes_def entry_data_def esp_secure_cert_get_padding_length_def MIN_ALIGNMENT_REQUIRED_def
    listable_def plain_entry_def ESP_SECURE_CERT_IS_TLV_ENCRYPTED_def ESP_SECURE_CERT_HMAC_ECDSA_KEY_DERIVATION_def ESP_SECURE_CERT_TLV_END_def
    ESP_SECURE_CERT_SUBTYPE_MAX_def distinct_keys_def rd32_def ESP_SECURE_CERT_TLV_MAGIC_def)


theorem entries_are_listed_witness:
  "\<exists>infos. esp_secure_cert_list_tlv_entries sum_hw (Some (entries_bytes two_certs @ [255, 255, 255, 255])) = Some (Some infos) \<and>
    map (info_view (entries_bytes two_certs @ [255, 255, 255, 255])) infos = map entry_view (takeWhile (intact sum_hw) two_certs)"
  by (rule entries_are_listed [OF two_certs_ok(1,3,2)])

theorem oversized_entry_is_endless_witness:
  "esp_secure_cert_find_tlv sum_hw ([17, 186, 94, 186, 0, 0, 0, 0, 0, 0, 240, 255] @ replicate 20 0) 1 0 = None \<and>
   esp_secure_cert_tlv_get_addr sum_hw (Some ([17, 186, 94, 186, 0, 0, 0, 0, 0, 0, 240, 255] @ replicate 20 0)) 1 0 = None"
  by (rule oversized_entry_is_endless [where h = "\<lparr>tlv_flags = 0, tlv_type = 0, tlv_subtype = 0, tlv_length = 65520\<rparr>"])
    (simp_all add: word_at_def header_at_def memcpy_from_def rd32_def ESP_SECURE_CERT_TLV_MAGIC_def)

end
