(* ===== verification/LogHook.thy ===== *)
theory LogHook
  imports Prelude
begin

text \<open>
  managed_components/espressif__esp_diagnostics/src/esp_diagnostics_log_hook.c (with CONFIG_DIAG_LOG_MSG_ARG_FORMAT_TLV): the hook
  around the log functions, and the walk over a format string that records its arguments as type, length and value. The
  target has 32 bit integers and pointers. The variable arguments are a list of values of the size the caller passed; fetching one of another
  size, or one more than there are, is undefined behaviour, as is reading behind the NUL of the format, and both are \<open>None\<close>. The
  memory of strings, the clock and the task's name are a parameter.
\<close>

section \<open>The arguments of a format\<close>

datatype modifiers = MOD_NONE | MOD_hh | MOD_h | MOD_l | MOD_ll | MOD_j | MOD_t | MOD_z | MOD_L

datatype arg_type = ARG_TYPE_CHAR | ARG_TYPE_SHORT | ARG_TYPE_INT | ARG_TYPE_L | ARG_TYPE_LL | ARG_TYPE_INTMAX | ARG_TYPE_PTRDIFF
  | ARG_TYPE_UCHAR | ARG_TYPE_USHORT | ARG_TYPE_UINT | ARG_TYPE_UL | ARG_TYPE_ULL | ARG_TYPE_UINTMAX | ARG_TYPE_SIZE | ARG_TYPE_DOUBLE
  | ARG_TYPE_LDOUBLE | ARG_TYPE_STR

fun type_code :: "arg_type \<Rightarrow> u8" where
  "type_code ARG_TYPE_CHAR = 0" | "type_code ARG_TYPE_SHORT = 1" | "type_code ARG_TYPE_INT = 2" | "type_code ARG_TYPE_L = 3"
| "type_code ARG_TYPE_LL = 4" | "type_code ARG_TYPE_INTMAX = 5" | "type_code ARG_TYPE_PTRDIFF = 6" | "type_code ARG_TYPE_UCHAR = 7"
| "type_code ARG_TYPE_USHORT = 8" | "type_code ARG_TYPE_UINT = 9" | "type_code ARG_TYPE_UL = 10" | "type_code ARG_TYPE_ULL = 11"
| "type_code ARG_TYPE_UINTMAX = 12" | "type_code ARG_TYPE_SIZE = 13" | "type_code ARG_TYPE_DOUBLE = 14" | "type_code ARG_TYPE_LDOUBLE = 15"
| "type_code ARG_TYPE_STR = 16"

datatype c_arg = Word32 u32 | Word64 u64 | Long_double bytes

text \<open>The bytes of a value of the given length in the union it is stored in.\<close>

definition small :: "nat \<Rightarrow> u32 \<Rightarrow> bytes" where
  "small len w = take len (le32 w)"

definition append_arg :: "bytes \<Rightarrow> nat \<Rightarrow> arg_type \<Rightarrow> bytes \<Rightarrow> bytes option" where
  "append_arg args max_len type value =
     (if length args + 2 + length value > max_len then None else Some (args @ [type_code type, word_of_nat (length value)] @ value))"

text \<open>A character of the format, with the NUL at its end.\<close>

definition fmt_at :: "string \<Rightarrow> nat \<Rightarrow> char option" where
  "fmt_at fmt p = (if p < length fmt then Some (fmt ! p) else if p = length fmt then Some (CHR 0x00) else None)"

function skip_while :: "(char \<Rightarrow> bool) \<Rightarrow> string \<Rightarrow> nat \<Rightarrow> nat option" where
  "skip_while P fmt p = (case fmt_at fmt p of None \<Rightarrow> None | Some c \<Rightarrow> if P c then skip_while P fmt (p + 1) else Some p)"
  by pat_completeness auto
termination by (relation "measure (\<lambda>(P, fmt, p). length fmt + 1 - p)") (auto simp: fmt_at_def split: if_splits)

declare skip_while.simps [simp del]

definition is_flag :: "char \<Rightarrow> bool" where
  "is_flag c \<longleftrightarrow> c \<in> {CHR ''#'', CHR ''0'', CHR ''-'', CHR '' '', CHR ''+'', CHR 0x27}"

definition is_num :: "char \<Rightarrow> bool" where
  "is_num c \<longleftrightarrow> c \<in> set ''0123456789''"

text \<open>Flags, width and precision.\<close>

definition skip_prefix :: "string \<Rightarrow> nat \<Rightarrow> nat option" where
  "skip_prefix fmt p =
     Option.bind (skip_while is_flag fmt p) (\<lambda>p1.
     Option.bind (skip_while is_num fmt p1) (\<lambda>p2.
     Option.bind (fmt_at fmt p2) (\<lambda>c. if c = CHR ''.'' then skip_while is_num fmt (p2 + 1) else Some p2)))"

text \<open>One letter of a length modifier; the length is that of the value.\<close>

definition mod_letter :: "char \<Rightarrow> modifiers \<Rightarrow> (modifiers \<times> nat) option" where
  "mod_letter c mf =
     (if c = CHR ''h'' then Some (if mf = MOD_h then (MOD_hh, 1) else (MOD_h, 2))
      else if c = CHR ''l'' then Some (if mf = MOD_l then (MOD_ll, 8) else (MOD_l, 4))
      else if c = CHR ''j'' then Some (MOD_j, 8)
      else if c = CHR ''t'' then Some (MOD_t, 4)
      else if c = CHR ''z'' then Some (MOD_z, 4)
      else if c = CHR ''L'' then Some (MOD_L, 16)
      else None)"

function mod_loop :: "string \<Rightarrow> nat \<Rightarrow> modifiers \<Rightarrow> nat \<Rightarrow> (nat \<times> modifiers \<times> nat) option" where
  "mod_loop fmt p mf len =
     (case fmt_at fmt p of None \<Rightarrow> None
      | Some c \<Rightarrow> (case mod_letter c mf of Some (mf1, len1) \<Rightarrow> mod_loop fmt (p + 1) mf1 len1 | None \<Rightarrow> Some (p, mf, len)))"
  by pat_completeness auto
termination by (relation "measure (\<lambda>(fmt, p, mf, len). length fmt + 1 - p)") (auto simp: fmt_at_def split: if_splits)

declare mod_loop.simps [simp del]

fun va_word :: "c_arg list \<Rightarrow> (u32 \<times> c_arg list) option" where
  "va_word (Word32 w # ap) = Some (w, ap)"
| "va_word _ = None"

fun va_dword :: "c_arg list \<Rightarrow> (u64 \<times> c_arg list) option" where
  "va_dword (Word64 w # ap) = Some (w, ap)"
| "va_dword _ = None"

fun va_ldouble :: "c_arg list \<Rightarrow> (bytes \<times> c_arg list) option" where
  "va_ldouble (Long_double b # ap) = Some (b, ap)"
| "va_ldouble _ = None"

text \<open>What a conversion fetches: the element to append, if any, and the other arguments.\<close>

type_synonym fetched = "((arg_type \<times> bytes) option \<times> c_arg list) option"

definition fetch_word :: "arg_type \<Rightarrow> nat \<Rightarrow> c_arg list \<Rightarrow> fetched" where
  "fetch_word type len ap = map_option (\<lambda>(w, ap1). (Some (type, small len w), ap1)) (va_word ap)"

definition fetch_dword :: "arg_type \<Rightarrow> c_arg list \<Rightarrow> fetched" where
  "fetch_dword type ap = map_option (\<lambda>(w, ap1). (Some (type, le64 w), ap1)) (va_dword ap)"

fun fetch_signed :: "modifiers \<Rightarrow> nat \<Rightarrow> c_arg list \<Rightarrow> fetched" where
  "fetch_signed MOD_NONE len ap = fetch_word ARG_TYPE_INT 4 ap"
| "fetch_signed MOD_z len ap = fetch_word ARG_TYPE_INT 4 ap"
| "fetch_signed MOD_hh len ap = fetch_word ARG_TYPE_CHAR len ap"
| "fetch_signed MOD_h len ap = fetch_word ARG_TYPE_SHORT len ap"
| "fetch_signed MOD_l len ap = fetch_word ARG_TYPE_L len ap"
| "fetch_signed MOD_ll len ap = fetch_dword ARG_TYPE_LL ap"
| "fetch_signed MOD_j len ap = fetch_dword ARG_TYPE_INTMAX ap"
| "fetch_signed MOD_t len ap = fetch_word ARG_TYPE_PTRDIFF len ap"
| "fetch_signed MOD_L len ap = Some (None, ap)"

fun fetch_unsigned :: "modifiers \<Rightarrow> nat \<Rightarrow> c_arg list \<Rightarrow> fetched" where
  "fetch_unsigned MOD_NONE len ap = fetch_word ARG_TYPE_UINT 4 ap"
| "fetch_unsigned MOD_t len ap = fetch_word ARG_TYPE_UINT 4 ap"
| "fetch_unsigned MOD_hh len ap = fetch_word ARG_TYPE_UCHAR len ap"
| "fetch_unsigned MOD_h len ap = fetch_word ARG_TYPE_USHORT len ap"
| "fetch_unsigned MOD_l len ap = fetch_word ARG_TYPE_UL len ap"
| "fetch_unsigned MOD_ll len ap = fetch_dword ARG_TYPE_ULL ap"
| "fetch_unsigned MOD_j len ap = fetch_dword ARG_TYPE_UINTMAX ap"
| "fetch_unsigned MOD_z len ap = fetch_word ARG_TYPE_SIZE len ap"
| "fetch_unsigned MOD_L len ap = Some (None, ap)"

fun fetch_float :: "modifiers \<Rightarrow> c_arg list \<Rightarrow> fetched" where
  "fetch_float MOD_NONE ap = fetch_dword ARG_TYPE_DOUBLE ap"
| "fetch_float MOD_l ap = fetch_dword ARG_TYPE_DOUBLE ap"
| "fetch_float MOD_L ap = map_option (\<lambda>(b, ap1). (Some (ARG_TYPE_LDOUBLE, b), ap1)) (va_ldouble ap)"
| "fetch_float mf ap = Some (None, ap)"

text \<open>A string is at the address of the argument; its length is cut to 8 bits.\<close>

definition fetch_string :: "(u32 \<Rightarrow> string) \<Rightarrow> c_arg list \<Rightarrow> fetched" where
  "fetch_string str_at ap =
     map_option (\<lambda>(a, ap1).
         let str = (if a = 0 then [] else map of_char (str_at a)) in (Some (ARG_TYPE_STR, take (length str mod 256) str), ap1))
       (va_word ap)"

definition fetch :: "(u32 \<Rightarrow> string) \<Rightarrow> char \<Rightarrow> modifiers \<Rightarrow> nat \<Rightarrow> c_arg list \<Rightarrow> fetched" where
  "fetch str_at c mf len ap =
     (if c = CHR ''D'' then fetch_word ARG_TYPE_L 4 ap
      else if c \<in> {CHR ''d'', CHR ''i''} then fetch_signed mf len ap
      else if c \<in> {CHR ''O'', CHR ''U''} then fetch_word ARG_TYPE_ULL 4 ap
      else if c \<in> {CHR ''o'', CHR ''u'', CHR ''x'', CHR ''X'', CHR ''p''} then fetch_unsigned mf len ap
      else if c \<in> {CHR ''a'', CHR ''A'', CHR ''e'', CHR ''E'', CHR ''f'', CHR ''F'', CHR ''g'', CHR ''G''} then fetch_float mf ap
      else if c = CHR ''c'' then fetch_word ARG_TYPE_CHAR 1 ap
      else if c = CHR ''s'' then fetch_string str_at ap
      else map_option (\<lambda>(w, ap1). (None, ap1)) (va_word ap))"

lemma skip_while_mono: "skip_while P fmt p = Some q \<Longrightarrow> p \<le> q"
proof (induction P fmt p rule: skip_while.induct)
  case (1 P fmt p)
  then show ?case by (subst (asm) (2) skip_while.simps) (fastforce split: option.splits if_splits)
qed

lemma mod_loop_mono: "mod_loop fmt p mf len = Some (q, mf1, len1) \<Longrightarrow> p \<le> q"
proof (induction fmt p mf len rule: mod_loop.induct)
  case (1 fmt p mf len)
  then show ?case by (subst (asm) (2) mod_loop.simps) (fastforce split: option.splits prod.splits)
qed

lemma skip_prefix_mono: "skip_prefix fmt p = Some q \<Longrightarrow> p \<le> q"
  by (auto simp: skip_prefix_def bind_eq_Some_conv dest!: skip_while_mono split: if_splits)

text \<open>The walk over the format.\<close>

function tlv_loop :: "(u32 \<Rightarrow> string) \<Rightarrow> nat \<Rightarrow> string \<Rightarrow> nat \<Rightarrow> c_arg list \<Rightarrow> bytes \<Rightarrow> bytes option" where
  "tlv_loop str_at max_len fmt p ap out =
     (case fmt_at fmt p of None \<Rightarrow> None
      | Some c \<Rightarrow>
          if c = CHR 0x00 then Some out
          else if c \<noteq> CHR ''%'' then tlv_loop str_at max_len fmt (p + 1) ap out
          else
            (case skip_prefix fmt (p + 1) of None \<Rightarrow> None
             | Some p1 \<Rightarrow>
                 (case mod_loop fmt p1 MOD_NONE 0 of None \<Rightarrow> None
                  | Some (p2, mf, len) \<Rightarrow>
                      (case Option.bind (fmt_at fmt p2) (\<lambda>c. fetch str_at c mf len ap) of None \<Rightarrow> None
                       | Some (None, ap1) \<Rightarrow> tlv_loop str_at max_len fmt (p2 + 1) ap1 out
                       | Some (Some (type, value), ap1) \<Rightarrow>
                           (case append_arg out max_len type value of None \<Rightarrow> Some out
                            | Some out1 \<Rightarrow> tlv_loop str_at max_len fmt (p2 + 1) ap1 out1)))))"
  by pat_completeness auto
termination
proof (relation "measure (\<lambda>(str_at, max_len, fmt, p, ap, out). length fmt + 1 - p)")
qed (auto simp: fmt_at_def dest!: skip_prefix_mono mod_loop_mono split: if_splits)

declare tlv_loop.simps [simp del]

definition get_tlv_from_ap :: "(u32 \<Rightarrow> string) \<Rightarrow> nat \<Rightarrow> string \<Rightarrow> c_arg list \<Rightarrow> bytes option" where
  "get_tlv_from_ap str_at max_len fmt ap = tlv_loop str_at max_len fmt 0 ap []"

section \<open>The hook\<close>

datatype log_type = ESP_DIAG_LOG_TYPE_ERROR | ESP_DIAG_LOG_TYPE_WARNING | ESP_DIAG_LOG_TYPE_EVENT

fun log_type_bit :: "log_type \<Rightarrow> u32" where
  "log_type_bit ESP_DIAG_LOG_TYPE_ERROR = 1"
| "log_type_bit ESP_DIAG_LOG_TYPE_WARNING = 2"
| "log_type_bit ESP_DIAG_LOG_TYPE_EVENT = 4"

datatype log_level = ESP_LOG_NONE | ESP_LOG_ERROR | ESP_LOG_WARN | ESP_LOG_INFO | ESP_LOG_DEBUG | ESP_LOG_VERBOSE

definition CONFIG_DIAG_LOG_MSG_ARG_MAX_SIZE :: nat where "CONFIG_DIAG_LOG_MSG_ARG_MAX_SIZE = 64"

record log_data =
  ld_type :: log_type
  ld_pc :: u32
  ld_timestamp :: u64
  ld_tag :: string
  ld_msg_ptr :: string
  ld_msg_args :: bytes
  ld_task_name :: string

record log_env =
  env_str_at :: "u32 \<Rightarrow> string"
  env_timestamp :: u64
  env_task_name :: "string option"

text \<open>The registered callback, if any, and what it was called with.\<close>

record log_hook =
  enabled_log_type :: u32
  hook_init :: bool
  hook_write_cb :: "(log_data \<Rightarrow> esp_err) option"
  hook_written :: "log_data list"

definition log_hook_boot :: log_hook where
  "log_hook_boot = \<lparr>enabled_log_type = 0, hook_init = False, hook_write_cb = None, hook_written = []\<rparr>"

definition IS_LOG_TYPE_ENABLED :: "log_type \<Rightarrow> log_hook \<Rightarrow> bool" where
  "IS_LOG_TYPE_ENABLED type s \<longleftrightarrow> hook_init s \<and> log_type_bit type AND enabled_log_type s \<noteq> 0"

definition hook_write_data :: "log_data \<Rightarrow> log_hook \<Rightarrow> esp_err \<times> log_hook" where
  "hook_write_data d s =
     (case hook_write_cb s of None \<Rightarrow> (ESP_FAIL, s) | Some cb \<Rightarrow> (cb d, s\<lparr>hook_written := hook_written s @ [d]\<rparr>))"

definition diag_log_add ::
  "log_env \<Rightarrow> log_type \<Rightarrow> u32 \<Rightarrow> string \<Rightarrow> string \<Rightarrow> c_arg list \<Rightarrow> log_hook \<Rightarrow> (esp_err \<times> log_hook) option" where
  "diag_log_add env type pc tag fmt ap s =
     (if \<not> IS_LOG_TYPE_ENABLED type s then Some (ESP_ERR_NOT_FOUND, s)
      else
        map_option (\<lambda>args. hook_write_data
            \<lparr>ld_type = type, ld_pc = pc, ld_timestamp = env_timestamp env, ld_tag = take 15 tag, ld_msg_ptr = fmt, ld_msg_args = args,
             ld_task_name = (case env_task_name env of None \<Rightarrow> [] | Some n \<Rightarrow> take 15 n)\<rparr> s)
          (get_tlv_from_ap (env_str_at env) CONFIG_DIAG_LOG_MSG_ARG_MAX_SIZE fmt ap))"

definition esp_diag_log_event :: "log_env \<Rightarrow> u32 \<Rightarrow> string \<Rightarrow> string \<Rightarrow> c_arg list \<Rightarrow> log_hook \<Rightarrow> (esp_err \<times> log_hook) option" where
  "esp_diag_log_event env pc tag fmt ap s = diag_log_add env ESP_DIAG_LOG_TYPE_EVENT pc tag fmt ap s"

definition esp_diag_log_hook_enable :: "u32 \<Rightarrow> log_hook \<Rightarrow> log_hook" where
  "esp_diag_log_hook_enable type s = s\<lparr>enabled_log_type := enabled_log_type s OR type\<rparr>"

definition esp_diag_log_hook_disable :: "u32 \<Rightarrow> log_hook \<Rightarrow> log_hook" where
  "esp_diag_log_hook_disable type s = s\<lparr>enabled_log_type := enabled_log_type s AND NOT type\<rparr>"

definition esp_diag_log :: "log_env \<Rightarrow> log_level \<Rightarrow> u32 \<Rightarrow> string \<Rightarrow> string \<Rightarrow> c_arg list \<Rightarrow> log_hook \<Rightarrow> log_hook option" where
  "esp_diag_log env level pc tag fmt ap s =
     (if level = ESP_LOG_ERROR then map_option snd (diag_log_add env ESP_DIAG_LOG_TYPE_ERROR pc tag fmt ap s)
      else if level = ESP_LOG_WARN then map_option snd (diag_log_add env ESP_DIAG_LOG_TYPE_WARNING pc tag fmt ap s)
      else Some s)"

text \<open>A configuration is null or holds a callback that may be null; with a null configuration its callback is read through the null pointer.\<close>

definition esp_diag_log_hook_init :: "(log_data \<Rightarrow> esp_err) option option \<Rightarrow> log_hook \<Rightarrow> (esp_err \<times> log_hook) option" where
  "esp_diag_log_hook_init config s =
     (case config of None \<Rightarrow> None
      | Some cb \<Rightarrow> Some (if hook_init s then (ESP_FAIL, s) else (ESP_OK, s\<lparr>hook_write_cb := cb, hook_init := True\<rparr>)))"

definition esp_diag_log_writev :: "bool \<Rightarrow> log_env \<Rightarrow> log_level \<Rightarrow> u32 \<Rightarrow> string \<Rightarrow> string \<Rightarrow> c_arg list \<Rightarrow> log_hook \<Rightarrow> log_hook option" where
  "esp_diag_log_writev drop_wifi env level pc tag fmt ap s =
     (if \<not> drop_wifi \<and> tag = ''wifi'' then esp_diag_log env level pc tag fmt ap s else Some s)"

definition esp_diag_log_write :: "log_env \<Rightarrow> log_level \<Rightarrow> u32 \<Rightarrow> string \<Rightarrow> string \<Rightarrow> c_arg list \<Rightarrow> log_hook \<Rightarrow> log_hook option" where
  "esp_diag_log_write env level pc tag fmt ap s =
     (if tag \<noteq> ''wifi'' then esp_diag_log env level pc tag fmt ap s else Some s)"

text \<open>The wrapped functions; the function of the system that prints the log is not modelled.\<close>

definition wrap_esp_log_writev :: "log_env \<Rightarrow> log_level \<Rightarrow> u32 \<Rightarrow> string \<Rightarrow> string \<Rightarrow> c_arg list \<Rightarrow> log_hook \<Rightarrow> log_hook option" where
  "wrap_esp_log_writev env level pc tag fmt ap s = esp_diag_log_write env level pc tag fmt ap s"

definition wrap_esp_log_write :: "bool \<Rightarrow> log_env \<Rightarrow> log_level \<Rightarrow> u32 \<Rightarrow> string \<Rightarrow> string \<Rightarrow> c_arg list \<Rightarrow> log_hook \<Rightarrow> log_hook option" where
  "wrap_esp_log_write drop_wifi env level pc tag fmt ap s =
     Option.bind (esp_diag_log_writev drop_wifi env level pc tag fmt ap s) (\<lambda>s1.
       wrap_esp_log_writev env level pc tag fmt ap s1)"

section \<open>Formats\<close>

record directive =
  d_flags :: string
  d_width :: string
  d_precision :: "string option"
  d_modifier :: string
  d_conversion :: char

datatype piece = Text string | Directive directive

definition directive_text :: "directive \<Rightarrow> string" where
  "directive_text d = ''%'' @ d_flags d @ d_width d @ (case d_precision d of None \<Rightarrow> [] | Some x \<Rightarrow> ''.'' @ x) @ d_modifier d @ [d_conversion d]"

fun piece_text :: "piece \<Rightarrow> string" where
  "piece_text (Text s) = s"
| "piece_text (Directive d) = directive_text d"

definition format_text :: "piece list \<Rightarrow> string" where
  "format_text ps = concat (map piece_text ps)"

definition conversion_letters :: string where
  "conversion_letters = ''DdiOUouxXpaAeEfFgGcs''"

definition modifier_table :: "(string \<times> modifiers \<times> nat) list" where
  "modifier_table = [([], MOD_NONE, 0), (''hh'', MOD_hh, 1), (''h'', MOD_h, 2), (''l'', MOD_l, 4), (''ll'', MOD_ll, 8), (''j'', MOD_j, 8),
     (''t'', MOD_t, 4), (''z'', MOD_z, 4), (''L'', MOD_L, 16)]"

text \<open>A width begins with another digit than 0, which is a flag.\<close>

fun piece_ok :: "piece \<Rightarrow> bool" where
  "piece_ok (Text s) \<longleftrightarrow> CHR ''%'' \<notin> set s \<and> CHR 0x00 \<notin> set s"
| "piece_ok (Directive d) \<longleftrightarrow> list_all is_flag (d_flags d) \<and> list_all is_num (d_width d) \<and> (d_width d \<noteq> [] \<longrightarrow> hd (d_width d) \<noteq> CHR ''0'') \<and>
     (case d_precision d of None \<Rightarrow> True | Some x \<Rightarrow> list_all is_num x) \<and> map_of modifier_table (d_modifier d) \<noteq> None \<and>
     d_conversion d \<in> set conversion_letters"

text \<open>The elements for the arguments a format asks for; \<open>None\<close> if the arguments are not of the kinds it asks for.\<close>

fun recorded :: "(u32 \<Rightarrow> string) \<Rightarrow> piece list \<Rightarrow> c_arg list \<Rightarrow> (arg_type \<times> bytes) list option" where
  "recorded str_at [] ap = Some []"
| "recorded str_at (Text s # ps) ap = recorded str_at ps ap"
| "recorded str_at (Directive d # ps) ap =
     (case map_of modifier_table (d_modifier d) of None \<Rightarrow> None
      | Some (mf, len) \<Rightarrow>
          (case fetch str_at (d_conversion d) mf len ap of None \<Rightarrow> None
           | Some (e, ap1) \<Rightarrow> map_option (\<lambda>es. case e of None \<Rightarrow> es | Some x \<Rightarrow> x # es) (recorded str_at ps ap1)))"

definition element_bytes :: "arg_type \<times> bytes \<Rightarrow> bytes" where
  "element_bytes e = [type_code (fst e), word_of_nat (length (snd e))] @ snd e"

definition elements_bytes :: "(arg_type \<times> bytes) list \<Rightarrow> bytes" where
  "elements_bytes es = concat (map element_bytes es)"

lemma elements_bytes_simps [simp]: "elements_bytes [] = []" "elements_bytes (e # es) = element_bytes e @ elements_bytes es"
  by (simp_all add: elements_bytes_def)

lemma fmt_at_append: "xs \<noteq> [] \<Longrightarrow> fmt_at (pre @ xs) (length pre) = Some (hd xs)"
  by (cases xs) (simp_all add: fmt_at_def)

lemma fmt_at_end: "fmt_at fmt (length fmt) = Some (CHR 0x00)"
  by (simp add: fmt_at_def)

lemma skip_while_over:
  assumes "list_all P xs" "ys \<noteq> []" "\<not> P (hd ys)"
  shows "skip_while P (pre @ xs @ ys) (length pre) = Some (length (pre @ xs))"
  using assms(1)
proof (induction xs arbitrary: pre)
  case Nil
  then show ?case using assms(2,3) fmt_at_append [of ys pre] by (subst skip_while.simps) simp
next
  case (Cons x xs)
  from Cons.IH [of "pre @ [x]"] Cons.prems have "skip_while P (pre @ (x # xs) @ ys) (length pre + 1) = Some (length (pre @ x # xs))" by simp
  then show ?case using Cons.prems fmt_at_append [of "(x # xs) @ ys" pre] by (subst skip_while.simps) simp
qed

lemma conversion_facts:
  assumes "c \<in> set conversion_letters"
  shows "\<not> is_flag c" "\<not> is_num c" "c \<noteq> CHR ''.''" "mod_letter c mf = None" "c \<noteq> CHR 0x00"
  using assms by (auto simp: conversion_letters_def is_flag_def is_num_def mod_letter_def)

lemma modifier_facts:
  assumes "map_of modifier_table m = Some x" "m \<noteq> []"
  shows "\<not> is_flag (hd m)" "\<not> is_num (hd m)" "hd m \<noteq> CHR ''.''"
  using assms by (auto simp: modifier_table_def is_flag_def is_num_def split: if_splits)

lemma mod_loop_reads:
  assumes "map_of modifier_table m = Some (mf, len)" "c \<in> set conversion_letters"
  shows "mod_loop (pre @ m @ c # post) (length pre) MOD_NONE 0 = Some (length (pre @ m), mf, len)"
proof -
  have stop: "mod_loop (xs @ c # post) (length xs) mf' len' = Some (length xs, mf', len')" for xs mf' len'
    using conversion_facts(4) [OF assms(2)] fmt_at_append [of "c # post" xs] by (subst mod_loop.simps) simp
  have go: "mod_loop (xs @ a # ys) (length xs) mf' len' = mod_loop ((xs @ [a]) @ ys) (length (xs @ [a])) mf1 len1"
    if "mod_letter a mf' = Some (mf1, len1)" for xs a ys mf' len' mf1 len1
    using that fmt_at_append [of "a # ys" xs] by (subst mod_loop.simps) simp
  have "m = [] \<or> (\<exists>a. m = [a] \<and> mod_letter a MOD_NONE = Some (mf, len)) \<or>
      (\<exists>a mf1 len1. m = [a, a] \<and> mod_letter a MOD_NONE = Some (mf1, len1) \<and> mod_letter a mf1 = Some (mf, len))"
    using map_of_SomeD [OF assms(1)] unfolding modifier_table_def list.set insert_iff empty_iff
    by (elim disjE) (simp_all add: mod_letter_def)
  then show ?thesis
  proof (elim disjE exE conjE)
    assume "m = []"
    then show ?thesis using assms(1) stop [of pre] by (simp add: modifier_table_def)
  next
    fix a assume a: "m = [a]" "mod_letter a MOD_NONE = Some (mf, len)"
    then show ?thesis using go [OF a(2), of pre "c # post" 0] stop [of "pre @ [a]"] by simp
  next
    fix a mf1 len1 assume a: "m = [a, a]" "mod_letter a MOD_NONE = Some (mf1, len1)" "mod_letter a mf1 = Some (mf, len)"
    then show ?thesis using go [OF a(2), of pre "a # c # post" 0] go [OF a(3), of "pre @ [a]" "c # post" len1] stop [of "pre @ [a, a]"] by simp
  qed
qed

lemma skip_prefix_reads:
  assumes "piece_ok (Directive d)"
  shows "skip_prefix (pre @ d_flags d @ d_width d @ (case d_precision d of None \<Rightarrow> [] | Some x \<Rightarrow> ''.'' @ x) @ d_modifier d @ d_conversion d # post) (length pre) =
    Some (length (pre @ d_flags d @ d_width d @ (case d_precision d of None \<Rightarrow> [] | Some x \<Rightarrow> ''.'' @ x)))"
proof -
  define m where "m = d_modifier d @ d_conversion d # post"
  define p where "p = (case d_precision d of None \<Rightarrow> [] | Some x \<Rightarrow> ''.'' @ x)"
  have ok: "list_all is_flag (d_flags d)" "list_all is_num (d_width d)" "d_width d \<noteq> [] \<Longrightarrow> hd (d_width d) \<noteq> CHR ''0''"
    using assms by simp_all
  have m: "m \<noteq> []" "\<not> is_flag (hd m)" "\<not> is_num (hd m)" "hd m \<noteq> CHR ''.''"
    using assms conversion_facts [of "d_conversion d"] modifier_facts [of "d_modifier d"] unfolding m_def by (cases "d_modifier d"; auto)+
  have pm: "p @ m \<noteq> []" "\<not> is_flag (hd (p @ m))" "\<not> is_num (hd (p @ m))"
    using m unfolding p_def by (auto simp: is_flag_def is_num_def split: option.splits)
  have wm: "d_width d @ p @ m \<noteq> []" "\<not> is_flag (hd (d_width d @ p @ m))"
  proof -
    show "\<not> is_flag (hd (d_width d @ p @ m))"
      using pm(2) ok(2,3) by (cases "d_width d") (auto simp: is_flag_def is_num_def)
  qed (use m in simp)
  from skip_while_over [OF ok(1) wm, of pre]
  have s1: "skip_while is_flag (pre @ d_flags d @ d_width d @ p @ m) (length pre) = Some (length (pre @ d_flags d))" .
  from skip_while_over [OF ok(2) pm(1,3), of "pre @ d_flags d"]
  have s2: "skip_while is_num (pre @ d_flags d @ d_width d @ p @ m) (length (pre @ d_flags d)) = Some (length (pre @ d_flags d @ d_width d))" by simp
  have s3: "fmt_at (pre @ d_flags d @ d_width d @ p @ m) (length (pre @ d_flags d @ d_width d)) = Some (hd (p @ m))"
    using fmt_at_append [OF pm(1), of "pre @ d_flags d @ d_width d"] by simp
  have "skip_prefix (pre @ d_flags d @ d_width d @ p @ m) (length pre) = Some (length (pre @ d_flags d @ d_width d @ p))"
  proof (cases "d_precision d")
    case None
    then show ?thesis using s1 s2 s3 m(4) by (simp add: skip_prefix_def p_def)
  next
    case (Some x)
    then have "list_all is_num x" using assms by simp
    from skip_while_over [OF this m(1,3), of "pre @ d_flags d @ d_width d @ ''.''"] Some s1 s2 s3 show ?thesis
      by (simp add: skip_prefix_def p_def)
  qed
  then show ?thesis unfolding p_def m_def .
qed

text \<open>One piece of the format.\<close>

lemma text_step:
  assumes "CHR ''%'' \<notin> set s" "CHR 0x00 \<notin> set s"
  shows "tlv_loop str_at max_len (pre @ s @ post) (length pre) ap out = tlv_loop str_at max_len (pre @ s @ post) (length (pre @ s)) ap out"
  using assms
proof (induction s arbitrary: pre)
  case (Cons c s)
  have "tlv_loop str_at max_len (pre @ (c # s) @ post) (length pre) ap out = tlv_loop str_at max_len (pre @ (c # s) @ post) (length pre + 1) ap out"
  proof -
    have "c \<noteq> CHR ''%''" "c \<noteq> CHR 0x00" using Cons.prems by auto
    then show ?thesis using fmt_at_append [of "(c # s) @ post" pre] by (subst tlv_loop.simps) simp
  qed
  then show ?case using Cons.IH [of "pre @ [c]"] Cons.prems by simp
qed simp

lemma directive_step:
  assumes "piece_ok (Directive d)" "map_of modifier_table (d_modifier d) = Some (mf, len)"
    "fetch str_at (d_conversion d) mf len ap = Some (e, ap1)"
  shows "tlv_loop str_at max_len (pre @ directive_text d @ post) (length pre) ap out =
    (case e of None \<Rightarrow> tlv_loop str_at max_len (pre @ directive_text d @ post) (length (pre @ directive_text d)) ap1 out
     | Some (type, val) \<Rightarrow>
         (case append_arg out max_len type val of None \<Rightarrow> Some out
          | Some out1 \<Rightarrow> tlv_loop str_at max_len (pre @ directive_text d @ post) (length (pre @ directive_text d)) ap1 out1))"
proof -
  let ?b = "d_flags d @ d_width d @ (case d_precision d of None \<Rightarrow> [] | Some x \<Rightarrow> ''.'' @ x)"
  define fmt where "fmt = pre @ directive_text d @ post"
  define q where "q = length ((pre @ ''%'' @ ?b) @ d_modifier d)"
  have c: "d_conversion d \<in> set conversion_letters" using assms(1) by simp
  have f1: "fmt = (pre @ ''%'') @ d_flags d @ d_width d @ (case d_precision d of None \<Rightarrow> [] | Some x \<Rightarrow> ''.'' @ x) @ d_modifier d @ d_conversion d # post"
    and f2: "fmt = (pre @ ''%'' @ ?b) @ d_modifier d @ d_conversion d # post"
    and f3: "fmt = ((pre @ ''%'' @ ?b) @ d_modifier d) @ d_conversion d # post" by (simp_all add: directive_text_def fmt_def)
  have s1: "fmt_at fmt (length pre) = Some (CHR ''%'')"
    using fmt_at_append [of "directive_text d @ post" pre] by (simp add: directive_text_def fmt_def)
  have s2: "skip_prefix fmt (length pre + 1) = Some (length (pre @ ''%'' @ ?b))"
    using skip_prefix_reads [OF assms(1), of "pre @ ''%''" post] unfolding f1 [symmetric] by simp
  have s3: "mod_loop fmt (length (pre @ ''%'' @ ?b)) MOD_NONE 0 = Some (q, mf, len)"
    unfolding f2 q_def by (rule mod_loop_reads [OF assms(2) c])
  have s4: "fmt_at fmt q = Some (d_conversion d)"
    unfolding f3 q_def by (subst fmt_at_append) simp_all
  have s5: "length (pre @ directive_text d) = q + 1" by (simp add: directive_text_def q_def)
  show ?thesis unfolding fmt_def [symmetric] s5
    by (subst tlv_loop.simps) (use s1 s2 s3 s4 assms(3) in \<open>simp split: option.splits\<close>)
qed


text \<open>What the walk does not handle: a percent sign written twice takes an argument, and a format that ends in one is read behind its end.\<close>

lemma percent_sign_takes_an_argument: "get_tlv_from_ap (\<lambda>_. []) 64 ''100%% of %d'' [Word32 7] = None"
  by code_simp

lemma percent_sign_shifts_arguments:
  "get_tlv_from_ap (\<lambda>_. []) 64 ''%d%% of %d'' [Word32 5, Word32 6, Word32 7] = Some [2, 4, 5, 0, 0, 0, 2, 4, 7, 0, 0, 0]"
  by code_simp

lemma format_ending_in_percent: "get_tlv_from_ap (\<lambda>_. []) 64 ''done 100%'' [Word32 7] = None"
  by code_simp

section \<open>What is written\<close>

definition log_record :: "log_env \<Rightarrow> log_type \<Rightarrow> u32 \<Rightarrow> string \<Rightarrow> string \<Rightarrow> bytes \<Rightarrow> log_data" where
  "log_record env type pc tag fmt args =
     \<lparr>ld_type = type, ld_pc = pc, ld_timestamp = env_timestamp env, ld_tag = take 15 tag, ld_msg_ptr = fmt, ld_msg_args = args,
      ld_task_name = (case env_task_name env of None \<Rightarrow> [] | Some n \<Rightarrow> take 15 n)\<rparr>"

fun type_of_level :: "log_level \<Rightarrow> log_type option" where
  "type_of_level ESP_LOG_ERROR = Some ESP_DIAG_LOG_TYPE_ERROR"
| "type_of_level ESP_LOG_WARN = Some ESP_DIAG_LOG_TYPE_WARNING"
| "type_of_level _ = None"

text \<open>The records for a message: one, if its level is recorded and enabled.\<close>

definition expected_records :: "log_env \<Rightarrow> log_level \<Rightarrow> u32 \<Rightarrow> string \<Rightarrow> string \<Rightarrow> bytes \<Rightarrow> log_hook \<Rightarrow> log_data list" where
  "expected_records env level pc tag fmt args s =
     (case type_of_level level of None \<Rightarrow> []
      | Some type \<Rightarrow> if IS_LOG_TYPE_ENABLED type s then [log_record env type pc tag fmt args] else [])"

lemma esp_diag_log_records:
  assumes "get_tlv_from_ap (env_str_at env) CONFIG_DIAG_LOG_MSG_ARG_MAX_SIZE fmt ap = Some args" "hook_write_cb s = Some cb"
  shows "esp_diag_log env level pc tag fmt ap s = Some (s\<lparr>hook_written := hook_written s @ expected_records env level pc tag fmt args s\<rparr>)"
  using assms by (cases level) (simp_all add: esp_diag_log_def diag_log_add_def expected_records_def hook_write_data_def log_record_def)

text \<open>A message is recorded once. Whatever its tag, an error or a warning that is printed through the wrapped esp_log_write is written to
  the registered callback exactly once, although the wrapper calls both filters, if its type is enabled; messages of the Wi-Fi library are left out if
  that is configured. Through the wrapped esp_log_writev the messages with that tag are never written, whatever is configured.\<close>

theorem message_is_recorded_once:
  assumes "get_tlv_from_ap (env_str_at env) CONFIG_DIAG_LOG_MSG_ARG_MAX_SIZE fmt ap = Some args" "hook_write_cb s = Some cb"
  shows "map_option hook_written (wrap_esp_log_write drop_wifi env level pc tag fmt ap s) =
      Some (hook_written s @ (if drop_wifi \<and> tag = ''wifi'' then [] else expected_records env level pc tag fmt args s)) \<and>
    map_option hook_written (wrap_esp_log_writev env level pc tag fmt ap s) =
      Some (hook_written s @ (if tag = ''wifi'' then [] else expected_records env level pc tag fmt args s))"
  using esp_diag_log_records [OF assms, of level pc tag]
  by (cases "tag = ''wifi''"; cases drop_wifi) (simp_all add: wrap_esp_log_write_def wrap_esp_log_writev_def esp_diag_log_writev_def esp_diag_log_write_def)

section \<open>Instances\<close>

definition fmt_ex :: "piece list" where
  "fmt_ex = [Text ''t='', Directive \<lparr>d_flags = ''-'', d_width = ''5'', d_precision = None, d_modifier = ''l'', d_conversion = CHR ''u''\<rparr>]"


definition hook_ex :: log_hook where
  "hook_ex = \<lparr>enabled_log_type = 3, hook_init = True, hook_write_cb = Some (\<lambda>_. ESP_OK), hook_written = []\<rparr>"

definition env_ex :: log_env where
  "env_ex = \<lparr>env_str_at = (\<lambda>_. []), env_timestamp = 1, env_task_name = Some ''main''\<rparr>"

theorem message_is_recorded_once_witness:
  "map_option hook_written (wrap_esp_log_write False env_ex ESP_LOG_ERROR 4 ''wifi'' ''up'' [] hook_ex) =
      Some [log_record env_ex ESP_DIAG_LOG_TYPE_ERROR 4 ''wifi'' ''up'' []] \<and>
    map_option hook_written (wrap_esp_log_writev env_ex ESP_LOG_ERROR 4 ''wifi'' ''up'' [] hook_ex) = Some []"
proof -
  have "get_tlv_from_ap (env_str_at env_ex) CONFIG_DIAG_LOG_MSG_ARG_MAX_SIZE ''up'' [] = Some []" "hook_write_cb hook_ex = Some (\<lambda>_. ESP_OK)"
    by (simp_all add: get_tlv_from_ap_def tlv_loop.simps fmt_at_def hook_ex_def)
  from message_is_recorded_once [OF this, of False ESP_LOG_ERROR 4 "''wifi''"] show ?thesis
    by (simp add: expected_records_def IS_LOG_TYPE_ENABLED_def hook_ex_def)
qed

end
