(* ===== verification/DataPoints.thy ===== *)
theory DataPoints
  imports Prelude
begin

text \<open>
  managed_components/espressif__esp_diagnostics/src/esp_diagnostics_metrics.c, esp_diagnostics_variables.c and parts of
  esp_diagnostics_utils.c: the tables of the metrics and of the variables that may be recorded, and the data points given to the
  callback. The two files hold the same table and the same structure of private data, which is one record here; their operations are modelled
  one by one. The entries of a table from its count on are never read, so a table is the list of those below it. A null pointer is \<open>None\<close>;
  writing behind the data point, and the length of a null string, is the result \<open>None\<close>. The callback and the time are parameters; what
  the callback is called with is recorded.
\<close>

section \<open>Data points\<close>

datatype data_pt_type = ESP_DIAG_DATA_PT_METRICS | ESP_DIAG_DATA_PT_VARIABLE

datatype data_type = ESP_DIAG_DATA_TYPE_BOOL | ESP_DIAG_DATA_TYPE_INT | ESP_DIAG_DATA_TYPE_UINT | ESP_DIAG_DATA_TYPE_FLOAT
  | ESP_DIAG_DATA_TYPE_STR | ESP_DIAG_DATA_TYPE_IPv4 | ESP_DIAG_DATA_TYPE_MAC

fun pt_code :: "data_pt_type \<Rightarrow> u16" where
  "pt_code ESP_DIAG_DATA_PT_METRICS = 0"
| "pt_code ESP_DIAG_DATA_PT_VARIABLE = 1"

fun dt_code :: "data_type \<Rightarrow> u16" where
  "dt_code ESP_DIAG_DATA_TYPE_BOOL = 0" | "dt_code ESP_DIAG_DATA_TYPE_INT = 1" | "dt_code ESP_DIAG_DATA_TYPE_UINT = 2"
| "dt_code ESP_DIAG_DATA_TYPE_FLOAT = 3" | "dt_code ESP_DIAG_DATA_TYPE_STR = 4" | "dt_code ESP_DIAG_DATA_TYPE_IPv4 = 5"
| "dt_code ESP_DIAG_DATA_TYPE_MAC = 6"

definition zero_padded :: "nat \<Rightarrow> bytes \<Rightarrow> bytes" where
  "zero_padded n xs = xs @ replicate (n - length xs) 0"

definition text_bytes :: "string \<Rightarrow> bytes" where
  "text_bytes s = map of_char s"

text \<open>The bytes of the structure for strings, which holds that for the other types at the same offsets; the time is aligned to 8 bytes.\<close>

definition esp_diag_str_data_pt :: "data_pt_type \<Rightarrow> data_type \<Rightarrow> string \<Rightarrow> u64 \<Rightarrow> bytes \<Rightarrow> bytes option" where
  "esp_diag_str_data_pt pt t key ts val =
     (if length val > 32 then None
      else Some (le16 (pt_code pt) @ le16 (dt_code t) @ zero_padded 16 (take 15 (text_bytes key)) @ replicate 4 0 @ le64 ts @ zero_padded 32 val))"

definition write_size :: "data_type \<Rightarrow> nat" where
  "write_size t = (if t = ESP_DIAG_DATA_TYPE_STR then 64 else 40)"

section \<open>The tables\<close>

record meta =
  meta_tag :: string
  meta_key :: string
  meta_label :: string
  meta_path :: string
  meta_type :: data_type

record priv_data =
  table :: "meta list"
  dp_write_cb :: "(string \<Rightarrow> bytes \<Rightarrow> esp_err) option"
  dp_init :: bool
  dp_written :: "(string \<times> bytes) list"

definition boot_data :: priv_data where
  "boot_data = \<lparr>table = [], dp_write_cb = None, dp_init = False, dp_written = []\<rparr>"

definition DIAG_METRICS_MAX_COUNT :: nat where "DIAG_METRICS_MAX_COUNT = 20"
definition DIAG_VARIABLES_MAX_COUNT :: nat where "DIAG_VARIABLES_MAX_COUNT = 20"

fun meta_find :: "string \<Rightarrow> meta list \<Rightarrow> meta option" where
  "meta_find key [] = None"
| "meta_find key (m # ms) = (if meta_key m = key then Some m else meta_find key ms)"

fun meta_index :: "string \<Rightarrow> meta list \<Rightarrow> nat" where
  "meta_index key [] = 0"
| "meta_index key (m # ms) = (if meta_key m = key then 0 else 1 + meta_index key ms)"

text \<open>The last entry takes the place of the one that is removed.\<close>

definition meta_remove :: "string \<Rightarrow> meta list \<Rightarrow> meta list option" where
  "meta_remove key ms = (let i = meta_index key ms in if i < length ms then Some (butlast (ms[i := last ms])) else None)"

subsection \<open>Metrics\<close>

definition esp_diag_metrics_meta_get :: "string option \<Rightarrow> priv_data \<Rightarrow> meta option" where
  "esp_diag_metrics_meta_get key s = (case key of None \<Rightarrow> None | Some k \<Rightarrow> meta_find k (table s))"

definition esp_diag_metrics_register ::
  "string option \<Rightarrow> string option \<Rightarrow> string option \<Rightarrow> string option \<Rightarrow> data_type \<Rightarrow> priv_data \<Rightarrow> esp_err \<times> priv_data" where
  "esp_diag_metrics_register tag key label path type s =
     (case (tag, key, label, path) of
        (Some t, Some k, Some l, Some p) \<Rightarrow>
          if \<not> dp_init s then (ESP_ERR_INVALID_STATE, s)
          else if length (table s) \<ge> DIAG_METRICS_MAX_COUNT then (ESP_ERR_NO_MEM, s)
          else if esp_diag_metrics_meta_get key s \<noteq> None then (ESP_FAIL, s)
          else (ESP_OK, s\<lparr>table := table s @ [\<lparr>meta_tag = t, meta_key = k, meta_label = l, meta_path = p, meta_type = type\<rparr>]\<rparr>)
      | _ \<Rightarrow> (ESP_ERR_INVALID_ARG, s))"

definition esp_diag_metrics_unregister :: "string option \<Rightarrow> priv_data \<Rightarrow> esp_err \<times> priv_data" where
  "esp_diag_metrics_unregister key s =
     (case key of None \<Rightarrow> (ESP_ERR_INVALID_ARG, s)
      | Some k \<Rightarrow> (case meta_remove k (table s) of None \<Rightarrow> (ESP_ERR_NOT_FOUND, s) | Some ms \<Rightarrow> (ESP_OK, s\<lparr>table := ms\<rparr>)))"

definition esp_diag_metrics_unregister_all :: "priv_data \<Rightarrow> esp_err \<times> priv_data" where
  "esp_diag_metrics_unregister_all s = (if \<not> dp_init s then (ESP_ERR_INVALID_STATE, s) else (ESP_OK, s\<lparr>table := []\<rparr>))"

definition esp_diag_metrics_meta_get_all :: "priv_data \<Rightarrow> meta list option" where
  "esp_diag_metrics_meta_get_all s = (if \<not> dp_init s then None else Some (table s))"

text \<open>A configuration is null or holds a callback that may be null.\<close>

definition esp_diag_metrics_init :: "(string \<Rightarrow> bytes \<Rightarrow> esp_err) option option \<Rightarrow> priv_data \<Rightarrow> esp_err \<times> priv_data" where
  "esp_diag_metrics_init config s =
     (case config of Some (Some cb) \<Rightarrow> if dp_init s then (ESP_ERR_INVALID_STATE, s) else (ESP_OK, s\<lparr>dp_write_cb := Some cb, dp_init := True\<rparr>)
      | _ \<Rightarrow> (ESP_ERR_INVALID_ARG, s))"

definition esp_diag_metrics_deinit :: "priv_data \<Rightarrow> esp_err \<times> priv_data" where
  "esp_diag_metrics_deinit s =
     (if \<not> dp_init s then (ESP_ERR_INVALID_STATE, s) else (ESP_OK, s\<lparr>table := [], dp_write_cb := None, dp_init := False\<rparr>))"

definition give_point :: "meta \<Rightarrow> bytes \<Rightarrow> priv_data \<Rightarrow> esp_err \<times> priv_data" where
  "give_point m b s =
     (case dp_write_cb s of None \<Rightarrow> (ESP_OK, s) | Some cb \<Rightarrow> (cb (meta_tag m) b, s\<lparr>dp_written := dp_written s @ [(meta_tag m, b)]\<rparr>))"

definition esp_diag_metrics_add :: "data_type \<Rightarrow> string option \<Rightarrow> bytes option \<Rightarrow> u64 \<Rightarrow> priv_data \<Rightarrow> (esp_err \<times> priv_data) option" where
  "esp_diag_metrics_add t key val ts s =
     (case (key, val) of
        (Some k, Some v) \<Rightarrow>
          if \<not> dp_init s then Some (ESP_ERR_INVALID_STATE, s)
          else
            (case esp_diag_metrics_meta_get key s of None \<Rightarrow> Some (ESP_ERR_NOT_FOUND, s)
             | Some m \<Rightarrow>
                 if meta_type m \<noteq> t then Some (ESP_ERR_INVALID_ARG, s)
                 else map_option (\<lambda>data. give_point m (take (write_size (meta_type m)) data) s) (esp_diag_str_data_pt ESP_DIAG_DATA_PT_METRICS t k ts v))
      | _ \<Rightarrow> Some (ESP_ERR_INVALID_ARG, s))"

definition esp_diag_metrics_add_bool :: "u64 \<Rightarrow> string option \<Rightarrow> bool \<Rightarrow> priv_data \<Rightarrow> (esp_err \<times> priv_data) option" where
  "esp_diag_metrics_add_bool ts key b s = esp_diag_metrics_add ESP_DIAG_DATA_TYPE_BOOL key (Some [of_bool b]) ts s"

definition esp_diag_metrics_add_int :: "u64 \<Rightarrow> string option \<Rightarrow> u32 \<Rightarrow> priv_data \<Rightarrow> (esp_err \<times> priv_data) option" where
  "esp_diag_metrics_add_int ts key i s = esp_diag_metrics_add ESP_DIAG_DATA_TYPE_INT key (Some (le32 i)) ts s"

definition esp_diag_metrics_add_uint :: "u64 \<Rightarrow> string option \<Rightarrow> u32 \<Rightarrow> priv_data \<Rightarrow> (esp_err \<times> priv_data) option" where
  "esp_diag_metrics_add_uint ts key u s = esp_diag_metrics_add ESP_DIAG_DATA_TYPE_UINT key (Some (le32 u)) ts s"

definition esp_diag_metrics_add_float :: "u64 \<Rightarrow> string option \<Rightarrow> u32 \<Rightarrow> priv_data \<Rightarrow> (esp_err \<times> priv_data) option" where
  "esp_diag_metrics_add_float ts key f s = esp_diag_metrics_add ESP_DIAG_DATA_TYPE_FLOAT key (Some (le32 f)) ts s"

definition esp_diag_metrics_add_ipv4 :: "u64 \<Rightarrow> string option \<Rightarrow> u32 \<Rightarrow> priv_data \<Rightarrow> (esp_err \<times> priv_data) option" where
  "esp_diag_metrics_add_ipv4 ts key ip s = esp_diag_metrics_add ESP_DIAG_DATA_TYPE_IPv4 key (Some (le32 ip)) ts s"

text \<open>The address of a MAC is that of at least six bytes.\<close>

definition esp_diag_metrics_add_mac :: "u64 \<Rightarrow> string option \<Rightarrow> bytes option \<Rightarrow> priv_data \<Rightarrow> (esp_err \<times> priv_data) option" where
  "esp_diag_metrics_add_mac ts key mac s = esp_diag_metrics_add ESP_DIAG_DATA_TYPE_MAC key (map_option (take 6) mac) ts s"

definition esp_diag_metrics_add_str :: "u64 \<Rightarrow> string option \<Rightarrow> string option \<Rightarrow> priv_data \<Rightarrow> (esp_err \<times> priv_data) option" where
  "esp_diag_metrics_add_str ts key str s =
     (case str of None \<Rightarrow> None | Some x \<Rightarrow> esp_diag_metrics_add ESP_DIAG_DATA_TYPE_STR key (Some (text_bytes x)) ts s)"

subsection \<open>Variables\<close>

definition esp_diag_variable_meta_get :: "string option \<Rightarrow> priv_data \<Rightarrow> meta option" where
  "esp_diag_variable_meta_get key s = (case key of None \<Rightarrow> None | Some k \<Rightarrow> meta_find k (table s))"

definition esp_diag_variable_register ::
  "string option \<Rightarrow> string option \<Rightarrow> string option \<Rightarrow> string option \<Rightarrow> data_type \<Rightarrow> priv_data \<Rightarrow> esp_err \<times> priv_data" where
  "esp_diag_variable_register tag key label path type s =
     (case (tag, key, label, path) of
        (Some t, Some k, Some l, Some p) \<Rightarrow>
          if \<not> dp_init s then (ESP_ERR_INVALID_STATE, s)
          else if length (table s) \<ge> DIAG_VARIABLES_MAX_COUNT then (ESP_ERR_NO_MEM, s)
          else if esp_diag_variable_meta_get key s \<noteq> None then (ESP_FAIL, s)
          else (ESP_OK, s\<lparr>table := table s @ [\<lparr>meta_tag = t, meta_key = k, meta_label = l, meta_path = p, meta_type = type\<rparr>]\<rparr>)
      | _ \<Rightarrow> (ESP_ERR_INVALID_ARG, s))"

definition esp_diag_variable_unregister :: "string option \<Rightarrow> priv_data \<Rightarrow> esp_err \<times> priv_data" where
  "esp_diag_variable_unregister key s =
     (case key of None \<Rightarrow> (ESP_ERR_INVALID_ARG, s)
      | Some k \<Rightarrow>
          if \<not> dp_init s then (ESP_ERR_INVALID_STATE, s)
          else (case meta_remove k (table s) of None \<Rightarrow> (ESP_ERR_NOT_FOUND, s) | Some ms \<Rightarrow> (ESP_OK, s\<lparr>table := ms\<rparr>)))"

definition esp_diag_variable_unregister_all :: "priv_data \<Rightarrow> esp_err \<times> priv_data" where
  "esp_diag_variable_unregister_all s = (if \<not> dp_init s then (ESP_ERR_INVALID_STATE, s) else (ESP_OK, s\<lparr>table := []\<rparr>))"

definition esp_diag_variable_meta_get_all :: "priv_data \<Rightarrow> meta list option" where
  "esp_diag_variable_meta_get_all s = (if \<not> dp_init s then None else Some (table s))"

definition esp_diag_variable_init :: "(string \<Rightarrow> bytes \<Rightarrow> esp_err) option option \<Rightarrow> priv_data \<Rightarrow> esp_err \<times> priv_data" where
  "esp_diag_variable_init config s =
     (case config of Some (Some cb) \<Rightarrow> if dp_init s then (ESP_ERR_INVALID_STATE, s) else (ESP_OK, s\<lparr>dp_write_cb := Some cb, dp_init := True\<rparr>)
      | _ \<Rightarrow> (ESP_ERR_INVALID_ARG, s))"

definition esp_diag_variables_deinit :: "priv_data \<Rightarrow> esp_err \<times> priv_data" where
  "esp_diag_variables_deinit s =
     (if \<not> dp_init s then (ESP_ERR_INVALID_STATE, s) else (ESP_OK, s\<lparr>table := [], dp_write_cb := None, dp_init := False\<rparr>))"

definition esp_diag_variable_add :: "data_type \<Rightarrow> string option \<Rightarrow> bytes option \<Rightarrow> u64 \<Rightarrow> priv_data \<Rightarrow> (esp_err \<times> priv_data) option" where
  "esp_diag_variable_add t key val ts s =
     (case (key, val) of
        (Some k, Some v) \<Rightarrow>
          if \<not> dp_init s then Some (ESP_ERR_INVALID_STATE, s)
          else
            (case esp_diag_variable_meta_get key s of None \<Rightarrow> Some (ESP_ERR_NOT_FOUND, s)
             | Some m \<Rightarrow>
                 if meta_type m \<noteq> t then Some (ESP_ERR_INVALID_ARG, s)
                 else map_option (\<lambda>data. give_point m (take (write_size (meta_type m)) data) s) (esp_diag_str_data_pt ESP_DIAG_DATA_PT_VARIABLE t k ts v))
      | _ \<Rightarrow> Some (ESP_ERR_INVALID_ARG, s))"

definition esp_diag_variable_add_bool :: "u64 \<Rightarrow> string option \<Rightarrow> bool \<Rightarrow> priv_data \<Rightarrow> (esp_err \<times> priv_data) option" where
  "esp_diag_variable_add_bool ts key b s = esp_diag_variable_add ESP_DIAG_DATA_TYPE_BOOL key (Some [of_bool b]) ts s"

definition esp_diag_variable_add_int :: "u64 \<Rightarrow> string option \<Rightarrow> u32 \<Rightarrow> priv_data \<Rightarrow> (esp_err \<times> priv_data) option" where
  "esp_diag_variable_add_int ts key i s = esp_diag_variable_add ESP_DIAG_DATA_TYPE_INT key (Some (le32 i)) ts s"

definition esp_diag_variable_add_uint :: "u64 \<Rightarrow> string option \<Rightarrow> u32 \<Rightarrow> priv_data \<Rightarrow> (esp_err \<times> priv_data) option" where
  "esp_diag_variable_add_uint ts key u s = esp_diag_variable_add ESP_DIAG_DATA_TYPE_UINT key (Some (le32 u)) ts s"

definition esp_diag_variable_add_float :: "u64 \<Rightarrow> string option \<Rightarrow> u32 \<Rightarrow> priv_data \<Rightarrow> (esp_err \<times> priv_data) option" where
  "esp_diag_variable_add_float ts key f s = esp_diag_variable_add ESP_DIAG_DATA_TYPE_FLOAT key (Some (le32 f)) ts s"

definition esp_diag_variable_add_ipv4 :: "u64 \<Rightarrow> string option \<Rightarrow> u32 \<Rightarrow> priv_data \<Rightarrow> (esp_err \<times> priv_data) option" where
  "esp_diag_variable_add_ipv4 ts key ip s = esp_diag_variable_add ESP_DIAG_DATA_TYPE_IPv4 key (Some (le32 ip)) ts s"

definition esp_diag_variable_add_mac :: "u64 \<Rightarrow> string option \<Rightarrow> bytes option \<Rightarrow> priv_data \<Rightarrow> (esp_err \<times> priv_data) option" where
  "esp_diag_variable_add_mac ts key mac s = esp_diag_variable_add ESP_DIAG_DATA_TYPE_MAC key (map_option (take 6) mac) ts s"

definition esp_diag_variable_add_str :: "u64 \<Rightarrow> string option \<Rightarrow> string option \<Rightarrow> priv_data \<Rightarrow> (esp_err \<times> priv_data) option" where
  "esp_diag_variable_add_str ts key str s =
     (case str of None \<Rightarrow> None | Some x \<Rightarrow> esp_diag_variable_add ESP_DIAG_DATA_TYPE_STR key (Some (text_bytes x)) ts s)"

section \<open>A table as a map\<close>

text \<open>
  What a table promises: the entries are a map from keys to meta data of limited size. Registering a key that is there fails, as does registering
  into a full table; both change nothing.
\<close>

datatype request = Register meta | Unregister string | Unregister_all

fun request_spec :: "nat \<Rightarrow> request \<Rightarrow> (string \<rightharpoonup> meta) \<Rightarrow> esp_err \<times> (string \<rightharpoonup> meta)" where
  "request_spec n (Register m) f =
     (if card (dom f) \<ge> n then (ESP_ERR_NO_MEM, f) else if f (meta_key m) \<noteq> None then (ESP_FAIL, f) else (ESP_OK, f(meta_key m \<mapsto> m)))"
| "request_spec n (Unregister k) f = (if f k = None then (ESP_ERR_NOT_FOUND, f) else (ESP_OK, f(k := None)))"
| "request_spec n Unregister_all f = (ESP_OK, Map.empty)"

fun serve_all :: "(request \<Rightarrow> 's \<Rightarrow> esp_err \<times> 's) \<Rightarrow> request list \<Rightarrow> 's \<Rightarrow> esp_err list \<times> 's" where
  "serve_all serve [] s = ([], s)"
| "serve_all serve (r # rs) s = (let (e, s1) = serve r s; (es, s2) = serve_all serve rs s1 in (e # es, s2))"

locale keyed_table =
  fixes good :: "'s \<Rightarrow> bool" and entries :: "'s \<Rightarrow> string \<rightharpoonup> meta" and max_count :: nat and serve :: "request \<Rightarrow> 's \<Rightarrow> esp_err \<times> 's"
  assumes serve_good: "good s \<Longrightarrow> good (snd (serve r s))"
    and serve_spec: "good s \<Longrightarrow> map_prod id entries (serve r s) = request_spec max_count r (entries s)"
begin

lemma serve_all_spec:
  "good s \<Longrightarrow> good (snd (serve_all serve rs s)) \<and> map_prod id entries (serve_all serve rs s) = serve_all (request_spec max_count) rs (entries s)"
proof (induction rs arbitrary: s)
  case (Cons r rs)
  obtain e s1 where 1: "serve r s = (e, s1)" by fastforce
  obtain es s2 where 2: "serve_all serve rs s1 = (es, s2)" by fastforce
  have g: "good s1" and r: "request_spec max_count r (entries s) = (e, entries s1)"
    using serve_good [OF Cons.prems, of r] serve_spec [OF Cons.prems, of r] 1 by auto
  have "good s2" "serve_all (request_spec max_count) rs (entries s1) = (es, entries s2)" using Cons.IH [OF g] 2 by simp_all
  then show ?case using r 1 2 by simp
qed simp

end

fun serve_metrics :: "request \<Rightarrow> priv_data \<Rightarrow> esp_err \<times> priv_data" where
  "serve_metrics (Register m) s =
     esp_diag_metrics_register (Some (meta_tag m)) (Some (meta_key m)) (Some (meta_label m)) (Some (meta_path m)) (meta_type m) s"
| "serve_metrics (Unregister k) s = esp_diag_metrics_unregister (Some k) s"
| "serve_metrics Unregister_all s = esp_diag_metrics_unregister_all s"

fun serve_variables :: "request \<Rightarrow> priv_data \<Rightarrow> esp_err \<times> priv_data" where
  "serve_variables (Register m) s =
     esp_diag_variable_register (Some (meta_tag m)) (Some (meta_key m)) (Some (meta_label m)) (Some (meta_path m)) (meta_type m) s"
| "serve_variables (Unregister k) s = esp_diag_variable_unregister (Some k) s"
| "serve_variables Unregister_all s = esp_diag_variable_unregister_all s"

definition table_ok :: "priv_data \<Rightarrow> bool" where
  "table_ok s \<longleftrightarrow> dp_init s \<and> distinct (map meta_key (table s))"

lemma meta_find_map: "meta_find k ms = map_of (map (\<lambda>m. (meta_key m, m)) ms) k"
  by (induction ms) auto

lemma meta_find_none: "meta_find k ms = None \<longleftrightarrow> k \<notin> meta_key ` set ms"
  by (induction ms) auto

lemma meta_index_split:
  assumes "meta_index k ms < length ms"
  shows "\<exists>a m b. ms = a @ m # b \<and> length a = meta_index k ms \<and> meta_key m = k \<and> k \<notin> meta_key ` set a"
  using assms
proof (induction ms)
  case (Cons x xs)
  show ?case
  proof (cases "meta_key x = k")
    case True
    then show ?thesis by (intro exI [of _ "[]"]) simp
  next
    case False
    with Cons obtain a m b where "xs = a @ m # b" "length a = meta_index k xs" "meta_key m = k" "k \<notin> meta_key ` set a" by auto
    with False show ?thesis by (intro exI [of _ "x # a"]) auto
  qed
qed simp

lemma meta_index_end: "\<not> meta_index k ms < length ms \<longleftrightarrow> meta_find k ms = None"
  by (induction ms) auto

lemma meta_find_some: "distinct (map meta_key ms) \<Longrightarrow> meta_find k ms = Some m \<longleftrightarrow> m \<in> set ms \<and> meta_key m = k"
  by (induction ms) (auto simp: image_iff)

lemma meta_find_same_set:
  assumes "distinct (map meta_key ms)" "distinct (map meta_key ms')" "set ms = set ms'"
  shows "meta_find k ms = meta_find k ms'"
proof (cases "meta_find k ms")
  case None
  then show ?thesis using assms(3) by (metis meta_find_none)
next
  case (Some m)
  then have "m \<in> set ms'" "meta_key m = k" using meta_find_some [OF assms(1)] assms(3) by auto
  then have "meta_find k ms' = Some m" using meta_find_some [OF assms(2)] by blast
  with Some show ?thesis by simp
qed

lemma card_entries: "distinct (map meta_key ms) \<Longrightarrow> card (dom (\<lambda>k. meta_find k ms)) = length ms"
proof -
  assume d: "distinct (map meta_key ms)"
  have "dom (\<lambda>k. meta_find k ms) = set (map meta_key ms)" by (auto simp: dom_def) (metis meta_find_none not_None_eq image_iff)+
  then show ?thesis using distinct_card [OF d] by simp
qed

lemma meta_find_snoc: "meta_find (meta_key m) ms = None \<Longrightarrow> (\<lambda>k. meta_find k (ms @ [m])) = (\<lambda>k. meta_find k ms)(meta_key m \<mapsto> m)"
  by (induction ms) (auto simp: fun_eq_iff split: if_splits)

lemma meta_remove_found:
  assumes "meta_find k ms \<noteq> None" "distinct (map meta_key ms)"
  shows "\<exists>ms'. meta_remove k ms = Some ms' \<and> distinct (map meta_key ms') \<and> (\<lambda>x. meta_find x ms') = (\<lambda>x. meta_find x ms)(k := None)"
proof -
  from assms(1) have i: "meta_index k ms < length ms" using meta_index_end [of k ms] by auto
  then obtain a m b where s: "ms = a @ m # b" "length a = meta_index k ms" "meta_key m = k" using meta_index_split by blast
  have rem: "meta_remove k ms = Some (butlast (ms[length a := last ms]))" using i s(2) by (simp add: meta_remove_def)
  have found: "meta_find x ms = (if x = k then Some m else meta_find x (a @ b))" for x
    using assms(2) unfolding s(1) by (induction a) (auto simp: s(3))
  show ?thesis
  proof (cases b rule: rev_cases)
    case Nil
    then have "meta_remove k ms = Some a" using rem s(1) by simp
    moreover have "meta_find k a = None" using assms(2) s(1,3) meta_find_none by fastforce
    ultimately show ?thesis using assms(2) s(1) Nil found by (auto simp: fun_eq_iff)
  next
    case (snoc b' l)
    then have "meta_remove k ms = Some (a @ l # b')" using rem s(1)
      by (simp add: list_update_append butlast_append)
    moreover have d: "distinct (map meta_key (a @ l # b'))" "k \<notin> meta_key ` set (a @ b)" using assms(2) s(1,3) snoc by auto
    moreover have "meta_find x (a @ l # b') = meta_find x (a @ b)" for x
      by (rule meta_find_same_set) (use assms(2) s(1) snoc in auto)
    ultimately show ?thesis using found meta_find_none by (auto simp: fun_eq_iff)
  qed
qed

lemma remove_missing: "meta_find k ms = None \<Longrightarrow> meta_remove k ms = None"
  using meta_index_end [of k ms] by (simp add: meta_remove_def)

lemma distinct_snoc: "distinct (map meta_key ms) \<Longrightarrow> meta_find (meta_key m) ms = None \<Longrightarrow> distinct (map meta_key (ms @ [m]))"
  by (auto simp: meta_find_none)

lemma meta_eta: "\<lparr>meta_tag = meta_tag m, meta_key = meta_key m, meta_label = meta_label m, meta_path = meta_path m, meta_type = meta_type m\<rparr> = m"
  by simp

lemmas table_simps = table_ok_def meta_eta card_entries esp_diag_metrics_meta_get_def esp_diag_variable_meta_get_def

interpretation metrics: keyed_table table_ok "\<lambda>s k. esp_diag_metrics_meta_get (Some k) s" DIAG_METRICS_MAX_COUNT serve_metrics
proof
  fix s r assume ok: "table_ok s"
  then have d: "dp_init s" "distinct (map meta_key (table s))" by (simp_all add: table_ok_def)
  have "table_ok (snd (serve_metrics r s)) \<and>
    map_prod id (\<lambda>s k. esp_diag_metrics_meta_get (Some k) s) (serve_metrics r s) =
      request_spec DIAG_METRICS_MAX_COUNT r (\<lambda>k. esp_diag_metrics_meta_get (Some k) s)"
  proof (cases r)
    case (Register m)
    then show ?thesis using d distinct_snoc [OF d(2), of m] meta_find_snoc [of m "table s"]
      by (auto simp: esp_diag_metrics_register_def table_simps)
  next
    case (Unregister k)
    show ?thesis
    proof (cases "meta_find k (table s)")
      case None
      then show ?thesis using ok Unregister by (simp add: esp_diag_metrics_unregister_def remove_missing esp_diag_metrics_meta_get_def)
    next
      case (Some m)
      with meta_remove_found [OF _ d(2), of k] Unregister d(1) show ?thesis
        by (auto simp: esp_diag_metrics_unregister_def table_simps)
    qed
  next
    case Unregister_all
    then show ?thesis using d by (simp add: esp_diag_metrics_unregister_all_def table_simps)
  qed
  then show "table_ok (snd (serve_metrics r s))"
    "map_prod id (\<lambda>s k. esp_diag_metrics_meta_get (Some k) s) (serve_metrics r s) =
      request_spec DIAG_METRICS_MAX_COUNT r (\<lambda>k. esp_diag_metrics_meta_get (Some k) s)" by simp_all
qed

interpretation variables: keyed_table table_ok "\<lambda>s k. esp_diag_variable_meta_get (Some k) s" DIAG_VARIABLES_MAX_COUNT serve_variables
proof
  fix s r assume ok: "table_ok s"
  then have d: "dp_init s" "distinct (map meta_key (table s))" by (simp_all add: table_ok_def)
  have "table_ok (snd (serve_variables r s)) \<and>
    map_prod id (\<lambda>s k. esp_diag_variable_meta_get (Some k) s) (serve_variables r s) =
      request_spec DIAG_VARIABLES_MAX_COUNT r (\<lambda>k. esp_diag_variable_meta_get (Some k) s)"
  proof (cases r)
    case (Register m)
    then show ?thesis using d distinct_snoc [OF d(2), of m] meta_find_snoc [of m "table s"]
      by (auto simp: esp_diag_variable_register_def table_simps)
  next
    case (Unregister k)
    show ?thesis
    proof (cases "meta_find k (table s)")
      case None
      then show ?thesis using ok d(1) Unregister by (simp add: esp_diag_variable_unregister_def remove_missing esp_diag_variable_meta_get_def)
    next
      case (Some m)
      with meta_remove_found [OF _ d(2), of k] Unregister d(1) show ?thesis
        by (auto simp: esp_diag_variable_unregister_def table_simps)
    qed
  next
    case Unregister_all
    then show ?thesis using d by (simp add: esp_diag_variable_unregister_all_def table_simps)
  qed
  then show "table_ok (snd (serve_variables r s))"
    "map_prod id (\<lambda>s k. esp_diag_variable_meta_get (Some k) s) (serve_variables r s) =
      request_spec DIAG_VARIABLES_MAX_COUNT r (\<lambda>k. esp_diag_variable_meta_get (Some k) s)" by simp_all
qed

text \<open>C31: The tables of metrics and variables are maps from keys to meta data. After any sequence of registrations and removals, failed ones
  included, the answers given and the entry found for any key are those of the map: a key is registered at most once, at most as many as there is
  room for are, and removing one entry leaves the others as they are although another takes its place.\<close>

theorem tables_are_maps:
  assumes "dp_init s" "distinct (map meta_key (table s))"
  shows "map_prod id (\<lambda>s k. esp_diag_metrics_meta_get (Some k) s) (serve_all serve_metrics rs s) =
      serve_all (request_spec DIAG_METRICS_MAX_COUNT) rs (\<lambda>k. esp_diag_metrics_meta_get (Some k) s) \<and>
    map_prod id (\<lambda>s k. esp_diag_variable_meta_get (Some k) s) (serve_all serve_variables rs s) =
      serve_all (request_spec DIAG_VARIABLES_MAX_COUNT) rs (\<lambda>k. esp_diag_variable_meta_get (Some k) s)"
  using assms metrics.serve_all_spec [of s rs] variables.serve_all_spec [of s rs] by (simp add: table_ok_def)

section \<open>Points that are recorded\<close>

datatype point_value = PBool bool | PInt u32 | PUint u32 | PFloat u32 | PIPv4 u32 | PMac bytes | PStr string

fun value_type :: "point_value \<Rightarrow> data_type" where
  "value_type (PBool _) = ESP_DIAG_DATA_TYPE_BOOL" | "value_type (PInt _) = ESP_DIAG_DATA_TYPE_INT"
| "value_type (PUint _) = ESP_DIAG_DATA_TYPE_UINT" | "value_type (PFloat _) = ESP_DIAG_DATA_TYPE_FLOAT"
| "value_type (PIPv4 _) = ESP_DIAG_DATA_TYPE_IPv4" | "value_type (PMac _) = ESP_DIAG_DATA_TYPE_MAC"
| "value_type (PStr _) = ESP_DIAG_DATA_TYPE_STR"

fun value_bytes :: "point_value \<Rightarrow> bytes" where
  "value_bytes (PBool b) = [of_bool b]" | "value_bytes (PInt i) = le32 i" | "value_bytes (PUint u) = le32 u" | "value_bytes (PFloat f) = le32 f"
| "value_bytes (PIPv4 ip) = le32 ip" | "value_bytes (PMac mac) = take 6 mac" | "value_bytes (PStr s) = text_bytes s"

fun value_ok :: "point_value \<Rightarrow> bool" where
  "value_ok (PMac mac) \<longleftrightarrow> length mac = 6"
| "value_ok (PStr s) \<longleftrightarrow> length s < 32 \<and> list_all (\<lambda>c. c \<noteq> CHR 0x00) s"
| "value_ok _ \<longleftrightarrow> True"

text \<open>The calls for a value, and the point as its reader decodes it: the key and a string end at the first NUL.\<close>

fun metrics_add_value :: "u64 \<Rightarrow> string option \<Rightarrow> point_value \<Rightarrow> priv_data \<Rightarrow> (esp_err \<times> priv_data) option" where
  "metrics_add_value ts key (PBool b) s = esp_diag_metrics_add_bool ts key b s"
| "metrics_add_value ts key (PInt i) s = esp_diag_metrics_add_int ts key i s"
| "metrics_add_value ts key (PUint u) s = esp_diag_metrics_add_uint ts key u s"
| "metrics_add_value ts key (PFloat f) s = esp_diag_metrics_add_float ts key f s"
| "metrics_add_value ts key (PIPv4 ip) s = esp_diag_metrics_add_ipv4 ts key ip s"
| "metrics_add_value ts key (PMac mac) s = esp_diag_metrics_add_mac ts key (Some mac) s"
| "metrics_add_value ts key (PStr x) s = esp_diag_metrics_add_str ts key (Some x) s"

fun variable_add_value :: "u64 \<Rightarrow> string option \<Rightarrow> point_value \<Rightarrow> priv_data \<Rightarrow> (esp_err \<times> priv_data) option" where
  "variable_add_value ts key (PBool b) s = esp_diag_variable_add_bool ts key b s"
| "variable_add_value ts key (PInt i) s = esp_diag_variable_add_int ts key i s"
| "variable_add_value ts key (PUint u) s = esp_diag_variable_add_uint ts key u s"
| "variable_add_value ts key (PFloat f) s = esp_diag_variable_add_float ts key f s"
| "variable_add_value ts key (PIPv4 ip) s = esp_diag_variable_add_ipv4 ts key ip s"
| "variable_add_value ts key (PMac mac) s = esp_diag_variable_add_mac ts key (Some mac) s"
| "variable_add_value ts key (PStr x) s = esp_diag_variable_add_str ts key (Some x) s"

definition c_text :: "bytes \<Rightarrow> string" where
  "c_text b = map (\<lambda>x. char_of (unat x)) (takeWhile (\<lambda>x. x \<noteq> 0) b)"

definition read_value :: "u16 \<Rightarrow> bytes \<Rightarrow> point_value option" where
  "read_value t b =
     (if t = 0 then Some (PBool (b ! 0 \<noteq> 0)) else if t = 1 then Some (PInt (rd32 b)) else if t = 2 then Some (PUint (rd32 b))
      else if t = 3 then Some (PFloat (rd32 b)) else if t = 4 then Some (PStr (c_text b)) else if t = 5 then Some (PIPv4 (rd32 b))
      else if t = 6 then Some (PMac (take 6 b)) else None)"

definition read_point :: "bytes \<Rightarrow> u16 \<times> string \<times> u64 \<times> point_value option" where
  "read_point b = (ucast (rd32 b), c_text (take 16 (drop 4 b)),
     ucast (rd32 (drop 24 b)) OR push_bit 32 (ucast (rd32 (drop 28 b))), read_value (ucast (drop_bit 16 (rd32 b))) (drop 32 b))"

lemma length_text_bytes [simp]: "length (text_bytes s) = length s"
  by (simp add: text_bytes_def)

lemma length_value: "value_ok v \<Longrightarrow> length (value_bytes v) \<le> 32"
  by (cases v) auto

lemma metrics_add_value_bytes:
  "metrics_add_value ts key v s = esp_diag_metrics_add (value_type v) key (Some (value_bytes v)) ts s"
  by (cases v) (simp_all add: esp_diag_metrics_add_bool_def esp_diag_metrics_add_int_def esp_diag_metrics_add_uint_def
    esp_diag_metrics_add_float_def esp_diag_metrics_add_ipv4_def esp_diag_metrics_add_mac_def esp_diag_metrics_add_str_def)

lemma variable_add_value_bytes:
  "variable_add_value ts key v s = esp_diag_variable_add (value_type v) key (Some (value_bytes v)) ts s"
  by (cases v) (simp_all add: esp_diag_variable_add_bool_def esp_diag_variable_add_int_def esp_diag_variable_add_uint_def
    esp_diag_variable_add_float_def esp_diag_variable_add_ipv4_def esp_diag_variable_add_mac_def esp_diag_variable_add_str_def)

lemma rd32_two_halves: "rd32 (le16 x @ le16 y @ rest) = (ucast x :: u32) OR push_bit 16 (ucast y)"
proof (rule bit_word_eqI)
  fix n assume "n < LENGTH(32)"
  then show "bit (rd32 (le16 x @ le16 y @ rest)) n = bit ((ucast x :: u32) OR push_bit 16 (ucast y)) n"
    by (cases "n < 24"; cases "n < 16"; cases "n < 8")
      (auto simp: rd32_def le16_def bit_or_iff bit_push_bit_iff bit_ucast_iff bit_drop_bit_eq dest: bit_imp_le_length)
qed

lemma low_half: "(ucast ((ucast x :: u32) OR push_bit 16 (ucast y)) :: u16) = (x :: u16)"
  by (rule bit_word_eqI) (auto simp: bit_or_iff bit_push_bit_iff bit_ucast_iff)

lemma high_half: "(ucast (drop_bit 16 ((ucast x :: u32) OR push_bit 16 (ucast y))) :: u16) = (y :: u16)" for x :: u16
  by (rule bit_word_eqI) (auto simp: bit_or_iff bit_push_bit_iff bit_ucast_iff bit_drop_bit_eq dest: bit_imp_le_length)

lemma time_halves: "(ucast (ucast x :: u32)) OR push_bit 32 (ucast (ucast (drop_bit 32 x) :: u32)) = (x :: u64)"
  by (rule bit_word_eqI) (auto simp: bit_or_iff bit_push_bit_iff bit_ucast_iff bit_drop_bit_eq)

lemma unat_char: "unat (of_char c :: u8) = of_char c"
proof -
  have lt: "(of_char c :: nat) < 256"
    using mod_less_divisor [of 256 "of_char c :: nat"] unfolding of_char_mod_256 by simp
  have "unat (of_nat n :: u8) = n" if "n < 256" for n using that by (simp add: unat_of_nat)
  from this [OF lt] show ?thesis unfolding of_nat_of_char .
qed

lemma char_unat [simp]: "char_of (unat (of_char c :: u8)) = c"
  unfolding unat_char by (rule char_of_char)

lemma char_not_zero:
  assumes "c \<noteq> CHR 0x00"
  shows "(of_char c :: u8) \<noteq> 0"
proof
  assume "(of_char c :: u8) = 0"
  then have "(of_char c :: nat) = of_char (CHR 0x00)" unfolding unat_char [symmetric] by simp
  then show False using assms unfolding of_char_eq_iff by contradiction
qed

lemma c_text_padded:
  assumes "list_all (\<lambda>c. c \<noteq> CHR 0x00) s" "length s < n"
  shows "c_text (zero_padded n (text_bytes s)) = s"
proof -
  have "x \<noteq> 0" if "x \<in> set (text_bytes s)" for x
    using assms(1) that char_not_zero unfolding text_bytes_def list_all_iff by fastforce
  then have "takeWhile (\<lambda>x. x \<noteq> 0) (text_bytes s @ replicate (n - length s) 0) = text_bytes s"
    using takeWhile_append2 [of "text_bytes s" "\<lambda>x. x \<noteq> 0"] assms(2) by (simp add: takeWhile_replicate)
  moreover have "map (\<lambda>x. char_of (unat x)) (text_bytes s) = s"
    unfolding text_bytes_def map_map by (rule map_idI) (simp only: comp_def char_unat)
  ultimately show ?thesis by (simp only: c_text_def zero_padded_def length_text_bytes)
qed

lemma take_zero_padded: "length xs \<le> n \<Longrightarrow> n \<le> m \<Longrightarrow> take n (zero_padded m xs) = zero_padded n xs"
  by (simp add: zero_padded_def)

lemma length_zero_padded [simp]: "length xs \<le> n \<Longrightarrow> length (zero_padded n xs) = n"
  by (simp add: zero_padded_def)

definition room :: "point_value \<Rightarrow> nat" where
  "room v = (if value_type v = ESP_DIAG_DATA_TYPE_STR then 32 else 8)"

lemma value_fits: "value_ok v \<Longrightarrow> length (value_bytes v) \<le> room v"
  by (cases v) (auto simp: room_def)

lemma rd32_pad [simp]: "rd32 (zero_padded n (le32 x)) = x"
  by (simp add: zero_padded_def)

lemma read_value_back: "value_ok v \<Longrightarrow> read_value (dt_code (value_type v)) (zero_padded (room v) (value_bytes v)) = Some v"
proof (cases v)
  case (PStr x)
  moreover assume "value_ok v"
  ultimately show ?thesis using c_text_padded [of x 32] by (simp add: read_value_def room_def)
qed (auto simp: read_value_def room_def zero_padded_def)

lemma point_bytes:
  assumes "value_ok v"
  shows "map_option (take (write_size (value_type v))) (esp_diag_str_data_pt pt (value_type v) key ts (value_bytes v)) =
    Some (le16 (pt_code pt) @ le16 (dt_code (value_type v)) @ zero_padded 16 (text_bytes (take 15 key)) @ replicate 4 0 @ le64 ts @
      zero_padded (room v) (value_bytes v))"
proof -
  have "\<not> 32 < length (value_bytes v)" using length_value [OF assms] by simp
  moreover have "take (room v) (zero_padded 32 (value_bytes v)) = zero_padded (room v) (value_bytes v)"
    using value_fits [OF assms] by (intro take_zero_padded) (auto simp: room_def)
  moreover have "write_size (value_type v) = 32 + room v" by (simp add: write_size_def room_def)
  moreover have "take 15 (text_bytes key) = text_bytes (take 15 key)" by (simp add: text_bytes_def take_map)
  ultimately show ?thesis by (simp add: esp_diag_str_data_pt_def)
qed

lemma read_point_back:
  assumes "value_ok v" "list_all (\<lambda>c. c \<noteq> CHR 0x00) key"
  shows "read_point (le16 (pt_code pt) @ le16 (dt_code (value_type v)) @ zero_padded 16 (text_bytes (take 15 key)) @ replicate 4 0 @ le64 ts @
      zero_padded (room v) (value_bytes v)) = (pt_code pt, take 15 key, ts, Some v)"
proof -
  have "list_all (\<lambda>c. c \<noteq> CHR 0x00) (take 15 key)" using assms(2) by (auto simp: list_all_iff dest: in_set_takeD)
  then have k: "c_text (zero_padded 16 (text_bytes (take 15 key))) = take 15 key" by (intro c_text_padded) auto
  show ?thesis
    by (simp add: read_point_def rd32_two_halves low_half high_half k le64_def time_halves read_value_back [OF assms(1)] del: drop_bit_or)
qed

text \<open>C32: A data point reads back as what was added. For a registered key and a value of its type, with strings of less than 32
  characters, the callback gets, with the tag of the key, bytes that decode to the point type, the first 15 characters of the key, the time and the
  value.\<close>

theorem data_points_read_back:
  assumes "dp_init s" "dp_write_cb s = Some cb" "meta_find key (table s) = Some m" "meta_type m = value_type v" "value_ok v"
    "list_all (\<lambda>c. c \<noteq> CHR 0x00) key"
  shows "\<exists>b c. metrics_add_value ts (Some key) v s = Some (cb (meta_tag m) b, s\<lparr>dp_written := dp_written s @ [(meta_tag m, b)]\<rparr>) \<and>
    read_point b = (0, take 15 key, ts, Some v) \<and>
    variable_add_value ts (Some key) v s = Some (cb (meta_tag m) c, s\<lparr>dp_written := dp_written s @ [(meta_tag m, c)]\<rparr>) \<and>
    read_point c = (1, take 15 key, ts, Some v)"
proof -
  define B where "B pt = le16 (pt_code pt) @ le16 (dt_code (value_type v)) @ zero_padded 16 (text_bytes (take 15 key)) @ replicate 4 0 @ le64 ts @
    zero_padded (room v) (value_bytes v)" for pt
  have pt: "map_option (\<lambda>data. give_point m (take (write_size (value_type v)) data) s) (esp_diag_str_data_pt pt (value_type v) key ts (value_bytes v)) =
      Some (cb (meta_tag m) (B pt), s\<lparr>dp_written := dp_written s @ [(meta_tag m, B pt)]\<rparr>)" for pt
    using point_bytes [OF assms(5), of pt key ts] assms(2) unfolding B_def [symmetric] by (auto simp: give_point_def)
  have "metrics_add_value ts (Some key) v s =
      map_option (\<lambda>data. give_point m (take (write_size (value_type v)) data) s) (esp_diag_str_data_pt ESP_DIAG_DATA_PT_METRICS (value_type v) key ts (value_bytes v))"
    "variable_add_value ts (Some key) v s =
      map_option (\<lambda>data. give_point m (take (write_size (value_type v)) data) s) (esp_diag_str_data_pt ESP_DIAG_DATA_PT_VARIABLE (value_type v) key ts (value_bytes v))"
    using assms(1,3,4)
    by (simp_all add: metrics_add_value_bytes variable_add_value_bytes esp_diag_metrics_add_def esp_diag_variable_add_def
      esp_diag_metrics_meta_get_def esp_diag_variable_meta_get_def)
  moreover have "read_point (B pt) = (pt_code pt, take 15 key, ts, Some v)" for pt
    unfolding B_def by (rule read_point_back [OF assms(5,6)])
  ultimately show ?thesis
    by (intro exI [of _ "B ESP_DIAG_DATA_PT_METRICS"] exI [of _ "B ESP_DIAG_DATA_PT_VARIABLE"]) (simp add: pt)
qed

text \<open>Strings that are longer are written behind the data point; nothing checks the length.\<close>

lemma long_string_overflows:
  assumes "dp_init s" "meta_find key (table s) = Some m" "meta_type m = ESP_DIAG_DATA_TYPE_STR" "length x > 32"
  shows "esp_diag_metrics_add_str ts (Some key) (Some x) s = None" "esp_diag_variable_add_str ts (Some key) (Some x) s = None"
  using assms by (simp_all add: esp_diag_metrics_add_str_def esp_diag_metrics_add_def esp_diag_metrics_meta_get_def esp_diag_str_data_pt_def
    esp_diag_variable_add_str_def esp_diag_variable_add_def esp_diag_variable_meta_get_def)

section \<open>The checksum of the tables and the call stack\<close>

definition meta_crc :: "(u32 \<Rightarrow> bytes \<Rightarrow> u32) \<Rightarrow> u32 \<Rightarrow> meta \<Rightarrow> u32" where
  "meta_crc crc32 c m =
     (let c1 = crc32 c (text_bytes (meta_tag m)); c2 = crc32 c1 (text_bytes (meta_key m)); c3 = crc32 c2 (text_bytes (meta_label m));
          c4 = crc32 c3 (text_bytes (meta_path m)) in crc32 c4 (le32 (ucast (dt_code (meta_type m)))))"

definition metas_crc :: "(u32 \<Rightarrow> bytes \<Rightarrow> u32) \<Rightarrow> u32 \<Rightarrow> meta list option \<Rightarrow> u32" where
  "metas_crc crc32 c ms = (case ms of None \<Rightarrow> c | Some ms \<Rightarrow> foldl (meta_crc crc32) c ms)"

definition esp_diag_meta_crc_get :: "(u32 \<Rightarrow> bytes \<Rightarrow> u32) \<Rightarrow> bytes \<Rightarrow> priv_data \<Rightarrow> priv_data \<Rightarrow> u32" where
  "esp_diag_meta_crc_get crc32 app_elf_sha256 metrics variables =
     metas_crc crc32 (metas_crc crc32 (crc32 0 app_elf_sha256) (esp_diag_metrics_meta_get_all metrics)) (esp_diag_variable_meta_get_all variables)"

text \<open>
  The functions that look at the stack are a parameter. The array has room for 16 addresses; writing behind it is \<open>None\<close>. The result is the
  addresses, whose number is the depth, and whether the stack is corrupted.
\<close>

record frame =
  fr_pc :: u32
  fr_sp :: u32
  fr_next_pc :: u32

record stack_walk =
  esp_stack_ptr_is_sane :: "u32 \<Rightarrow> bool"
  esp_ptr_executable :: "u32 \<Rightarrow> bool"
  esp_cpu_process_stack_pc :: "u32 \<Rightarrow> u32"
  esp_backtrace_get_next_frame :: "frame \<Rightarrow> bool \<times> frame"

fun bt_loop :: "stack_walk \<Rightarrow> nat \<Rightarrow> frame \<Rightarrow> u32 list \<Rightarrow> bool \<Rightarrow> (u32 list \<times> bool) option" where
  "bt_loop w 0 f bt corrupted = Some (bt, corrupted)"
| "bt_loop w (Suc max_depth) f bt corrupted =
     (if fr_next_pc f \<noteq> 0 \<and> \<not> corrupted then
        (let (ok, f1) = esp_backtrace_get_next_frame w f in
         if \<not> ok then bt_loop w max_depth f1 bt True
         else if length bt < 16 then bt_loop w max_depth f1 (bt @ [esp_cpu_process_stack_pc w (fr_pc f1)]) False
         else None)
      else Some (bt, corrupted))"

definition diag_task_get_bt :: "stack_walk \<Rightarrow> frame \<Rightarrow> (u32 list \<times> bool) option" where
  "diag_task_get_bt w f =
     bt_loop w 16 f [esp_cpu_process_stack_pc w (fr_pc f)]
       (\<not> (esp_stack_ptr_is_sane w (fr_sp f) \<and> esp_ptr_executable w (esp_cpu_process_stack_pc w (fr_pc f))))"

text \<open>The frame reached after some steps; a stack of a given number of frames can be walked to its end.\<close>

definition nth_frame :: "stack_walk \<Rightarrow> frame \<Rightarrow> nat \<Rightarrow> frame" where
  "nth_frame w f i = ((\<lambda>f. snd (esp_backtrace_get_next_frame w f)) ^^ i) f"

lemma nth_frame_0 [simp]: "nth_frame w f 0 = f"
  by (simp add: nth_frame_def)

lemma nth_frame_step: "snd (esp_backtrace_get_next_frame w (nth_frame w f i)) = nth_frame w f (Suc i)"
  by (simp add: nth_frame_def)

definition walkable :: "stack_walk \<Rightarrow> frame \<Rightarrow> nat \<Rightarrow> bool" where
  "walkable w f n \<longleftrightarrow> (\<forall>i<n. fr_next_pc (nth_frame w f i) \<noteq> 0 \<and> fst (esp_backtrace_get_next_frame w (nth_frame w f i)))"

lemma bt_loop_walks:
  assumes "length bt + k \<le> 16" "k \<le> fuel" "walkable w f k"
  shows "bt_loop w fuel f bt False =
    bt_loop w (fuel - k) (nth_frame w f k) (bt @ map (\<lambda>i. esp_cpu_process_stack_pc w (fr_pc (nth_frame w f i))) [1..<k + 1]) False"
  using assms
proof (induction k)
  case (Suc k)
  let ?g = "nth_frame w f k"
  have w: "fr_next_pc ?g \<noteq> 0" "fst (esp_backtrace_get_next_frame w ?g)" "walkable w f k" using Suc.prems by (auto simp: walkable_def)
  obtain m where m: "fuel - k = Suc m" "fuel - Suc k = m" using Suc.prems by (metis Suc_diff_Suc Suc_le_lessD)
  have "esp_backtrace_get_next_frame w ?g = (True, nth_frame w f (Suc k))"
    using w(2) nth_frame_step [of w f k] by (metis prod.collapse)
  then show ?case using Suc w m by simp
qed simp

text \<open>The backtrace of a task is complete up to 16 frames and overflows behind that. For a sane stack that can be walked to its end, the
  addresses recorded are those of all its frames, not marked as corrupted, if it has at most 16 frames; with more frames the loop writes the
  17th address behind the array.\<close>

theorem backtrace_overflows:
  assumes "esp_stack_ptr_is_sane w (fr_sp f)" "esp_ptr_executable w (esp_cpu_process_stack_pc w (fr_pc f))"
    "walkable w f n" "fr_next_pc (nth_frame w f n) = 0"
  shows "diag_task_get_bt w f =
    (if n < 16 then Some (map (\<lambda>i. esp_cpu_process_stack_pc w (fr_pc (nth_frame w f i))) [0..<n + 1], False) else None)"
proof (cases "n < 16")
  case True
  then obtain m where m: "16 - n = Suc m" by (metis Suc_diff_Suc)
  have "map (\<lambda>i. esp_cpu_process_stack_pc w (fr_pc (nth_frame w f i))) [0..<n + 1] =
      esp_cpu_process_stack_pc w (fr_pc f) # map (\<lambda>i. esp_cpu_process_stack_pc w (fr_pc (nth_frame w f i))) [1..<n + 1]"
    by (subst upt_conv_Cons) simp_all
  then show ?thesis using bt_loop_walks [of "[esp_cpu_process_stack_pc w (fr_pc f)]" n 16 w f] assms True m
    by (simp add: diag_task_get_bt_def del: upt_Suc)
next
  case False
  then have "walkable w f 15" "fr_next_pc (nth_frame w f 15) \<noteq> 0" "fst (esp_backtrace_get_next_frame w (nth_frame w f 15))"
    using assms(3) by (auto simp: walkable_def)
  then show ?thesis using bt_loop_walks [of "[esp_cpu_process_stack_pc w (fr_pc f)]" 15 16 w f] assms False
    by (simp add: diag_task_get_bt_def split: prod.splits del: upt_Suc)
qed

section \<open>Instances\<close>

definition points_ex :: priv_data where
  "points_ex = \<lparr>table = [\<lparr>meta_tag = ''heap'', meta_key = ''free'', meta_label = ''Free'', meta_path = ''heap'', meta_type = ESP_DIAG_DATA_TYPE_UINT\<rparr>],
     dp_write_cb = Some (\<lambda>_ _. ESP_OK), dp_init = True, dp_written = []\<rparr>"

theorem tables_are_maps_witness:
  "fst (serve_all serve_metrics [Unregister ''free'', Unregister ''free''] points_ex) = [ESP_OK, ESP_ERR_NOT_FOUND]"
proof -
  have "dp_init points_ex" "distinct (map meta_key (table points_ex))" by (simp_all add: points_ex_def)
  from tables_are_maps [OF this, THEN conjunct1, of "[Unregister ''free'', Unregister ''free'']", THEN arg_cong, of fst]
  show ?thesis by (simp add: points_ex_def esp_diag_metrics_meta_get_def)
qed

theorem data_points_read_back_witness:
  "\<exists>b. metrics_add_value 9 (Some ''free'') (PUint 1000) points_ex = Some (ESP_OK, points_ex\<lparr>dp_written := [(''heap'', b)]\<rparr>) \<and>
    read_point b = (0, ''free'', 9, Some (PUint 1000))"
  using data_points_read_back [of points_ex "\<lambda>_ _. ESP_OK" "''free''" "hd (table points_ex)" "PUint 1000" 9] by (auto simp: points_ex_def)

definition walk_ex :: stack_walk where
  "walk_ex = \<lparr>esp_stack_ptr_is_sane = (\<lambda>_. True), esp_ptr_executable = (\<lambda>_. True), esp_cpu_process_stack_pc = id,
     esp_backtrace_get_next_frame = (\<lambda>f. (True, \<lparr>fr_pc = fr_next_pc f, fr_sp = fr_sp f, fr_next_pc = fr_next_pc f - 1\<rparr>))\<rparr>"

theorem backtrace_overflows_witness: "diag_task_get_bt walk_ex \<lparr>fr_pc = 2, fr_sp = 0, fr_next_pc = 1\<rparr> = Some ([2, 1], False)"
proof -
  have "walkable walk_ex \<lparr>fr_pc = 2, fr_sp = 0, fr_next_pc = 1\<rparr> 1" by (simp add: walkable_def walk_ex_def)
  from backtrace_overflows [OF _ _ this] show ?thesis by (simp add: walk_ex_def nth_frame_def)
qed

end
