(* ===== verification/MdnsTxt.thy ===== *)
theory MdnsTxt
  imports Prelude
begin

text \<open>
  TXT records of the mDNS responder (managed_components/espressif__mdns/mdns.c): the entries "key=value" appended to a packet, and
  the items created from the data of a received record. A packet under construction is its array of bytes and the index of the first free
  one. A result \<open>None\<close> is an access outside an array, or a loop without end. \<open>malloc_ok\<close> says for which sizes an
  allocation succeeds; the memory for items holds as many as were counted.
\<close>

section \<open>Packets under construction\<close>

definition MDNS_MAX_PACKET_SIZE :: nat where "MDNS_MAX_PACKET_SIZE = 1460"

text \<open>Bytes are written at the index, which is 16 bits wide.\<close>

record tx_packet =
  pkt :: bytes
  pkt_index :: nat

definition put_bytes :: "bytes \<Rightarrow> tx_packet \<Rightarrow> tx_packet option" where
  "put_bytes bs p =
     map_option (\<lambda>b. p\<lparr>pkt := b, pkt_index := (pkt_index p + length bs) mod 2 ^ 16\<rparr>) (memcpy_to (pkt p) (pkt_index p) bs)"

definition mdns_append_u8 :: "u8 \<Rightarrow> tx_packet \<Rightarrow> (nat \<times> tx_packet) option" where
  "mdns_append_u8 v p = (if pkt_index p \<ge> MDNS_MAX_PACKET_SIZE then Some (0, p) else map_option (Pair 1) (put_bytes [v] p))"

section \<open>Entries\<close>

text \<open>The value has a length of its own, which fits a byte; the length byte holds the sum modulo 256.\<close>

record txt_entry =
  e_key :: "bytes option"
  e_value :: "bytes option"

definition append_one_txt_record_entry :: "txt_entry option \<Rightarrow> tx_packet \<Rightarrow> (int \<times> tx_packet) option" where
  "append_one_txt_record_entry txt p =
     (case txt of None \<Rightarrow> Some (-1, p)
      | Some t \<Rightarrow>
          (case e_key t of None \<Rightarrow> Some (-1, p)
           | Some key \<Rightarrow>
               let text = key @ (case e_value t of None \<Rightarrow> [] | Some v \<Rightarrow> [0x3d] @ v); len = length text in
               if pkt_index p + len + 1 \<ge> MDNS_MAX_PACKET_SIZE then Some (0, p)
               else
                 Option.bind (mdns_append_u8 (word_of_nat len) p) (\<lambda>(_, p1).
                   map_option (\<lambda>p2. (int len + 1, p2)) (put_bytes text p1))))"

text \<open>The entries of a service; \<open>None\<close> of the sum is the end because an entry does not fit.\<close>

fun append_txt_entries :: "txt_entry list \<Rightarrow> nat \<Rightarrow> tx_packet \<Rightarrow> (nat option \<times> tx_packet) option" where
  "append_txt_entries [] data_len p = Some (Some data_len, p)"
| "append_txt_entries (t # ts) data_len p =
     Option.bind (append_one_txt_record_entry (Some t) p) (\<lambda>(l, p1).
       if l > 0 then append_txt_entries ts ((data_len + nat l) mod 2 ^ 16) p1
       else if l = 0 then Some (None, p1)
       else append_txt_entries ts data_len p1)"

section \<open>Items\<close>

partial_function (option) items_count_loop :: "bytes \<Rightarrow> nat \<Rightarrow> int \<Rightarrow> int option" where
  "items_count_loop data i num =
     (if \<not> i < length data then Some num
      else
        let partLen = unat (data ! i); i1 = (i + 1) mod 2 ^ 16 in
        if partLen = 0 then Some num
        else if i1 + partLen > length data then Some (-1)
        else items_count_loop data ((i1 + partLen) mod 2 ^ 16) (num + 1))"

definition mdns_txt_items_count_get :: "bytes \<Rightarrow> int option" where
  "mdns_txt_items_count_get data = (if length data = 1 then Some 0 else items_count_loop data 0 0)"

fun name_len_loop :: "bytes \<Rightarrow> nat \<Rightarrow> nat" where
  "name_len_loop [] i = i"
| "name_len_loop (c # cs) i = (if c = 0x3d then i else name_len_loop cs (i + 1))"

definition mdns_txt_item_name_get_len :: "bytes \<Rightarrow> int" where
  "mdns_txt_item_name_get_len data = (if hd data = 0x3d then -1 else int (name_len_loop data 0))"

type_synonym txt_item = "bytes \<times> bytes option"

text \<open>\<open>Inl\<close> is the jump to the error handler, which frees the items created so far.\<close>

partial_function (option) txt_create_loop :: "(nat \<Rightarrow> bool) \<Rightarrow> bytes \<Rightarrow> nat \<Rightarrow> nat \<Rightarrow> txt_item list \<Rightarrow> (unit + txt_item list) option" where
  "txt_create_loop malloc_ok data num_items i items =
     (if \<not> i < length data then Some (Inr items)
      else
        let partLen = unat (data ! i); i1 = (i + 1) mod 2 ^ 16 in
        if partLen = 0 then Some (Inr items)
        else if i1 + partLen > length data then Some (Inl ())
        else
          let name_len = mdns_txt_item_name_get_len (take partLen (drop i1 data)) in
          if name_len < 0 then txt_create_loop malloc_ok data num_items ((i1 + partLen) mod 2 ^ 16) items
          else if \<not> malloc_ok (nat name_len + 1) then Some (Inl ())
          else if length items \<ge> num_items then None
          else
            let key = take (nat name_len) (drop i1 data); i2 = (i1 + nat name_len + 1) mod 2 ^ 16;
                new_value_len = int partLen - name_len - 1 in
            if new_value_len > 0 then
              if \<not> malloc_ok (nat new_value_len + 1) then Some (Inl ())
              else
                Option.bind (memcpy_from data i2 (nat new_value_len)) (\<lambda>value.
                  txt_create_loop malloc_ok data num_items ((i2 + nat new_value_len) mod 2 ^ 16) (items @ [(key, Some value)]))
            else txt_create_loop malloc_ok data num_items i2 (items @ [(key, None)]))"

text \<open>No items is a null pointer. An item takes 8 bytes.\<close>

definition mdns_result_txt_create :: "(nat \<Rightarrow> bool) \<Rightarrow> bytes \<Rightarrow> txt_item list option" where
  "mdns_result_txt_create malloc_ok data =
     Option.bind (mdns_txt_items_count_get data) (\<lambda>num_items.
       if num_items < 0 \<or> num_items = 0 \<or> \<not> malloc_ok (8 * nat num_items) \<or> \<not> malloc_ok (nat num_items) then Some []
       else map_option (\<lambda>r. case r of Inl _ \<Rightarrow> [] | Inr items \<Rightarrow> items) (txt_create_loop malloc_ok data (nat num_items) 0 []))"

section \<open>Entries are read back\<close>

definition entry_text :: "bytes \<times> bytes \<Rightarrow> bytes" where
  "entry_text e = fst e @ [0x3d] @ snd e"

definition entry_bytes :: "bytes \<times> bytes \<Rightarrow> bytes" where
  "entry_bytes e = word_of_nat (length (entry_text e)) # entry_text e"

definition entries_bytes :: "(bytes \<times> bytes) list \<Rightarrow> bytes" where
  "entries_bytes es = concat (map entry_bytes es)"

text \<open>A key is not empty and has no equals sign.\<close>

definition entry_ok :: "bytes \<times> bytes \<Rightarrow> bool" where
  "entry_ok e \<longleftrightarrow> fst e \<noteq> [] \<and> list_all (\<lambda>c. c \<noteq> 0x3d) (fst e) \<and> length (entry_text e) < 256"

definition entry_item :: "bytes \<times> bytes \<Rightarrow> txt_item" where
  "entry_item e = (fst e, if snd e = [] then None else Some (snd e))"

lemma txt_bytes_simps [simp]: "entries_bytes [] = []" "entries_bytes (e # es) = entry_bytes e @ entries_bytes es"
  by (simp_all add: entries_bytes_def)

lemma nat_one_plus [simp]: "nat (1 + int n) = Suc n"
  by simp

lemma length_txt_bytes: "length (entry_bytes e) = length (entry_text e) + 1"
  by (simp add: entry_bytes_def)

lemma name_len_loop_key: "list_all (\<lambda>c. c \<noteq> 0x3d) k \<Longrightarrow> name_len_loop (k @ 0x3d # v) i = i + length k"
  by (induction k arbitrary: i) auto

lemma entry_name_len: "entry_ok e \<Longrightarrow> mdns_txt_item_name_get_len (entry_text e) = int (length (fst e))"
  using name_len_loop_key [of "fst e" "snd e" 0]
  by (cases "fst e") (auto simp: mdns_txt_item_name_get_len_def entry_text_def entry_ok_def)

lemma entry_at:
  assumes "entry_ok e"
  shows "unat ((pre @ entry_bytes e @ post) ! length pre) = length (entry_text e)"
    "take (length (entry_text e)) (drop (length pre + 1) (pre @ entry_bytes e @ post)) = entry_text e"
  using assms by (simp_all add: entry_bytes_def entry_ok_def unat_of_nat nth_append)

lemma length_entry_text: "length (entry_text e) = length (fst e) + 1 + length (snd e)"
  by (simp add: entry_text_def)

lemma items_counted:
  assumes "list_all entry_ok es" "length (pre @ entries_bytes es) < 2 ^ 16"
  shows "items_count_loop (pre @ entries_bytes es) (length pre) num = Some (num + int (length es))"
  using assms
proof (induction es arbitrary: pre num)
  case Nil
  then show ?case by (subst items_count_loop.simps) simp
next
  case (Cons e es)
  let ?d = "pre @ entry_bytes e @ entries_bytes es"
  have ok: "entry_ok e" using Cons.prems by simp
  have l: "length pre + 1 + length (entry_text e) < 2 ^ 16" "length pre + 1 + length (entry_text e) \<le> length ?d" "length pre < length ?d"
    using Cons.prems by (simp_all add: length_txt_bytes)
  have "items_count_loop ?d (length pre) num = items_count_loop ?d (length pre + 1 + length (entry_text e)) (num + 1)"
    using entry_at [OF ok, of pre "entries_bytes es"] l by (subst items_count_loop.simps) (simp add: Let_def length_entry_text)
  also have "\<dots> = Some (num + 1 + int (length es))"
    using Cons.IH [of "pre @ entry_bytes e" "num + 1"] Cons.prems by (simp add: length_txt_bytes)
  finally show ?case by simp
qed

lemma items_created:
  assumes "list_all entry_ok es" "length (pre @ entries_bytes es) < 2 ^ 16" "length items + length es \<le> n"
  shows "txt_create_loop (\<lambda>_. True) (pre @ entries_bytes es) n (length pre) items = Some (Inr (items @ map entry_item es))"
  using assms
proof (induction es arbitrary: pre items)
  case Nil
  then show ?case by (subst txt_create_loop.simps) simp
next
  case (Cons e es)
  let ?d = "pre @ entry_bytes e @ entries_bytes es"
  have ok: "entry_ok e" using Cons.prems by simp
  have l: "length pre + 1 + length (entry_text e) < 2 ^ 16" "length pre + 1 + length (entry_text e) \<le> length ?d" "length pre < length ?d"
    using Cons.prems by (simp_all add: length_txt_bytes)
  note at = entry_at [OF ok, of pre "entries_bytes es"]
  have key: "take (length (fst e)) (drop (length pre + 1) ?d) = fst e"
    by (simp add: entry_bytes_def entry_text_def)
  have val: "memcpy_from ?d (length pre + 1 + length (fst e) + 1) (length (snd e)) = Some (snd e)"
    using l(2) by (simp add: memcpy_from_def entry_bytes_def entry_text_def)
  have "txt_create_loop (\<lambda>_. True) d n i items = txt_create_loop (\<lambda>_. True) d n (i + 1 + length (entry_text e)) (items @ [entry_item e])"
    if "unat (d ! i) = length (entry_text e)" "take (length (entry_text e)) (drop (i + 1) d) = entry_text e"
      "take (length (fst e)) (drop (i + 1) d) = fst e" "memcpy_from d (i + 1 + length (fst e) + 1) (length (snd e)) = Some (snd e)"
      "i + 1 + length (entry_text e) < 2 ^ 16" "i + 1 + length (entry_text e) \<le> length d" "i < length d" for d i
    using that entry_name_len [OF ok] Cons.prems(3) by (subst txt_create_loop.simps) (simp add: Let_def length_entry_text entry_item_def add.assoc)
  from this [OF at key val l] have "txt_create_loop (\<lambda>_. True) ?d n (length pre) items =
      txt_create_loop (\<lambda>_. True) ?d n (length pre + 1 + length (entry_text e)) (items @ [entry_item e])" .
  also have "\<dots> = Some (Inr ((items @ [entry_item e]) @ map entry_item es))"
    using Cons.IH [of "pre @ entry_bytes e" "items @ [entry_item e]"] Cons.prems by (simp add: length_txt_bytes)
  finally show ?case by simp
qed

lemma created_items:
  assumes "list_all entry_ok es" "length (entries_bytes es) < 2 ^ 16"
  shows "mdns_result_txt_create (\<lambda>_. True) (entries_bytes es) = Some (map entry_item es)"
proof (cases es)
  case Nil
  then show ?thesis by (simp add: mdns_result_txt_create_def mdns_txt_items_count_get_def items_count_loop.simps)
next
  case (Cons e es')
  then have "length (entries_bytes es) \<noteq> 1" using assms(1) by (auto simp: length_txt_bytes length_entry_text entry_ok_def)
  moreover have "0 < length es" using Cons by simp
  ultimately show ?thesis
    using items_counted [of es "[]" 0] items_created [of es "[]" "[]" "length es"] assms
    by (simp add: mdns_result_txt_create_def mdns_txt_items_count_get_def)
qed

lemma put_bytes_fits:
  assumes "length (pkt p) = MDNS_MAX_PACKET_SIZE" "pkt_index p + length bs \<le> MDNS_MAX_PACKET_SIZE"
  shows "\<exists>q. put_bytes bs p = Some q \<and> length (pkt q) = MDNS_MAX_PACKET_SIZE \<and> pkt_index q = pkt_index p + length bs \<and>
    take (pkt_index q) (pkt q) = take (pkt_index p) (pkt p) @ bs"
proof -
  obtain b where b: "memcpy_to (pkt p) (pkt_index p) bs = Some b" using memcpy_some assms by metis
  then show ?thesis using take_memcpy [OF b] assms by (simp add: put_bytes_def MDNS_MAX_PACKET_SIZE_def)
qed

definition plain_entry :: "bytes \<times> bytes \<Rightarrow> txt_entry" where
  "plain_entry e = \<lparr>e_key = Some (fst e), e_value = Some (snd e)\<rparr>"

lemma entry_appended:
  assumes "length (pkt p) = MDNS_MAX_PACKET_SIZE" "pkt_index p + length (entry_bytes e) < MDNS_MAX_PACKET_SIZE"
  shows "\<exists>q. append_one_txt_record_entry (Some (plain_entry e)) p = Some (int (length (entry_bytes e)), q) \<and>
    length (pkt q) = MDNS_MAX_PACKET_SIZE \<and> pkt_index q = pkt_index p + length (entry_bytes e) \<and>
    take (pkt_index q) (pkt q) = take (pkt_index p) (pkt p) @ entry_bytes e"
proof -
  obtain p1 where p1: "put_bytes [word_of_nat (length (entry_text e))] p = Some p1" "length (pkt p1) = MDNS_MAX_PACKET_SIZE"
    "pkt_index p1 = pkt_index p + 1" "take (pkt_index p1) (pkt p1) = take (pkt_index p) (pkt p) @ [word_of_nat (length (entry_text e))]"
    using put_bytes_fits [OF assms(1), of "[word_of_nat (length (entry_text e))]"] assms(2) by (auto simp: length_txt_bytes)
  obtain q where "put_bytes (entry_text e) p1 = Some q" "length (pkt q) = MDNS_MAX_PACKET_SIZE"
    "pkt_index q = pkt_index p1 + length (entry_text e)" "take (pkt_index q) (pkt q) = take (pkt_index p1) (pkt p1) @ entry_text e"
    using put_bytes_fits [OF p1(2), of "entry_text e"] assms(2) p1(3) by (auto simp: length_txt_bytes)
  then show ?thesis using p1 assms(2)
    by (simp add: append_one_txt_record_entry_def plain_entry_def Let_def mdns_append_u8_def entry_bytes_def)
      (simp add: entry_text_def)
qed

lemma entries_appended:
  assumes "length (pkt p) = MDNS_MAX_PACKET_SIZE" "pkt_index p + length (entries_bytes es) < MDNS_MAX_PACKET_SIZE"
    "n + length (entries_bytes es) < 2 ^ 16"
  shows "\<exists>q. append_txt_entries (map plain_entry es) n p = Some (Some (n + length (entries_bytes es)), q) \<and>
    length (pkt q) = MDNS_MAX_PACKET_SIZE \<and> pkt_index q = pkt_index p + length (entries_bytes es) \<and>
    take (pkt_index p + length (entries_bytes es)) (pkt q) = take (pkt_index p) (pkt p) @ entries_bytes es"
  using assms
proof (induction es arbitrary: p n)
  case (Cons e es)
  obtain q where q: "append_one_txt_record_entry (Some (plain_entry e)) p = Some (int (length (entry_bytes e)), q)"
    "length (pkt q) = MDNS_MAX_PACKET_SIZE" "pkt_index q = pkt_index p + length (entry_bytes e)"
    "take (pkt_index q) (pkt q) = take (pkt_index p) (pkt p) @ entry_bytes e"
    using entry_appended [of p e] Cons.prems by auto
  have "n + length (entry_bytes e) + length (entries_bytes es) < 2 ^ 16" using Cons.prems by simp
  with Cons.IH [OF q(2), of "n + length (entry_bytes e)"] q Cons.prems show ?case by (auto simp: length_txt_bytes add_ac)
qed simp

text \<open>TXT entries are read back. Entries with a key and a value, possibly empty, that are appended to a packet with room for them leave what
  is before them as it is, and the data they make up gives a reader the same keys and values in order, an empty value as none.\<close>

lemma txt_entries_are_read_back:
  assumes "list_all entry_ok es" "length (pkt p) = MDNS_MAX_PACKET_SIZE" "pkt_index p + length (entries_bytes es) < MDNS_MAX_PACKET_SIZE"
  shows "\<exists>n q. append_txt_entries (map plain_entry es) 0 p = Some (Some n, q) \<and> take (pkt_index p) (pkt q) = take (pkt_index p) (pkt p) \<and>
    mdns_result_txt_create (\<lambda>_. True) (take n (drop (pkt_index p) (pkt q))) = Some (map entry_item es)"
proof -
  have small: "length (entries_bytes es) < 2 ^ 16" using assms(3) by (simp add: MDNS_MAX_PACKET_SIZE_def)
  obtain q where q: "append_txt_entries (map plain_entry es) 0 p = Some (Some (length (entries_bytes es)), q)"
    "take (pkt_index p + length (entries_bytes es)) (pkt q) = take (pkt_index p) (pkt p) @ entries_bytes es"
    using entries_appended [OF assms(2,3), of 0] small by auto
  have i: "length (take (pkt_index p) (pkt p)) = pkt_index p" using assms(2,3) by simp
  have "take (length (entries_bytes es)) (drop (pkt_index p) (pkt q)) = drop (pkt_index p) (take (pkt_index p + length (entries_bytes es)) (pkt q))"
    by (simp add: take_drop add.commute)
  also have "\<dots> = entries_bytes es" unfolding q(2) using i by simp
  finally have d: "take (length (entries_bytes es)) (drop (pkt_index p) (pkt q)) = entries_bytes es" .
  have "take (pkt_index p) (pkt q) = take (pkt_index p) (take (pkt_index p + length (entries_bytes es)) (pkt q))" by simp
  also have "\<dots> = take (pkt_index p) (pkt p)" unfolding q(2) using i by simp
  finally show ?thesis using q(1) d created_items [OF assms(1) small] by (intro exI [of _ "length (entries_bytes es)"] exI [of _ q]) simp
qed

section \<open>Keys without a value\<close>

text \<open>A key without an equals sign moves the index one byte too far: the next item is read from behind its length byte.\<close>

lemma key_without_value_loses_items:
  "mdns_result_txt_create (\<lambda>_. True) [3, 0x66, 0x6f, 0x6f, 3, 0x61, 0x3d, 0x62] = Some []"
  by (simp add: mdns_result_txt_create_def mdns_txt_items_count_get_def items_count_loop.simps txt_create_loop.simps
    mdns_txt_item_name_get_len_def)

definition crafted_txt :: "nat \<Rightarrow> bytes" where
  "crafted_txt m = [1, 0x61, word_of_nat (3 * m)] @ concat (replicate m [2, 0x62, 0x3d])"

lemma length_crafted: "length (crafted_txt m) = 3 + 3 * m"
  by (induction m) (simp_all add: crafted_txt_def)

lemma crafted_at:
  assumes "k < m" "m \<le> 85"
  shows "crafted_txt m ! (3 + 3 * k) = 2" "take 2 (drop (4 + 3 * k) (crafted_txt m)) = [0x62, 0x3d]"
proof -
  define A where "A = [1, 0x61, word_of_nat (3 * m)] @ concat (replicate k [2, 0x62, 0x3d :: u8])"
  obtain j where "m = k + Suc j" using assms(1) by (metis less_natE add_Suc_right)
  then have r: "replicate m x = replicate k x @ x # replicate j x" for x :: bytes by (simp only: replicate_add replicate_Suc)
  have c: "crafted_txt m = A @ [2, 0x62, 0x3d] @ concat (replicate j [2, 0x62, 0x3d])"
    unfolding crafted_txt_def A_def r by (simp only: concat_append concat.simps append_assoc)
  have l: "length A = 3 + 3 * k" by (simp add: A_def length_concat sum_list_replicate)
  show "crafted_txt m ! (3 + 3 * k) = 2" unfolding c l [symmetric] by (subst nth_append) simp
  have "4 + 3 * k = length (A @ [2])" using l by simp
  moreover have "crafted_txt m = (A @ [2]) @ [0x62, 0x3d] @ concat (replicate j [2, 0x62, 0x3d])" unfolding c by simp
  ultimately show "take 2 (drop (4 + 3 * k) (crafted_txt m)) = [0x62, 0x3d]" by (simp only: append_eq_conv_conj) simp
qed

lemma crafted_step:
  assumes "k < m" "m \<le> 85"
  shows "txt_create_loop (\<lambda>_. True) (crafted_txt m) n (3 + 3 * k) items =
    (if length items \<ge> n then None else txt_create_loop (\<lambda>_. True) (crafted_txt m) n (3 + 3 * (k + 1)) (items @ [([0x62], None)]))"
proof -
  have at: "crafted_txt m ! (3 + 3 * k) = 2" "take 2 (drop (4 + 3 * k) (crafted_txt m)) = [0x62, 0x3d]"
    using crafted_at [OF assms] by auto
  have key: "take 1 (drop (4 + 3 * k) (crafted_txt m)) = [0x62]"
    using arg_cong [OF at(2), of "take 1"] by simp
  have l: "3 + 3 * k < length (crafted_txt m)" "4 + 3 * k + 2 \<le> length (crafted_txt m)" "4 + 3 * k + 2 < 2 ^ 16"
    using assms by (simp_all add: length_crafted)
  show ?thesis
    by (subst txt_create_loop.simps) (use at key l in \<open>simp add: Let_def mdns_txt_item_name_get_len_def\<close>)
qed

text \<open>A received TXT record can be written behind the memory for its items. A record of a key without a value, and one more entry whose
  text looks like entries, is counted as two items, and the walk that creates the items finds as many as were put into the text and stores them behind
  the two it has memory for.\<close>

theorem crafted_txt_overflows:
  assumes "2 \<le> m" "m \<le> 85"
  shows "mdns_txt_items_count_get (crafted_txt m) = Some 2 \<and> mdns_result_txt_create (\<lambda>_. True) (crafted_txt m) = None"
proof -
  have len: "length (crafted_txt m) = 3 + 3 * m" by (rule length_crafted)
  have at: "crafted_txt m ! 0 = 1" "crafted_txt m ! 1 = 0x61" "crafted_txt m ! 2 = word_of_nat (3 * m)" "crafted_txt m \<noteq> []"
    by (simp_all add: crafted_txt_def)
  have first: "take (Suc 0) (drop (Suc 0) (crafted_txt m)) = [0x61]" "hd (drop (Suc 0) (crafted_txt m)) = 0x61"
    by (simp_all add: crafted_txt_def)
  have m: "unat (crafted_txt m ! 2) = 3 * m" unfolding at(3) by (subst unat_of_nat) (use assms in simp)
  have "items_count_loop (crafted_txt m) 0 0 = items_count_loop (crafted_txt m) (Suc (Suc 0)) 1"
    using len at(1) assms by (subst items_count_loop.simps) (simp add: Let_def)
  also have "\<dots> = items_count_loop (crafted_txt m) (3 + 3 * m) 2"
    using len m assms by (subst items_count_loop.simps) (simp add: Let_def flip: numeral_2_eq_2)
  also have "\<dots> = Some 2" using len by (subst items_count_loop.simps) simp
  finally have count: "mdns_txt_items_count_get (crafted_txt m) = Some 2" using len assms by (simp add: mdns_txt_items_count_get_def)
  have "txt_create_loop (\<lambda>_. True) (crafted_txt m) 2 0 [] = txt_create_loop (\<lambda>_. True) (crafted_txt m) 2 3 [([0x61], None)]"
    using len at(1) assms first by (subst txt_create_loop.simps) (simp add: mdns_txt_item_name_get_len_def flip: numeral_3_eq_3)
  also have "\<dots> = None"
    using crafted_step [of 0 m 2 "[([0x61], None)]"] crafted_step [of 1 m 2 "[([0x61], None), ([0x62], None)]"] assms by simp
  finally show ?thesis using count by (simp add: mdns_result_txt_create_def)
qed

section \<open>Instances\<close>

theorem crafted_txt_overflows_witness:
  "mdns_txt_items_count_get (crafted_txt 10) = Some 2 \<and> mdns_result_txt_create (\<lambda>_. True) (crafted_txt 10) = None"
  using crafted_txt_overflows [of 10] by simp

end
