(* ===== verification/MdnsName.thy ===== *)
theory MdnsName
  imports MdnsTxt
begin

text \<open>
  Names in the packets of the mDNS responder (managed_components/espressif__mdns/mdns.c): reading a name, which may end in a reference to an
  earlier place of the packet, and appending one, with a search for a place that holds the rest of the name already. Strings are
  their bytes before the NUL. The configuration is the default one, without answers to reverse queries. A result \<open>None\<close> is an access outside the packet; a null
  pointer returned for a malformed name is \<open>None\<close> inside it.
\<close>

section \<open>Strings\<close>

definition lower :: "u8 \<Rightarrow> u8" where
  "lower c = (if 0x41 \<le> c \<and> c \<le> 0x5a then c + 0x20 else c)"

definition strcaseeq :: "bytes \<Rightarrow> bytes \<Rightarrow> bool" where
  "strcaseeq s t \<longleftrightarrow> map lower s = map lower t"

definition c_str :: "bytes \<Rightarrow> bytes" where
  "c_str b = takeWhile (\<lambda>c. c \<noteq> 0) b"

definition ascii :: "string \<Rightarrow> bytes" where
  "ascii s = map of_char s"

text \<open>Concatenation into a buffer of 65 bytes.\<close>

definition strlcat :: "bytes \<Rightarrow> bytes \<Rightarrow> bytes" where
  "strlcat dst s = dst @ take (64 - length dst) s"

section \<open>Reading a name\<close>

record mdns_name =
  n_host :: bytes
  n_service :: bytes
  n_proto :: bytes
  n_domain :: bytes
  n_parts :: nat
  n_sub :: bool
  n_invalid :: bool

definition empty_name :: mdns_name where
  "empty_name = \<lparr>n_host = [], n_service = [], n_proto = [], n_domain = [], n_parts = 0, n_sub = False, n_invalid = False\<rparr>"

definition name_part :: "nat \<Rightarrow> mdns_name \<Rightarrow> bytes" where
  "name_part i n = (if i = 0 then n_host n else if i = 1 then n_service n else if i = 2 then n_proto n else n_domain n)"

definition set_part :: "nat \<Rightarrow> bytes \<Rightarrow> mdns_name \<Rightarrow> mdns_name" where
  "set_part i s n =
     (if i = 0 then n\<lparr>n_host := s\<rparr> else if i = 1 then n\<lparr>n_service := s\<rparr> else if i = 2 then n\<lparr>n_proto := s\<rparr> else n\<lparr>n_domain := s\<rparr>)"

definition mark :: "mdns_name \<Rightarrow> mdns_name" where
  "mark n = (if n_parts n = 4 then n\<lparr>n_invalid := True\<rparr> else n)"

definition add_label :: "bytes \<Rightarrow> mdns_name \<Rightarrow> mdns_name" where
  "add_label label n =
     (let s = c_str label in
      if n_parts n = 1 \<and> hd label \<noteq> 0x5f \<and> \<not> strcaseeq s (ascii ''local'') \<and> \<not> strcaseeq s (ascii ''arpa'') \<and>
         \<not> strcaseeq s (ascii ''ip6'') \<and> \<not> strcaseeq s (ascii ''in-addr'') then
        n\<lparr>n_host := strlcat (strlcat (n_host n) [0x2e]) s\<rparr>
      else if strcaseeq s (ascii ''_sub'') then n\<lparr>n_sub := True\<rparr>
      else if \<not> n_invalid n then (set_part (n_parts n) s n)\<lparr>n_parts := n_parts n + 1\<rparr>
      else n)"

text \<open>The label of the given length at a place; the loop that copies it gives up at the end of the packet.\<close>

definition label_at :: "bytes \<Rightarrow> nat \<Rightarrow> nat \<Rightarrow> bytes option" where
  "label_at p i len = memcpy_from p i len"

text \<open>A reference has to point before the place the reading started at.\<close>

function read_fqdn :: "bytes \<Rightarrow> nat \<Rightarrow> nat \<Rightarrow> mdns_name \<Rightarrow> (nat option \<times> mdns_name) option" where
  "read_fqdn p start index n =
     (if \<not> (start + index < length p \<and> p ! (start + index) \<noteq> 0) then Some (Some (start + index + 1), n)
      else
        let n0 = mark n; len = unat (p ! (start + index)) in
        if len < 0xc0 then
          if len > 63 then Some (None, n0)
          else
            (case label_at p (start + index + 1) len of None \<Rightarrow> Some (None, n0)
             | Some label \<Rightarrow> read_fqdn p start (index + 1 + len) (add_label label n0))
        else if \<not> start + index + 1 < length p then None
        else
          let address = len mod 64 * 256 + unat (p ! (start + index + 1)) in
          if \<not> address < start then Some (None, n0)
          else
            (case read_fqdn p address 0 n0 of None \<Rightarrow> None
             | Some (Some _, n1) \<Rightarrow> Some (Some (start + index + 2), n1)
             | Some (None, n1) \<Rightarrow> Some (None, n1)))"
  by pat_completeness auto
termination by (relation "measures [\<lambda>(p, start, index, n). start, \<lambda>(p, start, index, n). length p - index]") auto

declare read_fqdn.simps [simp del]

definition mdns_read_fqdn :: "bytes \<Rightarrow> nat \<Rightarrow> mdns_name \<Rightarrow> (nat option \<times> mdns_name) option" where
  "mdns_read_fqdn p start n = read_fqdn p start 0 n"

definition mdns_parse_fqdn :: "bytes \<Rightarrow> nat \<Rightarrow> (nat option \<times> mdns_name) option" where
  "mdns_parse_fqdn p start =
     map_option (\<lambda>(next_data, n).
         case next_data of None \<Rightarrow> (None, n)
         | Some e \<Rightarrow>
             if n_parts n = 0 \<or> n_invalid n then (Some e, n)
             else
               let n1 = (if n_parts n = 3 then n\<lparr>n_service := n_host n, n_proto := n_service n, n_domain := n_proto n, n_host := []\<rparr>
                         else if n_parts n = 2 then n\<lparr>n_domain := n_service n, n_service := [], n_proto := []\<rparr> else n) in
               if strcaseeq (n_domain n1) (ascii ''local'') \<or> strcaseeq (n_domain n1) (ascii ''arpa'') then (Some e, n1)
               else (Some e, n1\<lparr>n_invalid := True\<rparr>))
       (mdns_read_fqdn p start empty_name)"

section \<open>Appending a name\<close>

definition mdns_append_u16 :: "u16 \<Rightarrow> tx_packet \<Rightarrow> (nat \<times> tx_packet) option" where
  "mdns_append_u16 v p =
     (if pkt_index p + 1 \<ge> MDNS_MAX_PACKET_SIZE then Some (0, p)
      else
        Option.bind (mdns_append_u8 (ucast (drop_bit 8 v)) p) (\<lambda>(_, p1).
          map_option (\<lambda>(_, p2). (2, p2)) (mdns_append_u8 (ucast v) p1)))"

text \<open>Lengths are cut to 8 bits.\<close>

definition mdns_append_string :: "bytes \<Rightarrow> tx_packet \<Rightarrow> (nat \<times> tx_packet) option" where
  "mdns_append_string s p =
     (let len = length s mod 256 in
      if pkt_index p + len + 1 \<ge> MDNS_MAX_PACKET_SIZE then Some (0, p)
      else
        Option.bind (mdns_append_u8 (word_of_nat len) p) (\<lambda>(_, p1).
          map_option (\<lambda>p2. ((len + 1) mod 256, p2)) (put_bytes (take len s) p1)))"

definition same_strings :: "bytes list \<Rightarrow> mdns_name \<Rightarrow> bool" where
  "same_strings strings n \<longleftrightarrow> n_parts n = length strings \<and> list_all (\<lambda>i. strcaseeq (strings ! i) (name_part i n)) [0..<length strings]"

text \<open>The search for a place from the given one on; comparing the string may read behind the packet.\<close>

function find_fqdn :: "bytes \<Rightarrow> nat \<Rightarrow> bytes list \<Rightarrow> nat \<Rightarrow> nat option option" where
  "find_fqdn p index strings pos =
     (if \<not> pos < index then Some None
      else
        let len = length (hd strings) mod 256 in
        if p ! pos \<noteq> word_of_nat len then find_fqdn p index strings (pos + 1)
        else
          (case memcpy_from p (pos + 1) len of None \<Rightarrow> None
           | Some b \<Rightarrow>
               if b \<noteq> take len (hd strings) then find_fqdn p index strings (pos + 1)
               else
                 (case mdns_read_fqdn p pos empty_name of None \<Rightarrow> None
                  | Some (None, n) \<Rightarrow> find_fqdn p index strings (pos + 1)
                  | Some (Some _, n) \<Rightarrow> if same_strings strings n then Some (Some pos) else find_fqdn p index strings (pos + 1))))"
  by pat_completeness auto
termination by (relation "measure (\<lambda>(p, index, strings, pos). index - pos)") auto

declare find_fqdn.simps [simp del]

definition MDNS_NAME_REF :: u16 where "MDNS_NAME_REF = 0xc000"

fun mdns_append_fqdn :: "bytes list \<Rightarrow> tx_packet \<Rightarrow> (nat \<times> tx_packet) option" where
  "mdns_append_fqdn [] p = mdns_append_u8 0 p"
| "mdns_append_fqdn (s # ss) p =
     (case find_fqdn (pkt p) (pkt_index p) (s # ss) 0 of None \<Rightarrow> None
      | Some (Some pos) \<Rightarrow> mdns_append_u16 (word_of_nat pos OR MDNS_NAME_REF) p
      | Some None \<Rightarrow>
          Option.bind (mdns_append_string s p) (\<lambda>(written, p1).
            if written = 0 then Some (0, p1)
            else map_option (\<lambda>(l, p2). ((written + l) mod 2 ^ 16, p2)) (mdns_append_fqdn ss p1)))"

section \<open>Any name is read safely\<close>

definition name_ok :: "mdns_name \<Rightarrow> bool" where
  "name_ok n \<longleftrightarrow> n_parts n \<le> 4 \<and> length (n_host n) \<le> 64 \<and> length (n_service n) \<le> 64 \<and> length (n_proto n) \<le> 64 \<and> length (n_domain n) \<le> 64 \<and>
     0 \<notin> set (n_host n) \<union> set (n_service n) \<union> set (n_proto n) \<union> set (n_domain n)"

lemma c_str_props: "length (c_str b) \<le> length b" "0 \<notin> set (c_str b)"
  by (auto simp: c_str_def length_takeWhile_le dest: set_takeWhileD)

lemma strlcat_ok: "length d \<le> 64 \<Longrightarrow> 0 \<notin> set d \<Longrightarrow> 0 \<notin> set s \<Longrightarrow> length (strlcat d s) \<le> 64 \<and> 0 \<notin> set (strlcat d s)"
  by (auto simp: strlcat_def dest: in_set_takeD)

lemma mark_ok: "name_ok n \<Longrightarrow> name_ok (mark n)" "n_parts n = 4 \<Longrightarrow> n_invalid (mark n)"
  by (auto simp: mark_def name_ok_def)

lemma add_label_ok:
  assumes "name_ok n" "length label < 64" "n_parts n = 4 \<longrightarrow> n_invalid n"
  shows "name_ok (add_label label n)"
proof -
  have s: "length (c_str label) < 64" "0 \<notin> set (c_str label)" using c_str_props [of label] assms(2) by auto
  have dot: "length (strlcat (n_host n) [0x2e]) \<le> 64" "0 \<notin> set (strlcat (n_host n) [0x2e])"
    using strlcat_ok [of "n_host n" "[0x2e]"] assms(1) by (auto simp: name_ok_def)
  have cat: "length (strlcat (strlcat (n_host n) [0x2e]) (c_str label)) \<le> 64" "0 \<notin> set (strlcat (strlcat (n_host n) [0x2e]) (c_str label))"
    using strlcat_ok [OF dot s(2)] by auto
  show ?thesis using assms(1,3) s cat by (auto simp: add_label_def Let_def name_ok_def set_part_def)
qed

lemma read_is_safe:
  assumes "name_ok n" "start + index \<le> length p" "p = [] \<or> last p < 0xc0"
  shows "\<exists>r n'. read_fqdn p start index n = Some (r, n') \<and> name_ok n' \<and>
      (r = None \<or> (\<exists>e. r = Some e \<and> start + index < e \<and> e \<le> length p + 1))"
  using assms
proof (induction p start index n rule: read_fqdn.induct)
  case (1 p start index n)
  let ?b = "p ! (start + index)"
  have n0: "name_ok (mark n)" "n_parts (mark n) = 4 \<longrightarrow> n_invalid (mark n)" using 1(3) mark_ok by (auto simp: mark_def)
  show ?case
  proof (cases "start + index < length p \<and> ?b \<noteq> 0")
    case False
    then show ?thesis using 1(3,4) by (subst read_fqdn.simps) (auto simp del: split_paired_Ex)
  next
    case True
    then have nn: "\<not> \<not> (start + index < length p \<and> ?b \<noteq> 0)" by simp
    consider (label) label where "unat ?b \<le> 63" "label_at p (start + index + 1) (unat ?b) = Some label"
      | (bad) "unat ?b < 0xc0" "63 < unat ?b \<or> label_at p (start + index + 1) (unat ?b) = None"
      | (ref) "0xc0 \<le> unat ?b" by force
    then show ?thesis
    proof cases
      case label
      then have l: "length label = unat ?b" "start + (index + 1 + unat ?b) \<le> length p" by (auto simp: label_at_def memcpy_from_def split: if_splits)
      have "name_ok (add_label label (mark n))" using add_label_ok n0 l label by simp
      from 1(1) [OF nn refl refl _ _ label(2) this l(2) 1(5)] label(1) obtain r n' where
        "read_fqdn p start (index + 1 + unat ?b) (add_label label (mark n)) = Some (r, n')" "name_ok n'"
        "r = None \<or> (\<exists>e. r = Some e \<and> start + (index + 1 + unat ?b) < e \<and> e \<le> length p + 1)" by auto
      then show ?thesis using True label by (subst read_fqdn.simps) (auto simp: Let_def)
    next
      case bad
      then show ?thesis using True n0 by (subst read_fqdn.simps) (auto simp: Let_def)
    next
      case ref
      have in_p: "start + index + 1 < length p"
      proof (rule ccontr)
        assume "\<not> start + index + 1 < length p"
        with True have "start + index = length p - 1" "p \<noteq> []" by auto
        then have "last p = ?b" by (simp add: last_conv_nth)
        then have "unat ?b < 0xc0" using 1(5) \<open>p \<noteq> []\<close> by (simp add: word_less_nat_alt)
        with ref show False by simp
      qed
      define a where "a = unat ?b mod 64 * 256 + unat (p ! (start + index + 1))"
      show ?thesis
      proof (cases "a < start")
        case False
        then show ?thesis using True ref in_p n0 by (subst read_fqdn.simps) (auto simp: Let_def a_def)
      next
        case ok: True
        have "a + 0 \<le> length p" using ok 1(4) by simp
        from 1(2) [OF nn refl refl _ _ a_def _ n0(1) this 1(5)] ref in_p ok obtain r n' where
          "read_fqdn p a 0 (mark n) = Some (r, n')" "name_ok n'" by auto
        then show ?thesis using True ref in_p ok by (subst read_fqdn.simps) (auto simp: Let_def a_def split: option.splits)
      qed
    qed
  qed
qed

text \<open>Any name is read safely. From any place of any packet whose last byte is not the first of a reference, reading a name ends without
  an access outside the packet; it fails or gives a name whose parts fit their buffers and the place behind the name, which lies
  behind the start and at most one byte behind the packet.\<close>

lemma any_name_is_read_safely:
  assumes "start \<le> length p" "p = [] \<or> last p < 0xc0"
  shows "\<exists>r n. mdns_parse_fqdn p start = Some (r, n) \<and> name_ok n \<and> (r = None \<or> (\<exists>e. r = Some e \<and> start < e \<and> e \<le> length p + 1))"
proof -
  have "name_ok empty_name" by (simp add: name_ok_def empty_name_def)
  from read_is_safe [OF this, of start 0 p] assms obtain r n where rn: "read_fqdn p start 0 empty_name = Some (r, n)" "name_ok n"
    "r = None \<or> (\<exists>e. r = Some e \<and> start < e \<and> e \<le> length p + 1)" by auto
  then show ?thesis by (cases r) (auto simp: mdns_parse_fqdn_def mdns_read_fqdn_def name_ok_def Let_def)
qed

lemma reference_at_the_end_is_read_behind: "mdns_parse_fqdn [3, 0x61, 0x62, 0x63, 0xc0] 0 = None"
  by (simp add: mdns_parse_fqdn_def mdns_read_fqdn_def read_fqdn.simps Let_def label_at_def memcpy_from_def)

section \<open>The labels of a name\<close>

text \<open>What a name in a packet is: from a place on, with the start of the name, there are these labels up to the place behind the
  name. A reference is \<open>None\<close> among the labels of the place it refers to.\<close>

inductive labelled :: "bytes \<Rightarrow> nat \<Rightarrow> nat \<Rightarrow> nat \<Rightarrow> bytes option list \<Rightarrow> bool" for p where
  name_end: "i < length p \<Longrightarrow> p ! i = 0 \<Longrightarrow> labelled p start i (i + 1) []"
| name_label: "i < length p \<Longrightarrow> 0 < unat (p ! i) \<Longrightarrow> unat (p ! i) \<le> 63 \<Longrightarrow> label_at p (i + 1) (unat (p ! i)) = Some l \<Longrightarrow>
    labelled p start (i + 1 + unat (p ! i)) e ls \<Longrightarrow> labelled p start i e (Some l # ls)"
| name_ref: "i + 1 < length p \<Longrightarrow> 0xc0 \<le> unat (p ! i) \<Longrightarrow> address = unat (p ! i) mod 64 * 256 + unat (p ! (i + 1)) \<Longrightarrow> address < start \<Longrightarrow>
    labelled p address address e ls \<Longrightarrow> labelled p start i (i + 2) (None # ls)"

definition labels_of :: "bytes option list \<Rightarrow> bytes list" where
  "labels_of ls = map the (filter (\<lambda>l. l \<noteq> None) ls)"

lemma labels_of_simps [simp]: "labels_of [] = []" "labels_of (None # ls) = labels_of ls" "labels_of (Some l # ls) = l # labels_of ls"
  by (simp_all add: labels_of_def)

text \<open>The name that the parser makes of labels.\<close>

definition add_next :: "mdns_name \<Rightarrow> bytes \<Rightarrow> mdns_name" where
  "add_next n l = add_label l (mark n)"

definition name_of :: "bytes list \<Rightarrow> mdns_name" where
  "name_of ls = foldl add_next empty_name ls"

fun read_step :: "mdns_name \<Rightarrow> bytes option \<Rightarrow> mdns_name" where
  "read_step n None = mark n"
| "read_step n (Some l) = add_next n l"

lemma read_labels: "labelled p start i e ls \<Longrightarrow> i = start + index \<Longrightarrow> read_fqdn p start index n = Some (Some e, foldl read_step n ls)"
proof (induction start i e ls arbitrary: index n rule: labelled.induct)
  case (name_end i start)
  then show ?case by (subst read_fqdn.simps) simp
next
  case (name_label i l start e ls)
  then have "read_fqdn p start (index + 1 + unat (p ! i)) (add_next n l) = Some (Some e, foldl read_step (add_next n l) ls)" by simp
  with name_label show ?case by (subst read_fqdn.simps) (auto simp: Let_def add_next_def)
next
  case (name_ref i address start e ls)
  then have "read_fqdn p address 0 (mark n) = Some (Some e, foldl read_step (mark n) ls)" by simp
  with name_ref show ?case by (subst read_fqdn.simps) (auto simp: Let_def)
qed

lemma label_at_prefix: "label_at p i len = Some l \<Longrightarrow> label_at (p @ q) i len = Some l"
  by (auto simp: label_at_def memcpy_from_def split: if_splits)

lemma labels_prefix: "labelled p start i e ls \<Longrightarrow> labelled (p @ q) start i e ls"
proof (induction rule: labelled.induct)
  case (name_end i start)
  then show ?case using labelled.name_end [of i "p @ q" start] by (simp add: nth_append)
next
  case (name_label i l start e ls)
  then show ?case using labelled.name_label [of i "p @ q" l start e ls] by (simp add: nth_append label_at_prefix)
next
  case (name_ref i address start e ls)
  then show ?case using labelled.name_ref [of i "p @ q" address start e ls] by (simp add: nth_append)
qed

lemma parts_grow: "n_parts n \<le> n_parts (foldl add_next n ls)"
proof (induction ls arbitrary: n)
  case (Cons l ls)
  have "n_parts n \<le> n_parts (add_next n l)" by (auto simp: add_next_def add_label_def mark_def Let_def set_part_def)
  with Cons [of "add_next n l"] show ?case by simp
qed simp

lemma references_do_not_count:
  assumes "ls = [] \<or> last ls \<noteq> None" "n_parts (foldl add_next n (butlast (labels_of ls))) < 4"
  shows "foldl read_step n ls = foldl add_next n (labels_of ls)"
  using assms
proof (induction ls arbitrary: n)
  case (Cons l ls)
  have ne: "ls \<noteq> [] \<Longrightarrow> labels_of ls \<noteq> []" if "ls = [] \<or> last ls \<noteq> None" using that by (cases ls rule: rev_cases) (auto simp: labels_of_def)
  show ?case
  proof (cases l)
    case None
    then have ls: "ls \<noteq> []" "last ls \<noteq> None" using Cons.prems(1) by (auto split: if_splits)
    have "n_parts n < 4" using Cons.prems(2) None parts_grow [of n "butlast (labels_of ls)"] by simp
    then show ?thesis using Cons ls None by (simp add: mark_def)
  next
    case (Some x)
    show ?thesis
    proof (cases "ls = []")
      case False
      then have "last ls \<noteq> None" "labels_of ls \<noteq> []" using Cons.prems(1) ne by auto
      then show ?thesis using Cons Some by simp
    qed (simp add: Some)
  qed
qed simp

section \<open>Names are read back\<close>

definition same_labels :: "bytes list \<Rightarrow> bytes list \<Rightarrow> bool" where
  "same_labels xs ys \<longleftrightarrow> map (map lower) xs = map (map lower) ys"

text \<open>
  The search compares what the parser makes of a place, and it reads behind what has been written. A match is sound if it is a
  complete name before a limit, at most the start of this one, and has these labels.
\<close>

definition sound_match :: "nat \<Rightarrow> tx_packet \<Rightarrow> bytes list \<Rightarrow> bool" where
  "sound_match limit p strings \<longleftrightarrow>
     (case find_fqdn (pkt p) (pkt_index p) strings 0 of None \<Rightarrow> False | Some None \<Rightarrow> True
      | Some (Some pos) \<Rightarrow>
          (\<exists>e ls. labelled (take limit (pkt p)) pos pos e ls \<and> same_labels (labels_of ls) strings \<and> ls \<noteq> [] \<and> last ls \<noteq> None))"

fun sound_matches :: "nat \<Rightarrow> bytes list \<Rightarrow> tx_packet \<Rightarrow> bool" where
  "sound_matches limit [] p \<longleftrightarrow> True"
| "sound_matches limit (s # ss) p \<longleftrightarrow> sound_match limit p (s # ss) \<and>
     (find_fqdn (pkt p) (pkt_index p) (s # ss) 0 = Some None \<longrightarrow>
        (case mdns_append_string s p of None \<Rightarrow> False | Some (_, p1) \<Rightarrow> sound_matches limit ss p1))"

definition plain_label :: "bytes \<Rightarrow> bool" where
  "plain_label s \<longleftrightarrow> s \<noteq> [] \<and> length s \<le> 63 \<and> 0 \<notin> set s"

definition name_room :: "bytes list \<Rightarrow> nat" where
  "name_room ss = sum_list (map (\<lambda>s. length s + 1) ss) + 2"

lemma name_room_simps [simp]: "name_room [] = 2" "name_room (s # ss) = length s + 1 + name_room ss"
  by (simp_all add: name_room_def)

definition written :: "tx_packet \<Rightarrow> bytes" where
  "written p = take (pkt_index p) (pkt p)"

definition grows :: "tx_packet \<Rightarrow> bytes \<Rightarrow> tx_packet \<Rightarrow> bool" where
  "grows p bs q \<longleftrightarrow> length (pkt q) = MDNS_MAX_PACKET_SIZE \<and> pkt_index q = pkt_index p + length bs \<and> written q = written p @ bs"

lemma grows_trans: "grows p a q \<Longrightarrow> grows q b r \<Longrightarrow> grows p (a @ b) r"
  by (simp add: grows_def)

lemma put_bytes_grows:
  "length (pkt p) = MDNS_MAX_PACKET_SIZE \<Longrightarrow> pkt_index p + length bs \<le> MDNS_MAX_PACKET_SIZE \<Longrightarrow> \<exists>q. put_bytes bs p = Some q \<and> grows p bs q"
  unfolding grows_def written_def by (rule put_bytes_fits)

lemma append_u8_grows:
  "length (pkt p) = MDNS_MAX_PACKET_SIZE \<Longrightarrow> pkt_index p < MDNS_MAX_PACKET_SIZE \<Longrightarrow> \<exists>q. mdns_append_u8 v p = Some (1, q) \<and> grows p [v] q"
  using put_bytes_grows [of p "[v]"] by (auto simp: mdns_append_u8_def)

lemma append_u16_grows:
  assumes "length (pkt p) = MDNS_MAX_PACKET_SIZE" "pkt_index p + 1 < MDNS_MAX_PACKET_SIZE"
  shows "\<exists>q. mdns_append_u16 v p = Some (2, q) \<and> grows p [ucast (drop_bit 8 v), ucast v] q"
proof -
  obtain q where q: "mdns_append_u8 (ucast (drop_bit 8 v)) p = Some (1, q)" "grows p [ucast (drop_bit 8 v)] q"
    using append_u8_grows assms by (metis add_lessD1)
  moreover have "length (pkt q) = MDNS_MAX_PACKET_SIZE" "pkt_index q < MDNS_MAX_PACKET_SIZE" using q(2) assms(2) by (auto simp: grows_def)
  from append_u8_grows [OF this] obtain r where "mdns_append_u8 (ucast v) q = Some (1, r)" "grows q [ucast v] r" by blast
  ultimately show ?thesis using assms(2) grows_trans [of p _ q _ r] by (fastforce simp: mdns_append_u16_def)
qed

lemma append_string_grows:
  assumes "length (pkt p) = MDNS_MAX_PACKET_SIZE" "pkt_index p + length s + 1 < MDNS_MAX_PACKET_SIZE" "plain_label s"
  shows "\<exists>q. mdns_append_string s p = Some (length s + 1, q) \<and> grows p (word_of_nat (length s) # s) q"
proof -
  have l: "length s mod 256 = length s" "(length s + 1) mod 256 = length s + 1" using assms(3) by (simp_all add: plain_label_def)
  obtain q where q: "mdns_append_u8 (word_of_nat (length s)) p = Some (1, q)" "grows p [word_of_nat (length s)] q"
    using append_u8_grows [OF assms(1)] assms(2) by (metis add_lessD1)
  moreover have "length (pkt q) = MDNS_MAX_PACKET_SIZE" "pkt_index q + length s \<le> MDNS_MAX_PACKET_SIZE" using q(2) assms(2) by (auto simp: grows_def)
  from put_bytes_grows [OF this] obtain r where "put_bytes s q = Some r" "grows q s r" by blast
  ultimately show ?thesis using assms(2) grows_trans [of p _ q _ r] l by (fastforce simp: mdns_append_string_def Let_def)
qed

lemma length_written: "length (pkt p) = MDNS_MAX_PACKET_SIZE \<Longrightarrow> pkt_index p \<le> MDNS_MAX_PACKET_SIZE \<Longrightarrow> length (written p) = pkt_index p"
  by (simp add: written_def)

lemma written_label:
  assumes "plain_label s" "labelled (w @ (word_of_nat (length s) # s) @ r) start (length w + 1 + length s) e ls"
  shows "labelled (w @ (word_of_nat (length s) # s) @ r) start (length w) e (Some s # ls)"
proof -
  let ?p = "w @ (word_of_nat (length s) # s) @ r"
  have b: "?p ! length w = word_of_nat (length s)" by simp
  have u: "unat (?p ! length w) = length s" unfolding b using assms(1) by (subst unat_of_nat) (simp add: plain_label_def)
  have "label_at ?p (length w + 1) (unat (?p ! length w)) = Some s" unfolding u by (simp add: label_at_def memcpy_from_def)
  moreover have "labelled ?p start (length w + 1 + unat (?p ! length w)) e ls" using assms(2) unfolding u .
  moreover have "length w < length ?p" "0 < unat (?p ! length w)" "unat (?p ! length w) \<le> 63" using assms(1) u by (simp_all add: plain_label_def)
  ultimately show ?thesis by (intro name_label)
qed

lemma low_and_high: "and (take_bit m x) (push_bit m y) = (0 :: 'a::len word)"
  by (rule bit_eqI) (simp add: bit_simps)

lemma reference_word:
  assumes "pos < 2 ^ 14"
  shows "unat (word_of_nat pos OR MDNS_NAME_REF) = pos + 0xc000"
proof -
  have t: "take_bit 14 (word_of_nat pos :: u16) = word_of_nat pos"
    using assms by (simp add: take_bit_nat_eq_self flip: of_nat_take_bit)
  have r: "MDNS_NAME_REF = push_bit 14 3" by (simp add: MDNS_NAME_REF_def push_bit_eq_mult)
  have "and (word_of_nat pos :: u16) MDNS_NAME_REF = 0"
    by (subst t [symmetric], subst r) (rule low_and_high)
  then have "word_of_nat pos OR MDNS_NAME_REF = word_of_nat pos + MDNS_NAME_REF" by (rule disjunctive_add_eq_or [symmetric])
  also have "\<dots> = word_of_nat (pos + 0xc000)" by (simp add: MDNS_NAME_REF_def)
  finally show ?thesis using assms by (simp only: unat_of_nat) simp
qed

lemma unat_ucast_u8: "unat (ucast (w :: u16) :: u8) = unat w mod 256"
  by (simp add: unsigned_ucast_eq take_bit_eq_mod)

lemma unat_drop_8: "unat (drop_bit 8 (w :: u16)) = unat w div 256"
  by (simp only: unat_drop_bit_eq) (simp add: drop_bit_eq_div)

lemma reference_bytes:
  assumes "pos < 2 ^ 14"
  shows "unat (ucast (drop_bit 8 (word_of_nat pos OR MDNS_NAME_REF)) :: u8) = 0xc0 + pos div 256"
    "unat (ucast (word_of_nat pos OR MDNS_NAME_REF) :: u8) = pos mod 256"
proof -
  have "pos div 256 < 64" using assms by (simp add: less_mult_imp_div_less)
  moreover have q: "(pos + 0xc000) div 256 = 0xc0 + pos div 256" proof -
    have "pos + 0xc000 = 0xc0 * 256 + pos" by simp
    then show ?thesis by (simp only: div_mult_self3)
  qed
  ultimately have "(pos + 0xc000) div 256 mod 256 = 0xc0 + pos div 256" unfolding q by (intro mod_less) simp
  then show "unat (ucast (drop_bit 8 (word_of_nat pos OR MDNS_NAME_REF)) :: u8) = 0xc0 + pos div 256"
    unfolding unat_ucast_u8 unat_drop_8 reference_word [OF assms] .
  have "(pos + 0xc000) mod 256 = pos mod 256" proof -
    have "pos + 0xc000 = pos + 256 * 0xc0" by simp
    then show ?thesis by (simp only: mod_mult_self2)
  qed
  then show "unat (ucast (word_of_nat pos OR MDNS_NAME_REF) :: u8) = pos mod 256"
    unfolding unat_ucast_u8 reference_word [OF assms] .
qed

lemma name_room_two: "2 \<le> name_room ss"
  by (simp add: name_room_def)

lemma labelled_inside: "labelled p start i e ls \<Longrightarrow> i < length p"
  by (induction rule: labelled.induct) auto

lemma name_written:
  assumes "sound_matches limit ss p" "length (pkt p) = MDNS_MAX_PACKET_SIZE" "limit \<le> start" "start \<le> pkt_index p"
    "pkt_index p + name_room ss \<le> MDNS_MAX_PACKET_SIZE" "\<forall>s\<in>set ss. plain_label s"
  shows "\<exists>l q bs ls. mdns_append_fqdn ss p = Some (l, q) \<and> grows p bs q \<and> l = length bs \<and> bs \<noteq> [] \<and>
    (\<forall>w. length w = pkt_index p \<longrightarrow> take limit w = take limit (pkt p) \<longrightarrow> labelled (w @ bs) start (pkt_index p) (pkt_index q) ls) \<and>
    same_labels (labels_of ls) ss \<and> (ls = [] \<or> last ls \<noteq> None) \<and> length bs < name_room ss"
  using assms
proof (induction ss arbitrary: p)
  case Nil
  then obtain q where q: "mdns_append_u8 0 p = Some (1, q)" "grows p [0] q" using append_u8_grows [of p 0] by auto
  have "labelled (w @ [0]) start (pkt_index p) (pkt_index p + 1) []" if "length w = pkt_index p" for w
    by (rule name_end) (use that in \<open>simp_all add: nth_append\<close>)
  with q show ?case by (auto simp: grows_def same_labels_def intro!: exI [of _ "[]"])
next
  case (Cons s ss)
  have lp: "limit \<le> length (pkt p)" using Cons.prems by simp
  have ps: "plain_label s" "length s > 0" "length s \<le> 63" using Cons.prems(6) by (auto simp: plain_label_def)
  consider (match) pos where "find_fqdn (pkt p) (pkt_index p) (s # ss) 0 = Some (Some pos)" | (none) "find_fqdn (pkt p) (pkt_index p) (s # ss) 0 = Some None"
    using Cons.prems(1) by (auto simp: sound_match_def split: option.splits)
  then show ?case
  proof cases
    case match
    then obtain e ls where m: "labelled (take limit (pkt p)) pos pos e ls" "same_labels (labels_of ls) (s # ss)" "ls \<noteq> []" "last ls \<noteq> None"
      using Cons.prems(1) by (auto simp: sound_match_def)
    have pos: "pos < start" using labelled_inside [OF m(1)] lp Cons.prems(3) by simp
    have "pos < 2 ^ 14" using pos Cons.prems(4,5) by (simp add: MDNS_MAX_PACKET_SIZE_def)
    note rb = reference_bytes [OF this]
    let ?hi = "ucast (drop_bit 8 (word_of_nat pos OR MDNS_NAME_REF)) :: u8" and ?lo = "ucast (word_of_nat pos OR MDNS_NAME_REF) :: u8"
    have pos64: "pos div 256 < 64" using pos Cons.prems(4,5) by (simp add: MDNS_MAX_PACKET_SIZE_def)
    have "pkt_index p + 1 < MDNS_MAX_PACKET_SIZE" using Cons.prems(5) by (cases ss) auto
    from append_u16_grows [OF Cons.prems(2) this, of "word_of_nat pos OR MDNS_NAME_REF"]
    obtain q where q: "mdns_append_u16 (word_of_nat pos OR MDNS_NAME_REF) p = Some (2, q)" "grows p [?hi, ?lo] q" by blast
    have "labelled (w @ [?hi, ?lo]) start (pkt_index p) (pkt_index p + 2) (None # ls)" if w: "length w = pkt_index p" "take limit w = take limit (pkt p)" for w
    proof (rule name_ref)
      let ?w = "w @ [?hi, ?lo]"
      have at: "?w ! pkt_index p = ?hi" "?w ! (pkt_index p + 1) = ?lo" using w(1) by (simp_all add: nth_append)
      show "pkt_index p + 1 < length ?w" using w(1) by simp
      show "0xc0 \<le> unat (?w ! pkt_index p)" unfolding at rb by simp
      show "pos = unat (?w ! pkt_index p) mod 64 * 256 + unat (?w ! (pkt_index p + 1))" unfolding at rb
        using div_mult_mod_eq [of pos 256] pos64 by (simp add: mod_add_left_eq [of 192 64 "pos div 256", symmetric])
      have "labelled (take limit w @ drop limit w @ [?hi, ?lo]) pos pos e ls" unfolding w(2) by (rule labels_prefix [OF m(1)])
      then show "labelled ?w pos pos e ls" unfolding append_assoc [symmetric] append_take_drop_id .
    qed (rule pos)
    moreover have "length [?hi, ?lo] < name_room (s # ss)" using name_room_two [of ss] ps by simp
    ultimately show ?thesis using match q m(2-) unfolding grows_def
      by (intro exI [of _ 2] exI [of _ q] exI [of _ "[?hi, ?lo]"] exI [of _ "None # ls"]) simp
  next
    case none
    have room: "pkt_index p + length s + 1 < MDNS_MAX_PACKET_SIZE" using Cons.prems(5) by (cases ss) auto
    obtain q where q: "mdns_append_string s p = Some (length s + 1, q)" "grows p (word_of_nat (length s) # s) q"
      using append_string_grows [OF Cons.prems(2) room ps(1)] by blast
    have s: "sound_matches limit ss q" using Cons.prems(1) none q(1) by simp
    have q': "length (pkt q) = MDNS_MAX_PACKET_SIZE" "start \<le> pkt_index q" "pkt_index q + name_room ss \<le> MDNS_MAX_PACKET_SIZE"
      "\<forall>s\<in>set ss. plain_label s" using q(2) Cons.prems(4-6) by (simp_all add: grows_def)
    from Cons.IH [OF s q'(1) Cons.prems(3) q'(2-4)] obtain l r bs ls where r: "mdns_append_fqdn ss q = Some (l, r)" "grows q bs r" "l = length bs" "bs \<noteq> []"
      "\<And>w. length w = pkt_index q \<Longrightarrow> take limit w = take limit (pkt q) \<Longrightarrow> labelled (w @ bs) start (pkt_index q) (pkt_index r) ls" "same_labels (labels_of ls) ss" "ls = [] \<or> last ls \<noteq> None"
      "length bs < name_room ss" by blast
    let ?s = "word_of_nat (length s) # s"
    have "labelled (w @ ?s @ bs) start (pkt_index p) (pkt_index r) (Some s # ls)" if w: "length w = pkt_index p" "take limit w = take limit (pkt p)" for w
    proof -
      have "take limit (written q) = take limit (written p @ ?s)" using q(2) by (simp add: grows_def)
      then have "take limit (pkt q) = take limit (pkt p)" using q(2) lp Cons.prems(3,4) by (simp add: written_def grows_def min_def)
      then have "labelled ((w @ ?s) @ bs) start (pkt_index q) (pkt_index r) ls" using r(5) [of "w @ ?s"] w q(2) Cons.prems(3,4) by (simp add: grows_def)
      then show ?thesis using written_label [OF ps(1), of w bs start "pkt_index r" ls] w(1) q(2) by (simp add: grows_def)
    qed
    moreover have "grows p (?s @ bs) r" using grows_trans q(2) r(2) by blast
    moreover have "length s + 1 + l < 2 ^ 16" using r(3,8) Cons.prems(5) by (simp add: MDNS_MAX_PACKET_SIZE_def)
    moreover have "same_labels (labels_of (Some s # ls)) (s # ss)" "Some s # ls = [] \<or> last (Some s # ls) \<noteq> None"
      using r(6,7) by (auto simp: same_labels_def)
    ultimately show ?thesis using none q r
      by (intro exI [of _ "length s + 1 + l"] exI [of _ r] exI [of _ "?s @ bs"] exI [of _ "Some s # ls"]) simp
  qed
qed

text \<open>What the parser makes of labels does not depend on their case, up to case.\<close>

definition lower_name :: "mdns_name \<Rightarrow> mdns_name" where
  "lower_name n = n\<lparr>n_host := map lower (n_host n), n_service := map lower (n_service n), n_proto := map lower (n_proto n),
     n_domain := map lower (n_domain n)\<rparr>"

lemma lower_iff [simp]: "lower c = 0 \<longleftrightarrow> c = 0" "lower c = 0x5f \<longleftrightarrow> c = 0x5f" "lower 0x2e = 0x2e" "lower (lower c) = lower c"
proof -
  have u: "unat (c + 0x20) = unat c + 32" if "0x41 \<le> c" "c \<le> 0x5a" using that by (simp add: word_le_nat_alt unat_word_ariths)
  show "lower c = 0 \<longleftrightarrow> c = 0" using u by (auto simp: lower_def word_unat_eq_iff word_le_nat_alt)
  show "lower c = 0x5f \<longleftrightarrow> c = 0x5f" using u by (auto simp: lower_def word_unat_eq_iff word_le_nat_alt)
  show "lower 0x2e = 0x2e" by (simp add: lower_def)
  show "lower (lower c) = lower c" using u by (auto simp: lower_def word_le_nat_alt)
qed

lemma lower_c_str: "map lower (c_str l) = c_str (map lower l)"
  by (simp add: c_str_def takeWhile_map comp_def)

lemma lower_strlcat: "map lower (strlcat d s) = strlcat (map lower d) (map lower s)"
  by (simp add: strlcat_def take_map)

lemma strcaseeq_lower [simp]: "strcaseeq (map lower s) t = strcaseeq s t" "strcaseeq s (map lower t) = strcaseeq s t"
  by (simp_all add: strcaseeq_def comp_def)

lemma lower_add_next:
  assumes "l \<noteq> []"
  shows "lower_name (add_next n l) = add_next (lower_name n) (map lower l)"
proof -
  have [simp]: "hd (map lower l) = lower (hd l)" using assms by (simp add: hd_map)
  show ?thesis
    by (simp add: add_next_def mark_def add_label_def Let_def lower_name_def set_part_def lower_strlcat flip: lower_c_str)
qed

lemma lower_names:
  "\<forall>l\<in>set ls. l \<noteq> [] \<Longrightarrow> lower_name (foldl add_next n ls) = foldl add_next (lower_name n) (map (map lower) ls)"
  by (induction ls arbitrary: n) (simp_all add: lower_add_next)

lemma lower_name_simps [simp]:
  "n_parts (lower_name n) = n_parts n" "n_sub (lower_name n) = n_sub n" "n_invalid (lower_name n) = n_invalid n"
  "n_host (lower_name n) = map lower (n_host n)" "n_service (lower_name n) = map lower (n_service n)"
  "n_proto (lower_name n) = map lower (n_proto n)" "n_domain (lower_name n) = map lower (n_domain n)"
  "lower_name empty_name = empty_name"
  by (simp_all add: lower_name_def empty_name_def)

lemma written_name_is_read:
  assumes "sound_matches limit ss p" "limit \<le> pkt_index p" "length (pkt p) = MDNS_MAX_PACKET_SIZE"
    "pkt_index p + name_room ss \<le> MDNS_MAX_PACKET_SIZE" "\<forall>s\<in>set ss. plain_label s" "n_parts (name_of (butlast ss)) < 4"
  shows "\<exists>l q bs n. mdns_append_fqdn ss p = Some (l, q) \<and> grows p bs q \<and> l = length bs \<and>
    length bs < name_room ss \<and> lower_name n = lower_name (name_of ss) \<and>
    (\<forall>w rest. length w = pkt_index p \<longrightarrow> take limit w = take limit (pkt p) \<longrightarrow>
      mdns_read_fqdn (w @ bs @ rest) (pkt_index p) empty_name = Some (Some (pkt_index q), n))"
proof -
  obtain l q bs ls where wr: "mdns_append_fqdn ss p = Some (l, q)" "grows p bs q" "l = length bs"
    "\<forall>w. length w = pkt_index p \<longrightarrow> take limit w = take limit (pkt p) \<longrightarrow> labelled (w @ bs) (pkt_index p) (pkt_index p) (pkt_index q) ls" "same_labels (labels_of ls) ss" "ls = [] \<or> last ls \<noteq> None"
    "length bs < name_room ss"
    using name_written [OF assms(1,3,2) order_refl assms(4,5)] by blast
  have m: "map (map lower) (labels_of ls) = map (map lower) ss" using wr(5) by (simp add: same_labels_def)
  have ne: "\<forall>s\<in>set ss. s \<noteq> []" using assms(5) by (auto simp: plain_label_def)
  have "\<forall>l\<in>set (map (map lower) (labels_of ls)). l \<noteq> []" unfolding m using ne by auto
  then have ne': "\<forall>l\<in>set (labels_of ls). l \<noteq> []" by auto
  have b: "map (map lower) (butlast (labels_of ls)) = map (map lower) (butlast ss)" using m by (metis map_butlast)
  have bl: "\<forall>l\<in>set (butlast ss). l \<noteq> []" "\<forall>l\<in>set (butlast (labels_of ls)). l \<noteq> []" using ne ne' by (auto dest: in_set_butlastD)
  have "lower_name (foldl add_next empty_name (butlast (labels_of ls))) = lower_name (name_of (butlast ss))"
    unfolding name_of_def lower_names [OF bl(1)] lower_names [OF bl(2)] b ..
  then have "n_parts (foldl add_next empty_name (butlast (labels_of ls))) < 4" using assms(6) by (metis lower_name_simps(1))
  then have r: "foldl read_step empty_name ls = foldl add_next empty_name (labels_of ls)" using references_do_not_count wr(6) by blast
  have "lower_name (foldl read_step empty_name ls) = lower_name (name_of ss)" unfolding r name_of_def using ne ne' m by (simp add: lower_names)
  moreover have "mdns_read_fqdn (w @ bs @ rest) (pkt_index p) empty_name = Some (Some (pkt_index q), foldl read_step empty_name ls)"
    if "length w = pkt_index p" "take limit w = take limit (pkt p)" for rest and w :: bytes
  proof -
    have "labelled (w @ bs) (pkt_index p) (pkt_index p) (pkt_index q) ls" using wr(4) that by blast
    from read_labels [OF labels_prefix [OF this, of rest]] show ?thesis unfolding mdns_read_fqdn_def by simp
  qed
  ultimately show ?thesis using wr(1,2,3,7) by blast
qed

text \<open>The names the responder sends: of a host, of a service type, of an instance of a service.\<close>

definition name_strings :: "mdns_name \<Rightarrow> bytes list" where
  "name_strings n = filter (\<lambda>s. s \<noteq> []) [n_host n, n_service n, n_proto n, n_domain n]"

definition plain_name :: "mdns_name \<Rightarrow> bool" where
  "plain_name n \<longleftrightarrow> list_all plain_label (name_strings n) \<and> strcaseeq (n_domain n) (ascii ''local'') \<and> (n_service n = [] \<longleftrightarrow> n_proto n = []) \<and>
     (n_host n = [] \<longrightarrow> n_service n \<noteq> []) \<and>
     (n_service n \<noteq> [] \<longrightarrow> hd (n_service n) = 0x5f \<and> hd (n_proto n) = 0x5f) \<and>
     list_all (\<lambda>s. \<not> strcaseeq s (ascii ''_sub'')) (name_strings n)"

definition same_name :: "mdns_name \<Rightarrow> mdns_name \<Rightarrow> bool" where
  "same_name m n \<longleftrightarrow> strcaseeq (n_host m) (n_host n) \<and> strcaseeq (n_service m) (n_service n) \<and> strcaseeq (n_proto m) (n_proto n) \<and>
     strcaseeq (n_domain m) (n_domain n) \<and> \<not> n_sub m \<and> \<not> n_invalid m"

lemma local_is_no_sub: "strcaseeq d (ascii ''local'') \<Longrightarrow> \<not> strcaseeq d (ascii ''_sub'')"
  by (auto simp: strcaseeq_def ascii_def lower_def)

lemma plain_c_str: "plain_label s \<Longrightarrow> c_str s = s"
  by (auto simp: plain_label_def c_str_def takeWhile_eq_all_conv)

lemma name_of_host:
  assumes "plain_label h" "plain_label d" "\<not> strcaseeq h (ascii ''_sub'')" "strcaseeq d (ascii ''local'')"
  shows "name_of [h, d] = empty_name\<lparr>n_host := h, n_service := d, n_parts := 2\<rparr>"
  using assms by (simp add: name_of_def add_next_def mark_def add_label_def plain_c_str local_is_no_sub set_part_def empty_name_def)

lemma name_of_type:
  assumes "plain_label s" "plain_label t" "plain_label d" "\<not> strcaseeq s (ascii ''_sub'')" "\<not> strcaseeq t (ascii ''_sub'')"
    "strcaseeq d (ascii ''local'')" "hd t = 0x5f"
  shows "name_of [s, t, d] = empty_name\<lparr>n_host := s, n_service := t, n_proto := d, n_parts := 3\<rparr>"
  using assms by (simp add: name_of_def add_next_def mark_def add_label_def plain_c_str local_is_no_sub set_part_def empty_name_def)

lemma name_of_instance:
  assumes "plain_label h" "plain_label s" "plain_label t" "plain_label d" "\<not> strcaseeq h (ascii ''_sub'')"
    "\<not> strcaseeq s (ascii ''_sub'')" "\<not> strcaseeq t (ascii ''_sub'')" "strcaseeq d (ascii ''local'')" "hd s = 0x5f"
  shows "name_of [h, s, t, d] = empty_name\<lparr>n_host := h, n_service := s, n_proto := t, n_domain := d, n_parts := 4\<rparr>"
  using assms by (simp add: name_of_def add_next_def mark_def add_label_def plain_c_str local_is_no_sub set_part_def empty_name_def)

lemma parts_le: "n_parts (foldl add_next n ls) \<le> n_parts n + length ls"
proof (induction ls arbitrary: n)
  case (Cons l ls)
  have "n_parts (add_next n l) \<le> n_parts n + 1" by (auto simp: add_next_def add_label_def mark_def Let_def set_part_def)
  with Cons [of "add_next n l"] show ?case by simp
qed simp

lemma plain_names:
  assumes "plain_name n"
  shows "n_parts (name_of (butlast (name_strings n))) < 4 \<and>
    name_of (name_strings n) = (if n_service n = [] then empty_name\<lparr>n_host := n_host n, n_service := n_domain n, n_parts := 2\<rparr>
      else if n_host n = [] then empty_name\<lparr>n_host := n_service n, n_service := n_proto n, n_proto := n_domain n, n_parts := 3\<rparr>
      else empty_name\<lparr>n_host := n_host n, n_service := n_service n, n_proto := n_proto n, n_domain := n_domain n, n_parts := 4\<rparr>)"
proof -
  have dom: "n_domain n \<noteq> []" using assms by (auto simp: plain_name_def strcaseeq_def ascii_def)
  have l: "length (butlast (name_strings n)) < 4" by (simp add: name_strings_def)
  have parts: "n_parts (name_of (butlast (name_strings n))) < 4"
    using l parts_le [of empty_name "butlast (name_strings n)"] by (simp add: name_of_def empty_name_def)
  consider (host) "n_service n = []" "n_proto n = []" "n_host n \<noteq> []"
    | (type) "n_host n = []" "n_service n \<noteq> []" "n_proto n \<noteq> []" "hd (n_proto n) = 0x5f"
    | (inst) "n_host n \<noteq> []" "n_service n \<noteq> []" "n_proto n \<noteq> []" "hd (n_service n) = 0x5f" "hd (n_proto n) = 0x5f"
    using assms by (auto simp: plain_name_def)
  then show ?thesis
  proof cases
    case host
    then show ?thesis using assms dom parts by (simp add: name_strings_def plain_name_def name_of_host)
  next
    case type
    then show ?thesis using assms dom parts by (simp add: name_strings_def plain_name_def name_of_type)
  next
    case inst
    then show ?thesis using assms dom parts by (simp add: name_strings_def plain_name_def name_of_instance)
  qed
qed

lemma lower_name_parts:
  "lower_name m = lower_name n \<Longrightarrow> n_parts m = n_parts n \<and> n_sub m = n_sub n \<and> n_invalid m = n_invalid n \<and> strcaseeq (n_host m) (n_host n) \<and>
    strcaseeq (n_service m) (n_service n) \<and> strcaseeq (n_proto m) (n_proto n) \<and> strcaseeq (n_domain m) (n_domain n)"
  by (cases m, cases n) (simp add: lower_name_def strcaseeq_def)

lemma strcaseeq_trans: "strcaseeq a b \<Longrightarrow> strcaseeq b c \<Longrightarrow> strcaseeq a c"
  by (simp add: strcaseeq_def)

lemma strcaseeq_Nil [simp]: "strcaseeq s [] \<longleftrightarrow> s = []"
  by (simp add: strcaseeq_def)

lemma read_name_is_parsed:
  assumes "plain_name n" "lower_name m = lower_name (name_of (name_strings n))"
  shows "\<exists>m'. same_name m' n \<and> (\<forall>b i e. mdns_read_fqdn b i empty_name = Some (Some e, m) \<longrightarrow> mdns_parse_fqdn b i = Some (Some e, m'))"
proof -
  have dom: "strcaseeq (n_domain n) (ascii ''local'')" using assms(1) by (simp add: plain_name_def)
  note same = lower_name_parts [OF assms(2)]
  consider (host) "n_service n = []" "n_proto n = []" | (type) "n_host n = []" "n_service n \<noteq> []" | (inst) "n_host n \<noteq> []" "n_service n \<noteq> []"
    using assms(1) by (auto simp: plain_name_def)
  then show ?thesis
  proof cases
    case host
    then have m: "n_parts m = 2 \<and> \<not> n_sub m \<and> \<not> n_invalid m \<and> strcaseeq (n_host m) (n_host n) \<and> strcaseeq (n_service m) (n_domain n)"
      using same plain_names [OF assms(1)] by (simp add: empty_name_def)
    then show ?thesis using host dom
      by (intro exI [of _ "m\<lparr>n_domain := n_service m, n_service := [], n_proto := []\<rparr>"]) (simp add: mdns_parse_fqdn_def same_name_def strcaseeq_trans [OF _ dom])
  next
    case type
    then have m: "n_parts m = 3 \<and> \<not> n_sub m \<and> \<not> n_invalid m \<and> strcaseeq (n_host m) (n_service n) \<and> strcaseeq (n_service m) (n_proto n) \<and> strcaseeq (n_proto m) (n_domain n)"
      using same plain_names [OF assms(1)] by (simp add: empty_name_def)
    then show ?thesis using type dom
      by (intro exI [of _ "m\<lparr>n_service := n_host m, n_proto := n_service m, n_domain := n_proto m, n_host := []\<rparr>"]) (simp add: mdns_parse_fqdn_def same_name_def strcaseeq_trans [OF _ dom])
  next
    case inst
    then have m: "n_parts m = 4 \<and> \<not> n_sub m \<and> \<not> n_invalid m \<and> strcaseeq (n_host m) (n_host n) \<and> strcaseeq (n_service m) (n_service n) \<and> strcaseeq (n_proto m) (n_proto n) \<and> strcaseeq (n_domain m) (n_domain n)"
      using same plain_names [OF assms(1)] by (simp add: empty_name_def)
    then show ?thesis using inst dom
      by (intro exI [of _ "m"]) (simp add: mdns_parse_fqdn_def same_name_def strcaseeq_trans [OF _ dom])
  qed
qed

lemma plain_name_written:
  assumes "plain_name n" "sound_matches limit (name_strings n) p" "limit \<le> pkt_index p" "length (pkt p) = MDNS_MAX_PACKET_SIZE"
    "pkt_index p + name_room (name_strings n) \<le> MDNS_MAX_PACKET_SIZE"
  shows "\<exists>q bs m. mdns_append_fqdn (name_strings n) p = Some (length bs, q) \<and> grows p bs q \<and> length bs < name_room (name_strings n) \<and> same_name m n \<and>
    (\<forall>w rest. length w = pkt_index p \<longrightarrow> take limit w = take limit (pkt p) \<longrightarrow>
      mdns_parse_fqdn (w @ bs @ rest) (pkt_index p) = Some (Some (pkt_index q), m))"
proof -
  have pl: "\<forall>s\<in>set (name_strings n). plain_label s" using assms(1) by (simp add: plain_name_def list_all_iff)
  note pn = plain_names [OF assms(1)]
  obtain l q bs m where w: "mdns_append_fqdn (name_strings n) p = Some (l, q)" "grows p bs q" "l = length bs" "length bs < name_room (name_strings n)"
    "lower_name m = lower_name (name_of (name_strings n))"
    "\<forall>w rest. length w = pkt_index p \<longrightarrow> take limit w = take limit (pkt p) \<longrightarrow>
      mdns_read_fqdn (w @ bs @ rest) (pkt_index p) empty_name = Some (Some (pkt_index q), m)"
    using written_name_is_read [OF assms(2,3,4,5) pl conjunct1 [OF pn]] by blast
  from read_name_is_parsed [OF assms(1) w(5)] obtain m' where "same_name m' n"
    "\<forall>b i e. mdns_read_fqdn b i empty_name = Some (Some e, m) \<longrightarrow> mdns_parse_fqdn b i = Some (Some e, m')" by blast
  with w show ?thesis by blast
qed

lemma plain_name_parsed:
  assumes "plain_name n" "sound_matches (pkt_index p) (name_strings n) p" "length (pkt p) = MDNS_MAX_PACKET_SIZE"
    "pkt_index p + name_room (name_strings n) \<le> MDNS_MAX_PACKET_SIZE"
  shows "\<exists>q bs m. mdns_append_fqdn (name_strings n) p = Some (length bs, q) \<and> grows p bs q \<and> length bs < name_room (name_strings n) \<and> same_name m n \<and>
    (\<forall>rest. mdns_parse_fqdn (written p @ bs @ rest) (pkt_index p) = Some (Some (pkt_index q), m))"
proof -
  have "length (written p) = pkt_index p" "take (pkt_index p) (written p) = take (pkt_index p) (pkt p)"
    using assms(4) length_written [OF assms(3)] by (simp_all add: written_def)
  with plain_name_written [OF assms(1,2) order_refl assms(3,4)] show ?thesis by blast
qed

text \<open>C37: A name that is sent is read back. If every place that the search takes for the rest of the name is sound, appending a
  plain name to a packet with room succeeds, changes nothing before it, and reading from its place gives the name, up to case, and the place behind
  it.\<close>

theorem names_are_read_back:
  assumes "plain_name n" "sound_matches (pkt_index p) (name_strings n) p" "length (pkt p) = MDNS_MAX_PACKET_SIZE"
    "pkt_index p + name_room (name_strings n) \<le> MDNS_MAX_PACKET_SIZE"
  shows "\<exists>l q bs m. mdns_append_fqdn (name_strings n) p = Some (l, q) \<and> written q = written p @ bs \<and> pkt_index q = pkt_index p + l \<and>
    mdns_parse_fqdn (written q) (pkt_index p) = Some (Some (pkt_index q), m) \<and> same_name m n"
proof -
  obtain q bs m where "mdns_append_fqdn (name_strings n) p = Some (length bs, q)" "grows p bs q" "same_name m n"
    "\<forall>rest. mdns_parse_fqdn (written p @ bs @ rest) (pkt_index p) = Some (Some (pkt_index q), m)" using plain_name_parsed [OF assms] by blast
  then show ?thesis unfolding grows_def by (metis append_Nil2)
qed

text \<open>A label whose length occurs nowhere in what is written is not found.\<close>

lemma find_fqdn_none:
  assumes "word_of_nat (length (hd ss) mod 256) \<notin> set (take index p)" "index \<le> length p"
  shows "find_fqdn p index ss pos = Some None"
  using assms
proof (induction p index ss pos rule: find_fqdn.induct)
  case (1 p index ss pos)
  show ?case
  proof (cases "pos < index")
    case True
    then have "p ! pos \<in> set (take index p)" using 1(6) by (auto simp: in_set_conv_nth intro!: exI [of _ pos])
    then have "p ! pos \<noteq> word_of_nat (length (hd ss) mod 256)" using 1(5) by metis
    then show ?thesis using 1(1) True 1(5,6) by (subst find_fqdn.simps) (simp add: Let_def)
  qed (simp add: find_fqdn.simps)
qed

lemma find_fqdn_skip:
  assumes "word_of_nat (length (hd ss) mod 256) \<notin> set (take k p)" "pos \<le> k" "k \<le> index" "k \<le> length p"
  shows "find_fqdn p index ss pos = find_fqdn p index ss k"
  using assms
proof (induction p index ss pos rule: find_fqdn.induct)
  case (1 p index ss pos)
  show ?case
  proof (cases "pos < k")
    case True
    then have "p ! pos \<in> set (take k p)" using 1(8) by (auto simp: in_set_conv_nth intro!: exI [of _ pos])
    then have ne: "p ! pos \<noteq> word_of_nat (length (hd ss) mod 256)" using 1(5) by metis
    then have "find_fqdn p index ss (pos + 1) = find_fqdn p index ss k" using 1(1) True 1(5-8) by simp
    then show ?thesis using ne True 1(7) by (subst find_fqdn.simps) (simp add: Let_def)
  qed (use 1(6) in simp)
qed

text \<open>A name whose label lengths occur nowhere before is written in full, and nothing is taken for a part of it.\<close>

definition fresh_labels :: "bytes list \<Rightarrow> bytes \<Rightarrow> bool" where
  "fresh_labels ss w \<longleftrightarrow> list_all plain_label ss \<and> distinct (map length ss) \<and>
     list_all (\<lambda>s. word_of_nat (length s) \<notin> set w \<union> \<Union> (set ` set ss)) ss"

lemma fresh_name_written:
  assumes "fresh_labels ss (written p)" "length (pkt p) = MDNS_MAX_PACKET_SIZE" "pkt_index p + name_room ss \<le> MDNS_MAX_PACKET_SIZE"
  shows "sound_matches limit ss p \<and>
    (\<exists>l q. mdns_append_fqdn ss p = Some (l, q) \<and> grows p (concat (map (\<lambda>s. word_of_nat (length s) # s) ss) @ [0]) q)"
  using assms
proof (induction ss arbitrary: p)
  case Nil
  then show ?case using append_u8_grows [of p 0] by fastforce
next
  case (Cons s ss)
  have s: "plain_label s" "length s mod 256 = length s" "word_of_nat (length s) \<notin> set (written p)"
    using Cons.prems(1) by (auto simp: fresh_labels_def plain_label_def)
  have find: "find_fqdn (pkt p) (pkt_index p) (s # ss) 0 = Some None"
    using s(2,3) Cons.prems(2,3) by (intro find_fqdn_none) (simp_all add: written_def)
  have "pkt_index p + length s + 1 < MDNS_MAX_PACKET_SIZE" using Cons.prems(3) name_room_two [of ss] by simp
  from append_string_grows [OF Cons.prems(2) this s(1)] obtain q where q: "mdns_append_string s p = Some (length s + 1, q)"
    "grows p (word_of_nat (length s) # s) q" by blast
  have ne: "word_of_nat (length s) \<noteq> (word_of_nat (length t) :: u8)" if "t \<in> set ss" for t
  proof -
    have "length s \<noteq> length t" "length s < 256" "length t < 256" using Cons.prems(1) that by (auto simp: fresh_labels_def list_all_iff plain_label_def)
    moreover from this have "unat (word_of_nat (length s) :: u8) = length s" "unat (word_of_nat (length t) :: u8) = length t" by (simp_all add: unat_of_nat)
    ultimately show ?thesis by metis
  qed
  have "fresh_labels ss (written q)"
    using Cons.prems(1) q(2) ne ne [symmetric] by (auto simp: fresh_labels_def list_all_iff grows_def)
  with Cons.IH [of q] q(2) Cons.prems(2,3) obtain l r where r: "sound_matches limit ss q" "mdns_append_fqdn ss q = Some (l, r)"
    "grows q (concat (map (\<lambda>s. word_of_nat (length s) # s) ss) @ [0]) r" by (auto simp: grows_def)
  show ?case using find q(1) r grows_trans [OF q(2) r(3)] by (simp add: sound_match_def)
qed

definition example_packet :: "bytes \<Rightarrow> bytes \<Rightarrow> tx_packet" where
  "example_packet w stale = \<lparr>pkt = w @ stale @ replicate (MDNS_MAX_PACKET_SIZE - length w - length stale) 0, pkt_index = length w\<rparr>"

lemma example_packet_simps:
  "length w + length stale \<le> MDNS_MAX_PACKET_SIZE \<Longrightarrow> length (pkt (example_packet w stale)) = MDNS_MAX_PACKET_SIZE"
  "pkt_index (example_packet w stale) = length w" "written (example_packet w stale) = w"
  by (simp_all add: example_packet_def written_def)

lemma names_are_read_back_witness:
  "\<exists>l q bs m. mdns_append_fqdn [ascii ''esp'', ascii ''local''] (example_packet (replicate 12 0) []) = Some (l, q) \<and>
     written q = replicate 12 0 @ bs \<and> pkt_index q = 12 + l \<and> mdns_parse_fqdn (written q) 12 = Some (Some (pkt_index q), m) \<and>
     same_name m (empty_name\<lparr>n_host := ascii ''esp'', n_domain := ascii ''local''\<rparr>)"
proof -
  let ?p = "example_packet (replicate 12 0) []" and ?n = "empty_name\<lparr>n_host := ascii ''esp'', n_domain := ascii ''local''\<rparr>"
  have s: "name_strings ?n = [ascii ''esp'', ascii ''local'']" by (simp add: name_strings_def empty_name_def ascii_def)
  have pl: "plain_name ?n" by (auto simp: plain_name_def name_strings_def plain_label_def ascii_def empty_name_def strcaseeq_def lower_def)
  have p: "length (pkt ?p) = MDNS_MAX_PACKET_SIZE" "pkt_index ?p = 12" "written ?p = replicate 12 0"
    by (simp_all add: example_packet_simps MDNS_MAX_PACKET_SIZE_def)
  have "fresh_labels (name_strings ?n) (written ?p)" unfolding s p by (simp add: fresh_labels_def plain_label_def ascii_def)
  from fresh_name_written [OF this p(1), of 12] have "sound_matches 12 (name_strings ?n) ?p"
    unfolding s p(2) by (simp add: name_room_def ascii_def MDNS_MAX_PACKET_SIZE_def)
  from names_are_read_back [OF pl, of ?p] this p show ?thesis unfolding s
    by (simp add: name_room_def ascii_def MDNS_MAX_PACKET_SIZE_def)
qed

text \<open>The search looks at bytes behind the packet written so far. Here it takes what an earlier packet left there for the name, and the reference it writes
  overwrites the name it refers to.\<close>

lemma stale_bytes_corrupt_name:
  "map_option (\<lambda>(l, q). (l, written q, map_option fst (mdns_parse_fqdn (written q) 3)))
     (mdns_append_fqdn [ascii ''a'', ascii ''local''] (example_packet [0, 0, 1] (ascii ''a'' @ [5] @ ascii ''local''))) =
   Some (2, [0, 0, 1, 0xc0, 2], Some None)"
  by (simp add: example_packet_def ascii_def find_fqdn.simps MDNS_MAX_PACKET_SIZE_def memcpy_from_def mdns_read_fqdn_def read_fqdn.simps
    label_at_def Let_def same_strings_def add_label_def mark_def empty_name_def c_str_def strcaseeq_def lower_def set_part_def name_part_def
    mdns_append_u16_def mdns_append_u8_def put_bytes_def memcpy_to_def blit_def MDNS_NAME_REF_def written_def mdns_parse_fqdn_def)

text \<open>The same inside a name: the second label of the name of a host called local is found in its first, and the reference leads to the
  start of the name itself, which the parser rejects.\<close>

lemma host_called_local_is_unreadable:
  "map_option (\<lambda>(l, q). (l, written q, map_option fst (mdns_parse_fqdn (written q) 2)))
     (mdns_append_fqdn [ascii ''local'', ascii ''local''] (example_packet [0, 0] [])) =
   Some (8, [0, 0, 5] @ ascii ''local'' @ [0xc0, 2], Some None)"
  by (simp add: example_packet_def ascii_def find_fqdn.simps MDNS_MAX_PACKET_SIZE_def memcpy_from_def mdns_read_fqdn_def read_fqdn.simps
    label_at_def Let_def same_strings_def add_label_def mark_def empty_name_def c_str_def strcaseeq_def lower_def set_part_def name_part_def
    mdns_append_u16_def mdns_append_u8_def put_bytes_def memcpy_to_def blit_def MDNS_NAME_REF_def written_def mdns_parse_fqdn_def
    mdns_append_string_def)

end
