(* ===== verification/MdnsPacket.thy ===== *)
theory MdnsPacket
  imports MdnsName
begin

text \<open>
  Packets of the mDNS responder (managed_components/espressif__mdns/mdns.c): the records and questions it appends, the packet it assembles for
  the network, and the part of the parser that reads a question or a record and its data. Strings behind pointers are optional; a name with a missing string is
  a null pointer that is read, the result \<open>None\<close>. Services and delegated hosts are found by the address an answer holds.
\<close>

section \<open>Numbers\<close>

definition mdns_set_u16 :: "nat \<Rightarrow> u16 \<Rightarrow> tx_packet \<Rightarrow> tx_packet option" where
  "mdns_set_u16 index value p =
     (if index + 1 \<ge> MDNS_MAX_PACKET_SIZE then Some p
      else map_option (\<lambda>b. p\<lparr>pkt := b\<rparr>) (memcpy_to (pkt p) index [ucast (drop_bit 8 value), ucast value]))"

definition mdns_append_u32 :: "u32 \<Rightarrow> tx_packet \<Rightarrow> (nat \<times> tx_packet) option" where
  "mdns_append_u32 v p =
     (if pkt_index p + 3 \<ge> MDNS_MAX_PACKET_SIZE then Some (0, p)
      else
        Option.bind (mdns_append_u8 (ucast (drop_bit 24 v)) p) (\<lambda>(_, p1).
          Option.bind (mdns_append_u8 (ucast (drop_bit 16 v)) p1) (\<lambda>(_, p2).
            Option.bind (mdns_append_u8 (ucast (drop_bit 8 v)) p2) (\<lambda>(_, p3).
              map_option (\<lambda>(_, p4). (4, p4)) (mdns_append_u8 (ucast v) p3)))))"

definition mdns_read_u16 :: "bytes \<Rightarrow> nat \<Rightarrow> u16 option" where
  "mdns_read_u16 p index =
     map_option (\<lambda>b. push_bit 8 (ucast (b ! 0)) OR ucast (b ! 1)) (memcpy_from p index 2)"

definition mdns_read_u32 :: "bytes \<Rightarrow> nat \<Rightarrow> u32 option" where
  "mdns_read_u32 p index =
     map_option (\<lambda>b. push_bit 24 (ucast (b ! 0)) OR push_bit 16 (ucast (b ! 1)) OR push_bit 8 (ucast (b ! 2)) OR ucast (b ! 3)) (memcpy_from p index 4)"

section \<open>Records\<close>

definition MDNS_ANSWER_PTR :: nat where "MDNS_ANSWER_PTR = 0x08"
definition MDNS_ANSWER_TXT :: nat where "MDNS_ANSWER_TXT = 0x04"
definition MDNS_ANSWER_SRV :: nat where "MDNS_ANSWER_SRV = 0x02"
definition MDNS_ANSWER_A :: nat where "MDNS_ANSWER_A = 0x01"
definition MDNS_ANSWER_AAAA :: nat where "MDNS_ANSWER_AAAA = 0x10"
definition MDNS_TYPE_A :: u16 where "MDNS_TYPE_A = 0x0001"
definition MDNS_TYPE_PTR :: u16 where "MDNS_TYPE_PTR = 0x000C"
definition MDNS_TYPE_TXT :: u16 where "MDNS_TYPE_TXT = 0x0010"
definition MDNS_TYPE_AAAA :: u16 where "MDNS_TYPE_AAAA = 0x001C"
definition MDNS_TYPE_SRV :: u16 where "MDNS_TYPE_SRV = 0x0021"
definition MDNS_TYPE_SDPTR :: u16 where "MDNS_TYPE_SDPTR = 0x0032"
definition MDNS_CLASS_IN :: u16 where "MDNS_CLASS_IN = 0x0001"
definition MDNS_CLASS_IN_FLUSH_CACHE :: u16 where "MDNS_CLASS_IN_FLUSH_CACHE = 0x8001"
definition MDNS_ANSWER_PTR_TTL :: u32 where "MDNS_ANSWER_PTR_TTL = 4500"
definition MDNS_ANSWER_TXT_TTL :: u32 where "MDNS_ANSWER_TXT_TTL = 4500"
definition MDNS_ANSWER_SRV_TTL :: u32 where "MDNS_ANSWER_SRV_TTL = 120"
definition MDNS_ANSWER_A_TTL :: u32 where "MDNS_ANSWER_A_TTL = 120"
definition MDNS_ANSWER_AAAA_TTL :: u32 where "MDNS_ANSWER_AAAA_TTL = 120"

text \<open>The results of the four calls are not looked at: there is room for all of them.\<close>

definition mdns_append_type :: "nat \<Rightarrow> bool \<Rightarrow> u32 \<Rightarrow> tx_packet \<Rightarrow> (nat \<times> tx_packet) option" where
  "mdns_append_type type flush ttl p =
     (if pkt_index p + 10 \<ge> MDNS_MAX_PACKET_SIZE then Some (0, p)
      else
        let mdns_class = (if flush then MDNS_CLASS_IN_FLUSH_CACHE else MDNS_CLASS_IN);
            body = (\<lambda>t.
              Option.bind (mdns_append_u16 t p) (\<lambda>(_, p1).
                Option.bind (mdns_append_u16 mdns_class p1) (\<lambda>(_, p2).
                  Option.bind (mdns_append_u32 ttl p2) (\<lambda>(_, p3).
                    map_option (\<lambda>(_, p4). (10, p4)) (mdns_append_u16 0 p3))))) in
        if type = MDNS_ANSWER_PTR then body MDNS_TYPE_PTR
        else if type = MDNS_ANSWER_TXT then body MDNS_TYPE_TXT
        else if type = MDNS_ANSWER_SRV then body MDNS_TYPE_SRV
        else if type = MDNS_ANSWER_A then body MDNS_TYPE_A
        else if type = MDNS_ANSWER_AAAA then body MDNS_TYPE_AAAA
        else Some (0, p))"

text \<open>A part of a record: its length is cut to 8 bits, and a length of 0 ends the record.\<close>

definition part :: "(tx_packet \<Rightarrow> (nat \<times> tx_packet) option) \<Rightarrow> (nat \<Rightarrow> tx_packet \<Rightarrow> (nat \<times> tx_packet) option) \<Rightarrow> tx_packet \<Rightarrow> (nat \<times> tx_packet) option" where
  "part f k p = Option.bind (f p) (\<lambda>(l, q). if l mod 256 = 0 then Some (0, q) else k (l mod 256) q)"

definition local_domain :: bytes where "local_domain = ascii ''local''"

text \<open>A name of optional strings.\<close>

definition append_strings :: "bytes option list \<Rightarrow> tx_packet \<Rightarrow> (nat \<times> tx_packet) option" where
  "append_strings strs p = (if None \<in> set strs then None else mdns_append_fqdn (map the strs) p)"

text \<open>The length of the data is entered behind it; the record is as long as its parts together.\<close>

definition with_data_len :: "(tx_packet \<Rightarrow> (nat \<times> tx_packet) option) \<Rightarrow> nat \<Rightarrow> tx_packet \<Rightarrow> (nat \<times> tx_packet) option" where
  "with_data_len f record_length p =
     (let data_len_location = pkt_index p - 2 in
      part f (\<lambda>l q. map_option (Pair ((record_length + l) mod 2 ^ 16)) (mdns_set_u16 data_len_location (word_of_nat l) q)) p)"

definition mdns_append_ptr_record :: "bytes option \<Rightarrow> bytes option \<Rightarrow> bytes option \<Rightarrow> bool \<Rightarrow> bool \<Rightarrow> tx_packet \<Rightarrow> (nat \<times> tx_packet) option" where
  "mdns_append_ptr_record inst service proto flush bye p =
     (if service = None then Some (0, p)
      else
        part (append_strings [service, proto, Some local_domain]) (\<lambda>l1.
          part (mdns_append_type MDNS_ANSWER_PTR False (if bye then 0 else MDNS_ANSWER_PTR_TTL)) (\<lambda>l2.
            with_data_len (append_strings [inst, service, proto, Some local_domain]) (l1 + l2))) p)"

definition mdns_append_subtype_ptr_record ::
    "bytes option \<Rightarrow> bytes \<Rightarrow> bytes option \<Rightarrow> bytes option \<Rightarrow> bool \<Rightarrow> bool \<Rightarrow> tx_packet \<Rightarrow> (nat \<times> tx_packet) option" where
  "mdns_append_subtype_ptr_record inst subtype service proto flush bye p =
     (if service = None then Some (0, p)
      else
        part (append_strings [Some subtype, Some (ascii ''_sub''), service, proto, Some local_domain]) (\<lambda>l1.
          part (mdns_append_type MDNS_ANSWER_PTR False (if bye then 0 else MDNS_ANSWER_PTR_TTL)) (\<lambda>l2.
            with_data_len (append_strings [inst, service, proto, Some local_domain]) (l1 + l2))) p)"

record mdns_service =
  s_instance :: "bytes option"
  s_service :: bytes
  s_proto :: bytes
  s_hostname :: "bytes option"
  s_priority :: u16
  s_weight :: u16
  s_port :: u16
  s_txt :: "txt_entry list"
  s_subtype :: "bytes list"

text \<open>Here the first name is not checked, and its length is cut to 8 bits all the same.\<close>

definition mdns_append_sdptr_record :: "mdns_service option \<Rightarrow> bool \<Rightarrow> bool \<Rightarrow> tx_packet \<Rightarrow> (nat \<times> tx_packet) option" where
  "mdns_append_sdptr_record service flush bye p =
     (case service of None \<Rightarrow> Some (0, p)
      | Some s \<Rightarrow>
          Option.bind (mdns_append_fqdn [ascii ''_services'', ascii ''_dns-sd'', ascii ''_udp'', local_domain] p) (\<lambda>(l1, p1).
            part (mdns_append_type MDNS_ANSWER_PTR flush MDNS_ANSWER_PTR_TTL) (\<lambda>l2.
              with_data_len (mdns_append_fqdn [s_service s, s_proto s, local_domain]) (l1 mod 256 + l2)) p1))"

text \<open>The names of the server.\<close>

record mdns_host =
  h_hostname :: "bytes option"
  h_addr :: "(bool \<times> bytes) list"

record mdns_server =
  sv_hostname :: "bytes option"
  sv_instance :: "bytes option"
  sv_services :: "nat \<Rightarrow> mdns_service option"
  sv_self_host :: mdns_host
  sv_hosts :: "(nat \<times> mdns_host) list"

definition str_null_or_empty :: "bytes option \<Rightarrow> bool" where
  "str_null_or_empty s \<longleftrightarrow> s = None \<or> s = Some []"

definition mdns_get_default_instance_name :: "mdns_server \<Rightarrow> bytes option" where
  "mdns_get_default_instance_name sv =
     (if \<not> str_null_or_empty (sv_instance sv) then sv_instance sv
      else if \<not> str_null_or_empty (sv_hostname sv) then sv_hostname sv else None)"

definition mdns_get_service_instance_name :: "mdns_server \<Rightarrow> mdns_service option \<Rightarrow> bytes option" where
  "mdns_get_service_instance_name sv service =
     (case service of Some s \<Rightarrow> if \<not> str_null_or_empty (s_instance s) then s_instance s else mdns_get_default_instance_name sv
      | None \<Rightarrow> mdns_get_default_instance_name sv)"

definition mdns_append_txt_record :: "mdns_server \<Rightarrow> mdns_service option \<Rightarrow> bool \<Rightarrow> bool \<Rightarrow> tx_packet \<Rightarrow> (nat \<times> tx_packet) option" where
  "mdns_append_txt_record sv service flush bye p =
     (case service of None \<Rightarrow> Some (0, p)
      | Some s \<Rightarrow>
          (case mdns_get_service_instance_name sv service of None \<Rightarrow> Some (0, p)
           | Some name \<Rightarrow>
               part (mdns_append_fqdn [name, s_service s, s_proto s, local_domain]) (\<lambda>l1.
                 part (mdns_append_type MDNS_ANSWER_TXT flush (if bye then 0 else MDNS_ANSWER_TXT_TTL)) (\<lambda>l2 q.
                   let data_len_location = pkt_index q - 2 in
                   Option.bind (append_txt_entries (s_txt s) 0 q) (\<lambda>(data_len, q1).
                     case data_len of None \<Rightarrow> Some (0, q1)
                     | Some n \<Rightarrow>
                         if n = 0 then
                           Option.bind (put_bytes [0] q1) (\<lambda>q2. map_option (Pair ((l1 + l2 + 1) mod 2 ^ 16)) (mdns_set_u16 data_len_location 1 q2))
                         else map_option (Pair ((l1 + l2 + n) mod 2 ^ 16)) (mdns_set_u16 data_len_location (word_of_nat n) q1)))) p))"

definition mdns_append_srv_record :: "mdns_server \<Rightarrow> mdns_service option \<Rightarrow> bool \<Rightarrow> bool \<Rightarrow> tx_packet \<Rightarrow> (nat \<times> tx_packet) option" where
  "mdns_append_srv_record sv service flush bye p =
     (case service of None \<Rightarrow> Some (0, p)
      | Some s \<Rightarrow>
          (case mdns_get_service_instance_name sv service of None \<Rightarrow> Some (0, p)
           | Some name \<Rightarrow>
               part (mdns_append_fqdn [name, s_service s, s_proto s, local_domain]) (\<lambda>l1.
                 part (mdns_append_type MDNS_ANSWER_SRV flush (if bye then 0 else MDNS_ANSWER_SRV_TTL)) (\<lambda>l2 q.
                   let data_len_location = pkt_index q - 2 in
                   Option.bind (mdns_append_u16 (s_priority s) q) (\<lambda>(a, q1).
                     Option.bind (mdns_append_u16 (s_weight s) q1) (\<lambda>(b, q2).
                       Option.bind (mdns_append_u16 (s_port s) q2) (\<lambda>(c, q3).
                         if a + b + c \<noteq> 6 then Some (0, q3)
                         else
                           let target = (case s_hostname s of Some h \<Rightarrow> Some h | None \<Rightarrow> sv_hostname sv) in
                           if str_null_or_empty target then Some (0, q3)
                           else
                             part (mdns_append_fqdn [the target, local_domain]) (\<lambda>l q4.
                               map_option (Pair ((l1 + l2 + l + 6) mod 2 ^ 16)) (mdns_set_u16 data_len_location (word_of_nat (l + 6)) q4)) q3))))) p))"

definition mdns_append_a_record :: "bytes option \<Rightarrow> u32 \<Rightarrow> bool \<Rightarrow> bool \<Rightarrow> tx_packet \<Rightarrow> (nat \<times> tx_packet) option" where
  "mdns_append_a_record hostname ip flush bye p =
     (if str_null_or_empty hostname then Some (0, p)
      else
        part (mdns_append_fqdn [the hostname, local_domain]) (\<lambda>l1.
          part (mdns_append_type MDNS_ANSWER_A flush (if bye then 0 else MDNS_ANSWER_A_TTL)) (\<lambda>l2 q.
            if pkt_index q + 3 \<ge> MDNS_MAX_PACKET_SIZE then Some (0, q)
            else
              Option.bind (mdns_append_u8 (ucast ip) q) (\<lambda>(_, q1).
                Option.bind (mdns_append_u8 (ucast (drop_bit 8 ip)) q1) (\<lambda>(_, q2).
                  Option.bind (mdns_append_u8 (ucast (drop_bit 16 ip)) q2) (\<lambda>(_, q3).
                    Option.bind (mdns_append_u8 (ucast (drop_bit 24 ip)) q3) (\<lambda>(_, q4).
                      map_option (Pair ((l1 + l2 + 4) mod 2 ^ 16)) (mdns_set_u16 (pkt_index q - 2) 4 q4)))))) ) p)"

definition mdns_append_aaaa_record :: "bytes option \<Rightarrow> bytes \<Rightarrow> bool \<Rightarrow> bool \<Rightarrow> tx_packet \<Rightarrow> (nat \<times> tx_packet) option" where
  "mdns_append_aaaa_record hostname ipv6 flush bye p =
     (if str_null_or_empty hostname then Some (0, p)
      else
        part (mdns_append_fqdn [the hostname, local_domain]) (\<lambda>l1.
          part (mdns_append_type MDNS_ANSWER_AAAA flush (if bye then 0 else MDNS_ANSWER_AAAA_TTL)) (\<lambda>l2 q.
            if pkt_index q + 16 > MDNS_MAX_PACKET_SIZE then Some (0, q)
            else
              Option.bind (put_bytes (take 16 ipv6) q) (\<lambda>q1.
                map_option (Pair ((l1 + l2 + 16) mod 2 ^ 16)) (mdns_set_u16 (pkt_index q - 2) 16 q1)))) p)"

section \<open>Questions, answers and packets\<close>

record out_question =
  q_type :: u16
  q_unicast :: bool
  q_host :: "bytes option"
  q_service :: "bytes option"
  q_proto :: "bytes option"
  q_domain :: "bytes option"

definition question_strings :: "out_question \<Rightarrow> bytes list" where
  "question_strings q = map the (filter (\<lambda>s. s \<noteq> None) [q_host q, q_service q, q_proto q, q_domain q])"

definition mdns_append_question :: "out_question \<Rightarrow> tx_packet \<Rightarrow> (nat \<times> tx_packet) option" where
  "mdns_append_question q p =
     part (mdns_append_fqdn (question_strings q)) (\<lambda>l p1.
       Option.bind (mdns_append_u16 (q_type q) p1) (\<lambda>(a, p2).
         map_option (\<lambda>(b, p3). ((l + a + b) mod 256, p3)) (mdns_append_u16 (if q_unicast q then 0x8001 else 0x0001) p2))) p"

text \<open>The network interfaces: for each, its addresses, whether it is usable, and the one on the same subnet. The flag of a protocol is true for version 6.\<close>

record netifs =
  e_max_interfaces :: nat
  e_duplicate :: "nat \<Rightarrow> nat"
  e_pcb_dup :: "nat \<Rightarrow> bool \<Rightarrow> bool"
  e_ready :: "nat \<Rightarrow> bool \<Rightarrow> bool"
  e_ip4 :: "nat \<Rightarrow> u32 option"
  e_ip6 :: "nat \<Rightarrow> bytes list"
  e_linklocal :: "nat \<Rightarrow> bytes option"

definition NETIF_IPV6_MAX_NUMS :: nat where "NETIF_IPV6_MAX_NUMS = 3"

definition mdns_get_other_if :: "netifs \<Rightarrow> nat \<Rightarrow> nat" where
  "mdns_get_other_if e i = (if i < e_max_interfaces e then e_duplicate e i else e_max_interfaces e)"

definition mdns_if_is_dup :: "netifs \<Rightarrow> nat \<Rightarrow> bool" where
  "mdns_if_is_dup e i =
     (let other_if = mdns_get_other_if e i in
      other_if \<noteq> e_max_interfaces e \<and> (e_pcb_dup e i False \<or> e_pcb_dup e i True \<or> e_pcb_dup e other_if False \<or> e_pcb_dup e other_if True))"

definition ipv6_address_is_zero :: "bytes \<Rightarrow> bool" where
  "ipv6_address_is_zero ip6 = list_all (\<lambda>b. b = 0) ip6"

text \<open>An address of version 4 is the number its four bytes have in memory.\<close>

fun mdns_append_host_answer :: "(bool \<times> bytes) list \<Rightarrow> bytes option \<Rightarrow> bool \<Rightarrow> bool \<Rightarrow> bool \<Rightarrow> nat \<Rightarrow> tx_packet \<Rightarrow> (nat \<times> tx_packet) option" where
  "mdns_append_host_answer [] hostname v6 flush bye num_records p = Some (num_records, p)"
| "mdns_append_host_answer ((is_v6, a) # addrs) hostname v6 flush bye num_records p =
     (if is_v6 \<noteq> v6 then mdns_append_host_answer addrs hostname v6 flush bye num_records p
      else
        Option.bind (if v6 then mdns_append_aaaa_record hostname a flush bye p else mdns_append_a_record hostname (rd32 a) flush bye p) (\<lambda>(l, p1).
          if l = 0 then Some (num_records, p1)
          else mdns_append_host_answer addrs hostname v6 flush bye ((num_records + 1) mod 256) p1))"

fun append_subtypes :: "bytes list \<Rightarrow> bytes option \<Rightarrow> mdns_service \<Rightarrow> bool \<Rightarrow> bool \<Rightarrow> nat \<Rightarrow> tx_packet \<Rightarrow> (nat \<times> tx_packet) option" where
  "append_subtypes [] inst s flush bye appended p = Some (appended, p)"
| "append_subtypes (t # ts) inst s flush bye appended p =
     Option.bind (mdns_append_subtype_ptr_record inst t (Some (s_service s)) (Some (s_proto s)) flush bye p) (\<lambda>(l, p1).
       append_subtypes ts inst s flush bye ((appended + of_bool (l > 0)) mod 256) p1)"

definition mdns_append_service_ptr_answers :: "mdns_server \<Rightarrow> mdns_service \<Rightarrow> bool \<Rightarrow> bool \<Rightarrow> tx_packet \<Rightarrow> (nat \<times> tx_packet) option" where
  "mdns_append_service_ptr_answers sv s flush bye p =
     (let inst = mdns_get_service_instance_name sv (Some s) in
      Option.bind (mdns_append_ptr_record inst (Some (s_service s)) (Some (s_proto s)) flush bye p) (\<lambda>(l, p1).
        if l = 0 then Some (0, p1) else append_subtypes (s_subtype s) inst s flush bye 1 p1))"

datatype host_ref = SelfHost | Delegated nat

record out_answer =
  an_type :: u16
  an_bye :: bool
  an_flush :: bool
  an_service :: "nat option"
  an_host :: "host_ref option"
  an_custom_instance :: "bytes option"
  an_custom_service :: "bytes option"
  an_custom_proto :: "bytes option"

definition service_at :: "mdns_server \<Rightarrow> nat option \<Rightarrow> mdns_service option option" where
  "service_at sv a = (case a of None \<Rightarrow> Some None | Some i \<Rightarrow> map_option Some (sv_services sv i))"

text \<open>1 if the record was appended.\<close>

definition one_answer :: "(nat \<times> tx_packet) option \<Rightarrow> (nat \<times> tx_packet) option" where
  "one_answer r = map_option (\<lambda>(l, p). (of_bool (l > 0), p)) r"

definition append_self_a :: "netifs \<Rightarrow> mdns_server \<Rightarrow> nat \<Rightarrow> bool \<Rightarrow> bool \<Rightarrow> tx_packet \<Rightarrow> (nat \<times> tx_packet) option" where
  "append_self_a e sv tcpip_if flush bye p =
     (if \<not> e_ready e tcpip_if False \<and> \<not> e_pcb_dup e tcpip_if False then Some (0, p)
      else
        (case e_ip4 e tcpip_if of None \<Rightarrow> Some (0, p)
         | Some ip \<Rightarrow>
             Option.bind (mdns_append_a_record (sv_hostname sv) ip flush bye p) (\<lambda>(l, p1).
               if l = 0 then Some (0, p1)
               else if \<not> mdns_if_is_dup e tcpip_if then Some (1, p1)
               else
                 (case e_ip4 e (mdns_get_other_if e tcpip_if) of None \<Rightarrow> Some (1, p1)
                  | Some other \<Rightarrow>
                      map_option (\<lambda>(l, p2). (if l > 0 then 2 else 1, p2)) (mdns_append_a_record (sv_hostname sv) other flush bye p1)))))"

fun append_ip6s :: "bytes list \<Rightarrow> bytes option \<Rightarrow> bool \<Rightarrow> bool \<Rightarrow> tx_packet \<Rightarrow> (bool \<times> tx_packet) option" where
  "append_ip6s [] hostname flush bye p = Some (True, p)"
| "append_ip6s (a # ips) hostname flush bye p =
     (if ipv6_address_is_zero a then Some (False, p)
      else
        Option.bind (mdns_append_aaaa_record hostname a flush bye p) (\<lambda>(l, p1).
          if l = 0 then Some (False, p1) else append_ip6s ips hostname flush bye p1))"

definition append_self_aaaa :: "netifs \<Rightarrow> mdns_server \<Rightarrow> nat \<Rightarrow> bool \<Rightarrow> bool \<Rightarrow> tx_packet \<Rightarrow> (nat \<times> tx_packet) option" where
  "append_self_aaaa e sv tcpip_if flush bye p =
     (if \<not> e_ready e tcpip_if True \<and> \<not> e_pcb_dup e tcpip_if True then Some (0, p)
      else
        let ips = e_ip6 e tcpip_if; count = length ips in
        if count > NETIF_IPV6_MAX_NUMS then None
        else
          Option.bind (append_ip6s ips (sv_hostname sv) flush bye p) (\<lambda>(all, p1).
            if \<not> all then Some (0, p1)
            else if \<not> mdns_if_is_dup e tcpip_if then Some (count, p1)
            else
              (case e_linklocal e (mdns_get_other_if e tcpip_if) of None \<Rightarrow> Some (count, p1)
               | Some other \<Rightarrow>
                   map_option (\<lambda>(l, p2). (if l > 0 then 1 + count else count, p2)) (mdns_append_aaaa_record (sv_hostname sv) other flush bye p1))))"

text \<open>A host that is not known any more is not looked into.\<close>

definition mdns_append_answer :: "netifs \<Rightarrow> mdns_server \<Rightarrow> nat \<Rightarrow> out_answer \<Rightarrow> tx_packet \<Rightarrow> (nat \<times> tx_packet) option" where
  "mdns_append_answer e sv tcpip_if a p =
     (if (case an_host a of Some (Delegated i) \<Rightarrow> map_of (sv_hosts sv) i = None | _ \<Rightarrow> False) then Some (0, p)
      else
        Option.bind (service_at sv (an_service a)) (\<lambda>service.
          let flush = an_flush a; bye = an_bye a;
              host_answer = (\<lambda>v6. case an_host a of
                  Some (Delegated i) \<Rightarrow> (let h = the (map_of (sv_hosts sv) i) in mdns_append_host_answer (h_addr h) (h_hostname h) v6 flush bye 0 p)
                | _ \<Rightarrow> Some (0, p)) in
          if an_type a = MDNS_TYPE_PTR then
            (case service of Some s \<Rightarrow> mdns_append_service_ptr_answers sv s flush bye p
             | None \<Rightarrow> one_answer (mdns_append_ptr_record (an_custom_instance a) (an_custom_service a) (an_custom_proto a) flush bye p))
          else if an_type a = MDNS_TYPE_SRV then one_answer (mdns_append_srv_record sv service flush bye p)
          else if an_type a = MDNS_TYPE_TXT then one_answer (mdns_append_txt_record sv service flush bye p)
          else if an_type a = MDNS_TYPE_SDPTR then one_answer (mdns_append_sdptr_record service flush bye p)
          else if an_type a = MDNS_TYPE_A then
            (if an_host a = Some SelfHost then append_self_a e sv tcpip_if flush bye p else host_answer False)
          else if an_type a = MDNS_TYPE_AAAA then
            (if an_host a = Some SelfHost then append_self_aaaa e sv tcpip_if flush bye p else host_answer True)
          else Some (0, p)))"

record out_packet =
  o_tcpip_if :: nat
  o_flags :: u16
  o_id :: u16
  o_questions :: "out_question list"
  o_answers :: "out_answer list"
  o_servers :: "out_answer list"
  o_additional :: "out_answer list"

fun append_questions :: "out_question list \<Rightarrow> nat \<Rightarrow> tx_packet \<Rightarrow> (nat \<times> tx_packet) option" where
  "append_questions [] count p = Some (count, p)"
| "append_questions (q # qs) count p =
     Option.bind (mdns_append_question q p) (\<lambda>(l, p1). append_questions qs ((count + of_bool (l \<noteq> 0)) mod 256) p1)"

fun append_answers :: "netifs \<Rightarrow> mdns_server \<Rightarrow> nat \<Rightarrow> out_answer list \<Rightarrow> nat \<Rightarrow> tx_packet \<Rightarrow> (nat \<times> tx_packet) option" where
  "append_answers e sv tcpip_if [] count p = Some (count, p)"
| "append_answers e sv tcpip_if (a # as) count p =
     Option.bind (mdns_append_answer e sv tcpip_if a p) (\<lambda>(n, p1). append_answers e sv tcpip_if as ((count + n) mod 256) p1)"

definition append_section :: "nat \<Rightarrow> (tx_packet \<Rightarrow> (nat \<times> tx_packet) option) \<Rightarrow> tx_packet \<Rightarrow> tx_packet option" where
  "append_section offset f p = Option.bind (f p) (\<lambda>(count, p1). mdns_set_u16 offset (word_of_nat count) p1)"

text \<open>The buffer keeps what the packet before left in it, except for the header. What is sent is the buffer up to the index.\<close>

definition mdns_dispatch_tx_packet :: "netifs \<Rightarrow> mdns_server \<Rightarrow> out_packet \<Rightarrow> bytes \<Rightarrow> tx_packet option" where
  "mdns_dispatch_tx_packet e sv pk buffer =
     Option.bind (memcpy_to buffer 0 (replicate 12 0)) (\<lambda>b.
       Option.bind (mdns_set_u16 2 (o_flags pk) \<lparr>pkt = b, pkt_index = 12\<rparr>) (\<lambda>p.
         Option.bind (mdns_set_u16 0 (o_id pk) p) (\<lambda>p.
           Option.bind (append_section 4 (append_questions (o_questions pk) 0) p) (\<lambda>p.
             Option.bind (append_section 6 (append_answers e sv (o_tcpip_if pk) (o_answers pk) 0) p) (\<lambda>p.
               Option.bind (append_section 8 (append_answers e sv (o_tcpip_if pk) (o_servers pk) 0) p) (\<lambda>p.
                 append_section 10 (append_answers e sv (o_tcpip_if pk) (o_additional pk) 0) p))))))"

end
