(* ===== verification/MdnsRead.thy ===== *)
theory MdnsRead
  imports MdnsPacket
begin

text \<open>
  Taking a received packet apart (mdns_parse_packet in managed_components/espressif__mdns/mdns.c): header, questions, records and the data of the records
  by type. What the server does with them is not part of the model. \<open>None\<close> is an access outside the packet, a packet that is given up is \<open>None\<close> inside it.
\<close>

section \<open>Header, questions, records\<close>

record mdns_header =
  hd_id :: u16
  hd_flags :: u16
  hd_questions :: u16
  hd_answers :: u16
  hd_servers :: u16
  hd_additional :: u16

definition read_header :: "bytes \<Rightarrow> mdns_header option option" where
  "read_header p =
     (if length p \<le> 10 then Some None
      else
        Option.bind (mdns_read_u16 p 0) (\<lambda>i. Option.bind (mdns_read_u16 p 2) (\<lambda>f. Option.bind (mdns_read_u16 p 4) (\<lambda>q.
          Option.bind (mdns_read_u16 p 6) (\<lambda>an. Option.bind (mdns_read_u16 p 8) (\<lambda>ns. map_option (\<lambda>ar.
            Some \<lparr>hd_id = i, hd_flags = f, hd_questions = q, hd_answers = an, hd_servers = ns, hd_additional = ar\<rparr>) (mdns_read_u16 p 10)))))))"

record question =
  qu_name :: mdns_name
  qu_type :: u16
  qu_class :: u16
  qu_unicast :: bool

definition read_question :: "bytes \<Rightarrow> nat \<Rightarrow> (question \<times> nat) option option" where
  "read_question p content =
     Option.bind (mdns_parse_fqdn p content) (\<lambda>(c, n). case c of None \<Rightarrow> Some None
       | Some c \<Rightarrow>
           if c + 2 + 1 \<ge> length p then Some None
           else
             Option.bind (mdns_read_u16 p c) (\<lambda>type. map_option (\<lambda>mdns_class.
               Some (\<lparr>qu_name = n, qu_type = type, qu_class = mdns_class AND 0x7fff, qu_unicast = (mdns_class AND 0x8000 \<noteq> 0)\<rparr>, c + 4))
               (mdns_read_u16 p (c + 2))))"

fun read_questions :: "bytes \<Rightarrow> nat \<Rightarrow> nat \<Rightarrow> (question list \<times> nat) option option" where
  "read_questions p 0 content = Some (Some ([], content))"
| "read_questions p (Suc qs) content =
     Option.bind (read_question p content) (\<lambda>r. case r of None \<Rightarrow> Some None
       | Some (q, c) \<Rightarrow> map_option (map_option (\<lambda>(l, c1). (q # l, c1))) (read_questions p qs c))"

record rr =
  rr_name :: mdns_name
  rr_type :: u16
  rr_class :: u16
  rr_ttl :: u32
  rr_data_ptr :: nat
  rr_data_len :: nat

definition read_record :: "bytes \<Rightarrow> nat \<Rightarrow> (rr \<times> nat) option option" where
  "read_record p content =
     Option.bind (mdns_parse_fqdn p content) (\<lambda>(c, n). case c of None \<Rightarrow> Some None
       | Some c \<Rightarrow>
           if c + 8 + 1 \<ge> length p then Some None
           else
             Option.bind (mdns_read_u16 p c) (\<lambda>type. Option.bind (mdns_read_u16 p (c + 2)) (\<lambda>mdns_class.
               Option.bind (mdns_read_u32 p (c + 4)) (\<lambda>ttl. map_option (\<lambda>data_len.
                 let next_content = c + 10 + unat data_len in
                 if next_content > length p then None
                 else Some (\<lparr>rr_name = n, rr_type = type, rr_class = mdns_class AND 0x7fff, rr_ttl = ttl, rr_data_ptr = c + 10,
                     rr_data_len = unat data_len\<rparr>, next_content))
                 (mdns_read_u16 p (c + 8))))))"

text \<open>Reading a name or a record advances.\<close>

lemma read_fqdn_advances: "read_fqdn p start index n = Some (Some e, n') \<Longrightarrow> start + index < e"
proof (induction p start index n arbitrary: e n' rule: read_fqdn.induct)
  case (1 p start index n)
  let ?b = "p ! (start + index)"
  show ?case
  proof (cases "start + index < length p \<and> ?b \<noteq> 0 \<and> unat ?b \<le> 63 \<and> label_at p (start + index + 1) (unat ?b) \<noteq> None")
    case True
    then obtain l where l: "label_at p (start + index + 1) (unat ?b) = Some l" by auto
    have nn: "\<not> \<not> (start + index < length p \<and> ?b \<noteq> 0)" using True by simp
    have "read_fqdn p start (index + 1 + unat ?b) (add_label l (mark n)) = Some (Some e, n')"
      using 1(3) True l by (subst (asm) read_fqdn.simps) (simp add: Let_def)
    from 1(1) [OF nn refl refl _ _ l this] True show ?thesis by simp
  next
    case False
    with 1(3) show ?thesis by (subst (asm) read_fqdn.simps) (auto simp: Let_def split: if_splits option.splits)
  qed
qed

lemma parse_fqdn_place: "map_option fst (mdns_parse_fqdn p start) = map_option fst (mdns_read_fqdn p start empty_name)"
proof (cases "mdns_read_fqdn p start empty_name")
  case (Some r)
  obtain e n where r: "r = (e, n)" by (cases r)
  show ?thesis
  proof (cases e)
    case (Some c)
    show ?thesis unfolding mdns_parse_fqdn_def \<open>mdns_read_fqdn p start empty_name = Some r\<close> r Some
      by (simp add: Let_def)
  qed (simp add: mdns_parse_fqdn_def \<open>mdns_read_fqdn p start empty_name = Some r\<close> r)
qed (simp add: mdns_parse_fqdn_def)

lemma parse_fqdn_advances: "mdns_parse_fqdn p start = Some (Some e, n) \<Longrightarrow> start < e"
proof -
  assume "mdns_parse_fqdn p start = Some (Some e, n)"
  with parse_fqdn_place [of p start] obtain n' where "mdns_read_fqdn p start empty_name = Some (Some e, n')"
    by (cases "mdns_read_fqdn p start empty_name") auto
  then show "start < e" unfolding mdns_read_fqdn_def using read_fqdn_advances by fastforce
qed

lemma read_record_advances: "read_record p content = Some (Some (r, c)) \<Longrightarrow> content < c \<and> c \<le> length p"
  using parse_fqdn_advances [of p content]
  by (force simp: read_record_def bind_eq_Some_conv Let_def split: option.splits if_splits prod.splits)

function read_records :: "bytes \<Rightarrow> nat \<Rightarrow> rr list option option" where
  "read_records p content =
     (if \<not> content < length p then Some (Some [])
      else
        (case read_record p content of None \<Rightarrow> None | Some None \<Rightarrow> Some None
         | Some (Some (r, c)) \<Rightarrow> map_option (map_option (\<lambda>l. r # l)) (read_records p c)))"
  by pat_completeness auto
termination by (relation "measure (\<lambda>(p, content). length p - content)") (auto dest: read_record_advances)

declare read_records.simps [simp del]

text \<open>
  The data of a record, as the branch of its type reads it. \<open>Skipped\<close> goes on with the next record, \<open>Malformed\<close> gives up the packet. The addresses are copied without a
  look at the length of the data.
\<close>

datatype rdata = Pointer mdns_name | Target u16 u16 u16 mdns_name | Texts "txt_item list" | Address bytes | Unread | Skipped | Malformed

definition read_pointer :: "bytes \<Rightarrow> nat \<Rightarrow> rdata option" where
  "read_pointer p data_ptr = map_option (\<lambda>(c, n). if c = None then Skipped else Pointer n) (mdns_parse_fqdn p data_ptr)"

definition read_target :: "bytes \<Rightarrow> nat \<Rightarrow> rdata option" where
  "read_target p data_ptr =
     Option.bind (mdns_parse_fqdn p (data_ptr + 6)) (\<lambda>(c, n).
       if c = None then Some Skipped
       else if data_ptr + 4 + 1 \<ge> length p then Some Malformed
       else
         Option.bind (mdns_read_u16 p data_ptr) (\<lambda>priority. Option.bind (mdns_read_u16 p (data_ptr + 2)) (\<lambda>weight.
           map_option (\<lambda>port. Target priority weight port n) (mdns_read_u16 p (data_ptr + 4)))))"

definition read_rdata :: "(nat \<Rightarrow> bool) \<Rightarrow> bytes \<Rightarrow> rr \<Rightarrow> rdata option" where
  "read_rdata malloc_ok p r =
     (if rr_type r = MDNS_TYPE_PTR then read_pointer p (rr_data_ptr r)
      else if rr_type r = MDNS_TYPE_SRV then read_target p (rr_data_ptr r)
      else if rr_type r = MDNS_TYPE_TXT then
        Option.bind (memcpy_from p (rr_data_ptr r) (rr_data_len r)) (\<lambda>b. map_option Texts (mdns_result_txt_create malloc_ok b))
      else if rr_type r = MDNS_TYPE_AAAA then map_option Address (memcpy_from p (rr_data_ptr r) 16)
      else if rr_type r = MDNS_TYPE_A then map_option Address (memcpy_from p (rr_data_ptr r) 4)
      else Some Unread)"

section \<open>Any packet is taken apart safely\<close>

lemma read_u16_inside: "i + 2 \<le> length p \<Longrightarrow> \<exists>v. mdns_read_u16 p i = Some v"
  by (simp add: mdns_read_u16_def memcpy_from_def)

lemma read_u32_inside: "i + 4 \<le> length p \<Longrightarrow> \<exists>v. mdns_read_u32 p i = Some v"
  by (simp add: mdns_read_u32_def memcpy_from_def)

lemma read_question_inside:
  assumes "content \<le> length p" "p = [] \<or> last p < 0xc0"
  shows "\<exists>r. read_question p content = Some r \<and> (\<forall>q c. r = Some (q, c) \<longrightarrow> c \<le> length p \<and> name_ok (qu_name q))"
proof -
  obtain e n where p: "mdns_parse_fqdn p content = Some (e, n)" "name_ok n" using any_name_is_read_safely assms by blast
  show ?thesis
  proof (cases "\<exists>c. e = Some c \<and> c + 3 < length p")
    case True
    then obtain c where c: "e = Some c" "c + 3 < length p" by blast
    then obtain t k where "mdns_read_u16 p c = Some t" "mdns_read_u16 p (c + 2) = Some k"
      using read_u16_inside [of c p] read_u16_inside [of "c + 2" p] by auto
    then show ?thesis using p c by (auto simp: read_question_def)
  next
    case False
    then show ?thesis using p by (cases e) (auto simp: read_question_def)
  qed
qed

lemma read_questions_inside:
  assumes "content \<le> length p" "p = [] \<or> last p < 0xc0"
  shows "\<exists>r. read_questions p n content = Some r \<and> (\<forall>qs c. r = Some (qs, c) \<longrightarrow> c \<le> length p \<and> list_all (\<lambda>q. name_ok (qu_name q)) qs)"
  using assms
proof (induction n arbitrary: content)
  case (Suc n)
  obtain r where r: "read_question p content = Some r" "\<forall>q c. r = Some (q, c) \<longrightarrow> c \<le> length p \<and> name_ok (qu_name q)"
    using read_question_inside [OF Suc.prems] by blast
  show ?case
  proof (cases r)
    case (Some qc)
    obtain q c where qc: "qc = (q, c)" by (cases qc)
    with Suc.IH [of c] Suc.prems(2) r(2) Some obtain s where "read_questions p n c = Some s"
      "\<forall>qs c. s = Some (qs, c) \<longrightarrow> c \<le> length p \<and> list_all (\<lambda>q. name_ok (qu_name q)) qs" by blast
    with r Some qc show ?thesis by (cases s) auto
  qed (use r in simp)
qed simp

definition record_inside :: "bytes \<Rightarrow> rr \<Rightarrow> bool" where
  "record_inside p r \<longleftrightarrow> name_ok (rr_name r) \<and> rr_data_ptr r + rr_data_len r \<le> length p"

lemma read_record_inside:
  assumes "content \<le> length p" "p = [] \<or> last p < 0xc0"
  shows "\<exists>r. read_record p content = Some r \<and> (\<forall>q c. r = Some (q, c) \<longrightarrow> c \<le> length p \<and> record_inside p q)"
proof -
  obtain e n where p: "mdns_parse_fqdn p content = Some (e, n)" "name_ok n" using any_name_is_read_safely assms by blast
  show ?thesis
  proof (cases "\<exists>c. e = Some c \<and> c + 9 < length p")
    case True
    then obtain c where c: "e = Some c" "c + 9 < length p" by blast
    then obtain t k l w where "mdns_read_u16 p c = Some t" "mdns_read_u16 p (c + 2) = Some k" "mdns_read_u32 p (c + 4) = Some w" "mdns_read_u16 p (c + 8) = Some l"
      using read_u16_inside [of c p] read_u16_inside [of "c + 2" p] read_u32_inside [of "c + 4" p] read_u16_inside [of "c + 8" p] by auto
    then show ?thesis using p c by (auto simp: read_record_def Let_def record_inside_def)
  next
    case False
    then show ?thesis using p by (cases e) (auto simp: read_record_def)
  qed
qed

lemma read_records_inside:
  assumes "p = [] \<or> last p < 0xc0"
  shows "\<exists>r. read_records p content = Some r \<and> (\<forall>rs. r = Some rs \<longrightarrow> list_all (record_inside p) rs)"
  using assms
proof (induction p content rule: read_records.induct)
  case (1 p content)
  show ?case
  proof (cases "content < length p")
    case True
    obtain r where r: "read_record p content = Some r" "\<forall>q c. r = Some (q, c) \<longrightarrow> c \<le> length p \<and> record_inside p q"
      using read_record_inside [of content p] True 1(2) by auto
    show ?thesis
    proof (cases r)
      case (Some qc)
      obtain q c where qc: "qc = (q, c)" by (cases qc)
      have nn: "\<not> \<not> content < length p" using True by simp
      obtain s where "read_records p c = Some s" "\<forall>rs. s = Some rs \<longrightarrow> list_all (record_inside p) rs"
        using 1(1) [OF nn r(1) Some qc [symmetric] 1(2)] by blast
      with r True Some qc show ?thesis by (subst read_records.simps) (cases s; auto)
    qed (use r True in \<open>subst read_records.simps, simp\<close>)
  qed (simp add: read_records.simps)
qed



lemma eleven_bytes_are_read_behind: "length p = 11 \<Longrightarrow> read_header p = None"
proof -
  assume "length p = 11"
  moreover from this have "mdns_read_u16 p 10 = None" by (simp add: mdns_read_u16_def memcpy_from_def)
  ultimately show "read_header p = None" by (simp add: read_header_def)
qed

text \<open>An address record at the end of a packet with less data than an address is read behind the packet.\<close>

lemma short_address_is_read_behind:
  "rr_type r = MDNS_TYPE_A \<Longrightarrow> rr_data_ptr r + 4 > length p \<Longrightarrow> read_rdata malloc_ok p r = None"
  by (simp add: read_rdata_def MDNS_TYPE_A_def MDNS_TYPE_PTR_def MDNS_TYPE_SRV_def MDNS_TYPE_TXT_def MDNS_TYPE_AAAA_def memcpy_from_def)

end
