(* ===== verification/MdnsTrip.thy ===== *)
theory MdnsTrip
  imports MdnsRead
begin

text \<open>
  What the responder appends to a packet is read back by its own parser: the fixed fields of a record, its name and its data. The data of a record starts ten bytes
  behind its name, and its length is entered when it is complete.
\<close>

declare mdns_append_fqdn.simps [simp del]

section \<open>Big-endian numbers\<close>

definition be16 :: "u16 \<Rightarrow> bytes" where
  "be16 v = [ucast (drop_bit 8 v), ucast v]"

definition be32 :: "u32 \<Rightarrow> bytes" where
  "be32 v = [ucast (drop_bit 24 v), ucast (drop_bit 16 v), ucast (drop_bit 8 v), ucast v]"

lemma length_be [simp]: "length (be16 v) = 2" "length (be32 w) = 4"
  by (simp_all add: be16_def be32_def)

lemma be16_value: "push_bit 8 (ucast (ucast (drop_bit 8 v) :: u8)) OR ucast (ucast v :: u8) = (v :: u16)"
proof (rule bit_word_eqI)
  fix n assume "n < LENGTH(16)"
  then show "bit (push_bit 8 (ucast (ucast (drop_bit 8 v) :: u8)) OR ucast (ucast v :: u8) :: u16) n = bit v n"
    by (cases "n < 8") (auto simp: bit_or_iff bit_push_bit_iff bit_ucast_iff bit_drop_bit_eq)
qed

lemma be32_value: "push_bit 24 (ucast (ucast (drop_bit 24 v) :: u8)) OR push_bit 16 (ucast (ucast (drop_bit 16 v) :: u8)) OR
    push_bit 8 (ucast (ucast (drop_bit 8 v) :: u8)) OR ucast (ucast v :: u8) = (v :: u32)"
proof (rule bit_word_eqI)
  fix n assume "n < LENGTH(32)"
  then show "bit (push_bit 24 (ucast (ucast (drop_bit 24 v) :: u8)) OR push_bit 16 (ucast (ucast (drop_bit 16 v) :: u8)) OR
    push_bit 8 (ucast (ucast (drop_bit 8 v) :: u8)) OR ucast (ucast v :: u8) :: u32) n = bit v n"
    by (cases "n < 24"; cases "n < 16"; cases "n < 8") (auto simp: bit_or_iff bit_push_bit_iff bit_ucast_iff bit_drop_bit_eq)
qed

lemma read_u16_at: "i = length a \<Longrightarrow> mdns_read_u16 (a @ be16 v @ r) i = Some v"
  using be16_value [of v] by (simp add: mdns_read_u16_def memcpy_from_def be16_def)

lemma read_u32_at: "i = length a \<Longrightarrow> mdns_read_u32 (a @ be32 v @ r) i = Some v"
  using be32_value [of v] by (simp add: mdns_read_u32_def memcpy_from_def be32_def)

section \<open>Appending fixed fields\<close>

lemma append_u16_be:
  "length (pkt p) = MDNS_MAX_PACKET_SIZE \<Longrightarrow> pkt_index p + 1 < MDNS_MAX_PACKET_SIZE \<Longrightarrow> \<exists>q. mdns_append_u16 v p = Some (2, q) \<and> grows p (be16 v) q"
  unfolding be16_def by (rule append_u16_grows)

lemma four_bytes_grow:
  assumes "length (pkt p) = MDNS_MAX_PACKET_SIZE" "pkt_index p + 3 < MDNS_MAX_PACKET_SIZE"
  shows "\<exists>a b c d. mdns_append_u8 w p = Some (1, a) \<and> mdns_append_u8 x a = Some (1, b) \<and> mdns_append_u8 y b = Some (1, c) \<and>
    mdns_append_u8 z c = Some (1, d) \<and> grows p [w, x, y, z] d"
proof -
  have g: "length (pkt q) = MDNS_MAX_PACKET_SIZE \<and> pkt_index q = pkt_index p + length bs" if "grows p bs q" for q bs using that by (simp add: grows_def)
  obtain a where a: "mdns_append_u8 w p = Some (1, a)" "grows p [w] a"
    using append_u8_grows [OF assms(1)] assms(2) by (metis add_lessD1)
  obtain b where b: "mdns_append_u8 x a = Some (1, b)" "grows p ([w] @ [x]) b"
    using append_u8_grows [of a] g [OF a(2)] assms(2) grows_trans [OF a(2)] by fastforce
  obtain c where c: "mdns_append_u8 y b = Some (1, c)" "grows p (([w] @ [x]) @ [y]) c"
    using append_u8_grows [of b] g [OF b(2)] assms(2) grows_trans [OF b(2)] by fastforce
  obtain d where d: "mdns_append_u8 z c = Some (1, d)" "grows p ((([w] @ [x]) @ [y]) @ [z]) d"
    using append_u8_grows [of c] g [OF c(2)] assms(2) grows_trans [OF c(2)] by fastforce
  show ?thesis using a(1) b(1) c(1) d by auto
qed

lemma append_u32_be:
  "length (pkt p) = MDNS_MAX_PACKET_SIZE \<Longrightarrow> pkt_index p + 3 < MDNS_MAX_PACKET_SIZE \<Longrightarrow> \<exists>q. mdns_append_u32 v p = Some (4, q) \<and> grows p (be32 v) q"
  using four_bytes_grow [of p "ucast (drop_bit 24 v)" "ucast (drop_bit 16 v)" "ucast (drop_bit 8 v)" "ucast v"]
  by (auto simp: mdns_append_u32_def be32_def)

text \<open>The types a record can have, with the code for the type field.\<close>

definition record_types :: "(nat \<times> u16) list" where
  "record_types = [(MDNS_ANSWER_PTR, MDNS_TYPE_PTR), (MDNS_ANSWER_TXT, MDNS_TYPE_TXT), (MDNS_ANSWER_SRV, MDNS_TYPE_SRV), (MDNS_ANSWER_A, MDNS_TYPE_A),
     (MDNS_ANSWER_AAAA, MDNS_TYPE_AAAA)]"

definition record_class :: "bool \<Rightarrow> u16" where
  "record_class flush = (if flush then MDNS_CLASS_IN_FLUSH_CACHE else MDNS_CLASS_IN)"

definition record_head :: "u16 \<Rightarrow> bool \<Rightarrow> u32 \<Rightarrow> u16 \<Rightarrow> bytes" where
  "record_head ty flush ttl n = be16 ty @ be16 (record_class flush) @ be32 ttl @ be16 n"

lemma length_record_head [simp]: "length (record_head ty flush ttl n) = 10"
  by (simp add: record_head_def)

lemma append_type_grows:
  assumes "length (pkt p) = MDNS_MAX_PACKET_SIZE" "pkt_index p + 10 < MDNS_MAX_PACKET_SIZE" "(t, ty) \<in> set record_types"
  shows "\<exists>q. mdns_append_type t flush ttl p = Some (10, q) \<and> grows p (record_head ty flush ttl 0) q"
proof -
  have g: "length (pkt q) = MDNS_MAX_PACKET_SIZE \<and> pkt_index q = pkt_index p + length bs" if "grows p bs q" for q bs using that by (simp add: grows_def)
  obtain a where a: "mdns_append_u16 ty p = Some (2, a)" "grows p (be16 ty) a" using append_u16_be [OF assms(1)] assms(2) by fastforce
  obtain b where b: "mdns_append_u16 (record_class flush) a = Some (2, b)" "grows p (be16 ty @ be16 (record_class flush)) b"
    using append_u16_be [of a] g [OF a(2)] assms(2) grows_trans [OF a(2)] by fastforce
  obtain c where c: "mdns_append_u32 ttl b = Some (4, c)" "grows p ((be16 ty @ be16 (record_class flush)) @ be32 ttl) c"
    using append_u32_be [of b] g [OF b(2)] assms(2) grows_trans [OF b(2)] by fastforce
  obtain d where d: "mdns_append_u16 0 c = Some (2, d)" "grows p (((be16 ty @ be16 (record_class flush)) @ be32 ttl) @ be16 0) d"
    using append_u16_be [of c] g [OF c(2)] assms(2) grows_trans [OF c(2)] by fastforce
  have "mdns_append_type t flush ttl p = Some (10, d)"
    using assms(2,3) a(1) b(1) c(1) d(1)
    by (auto simp: mdns_append_type_def record_types_def record_class_def [symmetric] MDNS_ANSWER_PTR_def MDNS_ANSWER_TXT_def MDNS_ANSWER_SRV_def
      MDNS_ANSWER_A_def MDNS_ANSWER_AAAA_def Let_def)
  with d(2) show ?thesis by (simp add: record_head_def)
qed

lemma set_u16_written:
  assumes "length (pkt p) = MDNS_MAX_PACKET_SIZE" "pkt_index p \<le> MDNS_MAX_PACKET_SIZE" "written p = a @ [x, y] @ b"
  shows "\<exists>q. mdns_set_u16 (length a) v p = Some q \<and> length (pkt q) = MDNS_MAX_PACKET_SIZE \<and> pkt_index q = pkt_index p \<and> written q = a @ be16 v @ b"
proof -
  have i: "pkt_index p = length a + 2 + length b" using length_written [OF assms(1,2)] assms(3) by simp
  obtain d where s: "pkt p = a @ [x, y] @ b @ d" using assms(3) unfolding written_def by (metis append_take_drop_id append_assoc)
  have m: "memcpy_to (pkt p) (length a) (be16 v) = Some (a @ be16 v @ b @ d)" by (simp add: memcpy_to_def blit_def s be16_def)
  have "length (a @ be16 v @ b @ d) = MDNS_MAX_PACKET_SIZE" using s assms(1) by simp
  moreover have "length a + 1 < MDNS_MAX_PACKET_SIZE" using i assms(2) by simp
  ultimately show ?thesis using m i by (simp add: mdns_set_u16_def be16_def [symmetric] written_def)
qed

lemma part_continues: "f p = Some (l, q) \<Longrightarrow> 0 < l \<Longrightarrow> l < 256 \<Longrightarrow> part f k p = k l q"
  by (simp add: part_def)

lemma plain_name_room: "plain_name n \<Longrightarrow> name_room (name_strings n) \<le> 200"
proof -
  assume n: "plain_name n"
  have "length (map lower (n_domain n)) = length (map lower (ascii ''local''))" using n unfolding plain_name_def strcaseeq_def by metis
  then have d: "length (n_domain n) = 5" by (simp add: ascii_def)
  have "length s \<le> 63" if "s \<in> {n_host n, n_service n, n_proto n}" for s
    using n that by (cases "s = []") (auto simp: plain_name_def name_strings_def plain_label_def split: if_splits)
  then have "length (n_host n) \<le> 63" "length (n_service n) \<le> 63" "length (n_proto n) \<le> 63" by blast+
  with d show ?thesis by (simp add: name_room_def name_strings_def)
qed

lemma plain_name_not_empty: "plain_name n \<Longrightarrow> name_strings n \<noteq> []"
  by (auto simp: plain_name_def name_strings_def)

section \<open>Name and fixed fields of a record\<close>

text \<open>The packet after a call.\<close>

definition after :: "(tx_packet \<Rightarrow> (nat \<times> tx_packet) option) \<Rightarrow> tx_packet \<Rightarrow> tx_packet" where
  "after f p = (case f p of None \<Rightarrow> p | Some (_, q) \<Rightarrow> q)"

text \<open>Every record starts like this; the data follows.\<close>

lemma head_written:
  assumes "plain_name n" "sound_matches (pkt_index p) (name_strings n) p" "length (pkt p) = MDNS_MAX_PACKET_SIZE"
    "pkt_index p + name_room (name_strings n) + 10 \<le> MDNS_MAX_PACKET_SIZE" "(t, ty) \<in> set record_types"
  shows "\<exists>bs q m. (\<forall>k. part (mdns_append_fqdn (name_strings n)) (\<lambda>l1. part (mdns_append_type t flush ttl) (k l1)) p = k (length bs) 10 q) \<and>
    grows p (bs @ record_head ty flush ttl 0) q \<and> length bs < name_room (name_strings n) \<and> same_name m n \<and>
    (\<forall>rest. mdns_parse_fqdn (written p @ bs @ rest) (pkt_index p) = Some (Some (pkt_index p + length bs), m)) \<and>
    pkt_index (after (mdns_append_fqdn (name_strings n)) p) = pkt_index p + length bs \<and>
    q = after (mdns_append_type t flush ttl) (after (mdns_append_fqdn (name_strings n)) p)"
proof -
  obtain q1 bs m where w: "mdns_append_fqdn (name_strings n) p = Some (length bs, q1)" "grows p bs q1" "length bs < name_room (name_strings n)" "same_name m n"
    "\<forall>rest. mdns_parse_fqdn (written p @ bs @ rest) (pkt_index p) = Some (Some (pkt_index q1), m)"
    using plain_name_parsed [OF assms(1-3)] assms(4) by auto
  have i: "pkt_index q1 = pkt_index p + length bs" "length (pkt q1) = MDNS_MAX_PACKET_SIZE" using w(2) by (simp_all add: grows_def)
  obtain q2 where q2: "mdns_append_type t flush ttl q1 = Some (10, q2)" "grows q1 (record_head ty flush ttl 0) q2"
    using append_type_grows [OF i(2) _ assms(5)] i(1) w(3) assms(4) by fastforce
  have "length bs \<noteq> 0" using parse_fqdn_advances w(5) i(1) by fastforce
  then have "0 < length bs" "length bs < 256" using w(3) plain_name_room [OF assms(1)] by simp_all
  then have "part (mdns_append_fqdn (name_strings n)) (\<lambda>l1. part (mdns_append_type t flush ttl) (k l1)) p = k (length bs) 10 q2" for k
    by (simp add: part_def w(1) q2(1))
  with w i q2(1) grows_trans [OF w(2) q2(2)] show ?thesis by (intro exI [of _ bs] exI [of _ q2] exI [of _ m]) (simp add: after_def)
qed

text \<open>A complete record is read by the parser, whatever follows.\<close>

lemma record_is_read:
  assumes "\<forall>rest. mdns_parse_fqdn (w @ bs @ rest) i = Some (Some (i + length bs), m)" "i = length w" "length d < 2 ^ 16"
  shows "read_record (w @ bs @ record_head ty flush ttl (word_of_nat (length d)) @ d @ rest) i =
    Some (Some (\<lparr>rr_name = m, rr_type = ty, rr_class = record_class flush AND 0x7fff, rr_ttl = ttl, rr_data_ptr = i + length bs + 10,
      rr_data_len = length d\<rparr>, i + length bs + 10 + length d))"
proof -
  let ?p = "w @ bs @ record_head ty flush ttl (word_of_nat (length d)) @ d @ rest" and ?c = "i + length bs"
  let ?n = "word_of_nat (length d) :: u16"
  have p: "mdns_parse_fqdn ?p i = Some (Some ?c, m)" using assms(1) by blast
  have a: "mdns_read_u16 ?p ?c = Some ty"
    using read_u16_at [of ?c "w @ bs" ty "be16 (record_class flush) @ be32 ttl @ be16 ?n @ d @ rest"] assms(2) by (simp add: record_head_def)
  have b: "mdns_read_u16 ?p (?c + 2) = Some (record_class flush)"
    using read_u16_at [of "?c + 2" "w @ bs @ be16 ty" "record_class flush" "be32 ttl @ be16 ?n @ d @ rest"] assms(2) by (simp add: record_head_def)
  have c: "mdns_read_u32 ?p (?c + 4) = Some ttl"
    using read_u32_at [of "?c + 4" "w @ bs @ be16 ty @ be16 (record_class flush)" ttl "be16 ?n @ d @ rest"] assms(2) by (simp add: record_head_def)
  have e: "mdns_read_u16 ?p (?c + 8) = Some ?n"
    using read_u16_at [of "?c + 8" "w @ bs @ be16 ty @ be16 (record_class flush) @ be32 ttl" ?n "d @ rest"] assms(2) by (simp add: record_head_def)
  have u: "unat ?n = length d" using assms(3) by (subst unat_of_nat) simp
  have l: "length ?p = ?c + 10 + length d + length rest" using assms(2) by simp
  show ?thesis unfolding read_record_def p by (simp only: bind.bind_lunit prod.case option.case l a b c e) (use u in \<open>simp add: Let_def a b c e\<close>)
qed

lemma record_finished:
  assumes "length (pkt p) = MDNS_MAX_PACKET_SIZE" "grows p (bs @ record_head ty flush ttl 0) q" "grows q d q1" "pkt_index q1 \<le> MDNS_MAX_PACKET_SIZE"
  shows "\<exists>r. mdns_set_u16 (pkt_index q - 2) v q1 = Some r \<and> pkt_index r = pkt_index q1 \<and> length (pkt r) = MDNS_MAX_PACKET_SIZE \<and>
    written r = written p @ bs @ record_head ty flush ttl v @ d"
proof -
  let ?a = "written p @ bs @ be16 ty @ be16 (record_class flush) @ be32 ttl"
  have i: "pkt_index q = pkt_index p + length bs + 10" "pkt_index q1 = pkt_index q + length d" "length (pkt q1) = MDNS_MAX_PACKET_SIZE"
    using assms(2,3) by (simp_all add: grows_def)
  have "pkt_index p \<le> MDNS_MAX_PACKET_SIZE" using i assms(4) by simp
  then have l: "length ?a = pkt_index q - 2" using i length_written [OF assms(1)] by simp
  have "written q1 = ?a @ [0, 0] @ d" using assms(2,3) by (simp add: grows_def record_head_def be16_def)
  from set_u16_written [OF i(3) assms(4) this, of v] show ?thesis unfolding l by (auto simp: record_head_def)
qed

text \<open>From a packet to one with one record more, with its name, type, time to live and data.\<close>

definition record_added :: "tx_packet \<Rightarrow> mdns_name \<Rightarrow> u16 \<Rightarrow> u32 \<Rightarrow> bytes \<Rightarrow> tx_packet \<Rightarrow> bool" where
  "record_added p n ty ttl d q \<longleftrightarrow> length (pkt q) = MDNS_MAX_PACKET_SIZE \<and> pkt_index p < pkt_index q \<and>
     (\<exists>w. written q = written p @ w @ d \<and> pkt_index q = pkt_index p + length w + length d) \<and>
     (\<forall>rest. \<exists>r. read_record (written q @ rest) (pkt_index p) = Some (Some (r, pkt_index q)) \<and> same_name (rr_name r) n \<and> rr_type r = ty \<and>
        rr_ttl r = ttl \<and> rr_class r = 1 \<and> rr_data_ptr r = pkt_index q - length d \<and> rr_data_len r = length d)"

lemma record_complete:
  assumes "length (pkt p) = MDNS_MAX_PACKET_SIZE" "grows p (bs @ record_head ty flush ttl 0) q" "grows q d q1" "pkt_index q1 \<le> MDNS_MAX_PACKET_SIZE"
    "\<forall>rest. mdns_parse_fqdn (written p @ bs @ rest) (pkt_index p) = Some (Some (pkt_index p + length bs), m)" "same_name m n"
  shows "\<exists>r. mdns_set_u16 (pkt_index q - 2) (word_of_nat (length d)) q1 = Some r \<and> pkt_index r = pkt_index q1 \<and>
    written r = (written p @ bs @ record_head ty flush ttl (word_of_nat (length d))) @ d \<and> record_added p n ty ttl d r"
proof -
  obtain r where r: "mdns_set_u16 (pkt_index q - 2) (word_of_nat (length d)) q1 = Some r" "pkt_index r = pkt_index q1" "length (pkt r) = MDNS_MAX_PACKET_SIZE"
    "written r = written p @ bs @ record_head ty flush ttl (word_of_nat (length d)) @ d" using record_finished [OF assms(1-4)] by blast
  have i: "pkt_index q1 = pkt_index p + length bs + 10 + length d" using assms(2,3) by (simp add: grows_def)
  have c: "record_class flush AND 0x7fff = 1" by (simp add: record_class_def MDNS_CLASS_IN_def MDNS_CLASS_IN_FLUSH_CACHE_def)
  have "length d < 2 ^ 16" "pkt_index p = length (written p)" using i assms(4) length_written [OF assms(1)] by (simp_all add: MDNS_MAX_PACKET_SIZE_def)
  note rr = record_is_read [OF assms(5) this(2,1)]
  have "record_added p n ty ttl d r"
    unfolding record_added_def r(4) append_assoc rr using r(2,3) i assms(6) c by (auto intro!: exI [of _ "bs @ record_head ty flush ttl (word_of_nat (length d))"])
  with r show ?thesis by auto
qed

section \<open>Records are read back\<close>

definition host_name :: "bytes \<Rightarrow> mdns_name" where
  "host_name h = empty_name\<lparr>n_host := h, n_domain := local_domain\<rparr>"

definition instance_name :: "bytes \<Rightarrow> mdns_service \<Rightarrow> mdns_name" where
  "instance_name inst s = empty_name\<lparr>n_host := inst, n_service := s_service s, n_proto := s_proto s, n_domain := local_domain\<rparr>"

lemma host_name_strings: "plain_name (host_name h) \<Longrightarrow> name_strings (host_name h) = [h, local_domain] \<and> h \<noteq> []"
  by (auto simp: host_name_def plain_name_def name_strings_def empty_name_def local_domain_def ascii_def)

lemma instance_name_strings:
  "plain_name (instance_name inst s) \<Longrightarrow> inst \<noteq> [] \<Longrightarrow> s_service s \<noteq> [] \<Longrightarrow>
    name_strings (instance_name inst s) = [inst, s_service s, s_proto s, local_domain]"
  by (auto simp: instance_name_def plain_name_def name_strings_def empty_name_def local_domain_def ascii_def)

lemma a_record_is_added:
  assumes "plain_name (host_name h)" "sound_matches (pkt_index p) [h, local_domain] p" "length (pkt p) = MDNS_MAX_PACKET_SIZE"
    "pkt_index p + name_room [h, local_domain] + 14 \<le> MDNS_MAX_PACKET_SIZE"
  shows "\<exists>q. mdns_append_a_record (Some h) ip flush bye p = Some (pkt_index q - pkt_index p, q) \<and>
    record_added p (host_name h) MDNS_TYPE_A (if bye then 0 else MDNS_ANSWER_A_TTL) (le32 ip) q"
proof -
  note hs = host_name_strings [OF assms(1)]
  let ?ttl = "if bye then 0 else MDNS_ANSWER_A_TTL"
  have t: "(MDNS_ANSWER_A, MDNS_TYPE_A) \<in> set record_types" by (simp add: record_types_def)
  obtain bs q m where h: "\<And>k. part (mdns_append_fqdn [h, local_domain]) (\<lambda>l1. part (mdns_append_type MDNS_ANSWER_A flush ?ttl) (k l1)) p = k (length bs) 10 q"
    "grows p (bs @ record_head MDNS_TYPE_A flush ?ttl 0) q" "length bs < name_room [h, local_domain]" "same_name m (host_name h)"
    "\<forall>rest. mdns_parse_fqdn (written p @ bs @ rest) (pkt_index p) = Some (Some (pkt_index p + length bs), m)"
    using head_written [OF assms(1) _ assms(3) _ t, of flush ?ttl] assms(2,4) hs by auto
  have i: "length (pkt q) = MDNS_MAX_PACKET_SIZE" "pkt_index q = pkt_index p + length bs + 10" using h(2) by (simp_all add: grows_def)
  obtain q1 q2 q3 q4 where b: "mdns_append_u8 (ucast ip) q = Some (1, q1)" "mdns_append_u8 (ucast (drop_bit 8 ip)) q1 = Some (1, q2)"
    "mdns_append_u8 (ucast (drop_bit 16 ip)) q2 = Some (1, q3)" "mdns_append_u8 (ucast (drop_bit 24 ip)) q3 = Some (1, q4)" "grows q (le32 ip) q4"
    using four_bytes_grow [OF i(1), of "ucast ip" "ucast (drop_bit 8 ip)" "ucast (drop_bit 16 ip)" "ucast (drop_bit 24 ip)"] i(2) h(3) assms(4)
    by (auto simp: le32_def)
  have i4: "pkt_index q4 = pkt_index q + 4" "pkt_index q4 \<le> MDNS_MAX_PACKET_SIZE" using b(5) i(2) h(3) assms(4) by (simp_all add: grows_def)
  obtain r where r: "mdns_set_u16 (pkt_index q - 2) 4 q4 = Some r" "pkt_index r = pkt_index q4"
    "record_added p (host_name h) MDNS_TYPE_A ?ttl (le32 ip) r"
    using record_complete [OF assms(3) h(2) b(5) i4(2) h(5,4)] by auto
  have "mdns_append_a_record (Some h) ip flush bye p = Some ((length bs + 10 + 4) mod 2 ^ 16, r)"
    using hs i h(3) assms(4) b(1-4) r(1) by (simp add: mdns_append_a_record_def str_null_or_empty_def h(1))
  moreover have "(length bs + 10 + 4) mod 2 ^ 16 = pkt_index r - pkt_index p" using i i4 r(2) by (simp add: MDNS_MAX_PACKET_SIZE_def)
  ultimately show ?thesis using r(3) by (auto intro!: exI [of _ r])
qed

lemma record_data_read:
  assumes "record_added p n ty ttl d q" "pkt_index q \<le> MDNS_MAX_PACKET_SIZE"
  shows "memcpy_from (written q @ rest) (pkt_index q - length d) (length d) = Some d"
proof -
  obtain w where w: "written q = (written p @ w) @ d" "pkt_index q = pkt_index p + length w + length d" "length (pkt q) = MDNS_MAX_PACKET_SIZE"
    using assms(1) by (auto simp: record_added_def)
  then have "length (written p @ w) = pkt_index q - length d" using length_written [OF w(3) assms(2)] by simp
  then show ?thesis unfolding w(1) by (simp add: memcpy_from_def)
qed

text \<open>Where the target of a service record is appended.\<close>

definition instance_strings :: "bytes \<Rightarrow> mdns_service \<Rightarrow> bytes list" where
  "instance_strings inst s = [inst, s_service s, s_proto s, local_domain]"

definition srv_target_place :: "bytes \<Rightarrow> mdns_service \<Rightarrow> bool \<Rightarrow> bool \<Rightarrow> tx_packet \<Rightarrow> tx_packet" where
  "srv_target_place inst s flush bye p =
     after (mdns_append_u16 (s_port s)) (after (mdns_append_u16 (s_weight s)) (after (mdns_append_u16 (s_priority s))
       (after (mdns_append_type MDNS_ANSWER_SRV flush (if bye then 0 else MDNS_ANSWER_SRV_TTL)) (after (mdns_append_fqdn (instance_strings inst s)) p))))"

lemma three_u16_grow:
  assumes "length (pkt p) = MDNS_MAX_PACKET_SIZE" "pkt_index p + 5 < MDNS_MAX_PACKET_SIZE"
  shows "\<exists>a b c. mdns_append_u16 x p = Some (2, a) \<and> mdns_append_u16 y a = Some (2, b) \<and> mdns_append_u16 z b = Some (2, c) \<and>
    grows p (be16 x @ be16 y @ be16 z) c"
proof -
  have g: "length (pkt q) = MDNS_MAX_PACKET_SIZE \<and> pkt_index q = pkt_index p + length bs" if "grows p bs q" for q bs using that by (simp add: grows_def)
  obtain a where a: "mdns_append_u16 x p = Some (2, a)" "grows p (be16 x) a" using append_u16_be [OF assms(1)] assms(2) by fastforce
  obtain b where b: "mdns_append_u16 y a = Some (2, b)" "grows p (be16 x @ be16 y) b"
    using append_u16_be [of a] g [OF a(2)] assms(2) grows_trans [OF a(2)] by fastforce
  obtain c where c: "mdns_append_u16 z b = Some (2, c)" "grows p ((be16 x @ be16 y) @ be16 z) c"
    using append_u16_be [of b] g [OF b(2)] assms(2) grows_trans [OF b(2)] by fastforce
  show ?thesis using a(1) b(1) c by auto
qed

lemma instance_strings_of_name:
  "plain_name (instance_name inst s) \<Longrightarrow> inst \<noteq> [] \<Longrightarrow> s_service s \<noteq> [] \<Longrightarrow> name_strings (instance_name inst s) = instance_strings inst s"
  using instance_name_strings by (simp add: instance_strings_def)

lemma grows_length: "grows p bs q \<Longrightarrow> length (pkt q) = MDNS_MAX_PACKET_SIZE \<and> pkt_index q = pkt_index p + length bs"
  by (simp add: grows_def)

text \<open>A name in the data of a record, with a limit before the fixed fields: entering the length of the data does not change it.\<close>

lemma data_name_written:
  assumes "plain_name n" "sound_matches limit (name_strings n) q" "pkt_index q + name_room (name_strings n) \<le> MDNS_MAX_PACKET_SIZE"
    "length (pkt p) = MDNS_MAX_PACKET_SIZE" "limit = pkt_index p + length bs" "grows p (bs @ h) q"
  shows "\<exists>q1 bs1 m. mdns_append_fqdn (name_strings n) q = Some (length bs1, q1) \<and> grows q bs1 q1 \<and> length bs1 < name_room (name_strings n) \<and> 0 < length bs1 \<and>
    same_name m n \<and> (\<forall>h' rest. length h' = length h \<longrightarrow> mdns_parse_fqdn ((written p @ bs @ h') @ bs1 @ rest) (pkt_index q) = Some (Some (pkt_index q1), m))"
proof -
  have q: "length (pkt q) = MDNS_MAX_PACKET_SIZE" "pkt_index q = limit + length h" using assms(5,6) by (simp_all add: grows_def)
  obtain q1 bs1 m where w: "mdns_append_fqdn (name_strings n) q = Some (length bs1, q1)" "grows q bs1 q1" "length bs1 < name_room (name_strings n)" "same_name m n"
    "\<forall>w rest. length w = pkt_index q \<longrightarrow> take limit w = take limit (pkt q) \<longrightarrow> mdns_parse_fqdn (w @ bs1 @ rest) (pkt_index q) = Some (Some (pkt_index q1), m)"
    using plain_name_written [OF assms(1,2) _ q(1) assms(3)] q(2) by auto
  have lp: "length (written p) = pkt_index p" using length_written [OF assms(4)] q(2) assms(3,5) by simp
  have "take limit (pkt q) = take limit (written q)" using q(2) by (simp add: written_def)
  also have "\<dots> = written p @ bs" using assms(5,6) lp by (simp add: grows_def)
  finally have t: "take limit (pkt q) = written p @ bs" .
  have parse: "mdns_parse_fqdn ((written p @ bs @ h') @ bs1 @ rest) (pkt_index q) = Some (Some (pkt_index q1), m)" if "length h' = length h" for h' rest
  proof -
    have "length (written p @ bs @ h') = pkt_index q" "take limit (written p @ bs @ h') = take limit (pkt q)" using that lp q(2) assms(5) t by simp_all
    with w(5) show ?thesis by blast
  qed
  from parse_fqdn_advances [OF parse [OF refl]] grows_length [OF w(2)] have "0 < length bs1" by simp
  with w parse show ?thesis by blast
qed

definition srv_target :: "mdns_server \<Rightarrow> mdns_service \<Rightarrow> bytes option" where
  "srv_target sv s = (case s_hostname s of Some h \<Rightarrow> Some h | None \<Rightarrow> sv_hostname sv)"

lemma srv_record_is_added:
  assumes "mdns_get_service_instance_name sv (Some s) = Some inst" "srv_target sv s = Some host"
    "plain_name (instance_name inst s)" "inst \<noteq> []" "s_service s \<noteq> []" "plain_name (host_name host)"
    "length (pkt p) = MDNS_MAX_PACKET_SIZE"
    "pkt_index p + name_room (instance_strings inst s) + 16 + name_room [host, local_domain] \<le> MDNS_MAX_PACKET_SIZE"
    "sound_matches (pkt_index p) (instance_strings inst s) p"
    "sound_matches (pkt_index (after (mdns_append_fqdn (instance_strings inst s)) p)) [host, local_domain] (srv_target_place inst s flush bye p)"
  shows "\<exists>r bs1 m. mdns_append_srv_record sv (Some s) flush bye p = Some (pkt_index r - pkt_index p, r) \<and> pkt_index r \<le> MDNS_MAX_PACKET_SIZE \<and>
    record_added p (instance_name inst s) MDNS_TYPE_SRV (if bye then 0 else MDNS_ANSWER_SRV_TTL) ((be16 (s_priority s) @ be16 (s_weight s) @ be16 (s_port s)) @ bs1) r \<and>
    same_name m (host_name host) \<and> (\<forall>rest. mdns_parse_fqdn (written r @ rest) (pkt_index r - length bs1) = Some (Some (pkt_index r), m))"
proof -
  note hs = host_name_strings [OF assms(6)] and ins = instance_strings_of_name [OF assms(3-5)]
  let ?ttl = "if bye then 0 else MDNS_ANSWER_SRV_TTL"
  have t: "(MDNS_ANSWER_SRV, MDNS_TYPE_SRV) \<in> set record_types" by (simp add: record_types_def)
  obtain bs q m where h: "\<And>k. part (mdns_append_fqdn (instance_strings inst s)) (\<lambda>l1. part (mdns_append_type MDNS_ANSWER_SRV flush ?ttl) (k l1)) p = k (length bs) 10 q"
    "grows p (bs @ record_head MDNS_TYPE_SRV flush ?ttl 0) q" "length bs < name_room (instance_strings inst s)" "same_name m (instance_name inst s)"
    "\<forall>rest. mdns_parse_fqdn (written p @ bs @ rest) (pkt_index p) = Some (Some (pkt_index p + length bs), m)"
    "pkt_index (after (mdns_append_fqdn (instance_strings inst s)) p) = pkt_index p + length bs"
    "q = after (mdns_append_type MDNS_ANSWER_SRV flush ?ttl) (after (mdns_append_fqdn (instance_strings inst s)) p)"
    using head_written [OF assms(3) _ assms(7) _ t, of flush ?ttl] assms(8,9) ins by auto
  note i = grows_length [OF h(2)]
  obtain q1 q2 q3 where f: "mdns_append_u16 (s_priority s) q = Some (2, q1)" "mdns_append_u16 (s_weight s) q1 = Some (2, q2)"
    "mdns_append_u16 (s_port s) q2 = Some (2, q3)" "grows q (be16 (s_priority s) @ be16 (s_weight s) @ be16 (s_port s)) q3"
    using three_u16_grow [of q "s_priority s" "s_weight s" "s_port s"] i h(3) assms(8) by auto
  let ?f = "be16 (s_priority s) @ be16 (s_weight s) @ be16 (s_port s)"
  have place: "srv_target_place inst s flush bye p = q3" unfolding srv_target_place_def h(7) [symmetric] by (simp add: after_def f)
  have g3: "grows p (bs @ record_head MDNS_TYPE_SRV flush ?ttl 0 @ ?f) q3" using grows_trans [OF h(2) f(4)] by simp
  note i3 = grows_length [OF g3]
  obtain q4 bs1 m1 where n: "mdns_append_fqdn [host, local_domain] q3 = Some (length bs1, q4)" "grows q3 bs1 q4" "length bs1 < name_room [host, local_domain]"
    "0 < length bs1" "same_name m1 (host_name host)"
    "\<And>h' rest. length h' = length (record_head MDNS_TYPE_SRV flush ?ttl 0 @ ?f) \<Longrightarrow>
       mdns_parse_fqdn ((written p @ bs @ h') @ bs1 @ rest) (pkt_index q3) = Some (Some (pkt_index q4), m1)"
    using data_name_written [OF assms(6) _ _ assms(7) h(6) g3] assms(8,10) hs place i3 h(3) by auto
  note i4 = grows_length [OF n(2)]
  have i4': "pkt_index q4 \<le> MDNS_MAX_PACKET_SIZE" using i4 i3 n(3) h(3) assms(8) by simp
  have g4: "grows q (?f @ bs1) q4" using grows_trans [OF f(4) n(2)] .
  obtain r where r: "mdns_set_u16 (pkt_index q - 2) (word_of_nat (length (?f @ bs1))) q4 = Some r" "pkt_index r = pkt_index q4"
    "written r = (written p @ bs @ record_head MDNS_TYPE_SRV flush ?ttl (word_of_nat (length (?f @ bs1)))) @ ?f @ bs1"
    "record_added p (instance_name inst s) MDNS_TYPE_SRV ?ttl (?f @ bs1) r"
    using record_complete [OF assms(7) h(2) g4 i4' h(5,4)] by blast
  have "mdns_parse_fqdn (written r @ rest) (pkt_index r - length bs1) = Some (Some (pkt_index r), m1)" for rest
    using n(6) [of "record_head MDNS_TYPE_SRV flush ?ttl (word_of_nat (length (?f @ bs1))) @ ?f" rest] i4 r(2,3) by simp
  moreover have inner: "part (mdns_append_fqdn [host, local_domain]) k q3 = k (length bs1) q4" for k
    using n(3,4) plain_name_room [OF assms(6)] hs by (simp add: part_def n(1))
  moreover have "mdns_append_srv_record sv (Some s) flush bye p = Some ((length bs + 10 + length bs1 + 6) mod 2 ^ 16, r)"
    using assms(1,2) hs f(1-3) r(1)
    by (simp add: mdns_append_srv_record_def srv_target_def str_null_or_empty_def h(1) [unfolded instance_strings_def] inner add.commute)
  moreover have "(length bs + 10 + length bs1 + 6) mod 2 ^ 16 = pkt_index r - pkt_index p"
    using i i4 i3 i4' r(2) by (simp add: MDNS_MAX_PACKET_SIZE_def)
  ultimately show ?thesis using r(2,4) i4' n(5) by (intro exI [of _ r] exI [of _ bs1] exI [of _ m1]) simp
qed

lemma record_bytes:
  assumes "record_added p n ty ttl d q" "pkt_index q \<le> MDNS_MAX_PACKET_SIZE"
  shows "\<exists>a. written q = a @ d \<and> length a = pkt_index q - length d \<and> length d \<le> pkt_index q \<and> length (written q) = pkt_index q"
proof -
  obtain w where w: "written q = (written p @ w) @ d" "pkt_index q = pkt_index p + length w + length d" "length (pkt q) = MDNS_MAX_PACKET_SIZE"
    using assms(1) by (auto simp: record_added_def)
  moreover have "length (written q) = pkt_index q" using length_written [OF w(3) assms(2)] .
  ultimately show ?thesis by (intro exI [of _ "written p @ w"]) simp
qed

lemma record_added_keeps: "record_added p n ty ttl d q \<Longrightarrow> length (pkt p) = MDNS_MAX_PACKET_SIZE \<Longrightarrow> pkt_index q \<le> MDNS_MAX_PACKET_SIZE \<Longrightarrow>
    pkt_index p < pkt_index q \<and> take (pkt_index p) (written q) = written p"
  using length_written [of p] by (auto simp: record_added_def)

text \<open>C39: A service record is read back. For a service with an instance name and a host name, plain names, room in the packet and sound places for what is compressed,
  the record is appended behind what is there; the parser reads from its place the name of the instance, the time to live and, as its data, priority, weight, port and the name of the host, and the
  place behind the record.\<close>

theorem srv_record_is_read_back:
  assumes "mdns_get_service_instance_name sv (Some s) = Some inst" "srv_target sv s = Some host"
    "plain_name (instance_name inst s)" "inst \<noteq> []" "s_service s \<noteq> []" "plain_name (host_name host)"
    "length (pkt p) = MDNS_MAX_PACKET_SIZE"
    "pkt_index p + name_room (instance_strings inst s) + 16 + name_room [host, local_domain] \<le> MDNS_MAX_PACKET_SIZE"
    "sound_matches (pkt_index p) (instance_strings inst s) p"
    "sound_matches (pkt_index (after (mdns_append_fqdn (instance_strings inst s)) p)) [host, local_domain] (srv_target_place inst s flush bye p)"
  shows "\<exists>q r m. mdns_append_srv_record sv (Some s) flush bye p = Some (pkt_index q - pkt_index p, q) \<and> pkt_index p < pkt_index q \<and>
    take (pkt_index p) (written q) = written p \<and> read_record (written q @ rest) (pkt_index p) = Some (Some (r, pkt_index q)) \<and>
    same_name (rr_name r) (instance_name inst s) \<and> rr_class r = 1 \<and> rr_ttl r = (if bye then 0 else 120) \<and>
    read_rdata malloc_ok (written q @ rest) r = Some (Target (s_priority s) (s_weight s) (s_port s) m) \<and> same_name m (host_name host)"
proof -
  let ?f = "be16 (s_priority s) @ be16 (s_weight s) @ be16 (s_port s)"
  obtain q bs1 m where q: "mdns_append_srv_record sv (Some s) flush bye p = Some (pkt_index q - pkt_index p, q)" "pkt_index q \<le> MDNS_MAX_PACKET_SIZE"
    "record_added p (instance_name inst s) MDNS_TYPE_SRV (if bye then 0 else MDNS_ANSWER_SRV_TTL) (?f @ bs1) q" "same_name m (host_name host)"
    "\<forall>rest. mdns_parse_fqdn (written q @ rest) (pkt_index q - length bs1) = Some (Some (pkt_index q), m)"
    using srv_record_is_added [OF assms] by blast
  obtain r where r: "read_record (written q @ rest) (pkt_index p) = Some (Some (r, pkt_index q))" "same_name (rr_name r) (instance_name inst s)"
    "rr_type r = MDNS_TYPE_SRV" "rr_ttl r = (if bye then 0 else MDNS_ANSWER_SRV_TTL)" "rr_class r = 1" "rr_data_ptr r = pkt_index q - length (?f @ bs1)"
    using q(3) unfolding record_added_def by blast
  obtain a where a: "written q = a @ ?f @ bs1" "length a = rr_data_ptr r" "length (written q) = pkt_index q" "length (?f @ bs1) \<le> pkt_index q"
    using record_bytes [OF q(3,2)] r(6) by auto
  have u: "mdns_read_u16 (written q @ rest) (rr_data_ptr r) = Some (s_priority s)" "mdns_read_u16 (written q @ rest) (rr_data_ptr r + 2) = Some (s_weight s)"
    "mdns_read_u16 (written q @ rest) (rr_data_ptr r + 4) = Some (s_port s)"
    using read_u16_at [of "rr_data_ptr r" a "s_priority s"] read_u16_at [of "rr_data_ptr r + 2" "a @ be16 (s_priority s)" "s_weight s"]
      read_u16_at [of "rr_data_ptr r + 4" "a @ be16 (s_priority s) @ be16 (s_weight s)" "s_port s"] a(1,2) by simp_all
  have "rr_data_ptr r + 6 = pkt_index q - length bs1" using a(4) r(6) by simp
  then have "mdns_parse_fqdn (written q @ rest) (rr_data_ptr r + 6) = Some (Some (pkt_index q), m)" using q(5) by simp
  then have "read_rdata malloc_ok (written q @ rest) r = Some (Target (s_priority s) (s_weight s) (s_port s) m)"
    using r(3,6) u a(3,4) by (simp add: read_rdata_def read_target_def MDNS_TYPE_SRV_def MDNS_TYPE_PTR_def)
  then show ?thesis using q(1,4) record_added_keeps [OF q(3) assms(7) q(2)] r(1,2,4,5)
    by (intro exI [of _ q] exI [of _ r] exI [of _ m]) (simp add: MDNS_ANSWER_SRV_TTL_def)
qed

text \<open>The same for the pointer from a service type to an instance.\<close>

definition type_name :: "mdns_service \<Rightarrow> mdns_name" where
  "type_name s = empty_name\<lparr>n_service := s_service s, n_proto := s_proto s, n_domain := local_domain\<rparr>"

definition type_strings :: "mdns_service \<Rightarrow> bytes list" where
  "type_strings s = [s_service s, s_proto s, local_domain]"

lemma type_name_strings: "plain_name (type_name s) \<Longrightarrow> name_strings (type_name s) = type_strings s"
  by (auto simp: type_name_def plain_name_def name_strings_def empty_name_def local_domain_def ascii_def type_strings_def)

lemma ptr_record_is_added:
  assumes "plain_name (type_name s)" "plain_name (instance_name inst s)" "inst \<noteq> []"
    "length (pkt p) = MDNS_MAX_PACKET_SIZE"
    "pkt_index p + name_room (type_strings s) + 10 + name_room (instance_strings inst s) \<le> MDNS_MAX_PACKET_SIZE"
    "sound_matches (pkt_index p) (type_strings s) p"
    "sound_matches (pkt_index (after (mdns_append_fqdn (type_strings s)) p)) (instance_strings inst s)
       (after (mdns_append_type MDNS_ANSWER_PTR False (if bye then 0 else MDNS_ANSWER_PTR_TTL)) (after (mdns_append_fqdn (type_strings s)) p))"
  shows "\<exists>r d m. mdns_append_ptr_record (Some inst) (Some (s_service s)) (Some (s_proto s)) flush bye p = Some (pkt_index r - pkt_index p, r) \<and>
    pkt_index r \<le> MDNS_MAX_PACKET_SIZE \<and> record_added p (type_name s) MDNS_TYPE_PTR (if bye then 0 else MDNS_ANSWER_PTR_TTL) d r \<and>
    same_name m (instance_name inst s) \<and> (\<forall>rest. mdns_parse_fqdn (written r @ rest) (pkt_index r - length d) = Some (Some (pkt_index r), m))"
proof -
  have "s_service s \<noteq> []" using assms(1) by (auto simp: type_name_def plain_name_def empty_name_def)
  note ts = type_name_strings [OF assms(1)] and ins = instance_strings_of_name [OF assms(2,3) this]
  let ?ttl = "if bye then 0 else MDNS_ANSWER_PTR_TTL"
  have t: "(MDNS_ANSWER_PTR, MDNS_TYPE_PTR) \<in> set record_types" by (simp add: record_types_def)
  obtain bs q m where h: "\<And>k. part (mdns_append_fqdn (type_strings s)) (\<lambda>l1. part (mdns_append_type MDNS_ANSWER_PTR False ?ttl) (k l1)) p = k (length bs) 10 q"
    "grows p (bs @ record_head MDNS_TYPE_PTR False ?ttl 0) q" "length bs < name_room (type_strings s)" "same_name m (type_name s)"
    "\<forall>rest. mdns_parse_fqdn (written p @ bs @ rest) (pkt_index p) = Some (Some (pkt_index p + length bs), m)"
    "pkt_index (after (mdns_append_fqdn (type_strings s)) p) = pkt_index p + length bs"
    "q = after (mdns_append_type MDNS_ANSWER_PTR False ?ttl) (after (mdns_append_fqdn (type_strings s)) p)"
    using head_written [OF assms(1) _ assms(4) _ t, of False ?ttl] assms(5,6) ts by auto
  note i = grows_length [OF h(2)]
  obtain q1 d m1 where n: "mdns_append_fqdn (instance_strings inst s) q = Some (length d, q1)" "grows q d q1" "length d < name_room (instance_strings inst s)"
    "0 < length d" "same_name m1 (instance_name inst s)"
    "\<And>h' rest. length h' = length (record_head MDNS_TYPE_PTR False ?ttl 0) \<Longrightarrow>
       mdns_parse_fqdn ((written p @ bs @ h') @ d @ rest) (pkt_index q) = Some (Some (pkt_index q1), m1)"
    using data_name_written [OF assms(2) _ _ assms(4) h(6,2)] assms(5,7) ins h(3,7) i by auto
  note i1 = grows_length [OF n(2)]
  have i1': "pkt_index q1 \<le> MDNS_MAX_PACKET_SIZE" using i1 i n(3) h(3) assms(5) by simp
  obtain r where r: "mdns_set_u16 (pkt_index q - 2) (word_of_nat (length d)) q1 = Some r" "pkt_index r = pkt_index q1"
    "written r = (written p @ bs @ record_head MDNS_TYPE_PTR False ?ttl (word_of_nat (length d))) @ d"
    "record_added p (type_name s) MDNS_TYPE_PTR ?ttl d r"
    using record_complete [OF assms(4) h(2) n(2) i1' h(5,4)] by blast
  have "mdns_parse_fqdn (written r @ rest) (pkt_index r - length d) = Some (Some (pkt_index r), m1)" for rest
    using n(6) [of "record_head MDNS_TYPE_PTR False ?ttl (word_of_nat (length d))" rest] i1 r(2,3) by simp
  moreover have inner: "part (mdns_append_fqdn (instance_strings inst s)) k q = k (length d) q1" for k
    using n(3,4) plain_name_room [OF assms(2)] ins by (simp add: part_def n(1))
  have "append_strings [Some (s_service s), Some (s_proto s), Some local_domain] = mdns_append_fqdn (type_strings s)"
    "append_strings [Some inst, Some (s_service s), Some (s_proto s), Some local_domain] = mdns_append_fqdn (instance_strings inst s)"
    by (simp_all add: append_strings_def type_strings_def instance_strings_def fun_eq_iff)
  then have "mdns_append_ptr_record (Some inst) (Some (s_service s)) (Some (s_proto s)) flush bye p = Some ((length bs + 10 + length d) mod 2 ^ 16, r)"
    by (simp add: mdns_append_ptr_record_def h(1) with_data_len_def inner r(1))
  moreover have "(length bs + 10 + length d) mod 2 ^ 16 = pkt_index r - pkt_index p" using i i1 i1' r(2) by (simp add: MDNS_MAX_PACKET_SIZE_def)
  ultimately show ?thesis using r(2,4) i1' n(5) by (intro exI [of _ r] exI [of _ d] exI [of _ m1]) simp
qed

section \<open>TXT records\<close>

lemma txt_record_is_added:
  assumes "mdns_get_service_instance_name sv (Some s) = Some inst" "plain_name (instance_name inst s)" "inst \<noteq> []" "s_service s \<noteq> []"
    "s_txt s = map plain_entry es" "length (pkt p) = MDNS_MAX_PACKET_SIZE"
    "pkt_index p + name_room (instance_strings inst s) + 10 + length (entries_bytes es) \<le> MDNS_MAX_PACKET_SIZE"
    "sound_matches (pkt_index p) (instance_strings inst s) p"
  shows "\<exists>q. mdns_append_txt_record sv (Some s) flush bye p = Some (pkt_index q - pkt_index p, q) \<and> pkt_index q \<le> MDNS_MAX_PACKET_SIZE \<and>
    record_added p (instance_name inst s) MDNS_TYPE_TXT (if bye then 0 else MDNS_ANSWER_TXT_TTL) (if es = [] then [0] else entries_bytes es) q"
proof -
  note ins = instance_strings_of_name [OF assms(2-4)]
  let ?ttl = "if bye then 0 else MDNS_ANSWER_TXT_TTL" and ?d = "if es = [] then [0] else entries_bytes es"
  have t: "(MDNS_ANSWER_TXT, MDNS_TYPE_TXT) \<in> set record_types" by (simp add: record_types_def)
  obtain bs q m where h: "\<And>k. part (mdns_append_fqdn (instance_strings inst s)) (\<lambda>l1. part (mdns_append_type MDNS_ANSWER_TXT flush ?ttl) (k l1)) p = k (length bs) 10 q"
    "grows p (bs @ record_head MDNS_TYPE_TXT flush ?ttl 0) q" "length bs < name_room (instance_strings inst s)" "same_name m (instance_name inst s)"
    "\<forall>rest. mdns_parse_fqdn (written p @ bs @ rest) (pkt_index p) = Some (Some (pkt_index p + length bs), m)"
    using head_written [OF assms(2) _ assms(6) _ t, of flush ?ttl] assms(7,8) ins by auto
  note i = grows_length [OF h(2)]
  have small: "length (entries_bytes es) < 2 ^ 16" using assms(7) by (simp add: MDNS_MAX_PACKET_SIZE_def)
  have "pkt_index q + length (entries_bytes es) < MDNS_MAX_PACKET_SIZE" using i h(3) assms(7) by simp
  with entries_appended [OF _ this, of 0] i small obtain q0 where q0: "append_txt_entries (s_txt s) 0 q = Some (Some (length (entries_bytes es)), q0)"
    "grows q (entries_bytes es) q0" using assms(5) by (auto simp: grows_def written_def)
  have e: "length (entries_bytes es) = 0 \<longleftrightarrow> es = []" by (cases es) (simp_all add: entry_bytes_def)
  obtain q1 where q1: "(if es = [] then put_bytes [0] q0 else Some q0) = Some q1" "grows q ?d q1"
    using put_bytes_grows [of q0 "[0]"] grows_length [OF q0(2)] i h(3) assms(7) grows_trans [OF q0(2)] q0(2) by (cases "es = []") fastforce+
  have i1: "pkt_index q1 = pkt_index q + length ?d" "pkt_index q1 \<le> MDNS_MAX_PACKET_SIZE" using grows_length [OF q1(2)] i h(3) assms(7) by auto
  obtain r where r: "mdns_set_u16 (pkt_index q - 2) (word_of_nat (length ?d)) q1 = Some r" "pkt_index r = pkt_index q1"
    "record_added p (instance_name inst s) MDNS_TYPE_TXT ?ttl ?d r"
    using record_complete [OF assms(6) h(2) q1(2) i1(2) h(5,4)] by blast
  have "mdns_append_txt_record sv (Some s) flush bye p = Some ((length bs + 10 + length ?d) mod 2 ^ 16, r)"
    using q0(1) q1(1) r(1) e assms(1) by (simp add: mdns_append_txt_record_def h(1) [unfolded instance_strings_def] split: if_splits)
  moreover have "(length bs + 10 + length ?d) mod 2 ^ 16 = pkt_index r - pkt_index p" using i i1 r(2) by (simp add: MDNS_MAX_PACKET_SIZE_def)
  ultimately show ?thesis using r(2,3) i1(2) by auto
qed

lemma zero_is_no_item: "mdns_result_txt_create (\<lambda>_. True) [0] = Some []"
  by (simp add: mdns_result_txt_create_def mdns_txt_items_count_get_def)


section \<open>An example\<close>

definition example_service :: mdns_service where
  "example_service = \<lparr>s_instance = Some (ascii ''a''), s_service = ascii ''_ab'', s_proto = ascii ''_tcp'', s_hostname = None, s_priority = 0, s_weight = 0,
     s_port = 80, s_txt = map plain_entry [(ascii ''k'', ascii ''v'')], s_subtype = []\<rparr>"

definition example_server :: mdns_server where
  "example_server = \<lparr>sv_hostname = Some (ascii ''esp32x''), sv_instance = None, sv_services = (\<lambda>_. None), sv_self_host = \<lparr>h_hostname = None, h_addr = []\<rparr>,
     sv_hosts = []\<rparr>"

abbreviation example_start :: tx_packet where "example_start \<equiv> example_packet (replicate 12 0) []"

lemma example_names:
  "mdns_get_service_instance_name example_server (Some example_service) = Some (ascii ''a'')" "srv_target example_server example_service = Some (ascii ''esp32x'')"
  "plain_name (instance_name (ascii ''a'') example_service)" "plain_name (host_name (ascii ''esp32x''))" "ascii ''a'' \<noteq> []" "s_service example_service \<noteq> []"
  "instance_strings (ascii ''a'') example_service = [ascii ''a'', ascii ''_ab'', ascii ''_tcp'', ascii ''local'']"
  by (auto simp: mdns_get_service_instance_name_def example_service_def example_server_def str_null_or_empty_def srv_target_def plain_name_def instance_name_def
    host_name_def name_strings_def empty_name_def plain_label_def ascii_def local_domain_def strcaseeq_def lower_def instance_strings_def)

lemma example_first_name:
  "sound_matches limit (instance_strings (ascii ''a'') example_service) example_start \<and>
   (\<exists>l q. mdns_append_fqdn (instance_strings (ascii ''a'') example_service) example_start = Some (l, q) \<and>
     grows example_start ([1, 0x61, 3] @ ascii ''_ab'' @ [4] @ ascii ''_tcp'' @ [5] @ ascii ''local'' @ [0]) q)"
proof -
  have p: "length (pkt example_start) = MDNS_MAX_PACKET_SIZE" "pkt_index example_start = 12" "written example_start = replicate 12 0"
    by (simp_all add: example_packet_simps MDNS_MAX_PACKET_SIZE_def)
  have "fresh_labels [ascii ''a'', ascii ''_ab'', ascii ''_tcp'', ascii ''local''] (written example_start)"
    unfolding p by (simp add: fresh_labels_def plain_label_def ascii_def)
  from fresh_name_written [OF this p(1)] show ?thesis
    unfolding example_names(7) p(2) by (simp add: name_room_def ascii_def MDNS_MAX_PACKET_SIZE_def)
qed


lemma example_target_is_sound:
  "sound_matches (pkt_index (after (mdns_append_fqdn (instance_strings (ascii ''a'') example_service)) example_start)) [ascii ''esp32x'', local_domain]
     (srv_target_place (ascii ''a'') example_service False False example_start)"
proof -
  have p: "length (pkt example_start) = MDNS_MAX_PACKET_SIZE" "pkt_index example_start = 12" "written example_start = replicate 12 0"
    by (simp_all add: example_packet_simps MDNS_MAX_PACKET_SIZE_def)
  obtain l q where q: "mdns_append_fqdn (instance_strings (ascii ''a'') example_service) example_start = Some (l, q)"
     "grows example_start ([1, 0x61, 3] @ ascii ''_ab'' @ [4] @ ascii ''_tcp'' @ [5] @ ascii ''local'' @ [0]) q" using example_first_name by blast
  have i: "length (pkt q) = MDNS_MAX_PACKET_SIZE" "pkt_index q = 30" using q(2) p by (simp_all add: grows_def ascii_def)
  have t: "(MDNS_ANSWER_SRV, MDNS_TYPE_SRV) \<in> set record_types" by (simp add: record_types_def)
  obtain q1 where q1: "mdns_append_type MDNS_ANSWER_SRV False MDNS_ANSWER_SRV_TTL q = Some (10, q1)" "grows q (record_head MDNS_TYPE_SRV False MDNS_ANSWER_SRV_TTL 0) q1"
    using append_type_grows [OF i(1) _ t] i(2) by (auto simp: MDNS_MAX_PACKET_SIZE_def)
  have i1: "length (pkt q1) = MDNS_MAX_PACKET_SIZE" "pkt_index q1 = 40" using grows_length [OF q1(2)] i(2) by simp_all
  obtain a b c where c: "mdns_append_u16 0 q1 = Some (2, a)" "mdns_append_u16 0 a = Some (2, b)" "mdns_append_u16 80 b = Some (2, c)"
    "grows q1 (be16 0 @ be16 0 @ be16 80) c"
    using three_u16_grow [OF i1(1), of 0 0 80] i1(2) by (auto simp: MDNS_MAX_PACKET_SIZE_def)
  have fields: "s_priority example_service = 0" "s_weight example_service = 0" "s_port example_service = 80" by (simp_all add: example_service_def)
  have place: "srv_target_place (ascii ''a'') example_service False False example_start = c"
    by (simp add: srv_target_place_def after_def q(1) q1(1) c fields)
  have limit: "pkt_index (after (mdns_append_fqdn (instance_strings (ascii ''a'') example_service)) example_start) = 30" using q(1) i(2) by (simp add: after_def)
  let ?w = "replicate 12 0 @ ([1, 0x61, 3] @ ascii ''_ab'' @ [4] @ ascii ''_tcp'' @ [5] @ ascii ''local'' @ [0]) @
    record_head MDNS_TYPE_SRV False MDNS_ANSWER_SRV_TTL 0 @ be16 0 @ be16 0 @ be16 80"
  have c': "written c = ?w" "pkt_index c = 46" "length (pkt c) = MDNS_MAX_PACKET_SIZE"
    using q(2) q1(2) c(4) p i1 by (simp_all add: grows_def)
  have w: "?w = [0,0,0,0,0,0,0,0,0,0,0,0, 1, 0x61, 3, 0x5f, 0x61, 0x62, 4, 0x5f, 0x74, 0x63, 0x70, 5, 0x6c, 0x6f, 0x63, 0x61, 0x6c, 0,
      0, 0x21, 0, 1, 0, 0, 0, 0x78, 0, 0, 0, 0, 0, 0, 0, 80]"
    by code_simp
  have h: "plain_label (ascii ''esp32x'')" "length (ascii ''esp32x'') = 6" by (simp_all add: plain_label_def ascii_def)
  have none: "find_fqdn (pkt c) (pkt_index c) [ascii ''esp32x'', local_domain] 0 = Some None"
  proof (rule find_fqdn_none)
    show "word_of_nat (length (hd [ascii ''esp32x'', local_domain]) mod 256) \<notin> set (take (pkt_index c) (pkt c))"
      unfolding written_def [symmetric] c'(1) w using h(2) by simp
  qed (simp add: c' MDNS_MAX_PACKET_SIZE_def)
  obtain d where d: "mdns_append_string (ascii ''esp32x'') c = Some (7, d)" "grows c (6 # ascii ''esp32x'') d"
    using append_string_grows [OF c'(3) _ h(1)] c'(2) h(2) by (auto simp: MDNS_MAX_PACKET_SIZE_def)
  obtain tl where tl: "pkt d = (?w @ 6 # ascii ''esp32x'') @ tl" using d(2) c'(1) unfolding grows_def written_def by (metis append_take_drop_id)
  have di: "pkt_index d = 53" "length (pkt d) = MDNS_MAX_PACKET_SIZE" using d(2) c'(2) h(2) by (simp_all add: grows_def)
  let ?v = "?w @ 6 # ascii ''esp32x''"
  have at: "pkt d ! 23 = 5" "memcpy_from (pkt d) 24 5 = Some (ascii ''local'')" "word_of_nat (length local_domain mod 256) \<notin> set (take 23 (pkt d))"
    unfolding tl w by (simp_all add: memcpy_from_def ascii_def local_domain_def)
  have lab: "labelled (take 30 (pkt d)) 23 23 30 [Some (ascii ''local'')]"
    using name_label [of 23 "take 30 (pkt d)" "ascii ''local''" 23 30 "[]"] name_end [of 29 "take 30 (pkt d)" 23]
    unfolding tl w by (simp add: ascii_def label_at_def memcpy_from_def)
  have "labelled (take 30 (pkt d) @ drop 30 (pkt d)) 23 23 30 [Some (ascii ''local'')]" by (rule labels_prefix [OF lab])
  then have "read_fqdn (pkt d) 23 0 empty_name = Some (Some 30, foldl read_step empty_name [Some (ascii ''local'')])"
    by (intro read_labels) simp_all
  then have "mdns_read_fqdn (pkt d) 23 empty_name = Some (Some 30, empty_name\<lparr>n_host := ascii ''local'', n_parts := 1\<rparr>)"
    by (simp add: mdns_read_fqdn_def add_next_def mark_def add_label_def empty_name_def c_str_def ascii_def strcaseeq_def lower_def set_part_def)
  then have "find_fqdn (pkt d) (pkt_index d) [local_domain] 23 = Some (Some 23)"
    by (subst find_fqdn.simps) (simp add: at di local_domain_def ascii_def [of "''local''"] at(2) [unfolded ascii_def, simplified] same_strings_def name_part_def strcaseeq_def)
  then have found: "find_fqdn (pkt d) (pkt_index d) [local_domain] 0 = Some (Some 23)"
    using find_fqdn_skip [of "[local_domain]" 23 "pkt d" 0 "pkt_index d"] at(3) di by (simp add: MDNS_MAX_PACKET_SIZE_def)
  with found lab have "sound_match 30 d [local_domain]" by (fastforce simp: sound_match_def same_labels_def local_domain_def)
  then show ?thesis unfolding place limit using none d(1) found by (simp add: sound_match_def)
qed

lemma srv_record_is_read_back_witness:
  "\<exists>q r m. mdns_append_srv_record example_server (Some example_service) False False example_start = Some (pkt_index q - 12, q) \<and>
     read_record (written q) 12 = Some (Some (r, pkt_index q)) \<and> read_rdata (\<lambda>_. True) (written q) r = Some (Target 0 0 80 m) \<and>
     same_name m (host_name (ascii ''esp32x''))"
proof -
  have p: "length (pkt example_start) = MDNS_MAX_PACKET_SIZE" "pkt_index example_start = 12" by (simp_all add: example_packet_simps MDNS_MAX_PACKET_SIZE_def)
  have fields: "s_priority example_service = 0" "s_weight example_service = 0" "s_port example_service = 80" by (simp_all add: example_service_def)
  have room: "pkt_index example_start + name_room (instance_strings (ascii ''a'') example_service) + 16 + name_room [ascii ''esp32x'', local_domain]
    \<le> MDNS_MAX_PACKET_SIZE" unfolding example_names(7) p by (simp add: name_room_def ascii_def local_domain_def MDNS_MAX_PACKET_SIZE_def)
  note n = example_names
  from srv_record_is_read_back [OF n(1,2,3,5,6,4) p(1) room conjunct1 [OF example_first_name] example_target_is_sound, of "[]" "\<lambda>_. True"]
  show ?thesis unfolding fields p append_Nil2 by blast
qed

section \<open>A record that does not fit\<close>

text \<open>An address record whose name fits but whose address does not is not counted, but its beginning stays in the packet.\<close>

lemma unfitting_record_is_left_behind:
  assumes "plain_name (host_name h)" "sound_matches (pkt_index p) [h, local_domain] p" "length (pkt p) = MDNS_MAX_PACKET_SIZE"
    "pkt_index p + name_room [h, local_domain] + 10 \<le> MDNS_MAX_PACKET_SIZE"
    "pkt_index (after (mdns_append_fqdn [h, local_domain]) p) + 13 \<ge> MDNS_MAX_PACKET_SIZE"
  shows "\<exists>q. mdns_append_a_record (Some h) ip flush bye p = Some (0, q) \<and> pkt_index p + 10 < pkt_index q"
proof -
  note hs = host_name_strings [OF assms(1)]
  let ?ttl = "if bye then 0 else MDNS_ANSWER_A_TTL"
  have t: "(MDNS_ANSWER_A, MDNS_TYPE_A) \<in> set record_types" by (simp add: record_types_def)
  obtain bs q m where h: "\<And>k. part (mdns_append_fqdn [h, local_domain]) (\<lambda>l1. part (mdns_append_type MDNS_ANSWER_A flush ?ttl) (k l1)) p = k (length bs) 10 q"
    "grows p (bs @ record_head MDNS_TYPE_A flush ?ttl 0) q"
    "\<forall>rest. mdns_parse_fqdn (written p @ bs @ rest) (pkt_index p) = Some (Some (pkt_index p + length bs), m)"
    "pkt_index (after (mdns_append_fqdn [h, local_domain]) p) = pkt_index p + length bs"
    using head_written [OF assms(1) _ assms(3) _ t, of flush ?ttl] assms(2,4) hs by auto
  have "0 < length bs" using parse_fqdn_advances h(3) by fastforce
  with grows_length [OF h(2)] show ?thesis using hs h(4) assms(5)
    by (simp add: mdns_append_a_record_def str_null_or_empty_def h(1))
qed

end
