(* ===== verification/MdnsSend.thy ===== *)
theory MdnsSend
  imports MdnsPacket
begin

text \<open>
  Probing, announcing and the queue of packets of the mDNS responder (managed_components/espressif__mdns/mdns.c). An interface with a protocol is a state machine that is driven by the
  packets it sends: three probes, three announcements, running. Strings in questions are references into the server, as the pointers of the code are; two questions are the same if
  they hold the same references. Allocations are answered by a function of their number. A result \<open>None\<close> is a null pointer that is read.
\<close>

section \<open>State\<close>

datatype pcb_state = PCB_OFF | PCB_DUP | PCB_INIT | PCB_PROBE_1 | PCB_PROBE_2 | PCB_PROBE_3 | PCB_ANNOUNCE_1 | PCB_ANNOUNCE_2 | PCB_ANNOUNCE_3 | PCB_RUNNING

fun pcb_code :: "pcb_state \<Rightarrow> nat" where
  "pcb_code PCB_OFF = 0"
| "pcb_code PCB_DUP = 1"
| "pcb_code PCB_INIT = 2"
| "pcb_code PCB_PROBE_1 = 3"
| "pcb_code PCB_PROBE_2 = 4"
| "pcb_code PCB_PROBE_3 = 5"
| "pcb_code PCB_ANNOUNCE_1 = 6"
| "pcb_code PCB_ANNOUNCE_2 = 7"
| "pcb_code PCB_ANNOUNCE_3 = 8"
| "pcb_code PCB_RUNNING = 9"

text \<open>A duplicate interface, and one that is not started, count as probing.\<close>

definition is_probing :: "pcb_state \<Rightarrow> bool" where
  "is_probing s \<longleftrightarrow> pcb_code s > pcb_code PCB_OFF \<and> pcb_code s < pcb_code PCB_ANNOUNCE_1"

definition is_announcing :: "pcb_state \<Rightarrow> bool" where
  "is_announcing s \<longleftrightarrow> pcb_code s > pcb_code PCB_PROBE_3 \<and> pcb_code s < pcb_code PCB_RUNNING"

datatype str_ref = ServerHostname | ServerInstance | SvcInstance nat | SvcHostname nat | SvcService nat | SvcProto nat | LocalDomain | Copied bytes

record question_ref =
  k_type :: u16
  k_unicast :: bool
  k_host :: "str_ref option"
  k_service :: "str_ref option"
  k_proto :: "str_ref option"
  k_domain :: "str_ref option"

text \<open>An interface and whether the protocol is version 6.\<close>

type_synonym pcb_id = "nat \<times> bool"

record tx =
  x_addr :: nat
  x_send_at :: u32
  x_pcb :: pcb_id
  x_port :: u16
  x_flags :: u16
  x_distributed :: bool
  x_questions :: "question_ref list"
  x_answers :: "out_answer list"
  x_servers :: "out_answer list"
  x_additional :: "out_answer list"
  x_queued :: bool
  x_id :: u16

record pcb =
  p_state :: pcb_state
  p_services :: "nat list"
  p_probe_ip :: bool
  p_probe_running :: bool
  p_failed_probes :: u16

text \<open>The server with its services in order, the interfaces that are ready, the queue, the addresses of packets to be handled, and what was sent.\<close>

record responder =
  r_server :: mdns_server
  r_items :: "nat list"
  r_ifs :: "pcb_id list"
  r_ready :: "pcb_id \<Rightarrow> bool"
  r_pcbs :: "pcb_id \<Rightarrow> pcb"
  r_queue :: "tx list"
  r_actions :: "nat list"
  r_sent :: "tx list"

definition set_pcb :: "pcb_id \<Rightarrow> pcb \<Rightarrow> responder \<Rightarrow> responder" where
  "set_pcb i p r = r\<lparr>r_pcbs := (r_pcbs r)(i := p)\<rparr>"

definition set_state :: "pcb_id \<Rightarrow> pcb_state \<Rightarrow> responder \<Rightarrow> responder" where
  "set_state i s r = set_pcb i ((r_pcbs r i)\<lparr>p_state := s\<rparr>) r"

section \<open>The queue\<close>

text \<open>Times are compared as they are, without a thought of their wrapping.\<close>

fun insert_tx :: "tx \<Rightarrow> tx list \<Rightarrow> tx list" where
  "insert_tx p [] = [p]"
| "insert_tx p (q # qs) = (if x_send_at q > x_send_at p then p # q # qs else q # insert_tx p qs)"

definition mdns_schedule_tx_packet :: "u32 \<Rightarrow> tx \<Rightarrow> u32 \<Rightarrow> responder \<Rightarrow> responder" where
  "mdns_schedule_tx_packet now p ms_after r = r\<lparr>r_queue := insert_tx (p\<lparr>x_send_at := now + ms_after\<rparr>) (r_queue r)\<rparr>"

definition mdns_clear_tx_queue_head :: "responder \<Rightarrow> responder" where
  "mdns_clear_tx_queue_head r = r\<lparr>r_queue := []\<rparr>"

definition mdns_clear_pcb_tx_queue_head :: "pcb_id \<Rightarrow> responder \<Rightarrow> responder" where
  "mdns_clear_pcb_tx_queue_head i r =
     r\<lparr>r_queue := (case dropWhile (\<lambda>q. x_pcb q = i) (r_queue r) of [] \<Rightarrow> [] | q # qs \<Rightarrow> q # filter (\<lambda>p. x_pcb p \<noteq> i) qs)\<rparr>"

text \<open>The place in the queue of the next packet of an interface.\<close>

fun mdns_get_next_pcb_packet :: "pcb_id \<Rightarrow> tx list \<Rightarrow> nat option" where
  "mdns_get_next_pcb_packet i [] = None"
| "mdns_get_next_pcb_packet i (q # qs) = (if x_pcb q = i then Some 0 else map_option Suc (mdns_get_next_pcb_packet i qs))"

section \<open>Answers\<close>

type_synonym mem = "nat \<Rightarrow> bool"

text \<open>An answer that is in the list already is not added again. The flag tells whether the memory was there.\<close>

definition mdns_alloc_answer ::
    "mem \<Rightarrow> u16 \<Rightarrow> nat option \<Rightarrow> host_ref option \<Rightarrow> bool \<Rightarrow> bool \<Rightarrow> nat \<times> out_answer list \<Rightarrow> bool \<times> nat \<times> out_answer list" where
  "mdns_alloc_answer m type service host flush bye = (\<lambda>(n, dest).
     if list_ex (\<lambda>d. an_type d = type \<and> an_service d = service \<and> an_host d = host) dest then (True, n, dest)
     else if \<not> m n then (False, n + 1, dest)
     else (True, n + 1, dest @ [\<lparr>an_type = type, an_bye = bye, an_flush = flush, an_service = service, an_host = host, an_custom_instance = None,
       an_custom_service = None, an_custom_proto = None\<rparr>]))"

definition and_then :: "('s \<Rightarrow> bool \<times> 's) \<Rightarrow> ('s \<Rightarrow> bool \<times> 's) \<Rightarrow> 's \<Rightarrow> bool \<times> 's" where
  "and_then f g s = (case f s of (True, s1) \<Rightarrow> g s1 | (False, s1) \<Rightarrow> (False, s1))"

fun dealloc_first :: "u16 \<Rightarrow> nat option \<Rightarrow> out_answer list \<Rightarrow> out_answer list" where
  "dealloc_first type service [] = []"
| "dealloc_first type service (a # as) = (if an_type a = type \<and> an_service a = service then as else a # dealloc_first type service as)"

definition mdns_dealloc_answer :: "out_answer list \<Rightarrow> u16 \<Rightarrow> nat option \<Rightarrow> out_answer list" where
  "mdns_dealloc_answer dest type service = dealloc_first type service dest"

text \<open>The host of a name: the own one for no name. Without an own name there is nothing to compare with.\<close>

fun find_host :: "bytes \<Rightarrow> (nat \<times> mdns_host) list \<Rightarrow> host_ref option option" where
  "find_host name [] = Some None"
| "find_host name ((i, h) # hs) =
     (case h_hostname h of None \<Rightarrow> None | Some n \<Rightarrow> if strcaseeq n name then Some (Some (Delegated i)) else find_host name hs)"

definition mdns_get_host_item :: "mdns_server \<Rightarrow> bytes option \<Rightarrow> host_ref option option" where
  "mdns_get_host_item sv hostname =
     (case hostname of None \<Rightarrow> Some (Some SelfHost)
      | Some name \<Rightarrow>
          (case sv_hostname sv of None \<Rightarrow> None
           | Some own \<Rightarrow> if strcaseeq name own then Some (Some SelfHost) else find_host name (sv_hosts sv)))"

definition mdns_append_host :: "mem \<Rightarrow> host_ref option \<Rightarrow> bool \<Rightarrow> bool \<Rightarrow> nat \<times> out_answer list \<Rightarrow> bool \<times> nat \<times> out_answer list" where
  "mdns_append_host m host flush bye = and_then (mdns_alloc_answer m MDNS_TYPE_A None host flush bye) (mdns_alloc_answer m MDNS_TYPE_AAAA None host flush bye)"

definition service_hostname :: "mdns_server \<Rightarrow> nat \<Rightarrow> bytes option" where
  "service_hostname sv i = Option.bind (sv_services sv i) s_hostname"

fun append_hosts :: "mem \<Rightarrow> mdns_server \<Rightarrow> nat list \<Rightarrow> bool \<Rightarrow> bool \<Rightarrow> nat \<times> out_answer list \<Rightarrow> (bool \<times> nat \<times> out_answer list) option" where
  "append_hosts m sv [] flush bye d = Some (True, d)"
| "append_hosts m sv (i # is) flush bye d =
     (case mdns_get_host_item sv (service_hostname sv i) of None \<Rightarrow> None
      | Some host \<Rightarrow> (case mdns_append_host m host flush bye d of (True, d1) \<Rightarrow> append_hosts m sv is flush bye d1 | (False, d1) \<Rightarrow> Some (False, d1)))"

text \<open>No services is the null pointer.\<close>

definition mdns_append_host_list_in_services ::
    "mem \<Rightarrow> mdns_server \<Rightarrow> nat list \<Rightarrow> bool \<Rightarrow> bool \<Rightarrow> nat \<times> out_answer list \<Rightarrow> (bool \<times> nat \<times> out_answer list) option" where
  "mdns_append_host_list_in_services m sv services flush bye d =
     (if services = [] then
        map_option (\<lambda>host. case host of None \<Rightarrow> (True, d) | Some h \<Rightarrow> mdns_append_host m (Some h) flush bye d) (mdns_get_host_item sv (sv_hostname sv))
      else append_hosts m sv services flush bye d)"

section \<open>Questions\<close>

definition mdns_question_exists :: "question_ref \<Rightarrow> question_ref list \<Rightarrow> bool" where
  "mdns_question_exists needle haystack =
     list_ex (\<lambda>h. k_type h = k_type needle \<and> k_host h = k_host needle \<and> k_service h = k_service needle \<and> k_proto h = k_proto needle) haystack"

definition MDNS_TYPE_ANY :: u16 where "MDNS_TYPE_ANY = 0x00FF"

definition mdns_append_host_question :: "mem \<Rightarrow> str_ref option \<Rightarrow> bool \<Rightarrow> nat \<times> question_ref list \<Rightarrow> bool \<times> nat \<times> question_ref list" where
  "mdns_append_host_question m hostname unicast = (\<lambda>(n, qs).
     if \<not> m n then (False, n + 1, qs)
     else
       let q = \<lparr>k_type = MDNS_TYPE_ANY, k_unicast = unicast, k_host = hostname, k_service = None, k_proto = None, k_domain = Some LocalDomain\<rparr> in
       (True, n + 1, if mdns_question_exists q qs then qs else qs @ [q]))"

definition hostname_ref :: "mdns_server \<Rightarrow> nat \<Rightarrow> str_ref option" where
  "hostname_ref sv i = (if service_hostname sv i = None then None else Some (SvcHostname i))"

fun service_host_questions :: "mem \<Rightarrow> mdns_server \<Rightarrow> nat list \<Rightarrow> bool \<Rightarrow> nat \<times> question_ref list \<Rightarrow> bool \<times> nat \<times> question_ref list" where
  "service_host_questions m sv [] unicast d = (True, d)"
| "service_host_questions m sv (i # is) unicast d =
     and_then (mdns_append_host_question m (hostname_ref sv i) unicast) (service_host_questions m sv is unicast) d"

definition mdns_append_host_questions_for_services ::
    "mem \<Rightarrow> mdns_server \<Rightarrow> nat list \<Rightarrow> bool \<Rightarrow> nat \<times> question_ref list \<Rightarrow> bool \<times> nat \<times> question_ref list" where
  "mdns_append_host_questions_for_services m sv services unicast =
     (if \<not> str_null_or_empty (sv_hostname sv) then
        and_then (mdns_append_host_question m (Some ServerHostname) unicast) (service_host_questions m sv services unicast)
      else service_host_questions m sv services unicast)"

text \<open>Which string the instance name of a service is.\<close>

definition instance_ref :: "mdns_server \<Rightarrow> nat \<Rightarrow> str_ref option" where
  "instance_ref sv i =
     (if \<not> str_null_or_empty (Option.bind (sv_services sv i) s_instance) then Some (SvcInstance i)
      else if \<not> str_null_or_empty (sv_instance sv) then Some ServerInstance
      else if \<not> str_null_or_empty (sv_hostname sv) then Some ServerHostname else None)"

section \<open>Packets\<close>

definition MDNS_SERVICE_PORT :: u16 where "MDNS_SERVICE_PORT = 5353"
definition MDNS_FLAGS_QR_AUTHORITATIVE :: u16 where "MDNS_FLAGS_QR_AUTHORITATIVE = 0x8400"

definition mdns_alloc_packet_default :: "nat \<Rightarrow> pcb_id \<Rightarrow> tx" where
  "mdns_alloc_packet_default addr i =
     \<lparr>x_addr = addr, x_send_at = 0, x_pcb = i, x_port = MDNS_SERVICE_PORT, x_flags = 0, x_distributed = False, x_questions = [], x_answers = [],
      x_servers = [], x_additional = [], x_queued = False, x_id = 0\<rparr>"

text \<open>The questions and the service records of a probe.\<close>

fun probe_services :: "mem \<Rightarrow> mdns_server \<Rightarrow> nat list \<Rightarrow> bool \<Rightarrow> nat \<Rightarrow> question_ref list \<Rightarrow> out_answer list \<Rightarrow> (nat \<times> question_ref list \<times> out_answer list) option" where
  "probe_services m sv [] first n qs servers = Some (n, qs, servers)"
| "probe_services m sv (i # is) first n qs servers =
     (if \<not> m n then None
      else
        let q = \<lparr>k_type = MDNS_TYPE_ANY, k_unicast = first, k_host = instance_ref sv i, k_service = Some (SvcService i), k_proto = Some (SvcProto i),
                 k_domain = Some LocalDomain\<rparr> in
        if k_host q = None \<or> mdns_question_exists q qs then probe_services m sv is first (n + 1) qs servers
        else
          (case mdns_alloc_answer m MDNS_TYPE_SRV (Some i) None False False (n + 1, servers) of
             (False, _, _) \<Rightarrow> None
           | (True, n1, servers1) \<Rightarrow> probe_services m sv is first n1 (qs @ [q]) servers1))"

text \<open>The inner option is whether the memory was there.\<close>

definition mdns_create_probe_packet :: "mem \<Rightarrow> nat \<Rightarrow> mdns_server \<Rightarrow> pcb_id \<Rightarrow> nat list \<Rightarrow> bool \<Rightarrow> bool \<Rightarrow> tx option option" where
  "mdns_create_probe_packet m addr sv i services first include_ip =
     (if \<not> m 0 then Some None
      else
        let packet = mdns_alloc_packet_default addr i in
        (case probe_services m sv services first 1 [] [] of None \<Rightarrow> Some None
         | Some (n, qs, servers) \<Rightarrow>
             if include_ip then
               (case mdns_append_host_questions_for_services m sv services first (n, qs) of
                  (False, _, _) \<Rightarrow> Some None
                | (True, n1, qs1) \<Rightarrow>
                    map_option (\<lambda>(ok, _, servers1). if ok then Some (packet\<lparr>x_questions := qs1, x_servers := servers1\<rparr>) else None)
                      (mdns_append_host_list_in_services m sv services False False (n1, servers)))
             else Some (Some (packet\<lparr>x_questions := qs, x_servers := servers\<rparr>))))"

text \<open>The four records of a service.\<close>

definition service_answers :: "mem \<Rightarrow> nat \<Rightarrow> nat \<times> out_answer list \<Rightarrow> bool \<times> nat \<times> out_answer list" where
  "service_answers m i =
     and_then (mdns_alloc_answer m MDNS_TYPE_SDPTR (Some i) None False False)
       (and_then (mdns_alloc_answer m MDNS_TYPE_PTR (Some i) None False False)
         (and_then (mdns_alloc_answer m MDNS_TYPE_SRV (Some i) None True False) (mdns_alloc_answer m MDNS_TYPE_TXT (Some i) None True False)))"

fun services_answers :: "mem \<Rightarrow> nat list \<Rightarrow> nat \<times> out_answer list \<Rightarrow> bool \<times> nat \<times> out_answer list" where
  "services_answers m [] d = (True, d)"
| "services_answers m (i # is) d = and_then (service_answers m i) (services_answers m is) d"

definition mdns_create_announce_packet :: "mem \<Rightarrow> nat \<Rightarrow> mdns_server \<Rightarrow> pcb_id \<Rightarrow> nat list \<Rightarrow> bool \<Rightarrow> tx option option" where
  "mdns_create_announce_packet m addr sv i services include_ip =
     (if \<not> m 0 then Some None
      else
        let packet = (mdns_alloc_packet_default addr i)\<lparr>x_flags := MDNS_FLAGS_QR_AUTHORITATIVE\<rparr> in
        (case services_answers m services (1, []) of (False, _, _) \<Rightarrow> Some None
         | (True, n, answers) \<Rightarrow>
             if include_ip then
               map_option (\<lambda>(ok, _, servers). if ok then Some (packet\<lparr>x_answers := answers, x_servers := servers\<rparr>) else None)
                 (mdns_append_host_list_in_services m sv services True False (n, []))
             else Some (Some (packet\<lparr>x_answers := answers\<rparr>))))"

fun announce_servers :: "mem \<Rightarrow> mdns_server \<Rightarrow> out_answer list \<Rightarrow> nat \<times> out_answer list \<Rightarrow> (bool \<times> nat \<times> out_answer list) option" where
  "announce_servers m sv [] d = Some (True, d)"
| "announce_servers m sv (s # ss) d =
     (if an_type s = MDNS_TYPE_SRV then
        (case an_service s of None \<Rightarrow> None
         | Some i \<Rightarrow>
             (case service_answers m i d of (False, d1) \<Rightarrow> Some (False, d1)
              | (True, d1) \<Rightarrow>
                  (case mdns_get_host_item sv (service_hostname sv i) of None \<Rightarrow> None
                   | Some host \<Rightarrow>
                       (case mdns_append_host m host True False d1 of (False, d2) \<Rightarrow> Some (False, d2)
                        | (True, d2) \<Rightarrow> announce_servers m sv ss d2))))
      else if an_type s = MDNS_TYPE_A \<or> an_type s = MDNS_TYPE_AAAA then
        (case mdns_alloc_answer m (an_type s) None (an_host s) True False d of (False, d1) \<Rightarrow> Some (False, d1)
         | (True, d1) \<Rightarrow> announce_servers m sv ss d1)
      else announce_servers m sv ss d)"

definition mdns_create_announce_from_probe :: "mem \<Rightarrow> nat \<Rightarrow> mdns_server \<Rightarrow> tx \<Rightarrow> tx option option" where
  "mdns_create_announce_from_probe m addr sv probe =
     (if \<not> m 0 then Some None
      else
        map_option (\<lambda>(ok, _, answers).
            if ok then Some ((mdns_alloc_packet_default addr (x_pcb probe))\<lparr>x_flags := MDNS_FLAGS_QR_AUTHORITATIVE, x_answers := answers\<rparr>) else None)
          (announce_servers m sv (x_servers probe) (1, [])))"

text \<open>What the references of a packet stand for when its bytes are written.\<close>

fun string_at :: "mdns_server \<Rightarrow> str_ref \<Rightarrow> bytes option" where
  "string_at sv ServerHostname = sv_hostname sv"
| "string_at sv ServerInstance = sv_instance sv"
| "string_at sv (SvcInstance i) = Option.bind (sv_services sv i) s_instance"
| "string_at sv (SvcHostname i) = service_hostname sv i"
| "string_at sv (SvcService i) = map_option s_service (sv_services sv i)"
| "string_at sv (SvcProto i) = map_option s_proto (sv_services sv i)"
| "string_at sv LocalDomain = Some local_domain"
| "string_at sv (Copied s) = Some s"

definition question_out :: "mdns_server \<Rightarrow> question_ref \<Rightarrow> out_question" where
  "question_out sv q =
     \<lparr>q_type = k_type q, q_unicast = k_unicast q, q_host = Option.bind (k_host q) (string_at sv), q_service = Option.bind (k_service q) (string_at sv),
      q_proto = Option.bind (k_proto q) (string_at sv), q_domain = Option.bind (k_domain q) (string_at sv)\<rparr>"

definition tx_out :: "mdns_server \<Rightarrow> tx \<Rightarrow> out_packet" where
  "tx_out sv p =
     \<lparr>o_tcpip_if = fst (x_pcb p), o_flags = x_flags p, o_id = x_id p, o_questions = map (question_out sv) (x_questions p), o_answers = x_answers p,
      o_servers = x_servers p, o_additional = x_additional p\<rparr>"

section \<open>Probing\<close>

text \<open>The list of services to probe is built in memory that is counted for the old services only if the interface is probing, but they are copied whenever there are any.\<close>

definition joined_services :: "mem \<Rightarrow> pcb \<Rightarrow> nat list \<Rightarrow> (nat list \<times> mem) option option" where
  "joined_services m p services =
     (let final_len = length services + (if is_probing (p_state p) then length (p_services p) else 0) in
      if final_len = 0 then Some (Some ([], m))
      else if \<not> m 0 then Some None
      else if final_len < length services + length (p_services p) then None
      else Some (Some (services @ p_services p, \<lambda>k. m (Suc k))))"

definition mdns_init_pcb_probe_new_service ::
    "mem \<Rightarrow> nat \<Rightarrow> u32 \<Rightarrow> u32 \<Rightarrow> pcb_id \<Rightarrow> nat list \<Rightarrow> bool \<Rightarrow> responder \<Rightarrow> responder option" where
  "mdns_init_pcb_probe_new_service m addr now random i services probe_ip r =
     (let p = r_pcbs r i in
      case joined_services m p services of None \<Rightarrow> None
      | Some None \<Rightarrow> Some r
      | Some (Some (all, m1)) \<Rightarrow>
          let ip = p_probe_ip p \<or> probe_ip;
              cleared = p\<lparr>p_services := [], p_probe_ip := False, p_probe_running := False\<rparr> in
          (case mdns_create_probe_packet m1 addr (r_server r) i all True ip of None \<Rightarrow> None
           | Some None \<Rightarrow> Some (set_pcb i cleared r)
           | Some (Some packet) \<Rightarrow>
               Some (set_pcb i (cleared\<lparr>p_state := PCB_PROBE_1, p_services := all, p_probe_ip := ip, p_probe_running := True\<rparr>)
                 (mdns_schedule_tx_packet now packet ((if p_failed_probes p > 5 then 1000 else 120) + (random AND 0x7F)) r))))"

definition mdns_init_pcb_probe :: "mem \<Rightarrow> nat \<Rightarrow> u32 \<Rightarrow> u32 \<Rightarrow> pcb_id \<Rightarrow> nat list \<Rightarrow> bool \<Rightarrow> responder \<Rightarrow> responder option" where
  "mdns_init_pcb_probe m addr now random i services probe_ip r =
     (let r1 = mdns_clear_pcb_tx_queue_head i r; p = r_pcbs r1 i in
      if str_null_or_empty (sv_hostname (r_server r1)) then Some (set_state i PCB_RUNNING r1)
      else if is_probing (p_state p) then
        mdns_init_pcb_probe_new_service m addr now random i (filter (\<lambda>s. s \<notin> set (p_services p)) services) probe_ip r1
      else mdns_init_pcb_probe_new_service m addr now random i services probe_ip r1)"

definition mdns_restart_pcb :: "mem \<Rightarrow> nat \<Rightarrow> u32 \<Rightarrow> u32 \<Rightarrow> pcb_id \<Rightarrow> responder \<Rightarrow> responder option" where
  "mdns_restart_pcb m addr now random i r = mdns_init_pcb_probe m addr now random i (r_items r) True r"

text \<open>The same on every interface that is ready. Each has its own memory, address and random number.\<close>

record chances =
  c_mem :: "pcb_id \<Rightarrow> mem"
  c_addr :: "pcb_id \<Rightarrow> nat"
  c_random :: "pcb_id \<Rightarrow> u32"

definition probe_one :: "chances \<Rightarrow> u32 \<Rightarrow> nat list \<Rightarrow> bool \<Rightarrow> bool \<Rightarrow> pcb_id \<Rightarrow> responder \<Rightarrow> responder option" where
  "probe_one c now services probe_ip clear_old i r =
     (if r_ready r i then
        let r1 = (if clear_old then set_pcb i ((r_pcbs r i)\<lparr>p_services := [], p_probe_running := False\<rparr>) r else r) in
        mdns_init_pcb_probe (c_mem c i) (c_addr c i) now (c_random c i) i services probe_ip r1
      else Some r)"

fun on_pcbs :: "(pcb_id \<Rightarrow> responder \<Rightarrow> responder option) \<Rightarrow> pcb_id list \<Rightarrow> responder \<Rightarrow> responder option" where
  "on_pcbs f [] r = Some r"
| "on_pcbs f (i # is) r = Option.bind (f i r) (on_pcbs f is)"

definition mdns_probe_all_pcbs :: "chances \<Rightarrow> u32 \<Rightarrow> nat list \<Rightarrow> bool \<Rightarrow> bool \<Rightarrow> responder \<Rightarrow> responder option" where
  "mdns_probe_all_pcbs c now services probe_ip clear_old r = on_pcbs (probe_one c now services probe_ip clear_old) (r_ifs r) r"

definition mdns_restart_all_pcbs :: "chances \<Rightarrow> u32 \<Rightarrow> responder \<Rightarrow> responder option" where
  "mdns_restart_all_pcbs c now r = mdns_probe_all_pcbs c now (r_items r) True True (mdns_clear_tx_queue_head r)"

definition no_instance :: "responder \<Rightarrow> nat list" where
  "no_instance r = filter (\<lambda>i. Option.bind (sv_services (r_server r) i) s_instance = None) (r_items r)"

definition mdns_restart_all_pcbs_no_instance :: "chances \<Rightarrow> u32 \<Rightarrow> responder \<Rightarrow> responder option" where
  "mdns_restart_all_pcbs_no_instance c now r =
     (if no_instance r = [] then Some r else mdns_probe_all_pcbs c now (no_instance r) False True r)"

section \<open>Announcing\<close>

text \<open>The next packet of the interface gets the records of the services, as far as the memory goes.\<close>

definition extend_announcement :: "mem \<Rightarrow> mdns_server \<Rightarrow> nat list \<Rightarrow> bool \<Rightarrow> tx \<Rightarrow> tx option" where
  "extend_announcement m sv services include_ip p =
     (case services_answers m services (0, x_answers p) of (_, n, answers) \<Rightarrow>
        if include_ip then
          map_option (\<lambda>(_, _, answers1).
              p\<lparr>x_additional := mdns_dealloc_answer (mdns_dealloc_answer (x_additional p) MDNS_TYPE_A None) MDNS_TYPE_AAAA None, x_answers := answers1\<rparr>)
            (mdns_append_host_list_in_services m sv services True False (n, answers))
        else Some (p\<lparr>x_answers := answers\<rparr>))"

definition mdns_announce_pcb :: "mem \<Rightarrow> nat \<Rightarrow> u32 \<Rightarrow> u32 \<Rightarrow> pcb_id \<Rightarrow> nat list \<Rightarrow> bool \<Rightarrow> responder \<Rightarrow> responder option" where
  "mdns_announce_pcb m addr now random i services include_ip r =
     (let state = p_state (r_pcbs r i) in
      if \<not> r_ready r i then Some r
      else if is_probing state then mdns_init_pcb_probe m addr now random i services include_ip r
      else if is_announcing state then
        (case mdns_get_next_pcb_packet i (r_queue r) of None \<Rightarrow> Some r
         | Some k \<Rightarrow>
             map_option (\<lambda>p. set_state i PCB_ANNOUNCE_1 (r\<lparr>r_queue := (r_queue r)[k := p]\<rparr>))
               (extend_announcement m (r_server r) services include_ip (r_queue r ! k)))
      else if state = PCB_RUNNING then
        if str_null_or_empty (sv_hostname (r_server r)) then Some r
        else
          let r1 = set_state i PCB_ANNOUNCE_1 r in
          map_option (\<lambda>packet. case packet of None \<Rightarrow> r1 | Some p \<Rightarrow> mdns_schedule_tx_packet now p 0 r1)
            (mdns_create_announce_packet m addr (r_server r) i services include_ip)
      else Some r)"

definition mdns_announce_all_pcbs :: "chances \<Rightarrow> u32 \<Rightarrow> nat list \<Rightarrow> bool \<Rightarrow> responder \<Rightarrow> responder option" where
  "mdns_announce_all_pcbs c now services include_ip r =
     on_pcbs (\<lambda>i. mdns_announce_pcb (c_mem c i) (c_addr c i) now (c_random c i) i services include_ip) (r_ifs r) r"

section \<open>Goodbyes\<close>

definition dispatch :: "tx \<Rightarrow> responder \<Rightarrow> responder" where
  "dispatch p r = r\<lparr>r_sent := r_sent r @ [p]\<rparr>"

fun bye_answers :: "mem \<Rightarrow> nat list \<Rightarrow> nat \<times> out_answer list \<Rightarrow> bool \<times> nat \<times> out_answer list" where
  "bye_answers m [] d = (True, d)"
| "bye_answers m (i # is) d = and_then (mdns_alloc_answer m MDNS_TYPE_PTR (Some i) None True True) (bye_answers m is) d"

definition mdns_pcb_send_bye :: "mem \<Rightarrow> nat \<Rightarrow> pcb_id \<Rightarrow> nat list \<Rightarrow> bool \<Rightarrow> responder \<Rightarrow> responder option" where
  "mdns_pcb_send_bye m addr i services include_ip r =
     (if \<not> m 0 then Some r
      else
        let packet = (mdns_alloc_packet_default addr i)\<lparr>x_flags := MDNS_FLAGS_QR_AUTHORITATIVE\<rparr> in
        (case bye_answers m services (1, []) of (False, _, _) \<Rightarrow> Some r
         | (True, n, answers) \<Rightarrow>
             if include_ip then
               map_option (\<lambda>(_, _, answers1). dispatch (packet\<lparr>x_answers := answers1\<rparr>) r)
                 (mdns_append_host_list_in_services m (r_server r) services True True (n, answers))
             else Some (dispatch (packet\<lparr>x_answers := answers\<rparr>) r)))"

definition mdns_send_bye :: "chances \<Rightarrow> nat list \<Rightarrow> bool \<Rightarrow> responder \<Rightarrow> responder option" where
  "mdns_send_bye c services include_ip r =
     (if str_null_or_empty (sv_hostname (r_server r)) then Some r
      else on_pcbs (\<lambda>i r. if r_ready r i \<and> p_state (r_pcbs r i) = PCB_RUNNING
                          then mdns_pcb_send_bye (c_mem c i) (c_addr c i) i services include_ip r else Some r) (r_ifs r) r)"

definition mdns_send_final_bye :: "chances \<Rightarrow> bool \<Rightarrow> responder \<Rightarrow> responder option" where
  "mdns_send_final_bye c include_ip r = (if r_items r = [] then Some r else mdns_send_bye c (r_items r) include_ip r)"

definition mdns_send_bye_all_pcbs_no_instance :: "chances \<Rightarrow> bool \<Rightarrow> responder \<Rightarrow> responder option" where
  "mdns_send_bye_all_pcbs_no_instance c include_ip r = (if no_instance r = [] then Some r else mdns_send_bye c (no_instance r) include_ip r)"

section \<open>Sending\<close>

text \<open>What happens to a packet when it is sent depends on the state of its interface alone, not on what the packet is.\<close>

fun next_state :: "pcb_state \<Rightarrow> pcb_state" where
  "next_state PCB_OFF = PCB_DUP"
| "next_state PCB_DUP = PCB_INIT"
| "next_state PCB_INIT = PCB_PROBE_1"
| "next_state PCB_PROBE_1 = PCB_PROBE_2"
| "next_state PCB_PROBE_2 = PCB_PROBE_3"
| "next_state PCB_PROBE_3 = PCB_ANNOUNCE_1"
| "next_state PCB_ANNOUNCE_1 = PCB_ANNOUNCE_2"
| "next_state PCB_ANNOUNCE_2 = PCB_ANNOUNCE_3"
| "next_state PCB_ANNOUNCE_3 = PCB_RUNNING"
| "next_state PCB_RUNNING = PCB_RUNNING"

definition again :: "u32 \<Rightarrow> tx \<Rightarrow> u32 \<Rightarrow> pcb_id \<Rightarrow> responder \<Rightarrow> responder" where
  "again now p ms i r = set_state i (next_state (p_state (r_pcbs r i))) (mdns_schedule_tx_packet now p ms r)"

definition all_multicast :: "tx \<Rightarrow> tx" where
  "all_multicast p = p\<lparr>x_questions := map (\<lambda>q. q\<lparr>k_unicast := False\<rparr>) (x_questions p)\<rparr>"

definition probe_done :: "pcb \<Rightarrow> pcb" where
  "probe_done p = p\<lparr>p_services := [], p_probe_ip := False, p_probe_running := False, p_failed_probes := 0\<rparr>"

definition mdns_tx_handle_packet :: "mem \<Rightarrow> nat \<Rightarrow> u32 \<Rightarrow> tx \<Rightarrow> responder \<Rightarrow> responder option" where
  "mdns_tx_handle_packet m addr now p r =
     (let i = x_pcb p; r1 = dispatch p r in
      case p_state (r_pcbs r i) of
        PCB_OFF \<Rightarrow> Some r
      | PCB_PROBE_1 \<Rightarrow> Some (again now (all_multicast p) 250 i r1)
      | PCB_PROBE_2 \<Rightarrow> Some (again now p 250 i r1)
      | PCB_PROBE_3 \<Rightarrow>
          map_option (\<lambda>a. case a of None \<Rightarrow> mdns_schedule_tx_packet now p 250 r1 | Some a \<Rightarrow> again now a 250 i (set_pcb i (probe_done (r_pcbs r1 i)) r1))
            (mdns_create_announce_from_probe m addr (r_server r) p)
      | PCB_ANNOUNCE_1 \<Rightarrow> Some (again now p 1000 i r1)
      | PCB_ANNOUNCE_2 \<Rightarrow> Some (again now p 1000 i r1)
      | PCB_ANNOUNCE_3 \<Rightarrow> Some (set_state i PCB_RUNNING r1)
      | _ \<Rightarrow> Some r1)"

text \<open>The action that the scheduler posts for a packet is good only if the packet is at the head of the queue.\<close>

definition execute_tx_handle :: "mem \<Rightarrow> nat \<Rightarrow> u32 \<Rightarrow> nat \<Rightarrow> responder \<Rightarrow> responder option" where
  "execute_tx_handle m addr now a r =
     (case r_queue r of [] \<Rightarrow> Some r
      | p # ps \<Rightarrow>
          if x_addr p = a \<and> x_queued p then mdns_tx_handle_packet m addr now (p\<lparr>x_queued := False\<rparr>) (r\<lparr>r_queue := ps\<rparr>) else Some r)"

definition is_due :: "u32 \<Rightarrow> tx \<Rightarrow> bool" where
  "is_due now p \<longleftrightarrow> sint (x_send_at p - now) < 0"

text \<open>The packets from the first one that is not queued, and the actions that are posted; whether there is room for an action is a function of its number.\<close>

fun post_due :: "mem \<Rightarrow> (nat \<Rightarrow> bool) \<Rightarrow> u32 \<Rightarrow> nat \<Rightarrow> tx list \<Rightarrow> tx list \<times> nat list" where
  "post_due m room now n [] = ([], [])"
| "post_due m room now n (p # ps) =
     (if is_due now p \<and> m n then
        case post_due m room now (Suc n) ps of (ps1, as) \<Rightarrow>
          if room n then (p\<lparr>x_queued := True\<rparr> # ps1, x_addr p # as) else (p\<lparr>x_queued := False\<rparr> # ps1, as)
      else (p # ps, []))"

definition mdns_scheduler_run :: "mem \<Rightarrow> (nat \<Rightarrow> bool) \<Rightarrow> u32 \<Rightarrow> responder \<Rightarrow> responder" where
  "mdns_scheduler_run m room now r =
     (case post_due m room now 0 (dropWhile x_queued (r_queue r)) of (ps, as) \<Rightarrow>
        r\<lparr>r_queue := takeWhile x_queued (r_queue r) @ ps, r_actions := r_actions r @ as\<rparr>)"

definition mdns_remove_scheduled_answer :: "pcb_id \<Rightarrow> u16 \<Rightarrow> nat option \<Rightarrow> responder \<Rightarrow> responder" where
  "mdns_remove_scheduled_answer i type service r =
     r\<lparr>r_queue := map (\<lambda>p. if x_pcb p = i \<and> x_distributed p then p\<lparr>x_answers := dealloc_first type service (x_answers p)\<rparr> else p) (r_queue r)\<rparr>"

section \<open>Interfaces that come and go\<close>

text \<open>Whether the socket could be opened is an argument.\<close>

definition mdns_enable_pcb :: "bool \<Rightarrow> mem \<Rightarrow> nat \<Rightarrow> u32 \<Rightarrow> u32 \<Rightarrow> pcb_id \<Rightarrow> responder \<Rightarrow> responder option" where
  "mdns_enable_pcb opened m addr now random i r =
     (if \<not> r_ready r i then
        if opened then mdns_restart_pcb m addr now random i (r\<lparr>r_ready := (r_ready r)(i := True)\<rparr>)
        else Some (set_pcb i ((r_pcbs r i)\<lparr>p_failed_probes := 0\<rparr>) r)
      else mdns_restart_pcb m addr now random i r)"

definition mdns_pcb_deinit_local :: "pcb_id \<Rightarrow> responder \<Rightarrow> responder" where
  "mdns_pcb_deinit_local i r =
     set_pcb i \<lparr>p_state = PCB_OFF, p_services = [], p_probe_ip = False, p_probe_running = False, p_failed_probes = 0\<rparr>
       (r\<lparr>r_ready := (r_ready r)(i := False)\<rparr>)"

definition mdns_disable_pcb :: "netifs \<Rightarrow> bool \<Rightarrow> mem \<Rightarrow> nat \<Rightarrow> u32 \<Rightarrow> u32 \<Rightarrow> pcb_id \<Rightarrow> responder \<Rightarrow> responder option" where
  "mdns_disable_pcb e opened m addr now random i r =
     map_option (set_state i PCB_OFF)
       (if r_ready r i then
          let r1 = mdns_pcb_deinit_local i (mdns_clear_pcb_tx_queue_head i r); other = (mdns_get_other_if e (fst i), snd i) in
          if fst other \<noteq> e_max_interfaces e \<and> p_state (r_pcbs r1 other) = PCB_DUP
          then mdns_enable_pcb opened m addr now random other (set_state other PCB_OFF r1) else Some r1
        else Some r)"

definition dup_protocol :: "nat \<Rightarrow> nat \<Rightarrow> chances \<Rightarrow> u32 \<Rightarrow> bool \<Rightarrow> responder \<Rightarrow> responder option" where
  "dup_protocol tcpip_if other_if c now v6 r =
     (let i = (tcpip_if, v6); other = (other_if, v6) in
      if r_ready r other then
        let r1 = (if r_ready r i then mdns_pcb_deinit_local i (mdns_clear_pcb_tx_queue_head i r) else r) in
        mdns_announce_pcb (c_mem c other) (c_addr c other) now (c_random c other) other [] True (set_state i PCB_DUP r1)
      else Some r)"

definition mdns_dup_interface :: "netifs \<Rightarrow> chances \<Rightarrow> u32 \<Rightarrow> nat \<Rightarrow> responder \<Rightarrow> responder option" where
  "mdns_dup_interface e c now tcpip_if r =
     (let other_if = mdns_get_other_if e tcpip_if in
      if other_if = e_max_interfaces e then Some r
      else Option.bind (dup_protocol tcpip_if other_if c now False r) (dup_protocol tcpip_if other_if c now True))"

end
