(* ===== verification/MdnsReply.thy ===== *)
theory MdnsReply
  imports MdnsSend MdnsRead
begin

text \<open>
  Questions, replies and collisions of the mDNS responder (managed_components/espressif__mdns/mdns.c): which names are the responder's, the questions that it keeps of a packet, known answers that
  remove a question, the reply, and who wins when two devices claim the same service. A result \<open>None\<close> is a null pointer that is read. Reverse queries are not configured.
\<close>

section \<open>Which service is meant\<close>

definition mdns_service_match :: "mdns_service \<Rightarrow> bytes option \<Rightarrow> bytes option \<Rightarrow> bytes option \<Rightarrow> bool" where
  "mdns_service_match srv service proto hostname =
     (case (service, proto, s_hostname srv) of
        (Some s, Some p, Some h) \<Rightarrow> strcaseeq (s_service srv) s \<and> strcaseeq (s_proto srv) p \<and> (case hostname of None \<Rightarrow> True | Some n \<Rightarrow> n = [] \<or> strcaseeq h n)
      | _ \<Rightarrow> False)"

definition mdns_instance_name_match :: "mdns_server \<Rightarrow> bytes option \<Rightarrow> bytes option \<Rightarrow> bool option" where
  "mdns_instance_name_match sv lhs rhs =
     (let or_default = (\<lambda>s. case s of None \<Rightarrow> mdns_get_default_instance_name sv | Some _ \<Rightarrow> s) in
      case (or_default lhs, or_default rhs) of (Some l, Some r) \<Rightarrow> Some (strcaseeq l r) | _ \<Rightarrow> None)"

definition mdns_service_match_instance ::
    "mdns_server \<Rightarrow> mdns_service \<Rightarrow> bytes option \<Rightarrow> bytes option \<Rightarrow> bytes option \<Rightarrow> bytes option \<Rightarrow> bool option" where
  "mdns_service_match_instance sv srv inst service proto hostname =
     (case (service, proto) of
        (Some s, Some p) \<Rightarrow>
          if \<not> strcaseeq (s_service srv) s then Some False
          else
            Option.bind (mdns_instance_name_match sv (s_instance srv) inst) (\<lambda>same.
              if \<not> same \<or> \<not> strcaseeq (s_proto srv) p then Some False
              else (case hostname of None \<Rightarrow> Some True
                    | Some n \<Rightarrow> if n = [] then Some True else map_option (\<lambda>h. strcaseeq h n) (s_hostname srv)))
      | _ \<Rightarrow> Some False)"

fun first_item :: "(mdns_service \<Rightarrow> bool option) \<Rightarrow> mdns_server \<Rightarrow> nat list \<Rightarrow> nat option option" where
  "first_item P sv [] = Some None"
| "first_item P sv (i # is) =
     Option.bind (sv_services sv i) (\<lambda>s. Option.bind (P s) (\<lambda>b. if b then Some (Some i) else first_item P sv is))"

definition mdns_get_service_item :: "mdns_server \<Rightarrow> nat list \<Rightarrow> bytes option \<Rightarrow> bytes option \<Rightarrow> bytes option \<Rightarrow> nat option option" where
  "mdns_get_service_item sv items service proto hostname = first_item (\<lambda>s. Some (mdns_service_match s service proto hostname)) sv items"

definition mdns_get_service_item_subtype :: "mdns_server \<Rightarrow> nat list \<Rightarrow> bytes \<Rightarrow> bytes option \<Rightarrow> bytes option \<Rightarrow> nat option option" where
  "mdns_get_service_item_subtype sv items subtype service proto =
     first_item (\<lambda>s. Some (mdns_service_match s service proto None \<and> list_ex (\<lambda>t. strcaseeq t subtype) (s_subtype s))) sv items"

definition mdns_get_service_item_instance ::
    "mdns_server \<Rightarrow> nat list \<Rightarrow> bytes option \<Rightarrow> bytes option \<Rightarrow> bytes option \<Rightarrow> bytes option \<Rightarrow> nat option option" where
  "mdns_get_service_item_instance sv items inst service proto hostname =
     first_item (\<lambda>s. if inst \<noteq> None then mdns_service_match_instance sv s inst service proto hostname
                     else Some (mdns_service_match s service proto hostname)) sv items"

section \<open>Which names are the responder's\<close>

fun delegated_name :: "bytes \<Rightarrow> (nat \<times> mdns_host) list \<Rightarrow> bool option" where
  "delegated_name name [] = Some False"
| "delegated_name name ((i, h) # hs) = Option.bind (h_hostname h) (\<lambda>n. if strcaseeq name n then Some True else delegated_name name hs)"

definition hostname_is_ours :: "mdns_server \<Rightarrow> bytes \<Rightarrow> bool option" where
  "hostname_is_ours sv name =
     (case sv_hostname sv of
        Some own \<Rightarrow> if own \<noteq> [] \<and> strcaseeq name own then Some True else delegated_name name (sv_hosts sv)
      | None \<Rightarrow> delegated_name name (sv_hosts sv))"

definition mdns_name_is_discovery :: "mdns_name \<Rightarrow> u16 \<Rightarrow> bool" where
  "mdns_name_is_discovery n type \<longleftrightarrow>
     n_host n \<noteq> [] \<and> strcaseeq (n_host n) (ascii ''_services'') \<and> n_service n \<noteq> [] \<and> strcaseeq (n_service n) (ascii ''_dns-sd'') \<and>
     n_proto n \<noteq> [] \<and> strcaseeq (n_proto n) (ascii ''_udp'') \<and> n_domain n \<noteq> [] \<and> strcaseeq (n_domain n) local_domain \<and> type = MDNS_TYPE_PTR"

definition mdns_name_is_selfhosted :: "mdns_server \<Rightarrow> nat list \<Rightarrow> mdns_name \<Rightarrow> bool option" where
  "mdns_name_is_selfhosted sv items n =
     (case sv_hostname sv of None \<Rightarrow> Some False
      | Some own \<Rightarrow>
          if own = [] then Some False
          else if n_service n = [] \<and> n_proto n = [] \<and> strcaseeq (n_host n) own then Some True
          else
            Option.bind (mdns_get_service_item sv items (Some (n_service n)) (Some (n_proto n)) None) (\<lambda>i. case i of None \<Rightarrow> Some False
              | Some i \<Rightarrow> map_option (strcaseeq own) (service_hostname sv i)))"

definition mdns_name_is_ours :: "mdns_server \<Rightarrow> nat list \<Rightarrow> mdns_name \<Rightarrow> bool option" where
  "mdns_name_is_ours sv items n =
     (if n_domain n = [] \<or> \<not> strcaseeq (n_domain n) local_domain then Some False
      else if n_service n = [] \<and> n_proto n = [] then
        if n_host n \<noteq> [] \<and> \<not> str_null_or_empty (sv_hostname sv) then hostname_is_ours sv (n_host n) else Some False
      else if n_service n = [] \<or> n_proto n = [] then Some False
      else
        Option.bind
          (if n_sub n then mdns_get_service_item_subtype sv items (n_host n) (Some (n_service n)) (Some (n_proto n))
           else if n_host n = [] then mdns_get_service_item sv items (Some (n_service n)) (Some (n_proto n)) None
           else mdns_get_service_item_instance sv items (Some (n_host n)) (Some (n_service n)) (Some (n_proto n)) None)
          (\<lambda>i. case i of None \<Rightarrow> Some False
             | Some i \<Rightarrow>
                 if n_sub n \<or> n_host n = [] then Some True
                 else (case mdns_get_service_instance_name sv (sv_services sv i) of None \<Rightarrow> Some False | Some inst \<Rightarrow> Some (strcaseeq (n_host n) inst))))"

section \<open>The questions that are kept\<close>

record parsed_question =
  pq_type :: u16
  pq_sub :: bool
  pq_unicast :: bool
  pq_host :: "bytes option"
  pq_service :: "bytes option"
  pq_proto :: "bytes option"
  pq_domain :: "bytes option"

record parsed_record =
  pr_ttl :: u32
  pr_host :: "bytes option"
  pr_service :: "bytes option"
  pr_proto :: "bytes option"

record parsed_packet =
  pp_pcb :: pcb_id
  pp_src_port :: u16
  pp_authoritative :: bool
  pp_probe :: bool
  pp_discovery :: bool
  pp_distributed :: bool
  pp_questions :: "parsed_question list"
  pp_records :: "parsed_record list"
  pp_id :: u16

definition mdns_strdup_check :: "bytes \<Rightarrow> bytes option" where
  "mdns_strdup_check s = (if s = [] then None else Some s)"

text \<open>Questions are put in front. The memory of a question with its strings is there or not; without it the packet is given up.\<close>

fun discovery_questions :: "mem \<Rightarrow> mdns_server \<Rightarrow> bool \<Rightarrow> nat list \<Rightarrow> nat \<Rightarrow> parsed_packet \<Rightarrow> (bool \<times> nat \<times> parsed_packet) option" where
  "discovery_questions m sv unicast [] n p = Some (True, n, p)"
| "discovery_questions m sv unicast (i # is) n p =
     Option.bind (sv_services sv i) (\<lambda>s.
       if \<not> m n then Some (False, n + 1, p)
       else
         discovery_questions m sv unicast is (n + 1)
           (p\<lparr>pp_questions := \<lparr>pq_type = MDNS_TYPE_SDPTR, pq_sub = False, pq_unicast = unicast, pq_host = None, pq_service = Some (s_service s),
              pq_proto = Some (s_proto s), pq_domain = Some local_domain\<rparr> # pp_questions p\<rparr>))"

fun take_questions :: "mem \<Rightarrow> mdns_server \<Rightarrow> nat list \<Rightarrow> question list \<Rightarrow> nat \<Rightarrow> parsed_packet \<Rightarrow> (bool \<times> parsed_packet) option" where
  "take_questions m sv items [] n p = Some (True, p)"
| "take_questions m sv items (q # qs) n p =
     (let name = qu_name q in
      if qu_class q \<noteq> 1 \<or> n_invalid name then take_questions m sv items qs n p
      else if mdns_name_is_discovery name (qu_type q) then
        Option.bind (discovery_questions m sv (qu_unicast q) items n (p\<lparr>pp_discovery := True\<rparr>)) (\<lambda>(ok, n1, p1).
          if ok then take_questions m sv items qs n1 p1 else Some (False, p1))
      else
        Option.bind (mdns_name_is_ours sv items name) (\<lambda>ours.
          if \<not> ours then take_questions m sv items qs n p
          else
            let p1 = (if qu_type q = MDNS_TYPE_ANY \<and> n_host name \<noteq> [] then p\<lparr>pp_probe := True\<rparr> else p) in
            if \<not> m n then Some (False, p1)
            else
              take_questions m sv items qs (n + 1)
                (p1\<lparr>pp_questions := \<lparr>pq_type = qu_type q, pq_sub = n_sub name, pq_unicast = qu_unicast q, pq_host = mdns_strdup_check (n_host name),
                   pq_service = mdns_strdup_check (n_service name), pq_proto = mdns_strdup_check (n_proto name),
                   pq_domain = mdns_strdup_check (n_domain name)\<rparr> # pp_questions p1\<rparr>)))"

section \<open>Known answers\<close>

definition is_local :: "bytes \<Rightarrow> bool" where "is_local d \<longleftrightarrow> strcaseeq local_domain d"

definition mdns_question_matches :: "mdns_server \<Rightarrow> parsed_question \<Rightarrow> u16 \<Rightarrow> nat option \<Rightarrow> bool option" where
  "mdns_question_matches sv q type service =
     (if pq_type q \<noteq> type then Some False
      else if type = MDNS_TYPE_A \<or> type = MDNS_TYPE_AAAA then Some True
      else if type = MDNS_TYPE_PTR \<or> type = MDNS_TYPE_SDPTR then
        (case (pq_service q, pq_proto q, pq_domain q) of
           (Some s, Some p, Some d) \<Rightarrow>
             Option.bind service (\<lambda>i. map_option (\<lambda>srv.
               strcaseeq (s_service srv) s \<and> strcaseeq (s_proto srv) p \<and> is_local d \<and>
               (case s_instance srv of None \<Rightarrow> True | Some inst \<Rightarrow> (case pq_host q of None \<Rightarrow> False | Some h \<Rightarrow> strcaseeq inst h))) (sv_services sv i))
         | _ \<Rightarrow> Some False)
      else if service \<noteq> None \<and> (type = MDNS_TYPE_SRV \<or> type = MDNS_TYPE_TXT) then
        Option.bind (Option.bind service (sv_services sv)) (\<lambda>srv.
          (case (mdns_get_service_instance_name sv (Some srv), pq_host q, pq_service q, pq_proto q, pq_domain q) of
             (Some name, Some h, Some s, Some p, Some d) \<Rightarrow> Some (strcaseeq name h \<and> strcaseeq (s_service srv) s \<and> strcaseeq (s_proto srv) p \<and> is_local d)
           | _ \<Rightarrow> Some False))
      else Some False)"

fun remove_match :: "mdns_server \<Rightarrow> u16 \<Rightarrow> nat option \<Rightarrow> parsed_question list \<Rightarrow> parsed_question list option" where
  "remove_match sv type service [] = Some []"
| "remove_match sv type service (q # qs) =
     Option.bind (mdns_question_matches sv q type service) (\<lambda>b. if b then Some qs else map_option (Cons q) (remove_match sv type service qs))"

text \<open>The first question is read without a look at whether there is one.\<close>

definition mdns_remove_parsed_question :: "mdns_server \<Rightarrow> u16 \<Rightarrow> nat option \<Rightarrow> parsed_packet \<Rightarrow> parsed_packet option" where
  "mdns_remove_parsed_question sv type service p =
     (if pp_questions p = [] then None else map_option (\<lambda>qs. p\<lparr>pp_questions := qs\<rparr>) (remove_match sv type service (pp_questions p)))"

text \<open>A pointer record for a name of the responder: the target is a name that was read, the flag tells whether the record answers a discovery question.\<close>

definition take_pointer ::
    "mdns_server \<Rightarrow> nat list \<Rightarrow> bool \<Rightarrow> bool \<Rightarrow> mdns_name \<Rightarrow> u32 \<Rightarrow> parsed_packet \<Rightarrow> responder \<Rightarrow> (bool \<times> parsed_packet \<times> responder) option" where
  "take_pointer sv items memory discovery t ttl p r =
     Option.bind (mdns_name_is_ours sv items t) (\<lambda>ours.
       if n_sub t \<or> \<not> ours then Some (True, p, r)
       else
         Option.bind
           (if n_host t \<noteq> [] then mdns_get_service_item_instance sv items (Some (n_host t)) (Some (n_service t)) (Some (n_proto t)) None
            else mdns_get_service_item sv items (Some (n_service t)) (Some (n_proto t)) None)
           (\<lambda>service.
             Option.bind
               (if discovery \<and> service \<noteq> None then map_option (\<lambda>p1. (p1, r)) (mdns_remove_parsed_question sv MDNS_TYPE_SDPTR service p)
                else if service \<noteq> None \<and> pp_questions p \<noteq> [] \<and> \<not> pp_probe p then map_option (\<lambda>p1. (p1, r)) (mdns_remove_parsed_question sv MDNS_TYPE_PTR service p)
                else if service \<noteq> None \<and> ttl > MDNS_ANSWER_PTR_TTL div 2 then Some (p, mdns_remove_scheduled_answer (pp_pcb p) MDNS_TYPE_PTR service r)
                else Some (p, r))
               (\<lambda>(p1, r1).
                 if service = None then Some (True, p1, r1)
                 else if \<not> memory then Some (False, p1, r1)
                 else
                   Some (True, p1\<lparr>pp_records := \<lparr>pr_ttl = ttl, pr_host = mdns_strdup_check (n_host t), pr_service = mdns_strdup_check (n_service t),
                     pr_proto = mdns_strdup_check (n_proto t)\<rparr> # pp_records p1\<rparr>, r1))))"

section \<open>The reply\<close>

type_synonym draft = "nat \<times> tx"

definition to_answers :: "(nat \<times> out_answer list \<Rightarrow> bool \<times> nat \<times> out_answer list) \<Rightarrow> draft \<Rightarrow> bool \<times> draft" where
  "to_answers f = (\<lambda>(n, p). case f (n, x_answers p) of (ok, n1, as) \<Rightarrow> (ok, n1, p\<lparr>x_answers := as\<rparr>))"

definition to_additional :: "(nat \<times> out_answer list \<Rightarrow> bool \<times> nat \<times> out_answer list) \<Rightarrow> draft \<Rightarrow> bool \<times> draft" where
  "to_additional f = (\<lambda>(n, p). case f (n, x_additional p) of (ok, n1, as) \<Rightarrow> (ok, n1, p\<lparr>x_additional := as\<rparr>))"

definition mdns_create_answer_from_service ::
    "mem \<Rightarrow> mdns_server \<Rightarrow> nat \<Rightarrow> u16 \<Rightarrow> bool \<Rightarrow> bool \<Rightarrow> draft \<Rightarrow> (bool \<times> draft) option" where
  "mdns_create_answer_from_service m sv i type shared send_flush d =
     map_option (\<lambda>host.
       let is_delegated = (host \<noteq> Some SelfHost);
           answer = (\<lambda>more t h flush. (if more then to_additional else to_answers) (mdns_alloc_answer m t (Some i) h flush False)) in
       if type = MDNS_TYPE_PTR \<or> type = MDNS_TYPE_ANY then
         and_then (answer False MDNS_TYPE_PTR None False)
           (and_then (answer is_delegated MDNS_TYPE_SRV None send_flush)
             (and_then (answer is_delegated MDNS_TYPE_TXT None send_flush)
               (and_then (answer (shared \<or> is_delegated) MDNS_TYPE_A host send_flush)
                 (answer (shared \<or> is_delegated) MDNS_TYPE_AAAA host send_flush)))) d
       else if type = MDNS_TYPE_SRV then
         and_then (answer False MDNS_TYPE_SRV None send_flush)
           (and_then (answer True MDNS_TYPE_A host send_flush) (answer True MDNS_TYPE_AAAA host send_flush)) d
       else if type = MDNS_TYPE_TXT then answer False MDNS_TYPE_TXT None send_flush d
       else if type = MDNS_TYPE_SDPTR then answer False MDNS_TYPE_SDPTR None False d
       else (True, d))
       (mdns_get_host_item sv (service_hostname sv i))"

definition mdns_create_answer_from_hostname :: "mem \<Rightarrow> mdns_server \<Rightarrow> bytes option \<Rightarrow> bool \<Rightarrow> draft \<Rightarrow> (bool \<times> draft) option" where
  "mdns_create_answer_from_hostname m sv hostname send_flush d =
     map_option (\<lambda>host. and_then (to_answers (mdns_alloc_answer m MDNS_TYPE_A None host send_flush False))
       (to_answers (mdns_alloc_answer m MDNS_TYPE_AAAA None host send_flush False)) d) (mdns_get_host_item sv hostname)"

definition mdns_service_match_ptr_question :: "mdns_server \<Rightarrow> mdns_service \<Rightarrow> parsed_question \<Rightarrow> bool option" where
  "mdns_service_match_ptr_question sv srv q =
     (if \<not> mdns_service_match srv (pq_service q) (pq_proto q) None then Some False
      else if pq_sub q then
        (case pq_host q of None \<Rightarrow> if s_subtype srv = [] then Some False else None | Some h \<Rightarrow> Some (list_ex (\<lambda>t. strcaseeq t h) (s_subtype srv)))
      else
        (case pq_host q of None \<Rightarrow> Some True
         | Some h \<Rightarrow> map_option (\<lambda>name. strcaseeq name h) (mdns_get_service_instance_name sv (Some srv))))"

text \<open>Whether the asker knows the answer already, for more than half of its time.\<close>

fun record_exists :: "mdns_server \<Rightarrow> mdns_service \<Rightarrow> parsed_record list \<Rightarrow> bool option" where
  "record_exists sv srv [] = Some False"
| "record_exists sv srv (r # rs) =
     Option.bind
       (if s_instance srv \<noteq> None \<and> pr_host r \<noteq> None then mdns_service_match_instance sv srv (pr_host r) (pr_service r) (pr_proto r) None
        else if s_instance srv = None \<and> pr_host r = None then Some (mdns_service_match srv (pr_service r) (pr_proto r) None)
        else Some False)
       (\<lambda>b. if b \<and> pr_ttl r > MDNS_ANSWER_PTR_TTL div 2 then Some True else record_exists sv srv rs)"

text \<open>What the loops keep: the draft and how many records were asked for.\<close>

fun services_reply :: "mem \<Rightarrow> mdns_server \<Rightarrow> parsed_packet \<Rightarrow> parsed_question \<Rightarrow> bool \<Rightarrow> bool \<Rightarrow> nat list \<Rightarrow> draft \<times> nat \<Rightarrow> (bool \<times> draft \<times> nat) option" where
  "services_reply m sv pp q shared flush [] s = Some (True, s)"
| "services_reply m sv pp q shared flush (i # is) (d, k) =
     Option.bind (sv_services sv i) (\<lambda>srv. Option.bind (mdns_service_match_ptr_question sv srv q) (\<lambda>wanted.
       if \<not> wanted then services_reply m sv pp q shared flush is (d, k)
       else
         Option.bind (record_exists sv srv (pp_records pp)) (\<lambda>known.
           if known then services_reply m sv pp q shared flush is (d, k)
           else
             Option.bind (mdns_create_answer_from_service m sv i (pq_type q) shared flush d) (\<lambda>(ok, d1).
               if ok then services_reply m sv pp q shared flush is (d1, k + 1) else Some (False, d1, k)))))"

text \<open>The list of hosts is advanced before its element is used: the first is left out, and the end is used as one.\<close>

fun append_each_host :: "mem \<Rightarrow> host_ref option list \<Rightarrow> bool \<Rightarrow> bool \<Rightarrow> nat \<times> out_answer list \<Rightarrow> bool \<times> nat \<times> out_answer list" where
  "append_each_host m [] flush bye d = (True, d)"
| "append_each_host m (h # hs) flush bye d = and_then (mdns_append_host m h flush bye) (append_each_host m hs flush bye) d"

definition mdns_append_host_list :: "mem \<Rightarrow> mdns_server \<Rightarrow> bool \<Rightarrow> bool \<Rightarrow> nat \<times> out_answer list \<Rightarrow> (bool \<times> nat \<times> out_answer list) option" where
  "mdns_append_host_list m sv flush bye d =
     (let delegated = (if sv_hosts sv = [] then [] else map (\<lambda>(i, h). Some (Delegated i)) (tl (sv_hosts sv)) @ [None]) in
      if str_null_or_empty (sv_hostname sv) then Some (append_each_host m delegated flush bye d)
      else map_option (\<lambda>own. append_each_host m (own # delegated) flush bye d) (mdns_get_host_item sv (sv_hostname sv)))"

definition is_shared :: "parsed_packet \<Rightarrow> parsed_question \<Rightarrow> bool" where
  "is_shared pp q \<longleftrightarrow> pq_type q = MDNS_TYPE_PTR \<or> pq_type q = MDNS_TYPE_SDPTR \<or> \<not> pp_probe pp"

definition question_reply :: "mem \<Rightarrow> mdns_server \<Rightarrow> nat list \<Rightarrow> parsed_packet \<Rightarrow> bool \<Rightarrow> parsed_question \<Rightarrow> draft \<times> nat \<Rightarrow> (bool \<times> draft \<times> nat) option" where
  "question_reply m sv items pp flush q = (\<lambda>(d, k).
     let shared = is_shared pp q; counted = map_option (\<lambda>(ok, d1). (ok, d1, if ok then k + 1 else k)) in
     if pq_type q = MDNS_TYPE_SRV \<or> pq_type q = MDNS_TYPE_TXT then
       Option.bind (mdns_get_service_item_instance sv items (pq_host q) (pq_service q) (pq_proto q) None) (\<lambda>service.
         case service of None \<Rightarrow> Some (False, d, k)
         | Some i \<Rightarrow> counted (mdns_create_answer_from_service m sv i (pq_type q) shared flush d))
     else if pq_service q \<noteq> None \<and> pq_proto q \<noteq> None then services_reply m sv pp q shared flush items (d, k)
     else if pq_type q = MDNS_TYPE_A \<or> pq_type q = MDNS_TYPE_AAAA then counted (mdns_create_answer_from_hostname m sv (pq_host q) flush d)
     else if pq_type q = MDNS_TYPE_ANY then
       counted (case d of (n, p) \<Rightarrow> map_option (\<lambda>(ok, n1, as). (ok, n1, p\<lparr>x_answers := as\<rparr>)) (mdns_append_host_list m sv flush False (n, x_answers p)))
     else counted (Some (to_answers (mdns_alloc_answer m (pq_type q) None None flush False) d)))"

text \<open>Questions for addresses that do not come from the port of the service are repeated in the reply.\<close>

definition repeat_question :: "mem \<Rightarrow> parsed_packet \<Rightarrow> parsed_question \<Rightarrow> draft \<Rightarrow> bool \<times> draft" where
  "repeat_question m pp q = (\<lambda>(n, p).
     if pp_src_port pp \<noteq> MDNS_SERVICE_PORT \<and> (pq_type q = MDNS_TYPE_ANY \<or> pq_type q = MDNS_TYPE_A \<or> pq_type q = MDNS_TYPE_AAAA) then
       if \<not> m n then (False, n + 1, p)
       else
         (True, n + 1, p\<lparr>x_questions := x_questions p @ [\<lparr>k_type = pq_type q, k_unicast = pq_unicast q, k_host = map_option Copied (pq_host q),
           k_service = map_option Copied (pq_service q), k_proto = map_option Copied (pq_proto q), k_domain = map_option Copied (pq_domain q)\<rparr>]\<rparr>)
     else (True, n, p))"

fun questions_reply :: "mem \<Rightarrow> mdns_server \<Rightarrow> nat list \<Rightarrow> parsed_packet \<Rightarrow> bool \<Rightarrow> parsed_question list \<Rightarrow> draft \<times> nat \<Rightarrow> (bool \<times> draft \<times> nat) option" where
  "questions_reply m sv items pp flush [] s = Some (True, s)"
| "questions_reply m sv items pp flush (q # qs) s =
     Option.bind (question_reply m sv items pp flush q s) (\<lambda>(ok, d, k).
       if \<not> ok then Some (False, d, k)
       else (case repeat_question m pp q d of (ok1, d1) \<Rightarrow> if ok1 then questions_reply m sv items pp flush qs (d1, k) else Some (False, d1, k)))"

text \<open>Whether the reply is delayed is decided by the last question that is looked at. The counter of delays runs from 0 to 3.\<close>

definition mdns_create_answer_from_parsed_packet :: "mem \<Rightarrow> nat \<Rightarrow> u32 \<Rightarrow> nat \<Rightarrow> parsed_packet \<Rightarrow> responder \<Rightarrow> (nat \<times> responder) option" where
  "mdns_create_answer_from_parsed_packet m addr now share_step pp r =
     (if pp_questions pp = [] \<or> \<not> m 0 then Some (share_step, r)
      else
        let send_flush = (pp_src_port pp = MDNS_SERVICE_PORT);
            packet = (mdns_alloc_packet_default addr (pp_pcb pp))\<lparr>x_flags := MDNS_FLAGS_QR_AUTHORITATIVE, x_distributed := pp_distributed pp, x_id := pp_id pp\<rparr> in
        map_option (\<lambda>(ok, (n, p), k).
          if \<not> ok \<or> k = 0 then (share_step, r)
          else
            let p1 = (if list_ex pq_unicast (pp_questions pp) \<or> \<not> send_flush then p\<lparr>x_port := pp_src_port pp\<rparr> else p) in
            if is_shared pp (last (pp_questions pp)) then
              ((share_step + 1) mod 4, mdns_schedule_tx_packet now p1 (25 + of_nat (share_step * 25)) r)
            else (share_step, dispatch p1 r))
          (questions_reply m (r_server r) (r_items r) pp send_flush (pp_questions pp) ((1, packet), 0)))"

text \<open>The end of the parser: only an interface that is past its probes replies.\<close>

definition reply_to_packet :: "mem \<Rightarrow> nat \<Rightarrow> u32 \<Rightarrow> bool \<Rightarrow> nat \<Rightarrow> parsed_packet \<Rightarrow> responder \<Rightarrow> (nat \<times> responder) option" where
  "reply_to_packet m addr now do_not_reply share_step pp r =
     (if \<not> do_not_reply \<and> pcb_code (p_state (r_pcbs r (pp_pcb pp))) > pcb_code PCB_PROBE_3 \<and> (pp_questions pp \<noteq> [] \<or> pp_discovery pp)
      then mdns_create_answer_from_parsed_packet m addr now share_step pp r else Some (share_step, r))"

section \<open>Who wins\<close>

text \<open>Comparing as memory is compared, with the sign of the result.\<close>

fun memcmp :: "bytes \<Rightarrow> bytes \<Rightarrow> int" where
  "memcmp (x # xs) (y # ys) = (if x > y then 1 else if x < y then -1 else memcmp xs ys)"
| "memcmp _ _ = 0"

definition u16_bytes :: "u16 \<Rightarrow> bytes" where
  "u16_bytes x = [ucast (drop_bit 8 x), ucast x]"

definition srv_data :: "u16 \<Rightarrow> u16 \<Rightarrow> u16 \<Rightarrow> bytes \<Rightarrow> bytes \<Rightarrow> bytes" where
  "srv_data priority weight port host domain =
     u16_bytes priority @ u16_bytes weight @ u16_bytes port @ [of_nat (length host)] @ host @ [of_nat (length domain)] @ domain @ [0]"

definition winner :: "int \<Rightarrow> int" where
  "winner ret = (if ret > 0 then -1 else if ret < 0 then 1 else 0)"

definition mdns_check_srv_collision :: "mdns_server \<Rightarrow> mdns_service \<Rightarrow> u16 \<Rightarrow> u16 \<Rightarrow> u16 \<Rightarrow> bytes \<Rightarrow> bytes \<Rightarrow> int" where
  "mdns_check_srv_collision sv srv priority weight port host domain =
     (case sv_hostname sv of None \<Rightarrow> 0
      | Some own \<Rightarrow>
          if own = [] then 0
          else
            let our_len = 14 + length own; their_len = 9 + length host + length domain in
            if their_len > our_len then 1
            else if their_len < our_len then -1
            else winner (memcmp (srv_data (s_priority srv) (s_weight srv) (s_port srv) own local_domain) (srv_data priority weight port host domain)))"

text \<open>
  The data that was received is shorter than a packet, so if ours has its length then all of our entries are written.
\<close>

fun own_entries :: "txt_entry list \<Rightarrow> bytes option" where
  "own_entries [] = Some []"
| "own_entries (t # ts) =
     Option.bind (e_key t) (\<lambda>key.
       let text = key @ (case e_value t of None \<Rightarrow> [] | Some v \<Rightarrow> [0x3d] @ v) in
       map_option (\<lambda>rest. of_nat (length text) # text @ rest) (own_entries ts))"

definition mdns_check_txt_collision :: "mdns_service \<Rightarrow> bytes \<Rightarrow> int option" where
  "mdns_check_txt_collision srv data =
     (if length data = 1 \<and> s_txt srv \<noteq> [] then Some (-1)
      else if length data > 1 \<and> s_txt srv = [] then Some 1
      else if length data = 1 \<and> s_txt srv = [] then Some 0
      else
        map_option (\<lambda>ours.
          if length data > length ours then 1 else if length data < length ours then -1 else winner (memcmp ours data)) (own_entries (s_txt srv)))"

end
