(* ===== verification/MdnsProbe.thy ===== *)
theory MdnsProbe
  imports MdnsSend
begin

text \<open>
  What every step of the mDNS responder keeps: the order of its queue of packets, and that an interface that waits for a packet has one in the queue. The steps are those of
  managed_components/espressif__mdns/mdns.c as far as they are modelled; what the parser brings about is the reply, the collision and the removal of a scheduled answer.
\<close>

section \<open>The queue\<close>

definition in_order :: "tx list \<Rightarrow> bool" where
  "in_order qs \<longleftrightarrow> sorted (map x_send_at qs)"

lemma set_insert_tx [simp]: "set (insert_tx p qs) = insert p (set qs)"
  by (induction qs) auto

lemma insert_tx_in_order: "in_order qs \<Longrightarrow> in_order (insert_tx p qs)"
  unfolding in_order_def by (induction qs) (auto simp: not_less)

lemma insert_tx_place:
  "in_order qs \<Longrightarrow> insert_tx p qs = takeWhile (\<lambda>q. x_send_at q \<le> x_send_at p) qs @ p # dropWhile (\<lambda>q. x_send_at q \<le> x_send_at p) qs"
  unfolding in_order_def by (induction qs) (auto simp: not_le not_less)

lemma in_order_filter: "in_order qs \<Longrightarrow> in_order (filter P qs)"
  unfolding in_order_def by (induction qs) auto

lemma in_order_same: "map x_send_at qs = map x_send_at ps \<Longrightarrow> in_order ps \<Longrightarrow> in_order qs"
  unfolding in_order_def by simp

lemma drop_then_filter: "(case dropWhile P qs of [] \<Rightarrow> [] | q # qs \<Rightarrow> q # filter (\<lambda>p. \<not> P p) qs) = filter (\<lambda>p. \<not> P p) qs"
  by (induction qs) auto

lemma clear_pcb_queue: "mdns_clear_pcb_tx_queue_head i r = r\<lparr>r_queue := filter (\<lambda>q. x_pcb q \<noteq> i) (r_queue r)\<rparr>"
  unfolding mdns_clear_pcb_tx_queue_head_def drop_then_filter ..

lemma next_packet: "mdns_get_next_pcb_packet i qs = Some k \<Longrightarrow> k < length qs \<and> x_pcb (qs ! k) = i"
  by (induction qs arbitrary: k) (auto split: if_splits)

lemma no_next_packet: "mdns_get_next_pcb_packet i qs = None \<longleftrightarrow> (\<forall>p\<in>set qs. x_pcb p \<noteq> i)"
  by (induction qs) auto

section \<open>Memory that does not fail\<close>

definition enough :: "mem \<Rightarrow> bool" where "enough m \<longleftrightarrow> (\<forall>k. m k)"

lemma alloc_ok: "enough m \<Longrightarrow> fst (mdns_alloc_answer m t s h f b d)"
  unfolding mdns_alloc_answer_def enough_def by (auto split: prod.splits)

lemma and_then_ok: "(\<And>d. fst (f d)) \<Longrightarrow> (\<And>d. fst (g d)) \<Longrightarrow> fst (and_then f g d)"
  unfolding and_then_def by (auto split: prod.splits bool.splits) (metis fst_conv)

lemma append_host_ok: "enough m \<Longrightarrow> fst (mdns_append_host m h f b d)"
  unfolding mdns_append_host_def by (intro and_then_ok alloc_ok)

lemma granted: "fst x \<Longrightarrow> \<exists>s. x = (True, s)" for x :: "bool \<times> 'a"
  by (cases x) auto

lemma append_hosts_ok: "enough m \<Longrightarrow> append_hosts m sv is f b d = Some x \<Longrightarrow> fst x"
proof (induction "is" arbitrary: d)
  case (Cons i "is")
  obtain h where h: "mdns_get_host_item sv (service_hostname sv i) = Some h"
    using Cons.prems(2) by (auto split: option.splits)
  obtain d1 where "mdns_append_host m h f b d = (True, d1)"
    using granted[OF append_host_ok[OF Cons.prems(1)]] by blast
  then show ?case using Cons.IH[of d1] Cons.prems h by simp
qed auto

lemma append_host_list_ok: "enough m \<Longrightarrow> mdns_append_host_list_in_services m sv ss f b d = Some x \<Longrightarrow> fst x"
  unfolding mdns_append_host_list_in_services_def
  by (auto split: if_splits option.splits simp: append_host_ok dest: append_hosts_ok)

lemma host_question_ok: "enough m \<Longrightarrow> fst (mdns_append_host_question m h u d)"
  unfolding mdns_append_host_question_def enough_def by (auto split: prod.splits simp: Let_def)

lemma host_questions_ok: "enough m \<Longrightarrow> fst (mdns_append_host_questions_for_services m sv ss u d)"
proof -
  assume m: "enough m"
  have s: "fst (service_host_questions m sv ss u d)" for d
    by (induction ss arbitrary: d) (auto intro!: and_then_ok host_question_ok m)
  show ?thesis
    unfolding mdns_append_host_questions_for_services_def by (auto intro!: and_then_ok host_question_ok m s)
qed

lemma service_answers_ok: "enough m \<Longrightarrow> fst (service_answers m i d)"
  unfolding service_answers_def by (intro and_then_ok alloc_ok)

lemma services_answers_ok: "enough m \<Longrightarrow> fst (services_answers m is d)"
  by (induction "is" arbitrary: d) (auto intro!: and_then_ok service_answers_ok)

lemma probe_services_ok: "enough m \<Longrightarrow> probe_services m sv is u n qs servers \<noteq> None"
  by (induction "is" arbitrary: n qs servers)
    (auto simp: Let_def enough_def split: prod.splits bool.splits, metis alloc_ok enough_def fst_conv)

lemma create_probe_ok: "enough m \<Longrightarrow> mdns_create_probe_packet m a sv i ss u ip \<noteq> Some None"
  using probe_services_ok[of m sv ss u 1 "[]" "[]"] host_questions_ok[of m sv ss u] append_host_list_ok[of m sv ss False False]
  unfolding mdns_create_probe_packet_def enough_def
  by (auto simp: Let_def split: option.splits prod.splits bool.splits if_splits) (metis fst_conv)+

lemma create_announce_ok: "enough m \<Longrightarrow> mdns_create_announce_packet m a sv i ss ip \<noteq> Some None"
  using services_answers_ok[of m ss "(1, [])"] append_host_list_ok[of m sv ss True False]
  unfolding mdns_create_announce_packet_def enough_def
  by (auto simp: Let_def split: option.splits prod.splits bool.splits if_splits) 

lemma announce_servers_ok: "enough m \<Longrightarrow> announce_servers m sv ss d = Some x \<Longrightarrow> fst x"
proof (induction ss arbitrary: d)
  case (Cons s ss)
  note m = Cons.prems(1)
  show ?case
  proof (cases "an_type s = MDNS_TYPE_SRV")
    case True
    then obtain i where i: "an_service s = Some i" using Cons.prems(2) by (auto split: option.splits)
    obtain d1 where d1: "service_answers m i d = (True, d1)" using granted[OF service_answers_ok[OF m]] by blast
    obtain h where h: "mdns_get_host_item sv (service_hostname sv i) = Some h"
      using Cons.prems(2) True i d1 by (auto split: option.splits)
    obtain d2 where "mdns_append_host m h True False d1 = (True, d2)" using granted[OF append_host_ok[OF m]] by blast
    then show ?thesis using Cons.IH[of d2] Cons.prems True i d1 h by simp
  next
    case False
    obtain d1 where "mdns_alloc_answer m (an_type s) None (an_host s) True False d = (True, d1)" using granted[OF alloc_ok[OF m]] by blast
    then show ?thesis using Cons.IH[of d] Cons.IH[of d1] Cons.prems False by (simp split: if_splits)
  qed
qed auto

lemma create_from_probe_ok: "enough m \<Longrightarrow> mdns_create_announce_from_probe m a sv p \<noteq> Some None"
  using announce_servers_ok[of m sv "x_servers p" "(1, [])"]
  unfolding mdns_create_announce_from_probe_def enough_def by (auto split: if_splits) 

section \<open>Every operation keeps the queue in order\<close>

lemma queue_of_set [simp]: "r_queue (set_pcb i p r) = r_queue r" "r_queue (set_state i s r) = r_queue r"
  unfolding set_state_def set_pcb_def by simp_all

lemma schedule_in_order: "in_order (r_queue r) \<Longrightarrow> in_order (r_queue (mdns_schedule_tx_packet now p ms r))"
  unfolding mdns_schedule_tx_packet_def by (simp add: insert_tx_in_order)

lemma new_service_in_order:
  "mdns_init_pcb_probe_new_service m a now rnd i ss ip r = Some r' \<Longrightarrow> in_order (r_queue r) \<Longrightarrow> in_order (r_queue r')"
  unfolding mdns_init_pcb_probe_new_service_def
  by (auto simp: Let_def schedule_in_order split: option.splits)

lemma probe_in_order: "mdns_init_pcb_probe m a now rnd i ss ip r = Some r' \<Longrightarrow> in_order (r_queue r) \<Longrightarrow> in_order (r_queue r')"
  unfolding mdns_init_pcb_probe_def clear_pcb_queue Let_def
  by (auto split: if_splits intro: in_order_filter elim!: new_service_in_order)

lemma probe_one_in_order: "probe_one c now ss ip clear i r = Some r' \<Longrightarrow> in_order (r_queue r) \<Longrightarrow> in_order (r_queue r')"
  unfolding probe_one_def Let_def by (auto split: if_splits dest!: probe_in_order)

lemma announce_in_order: "mdns_announce_pcb m a now rnd i ss ip r = Some r' \<Longrightarrow> in_order (r_queue r) \<Longrightarrow> in_order (r_queue r')"
proof -
  have u: "in_order (qs[k := p'])" if "in_order qs" "k < length qs" "extend_announcement m sv ss ip (qs ! k) = Some p'" for qs k p' sv
  proof -
    have "x_send_at p' = x_send_at (qs ! k)"
      using that(3) unfolding extend_announcement_def by (auto split: prod.splits if_splits)
    then have "map x_send_at (qs[k := p']) = map x_send_at qs"
      using that(2) by (simp add: map_update list_update_same_conv)
    then show ?thesis using that(1) in_order_same by blast
  qed
  assume "mdns_announce_pcb m a now rnd i ss ip r = Some r'" "in_order (r_queue r)"
  then show ?thesis
    unfolding mdns_announce_pcb_def Let_def
    by (auto split: if_splits option.splits dest: probe_in_order next_packet simp: u schedule_in_order)
qed

lemma on_pcbs_in_order:
  assumes f: "\<And>i r r'. f i r = Some r' \<Longrightarrow> in_order (r_queue r) \<Longrightarrow> in_order (r_queue r')"
  shows "on_pcbs f is r = Some r' \<Longrightarrow> in_order (r_queue r) \<Longrightarrow> in_order (r_queue r')"
  by (induction "is" arbitrary: r) (auto simp: bind_eq_Some_conv dest: f)

lemma on_pcbs_same_queue:
  assumes f: "\<And>i r r'. f i r = Some r' \<Longrightarrow> r_queue r' = r_queue r"
  shows "on_pcbs f is r = Some r' \<Longrightarrow> r_queue r' = r_queue r"
  by (induction "is" arbitrary: r) (auto simp: bind_eq_Some_conv dest: f)

lemma bye_same: "mdns_pcb_send_bye m a i ss ip r = Some r' \<Longrightarrow> r' = r\<lparr>r_sent := r_sent r'\<rparr>"
  unfolding mdns_pcb_send_bye_def dispatch_def by (auto simp: Let_def split: if_splits prod.splits bool.splits)

lemma again_in_order: "in_order (r_queue r) \<Longrightarrow> in_order (r_queue (again now p ms i r))"
  unfolding again_def by (simp add: schedule_in_order)

lemma handle_in_order: "mdns_tx_handle_packet m a now p r = Some r' \<Longrightarrow> in_order (r_queue r) \<Longrightarrow> in_order (r_queue r')"
  unfolding mdns_tx_handle_packet_def Let_def dispatch_def
  by (auto split: pcb_state.splits option.splits intro!: again_in_order schedule_in_order)

lemma post_due_send_at: "post_due m room now n ps = (qs, as) \<Longrightarrow> map x_send_at qs = map x_send_at ps \<and> map x_pcb qs = map x_pcb ps"
  by (induction m room now n ps arbitrary: qs as rule: post_due.induct) (auto split: if_splits prod.splits)

lemma scheduler_same:
  "map x_send_at (r_queue (mdns_scheduler_run m room now r)) = map x_send_at (r_queue r)
   \<and> map x_pcb (r_queue (mdns_scheduler_run m room now r)) = map x_pcb (r_queue r)"
proof -
  obtain ps as where p: "post_due m room now 0 (dropWhile x_queued (r_queue r)) = (ps, as)" by fastforce
  have "map f (r_queue r) = map f (takeWhile x_queued (r_queue r)) @ map f (dropWhile x_queued (r_queue r))" for f :: "tx \<Rightarrow> 'b"
    by (metis map_append takeWhile_dropWhile_id)
  from this[of x_send_at] this[of x_pcb] show ?thesis using post_due_send_at[OF p] unfolding mdns_scheduler_run_def p by simp
qed

lemma created_for: 
  "mdns_create_probe_packet m a sv i ss u ip = Some (Some p) \<Longrightarrow> x_pcb p = i"
  "mdns_create_announce_packet m a sv i ss ip = Some (Some p) \<Longrightarrow> x_pcb p = i"
  "mdns_create_announce_from_probe m a sv q = Some (Some p) \<Longrightarrow> x_pcb p = x_pcb q"
  unfolding mdns_create_probe_packet_def mdns_create_announce_packet_def mdns_create_announce_from_probe_def mdns_alloc_packet_default_def
  by (auto simp: Let_def split: option.splits prod.splits bool.splits if_splits)

declare split_paired_All [simp del] split_paired_Ex [simp del]

section \<open>An interface that waits has something to wait for\<close>

definition waiting :: "pcb_state \<Rightarrow> bool" where
  "waiting s \<longleftrightarrow> pcb_code PCB_PROBE_1 \<le> pcb_code s \<and> pcb_code s \<le> pcb_code PCB_ANNOUNCE_3"

definition has_packet :: "responder \<Rightarrow> pcb_id \<Rightarrow> bool" where
  "has_packet r i \<longleftrightarrow> (\<exists>p\<in>set (r_queue r). x_pcb p = i)"

definition placed :: "responder \<Rightarrow> pcb_id \<Rightarrow> bool" where
  "placed r i \<longleftrightarrow> (waiting (p_state (r_pcbs r i)) \<longrightarrow> r_ready r i \<and> i \<in> set (r_ifs r))"

definition served_at :: "responder \<Rightarrow> pcb_id \<Rightarrow> bool" where
  "served_at r i \<longleftrightarrow> placed r i \<and> (waiting (p_state (r_pcbs r i)) \<longrightarrow> has_packet r i)"

definition others :: "pcb_id \<Rightarrow> responder \<Rightarrow> responder \<Rightarrow> bool" where
  "others i r r' \<longleftrightarrow> r_ifs r' = r_ifs r \<and> (\<forall>j. j \<noteq> i \<longrightarrow> r_ready r' j = r_ready r j \<and> p_state (r_pcbs r' j) = p_state (r_pcbs r j) \<and> has_packet r' j = has_packet r j)"

lemma others_trans: "others i r r1 \<Longrightarrow> others i r1 r2 \<Longrightarrow> others i r r2"
  unfolding others_def by simp

lemma others_served: "others i r r' \<Longrightarrow> j \<noteq> i \<Longrightarrow> served_at r' j = served_at r j \<and> placed r' j = placed r j"
  unfolding others_def served_at_def placed_def by (cases j) auto

lemma waiting_simps [simp]:
  "waiting PCB_PROBE_1" "waiting PCB_PROBE_2" "waiting PCB_PROBE_3" "waiting PCB_ANNOUNCE_1" "waiting PCB_ANNOUNCE_2" "waiting PCB_ANNOUNCE_3"
  "\<not> waiting PCB_OFF" "\<not> waiting PCB_DUP" "\<not> waiting PCB_INIT" "\<not> waiting PCB_RUNNING"
  unfolding waiting_def by simp_all

lemma schedule_has: "has_packet (mdns_schedule_tx_packet now p ms r) j \<longleftrightarrow> x_pcb p = j \<or> has_packet r j"
  unfolding mdns_schedule_tx_packet_def has_packet_def by auto

lemma has_image: "has_packet r i \<longleftrightarrow> i \<in> x_pcb ` set (r_queue r)"
  unfolding has_packet_def by auto

lemma set_pcb_has [simp]: "has_packet (set_pcb i p r) j = has_packet r j"
  unfolding has_packet_def by simp

lemma set_pcb_fields [simp]:
  "r_ifs (set_pcb i p r) = r_ifs r" "r_ready (set_pcb i p r) = r_ready r" "r_pcbs (set_pcb i p r) = (r_pcbs r)(i := p)"
  unfolding set_pcb_def by simp_all

lemma schedule_fields [simp]:
  "r_ifs (mdns_schedule_tx_packet now p ms r) = r_ifs r" "r_ready (mdns_schedule_tx_packet now p ms r) = r_ready r"
  "r_pcbs (mdns_schedule_tx_packet now p ms r) = r_pcbs r"
  unfolding mdns_schedule_tx_packet_def by simp_all

lemma extend_for: "extend_announcement m sv ss ip p = Some p' \<Longrightarrow> x_pcb p' = x_pcb p"
  unfolding extend_announcement_def by (auto split: prod.splits if_splits)

lemma joined_enough: "enough m \<Longrightarrow> joined_services m p ss = Some x \<Longrightarrow> \<exists>all m1. x = Some (all, m1) \<and> enough m1"
  unfolding joined_services_def enough_def by (auto simp: Let_def split: if_splits)

lemma new_service_serves:
  assumes m: "enough m" and a: "r_ready r i" "i \<in> set (r_ifs r)"
    and e: "mdns_init_pcb_probe_new_service m a now rnd i ss ip r = Some r'"
  shows "served_at r' i \<and> others i r r'"
proof -
  obtain x where x: "joined_services m (r_pcbs r i) ss = Some x"
    using e unfolding mdns_init_pcb_probe_new_service_def by (auto simp: Let_def split: option.splits)
  obtain al m1 where j: "x = Some (al, m1)" and m1: "enough m1" using joined_enough[OF m x] by blast
  obtain y where y: "mdns_create_probe_packet m1 a (r_server r) i al True (p_probe_ip (r_pcbs r i) \<or> ip) = Some y"
    using e x j unfolding mdns_init_pcb_probe_new_service_def by (auto simp: Let_def split: option.splits)
  obtain p where p: "y = Some p" using create_probe_ok[OF m1] y by (cases y) auto
  have "x_pcb p = i" using created_for(1) y p by blast
  then show ?thesis
    using e x j y p a unfolding mdns_init_pcb_probe_new_service_def served_at_def placed_def others_def
    by (auto simp: Let_def schedule_has)
qed

lemma clear_has: "has_packet (mdns_clear_pcb_tx_queue_head i r) j \<longleftrightarrow> j \<noteq> i \<and> has_packet r j"
  unfolding clear_pcb_queue has_packet_def by auto

lemma others_clear: "others i r (mdns_clear_pcb_tx_queue_head i r)"
  unfolding others_def clear_has by (simp add: clear_pcb_queue)

lemma probe_serves:
  assumes m: "enough m" and a: "r_ready r i" "i \<in> set (r_ifs r)"
    and e: "mdns_init_pcb_probe m a now rnd i ss ip r = Some r'"
  shows "served_at r' i \<and> others i r r'"
proof -
  let ?r = "mdns_clear_pcb_tx_queue_head i r"
  have f: "r_ready ?r i" "i \<in> set (r_ifs ?r)" using a by (simp_all add: clear_pcb_queue)
  show ?thesis
  proof (cases "str_null_or_empty (sv_hostname (r_server ?r))")
    case True
    then have "r' = set_state i PCB_RUNNING ?r" using e unfolding mdns_init_pcb_probe_def by (simp add: Let_def)
    then show ?thesis
      using others_clear[of i r] unfolding served_at_def placed_def others_def set_state_def by simp
  next
    case False
    then obtain ss' where "mdns_init_pcb_probe_new_service m a now rnd i ss' ip ?r = Some r'"
      using e unfolding mdns_init_pcb_probe_def by (auto simp: Let_def split: if_splits)
    from new_service_serves[OF m f this] others_trans[OF others_clear] show ?thesis by blast
  qed
qed

lemma others_refl [simp]: "others i r r"
  unfolding others_def by simp

lemma announce_serves:
  assumes m: "enough m" and a: "i \<in> set (r_ifs r)" and s: "served_at r i"
    and e: "mdns_announce_pcb m a now rnd i ss ip r = Some r'"
  shows "served_at r' i \<and> others i r r'"
proof (cases "r_ready r i")
  case False
  then show ?thesis using e s unfolding mdns_announce_pcb_def by (auto simp: Let_def)
next
  case ready: True
  let ?s = "p_state (r_pcbs r i)"
  consider (probing) "is_probing ?s" | (announcing) "\<not> is_probing ?s" "is_announcing ?s" | (running) "\<not> is_probing ?s" "\<not> is_announcing ?s" "?s = PCB_RUNNING"
    | (other) "\<not> is_probing ?s" "\<not> is_announcing ?s" "?s \<noteq> PCB_RUNNING" by blast
  then show ?thesis
  proof cases
    case probing
    then have "mdns_init_pcb_probe m a now rnd i ss ip r = Some r'" using e ready unfolding mdns_announce_pcb_def by (simp add: Let_def)
    then show ?thesis by (rule probe_serves[OF m ready a])
  next
    case announcing
    show ?thesis
    proof (cases "mdns_get_next_pcb_packet i (r_queue r)")
      case None
      then show ?thesis using e s announcing ready unfolding mdns_announce_pcb_def by (simp add: Let_def)
    next
      case (Some k)
      then obtain p where p: "extend_announcement m (r_server r) ss ip (r_queue r ! k) = Some p"
        and r': "r' = set_state i PCB_ANNOUNCE_1 (r\<lparr>r_queue := (r_queue r)[k := p]\<rparr>)"
        using e announcing ready unfolding mdns_announce_pcb_def by (auto simp: Let_def)
      have k: "k < length (r_queue r)" "x_pcb (r_queue r ! k) = i" using next_packet[OF Some] by auto
      have "map x_pcb ((r_queue r)[k := p]) = map x_pcb (r_queue r)"
        using extend_for[OF p] k by (simp add: map_update list_update_same_conv)
      then have "x_pcb ` set ((r_queue r)[k := p]) = x_pcb ` set (r_queue r)" by (metis set_map)
      then have h: "has_packet r' j \<longleftrightarrow> j \<in> x_pcb ` set (r_queue r)" for j
        unfolding has_image r' by simp
      have "i \<in> x_pcb ` set (r_queue r)" using k by force
      then show ?thesis using ready a unfolding served_at_def placed_def others_def h has_image[of r] by (auto simp: r' set_state_def)
    qed
  next
    case running
    show ?thesis
    proof (cases "str_null_or_empty (sv_hostname (r_server r))")
      case True
      then show ?thesis using e s running ready unfolding mdns_announce_pcb_def by (simp add: Let_def)
    next
      case False
      then obtain y where y: "mdns_create_announce_packet m a (r_server r) i ss ip = Some y"
        and r': "r' = (case y of None \<Rightarrow> set_state i PCB_ANNOUNCE_1 r | Some p \<Rightarrow> mdns_schedule_tx_packet now p 0 (set_state i PCB_ANNOUNCE_1 r))"
        using e running ready unfolding mdns_announce_pcb_def by (auto simp: Let_def)
      obtain p where p: "y = Some p" using create_announce_ok[OF m] y by (cases y) auto
      have "x_pcb p = i" using created_for(2) y p by blast
      then show ?thesis using ready a p unfolding r' served_at_def placed_def others_def by (auto simp: schedule_has set_state_def)
    qed
  next
    case other
    then show ?thesis using e s ready unfolding mdns_announce_pcb_def by (simp add: Let_def)
  qed
qed

lemma probe_one_serves:
  assumes m: "enough (c_mem c i)" and a: "i \<in> set (r_ifs r)" and s: "placed r i" and e: "probe_one c now ss ip clear i r = Some r'"
  shows "served_at r' i \<and> others i r r'"
proof (cases "r_ready r i")
  case False
  then show ?thesis using e s unfolding probe_one_def served_at_def placed_def by (auto simp: Let_def)
next
  case True
  obtain r1 where r1: "r1 = r \<or> r1 = set_pcb i ((r_pcbs r i)\<lparr>p_services := [], p_probe_running := False\<rparr>) r"
    and f: "mdns_init_pcb_probe (c_mem c i) (c_addr c i) now (c_random c i) i ss ip r1 = Some r'"
    using e True unfolding probe_one_def by (auto simp: Let_def split: if_splits)
  have "others i r r1" using r1 unfolding others_def by auto
  moreover have "served_at r' i \<and> others i r1 r'" using probe_serves[OF m _ _ f] r1 True a by auto
  ultimately show ?thesis using others_trans by blast
qed

text \<open>What holds of one interface after its turn, holds of all of them after the round.\<close>

lemma on_pcbs_serves:
  assumes f: "\<And>i r r'. f i r = Some r' \<Longrightarrow> i \<in> set (r_ifs r) \<Longrightarrow> P r i \<Longrightarrow> served_at r' i \<and> others i r r'"
    and p: "\<And>i r. served_at r i \<Longrightarrow> P r i" "\<And>i j r r'. others i r r' \<Longrightarrow> j \<noteq> i \<Longrightarrow> P r j = P r' j"
  shows "on_pcbs f is r = Some r' \<Longrightarrow> set is \<subseteq> set (r_ifs r) \<Longrightarrow> (\<And>i. P r i) \<Longrightarrow> (\<And>i. i \<notin> set is \<Longrightarrow> served_at r i) \<Longrightarrow> served_at r' j"
proof (induction "is" arbitrary: r)
  case (Cons i "is")
  obtain r1 where r1: "f i r = Some r1" "on_pcbs f is r1 = Some r'" using Cons.prems(1) by (auto simp: bind_eq_Some_conv)
  have s: "served_at r1 i" "others i r r1" using f[OF r1(1)] Cons.prems by auto
  have "P r1 j" for j using p(1)[OF s(1)] p(2)[OF s(2)] Cons.prems(3) by (cases "j = i") auto
  moreover have "served_at r1 j" if "j \<notin> set is" for j
    using that s others_served[OF s(2)] Cons.prems(4) by (cases "j = i") auto
  moreover have "set is \<subseteq> set (r_ifs r1)" using s(2) Cons.prems(2) unfolding others_def by auto
  ultimately show ?case using Cons.IH[OF r1(2)] by blast
qed simp

section \<open>Every step of the responder\<close>

text \<open>
  The steps of the task: commands of the application, the scheduler, the handling of what the scheduler posted, and what received packets bring about. A reply is put in the queue
  while the interface announces or runs. Memory does not fail, except for the scheduler and for goodbyes.
\<close>

definition good :: "chances \<Rightarrow> bool" where "good c \<longleftrightarrow> (\<forall>i. enough (c_mem c i))"

lemma good_mem: "good c \<Longrightarrow> enough (c_mem c i)"
  unfolding good_def by blast

inductive responder_step :: "responder \<Rightarrow> responder \<Rightarrow> bool" where
  restart: "good c \<Longrightarrow> mdns_restart_all_pcbs c now r = Some r' \<Longrightarrow> responder_step r r'"
| restart_no_instance: "good c \<Longrightarrow> mdns_restart_all_pcbs_no_instance c now r = Some r' \<Longrightarrow> responder_step r r'"
| probe: "good c \<Longrightarrow> mdns_probe_all_pcbs c now ss ip clear r = Some r' \<Longrightarrow> responder_step r r'"
| announce: "good c \<Longrightarrow> mdns_announce_all_pcbs c now ss ip r = Some r' \<Longrightarrow> responder_step r r'"
| bye: "mdns_send_bye c ss ip r = Some r' \<Longrightarrow> responder_step r r'"
| enable: "enough m \<Longrightarrow> i \<in> set (r_ifs r) \<Longrightarrow> mdns_enable_pcb opened m a now rnd i r = Some r' \<Longrightarrow> responder_step r r'"
| disable: "enough m \<Longrightarrow> i \<in> set (r_ifs r) \<Longrightarrow> (mdns_get_other_if e (fst i), snd i) \<in> set (r_ifs r) \<Longrightarrow> mdns_get_other_if e (fst i) \<noteq> fst i \<Longrightarrow>
    mdns_disable_pcb e opened m a now rnd i r = Some r' \<Longrightarrow> responder_step r r'"
| schedule: "responder_step r (mdns_scheduler_run m room now r)"
| handle: "enough m \<Longrightarrow> r_actions r = a # as \<Longrightarrow> execute_tx_handle m addr now a (r\<lparr>r_actions := as\<rparr>) = Some r' \<Longrightarrow> responder_step r r'"
| reply: "pcb_code (p_state (r_pcbs r (x_pcb p))) > pcb_code PCB_PROBE_3 \<Longrightarrow> responder_step r (mdns_schedule_tx_packet now p ms r)"
| collision: "enough m \<Longrightarrow> i \<in> set (r_ifs r) \<Longrightarrow> r_ready r i \<Longrightarrow> mdns_init_pcb_probe m a now rnd i ss True r = Some r' \<Longrightarrow> responder_step r r'"
| answered: "responder_step r (mdns_remove_scheduled_answer i type service r)"
| change: "responder_step r (r\<lparr>r_server := sv, r_items := items\<rparr>)"

definition sound :: "responder \<Rightarrow> bool" where
  "sound r \<longleftrightarrow> in_order (r_queue r) \<and> (\<forall>i. served_at r i)"

definition fresh_responder :: "mdns_server \<Rightarrow> pcb_id list \<Rightarrow> responder" where
  "fresh_responder sv ifs =
     \<lparr>r_server = sv, r_items = [], r_ifs = ifs, r_ready = (\<lambda>_. False),
      r_pcbs = (\<lambda>_. \<lparr>p_state = PCB_OFF, p_services = [], p_probe_ip = False, p_probe_running = False, p_failed_probes = 0\<rparr>),
      r_queue = [], r_actions = [], r_sent = []\<rparr>"

inductive reached :: "responder \<Rightarrow> bool" where
  start: "reached (fresh_responder sv ifs)"
| step: "reached r \<Longrightarrow> responder_step r r' \<Longrightarrow> reached r'"

lemma sound_fresh: "sound (fresh_responder sv ifs)"
  unfolding sound_def fresh_responder_def in_order_def served_at_def placed_def by simp

lemma served_of_one:
  assumes "served_at r' i \<and> others i r r'" "\<And>j. served_at r j"
  shows "served_at r' j"
  using assms others_served[of i r r' j] by (cases "j = i") auto

lemma served_cong:
  "r_ifs r' = r_ifs r \<Longrightarrow> r_ready r' = r_ready r \<Longrightarrow> r_pcbs r' = r_pcbs r \<Longrightarrow> x_pcb ` set (r_queue r') = x_pcb ` set (r_queue r) \<Longrightarrow> served_at r' i = served_at r i"
  unfolding served_at_def placed_def has_image by simp

lemma probe_all_serves:
  assumes g: "good c" and e: "mdns_probe_all_pcbs c now ss ip clear r = Some r'"
    and p: "\<And>i. placed r i" "\<And>i. i \<notin> set (r_ifs r) \<Longrightarrow> served_at r i"
  shows "served_at r' j"
proof (rule on_pcbs_serves[where P = placed, OF _ _ _ e[unfolded mdns_probe_all_pcbs_def] _ p])
  show "placed r i" if "served_at r i" for i r using that unfolding served_at_def by blast
  show "placed r j = placed r' j" if "others i r r'" "j \<noteq> i" for i j r r' using others_served[OF that] by blast
  show "served_at r' i \<and> others i r r'"
    if "probe_one c now ss ip clear i r = Some r'" "i \<in> set (r_ifs r)" "placed r i" for i r r'
    by (rule probe_one_serves[OF _ that(2,3,1)]) (rule good_mem[OF g])
qed simp

lemma restart_all_serves:
  assumes g: "good c" and e: "mdns_restart_all_pcbs c now r = Some r'" and p: "\<And>i. placed r i"
  shows "served_at r' j"
proof (rule probe_all_serves[OF g e[unfolded mdns_restart_all_pcbs_def]])
  show *: "placed (mdns_clear_tx_queue_head r) i" for i using p[of i] unfolding placed_def mdns_clear_tx_queue_head_def by simp
  show "served_at (mdns_clear_tx_queue_head r) i" if "i \<notin> set (r_ifs (mdns_clear_tx_queue_head r))" for i
    using that *[of i] unfolding served_at_def placed_def by blast
qed

lemma announce_all_serves:
  assumes g: "good c" and e: "mdns_announce_all_pcbs c now ss ip r = Some r'" and p: "\<And>i. served_at r i"
  shows "served_at r' j"
proof (rule on_pcbs_serves[where P = served_at, OF _ _ _ e[unfolded mdns_announce_all_pcbs_def] _ p p])
  show "served_at r j = served_at r' j" if "others i r r'" "j \<noteq> i" for i j r r' using others_served[OF that] by blast
  show "served_at r' i \<and> others i r r'"
    if "mdns_announce_pcb (c_mem c i) (c_addr c i) now (c_random c i) i ss ip r = Some r'" "i \<in> set (r_ifs r)" "served_at r i" for i r r'
    by (rule announce_serves[OF _ that(2,3,1)]) (rule good_mem[OF g])
qed simp_all

lemma enable_serves:
  assumes m: "enough m" and a: "i \<in> set (r_ifs r)" and s: "\<And>j. served_at r j" and e: "mdns_enable_pcb opened m addr now rnd i r = Some r'"
  shows "served_at r' j"
proof (cases "\<not> r_ready r i \<and> \<not> opened")
  case True
  then have r': "r' = set_pcb i ((r_pcbs r i)\<lparr>p_failed_probes := 0\<rparr>) r" using e unfolding mdns_enable_pcb_def by simp
  show ?thesis using s[of j] unfolding r' served_at_def placed_def by auto
next
  case False
  let ?r = "r\<lparr>r_ready := (r_ready r)(i := True)\<rparr>"
  have e1: "mdns_init_pcb_probe m addr now rnd i (r_items r) True ?r = Some r'"
    using e False unfolding mdns_enable_pcb_def mdns_restart_pcb_def by (auto split: if_splits simp: fun_upd_idem)
  have "served_at r' i \<and> others i ?r r'" by (rule probe_serves[OF m _ _ e1]) (use a in simp_all)
  moreover have "others i r ?r" unfolding others_def has_image by simp
  ultimately show ?thesis using served_of_one others_trans s by meson
qed

lemma disable_serves:
  assumes m: "enough m" and a: "i \<in> set (r_ifs r)" and o: "(mdns_get_other_if e (fst i), snd i) \<in> set (r_ifs r)" "mdns_get_other_if e (fst i) \<noteq> fst i"
    and s: "\<And>j. served_at r j" and f: "mdns_disable_pcb e opened m addr now rnd i r = Some r'"
  shows "served_at r' j"
proof -
  have off: "served_at (set_state i PCB_OFF q) j" if "served_at q j" for q
    using that unfolding served_at_def placed_def set_state_def by auto
  show ?thesis
  proof (cases "r_ready r i")
    case False
    then have "r' = set_state i PCB_OFF r" using f unfolding mdns_disable_pcb_def by simp
    then show ?thesis using off s by simp
  next
    case ready: True
    let ?r = "mdns_pcb_deinit_local i (mdns_clear_pcb_tx_queue_head i r)"
    let ?o = "(mdns_get_other_if e (fst i), snd i)"
    have oth: "others i r ?r"
      unfolding others_def has_image mdns_pcb_deinit_local_def clear_pcb_queue by auto
    have "served_at ?r i" unfolding served_at_def placed_def mdns_pcb_deinit_local_def by simp
    then have s1: "served_at ?r k" for k using oth served_of_one[OF _ s] by blast
    show ?thesis
    proof (cases "fst ?o \<noteq> e_max_interfaces e \<and> p_state (r_pcbs ?r ?o) = PCB_DUP")
      case False
      then have "r' = set_state i PCB_OFF ?r" using f ready unfolding mdns_disable_pcb_def by (auto simp: Let_def split: if_splits)
      then show ?thesis using off s1 by simp
    next
      case True
      let ?r2 = "set_state ?o PCB_OFF ?r"
      obtain q where q: "mdns_enable_pcb opened m addr now rnd ?o ?r2 = Some q" and r': "r' = set_state i PCB_OFF q"
        using f ready True unfolding mdns_disable_pcb_def by (auto simp: Let_def)
      have s2: "served_at ?r2 k" for k using s1[of k] unfolding served_at_def placed_def set_state_def by auto
      have "?o \<in> set (r_ifs ?r2)" using o(1) oth unfolding others_def set_state_def by simp
      from enable_serves[OF m this s2 q] show ?thesis unfolding r' by (rule off)
    qed
  qed
qed

lemma again_serves:
  assumes "x_pcb p = i" "waiting (p_state (r_pcbs r i)) \<longrightarrow> r_ready r i \<and> i \<in> set (r_ifs r)" "waiting (p_state (r_pcbs r i))"
  shows "served_at (again now p ms i r) i \<and> others i r (again now p ms i r)"
  using assms unfolding again_def served_at_def placed_def others_def set_state_def by (auto simp: schedule_has)

lemma handle_serves:
  assumes m: "enough m" and s: "\<And>j. served_at (r\<lparr>r_queue := p # r_queue r\<rparr>) j" and e: "mdns_tx_handle_packet m a now p r = Some r'"
  shows "served_at r' j"
proof -
  let ?i = "x_pcb p" and ?r = "dispatch p r"
  have pl: "waiting (p_state (r_pcbs r ?i)) \<longrightarrow> r_ready r ?i \<and> ?i \<in> set (r_ifs r)"
    using s[of ?i] unfolding served_at_def placed_def by simp
  have oth: "served_at r j" if "j \<noteq> ?i" using s[of j] that unfolding served_at_def placed_def has_image by auto
  have d: "r_pcbs ?r = r_pcbs r" "r_ready ?r = r_ready r" "r_ifs ?r = r_ifs r" "r_queue ?r = r_queue r" unfolding dispatch_def by simp_all
  have od: "others ?i r ?r" unfolding others_def has_image d by simp
  have fin: "served_at r' j" if "served_at r' ?i" "others ?i r r'"
    using that oth others_served[OF that(2), of j] by (cases "j = ?i") auto
  have ag: "served_at r' j" if "r' = again now q ms ?i ?r" "x_pcb q = ?i" "waiting (p_state (r_pcbs r ?i))" for q ms
    using again_serves[of q ?i ?r now ms] that pl d others_trans[OF od] fin by auto
  show ?thesis
  proof (cases "p_state (r_pcbs r ?i)")
    case PCB_OFF
    then show ?thesis using e fin unfolding mdns_tx_handle_packet_def served_at_def placed_def by simp
  next
    case PCB_PROBE_1
    then have "r' = again now (all_multicast p) 250 ?i ?r" using e unfolding mdns_tx_handle_packet_def by simp
    then show ?thesis by (rule ag) (simp_all add: all_multicast_def PCB_PROBE_1)
  next
    case PCB_PROBE_2
    then have "r' = again now p 250 ?i ?r" using e unfolding mdns_tx_handle_packet_def by simp
    then show ?thesis by (rule ag) (simp_all add: PCB_PROBE_2)
  next
    case PCB_ANNOUNCE_1
    then have "r' = again now p 1000 ?i ?r" using e unfolding mdns_tx_handle_packet_def by simp
    then show ?thesis by (rule ag) (simp_all add: PCB_ANNOUNCE_1)
  next
    case PCB_ANNOUNCE_2
    then have "r' = again now p 1000 ?i ?r" using e unfolding mdns_tx_handle_packet_def by simp
    then show ?thesis by (rule ag) (simp_all add: PCB_ANNOUNCE_2)
  next
    case PCB_PROBE_3
    obtain y where y: "mdns_create_announce_from_probe m a (r_server r) p = Some y"
      using e PCB_PROBE_3 unfolding mdns_tx_handle_packet_def by (auto simp: Let_def)
    obtain q where q: "y = Some q" using create_from_probe_ok[OF m] y by (cases y) auto
    have x: "x_pcb q = ?i" using created_for(3) y q by blast
    let ?r2 = "set_pcb ?i (probe_done (r_pcbs ?r ?i)) ?r"
    have r': "r' = again now q 250 ?i ?r2" using e PCB_PROBE_3 y q unfolding mdns_tx_handle_packet_def by (simp add: Let_def)
    have o2: "others ?i r ?r2" using od unfolding others_def by auto
    have "p_state (r_pcbs ?r2 ?i) = PCB_PROBE_3" using PCB_PROBE_3 d unfolding probe_done_def by simp
    then have "served_at r' ?i \<and> others ?i ?r2 r'" unfolding r' by (intro again_serves) (use x pl d PCB_PROBE_3 in simp_all)
    then show ?thesis using others_trans[OF o2] fin by blast
  next
    case PCB_ANNOUNCE_3
    then have "r' = set_state ?i PCB_RUNNING ?r" using e unfolding mdns_tx_handle_packet_def by simp
    then show ?thesis using od by (intro fin) (auto simp: served_at_def placed_def set_state_def others_def)
  next
    case PCB_DUP
    then have "r' = ?r" using e unfolding mdns_tx_handle_packet_def by simp
    then show ?thesis using od PCB_DUP d by (intro fin) (auto simp: served_at_def placed_def)
  next
    case PCB_INIT
    then have "r' = ?r" using e unfolding mdns_tx_handle_packet_def by simp
    then show ?thesis using od PCB_INIT d by (intro fin) (auto simp: served_at_def placed_def)
  next
    case PCB_RUNNING
    then have "r' = ?r" using e unfolding mdns_tx_handle_packet_def by simp
    then show ?thesis using od PCB_RUNNING d by (intro fin) (auto simp: served_at_def placed_def)
  qed
qed

lemma execute_serves:
  assumes m: "enough m" and s: "\<And>j. served_at r j" and e: "execute_tx_handle m addr now a r = Some r'"
  shows "served_at r' j"
proof (cases "r_queue r")
  case Nil
  then show ?thesis using e s unfolding execute_tx_handle_def by simp
next
  case (Cons p ps)
  show ?thesis
  proof (cases "x_addr p = a \<and> x_queued p")
    case False
    then have "r' = r" using e Cons unfolding execute_tx_handle_def by (auto split: if_splits)
    then show ?thesis using s by simp
  next
    case True
    then have h: "mdns_tx_handle_packet m addr now (p\<lparr>x_queued := False\<rparr>) (r\<lparr>r_queue := ps\<rparr>) = Some r'"
      using e Cons unfolding execute_tx_handle_def by simp
    have "served_at (r\<lparr>r_queue := p\<lparr>x_queued := False\<rparr> # ps\<rparr>) k" for k
      using s[of k] Cons by (subst served_cong[of _ r]) auto
    then show ?thesis by (intro handle_serves[OF m _ h]) simp
  qed
qed

lemma execute_in_order:
  "execute_tx_handle m addr now a r = Some r' \<Longrightarrow> in_order (r_queue r) \<Longrightarrow> in_order (r_queue r')"
  unfolding execute_tx_handle_def
  by (auto split: list.splits if_splits elim!: handle_in_order) (auto simp: in_order_def)

lemma bye_all_same: "mdns_send_bye c ss ip r = Some r' \<Longrightarrow> r' = r\<lparr>r_sent := r_sent r'\<rparr>"
proof -
  have o: "on_pcbs f is r = Some r' \<Longrightarrow> r' = r\<lparr>r_sent := r_sent r'\<rparr>"
    if "\<And>i r r'. f i r = Some r' \<Longrightarrow> r' = r\<lparr>r_sent := r_sent r'\<rparr>" for f "is" r r'
  proof (induction "is" arbitrary: r)
    case (Cons i "is")
    then obtain r1 where "f i r = Some r1" "on_pcbs f is r1 = Some r'" by (auto simp: bind_eq_Some_conv)
    then show ?case using that[of i r r1] Cons.IH[of r1] by (metis responder.surjective responder.update_convs(8))
  qed simp
  assume "mdns_send_bye c ss ip r = Some r'"
  then show ?thesis unfolding mdns_send_bye_def by (auto split: if_splits dest!: o[rotated] bye_same)
qed

lemma bye_fields:
  assumes "mdns_send_bye c ss ip r = Some r'"
  shows "r_queue r' = r_queue r" "r_ifs r' = r_ifs r" "r_ready r' = r_ready r" "r_pcbs r' = r_pcbs r"
  by (subst bye_all_same[OF assms], simp)+

lemma remove_answer_same:
  "map x_send_at (r_queue (mdns_remove_scheduled_answer i t sv r)) = map x_send_at (r_queue r)"
  "x_pcb ` set (r_queue (mdns_remove_scheduled_answer i t sv r)) = x_pcb ` set (r_queue r)"
proof -
  have *: "map f (r_queue (mdns_remove_scheduled_answer i t sv r)) = map f (r_queue r)" if "\<And>p as. f (p\<lparr>x_answers := as\<rparr>) = f p" for f :: "tx \<Rightarrow> 'b"
    unfolding mdns_remove_scheduled_answer_def using that by simp
  show "map x_send_at (r_queue (mdns_remove_scheduled_answer i t sv r)) = map x_send_at (r_queue r)" by (rule *) simp
  have "map x_pcb (r_queue (mdns_remove_scheduled_answer i t sv r)) = map x_pcb (r_queue r)" by (rule *) simp
  then show "x_pcb ` set (r_queue (mdns_remove_scheduled_answer i t sv r)) = x_pcb ` set (r_queue r)" by (metis set_map)
qed

lemma scheduler_serves: "served_at (mdns_scheduler_run m room now r) j = served_at r j"
proof (rule served_cong)
  show "x_pcb ` set (r_queue (mdns_scheduler_run m room now r)) = x_pcb ` set (r_queue r)"
    using scheduler_same[of m room now r] by (metis set_map)
qed (simp_all add: mdns_scheduler_run_def split: prod.splits)

lemma enable_in_order: "mdns_enable_pcb opened m addr now rnd i r = Some r' \<Longrightarrow> in_order (r_queue r) \<Longrightarrow> in_order (r_queue r')"
  unfolding mdns_enable_pcb_def mdns_restart_pcb_def by (auto split: if_splits elim!: probe_in_order)

lemma disable_in_order: "mdns_disable_pcb e opened m addr now rnd i r = Some r' \<Longrightarrow> in_order (r_queue r) \<Longrightarrow> in_order (r_queue r')"
  unfolding mdns_disable_pcb_def clear_pcb_queue mdns_pcb_deinit_local_def
  by (auto simp: Let_def in_order_filter split: if_splits elim!: enable_in_order)

lemma probe_all_in_order:
  "mdns_probe_all_pcbs c now ss ip clear r = Some r' \<Longrightarrow> in_order (r_queue r) \<Longrightarrow> in_order (r_queue r')"
  unfolding mdns_probe_all_pcbs_def by (rule on_pcbs_in_order[where f = "probe_one c now ss ip clear"]) (rule probe_one_in_order)

lemma restart_all_in_order: "mdns_restart_all_pcbs c now r = Some r' \<Longrightarrow> in_order (r_queue r')"
  unfolding mdns_restart_all_pcbs_def by (erule probe_all_in_order) (simp add: mdns_clear_tx_queue_head_def in_order_def)

lemma announce_all_in_order:
  "mdns_announce_all_pcbs c now ss ip r = Some r' \<Longrightarrow> in_order (r_queue r) \<Longrightarrow> in_order (r_queue r')"
  unfolding mdns_announce_all_pcbs_def 
  by (rule on_pcbs_in_order[where f = "\<lambda>i. mdns_announce_pcb (c_mem c i) (c_addr c i) now (c_random c i) i ss ip"]) (rule announce_in_order)

lemma step_in_order: "responder_step r r' \<Longrightarrow> in_order (r_queue r) \<Longrightarrow> in_order (r_queue r')"
proof (induction rule: responder_step.induct)
  case (restart_no_instance c now r r')
  then show ?case unfolding mdns_restart_all_pcbs_no_instance_def by (auto split: if_splits elim!: probe_all_in_order)
next
  case (bye c ss ip r r')
  then show ?case by (simp add: bye_fields)
next
  case (schedule r m room now)
  then show ?case using scheduler_same in_order_same by blast
next
  case (handle m r a as addr now r')
  then show ?case using execute_in_order[of m addr now a "r\<lparr>r_actions := as\<rparr>" r'] by simp
next
  case (answered r i type service)
  then show ?case using remove_answer_same(1) in_order_same by blast
qed (auto intro: restart_all_in_order probe_all_in_order announce_all_in_order enable_in_order disable_in_order probe_in_order schedule_in_order)

lemma served_placed: "served_at r i \<Longrightarrow> placed r i"
  unfolding served_at_def by blast

lemma step_serves: "responder_step r r' \<Longrightarrow> (\<And>j. served_at r j) \<Longrightarrow> served_at r' j"
proof (induction rule: responder_step.induct)
  case (restart c now r r')
  show ?case by (rule restart_all_serves[OF restart(1,2)]) (rule served_placed[OF restart(3)])
next
  case (restart_no_instance c now r r')
  show ?case
  proof (cases "no_instance r = []")
    case True
    then have "r' = r" using restart_no_instance(2) unfolding mdns_restart_all_pcbs_no_instance_def by simp
    then show ?thesis using restart_no_instance(3) by simp
  next
    case False
    then have "mdns_probe_all_pcbs c now (no_instance r) False True r = Some r'"
      using restart_no_instance(2) unfolding mdns_restart_all_pcbs_no_instance_def by simp
    then show ?thesis
      by (rule probe_all_serves[OF restart_no_instance(1)]) (rule served_placed[OF restart_no_instance(3)], rule restart_no_instance(3))
  qed
next
  case (probe c now ss ip clear r r')
  show ?case by (rule probe_all_serves[OF probe(1,2)]) (rule served_placed[OF probe(3)], rule probe(3))
next
  case (announce c now ss ip r r')
  show ?case by (rule announce_all_serves[OF announce])
next
  case (bye c ss ip r r')
  have "served_at r' j = served_at r j" by (rule served_cong) (simp_all add: bye_fields[OF bye(1)])
  then show ?case using bye(2) by simp
next
  case (enable m i r opened a now rnd r')
  show ?case by (rule enable_serves[OF enable(1,2,4,3)])
next
  case (disable m i r e opened a now rnd r')
  show ?case by (rule disable_serves[OF disable(1-4) disable(6) disable(5)])
next
  case (schedule r m room now)
  then show ?case by (simp only: scheduler_serves)
next
  case (handle m r a as addr now r')
  have "served_at (r\<lparr>r_actions := as\<rparr>) k = served_at r k" for k by (rule served_cong) simp_all
  then show ?case using execute_serves[OF handle(1) _ handle(3)] handle(4) by simp
next
  case (reply r p now ms)
  from reply(2)[of j] show ?case unfolding served_at_def placed_def by (auto simp: schedule_has)
next
  case (collision m i r a now rnd ss r')
  have "served_at r' i \<and> others i r r'" by (rule probe_serves[OF collision(1,3,2,4)])
  then show ?case by (rule served_of_one[OF _ collision(5)])
next
  case (answered r i type service)
  have "served_at (mdns_remove_scheduled_answer i type service r) j = served_at r j"
    by (rule served_cong) (simp_all add: remove_answer_same, simp_all add: mdns_remove_scheduled_answer_def)
  then show ?case using answered by simp
next
  case (change r items sv)
  have "served_at (r\<lparr>r_server := sv, r_items := items\<rparr>) j = served_at r j" by (rule served_cong) simp_all
  then show ?case using change by simp
qed

lemma reached_sound: "reached r \<Longrightarrow> sound r"
proof (induction rule: reached.induct)
  case (start sv ifs)
  show ?case by (rule sound_fresh)
next
  case (step r r')
  then show ?case using step_in_order[OF step(2)] step_serves[OF step(2)] unfolding sound_def by blast
qed

end
