(* ===== verification/MdnsAnnounce.thy ===== *)
theory MdnsAnnounce
  imports MdnsProbe
begin

text \<open>
  The life of an interface that is started (managed_components/espressif__mdns/mdns.c): three probes, three announcements, then it runs; what is announced is what was probed. And the ways in
  which this fails: replies that are taken for announcements, and memory that is missing at one moment.
\<close>

section \<open>Packets that can be built\<close>

definition named_hosts :: "mdns_server \<Rightarrow> bool" where
  "named_hosts sv \<longleftrightarrow> sv_hostname sv \<noteq> None \<and> (\<forall>h\<in>set (sv_hosts sv). h_hostname (snd h) \<noteq> None)"

lemma find_host_total: "\<forall>h\<in>set hs. h_hostname (snd h) \<noteq> None \<Longrightarrow> find_host n hs \<noteq> None"
  by (induction n hs rule: find_host.induct) auto

lemma host_item_total: "named_hosts sv \<Longrightarrow> mdns_get_host_item sv n \<noteq> None"
  unfolding named_hosts_def mdns_get_host_item_def using find_host_total by (auto split: option.splits)

lemma append_hosts_total: "named_hosts sv \<Longrightarrow> append_hosts m sv is f b d \<noteq> None"
  by (induction "is" arbitrary: d) (auto dest: host_item_total split: option.splits prod.splits bool.splits)

lemma append_host_list_total: "named_hosts sv \<Longrightarrow> mdns_append_host_list_in_services m sv ss f b d \<noteq> None"
  unfolding mdns_append_host_list_in_services_def using host_item_total append_hosts_total by auto

lemma create_probe_total:
  assumes "enough m" "named_hosts sv"
  shows "\<exists>p. mdns_create_probe_packet m a sv i ss u ip = Some (Some p)"
proof -
  have "mdns_create_probe_packet m a sv i ss u ip \<noteq> None"
    unfolding mdns_create_probe_packet_def using append_host_list_total[OF assms(2)]
    by (auto simp: Let_def split: option.splits prod.splits bool.splits)
  then show ?thesis using create_probe_ok[OF assms(1), of a sv i ss u ip] by auto
qed

text \<open>A service record in the list of a probe always has its service.\<close>

definition srv_have_service :: "out_answer list \<Rightarrow> bool" where
  "srv_have_service as \<longleftrightarrow> (\<forall>a\<in>set as. an_type a = MDNS_TYPE_SRV \<longrightarrow> an_service a \<noteq> None)"

lemma alloc_keeps:
  "mdns_alloc_answer m t s h f b (n, d) = (ok, n1, d1) \<Longrightarrow> (t = MDNS_TYPE_SRV \<longrightarrow> s \<noteq> None) \<Longrightarrow> srv_have_service d \<Longrightarrow> srv_have_service d1"
  unfolding mdns_alloc_answer_def srv_have_service_def by (auto split: if_splits)

lemma types_distinct: "MDNS_TYPE_A \<noteq> MDNS_TYPE_SRV" "MDNS_TYPE_AAAA \<noteq> MDNS_TYPE_SRV"
  unfolding MDNS_TYPE_A_def MDNS_TYPE_AAAA_def MDNS_TYPE_SRV_def by simp_all

lemma append_host_keeps:
  "mdns_append_host m h f b (n, d) = (ok, n1, d1) \<Longrightarrow> srv_have_service d \<Longrightarrow> srv_have_service d1"
  unfolding mdns_append_host_def and_then_def
  by (auto split: prod.splits bool.splits simp: types_distinct dest!: alloc_keeps)

lemma append_hosts_keep:
  "append_hosts m sv is f b (n, d) = Some (ok, n1, d1) \<Longrightarrow> srv_have_service d \<Longrightarrow> srv_have_service d1"
proof (induction "is" arbitrary: n d)
  case (Cons i "is")
  then obtain h where h: "mdns_get_host_item sv (service_hostname sv i) = Some h" by (auto split: option.splits)
  obtain ok2 n2 d2 where s: "mdns_append_host m h f b (n, d) = (ok2, n2, d2)" by (cases "mdns_append_host m h f b (n, d)") auto
  have "srv_have_service d2" using append_host_keeps[OF s Cons.prems(2)] .
  then show ?case using Cons.IH[of n2 d2] Cons.prems h s by (cases ok2) auto
qed simp

lemma append_host_list_keeps:
  "mdns_append_host_list_in_services m sv ss f b (n, d) = Some (ok, n1, d1) \<Longrightarrow> srv_have_service d \<Longrightarrow> srv_have_service d1"
  unfolding mdns_append_host_list_in_services_def
  by (auto split: if_splits option.splits dest: append_host_keeps append_hosts_keep)

lemma probe_services_keep:
  "probe_services m sv is u n qs d = Some (n1, qs1, d1) \<Longrightarrow> srv_have_service d \<Longrightarrow> srv_have_service d1"
proof (induction "is" arbitrary: n qs d)
  case (Cons i "is")
  let ?q = "\<lparr>k_type = MDNS_TYPE_ANY, k_unicast = u, k_host = instance_ref sv i, k_service = Some (SvcService i), k_proto = Some (SvcProto i), k_domain = Some LocalDomain\<rparr>"
  obtain ok2 n2 d2 where s: "mdns_alloc_answer m MDNS_TYPE_SRV (Some i) None False False (n + 1, d) = (ok2, n2, d2)"
    by (cases "mdns_alloc_answer m MDNS_TYPE_SRV (Some i) None False False (n + 1, d)") auto
  have "srv_have_service d2" by (rule alloc_keeps[OF s _ Cons.prems(2)]) simp
  then show ?case using Cons.IH[of "n + 1" qs d] Cons.IH[of n2 "qs @ [?q]" d2] Cons.prems s
    by (cases ok2) (auto simp: Let_def split: if_splits)
qed simp

text \<open>Every question of the first probe asks for a unicast answer.\<close>

lemma probe_services_unicast:
  "probe_services m sv is u n qs d = Some (n1, qs1, d1) \<Longrightarrow> \<forall>q\<in>set qs. k_unicast q = u \<Longrightarrow> \<forall>q\<in>set qs1. k_unicast q = u"
proof (induction "is" arbitrary: n qs d)
  case (Cons i "is")
  let ?q = "\<lparr>k_type = MDNS_TYPE_ANY, k_unicast = u, k_host = instance_ref sv i, k_service = Some (SvcService i), k_proto = Some (SvcProto i), k_domain = Some LocalDomain\<rparr>"
  obtain ok2 n2 d2 where s: "mdns_alloc_answer m MDNS_TYPE_SRV (Some i) None False False (n + 1, d) = (ok2, n2, d2)"
    by (cases "mdns_alloc_answer m MDNS_TYPE_SRV (Some i) None False False (n + 1, d)") auto
  show ?case using Cons.IH[of "n + 1" qs d] Cons.IH[of n2 "qs @ [?q]" d2] Cons.prems s
    by (cases ok2) (auto simp: Let_def split: if_splits)
qed simp

lemma host_question_unicast:
  "mdns_append_host_question m h u (n, qs) = (ok, n1, qs1) \<Longrightarrow> \<forall>q\<in>set qs. k_unicast q = u \<Longrightarrow> \<forall>q\<in>set qs1. k_unicast q = u"
  unfolding mdns_append_host_question_def by (auto simp: Let_def split: if_splits)

lemma service_host_questions_unicast:
  "service_host_questions m sv is u (n, qs) = (ok, n1, qs1) \<Longrightarrow> \<forall>q\<in>set qs. k_unicast q = u \<Longrightarrow> \<forall>q\<in>set qs1. k_unicast q = u"
proof (induction "is" arbitrary: n qs)
  case (Cons i "is")
  obtain ok2 n2 qs2 where s: "mdns_append_host_question m (hostname_ref sv i) u (n, qs) = (ok2, n2, qs2)"
    by (cases "mdns_append_host_question m (hostname_ref sv i) u (n, qs)") auto
  show ?case using Cons.IH[of n2 qs2] host_question_unicast[OF s] Cons.prems s by (cases ok2) (auto simp: and_then_def)
qed simp

lemma host_questions_unicast:
  assumes "mdns_append_host_questions_for_services m sv ss u (n, qs) = (ok, n1, qs1)" "\<forall>q\<in>set qs. k_unicast q = u"
  shows "\<forall>q\<in>set qs1. k_unicast q = u"
proof -
  obtain ok2 n2 qs2 where s: "mdns_append_host_question m (Some ServerHostname) u (n, qs) = (ok2, n2, qs2)"
    by (cases "mdns_append_host_question m (Some ServerHostname) u (n, qs)") auto
  show ?thesis
  proof (cases "str_null_or_empty (sv_hostname sv)")
    case True
    then have "service_host_questions m sv ss u (n, qs) = (ok, n1, qs1)"
      using assms(1) unfolding mdns_append_host_questions_for_services_def by simp
    from service_host_questions_unicast[OF this assms(2)] show ?thesis .
  next
    case False
    then show ?thesis
      using assms(1) host_question_unicast[OF s assms(2)] service_host_questions_unicast[of m sv ss u n2 qs2 ok n1 qs1] s
      unfolding mdns_append_host_questions_for_services_def and_then_def by (cases ok2) auto
  qed
qed

text \<open>Every service with a name gets its record into the list, as two questions are the same only if they are about the same service.\<close>

definition probed :: "nat \<Rightarrow> out_answer list \<Rightarrow> bool" where
  "probed i as \<longleftrightarrow> (\<exists>a\<in>set as. an_type a = MDNS_TYPE_SRV \<and> an_service a = Some i)"

lemma alloc_true: "mdns_alloc_answer m t s h f b (n, d) = (ok, n1, d1) \<Longrightarrow> set d \<subseteq> set d1 \<and> (ok \<longrightarrow> (\<exists>a\<in>set d1. an_type a = t \<and> an_service a = s))"
  unfolding mdns_alloc_answer_def by (auto split: if_splits simp: list_ex_iff)

lemma probed_mono: "probed i as \<Longrightarrow> set as \<subseteq> set bs \<Longrightarrow> probed i bs"
  unfolding probed_def by blast

lemma probe_services_all:
  "probe_services m sv is u n qs d = Some (n1, qs1, d1) \<Longrightarrow> (\<And>q i. q \<in> set qs \<Longrightarrow> k_service q = Some (SvcService i) \<Longrightarrow> probed i d) \<Longrightarrow>
   set d \<subseteq> set d1 \<and> (\<forall>i\<in>set is. instance_ref sv i \<noteq> None \<longrightarrow> probed i d1)"
proof (induction "is" arbitrary: n qs d)
  case (Cons i "is")
  let ?q = "\<lparr>k_type = MDNS_TYPE_ANY, k_unicast = u, k_host = instance_ref sv i, k_service = Some (SvcService i), k_proto = Some (SvcProto i), k_domain = Some LocalDomain\<rparr>"
  have m: "m n" using Cons.prems(1) by (simp split: if_splits)
  show ?case
  proof (cases "instance_ref sv i = None \<or> mdns_question_exists ?q qs")
    case True
    then have "probe_services m sv is u (n + 1) qs d = Some (n1, qs1, d1)" using Cons.prems(1) m by (simp add: Let_def)
    note IH = Cons.IH[OF this Cons.prems(2)]
    moreover have "probed i d" if "instance_ref sv i \<noteq> None"
      using True that Cons.prems(2) unfolding mdns_question_exists_def by (auto simp: list_ex_iff)
    ultimately show ?thesis using probed_mono by auto
  next
    case False
    obtain ok2 n2 d2 where s: "mdns_alloc_answer m MDNS_TYPE_SRV (Some i) None False False (n + 1, d) = (ok2, n2, d2)"
      by (cases "mdns_alloc_answer m MDNS_TYPE_SRV (Some i) None False False (n + 1, d)") auto
    have ok: "ok2" and p: "probe_services m sv is u n2 (qs @ [?q]) d2 = Some (n1, qs1, d1)"
      using Cons.prems(1) m False s by (cases ok2; simp add: Let_def)+
    have d2: "set d \<subseteq> set d2" "probed i d2" using alloc_true[OF s] ok unfolding probed_def by auto
    have "probed j d2" if "q \<in> set (qs @ [?q])" "k_service q = Some (SvcService j)" for q j
      using that Cons.prems(2)[of q j] d2 probed_mono by auto
    have "set d2 \<subseteq> set d1 \<and> (\<forall>i\<in>set is. instance_ref sv i \<noteq> None \<longrightarrow> probed i d1)"
      by (rule Cons.IH[OF p]) (fact \<open>\<And>q j. q \<in> set (qs @ [?q]) \<Longrightarrow> k_service q = Some (SvcService j) \<Longrightarrow> probed j d2\<close>)
    then show ?thesis using d2 probed_mono[OF d2(2)] by auto
  qed
qed simp

lemma append_host_true: "mdns_append_host m h f b (n, d) = (ok, n1, d1) \<Longrightarrow> set d \<subseteq> set d1"
proof -
  assume a: "mdns_append_host m h f b (n, d) = (ok, n1, d1)"
  obtain ok2 n2 d2 where s: "mdns_alloc_answer m MDNS_TYPE_A None h f b (n, d) = (ok2, n2, d2)"
    by (cases "mdns_alloc_answer m MDNS_TYPE_A None h f b (n, d)") auto
  show ?thesis using a alloc_true[OF s] alloc_true[of m MDNS_TYPE_AAAA None h f b n2 d2] s
    unfolding mdns_append_host_def and_then_def by (cases ok2) fastforce+
qed

lemma append_hosts_true: "append_hosts m sv is f b (n, d) = Some (ok, n1, d1) \<Longrightarrow> set d \<subseteq> set d1"
proof (induction "is" arbitrary: n d)
  case (Cons i "is")
  then obtain h where h: "mdns_get_host_item sv (service_hostname sv i) = Some h" by (auto split: option.splits)
  obtain ok2 n2 d2 where s: "mdns_append_host m h f b (n, d) = (ok2, n2, d2)" by (cases "mdns_append_host m h f b (n, d)") auto
  show ?case using append_host_true[OF s] Cons.IH[of n2 d2] Cons.prems h s by (cases ok2) auto
qed simp

lemma append_host_list_true: "mdns_append_host_list_in_services m sv ss f b (n, d) = Some (ok, n1, d1) \<Longrightarrow> set d \<subseteq> set d1"
  unfolding mdns_append_host_list_in_services_def
  by (auto split: if_splits option.splits dest: append_host_true append_hosts_true)

lemma created_probe:
  assumes "mdns_create_probe_packet m a sv i ss u ip = Some (Some p)"
  shows "x_pcb p = i \<and> x_flags p = 0 \<and> x_answers p = [] \<and> x_additional p = [] \<and> \<not> x_queued p \<and> srv_have_service (x_servers p)
         \<and> (\<forall>q\<in>set (x_questions p). k_unicast q = u) \<and> (\<forall>j\<in>set ss. instance_ref sv j \<noteq> None \<longrightarrow> probed j (x_servers p))"
proof -
  obtain n qs d where s: "probe_services m sv ss u 1 [] [] = Some (n, qs, d)" and m: "m 0"
    using assms unfolding mdns_create_probe_packet_def by (auto simp: Let_def split: if_splits option.splits)
  have k: "srv_have_service d" using probe_services_keep[OF s] by (simp add: srv_have_service_def)
  have q: "\<forall>q\<in>set qs. k_unicast q = u" using probe_services_unicast[OF s] by simp
  have al: "\<forall>j\<in>set ss. instance_ref sv j \<noteq> None \<longrightarrow> probed j d" using probe_services_all[OF s] by simp
  show ?thesis
  proof (cases ip)
    case False
    then show ?thesis using assms s m k q al unfolding mdns_create_probe_packet_def mdns_alloc_packet_default_def by (auto simp: Let_def)
  next
    case True
    obtain ok n1 qs1 where h: "mdns_append_host_questions_for_services m sv ss u (n, qs) = (ok, n1, qs1)"
      by (cases "mdns_append_host_questions_for_services m sv ss u (n, qs)") auto
    have ok: "ok" using assms s m True h unfolding mdns_create_probe_packet_def by (cases ok) (auto simp: Let_def)
    obtain ok2 n2 d2 where l: "mdns_append_host_list_in_services m sv ss False False (n1, d) = Some (ok2, n2, d2)"
      using assms s m True h ok unfolding mdns_create_probe_packet_def by (auto simp: Let_def)
    have p: "p = (mdns_alloc_packet_default a i)\<lparr>x_questions := qs1, x_servers := d2\<rparr>"
      using assms s m True h ok l unfolding mdns_create_probe_packet_def by (cases ok2) (simp_all add: Let_def)
    show ?thesis
      using append_host_list_keeps[OF l k] host_questions_unicast[OF h q] al probed_mono[OF _ append_host_list_true[OF l]]
      unfolding p mdns_alloc_packet_default_def by simp
  qed
qed

section \<open>What is announced is what was probed\<close>

definition four_records :: "nat \<Rightarrow> out_answer list \<Rightarrow> bool" where
  "four_records i as \<longleftrightarrow> (\<forall>t\<in>{MDNS_TYPE_SDPTR, MDNS_TYPE_PTR, MDNS_TYPE_SRV, MDNS_TYPE_TXT}. \<exists>a\<in>set as. an_type a = t \<and> an_service a = Some i \<and> an_host a = None)"

definition both_addresses :: "host_ref option \<Rightarrow> out_answer list \<Rightarrow> bool" where
  "both_addresses h as \<longleftrightarrow> (\<forall>t\<in>{MDNS_TYPE_A, MDNS_TYPE_AAAA}. \<exists>a\<in>set as. an_type a = t \<and> an_service a = None \<and> an_host a = h)"

definition announced :: "mdns_server \<Rightarrow> out_answer \<Rightarrow> out_answer list \<Rightarrow> bool" where
  "announced sv s as \<longleftrightarrow>
     (an_type s = MDNS_TYPE_SRV \<longrightarrow>
        (\<exists>i h. an_service s = Some i \<and> four_records i as \<and> mdns_get_host_item sv (service_hostname sv i) = Some h \<and> both_addresses h as)) \<and>
     (an_type s = MDNS_TYPE_A \<or> an_type s = MDNS_TYPE_AAAA \<longrightarrow> (\<exists>a\<in>set as. an_type a = an_type s \<and> an_service a = None \<and> an_host a = an_host s))"

lemma alloc_grows:
  assumes "enough m"
  shows "\<exists>n1 d1. mdns_alloc_answer m t s h f b (n, d) = (True, n1, d1) \<and> set d \<subseteq> set d1
         \<and> (\<exists>a\<in>set d1. an_type a = t \<and> an_service a = s \<and> an_host a = h)"
  using assms unfolding mdns_alloc_answer_def enough_def by (auto simp: list_ex_iff)

lemma append_host_grows:
  assumes m: "enough m"
  shows "\<exists>n2 d2. mdns_append_host m h f b (n, d) = (True, n2, d2) \<and> set d \<subseteq> set d2 \<and> both_addresses h d2"
proof -
  obtain n1 d1 where 1: "mdns_alloc_answer m MDNS_TYPE_A None h f b (n, d) = (True, n1, d1)" "set d \<subseteq> set d1"
    "\<exists>a\<in>set d1. an_type a = MDNS_TYPE_A \<and> an_service a = None \<and> an_host a = h" using alloc_grows[OF m] by blast
  obtain n2 d2 where 2: "mdns_alloc_answer m MDNS_TYPE_AAAA None h f b (n1, d1) = (True, n2, d2)" "set d1 \<subseteq> set d2"
    "\<exists>a\<in>set d2. an_type a = MDNS_TYPE_AAAA \<and> an_service a = None \<and> an_host a = h" using alloc_grows[OF m] by blast
  show ?thesis using 1 2 unfolding mdns_append_host_def and_then_def both_addresses_def by auto
qed

lemma service_answers_grow:
  assumes m: "enough m"
  shows "\<exists>n4 d4. service_answers m i (n, d) = (True, n4, d4) \<and> set d \<subseteq> set d4 \<and> four_records i d4"
proof -
  let ?has = "\<lambda>t d. \<exists>a\<in>set d. an_type a = t \<and> an_service a = Some i \<and> an_host a = None"
  obtain n1 d1 where 1: "mdns_alloc_answer m MDNS_TYPE_SDPTR (Some i) None False False (n, d) = (True, n1, d1)" "set d \<subseteq> set d1"
    "?has MDNS_TYPE_SDPTR d1" using alloc_grows[OF m] by blast
  obtain n2 d2 where 2: "mdns_alloc_answer m MDNS_TYPE_PTR (Some i) None False False (n1, d1) = (True, n2, d2)" "set d1 \<subseteq> set d2"
    "?has MDNS_TYPE_PTR d2" using alloc_grows[OF m] by blast
  obtain n3 d3 where 3: "mdns_alloc_answer m MDNS_TYPE_SRV (Some i) None True False (n2, d2) = (True, n3, d3)" "set d2 \<subseteq> set d3"
    "?has MDNS_TYPE_SRV d3" using alloc_grows[OF m] by blast
  obtain n4 d4 where 4: "mdns_alloc_answer m MDNS_TYPE_TXT (Some i) None True False (n3, d3) = (True, n4, d4)" "set d3 \<subseteq> set d4"
    "?has MDNS_TYPE_TXT d4" using alloc_grows[OF m] by blast
  have "?has MDNS_TYPE_SDPTR d4" using 1(3) 2(2) 3(2) 4(2) by blast
  moreover have "?has MDNS_TYPE_PTR d4" using 2(3) 3(2) 4(2) by blast
  moreover have "?has MDNS_TYPE_SRV d4" using 3(3) 4(2) by blast
  moreover have "service_answers m i (n, d) = (True, n4, d4)" unfolding service_answers_def and_then_def by (simp add: 1(1) 2(1) 3(1) 4(1))
  moreover have "set d \<subseteq> set d4" using 1(2) 2(2) 3(2) 4(2) by blast
  ultimately show ?thesis using 4(3) unfolding four_records_def by blast
qed

lemma announced_mono: "announced sv s as \<Longrightarrow> set as \<subseteq> set bs \<Longrightarrow> announced sv s bs"
proof -
  assume a: "announced sv s as" and sub: "set as \<subseteq> set bs"
  have "four_records i bs" if "four_records i as" for i using that sub unfolding four_records_def by blast
  moreover have "both_addresses h bs" if "both_addresses h as" for h using that sub unfolding both_addresses_def by blast
  ultimately show ?thesis using a sub unfolding announced_def by blast
qed

lemma announce_servers_all:
  assumes m: "enough m" and sv: "named_hosts sv"
  shows "srv_have_service ss \<Longrightarrow> \<exists>n1 d1. announce_servers m sv ss (n, d) = Some (True, n1, d1) \<and> set d \<subseteq> set d1 \<and> (\<forall>s\<in>set ss. announced sv s d1)"
proof (induction ss arbitrary: n d)
  case (Cons s ss)
  have tl: "srv_have_service ss" using Cons.prems unfolding srv_have_service_def by simp
  consider (srv) "an_type s = MDNS_TYPE_SRV" | (ip) "an_type s = MDNS_TYPE_A \<or> an_type s = MDNS_TYPE_AAAA" "an_type s \<noteq> MDNS_TYPE_SRV"
    | (other) "an_type s \<noteq> MDNS_TYPE_SRV" "an_type s \<noteq> MDNS_TYPE_A" "an_type s \<noteq> MDNS_TYPE_AAAA" by blast
  then show ?case
  proof cases
    case srv
    then obtain i where i: "an_service s = Some i" using Cons.prems unfolding srv_have_service_def by auto
    obtain h where h: "mdns_get_host_item sv (service_hostname sv i) = Some h" using host_item_total[OF sv] by blast
    obtain n1 d1 where 1: "service_answers m i (n, d) = (True, n1, d1)" "set d \<subseteq> set d1" "four_records i d1" using service_answers_grow[OF m] by blast
    obtain n2 d2 where 2: "mdns_append_host m h True False (n1, d1) = (True, n2, d2)" "set d1 \<subseteq> set d2" "both_addresses h d2" using append_host_grows[OF m] by blast
    obtain n3 d3 where 3: "announce_servers m sv ss (n2, d2) = Some (True, n3, d3)" "set d2 \<subseteq> set d3" "\<forall>s\<in>set ss. announced sv s d3" using Cons.IH[OF tl] by blast
    have "four_records i d2" using 1(3) 2(2) unfolding four_records_def by blast
    then have "announced sv s d2" using srv i h 2(3) types_distinct unfolding announced_def by auto
    then have "announced sv s d3" by (rule announced_mono[OF _ 3(2)])
    moreover have "announce_servers m sv (s # ss) (n, d) = Some (True, n3, d3)" using srv i h 1(1) 2(1) 3(1) by simp
    moreover have "set d \<subseteq> set d3" using 1(2) 2(2) 3(2) by blast
    ultimately show ?thesis using 3(3) by (simp del: announce_servers.simps)
  next
    case ip
    obtain n1 d1 where 1: "mdns_alloc_answer m (an_type s) None (an_host s) True False (n, d) = (True, n1, d1)" "set d \<subseteq> set d1"
      "\<exists>a\<in>set d1. an_type a = an_type s \<and> an_service a = None \<and> an_host a = an_host s" using alloc_grows[OF m] by blast
    obtain n3 d3 where 3: "announce_servers m sv ss (n1, d1) = Some (True, n3, d3)" "set d1 \<subseteq> set d3" "\<forall>s\<in>set ss. announced sv s d3" using Cons.IH[OF tl] by blast
    have "announced sv s d1" using ip 1(3) unfolding announced_def by simp
    then have "announced sv s d3" by (rule announced_mono[OF _ 3(2)])
    moreover have "announce_servers m sv (s # ss) (n, d) = Some (True, n3, d3)" using ip 1(1) 3(1) by simp
    moreover have "set d \<subseteq> set d3" using 1(2) 3(2) by blast
    ultimately show ?thesis using 3(3) by (simp del: announce_servers.simps)
  next
    case other
    then have "announced sv s d" for d unfolding announced_def by simp
    then show ?thesis using Cons.IH[OF tl, of n d] other by auto
  qed
qed simp

section \<open>The life of an interface\<close>

text \<open>One turn: the scheduler runs, and the first action that it posted is executed. The time is given as how late after the time of the first packet the scheduler comes.\<close>

definition turn :: "mem \<Rightarrow> nat \<Rightarrow> u32 \<Rightarrow> responder \<Rightarrow> responder option" where
  "turn m addr late r =
     (let now = x_send_at (hd (r_queue r)) + late; r1 = mdns_scheduler_run m (\<lambda>_. True) now r in
      case r_actions r1 of [] \<Rightarrow> Some r1 | a # as \<Rightarrow> execute_tx_handle m addr now a (r1\<lparr>r_actions := as\<rparr>))"

fun turns :: "mem \<Rightarrow> (nat \<times> u32) list \<Rightarrow> responder \<Rightarrow> responder option" where
  "turns m [] r = Some r"
| "turns m ((addr, late) # ts) r = Option.bind (turn m addr late r) (turns m ts)"

lemma late_is_due: "0 <s late \<Longrightarrow> is_due (x_send_at p + late) p" for late :: u32
proof -
  assume "0 <s late"
  then have l: "0 < sint late" by (simp add: word_sless_alt)
  have u: "sint late < 2 ^ 31" using sint_lt[of late] by simp
  have "x_send_at p - (x_send_at p + late) = - late" by simp
  moreover have "sint (- late) = - sint late"
    using l u by (simp add: sint_word_ariths signed_take_bit_int_eq_self)
  ultimately show ?thesis using l unfolding is_due_def by simp
qed

text \<open>An interface in a state with one packet of its own in the queue, and nothing else going on.\<close>

definition stage :: "pcb_id \<Rightarrow> mdns_server \<Rightarrow> pcb_state \<Rightarrow> tx \<Rightarrow> responder \<Rightarrow> bool" where
  "stage i sv s q r \<longleftrightarrow> r_queue r = [q] \<and> r_actions r = [] \<and> \<not> x_queued q \<and> x_pcb q = i \<and> p_state (r_pcbs r i) = s \<and> r_server r = sv"

lemma turn_of_one:
  assumes m: "enough m" and l: "0 <s late" and s: "stage i sv s q r"
  shows "turn m addr late r = mdns_tx_handle_packet m addr (x_send_at q + late) q (r\<lparr>r_queue := []\<rparr>)"
proof -
  have d: "is_due (x_send_at q + late) q" by (rule late_is_due[OF l])
  have "m 0" using m unfolding enough_def by blast
  then have t: "turn m addr late r = mdns_tx_handle_packet m addr (x_send_at q + late) (q\<lparr>x_queued := False\<rparr>) (r\<lparr>r_actions := [], r_queue := []\<rparr>)"
    using d s unfolding turn_def mdns_scheduler_run_def stage_def execute_tx_handle_def by simp
  have r: "r\<lparr>r_actions := [], r_queue := []\<rparr> = r\<lparr>r_queue := []\<rparr>" using s unfolding stage_def by (cases r) simp
  have q: "q\<lparr>x_queued := False\<rparr> = q" using s unfolding stage_def by (cases q) simp
  show ?thesis unfolding t r q ..
qed

lemma again_stage:
  assumes "r_queue r = []" "r_actions r = []" "\<not> x_queued q" "x_pcb q = i" "p_state (r_pcbs r i) = s" "r_server r = sv"
  shows "stage i sv (next_state s) (q\<lparr>x_send_at := now + ms\<rparr>) (again now q ms i r) \<and> r_sent (again now q ms i r) = r_sent r"
  using assms unfolding again_def stage_def mdns_schedule_tx_packet_def set_state_def set_pcb_def by simp

lemma turn_on:
  assumes m: "enough m" and l: "0 <s late" and s: "stage i sv s q r" and st: "s \<in> {PCB_PROBE_1, PCB_PROBE_2, PCB_ANNOUNCE_1, PCB_ANNOUNCE_2}"
  shows "\<exists>r' t. turn m addr late r = Some r' \<and> stage i sv (next_state s) ((if s = PCB_PROBE_1 then all_multicast q else q)\<lparr>x_send_at := t\<rparr>) r'
         \<and> r_sent r' = r_sent r @ [q]"
proof -
  let ?q = "if s = PCB_PROBE_1 then all_multicast q else q"
  let ?r = "dispatch q (r\<lparr>r_queue := []\<rparr>)"
  have q: "\<not> x_queued ?q" "x_pcb ?q = i" "x_pcb q = i" using s unfolding stage_def all_multicast_def by auto
  have p: "p_state (r_pcbs (r\<lparr>r_queue := []\<rparr>) i) = s" using s unfolding stage_def by simp
  have "\<exists>ms. turn m addr late r = Some (again (x_send_at q + late) ?q ms i ?r)"
    using st unfolding turn_of_one[OF m l s] mdns_tx_handle_packet_def Let_def q(3) p by auto
  then obtain ms where t: "turn m addr late r = Some (again (x_send_at q + late) ?q ms i ?r)" ..
  have "stage i sv (next_state s) (?q\<lparr>x_send_at := x_send_at q + late + ms\<rparr>) (again (x_send_at q + late) ?q ms i ?r)
        \<and> r_sent (again (x_send_at q + late) ?q ms i ?r) = r_sent ?r"
    by (rule again_stage) (use s q in \<open>simp_all add: stage_def dispatch_def\<close>)
  moreover have "r_sent ?r = r_sent r @ [q]" unfolding dispatch_def by simp
  ultimately show ?thesis unfolding t by metis
qed

lemma turn_announce:
  assumes m: "enough m" and l: "0 <s late" and s: "stage i sv PCB_PROBE_3 q r"
    and a: "mdns_create_announce_from_probe m addr sv q = Some (Some a)" "\<not> x_queued a" "x_pcb a = i"
  shows "\<exists>r' t. turn m addr late r = Some r' \<and> stage i sv PCB_ANNOUNCE_1 (a\<lparr>x_send_at := t\<rparr>) r' \<and> r_sent r' = r_sent r @ [q]"
proof -
  let ?r1 = "dispatch q (r\<lparr>r_queue := []\<rparr>)"
  let ?r = "set_pcb i (probe_done (r_pcbs ?r1 i)) ?r1"
  have t: "turn m addr late r = Some (again (x_send_at q + late) a 250 i ?r)"
    using s a(1) unfolding turn_of_one[OF m l s] mdns_tx_handle_packet_def stage_def dispatch_def by (simp add: Let_def)
  have "stage i sv (next_state PCB_PROBE_3) (a\<lparr>x_send_at := x_send_at q + late + 250\<rparr>) (again (x_send_at q + late) a 250 i ?r)
        \<and> r_sent (again (x_send_at q + late) a 250 i ?r) = r_sent ?r"
    by (rule again_stage) (use s a in \<open>auto simp: stage_def dispatch_def set_pcb_def probe_done_def\<close>)
  then show ?thesis using t unfolding dispatch_def set_pcb_def by auto
qed

lemma turn_last:
  assumes m: "enough m" and l: "0 <s late" and s: "stage i sv PCB_ANNOUNCE_3 q r"
  shows "\<exists>r'. turn m addr late r = Some r' \<and> r_queue r' = [] \<and> p_state (r_pcbs r' i) = PCB_RUNNING \<and> r_sent r' = r_sent r @ [q]"
  using s unfolding turn_of_one[OF m l s] mdns_tx_handle_packet_def stage_def dispatch_def set_state_def set_pcb_def by simp

lemma created_announcement:
  assumes m: "enough m" and sv: "named_hosts sv" and q: "srv_have_service (x_servers q)"
  shows "\<exists>a. mdns_create_announce_from_probe m addr sv q = Some (Some a) \<and> x_pcb a = x_pcb q \<and> \<not> x_queued a
         \<and> x_flags a = MDNS_FLAGS_QR_AUTHORITATIVE \<and> x_questions a = [] \<and> (\<forall>s\<in>set (x_servers q). announced sv s (x_answers a))"
proof -
  obtain n1 d1 where "announce_servers m sv (x_servers q) (1, []) = Some (True, n1, d1)" "\<forall>s\<in>set (x_servers q). announced sv s d1"
    using announce_servers_all[OF m sv q] by blast
  then show ?thesis using m unfolding mdns_create_announce_from_probe_def enough_def mdns_alloc_packet_default_def by simp
qed

lemma restart_stages_probe:
  assumes m: "enough m" and sv: "named_hosts (r_server r)" and h: "\<not> str_null_or_empty (sv_hostname (r_server r))"
    and q: "r_queue r = []" "r_actions r = []" and ps: "is_probing (p_state (r_pcbs r i)) \<or> p_services (r_pcbs r i) = []"
  shows "\<exists>r0 p. mdns_restart_pcb m addr now random i r = Some r0 \<and> stage i (r_server r) PCB_PROBE_1 p r0 \<and> r_sent r0 = r_sent r
         \<and> x_flags p = 0 \<and> x_answers p = [] \<and> srv_have_service (x_servers p) \<and> (\<forall>k\<in>set (x_questions p). k_unicast k)
         \<and> (\<forall>j\<in>set (r_items r). probed j (x_servers p))"
proof -
  let ?c = "mdns_clear_pcb_tx_queue_head i r"
  have c: "?c = r" using q unfolding clear_pcb_queue by simp
  let ?ss = "if is_probing (p_state (r_pcbs r i)) then filter (\<lambda>s. s \<notin> set (p_services (r_pcbs r i))) (r_items r) else r_items r"
  have "mdns_restart_pcb m addr now random i r = mdns_init_pcb_probe_new_service m addr now random i ?ss True r"
    using h unfolding mdns_restart_pcb_def mdns_init_pcb_probe_def c by (simp add: Let_def)
  moreover have "set (r_items r) \<subseteq> set (?ss @ p_services (r_pcbs r i))" using ps by auto
  ultimately obtain ss where e: "mdns_restart_pcb m addr now random i r = mdns_init_pcb_probe_new_service m addr now random i ss True r"
    and ss: "set (r_items r) \<subseteq> set (ss @ p_services (r_pcbs r i))" by blast
  have "joined_services m (r_pcbs r i) ss \<noteq> None"
    using ps unfolding joined_services_def by (auto simp: Let_def)
  then obtain al m1 where j: "joined_services m (r_pcbs r i) ss = Some (Some (al, m1))" and m1: "enough m1"
    using joined_enough[OF m] by blast
  have al: "set (r_items r) \<subseteq> set al" using j ss ps unfolding joined_services_def by (auto simp: Let_def split: if_splits)
  have nm: "instance_ref (r_server r) j \<noteq> None" for j using h unfolding instance_ref_def by simp
  obtain p where p: "mdns_create_probe_packet m1 addr (r_server r) i al True True = Some (Some p)"
    using create_probe_total[OF m1 sv] by blast
  show ?thesis
    using created_probe[OF p] p j q al nm unfolding e mdns_init_pcb_probe_new_service_def
    by (auto simp: Let_def stage_def set_pcb_def mdns_schedule_tx_packet_def)
qed

text \<open>C33: An interface that is started gets through. With memory, with a name, with nothing waiting in the queue, and however late the scheduler comes each time (up to half the range of
  the clock), six turns send three probes that differ only in that the first asks for unicast answers, and then the same announcement three times, which is an authoritative answer without
  questions that holds the four records of every service; then the queue is empty and the interface runs.\<close>

theorem three_probes_three_announcements:
  assumes m: "enough m" and sv: "named_hosts (r_server r)" and h: "\<not> str_null_or_empty (sv_hostname (r_server r))"
    and q: "r_queue r = []" "r_actions r = []" and ps: "is_probing (p_state (r_pcbs r i)) \<or> p_services (r_pcbs r i) = []"
    and l: "0 <s l1" "0 <s l2" "0 <s l3" "0 <s l4" "0 <s l5" "0 <s l6"
  shows "\<exists>p a r6.
    Option.bind (mdns_restart_pcb m a0 now random i r) (turns m [(a1, l1), (a2, l2), (a3, l3), (a4, l4), (a5, l5), (a6, l6)]) = Some r6
    \<and> r_queue r6 = [] \<and> p_state (r_pcbs r6 i) = PCB_RUNNING
    \<and> map (tx_out (r_server r)) (r_sent r6) = map (tx_out (r_server r)) (r_sent r @ [p, all_multicast p, all_multicast p, a, a, a])
    \<and> x_flags p = 0 \<and> (\<forall>k\<in>set (x_questions p). k_unicast k)
    \<and> x_flags a = MDNS_FLAGS_QR_AUTHORITATIVE \<and> x_questions a = [] \<and> (\<forall>j\<in>set (r_items r). four_records j (x_answers a))"
proof -
  let ?sv = "r_server r"
  obtain r0 p where 0: "mdns_restart_pcb m a0 now random i r = Some r0" "stage i ?sv PCB_PROBE_1 p r0" "r_sent r0 = r_sent r"
    and p: "x_flags p = 0" "srv_have_service (x_servers p)" "\<forall>k\<in>set (x_questions p). k_unicast k" "\<forall>j\<in>set (r_items r). probed j (x_servers p)"
    using restart_stages_probe[OF m sv h q ps] by blast
  let ?p = "all_multicast p"
  obtain r1 t1 where 1: "turn m a1 l1 r0 = Some r1" "stage i ?sv PCB_PROBE_2 (?p\<lparr>x_send_at := t1\<rparr>) r1" "r_sent r1 = r_sent r0 @ [p]"
    using turn_on[OF m l(1) 0(2), of a1] by auto
  obtain r2 t2 where 2: "turn m a2 l2 r1 = Some r2" "stage i ?sv PCB_PROBE_3 (?p\<lparr>x_send_at := t2\<rparr>) r2" "r_sent r2 = r_sent r1 @ [?p\<lparr>x_send_at := t1\<rparr>]"
    using turn_on[OF m l(2) 1(2), of a2] by auto
  let ?q = "?p\<lparr>x_send_at := t2\<rparr>"
  have qs: "x_servers ?q = x_servers p" "x_pcb ?q = i" using 0(2) unfolding all_multicast_def stage_def by simp_all
  have "srv_have_service (x_servers ?q)" using qs p(2) by simp
  then obtain a where a: "mdns_create_announce_from_probe m a3 ?sv ?q = Some (Some a)" "x_pcb a = i" "\<not> x_queued a"
    "x_flags a = MDNS_FLAGS_QR_AUTHORITATIVE" "x_questions a = []" "\<forall>s\<in>set (x_servers p). announced ?sv s (x_answers a)"
    using created_announcement[OF m sv] qs by metis
  obtain r3 t3 where 3: "turn m a3 l3 r2 = Some r3" "stage i ?sv PCB_ANNOUNCE_1 (a\<lparr>x_send_at := t3\<rparr>) r3" "r_sent r3 = r_sent r2 @ [?q]"
    using turn_announce[OF m l(3) 2(2) a(1,3,2)] by auto
  obtain r4 t4 where 4: "turn m a4 l4 r3 = Some r4" "stage i ?sv PCB_ANNOUNCE_2 (a\<lparr>x_send_at := t4\<rparr>) r4" "r_sent r4 = r_sent r3 @ [a\<lparr>x_send_at := t3\<rparr>]"
    using turn_on[OF m l(4) 3(2), of a4] by auto
  obtain r5 t5 where 5: "turn m a5 l5 r4 = Some r5" "stage i ?sv PCB_ANNOUNCE_3 (a\<lparr>x_send_at := t5\<rparr>) r5" "r_sent r5 = r_sent r4 @ [a\<lparr>x_send_at := t4\<rparr>]"
    using turn_on[OF m l(5) 4(2), of a5] by auto
  obtain r6 where 6: "turn m a6 l6 r5 = Some r6" "r_queue r6 = []" "p_state (r_pcbs r6 i) = PCB_RUNNING" "r_sent r6 = r_sent r5 @ [a\<lparr>x_send_at := t5\<rparr>]"
    using turn_last[OF m l(6) 5(2), of a6] by auto
  have t: "tx_out ?sv (x\<lparr>x_send_at := t\<rparr>) = tx_out ?sv x" for x t unfolding tx_out_def by simp
  have "four_records j (x_answers a)" if "j \<in> set (r_items r)" for j
    using p(4) a(6) that unfolding probed_def announced_def by (metis option.inject)
  then show ?thesis
    using 0(1) 1(1) 2(1) 3(1) 4(1) 5(1) 6(1-3) p(1,3) a(4,5)
    by (intro exI[of _ p] exI[of _ a] exI[of _ r6]) (simp add: t 6(4) 5(3) 4(3) 3(3) 2(3) 1(3) 0(3))
qed

definition example_host :: mdns_server where
  "example_host =
     \<lparr>sv_hostname = Some (ascii ''esp''), sv_instance = None,
      sv_services = (\<lambda>i. if i = 0 then Some \<lparr>s_instance = None, s_service = ascii ''_http'', s_proto = ascii ''_tcp'', s_hostname = Some (ascii ''esp''), s_priority = 0,
        s_weight = 0, s_port = 80, s_txt = [], s_subtype = []\<rparr> else None),
      sv_self_host = \<lparr>h_hostname = Some (ascii ''esp''), h_addr = []\<rparr>, sv_hosts = []\<rparr>"

definition example_responder :: responder where
  "example_responder = (fresh_responder example_host [(0, False)])\<lparr>r_items := [0]\<rparr>"

lemma example_responder_simps:
  "named_hosts (r_server example_responder)" "\<not> str_null_or_empty (sv_hostname (r_server example_responder))"
  "r_queue example_responder = []" "r_actions example_responder = []" "p_services (r_pcbs example_responder i) = []" "r_items example_responder = [0]"
  "r_sent example_responder = []" "r_ready example_responder = (\<lambda>_. False)" "r_ifs example_responder = [(0, False)]"
  unfolding example_responder_def fresh_responder_def example_host_def named_hosts_def str_null_or_empty_def ascii_def by simp_all

lemma enough_example: "enough (\<lambda>_. True)"
  unfolding enough_def by simp

lemma three_probes_three_announcements_witness:
  "\<exists>p a r6.
    Option.bind (mdns_restart_pcb (\<lambda>_. True) 0 0 0 (0, False) example_responder)
      (turns (\<lambda>_. True) [(1, 1), (2, 5), (3, 1), (4, 1), (5, 100), (6, 1)]) = Some r6
    \<and> p_state (r_pcbs r6 (0, False)) = PCB_RUNNING
    \<and> map (tx_out (r_server example_responder)) (r_sent r6)
        = map (tx_out (r_server example_responder)) ([] @ [p, all_multicast p, all_multicast p, a, a, a])
    \<and> four_records 0 (x_answers a)"
proof -
  have l: "0 <s (1 :: u32)" "0 <s (5 :: u32)" "0 <s (100 :: u32)" by (simp_all add: word_sless_alt)
  note t = three_probes_three_announcements[where i = "(0, False)" and ?a0.0 = 0 and now = 0 and random = 0 and ?a1.0 = 1 and ?a2.0 = 2 and ?a3.0 = 3 and ?a4.0 = 4
        and ?a5.0 = 5 and ?a6.0 = 6, OF enough_example example_responder_simps(1-4) disjI2[OF example_responder_simps(5)] l(1) l(2) l(1) l(1) l(3) l(1),
        unfolded example_responder_simps(6,7)]
  then show ?thesis
  proof (elim exE conjE, intro exI conjI)
    show "four_records 0 (x_answers a)" if "\<forall>j\<in>set [0]. four_records j (x_answers a)" for a using that by simp
  qed
qed



section \<open>Where it fails\<close>

text \<open>The packet that is handled while the interface announces need not be the announcement: a reply is sent again and the interface goes on to its next state.\<close>

lemma any_packet_counts_as_announcement:
  assumes "p_state (r_pcbs r (x_pcb p)) = PCB_ANNOUNCE_1"
  shows "mdns_tx_handle_packet m a now p r = Some (again now p 1000 (x_pcb p) (dispatch p r))"
    and "p_state (r_pcbs (again now p 1000 (x_pcb p) (dispatch p r)) (x_pcb p)) = PCB_ANNOUNCE_2"
  using assms unfolding mdns_tx_handle_packet_def again_def set_state_def set_pcb_def mdns_schedule_tx_packet_def dispatch_def by (simp_all add: Let_def)

text \<open>Without memory for the announcement the interface waits for a packet that is not there; later announcements find the interface announcing, find no packet, and do nothing.\<close>

lemma failed_announcement_is_never_made_up:
  assumes "r_ready r i" "p_state (r_pcbs r i) = PCB_RUNNING" "\<not> str_null_or_empty (sv_hostname (r_server r))" "\<not> m 0" "\<not> has_packet r i"
  shows "mdns_announce_pcb m a now rnd i ss ip r = Some (set_state i PCB_ANNOUNCE_1 r)"
    and "mdns_announce_pcb m' a' now' rnd' i ss' ip' (set_state i PCB_ANNOUNCE_1 r) = Some (set_state i PCB_ANNOUNCE_1 r)"
proof -
  show "mdns_announce_pcb m a now rnd i ss ip r = Some (set_state i PCB_ANNOUNCE_1 r)"
    using assms unfolding mdns_announce_pcb_def mdns_create_announce_packet_def is_probing_def is_announcing_def by (simp add: Let_def)
  have "mdns_get_next_pcb_packet i (r_queue r) = None" using assms(5) unfolding no_next_packet has_packet_def by blast
  then show "mdns_announce_pcb m' a' now' rnd' i ss' ip' (set_state i PCB_ANNOUNCE_1 r) = Some (set_state i PCB_ANNOUNCE_1 r)"
    using assms(1) unfolding mdns_announce_pcb_def is_probing_def is_announcing_def by (simp add: Let_def set_state_def set_pcb_def)
qed

text \<open>The same for a probe: the packet that was in the queue is gone, the services to be probed are forgotten, and the state stays.\<close>

lemma failed_probe_is_forgotten:
  assumes "\<not> str_null_or_empty (sv_hostname (r_server r))" "p_state (r_pcbs r i) = PCB_PROBE_2" "p_services (r_pcbs r i) = [s]" "m 0" "\<not> m 1"
    and e: "mdns_init_pcb_probe m a now rnd i [] ip r = Some r'"
  shows "p_state (r_pcbs r' i) = PCB_PROBE_2 \<and> p_services (r_pcbs r' i) = [] \<and> \<not> has_packet r' i"
  using e assms(1-5) unfolding mdns_init_pcb_probe_def clear_pcb_queue mdns_init_pcb_probe_new_service_def joined_services_def mdns_create_probe_packet_def
  by (auto simp: Let_def is_probing_def has_packet_def)

lemma head_not_due: "r_queue r = q # ps \<Longrightarrow> \<not> x_queued q \<Longrightarrow> \<not> is_due now q \<Longrightarrow> r_queue (mdns_scheduler_run m room now r) = q # ps"
  unfolding mdns_scheduler_run_def by simp

text \<open>The order of the queue does not know that the clock wraps: a packet whose time is up waits behind one that was scheduled before the wrap for a time after it.\<close>

lemma due_packet_waits_behind_later_one:
  assumes "x_send_at p = 0xFFFFFFF0" "\<not> x_queued p" "\<not> x_queued q" "r_queue r = [p]"
  shows "is_due 0xFFFFFFF8 p \<and> \<not> is_due 0xFFFFFFF8 (q\<lparr>x_send_at := 0xFFFFFF00 + 1000\<rparr>) \<and>
    r_queue (mdns_schedule_tx_packet 0xFFFFFF00 q 1000 r) = [q\<lparr>x_send_at := 0xFFFFFF00 + 1000\<rparr>, p] \<and>
    r_queue (mdns_scheduler_run m room 0xFFFFFFF8 (mdns_schedule_tx_packet 0xFFFFFF00 q 1000 r)) = [q\<lparr>x_send_at := 0xFFFFFF00 + 1000\<rparr>, p]"
proof -
  let ?q = "q\<lparr>x_send_at := 0xFFFFFF00 + 1000\<rparr>"
  have d: "is_due 0xFFFFFFF8 p" "\<not> is_due 0xFFFFFFF8 ?q" using assms(1) unfolding is_due_def by simp_all
  have o: "x_send_at p > 0xFFFFFF00 + 1000" using assms(1) by simp
  have s: "r_queue (mdns_schedule_tx_packet 0xFFFFFF00 q 1000 r) = [?q, p]" unfolding mdns_schedule_tx_packet_def using assms(4) o by simp
  have "r_queue (mdns_scheduler_run m room 0xFFFFFFF8 (mdns_schedule_tx_packet 0xFFFFFF00 q 1000 r)) = [?q, p]"
    by (rule head_not_due[OF s _ d(2)]) (simp add: assms(3))
  then show ?thesis using d s by blast
qed

text \<open>Two questions are the same only if their strings are the same objects: a service on the own host is asked for twice.\<close>

lemma own_host_is_asked_for_twice:
  assumes "enough m" "sv_hostname sv = Some h" "h \<noteq> []" "service_hostname sv i = Some h"
  shows "\<exists>n p q. mdns_append_host_questions_for_services m sv [i] u (0, []) = (True, n, [p, q]) \<and> question_out sv p = question_out sv q"
proof -
  have n: "\<not> str_null_or_empty (sv_hostname sv)" "\<And>k. m k" using assms unfolding str_null_or_empty_def enough_def by auto
  have h: "hostname_ref sv i = Some (SvcHostname i)" using assms(4) unfolding hostname_ref_def by simp
  let ?q = "\<lambda>s. \<lparr>k_type = MDNS_TYPE_ANY, k_unicast = u, k_host = Some s, k_service = None, k_proto = None, k_domain = Some LocalDomain\<rparr>"
  have "mdns_append_host_questions_for_services m sv [i] u (0, []) = (True, 2, [?q ServerHostname, ?q (SvcHostname i)])"
    using n h unfolding mdns_append_host_questions_for_services_def by (simp add: and_then_def mdns_append_host_question_def mdns_question_exists_def)
  moreover have "question_out sv (?q ServerHostname) = question_out sv (?q (SvcHostname i))" using assms(2,4) unfolding question_out_def by simp
  ultimately show ?thesis by blast
qed

end
