(* ===== verification/MdnsTalk.thy ===== *)
theory MdnsTalk
  imports MdnsReply MdnsAnnounce
begin

text \<open>
  What the mDNS responder (managed_components/espressif__mdns/mdns.c) answers to those who look for its services, that a collision has one winner, and packets that bring it down.
\<close>

section \<open>Adding answers\<close>

definition about :: "tx \<Rightarrow> nat option set" where
  "about p = an_service ` (set (x_answers p) \<union> set (x_additional p))"

definition listed :: "nat \<Rightarrow> bool \<times> u16 \<times> host_ref option \<Rightarrow> tx \<Rightarrow> bool" where
  "listed i k p \<longleftrightarrow> (case k of (extra, t, h) \<Rightarrow> \<exists>a\<in>set (if extra then x_additional p else x_answers p). an_type a = t \<and> an_service a = Some i \<and> an_host a = h)"

definition adds :: "nat \<Rightarrow> (bool \<times> u16 \<times> host_ref option) set \<Rightarrow> tx \<Rightarrow> tx \<Rightarrow> bool" where
  "adds i S p p1 \<longleftrightarrow> set (x_answers p) \<subseteq> set (x_answers p1) \<and> set (x_additional p) \<subseteq> set (x_additional p1) \<and> about p1 = insert (Some i) (about p) \<and>
     p1 = p\<lparr>x_answers := x_answers p1, x_additional := x_additional p1\<rparr> \<and> (\<forall>k\<in>S. listed i k p1)"

definition does :: "nat \<Rightarrow> (bool \<times> u16 \<times> host_ref option) set \<Rightarrow> (draft \<Rightarrow> bool \<times> draft) \<Rightarrow> bool" where
  "does i S f \<longleftrightarrow> (\<forall>n p. \<exists>n1 p1. f (n, p) = (True, n1, p1) \<and> adds i S p p1)"

lemma listed_mono: "listed i k p \<Longrightarrow> set (x_answers p) \<subseteq> set (x_answers p1) \<Longrightarrow> set (x_additional p) \<subseteq> set (x_additional p1) \<Longrightarrow> listed i k p1"
  unfolding listed_def by (auto split: prod.splits if_splits)

lemma rest_trans:
  "p1 = p\<lparr>x_answers := a1, x_additional := b1\<rparr> \<Longrightarrow> p2 = p1\<lparr>x_answers := a2, x_additional := b2\<rparr> \<Longrightarrow> p2 = p\<lparr>x_answers := a2, x_additional := b2\<rparr>"
  by simp

lemma adds_rest: "adds i S p p1 \<Longrightarrow> p1 = p\<lparr>x_answers := x_answers p1, x_additional := x_additional p1\<rparr>"
  unfolding adds_def by blast

lemma adds_trans: "adds i S p p1 \<Longrightarrow> adds i T p1 p2 \<Longrightarrow> adds i (S \<union> T) p p2"
proof -
  assume 1: "adds i S p p1" and 2: "adds i T p1 p2"
  have "p2 = p\<lparr>x_answers := x_answers p2, x_additional := x_additional p2\<rparr>"
    by (rule rest_trans[OF adds_rest[OF 1] adds_rest[OF 2]])
  moreover have "listed i k p2" if "k \<in> S" for k using 1 2 that listed_mono unfolding adds_def by blast
  ultimately show ?thesis using 1 2 unfolding adds_def by auto
qed

lemma does_then: "does i S f \<Longrightarrow> does i T g \<Longrightarrow> does i (S \<union> T) (and_then f g)"
proof (unfold does_def, intro allI)
  fix n p
  assume f: "\<forall>n p. \<exists>n1 p1. f (n, p) = (True, n1, p1) \<and> adds i S p p1" and g: "\<forall>n p. \<exists>n1 p1. g (n, p) = (True, n1, p1) \<and> adds i T p p1"
  obtain n1 p1 where 1: "f (n, p) = (True, n1, p1)" "adds i S p p1" using f by blast
  obtain n2 p2 where 2: "g (n1, p1) = (True, n2, p2)" "adds i T p1 p2" using g by blast
  show "\<exists>n1 p1. and_then f g (n, p) = (True, n1, p1) \<and> adds i (S \<union> T) p p1"
    using 1(1) 2(1) adds_trans[OF 1(2) 2(2)] unfolding and_then_def by simp
qed

lemma alloc_does:
  assumes "enough m"
  shows "does i {(extra, t, h)} ((if extra then to_additional else to_answers) (mdns_alloc_answer m t (Some i) h fl False))"
proof -
  have "\<exists>n1 p1. (if extra then to_additional else to_answers) (mdns_alloc_answer m t (Some i) h fl False) (n, p) = (True, n1, p1) \<and> adds i {(extra, t, h)} p p1" for n p
  proof -
    obtain n1 d where d: "mdns_alloc_answer m t (Some i) h fl False (n, if extra then x_additional p else x_answers p) = (True, n1, d)"
      "set (if extra then x_additional p else x_answers p) \<subseteq> set d" "\<exists>a\<in>set d. an_type a = t \<and> an_service a = Some i \<and> an_host a = h"
      using alloc_grows[OF assms] by blast
    have "an_service ` set d = insert (Some i) (an_service ` set (if extra then x_additional p else x_answers p))"
      using d(1) assms unfolding mdns_alloc_answer_def enough_def by (auto split: if_splits simp: list_ex_iff intro: rev_image_eqI)
    then show ?thesis using d unfolding to_additional_def to_answers_def adds_def about_def listed_def
      by (cases extra) (auto simp: image_Un)
  qed
  then show ?thesis unfolding does_def by blast
qed

section \<open>Those who look for services\<close>

definition service_records :: "host_ref option \<Rightarrow> (bool \<times> u16 \<times> host_ref option) set" where
  "service_records h =
     (let d = (h \<noteq> Some SelfHost) in
      {(False, MDNS_TYPE_PTR, None), (d, MDNS_TYPE_SRV, None), (d, MDNS_TYPE_TXT, None), (True, MDNS_TYPE_A, h), (True, MDNS_TYPE_AAAA, h)})"

lemma service_is_described:
  assumes m: "enough m" and h: "mdns_get_host_item sv (service_hostname sv i) = Some h"
  shows "\<exists>n1 p1. mdns_create_answer_from_service m sv i MDNS_TYPE_PTR True fl (n, p) = Some (True, n1, p1) \<and> adds i (service_records h) p p1"
proof -
  let ?a = "\<lambda>extra t h fl. (if extra then to_additional else to_answers) (mdns_alloc_answer m t (Some i) h fl False)"
  let ?d = "h \<noteq> Some SelfHost"
  let ?f = "and_then (?a False MDNS_TYPE_PTR None False) (and_then (?a ?d MDNS_TYPE_SRV None fl) (and_then (?a ?d MDNS_TYPE_TXT None fl)
              (and_then (?a True MDNS_TYPE_A h fl) (?a True MDNS_TYPE_AAAA h fl))))"
  let ?S = "{(False, MDNS_TYPE_PTR, None)} \<union> ({(?d, MDNS_TYPE_SRV, None)} \<union> ({(?d, MDNS_TYPE_TXT, None)} \<union> ({(True, MDNS_TYPE_A, h)} \<union> {(True, MDNS_TYPE_AAAA, h)})))"
  have S: "?S = service_records h" unfolding service_records_def Let_def by auto
  have "does i ?S ?f" by (intro does_then alloc_does[OF m])
  then obtain n1 p1 where f: "?f (n, p) = (True, n1, p1)" "adds i ?S p p1" unfolding does_def by blast
  have "mdns_create_answer_from_service m sv i MDNS_TYPE_PTR True fl (n, p) = Some (?f (n, p))"
    unfolding mdns_create_answer_from_service_def h by (simp add: Let_def)
  then show ?thesis using f unfolding S by auto
qed

definition browses :: "bytes \<Rightarrow> bytes \<Rightarrow> parsed_question \<Rightarrow> bool" where
  "browses s t q \<longleftrightarrow> pq_type q = MDNS_TYPE_PTR \<and> \<not> pq_sub q \<and> pq_host q = None \<and> pq_service q = Some s \<and> pq_proto q = Some t"

definition offers :: "mdns_server \<Rightarrow> bytes \<Rightarrow> bytes \<Rightarrow> nat \<Rightarrow> bool" where
  "offers sv s t i \<longleftrightarrow> (\<exists>srv. sv_services sv i = Some srv \<and> s_hostname srv \<noteq> None \<and> strcaseeq (s_service srv) s \<and> strcaseeq (s_proto srv) t)"

definition described :: "mdns_server \<Rightarrow> tx \<Rightarrow> nat \<Rightarrow> bool" where
  "described sv p i \<longleftrightarrow> (\<exists>h. mdns_get_host_item sv (service_hostname sv i) = Some h \<and> (\<forall>k\<in>service_records h. listed i k p))"

lemma services_are_described:
  assumes m: "enough m" and sv: "named_hosts sv" and q: "browses s t q" and pp: "pp_records pp = []"
  shows "\<forall>i\<in>set is. sv_services sv i \<noteq> None \<Longrightarrow>
    \<exists>n1 p1. services_reply m sv pp q True fl is ((n, p), k) = Some (True, (n1, p1), k + length (filter (offers sv s t) is)) \<and>
      set (x_answers p) \<subseteq> set (x_answers p1) \<and> set (x_additional p) \<subseteq> set (x_additional p1) \<and> p1 = p\<lparr>x_answers := x_answers p1, x_additional := x_additional p1\<rparr> \<and>
      about p1 = about p \<union> Some ` {i\<in>set is. offers sv s t i} \<and> (\<forall>i\<in>set is. offers sv s t i \<longrightarrow> described sv p1 i)"
proof (induction "is" arbitrary: n p k)
  case (Cons i "is")
  then obtain srv where srv: "sv_services sv i = Some srv" by auto
  have w: "mdns_service_match_ptr_question sv srv q = Some (offers sv s t i)"
    using q srv unfolding mdns_service_match_ptr_question_def browses_def offers_def mdns_service_match_def by (auto split: option.splits)
  show ?case
  proof (cases "offers sv s t i")
    case False
    from Cons.IH[of n p k] Cons.prems obtain n1 p1 where "services_reply m sv pp q True fl is ((n, p), k) = Some (True, (n1, p1), k + length (filter (offers sv s t) is))"
      "set (x_answers p) \<subseteq> set (x_answers p1) \<and> set (x_additional p) \<subseteq> set (x_additional p1) \<and> p1 = p\<lparr>x_answers := x_answers p1, x_additional := x_additional p1\<rparr> \<and>
      about p1 = about p \<union> Some ` {i\<in>set is. offers sv s t i} \<and> (\<forall>i\<in>set is. offers sv s t i \<longrightarrow> described sv p1 i)" by auto
    then show ?thesis using False srv w by (intro exI[of _ n1] exI[of _ p1]) auto
  next
    case True
    obtain h where h: "mdns_get_host_item sv (service_hostname sv i) = Some h" using host_item_total[OF sv] by blast
    obtain n0 p0 where 0: "mdns_create_answer_from_service m sv i MDNS_TYPE_PTR True fl (n, p) = Some (True, n0, p0)" "adds i (service_records h) p p0"
      using service_is_described[OF m h] by blast
    obtain n1 p1 where 1: "services_reply m sv pp q True fl is ((n0, p0), k + 1) = Some (True, (n1, p1), k + 1 + length (filter (offers sv s t) is))"
      "set (x_answers p0) \<subseteq> set (x_answers p1)" "set (x_additional p0) \<subseteq> set (x_additional p1)" "p1 = p0\<lparr>x_answers := x_answers p1, x_additional := x_additional p1\<rparr>"
      "about p1 = about p0 \<union> Some ` {i\<in>set is. offers sv s t i}" "\<forall>i\<in>set is. offers sv s t i \<longrightarrow> described sv p1 i"
      using Cons.IH[of n0 p0 "k + 1"] Cons.prems by auto
    have d: "described sv p1 i"
      using h 0(2) listed_mono[OF _ 1(2,3)] unfolding described_def adds_def by blast
    have e: "p1 = p\<lparr>x_answers := x_answers p1, x_additional := x_additional p1\<rparr>"
      by (rule rest_trans[OF adds_rest[OF 0(2)] 1(4)])
    have "services_reply m sv pp q True fl (i # is) ((n, p), k) = Some (True, (n1, p1), k + length (filter (offers sv s t) (i # is)))"
      using srv w True pp 0(1) 1(1) q unfolding browses_def by simp
    moreover have "set (x_answers p) \<subseteq> set (x_answers p1)" "set (x_additional p) \<subseteq> set (x_additional p1)" using 0(2) 1(2,3) unfolding adds_def by auto
    moreover have "about p1 = about p \<union> Some ` {j\<in>set (i # is). offers sv s t j}" using 0(2) 1(5) True unfolding adds_def by auto
    ultimately show ?thesis using e d 1(6) by (intro exI[of _ n1] exI[of _ p1]) simp
  qed
qed simp

lemma first_item_found:
  "\<forall>i\<in>set items. sv_services sv i \<noteq> None \<Longrightarrow>
    \<exists>x. first_item (\<lambda>s. Some (P s)) sv items = Some x \<and> (x \<noteq> None \<longleftrightarrow> (\<exists>i\<in>set items. \<exists>s. sv_services sv i = Some s \<and> P s))"
proof (induction items)
  case (Cons i items)
  then obtain z where "sv_services sv i = Some z" by auto
  with Cons show ?case by (cases "P z") auto
qed simp

lemma types_of_questions: "MDNS_TYPE_PTR \<noteq> MDNS_TYPE_SRV" "MDNS_TYPE_PTR \<noteq> MDNS_TYPE_TXT" "MDNS_TYPE_PTR \<noteq> MDNS_TYPE_A" "MDNS_TYPE_PTR \<noteq> MDNS_TYPE_AAAA" "MDNS_TYPE_PTR \<noteq> MDNS_TYPE_ANY"
  unfolding MDNS_TYPE_PTR_def MDNS_TYPE_SRV_def MDNS_TYPE_TXT_def MDNS_TYPE_A_def MDNS_TYPE_AAAA_def MDNS_TYPE_ANY_def by simp_all

text \<open>A question for the services of a type.\<close>

definition browse_question :: "bytes \<Rightarrow> bytes \<Rightarrow> question \<Rightarrow> bool" where
  "browse_question s t q \<longleftrightarrow>
     qu_class q = 1 \<and> qu_type q = MDNS_TYPE_PTR \<and> s \<noteq> [] \<and> t \<noteq> [] \<and> n_host (qu_name q) = [] \<and> n_service (qu_name q) = s \<and> n_proto (qu_name q) = t \<and>
     n_domain (qu_name q) = local_domain \<and> \<not> n_sub (qu_name q) \<and> \<not> n_invalid (qu_name q)"

lemma browse_is_kept:
  assumes e: "\<forall>i\<in>set items. sv_services sv i \<noteq> None" and q: "browse_question s t q" and m: "enough m"
  shows "\<exists>k. browses s t k \<and> pq_unicast k = qu_unicast q \<and>
    take_questions m sv items [q] 0 pp = Some (True, if \<exists>i\<in>set items. offers sv s t i then pp\<lparr>pp_questions := k # pp_questions pp\<rparr> else pp)"
proof -
  let ?n = "qu_name q"
  let ?k = "\<lparr>pq_type = qu_type q, pq_sub = n_sub ?n, pq_unicast = qu_unicast q, pq_host = mdns_strdup_check (n_host ?n), pq_service = mdns_strdup_check (n_service ?n),
    pq_proto = mdns_strdup_check (n_proto ?n), pq_domain = mdns_strdup_check (n_domain ?n)\<rparr>"
  obtain x where x: "mdns_get_service_item sv items (Some s) (Some t) None = Some x" "x \<noteq> None \<longleftrightarrow> (\<exists>i\<in>set items. offers sv s t i)"
  proof -
    obtain x where "mdns_get_service_item sv items (Some s) (Some t) None = Some x"
      "x \<noteq> None \<longleftrightarrow> (\<exists>i\<in>set items. \<exists>z. sv_services sv i = Some z \<and> mdns_service_match z (Some s) (Some t) None)"
      using first_item_found[OF e, of "\<lambda>z. mdns_service_match z (Some s) (Some t) None"] unfolding mdns_get_service_item_def by blast
    moreover have "(\<exists>z. sv_services sv i = Some z \<and> mdns_service_match z (Some s) (Some t) None) \<longleftrightarrow> offers sv s t i" for i
      unfolding offers_def mdns_service_match_def by (auto split: option.splits)
    ultimately show ?thesis using that by simp
  qed
  have d: "local_domain \<noteq> []" "strcaseeq local_domain local_domain" unfolding local_domain_def ascii_def strcaseeq_def by simp_all
  have o: "mdns_name_is_ours sv items ?n = Some (x \<noteq> None)"
    using q d x(1) unfolding mdns_name_is_ours_def browse_question_def by (cases x) auto
  have nd: "\<not> mdns_name_is_discovery ?n (qu_type q)" using q unfolding mdns_name_is_discovery_def browse_question_def by simp
  have "take_questions m sv items [q] 0 pp = Some (True, if x \<noteq> None then pp\<lparr>pp_questions := ?k # pp_questions pp\<rparr> else pp)"
    using q nd o m types_of_questions(5) unfolding browse_question_def enough_def by (auto simp: Let_def)
  moreover have "browses s t ?k" using q unfolding browses_def browse_question_def mdns_strdup_check_def by simp
  ultimately show ?thesis using x(2) by (intro exI[of _ ?k]) simp
qed

lemma no_answers_about [simp]: "about (mdns_alloc_packet_default a i) = {}"
  unfolding about_def mdns_alloc_packet_default_def by simp

lemma alloc_packet_pcb [simp]: "x_pcb (mdns_alloc_packet_default a i) = i"
  unfolding mdns_alloc_packet_default_def by simp

lemma about_cong: "x_answers p = x_answers q \<Longrightarrow> x_additional p = x_additional q \<Longrightarrow> about p = about q \<and> described sv p i = described sv q i"
proof -
  assume a: "x_answers p = x_answers q" "x_additional p = x_additional q"
  have "listed i k p = listed i k q" for k using listed_mono[of i k p q] listed_mono[of i k q p] a by auto
  then show ?thesis using a unfolding about_def described_def by simp
qed


definition example_browse :: question where
  "example_browse =
     \<lparr>qu_name = \<lparr>n_host = [], n_service = ascii ''_HTTP'', n_proto = ascii ''_tcp'', n_domain = local_domain, n_parts = 3, n_sub = False, n_invalid = False\<rparr>,
      qu_type = MDNS_TYPE_PTR, qu_class = 1, qu_unicast = False\<rparr>"

definition example_asked :: parsed_packet where
  "example_asked =
     \<lparr>pp_pcb = (0, False), pp_src_port = MDNS_SERVICE_PORT, pp_authoritative = False, pp_probe = False, pp_discovery = False, pp_distributed = False,
      pp_questions = [], pp_records = [], pp_id = 0\<rparr>"


section \<open>A collision has one winner\<close>

lemma memcmp_swap: "memcmp xs ys = - memcmp ys xs"
  by (induction xs ys rule: memcmp.induct) auto

lemma memcmp_zero: "length xs = length ys \<Longrightarrow> memcmp xs ys = 0 \<longleftrightarrow> xs = ys"
  by (induction xs ys rule: list_induct2) auto

lemma winner_swap: "winner (- x) = - winner x" "winner x = 0 \<longleftrightarrow> x = 0"
  unfolding winner_def by auto

lemma u16_bytes_inj: "u16_bytes x = u16_bytes y \<longleftrightarrow> x = y"
proof
  assume "u16_bytes x = u16_bytes y"
  then have h: "(ucast (drop_bit 8 x) :: u8) = ucast (drop_bit 8 y)" and l: "(ucast x :: u8) = ucast y" unfolding u16_bytes_def by simp_all
  show "x = y"
  proof (rule bit_word_eqI)
    fix n assume n: "n < LENGTH(16)"
    show "bit x n = bit y n"
    proof (cases "n < 8")
      case True
      then show ?thesis using arg_cong[OF l, of "\<lambda>w. bit w n"] by (simp add: bit_ucast_iff)
    next
      case False
      then have "n - 8 < 8" using n by simp
      then have "bit (ucast (drop_bit 8 x) :: u8) (n - 8) = bit x n" "bit (ucast (drop_bit 8 y) :: u8) (n - 8) = bit y n"
        using n False by (simp_all add: bit_ucast_iff bit_drop_bit_eq)
      then show ?thesis using h by simp
    qed
  qed
qed simp

lemma srv_data_inj:
  assumes "length a = length b"
  shows "srv_data p w t a local_domain = srv_data p' w' t' b local_domain \<longleftrightarrow> p = p' \<and> w = w' \<and> t = t' \<and> a = b"
proof -
  have "length (u16_bytes x) = 2" for x unfolding u16_bytes_def by simp
  then show ?thesis using assms unfolding srv_data_def by (auto simp: u16_bytes_inj)
qed

text \<open>C36: A collision has one winner. When two devices with host names in the same domain claim a service with the same name, each compares its record with the other's; what one takes for a victory the other
  takes for a defeat, and they call it a draw exactly if port, priority, weight and host name are the same.\<close>

theorem collision_has_one_winner:
  assumes a: "sv_hostname sva = Some ha" "ha \<noteq> []" and b: "sv_hostname svb = Some hb" "hb \<noteq> []"
  shows "mdns_check_srv_collision sva sa (s_priority sb) (s_weight sb) (s_port sb) hb local_domain
       = - mdns_check_srv_collision svb sb (s_priority sa) (s_weight sa) (s_port sa) ha local_domain \<and>
    (mdns_check_srv_collision sva sa (s_priority sb) (s_weight sb) (s_port sb) hb local_domain = 0
       \<longleftrightarrow> s_priority sa = s_priority sb \<and> s_weight sa = s_weight sb \<and> s_port sa = s_port sb \<and> ha = hb)"
proof -
  have l: "length local_domain = 5" unfolding local_domain_def ascii_def by simp
  let ?a = "srv_data (s_priority sa) (s_weight sa) (s_port sa) ha local_domain"
  let ?b = "srv_data (s_priority sb) (s_weight sb) (s_port sb) hb local_domain"
  show ?thesis
  proof (cases "length ha = length hb")
    case False
    then show ?thesis using a b l unfolding mdns_check_srv_collision_def by auto
  next
    case True
    have len: "length ?a = length ?b" using True unfolding srv_data_def u16_bytes_def by simp
    have "mdns_check_srv_collision sva sa (s_priority sb) (s_weight sb) (s_port sb) hb local_domain = winner (memcmp ?a ?b)"
      "mdns_check_srv_collision svb sb (s_priority sa) (s_weight sa) (s_port sa) ha local_domain = winner (memcmp ?b ?a)"
      using True a b l unfolding mdns_check_srv_collision_def by simp_all
    then show ?thesis using memcmp_swap[of ?b ?a] winner_swap memcmp_zero[OF len] srv_data_inj[OF True] by simp
  qed
qed

definition example_web :: mdns_service where
  "example_web =
     \<lparr>s_instance = None, s_service = ascii ''_http'', s_proto = ascii ''_tcp'', s_hostname = None, s_priority = 0, s_weight = 0, s_port = 80, s_txt = [], s_subtype = []\<rparr>"

lemma collision_has_one_winner_witness:
  "mdns_check_srv_collision example_host example_web 0 0 80 (ascii ''esq'') local_domain
     = - mdns_check_srv_collision (example_host\<lparr>sv_hostname := Some (ascii ''esq'')\<rparr>) example_web 0 0 80 (ascii ''esp'') local_domain"
proof -
  let ?b = "example_host\<lparr>sv_hostname := Some (ascii ''esq'')\<rparr>"
  have h: "sv_hostname example_host = Some (ascii ''esp'')" "ascii ''esp'' \<noteq> []" "sv_hostname ?b = Some (ascii ''esq'')" "ascii ''esq'' \<noteq> []"
    unfolding example_host_def ascii_def by simp_all
  have s: "s_priority example_web = 0" "s_weight example_web = 0" "s_port example_web = 80" unfolding example_web_def by simp_all
  show ?thesis using collision_has_one_winner[OF h, of example_web example_web] unfolding s by (rule conjunct1)
qed

section \<open>Packets that bring it down\<close>

text \<open>A second answer to a discovery question, from one who knows the service already: the question was removed with the first, and the empty list is read.\<close>

lemma discovery_without_questions_crashes:
  assumes "mdns_name_is_ours sv items t = Some True" "\<not> n_sub t" "n_host t = []" "mdns_get_service_item sv items (Some (n_service t)) (Some (n_proto t)) None = Some (Some i)"
    "pp_questions p = []"
  shows "take_pointer sv items memory True t ttl p r = None"
  using assms unfolding take_pointer_def mdns_remove_parsed_question_def by simp

lemma first_known_answer_removes_question:
  assumes "mdns_name_is_ours sv items t = Some True" "\<not> n_sub t" "n_host t = []" "mdns_get_service_item sv items (Some (n_service t)) (Some (n_proto t)) None = Some (Some i)"
    "sv_services sv i = Some srv" "s_instance srv = None"
    "pp_questions p = [\<lparr>pq_type = MDNS_TYPE_SDPTR, pq_sub = False, pq_unicast = u, pq_host = None, pq_service = Some (s_service srv), pq_proto = Some (s_proto srv),
       pq_domain = Some local_domain\<rparr>]"
  shows "\<exists>p1. take_pointer sv items True True t ttl p r = Some (True, p1, r) \<and> pp_questions p1 = [] \<and>
    take_pointer sv items memory True t ttl p1 r = None"
proof -
  have c: "strcaseeq x x" for x unfolding strcaseeq_def by simp
  have "mdns_question_matches sv (hd (pp_questions p)) MDNS_TYPE_SDPTR (Some i) = Some True"
    using assms(5-7) c unfolding mdns_question_matches_def is_local_def MDNS_TYPE_SDPTR_def MDNS_TYPE_A_def MDNS_TYPE_AAAA_def by simp
  then have "mdns_remove_parsed_question sv MDNS_TYPE_SDPTR (Some i) p = Some (p\<lparr>pp_questions := []\<rparr>)"
    using assms(7) unfolding mdns_remove_parsed_question_def by simp
  then have t: "\<exists>p1. take_pointer sv items True True t ttl p r = Some (True, p1, r) \<and> pp_questions p1 = []"
    using assms(1-4) unfolding take_pointer_def by simp
  then show ?thesis using discovery_without_questions_crashes[OF assms(1-4)] by blast
qed

text \<open>Without a host name, a service without an instance name has no name at all: the comparison with the name in a packet reads the null pointer.\<close>

lemma unnamed_service_crashes:
  assumes "sv_hostname sv = None" "sv_instance sv = None" "sv_services sv i = Some srv" "s_instance srv = None"
    "n_domain t = local_domain" "n_service t = s_service srv" "n_proto t = s_proto srv" "n_service t \<noteq> []" "n_proto t \<noteq> []" "n_host t \<noteq> []" "\<not> n_sub t"
  shows "mdns_name_is_ours sv (i # is) t = None"
  using assms unfolding mdns_name_is_ours_def mdns_get_service_item_instance_def mdns_service_match_instance_def mdns_instance_name_match_def
    mdns_get_default_instance_name_def str_null_or_empty_def
  by (simp add: strcaseeq_def local_domain_def ascii_def Let_def)

text \<open>A question for the service record of a host, which is a name of the responder, has no answer; it takes the answers to all other questions with it.\<close>

lemma one_vain_question_takes_all:
  assumes "pq_type q = MDNS_TYPE_SRV" "pq_service q = None" "pq_host q = Some h" "\<forall>i\<in>set (r_items r). sv_services (r_server r) i \<noteq> None" "pp_questions pp = q # qs"
  shows "mdns_create_answer_from_parsed_packet m addr now k pp r = Some (k, r)"
proof -
  have "mdns_get_service_item_instance (r_server r) (r_items r) (Some h) None (pq_proto q) None = Some None"
    using first_item_found[OF assms(4), of "\<lambda>_. False"] unfolding mdns_get_service_item_instance_def mdns_service_match_instance_def by auto
  then have "question_reply m (r_server r) (r_items r) pp fl q (d, k) = Some (False, d, k)" for fl d k
    using assms(1-3) unfolding question_reply_def by (simp add: Let_def)
  then have "questions_reply m (r_server r) (r_items r) pp fl (q # qs) (d, k) = Some (False, d, k)" for fl d k by simp
  then show ?thesis unfolding mdns_create_answer_from_parsed_packet_def assms(5) by (simp add: Let_def del: questions_reply.simps)
qed

end
