(* ===== verification/Spec2Isabelle.thy ===== *)
theory Spec2Isabelle
  imports AppMain Loader Button DiagStore CborTrip CborSafe JsonAccess CmdResp WorkQueue EncImg SecureCert LogHook DataPoints MdnsTrip MdnsTalk
begin

text \<open>
  A verification library for the firmware of a Matter light switch with a touch slider and a push button (src/main, src/components)
  and for the components of other origin it is built with (src/managed_components). All paths below are under src/.

  \<^bold>\<open>The program and its parts.\<close> main/app_main.cpp boots the device: it creates the button and the slider task, starts the Matter
  stack, and passes attribute writes to components/IODriver, which shares a few globals between the interrupt of the button, the slider task and
  the attribute callback and drives components/SliderDriver: the touch slider, the LED bar and the timer that fires the triac at a phase angle of
  the mains. Around this the build holds libraries. The serial flasher loads a co-processor: loader API over ROM protocol over SLIP framing over a port.
  The button library debounces and counts clicks from a periodic timer. The diagnostics record log messages, metrics and variables into ring buffers that survive a
  reset, and CBOR and JSON libraries encode and decode what the agents exchange. The RainMaker helpers decode commands and queue work; the encrypted
  image and the certificate manager read what is in flash. The parts meet in function calls, callbacks and shared globals. Where the caller
  and the callee are both in the repository the model composes them (firmware, flasher, diagnostics store, generator with
  parser, encoder with parser); where one side is not, it is a parameter: a record of functions over a state of its own.

  \<^bold>\<open>Conventions.\<close> Machine integers are words of their width, or numbers with the reduction written out; C \<open>int\<close> is an
  integer with \<open>to_i32\<close>. Structures are records, enumerations are data types. An error code is a value of \<open>esp_err\<close> or of the
  component's own type. A result \<open>None\<close> is behaviour that C leaves undefined (an access outside an array, a null pointer, a division by zero, a failed assertion),
  as each theory says, and the theorems show where it does not occur. A loop that may wait for ever is a \<open>partial_function\<close>, and that
  it ends is a theorem of its own. Hardware and the system are traces of the calls made, and parameters for the answers.

  \<^bold>\<open>Theories and sources.\<close>
  \<^item> Prelude, Fl: integers, byte order, copies in buffers; rounding of \<open>float\<close> and \<open>double\<close> arithmetic.
  \<^item> SliderDriver, IODriver, AppMain: components/SliderDriver, components/IODriver, main/app_main.cpp. \<open>slider\<close> holds the members of the class; \<open>io\<close> adds
    the globals. \<open>slider_step\<close> and \<open>sys_step\<close> interleave interrupts, task iterations and writes of a client. Shown: the position of a touch, the delay of the triac within the half
    cycle for every reachable state of the driver and of the firmware, and where the button and the remote state fall apart.
  \<^item> Port, Slip, Protocol, Md5, Targets, Loader: managed_components/espressif__esp-serial-flasher/src (one theory per C file; Port is include/esp_loader_io.h with the
    mock of the tests). The contracts of a port are the locales \<open>finite_port\<close> and \<open>lossless_port\<close>, interpreted by the mock port. Shown: framing is inverted by the receiver, commands
    end on every finite port and report the failure of the target, the streaming digest is that of RFC 1321, blocks are padded and digested, verification compares digests.
  \<^item> ButtonAdc, Button: managed_components/espressif__button (button_adc.c; iot_button.c and button_gpio.c). Shown: alternation of press and release, glitches
    below the debounce setting are ignored, clicks are reported, the timer runs exactly while there are buttons.
  \<^item> Ring, RtcStore, DiagStore: managed_components/espressif__esp_diag_data_store. The locale \<open>staged_fifo\<close> is what the stores use of a ring buffer. Shown: the critical store is a queue,
    the other drops its oldest whole records, initialisation keeps or discards.
  \<^item> LogHook, DataPoints: managed_components/espressif__esp_diagnostics (esp_diagnostics_log_hook.c; esp_diagnostics_metrics.c, esp_diagnostics_variables.c, parts of esp_diagnostics_utils.c). The locale
    \<open>keyed_table\<close> is interpreted by the metrics and by the variables. Shown: the arguments of a message are recorded in order as far as they fit, each message once; the tables are maps; data
    points read back.
  \<^item> MdnsTxt, MdnsName, MdnsPacket, MdnsRead, MdnsTrip: managed_components/espressif__mdns (mdns.c). TXT entries; names, read with their references and appended with the
    search for an earlier occurrence; records, questions and the packet dispatched to the network; the parser's walk over a packet. A packet under construction is the static buffer
    and the index; what is behind the index is part of the state, because the search reads it. Shown: any packet is taken apart safely; names, service and TXT records are
    read back if the search only finds complete names (\<open>sound_matches\<close>), and examples where it finds something else.
  \<^item> MdnsSend, MdnsProbe, MdnsAnnounce, MdnsReply, MdnsTalk: the same file. The queue of packets, the state machine of an interface and its events; every step and what it keeps; the life of an
    interface; questions, known answers, replies and collisions. Strings in questions and services in answers are references, allocations are answered by a function of their number, the
    clock and random numbers are arguments. Shown: three probes, three announcements of every service, then running; who waits has a packet; those who look for services find them;
    a collision has one winner; and the states and packets in which this fails.
  \<^item> JsonGen, Jsmn, JsonParser, JsonTrip, JsonRead, JsonAccess: managed_components/espressif__json_generator, espressif__jsmn, espressif__json_parser. The locale \<open>json_sink\<close> is interpreted
    by the flushing, the plain and the measuring buffer. Shown: the generator writes the text of a reference printer, the tokenizer is safe on any text, and what was generated is read back by key.
  \<^item> CborEnc, CborSink, CborDec, CborRead, CborTrip, CborSafe: managed_components/espressif__cbor/tinycbor/src (cborencoder.c; cborparser.c with the inline functions of
    cbor.h and cborinternal_p.h). The locale \<open>cbor_sink\<close> is interpreted by the buffer and by a writer. Shown: encoding fits or is measured, is read back,
    and arbitrary bytes are parsed without an access outside the buffer, in finite time.
  \<^item> CmdResp, WorkQueue: managed_components/espressif__rmaker_common (cmd_resp.c, work_queue.c). Shown: a command is answered with its id, status and data; work is executed in order
    and completely.
  \<^item> EncImg: managed_components/espressif__esp_encrypted_img. Shown: any chunking gives the decrypted image, accepted exactly if its tag matches.
  \<^item> SecureCert: managed_components/espressif__esp_secure_cert_mgr/srcs/esp_secure_cert_tlv_read.c. Shown: the entry asked for is read, listing shows the entries up to the first damaged one,
    and which length makes the search endless.

  \<^bold>\<open>Properties.\<close> The texts with an identifier precede the theorems that state the properties of the parts; each with a
  hypothesis is followed, at the end of its theory, by an instance in which the hypotheses hold. Behind a property stand, in this order, lemmas for each operation on each branch, an
  invariant preserved by each operation, and the induction over runs, chunks or nested data. What modelling showed to be wrong in the code is stated as
  a lemma or theorem about it as it is.

  \<^bold>\<open>Bounds and fuel.\<close> Fuel is used for walks that C bounds by the data: nested values of the CBOR parser (the bytes left, or the 1024 levels CBOR_PARSER_MAX_RECURSIONS
  of the code), a listing of entries and the search in a partition (its length). Each
  theorem that uses fuel says which amount is enough or shows that the result does not need it. The targets are 32 bit and little-endian. Configuration values are
  those of the Kconfig defaults or parameters of the model.

  \<^bold>\<open>Not modelled.\<close> The bindings to boards of the flasher, printing (CBOR to text, log output), conversion of half-precision floats, CBOR read through callbacks, searches and the API of the mDNS responder and the Insights
  agent (network services around lwIP, timers and transports that are not in the repository), the time and NVS helpers of RainMaker, the co-processor update over the flasher, the LED
  strip driver, and SwitchConfigurator and SensorConfigurator, which only call the Matter stack.
\<close>

end
